(* ===== verification/Prelude.thy ===== *)
theory Prelude
  imports Main "HOL-Library.Word" "HOL-Library.Char_ord" "HOL-Library.List_Lexorder"
    "HOL-Library.Code_Target_Numeral"
begin

text \<open>
  Shared vocabulary of the development: the collections of simplification rules, Python
  exceptions and fallible results, computations that log their external effects, and the
  byte streams of asyncio. Every component theory imports this one.

  A Python \<open>str\<close> and a Python \<open>bytes\<close> are both a list of HOL characters: a HOL
  character is exactly one octet, and as a code point it covers ASCII and Latin-1. Text with
  larger code points is outside the model's domain.
\<close>

type_synonym pystr = string
type_synonym bytes = string

named_theorems text_simps "evaluation rules of the Python text operations"
named_theorems io_rules "how predicates on the effect log pass through sequencing"
named_theorems policy_simps "definitions of the egress policy predicates"

section \<open>Exceptions and fallible results\<close>

text \<open>
  The exceptions the modelled code raises or catches. \<open>Stalled\<close> is not a Python
  exception: it is the value of a read that has no timeout, on a peer that sends nothing
  more and does not close. No handler of the source catches it.
\<close>

datatype exn =
    ValueError string
  | RuntimeError string
  | OSError string
  | ConnectionError string
  | GaiError string
  | TimeoutExn
  | IncompleteRead
  | Stalled

type_synonym 'a py = "exn + 'a"

text \<open>The class tests of the \<open>except\<close> clauses: \<open>socket.gaierror\<close>,
  \<open>ConnectionError\<close> and \<open>TimeoutError\<close> are subclasses of \<open>OSError\<close>.\<close>

fun is_oserror :: "exn \<Rightarrow> bool" where
  "is_oserror (OSError _) = True"
| "is_oserror (ConnectionError _) = True"
| "is_oserror (GaiError _) = True"
| "is_oserror TimeoutExn = True"
| "is_oserror _ = False"

fun is_valueerror :: "exn \<Rightarrow> bool" where
  "is_valueerror (ValueError _) = True"
| "is_valueerror _ = False"

fun is_runtimeerror :: "exn \<Rightarrow> bool" where
  "is_runtimeerror (RuntimeError _) = True"
| "is_runtimeerror _ = False"

fun is_connectionerror :: "exn \<Rightarrow> bool" where
  "is_connectionerror (ConnectionError _) = True"
| "is_connectionerror _ = False"

text \<open>\<open>str(exc)\<close>.\<close>

fun exn_str :: "exn \<Rightarrow> pystr" where
  "exn_str (ValueError m) = m"
| "exn_str (RuntimeError m) = m"
| "exn_str (OSError m) = m"
| "exn_str (ConnectionError m) = m"
| "exn_str (GaiError m) = m"
| "exn_str TimeoutExn = ''''"
| "exn_str IncompleteRead = ''incomplete read''"
| "exn_str Stalled = ''''"

definition rbind :: "'e + 'a \<Rightarrow> ('a \<Rightarrow> 'e + 'b) \<Rightarrow> 'e + 'b" where
  "rbind r f = (case r of Inl e \<Rightarrow> Inl e | Inr x \<Rightarrow> f x)"

text \<open>\<open>try: r except <catches>: h\<close>.\<close>

definition rcatch :: "'e + 'a \<Rightarrow> ('e \<Rightarrow> bool) \<Rightarrow> ('e \<Rightarrow> 'e + 'a) \<Rightarrow> 'e + 'a" where
  "rcatch r p h = (case r of Inl e \<Rightarrow> (if p e then h e else Inl e) | Inr x \<Rightarrow> Inr x)"

text \<open>\<open>if c: raise e\<close>.\<close>

definition raise_if :: "bool \<Rightarrow> 'e \<Rightarrow> 'e + unit" where
  "raise_if c e = (if c then Inl e else Inr ())"

fun rmapM :: "('a \<Rightarrow> 'e + 'b) \<Rightarrow> 'a list \<Rightarrow> 'e + 'b list" where
  "rmapM f [] = Inr []"
| "rmapM f (x # xs) = rbind (f x) (\<lambda>y. rbind (rmapM f xs) (\<lambda>ys. Inr (y # ys)))"

lemma rbind_simps [simp]:
  "rbind (Inl e) f = Inl e"
  "rbind (Inr x) f = f x"
  by (simp_all add: rbind_def)

lemma rbind_Inr_iff: "rbind r f = Inr y \<longleftrightarrow> (\<exists>x. r = Inr x \<and> f x = Inr y)"
  by (cases r) auto

lemma rbind_Inl_iff: "rbind r f = Inl e \<longleftrightarrow> r = Inl e \<or> (\<exists>x. r = Inr x \<and> f x = Inl e)"
  by (cases r) auto

lemma rcatch_Inr [simp]: "rcatch (Inr x) p h = Inr x"
  by (simp add: rcatch_def)

lemma rcatch_Inl: "rcatch (Inl e) p h = (if p e then h e else Inl e)"
  by (simp add: rcatch_def)

lemma raise_if_Inr [simp]: "raise_if c e = Inr u \<longleftrightarrow> \<not> c"
  by (simp add: raise_if_def)

lemma raise_if_Inl [simp]: "raise_if c e = Inl e' \<longleftrightarrow> c \<and> e' = e"
  by (auto simp: raise_if_def)

lemma raise_if_simps [simp]: "raise_if True e = Inl e" "raise_if False e = Inr ()"
  by (simp_all add: raise_if_def)

lemma rmapM_Inr_length: "rmapM f xs = Inr ys \<Longrightarrow> length ys = length xs"
  by (induction xs arbitrary: ys) (auto simp: rbind_Inr_iff)

lemma rmapM_Inr_nth:
  "rmapM f xs = Inr ys \<Longrightarrow> i < length xs \<Longrightarrow> f (xs ! i) = Inr (ys ! i)"
  by (induction xs arbitrary: ys i) (auto simp: rbind_Inr_iff nth_Cons split: nat.splits)

lemma rmapM_Inr_set:
  "rmapM f xs = Inr ys \<Longrightarrow> y \<in> set ys \<Longrightarrow> \<exists>x \<in> set xs. f x = Inr y"
proof (induction xs arbitrary: ys)
  case (Cons x xs)
  then show ?case by (force simp: rbind_Inr_iff)
qed simp

section \<open>Computations with an effect log\<close>

text \<open>
  A coroutine is modelled by the list of the external effects it performs, in order, and
  its result: a value or the exception that leaves it.
\<close>

type_synonym ('ev, 'e, 'a) eff = "'ev list \<times> ('e + 'a)"
type_synonym ('ev, 'a) io = "('ev, exn, 'a) eff"

definition io_ret :: "'a \<Rightarrow> ('ev, 'e, 'a) eff" where
  "io_ret x = ([], Inr x)"

definition io_raise :: "'e \<Rightarrow> ('ev, 'e, 'a) eff" where
  "io_raise e = ([], Inl e)"

definition io_lift :: "'e + 'a \<Rightarrow> ('ev, 'e, 'a) eff" where
  "io_lift r = ([], r)"

definition io_emit :: "'ev list \<Rightarrow> ('ev, 'e, unit) eff" where
  "io_emit es = (es, Inr ())"

definition io_bind :: "('ev, 'e, 'a) eff \<Rightarrow> ('a \<Rightarrow> ('ev, 'e, 'b) eff) \<Rightarrow> ('ev, 'e, 'b) eff" where
  "io_bind m f = (case snd m of
     Inl e \<Rightarrow> (fst m, Inl e)
   | Inr x \<Rightarrow> (fst m @ fst (f x), snd (f x)))"

definition io_catch :: "('ev, 'e, 'a) eff \<Rightarrow> ('e \<Rightarrow> bool) \<Rightarrow> ('e \<Rightarrow> ('ev, 'e, 'a) eff) \<Rightarrow> ('ev, 'e, 'a) eff" where
  "io_catch m p h = (case snd m of
     Inl e \<Rightarrow> (if p e then (fst m @ fst (h e), snd (h e)) else m)
   | Inr x \<Rightarrow> m)"

text \<open>The sequencing operators expose the value they bind to termination proofs.\<close>

lemma io_bind_cong [fundef_cong]:
  "m = m' \<Longrightarrow> (\<And>x. snd m' = Inr x \<Longrightarrow> f x = f' x) \<Longrightarrow> io_bind m f = io_bind m' f'"
  by (auto simp: io_bind_def split: sum.splits)

lemma rbind_cong [fundef_cong]:
  "r = r' \<Longrightarrow> (\<And>x. r' = Inr x \<Longrightarrow> f x = f' x) \<Longrightarrow> rbind r f = rbind r' f'"
  by (auto simp: rbind_def split: sum.splits)

text \<open>For evaluation each computation is run once.\<close>

lemma io_bind_code [code]:
  "io_bind m f = (case m of
     (es, Inl e) \<Rightarrow> (es, Inl e)
   | (es, Inr x) \<Rightarrow> (case f x of (es', r) \<Rightarrow> (es @ es', r)))"
  by (auto simp: io_bind_def split: prod.splits sum.splits)

lemma io_catch_code [code]:
  "io_catch m p h = (case m of
     (es, Inl e) \<Rightarrow> (if p e then (case h e of (es', r) \<Rightarrow> (es @ es', r)) else (es, Inl e))
   | (es, Inr x) \<Rightarrow> (es, Inr x))"
  by (auto simp: io_catch_def split: prod.splits sum.splits)

text \<open>\<open>P\<close> holds of every effect a computation logs.\<close>

definition io_all :: "('ev \<Rightarrow> bool) \<Rightarrow> ('ev, 'e, 'a) eff \<Rightarrow> bool" where
  "io_all P m \<longleftrightarrow> list_all P (fst m)"

lemma io_simps [simp]:
  "io_bind (io_ret x) f = f x"
  "io_bind (io_raise e) f = io_raise e"
  "io_bind (io_lift (Inr x)) f = f x"
  "io_bind (io_lift (Inl e)) f = io_lift (Inl e)"
  "io_catch (io_ret x) p h = io_ret x"
  by (simp_all add: io_bind_def io_ret_def io_raise_def io_lift_def io_catch_def)

lemma io_result_simps [simp]:
  "snd (io_ret x) = Inr x" "snd (io_raise e) = Inl e"
  "snd (io_lift r) = r" "snd (io_emit es) = Inr ()"
  "fst (io_ret x) = []" "fst (io_raise e) = []"
  "fst (io_lift r) = []" "fst (io_emit es) = es"
  by (simp_all add: io_ret_def io_raise_def io_lift_def io_emit_def)

lemma snd_io_bind: "snd (io_bind m f) = rbind (snd m) (\<lambda>x. snd (f x))"
  by (simp add: io_bind_def rbind_def split: sum.splits)

lemma fst_io_bind:
  "fst (io_bind m f) = fst m @ (case snd m of Inl e \<Rightarrow> [] | Inr x \<Rightarrow> fst (f x))"
  by (simp add: io_bind_def split: sum.splits)

lemma snd_io_catch: "snd (io_catch m p h) = rcatch (snd m) p (\<lambda>e. snd (h e))"
  by (simp add: io_catch_def rcatch_def split: sum.splits)

lemma fst_io_catch:
  "fst (io_catch m p h) = fst m @ (case snd m of Inl e \<Rightarrow> (if p e then fst (h e) else []) | Inr x \<Rightarrow> [])"
  by (simp add: io_catch_def split: sum.splits)

lemma io_all_basic [simp, io_rules]:
  "io_all P (io_ret x)" "io_all P (io_raise e)" "io_all P (io_lift r)"
  "io_all P (io_emit es) \<longleftrightarrow> list_all P es"
  by (simp_all add: io_all_def)

lemma io_all_bind [intro, io_rules]:
  assumes "io_all P m" and "\<And>x. snd m = Inr x \<Longrightarrow> io_all P (f x)"
  shows "io_all P (io_bind m f)"
  using assms by (auto simp: io_all_def fst_io_bind split: sum.splits)

lemma io_all_catch [intro, io_rules]:
  assumes "io_all P m" and "\<And>e. snd m = Inl e \<Longrightarrow> p e \<Longrightarrow> io_all P (h e)"
  shows "io_all P (io_catch m p h)"
  using assms by (auto simp: io_all_def fst_io_catch split: sum.splits)

lemma io_all_if [io_rules]: "(b \<Longrightarrow> io_all P m) \<Longrightarrow> (\<not> b \<Longrightarrow> io_all P m') \<Longrightarrow> io_all P (if b then m else m')"
  by simp

lemma io_all_split_option [io_rules]:
  "(x = None \<Longrightarrow> io_all P m) \<Longrightarrow> (\<And>y. x = Some y \<Longrightarrow> io_all P (f y)) \<Longrightarrow> io_all P (case x of None \<Rightarrow> m | Some y \<Rightarrow> f y)"
  by (cases x) auto

lemma io_all_split_sum [io_rules]:
  "(\<And>e. x = Inl e \<Longrightarrow> io_all P (f e)) \<Longrightarrow> (\<And>y. x = Inr y \<Longrightarrow> io_all P (g y)) \<Longrightarrow> io_all P (case x of Inl e \<Rightarrow> f e | Inr y \<Rightarrow> g y)"
  by (cases x) auto

lemma io_all_split_prod [io_rules]:
  "(\<And>a b. x = (a, b) \<Longrightarrow> io_all P (f a b)) \<Longrightarrow> io_all P (case x of (a, b) \<Rightarrow> f a b)"
  by (cases x) auto

lemma io_all_mono: "io_all P m \<Longrightarrow> (\<And>e. P e \<Longrightarrow> Q e) \<Longrightarrow> io_all Q m"
  by (auto simp: io_all_def list_all_iff)

lemma io_allD: "io_all P m \<Longrightarrow> e \<in> set (fst m) \<Longrightarrow> P e"
  by (auto simp: io_all_def list_all_iff)

lemma io_all_pure: "fst m = [] \<Longrightarrow> io_all P m"
  by (simp add: io_all_def)

section \<open>Byte streams\<close>

text \<open>
  What an \<open>asyncio.StreamReader\<close> still delivers: the bytes to come, and what follows
  them. A reset is seen once the bytes before it are consumed.
\<close>

datatype stream_end = Eof | Silent | Reset

record istream =
  pending :: bytes
  ending :: stream_end

fun end_exn :: "stream_end \<Rightarrow> exn" where
  "end_exn Eof = IncompleteRead"
| "end_exn Silent = Stalled"
| "end_exn Reset = ConnectionError ''Connection reset by peer''"

definition CRLF :: bytes where
  "CRLF = [CHR 0x0D, CHR 0x0A]"

text \<open>\<open>StreamReader.readexactly(n)\<close>.\<close>

definition readexactly :: "nat \<Rightarrow> istream \<Rightarrow> (bytes \<times> istream) py" where
  "readexactly n s =
     (if n \<le> length (pending s)
      then Inr (take n (pending s), s\<lparr>pending := drop n (pending s)\<rparr>)
      else Inl (end_exn (ending s)))"

text \<open>
  \<open>StreamReader.readline()\<close> with the default limit of 65536 bytes: a longer line raises
  \<open>ValueError\<close>, the end of the stream returns the partial line.
\<close>

definition stream_limit :: nat where
  "stream_limit = 65536"

definition readline :: "istream \<Rightarrow> (bytes \<times> istream) py" where
  "readline s =
     (let line = takeWhile (\<lambda>c. c \<noteq> CHR 0x0A) (pending s);
          rest = dropWhile (\<lambda>c. c \<noteq> CHR 0x0A) (pending s)
      in if length line > stream_limit
         then Inl (ValueError ''Separator is not found, and chunk exceed the limit'')
         else case rest of
           nl # rest' \<Rightarrow> Inr (line @ [nl], s\<lparr>pending := rest'\<rparr>)
         | [] \<Rightarrow> (case ending s of
             Eof \<Rightarrow> Inr (line, s\<lparr>pending := []\<rparr>)
           | e \<Rightarrow> Inl (end_exn e)))"

text \<open>\<open>StreamReader.read(n)\<close>: at least one byte unless the stream ended.\<close>

definition read_some :: "nat \<Rightarrow> istream \<Rightarrow> (bytes \<times> istream) py" where
  "read_some n s =
     (if pending s \<noteq> []
      then Inr (take n (pending s), s\<lparr>pending := drop n (pending s)\<rparr>)
      else if ending s = Eof then Inr ([], s)
      else Inl (end_exn (ending s)))"

text \<open>\<open>asyncio.wait_for(..., timeout=t)\<close>: a read that never completes times out.\<close>

definition timed :: "'a py \<Rightarrow> 'a py" where
  "timed r = (case r of Inl Stalled \<Rightarrow> Inl TimeoutExn | _ \<Rightarrow> r)"

lemma timed_Inr [simp]: "timed r = Inr x \<longleftrightarrow> r = Inr x"
  by (auto simp: timed_def split: sum.splits exn.splits)

lemma timed_not_Stalled [simp]: "timed r \<noteq> Inl Stalled"
  by (auto simp: timed_def split: sum.splits exn.splits)

lemma readexactly_Inr:
  "readexactly n s = Inr (b, s') \<longleftrightarrow>
     n \<le> length (pending s) \<and> b = take n (pending s) \<and> s' = s\<lparr>pending := drop n (pending s)\<rparr>"
  by (auto simp: readexactly_def)

lemma readexactly_split:
  "readexactly n s = Inr (b, s') \<Longrightarrow> pending s = b @ pending s' \<and> length b = n \<and> ending s' = ending s"
  by (auto simp: readexactly_Inr)

lemma readline_split:
  assumes "readline s = Inr (l, s')"
  shows "pending s = l @ pending s' \<and> ending s' = ending s \<and> length l \<le> Suc stream_limit"
proof -
  define line where "line = takeWhile (\<lambda>c. c \<noteq> CHR 0x0A) (pending s)"
  define rest where "rest = dropWhile (\<lambda>c. c \<noteq> CHR 0x0A) (pending s)"
  have parts: "pending s = line @ rest" by (simp add: line_def rest_def)
  from assms have res: "(if length line > stream_limit
      then Inl (ValueError ''Separator is not found, and chunk exceed the limit'')
      else case rest of nl # rest' \<Rightarrow> Inr (line @ [nl], s\<lparr>pending := rest'\<rparr>)
         | [] \<Rightarrow> (case ending s of Eof \<Rightarrow> Inr (line, s\<lparr>pending := []\<rparr>) | e \<Rightarrow> Inl (end_exn e)))
      = Inr (l, s')"
    by (simp only: readline_def Let_def line_def rest_def)
  then have "length line \<le> stream_limit" by (auto split: if_splits)
  with res parts show ?thesis
    by (cases rest; cases "ending s") auto
qed

lemma readline_nonempty:
  assumes "readline s = Inr (l, s')" and "pending s \<noteq> []"
  shows "l \<noteq> []"
proof
  assume "l = []"
  with readline_split [OF assms(1)] have "pending s' = pending s" by simp
  with assms \<open>l = []\<close> show False
    by (cases "pending s") (auto simp: readline_def Let_def split: if_splits list.splits stream_end.splits)
qed

lemma readline_shorter:
  assumes "readline s = Inr (l, s')" and "l \<noteq> []"
  shows "length (pending s') < length (pending s)"
  using readline_split [OF assms(1)] assms(2) by auto

lemma read_some_split:
  "read_some n s = Inr (b, s') \<Longrightarrow> pending s = b @ pending s' \<and> ending s' = ending s \<and> length b \<le> n"
  by (auto simp: read_some_def split: if_splits)

end
