(* ===== verification/PyText.thy ===== *)
theory PyText
  imports Prelude
begin

text \<open>
  The Python text operations the modelled code uses: \<open>strip\<close>, \<open>split\<close>,
  \<open>partition\<close>, \<open>lower\<close>, \<open>startswith\<close>, decimal and hexadecimal
  \<open>int(...)\<close>, number formatting and the IDNA and UTF-8 codecs. All of it is exact on
  code points below 256; the two Unicode conversions that need tables (the IDNA encoding of
  a non-ASCII name, the decoding of non-ASCII UTF-8) are the fields of a \<open>codec\<close>
  record, an argument of the definitions that use them.
\<close>

section \<open>Characters\<close>

definition ord_c :: "char \<Rightarrow> nat" where
  "ord_c c = of_char c"

definition is_space :: "char \<Rightarrow> bool" where
  "is_space c \<longleftrightarrow> ord_c c \<in> {9, 10, 11, 12, 13, 28, 29, 30, 31, 32, 133, 160}"

definition is_digit :: "char \<Rightarrow> bool" where
  "is_digit c \<longleftrightarrow> 48 \<le> ord_c c \<and> ord_c c \<le> 57"

definition is_upper_ascii :: "char \<Rightarrow> bool" where
  "is_upper_ascii c \<longleftrightarrow> 65 \<le> ord_c c \<and> ord_c c \<le> 90"

definition is_lower_ascii :: "char \<Rightarrow> bool" where
  "is_lower_ascii c \<longleftrightarrow> 97 \<le> ord_c c \<and> ord_c c \<le> 122"

definition is_alpha_ascii :: "char \<Rightarrow> bool" where
  "is_alpha_ascii c \<longleftrightarrow> is_upper_ascii c \<or> is_lower_ascii c"

definition is_hex :: "char \<Rightarrow> bool" where
  "is_hex c \<longleftrightarrow> is_digit c \<or> (65 \<le> ord_c c \<and> ord_c c \<le> 70) \<or> (97 \<le> ord_c c \<and> ord_c c \<le> 102)"

definition ascii_c :: "char \<Rightarrow> bool" where
  "ascii_c c \<longleftrightarrow> ord_c c < 128"

definition is_ascii :: "pystr \<Rightarrow> bool" where
  "is_ascii s \<longleftrightarrow> list_all ascii_c s"

text \<open>Case mapping of the code points below 256. The capital forms of U+00B5 and U+00FF
  lie outside that range and are left as they are.\<close>

definition lower_c :: "char \<Rightarrow> char" where
  "lower_c c =
     (let n = ord_c c
      in if (65 \<le> n \<and> n \<le> 90) \<or> (192 \<le> n \<and> n \<le> 222 \<and> n \<noteq> 215)
         then char_of (n + 32) else c)"

definition upper_c :: "char \<Rightarrow> pystr" where
  "upper_c c =
     (let n = ord_c c
      in if n = 223 then ''SS''
         else if (97 \<le> n \<and> n \<le> 122) \<or> (224 \<le> n \<and> n \<le> 254 \<and> n \<noteq> 247)
         then [char_of (n - 32)] else [c])"

definition py_lower :: "pystr \<Rightarrow> pystr" where
  "py_lower s = map lower_c s"

definition py_upper :: "pystr \<Rightarrow> pystr" where
  "py_upper s = concat (map upper_c s)"

section \<open>Trimming, splitting, joining\<close>

definition lstrip_by :: "(char \<Rightarrow> bool) \<Rightarrow> pystr \<Rightarrow> pystr" where
  "lstrip_by p s = dropWhile p s"

definition rstrip_by :: "(char \<Rightarrow> bool) \<Rightarrow> pystr \<Rightarrow> pystr" where
  "rstrip_by p s = rev (dropWhile p (rev s))"

definition strip_by :: "(char \<Rightarrow> bool) \<Rightarrow> pystr \<Rightarrow> pystr" where
  "strip_by p s = rstrip_by p (lstrip_by p s)"

definition py_strip :: "pystr \<Rightarrow> pystr" where
  "py_strip s = strip_by is_space s"

text \<open>\<open>s.strip(chars)\<close>.\<close>

definition strip_chars :: "pystr \<Rightarrow> pystr \<Rightarrow> pystr" where
  "strip_chars cs s = strip_by (\<lambda>c. c \<in> set cs) s"

fun split_by :: "(char \<Rightarrow> bool) \<Rightarrow> pystr \<Rightarrow> pystr list" where
  "split_by p [] = [[]]"
| "split_by p (x # xs) =
     (if p x then [] # split_by p xs
      else (case split_by p xs of w # ws \<Rightarrow> (x # w) # ws | [] \<Rightarrow> [[x]]))"

text \<open>\<open>s.split(c)\<close> and \<open>s.split()\<close>.\<close>

definition split_on :: "char \<Rightarrow> pystr \<Rightarrow> pystr list" where
  "split_on c s = split_by (\<lambda>x. x = c) s"

definition py_split :: "pystr \<Rightarrow> pystr list" where
  "py_split s = filter (\<lambda>w. w \<noteq> []) (split_by is_space s)"

text \<open>\<open>s.partition(c)\<close> and \<open>s.rpartition(c)\<close>, the middle part as a flag.\<close>

definition partition_c :: "char \<Rightarrow> pystr \<Rightarrow> pystr \<times> bool \<times> pystr" where
  "partition_c c s =
     (if c \<in> set s
      then (takeWhile (\<lambda>x. x \<noteq> c) s, True, tl (dropWhile (\<lambda>x. x \<noteq> c) s))
      else (s, False, []))"

definition rpartition_c :: "char \<Rightarrow> pystr \<Rightarrow> pystr \<times> bool \<times> pystr" where
  "rpartition_c c s =
     (if c \<in> set s
      then (rev (tl (dropWhile (\<lambda>x. x \<noteq> c) (rev s))), True, rev (takeWhile (\<lambda>x. x \<noteq> c) (rev s)))
      else ([], False, s))"

fun join :: "pystr \<Rightarrow> pystr list \<Rightarrow> pystr" where
  "join sep [] = []"
| "join sep [w] = w"
| "join sep (w # ws) = w @ sep @ join sep ws"

fun starts_with :: "pystr \<Rightarrow> pystr \<Rightarrow> bool" where
  "starts_with s [] = True"
| "starts_with [] (_ # _) = False"
| "starts_with (x # xs) (y # ys) = (x = y \<and> starts_with xs ys)"

definition ends_with :: "pystr \<Rightarrow> pystr \<Rightarrow> bool" where
  "ends_with s t \<longleftrightarrow> starts_with (rev s) (rev t)"

text \<open>\<open>t in s\<close>.\<close>

fun contains :: "pystr \<Rightarrow> pystr \<Rightarrow> bool" where
  "contains [] t = (t = [])"
| "contains (x # xs) t = (starts_with (x # xs) t \<or> contains xs t)"

text \<open>\<open>sorted(set(xs))\<close>.\<close>

definition sorted_set :: "pystr list \<Rightarrow> pystr list" where
  "sorted_set xs = sort (remdups xs)"

text \<open>A text in single quotes, as \<open>repr\<close> prints one without quotes or escapes in it.\<close>

definition sq :: "pystr \<Rightarrow> pystr" where
  "sq s = [CHR 0x27] @ s @ [CHR 0x27]"

section \<open>Numbers\<close>

definition dec_nat :: "pystr \<Rightarrow> nat" where
  "dec_nat s = foldl (\<lambda>a c. 10 * a + (ord_c c - 48)) 0 s"

definition hex_digit_val :: "char \<Rightarrow> nat" where
  "hex_digit_val c =
     (let n = ord_c c in if n \<le> 57 then n - 48 else if n \<le> 70 then n - 55 else n - 87)"

definition hex_nat :: "pystr \<Rightarrow> nat" where
  "hex_nat s = foldl (\<lambda>a c. 16 * a + hex_digit_val c) 0 s"

fun nat_str :: "nat \<Rightarrow> pystr" where
  "nat_str n = (if n < 10 then [char_of (48 + n)] else nat_str (n div 10) @ [char_of (48 + n mod 10)])"

declare nat_str.simps [simp del]

definition int_str :: "int \<Rightarrow> pystr" where
  "int_str i = (if i < 0 then ''-'' @ nat_str (nat (- i)) else nat_str (nat i))"

definition hex_char :: "nat \<Rightarrow> char" where
  "hex_char n = char_of (if n < 10 then 48 + n else 87 + n)"

fun hex_str :: "nat \<Rightarrow> pystr" where
  "hex_str n = (if n < 16 then [hex_char n] else hex_str (n div 16) @ [hex_char (n mod 16)])"

declare hex_str.simps [simp del]

text \<open>
  \<open>int(s)\<close> in base 10: surrounding blanks, a sign, digits with single underscores
  between them; more than 4300 digits raise \<open>ValueError\<close>
  (\<open>sys.int_info.default_max_str_digits\<close>).
\<close>

definition max_str_digits :: nat where
  "max_str_digits = 4300"

definition int_limit_msg :: "nat \<Rightarrow> pystr" where
  "int_limit_msg n =
     ''Exceeds the limit (4300 digits) for integer string conversion: value has ''
     @ nat_str n @ '' digits; use sys.set_int_max_str_digits() to increase the limit''"

fun digits_ok :: "bool \<Rightarrow> pystr \<Rightarrow> bool" where
  "digits_ok after_digit [] = after_digit"
| "digits_ok after_digit (c # cs) =
     (if is_digit c then digits_ok True cs
      else c = CHR ''_'' \<and> after_digit \<and> digits_ok False cs)"

definition py_int :: "pystr \<Rightarrow> int py" where
  "py_int s =
     (let t = py_strip s;
          (neg, body) = (case t of
             c # cs \<Rightarrow> if c = CHR ''-'' then (True, cs) else if c = CHR ''+'' then (False, cs) else (False, t)
           | [] \<Rightarrow> (False, t));
          ds = filter is_digit body
      in if \<not> digits_ok False body
         then Inl (ValueError (''invalid literal for int() with base 10: '' @ s))
         else if length ds > max_str_digits then Inl (ValueError (int_limit_msg (length ds)))
         else Inr (if neg then - int (dec_nat ds) else int (dec_nat ds)))"

section \<open>Codecs\<close>

text \<open>
  \<open>idna_nonascii\<close> is \<open>str.encode("idna")\<close> on a name with a non-ASCII
  character, and \<open>utf8_replace\<close> is \<open>bytes.decode("utf-8", errors="replace")\<close>
  on bytes that are not all ASCII. On ASCII both are determined, and defined here.
\<close>

record codec =
  idna_nonascii :: "pystr \<Rightarrow> pystr option"
  utf8_replace :: "bytes \<Rightarrow> pystr"

definition label_ok :: "pystr \<Rightarrow> bool" where
  "label_ok l \<longleftrightarrow> 0 < length l \<and> length l < 64"

text \<open>\<open>s.encode("idna").decode("ascii")\<close>, \<open>None\<close> for \<open>UnicodeError\<close>.\<close>

definition idna :: "codec \<Rightarrow> pystr \<Rightarrow> pystr option" where
  "idna u s =
     (if s = [] then Some []
      else if is_ascii s
      then (let ls = split_on (CHR ''.'') s
            in if list_all label_ok (butlast ls) \<and> length (last ls) < 64 then Some s else None)
      else (case idna_nonascii u s of
              Some t \<Rightarrow> (if is_ascii t then Some t else None)
            | None \<Rightarrow> None))"

definition decode_utf8 :: "codec \<Rightarrow> bytes \<Rightarrow> pystr" where
  "decode_utf8 u b = (if is_ascii b then b else utf8_replace u b)"

text \<open>\<open>s.encode("utf-8")\<close>: a code point from 128 to 255 takes two octets.\<close>

definition utf8_c :: "char \<Rightarrow> bytes" where
  "utf8_c c = (let n = ord_c c in if n < 128 then [c] else [char_of (192 + n div 64), char_of (128 + n mod 64)])"

definition encode_utf8 :: "pystr \<Rightarrow> bytes" where
  "encode_utf8 s = concat (map utf8_c s)"

section \<open>Facts about characters\<close>

lemma ord_c_less [simp]: "ord_c c < 256"
  by (simp add: ord_c_def)

lemma char_of_ord_c [simp]: "char_of (ord_c c) = c"
  by (simp add: ord_c_def)

lemma ord_c_char_of [simp]: "ord_c (char_of n) = n mod 256"
  by (simp add: ord_c_def)

lemma ord_c_inject [simp]: "ord_c c = ord_c d \<longleftrightarrow> c = d"
  by (metis char_of_ord_c)

lemma ord_c_lower: "ord_c (lower_c c) =
    (if (65 \<le> ord_c c \<and> ord_c c \<le> 90) \<or> (192 \<le> ord_c c \<and> ord_c c \<le> 222 \<and> ord_c c \<noteq> 215)
     then ord_c c + 32 else ord_c c)"
  by (auto simp: lower_c_def Let_def)

lemma lower_c_idem [simp]: "lower_c (lower_c c) = lower_c c"
proof -
  have "ord_c (lower_c (lower_c c)) = ord_c (lower_c c)"
    unfolding ord_c_lower by auto
  then show ?thesis by simp
qed

lemma py_lower_idem [simp]: "py_lower (py_lower s) = py_lower s"
  by (simp add: py_lower_def)

lemma py_lower_simps [simp]:
  "py_lower [] = []" "py_lower (c # s) = lower_c c # py_lower s"
  "py_lower (s @ t) = py_lower s @ py_lower t" "length (py_lower s) = length s"
  "rev (py_lower s) = py_lower (rev s)"
  by (simp_all add: py_lower_def rev_map)

lemma ascii_lower [simp]: "ascii_c (lower_c c) = ascii_c c"
  by (auto simp: ascii_c_def ord_c_lower)

lemma is_ascii_simps [simp]:
  "is_ascii []" "is_ascii (c # s) \<longleftrightarrow> ascii_c c \<and> is_ascii s"
  "is_ascii (s @ t) \<longleftrightarrow> is_ascii s \<and> is_ascii t"
  "is_ascii (rev s) = is_ascii s" "is_ascii (py_lower s) = is_ascii s"
  by (auto simp: is_ascii_def py_lower_def list_all_iff)

lemma is_ascii_subset: "is_ascii s \<Longrightarrow> set t \<subseteq> set s \<Longrightarrow> is_ascii t"
  by (auto simp: is_ascii_def list_all_iff)

lemma lower_c_eq_dot: "lower_c c = CHR ''.'' \<longleftrightarrow> c = CHR ''.''"
proof -
  have dot: "ord_c (CHR ''.'') = 46" by (simp add: ord_c_def)
  have "lower_c c = CHR ''.'' \<longleftrightarrow> ord_c (lower_c c) = 46" by (metis dot ord_c_inject)
  also have "\<dots> \<longleftrightarrow> ord_c c = 46" by (auto simp: ord_c_lower)
  also have "\<dots> \<longleftrightarrow> c = CHR ''.''" by (metis dot ord_c_inject)
  finally show ?thesis .
qed

section \<open>Facts about trimming and splitting\<close>

lemma dropWhile_idem [simp]: "dropWhile p (dropWhile p s) = dropWhile p s"
  by (induction s) auto

lemma set_strip: "set (strip_by p s) \<subseteq> set s"
  unfolding strip_by_def rstrip_by_def lstrip_by_def
  by (metis set_rev set_dropWhileD subsetI)

lemma set_rstrip: "set (rstrip_by p s) \<subseteq> set s"
  unfolding rstrip_by_def by (metis set_rev set_dropWhileD subsetI)

lemma rstrip_prefix: "\<exists>t. s = rstrip_by p s @ t \<and> list_all p t"
proof -
  have "rev s = takeWhile p (rev s) @ dropWhile p (rev s)" by simp
  then have "s = rev (dropWhile p (rev s)) @ rev (takeWhile p (rev s))"
    by (metis rev_append rev_rev_ident)
  moreover have "list_all p (rev (takeWhile p (rev s)))"
    by (auto simp: list_all_iff dest: set_takeWhileD)
  ultimately show ?thesis unfolding rstrip_by_def by blast
qed

lemma rstrip_last: "rstrip_by p s \<noteq> [] \<Longrightarrow> \<not> p (last (rstrip_by p s))"
  by (simp add: rstrip_by_def last_rev hd_dropWhile)

lemma rstrip_idem [simp]: "rstrip_by p (rstrip_by p s) = rstrip_by p s"
  by (simp add: rstrip_by_def)

lemma dropWhile_hd: "s = [] \<or> \<not> p (hd s) \<Longrightarrow> dropWhile p s = s"
  by (cases s) auto

lemma rstrip_id: "s = [] \<or> \<not> p (last s) \<Longrightarrow> rstrip_by p s = s"
  by (simp add: rstrip_by_def dropWhile_hd hd_rev)

lemma strip_id: "s = [] \<or> (\<not> p (hd s) \<and> \<not> p (last s)) \<Longrightarrow> strip_by p s = s"
  by (auto simp: strip_by_def lstrip_by_def dropWhile_hd rstrip_id)

lemma split_by_not_Nil [simp]: "split_by p s \<noteq> []"
  by (induction s) (auto split: list.splits)

lemma split_on_not_Nil [simp]: "split_on c s \<noteq> []"
  by (simp add: split_on_def)

lemma split_by_parts: "w \<in> set (split_by p s) \<Longrightarrow> list_all (\<lambda>x. \<not> p x) w \<and> set w \<subseteq> set s"
proof (induction s arbitrary: w)
  case Nil
  then show ?case by simp
next
  case (Cons x xs)
  obtain v vs where vs: "split_by p xs = v # vs"
    using split_by_not_Nil by (metis list.exhaust)
  show ?case
  proof (cases "p x")
    case True
    with Cons show ?thesis by fastforce
  next
    case False
    with Cons.prems vs have "w = x # v \<or> w \<in> set vs" by auto
    moreover have "list_all (\<lambda>x. \<not> p x) v \<and> set v \<subseteq> set xs"
      using Cons.IH [of v] vs by simp
    moreover have "w \<in> set vs \<Longrightarrow> list_all (\<lambda>x. \<not> p x) w \<and> set w \<subseteq> set xs"
      using Cons.IH [of w] vs by simp
    ultimately show ?thesis using False by auto
  qed
qed

lemma split_on_parts: "w \<in> set (split_on c s) \<Longrightarrow> c \<notin> set w \<and> set w \<subseteq> set s"
  unfolding split_on_def using split_by_parts [of w "\<lambda>x. x = c" s] by (auto simp: list_all_iff)

lemma join_Cons: "ws \<noteq> [] \<Longrightarrow> join sep (w # ws) = w @ sep @ join sep ws"
  by (cases ws) simp_all

lemma join_split_on: "join [c] (split_on c s) = s"
proof (induction s)
  case Nil
  then show ?case by (simp add: split_on_def)
next
  case (Cons x xs)
  obtain v vs where vs: "split_by (\<lambda>x. x = c) xs = v # vs"
    using split_by_not_Nil by (metis list.exhaust)
  with Cons show ?case
    by (cases vs) (auto simp: split_on_def)
qed

lemma split_on_single: "c \<notin> set s \<Longrightarrow> split_on c s = [s]"
  by (induction s) (auto simp: split_on_def)

lemma split_on_append: "c \<notin> set w \<Longrightarrow> split_on c (w @ c # s) = w # split_on c s"
  by (induction w) (auto simp: split_on_def)

lemma split_on_join:
  "ws \<noteq> [] \<Longrightarrow> list_all (\<lambda>w. c \<notin> set w) ws \<Longrightarrow> split_on c (join [c] ws) = ws"
proof (induction ws)
  case Nil
  then show ?case by simp
next
  case (Cons w ws)
  then show ?case
    by (cases ws) (auto simp: split_on_single split_on_append)
qed

lemma starts_with_iff: "starts_with s t \<longleftrightarrow> (\<exists>r. s = t @ r)"
  by (induction s t rule: starts_with.induct) auto

lemma contains_iff: "contains s t \<longleftrightarrow> (\<exists>a b. s = a @ t @ b)"
proof (induction s)
  case (Cons x s)
  have "contains (x # s) t \<longleftrightarrow> (\<exists>b. x # s = t @ b) \<or> (\<exists>a b. s = a @ t @ b)"
    using Cons by (simp add: starts_with_iff)
  also have "\<dots> \<longleftrightarrow> (\<exists>a b. x # s = a @ t @ b)"
    by (metis append_Cons append_Nil list.sel(3) neq_Nil_conv tl_append2)
  finally show ?case .
qed simp

lemma ends_with_iff: "ends_with s t \<longleftrightarrow> (\<exists>r. s = r @ t)"
proof -
  have "ends_with s t \<longleftrightarrow> (\<exists>r. rev s = rev t @ r)" by (simp add: ends_with_def starts_with_iff)
  also have "\<dots> \<longleftrightarrow> (\<exists>r. s = r @ t)" by (metis rev_append rev_rev_ident)
  finally show ?thesis .
qed

lemma ends_with_refl [simp]: "ends_with s s"
  by (simp add: ends_with_iff)

lemma takeWhile_sep [simp]: "c \<notin> set a \<Longrightarrow> takeWhile (\<lambda>x. x \<noteq> c) (a @ c # b) = a"
  by (induction a) auto

lemma dropWhile_sep [simp]: "c \<notin> set a \<Longrightarrow> dropWhile (\<lambda>x. x \<noteq> c) (a @ c # b) = c # b"
  by (induction a) auto

lemma partition_c_found [simp]: "c \<notin> set a \<Longrightarrow> partition_c c (a @ c # b) = (a, True, b)"
  by (simp add: partition_c_def)

lemma partition_c_absent [simp]: "c \<notin> set s \<Longrightarrow> partition_c c s = (s, False, [])"
  by (simp add: partition_c_def)

lemma rpartition_c_found [simp]: "c \<notin> set b \<Longrightarrow> rpartition_c c (a @ c # b) = (a, True, b)"
  by (simp add: rpartition_c_def)

lemma rpartition_c_absent [simp]: "c \<notin> set s \<Longrightarrow> rpartition_c c s = ([], False, s)"
  by (simp add: rpartition_c_def)

lemma partition_c_join:
  assumes "partition_c c s = (a, f, b)"
  shows "s = (if f then a @ c # b else a) \<and> c \<notin> set a"
proof (cases "c \<in> set s")
  case True
  then obtain a' b' where s: "s = a' @ c # b'" and "c \<notin> set a'"
    by (meson split_list_first)
  with assms show ?thesis by auto
next
  case False
  with assms show ?thesis by auto
qed

lemma sorted_set_props [simp]:
  "set (sorted_set xs) = set xs" "sorted (sorted_set xs)" "distinct (sorted_set xs)"
  "sorted_set xs = [] \<longleftrightarrow> xs = []"
  by (simp_all add: sorted_set_def) (metis remdups_eq_nil_iff set_empty set_sort)

section \<open>Facts about numbers\<close>

lemma dec_nat_snoc: "dec_nat (s @ [c]) = 10 * dec_nat s + (ord_c c - 48)"
  by (simp add: dec_nat_def)

lemma dec_nat_nat_str [simp]: "dec_nat (nat_str n) = n"
proof (induction n rule: nat_str.induct)
  case (1 n)
  show ?case
  proof (cases "n < 10")
    case True
    then show ?thesis by (simp add: nat_str.simps [of n] dec_nat_def)
  next
    case False
    have m: "n mod 10 < 10" by simp
    have "ord_c (char_of (48 + n mod 10)) = 48 + n mod 10"
      using m by (simp only: ord_c_char_of) (intro mod_less, linarith)
    with False "1.IH" show ?thesis
      by (simp add: nat_str.simps [of n] dec_nat_snoc)
  qed
qed

lemma nat_str_digits: "list_all is_digit (nat_str n)"
proof (induction n rule: nat_str.induct)
  case (1 n)
  have m: "n mod 10 < 10" by simp
  have d: "is_digit (char_of (48 + k))" if "k < 10" for k :: nat
  proof -
    have "ord_c (char_of (48 + k)) = 48 + k"
      using that by (simp only: ord_c_char_of) (intro mod_less, linarith)
    with that show ?thesis by (simp add: is_digit_def)
  qed
  show ?case
  proof (cases "n < 10")
    case True
    then show ?thesis using d [of n] by (simp add: nat_str.simps [of n])
  next
    case False
    with "1.IH" d [OF m] show ?thesis by (simp add: nat_str.simps [of n])
  qed
qed

lemma nat_str_not_Nil [simp]: "nat_str n \<noteq> []"
  by (subst nat_str.simps) simp

lemma nat_str_inject [simp]: "nat_str m = nat_str n \<longleftrightarrow> m = n"
  by (metis dec_nat_nat_str)

lemma digit_not_in:
  assumes "list_all is_digit s" "\<not> is_digit c"
  shows "c \<notin> set s"
  using assms by (auto simp: list_all_iff)

lemma digit_ascii: "is_digit c \<Longrightarrow> ascii_c c"
  by (simp add: is_digit_def ascii_c_def)

lemma nat_str_ascii [simp]: "is_ascii (nat_str n)"
  using nat_str_digits [of n] by (auto simp: is_ascii_def list_all_iff digit_ascii)

lemma decode_utf8_ascii [simp]: "is_ascii b \<Longrightarrow> decode_utf8 u b = b"
  by (simp add: decode_utf8_def)

lemma encode_utf8_ascii [simp]: "is_ascii s \<Longrightarrow> encode_utf8 s = s"
  by (induction s) (auto simp: encode_utf8_def utf8_c_def Let_def ascii_c_def)

lemma encode_utf8_simps [simp]:
  "encode_utf8 [] = []" "encode_utf8 (s @ t) = encode_utf8 s @ encode_utf8 t"
  by (simp_all add: encode_utf8_def)

lemma encode_utf8_Nil_iff [simp]: "encode_utf8 s = [] \<longleftrightarrow> s = []"
  by (cases s) (auto simp: encode_utf8_def utf8_c_def Let_def)

lemma idna_Nil [simp]: "idna u [] = Some []"
  by (simp add: idna_def)

lemma idna_ascii: "idna u s = Some t \<Longrightarrow> is_ascii t"
  by (auto simp: idna_def Let_def split: if_splits option.splits)

lemma idna_of_ascii: "is_ascii s \<Longrightarrow> idna u s = Some t \<Longrightarrow> t = s"
  by (auto simp: idna_def Let_def split: if_splits)

end
