(* ===== verification/PyIp.thy ===== *)
theory PyIp
  imports PyText
begin

text \<open>
  The part of Python's \<open>ipaddress\<close> module (3.12, the proxies' image) and of the C
  library's \<open>inet_aton\<close> that the code uses: parsing of IPv4 and IPv6 literals, the
  address classification predicates and the packed form. An IPv4 address is a
  \<open>32 word\<close>, an IPv6 address a \<open>128 word\<close> with an optional zone.
\<close>

section \<open>IPv4 literals\<close>

type_synonym ipv4 = "32 word"
type_synonym ipv6 = "128 word"

datatype ip = V4 ipv4 | V6 ipv6 "pystr option"

definition v4 :: "nat \<Rightarrow> nat \<Rightarrow> nat \<Rightarrow> nat \<Rightarrow> ipv4" where
  "v4 a b c d = word_of_nat (a * 16777216 + b * 65536 + c * 256 + d)"

definition parse_octet :: "pystr \<Rightarrow> nat option" where
  "parse_octet o4 =
     (if o4 = [] \<or> \<not> list_all is_digit o4 \<or> 3 < length o4
         \<or> (o4 \<noteq> ''0'' \<and> hd o4 = CHR ''0'') \<or> 255 < dec_nat o4
      then None else Some (dec_nat o4))"

definition parse_ipv4 :: "pystr \<Rightarrow> ipv4 option" where
  "parse_ipv4 s =
     (case map parse_octet (split_on (CHR ''.'') s) of
        [Some a, Some b, Some c, Some d] \<Rightarrow> Some (v4 a b c d)
      | _ \<Rightarrow> None)"

definition octet :: "nat \<Rightarrow> ipv4 \<Rightarrow> nat" where
  "octet i w = unat w div 256 ^ (3 - i) mod 256"

definition ipv4_str :: "ipv4 \<Rightarrow> pystr" where
  "ipv4_str w = join ''.'' (map (\<lambda>i. nat_str (octet i w)) [0, 1, 2, 3])"

definition ipv4_packed :: "ipv4 \<Rightarrow> bytes" where
  "ipv4_packed w = map (\<lambda>i. char_of (octet i w)) [0, 1, 2, 3]"

section \<open>IPv6 literals\<close>

definition parse_hextet :: "pystr \<Rightarrow> nat option" where
  "parse_hextet h = (if h = [] \<or> \<not> list_all is_hex h \<or> 4 < length h then None else Some (hex_nat h))"

definition v6_of :: "nat list \<Rightarrow> ipv6" where
  "v6_of hs = word_of_nat (foldl (\<lambda>a h. a * 65536 + h) 0 (take 8 (hs @ replicate 8 0)))"

fun all_some :: "'a option list \<Rightarrow> 'a list option" where
  "all_some [] = Some []"
| "all_some (None # _) = None"
| "all_some (Some x # xs) = map_option (Cons x) (all_some xs)"

text \<open>\<open>_split_scope_id\<close>: the text before the first percent sign and the zone.\<close>

definition split_scope :: "pystr \<Rightarrow> (pystr \<times> pystr option) option" where
  "split_scope s =
     (case partition_c (CHR ''%'') s of (a, found, z) \<Rightarrow>
        if \<not> found then Some (a, None)
        else if z = [] \<or> CHR ''%'' \<in> set z then None
        else Some (a, Some z))"

text \<open>An IPv4 suffix becomes two hexadecimal groups.\<close>

definition v6_parts :: "pystr \<Rightarrow> pystr list option" where
  "v6_parts s =
     (let ps = split_on (CHR '':'') s
      in if length ps < 3 then None
         else if CHR ''.'' \<in> set (last ps)
         then (if CHR ''/'' \<in> set (last ps) then None
               else case parse_ipv4 (last ps) of
                      None \<Rightarrow> None
                    | Some w \<Rightarrow> Some (butlast ps @ [hex_str (unat w div 65536), hex_str (unat w mod 65536)]))
         else Some ps)"

text \<open>The groups before and after the double colon and how many zero groups it stands for.\<close>

definition v6_layout :: "pystr list \<Rightarrow> (nat \<times> nat \<times> nat) option" where
  "v6_layout ps =
     (let n = length ps;
          gaps = filter (\<lambda>i. ps ! i = []) [1..<n - 1]
      in if 9 < n then None
         else case gaps of
           [] \<Rightarrow> (if n \<noteq> 8 \<or> hd ps = [] \<or> last ps = [] then None else Some (n, 0, 0))
         | [i] \<Rightarrow>
             (let hi = (if hd ps = [] then i - 1 else i);
                  lo = (if last ps = [] then n - i - 2 else n - i - 1)
              in if (hd ps = [] \<and> hi \<noteq> 0) \<or> (last ps = [] \<and> lo \<noteq> 0) \<or> 7 < hi + lo
                 then None else Some (hi, 8 - (hi + lo), lo))
         | _ \<Rightarrow> None)"

definition parse_ipv6 :: "pystr \<Rightarrow> (ipv6 \<times> pystr option) option" where
  "parse_ipv6 s =
     (if CHR ''/'' \<in> set s then None
      else case split_scope s of
        None \<Rightarrow> None
      | Some (a, zone) \<Rightarrow>
          (case v6_parts a of
             None \<Rightarrow> None
           | Some ps \<Rightarrow>
               (case v6_layout ps of
                  None \<Rightarrow> None
                | Some (hi, skipped, lo) \<Rightarrow>
                    (case all_some (map parse_hextet (take hi ps)) of
                       None \<Rightarrow> None
                     | Some hs \<Rightarrow>
                         (case all_some (map parse_hextet (drop (length ps - lo) ps)) of
                            None \<Rightarrow> None
                          | Some ls \<Rightarrow> Some (v6_of (hs @ replicate skipped 0 @ ls), zone))))))"

text \<open>\<open>ipaddress.ip_address(s)\<close>, \<open>None\<close> for \<open>ValueError\<close>.\<close>

definition ip_address :: "pystr \<Rightarrow> ip option" where
  "ip_address s =
     (case (if CHR ''/'' \<in> set s then None else parse_ipv4 s) of
        Some w \<Rightarrow> Some (V4 w)
      | None \<Rightarrow> (case parse_ipv6 s of Some (w, z) \<Rightarrow> Some (V6 w z) | None \<Rightarrow> None))"

definition ipv6_packed :: "ipv6 \<Rightarrow> bytes" where
  "ipv6_packed w = map (\<lambda>i. char_of (unat w div 256 ^ (15 - i) mod 256)) [0..<16]"

fun ip_packed :: "ip \<Rightarrow> bytes" where
  "ip_packed (V4 w) = ipv4_packed w"
| "ip_packed (V6 w z) = ipv6_packed w"

section \<open>Classification\<close>

definition in_net4 :: "ipv4 \<Rightarrow> ipv4 \<times> nat \<Rightarrow> bool" where
  "in_net4 w net = (drop_bit (32 - snd net) w = drop_bit (32 - snd net) (fst net))"

definition in_net6 :: "ipv6 \<Rightarrow> ipv6 \<times> nat \<Rightarrow> bool" where
  "in_net6 w net = (drop_bit (128 - snd net) w = drop_bit (128 - snd net) (fst net))"

definition private_nets4 :: "(ipv4 \<times> nat) list" where
  "private_nets4 =
     [(v4 0 0 0 0, 8), (v4 10 0 0 0, 8), (v4 127 0 0 0, 8), (v4 169 254 0 0, 16),
      (v4 172 16 0 0, 12), (v4 192 0 0 0, 24), (v4 192 0 0 170, 31), (v4 192 0 2 0, 24),
      (v4 192 168 0 0, 16), (v4 198 18 0 0, 15), (v4 198 51 100 0, 24),
      (v4 203 0 113 0, 24), (v4 240 0 0 0, 4), (v4 255 255 255 255, 32)]"

definition private_exceptions4 :: "(ipv4 \<times> nat) list" where
  "private_exceptions4 = [(v4 192 0 0 9, 32), (v4 192 0 0 10, 32)]"

definition private_nets6 :: "(ipv6 \<times> nat) list" where
  "private_nets6 =
     [(v6_of [0, 0, 0, 0, 0, 0, 0, 1], 128), (v6_of [], 128),
      (v6_of [0, 0, 0, 0, 0, 0xFFFF], 96), (v6_of [0x64, 0xFF9B, 1], 48),
      (v6_of [0x100], 64), (v6_of [0x2001], 23), (v6_of [0x2001, 0xDB8], 32),
      (v6_of [0x2002], 16), (v6_of [0x3FFF], 20), (v6_of [0xFC00], 7), (v6_of [0xFE80], 10)]"

definition private_exceptions6 :: "(ipv6 \<times> nat) list" where
  "private_exceptions6 =
     [(v6_of [0x2001, 1, 0, 0, 0, 0, 0, 1], 128), (v6_of [0x2001, 1, 0, 0, 0, 0, 0, 2], 128),
      (v6_of [0x2001, 3], 32), (v6_of [0x2001, 4, 0x112], 48),
      (v6_of [0x2001, 0x20], 28), (v6_of [0x2001, 0x30], 28)]"

definition reserved_nets6 :: "(ipv6 \<times> nat) list" where
  "reserved_nets6 =
     [(v6_of [], 8), (v6_of [0x100], 8), (v6_of [0x200], 7), (v6_of [0x400], 6),
      (v6_of [0x800], 5), (v6_of [0x1000], 4), (v6_of [0x4000], 3), (v6_of [0x6000], 3),
      (v6_of [0x8000], 3), (v6_of [0xA000], 3), (v6_of [0xC000], 3), (v6_of [0xE000], 4),
      (v6_of [0xF000], 5), (v6_of [0xF800], 6), (v6_of [0xFE00], 9)]"

text \<open>An IPv4-mapped IPv6 address takes every property from the address it maps.\<close>

definition ipv4_mapped :: "ipv6 \<Rightarrow> ipv4 option" where
  "ipv4_mapped w = (if drop_bit 32 w = 0xFFFF then Some (ucast w) else None)"

definition loopback4 :: "ipv4 \<Rightarrow> bool" where
  "loopback4 w = in_net4 w (v4 127 0 0 0, 8)"

definition private4 :: "ipv4 \<Rightarrow> bool" where
  "private4 w = (list_ex (in_net4 w) private_nets4 \<and> \<not> list_ex (in_net4 w) private_exceptions4)"

definition link_local4 :: "ipv4 \<Rightarrow> bool" where
  "link_local4 w = in_net4 w (v4 169 254 0 0, 16)"

definition multicast4 :: "ipv4 \<Rightarrow> bool" where
  "multicast4 w = in_net4 w (v4 224 0 0 0, 4)"

definition reserved4 :: "ipv4 \<Rightarrow> bool" where
  "reserved4 w = in_net4 w (v4 240 0 0 0, 4)"

definition global4 :: "ipv4 \<Rightarrow> bool" where
  "global4 w = (\<not> in_net4 w (v4 100 64 0 0, 10) \<and> \<not> private4 w)"

definition by_mapped :: "(ipv4 \<Rightarrow> bool) \<Rightarrow> (ipv6 \<Rightarrow> bool) \<Rightarrow> ip \<Rightarrow> bool" where
  "by_mapped p4 p6 a = (case a of
     V4 w \<Rightarrow> p4 w
   | V6 w _ \<Rightarrow> (case ipv4_mapped w of Some m \<Rightarrow> p4 m | None \<Rightarrow> p6 w))"

definition private6 :: "ipv6 \<Rightarrow> bool" where
  "private6 w = (list_ex (in_net6 w) private_nets6 \<and> \<not> list_ex (in_net6 w) private_exceptions6)"

definition is_loopback :: "ip \<Rightarrow> bool" where
  "is_loopback a = by_mapped loopback4 (\<lambda>w. w = 1) a"

definition is_private :: "ip \<Rightarrow> bool" where
  "is_private a = by_mapped private4 private6 a"

definition is_link_local :: "ip \<Rightarrow> bool" where
  "is_link_local a = by_mapped link_local4 (\<lambda>w. in_net6 w (v6_of [0xFE80], 10)) a"

definition is_multicast :: "ip \<Rightarrow> bool" where
  "is_multicast a = by_mapped multicast4 (\<lambda>w. in_net6 w (v6_of [0xFF00], 8)) a"

definition is_unspecified :: "ip \<Rightarrow> bool" where
  "is_unspecified a = by_mapped (\<lambda>w. w = 0) (\<lambda>w. w = 0) a"

definition is_reserved :: "ip \<Rightarrow> bool" where
  "is_reserved a = by_mapped reserved4 (\<lambda>w. list_ex (in_net6 w) reserved_nets6) a"

definition is_global :: "ip \<Rightarrow> bool" where
  "is_global a = by_mapped global4 (\<lambda>w. \<not> private6 w) a"

section \<open>Legacy IPv4 spellings\<close>

text \<open>
  \<open>inet_aton\<close>: one to four numbers in decimal, octal (leading zero) or hexadecimal
  (leading \<open>0x\<close>), the last filling the remaining octets. The callers only pass texts
  of hexadecimal digits, \<open>x\<close>, \<open>X\<close> and dots.
\<close>

definition c_number :: "pystr \<Rightarrow> nat option" where
  "c_number p =
     (if starts_with p ''0x'' \<or> starts_with p ''0X''
      then (let h = drop 2 p in if h \<noteq> [] \<and> list_all is_hex h then Some (hex_nat h) else None)
      else if p \<noteq> [] \<and> hd p = CHR ''0''
      then (if list_all (\<lambda>c. is_digit c \<and> ord_c c < 56) p
            then Some (foldl (\<lambda>a c. 8 * a + (ord_c c - 48)) 0 p) else None)
      else if p \<noteq> [] \<and> list_all is_digit p then Some (dec_nat p) else None)"

definition inet_aton :: "pystr \<Rightarrow> ipv4 option" where
  "inet_aton s =
     (case all_some (map c_number (split_on (CHR ''.'') s)) of
        Some [a] \<Rightarrow> (if a < 2 ^ 32 then Some (word_of_nat a) else None)
      | Some [a, b] \<Rightarrow> (if a < 256 \<and> b < 2 ^ 24 then Some (word_of_nat (a * 2 ^ 24 + b)) else None)
      | Some [a, b, c] \<Rightarrow>
          (if a < 256 \<and> b < 256 \<and> c < 2 ^ 16 then Some (word_of_nat (a * 2 ^ 24 + b * 2 ^ 16 + c)) else None)
      | Some [a, b, c, d] \<Rightarrow>
          (if a < 256 \<and> b < 256 \<and> c < 256 \<and> d < 256 then Some (v4 a b c d) else None)
      | _ \<Rightarrow> None)"

section \<open>Facts\<close>

lemma octet_less [simp]: "octet i w < 256"
  by (simp add: octet_def)

lemma length_packed [simp]: "length (ipv4_packed w) = 4" "length (ipv6_packed x) = 16"
  by (simp_all add: ipv4_packed_def ipv6_packed_def)

lemma unat_v4:
  assumes "a < 256" "b < 256" "c < 256" "d < 256"
  shows "unat (v4 a b c d) = a * 16777216 + b * 65536 + c * 256 + d"
proof -
  have "a * 16777216 + b * 65536 + c * 256 + d < 4294967296" using assms by linarith
  then show ?thesis
    unfolding v4_def by (subst unat_of_nat) (simp del: of_nat_add of_nat_mult)
qed

lemma div_of_sum: "r < m \<Longrightarrow> (r + k * m) div m = (k::nat)"
  by simp

lemma mod_of_sum: "r < m \<Longrightarrow> (r + k * m) mod m = (r::nat)"
  by simp

lemma octets_of_sum:
  assumes "b < 256" "c < 256" "d < (256::nat)"
  shows "(a * 16777216 + b * 65536 + c * 256 + d) div 16777216 = a"
    and "(a * 16777216 + b * 65536 + c * 256 + d) div 65536 = a * 256 + b"
    and "(a * 16777216 + b * 65536 + c * 256 + d) div 256 = (a * 256 + b) * 256 + c"
    and "(a * 16777216 + b * 65536 + c * 256 + d) mod 256 = d"
    and "(a * 256 + b) mod 256 = b"
proof -
  have e: "a * 16777216 + b * 65536 + c * 256 + d = (b * 65536 + c * 256 + d) + a * 16777216"
    "a * 16777216 + b * 65536 + c * 256 + d = (c * 256 + d) + (a * 256 + b) * 65536"
    "a * 16777216 + b * 65536 + c * 256 + d = d + ((a * 256 + b) * 256 + c) * 256"
    by (simp_all add: algebra_simps)
  show "(a * 16777216 + b * 65536 + c * 256 + d) div 16777216 = a"
    unfolding e(1) using assms by (intro div_of_sum) linarith
  show "(a * 16777216 + b * 65536 + c * 256 + d) div 65536 = a * 256 + b"
    unfolding e(2) using assms by (intro div_of_sum) linarith
  show "(a * 16777216 + b * 65536 + c * 256 + d) div 256 = (a * 256 + b) * 256 + c"
    unfolding e(3) using assms by (intro div_of_sum) linarith
  show "(a * 16777216 + b * 65536 + c * 256 + d) mod 256 = d"
    unfolding e(3) using assms by (intro mod_of_sum)
  show "(a * 256 + b) mod 256 = b" using assms(1) by simp
qed

lemma octet_v4:
  assumes "a < 256" "b < 256" "c < 256" "d < 256"
  shows "octet 0 (v4 a b c d) = a" "octet 1 (v4 a b c d) = b" "octet 2 (v4 a b c d) = c" "octet 3 (v4 a b c d) = d"
proof -
  show "octet 0 (v4 a b c d) = a" "octet 1 (v4 a b c d) = b" "octet 3 (v4 a b c d) = d"
    using octets_of_sum [OF assms(2-4), of a] assms by (simp_all add: octet_def unat_v4)
  have "octet 2 (v4 a b c d) = ((a * 256 + b) * 256 + c) mod 256"
    using octets_of_sum(3) [OF assms(2-4), of a] assms by (simp add: octet_def unat_v4)
  then show "octet 2 (v4 a b c d) = c" using assms(3) mod_of_sum [of c 256 "a * 256 + b"] by (simp add: add.commute)
qed

lemma base256:
  "n = q1 * 256 + r1 \<Longrightarrow> q1 = q2 * 256 + r2 \<Longrightarrow> q2 = q3 * 256 + r3
   \<Longrightarrow> q3 * 16777216 + r3 * 65536 + r2 * 256 + r1 = (n::nat)"
  by simp

lemma v4_octets: "v4 (octet 0 w) (octet 1 w) (octet 2 w) (octet 3 w) = w"
proof -
  define n where "n = unat w"
  have "n < 4294967296" using unsigned_less [of w] by (simp add: n_def)
  then have "n div 16777216 mod 256 = n div 16777216"
    by (intro mod_less) (simp add: div_less_iff_less_mult)
  moreover have "n div 65536 = n div 256 div 256" "n div 16777216 = n div 256 div 256 div 256"
    by (simp_all add: div_mult2_eq [symmetric])
  ultimately have "octet 0 w = n div 256 div 256 div 256" "octet 1 w = n div 256 div 256 mod 256"
    "octet 2 w = n div 256 mod 256" "octet 3 w = n mod 256"
    by (simp_all add: octet_def n_def)
  moreover have "n div 256 div 256 div 256 * 16777216 + n div 256 div 256 mod 256 * 65536
      + n div 256 mod 256 * 256 + n mod 256 = n"
    by (rule base256 [of _ "n div 256" _ "n div 256 div 256"]) simp_all
  ultimately have "octet 0 w * 16777216 + octet 1 w * 65536 + octet 2 w * 256 + octet 3 w = n"
    by (simp only:)
  then show ?thesis unfolding v4_def n_def by (simp del: of_nat_add of_nat_mult)
qed

lemma digit_code: "k < 10 \<Longrightarrow> ord_c (char_of (48 + k)) = 48 + k"
  by (simp only: ord_c_char_of) (intro mod_less, linarith)

lemma nat_str_small:
  "n < 10 \<Longrightarrow> nat_str n = [char_of (48 + n)]"
  "10 \<le> n \<Longrightarrow> n < 100 \<Longrightarrow> nat_str n = [char_of (48 + n div 10), char_of (48 + n mod 10)]"
  "100 \<le> n \<Longrightarrow> n < 1000 \<Longrightarrow>
     nat_str n = [char_of (48 + n div 10 div 10), char_of (48 + n div 10 mod 10), char_of (48 + n mod 10)]"
proof -
  show "n < 10 \<Longrightarrow> nat_str n = [char_of (48 + n)]" by (subst nat_str.simps) simp
  show two: "10 \<le> n \<Longrightarrow> n < 100 \<Longrightarrow> nat_str n = [char_of (48 + n div 10), char_of (48 + n mod 10)]" for n
    by (subst nat_str.simps, subst nat_str.simps) simp
  assume n: "100 \<le> n" "n < 1000"
  then have "10 \<le> n div 10" "n div 10 < 100" by auto
  with two [of "n div 10"] n show "nat_str n =
      [char_of (48 + n div 10 div 10), char_of (48 + n div 10 mod 10), char_of (48 + n mod 10)]"
    by (subst nat_str.simps) simp
qed

lemma parse_octet_nat_str:
  assumes "n < 256"
  shows "parse_octet (nat_str n) = Some n"
proof -
  have zero: "char_of (48 + k) = CHR ''0'' \<longleftrightarrow> k = 0" if "k < 10" for k :: nat
  proof
    assume "char_of (48 + k) = CHR ''0''"
    then have "ord_c (char_of (48 + k)) = ord_c (CHR ''0'')" by (rule arg_cong)
    then show "k = 0" using digit_code [OF that] by (simp add: ord_c_def)
  next
    assume "k = 0"
    moreover have "char_of (48 :: nat) = CHR ''0''" by code_simp
    ultimately show "char_of (48 + k) = CHR ''0''" by simp
  qed
  consider "n < 10" | "10 \<le> n" "n < 100" | "100 \<le> n" "n < 1000" using assms by linarith
  then have "length (nat_str n) \<le> 3 \<and> (nat_str n = ''0'' \<or> hd (nat_str n) \<noteq> CHR ''0'')"
  proof cases
    case 1
    then show ?thesis using zero [of n] by (auto simp: nat_str_small)
  next
    case 2
    then show ?thesis using zero [of "n div 10"] by (auto simp: nat_str_small)
  next
    case 3
    then have "n div 10 div 10 < 10" by auto
    with 3 show ?thesis using zero [of "n div 10 div 10"] by (auto simp: nat_str_small)
  qed
  then show ?thesis
    using assms nat_str_digits [of n] by (auto simp: parse_octet_def)
qed

lemma nat_str_no_sep: "\<not> is_digit c \<Longrightarrow> c \<notin> set (nat_str n)"
  using nat_str_digits digit_not_in by blast

lemma parse_ipv4_str [simp]: "parse_ipv4 (ipv4_str w) = Some w"
proof -
  have dot: "\<not> is_digit (CHR ''.'')" by (simp add: is_digit_def ord_c_def)
  have "split_on (CHR ''.'') (ipv4_str w) = map (\<lambda>i. nat_str (octet i w)) [0, 1, 2, 3]"
    unfolding ipv4_str_def using nat_str_no_sep [OF dot]
    by (intro split_on_join) auto
  then show ?thesis
    using v4_octets [of w] by (simp add: parse_ipv4_def parse_octet_nat_str)
qed

lemma ip_address_ipv4_str [simp]: "ip_address (ipv4_str w) = Some (V4 w)"
proof -
  have slash: "\<not> is_digit (CHR ''/'')" by (simp add: is_digit_def ord_c_def)
  have "CHR ''/'' \<notin> set (ipv4_str w)"
    using nat_str_no_sep [OF slash] by (simp add: ipv4_str_def)
  then show ?thesis by (simp add: ip_address_def)
qed

lemma in_net4_unat: "in_net4 w (net, k) \<longleftrightarrow> unat w div 2 ^ (32 - k) = unat net div 2 ^ (32 - k)"
  unfolding in_net4_def word_unat_eq_iff unat_drop_bit_eq by (simp add: drop_bit_eq_div)


lemma pair_eq:
  assumes "b < m" "b' < m"
  shows "a * m + b = a' * m + b' \<longleftrightarrow> a = a' \<and> b = (b'::nat)"
proof
  assume e: "a * m + b = a' * m + b'"
  then have "b + a * m = b' + a' * m" by simp
  with div_of_sum [OF assms(1), of a] div_of_sum [OF assms(2), of a'] have "a = a'" by metis
  with e show "a = a' \<and> b = b'" by simp
qed simp

lemma div_of_scaled: "0 < k \<Longrightarrow> (a * (m * k) + b) div k = a * m + b div (k::nat)"
  using div_mult_self3 [of k "a * m" b] by (simp add: mult.assoc)

lemma in_net4_v4:
  assumes "a < 256" "b < 256" "c < 256" "d < 256" "a' < 256" "b' < 256" "c' < 256" "d' < 256"
  shows "in_net4 (v4 a b c d) (v4 a' b' c' d', 8) \<longleftrightarrow> a = a'"
    and "in_net4 (v4 a b c d) (v4 a' b' c' d', 16) \<longleftrightarrow> a = a' \<and> b = b'"
    and "in_net4 (v4 a b c d) (v4 a' b' c' d', 24) \<longleftrightarrow> a = a' \<and> b = b' \<and> c = c'"
    and "in_net4 (v4 a b c d) (v4 a' b' c' d', 32) \<longleftrightarrow> a = a' \<and> b = b' \<and> c = c' \<and> d = d'"
    and "in_net4 (v4 a b c d) (v4 a' b' c' d', 4) \<longleftrightarrow> a div 16 = a' div 16"
    and "in_net4 (v4 a b c d) (v4 a' b' c' d', 10) \<longleftrightarrow> a = a' \<and> b div 64 = b' div 64"
    and "in_net4 (v4 a b c d) (v4 a' b' c' d', 12) \<longleftrightarrow> a = a' \<and> b div 16 = b' div 16"
    and "in_net4 (v4 a b c d) (v4 a' b' c' d', 15) \<longleftrightarrow> a = a' \<and> b div 2 = b' div 2"
    and "in_net4 (v4 a b c d) (v4 a' b' c' d', 31) \<longleftrightarrow> a = a' \<and> b = b' \<and> c = c' \<and> d div 2 = d' div 2"
proof -
  note s = octets_of_sum [OF assms(2-4), of a] octets_of_sum [OF assms(6-8), of a']
  note u = unat_v4 [OF assms(1-4)] unat_v4 [OF assms(5-8)]
  show e8: "in_net4 (v4 a b c d) (v4 a' b' c' d', 8) \<longleftrightarrow> a = a'"
    by (simp add: in_net4_unat u s)
  have e16: "in_net4 (v4 a b c d) (v4 a' b' c' d', 16) \<longleftrightarrow> a * 256 + b = a' * 256 + b'"
    by (simp add: in_net4_unat u s)
  then show "in_net4 (v4 a b c d) (v4 a' b' c' d', 16) \<longleftrightarrow> a = a' \<and> b = b'"
    using pair_eq [OF assms(2,6)] by simp
  have "in_net4 (v4 a b c d) (v4 a' b' c' d', 24)
      \<longleftrightarrow> (a * 256 + b) * 256 + c = (a' * 256 + b') * 256 + c'"
    by (simp add: in_net4_unat u s)
  then show e24: "in_net4 (v4 a b c d) (v4 a' b' c' d', 24) \<longleftrightarrow> a = a' \<and> b = b' \<and> c = c'"
    unfolding pair_eq [OF assms(3,7)] pair_eq [OF assms(2,6)] by simp
  have "in_net4 (v4 a b c d) (v4 a' b' c' d', 32) \<longleftrightarrow> v4 a b c d = v4 a' b' c' d'"
    by (simp add: in_net4_def)
  then show "in_net4 (v4 a b c d) (v4 a' b' c' d', 32) \<longleftrightarrow> a = a' \<and> b = b' \<and> c = c' \<and> d = d'"
    using octet_v4 [OF assms(1-4)] octet_v4 [OF assms(5-8)] by metis
  have d1: "n div 2 ^ 28 = (n::nat) div 16777216 div 16" "n div 2 ^ 22 = n div 65536 div 64"
    "n div 2 ^ 20 = n div 65536 div 16"
    "n div 2 ^ 17 = n div 65536 div 2" for n
    by (simp_all add: div_mult2_eq [symmetric])
  have p: "(x * 256 + y) div 64 = x * 4 + y div 64" "(x * 256 + y) div 16 = x * 16 + y div 16"
    "(x * 256 + y) div 2 = x * 128 + y div (2::nat)" for x y
    using div_of_scaled [of 64 x 4 y] div_of_scaled [of 16 x 16 y] div_of_scaled [of 2 x 128 y] by simp_all
  have lt: "y < 256 \<Longrightarrow> y div 64 < 4" "y < 256 \<Longrightarrow> y div 16 < 16" "y < 256 \<Longrightarrow> y div 2 < (128::nat)" for y
    by (simp_all add: div_less_iff_less_mult)
  have "in_net4 (v4 a b c d) (v4 a' b' c' d', 4) \<longleftrightarrow> unat (v4 a b c d) div 2 ^ 28 = unat (v4 a' b' c' d') div 2 ^ 28"
    by (simp add: in_net4_unat)
  then show "in_net4 (v4 a b c d) (v4 a' b' c' d', 4) \<longleftrightarrow> a div 16 = a' div 16"
    unfolding d1 u s .
  have "in_net4 (v4 a b c d) (v4 a' b' c' d', 10) \<longleftrightarrow> unat (v4 a b c d) div 2 ^ 22 = unat (v4 a' b' c' d') div 2 ^ 22"
    by (simp add: in_net4_unat)
  then show "in_net4 (v4 a b c d) (v4 a' b' c' d', 10) \<longleftrightarrow> a = a' \<and> b div 64 = b' div 64"
    unfolding d1 u s p pair_eq [OF lt(1) [OF assms(2)] lt(1) [OF assms(6)]] .
  have "in_net4 (v4 a b c d) (v4 a' b' c' d', 12) \<longleftrightarrow> unat (v4 a b c d) div 2 ^ 20 = unat (v4 a' b' c' d') div 2 ^ 20"
    by (simp add: in_net4_unat)
  then show "in_net4 (v4 a b c d) (v4 a' b' c' d', 12) \<longleftrightarrow> a = a' \<and> b div 16 = b' div 16"
    unfolding d1 u s p pair_eq [OF lt(2) [OF assms(2)] lt(2) [OF assms(6)]] .
  have "in_net4 (v4 a b c d) (v4 a' b' c' d', 15) \<longleftrightarrow> unat (v4 a b c d) div 2 ^ 17 = unat (v4 a' b' c' d') div 2 ^ 17"
    by (simp add: in_net4_unat)
  then show "in_net4 (v4 a b c d) (v4 a' b' c' d', 15) \<longleftrightarrow> a = a' \<and> b div 2 = b' div 2"
    unfolding d1 u s p pair_eq [OF lt(3) [OF assms(2)] lt(3) [OF assms(6)]] .
  have n: "x * 16777216 + y * 65536 + z * 256 + q = ((x * 256 + y) * 256 + z) * 256 + q" for x y z q :: nat
    by simp
  have "in_net4 (v4 a b c d) (v4 a' b' c' d', 31) \<longleftrightarrow> unat (v4 a b c d) div 2 = unat (v4 a' b' c' d') div 2"
    by (simp add: in_net4_unat)
  then show "in_net4 (v4 a b c d) (v4 a' b' c' d', 31) \<longleftrightarrow> a = a' \<and> b = b' \<and> c = c' \<and> d div 2 = d' div 2"
    unfolding u n p pair_eq [OF lt(3) [OF assms(4)] lt(3) [OF assms(8)]] pair_eq [OF assms(3,7)] pair_eq [OF assms(2,6)]
    by simp
qed

end
