(* ===== verification/PyUrl.thy ===== *)
theory PyUrl
  imports PyIp
begin

text \<open>
  The part of Python's \<open>urllib.parse\<close> (3.12) the code uses: \<open>urlsplit\<close>,
  \<open>urlparse\<close>, the \<open>hostname\<close>, \<open>port\<close>, \<open>username\<close> and
  \<open>password\<close> properties of their results, and \<open>unquote\<close>. The NFKC test of a
  non-ASCII network location never fires on code points below 256, whose NFKC forms contain
  none of the URL delimiters, so it has no counterpart here.
\<close>

record url =
  u_scheme :: pystr
  u_netloc :: pystr
  u_path :: pystr
  u_params :: pystr
  u_query :: pystr
  u_fragment :: pystr

definition scheme_c :: "char \<Rightarrow> bool" where
  "scheme_c c \<longleftrightarrow> is_alpha_ascii c \<or> is_digit c \<or> c \<in> set ''+-.''"

definition split_scheme :: "pystr \<Rightarrow> pystr \<times> pystr" where
  "split_scheme s =
     (case partition_c (CHR '':'') s of (a, found, b) \<Rightarrow>
        if found \<and> a \<noteq> [] \<and> is_alpha_ascii (hd a) \<and> list_all scheme_c a
        then (py_lower a, b) else ([], s))"

definition ipv_future :: "pystr \<Rightarrow> bool" where
  "ipv_future h =
     (case partition_c (CHR ''.'') (tl h) of (a, found, b) \<Rightarrow>
        found \<and> a \<noteq> [] \<and> list_all is_hex a \<and> b \<noteq> [] \<and> CHR 0x0A \<notin> set b)"

definition bracketed_host_ok :: "pystr \<Rightarrow> bool" where
  "bracketed_host_ok h =
     (if starts_with h ''v'' then ipv_future h
      else (case ip_address h of Some (V6 _ _) \<Rightarrow> True | _ \<Rightarrow> False))"

text \<open>\<open>_check_bracketed_netloc\<close> and the balance test before it.\<close>

definition netloc_ok :: "pystr \<Rightarrow> bool" where
  "netloc_ok n =
     (let lb = CHR ''['' \<in> set n; rb = CHR '']'' \<in> set n
      in if lb \<noteq> rb then False
         else if \<not> lb then True
         else (case rpartition_c (CHR ''@'') n of (_, _, hp) \<Rightarrow>
                (case partition_c (CHR ''['') hp of (pre, have, bracketed) \<Rightarrow>
                   if have
                   then (case partition_c (CHR '']'') bracketed of (h, _, port) \<Rightarrow>
                           pre = [] \<and> (port = [] \<or> hd port = CHR '':'') \<and> bracketed_host_ok h)
                   else (case partition_c (CHR '':'') hp of (h, _, _) \<Rightarrow> bracketed_host_ok h))))"

definition urlsplit :: "pystr \<Rightarrow> url py" where
  "urlsplit raw =
     (let s = filter (\<lambda>c. ord_c c \<notin> {9, 10, 13}) (lstrip_by (\<lambda>c. ord_c c \<le> 32) raw);
          (scheme, rest) = split_scheme s;
          has_netloc = starts_with rest ''//'';
          body = drop 2 rest;
          netloc = (if has_netloc then takeWhile (\<lambda>c. c \<notin> set ''/?#'') body else []);
          rest = (if has_netloc then dropWhile (\<lambda>c. c \<notin> set ''/?#'') body else rest)
      in if \<not> netloc_ok netloc then Inl (ValueError ''Invalid IPv6 URL'')
         else (case partition_c (CHR ''#'') rest of (rest, _, fragment) \<Rightarrow>
                (case partition_c (CHR ''?'') rest of (path, _, query) \<Rightarrow>
                   Inr \<lparr>u_scheme = scheme, u_netloc = netloc, u_path = path, u_params = [],
                        u_query = query, u_fragment = fragment\<rparr>)))"

definition uses_params :: "pystr set" where
  "uses_params = {'''', ''ftp'', ''hdl'', ''prospero'', ''http'', ''imap'', ''https'', ''shttp'',
     ''rtsp'', ''rtsps'', ''rtspu'', ''sip'', ''sips'', ''mms'', ''sftp'', ''tel''}"

text \<open>\<open>_splitparams\<close>: the parameters of the last path segment.\<close>

definition split_params :: "pystr \<Rightarrow> pystr \<times> pystr" where
  "split_params p =
     (case rpartition_c (CHR ''/'') p of (a, found, seg) \<Rightarrow>
        (case partition_c (CHR '';'') seg of (b, _, params) \<Rightarrow>
           (if found then a @ ''/'' @ b else b, params)))"

definition urlparse :: "pystr \<Rightarrow> url py" where
  "urlparse raw = rbind (urlsplit raw) (\<lambda>u.
     Inr (if u_scheme u \<in> uses_params \<and> CHR '';'' \<in> set (u_path u)
          then u\<lparr>u_path := fst (split_params (u_path u)), u_params := snd (split_params (u_path u))\<rparr>
          else u))"

section \<open>The network location\<close>

definition userinfo :: "url \<Rightarrow> pystr option \<times> pystr option" where
  "userinfo u =
     (case rpartition_c (CHR ''@'') (u_netloc u) of (info, have, _) \<Rightarrow>
        if have
        then (case partition_c (CHR '':'') info of (name, have_pw, pw) \<Rightarrow>
                (Some name, if have_pw then Some pw else None))
        else (None, None))"

definition username :: "url \<Rightarrow> pystr option" where
  "username u = fst (userinfo u)"

definition password :: "url \<Rightarrow> pystr option" where
  "password u = snd (userinfo u)"

definition hostinfo :: "url \<Rightarrow> pystr \<times> pystr option" where
  "hostinfo u =
     (case rpartition_c (CHR ''@'') (u_netloc u) of (_, _, hi) \<Rightarrow>
        (case partition_c (CHR ''['') hi of (_, have_br, bracketed) \<Rightarrow>
           (let (h, p) =
              (if have_br
               then (case partition_c (CHR '']'') bracketed of (h, _, after) \<Rightarrow>
                       (case partition_c (CHR '':'') after of (_, _, p) \<Rightarrow> (h, p)))
               else (case partition_c (CHR '':'') hi of (h, _, p) \<Rightarrow> (h, p)))
            in (h, if p = [] then None else Some p))))"

text \<open>\<open>hostname\<close> with \<open>None\<close> read as the empty string, as every caller does
  (\<open>parsed.hostname or ""\<close>).\<close>

definition hostname :: "url \<Rightarrow> pystr" where
  "hostname u =
     (case partition_c (CHR ''%'') (fst (hostinfo u)) of (h, pct, zone) \<Rightarrow>
        py_lower h @ (if pct then ''%'' @ zone else []))"

definition port :: "url \<Rightarrow> int option py" where
  "port u =
     (case snd (hostinfo u) of
        None \<Rightarrow> Inr None
      | Some p \<Rightarrow>
          (if \<not> list_all is_digit p
           then Inl (ValueError (''Port could not be cast to integer value as '' @ p))
           else if length p > max_str_digits then Inl (ValueError (int_limit_msg (length p)))
           else if 65535 < dec_nat p then Inl (ValueError ''Port out of range 0-65535'')
           else Inr (Some (int (dec_nat p)))))"

section \<open>Percent decoding\<close>

fun unquote_bytes :: "pystr \<Rightarrow> bytes" where
  "unquote_bytes (c # a # b # s) =
     (if c = CHR ''%'' \<and> is_hex a \<and> is_hex b
      then char_of (hex_nat [a, b]) # unquote_bytes s
      else c # unquote_bytes (a # b # s))"
| "unquote_bytes s = s"

text \<open>\<open>unquote\<close> decodes each maximal ASCII run and keeps the other characters.\<close>

function unquote :: "codec \<Rightarrow> pystr \<Rightarrow> pystr" where
  "unquote u [] = []"
| "unquote u (c # s) =
     (if ascii_c c
      then decode_utf8 u (unquote_bytes (c # takeWhile ascii_c s)) @ unquote u (dropWhile ascii_c s)
      else c # unquote u s)"
  by pat_completeness auto
termination
  by (relation "measure (\<lambda>(u, s). length s)") (auto simp: le_imp_less_Suc length_dropWhile_le)

section \<open>Facts\<close>

lemma port_range: "port u = Inr (Some p) \<Longrightarrow> 0 \<le> p \<and> p \<le> 65535"
  by (auto simp: port_def split: option.splits if_splits)

lemma port_error: "port u = Inl e \<Longrightarrow> is_valueerror e"
  by (auto simp: port_def split: option.splits if_splits)

lemma urlsplit_error: "urlsplit s = Inl e \<Longrightarrow> is_valueerror e"
  by (auto simp: urlsplit_def Let_def split: prod.splits if_splits)

lemma urlparse_error: "urlparse s = Inl e \<Longrightarrow> is_valueerror e"
  by (auto simp: urlparse_def rbind_Inl_iff dest: urlsplit_error)

end
