(* ===== verification/Egress_Config.thy ===== *)
theory Egress_Config
  imports PyUrl
begin

text \<open>
  Configuration of the final-hop proxy, egress/final_hop_proxy.py: what the module computes
  from its environment when it is imported. The environment is a map, \<open>load_config\<close>
  runs the module-level statements in their order and returns the configuration record the
  request handlers read, or the first exception that stops the import.
\<close>

section \<open>Host names\<close>

text \<open>\<open>_normalize_host\<close>.\<close>

definition normalize_host :: "codec \<Rightarrow> pystr \<Rightarrow> pystr" where
  "normalize_host u host =
     (let normalized = rstrip_by (\<lambda>c. c = CHR ''.'') (py_lower (strip_chars ''[]'' (py_strip host)))
      in case idna u normalized of
           Some t \<Rightarrow> rstrip_by (\<lambda>c. c = CHR ''.'') t
         | None \<Rightarrow> normalized)"

section \<open>The configuration record\<close>

datatype route_class = PublicRoute | HostRoute

record config =
  listen_host :: pystr
  listen_port :: int
  route :: route_class
  allow_lan :: bool
  ports_all :: bool
  ports :: "int set"
  embedding :: "(pystr \<times> int) option"
  podman_gateway :: pystr
  upstream_proxy :: pystr
  tor_socks :: pystr
  vpn_enabled :: bool
  dns_timeout :: int
  client_hosts :: "pystr list"
  require_tls13 :: bool
  allow_http :: bool
  connect_timeout :: int
  blocked_hosts :: "pystr set"
  trusted :: "(pystr \<times> int) set"

definition builtin_blocked :: "pystr set" where
  "builtin_blocked =
     {''localhost'', ''localhost.localdomain'', ''host.docker.internal'',
      ''gateway.docker.internal'', ''vm.docker.internal'',
      ''docker.for.mac.host.internal'', ''docker.for.mac.localhost'',
      ''docker.for.mac.gateway.internal'', ''docker.for.win.host.internal'',
      ''docker.for.win.localhost'', ''host.containers.internal'',
      ''gateway.containers.internal''}"

definition builtin_blocked_suffixes :: "pystr set" where
  "builtin_blocked_suffixes = {''docker.internal'', ''containers.internal''}"

definition rfc1918_dns_suffixes :: "pystr list" where
  "rfc1918_dns_suffixes = [''.local'', ''.internal'', ''.home.arpa'']"

section \<open>Parsing the settings\<close>

definition env_get :: "(pystr \<rightharpoonup> pystr) \<Rightarrow> pystr \<Rightarrow> pystr \<Rightarrow> pystr" where
  "env_get env name dflt = (case env name of Some v \<Rightarrow> v | None \<Rightarrow> dflt)"

text \<open>\<open>value.lower() in ("1", "true", "yes", "on")\<close>.\<close>

definition truthy :: "pystr \<Rightarrow> bool" where
  "truthy v \<longleftrightarrow> py_lower v \<in> {''1'', ''true'', ''yes'', ''on''}"

definition valid_port :: "int \<Rightarrow> bool" where
  "valid_port p \<longleftrightarrow> 0 < p \<and> p \<le> 65535"

definition ws6 :: pystr where
  "ws6 = map char_of [32, 9, 13, 10, 11, 12 :: nat]"

definition parse_port_item :: "pystr \<Rightarrow> int py" where
  "parse_port_item item =
     (let candidate = strip_chars ws6 item
      in if candidate = [] \<or> \<not> list_all is_digit candidate
         then Inl (RuntimeError (''ONYX_INTEGRATIONS_ALLOWED_HOST_PORTS must be '' @ sq ''none'' @ '', '' @ sq ''all''
                @ '', or a comma-separated list of TCP ports''))
         else rbind (py_int candidate) (\<lambda>p.
           if \<not> valid_port p
           then Inl (RuntimeError ''ONYX_INTEGRATIONS_ALLOWED_HOST_PORTS contains an invalid TCP port'')
           else Inr p))"

definition parse_allowed_host_ports :: "pystr \<Rightarrow> (bool \<times> int set) py" where
  "parse_allowed_host_ports raw =
     (let value = strip_chars ws6 raw
      in if value = [] \<or> value = ''none'' then Inr (False, {})
         else if value = ''all'' then Inr (True, {})
         else rbind (rmapM parse_port_item (split_on (CHR '','') value)) (\<lambda>ps. Inr (False, set ps)))"

text \<open>\<open>_parse_configured_embedding_endpoint\<close>.\<close>

definition parse_embedding_endpoint ::
  "codec \<Rightarrow> route_class \<Rightarrow> pystr \<Rightarrow> (pystr \<times> int) option py" where
  "parse_embedding_endpoint u rc raw_url =
     (if raw_url = [] then Inr None
      else if rc \<noteq> HostRoute
      then Inl (RuntimeError ''ONYX_RAG_EMBEDDING_SHIM_UPSTREAM_URL is allowed only for the host route class'')
      else rbind
        (rcatch
          (rbind (urlparse raw_url) (\<lambda>parsed.
             let host = normalize_host u (hostname parsed)
             in rbind (port parsed) (\<lambda>p. Inr (parsed, host, p))))
          is_valueerror
          (\<lambda>_. Inl (RuntimeError ''ONYX_RAG_EMBEDDING_SHIM_UPSTREAM_URL has an invalid authority'')))
        (\<lambda>(parsed, host, parsed_port).
           let scheme = py_lower (u_scheme parsed)
           in if scheme \<notin> {''http'', ''https''}
              then Inl (RuntimeError ''ONYX_RAG_EMBEDDING_SHIM_UPSTREAM_URL must use http or https'')
              else let p = (case parsed_port of
                              None \<Rightarrow> (if scheme = ''http'' then 80 else 443)
                            | Some q \<Rightarrow> q)
              in if host = [] \<or> \<not> is_ascii host \<or> \<not> valid_port p
                    \<or> username parsed \<noteq> None \<or> password parsed \<noteq> None \<or> u_fragment parsed \<noteq> []
                 then Inl (RuntimeError ''ONYX_RAG_EMBEDDING_SHIM_UPSTREAM_URL has an invalid authority'')
                 else Inr (Some (host, p))))"

text \<open>The loop of \<open>_parse_trusted_internal_destinations\<close>: blank items are skipped.\<close>

definition parse_trusted_item :: "codec \<Rightarrow> pystr \<Rightarrow> (pystr \<times> int) option py" where
  "parse_trusted_item u item =
     (let authority = py_strip item
      in if authority = [] then Inr None
         else rbind (urlparse (''//'' @ authority)) (\<lambda>parsed.
           rbind (rcatch (port parsed) is_valueerror
                    (\<lambda>_. Inl (RuntimeError (''invalid trusted internal destination '' @ sq authority))))
             (\<lambda>p. let host = normalize_host u (hostname parsed)
              in case p of
                   None \<Rightarrow> Inl (RuntimeError (''trusted internal destinations must be exact host:port authorities, found '' @ sq authority))
                 | Some q \<Rightarrow>
                     (if host = [] \<or> username parsed \<noteq> None \<or> password parsed \<noteq> None
                         \<or> u_path parsed \<noteq> [] \<or> u_query parsed \<noteq> [] \<or> u_fragment parsed \<noteq> []
                      then Inl (RuntimeError (''trusted internal destinations must be exact host:port authorities, found '' @ sq authority))
                      else Inr (Some (host, q))))))"

definition parse_trusted_destinations ::
  "codec \<Rightarrow> route_class \<Rightarrow> pystr \<Rightarrow> (pystr \<times> int) set py" where
  "parse_trusted_destinations u rc raw =
     (if raw = [] then Inr {}
      else if rc \<noteq> HostRoute
      then Inl (RuntimeError ''EGRESS_PROXY_TRUSTED_INTERNAL_DESTINATIONS is allowed only for the host route class'')
      else rbind (rmapM (parse_trusted_item u) (split_on (CHR '','') raw)) (\<lambda>items.
        let destinations = set (List.map_filter id items)
        in if destinations = {}
           then Inl (RuntimeError ''EGRESS_PROXY_TRUSTED_INTERNAL_DESTINATIONS contained no destinations'')
           else Inr destinations))"

definition parse_route_class :: "pystr \<Rightarrow> route_class py" where
  "parse_route_class raw =
     (let v = py_lower (py_strip raw)
      in if v = ''public'' then Inr PublicRoute
         else if v = ''host'' then Inr HostRoute
         else Inl (RuntimeError (''EGRESS_ROUTE_CLASS must be exactly '' @ sq ''public'' @ '' or '' @ sq ''host'')))"

definition comma_items :: "(pystr \<Rightarrow> pystr) \<Rightarrow> pystr \<Rightarrow> pystr list" where
  "comma_items f raw = map f (filter (\<lambda>h. py_strip h \<noteq> []) (split_on (CHR '','') raw))"

section \<open>Import of the module\<close>

definition load_config :: "codec \<Rightarrow> (pystr \<rightharpoonup> pystr) \<Rightarrow> config py" where
  "load_config u env =
     rbind (py_int (env_get env ''EGRESS_PROXY_PORT'' ''3128'')) (\<lambda>lport.
     rbind (parse_route_class (env_get env ''EGRESS_ROUTE_CLASS'' ''public'')) (\<lambda>rc.
     rbind (parse_allowed_host_ports (env_get env ''ONYX_INTEGRATIONS_ALLOWED_HOST_PORTS'' ''none''))
       (\<lambda>(all_ports, op_ports).
     let gateway = py_strip (env_get env ''EGRESS_PODMAN_HOST_GATEWAY_IP'' '''');
         upstream = py_strip (env_get env ''EGRESS_UPSTREAM_PROXY_URL'' '''');
         tor = py_strip (env_get env ''EGRESS_TOR_SOCKS_UNIX_PATH'' '''');
         vpn_raw = py_strip (env_get env ''MYST_VPN_ENABLED'' ''true'')
     in
     rbind (raise_if (gateway \<notin> {'''', ''169.254.1.2''})
       (RuntimeError ''EGRESS_PODMAN_HOST_GATEWAY_IP is an internal fixed setting and must be empty or 169.254.1.2'')) (\<lambda>_.
     rbind (raise_if (tor \<noteq> [] \<and> tor \<noteq> ''/run/tor-egress/socks'')
       (RuntimeError ''EGRESS_TOR_SOCKS_UNIX_PATH is an internal fixed setting and must be /run/tor-egress/socks'')) (\<lambda>_.
     rbind (raise_if (vpn_raw \<notin> {''true'', ''false''})
       (RuntimeError (''MYST_VPN_ENABLED must be exactly '' @ sq ''true'' @ '' or '' @ sq ''false''))) (\<lambda>_.
     rbind (py_int (env_get env ''EGRESS_DNS_QUERY_TIMEOUT'' ''10'')) (\<lambda>dtimeout.
     rbind (py_int (env_get env ''EGRESS_CONNECT_TIMEOUT'' ''15'')) (\<lambda>ctimeout.
     rbind (parse_embedding_endpoint u rc (py_strip (env_get env ''ONYX_RAG_EMBEDDING_SHIM_UPSTREAM_URL'' ''''))) (\<lambda>emb.
     rbind (parse_trusted_destinations u rc (py_strip (env_get env ''EGRESS_PROXY_TRUSTED_INTERNAL_DESTINATIONS'' ''''))) (\<lambda>tr.
     Inr \<lparr>listen_host = env_get env ''EGRESS_PROXY_HOST'' ''0.0.0.0'',
          listen_port = lport,
          route = rc,
          allow_lan = (py_strip (env_get env ''ONYX_INTEGRATIONS_ALLOW_LAN_ENDPOINTS'' ''false'') = ''true''),
          ports_all = all_ports,
          ports = op_ports,
          embedding = emb,
          podman_gateway = gateway,
          upstream_proxy = upstream,
          tor_socks = tor,
          vpn_enabled = (vpn_raw = ''true''),
          dns_timeout = dtimeout,
          client_hosts = comma_items py_strip (env_get env ''EGRESS_PROXY_ALLOWED_CLIENT_HOSTS'' ''''),
          require_tls13 = truthy (env_get env ''ONYX_AGENT_HTTPS_PROXY_REQUIRE_TLS13'' ''true''),
          allow_http = truthy (env_get env ''EGRESS_ALLOW_HTTP_URLS'' ''false''),
          connect_timeout = ctimeout,
          blocked_hosts = builtin_blocked \<union>
            set (comma_items (\<lambda>h. rstrip_by (\<lambda>c. c = CHR ''.'') (py_lower (py_strip h)))
                   (env_get env ''EGRESS_BLOCK_INTERNAL_HOSTS'' '''')),
          trusted = tr\<rparr>))))))))))"

text \<open>\<open>_listener_is_loopback_only\<close>.\<close>

definition listener_is_loopback_only :: "config \<Rightarrow> bool" where
  "listener_is_loopback_only c =
     (case ip_address (fst (partition_c (CHR ''%'') (listen_host c))) of
        Some a \<Rightarrow> is_loopback a | None \<Rightarrow> False)"

section \<open>The upstream proxy setting\<close>

record upstream_url =
  up_scheme :: pystr
  up_host :: pystr
  up_port :: int
  up_user :: "pystr option"
  up_pass :: "pystr option"

text \<open>\<open>_parse_proxy_url\<close>.\<close>

definition default_proxy_port :: "pystr \<Rightarrow> int" where
  "default_proxy_port scheme =
     (if scheme = ''http'' then 80 else if scheme = ''https'' then 443
      else if scheme = ''socks5'' \<or> scheme = ''socks5h'' then 1080 else 0)"

definition parse_proxy_url :: "codec \<Rightarrow> pystr \<Rightarrow> upstream_url py" where
  "parse_proxy_url u proxy_url =
     rbind (urlparse proxy_url) (\<lambda>parsed.
       let scheme = py_lower (u_scheme parsed)
       in rbind (port parsed) (\<lambda>p.
         Inr \<lparr>up_scheme = scheme, up_host = hostname parsed,
              up_port = (case p of None \<Rightarrow> default_proxy_port scheme | Some q \<Rightarrow> q),
              up_user = map_option (unquote u) (username parsed),
              up_pass = map_option (unquote u) (password parsed)\<rparr>))"

text \<open>\<open>_validate_upstream_proxy_config\<close>.\<close>

definition validate_upstream_config :: "codec \<Rightarrow> config \<Rightarrow> unit py" where
  "validate_upstream_config u c =
     (if tor_socks c \<noteq> [] \<and> upstream_proxy c \<noteq> []
      then Inl (RuntimeError (''native Tor egress and EGRESS_UPSTREAM_PROXY_URL are mutually exclusive;''
             @ ''HTTPS-proxy-after-Tor support is deferred because no suitable ''
             @ ''zero-data-retention (ZDR) HTTPS proxy provider is known to exist. ''
             @ ''See docs/plans/deferred/https_proxy_after_tor.md for implementation details. ''
             @ ''Please file an issue if you are aware of any suitable providers.''))
      else if upstream_proxy c = [] then Inr ()
      else rbind
        (rcatch
          (rbind (urlparse (upstream_proxy c)) (\<lambda>parsed.
             rbind (parse_proxy_url u (upstream_proxy c)) (\<lambda>p. Inr (parsed, p))))
          is_valueerror
          (\<lambda>e. Inl (RuntimeError (''Invalid EGRESS_UPSTREAM_PROXY_URL: '' @ exn_str e))))
        (\<lambda>(parsed, p).
          if up_scheme p \<notin> {''http'', ''https'', ''socks5'', ''socks5h''}
          then Inl (RuntimeError (''EGRESS_UPSTREAM_PROXY_URL must use http, https, socks5, or socks5h, not ''
                 @ (if up_scheme p = [] then ''(missing scheme)'' else up_scheme p)))
          else if up_host p = [] then Inl (RuntimeError ''EGRESS_UPSTREAM_PROXY_URL must include a hostname'')
          else if \<not> valid_port (up_port p) then Inl (RuntimeError ''EGRESS_UPSTREAM_PROXY_URL has an invalid port'')
          else if u_query parsed \<noteq> [] \<or> u_fragment parsed \<noteq> [] \<or> u_params parsed \<noteq> []
          then Inl (RuntimeError ''EGRESS_UPSTREAM_PROXY_URL must not include params, a query, or a fragment'')
          else if u_path parsed \<notin> {'''', ''/''}
          then Inl (RuntimeError ''EGRESS_UPSTREAM_PROXY_URL must not include a path'')
          else if (up_user p = None) \<noteq> (up_pass p = None)
          then Inl (RuntimeError ''EGRESS_UPSTREAM_PROXY_URL must provide both username and password'')
          else if up_scheme p \<in> {''socks5'', ''socks5h''} \<and> up_user p \<noteq> None
            \<and> (255 < length (encode_utf8 (case up_user p of Some s \<Rightarrow> s | None \<Rightarrow> []))
               \<or> 255 < length (encode_utf8 (case up_pass p of Some s \<Rightarrow> s | None \<Rightarrow> [])))
          then Inl (RuntimeError ''SOCKS5 proxy credentials must be at most 255 bytes each'')
          else Inr ()))"

section \<open>Descriptions for the log\<close>

definition bracket_host :: "pystr \<Rightarrow> pystr" where
  "bracket_host h = (if CHR '':'' \<in> set h then ''['' @ h @ '']'' else h)"

text \<open>\<open>_sanitized_upstream_proxy\<close>.\<close>

definition sanitized_upstream :: "codec \<Rightarrow> config \<Rightarrow> pystr py" where
  "sanitized_upstream u c =
     (if upstream_proxy c = [] then Inr ''(direct)''
      else rbind (parse_proxy_url u (upstream_proxy c)) (\<lambda>p.
        Inr (up_scheme p @ ''://'' @ bracket_host (up_host p) @ '':'' @ int_str (up_port p))))"

definition target_dns_mode :: "config \<Rightarrow> pystr" where
  "target_dns_mode c =
     (if tor_socks c \<noteq> [] then ''native-tor''
      else if upstream_proxy c \<noteq> [] then ''upstream-proxy''
      else if vpn_enabled c then ''myst-provider-via-myst0''
      else ''system-explicit-no-vpn'')"

definition format_host_port_policy :: "bool \<Rightarrow> int list \<Rightarrow> pystr" where
  "format_host_port_policy all_ports ps =
     (if all_ports then ''all'' else if ps = [] then ''none''
      else join '','' (map int_str (sort ps)))"

definition format_configured_endpoint :: "(pystr \<times> int) option \<Rightarrow> pystr" where
  "format_configured_endpoint e =
     (case e of None \<Rightarrow> ''none'' | Some (h, p) \<Rightarrow> bracket_host h @ '':'' @ int_str p)"

text \<open>The checks \<open>main\<close> makes before it listens.\<close>

definition startup_check :: "codec \<Rightarrow> config \<Rightarrow> unit py" where
  "startup_check u c =
     rbind (validate_upstream_config u c) (\<lambda>_.
       raise_if (client_hosts c = [] \<and> \<not> listener_is_loopback_only c)
         (RuntimeError ''EGRESS_PROXY_ALLOWED_CLIENT_HOSTS must name at least one fixed bridge peer unless EGRESS_PROXY_HOST is a literal loopback address''))"

section \<open>What an imported configuration satisfies\<close>

lemma parse_port_item_valid: "parse_port_item i = Inr p \<Longrightarrow> valid_port p"
  by (auto simp: parse_port_item_def Let_def rbind_Inr_iff split: if_splits)

lemma parse_allowed_ports_valid:
  "parse_allowed_host_ports raw = Inr (all_ports, ps) \<Longrightarrow> (\<forall>p \<in> ps. valid_port p) \<and> (all_ports \<longrightarrow> ps = {})"
  using rmapM_Inr_set [of parse_port_item] parse_port_item_valid
  by (fastforce simp: parse_allowed_host_ports_def Let_def rbind_Inr_iff split: if_splits)

lemma parse_embedding_valid:
  "parse_embedding_endpoint u rc raw = Inr (Some (h, p)) \<Longrightarrow> rc = HostRoute \<and> h \<noteq> [] \<and> is_ascii h \<and> valid_port p"
  by (auto simp: parse_embedding_endpoint_def Let_def rbind_Inr_iff split: if_splits prod.splits option.splits)

lemma parse_trusted_public:
  "parse_trusted_destinations u PublicRoute raw = Inr d \<Longrightarrow> d = {}"
  by (auto simp: parse_trusted_destinations_def split: if_splits)

lemma parse_embedding_public:
  "parse_embedding_endpoint u PublicRoute raw = Inr e \<Longrightarrow> e = None"
  by (auto simp: parse_embedding_endpoint_def split: if_splits)

lemma parse_trusted_item_host:
  "parse_trusted_item u i = Inr (Some (h, p)) \<Longrightarrow> h \<noteq> [] \<and> 0 \<le> p \<and> p \<le> 65535"
  by (auto simp: parse_trusted_item_def Let_def rbind_Inr_iff rcatch_def
      split: if_splits option.splits sum.splits dest: port_range)

lemma parse_trusted_hosts:
  assumes "parse_trusted_destinations u rc raw = Inr d" and "(h, p) \<in> d"
  shows "h \<noteq> [] \<and> 0 \<le> p \<and> p \<le> 65535"
proof -
  have "raw \<noteq> [] \<and> rc = HostRoute" using assms
    by (auto simp: parse_trusted_destinations_def split: if_splits)
  with assms(1) obtain items where items: "rmapM (parse_trusted_item u) (split_on (CHR '','') raw) = Inr items"
      and d: "d = set (List.map_filter id items)"
    by (auto simp: parse_trusted_destinations_def Let_def rbind_Inr_iff split: if_splits)
  from d assms(2) have "Some (h, p) \<in> set items" by (auto simp: List.map_filter_def)
  with items show ?thesis using rmapM_Inr_set parse_trusted_item_host by metis
qed

definition config_ok :: "config \<Rightarrow> bool" where
  "config_ok c \<longleftrightarrow>
     (route c = PublicRoute \<longrightarrow> embedding c = None \<and> trusted c = {})
     \<and> builtin_blocked \<subseteq> blocked_hosts c
     \<and> (\<forall>p \<in> ports c. valid_port p) \<and> (ports_all c \<longrightarrow> ports c = {})
     \<and> podman_gateway c \<in> {'''', ''169.254.1.2''} \<and> tor_socks c \<in> {'''', ''/run/tor-egress/socks''}
     \<and> (\<forall>h p. embedding c = Some (h, p) \<longrightarrow> h \<noteq> [] \<and> is_ascii h \<and> valid_port p)
     \<and> (\<forall>(h, p) \<in> trusted c. h \<noteq> [] \<and> 0 \<le> p \<and> p \<le> 65535)"

lemma load_config_parts:
  assumes "load_config u env = Inr c"
  shows "podman_gateway c \<in> {'''', ''169.254.1.2''} \<and> tor_socks c \<in> {'''', ''/run/tor-egress/socks''}
    \<and> builtin_blocked \<subseteq> blocked_hosts c
    \<and> parse_allowed_host_ports (env_get env ''ONYX_INTEGRATIONS_ALLOWED_HOST_PORTS'' ''none'') = Inr (ports_all c, ports c)
    \<and> parse_embedding_endpoint u (route c) (py_strip (env_get env ''ONYX_RAG_EMBEDDING_SHIM_UPSTREAM_URL'' '''')) = Inr (embedding c)
    \<and> parse_trusted_destinations u (route c) (py_strip (env_get env ''EGRESS_PROXY_TRUSTED_INTERNAL_DESTINATIONS'' '''')) = Inr (trusted c)"
  using assms unfolding load_config_def Let_def rbind_Inr_iff raise_if_Inr split_paired_Ex prod.case
  by (elim exE conjE) (drule Inr_inject, hypsubst, intro conjI, simp_all, blast?)

lemma load_config_ok:
  assumes "load_config u env = Inr c"
  shows "config_ok c"
proof -
  note parts = load_config_parts [OF assms]
  then have "\<forall>p \<in> ports c. valid_port p" "ports_all c \<longrightarrow> ports c = {}"
    using parse_allowed_ports_valid by metis+
  moreover have "\<forall>(h, p) \<in> trusted c. h \<noteq> [] \<and> 0 \<le> p \<and> p \<le> 65535"
    using parts parse_trusted_hosts by blast
  moreover have "\<forall>h p. embedding c = Some (h, p) \<longrightarrow> h \<noteq> [] \<and> is_ascii h \<and> valid_port p"
    using parts parse_embedding_valid by metis
  moreover have "route c = PublicRoute \<longrightarrow> embedding c = None \<and> trusted c = {}"
    using parts parse_embedding_public parse_trusted_public by metis
  ultimately show ?thesis
    unfolding config_ok_def using parts by simp
qed

end
