(* ===== verification/Egress_Dns.thy ===== *)
theory Egress_Dns
  imports Egress_Config
begin

text \<open>
  The DNS client of the final-hop proxy (egress/final_hop_proxy.py): the wire format of a
  query, the parser of a response, the provider resolver derived from the VPN interface and
  the UDP-then-TCP exchange. What the network answers is a \<open>net\<close> record, an argument:
  the model says what the proxy does with any answer.
\<close>

unbundle bit_operations_syntax

text \<open>
  The outside world at one moment. Each field is the result of one operation of the
  operating system or of a remote peer, exceptions included; time limits that expire are
  \<open>TimeoutExn\<close>. \<open>n_getaddrinfo\<close> gives the address texts of the answers,
  \<open>n_dial\<close> what a TCP peer will send (the third argument is the TLS server name, when
  the connection is made with TLS), \<open>n_unix\<close> the same of a Unix socket, and
  \<open>n_tls\<close> of a stream upgraded to TLS for a server name.
\<close>

record net =
  n_getaddrinfo :: "pystr \<Rightarrow> int \<Rightarrow> pystr list py"
  n_iface :: "(ipv4 \<times> ipv4) py"
  n_query_id :: nat
  n_udp :: "pystr \<Rightarrow> pystr \<Rightarrow> bytes \<Rightarrow> bytes py"
  n_tcp :: "pystr \<Rightarrow> pystr \<Rightarrow> bytes \<Rightarrow> istream py"
  n_dial :: "pystr \<Rightarrow> int \<Rightarrow> pystr option \<Rightarrow> istream py"
  n_unix :: "pystr \<Rightarrow> istream py"
  n_tls :: "pystr \<Rightarrow> istream py"

section \<open>Numbers in messages\<close>

definition be16 :: "nat \<Rightarrow> bytes" where
  "be16 n = [char_of (n div 256 mod 256), char_of (n mod 256)]"

definition byte_at :: "bytes \<Rightarrow> nat \<Rightarrow> nat" where
  "byte_at m i = ord_c (m ! i)"

definition u16_at :: "bytes \<Rightarrow> nat \<Rightarrow> nat" where
  "u16_at m i = byte_at m i * 256 + byte_at m (i + 1)"

section \<open>Names\<close>

text \<open>\<open>_encode_dns_name\<close>.\<close>

definition encode_label :: "pystr \<Rightarrow> bytes" where
  "encode_label l = char_of (length l) # l"

definition encode_labels :: "pystr list \<Rightarrow> bytes" where
  "encode_labels ls = concat (map encode_label ls)"

definition encode_dns_name :: "codec \<Rightarrow> pystr \<Rightarrow> bytes py" where
  "encode_dns_name u host =
     (case idna u (normalize_host u host) of
        None \<Rightarrow> Inl (GaiError (''invalid IDNA hostname: '' @ host))
      | Some ascii_host \<Rightarrow>
          (let labels = split_on (CHR ''.'') ascii_host
           in if labels = [] \<or> list_ex (\<lambda>l. l = [] \<or> 63 < length l) labels
              then Inl (GaiError (''invalid DNS hostname: '' @ host))
              else let encoded = encode_labels labels
              in if 255 < length encoded + 1
                 then Inl (GaiError (''DNS hostname is too long: '' @ host))
                 else Inr (encoded @ [CHR 0x00])))"

text \<open>\<open>_skip_dns_name\<close>: each turn of its loop either leaves it or moves forward.\<close>

function skip_dns_name_from :: "bytes \<Rightarrow> nat \<Rightarrow> nat \<Rightarrow> nat py" where
  "skip_dns_name_from message offset labels_seen =
     (if length message \<le> offset then Inl (ValueError ''truncated DNS name'')
      else let size = byte_at message offset
      in if size AND 0xC0 = 0xC0
         then (if length message \<le> offset + 1
               then Inl (ValueError ''truncated DNS compression pointer'')
               else Inr (offset + 2))
         else if size AND 0xC0 \<noteq> 0 then Inl (ValueError ''invalid DNS label type'')
         else if size = 0 then Inr (offset + 1)
         else if length message < offset + 1 + size \<or> 127 < labels_seen + 1
         then Inl (ValueError ''invalid DNS name'')
         else skip_dns_name_from message (offset + 1 + size) (labels_seen + 1))"
  by pat_completeness auto
termination
  by (relation "measure (\<lambda>(m, off, k). length m - off)") auto

declare skip_dns_name_from.simps [simp del]

definition skip_dns_name :: "bytes \<Rightarrow> nat \<Rightarrow> nat py" where
  "skip_dns_name message offset = skip_dns_name_from message offset 0"

section \<open>Responses\<close>

fun skip_questions :: "bytes \<Rightarrow> nat \<Rightarrow> nat \<Rightarrow> nat py" where
  "skip_questions message 0 offset = Inr offset"
| "skip_questions message (Suc n) offset =
     rbind (skip_dns_name message offset) (\<lambda>off.
       if length message < off + 4 then Inl (ValueError ''truncated DNS question'')
       else skip_questions message n (off + 4))"

definition ipv4_at :: "bytes \<Rightarrow> nat \<Rightarrow> ipv4" where
  "ipv4_at m i = v4 (byte_at m i) (byte_at m (i + 1)) (byte_at m (i + 2)) (byte_at m (i + 3))"

text \<open>The addresses are collected in answer order; the code keeps them as a set.\<close>

fun read_answers :: "bytes \<Rightarrow> nat \<Rightarrow> nat \<Rightarrow> pystr list py" where
  "read_answers message 0 offset = Inr []"
| "read_answers message (Suc n) offset =
     rbind (skip_dns_name message offset) (\<lambda>off.
       if length message < off + 10 then Inl (ValueError ''truncated DNS answer'')
       else let record_type = u16_at message off;
                record_class = u16_at message (off + 2);
                data_length = u16_at message (off + 8);
                data_end = off + 10 + data_length
       in if length message < data_end then Inl (ValueError ''truncated DNS answer data'')
          else rbind (read_answers message n data_end) (\<lambda>rest.
            Inr ((if record_type = 1 \<and> record_class = 1 \<and> data_length = 4
                  then [ipv4_str (ipv4_at message (off + 10))] else []) @ rest)))"

text \<open>\<open>_parse_dns_a_response\<close>: the addresses and whether the answer was truncated.\<close>

definition parse_dns_a_response :: "bytes \<Rightarrow> nat \<Rightarrow> (pystr list \<times> bool) py" where
  "parse_dns_a_response message query_id =
     (if length message < 12 then Inl (ValueError ''truncated DNS response'')
      else let response_id = u16_at message 0;
               flags = u16_at message 2;
               question_count = u16_at message 4;
               answer_count = u16_at message 6;
               rcode = flags AND 0x000F
      in if response_id \<noteq> query_id \<or> flags AND 0x8000 = 0
         then Inl (ValueError ''mismatched DNS response'')
         else if rcode = 3 then Inl (GaiError ''[Errno -2] DNS name does not exist'')
         else if rcode \<noteq> 0 then Inl (GaiError (''DNS resolver returned rcode '' @ nat_str rcode))
         else if flags AND 0x0200 \<noteq> 0 then Inr ([], True)
         else rbind (skip_questions message question_count 12) (\<lambda>offset.
           rbind (read_answers message answer_count offset) (\<lambda>addresses. Inr (addresses, False))))"

section \<open>The provider resolver\<close>

text \<open>The prefix length of a netmask, or of a host mask, as \<open>IPv4Network\<close> reads one.\<close>

definition mask_of_prefix :: "nat \<Rightarrow> ipv4" where
  "mask_of_prefix p = word_of_nat (2 ^ 32 - 2 ^ (32 - p))"

definition prefix_of_mask :: "ipv4 \<Rightarrow> nat option" where
  "prefix_of_mask m =
     (case filter (\<lambda>p. mask_of_prefix p = m) [0..<33] of
        p # _ \<Rightarrow> Some p
      | [] \<Rightarrow> (case filter (\<lambda>p. NOT (mask_of_prefix p) = m) [0..<33] of
                 p # _ \<Rightarrow> Some p
               | [] \<Rightarrow> None))"

text \<open>\<open>_interface_ipv4_network\<close> for the fixed interface name: the interface's address,
  the network address and the prefix length.\<close>

definition interface_network :: "net \<Rightarrow> (ipv4 \<times> ipv4 \<times> nat) py" where
  "interface_network n =
     rbind (rcatch (n_iface n) is_oserror
             (\<lambda>_. Inl (RuntimeError (''Mysterium VPN interface '' @ sq ''myst0'' @ '' has no usable IPv4 configuration''))))
       (\<lambda>(address, netmask).
          case prefix_of_mask netmask of
            None \<Rightarrow> Inl (ValueError (sq (ipv4_str netmask) @ '' is not a valid netmask''))
          | Some p \<Rightarrow> Inr (address, address AND mask_of_prefix p, p))"

text \<open>\<open>_myst_provider_dns_endpoint\<close>.\<close>

definition provider_dns_endpoint :: "net \<Rightarrow> (pystr \<times> pystr) py" where
  "provider_dns_endpoint n =
     rbind (interface_network n) (\<lambda>(local_address, network, prefixlen).
       if prefixlen = 32
       then Inl (RuntimeError ''cannot derive provider DNS from a /32 Myst interface'')
       else let provider = network + 1
       in if provider = local_address
          then Inl (RuntimeError ''derived provider DNS address equals the local Myst address'')
          else Inr (ipv4_str provider, ipv4_str local_address))"

section \<open>Queries\<close>

definition dns_query :: "codec \<Rightarrow> nat \<Rightarrow> pystr \<Rightarrow> bytes py" where
  "dns_query u query_id host =
     rbind (encode_dns_name u host) (\<lambda>name.
       Inr (concat (map be16 [query_id, 0x0100, 1, 0, 0, 0]) @ name @ be16 1 @ be16 1))"

text \<open>The TCP leg: a two-byte length and then the message.\<close>

definition tcp_exchange :: "net \<Rightarrow> pystr \<Rightarrow> pystr \<Rightarrow> bytes \<Rightarrow> bytes py" where
  "tcp_exchange n resolver local_ip query =
     rbind (n_tcp n resolver local_ip (be16 (length query) @ query)) (\<lambda>s0.
       rbind (timed (readexactly 2 s0)) (\<lambda>(prefix2, s1).
         rbind (timed (readexactly (u16_at prefix2 0) s1)) (\<lambda>(body, _). Inr body)))"

text \<open>\<open>_dns_query_a\<close>.\<close>

definition dns_query_a :: "codec \<Rightarrow> net \<Rightarrow> pystr \<Rightarrow> pystr \<Rightarrow> pystr \<Rightarrow> pystr list py" where
  "dns_query_a u n host resolver local_ip =
     rbind (dns_query u (n_query_id n) host) (\<lambda>query.
       rbind (n_udp n resolver local_ip query) (\<lambda>response.
         rbind (parse_dns_a_response response (n_query_id n)) (\<lambda>(addresses, truncated).
           if \<not> truncated then Inr addresses
           else rbind (tcp_exchange n resolver local_ip query) (\<lambda>tcp_response.
             rbind (parse_dns_a_response tcp_response (n_query_id n)) (\<lambda>(addresses, tcp_truncated).
               if tcp_truncated
               then Inl (GaiError ''DNS TCP response was unexpectedly truncated'')
               else Inr addresses)))))"

text \<open>\<open>_resolve_system_host\<close> and \<open>_resolve_target_host\<close>.\<close>

definition resolve_system_host :: "net \<Rightarrow> pystr \<Rightarrow> int \<Rightarrow> pystr list py" where
  "resolve_system_host n host p = n_getaddrinfo n host p"

definition resolve_target_host :: "codec \<Rightarrow> config \<Rightarrow> net \<Rightarrow> pystr \<Rightarrow> int \<Rightarrow> pystr list py" where
  "resolve_target_host u c n host p =
     (if \<not> vpn_enabled c then resolve_system_host n host p
      else rbind (provider_dns_endpoint n) (\<lambda>(resolver, local_ip).
        dns_query_a u n host resolver local_ip))"

section \<open>Facts about the wire format\<close>

lemma byte_at_append [simp]:
  "byte_at (pre @ c # post) (length pre) = ord_c c"
  by (simp add: byte_at_def)

lemma byte_at_shift: "byte_at (pre @ m) (length pre + i) = byte_at m i"
  by (simp add: byte_at_def nth_append)

lemma byte_at_shift': "k = length pre + i \<Longrightarrow> byte_at (pre @ m) k = byte_at m i"
  by (simp add: byte_at_shift)

lemma u16_at_shift: "k = length pre + i \<Longrightarrow> u16_at (pre @ m) k = u16_at m i"
  using byte_at_shift [of pre m i] byte_at_shift [of pre m "Suc i"] by (simp add: u16_at_def)

lemma u16_at_be16: "n < 65536 \<Longrightarrow> u16_at (be16 n @ m) 0 = n"
proof -
  assume n: "n < 65536"
  then have "n div 256 < 256" by (simp add: div_less_iff_less_mult)
  then show ?thesis
    by (simp add: u16_at_def be16_def byte_at_def)
qed

lemma length_be16 [simp]: "length (be16 n) = 2"
  by (simp add: be16_def)

lemma u16_at_less: "u16_at m i < 65536"
proof -
  have "ord_c (m ! i) \<le> 255" "ord_c (m ! (i + 1)) \<le> 255"
    using ord_c_less [of "m ! i"] ord_c_less [of "m ! (i + 1)"] by linarith+
  then show ?thesis unfolding u16_at_def byte_at_def by linarith
qed

text \<open>A label length is below 64: its two high bits are clear.\<close>

lemma label_length_bits: "n < 64 \<Longrightarrow> n AND 0xC0 = (0::nat)"
proof -
  have "list_all (\<lambda>k. k AND 0xC0 = (0::nat)) [0..<64]" by code_simp
  then show "n < 64 \<Longrightarrow> n AND 0xC0 = (0::nat)" by (auto simp: list_all_iff)
qed

text \<open>Skipping a name stops inside the message and moves forward.\<close>

lemma skip_dns_name_from_bounds:
  "skip_dns_name_from m off k = Inr r \<Longrightarrow> off < r \<and> r \<le> length m"
proof (induction m off k rule: skip_dns_name_from.induct)
  case (1 m off k)
  from "1.prems" show ?case
    using "1.IH" [OF _ refl]
    by (subst (asm) skip_dns_name_from.simps) (auto simp: Let_def split: if_splits)
qed

lemma skip_encoded_labels:
  assumes "list_all (\<lambda>l. l \<noteq> [] \<and> length l \<le> 63) ls" and "k + length ls \<le> 127"
  shows "skip_dns_name_from (pre @ encode_labels ls @ CHR 0x00 # post) (length pre) k
         = Inr (length pre + length (encode_labels ls) + 1)"
  using assms
proof (induction ls arbitrary: pre k)
  case Nil
  have z: "ord_c (CHR 0x00) = 0" by (simp add: ord_c_def)
  show ?case
    by (subst skip_dns_name_from.simps) (simp add: encode_labels_def z)
next
  case (Cons l ls)
  then have l: "l \<noteq> []" "length l \<le> 63" "length l mod 256 = length l" by auto
  have bits: "length l AND 0xC0 = 0" using l(2) by (intro label_length_bits) simp
  let ?pre = "pre @ char_of (length l) # l"
  let ?m = "pre @ encode_labels (l # ls) @ CHR 0x00 # post"
  have m: "?m = ?pre @ encode_labels ls @ CHR 0x00 # post"
    by (simp add: encode_labels_def encode_label_def)
  have b: "byte_at ?m (length pre) = length l"
    using l(3) by (simp add: encode_labels_def encode_label_def)
  have "skip_dns_name_from ?m (length pre) k = skip_dns_name_from ?m (length ?pre) (k + 1)"
    using Cons.prems(2) l(1)
    by (subst skip_dns_name_from.simps)
       (simp only: b bits Let_def, simp add: encode_labels_def encode_label_def)
  also have "\<dots> = Inr (length ?pre + length (encode_labels ls) + 1)"
    unfolding m using Cons by (intro Cons.IH) auto
  finally show ?case
    by (simp add: encode_labels_def encode_label_def)
qed

section \<open>What resolution returns\<close>

definition ipv4_text :: "pystr \<Rightarrow> bool" where
  "ipv4_text t \<longleftrightarrow> (\<exists>w. t = ipv4_str w)"

lemma ipv4_text_str [simp]: "ipv4_text (ipv4_str w)"
  by (auto simp: ipv4_text_def)

lemma ipv4_text_parses: "ipv4_text t \<Longrightarrow> ip_address t \<noteq> None"
  by (auto simp: ipv4_text_def)

lemma read_answers_texts:
  "read_answers m k off = Inr xs \<Longrightarrow> list_all ipv4_text xs"
proof (induction k arbitrary: off xs)
  case (Suc k)
  then show ?case by (auto simp: rbind_Inr_iff Let_def split: if_splits)
qed simp

lemma parse_dns_texts:
  "parse_dns_a_response m q = Inr (xs, b) \<Longrightarrow> list_all ipv4_text xs"
  by (auto simp: parse_dns_a_response_def Let_def rbind_Inr_iff split: if_splits dest: read_answers_texts)

lemma dns_query_a_texts:
  "dns_query_a u n h r l = Inr xs \<Longrightarrow> list_all ipv4_text xs"
  by (auto simp: dns_query_a_def rbind_Inr_iff split: if_splits dest: parse_dns_texts)

text \<open>What the documentation of \<open>getaddrinfo\<close> promises of its answers and of its errors.\<close>

definition address_texts :: "net \<Rightarrow> bool" where
  "address_texts n \<longleftrightarrow>
     (\<forall>h p xs. n_getaddrinfo n h p = Inr xs \<longrightarrow> list_all (\<lambda>t. ip_address t \<noteq> None) xs)"

lemma resolve_target_texts:
  assumes "resolve_target_host u c n h p = Inr xs" and "vpn_enabled c \<or> address_texts n" and "t \<in> set xs"
  shows "ip_address t \<noteq> None"
proof (cases "vpn_enabled c")
  case True
  with assms(1) obtain r l where "dns_query_a u n h r l = Inr xs"
    by (auto simp: resolve_target_host_def rbind_Inr_iff)
  with dns_query_a_texts assms(3) show ?thesis
    by (intro ipv4_text_parses) (auto simp: list_all_iff)
next
  case False
  with assms show ?thesis
    by (fastforce simp: resolve_target_host_def resolve_system_host_def address_texts_def list_all_iff)
qed

lemma resolve_system_texts:
  "resolve_system_host n h p = Inr xs \<Longrightarrow> address_texts n \<Longrightarrow> t \<in> set xs \<Longrightarrow> ip_address t \<noteq> None"
  by (fastforce simp: resolve_system_host_def address_texts_def list_all_iff)

section \<open>Properties of the wire format\<close>

lemma u16_at_word: "k = length pre \<Longrightarrow> n < 65536 \<Longrightarrow> u16_at (pre @ be16 n @ m) k = n"
  using u16_at_shift [of k pre 0 "be16 n @ m"] u16_at_be16 by simp

lemma encode_labels_length:
  "list_all (\<lambda>l. l \<noteq> []) ls \<Longrightarrow> 2 * length ls \<le> length (encode_labels ls)"
proof (induction ls)
  case (Cons l ls)
  then have "1 \<le> length l" by (cases l) auto
  with Cons show ?case by (simp add: encode_labels_def encode_label_def)
qed (simp add: encode_labels_def)

lemma encode_dns_name_shape:
  assumes "encode_dns_name u host = Inr b"
  obtains ls where "b = encode_labels ls @ [CHR 0x00]" "list_all (\<lambda>l. l \<noteq> [] \<and> length l \<le> 63) ls"
    "length ls \<le> 127" "length b \<le> 255"
proof -
  from assms obtain ls where ls: "b = encode_labels ls @ [CHR 0x00]" "\<not> list_ex (\<lambda>l. l = [] \<or> 63 < length l) ls"
    "length (encode_labels ls) + 1 \<le> 255"
    by (auto simp: encode_dns_name_def Let_def split: option.splits if_splits)
  then have all: "list_all (\<lambda>l. l \<noteq> [] \<and> length l \<le> 63) ls"
    by (auto simp: list_all_iff list_ex_iff not_less)
  then have "2 * length ls \<le> length (encode_labels ls)"
    by (intro encode_labels_length) (auto simp: list_all_iff)
  with ls all that show thesis by auto
qed

lemma skip_encoded_name:
  assumes "encode_dns_name u host = Inr b"
  shows "length b \<le> 255 \<and> skip_dns_name (pre @ b @ post) (length pre) = Inr (length pre + length b)"
  using assms
proof (rule encode_dns_name_shape)
  fix ls
  assume "b = encode_labels ls @ [CHR 0x00]" "list_all (\<lambda>l. l \<noteq> [] \<and> length l \<le> 63) ls"
    "length ls \<le> 127" "length b \<le> 255"
  then show ?thesis using skip_encoded_labels [of ls 0 pre post] by (simp add: skip_dns_name_def)
qed

text \<open>
  The encoding of a host name is at most 255 octets long, and wherever it
  stands in a message the name parser steps over exactly it.
\<close>

theorem encode_then_skip:
  assumes "encode_dns_name u host = Inr b"
  shows "length b \<le> 255 \<and> skip_dns_name (pre @ b @ post) (length pre) = Inr (length pre + length b)"
  by (rule skip_encoded_name [OF assms])

lemma encode_then_skip_witness:
  "length [CHR 0x01, CHR ''a'', CHR 0x02, CHR ''b'', CHR ''c'', CHR 0x00] \<le> 255
    \<and> skip_dns_name (CHR 0xFF # [CHR 0x01, CHR ''a'', CHR 0x02, CHR ''b'', CHR ''c'', CHR 0x00] @ ''tail'') 1 = Inr 7"
proof -
  have "encode_dns_name \<lparr>idna_nonascii = \<lambda>_. None, utf8_replace = id\<rparr> ''A.bc.''
      = Inr [CHR 0x01, CHR ''a'', CHR 0x02, CHR ''b'', CHR ''c'', CHR 0x00]" by code_simp
  from encode_then_skip [OF this, of "[CHR 0xFF]"] show ?thesis by simp
qed

text \<open>The bytes a server sends: a header that accepts the query, the question and records
  whose owner is a pointer to the question's name.\<close>

record rr =
  rr_type :: nat
  rr_class :: nat
  rr_ttl :: bytes
  rr_data :: bytes

definition rr_ok :: "rr \<Rightarrow> bool" where
  "rr_ok r \<longleftrightarrow> rr_type r < 65536 \<and> rr_class r < 65536 \<and> length (rr_ttl r) = 4 \<and> length (rr_data r) < 65536"

definition rr_bytes :: "rr \<Rightarrow> bytes" where
  "rr_bytes r = [CHR 0xC0, CHR 0x0C] @ be16 (rr_type r) @ be16 (rr_class r) @ rr_ttl r
     @ be16 (length (rr_data r)) @ rr_data r"

definition is_a_record :: "rr \<Rightarrow> bool" where
  "is_a_record r \<longleftrightarrow> rr_type r = 1 \<and> rr_class r = 1 \<and> length (rr_data r) = 4"

definition server_response :: "nat \<Rightarrow> bytes \<Rightarrow> rr list \<Rightarrow> bytes" where
  "server_response query_id name rrs =
     concat (map be16 [query_id, 0x8180, 1, length rrs, 0, 0]) @ name @ be16 1 @ be16 1
     @ concat (map rr_bytes rrs)"

lemma skip_pointer: "skip_dns_name (pre @ CHR 0xC0 # x # post) (length pre) = Inr (length pre + 2)"
proof -
  have c: "(0xC0::nat) AND 0xC0 = 0xC0" "ord_c (CHR 0xC0) = 0xC0" by code_simp+
  show ?thesis
    unfolding skip_dns_name_def by (subst skip_dns_name_from.simps) (simp add: c Let_def)
qed

lemma read_answers_step:
  assumes "rr_ok r"
  shows "read_answers (pre @ rr_bytes r @ post) (Suc n) (length pre)
    = rbind (read_answers (pre @ rr_bytes r @ post) n (length (pre @ rr_bytes r)))
        (\<lambda>rest. Inr ((if is_a_record r then [ipv4_str (ipv4_at (rr_data r) 0)] else []) @ rest))"
proof -
  let ?m = "pre @ rr_bytes r @ post"
  let ?b = "be16 (rr_type r) @ be16 (rr_class r) @ rr_ttl r @ be16 (length (rr_data r)) @ rr_data r @ post"
  have m: "?m = (pre @ [CHR 0xC0, CHR 0x0C]) @ ?b" by (simp add: rr_bytes_def)
  have skip: "skip_dns_name ?m (length pre) = Inr (length pre + 2)"
    using skip_pointer [of pre "CHR 0x0C" ?b] by (simp add: rr_bytes_def)
  have len: "length (rr_ttl r) = 4" using assms by (simp add: rr_ok_def)
  have t: "u16_at ?m (length pre + 2) = rr_type r"
    using u16_at_shift [of "length pre + 2" "pre @ [CHR 0xC0, CHR 0x0C]" 0 ?b] u16_at_be16 assms
    by (simp add: m rr_ok_def del: append_assoc)
  have c: "u16_at ?m (length pre + 2 + 2) = rr_class r"
    using u16_at_shift [of "length pre + 2 + 2" "pre @ [CHR 0xC0, CHR 0x0C] @ be16 (rr_type r)" 0
        "be16 (rr_class r) @ rr_ttl r @ be16 (length (rr_data r)) @ rr_data r @ post"] u16_at_be16 assms
    by (simp add: rr_bytes_def rr_ok_def)
  have d: "u16_at ?m (length pre + 2 + 8) = length (rr_data r)"
    using u16_at_shift [of "length pre + 2 + 8" "pre @ [CHR 0xC0, CHR 0x0C] @ be16 (rr_type r) @ be16 (rr_class r) @ rr_ttl r" 0
        "be16 (length (rr_data r)) @ rr_data r @ post"] u16_at_be16 assms len
    by (simp add: rr_bytes_def rr_ok_def)
  have b: "byte_at ?m (length pre + 12 + i) = byte_at (rr_data r) i" if "i < length (rr_data r)" for i
    using that len byte_at_shift' [of "length pre + 12 + i"
        "pre @ [CHR 0xC0, CHR 0x0C] @ be16 (rr_type r) @ be16 (rr_class r) @ rr_ttl r @ be16 (length (rr_data r))" i "rr_data r @ post"]
    by (simp add: rr_bytes_def byte_at_def nth_append)
  have ip: "ipv4_at ?m (length pre + 2 + 10) = ipv4_at (rr_data r) 0" if "length (rr_data r) = 4"
    using that b [of 0] b [of 1] b [of 2] b [of 3] by (simp add: ipv4_at_def add.assoc eval_nat_numeral)
  have n: "(length ?m < length pre + 2 + 10) = False"
    "(length ?m < length pre + 2 + 10 + length (rr_data r)) = False"
    "length (pre @ rr_bytes r) = length pre + 2 + 10 + length (rr_data r)"
    using len by (simp_all add: rr_bytes_def)
  show ?thesis
    unfolding read_answers.simps skip rbind_simps Let_def t c d n if_False is_a_record_def
    using ip by (cases "length (rr_data r) = 4") simp_all
qed

lemma read_answers_rrs:
  assumes "list_all rr_ok rrs"
  shows "read_answers (pre @ concat (map rr_bytes rrs)) (length rrs) (length pre)
    = Inr (map (\<lambda>r. ipv4_str (ipv4_at (rr_data r) 0)) (filter is_a_record rrs))"
  using assms
proof (induction rrs arbitrary: pre)
  case (Cons r rrs)
  then have "rr_ok r" "list_all rr_ok rrs" by auto
  with Cons.IH [of "pre @ rr_bytes r"] read_answers_step [of r pre "concat (map rr_bytes rrs)" "length rrs"]
  show ?case by simp
qed simp

text \<open>
  On the reply of a server the parser returns exactly the addresses of its
  A records, in order, whatever other records (aliases, signatures) stand between them.
\<close>

theorem parse_server_response:
  assumes "encode_dns_name u host = Inr name" and "query_id < 65536"
    and "list_all rr_ok rrs" and "length rrs < 65536"
  shows "parse_dns_a_response (server_response query_id name rrs) query_id
    = Inr (map (\<lambda>r. ipv4_str (ipv4_at (rr_data r) 0)) (filter is_a_record rrs), False)"
proof -
  let ?h = "concat (map be16 [query_id, 0x8180, 1, length rrs, 0, 0])"
  let ?m = "server_response query_id name rrs"
  let ?tail = "name @ be16 1 @ be16 1 @ concat (map rr_bytes rrs)"
  have m: "?m = ?h @ ?tail" by (simp add: server_response_def)
  let ?rest = "be16 0 @ be16 0 @ ?tail"
  have e: "?m = be16 query_id @ be16 0x8180 @ be16 1 @ be16 (length rrs) @ ?rest"
    by (simp add: server_response_def)
  have u: "u16_at ?m 0 = query_id" "u16_at ?m 2 = 0x8180" "u16_at ?m 4 = 1" "u16_at ?m 6 = length rrs"
    unfolding e
    using assms(2,4) u16_at_word [of 0 "[]" query_id] u16_at_word [of 2 "be16 query_id" "0x8180"]
      u16_at_word [of 4 "be16 query_id @ be16 0x8180" 1]
      u16_at_word [of 6 "be16 query_id @ be16 0x8180 @ be16 1" "length rrs"]
    by simp_all
  have flags: "(0x8180::nat) AND 0x8000 \<noteq> 0" "(0x8180::nat) AND 0x000F = 0" "(0x8180::nat) AND 0x0200 = 0"
    by code_simp+
  let ?front = "?h @ name @ be16 1 @ be16 1"
  have front: "length ?h = 12" "length ?front = 12 + length name + 4" by simp_all
  have parts: "?m = ?h @ name @ (be16 1 @ be16 1 @ concat (map rr_bytes rrs))"
    "?m = ?front @ concat (map rr_bytes rrs)"
    by (simp_all add: server_response_def)
  have n: "skip_dns_name ?m 12 = Inr (12 + length name)"
    using skip_encoded_name [OF assms(1), of ?h "be16 1 @ be16 1 @ concat (map rr_bytes rrs)"]
    by (simp only: parts(1) front(1))
  have long: "12 + length name + 4 \<le> length ?m"
    unfolding parts(2) length_append [of ?front] front(2) by simp
  have q: "skip_questions ?m 1 12 = Inr (12 + length name + 4)"
    unfolding One_nat_def skip_questions.simps n rbind_simps using long by simp
  have a: "read_answers ?m (length rrs) (12 + length name + 4)
      = Inr (map (\<lambda>r. ipv4_str (ipv4_at (rr_data r) 0)) (filter is_a_record rrs))"
    using read_answers_rrs [OF assms(3), of ?front] by (simp only: parts(2) front(2))
  show ?thesis
    unfolding parse_dns_a_response_def Let_def u q a rbind_simps
    using flags long by simp
qed


definition sample_alias :: rr where
  "sample_alias = \<lparr>rr_type = 5, rr_class = 1, rr_ttl = replicate 4 (CHR 0x00), rr_data = [CHR 0xC0, CHR 0x0C]\<rparr>"

definition sample_a :: rr where
  "sample_a = \<lparr>rr_type = 1, rr_class = 1, rr_ttl = replicate 4 (CHR 0x00),
     rr_data = [CHR 0x5D, CHR 0xB8, CHR 0xD8, CHR 0x22]\<rparr>"

lemma parse_server_response_witness:
  "parse_dns_a_response (server_response 4660 [CHR 0x01, CHR ''a'', CHR 0x00] [sample_alias, sample_a]) 4660
    = Inr ([''93.184.216.34''], False)"
proof -
  have "encode_dns_name \<lparr>idna_nonascii = \<lambda>_. None, utf8_replace = id\<rparr> ''a'' = Inr [CHR 0x01, CHR ''a'', CHR 0x00]"
    by code_simp
  from parse_server_response [OF this, of 4660 "[sample_alias, sample_a]"]
  have "parse_dns_a_response (server_response 4660 [CHR 0x01, CHR ''a'', CHR 0x00] [sample_alias, sample_a]) 4660
    = Inr ([ipv4_str (ipv4_at (rr_data sample_a) 0)], False)"
    by (simp add: rr_ok_def is_a_record_def sample_alias_def sample_a_def)
  moreover have "ipv4_str (ipv4_at (rr_data sample_a) 0) = ''93.184.216.34''" by code_simp
  ultimately show ?thesis by simp
qed

end
