(* ===== verification/Egress_Policy.thy ===== *)
theory Egress_Policy
  imports Egress_Dns
begin

text \<open>
  The destination policy of egress/final_hop_proxy.py: how an address or a host name is
  classified, which destinations the operator has opened, how a name is resolved for each of
  those cases, and \<open>validate_destination\<close>, the decision made before any connection is
  opened. A set of resolved addresses is the list of the answers; the order the code
  iterates over it is the list's.
\<close>

section \<open>Address classification\<close>

text \<open>\<open>_parse_ip_literal\<close> and \<open>_ip_block_reason\<close>.\<close>

definition parse_ip_literal :: "pystr \<Rightarrow> ip option" where
  "parse_ip_literal t = ip_address t"

definition ip_block_reason :: "pystr \<Rightarrow> pystr option" where
  "ip_block_reason t =
     (case parse_ip_literal t of
        None \<Rightarrow> None
      | Some a \<Rightarrow>
          (if is_loopback a then Some ''loopback IP''
           else if is_private a then Some ''private/RFC1918 IP''
           else if is_link_local a then Some ''link-local IP''
           else if is_multicast a then Some ''multicast IP''
           else if is_unspecified a then Some ''unspecified IP''
           else if is_reserved a then Some ''reserved IP''
           else if \<not> is_global a then Some ''non-global IP''
           else None))"

text \<open>\<open>_is_rfc1918\<close>: an IPv4 literal in one of the three ranges.\<close>

definition rfc1918_nets :: "(ipv4 \<times> nat) list" where
  "rfc1918_nets = [(v4 10 0 0 0, 8), (v4 172 16 0 0, 12), (v4 192 168 0 0, 16)]"

definition is_rfc1918 :: "pystr \<Rightarrow> bool" where
  "is_rfc1918 t =
     (case ip_address t of
        Some (V4 w) \<Rightarrow> list_ex (in_net4 w) rfc1918_nets
      | _ \<Rightarrow> False)"

section \<open>Destinations the operator has opened\<close>

definition is_exact_docker_host :: "codec \<Rightarrow> pystr \<Rightarrow> bool" where
  "is_exact_docker_host u host \<longleftrightarrow> normalize_host u host = ''host.docker.internal''"

definition is_allowed_exact_host_destination :: "codec \<Rightarrow> config \<Rightarrow> pystr \<Rightarrow> int \<Rightarrow> bool" where
  "is_allowed_exact_host_destination u c host p \<longleftrightarrow>
     route c = HostRoute \<and> is_exact_docker_host u host \<and> (ports_all c \<or> p \<in> ports c)"

definition is_rfc1918_system_dns_name :: "codec \<Rightarrow> pystr \<Rightarrow> bool" where
  "is_rfc1918_system_dns_name u host \<longleftrightarrow>
     list_ex (\<lambda>suffix. ends_with (normalize_host u host) suffix) rfc1918_dns_suffixes"

definition is_configured_embedding_destination :: "codec \<Rightarrow> config \<Rightarrow> pystr \<Rightarrow> int \<Rightarrow> bool" where
  "is_configured_embedding_destination u c host p \<longleftrightarrow>
     route c = HostRoute \<and> embedding c = Some (normalize_host u host, p)"

definition configured_endpoint_uses_local_route :: "codec \<Rightarrow> pystr \<Rightarrow> bool" where
  "configured_endpoint_uses_local_route u host \<longleftrightarrow>
     (let normalized = normalize_host u host
      in is_exact_docker_host u normalized \<or> is_rfc1918 normalized
         \<or> is_rfc1918_system_dns_name u normalized)"

definition is_configured_local_embedding_destination ::
  "codec \<Rightarrow> config \<Rightarrow> pystr \<Rightarrow> int \<Rightarrow> bool" where
  "is_configured_local_embedding_destination u c host p \<longleftrightarrow>
     is_configured_embedding_destination u c host p \<and> configured_endpoint_uses_local_route u host"

definition is_trusted_internal_destination :: "codec \<Rightarrow> config \<Rightarrow> pystr \<Rightarrow> int \<Rightarrow> bool" where
  "is_trusted_internal_destination u c host p \<longleftrightarrow> (normalize_host u host, p) \<in> trusted c"

definition is_onion_hostname :: "codec \<Rightarrow> pystr \<Rightarrow> bool" where
  "is_onion_hostname u host \<longleftrightarrow> ends_with (normalize_host u host) ''.onion''"

section \<open>Host names\<close>

text \<open>\<open>_loose_ipv4_literal\<close>.\<close>

definition loose_ipv4_literal :: "pystr \<Rightarrow> pystr option" where
  "loose_ipv4_literal host =
     (if host = [] \<or> \<not> list_all (\<lambda>ch. ch \<in> set ''0123456789abcdefABCDEFxX.'') host then None
      else map_option ipv4_str (inet_aton host))"

text \<open>\<open>_hostname_block_reason\<close>.\<close>

definition hostname_block_reason :: "codec \<Rightarrow> config \<Rightarrow> pystr \<Rightarrow> pystr option" where
  "hostname_block_reason u c raw_host =
     (let host = normalize_host u raw_host
      in if host = [] then Some ''empty host''
         else if \<not> is_ascii host then Some ''invalid IDNA hostname''
         else if CHR ''%'' \<in> set host then Some ''IPv6 zone identifier''
         else if host \<in> blocked_hosts c then Some ''blocked internal hostname''
         else if \<exists>blocked \<in> blocked_hosts c. ends_with host (''.'' @ blocked)
         then Some ''blocked internal hostname suffix''
         else if \<exists>suffix \<in> builtin_blocked_suffixes. host = suffix \<or> ends_with host (''.'' @ suffix)
         then Some ''blocked Docker-internal hostname suffix''
         else if CHR ''.'' \<notin> set host then Some ''single-label/internal hostname''
         else None)"

text \<open>\<open>_parse_authority\<close>.\<close>

definition parse_authority :: "pystr \<Rightarrow> int \<Rightarrow> (pystr \<times> int) py" where
  "parse_authority authority default_port =
     rbind (urlparse (''//'' @ authority)) (\<lambda>parsed.
       rbind (rcatch (port parsed) is_valueerror
                (\<lambda>_. Inl (ValueError (''invalid port in target '' @ sq authority))))
         (\<lambda>p. Inr (hostname parsed, case p of None \<Rightarrow> default_port | Some q \<Rightarrow> q)))"

text \<open>\<open>_plain_http_allowed\<close>.\<close>

definition plain_http_allowed :: "codec \<Rightarrow> config \<Rightarrow> pystr \<Rightarrow> int \<Rightarrow> pystr list \<Rightarrow> bool" where
  "plain_http_allowed u c host p validated_ips \<longleftrightarrow>
     (let validated_rfc1918 = (validated_ips \<noteq> [] \<and> list_all is_rfc1918 validated_ips)
      in allow_http c
         \<or> (tor_socks c \<noteq> [] \<and> is_onion_hostname u host)
         \<or> is_trusted_internal_destination u c host p
         \<or> is_configured_local_embedding_destination u c host p
         \<or> is_allowed_exact_host_destination u c host p
         \<or> (route c = HostRoute \<and> allow_lan c \<and> validated_rfc1918))"

section \<open>Resolution of the opened destinations\<close>

definition system_resolver_error :: "exn \<Rightarrow> bool" where
  "system_resolver_error e \<longleftrightarrow> is_oserror e \<or> is_valueerror e"

definition target_resolver_error :: "exn \<Rightarrow> bool" where
  "target_resolver_error e \<longleftrightarrow> is_oserror e \<or> is_runtimeerror e \<or> is_valueerror e"

text \<open>The address test in the loop of \<open>_resolve_exact_docker_host\<close>.\<close>

definition docker_address_forbidden :: "config \<Rightarrow> pystr \<Rightarrow> bool" where
  "docker_address_forbidden c address =
     (case parse_ip_literal address of
        None \<Rightarrow> True
      | Some parsed \<Rightarrow>
          (let allowed_podman_gateway =
             (podman_gateway c \<noteq> [] \<and> address = podman_gateway c \<and> is_link_local parsed)
           in is_loopback parsed \<or> (is_link_local parsed \<and> \<not> allowed_podman_gateway)
              \<or> is_multicast parsed \<or> is_unspecified parsed \<or> is_reserved parsed))"

definition resolve_exact_docker_host ::
  "codec \<Rightarrow> config \<Rightarrow> net \<Rightarrow> pystr \<Rightarrow> int \<Rightarrow> pystr list py" where
  "resolve_exact_docker_host u c n host p =
     (if \<not> is_exact_docker_host u host
      then Inl (ConnectionError ''exact Docker-host resolution requires host.docker.internal'')
      else rbind
        (rcatch (resolve_system_host n (normalize_host u host) p) system_resolver_error
          (\<lambda>_. Inl (ConnectionError ''Docker-host DNS resolution failed: system resolver error'')))
        (\<lambda>resolved.
          if resolved = [] then Inl (ConnectionError ''Docker-host DNS resolution returned no addresses'')
          else if list_ex (docker_address_forbidden c) resolved
          then Inl (ConnectionError ''Docker-host resolved to a forbidden address'')
          else Inr (sorted_set resolved)))"

definition first_blocked :: "pystr list \<Rightarrow> (pystr \<times> pystr) option" where
  "first_blocked addresses =
     (case List.map_filter (\<lambda>a. map_option (Pair a) (ip_block_reason a)) addresses of
        [] \<Rightarrow> None | r # _ \<Rightarrow> Some r)"

text \<open>\<open>_resolve_configured_endpoint\<close>.\<close>

definition resolve_configured_endpoint ::
  "codec \<Rightarrow> config \<Rightarrow> net \<Rightarrow> pystr \<Rightarrow> int \<Rightarrow> pystr \<Rightarrow> pystr list py" where
  "resolve_configured_endpoint u c n host p purpose =
     (let h = normalize_host u host
      in if parse_ip_literal h \<noteq> None
         then (if is_rfc1918 h then Inr [h]
               else case ip_block_reason h of
                 Some reason \<Rightarrow> Inl (ConnectionError (''blocked '' @ purpose @ '' address ('' @ reason @ '')''))
               | None \<Rightarrow> Inr [h])
         else if is_exact_docker_host u h then resolve_exact_docker_host u c n h p
         else if is_rfc1918_system_dns_name u h
         then rbind
           (rcatch (resolve_system_host n h p) system_resolver_error
             (\<lambda>_. Inl (ConnectionError (purpose @ '' system DNS resolution failed''))))
           (\<lambda>resolved.
             if resolved = []
             then Inl (ConnectionError (purpose @ '' system DNS resolution returned no addresses''))
             else if \<not> list_all is_rfc1918 resolved
             then Inl (ConnectionError (purpose @ '' system DNS returned ''
                    @ (if list_ex is_rfc1918 resolved then ''mixed'' else ''non-RFC1918'') @ '' addresses''))
             else Inr (sorted_set resolved))
         else case hostname_block_reason u c h of
           Some reason \<Rightarrow> Inl (ConnectionError (''blocked '' @ purpose @ '' hostname ('' @ reason @ '')''))
         | None \<Rightarrow> rbind
             (rcatch (if vpn_enabled c then resolve_target_host u c n h p else resolve_system_host n h p)
               target_resolver_error
               (\<lambda>_. Inl (ConnectionError (purpose @ '' DNS resolution failed''))))
             (\<lambda>resolved.
               if resolved = []
               then Inl (ConnectionError (purpose @ '' DNS resolution returned no addresses''))
               else case first_blocked resolved of
                 Some (address, reason) \<Rightarrow>
                   Inl (ConnectionError (purpose @ '' resolved to blocked '' @ address @ '' ('' @ reason @ '')''))
               | None \<Rightarrow> Inr (sorted_set resolved)))"

definition resolve_configured_embedding_destination ::
  "codec \<Rightarrow> config \<Rightarrow> net \<Rightarrow> pystr \<Rightarrow> int \<Rightarrow> pystr list option py" where
  "resolve_configured_embedding_destination u c n host p =
     (if \<not> is_configured_local_embedding_destination u c host p then Inr None
      else rbind (resolve_configured_endpoint u c n host p ''configured embedding endpoint'')
        (\<lambda>ips. Inr (Some ips)))"

section \<open>The decision\<close>

text \<open>A decision: the reason to block, or none and the addresses the destination is pinned
  to (no address means that the upstream proxy resolves the name).\<close>

type_synonym decision = "pystr option \<times> pystr list"

definition blocked :: "pystr \<Rightarrow> decision py" where
  "blocked reason = Inr (Some reason, [])"

definition pinned :: "pystr list \<Rightarrow> decision py" where
  "pinned ips = Inr (None, ips)"

text \<open>\<open>try: ... except ConnectionError as exc: return str(exc), ()\<close>.\<close>

definition or_block :: "decision py \<Rightarrow> decision py" where
  "or_block r = rcatch r is_connectionerror (\<lambda>e. blocked (exn_str e))"

text \<open>The end of \<open>_validate_destination\<close>, from the upstream-proxy test on.\<close>

definition validate_resolved :: "codec \<Rightarrow> config \<Rightarrow> net \<Rightarrow> pystr \<Rightarrow> int \<Rightarrow> decision py" where
  "validate_resolved u c n host p =
     (if upstream_proxy c \<noteq> [] \<or> tor_socks c \<noteq> [] then pinned []
      else case resolve_target_host u c n host p of
        Inl e \<Rightarrow> (if target_resolver_error e then blocked (''DNS resolution failed: '' @ exn_str e) else Inl e)
      | Inr resolved_ips \<Rightarrow>
          (if resolved_ips = [] then blocked ''DNS resolution returned no addresses''
           else case first_blocked (sorted_set resolved_ips) of
             Some (ip, reason) \<Rightarrow> blocked (''DNS resolved to blocked '' @ ip @ '' ('' @ reason @ '')'')
           | None \<Rightarrow> pinned (sorted_set resolved_ips)))"

text \<open>The name part: block reasons, then operator-local names on the LAN.\<close>

definition validate_name :: "codec \<Rightarrow> config \<Rightarrow> net \<Rightarrow> pystr \<Rightarrow> int \<Rightarrow> decision py" where
  "validate_name u c n host p =
     (case hostname_block_reason u c host of
        Some reason \<Rightarrow> blocked reason
      | None \<Rightarrow>
          (if route c = HostRoute \<and> allow_lan c \<and> is_rfc1918_system_dns_name u host
           then (case resolve_system_host n host p of
              Inl e \<Rightarrow> (if system_resolver_error e
                        then blocked (''operator-local DNS resolution failed: '' @ exn_str e) else Inl e)
            | Inr candidates \<Rightarrow>
                (if candidates = [] then blocked ''operator-local DNS resolution returned no addresses''
                 else if list_all is_rfc1918 candidates then pinned (sorted_set candidates)
                 else if list_ex is_rfc1918 candidates
                 then blocked ''DNS returned mixed RFC1918 and non-RFC1918 addresses''
                 else validate_resolved u c n host p))
           else validate_resolved u c n host p))"

text \<open>The literal part: RFC1918 on the LAN, public literals, shorthand IPv4.\<close>

definition validate_literal :: "codec \<Rightarrow> config \<Rightarrow> net \<Rightarrow> pystr \<Rightarrow> int \<Rightarrow> decision py" where
  "validate_literal u c n host p =
     (if route c = HostRoute \<and> allow_lan c \<and> is_rfc1918 host then pinned [host]
      else if parse_ip_literal host \<noteq> None \<and> ip_block_reason host = None then pinned [host]
      else case ip_block_reason host of
        Some reason \<Rightarrow> blocked reason
      | None \<Rightarrow>
          (case loose_ipv4_literal host of
             Some loose_ip \<Rightarrow>
               (case ip_block_reason loose_ip of
                  Some reason \<Rightarrow> blocked (reason @ '' via IPv4 shorthand '' @ loose_ip)
                | None \<Rightarrow> pinned [loose_ip])
           | None \<Rightarrow> validate_name u c n host p))"

text \<open>\<open>_validate_destination\<close>.\<close>

definition validate_destination :: "codec \<Rightarrow> config \<Rightarrow> net \<Rightarrow> pystr \<Rightarrow> int \<Rightarrow> decision py" where
  "validate_destination u c n raw_host p =
     (let host = normalize_host u raw_host
      in if \<not> valid_port p then blocked ''invalid port''
         else case resolve_configured_embedding_destination u c n host p of
           Inl e \<Rightarrow> or_block (Inl e)
         | Inr (Some ips) \<Rightarrow> pinned ips
         | Inr None \<Rightarrow>
             (if route c = HostRoute \<and> is_exact_docker_host u host
              then (if \<not> is_allowed_exact_host_destination u c host p
                    then blocked ''host.docker.internal port is not allowed''
                    else or_block (rbind (resolve_exact_docker_host u c n host p) pinned))
              else if is_trusted_internal_destination u c host p
              then (case resolve_system_host n host p of
                 Inl e \<Rightarrow> (if system_resolver_error e
                           then blocked (''trusted internal DNS resolution failed: '' @ exn_str e) else Inl e)
               | Inr resolved \<Rightarrow>
                   (if resolved = [] then blocked ''trusted internal DNS resolution returned no addresses''
                    else pinned (sorted_set resolved)))
              else validate_literal u c n host p))"

section \<open>Refusals\<close>

text \<open>The classification and the response of \<open>_reject_blocked_destination\<close>.\<close>

definition is_dns_failure :: "pystr \<Rightarrow> bool" where
  "is_dns_failure reason \<longleftrightarrow>
     contains reason ''DNS resolution failed:'' \<or> ends_with reason ''DNS resolution returned no addresses''"

definition refusal :: "pystr \<Rightarrow> bytes" where
  "refusal reason =
     ''HTTP/1.1 '' @ (if is_dns_failure reason then ''502 Bad Gateway'' else ''403 Forbidden'') @ CRLF @ CRLF"

text \<open>\<open>_allowed_client_reason\<close>: the peer is the first component of the socket's peer
  address, absent when the transport has none.\<close>

fun allowed_ips :: "net \<Rightarrow> int \<Rightarrow> pystr list \<Rightarrow> pystr list py" where
  "allowed_ips n lport [] = Inr []"
| "allowed_ips n lport (host # hosts) =
     rbind (rcatch (resolve_system_host n host lport) is_oserror (\<lambda>_. Inr []))
       (\<lambda>here. rbind (allowed_ips n lport hosts) (\<lambda>rest. Inr (here @ rest)))"

definition allowed_client_reason :: "config \<Rightarrow> net \<Rightarrow> pystr option \<Rightarrow> pystr option py" where
  "allowed_client_reason c n peer =
     (case peer of
        None \<Rightarrow> Inr (Some ''missing client address'')
      | Some t \<Rightarrow>
          (let peer_ip_text = fst (partition_c (CHR ''%'') t)
           in case ip_address peer_ip_text of
                None \<Rightarrow> Inr (Some ''invalid client address'')
              | Some peer_ip \<Rightarrow>
                  (if is_loopback peer_ip then Inr None
                   else if client_hosts c = [] then Inr (Some ''no allowed bridge service configured'')
                   else rbind (allowed_ips n (listen_port c) (client_hosts c)) (\<lambda>ips.
                     Inr (if peer_ip_text \<in> set ips then None
                          else Some ''client is not an allowed bridge service'')))))"

section \<open>Address classification against the registry\<close>
text \<open>The special-purpose IPv4 blocks, octet by octet.\<close>

definition special_octets :: "nat \<Rightarrow> nat \<Rightarrow> nat \<Rightarrow> nat \<Rightarrow> bool" where
  "special_octets a b c d \<longleftrightarrow>
     a = 0 \<or> a = 10 \<or> a = 127 \<or> 224 \<le> a
     \<or> (a = 100 \<and> 64 \<le> b \<and> b < 128) \<or> (a = 169 \<and> b = 254) \<or> (a = 172 \<and> 16 \<le> b \<and> b < 32)
     \<or> (a = 192 \<and> b = 168) \<or> (a = 192 \<and> b = 0 \<and> c = 0 \<and> d \<notin> {9, 10}) \<or> (a = 192 \<and> b = 0 \<and> c = 2)
     \<or> (a = 198 \<and> b \<in> {18, 19}) \<or> (a = 198 \<and> b = 51 \<and> c = 100) \<or> (a = 203 \<and> b = 0 \<and> c = 113)"


lemma div_eq_range:
  assumes "0 < k"
  shows "n div k = q \<longleftrightarrow> q * k \<le> n \<and> n < Suc q * (k::nat)"
proof -
  have "n div k = q \<longleftrightarrow> q \<le> n div k \<and> n div k < Suc q" by auto
  then show ?thesis
    using assms by (simp only: less_eq_div_iff_mult_less_eq div_less_iff_less_mult)
qed

lemma div_facts:
  "(b::nat) div 64 = Suc 0 \<longleftrightarrow> 64 \<le> b \<and> b < 128" "a div 16 = 14 \<longleftrightarrow> 224 \<le> a \<and> a < (240::nat)"
  "a div 16 = 15 \<longleftrightarrow> 240 \<le> a \<and> a < (256::nat)" "b div 16 = Suc 0 \<longleftrightarrow> 16 \<le> b \<and> b < (32::nat)"
  "b div 2 = 9 \<longleftrightarrow> b = 18 \<or> b = (19::nat)" "d div 2 = 85 \<longleftrightarrow> d = 170 \<or> d = (171::nat)"
  by (auto simp: div_eq_range)

lemma zero_is_v4: "(0 :: ipv4) = v4 0 0 0 0"
  by (simp add: v4_def)

text \<open>
  An IPv4 address is not blocked exactly when it lies outside the
  special-purpose blocks, written out octet by octet: the tests of the code, over Python's
  tables, are those of the registry.
\<close>

lemma ip_block_reason_v4:
  assumes "a < 256" "b < 256" "c < 256" "d < 256"
  shows "ip_block_reason (ipv4_str (v4 a b c d)) = None \<longleftrightarrow> \<not> special_octets a b c d"
proof -
  note n = in_net4_v4 [OF assms]
  have z: "v4 a b c d = 0 \<longleftrightarrow> a = 0 \<and> b = 0 \<and> c = 0 \<and> d = 0"
    unfolding zero_is_v4 using octet_v4 [OF assms] octet_v4 [of 0 0 0 0] by (metis zero_less_numeral)
  have priv: "private4 (v4 a b c d) \<longleftrightarrow>
     (a = 0 \<or> a = 10 \<or> a = 127 \<or> (a = 169 \<and> b = 254) \<or> (a = 172 \<and> 16 \<le> b \<and> b < 32)
      \<or> (a = 192 \<and> b = 0 \<and> c = 0) \<or> (a = 192 \<and> b = 0 \<and> c = 2) \<or> (a = 192 \<and> b = 168)
      \<or> (a = 198 \<and> b \<in> {18, 19}) \<or> (a = 198 \<and> b = 51 \<and> c = 100) \<or> (a = 203 \<and> b = 0 \<and> c = 113)
      \<or> 240 \<le> a) \<and> \<not> (a = 192 \<and> b = 0 \<and> c = 0 \<and> d \<in> {9, 10})"
    using assms by (simp add: private4_def private_nets4_def private_exceptions4_def n div_facts) (cases "a = 192"; auto)
  have m: "in_net4 (v4 a b c d) (v4 127 0 0 0, 8) \<longleftrightarrow> a = 127" "in_net4 (v4 a b c d) (v4 169 254 0 0, 16) \<longleftrightarrow> a = 169 \<and> b = 254"
    "in_net4 (v4 a b c d) (v4 224 0 0 0, 4) \<longleftrightarrow> a div 16 = 14" "in_net4 (v4 a b c d) (v4 240 0 0 0, 4) \<longleftrightarrow> a div 16 = 15"
    "in_net4 (v4 a b c d) (v4 100 64 0 0, 10) \<longleftrightarrow> a = 100 \<and> b div 64 = Suc 0"
    by (simp_all add: n)
  have core: "ip_block_reason (ipv4_str w) = None \<longleftrightarrow>
      \<not> loopback4 w \<and> \<not> private4 w \<and> \<not> link_local4 w \<and> \<not> multicast4 w \<and> w \<noteq> 0 \<and> \<not> reserved4 w \<and> global4 w" for w
    by (simp add: ip_block_reason_def parse_ip_literal_def is_loopback_def is_private_def is_link_local_def
        is_multicast_def is_unspecified_def is_reserved_def is_global_def by_mapped_def)
  show ?thesis
    unfolding core global4_def loopback4_def link_local4_def multicast4_def reserved4_def m z priv
      div_facts special_octets_def
    using assms by (cases "a = 192"; cases "a = 172"; cases "a = 100"; cases "a = 198"; simp; blast?; linarith?)
qed
lemma ip_block_reason_v4_witness:
  "ip_block_reason (ipv4_str (v4 8 8 4 4)) = None \<longleftrightarrow> \<not> special_octets 8 8 4 4"
  by (rule ip_block_reason_v4) simp_all

section \<open>What a decision pins\<close>

lemma first_blocked_None: "first_blocked xs = None \<longleftrightarrow> list_all (\<lambda>a. ip_block_reason a = None) xs"
  by (induction xs) (auto simp: first_blocked_def List.map_filter_simps split: option.splits list.splits)

definition public_address :: "pystr \<Rightarrow> bool" where
  "public_address t \<longleftrightarrow> ip_address t \<noteq> None \<and> ip_block_reason t = None"

lemma public_addressD:
  assumes "public_address t"
  obtains a where "ip_address t = Some a" "is_global a" "\<not> is_loopback a" "\<not> is_private a"
    "\<not> is_link_local a" "\<not> is_multicast a" "\<not> is_unspecified a" "\<not> is_reserved a"
  using assms by (auto simp: public_address_def ip_block_reason_def parse_ip_literal_def split: option.splits if_splits)

text \<open>The grants of the host route, for one address of one destination.\<close>

definition operator_grant :: "codec \<Rightarrow> config \<Rightarrow> pystr \<Rightarrow> int \<Rightarrow> pystr \<Rightarrow> bool" where
  "operator_grant u c host p ip \<longleftrightarrow>
     (is_configured_local_embedding_destination u c host p \<and> (is_rfc1918 ip \<or> \<not> docker_address_forbidden c ip))
     \<or> (is_allowed_exact_host_destination u c host p \<and> \<not> docker_address_forbidden c ip)
     \<or> is_trusted_internal_destination u c host p
     \<or> (route c = HostRoute \<and> allow_lan c \<and> is_rfc1918 ip)"

lemma docker_host_ips:
  "resolve_exact_docker_host u c n h p = Inr ips \<Longrightarrow> list_all (\<lambda>ip. \<not> docker_address_forbidden c ip) ips"
  by (auto simp: resolve_exact_docker_host_def rbind_Inr_iff list_all_iff list_ex_iff split: if_splits)

lemma configured_endpoint_ips:
  assumes "resolve_configured_endpoint u c n h p purpose = Inr ips" and "vpn_enabled c \<or> address_texts n"
  shows "list_all (\<lambda>ip. is_rfc1918 ip \<or> \<not> docker_address_forbidden c ip \<or> public_address ip) ips"
proof -
  let ?h = "normalize_host u h"
  let ?P = "list_all (\<lambda>ip. is_rfc1918 ip \<or> \<not> docker_address_forbidden c ip \<or> public_address ip)"
  consider "ip_address ?h \<noteq> None" | "ip_address ?h = None" "is_exact_docker_host u ?h"
    | "ip_address ?h = None" "\<not> is_exact_docker_host u ?h" "is_rfc1918_system_dns_name u ?h"
    | "ip_address ?h = None" "\<not> is_exact_docker_host u ?h" "\<not> is_rfc1918_system_dns_name u ?h"
    by blast
  then show ?thesis
  proof cases
    case 1
    with assms(1) show ?thesis
      by (auto simp: resolve_configured_endpoint_def parse_ip_literal_def Let_def public_address_def
          split: if_splits option.splits)
  next
    case 2
    with assms(1) have "resolve_exact_docker_host u c n ?h p = Inr ips"
      by (simp add: resolve_configured_endpoint_def parse_ip_literal_def Let_def)
    then show ?thesis using docker_host_ips by (auto simp: list_all_iff)
  next
    case 3
    with assms(1) show ?thesis
      by (auto simp: resolve_configured_endpoint_def parse_ip_literal_def Let_def rbind_Inr_iff list_all_iff
          split: if_splits)
  next
    case 4
    with assms(1) obtain xs where
      xs: "(if vpn_enabled c then resolve_target_host u c n ?h p else resolve_system_host n ?h p) = Inr xs"
        "first_blocked xs = None" "ips = sorted_set xs"
      by (auto simp: resolve_configured_endpoint_def parse_ip_literal_def Let_def rbind_Inr_iff rcatch_def
          split: if_splits option.splits sum.splits)
    then have "\<forall>t \<in> set xs. ip_address t \<noteq> None"
      using assms(2) resolve_target_texts resolve_system_texts by (metis (full_types))
    with xs show ?thesis by (auto simp: first_blocked_None public_address_def list_all_iff)
  qed
qed

lemma validate_resolved_ips:
  assumes "validate_resolved u c n h p = Inr (None, ips)" and "vpn_enabled c \<or> address_texts n"
  shows "list_all public_address ips \<and> (ips = [] \<longrightarrow> upstream_proxy c \<noteq> [] \<or> tor_socks c \<noteq> [])"
  using assms(1) resolve_target_texts [OF _ assms(2), of u h p]
  by (auto simp: validate_resolved_def pinned_def blocked_def first_blocked_None public_address_def list_all_iff
    split: if_splits sum.splits option.splits prod.splits)


lemma validate_name_ips:
  assumes "validate_name u c n h p = Inr (None, ips)" and "vpn_enabled c \<or> address_texts n"
  shows "hostname_block_reason u c h = None
    \<and> list_all (\<lambda>ip. public_address ip \<or> (route c = HostRoute \<and> allow_lan c \<and> is_rfc1918 ip)) ips
    \<and> (ips = [] \<longrightarrow> upstream_proxy c \<noteq> [] \<or> tor_socks c \<noteq> [])"
  using assms(1) validate_resolved_ips [OF _ assms(2), of u h p ips]
  by (auto simp: validate_name_def pinned_def blocked_def list_all_iff
      split: if_splits sum.splits option.splits)

lemma loose_public:
  "loose_ipv4_literal h = Some t \<Longrightarrow> ip_block_reason t = None \<Longrightarrow> public_address t"
  by (auto simp: loose_ipv4_literal_def public_address_def split: if_splits)

lemma validate_literal_ips:
  assumes "validate_literal u c n h p = Inr (None, ips)" and "vpn_enabled c \<or> address_texts n"
  shows "list_all (\<lambda>ip. public_address ip \<or> (route c = HostRoute \<and> allow_lan c \<and> is_rfc1918 ip)) ips
    \<and> (ips = [] \<longrightarrow> hostname_block_reason u c h = None \<and> (upstream_proxy c \<noteq> [] \<or> tor_socks c \<noteq> []))"
  using assms(1) validate_name_ips [OF _ assms(2), of u h p ips] loose_public [of h]
  by (auto simp: validate_literal_def pinned_def blocked_def parse_ip_literal_def public_address_def
      split: if_splits option.splits)

lemma validate_destination_cases:
  assumes "validate_destination u c n raw p = Inr (None, ips)"
  obtains
    (embedding) "valid_port p" "is_configured_local_embedding_destination u c (normalize_host u raw) p"
      "resolve_configured_endpoint u c n (normalize_host u raw) p ''configured embedding endpoint'' = Inr ips"
  | (docker) "valid_port p" "is_allowed_exact_host_destination u c (normalize_host u raw) p"
      "resolve_exact_docker_host u c n (normalize_host u raw) p = Inr ips"
  | (trusted) "valid_port p" "is_trusted_internal_destination u c (normalize_host u raw) p" "ips \<noteq> []"
  | (literal) "valid_port p" "validate_literal u c n (normalize_host u raw) p = Inr (None, ips)"
  using assms
  by (auto simp: validate_destination_def Let_def blocked_def pinned_def or_block_def rcatch_def
      resolve_configured_embedding_destination_def rbind_def
      split: if_splits sum.splits option.splits)

lemma docker_ips_nonempty: "resolve_exact_docker_host u c n h p = Inr ips \<Longrightarrow> ips \<noteq> []"
  by (auto simp: resolve_exact_docker_host_def rbind_Inr_iff split: if_splits)

lemma configured_ips_nonempty: "resolve_configured_endpoint u c n h p s = Inr ips \<Longrightarrow> ips \<noteq> []"
  by (auto simp: resolve_configured_endpoint_def Let_def rbind_Inr_iff docker_ips_nonempty
      split: if_splits option.splits)

lemma validate_destination_facts:
  assumes "validate_destination u c n raw p = Inr (None, ips)"
    and "vpn_enabled c \<or> address_texts n"
  shows "valid_port p"
    and "\<forall>ip \<in> set ips. public_address ip \<or> operator_grant u c (normalize_host u raw) p ip"
    and "ips = [] \<Longrightarrow> hostname_block_reason u c (normalize_host u raw) = None
           \<and> (upstream_proxy c \<noteq> [] \<or> tor_socks c \<noteq> [])"
proof -
  let ?h = "normalize_host u raw"
  have "valid_port p \<and> (\<forall>ip \<in> set ips. public_address ip \<or> operator_grant u c ?h p ip)
      \<and> (ips = [] \<longrightarrow> hostname_block_reason u c ?h = None \<and> (upstream_proxy c \<noteq> [] \<or> tor_socks c \<noteq> []))"
    using assms(1)
  proof (cases rule: validate_destination_cases)
    case embedding
    then show ?thesis
      using configured_endpoint_ips [OF embedding(3) assms(2)] configured_ips_nonempty [OF embedding(3)]
      by (auto simp: list_all_iff operator_grant_def)
  next
    case docker
    then show ?thesis
      using docker_host_ips [OF docker(3)] docker_ips_nonempty [OF docker(3)]
      by (auto simp: list_all_iff operator_grant_def)
  next
    case trusted
    then show ?thesis by (simp add: operator_grant_def)
  next
    case literal
    then show ?thesis
      using validate_literal_ips [OF literal(2) assms(2)] by (auto simp: list_all_iff operator_grant_def)
  qed
  then show "valid_port p" "\<forall>ip \<in> set ips. public_address ip \<or> operator_grant u c ?h p ip"
    "ips = [] \<Longrightarrow> hostname_block_reason u c ?h = None \<and> (upstream_proxy c \<noteq> [] \<or> tor_socks c \<noteq> [])"
    by auto
qed
lemma blocked_name_None:
  assumes "hostname_block_reason u c raw = None"
  shows "normalize_host u raw \<noteq> [] \<and> is_ascii (normalize_host u raw) \<and> CHR ''%'' \<notin> set (normalize_host u raw)
    \<and> CHR ''.'' \<in> set (normalize_host u raw)
    \<and> (\<forall>b \<in> blocked_hosts c \<union> builtin_blocked_suffixes.
         normalize_host u raw \<noteq> b \<and> \<not> ends_with (normalize_host u raw) (''.'' @ b))"
  using assms unfolding hostname_block_reason_def Let_def by (auto split: if_splits)

lemma public_config_no_grant:
  assumes "config_ok c" "route c = PublicRoute"
  shows "\<not> is_configured_local_embedding_destination u c h p" "\<not> is_trusted_internal_destination u c h p"
    "\<not> is_allowed_exact_host_destination u c h p" "\<not> operator_grant u c h p ip"
  using assms
  by (auto simp: operator_grant_def config_ok_def is_configured_local_embedding_destination_def
      is_configured_embedding_destination_def is_allowed_exact_host_destination_def is_trusted_internal_destination_def)

text \<open>On the public route the decision is the literal part.\<close>

lemma validate_public:
  assumes "config_ok c" "route c = PublicRoute" "valid_port p"
  shows "validate_destination u c n raw p = validate_literal u c n (normalize_host u raw) p"
  using assms public_config_no_grant [OF assms(1,2)]
  by (simp add: validate_destination_def Let_def resolve_configured_embedding_destination_def)

section \<open>Exceptions\<close>

text \<open>What the documentation of the operating system's calls promises of their errors.\<close>

definition documented_errors :: "net \<Rightarrow> bool" where
  "documented_errors n \<longleftrightarrow>
     (\<forall>h p e. n_getaddrinfo n h p = Inl e \<longrightarrow> system_resolver_error e)
     \<and> (\<forall>e. n_iface n = Inl e \<longrightarrow> is_oserror e)
     \<and> (\<forall>r l q e. n_udp n r l q = Inl e \<longrightarrow> is_oserror e)
     \<and> (\<forall>r l q e. n_tcp n r l q = Inl e \<longrightarrow> is_oserror e)"

lemma encode_dns_name_error: "encode_dns_name u h = Inl e \<Longrightarrow> is_oserror e"
  by (auto simp: encode_dns_name_def Let_def split: option.splits if_splits)

lemma skip_dns_name_error: "skip_dns_name_from m off k = Inl e \<Longrightarrow> is_valueerror e"
proof (induction m off k rule: skip_dns_name_from.induct)
  case (1 m off k)
  show ?case
    using "1.prems" "1.IH" [OF _ refl]
    by (subst (asm) skip_dns_name_from.simps) (auto simp: Let_def split: if_splits)
qed

lemma skip_questions_error: "skip_questions m k off = Inl e \<Longrightarrow> is_valueerror e"
  by (induction k arbitrary: off) (auto simp: rbind_Inl_iff skip_dns_name_def dest: skip_dns_name_error split: if_splits)

lemma read_answers_error: "read_answers m k off = Inl e \<Longrightarrow> is_valueerror e"
  by (induction k arbitrary: off)
     (auto simp: rbind_Inl_iff skip_dns_name_def Let_def dest: skip_dns_name_error split: if_splits)

lemma parse_dns_error: "parse_dns_a_response m q = Inl e \<Longrightarrow> target_resolver_error e"
  by (auto simp: parse_dns_a_response_def Let_def rbind_Inl_iff target_resolver_error_def
      dest: skip_questions_error read_answers_error split: if_splits)

lemma timed_readexactly_error: "timed (readexactly k s) = Inl e \<Longrightarrow> is_oserror e \<or> e = IncompleteRead"
  by (cases "ending s") (auto simp: timed_def readexactly_def split: if_splits)

lemma resolve_target_error:
  assumes "documented_errors n" "resolve_target_host u c n h p = Inl e"
  shows "target_resolver_error e \<or> e = IncompleteRead"
proof -
  have net: "is_oserror e'" if "n_udp n r l q = Inl e' \<or> n_tcp n r l q = Inl e'" for e' r l q
    using that assms(1) by (auto simp: documented_errors_def)
  have ex: "is_oserror e' \<or> e' = IncompleteRead" if "tcp_exchange n r l q = Inl e'" for e' r l q
    using that net by (auto simp: tcp_exchange_def rbind_Inl_iff dest: timed_readexactly_error)
  have "target_resolver_error e \<or> e = IncompleteRead" if "dns_query_a u n h r l = Inl e" for r l
    using that net ex encode_dns_name_error parse_dns_error
    by (auto simp: dns_query_a_def dns_query_def rbind_Inl_iff target_resolver_error_def split: if_splits) blast+
  moreover have "target_resolver_error e" if "provider_dns_endpoint n = Inl e"
    using that assms(1) by (auto simp: documented_errors_def provider_dns_endpoint_def interface_network_def rbind_Inl_iff rcatch_def Let_def
       target_resolver_error_def split: if_splits sum.splits option.splits)
  moreover have "target_resolver_error e" if "n_getaddrinfo n h p = Inl e"
    using that assms(1) by (auto simp: documented_errors_def target_resolver_error_def system_resolver_error_def)
  ultimately show ?thesis
    using assms(2) by (auto simp: resolve_target_host_def resolve_system_host_def rbind_Inl_iff split: if_splits)
qed

lemma resolve_system_error:
  "documented_errors n \<Longrightarrow> resolve_system_host n h p = Inl e \<Longrightarrow> system_resolver_error e"
  by (auto simp: documented_errors_def resolve_system_host_def)

lemma docker_host_error:
  assumes "documented_errors n" "resolve_exact_docker_host u c n h p = Inl e"
  shows "is_connectionerror e"
  using assms(2) resolve_system_error [OF assms(1)]
  by (auto simp: resolve_exact_docker_host_def rbind_Inl_iff rcatch_def split: if_splits sum.splits)

lemma configured_endpoint_error:
  assumes "documented_errors n" "resolve_configured_endpoint u c n h p s = Inl e"
  shows "is_connectionerror e \<or> e = IncompleteRead"
  using assms(2) docker_host_error [OF assms(1)] resolve_system_error [OF assms(1)] resolve_target_error [OF assms(1)]
  by (auto simp: resolve_configured_endpoint_def Let_def rbind_Inl_iff rcatch_def target_resolver_error_def
      system_resolver_error_def split: if_splits sum.splits option.splits) blast+

lemma validate_resolved_error:
  "documented_errors n \<Longrightarrow> validate_resolved u c n h p = Inl e \<Longrightarrow> e = IncompleteRead"
  by (auto simp: validate_resolved_def pinned_def blocked_def split: if_splits sum.splits option.splits
      dest!: resolve_target_error)

lemma validate_literal_error:
  assumes "documented_errors n" "validate_literal u c n h p = Inl e"
  shows "e = IncompleteRead"
proof -
  have "e = IncompleteRead" if "validate_name u c n h p = Inl e"
    using that by (auto simp: validate_name_def blocked_def pinned_def split: if_splits sum.splits option.splits
        dest: resolve_system_error [OF assms(1)] validate_resolved_error [OF assms(1)])
  with assms(2) show ?thesis
    by (auto simp: validate_literal_def pinned_def blocked_def split: if_splits option.splits)
qed

section \<open>Concrete instances\<close>

definition ascii_codec :: codec where
  "ascii_codec =
     \<lparr>idna_nonascii = (\<lambda>_. None),
      utf8_replace = map (\<lambda>ch. if ascii_c ch then ch else CHR 0xBF)\<rparr>"

definition sample_config :: config where
  "sample_config =
     \<lparr>listen_host = ''0.0.0.0'', listen_port = 3128, route = PublicRoute, allow_lan = False,
      ports_all = False, ports = {}, embedding = None, podman_gateway = [], upstream_proxy = [],
      tor_socks = [], vpn_enabled = True, dns_timeout = 10, client_hosts = [],
      require_tls13 = True, allow_http = False, connect_timeout = 15,
      blocked_hosts = builtin_blocked, trusted = {}\<rparr>"

definition offline :: net where
  "offline =
     \<lparr>n_getaddrinfo = (\<lambda>_ _. Inl (GaiError ''Name or service not known'')),
      n_iface = Inl (OSError ''No such device''), n_query_id = 7,
      n_udp = (\<lambda>_ _ _. Inl TimeoutExn), n_tcp = (\<lambda>_ _ _. Inl TimeoutExn),
      n_dial = (\<lambda>_ _ _. Inl TimeoutExn), n_unix = (\<lambda>_. Inl TimeoutExn), n_tls = (\<lambda>_. Inl TimeoutExn)\<rparr>"

definition resolving :: "pystr list \<Rightarrow> net" where
  "resolving xs = offline\<lparr>n_getaddrinfo := (\<lambda>_ _. Inr xs)\<rparr>"

lemma load_sample: "load_config ascii_codec Map.empty = Inr sample_config"
  by code_simp

lemma sample_config_simps [simp]:
  "route sample_config = PublicRoute" "upstream_proxy sample_config = []" "tor_socks sample_config = []"
  "client_hosts sample_config = []" "vpn_enabled sample_config"
  by (simp_all add: sample_config_def)

lemma sample_ok: "config_ok sample_config"
  by (rule load_config_ok [OF load_sample])

lemma sample_tor_ok: "config_ok (sample_config\<lparr>tor_socks := ''/run/tor-egress/socks''\<rparr>)"
  using sample_ok by (simp add: config_ok_def)

lemma sample_no_vpn_ok: "config_ok (sample_config\<lparr>vpn_enabled := False\<rparr>)"
  using sample_ok by (simp add: config_ok_def)

lemma offline_errors: "documented_errors offline"
  by (simp add: documented_errors_def offline_def system_resolver_error_def)

section \<open>Properties\<close>

text \<open>
  C1 (safety). Everything a decision pins is an address the policy permits: the port is a
  TCP port, each address is public or covered by a grant of the operator for this very
  destination, and no address at all is pinned only when an upstream proxy or Tor resolves
  a name that passed the hostname rules.
\<close>

theorem validate_destination_sound:
  assumes "validate_destination u c n raw p = Inr (None, ips)"
    and "vpn_enabled c \<or> address_texts n"
  shows "valid_port p
    \<and> (\<forall>ip \<in> set ips. public_address ip \<or> operator_grant u c (normalize_host u raw) p ip)
    \<and> (ips = [] \<longrightarrow> hostname_block_reason u c (normalize_host u raw) = None
           \<and> (upstream_proxy c \<noteq> [] \<or> tor_socks c \<noteq> []))"
  using validate_destination_facts [OF assms] by blast

lemma validate_destination_sound_witness:
  "valid_port 443
    \<and> (public_address ''1.1.1.1''
       \<or> operator_grant ascii_codec sample_config (normalize_host ascii_codec ''0x1010101'') 443 ''1.1.1.1'')"
proof -
  have "validate_destination ascii_codec sample_config offline ''0x1010101'' 443 = Inr (None, [''1.1.1.1''])"
    by code_simp
  from validate_destination_sound [OF this] show ?thesis by simp
qed

text \<open>
  A listener of the public route, started from any environment, only ever pins
  public addresses.
\<close>

theorem public_route_public_only:
  assumes "load_config u env = Inr c" and "route c = PublicRoute"
    and "vpn_enabled c \<or> address_texts n"
    and "validate_destination u c n raw p = Inr (None, ips)"
  shows "valid_port p \<and> list_all public_address ips"
proof -
  have "config_ok c" using assms(1) by (rule load_config_ok)
  with validate_destination_facts [OF assms(4,3)] public_config_no_grant(4) [OF _ assms(2)]
  show ?thesis by (auto simp: list_all_iff)
qed

lemma public_route_public_only_witness:
  "valid_port 443 \<and> list_all public_address [''1.1.1.1'']"
proof -
  have "validate_destination ascii_codec sample_config offline ''1.1.1.1.'' 443 = Inr (None, [''1.1.1.1''])"
    by code_simp
  from public_route_public_only [OF load_sample _ _ this] show ?thesis by simp
qed

text \<open>
  A name that is left to the upstream proxy or to Tor is a plain ASCII name
  with a dot that is neither a built-in internal name nor below one.
\<close>

theorem proxied_name_public:
  assumes "config_ok c" and "validate_destination u c n raw p = Inr (None, [])"
    and "vpn_enabled c \<or> address_texts n"
  shows "(upstream_proxy c \<noteq> [] \<or> tor_socks c \<noteq> [])
    \<and> is_ascii (normalize_host u (normalize_host u raw)) \<and> CHR ''.'' \<in> set (normalize_host u (normalize_host u raw))
    \<and> (\<forall>b \<in> builtin_blocked \<union> builtin_blocked_suffixes.
         normalize_host u (normalize_host u raw) \<noteq> b
         \<and> \<not> ends_with (normalize_host u (normalize_host u raw)) (''.'' @ b))"
proof -
  have "hostname_block_reason u c (normalize_host u raw) = None \<and> (upstream_proxy c \<noteq> [] \<or> tor_socks c \<noteq> [])"
    using validate_destination_facts(3) [OF assms(2,3)] by simp
  moreover have "builtin_blocked \<subseteq> blocked_hosts c" using assms(1) by (simp add: config_ok_def)
  ultimately show ?thesis using blocked_name_None [of u c "normalize_host u raw"] by blast
qed

lemma proxied_name_public_witness:
  "is_ascii (normalize_host ascii_codec (normalize_host ascii_codec ''Abc.Onion.''))
    \<and> CHR ''.'' \<in> set (normalize_host ascii_codec (normalize_host ascii_codec ''Abc.Onion.''))"
proof -
  have "validate_destination ascii_codec (sample_config\<lparr>tor_socks := ''/run/tor-egress/socks''\<rparr>) offline
      ''Abc.Onion.'' 443 = Inr (None, [])" by code_simp
  from proxied_name_public [OF sample_tor_ok this] show ?thesis by simp
qed

text \<open>
  A name is refused as soon as one of the addresses it resolves to is blocked:
  a mixed answer fails closed.
\<close>

theorem blocked_answer_blocks:
  assumes "config_ok c" "route c = PublicRoute" "upstream_proxy c = []" "tor_socks c = []"
    and "ip_address (normalize_host u raw) = None" "loose_ipv4_literal (normalize_host u raw) = None"
    and "resolve_target_host u c n (normalize_host u raw) p = Inr xs"
    and "x \<in> set xs" "ip_block_reason x \<noteq> None"
  shows "\<exists>reason. validate_destination u c n raw p = Inr (Some reason, [])"
proof (cases "valid_port p")
  case False
  then show ?thesis by (auto simp: validate_destination_def blocked_def)
next
  case True
  let ?h = "normalize_host u raw"
  have fb: "first_blocked (sorted_set xs) \<noteq> None"
    using assms(8,9) by (auto simp: first_blocked_None list_all_iff)
  have "\<exists>reason. validate_resolved u c n ?h p = Inr (Some reason, [])"
    using assms(3,4,7,8) fb by (auto simp: validate_resolved_def blocked_def)
  then have "\<exists>reason. validate_name u c n ?h p = Inr (Some reason, [])"
    using assms(2) by (auto simp: validate_name_def blocked_def split: option.splits)
  then have "\<exists>reason. validate_literal u c n ?h p = Inr (Some reason, [])"
    using assms(2,5,6) by (auto simp: validate_literal_def parse_ip_literal_def ip_block_reason_def)
  then show ?thesis using validate_public [OF assms(1,2) True] by simp
qed

lemma blocked_answer_blocks_witness:
  "\<exists>reason. validate_destination ascii_codec (sample_config\<lparr>vpn_enabled := False\<rparr>)
     (resolving [''93.184.216.34'', ''10.0.0.1'']) ''Rebind.Example'' 443 = Inr (Some reason, [])"
proof (rule blocked_answer_blocks [OF sample_no_vpn_ok])
  let ?h = "normalize_host ascii_codec ''Rebind.Example''" and ?xs = "[''93.184.216.34'', ''10.0.0.1'']"
  show "ip_address ?h = None" "loose_ipv4_literal ?h = None" "ip_block_reason ''10.0.0.1'' \<noteq> None"
    by code_simp+
  show "resolve_target_host ascii_codec (sample_config\<lparr>vpn_enabled := False\<rparr>) (resolving ?xs) ?h 443 = Inr ?xs"
    by (simp add: resolve_target_host_def resolve_system_host_def resolving_def)
  show "''10.0.0.1'' \<in> set ?xs" by code_simp
qed simp_all

text \<open>
  When the operating system raises what it documents, the decision is always
  reached, with one exception: the incomplete read of a DNS reply over TCP that ends early,
  which no handler of the resolution catches.
\<close>

theorem validate_destination_raises:
  assumes "documented_errors n" "validate_destination u c n raw p = Inl e"
  shows "e = IncompleteRead"
  using assms(2)
  by (auto simp: validate_destination_def Let_def blocked_def pinned_def or_block_def rcatch_def
        resolve_configured_embedding_destination_def rbind_Inl_iff
        split: if_splits sum.splits option.splits
        dest: resolve_system_error [OF assms(1)] configured_endpoint_error [OF assms(1)]
          docker_host_error [OF assms(1)] validate_literal_error [OF assms(1)])

text \<open>A provider resolver that answers over UDP that the answer is truncated, and then
  closes the TCP connection after one byte.\<close>

definition cut_short :: net where
  "cut_short = offline\<lparr>n_iface := Inr (v4 10 182 0 2, v4 255 255 255 0),
     n_udp := (\<lambda>_ _ q. Inr (be16 7 @ [CHR 0x83, CHR 0x80] @ replicate 8 (CHR 0x00))),
     n_tcp := (\<lambda>_ _ _. Inr \<lparr>pending = [CHR 0x00], ending = Eof\<rparr>)\<rparr>"


lemma cut_short_raises:
  "validate_destination ascii_codec sample_config cut_short ''example.com'' 443 = Inl IncompleteRead"
  by code_simp

lemma validate_destination_raises_witness:
  "\<exists>e. validate_destination ascii_codec sample_config cut_short ''example.com'' 443 = Inl e \<and> e = IncompleteRead"
proof -
  have "documented_errors cut_short"
    by (simp add: documented_errors_def cut_short_def offline_def system_resolver_error_def)
  then show ?thesis using validate_destination_raises cut_short_raises by blast
qed

end
