(* ===== verification/Egress_Http.thy ===== *)
theory Egress_Http
  imports Egress_Policy
begin

text \<open>
  HTTP parsing of egress/final_hop_proxy.py: field lines, request framing, the chunk-size
  line and the body that is streamed upstream. The events are what the proxy does to its
  connections.
\<close>

section \<open>Events\<close>

text \<open>
  \<open>Dial\<close> is an attempt to open a TCP connection, with the TLS server name when it is
  made with TLS; \<open>SendUp\<close> and \<open>SendClient\<close> are writes to the upstream and to the
  client, each with the \<open>drain\<close> that follows it.
\<close>

datatype ev =
    Dial pystr int "pystr option"
  | DialUnix pystr
  | StartTls pystr
  | SendUp bytes
  | CloseUp
  | SendClient bytes
  | CloseClient

definition send_up :: "bytes \<Rightarrow> (ev, unit) io" where
  "send_up b = io_emit [SendUp b]"

definition send_client :: "bytes \<Rightarrow> (ev, unit) io" where
  "send_client b = io_emit [SendClient b]"

text \<open>The bytes sent upstream, and to the client.\<close>

fun up_bytes :: "ev list \<Rightarrow> bytes" where
  "up_bytes [] = []"
| "up_bytes (SendUp b # es) = b @ up_bytes es"
| "up_bytes (_ # es) = up_bytes es"

fun client_bytes :: "ev list \<Rightarrow> bytes" where
  "client_bytes [] = []"
| "client_bytes (SendClient b # es) = b @ client_bytes es"
| "client_bytes (_ # es) = client_bytes es"

section \<open>Field lines\<close>

text \<open>\<open>_TOKEN_RE\<close>.\<close>

definition token_char :: "char \<Rightarrow> bool" where
  "token_char c \<longleftrightarrow> is_alpha_ascii c \<or> is_digit c \<or> c \<in> set ''!#$%&*+.^_`|~-'' \<or> ord_c c = 39"

definition is_token :: "pystr \<Rightarrow> bool" where
  "is_token s \<longleftrightarrow> s \<noteq> [] \<and> list_all token_char s"

definition is_blank :: "char \<Rightarrow> bool" where
  "is_blank c \<longleftrightarrow> c = CHR '' '' \<or> c = CHR 0x09"

definition forbidden_control :: "char \<Rightarrow> bool" where
  "forbidden_control c \<longleftrightarrow> (ord_c c < 32 \<and> ord_c c \<noteq> 9) \<or> ord_c c = 127"

text \<open>\<open>_parse_header_line\<close>.\<close>

definition parse_header_line :: "codec \<Rightarrow> bytes \<Rightarrow> (pystr \<times> pystr) py" where
  "parse_header_line u line =
     (if \<not> ends_with line CRLF then Inl (ValueError ''HTTP header line must end with CRLF'')
      else let field = take (length line - 2) line
      in if field \<noteq> [] \<and> is_blank (hd field)
         then Inl (ValueError ''obsolete folded headers are not accepted'')
         else if CHR '':'' \<notin> set field then Inl (ValueError ''malformed HTTP request header'')
         else (case partition_c (CHR '':'') field of (raw_name, _, raw_value) \<Rightarrow>
           if \<not> is_ascii raw_name then Inl (ValueError ''invalid HTTP header name'')
           else let name = py_lower raw_name
           in if \<not> is_token name then Inl (ValueError ''invalid HTTP header name'')
              else if list_ex forbidden_control raw_value
              then Inl (ValueError ''HTTP header value contains a forbidden control character'')
              else Inr (name, strip_by is_blank (decode_utf8 u raw_value))))"

type_synonym headers = "(pystr \<times> pystr) list"

definition header_values :: "headers \<Rightarrow> pystr \<Rightarrow> pystr list" where
  "header_values hs name = map snd (filter (\<lambda>h. fst h = name) hs)"

section \<open>Request framing\<close>

definition comma_parts :: "pystr list \<Rightarrow> pystr list" where
  "comma_parts vs = concat (map (\<lambda>v. map py_strip (split_on (CHR '','') v)) vs)"

definition content_length_of :: "headers \<Rightarrow> int option py" where
  "content_length_of hs =
     (let values = comma_parts (header_values hs ''content-length'')
      in if values = [] then Inr None
         else if list_ex (\<lambda>v. v = [] \<or> \<not> list_all is_digit v) values
         then Inl (ValueError ''invalid Content-Length'')
         else rbind (rmapM py_int values) (\<lambda>parsed.
           if length (remdups parsed) \<noteq> 1
           then Inl (ValueError ''conflicting Content-Length values'')
           else Inr (Some (hd parsed))))"

definition transfer_codings_of :: "headers \<Rightarrow> pystr list" where
  "transfer_codings_of hs = map py_lower (comma_parts (header_values hs ''transfer-encoding''))"

text \<open>\<open>_parse_request_framing\<close>.\<close>

definition parse_request_framing :: "headers \<Rightarrow> (int option \<times> pystr list) py" where
  "parse_request_framing hs =
     rbind (content_length_of hs) (\<lambda>content_length.
       let codings = transfer_codings_of hs
       in if codings = [] then Inr (content_length, [])
          else if list_ex (\<lambda>c. \<not> is_token c) codings then Inl (ValueError ''invalid Transfer-Encoding'')
          else if last codings \<noteq> ''chunked'' \<or> length (filter (\<lambda>c. c = ''chunked'') codings) \<noteq> 1
          then Inl (ValueError ''Transfer-Encoding must end in exactly one chunked coding'')
          else if content_length \<noteq> None
          then Inl (ValueError ''Content-Length and Transfer-Encoding must not be combined'')
          else Inr (None, codings))"

section \<open>The chunk-size line\<close>

text \<open>
  \<open>_CHUNK_SIZE_LINE_RE\<close>. Every alternative of the expression starts with a character the
  part before it cannot contain, so the leftmost-longest reading below is the only match.
\<close>

definition quoted_char :: "char \<Rightarrow> bool" where
  "quoted_char c \<longleftrightarrow> (let n = ord_c c in
     n = 9 \<or> n = 32 \<or> n = 33 \<or> (35 \<le> n \<and> n \<le> 91) \<or> (93 \<le> n \<and> n \<le> 126) \<or> 128 \<le> n)"

definition escaped_char :: "char \<Rightarrow> bool" where
  "escaped_char c \<longleftrightarrow> (let n = ord_c c in n = 9 \<or> (32 \<le> n \<and> n \<le> 126) \<or> 128 \<le> n)"

text \<open>The rest after the closing quote.\<close>

fun skip_quoted :: "bytes \<Rightarrow> bytes option" where
  "skip_quoted [] = None"
| "skip_quoted (c # s) =
     (if ord_c c = 34 then Some s
      else if ord_c c = 92
      then (case s of e # s' \<Rightarrow> if escaped_char e then skip_quoted s' else None | [] \<Rightarrow> None)
      else if quoted_char c then skip_quoted s else None)"

definition skip_value :: "bytes \<Rightarrow> bytes option" where
  "skip_value s =
     (case s of
        [] \<Rightarrow> None
      | c # s' \<Rightarrow>
          (if ord_c c = 34 then skip_quoted s'
           else if token_char c then Some (dropWhile token_char s) else None))"

lemma skip_quoted_length: "skip_quoted s = Some r \<Longrightarrow> length r < length s"
  by (induction s arbitrary: r rule: skip_quoted.induct) (force split: if_splits list.splits)+

lemma skip_value_length: "skip_value s = Some r \<Longrightarrow> length r < length s"
  using length_dropWhile_le [of token_char "tl s"]
  by (auto simp: skip_value_def le_imp_less_Suc split: list.splits if_splits dest!: skip_quoted_length)

text \<open>The extensions up to the final CRLF.\<close>

function chunk_extensions_ok :: "bytes \<Rightarrow> bool" where
  "chunk_extensions_ok s =
     (let t = dropWhile is_blank s
      in if t = CRLF then True
         else case t of
           [] \<Rightarrow> False
         | c # t' \<Rightarrow>
             (if c \<noteq> CHR '';'' then False
              else let n = dropWhile is_blank t';
                       r = dropWhile token_char n;
                       v = dropWhile is_blank r
              in if n = r then False
                 else if v \<noteq> [] \<and> hd v = CHR ''=''
                 then (case skip_value (dropWhile is_blank (tl v)) of
                         None \<Rightarrow> False
                       | Some w \<Rightarrow> chunk_extensions_ok w)
                 else chunk_extensions_ok r))"
  by pat_completeness auto
termination
proof (relation "measure length", goal_cases)
  case (2 s t c t' n r v w)
  then have "length w < length (dropWhile is_blank (tl v))" by (simp add: skip_value_length)
  also have "\<dots> \<le> length v" using length_dropWhile_le [of is_blank "tl v"] by simp
  also have "\<dots> \<le> length s"
    using 2 by (metis (no_types, lifting) length_dropWhile_le le_trans le_SucI length_Cons)
  finally show ?case by simp
next
  case (3 s t c t' n r v)
  then have "length r \<le> length t'" by (meson le_trans length_dropWhile_le)
  also have "\<dots> < length t" using arg_cong [OF 3(3), of length] by simp
  also have "\<dots> \<le> length s" using 3 by (simp add: length_dropWhile_le)
  finally show ?case by simp
qed simp

declare chunk_extensions_ok.simps [simp del]

definition chunk_size :: "bytes \<Rightarrow> nat option" where
  "chunk_size line =
     (let digits = takeWhile is_hex line
      in if digits \<noteq> [] \<and> chunk_extensions_ok (dropWhile is_hex line) then Some (hex_nat digits) else None)"

section \<open>The request body\<close>

definition tunnel_buffer :: nat where
  "tunnel_buffer = 65536"

text \<open>\<open>_read_body_bytes\<close>.\<close>

definition read_body_bytes :: "istream \<Rightarrow> nat \<Rightarrow> (bytes \<times> istream) py" where
  "read_body_bytes s n =
     rcatch (readexactly n s) (\<lambda>e. e = IncompleteRead)
       (\<lambda>_. Inl (ValueError ''request body ended before its declared framing''))"

lemma read_body_bytes_Inr:
  "read_body_bytes s n = Inr (b, s') \<Longrightarrow> pending s = b @ pending s' \<and> length b = n \<and> ending s' = ending s"
  using readexactly_split [of n s b s'] by (auto simp: read_body_bytes_def rcatch_def split: sum.splits if_splits)

text \<open>The fixed-length loop of \<open>_forward_request_body\<close>; the chunk loop has the same one.\<close>

function forward_fixed :: "nat \<Rightarrow> istream \<Rightarrow> (ev, istream) io" where
  "forward_fixed remaining s =
     (if remaining = 0 then io_ret s
      else io_bind (io_lift (read_body_bytes s (min remaining tunnel_buffer))) (\<lambda>(data, s').
        io_bind (send_up data) (\<lambda>_. forward_fixed (remaining - length data) s')))"
  by pat_completeness auto
termination
  by (relation "measure fst") (auto simp: tunnel_buffer_def dest!: read_body_bytes_Inr)

declare forward_fixed.simps [simp del]

definition forbidden_trailers :: "pystr set" where
  "forbidden_trailers = {''connection'', ''content-length'', ''host'', ''trailer'', ''transfer-encoding''}"

text \<open>The loop over the trailer lines after the last chunk.\<close>

definition trailer_check :: "codec \<Rightarrow> bytes \<Rightarrow> unit py" where
  "trailer_check u line =
     rbind (rcatch (parse_header_line u line) is_valueerror
              (\<lambda>e. Inl (ValueError (''invalid chunk trailer: '' @ exn_str e))))
       (\<lambda>(name, _). raise_if (name \<in> forbidden_trailers) (ValueError ''chunk trailer contains a forbidden field''))"

lemma trailer_check_nonempty: "trailer_check u line = Inr x \<Longrightarrow> line \<noteq> []"
  by (auto simp: trailer_check_def parse_header_line_def rcatch_def CRLF_def ends_with_def)

function forward_trailers :: "codec \<Rightarrow> istream \<Rightarrow> (ev, istream) io" where
  "forward_trailers u s =
     io_bind (io_lift (readline s)) (\<lambda>(line, s').
       if line = CRLF then io_bind (send_up line) (\<lambda>_. io_ret s')
       else io_bind (io_lift (trailer_check u line)) (\<lambda>_.
         io_bind (send_up line) (\<lambda>_. forward_trailers u s')))"
  by pat_completeness auto
termination
  by (relation "measure (\<lambda>(u, s). length (pending s))") (auto dest: readline_shorter trailer_check_nonempty)

declare forward_trailers.simps [simp del]

lemma chunk_size_nonempty: "chunk_size line = Some n \<Longrightarrow> line \<noteq> []"
  by (auto simp: chunk_size_def Let_def)

lemma forward_fixed_split:
  "snd (forward_fixed n s) = Inr s' \<Longrightarrow>
     pending s = up_bytes (fst (forward_fixed n s)) @ pending s'
     \<and> length (up_bytes (fst (forward_fixed n s))) = n \<and> ending s' = ending s"
proof (induction n s rule: forward_fixed.induct)
  case (1 n s)
  show ?case
  proof (cases "n = 0")
    case True
    moreover have "forward_fixed 0 s = io_ret s" by (simp add: forward_fixed.simps [of 0 s])
    ultimately show ?thesis using "1.prems" by simp
  next
    case False
    with "1.prems" obtain d s1 where d: "read_body_bytes s (min n tunnel_buffer) = Inr (d, s1)"
      by (auto simp: forward_fixed.simps [of n s] snd_io_bind rbind_Inr_iff)
    with False "1.prems" have r: "snd (forward_fixed (n - length d) s1) = Inr s'"
      by (simp add: forward_fixed.simps [of n s] send_up_def snd_io_bind)
    have ev: "fst (forward_fixed n s) = SendUp d # fst (forward_fixed (n - length d) s1)"
      using False d by (simp add: forward_fixed.simps [of n s] send_up_def fst_io_bind)
    from "1.IH" [OF False _ _ _ r] d read_body_bytes_Inr [OF d] ev show ?thesis by (auto simp: send_up_def)
  qed
qed

text \<open>The chunk loop.\<close>

function forward_chunks :: "codec \<Rightarrow> istream \<Rightarrow> (ev, istream) io" where
  "forward_chunks u s =
     io_bind (io_lift (readline s)) (\<lambda>(size_line, s1).
       case chunk_size size_line of
         None \<Rightarrow> io_raise (ValueError ''invalid chunk-size line or extension'')
       | Some sz \<Rightarrow>
           io_bind (send_up size_line) (\<lambda>_.
             if sz = 0 then forward_trailers u s1
             else io_bind (forward_fixed sz s1) (\<lambda>s2.
               io_bind (io_lift (read_body_bytes s2 2)) (\<lambda>(terminator, s3).
                 if terminator \<noteq> CRLF then io_raise (ValueError ''chunk data is not followed by CRLF'')
                 else io_bind (send_up terminator) (\<lambda>_. forward_chunks u s3)))))"
  by pat_completeness auto
termination
proof (relation "measure (\<lambda>(u, s). length (pending s))", goal_cases)
  case (2 u s x line s1 sz y s2 z t s3 w)
  then have "length (pending s1) < length (pending s)"
    using readline_shorter chunk_size_nonempty by fastforce
  moreover have "length (pending s2) \<le> length (pending s1)"
    using 2 forward_fixed_split [of sz s1 s2] by auto
  moreover have "length (pending s3) \<le> length (pending s2)"
    using 2 read_body_bytes_Inr [of s2 2 t s3] by auto
  ultimately show ?case by simp
qed simp

declare forward_chunks.simps [simp del]

text \<open>\<open>_forward_request_body\<close>.\<close>

definition forward_request_body ::
  "codec \<Rightarrow> istream \<Rightarrow> int option \<Rightarrow> pystr list \<Rightarrow> (ev, istream) io" where
  "forward_request_body u s content_length codings =
     (case content_length of
        Some n \<Rightarrow> forward_fixed (nat n) s
      | None \<Rightarrow> (if codings = [] then io_ret s else forward_chunks u s))"

section \<open>The grammar of a chunked body\<close>

definition one_line :: "bytes \<Rightarrow> bool" where
  "one_line l \<longleftrightarrow> l \<noteq> [] \<and> last l = CHR 0x0A \<and> CHR 0x0A \<notin> set (butlast l)"

inductive trailer_part :: "codec \<Rightarrow> bytes \<Rightarrow> bool" for u where
  trailer_end: "trailer_part u CRLF"
| trailer_line: "one_line l \<Longrightarrow> l \<noteq> CRLF \<Longrightarrow> trailer_check u l = Inr () \<Longrightarrow> trailer_part u t
    \<Longrightarrow> trailer_part u (l @ t)"

inductive chunked_body :: "codec \<Rightarrow> bytes \<Rightarrow> bool" for u where
  last_chunk: "one_line l \<Longrightarrow> chunk_size l = Some 0 \<Longrightarrow> trailer_part u t \<Longrightarrow> chunked_body u (l @ t)"
| data_chunk: "one_line l \<Longrightarrow> chunk_size l = Some n \<Longrightarrow> 0 < n \<Longrightarrow> length d = n \<Longrightarrow> chunked_body u b
    \<Longrightarrow> chunked_body u (l @ d @ CRLF @ b)"

lemma one_line_CRLF [simp]: "one_line CRLF"
  by (simp add: one_line_def CRLF_def)

lemma one_line_unique: "one_line l \<Longrightarrow> one_line l' \<Longrightarrow> l @ r = l' @ r' \<Longrightarrow> l = l' \<and> r = r'"
proof -
  assume a: "one_line l" "one_line l'" "l @ r = l' @ r'"
  have shape: "l = butlast l @ [CHR 0x0A]" "l' = butlast l' @ [CHR 0x0A]"
    "CHR 0x0A \<notin> set (butlast l)" "CHR 0x0A \<notin> set (butlast l')"
    using a(1,2) unfolding one_line_def by (metis append_butlast_last_id)+
  have "takeWhile (\<lambda>c. c \<noteq> CHR 0x0A) (l @ r) = butlast l"
    using shape(1,3) takeWhile_sep [of "CHR 0x0A" "butlast l" r] by (metis append.assoc append_Cons append_Nil)
  moreover have "takeWhile (\<lambda>c. c \<noteq> CHR 0x0A) (l' @ r') = butlast l'"
    using shape(2,4) takeWhile_sep [of "CHR 0x0A" "butlast l'" r'] by (metis append.assoc append_Cons append_Nil)
  ultimately have "butlast l = butlast l'" using a(3) by simp
  with shape(1,2) have "l = l'" by metis
  with a(3) show ?thesis by simp
qed

lemma trailer_part_prefix_free:
  "trailer_part u a \<Longrightarrow> trailer_part u b \<Longrightarrow> a @ x = b @ y \<Longrightarrow> a = b"
proof (induction a arbitrary: b rule: trailer_part.induct)
  case trailer_end
  from trailer_end.prems(1) show ?case
    by (cases rule: trailer_part.cases)
       (use trailer_end.prems(2) one_line_unique [OF one_line_CRLF] in auto)
next
  case (trailer_line l t)
  note prems = trailer_line.prems and hyps = trailer_line.hyps and IH = trailer_line.IH
  from prems(1) show ?case
  proof (cases rule: trailer_part.cases)
    case trailer_end
    with prems hyps one_line_unique [OF hyps(1) one_line_CRLF] show ?thesis by auto
  next
    case (trailer_line l' t')
    then have "l = l'" "t @ x = t' @ y" using prems one_line_unique [OF hyps(1) trailer_line(2)] by auto
    with trailer_line IH show ?thesis by simp
  qed
qed

lemma chunked_body_prefix_free:
  "chunked_body u a \<Longrightarrow> chunked_body u b \<Longrightarrow> a @ x = b @ y \<Longrightarrow> a = b"
proof (induction a arbitrary: b rule: chunked_body.induct)
  case (last_chunk l t)
  note prems = last_chunk.prems and hyps = last_chunk.hyps and IH = last_chunk.hyps
  from last_chunk.prems(1) show ?case
  proof (cases rule: chunked_body.cases)
    case (last_chunk l' t')
    then have "l = l'" "t @ x = t' @ y" using prems one_line_unique [OF hyps(1) last_chunk(2)] by auto
    with last_chunk hyps trailer_part_prefix_free show ?thesis by blast
  next
    case (data_chunk l' n d b')
    then have "l = l'" using prems one_line_unique [OF hyps(1) data_chunk(2)] by auto
    with data_chunk hyps show ?thesis by simp
  qed
next
  case (data_chunk l n d b1)
  note prems = data_chunk.prems and hyps = data_chunk.hyps and IH = data_chunk.IH
  from data_chunk.prems(1) show ?case
  proof (cases rule: chunked_body.cases)
    case (last_chunk l' t')
    then have "l = l'" using prems one_line_unique [OF hyps(1) last_chunk(2)] by auto
    with last_chunk hyps show ?thesis by simp
  next
    case (data_chunk l' n' d' b2)
    then have l: "l = l'" "d @ CRLF @ b1 @ x = d' @ CRLF @ b2 @ y"
      using prems one_line_unique [OF hyps(1) data_chunk(2)] by auto
    then have "n = n'" using data_chunk hyps by simp
    then have "d = d'" "b1 @ x = b2 @ y" using l(2) data_chunk hyps by auto
    with data_chunk l(1) IH show ?thesis by auto
  qed
qed

section \<open>What the body loops send\<close>

lemma up_bytes_append [simp]: "up_bytes (a @ b) = up_bytes a @ up_bytes b"
  by (induction a rule: up_bytes.induct) auto

lemma client_bytes_append [simp]: "client_bytes (a @ b) = client_bytes a @ client_bytes b"
  by (induction a rule: client_bytes.induct) auto

lemma chunk_extensions_CRLF: "chunk_extensions_ok s \<Longrightarrow> \<exists>p. s = p @ CRLF"
proof (induction s rule: chunk_extensions_ok.induct)
  case (1 s)
  let ?t = "dropWhile is_blank s"
  have suffix: "\<exists>p. xs = p @ dropWhile q xs" for q and xs :: bytes
    by (metis takeWhile_dropWhile_id)
  have quoted: "skip_quoted xs = Some w \<Longrightarrow> \<exists>p. xs = p @ w" for xs w
  proof (induction xs rule: skip_quoted.induct)
    case (2 c s)
    then show ?case by (fastforce split: if_splits list.splits)
  qed simp
  have val: "\<exists>p. xs = p @ w" if v: "skip_value xs = Some w" for xs w
  proof (cases xs)
    case Nil
    with v show ?thesis by (simp add: skip_value_def)
  next
    case (Cons c xs')
    show ?thesis
    proof (cases "ord_c c = 34")
      case True
      with v Cons have "skip_quoted xs' = Some w" by (simp add: skip_value_def)
      then obtain p where "xs' = p @ w" using quoted by blast
      with Cons have "xs = (c # p) @ w" by simp
      then show ?thesis by blast
    next
      case False
      with v Cons have "w = dropWhile token_char xs" by (simp add: skip_value_def split: if_splits)
      then show ?thesis using suffix by blast
    qed
  qed
  show ?case
  proof (cases "?t = CRLF")
    case True
    then show ?thesis by (metis suffix)
  next
    case False
    with "1.prems" obtain t' where t': "?t = CHR '';'' # t'"
      by (subst (asm) chunk_extensions_ok.simps) (auto simp: Let_def split: list.splits if_splits)
    let ?n = "dropWhile is_blank t'" let ?r = "dropWhile token_char ?n" let ?v = "dropWhile is_blank ?r"
    have nr: "?n \<noteq> ?r" using "1.prems" False t'
      by (subst (asm) chunk_extensions_ok.simps) (auto simp: Let_def split: if_splits)
    have "\<exists>p. ?r = p @ CRLF"
    proof (cases "?v \<noteq> [] \<and> hd ?v = CHR ''=''")
      case True
      with "1.prems" False t' nr obtain w where w: "skip_value (dropWhile is_blank (tl ?v)) = Some w" "chunk_extensions_ok w"
        by (subst (asm) chunk_extensions_ok.simps) (auto simp: Let_def split: option.splits)
      from "1.IH"(1) [OF refl False t' _ refl refl refl nr True w(1) w(2)] obtain p where "w = p @ CRLF" by auto
      moreover obtain p1 p2 p3 where "?r = p1 @ ?v" "tl ?v = p2 @ dropWhile is_blank (tl ?v)"
        "dropWhile is_blank (tl ?v) = p3 @ w" using suffix val w(1) by metis
      moreover have "?v = hd ?v # tl ?v" using True by (metis list.collapse)
      ultimately have "?r = (p1 @ hd ?v # p2 @ p3 @ p) @ CRLF" by (metis append.assoc append_Cons)
      then show ?thesis by blast
    next
      case nov: False
      then have "chunk_extensions_ok ?r" using "1.prems" False t' nr
        by (subst (asm) chunk_extensions_ok.simps) (auto simp: Let_def split: if_splits)
      from "1.IH"(2) [OF refl False t' _ refl refl refl nr nov this] show ?thesis by simp
    qed
    then obtain p where "?r = p @ CRLF" by blast
    moreover obtain p1 p2 p3 where "s = p1 @ ?t" "t' = p2 @ ?n" "?n = p3 @ ?r" using suffix by metis
    ultimately have "s = (p1 @ CHR '';'' # p2 @ p3 @ p) @ CRLF" using t' by (metis append.assoc append_Cons)
    then show ?thesis by blast
  qed
qed

lemma chunk_size_CRLF: "chunk_size l = Some n \<Longrightarrow> \<exists>p. l = p @ CRLF"
proof -
  assume "chunk_size l = Some n"
  then obtain p where "dropWhile is_hex l = p @ CRLF"
    using chunk_extensions_CRLF by (auto simp: chunk_size_def Let_def split: if_splits)
  then have "l = (takeWhile is_hex l @ p) @ CRLF" by (metis append.assoc takeWhile_dropWhile_id)
  then show ?thesis by blast
qed

lemma readline_one_line:
  assumes "readline s = Inr (l, s')" and "l = p @ CRLF"
  shows "one_line l"
proof -
  let ?w = "takeWhile (\<lambda>c. c \<noteq> CHR 0x0A) (pending s)"
  have no: "CHR 0x0A \<notin> set ?w" by (auto dest: set_takeWhileD)
  have "l = ?w @ [CHR 0x0A] \<or> l = ?w"
    using assms(1) dropWhile_eq_Cons_conv [of "\<lambda>c. c \<noteq> CHR 0x0A" "pending s"]
    by (auto simp: readline_def Let_def split: if_splits list.splits stream_end.splits)
  moreover have "CHR 0x0A \<in> set l" using assms(2) by (simp add: CRLF_def)
  ultimately show ?thesis using no by (auto simp: one_line_def butlast_append)
qed

lemma parse_header_line_CRLF: "parse_header_line u l = Inr h \<Longrightarrow> \<exists>p. l = p @ CRLF"
  by (auto simp: parse_header_line_def ends_with_iff split: if_splits)

lemma trailer_check_CRLF: "trailer_check u l = Inr x \<Longrightarrow> \<exists>p. l = p @ CRLF"
  by (auto simp: trailer_check_def rbind_Inr_iff rcatch_def split: sum.splits if_splits dest: parse_header_line_CRLF)

lemma forward_trailers_framed:
  "snd (forward_trailers u s) = Inr s' \<Longrightarrow>
     pending s = up_bytes (fst (forward_trailers u s)) @ pending s' \<and> ending s' = ending s
     \<and> trailer_part u (up_bytes (fst (forward_trailers u s)))"
proof (induction u s rule: forward_trailers.induct)
  case (1 u s)
  from "1.prems" obtain l s1 where r: "readline s = Inr (l, s1)"
    by (auto simp: forward_trailers.simps [of u s] snd_io_bind rbind_Inr_iff)
  note split = readline_split [OF r]
  show ?case
  proof (cases "l = CRLF")
    case True
    with "1.prems" r split show ?thesis
      by (auto simp: forward_trailers.simps [of u s] send_up_def snd_io_bind fst_io_bind trailer_end)
  next
    case False
    with "1.prems" r have c: "trailer_check u l = Inr ()" and rest: "snd (forward_trailers u s1) = Inr s'"
      by (auto simp: forward_trailers.simps [of u s] send_up_def snd_io_bind rbind_Inr_iff)
    have ev: "fst (forward_trailers u s) = SendUp l # fst (forward_trailers u s1)"
      using False r c by (simp add: forward_trailers.simps [of u s] send_up_def fst_io_bind)
    from trailer_check_CRLF [OF c] readline_one_line [OF r] have "one_line l" by blast
    with "1.IH" [OF _ refl False _ _ rest] r c ev split False show ?thesis
      by (auto simp: send_up_def intro: trailer_line)
  qed
qed

lemma forward_chunks_framed:
  "snd (forward_chunks u s) = Inr s' \<Longrightarrow>
     pending s = up_bytes (fst (forward_chunks u s)) @ pending s' \<and> ending s' = ending s
     \<and> chunked_body u (up_bytes (fst (forward_chunks u s)))"
proof (induction u s rule: forward_chunks.induct)
  case (1 u s)
  from "1.prems" obtain l s1 where r: "readline s = Inr (l, s1)"
    by (auto simp: forward_chunks.simps [of u s] snd_io_bind rbind_Inr_iff)
  note split = readline_split [OF r]
  from "1.prems" r obtain n where n: "chunk_size l = Some n"
    by (auto simp: forward_chunks.simps [of u s] snd_io_bind split: option.splits)
  from chunk_size_CRLF [OF n] readline_one_line [OF r] have line: "one_line l" by blast
  show ?case
  proof (cases "n = 0")
    case True
    with "1.prems" r n have t: "snd (forward_trailers u s1) = Inr s'"
      by (simp add: forward_chunks.simps [of u s] send_up_def snd_io_bind)
    have ev: "fst (forward_chunks u s) = SendUp l # fst (forward_trailers u s1)"
      using True r n by (simp add: forward_chunks.simps [of u s] send_up_def fst_io_bind)
    from forward_trailers_framed [OF t] ev split n line True show ?thesis by (auto intro: last_chunk)
  next
    case False
    with "1.prems" r n obtain s2 where s2: "snd (forward_fixed n s1) = Inr s2"
      by (auto simp: forward_chunks.simps [of u s] send_up_def snd_io_bind rbind_Inr_iff)
    with False "1.prems" r n obtain t s3 where s3: "read_body_bytes s2 2 = Inr (t, s3)"
      by (auto simp: forward_chunks.simps [of u s] send_up_def snd_io_bind rbind_Inr_iff)
    from False "1.prems" r n s2 s3 have t: "t = CRLF" and rest: "snd (forward_chunks u s3) = Inr s'"
      by (auto simp: forward_chunks.simps [of u s] send_up_def snd_io_bind split: if_splits)
    have ev: "fst (forward_chunks u s)
        = SendUp l # fst (forward_fixed n s1) @ SendUp CRLF # fst (forward_chunks u s3)"
      using False r n s2 s3 t by (simp add: forward_chunks.simps [of u s] send_up_def fst_io_bind)
    have ih: "pending s3 = up_bytes (fst (forward_chunks u s3)) @ pending s' \<and> ending s' = ending s3
        \<and> chunked_body u (up_bytes (fst (forward_chunks u s3)))"
      by (rule "1.IH" [OF _ refl n _ False _ _ refl _ _ rest]) (use r s2 s3 t in \<open>simp_all add: send_up_def\<close>)
    have "up_bytes (fst (forward_chunks u s))
        = l @ up_bytes (fst (forward_fixed n s1)) @ CRLF @ up_bytes (fst (forward_chunks u s3))"
      by (simp add: ev)
    with ih forward_fixed_split [OF s2] read_body_bytes_Inr [OF s3] t split line n False show ?thesis
      by (auto intro!: data_chunk)
  qed
qed

lemma forward_request_body_framed:
  assumes "snd (forward_request_body u s cl codings) = Inr s'"
  shows "pending s = up_bytes (fst (forward_request_body u s cl codings)) @ pending s'
    \<and> (case cl of
         Some n \<Rightarrow> length (up_bytes (fst (forward_request_body u s cl codings))) = nat n
       | None \<Rightarrow> (if codings = [] then up_bytes (fst (forward_request_body u s cl codings)) = []
                  else chunked_body u (up_bytes (fst (forward_request_body u s cl codings)))))"
  using assms forward_fixed_split forward_chunks_framed
  by (auto simp: forward_request_body_def split: option.splits if_splits)

lemma parse_request_framing_cases:
  assumes "parse_request_framing hs = Inr (cl, codings)"
  shows "(codings = [] \<and> transfer_codings_of hs = [] \<and> content_length_of hs = Inr cl)
    \<or> (cl = None \<and> codings = transfer_codings_of hs \<and> list_all is_token codings
        \<and> (\<exists>pre. codings = pre @ [''chunked''] \<and> ''chunked'' \<notin> set pre))"
proof (cases "transfer_codings_of hs = []")
  case True
  with assms show ?thesis by (auto simp: parse_request_framing_def rbind_Inr_iff)
next
  case False
  then have f: "cl = None" "codings = transfer_codings_of hs" "list_all is_token codings"
    "last codings = ''chunked''" "length (filter (\<lambda>c. c = ''chunked'') codings) = 1"
    using assms by (auto simp: parse_request_framing_def rbind_Inr_iff Let_def list_all_iff list_ex_iff split: if_splits)
  from f(2) False have snoc: "codings = butlast codings @ [last codings]" by simp
  have "length (filter (\<lambda>c. c = ''chunked'') (butlast codings @ [last codings])) = 1"
    using f(5) snoc by simp
  then have "filter (\<lambda>c. c = ''chunked'') (butlast codings) = []" using f(4) by simp
  then have "''chunked'' \<notin> set (butlast codings)" by (auto simp: filter_empty_conv)
  with f snoc show ?thesis by auto
qed

lemma py_int_digits:
  assumes "list_all is_digit s" "s \<noteq> []"
  shows "py_int s = (if length s > max_str_digits then Inl (ValueError (int_limit_msg (length s)))
    else Inr (int (dec_nat s)))"
proof -
  have ns: "\<not> is_space c" if "is_digit c" for c
    using that by (auto simp: is_digit_def is_space_def)
  have "py_strip s = s"
    unfolding py_strip_def using assms ns by (intro strip_id) (auto simp: list_all_iff)
  moreover have "digits_ok b s = True" if "b \<or> s \<noteq> []" for b
    using assms(1) that by (induction s arbitrary: b) (auto split: if_splits)
  moreover have "filter is_digit s = s" using assms(1) by (simp add: list_all_iff)
  moreover obtain c cs where "s = c # cs" using assms(2) by (cases s) auto
  moreover have "c \<noteq> CHR ''-'' \<and> c \<noteq> CHR ''+''" if "is_digit c" for c
    using that by (auto simp: is_digit_def ord_c_def)
  ultimately show ?thesis using assms
    by (auto simp: py_int_def Let_def)
qed
section \<open>Field lines in and out\<close>

text \<open>What the UTF-8 decoder with replacement promises: it invents no ASCII character.\<close>

definition decoder_ok :: "codec \<Rightarrow> bool" where
  "decoder_ok u \<longleftrightarrow> (\<forall>b c. c \<in> set (utf8_replace u b) \<longrightarrow> ascii_c c \<longrightarrow> c \<in> set b)"

lemma decode_ascii_from: "decoder_ok u \<Longrightarrow> c \<in> set (decode_utf8 u b) \<Longrightarrow> ascii_c c \<Longrightarrow> c \<in> set b"
  by (auto simp: decoder_ok_def decode_utf8_def split: if_splits)

lemma forbidden_control_ascii: "forbidden_control c \<Longrightarrow> ascii_c c"
  by (auto simp: forbidden_control_def ascii_c_def)

lemma parse_header_line_Inr:
  assumes "parse_header_line u line = Inr (name, v)"
  obtains raw_name raw_value where "line = raw_name @ CHR '':'' # raw_value @ CRLF" "name = py_lower raw_name"
    "is_token name" "\<not> list_ex forbidden_control raw_value" "v = strip_by is_blank (decode_utf8 u raw_value)"
    "CHR '':'' \<notin> set raw_name"
proof -
  from assms obtain p where p: "line = p @ CRLF" using parse_header_line_CRLF by blast
  have take: "take (length line - 2) line = p" by (simp add: p CRLF_def)
  obtain a f b where abf: "partition_c (CHR '':'') p = (a, f, b)" by (cases "partition_c (CHR '':'') p")
  have colon: "CHR '':'' \<in> set p"
    using assms by (auto simp: parse_header_line_def take Let_def split: if_splits)
  then have "p = a @ CHR '':'' # b" "CHR '':'' \<notin> set a"
    using partition_c_join [OF abf] by (auto split: if_splits)
  moreover have "name = py_lower a" "is_token name" "\<not> list_ex forbidden_control b" "v = strip_by is_blank (decode_utf8 u b)"
    using assms abf by (auto simp: parse_header_line_def take Let_def split: if_splits)
  ultimately show thesis using that p by simp
qed

lemma header_line_clean_facts:
  assumes "parse_header_line u line = Inr (name, v)" and "decoder_ok u"
  shows "is_token name \<and> py_lower name = name \<and> \<not> list_ex forbidden_control v"
  using assms(1)
proof (rule parse_header_line_Inr)
  fix rn rv
  assume h: "name = py_lower rn" "is_token name" "\<not> list_ex forbidden_control rv"
    "v = strip_by is_blank (decode_utf8 u rv)"
  have "\<not> forbidden_control c" if "c \<in> set v" for c
    using h(3,4) that decode_ascii_from [OF assms(2), of c rv] forbidden_control_ascii [of c]
      set_strip [of is_blank "decode_utf8 u rv"] by (auto simp: list_ex_iff)
  with h show ?thesis by (auto simp: list_ex_iff)
qed

text \<open>
  An accepted field line yields a lower-case token and a value without any
  control character but the tab: nothing that is forwarded can start a line of its own.
\<close>

theorem header_line_clean:
  assumes "parse_header_line u line = Inr (name, v)" and "decoder_ok u"
  shows "is_token name \<and> py_lower name = name \<and> \<not> list_ex forbidden_control v"
  by (rule header_line_clean_facts [OF assms])

lemma ascii_codec_decoder: "decoder_ok ascii_codec"
proof -
  have "\<not> ascii_c (CHR 0xBF)" by code_simp
  then show ?thesis by (auto simp: decoder_ok_def ascii_codec_def split: if_splits)
qed

lemma header_line_clean_witness:
  "is_token ''accept'' \<and> py_lower ''accept'' = ''accept'' \<and> \<not> list_ex forbidden_control ''text/html''"
proof -
  have "parse_header_line ascii_codec (''Accept:  text/html '' @ CRLF) = Inr (''accept'', ''text/html'')"
    by code_simp
  from header_line_clean [OF this ascii_codec_decoder] show ?thesis .
qed

lemma token_char_props:
  "token_char c \<Longrightarrow> ascii_c c \<and> c \<noteq> CHR '':'' \<and> \<not> is_blank c \<and> c \<noteq> CHR '','' \<and> \<not> is_space c"
proof -
  have "list_all (\<lambda>k. token_char (char_of k) \<longrightarrow> ascii_c (char_of k) \<and> char_of k \<noteq> CHR '':'' \<and>
      \<not> is_blank (char_of k) \<and> char_of k \<noteq> CHR '','' \<and> \<not> is_space (char_of k)) [0..<256]"
    by code_simp
  then have "\<forall>k<256::nat. token_char (char_of k) \<longrightarrow> ascii_c (char_of k) \<and> char_of k \<noteq> CHR '':'' \<and>
      \<not> is_blank (char_of k) \<and> char_of k \<noteq> CHR '','' \<and> \<not> is_space (char_of k)"
    by (simp add: list_all_iff)
  from this [rule_format, of "ord_c c"] show "token_char c \<Longrightarrow> ascii_c c \<and> c \<noteq> CHR '':'' \<and> \<not> is_blank c \<and> c \<noteq> CHR '','' \<and> \<not> is_space c"
    by simp
qed

text \<open>
  A field line that is printed from a lower-case token and a clean ASCII
  value without outer blanks is parsed back to them.
\<close>

theorem header_line_roundtrip:
  assumes "is_token name" and "py_lower name = name" and "is_ascii v"
    and "list_all (\<lambda>c. \<not> forbidden_control c) v" and "v = [] \<or> (\<not> is_blank (hd v) \<and> \<not> is_blank (last v))"
  shows "parse_header_line u (name @ '': '' @ v @ CRLF) = Inr (name, v)"
proof -
  let ?field = "name @ '': '' @ v"
  have name: "CHR '':'' \<notin> set name" "is_ascii name" "name \<noteq> []" "\<not> is_blank (hd name)"
    using assms(1) token_char_props by (auto simp: is_token_def is_ascii_def list_all_iff)
  have "ends_with (?field @ CRLF) CRLF" by (auto simp: ends_with_iff)
  moreover have "take (length (?field @ CRLF) - 2) (?field @ CRLF) = ?field" by (simp add: CRLF_def)
  moreover have "partition_c (CHR '':'') ?field = (name, True, CHR '' '' # v)"
    using partition_c_found [OF name(1), of "CHR '' '' # v"] by simp
  moreover have "\<not> forbidden_control (CHR '' '')" by code_simp
  moreover have "strip_by is_blank (CHR '' '' # v) = v"
    using strip_id [of v is_blank] assms(5) by (simp add: strip_by_def lstrip_by_def is_blank_def)
  moreover have "ascii_c (CHR '' '')" by code_simp
  ultimately show ?thesis
    using assms name by (simp add: parse_header_line_def Let_def list_ex_iff list_all_iff)
qed

lemma header_line_roundtrip_witness:
  "parse_header_line ascii_codec (''x-a'' @ '': '' @ ''b c'' @ CRLF) = Inr (''x-a'', ''b c'')"
  by (rule header_line_roundtrip) code_simp+

lemma framing_cases:
  assumes "parse_request_framing hs = Inr (cl, codings)"
  shows "(cl = None \<or> codings = []) \<and> (\<exists>n. cl = Some n \<and> 0 \<le> n \<or> cl = None)
    \<and> (codings = [] \<or> list_all is_token codings \<and> (\<exists>pre. codings = pre @ [''chunked''] \<and> ''chunked'' \<notin> set pre))"
proof -
  have "0 \<le> n" if c: "content_length_of hs = Inr (Some n)" for n
  proof -
    from c obtain parsed where p: "rmapM py_int (comma_parts (header_values hs ''content-length'')) = Inr parsed"
      "length (remdups parsed) = 1" "n = hd parsed"
      and d: "\<forall>v \<in> set (comma_parts (header_values hs ''content-length'')). v \<noteq> [] \<and> list_all is_digit v"
      by (auto simp: content_length_of_def Let_def rbind_Inr_iff list_ex_iff split: if_splits)
    then have "n \<in> set parsed" by (cases parsed) auto
    with rmapM_Inr_set [OF p(1)] obtain v where v: "py_int v = Inr n" "v \<noteq> []" "list_all is_digit v"
      using d by blast
    with py_int_digits show ?thesis by (auto split: if_splits)
  qed
  with parse_request_framing_cases [OF assms] show ?thesis
    by (cases cl) auto
qed

text \<open>
  Accepted framing is unambiguous: a content length or transfer codings,
  never both, and codings end in the only chunked one.
\<close>

theorem framing_unambiguous:
  assumes "parse_request_framing hs = Inr (cl, codings)"
  shows "(cl = None \<or> codings = []) \<and> (\<exists>n. cl = Some n \<and> 0 \<le> n \<or> cl = None)
    \<and> (codings = [] \<or> list_all is_token codings \<and> (\<exists>pre. codings = pre @ [''chunked''] \<and> ''chunked'' \<notin> set pre))"
  by (rule framing_cases [OF assms])

lemma framing_unambiguous_witness:
  "(None = (None :: int option) \<or> [''gzip'', ''chunked''] = [])
    \<and> (\<exists>pre. [''gzip'', ''chunked''] = pre @ [''chunked''] \<and> ''chunked'' \<notin> set pre)"
proof -
  have "parse_request_framing [(''transfer-encoding'', ''gzip, Chunked'')] = Inr (None, [''gzip'', ''chunked''])"
    by code_simp
  from framing_unambiguous [OF this] show ?thesis by simp
qed

text \<open>
  C3 (safety). What a forwarded request sends of its body is, byte for byte, the front of
  what the client sent, and it ends where the accepted framing says: after the content
  length, at once when there is none, and otherwise with the end of the chunked body, which
  is the only chunked body the client's bytes start with.
\<close>

theorem forwarded_body_exact:
  assumes "parse_request_framing hs = Inr (cl, codings)"
    and "snd (forward_request_body u s cl codings) = Inr s'"
  shows "\<exists>sent. sent = up_bytes (fst (forward_request_body u s cl codings)) \<and> pending s = sent @ pending s'
    \<and> (case cl of
         Some n \<Rightarrow> int (length sent) = n
       | None \<Rightarrow> (if codings = [] then sent = []
                  else chunked_body u sent
                    \<and> (\<forall>b y. chunked_body u b \<longrightarrow> pending s = b @ y \<longrightarrow> b = sent)))"
proof -
  let ?sent = "up_bytes (fst (forward_request_body u s cl codings))"
  have "cl = Some n \<Longrightarrow> 0 \<le> n" for n
    using framing_cases [OF assms(1)] by simp
  moreover have "b = ?sent" if "chunked_body u ?sent" "chunked_body u b" "pending s = b @ y" for b y
    using chunked_body_prefix_free [OF that(2,1)] that(3) forward_request_body_framed [OF assms(2)] by metis
  ultimately show ?thesis
    using forward_request_body_framed [OF assms(2)] by (auto split: option.splits if_splits)
qed

definition sample_chunked :: istream where
  "sample_chunked = \<lparr>pending = ''3;a=b'' @ CRLF @ ''abc'' @ CRLF @ ''0'' @ CRLF @ CRLF @ ''GET /'', ending = Eof\<rparr>"

lemma forwarded_body_exact_witness:
  "\<exists>sent. sent = up_bytes (fst (forward_request_body ascii_codec sample_chunked None [''chunked'']))
    \<and> pending sample_chunked = sent @ ''GET /'' \<and> chunked_body ascii_codec sent"
proof -
  have "parse_request_framing [(''transfer-encoding'', ''chunked'')] = Inr (None, [''chunked''])"
    "snd (forward_request_body ascii_codec sample_chunked None [''chunked'']) = Inr \<lparr>pending = ''GET /'', ending = Eof\<rparr>"
    by code_simp+
  from forwarded_body_exact [OF this] show ?thesis by simp
qed

end
