(* ===== verification/Egress_Proxy.thy ===== *)
theory Egress_Proxy
  imports Egress_Http
begin

text \<open>
  Connections and request handlers of egress/final_hop_proxy.py: direct dials, the SOCKS5 and
  HTTP CONNECT exchanges with an upstream proxy, and the handlers of CONNECT and of plain
  HTTP forwarding. Each is the log of its effects and its result. A handler takes two
  outside worlds, the one seen while the destination is decided and the one seen while the
  connection is made. Writes to a peer are assumed to reach the transport.
\<close>

section \<open>Dialling\<close>

definition dial :: "net \<Rightarrow> pystr \<Rightarrow> int \<Rightarrow> pystr option \<Rightarrow> (ev, istream) io" where
  "dial n a p sni = io_bind (io_emit [Dial a p sni]) (\<lambda>_. io_lift (n_dial n a p sni))"

text \<open>The loop over addresses, with its list of failures; every connection attempt that
  fails with \<open>OSError\<close> or times out is skipped.\<close>

fun dial_any :: "net \<Rightarrow> int \<Rightarrow> pystr option \<Rightarrow> pystr list \<Rightarrow> pystr list \<Rightarrow> (ev, istream + pystr list) io" where
  "dial_any n p sni failures [] = io_ret (Inr failures)"
| "dial_any n p sni failures (a # as) =
     io_catch (io_bind (dial n a p sni) (\<lambda>s. io_ret (Inl s))) is_oserror
       (\<lambda>e. dial_any n p sni (failures @ [a @ '': '' @ exn_str e]) as)"

text \<open>\<open>_open_validated_direct_connection\<close>.\<close>

definition open_validated_direct :: "net \<Rightarrow> pystr list \<Rightarrow> int \<Rightarrow> (ev, istream) io" where
  "open_validated_direct n validated_ips p =
     (if validated_ips = []
      then io_raise (ConnectionError ''direct connection has no validated destination addresses'')
      else io_bind (dial_any n p None [] validated_ips) (\<lambda>r. case r of
        Inl s \<Rightarrow> io_ret s
      | Inr failures \<Rightarrow> io_raise (ConnectionError
          (''all validated destination addresses failed: '' @ join ''; '' failures))))"

section \<open>SOCKS5\<close>

definition close_raise :: "exn \<Rightarrow> (ev, 'a) io" where
  "close_raise e = io_bind (io_emit [CloseUp]) (\<lambda>_. io_raise e)"

definition conn_error :: "pystr \<Rightarrow> (ev, 'a) io" where
  "conn_error m = close_raise (ConnectionError m)"

definition octets :: "nat list \<Rightarrow> bytes" where
  "octets ns = map char_of ns"

definition truthy_opt :: "pystr option \<Rightarrow> bool" where
  "truthy_opt s \<longleftrightarrow> (case s of Some t \<Rightarrow> t \<noteq> [] | None \<Rightarrow> False)"

text \<open>The inner \<open>read_exactly\<close> of \<open>_socks5_connect\<close>.\<close>

definition socks_read :: "istream \<Rightarrow> nat \<Rightarrow> (ev, bytes \<times> istream) io" where
  "socks_read s k =
     io_catch (io_catch (io_lift (timed (readexactly k s)))
       (\<lambda>e. e = TimeoutExn) (\<lambda>_. conn_error ''SOCKS5 reply timed out''))
       (\<lambda>e. e = IncompleteRead) (\<lambda>_. conn_error ''SOCKS5 reply was truncated'')"

definition socks_greeting :: "pystr option \<Rightarrow> pystr option \<Rightarrow> bytes" where
  "socks_greeting user pass =
     (if truthy_opt user \<and> truthy_opt pass then octets [5, 2, 0, 2] else octets [5, 1, 0])"

definition length_byte :: "bytes \<Rightarrow> bytes py" where
  "length_byte b = (if length b < 256 then Inr [char_of (length b)]
     else Inl (ValueError ''bytes must be in range(0, 256)''))"

text \<open>The user name and password sub-negotiation.\<close>

definition socks_auth :: "pystr option \<Rightarrow> pystr option \<Rightarrow> istream \<Rightarrow> (ev, istream) io" where
  "socks_auth user pass s =
     (if \<not> truthy_opt user then conn_error ''SOCKS5: server requires auth but no credentials''
      else let u_bytes = encode_utf8 (the user);
               p_bytes = encode_utf8 (case pass of Some t \<Rightarrow> t | None \<Rightarrow> [])
      in io_bind (io_lift (length_byte u_bytes)) (\<lambda>ul.
         io_bind (io_lift (length_byte p_bytes)) (\<lambda>pl.
         io_bind (send_up (octets [1] @ ul @ u_bytes @ pl @ p_bytes)) (\<lambda>_.
         io_bind (socks_read s 2) (\<lambda>(r, s1).
           if byte_at r 0 \<noteq> 1 \<or> byte_at r 1 \<noteq> 0 then conn_error ''SOCKS5: auth failed''
           else io_ret s1)))))"

text \<open>The CONNECT request: a name stays a name, a literal stays a literal.\<close>

definition socks_request :: "codec \<Rightarrow> pystr \<Rightarrow> int \<Rightarrow> bytes py" where
  "socks_request u target_host p =
     (let normalized = normalize_host u target_host;
          loose_ip = loose_ipv4_literal normalized
      in if parse_ip_literal normalized = None \<and> loose_ip = None
         then (let host_bytes = encode_utf8 target_host
               in if host_bytes = [] \<or> 255 < length host_bytes
                  then Inl (ConnectionError ''SOCKS5: invalid target hostname length'')
                  else Inr (octets [5, 1, 0, 3, length host_bytes] @ host_bytes @ be16 (nat p)))
         else (case ip_address (case loose_ip of Some l \<Rightarrow> l | None \<Rightarrow> normalized) of
                 Some a \<Rightarrow> Inr (octets [5, 1, 0, (case a of V4 _ \<Rightarrow> 1 | V6 _ _ \<Rightarrow> 4)] @ ip_packed a @ be16 (nat p))
               | None \<Rightarrow> Inl (ConnectionError (''SOCKS5: invalid target IP '' @ target_host))))"

text \<open>The reply, with the bound address that is read and discarded.\<close>

definition socks_reply :: "istream \<Rightarrow> (ev, istream) io" where
  "socks_reply s =
     io_bind (socks_read s 4) (\<lambda>(r, s1).
       if byte_at r 0 \<noteq> 5 then conn_error (''SOCKS5 response version mismatch: '' @ nat_str (byte_at r 0))
       else if byte_at r 2 \<noteq> 0 then conn_error ''SOCKS5 response has a nonzero reserved byte''
       else if byte_at r 1 \<noteq> 0 then conn_error (''SOCKS5 connect failed: status '' @ nat_str (byte_at r 1))
       else if byte_at r 3 = 1 then io_bind (socks_read s1 6) (\<lambda>(_, s2). io_ret s2)
       else if byte_at r 3 = 3
       then io_bind (socks_read s1 1) (\<lambda>(l, s2).
              if byte_at l 0 = 0 then conn_error ''SOCKS5 response has an empty bound hostname''
              else io_bind (socks_read s2 (byte_at l 0 + 2)) (\<lambda>(_, s3). io_ret s3))
       else if byte_at r 3 = 4 then io_bind (socks_read s1 18) (\<lambda>(_, s2). io_ret s2)
       else conn_error (''SOCKS5 response has unknown address type: '' @ nat_str (byte_at r 3)))"

text \<open>\<open>_socks5_connect\<close>.\<close>

definition socks5_connect ::
  "codec \<Rightarrow> istream \<Rightarrow> pystr \<Rightarrow> int \<Rightarrow> pystr option \<Rightarrow> pystr option \<Rightarrow> (ev, istream) io" where
  "socks5_connect u s target_host p user pass =
     io_bind (send_up (socks_greeting user pass)) (\<lambda>_.
     io_bind (socks_read s 2) (\<lambda>(r, s1).
       if byte_at r 0 \<noteq> 5 then conn_error (''SOCKS5 version mismatch: '' @ nat_str (byte_at r 0))
       else if byte_at r 1 = 255 then conn_error ''SOCKS5: no acceptable auth method''
       else if \<not> (byte_at r 1 = 0 \<or> (byte_at r 1 = 2 \<and> truthy_opt user \<and> truthy_opt pass))
       then conn_error ''SOCKS5: server selected an unoffered auth method''
       else io_bind (if byte_at r 1 = 2 then socks_auth user pass s1 else io_ret s1) (\<lambda>s2.
         case socks_request u target_host p of
           Inl e \<Rightarrow> close_raise e
         | Inr request \<Rightarrow> io_bind (send_up request) (\<lambda>_. socks_reply s2))))"

section \<open>HTTP CONNECT\<close>

definition b64_char :: "nat \<Rightarrow> char" where
  "b64_char n = ''ABCDEFGHIJKLMNOPQRSTUVWXYZabcdefghijklmnopqrstuvwxyz0123456789+/'' ! n"

text \<open>\<open>base64.b64encode\<close>.\<close>

fun b64encode :: "bytes \<Rightarrow> pystr" where
  "b64encode [] = []"
| "b64encode [a] =
     (let x = ord_c a in [b64_char (x div 4), b64_char (x mod 4 * 16)] @ ''=='')"
| "b64encode [a, b] =
     (let x = ord_c a; y = ord_c b
      in [b64_char (x div 4), b64_char (x mod 4 * 16 + y div 16), b64_char (y mod 16 * 4)] @ ''='')"
| "b64encode (a # b # c # r) =
     (let x = ord_c a; y = ord_c b; z = ord_c c
      in [b64_char (x div 4), b64_char (x mod 4 * 16 + y div 16), b64_char (y mod 16 * 4 + z div 64),
          b64_char (z mod 64)] @ b64encode r)"

definition basic_credentials :: "pystr \<Rightarrow> pystr \<Rightarrow> pystr" where
  "basic_credentials user pass = ''Basic '' @ b64encode (encode_utf8 (user @ '':'' @ pass))"

definition connect_request :: "pystr \<Rightarrow> int \<Rightarrow> pystr option \<Rightarrow> pystr option \<Rightarrow> pystr" where
  "connect_request target_host p user pass =
     ''CONNECT '' @ target_host @ '':'' @ int_str p @ '' HTTP/1.1'' @ CRLF
     @ ''Host: '' @ target_host @ '':'' @ int_str p @ CRLF
     @ (if truthy_opt user \<and> truthy_opt pass
        then ''Proxy-Authorization: '' @ basic_credentials (the user) (the pass) @ CRLF else [])
     @ CRLF"

text \<open>Discarding the response headers: the loop ends at an empty line or at the end of the
  stream.\<close>

function skip_headers :: "istream \<Rightarrow> istream py" where
  "skip_headers s = rbind (readline s) (\<lambda>(line, s').
     if line = [] \<or> line = CRLF then Inr s' else skip_headers s')"
  by pat_completeness auto
termination
  by (relation "measure (\<lambda>s. length (pending s))") (auto dest: readline_shorter)

declare skip_headers.simps [simp del]

text \<open>\<open>_open_http_proxy_connection\<close>.\<close>

definition open_http_proxy_connection ::
  "codec \<Rightarrow> config \<Rightarrow> net \<Rightarrow> pystr \<Rightarrow> int \<Rightarrow> pystr \<Rightarrow> (ev, istream) io" where
  "open_http_proxy_connection u c n proxy_host proxy_port scheme =
     io_bind (io_lift (resolve_configured_endpoint u c n proxy_host proxy_port ''configured upstream proxy endpoint''))
       (\<lambda>proxy_addresses.
         io_bind (dial_any n proxy_port (if scheme = ''https'' then Some proxy_host else None) [] proxy_addresses)
           (\<lambda>r. case r of
              Inl s \<Rightarrow> io_ret s
            | Inr failures \<Rightarrow> io_raise (ConnectionError
                (''all upstream proxy addresses failed: '' @ join ''; '' failures))))"

text \<open>\<open>_connect_via_http_connect\<close>.\<close>

definition connect_via_http_connect ::
  "codec \<Rightarrow> config \<Rightarrow> net \<Rightarrow> upstream_url \<Rightarrow> pystr \<Rightarrow> int \<Rightarrow> (ev, istream) io" where
  "connect_via_http_connect u c n up target_host p =
     io_bind (open_http_proxy_connection u c n (up_host up) (up_port up) (up_scheme up)) (\<lambda>s.
     io_bind (send_up (encode_utf8 (connect_request target_host p (up_user up) (up_pass up)))) (\<lambda>_.
     io_bind (io_lift (readline s)) (\<lambda>(response_line, s1).
       if response_line = [] then conn_error ''HTTP CONNECT: empty response from proxy''
       else let parts = py_split (decode_utf8 u response_line)
       in if length parts < 2 \<or> parts ! 1 \<noteq> ''200''
          then conn_error (''HTTP CONNECT failed: '' @ py_strip (decode_utf8 u response_line))
          else io_lift (skip_headers s1))))"

text \<open>\<open>_connect_via_socks5\<close>.\<close>

definition connect_via_socks5 ::
  "codec \<Rightarrow> config \<Rightarrow> net \<Rightarrow> upstream_url \<Rightarrow> pystr \<Rightarrow> int \<Rightarrow> (ev, istream) io" where
  "connect_via_socks5 u c n up target_host p =
     io_bind (open_http_proxy_connection u c n (up_host up) (up_port up) (up_scheme up)) (\<lambda>s.
       socks5_connect u s target_host p (up_user up) (up_pass up))"

section \<open>Routing a connection\<close>

definition lan_pinned :: "config \<Rightarrow> pystr list \<Rightarrow> bool" where
  "lan_pinned c ips \<longleftrightarrow> route c = HostRoute \<and> allow_lan c \<and> ips \<noteq> [] \<and> list_all is_rfc1918 ips"

text \<open>The destinations that never traverse the upstream proxy.\<close>

definition direct_destination :: "codec \<Rightarrow> config \<Rightarrow> pystr \<Rightarrow> int \<Rightarrow> pystr list \<Rightarrow> bool" where
  "direct_destination u c host p ips \<longleftrightarrow>
     is_trusted_internal_destination u c host p
     \<or> is_configured_local_embedding_destination u c host p
     \<or> is_allowed_exact_host_destination u c host p
     \<or> lan_pinned c ips"

definition dial_tor :: "config \<Rightarrow> net \<Rightarrow> (ev, istream) io" where
  "dial_tor c n =
     io_catch (io_bind (io_emit [DialUnix (tor_socks c)]) (\<lambda>_. io_lift (n_unix n (tor_socks c)))) is_oserror
       (\<lambda>_. io_raise (ConnectionError ''native Tor SOCKS socket is unavailable''))"

text \<open>\<open>_connect_via_upstream\<close>.\<close>

definition connect_via_upstream ::
  "codec \<Rightarrow> config \<Rightarrow> net \<Rightarrow> pystr \<Rightarrow> int \<Rightarrow> pystr list \<Rightarrow> (ev, istream) io" where
  "connect_via_upstream u c n host p ips =
     (if direct_destination u c host p ips then open_validated_direct n ips p
      else if upstream_proxy c = [] \<and> tor_socks c = [] then open_validated_direct n ips p
      else if tor_socks c \<noteq> []
      then io_bind (dial_tor c n) (\<lambda>s. socks5_connect u s host p None None)
      else io_bind (io_lift (parse_proxy_url u (upstream_proxy c))) (\<lambda>up.
        if up_scheme up \<in> {''socks5'', ''socks5h''} then connect_via_socks5 u c n up host p
        else if up_scheme up \<in> {''http'', ''https''} then connect_via_http_connect u c n up host p
        else io_raise (ValueError (''Unsupported proxy scheme: '' @ up_scheme up))))"

text \<open>\<open>_open_plain_http_forward_connection\<close>: the stream and whether the upstream expects an
  absolute request target.\<close>

definition open_plain_http_forward ::
  "codec \<Rightarrow> config \<Rightarrow> net \<Rightarrow> pystr \<Rightarrow> int \<Rightarrow> pystr list \<Rightarrow> (ev, istream \<times> bool) io" where
  "open_plain_http_forward u c n host p ips =
     (if direct_destination u c host p ips \<or> (upstream_proxy c = [] \<and> tor_socks c = [])
      then io_bind (open_validated_direct n ips p) (\<lambda>s. io_ret (s, False))
      else if tor_socks c \<noteq> []
      then io_bind (connect_via_upstream u c n host p ips) (\<lambda>s. io_ret (s, False))
      else io_bind (io_lift (parse_proxy_url u (upstream_proxy c))) (\<lambda>up.
        if up_scheme up \<in> {''http'', ''https''}
        then io_bind (open_http_proxy_connection u c n (up_host up) (up_port up) (up_scheme up))
               (\<lambda>s. io_ret (s, True))
        else if up_scheme up \<in> {''socks5'', ''socks5h''}
        then io_bind (connect_via_socks5 u c n up host p) (\<lambda>s. io_ret (s, False))
        else io_raise (ValueError (''Unsupported proxy scheme: '' @ up_scheme up))))"

text \<open>\<open>_proxy_authorization_header\<close>.\<close>

definition proxy_authorization_header :: "codec \<Rightarrow> config \<Rightarrow> pystr option py" where
  "proxy_authorization_header u c =
     (if upstream_proxy c = [] then Inr None
      else rbind (parse_proxy_url u (upstream_proxy c)) (\<lambda>up.
        if up_scheme up \<notin> {''http'', ''https''} \<or> \<not> (truthy_opt (up_user up) \<and> truthy_opt (up_pass up))
        then Inr None
        else Inr (Some (basic_credentials (the (up_user up)) (the (up_pass up))))))"

text \<open>\<open>_open_origin_connection\<close>.\<close>

definition open_origin_connection ::
  "codec \<Rightarrow> config \<Rightarrow> net \<Rightarrow> pystr \<Rightarrow> int \<Rightarrow> bool \<Rightarrow> pystr list \<Rightarrow> (ev, istream) io" where
  "open_origin_connection u c n host p use_tls ips =
     io_bind (connect_via_upstream u c n host p ips) (\<lambda>s.
       if use_tls then io_bind (io_emit [StartTls host]) (\<lambda>_. io_lift (n_tls n host)) else io_ret s)"

section \<open>Relaying\<close>

text \<open>
  \<open>_pipe\<close> run to its end: chunks of at most the buffer size, then the writer is closed; on a
  peer that stays silent it never ends. \<open>w\<close> and \<open>closed\<close> are the events of its writer.
\<close>

function pipe :: "(bytes \<Rightarrow> ev) \<Rightarrow> ev \<Rightarrow> istream \<Rightarrow> (ev, unit) io" where
  "pipe w closed s =
     (case read_some tunnel_buffer s of
        Inl e \<Rightarrow> (if is_oserror e \<or> e = IncompleteRead then io_emit [closed] else io_raise e)
      | Inr (data, s') \<Rightarrow>
          (if data = [] then io_emit [closed]
           else io_bind (io_emit [w data]) (\<lambda>_. pipe w closed s')))"
  by pat_completeness auto
termination
  by (relation "measure (\<lambda>(w, c, s). length (pending s))")
     (auto dest!: read_some_split)

declare pipe.simps [simp del]

section \<open>Responses to the client\<close>

definition text_response :: "pystr \<Rightarrow> pystr \<Rightarrow> pystr \<Rightarrow> bytes" where
  "text_response code reason body =
     (let body_bytes = encode_utf8 (rstrip_by is_space body @ [CHR 0x0A])
      in encode_utf8 (''HTTP/1.1 '' @ code @ '' '' @ reason @ CRLF
           @ ''Content-Type: text/plain; charset=utf-8'' @ CRLF
           @ ''Content-Length: '' @ nat_str (length body_bytes) @ CRLF
           @ ''Connection: close'' @ CRLF @ CRLF) @ body_bytes)"

text \<open>\<open>_write_text_response\<close>.\<close>

definition write_text_response :: "pystr \<Rightarrow> pystr \<Rightarrow> pystr \<Rightarrow> (ev, unit) io" where
  "write_text_response code reason body = send_client (text_response code reason body)"

definition bad_request :: "pystr \<Rightarrow> (ev, unit) io" where
  "bad_request body = write_text_response ''400'' ''Bad Request'' body"

definition http_url_block_message :: pystr where
  "http_url_block_message = ''HTTP URLs are disabled by EGRESS_ALLOW_HTTP_URLS=false. Use an https:// URL instead.''"

text \<open>\<open>_reject_blocked_destination\<close>: the pinned addresses, or none after the refusal is
  written.\<close>

definition reject_blocked_destination ::
  "codec \<Rightarrow> config \<Rightarrow> net \<Rightarrow> pystr \<Rightarrow> int \<Rightarrow> (ev, pystr list option) io" where
  "reject_blocked_destination u c n host p =
     io_bind (io_lift (validate_destination u c n host p)) (\<lambda>(reason, ips).
       case reason of
         None \<Rightarrow> io_ret (Some ips)
       | Some r \<Rightarrow> if r = [] then io_ret (Some ips)
                   else io_bind (send_client (refusal r)) (\<lambda>_. io_ret None))"

section \<open>The handlers\<close>

text \<open>How a request ends: answered, without an answer, or with a tunnel between the rests of both
  streams.\<close>

datatype outcome = Answered | Unanswered | Tunnelled istream istream

text \<open>The clause \<open>except Exception\<close>.\<close>

definition any_exception :: "exn \<Rightarrow> bool" where
  "any_exception e \<longleftrightarrow> e \<noteq> Stalled"

definition answer :: "(ev, unit) io \<Rightarrow> (ev, outcome) io" where
  "answer m = io_bind m (\<lambda>_. io_ret Answered)"

text \<open>\<open>_handle_connect\<close> up to the tunnel.\<close>

definition handle_connect ::
  "codec \<Rightarrow> config \<Rightarrow> net \<Rightarrow> net \<Rightarrow> pystr \<Rightarrow> istream \<Rightarrow> (ev, outcome) io" where
  "handle_connect u c nv nc target client =
     (case parse_authority target 443 of
        Inl e \<Rightarrow> (if is_valueerror e then answer (bad_request ''Invalid CONNECT target.'') else io_raise e)
      | Inr (host, p) \<Rightarrow>
          io_bind (reject_blocked_destination u c nv host p) (\<lambda>verdict.
            case verdict of
              None \<Rightarrow> io_ret Answered
            | Some ips \<Rightarrow>
                (if p = 80 \<and> \<not> plain_http_allowed u c host p ips
                 then answer (write_text_response ''403'' ''Forbidden'' http_url_block_message)
                 else io_bind
                   (io_catch (io_bind (connect_via_upstream u c nc host p ips) (\<lambda>s. io_ret (Some s))) any_exception
                     (\<lambda>e. io_bind (write_text_response ''502'' ''Bad Gateway''
                            (''Failed to establish upstream tunnel: '' @ exn_str e)) (\<lambda>_. io_ret None)))
                   (\<lambda>r. case r of
                      None \<Rightarrow> io_ret Answered
                    | Some upstream \<Rightarrow>
                        io_bind (send_client (''HTTP/1.1 200 Connection Established'' @ CRLF @ CRLF))
                          (\<lambda>_. io_ret (Tunnelled client upstream))))))"

text \<open>The target of a forwarded request: host, port, whether the origin is reached with TLS,
  and the path; or the text of the 400 answer.\<close>

definition forward_target :: "pystr \<Rightarrow> headers \<Rightarrow> (pystr + pystr \<times> int \<times> bool \<times> pystr) py" where
  "forward_target target hs =
     rbind (urlparse target) (\<lambda>parsed.
       if u_scheme parsed \<noteq> []
       then (let scheme = py_lower (u_scheme parsed)
             in if scheme \<notin> {''http'', ''https''} \<or> u_netloc parsed = []
                then Inr (Inl ''Absolute-form proxy targets must use http or https.'')
                else case port parsed of
                  Inl e \<Rightarrow> (if is_valueerror e then Inr (Inl ''Invalid HTTP proxy target port.'') else Inl e)
                | Inr p \<Rightarrow>
                    Inr (Inr (hostname parsed,
                      (case p of Some q \<Rightarrow> q | None \<Rightarrow> if scheme = ''https'' then 443 else 80),
                      scheme = ''https'',
                      (if u_path parsed = [] then ''/'' else u_path parsed)
                        @ (if u_query parsed = [] then [] else ''?'' @ u_query parsed))))
       else (case header_values hs ''host'' of
               [h] \<Rightarrow>
                 (case parse_authority h 80 of
                    Inl e \<Rightarrow> (if is_valueerror e then Inr (Inl ''Invalid HTTP proxy target.'') else Inl e)
                  | Inr (host, p) \<Rightarrow> Inr (Inr (host, p, False, if target = [] then ''/'' else target)))
             | _ \<Rightarrow> Inr (Inl ''Origin-form proxy requests require exactly one Host header.'')))"

definition hop_headers :: "pystr set" where
  "hop_headers = {''connection'', ''proxy-connection'', ''proxy-authorization'', ''host'',
     ''content-length'', ''transfer-encoding''}"

text \<open>The request head sent upstream.\<close>

definition forward_head ::
  "pystr \<Rightarrow> pystr \<Rightarrow> headers \<Rightarrow> pystr \<Rightarrow> int \<Rightarrow> bool \<Rightarrow> int option \<Rightarrow> pystr list \<Rightarrow> pystr option \<Rightarrow> pystr" where
  "forward_head verb request_target hs host p use_tls content_length codings auth =
     (let default_port = (if use_tls then 443 else 80);
          display_host = bracket_host host
      in verb @ '' '' @ request_target @ '' HTTP/1.1'' @ CRLF
         @ concat (map (\<lambda>(name, v). name @ '': '' @ v @ CRLF)
             (filter (\<lambda>(name, v). name \<notin> hop_headers) hs))
         @ ''host: '' @ (if p = default_port then display_host else display_host @ '':'' @ int_str p) @ CRLF
         @ (case content_length of None \<Rightarrow> [] | Some n \<Rightarrow> ''content-length: '' @ int_str n @ CRLF)
         @ (if codings = [] then [] else ''transfer-encoding: '' @ join '', '' codings @ CRLF)
         @ (case auth of None \<Rightarrow> [] | Some a \<Rightarrow> if a = [] then [] else ''proxy-authorization: '' @ a @ CRLF)
         @ ''connection: close'' @ CRLF @ CRLF)"

text \<open>The connection a request is forwarded on, the request target and the credentials for it.\<close>

definition open_forward ::
  "codec \<Rightarrow> config \<Rightarrow> net \<Rightarrow> pystr \<Rightarrow> int \<Rightarrow> bool \<Rightarrow> pystr \<Rightarrow> pystr list
    \<Rightarrow> (ev, istream \<times> pystr \<times> pystr option) io" where
  "open_forward u c n host p use_tls path ips =
     (if use_tls
      then io_bind (open_origin_connection u c n host p use_tls ips) (\<lambda>s. io_ret (s, path, None))
      else io_bind (open_plain_http_forward u c n host p ips) (\<lambda>(s, absolute).
        io_bind (io_lift (if absolute then proxy_authorization_header u c else Inr None)) (\<lambda>auth.
          io_ret (s, (if absolute then ''http://'' @ host @ '':'' @ int_str p @ path else path), auth))))"

text \<open>The \<open>try\<close> block of \<open>_handle_forward_http\<close>.\<close>

definition forward_exchange ::
  "codec \<Rightarrow> config \<Rightarrow> net \<Rightarrow> pystr \<Rightarrow> headers \<Rightarrow> pystr \<Rightarrow> int \<Rightarrow> bool \<Rightarrow> pystr \<Rightarrow> pystr list \<Rightarrow> istream
    \<Rightarrow> (ev, unit) io" where
  "forward_exchange u c n verb hs host p use_tls path ips client =
     io_bind (open_forward u c n host p use_tls path ips)
       (\<lambda>(upstream, request_target, auth).
          io_bind (io_lift (parse_request_framing hs)) (\<lambda>(content_length, codings).
          io_bind (send_up (encode_utf8 (forward_head verb request_target hs host p use_tls content_length codings auth))) (\<lambda>_.
          io_bind (forward_request_body u client content_length codings) (\<lambda>_.
          io_bind (pipe SendClient CloseClient upstream) (\<lambda>_.
            io_emit [CloseUp])))))"

text \<open>\<open>_handle_forward_http\<close>.\<close>

definition handle_forward_http ::
  "codec \<Rightarrow> config \<Rightarrow> net \<Rightarrow> net \<Rightarrow> pystr \<Rightarrow> pystr \<Rightarrow> headers \<Rightarrow> istream \<Rightarrow> (ev, outcome) io" where
  "handle_forward_http u c nv nc verb target hs client =
     io_bind (io_lift (forward_target target hs)) (\<lambda>t. case t of
       Inl message \<Rightarrow> answer (bad_request message)
     | Inr (host, p, use_tls, path) \<Rightarrow>
         io_bind (reject_blocked_destination u c nv host p) (\<lambda>verdict.
           case verdict of
             None \<Rightarrow> io_ret Answered
           | Some ips \<Rightarrow>
               (if \<not> use_tls \<and> \<not> plain_http_allowed u c host p ips
                then answer (write_text_response ''403'' ''Forbidden'' http_url_block_message)
                else answer (io_catch (forward_exchange u c nc verb hs host p use_tls path ips client) any_exception
                  (\<lambda>e. write_text_response ''502'' ''Bad Gateway'' (''HTTP proxy forwarding failed: '' @ exn_str e))))))"

section \<open>One client connection\<close>

text \<open>The header loop of \<open>handle_request\<close>: the headers and the rest of the stream, or the
  text of the 400 answer.\<close>

function read_headers :: "codec \<Rightarrow> istream \<Rightarrow> headers \<Rightarrow> (pystr + headers \<times> istream) py" where
  "read_headers u s hs =
     rbind (timed (readline s)) (\<lambda>(line, s').
       if line = [] then Inr (Inl ''HTTP headers ended prematurely.'')
       else if line = CRLF then Inr (Inr (hs, s'))
       else case parse_header_line u line of
         Inl e \<Rightarrow> (if is_valueerror e then Inr (Inl (exn_str e)) else Inl e)
       | Inr h \<Rightarrow> read_headers u s' (hs @ [h]))"
  by pat_completeness auto
termination
  by (relation "measure (\<lambda>(u, s, hs). length (pending s))") (auto dest: readline_shorter)

declare read_headers.simps [simp del]

definition forward_methods :: "pystr set" where
  "forward_methods = {''GET'', ''HEAD'', ''POST'', ''PUT'', ''PATCH'', ''DELETE'', ''OPTIONS''}"

text \<open>The request line: verb and target, nothing when the connection is to be closed without
  an answer, or the text of the 400 answer.\<close>

definition parse_request_line :: "codec \<Rightarrow> bytes \<Rightarrow> pystr + (pystr \<times> pystr) option" where
  "parse_request_line u line =
     (if line = [] then Inr None
      else if \<not> ends_with line CRLF then Inl ''HTTP request line must end with CRLF.''
      else let request = py_strip (decode_utf8 u line)
      in if request = [] then Inr None
         else case py_split request of
           [verb, target, version] \<Rightarrow>
             (if version \<in> {''HTTP/1.0'', ''HTTP/1.1''} then Inr (Some (py_upper verb, target))
              else Inl ''Bad proxy request.'')
         | _ \<Rightarrow> Inl ''Bad proxy request.'')"

definition serve ::
  "codec \<Rightarrow> config \<Rightarrow> net \<Rightarrow> net \<Rightarrow> pystr option \<Rightarrow> istream \<Rightarrow> (ev, outcome) io" where
  "serve u c nv nc peer client =
     io_bind (io_lift (allowed_client_reason c nv peer)) (\<lambda>rejection.
       if rejection \<noteq> None
       then answer (write_text_response ''403'' ''Forbidden'' ''This policy listener accepts only its configured bridge.'')
       else io_bind (io_lift (timed (readline client))) (\<lambda>(line, s1).
         case parse_request_line u line of
           Inl message \<Rightarrow> answer (bad_request message)
         | Inr None \<Rightarrow> io_ret Unanswered
         | Inr (Some (verb, target)) \<Rightarrow>
             io_bind (io_lift (read_headers u s1 [])) (\<lambda>h. case h of
               Inl message \<Rightarrow> answer (bad_request message)
             | Inr (hs, s2) \<Rightarrow>
                 (case parse_request_framing hs of
                    Inl e \<Rightarrow> (if is_valueerror e then answer (bad_request (exn_str e)) else io_raise e)
                  | Inr _ \<Rightarrow>
                      (if verb = ''CONNECT'' then handle_connect u c nv nc target s2
                       else if verb \<in> forward_methods then handle_forward_http u c nv nc verb target hs s2
                       else answer (write_text_response ''405'' ''Method Not Allowed''
                              ''HTTP proxy method is not allowed by this wrapper.''))))))"

text \<open>\<open>handle_request\<close>: every exception ends the request without a further answer, and the
  client connection is closed unless a tunnel took it over.\<close>

definition handle_request ::
  "codec \<Rightarrow> config \<Rightarrow> net \<Rightarrow> net \<Rightarrow> pystr option \<Rightarrow> istream \<Rightarrow> (ev, outcome) io" where
  "handle_request u c nv nc peer client =
     io_bind (io_catch (serve u c nv nc peer client) any_exception (\<lambda>_. io_ret Unanswered)) (\<lambda>r.
       case r of
         Tunnelled a b \<Rightarrow> io_ret (Tunnelled a b)
       | _ \<Rightarrow> io_bind (io_emit [CloseClient]) (\<lambda>_. io_ret r))"

section \<open>Which connections are opened\<close>

fun dials_ok :: "(pystr \<Rightarrow> int \<Rightarrow> pystr option \<Rightarrow> bool) \<Rightarrow> (pystr \<Rightarrow> bool) \<Rightarrow> ev \<Rightarrow> bool" where
  "dials_ok P Q (Dial a p sni) = P a p sni"
| "dials_ok P Q (DialUnix path) = Q path"
| "dials_ok P Q _ = True"

named_theorems quiet "computations that open no connection"

lemma quiet_close [quiet]: "io_all (dials_ok P Q) (close_raise e)" "io_all (dials_ok P Q) (conn_error m)"
  by (auto simp: close_raise_def conn_error_def)

lemma quiet_send [quiet]: "io_all (dials_ok P Q) (send_up b)" "io_all (dials_ok P Q) (send_client b)"
  "io_all (dials_ok P Q) (write_text_response c r t)" "io_all (dials_ok P Q) (bad_request t)"
  by (auto simp: send_up_def send_client_def write_text_response_def bad_request_def)

lemma quiet_socks_read [quiet]: "io_all (dials_ok P Q) (socks_read s k)"
  by (auto simp: socks_read_def intro!: io_rules quiet)

lemma quiet_socks_auth [quiet]: "io_all (dials_ok P Q) (socks_auth user pass s)"
  unfolding socks_auth_def Let_def by (intro io_rules quiet)

lemma quiet_socks_reply [quiet]: "io_all (dials_ok P Q) (socks_reply s)"
  unfolding socks_reply_def by (intro io_rules quiet)

lemma quiet_socks5 [quiet]: "io_all (dials_ok P Q) (socks5_connect u s h p user pass)"
  unfolding socks5_connect_def by (intro io_rules quiet)

lemma quiet_fixed [quiet]: "io_all (dials_ok P Q) (forward_fixed n s)"
proof (induction n s rule: forward_fixed.induct)
  case (1 n s)
  show ?case
    by (subst forward_fixed.simps) (auto simp: send_up_def intro!: io_rules "1.IH")
qed

lemma quiet_trailers [quiet]: "io_all (dials_ok P Q) (forward_trailers u s)"
proof (induction u s rule: forward_trailers.induct)
  case (1 u s)
  show ?case
    by (subst forward_trailers.simps) (auto simp: send_up_def intro!: io_rules "1.IH")
qed

lemma quiet_chunks [quiet]: "io_all (dials_ok P Q) (forward_chunks u s)"
proof (induction u s rule: forward_chunks.induct)
  case (1 u s)
  show ?case
    by (subst forward_chunks.simps) (auto simp: send_up_def intro!: io_rules quiet "1.IH" split: option.splits)
qed

lemma quiet_body [quiet]: "io_all (dials_ok P Q) (forward_request_body u s cl codings)"
  unfolding forward_request_body_def by (intro io_rules quiet)

lemma quiet_pipe [quiet]:
  "dials_ok P Q c \<Longrightarrow> (\<And>b. dials_ok P Q (w b)) \<Longrightarrow> io_all (dials_ok P Q) (pipe w c s)"
proof (induction w c s rule: pipe.induct)
  case (1 w c s)
  show ?case
    by (subst pipe.simps) (auto simp: 1 intro!: io_rules "1.IH" split: sum.splits)
qed

lemma dial_any_dials:
  "(\<And>a. a \<in> set as \<Longrightarrow> P a p sni) \<Longrightarrow> io_all (dials_ok P Q) (dial_any n p sni fs as)"
  by (induction as arbitrary: fs) (auto simp: dial_def intro!: io_rules)

lemma open_direct_dials:
  "(\<And>a. a \<in> set ips \<Longrightarrow> P a p None) \<Longrightarrow> io_all (dials_ok P Q) (open_validated_direct n ips p)"
  unfolding open_validated_direct_def by (auto intro!: io_rules dial_any_dials split: sum.splits)

text \<open>An address of the configured upstream proxy, resolved when the connection is made.\<close>

definition upstream_address :: "codec \<Rightarrow> config \<Rightarrow> net \<Rightarrow> pystr \<Rightarrow> int \<Rightarrow> bool" where
  "upstream_address u c n a q \<longleftrightarrow>
     (\<exists>up addrs. upstream_proxy c \<noteq> [] \<and> parse_proxy_url u (upstream_proxy c) = Inr up \<and> q = up_port up
        \<and> resolve_configured_endpoint u c n (up_host up) (up_port up) ''configured upstream proxy endpoint'' = Inr addrs
        \<and> a \<in> set addrs)"

lemma open_proxy_dials:
  assumes "upstream_proxy c \<noteq> []" "parse_proxy_url u (upstream_proxy c) = Inr up"
    and "\<And>a q sni. upstream_address u c n a q \<Longrightarrow> P a q sni"
  shows "io_all (dials_ok P Q) (open_http_proxy_connection u c n (up_host up) (up_port up) scheme)"
  unfolding open_http_proxy_connection_def
  using assms by (auto intro!: io_rules dial_any_dials simp: upstream_address_def split: sum.splits)

lemma connect_dials:
  assumes "\<And>a. a \<in> set ips \<Longrightarrow> P a p None"
    and "\<And>a q sni. upstream_address u c n a q \<Longrightarrow> P a q sni" and "tor_socks c \<noteq> [] \<Longrightarrow> Q (tor_socks c)"
  shows "io_all (dials_ok P Q) (connect_via_upstream u c n host p ips)"
proof -
  have tor: "tor_socks c \<noteq> [] \<Longrightarrow> io_all (dials_ok P Q) (dial_tor c n)"
    unfolding dial_tor_def using assms(3) by (auto intro!: io_rules)
  note proxy = open_proxy_dials [of c u _ n P Q, OF _ _ assms(2)]
  have socks: "io_all (dials_ok P Q) (connect_via_socks5 u c n up host p)"
    and http: "io_all (dials_ok P Q) (connect_via_http_connect u c n up host p)"
    if "upstream_proxy c \<noteq> []" "parse_proxy_url u (upstream_proxy c) = Inr up" for up
    unfolding connect_via_socks5_def connect_via_http_connect_def Let_def
    using proxy [OF that] by (intro io_rules quiet; simp)+
  have direct: "io_all (dials_ok P Q) (open_validated_direct n ips p)"
    using assms(1) by (rule open_direct_dials)
  show ?thesis
    unfolding connect_via_upstream_def
    using tor socks http direct by (auto intro!: io_rules quiet)
qed

lemma plain_forward_dials:
  assumes "\<And>a. a \<in> set ips \<Longrightarrow> P a p None"
    and "\<And>a q sni. upstream_address u c n a q \<Longrightarrow> P a q sni" and "tor_socks c \<noteq> [] \<Longrightarrow> Q (tor_socks c)"
  shows "io_all (dials_ok P Q) (open_plain_http_forward u c n host p ips)"
proof -
  note proxy = open_proxy_dials [of c u _ n P Q, OF _ _ assms(2)]
  have socks: "io_all (dials_ok P Q) (connect_via_socks5 u c n up host p)"
    if "upstream_proxy c \<noteq> []" "parse_proxy_url u (upstream_proxy c) = Inr up" for up
    unfolding connect_via_socks5_def using proxy [OF that] by (intro io_rules quiet; simp)+
  have direct: "io_all (dials_ok P Q) (open_validated_direct n ips p)"
    using assms(1) by (rule open_direct_dials)
  have via: "io_all (dials_ok P Q) (connect_via_upstream u c n host p ips)"
    by (rule connect_dials) (use assms in auto)
  show ?thesis
    unfolding open_plain_http_forward_def
    using proxy socks direct via
    by (auto intro!: io_rules)
qed


text \<open>What the handlers may dial: an address the decision pinned for that port, or the
  upstream proxy.\<close>

definition pinned_dial :: "codec \<Rightarrow> config \<Rightarrow> net \<Rightarrow> net \<Rightarrow> pystr \<Rightarrow> int \<Rightarrow> pystr option \<Rightarrow> bool" where
  "pinned_dial u c nv nc a q sni \<longleftrightarrow>
     (sni = None \<and> (\<exists>host ips. validate_destination u c nv host q = Inr (None, ips) \<and> a \<in> set ips))
     \<or> upstream_address u c nc a q"

abbreviation handler_dials :: "codec \<Rightarrow> config \<Rightarrow> net \<Rightarrow> net \<Rightarrow> ev \<Rightarrow> bool" where
  "handler_dials u c nv nc \<equiv> dials_ok (pinned_dial u c nv nc) (\<lambda>path. tor_socks c \<noteq> [] \<and> path = tor_socks c)"

lemma reject_quiet [quiet]: "io_all (dials_ok P Q) (reject_blocked_destination u c n host p)"
  unfolding reject_blocked_destination_def by (intro io_rules quiet)

lemma docker_error_text:
  "resolve_exact_docker_host u c n h p = Inl e \<Longrightarrow> is_connectionerror e \<Longrightarrow> exn_str e \<noteq> []"
  by (cases e) (auto simp: resolve_exact_docker_host_def rbind_Inl_iff rcatch_def system_resolver_error_def
      split: if_splits sum.splits)

lemma configured_error_text:
  "resolve_configured_endpoint u c n h p s = Inl e \<Longrightarrow> is_connectionerror e \<Longrightarrow> exn_str e \<noteq> []"
  by (cases e) (auto simp: resolve_configured_endpoint_def Let_def rbind_Inl_iff rcatch_def target_resolver_error_def
      system_resolver_error_def split: if_splits sum.splits option.splits dest!: docker_error_text)

lemma ip_block_reason_text: "ip_block_reason t = Some r \<Longrightarrow> r \<noteq> []"
  by (auto simp: ip_block_reason_def split: option.splits if_splits)

lemma hostname_block_reason_text: "hostname_block_reason u c t = Some r \<Longrightarrow> r \<noteq> []"
  by (auto simp: hostname_block_reason_def Let_def split: if_splits)

lemma validate_literal_text: "validate_literal u c n h p = Inr (Some r, ips) \<Longrightarrow> r \<noteq> [] \<and> ips = []"
  by (auto simp: validate_literal_def validate_name_def validate_resolved_def pinned_def blocked_def
      split: if_splits sum.splits option.splits dest: ip_block_reason_text hostname_block_reason_text)

lemma validate_reason_text:
  "validate_destination u c n host p = Inr (Some r, ips) \<Longrightarrow> r \<noteq> [] \<and> ips = []"
  by (auto simp: validate_destination_def Let_def blocked_def pinned_def or_block_def rcatch_def
        resolve_configured_embedding_destination_def rbind_Inl_iff rbind_Inr_iff
        split: if_splits sum.splits option.splits
        dest: docker_error_text configured_error_text validate_literal_text)

lemma reject_pass:
  assumes "snd (reject_blocked_destination u c n host p) = Inr (Some ips)"
  shows "validate_destination u c n host p = Inr (None, ips)"
proof -
  from assms obtain reason ips' where v: "validate_destination u c n host p = Inr (reason, ips')"
    by (auto simp: reject_blocked_destination_def snd_io_bind rbind_Inr_iff)
  with assms validate_reason_text [of u c n host p] show ?thesis
    by (cases reason) (auto simp: reject_blocked_destination_def snd_io_bind send_client_def split: if_splits)
qed

lemma handle_connect_dials: "io_all (handler_dials u c nv nc) (handle_connect u c nv nc target client)"
proof -
  have "io_all (handler_dials u c nv nc) (connect_via_upstream u c nc host p ips)"
    if "snd (reject_blocked_destination u c nv host p) = Inr (Some ips)" for host p ips
    by (rule connect_dials) (use reject_pass [OF that] in \<open>auto simp: pinned_dial_def\<close>)
  then show ?thesis
    unfolding handle_connect_def answer_def
    by (intro io_rules quiet; simp)
qed

lemma forward_exchange_dials:
  assumes "validate_destination u c nv host p = Inr (None, ips)"
  shows "io_all (handler_dials u c nv nc) (forward_exchange u c nc verb hs host p use_tls path ips client)"
proof -
  have c1: "io_all (handler_dials u c nv nc) (connect_via_upstream u c nc host p ips)"
    by (rule connect_dials) (use assms in \<open>auto simp: pinned_dial_def\<close>)
  then have c2: "io_all (handler_dials u c nv nc) (open_origin_connection u c nc host p use_tls ips)"
    unfolding open_origin_connection_def by (intro io_rules quiet; simp)
  have c3: "io_all (handler_dials u c nv nc) (open_plain_http_forward u c nc host p ips)"
    by (rule plain_forward_dials) (use assms in \<open>auto simp: pinned_dial_def\<close>)
  show ?thesis
    unfolding forward_exchange_def open_forward_def by (intro io_rules quiet c2 c3; simp)
qed

lemma handle_forward_dials: "io_all (handler_dials u c nv nc) (handle_forward_http u c nv nc verb target hs client)"
  unfolding handle_forward_http_def answer_def
  by (intro io_rules quiet forward_exchange_dials reject_pass; simp)

lemma handle_request_dials: "io_all (handler_dials u c nv nc) (handle_request u c nv nc peer client)"
proof -
  have "io_all (handler_dials u c nv nc) (serve u c nv nc peer client)"
    unfolding serve_def answer_def
    by (intro io_rules quiet handle_connect_dials handle_forward_dials; simp)
  then show ?thesis
    unfolding handle_request_def by (auto intro!: io_rules split: outcome.splits)
qed

section \<open>Properties of the handlers\<close>

definition bytes_stream :: "bytes \<Rightarrow> istream" where
  "bytes_stream b = \<lparr>pending = b, ending = Silent\<rparr>"

definition connect_sample :: bytes where
  "connect_sample = ''CONNECT 1.1.1.1:443 HTTP/1.1'' @ CRLF @ CRLF"

lemma connect_sample_dials:
  "Dial ''1.1.1.1'' 443 None
     \<in> set (fst (handle_request ascii_codec sample_config offline offline (Some ''127.0.0.1'') (bytes_stream connect_sample)))"
  by code_simp

text \<open>
  C2 (safety). Whatever a client sends, every TCP connection the proxy opens goes to an
  address that the decision for that very port pinned, without a second resolution, or to
  the configured upstream proxy; the outside world may change between decision and dial.
\<close>

theorem request_dials_pinned:
  assumes "Dial a q sni \<in> set (fst (handle_request u c nv nc peer client))"
  shows "(sni = None \<and> (\<exists>host ips. validate_destination u c nv host q = Inr (None, ips) \<and> a \<in> set ips))
    \<or> upstream_address u c nc a q"
  using io_allD [OF handle_request_dials assms] by (simp add: pinned_dial_def)

lemma request_dials_pinned_witness:
  "(\<exists>host ips. validate_destination ascii_codec sample_config offline host 443 = Inr (None, ips) \<and> ''1.1.1.1'' \<in> set ips)
    \<or> upstream_address ascii_codec sample_config offline ''1.1.1.1'' 443"
  using request_dials_pinned [OF connect_sample_dials] by blast

text \<open>
  Started on the public route without an upstream proxy, from any environment,
  the proxy opens TCP connections to public addresses only.
\<close>

theorem public_request_dials_public:
  assumes "load_config u env = Inr c" and "route c = PublicRoute" and "upstream_proxy c = []"
    and "vpn_enabled c \<or> address_texts nv"
    and "Dial a q sni \<in> set (fst (handle_request u c nv nc peer client))"
  shows "public_address a \<and> valid_port q \<and> sni = None"
proof -
  have ok: "config_ok c" using assms(1) by (rule load_config_ok)
  have "\<not> upstream_address u c nc a q" using assms(3) by (simp add: upstream_address_def)
  then obtain host ips where v: "sni = None" "validate_destination u c nv host q = Inr (None, ips)" "a \<in> set ips"
    using io_allD [OF handle_request_dials assms(5)] by (auto simp: pinned_dial_def)
  with validate_destination_facts [OF v(2) assms(4)] public_config_no_grant(4) [OF ok assms(2)]
  show ?thesis by blast
qed

lemma public_request_dials_public_witness:
  "public_address ''1.1.1.1'' \<and> valid_port 443"
  using public_request_dials_public [OF load_sample _ _ _ connect_sample_dials] by simp

section \<open>Every request ends\<close>

text \<open>The head of a request went to the origin or to the upstream proxy.\<close>

definition head_forwarded :: "ev list \<Rightarrow> bool" where
  "head_forwarded es \<longleftrightarrow> (\<exists>verb target hs host p use_tls content_length codings auth.
     SendUp (encode_utf8 (forward_head verb target hs host p use_tls content_length codings auth)) \<in> set es)"

definition replied :: "ev list \<Rightarrow> bool" where
  "replied es \<longleftrightarrow> (\<exists>b. SendClient b \<in> set es) \<or> head_forwarded es"

text \<open>What a handler returns fits what it sent; \<open>B\<close> excuses an outcome without an answer.\<close>

fun reply_fits :: "bool \<Rightarrow> ev list \<Rightarrow> outcome \<Rightarrow> bool" where
  "reply_fits B es Answered \<longleftrightarrow> replied es"
| "reply_fits B es Unanswered \<longleftrightarrow> B"
| "reply_fits B es (Tunnelled a b) \<longleftrightarrow> (\<exists>x. SendClient x \<in> set es)"

definition answers_all :: "bool \<Rightarrow> (ev, outcome) io \<Rightarrow> bool" where
  "answers_all B m \<longleftrightarrow> (\<forall>r. snd m = Inr r \<longrightarrow> reply_fits B (fst m) r)"

lemma replied_append: "replied es \<or> replied es' \<Longrightarrow> replied (es @ es')"
  by (auto simp: replied_def head_forwarded_def)

lemma reply_fits_append: "reply_fits B es' r \<Longrightarrow> reply_fits B (es @ es') r"
  by (cases r) (auto simp: replied_append)

lemma answers_bind: "(\<And>x. snd m = Inr x \<Longrightarrow> answers_all B (f x)) \<Longrightarrow> answers_all B (io_bind m f)"
  by (auto simp: answers_all_def snd_io_bind fst_io_bind rbind_Inr_iff intro: reply_fits_append)

lemma write_text_response_eq: "write_text_response code reason t = ([SendClient (text_response code reason t)], Inr ())"
  by (simp add: write_text_response_def send_client_def io_emit_def)

lemma send_client_eq: "send_client b = ([SendClient b], Inr ())"
  by (simp add: send_client_def io_emit_def)

lemma replied_sent: "SendClient b \<in> set es \<Longrightarrow> replied es"
  by (auto simp: replied_def)

lemma answers_text [simp]: "answers_all B (answer (write_text_response code reason t))" "answers_all B (answer (bad_request t))"
  by (auto simp: answers_all_def answer_def bad_request_def write_text_response_eq io_bind_def io_ret_def replied_def)

lemma answers_raise [simp]: "answers_all B (io_raise e)"
  by (simp add: answers_all_def)

lemma answers_if: "(b \<Longrightarrow> answers_all B m) \<Longrightarrow> (\<not> b \<Longrightarrow> answers_all B m') \<Longrightarrow> answers_all B (if b then m else m')"
  by simp

lemma rejection_replies:
  assumes "snd (reject_blocked_destination u c n host p) = Inr None"
  shows "replied (fst (reject_blocked_destination u c n host p))"
proof (cases "validate_destination u c n host p")
  case (Inr r)
  then show ?thesis using assms
    by (cases r) (auto simp: reject_blocked_destination_def snd_io_bind fst_io_bind send_client_eq
      intro: replied_sent split: if_splits option.splits)
qed (use assms in \<open>simp add: reject_blocked_destination_def\<close>)

lemma answers_verdict:
  assumes "\<And>ips. answers_all B (f ips)"
  shows "answers_all B (io_bind (reject_blocked_destination u c n host p)
    (\<lambda>v. case v of None \<Rightarrow> io_ret Answered | Some ips \<Rightarrow> f ips))"
proof (cases "snd (reject_blocked_destination u c n host p) = Inr None")
  case True
  then show ?thesis using rejection_replies [OF True] by (simp add: answers_all_def snd_io_bind fst_io_bind)
next
  case False
  then show ?thesis by (intro answers_bind) (auto simp: assms split: option.splits)
qed

lemma exchange_forwards:
  assumes "snd (forward_exchange u c n verb hs host p use_tls path ips client) = Inr ()"
  shows "head_forwarded (fst (forward_exchange u c n verb hs host p use_tls path ips client))"
  using assms unfolding head_forwarded_def forward_exchange_def
  by (auto simp: snd_io_bind fst_io_bind rbind_Inr_iff send_up_def split: prod.splits) blast

lemma connect_answers: "answers_all B (handle_connect u c nv nc target client)"
proof -
  have "answers_all B (io_bind (io_catch (io_bind (connect_via_upstream u c nc host p ips) (\<lambda>s. io_ret (Some s))) any_exception
      (\<lambda>e. io_bind (write_text_response ''502'' ''Bad Gateway'' (''Failed to establish upstream tunnel: '' @ exn_str e)) (\<lambda>_. io_ret None)))
    (\<lambda>r. case r of None \<Rightarrow> io_ret Answered
       | Some upstream \<Rightarrow> io_bind (send_client (''HTTP/1.1 200 Connection Established'' @ CRLF @ CRLF))
            (\<lambda>_. io_ret (Tunnelled client upstream))))" for host p ips
    by (cases "connect_via_upstream u c nc host p ips", cases "snd (connect_via_upstream u c nc host p ips)")
      (auto simp: answers_all_def replied_def io_bind_def io_catch_def io_ret_def send_client_eq write_text_response_eq)
  note tunnel = this
  show ?thesis
  proof (cases "parse_authority target 443")
    case (Inr r)
    obtain host p where "r = (host, p)" by (cases r)
    then show ?thesis unfolding handle_connect_def Inr sum.case prod.case
      by (simp only: prod.case) (intro answers_verdict answers_if answers_text tunnel)
  qed (simp add: handle_connect_def)
qed

lemma forward_answers: "answers_all B (handle_forward_http u c nv nc verb target hs client)"
proof -
  have "answers_all B (answer (io_catch (forward_exchange u c nc verb hs host p use_tls path ips client) any_exception
      (\<lambda>e. write_text_response ''502'' ''Bad Gateway'' (''HTTP proxy forwarding failed: '' @ exn_str e))))"
    for host p use_tls path ips
    using exchange_forwards [of u c nc verb hs host p use_tls path ips client]
    by (cases "forward_exchange u c nc verb hs host p use_tls path ips client",
        cases "snd (forward_exchange u c nc verb hs host p use_tls path ips client)")
      (auto simp: answers_all_def replied_def answer_def io_bind_def io_catch_def io_ret_def write_text_response_eq)
  then show ?thesis
    unfolding handle_forward_http_def
    by (intro answers_bind) (auto intro!: answers_verdict split: sum.splits)
qed

text \<open>The client sent no request line, or an empty one.\<close>

definition blank_request :: "codec \<Rightarrow> istream \<Rightarrow> bool" where
  "blank_request u client \<longleftrightarrow> (\<exists>line rest. readline client = Inr (line, rest) \<and> parse_request_line u line = Inr None)"

lemma serve_answers: "answers_all (blank_request u client) (serve u c nv nc peer client)"
proof -
  have blank: "answers_all (blank_request u client) (io_ret Unanswered)"
    if "readline client = Inr (line, rest)" "parse_request_line u line = Inr None" for line rest
    using that by (auto simp: answers_all_def blank_request_def)
  show ?thesis unfolding serve_def
    by (intro answers_bind) (auto intro!: answers_bind connect_answers forward_answers intro: blank split: sum.splits option.splits)
qed

text \<open>
  C6 (error). Every request ends in one of four ways. It is answered: the proxy sent the client a response, or the head
  of its request was forwarded, so that the answer is the origin's; its connection is closed last. It is left
  without an answer, and its connection is closed last, only if its request line is missing or blank or an
  exception left the handler. It becomes a tunnel, after the client was told so. Or it waits for a peer that
  stays silent on a read without a time limit.
\<close>

theorem request_ends:
  "case snd (handle_request u c nv nc peer client) of
     Inr Answered \<Rightarrow> replied (fst (handle_request u c nv nc peer client)) \<and>
       (\<exists>es. fst (handle_request u c nv nc peer client) = es @ [CloseClient])
   | Inr Unanswered \<Rightarrow> (blank_request u client \<or> (\<exists>e. snd (serve u c nv nc peer client) = Inl e)) \<and>
       (\<exists>es. fst (handle_request u c nv nc peer client) = es @ [CloseClient])
   | Inr (Tunnelled a b) \<Rightarrow> (\<exists>x. SendClient x \<in> set (fst (handle_request u c nv nc peer client)))
   | Inl e \<Rightarrow> e = Stalled"
proof (cases "snd (serve u c nv nc peer client)")
  case (Inl e)
  then show ?thesis
    by (cases "serve u c nv nc peer client")
      (auto simp: handle_request_def io_bind_def io_catch_def io_emit_def io_ret_def any_exception_def)
next
  case (Inr r)
  with serve_answers [of u client c nv nc peer] have "reply_fits (blank_request u client) (fst (serve u c nv nc peer client)) r"
    by (simp add: answers_all_def)
  with Inr show ?thesis
    by (cases "serve u c nv nc peer client"; cases r)
      (auto simp: handle_request_def io_bind_def io_catch_def io_emit_def io_ret_def replied_append)
qed

lemma allowed_ips_sound:
  assumes "\<And>h e. n_getaddrinfo n h p = Inl e \<Longrightarrow> is_oserror e"
    and "\<And>h xs. h \<in> set hosts \<Longrightarrow> n_getaddrinfo n h p = Inr xs \<Longrightarrow> t \<notin> set xs"
  shows "\<exists>ips. allowed_ips n p hosts = Inr ips \<and> t \<notin> set ips"
  using assms(2)
proof (induction hosts)
  case (Cons h hosts)
  then obtain ips where ips: "allowed_ips n p hosts = Inr ips" "t \<notin> set ips" by auto
  show ?case
  proof (cases "n_getaddrinfo n h p")
    case (Inl e)
    with assms(1) ips show ?thesis by (auto simp: resolve_system_host_def rcatch_def)
  next
    case (Inr xs)
    with Cons.prems [of h xs] ips show ?thesis by (auto simp: resolve_system_host_def)
  qed
qed simp

text \<open>
  A client that is neither on loopback nor one of the addresses the allowed
  bridge names resolve to gets one 403 answer and nothing else happens: its request is not
  even read.
\<close>

theorem foreign_client_refused:
  assumes "ip_address (fst (partition_c (CHR ''%'') t)) = Some a" and "\<not> is_loopback a"
    and "\<And>h e. n_getaddrinfo nv h (listen_port c) = Inl e \<Longrightarrow> is_oserror e"
    and "\<And>h xs. h \<in> set (client_hosts c) \<Longrightarrow> n_getaddrinfo nv h (listen_port c) = Inr xs
           \<Longrightarrow> fst (partition_c (CHR ''%'') t) \<notin> set xs"
  shows "handle_request u c nv nc (Some t) client
    = ([SendClient (text_response ''403'' ''Forbidden'' ''This policy listener accepts only its configured bridge.''),
        CloseClient], Inr Answered)"
proof -
  obtain ips where ips: "allowed_ips nv (listen_port c) (client_hosts c) = Inr ips"
    "fst (partition_c (CHR ''%'') t) \<notin> set ips"
    using allowed_ips_sound [of nv "listen_port c" "client_hosts c" "fst (partition_c (CHR ''%'') t)"] assms(3,4) by blast
  have "\<exists>r. allowed_client_reason c nv (Some t) = Inr (Some r)"
    using assms(1,2) ips by (simp add: allowed_client_reason_def Let_def)
  then obtain r where r: "allowed_client_reason c nv (Some t) = Inr (Some r)" by blast
  show ?thesis
    by (simp add: handle_request_def serve_def r answer_def write_text_response_def send_client_def
      io_emit_def io_bind_def io_catch_def io_ret_def)
qed

lemma foreign_client_refused_witness:
  "handle_request ascii_codec (sample_config\<lparr>client_hosts := [''bridge'']\<rparr>) (resolving [''172.20.0.5'']) offline
     (Some ''172.20.0.9'') (bytes_stream connect_sample)
   = ([SendClient (text_response ''403'' ''Forbidden'' ''This policy listener accepts only its configured bridge.''),
       CloseClient], Inr Answered)"
proof -
  have "ip_address (fst (partition_c (CHR ''%'') ''172.20.0.9'')) = Some (V4 (v4 172 20 0 9))"
    "\<not> is_loopback (V4 (v4 172 20 0 9))" by code_simp+
  moreover have "fst (partition_c (CHR ''%'') ''172.20.0.9'') \<noteq> ''172.20.0.5''" by code_simp
  ultimately show ?thesis
    by (intro foreign_client_refused) (auto simp: resolving_def sample_config_def)
qed

text \<open>
  A refused CONNECT writes the refusal, opens nothing and sends nothing
  upstream.
\<close>

theorem refused_connect:
  assumes "parse_authority target 443 = Inr (host, p)"
    and "validate_destination u c nv host p = Inr (Some r, ips)"
  shows "handle_connect u c nv nc target client = ([SendClient (refusal r)], Inr Answered)"
  using assms validate_reason_text [OF assms(2)]
  by (simp add: handle_connect_def reject_blocked_destination_def send_client_def
      io_emit_def io_bind_def io_ret_def io_lift_def)

lemma refused_connect_witness:
  "handle_connect ascii_codec sample_config offline offline ''localhost:443'' (bytes_stream [])
    = ([SendClient (''HTTP/1.1 403 Forbidden'' @ CRLF @ CRLF)], Inr Answered)"
proof -
  have a: "parse_authority ''localhost:443'' 443 = Inr (''localhost'', 443)" by code_simp
  have b: "validate_destination ascii_codec sample_config offline ''localhost'' 443 = Inr (Some ''blocked internal hostname'', [])"
    by code_simp
  have c: "refusal ''blocked internal hostname'' = ''HTTP/1.1 403 Forbidden'' @ CRLF @ CRLF" by code_simp
  show ?thesis using refused_connect [OF a b] unfolding c .
qed

end
