(* ===== verification/Egress_Relay.thy ===== *)
theory Egress_Relay
  imports Egress_Proxy
begin

text \<open>
  What the proxy relays (egress/final_hop_proxy.py): the pipe, a whole forwarded exchange, the
  absence of cleartext before TLS, the SOCKS5 request as a server reads it and the head of a
  forwarded request.
\<close>

section \<open>Relaying in full\<close>

lemma pipe_client:
  "snd (pipe SendClient CloseClient s) = (if ending s = Silent then Inl Stalled else Inr ())
   \<and> client_bytes (fst (pipe SendClient CloseClient s)) = pending s
   \<and> up_bytes (fst (pipe SendClient CloseClient s)) = []"
proof (induction SendClient CloseClient s rule: pipe.induct)
  case (1 s)
  note unfold = pipe.simps [of SendClient CloseClient s]
  show ?case
  proof (cases "read_some tunnel_buffer s")
    case (Inl e)
    then have "pending s = []" "ending s \<noteq> Eof" "e = end_exn (ending s)"
      by (auto simp: read_some_def split: if_splits)
    with Inl show ?thesis by (cases "ending s") (auto simp: unfold)
  next
    case (Inr r)
    obtain d s1 where r: "r = (d, s1)" by fastforce
    with Inr have split: "pending s = d @ pending s1" "ending s1 = ending s" using read_some_split by auto
    show ?thesis
    proof (cases "d = []")
      case True
      with Inr r have "pending s = []" "ending s = Eof"
        by (auto simp: read_some_def tunnel_buffer_def split: if_splits)
      with Inr r True show ?thesis by (simp add: unfold)
    next
      case False
      with Inr r have "fst (pipe SendClient CloseClient s) = SendClient d # fst (pipe SendClient CloseClient s1)"
        "snd (pipe SendClient CloseClient s) = snd (pipe SendClient CloseClient s1)"
        by (simp_all add: unfold snd_io_bind fst_io_bind)
      with "1.hyps" [OF Inr [unfolded r] refl False] split show ?thesis by simp
    qed
  qed
qed
definition conn_event :: "ev \<Rightarrow> bool" where
  "conn_event e \<longleftrightarrow> (\<forall>b. e \<noteq> SendUp b \<and> e \<noteq> SendClient b)"

lemma conn_events_silent: "list_all conn_event es \<Longrightarrow> up_bytes es = [] \<and> client_bytes es = []"
proof (induction es)
  case (Cons e es)
  then show ?case by (cases e) (auto simp: conn_event_def)
qed simp

lemma body_sends_up: "io_all (\<lambda>e. \<exists>b. e = SendUp b) (forward_request_body u s cl codings)"
proof -
  let ?P = "\<lambda>e. \<exists>b. e = SendUp b"
  have send: "io_all ?P (send_up b)" for b by (simp add: send_up_def)
  have fixed: "io_all ?P (forward_fixed n s)" for n s
  proof (induction n s rule: forward_fixed.induct)
    case (1 n s)
    show ?case by (subst forward_fixed.simps) (auto simp: send intro!: io_rules "1.IH")
  qed
  have trailers: "io_all ?P (forward_trailers u s)" for u s
  proof (induction u s rule: forward_trailers.induct)
    case (1 u s)
    show ?case by (subst forward_trailers.simps) (auto simp: send intro!: io_rules "1.IH")
  qed
  have "io_all ?P (forward_chunks u s)" for s
  proof (induction u s rule: forward_chunks.induct)
    case (1 u s)
    show ?case
      by (subst forward_chunks.simps) (auto simp: send fixed trailers intro!: io_rules "1.IH" split: option.splits)
  qed
  then show ?thesis unfolding forward_request_body_def by (auto simp: fixed split: option.splits)
qed

lemma body_no_client: "client_bytes (fst (forward_request_body u s cl codings)) = []"
proof -
  have "list_all (\<lambda>e. \<exists>b. e = SendUp b) es \<Longrightarrow> client_bytes es = []" for es
    by (induction es) auto
  with body_sends_up show ?thesis by (simp add: io_all_def)
qed

lemma dial_any_conn: "io_all conn_event (dial_any n p sni fs as)"
  by (induction as arbitrary: fs) (auto simp: dial_def conn_event_def intro!: io_rules)

lemma dial_any_result: "snd (dial_any n p sni fs as) = Inr (Inl s) \<Longrightarrow> \<exists>a \<in> set as. n_dial n a p sni = Inr s"
  by (induction as arbitrary: fs)
     (auto simp: dial_def snd_io_catch snd_io_bind rcatch_def rbind_Inr_iff split: sum.splits if_splits)

lemma direct_conn: "io_all conn_event (open_validated_direct n ips p)"
  unfolding open_validated_direct_def by (auto intro!: io_rules dial_any_conn split: sum.splits)

lemma direct_result:
  assumes "snd (open_validated_direct n ips p) = Inr s"
  shows "\<exists>a \<in> set ips. n_dial n a p None = Inr s"
proof -
  from assms obtain r where r: "snd (dial_any n p None [] ips) = Inr r"
    by (auto simp: open_validated_direct_def snd_io_bind rbind_Inr_iff split: if_splits)
  with assms show ?thesis
    by (cases r) (auto simp: open_validated_direct_def snd_io_bind split: if_splits dest: dial_any_result)
qed

lemma connect_direct:
  "upstream_proxy c = [] \<Longrightarrow> tor_socks c = [] \<Longrightarrow> connect_via_upstream u c n host p ips = open_validated_direct n ips p"
  by (simp add: connect_via_upstream_def)

text \<open>The connection part of an exchange.\<close>

lemma open_forward_direct:
  assumes "upstream_proxy c = []" "tor_socks c = []"
  shows "io_all conn_event (open_forward u c n host p use_tls path ips)"
    and "snd (open_forward u c n host p use_tls path ips) = Inr (s, target, auth) \<Longrightarrow> target = path \<and> auth = None
      \<and> (if use_tls then n_tls n host = Inr s \<and> StartTls host \<in> set (fst (open_forward u c n host p use_tls path ips))
         else \<exists>a \<in> set ips. n_dial n a p None = Inr s)"
proof -
  note direct = connect_direct [OF assms]
  have plain: "open_plain_http_forward u c n host p ips = io_bind (open_validated_direct n ips p) (\<lambda>s. io_ret (s, False))"
    using assms by (simp add: open_plain_http_forward_def)
  show "io_all conn_event (open_forward u c n host p use_tls path ips)"
    unfolding open_forward_def open_origin_connection_def direct plain
    by (intro io_rules direct_conn) (auto simp: conn_event_def)
  show "snd (open_forward u c n host p use_tls path ips) = Inr (s, target, auth) \<Longrightarrow> target = path \<and> auth = None
      \<and> (if use_tls then n_tls n host = Inr s \<and> StartTls host \<in> set (fst (open_forward u c n host p use_tls path ips))
         else \<exists>a \<in> set ips. n_dial n a p None = Inr s)"
    unfolding open_forward_def open_origin_connection_def direct plain
    by (auto simp: snd_io_bind fst_io_bind rbind_Inr_iff direct_result split: if_splits sum.splits)
qed

text \<open>
  Without an upstream proxy a completed exchange relays both directions in
  full: the origin receives the head and then the front of the client's bytes, and the client
  receives everything the origin sends.
\<close>

theorem exchange_relays:
  assumes "upstream_proxy c = []" "tor_socks c = []"
    and "snd (forward_exchange u c n verb hs host p use_tls path ips client) = Inr ()"
  shows "\<exists>cl codings body rest origin.
    parse_request_framing hs = Inr (cl, codings) \<and> pending client = body @ rest
    \<and> up_bytes (fst (forward_exchange u c n verb hs host p use_tls path ips client))
        = encode_utf8 (forward_head verb path hs host p use_tls cl codings None) @ body
    \<and> client_bytes (fst (forward_exchange u c n verb hs host p use_tls path ips client)) = pending origin
    \<and> (if use_tls then n_tls n host = Inr origin else \<exists>a \<in> set ips. n_dial n a p None = Inr origin)"
proof -
  define m where "m = open_forward u c n host p use_tls path ips"
  note open_facts = open_forward_direct [OF assms(1,2), of u n host p use_tls path ips, folded m_def]
  note ex = forward_exchange_def [of u c n verb hs host p use_tls path ips client, folded m_def]
  from assms(3) obtain origin target auth where m: "snd m = Inr (origin, target, auth)"
    unfolding ex snd_io_bind rbind_Inr_iff by (metis prod_cases3)
  from assms(3) m obtain cl codings where fr: "parse_request_framing hs = Inr (cl, codings)"
    unfolding ex by (auto simp: snd_io_bind rbind_Inr_iff)
  from assms(3) m fr obtain s' where body: "snd (forward_request_body u client cl codings) = Inr s'"
    unfolding ex by (auto simp: snd_io_bind rbind_Inr_iff send_up_def)
  from assms(3) m fr body have p: "snd (pipe SendClient CloseClient origin) = Inr ()"
    unfolding ex by (auto simp: snd_io_bind rbind_Inr_iff send_up_def)
  have t: "target = path" "auth = None" using open_facts(2) [OF m] by auto
  have ev: "fst (forward_exchange u c n verb hs host p use_tls path ips client)
    = fst m @ SendUp (encode_utf8 (forward_head verb path hs host p use_tls cl codings None))
        # fst (forward_request_body u client cl codings) @ fst (pipe SendClient CloseClient origin) @ [CloseUp]"
    unfolding ex using m fr body p t by (simp add: fst_io_bind send_up_def)
  have "up_bytes (fst m) = [] \<and> client_bytes (fst m) = []"
    using open_facts(1) conn_events_silent by (simp add: io_all_def)
  with forward_request_body_framed [OF body] pipe_client [of origin] body_no_client fr open_facts(2) [OF m]
  show ?thesis unfolding ev by (intro exI [of _ cl] exI [of _ codings]
      exI [of _ "up_bytes (fst (forward_request_body u client cl codings))"] exI [of _ "pending s'"] exI [of _ origin]) auto
qed

definition answering :: net where
  "answering = offline\<lparr>n_dial := (\<lambda>_ _ _. Inr \<lparr>pending = ''HTTP/1.1 200 OK'' @ CRLF @ CRLF, ending = Eof\<rparr>),
     n_tls := (\<lambda>_. Inr \<lparr>pending = ''HTTP/1.1 200 OK'' @ CRLF @ CRLF, ending = Eof\<rparr>)\<rparr>"

lemma exchange_relays_witness:
  "\<exists>body rest. ''abcdef'' = body @ rest
    \<and> up_bytes (fst (forward_exchange ascii_codec sample_config answering ''POST'' [(''content-length'', ''4'')]
         ''example.com'' 80 False ''/x'' [''1.1.1.1''] (bytes_stream ''abcdef'')))
      = encode_utf8 (forward_head ''POST'' ''/x'' [(''content-length'', ''4'')] ''example.com'' 80 False (Some 4) [] None) @ body"
proof -
  have f: "parse_request_framing [(''content-length'', ''4'')] = Inr (Some 4, [])" by code_simp
  have "snd (forward_exchange ascii_codec sample_config answering ''POST'' [(''content-length'', ''4'')]
      ''example.com'' 80 False ''/x'' [''1.1.1.1''] (bytes_stream ''abcdef'')) = Inr ()" by code_simp
  from exchange_relays [OF _ _ this] show ?thesis by (auto simp: f bytes_stream_def)
qed

section \<open>No cleartext\<close>

text \<open>The messages that only set up a connection through the upstream proxy or Tor.\<close>

definition negotiation :: "codec \<Rightarrow> pystr \<Rightarrow> int \<Rightarrow> bytes \<Rightarrow> bool" where
  "negotiation u host p b \<longleftrightarrow>
     (\<exists>user pass. b = socks_greeting user pass)
     \<or> (\<exists>user pass ul pl. length_byte user = Inr ul \<and> length_byte pass = Inr pl \<and> b = octets [1] @ ul @ user @ pl @ pass)
     \<or> socks_request u host p = Inr b
     \<or> (\<exists>user pass. b = encode_utf8 (connect_request host p user pass))"

definition via_proxy :: "codec \<Rightarrow> config \<Rightarrow> pystr \<Rightarrow> int \<Rightarrow> bytes \<Rightarrow> bool" where
  "via_proxy u c host p b \<longleftrightarrow> (upstream_proxy c \<noteq> [] \<or> tor_socks c \<noteq> []) \<and> negotiation u host p b"

definition up_only :: "(bytes \<Rightarrow> bool) \<Rightarrow> ev \<Rightarrow> bool" where
  "up_only N e \<longleftrightarrow> (\<forall>b. e = SendUp b \<longrightarrow> N b)"

lemma up_only_simps [simp]:
  "up_only N (Dial a p s)" "up_only N (DialUnix t)" "up_only N (StartTls h)" "up_only N CloseUp"
  "up_only N (SendClient b)" "up_only N CloseClient" "up_only N (SendUp b) \<longleftrightarrow> N b"
  by (simp_all add: up_only_def)

definition tls_guarded :: "(bytes \<Rightarrow> bool) \<Rightarrow> ev list \<Rightarrow> bool" where
  "tls_guarded N es \<longleftrightarrow> (\<forall>pre b post. es = pre @ SendUp b # post \<longrightarrow> N b \<or> (\<exists>h. StartTls h \<in> set pre))"

lemma tls_guarded_only: "list_all (up_only N) a \<Longrightarrow> tls_guarded N a"
  by (auto simp: tls_guarded_def)

lemma tls_guarded_Nil [simp]: "tls_guarded N []"
  by (simp add: tls_guarded_def)

lemma tls_guardedD: "tls_guarded N (pre @ SendUp b # post) \<Longrightarrow> N b \<or> (\<exists>h. StartTls h \<in> set pre)"
  unfolding tls_guarded_def by blast

lemma tls_guarded_append:
  assumes "list_all (up_only N) a" and "tls_guarded N b \<or> (\<exists>h. StartTls h \<in> set a)"
  shows "tls_guarded N (a @ b)"
  unfolding tls_guarded_def
proof (intro allI impI)
  fix pre x post
  assume e: "a @ b = pre @ SendUp x # post"
  then obtain us where "a = pre @ us \<and> us @ b = SendUp x # post \<or> a @ us = pre \<and> b = us @ SendUp x # post"
    by (auto simp: append_eq_append_conv2)
  then show "N x \<or> (\<exists>h. StartTls h \<in> set pre)"
  proof
    assume c: "a = pre @ us \<and> us @ b = SendUp x # post"
    show ?thesis
    proof (cases us)
      case Nil
      with c have "b = [] @ SendUp x # post" "a = pre" by simp_all
      with assms(2) tls_guardedD [of N "[]" x post] show ?thesis by auto
    next
      case (Cons y ys)
      with c have "SendUp x \<in> set a" by simp
      with assms(1) show ?thesis by (auto simp: list_all_iff)
    qed
  next
    assume "a @ us = pre \<and> b = us @ SendUp x # post"
    with assms(2) tls_guardedD [of N us x post] show ?thesis by auto
  qed
qed

lemma tls_guarded_after: "tls_guarded N a \<Longrightarrow> list_all (up_only N) b \<Longrightarrow> tls_guarded N (a @ b)"
  unfolding tls_guarded_def
proof (intro allI impI)
  fix pre x post
  assume g: "\<forall>pre b post. a = pre @ SendUp b # post \<longrightarrow> N b \<or> (\<exists>h. StartTls h \<in> set pre)" and n: "list_all (up_only N) b"
    and e: "a @ b = pre @ SendUp x # post"
  from e obtain us where "a = pre @ us \<and> us @ b = SendUp x # post \<or> a @ us = pre \<and> b = us @ SendUp x # post"
    by (auto simp: append_eq_append_conv2)
  then show "N x \<or> (\<exists>h. StartTls h \<in> set pre)"
  proof
    assume c: "a = pre @ us \<and> us @ b = SendUp x # post"
    show ?thesis
    proof (cases us)
      case (Cons y ys)
      with c have "a = pre @ SendUp x # ys" by simp
      with g show ?thesis by blast
    next
      case Nil
      with c have "SendUp x \<in> set b" by simp
      with n show ?thesis by (auto simp: list_all_iff)
    qed
  qed (use n in \<open>auto simp: list_all_iff\<close>)
qed

lemma guarded_bind:
  assumes "io_all (up_only N) m" and "\<And>x. snd m = Inr x \<Longrightarrow> tls_guarded N (fst (f x))"
  shows "tls_guarded N (fst (io_bind m f))"
proof (cases "snd m")
  case (Inl e)
  with assms(1) show ?thesis by (simp add: fst_io_bind io_all_def tls_guarded_only)
next
  case (Inr x)
  have "tls_guarded N (fst m @ fst (f x))"
    using assms Inr by (intro tls_guarded_append) (auto simp: io_all_def)
  with Inr show ?thesis by (simp add: fst_io_bind)
qed

lemma guarded_catch:
  "tls_guarded N (fst m) \<Longrightarrow> (\<And>e. io_all (up_only N) (h e)) \<Longrightarrow> tls_guarded N (fst (io_catch m p h))"
  by (auto simp: fst_io_catch io_all_def intro!: tls_guarded_after split: sum.splits)

lemma guarded_quiet: "io_all (up_only N) m \<Longrightarrow> tls_guarded N (fst m)"
  by (simp add: io_all_def tls_guarded_only)

lemma answers_not_up:
  "io_all (up_only N) (write_text_response x y z)" "io_all (up_only N) (bad_request z)" "io_all (up_only N) (send_client b)"
  by (auto simp: bad_request_def write_text_response_def send_client_def)

lemma reject_not_up: "io_all (up_only N) (reject_blocked_destination u c n host p)"
  unfolding reject_blocked_destination_def by (intro io_rules answers_not_up)

lemma dial_any_up: "io_all (up_only N) (dial_any n p sni fs as)"
  by (induction as arbitrary: fs) (auto simp: dial_def intro!: io_rules)

lemma socks_up:
  assumes "\<And>b. negotiation u host p b \<Longrightarrow> N b"
  shows "io_all (up_only N) (socks5_connect u s host p user pass)"
proof -
  have n: "N (socks_greeting user pass)" "socks_request u host p = Inr b \<Longrightarrow> N b"
    "length_byte us = Inr ul \<Longrightarrow> length_byte pw = Inr pl \<Longrightarrow> N (octets [1] @ ul @ us @ pl @ pw)" for b us pw ul pl
    by (rule assms; unfold negotiation_def; blast)+
  have quiet: "io_all (up_only N) (conn_error m)" "io_all (up_only N) (close_raise e)" "io_all (up_only N) (socks_read s k)"
    for m e s k by (auto simp: conn_error_def close_raise_def socks_read_def intro!: io_rules)
  have auth: "io_all (up_only N) (socks_auth user pass s)" for s
    unfolding socks_auth_def send_up_def Let_def
    by (auto simp: n(3) [unfolded One_nat_def] intro!: io_rules quiet simp del: append.simps)
  have reply: "io_all (up_only N) (socks_reply s)" for s
    unfolding socks_reply_def by (intro io_rules quiet)
  show ?thesis unfolding socks5_connect_def send_up_def
    by (auto simp: n intro!: io_rules quiet auth reply split: sum.splits)
qed

lemma connect_negotiates: "io_all (up_only (via_proxy u c host p)) (connect_via_upstream u c n host p ips)"
proof -
  have direct: "io_all (up_only N) (open_validated_direct n ips p)" for N
    unfolding open_validated_direct_def by (auto intro!: io_rules dial_any_up split: sum.splits)
  have open_proxy: "io_all (up_only N) (open_http_proxy_connection u c n h q scheme)" for N h q scheme
    unfolding open_http_proxy_connection_def by (auto intro!: io_rules dial_any_up split: sum.splits)
  show ?thesis
  proof (cases "upstream_proxy c = [] \<and> tor_socks c = []")
    case True
    then show ?thesis by (simp add: connect_direct direct)
  next
    case False
    then have n: "negotiation u host p b \<Longrightarrow> via_proxy u c host p b" for b by (auto simp: via_proxy_def)
    have h: "via_proxy u c host p (encode_utf8 (connect_request host p us pw))" for us pw
      by (rule n) (auto simp: negotiation_def)
    have quiet: "io_all (up_only N) (conn_error m)" for N m
      by (auto simp: conn_error_def close_raise_def intro!: io_rules)
    have http: "io_all (up_only (via_proxy u c host p)) (connect_via_http_connect u c n up host p)" for up
      unfolding connect_via_http_connect_def send_up_def Let_def
      by (auto simp: h intro!: io_rules open_proxy quiet)
    have tor: "io_all (up_only N) (dial_tor c n)" for N
      unfolding dial_tor_def by (auto intro!: io_rules)
    show ?thesis unfolding connect_via_upstream_def connect_via_socks5_def
      by (intro io_rules direct http tor open_proxy socks_up n) simp_all
  qed
qed

lemma exchange_guarded: "tls_guarded (via_proxy u c host p) (fst (forward_exchange u c n verb hs host p True path ips client))"
proof -
  let ?m = "open_forward u c n host p True path ips"
  have a: "io_all (up_only (via_proxy u c host p)) ?m"
    unfolding open_forward_def open_origin_connection_def by (auto intro!: io_rules connect_negotiates)
  show ?thesis
  proof (cases "snd ?m")
    case (Inl e)
    with a show ?thesis by (simp add: forward_exchange_def fst_io_bind tls_guarded_only io_all_def)
  next
    case (Inr r)
    then have "\<exists>h. StartTls h \<in> set (fst ?m)"
      by (auto simp: open_forward_def open_origin_connection_def snd_io_bind fst_io_bind rbind_Inr_iff)
    with a show ?thesis
      unfolding forward_exchange_def fst_io_bind [of ?m] io_all_def by (intro tls_guarded_append) blast+
  qed
qed

lemma public_plain_http:
  assumes "config_ok c" "route c = PublicRoute" "\<not> allow_http c" "plain_http_allowed u c host p ips"
  shows "tor_socks c \<noteq> [] \<and> is_onion_hostname u host"
  using assms(3,4) public_config_no_grant [OF assms(1,2)] assms(2) by (auto simp: plain_http_allowed_def Let_def)

text \<open>What may be sent before TLS: negotiation with the proxy or with Tor, and anything to an onion service through Tor.\<close>

definition may_precede_tls :: "codec \<Rightarrow> config \<Rightarrow> pystr \<Rightarrow> headers \<Rightarrow> bytes \<Rightarrow> bool" where
  "may_precede_tls u c target hs b \<longleftrightarrow> (\<exists>host p use_tls path. forward_target target hs = Inr (Inr (host, p, use_tls, path)) \<and>
     (via_proxy u c host p b \<or> \<not> use_tls \<and> tor_socks c \<noteq> [] \<and> is_onion_hostname u host))"

text \<open>
  C5 (safety). With plain HTTP disabled, the public route sends nothing of a forwarded request in the clear, except to an
  onion service through Tor: each message that goes out before TLS has been started on the connection only negotiates
  the way through the configured upstream proxy or Tor to the host and port of the request; without either,
  nothing goes out before TLS.
\<close>

theorem forward_never_cleartext:
  assumes "config_ok c" "route c = PublicRoute" "\<not> allow_http c"
    and "fst (handle_forward_http u c nv nc verb target hs client) = pre @ SendUp b # post"
  shows "(\<exists>h. StartTls h \<in> set pre) \<or> may_precede_tls u c target hs b"
proof -
  let ?N = "may_precede_tls u c target hs"
  have weaken: "tls_guarded (via_proxy u c host p) es \<Longrightarrow> tls_guarded ?N es"
    if "forward_target target hs = Inr (Inr (host, p, use_tls, path))" for host p use_tls path es
    using that unfolding tls_guarded_def may_precede_tls_def by blast
  have g: "tls_guarded ?N (fst (answer m))" if "tls_guarded ?N (fst m)" for m
    using that by (auto simp: answer_def fst_io_bind split: sum.splits)
  note quiet_answer = g [OF guarded_quiet]
  have verdict: "tls_guarded ?N (fst (case v of None \<Rightarrow> io_ret Answered | Some ips \<Rightarrow>
      (if \<not> use_tls \<and> \<not> plain_http_allowed u c host p ips
       then answer (write_text_response ''403'' ''Forbidden'' http_url_block_message)
       else answer (io_catch (forward_exchange u c nc verb hs host p use_tls path ips client) any_exception
         (\<lambda>e. write_text_response ''502'' ''Bad Gateway'' (''HTTP proxy forwarding failed: '' @ exn_str e))))))"
    if t: "forward_target target hs = Inr (Inr (host, p, use_tls, path))" for v host p use_tls path
  proof (cases v)
    case None
    then show ?thesis by (simp add: guarded_quiet)
  next
    case (Some ips)
    have "tls_guarded ?N (fst (forward_exchange u c nc verb hs host p use_tls path ips client))"
      if "use_tls \<or> plain_http_allowed u c host p ips"
    proof (cases use_tls)
      case True
      then show ?thesis using weaken [OF t exchange_guarded] by simp
    next
      case False
      then have "?N x" for x
        using t public_plain_http [OF assms(1-3)] that unfolding may_precede_tls_def by blast
      then show ?thesis by (simp add: tls_guarded_def)
    qed
    then show ?thesis using Some by (auto simp: quiet_answer answers_not_up intro!: g guarded_catch)
  qed
  have "tls_guarded ?N (fst (handle_forward_http u c nv nc verb target hs client))"
    unfolding handle_forward_http_def
  proof (rule guarded_bind)
    fix t
    assume t: "snd (io_lift (forward_target target hs)) = Inr t"
    show "tls_guarded ?N (fst (case t of Inl message \<Rightarrow> answer (bad_request message)
       | Inr (host, p, use_tls, path) \<Rightarrow>
         io_bind (reject_blocked_destination u c nv host p) (\<lambda>verdict.
           case verdict of None \<Rightarrow> io_ret Answered
           | Some ips \<Rightarrow>
               (if \<not> use_tls \<and> \<not> plain_http_allowed u c host p ips
                then answer (write_text_response ''403'' ''Forbidden'' http_url_block_message)
                else answer (io_catch (forward_exchange u c nc verb hs host p use_tls path ips client) any_exception
                  (\<lambda>e. write_text_response ''502'' ''Bad Gateway'' (''HTTP proxy forwarding failed: '' @ exn_str e)))))))"
    proof (cases t)
      case (Inl m)
      then show ?thesis by (simp add: quiet_answer answers_not_up)
    next
      case (Inr r)
      then show ?thesis
        using t by (cases r) (simp, intro guarded_bind reject_not_up verdict, simp)
    qed
  qed simp
  with assms(4) show ?thesis by (auto simp: tls_guarded_def)
qed

lemma forward_never_cleartext_witness:
  "\<exists>h. StartTls h \<in> set [Dial ''1.1.1.1'' 443 None, StartTls ''1.1.1.1'']"
proof -
  have "fst (handle_forward_http ascii_codec sample_config offline answering ''GET'' ''https://1.1.1.1/'' [] (bytes_stream []))
    = [Dial ''1.1.1.1'' 443 None, StartTls ''1.1.1.1''] @
      SendUp (''GET / HTTP/1.1'' @ CRLF @ ''host: 1.1.1.1'' @ CRLF @ ''connection: close'' @ CRLF @ CRLF) #
      [SendClient (''HTTP/1.1 200 OK'' @ CRLF @ CRLF), CloseClient, CloseUp]" by code_simp
  from forward_never_cleartext [OF sample_ok _ _ this] show ?thesis
    by (simp add: sample_config_def may_precede_tls_def via_proxy_def)
qed

section \<open>What a SOCKS server reads\<close>

text \<open>The server's side of RFC 1928: the destination of a CONNECT request.\<close>

datatype socks_dest = SocksName bytes | SocksV4 bytes | SocksV6 bytes

definition socks_server_read :: "bytes \<Rightarrow> (socks_dest \<times> nat) option" where
  "socks_server_read m =
     (if length m < 5 \<or> byte_at m 0 \<noteq> 5 \<or> byte_at m 1 \<noteq> 1 \<or> byte_at m 2 \<noteq> 0 then None
      else let body = drop 4 m
      in if byte_at m 3 = 1 \<and> length body = 6 then Some (SocksV4 (take 4 body), u16_at body 4)
         else if byte_at m 3 = 4 \<and> length body = 18 then Some (SocksV6 (take 16 body), u16_at body 16)
         else if byte_at m 3 = 3 \<and> length body = byte_at body 0 + 3
         then Some (SocksName (take (byte_at body 0) (tl body)), u16_at body (byte_at body 0 + 1))
         else None)"

text \<open>The destination the request is meant to name: literals, IPv4 shorthands included, by
  their address, names by their text.\<close>

definition socks_meant :: "codec \<Rightarrow> pystr \<Rightarrow> socks_dest" where
  "socks_meant u host =
     (let h = normalize_host u host
      in case loose_ipv4_literal h of
           Some l \<Rightarrow> (case ip_address l of Some (V4 w) \<Rightarrow> SocksV4 (ipv4_packed w) | _ \<Rightarrow> SocksName [])
         | None \<Rightarrow> (case ip_address h of
             Some (V4 w) \<Rightarrow> SocksV4 (ipv4_packed w)
           | Some (V6 w _) \<Rightarrow> SocksV6 (ipv6_packed w)
           | None \<Rightarrow> SocksName (encode_utf8 host)))"

lemma octets_simps: "octets [] = []" "octets (n # ns) = char_of n # octets ns"
  by (simp_all add: octets_def)

text \<open>
  The CONNECT request the proxy writes is read by a SOCKS5 server as the
  destination and the port that were meant: a name stays a name, so that it is resolved by
  the upstream and nowhere else.
\<close>

theorem socks_request_read:
  assumes "socks_request u host p = Inr m" and "valid_port p"
  shows "socks_server_read m = Some (socks_meant u host, nat p)"
proof -
  have p: "nat p < 65536" using assms(2) by (auto simp: valid_port_def)
  let ?h = "normalize_host u host"
  consider (name) "ip_address ?h = None" "loose_ipv4_literal ?h = None"
    | (loose) l where "loose_ipv4_literal ?h = Some l"
    | (lit) a where "ip_address ?h = Some a" "loose_ipv4_literal ?h = None"
    by fastforce
  then show ?thesis
  proof cases
    case name
    let ?b = "encode_utf8 host"
    have b: "?b \<noteq> []" "length ?b \<le> 255"
      and m: "m = octets [5, 1, 0, 3, length ?b] @ ?b @ be16 (nat p)"
      using assms(1) name by (auto simp: socks_request_def parse_ip_literal_def Let_def split: if_splits)
    have "u16_at ((char_of (length ?b) # ?b) @ be16 (nat p)) (length ?b + 1) = nat p"
      using u16_at_word [of "length ?b + 1" "char_of (length ?b) # ?b" "nat p" "[]"] p by simp
    then show ?thesis
      using b name
      by (simp add: m octets_simps socks_server_read_def byte_at_def socks_meant_def Let_def)
  next
    case (loose l)
    then obtain w where l: "l = ipv4_str w" by (auto simp: loose_ipv4_literal_def split: if_splits)
    with loose assms(1) have m: "m = octets [5, 1, 0, 1] @ ipv4_packed w @ be16 (nat p)"
      by (auto simp: socks_request_def Let_def)
    have "u16_at (ipv4_packed w @ be16 (nat p)) 4 = nat p"
      using u16_at_word [of 4 "ipv4_packed w" "nat p" "[]"] p by simp
    then show ?thesis
      by (simp add: m octets_simps socks_server_read_def byte_at_def socks_meant_def Let_def loose l)
  next
    case (lit a)
    show ?thesis
    proof (cases a)
      case (V4 w)
      with lit assms(1) have m: "m = octets [5, 1, 0, 1] @ ipv4_packed w @ be16 (nat p)"
        by (auto simp: socks_request_def parse_ip_literal_def Let_def)
      have "u16_at (ipv4_packed w @ be16 (nat p)) 4 = nat p"
        using u16_at_word [of 4 "ipv4_packed w" "nat p" "[]"] p by simp
      then show ?thesis
        by (simp add: m octets_simps socks_server_read_def byte_at_def socks_meant_def Let_def lit V4)
    next
      case (V6 w z)
      with lit assms(1) have m: "m = octets [5, 1, 0, 4] @ ipv6_packed w @ be16 (nat p)"
        by (auto simp: socks_request_def parse_ip_literal_def Let_def)
      have "u16_at (ipv6_packed w @ be16 (nat p)) 16 = nat p"
        using u16_at_word [of 16 "ipv6_packed w" "nat p" "[]"] p by simp
      then show ?thesis
        by (simp add: m octets_simps socks_server_read_def byte_at_def socks_meant_def Let_def lit V6)
    qed
  qed
qed

lemma socks_request_read_witness:
  "socks_server_read (octets [5, 1, 0, 3, 11] @ ''abcde.onion'' @ be16 443)
    = Some (socks_meant ascii_codec ''abcde.onion'', 443)"
proof -
  have "socks_request ascii_codec ''abcde.onion'' 443 = Inr (octets [5, 1, 0, 3, 11] @ ''abcde.onion'' @ be16 443)"
    by code_simp
  from socks_request_read [OF this] show ?thesis by (simp add: valid_port_def)
qed

section \<open>The request head\<close>

definition newline :: "char \<Rightarrow> bool" where
  "newline c \<longleftrightarrow> c = CHR 0x0D \<or> c = CHR 0x0A"

definition no_newline :: "pystr \<Rightarrow> bool" where
  "no_newline s \<longleftrightarrow> filter newline s = []"

lemma no_newline_simps [simp]:
  "no_newline []" "no_newline (c # s) \<longleftrightarrow> \<not> newline c \<and> no_newline s"
  "no_newline (s @ t) \<longleftrightarrow> no_newline s \<and> no_newline t"
  by (auto simp: no_newline_def)

lemma no_newline_set: "no_newline s \<longleftrightarrow> (\<forall>c \<in> set s. \<not> newline c)"
  by (simp add: no_newline_def filter_empty_conv)

lemma no_newline_subset: "no_newline s \<Longrightarrow> set t \<subseteq> set s \<Longrightarrow> no_newline t"
  by (auto simp: no_newline_set)

lemma newline_forbidden: "newline c \<Longrightarrow> forbidden_control c"
proof -
  have "forbidden_control (CHR 0x0D)" "forbidden_control (CHR 0x0A)" by code_simp+
  then show "newline c \<Longrightarrow> forbidden_control c" by (auto simp: newline_def)
qed

lemma newline_not_token: "newline c \<Longrightarrow> \<not> token_char c"
proof -
  have "\<not> token_char (CHR 0x0D)" "\<not> token_char (CHR 0x0A)" by code_simp+
  then show "newline c \<Longrightarrow> \<not> token_char c" by (auto simp: newline_def)
qed

lemma newline_not_digit: "newline c \<Longrightarrow> \<not> is_digit c"
proof -
  have "\<not> is_digit (CHR 0x0D)" "\<not> is_digit (CHR 0x0A)" by code_simp+
  then show "newline c \<Longrightarrow> \<not> is_digit c" by (auto simp: newline_def)
qed

lemma newline_space: "newline c \<Longrightarrow> is_space c"
proof -
  have "is_space (CHR 0x0D)" "is_space (CHR 0x0A)" by code_simp+
  then show "newline c \<Longrightarrow> is_space c" by (auto simp: newline_def)
qed

lemma no_newline_nat_str [simp]: "no_newline (nat_str n)"
  using nat_str_digits [of n] newline_not_digit by (auto simp: no_newline_set list_all_iff)

lemma no_newline_int_str [simp]: "no_newline (int_str i)"
  by (simp add: int_str_def newline_def)

lemma newline_CRLF [simp]: "filter newline CRLF = CRLF"
  by (simp add: CRLF_def newline_def)

lemma no_newline_filter: "no_newline s \<Longrightarrow> filter newline s = []"
  by (simp add: no_newline_def)

lemma no_newline_join: "no_newline sep \<Longrightarrow> list_all no_newline ws \<Longrightarrow> no_newline (join sep ws)"
  by (induction sep ws rule: join.induct) auto

lemma no_newline_bracket: "no_newline h \<Longrightarrow> no_newline (bracket_host h)"
  by (simp add: bracket_host_def newline_def)

definition kept_headers :: "headers \<Rightarrow> headers" where
  "kept_headers hs = filter (\<lambda>(name, v). name \<notin> hop_headers) hs"

text \<open>The lines of a head without credentials: the request line, one line per field that is
  kept, and the fields the proxy writes itself.\<close>

definition head_lines ::
  "pystr \<Rightarrow> pystr \<Rightarrow> headers \<Rightarrow> pystr \<Rightarrow> int \<Rightarrow> bool \<Rightarrow> int option \<Rightarrow> pystr list \<Rightarrow> pystr list" where
  "head_lines verb path hs host p tls cl codings =
     [verb @ '' '' @ path @ '' HTTP/1.1'']
     @ map (\<lambda>(name, v). name @ '': '' @ v) (kept_headers hs)
     @ [''host: '' @ (if p = (if tls then 443 else 80) then bracket_host host else bracket_host host @ '':'' @ int_str p)]
     @ (case cl of None \<Rightarrow> [] | Some n \<Rightarrow> [''content-length: '' @ int_str n])
     @ (if codings = [] then [] else [''transfer-encoding: '' @ join '', '' codings])
     @ [''connection: close'']"

lemma forward_head_lines:
  "forward_head verb path hs host p tls cl codings None
    = concat (map (\<lambda>l. l @ CRLF) (head_lines verb path hs host p tls cl codings)) @ CRLF"
  by (auto simp: forward_head_def head_lines_def kept_headers_def Let_def comp_def case_prod_unfold split: option.splits)

lemma head_lines_clean:
  assumes "no_newline verb" "no_newline path" "no_newline host" "list_all no_newline codings"
    and "list_all (\<lambda>(name, v). no_newline name \<and> no_newline v) hs"
  shows "list_all no_newline (head_lines verb path hs host p tls cl codings)"
proof -
  have "list_all no_newline (map (\<lambda>(name, v). name @ '': '' @ v) (kept_headers hs))"
    using assms(5) by (fastforce simp: kept_headers_def list_all_iff newline_def)
  moreover have "no_newline (join '', '' codings)"
    using assms(4) by (intro no_newline_join) (auto simp: newline_def)
  ultimately show ?thesis
    using assms(1-3) no_newline_bracket [OF assms(3)]
    by (auto simp: head_lines_def newline_def split: option.splits)
qed

lemma py_split_no_newline: "w \<in> set (py_split s) \<Longrightarrow> no_newline w"
proof -
  assume "w \<in> set (py_split s)"
  then have "list_all (\<lambda>x. \<not> is_space x) w"
    using split_by_parts [of w is_space s] by (auto simp: py_split_def)
  then show ?thesis using newline_space by (auto simp: no_newline_set list_all_iff)
qed

lemma newline_ord: "newline c \<longleftrightarrow> ord_c c = 13 \<or> ord_c c = 10"
proof -
  have "ord_c (CHR 0x0D) = 13" "ord_c (CHR 0x0A) = 10" by (simp_all add: ord_c_def)
  then show ?thesis unfolding newline_def by (metis ord_c_inject)
qed

lemma case_maps_newline: "newline (lower_c c) \<longleftrightarrow> newline c" "no_newline (upper_c c) \<longleftrightarrow> \<not> newline c"
proof -
  show "newline (lower_c c) \<longleftrightarrow> newline c" by (auto simp: newline_ord ord_c_lower)
  have "ord_c c < 256" by simp
  then show "no_newline (upper_c c) \<longleftrightarrow> \<not> newline c"
    by (auto simp: newline_ord upper_c_def Let_def ord_c_def)
qed

lemma no_newline_case [simp]: "no_newline (py_lower s) = no_newline s" "no_newline (py_upper s) = no_newline s"
  by (induction s) (simp_all add: py_upper_def case_maps_newline)

lemma partition_subset: "partition_c c s = (a, f, b) \<Longrightarrow> set a \<subseteq> set s \<and> set b \<subseteq> set s"
  by (auto simp: partition_c_def split: if_splits dest: set_takeWhileD) (metis list.set_sel(2) set_dropWhileD tl_Nil equals0D set_empty)

lemma rpartition_subset: "rpartition_c c s = (a, f, b) \<Longrightarrow> set a \<subseteq> set s \<and> set b \<subseteq> set s"
proof -
  assume r: "rpartition_c c s = (a, f, b)"
  have "set (tl (dropWhile (\<lambda>x. x \<noteq> c) (rev s))) \<subseteq> set s" "set (takeWhile (\<lambda>x. x \<noteq> c) (rev s)) \<subseteq> set s"
    by (metis list.set_sel(2) set_dropWhileD set_rev subsetI tl_Nil) (metis set_takeWhileD set_rev subsetI)
  with r show ?thesis by (auto simp: rpartition_c_def split: if_splits)
qed

definition url_clean :: "url \<Rightarrow> bool" where
  "url_clean v \<longleftrightarrow> no_newline (u_netloc v) \<and> no_newline (u_path v) \<and> no_newline (u_query v)"

lemma urlsplit_clean: "urlsplit raw = Inr v \<Longrightarrow> url_clean v"
proof -
  assume r: "urlsplit raw = Inr v"
  define s where "s = filter (\<lambda>c. ord_c c \<notin> {9, 10, 13}) (lstrip_by (\<lambda>c. ord_c c \<le> 32) raw)"
  have s: "no_newline s" by (auto simp: s_def no_newline_set newline_def ord_c_def)
  obtain scheme rest where sr: "split_scheme s = (scheme, rest)" by fastforce
  then have rest: "no_newline rest"
    using s partition_subset [of "CHR '':''" s] no_newline_subset [OF s]
    by (auto simp: split_scheme_def split: prod.splits if_splits)
  define netloc where "netloc = (if starts_with rest ''//'' then takeWhile (\<lambda>c. c \<notin> set ''/?#'') (drop 2 rest) else [])"
  define tail where "tail = (if starts_with rest ''//'' then dropWhile (\<lambda>c. c \<notin> set ''/?#'') (drop 2 rest) else rest)"
  have n: "no_newline netloc" "no_newline tail"
    using rest no_newline_subset [OF rest]
    by (auto simp: netloc_def tail_def subset_iff dest: set_takeWhileD set_dropWhileD in_set_dropD)
  have "v = (case partition_c (CHR ''#'') tail of (rest, _, fragment) \<Rightarrow>
                (case partition_c (CHR ''?'') rest of (path, _, query) \<Rightarrow>
                   \<lparr>u_scheme = scheme, u_netloc = netloc, u_path = path, u_params = [],
                        u_query = query, u_fragment = fragment\<rparr>))"
    using r unfolding urlsplit_def s_def [symmetric] Let_def sr prod.case netloc_def [symmetric] tail_def [symmetric]
    by (auto split: if_splits prod.splits)
  moreover obtain r1 f1 fr where p1: "partition_c (CHR ''#'') tail = (r1, f1, fr)" by (metis prod_cases3)
  moreover obtain pa f2 q where p2: "partition_c (CHR ''?'') r1 = (pa, f2, q)" by (metis prod_cases3)
  moreover have "no_newline r1" using n(2) partition_subset [OF p1] no_newline_subset by blast
  moreover then have "no_newline pa" "no_newline q" using partition_subset [OF p2] no_newline_subset by blast+
  ultimately show ?thesis using n by (simp add: url_clean_def)
qed

lemma urlparse_clean: "urlparse raw = Inr v \<Longrightarrow> url_clean v"
proof -
  assume "urlparse raw = Inr v"
  then obtain w where w: "urlsplit raw = Inr w"
    and v: "v = w \<or> v = w\<lparr>u_path := fst (split_params (u_path w)), u_params := snd (split_params (u_path w))\<rparr>"
    by (auto simp: urlparse_def rbind_Inr_iff split: if_splits)
  have w': "url_clean w" using w by (rule urlsplit_clean)
  have "set (fst (split_params p)) \<subseteq> set p" for p
  proof -
    obtain a f b where 1: "rpartition_c (CHR ''/'') p = (a, f, b)" by (metis prod_cases3)
    obtain b1 g b2 where 2: "partition_c (CHR '';'') b = (b1, g, b2)" by (metis prod_cases3)
    have "f \<Longrightarrow> CHR ''/'' \<in> set p" using 1 by (auto simp: rpartition_c_def split: if_splits)
    with rpartition_subset [OF 1] partition_subset [OF 2] show ?thesis by (auto simp: split_params_def 1 2)
  qed
  with w' v show ?thesis unfolding url_clean_def using no_newline_subset [of "u_path w"] by auto
qed

lemma hostname_clean: "url_clean v \<Longrightarrow> no_newline (hostname v)"
proof -
  assume "url_clean v"
  then have net: "no_newline (u_netloc v)" by (simp add: url_clean_def)
  obtain i f hi where 1: "rpartition_c (CHR ''@'') (u_netloc v) = (i, f, hi)" by (metis prod_cases3)
  obtain x br bracketed where 2: "partition_c (CHR ''['') hi = (x, br, bracketed)" by (metis prod_cases3)
  obtain h2 g2 aft where 3: "partition_c (CHR '']'') bracketed = (h2, g2, aft)" by (metis prod_cases3)
  obtain h3 g3 q3 where 4: "partition_c (CHR '':'') hi = (h3, g3, q3)" by (metis prod_cases3)
  obtain h4 g4 q4 where 5: "partition_c (CHR '':'') aft = (h4, g4, q4)" by (metis prod_cases3)
  have "fst (hostinfo v) = (if br then h2 else h3)"
    by (simp add: hostinfo_def 1 2 3 4 5)
  moreover have "set (if br then h2 else h3) \<subseteq> set (u_netloc v)"
    using rpartition_subset [OF 1] partition_subset [OF 2] partition_subset [OF 3] partition_subset [OF 4] by auto
  ultimately have host: "no_newline (fst (hostinfo v))" using net no_newline_subset by metis
  obtain a pct z where 6: "partition_c (CHR ''%'') (fst (hostinfo v)) = (a, pct, z)" by (metis prod_cases3)
  then have "no_newline a" "no_newline z" using host partition_subset [OF 6] no_newline_subset by blast+
  then show ?thesis by (simp add: hostname_def 6 newline_def)
qed

lemma parse_authority_clean: "parse_authority t d = Inr (host, p) \<Longrightarrow> no_newline host"
  by (auto simp: parse_authority_def rbind_Inr_iff intro!: hostname_clean urlparse_clean)

lemma forward_target_clean:
  assumes "forward_target target hs = Inr (Inr (host, p, tls, path))" and "no_newline target"
  shows "no_newline host \<and> no_newline path"
proof -
  from assms(1) obtain v where v: "urlparse target = Inr v" by (auto simp: forward_target_def rbind_Inr_iff)
  note clean = urlparse_clean [OF v]
  show ?thesis
  proof (cases "u_scheme v = []")
    case True
    with assms v show ?thesis
      by (auto simp: forward_target_def newline_def split: list.splits sum.splits if_splits dest: parse_authority_clean)
  next
    case False
    with assms(1) v have "host = hostname v"
      "path = (if u_path v = [] then ''/'' else u_path v) @ (if u_query v = [] then [] else ''?'' @ u_query v)"
      by (auto simp: forward_target_def Let_def split: sum.splits if_splits)
    with clean hostname_clean [OF clean] show ?thesis by (auto simp: url_clean_def newline_def)
  qed
qed

lemma parse_header_line_no_newline:
  "parse_header_line u line = Inr (name, v) \<Longrightarrow> decoder_ok u \<Longrightarrow> no_newline name \<and> no_newline v"
  using header_line_clean_facts [of u line name v] newline_forbidden newline_not_token
  by (auto simp: is_token_def no_newline_set list_all_iff list_ex_iff)

lemma read_headers_clean:
  "decoder_ok u \<Longrightarrow> read_headers u s hs = Inr (Inr (hs', s')) \<Longrightarrow> list_all (\<lambda>(n, v). no_newline n \<and> no_newline v) hs
    \<Longrightarrow> list_all (\<lambda>(n, v). no_newline n \<and> no_newline v) hs'"
proof (induction u s hs rule: read_headers.induct)
  case (1 u s hs)
  from "1.prems"(2) obtain l s1 where r: "timed (readline s) = Inr (l, s1)"
    by (subst (asm) read_headers.simps) (auto simp: rbind_Inr_iff)
  show ?case
  proof (cases "l = [] \<or> l = CRLF")
    case True
    with "1.prems" r show ?thesis
      by (subst (asm) read_headers.simps) (auto split: if_splits)
  next
    case False
    with "1.prems"(2) r obtain h where h: "parse_header_line u l = Inr h"
      and rest: "read_headers u s1 (hs @ [h]) = Inr (Inr (hs', s'))"
      by (subst (asm) read_headers.simps) (auto split: sum.splits if_splits)
    obtain n v where "h = (n, v)" by fastforce
    with "1.prems"(3) h parse_header_line_no_newline [of u l n v] "1.prems"(1)
    have "list_all (\<lambda>(n, v). no_newline n \<and> no_newline v) (hs @ [h])" by auto
    with "1.IH" [OF r refl _ _ h "1.prems"(1) rest] False show ?thesis by simp
  qed
qed

text \<open>
  C4 (safety). No client can split the request it has forwarded: the head sent to the origin
  is exactly the request line, one line per field that is kept and the proxy's own fields,
  and none of these lines contains a carriage return or a line feed.
\<close>

theorem request_head_unsplit:
  assumes "decoder_ok u" and "parse_request_line u line = Inr (Some (verb, target))"
    and "read_headers u s [] = Inr (Inr (hs, s'))"
    and "forward_target target hs = Inr (Inr (host, p, tls, path))"
    and "parse_request_framing hs = Inr (cl, codings)"
  shows "forward_head verb path hs host p tls cl codings None
      = concat (map (\<lambda>l. l @ CRLF) (head_lines verb path hs host p tls cl codings)) @ CRLF
    \<and> list_all no_newline (head_lines verb path hs host p tls cl codings)"
proof -
  from assms(2) obtain w v where "py_split (py_strip (decode_utf8 u line)) = [w, target, v]" "verb = py_upper w"
    by (auto simp: parse_request_line_def Let_def split: if_splits list.splits)
  then have "no_newline w" "no_newline target"
    using py_split_no_newline [of _ "py_strip (decode_utf8 u line)"] by auto
  moreover have "list_all no_newline codings"
    using framing_cases [OF assms(5)] newline_not_token
    by (auto simp: list_all_iff is_token_def no_newline_set)
  moreover have "list_all (\<lambda>(n, v). no_newline n \<and> no_newline v) hs"
    using read_headers_clean [OF assms(1,3)] by simp
  ultimately show ?thesis
    using forward_target_clean [OF assms(4)] \<open>verb = py_upper w\<close>
    by (intro conjI forward_head_lines head_lines_clean) auto
qed

lemma request_head_unsplit_witness:
  "list_all no_newline (head_lines ''GET'' ''/a?b'' [(''accept'', ''x'')] ''example.com'' 80 False None [])"
proof -
  have "parse_request_line ascii_codec (''get http://Example.com/a?b HTTP/1.1'' @ CRLF) = Inr (Some (''GET'', ''http://Example.com/a?b''))"
    "read_headers ascii_codec (bytes_stream (''Accept: x'' @ CRLF @ CRLF)) [] = Inr (Inr ([(''accept'', ''x'')], bytes_stream []))"
    "forward_target ''http://Example.com/a?b'' [(''accept'', ''x'')] = Inr (Inr (''example.com'', 80, False, ''/a?b''))"
    "parse_request_framing [(''accept'', ''x'')] = Inr (None, [])" by code_simp+
  from request_head_unsplit [OF ascii_codec_decoder this] show ?thesis by blast
qed

end
