(* ===== verification/Egress_Tunnel.thy ===== *)
theory Egress_Tunnel
  imports Egress_Relay
begin

text \<open>
  The bidirectional tunnel of a CONNECT as a step relation over both directions, and concrete
  requests on which the proxy does not do what it means to (egress/final_hop_proxy.py).
\<close>

section \<open>The tunnel\<close>

text \<open>
  The two \<open>_pipe\<close> tasks of a CONNECT, interleaved. Closing a writer closes its transport,
  so the reader of the same connection then ends after what it has already buffered.
\<close>

record tunnel =
  t_client :: istream
  t_upstream :: istream
  to_up :: bytes
  to_client :: bytes
  up_closed :: bool
  client_closed :: bool

definition start_tunnel :: "istream \<Rightarrow> istream \<Rightarrow> tunnel" where
  "start_tunnel c s = \<lparr>t_client = c, t_upstream = s, to_up = [], to_client = [],
     up_closed = False, client_closed = False\<rparr>"

definition cut :: "nat \<Rightarrow> istream \<Rightarrow> istream" where
  "cut k s = \<lparr>pending = take k (pending s), ending = Eof\<rparr>"

inductive tunnel_step :: "tunnel \<Rightarrow> tunnel \<Rightarrow> bool" where
  up_data: "\<not> up_closed t \<Longrightarrow> k \<le> tunnel_buffer \<Longrightarrow> read_some k (t_client t) = Inr (d, s) \<Longrightarrow> d \<noteq> []
    \<Longrightarrow> tunnel_step t (t\<lparr>t_client := s, to_up := to_up t @ d\<rparr>)"
| up_end: "\<not> up_closed t \<Longrightarrow> pending (t_client t) = [] \<Longrightarrow> ending (t_client t) \<noteq> Silent
    \<Longrightarrow> tunnel_step t (t\<lparr>up_closed := True, t_upstream := cut k (t_upstream t)\<rparr>)"
| down_data: "\<not> client_closed t \<Longrightarrow> k \<le> tunnel_buffer \<Longrightarrow> read_some k (t_upstream t) = Inr (d, s) \<Longrightarrow> d \<noteq> []
    \<Longrightarrow> tunnel_step t (t\<lparr>t_upstream := s, to_client := to_client t @ d\<rparr>)"
| down_end: "\<not> client_closed t \<Longrightarrow> pending (t_upstream t) = [] \<Longrightarrow> ending (t_upstream t) \<noteq> Silent
    \<Longrightarrow> tunnel_step t (t\<lparr>client_closed := True, t_client := cut k (t_client t)\<rparr>)"

inductive tunnel_reach :: "istream \<Rightarrow> istream \<Rightarrow> tunnel \<Rightarrow> bool" for c s where
  reach_start: "tunnel_reach c s (start_tunnel c s)"
| reach_step: "tunnel_reach c s t \<Longrightarrow> tunnel_step t t' \<Longrightarrow> tunnel_reach c s t'"

inductive_cases tunnel_stepE: "tunnel_step t t'"

definition tunnel_inv :: "istream \<Rightarrow> istream \<Rightarrow> tunnel \<Rightarrow> bool" where
  "tunnel_inv c s t \<longleftrightarrow>
     (\<exists>r. pending c = to_up t @ pending (t_client t) @ r \<and> (\<not> client_closed t \<longrightarrow> r = []))
     \<and> (\<exists>r. pending s = to_client t @ pending (t_upstream t) @ r \<and> (\<not> up_closed t \<longrightarrow> r = []))
     \<and> (up_closed t \<longrightarrow> pending (t_client t) = []) \<and> (client_closed t \<longrightarrow> pending (t_upstream t) = [])"

lemma tunnel_inv_start: "tunnel_inv c s (start_tunnel c s)"
  by (simp add: tunnel_inv_def start_tunnel_def)

lemma tunnel_inv_step:
  assumes "tunnel_step t t'" and "tunnel_inv c s t"
  shows "tunnel_inv c s t'"
  using assms(1)
proof (cases rule: tunnel_step.cases)
  case (up_data k d s1)
  then have "pending (t_client t) = d @ pending s1" using read_some_split by auto
  with up_data assms(2) show ?thesis by (auto simp: tunnel_inv_def)
next
  case (up_end k)
  have "pending (t_upstream t) = take k (pending (t_upstream t)) @ drop k (pending (t_upstream t))" by simp
  with up_end assms(2) show ?thesis by (auto simp: tunnel_inv_def cut_def) (metis append.assoc append_take_drop_id)+
next
  case (down_data k d s1)
  then have "pending (t_upstream t) = d @ pending s1" using read_some_split by auto
  with down_data assms(2) show ?thesis by (auto simp: tunnel_inv_def)
next
  case (down_end k)
  have "pending (t_client t) = take k (pending (t_client t)) @ drop k (pending (t_client t))" by simp
  with down_end assms(2) show ?thesis by (auto simp: tunnel_inv_def cut_def) (metis append.assoc append_take_drop_id)+
qed

lemma tunnel_reach_inv: "tunnel_reach c s t \<Longrightarrow> tunnel_inv c s t"
  by (induction rule: tunnel_reach.induct) (auto intro: tunnel_inv_start tunnel_inv_step)

text \<open>
  In every interleaving of the two directions a tunnel delivers, each way, a
  prefix of what the other side sent, unchanged, and the direction that ends first has been
  delivered whole.
\<close>

theorem tunnel_delivers_prefixes:
  assumes "tunnel_reach c s t"
  shows "(\<exists>r. pending c = to_up t @ r) \<and> (\<exists>r. pending s = to_client t @ r)
    \<and> (\<not> (up_closed t \<and> \<not> client_closed t) \<or> to_up t = pending c)
    \<and> (\<not> (client_closed t \<and> \<not> up_closed t) \<or> to_client t = pending s)"
  using tunnel_reach_inv [OF assms] by (auto simp: tunnel_inv_def)

lemma tunnel_delivers_prefixes_witness:
  "\<exists>t. tunnel_reach \<lparr>pending = ''ab'', ending = Eof\<rparr> \<lparr>pending = ''xyz'', ending = Silent\<rparr> t
     \<and> to_up t = ''ab'' \<and> up_closed t \<and> \<not> client_closed t \<and> (\<exists>r. ''xyz'' = to_client t @ r)"
proof -
  let ?c = "\<lparr>pending = ''ab'', ending = Eof\<rparr>" and ?s = "\<lparr>pending = ''xyz'', ending = Silent\<rparr>"
  let ?t1 = "(start_tunnel ?c ?s)\<lparr>t_client := \<lparr>pending = [], ending = Eof\<rparr>, to_up := ''ab''\<rparr>"
  let ?t2 = "?t1\<lparr>up_closed := True, t_upstream := cut 1 (t_upstream ?t1)\<rparr>"
  have "tunnel_step (start_tunnel ?c ?s) ((start_tunnel ?c ?s)\<lparr>t_client := \<lparr>pending = [], ending = Eof\<rparr>,
      to_up := to_up (start_tunnel ?c ?s) @ ''ab''\<rparr>)"
    by (rule up_data [where k = 2]) (simp_all add: start_tunnel_def read_some_def tunnel_buffer_def)
  then have s1: "tunnel_reach ?c ?s ?t1"
    using reach_step [OF reach_start] by (simp add: start_tunnel_def)
  have "tunnel_step ?t1 ?t2" by (rule up_end) (simp_all add: start_tunnel_def)
  with s1 have "tunnel_reach ?c ?s ?t2" by (rule reach_step)
  from this tunnel_delivers_prefixes [OF this] show ?thesis
    by (intro exI [of _ ?t2]) (simp add: start_tunnel_def)
qed

section \<open>Requests that go wrong\<close>

text \<open>
  A provider resolver that closes the TCP leg of a truncated answer early makes a
  CONNECT end without any response: the connection is just closed, although a resolver
  failure is meant to be answered with 502.
\<close>

theorem short_dns_reply_unanswered:
  "handle_request ascii_codec sample_config cut_short offline (Some ''127.0.0.1'')
     (bytes_stream (''CONNECT example.com:443 HTTP/1.1'' @ CRLF @ CRLF)) = ([CloseClient], Inr Unanswered)"
  by code_simp

definition http_upstream_config :: config where
  "http_upstream_config = sample_config\<lparr>upstream_proxy := ''http://198.50.1.1:3128''\<rparr>"

text \<open>
  Through an HTTP upstream proxy the CONNECT request for an IPv6 literal is sent
  without the brackets its authority needs, so that host and port cannot be told apart.
\<close>

theorem upstream_ipv6_connect_unbracketed:
  "parse_authority ''[2606:4700::1111]:443'' 443 = Inr (''2606:4700::1111'', 443)
   \<and> fst (connect_via_upstream ascii_codec http_upstream_config
      (offline\<lparr>n_dial := (\<lambda>_ _ _. Inr (bytes_stream (''HTTP/1.1 200 OK'' @ CRLF @ CRLF)))\<rparr>)
      ''2606:4700::1111'' 443 [''2606:4700::1111''])
    = [Dial ''198.50.1.1'' 3128 None,
       SendUp (''CONNECT 2606:4700::1111:443 HTTP/1.1'' @ CRLF @ ''Host: 2606:4700::1111:443'' @ CRLF @ CRLF)]"
  by code_simp

text \<open>
  The parameters of the last path segment of an absolute-form target are lost:
  the origin is asked for another resource than the client named.
\<close>

theorem absolute_target_loses_params:
  "forward_target ''http://example.com/report;format=csv?year=1'' []
     = Inr (Inr (''example.com'', 80, False, ''/report?year=1''))"
  by code_simp

text \<open>An unbalanced bracket in the target: nothing is answered either.\<close>

lemma malformed_target_unanswered:
  "handle_request ascii_codec sample_config offline offline (Some ''127.0.0.1'')
     (bytes_stream (''GET http://[::1/ HTTP/1.1'' @ CRLF @ CRLF)) = ([CloseClient], Inr Unanswered)"
  by code_simp
end
