(* ===== verification/Slot.thy ===== *)
theory Slot
  imports Prelude Complex_Main
begin

text \<open>
  The contract the search scheduler relies on: a provider is a slot that is reserved under a
  fresh token, turned into a lease by the holder of the token, and given back. The locale
  states what the two implementations promise (the Obscura provider pool and the admission of
  the paid API); the lemmas in it are proved once, over every interleaving of the requests
  that follow the life cycle of the patched offline processor.

  Clock readings are rationals in seconds, \<open>None\<close> stands for \<open>float("-inf")\<close>, and the tokens
  of \<open>uuid.uuid4()\<close> are drawn from a counter, so that they are pairwise different.
\<close>

type_synonym time = rat
type_synonym token = nat

text \<open>\<open>now - last_start >= interval\<close>.\<close>

fun rested :: "time \<Rightarrow> time option \<Rightarrow> time \<Rightarrow> bool" where
  "rested interval None now = True"
| "rested interval (Some t) now = (interval \<le> now - t)"

lemma rested_later: "rested d l now \<Longrightarrow> now \<le> now' \<Longrightarrow> rested d l now'"
  by (cases l) auto

record 's slot_ops =
  op_reserve :: "bool \<Rightarrow> time \<Rightarrow> token \<Rightarrow> 's \<Rightarrow> 's option"
  op_release :: "token \<Rightarrow> 's \<Rightarrow> 's"
  op_enter :: "time \<Rightarrow> token \<Rightarrow> 's \<Rightarrow> 's option"
  op_direct :: "time \<Rightarrow> 's \<Rightarrow> 's option"
  op_leave :: "'s \<Rightarrow> 's"
  op_start :: "time \<Rightarrow> 's \<Rightarrow> 's option"
  op_restart :: bool

section \<open>Requests on a slot\<close>

text \<open>
  Where a request is: it waits, it holds a reservation, it owns the lease (and has started an
  attempt or not), or it is about to run the \<open>finally\<close> clause that gives its token back.
\<close>

datatype phase = Idle | Holding token | Owning "token option" bool | Cleanup token

record 's world =
  cell :: 's
  phase :: "nat \<Rightarrow> phase"
  clock :: time
  fresh :: token
  starts :: "time list"

inductive slot_step :: "'s slot_ops \<Rightarrow> 's world \<Rightarrow> 's world \<Rightarrow> bool" for ops where
  Reserve: "phase w i = Idle \<Longrightarrow> clock w \<le> now \<Longrightarrow>
    op_reserve ops av now (fresh w) (cell w) = Some s \<Longrightarrow>
    slot_step ops w (w\<lparr>cell := s, phase := (phase w)(i := Holding (fresh w)), clock := now,
      fresh := Suc (fresh w)\<rparr>)"
| Give_up: "phase w i = Holding t \<Longrightarrow>
    slot_step ops w (w\<lparr>phase := (phase w)(i := Cleanup t)\<rparr>)"
| Enter: "phase w i = Holding t \<Longrightarrow> clock w \<le> now \<Longrightarrow> op_enter ops now t (cell w) = Some s \<Longrightarrow>
    slot_step ops w (w\<lparr>cell := s, phase := (phase w)(i := Owning (Some t) False), clock := now\<rparr>)"
| Direct: "phase w i = Idle \<Longrightarrow> clock w \<le> now \<Longrightarrow> op_direct ops now (cell w) = Some s \<Longrightarrow>
    slot_step ops w (w\<lparr>cell := s, phase := (phase w)(i := Owning None False), clock := now\<rparr>)"
| Start: "phase w i = Owning t b \<Longrightarrow> b \<longrightarrow> op_restart ops \<Longrightarrow> clock w \<le> now \<Longrightarrow>
    op_start ops now (cell w) = Some s \<Longrightarrow>
    slot_step ops w (w\<lparr>cell := s, phase := (phase w)(i := Owning t True), clock := now,
      starts := now # starts w\<rparr>)"
| Leave: "phase w i = Owning t b \<Longrightarrow>
    slot_step ops w (w\<lparr>cell := op_leave ops (cell w),
      phase := (phase w)(i := case t of None \<Rightarrow> Idle | Some t' \<Rightarrow> Cleanup t')\<rparr>)"
| Finish: "phase w i = Cleanup t \<Longrightarrow>
    slot_step ops w (w\<lparr>cell := op_release ops t (cell w), phase := (phase w)(i := Idle)\<rparr>)"

definition idle_world :: "'s \<Rightarrow> 's world" where
  "idle_world s = \<lparr>cell = s, phase = (\<lambda>_. Idle), clock = 0, fresh = 0, starts = []\<rparr>"

definition reachable :: "'s slot_ops \<Rightarrow> 's \<Rightarrow> 's world \<Rightarrow> bool" where
  "reachable ops s = (slot_step ops)\<^sup>*\<^sup>* (idle_world s)"

lemma reachable_induct [consumes 1, case_names init step]:
  assumes "reachable ops s w" and "P (idle_world s)"
    and "\<And>w w'. P w \<Longrightarrow> slot_step ops w w' \<Longrightarrow> P w'"
  shows "P w"
  using assms(1) unfolding reachable_def
  by (induction rule: rtranclp_induct) (auto intro: assms(2,3))

text \<open>The steps as an executable function of the action that is taken.\<close>

datatype action =
    Act_reserve nat time bool
  | Act_give_up nat
  | Act_enter nat time
  | Act_direct nat time
  | Act_start nat time
  | Act_leave nat
  | Act_finish nat

fun act :: "'s slot_ops \<Rightarrow> action \<Rightarrow> 's world \<Rightarrow> 's world option" where
  "act ops (Act_reserve i now av) w =
     (if phase w i = Idle \<and> clock w \<le> now
      then map_option (\<lambda>s. w\<lparr>cell := s, phase := (phase w)(i := Holding (fresh w)), clock := now,
             fresh := Suc (fresh w)\<rparr>) (op_reserve ops av now (fresh w) (cell w))
      else None)"
| "act ops (Act_give_up i) w = (case phase w i of
     Holding t \<Rightarrow> Some (w\<lparr>phase := (phase w)(i := Cleanup t)\<rparr>) | _ \<Rightarrow> None)"
| "act ops (Act_enter i now) w = (case phase w i of
     Holding t \<Rightarrow> (if clock w \<le> now
       then map_option (\<lambda>s. w\<lparr>cell := s, phase := (phase w)(i := Owning (Some t) False), clock := now\<rparr>)
              (op_enter ops now t (cell w))
       else None)
   | _ \<Rightarrow> None)"
| "act ops (Act_direct i now) w =
     (if phase w i = Idle \<and> clock w \<le> now
      then map_option (\<lambda>s. w\<lparr>cell := s, phase := (phase w)(i := Owning None False), clock := now\<rparr>)
             (op_direct ops now (cell w))
      else None)"
| "act ops (Act_start i now) w = (case phase w i of
     Owning t b \<Rightarrow> (if (b \<longrightarrow> op_restart ops) \<and> clock w \<le> now
       then map_option (\<lambda>s. w\<lparr>cell := s, phase := (phase w)(i := Owning t True), clock := now,
              starts := now # starts w\<rparr>) (op_start ops now (cell w))
       else None)
   | _ \<Rightarrow> None)"
| "act ops (Act_leave i) w = (case phase w i of
     Owning t b \<Rightarrow> Some (w\<lparr>cell := op_leave ops (cell w),
       phase := (phase w)(i := case t of None \<Rightarrow> Idle | Some t' \<Rightarrow> Cleanup t')\<rparr>)
   | _ \<Rightarrow> None)"
| "act ops (Act_finish i) w = (case phase w i of
     Cleanup t \<Rightarrow> Some (w\<lparr>cell := op_release ops t (cell w), phase := (phase w)(i := Idle)\<rparr>)
   | _ \<Rightarrow> None)"

fun acts :: "'s slot_ops \<Rightarrow> action list \<Rightarrow> 's world \<Rightarrow> 's world option" where
  "acts ops [] w = Some w"
| "acts ops (a # as) w = (case act ops a w of None \<Rightarrow> None | Some w' \<Rightarrow> acts ops as w')"

lemma act_step: "act ops a w = Some w' \<Longrightarrow> slot_step ops w w'"
  by (cases a) (auto intro: slot_step.intros split: if_splits phase.splits)

lemma acts_steps: "acts ops as w = Some w' \<Longrightarrow> (slot_step ops)\<^sup>*\<^sup>* w w'"
  by (induction as arbitrary: w) (auto dest: act_step split: option.splits intro: converse_rtranclp_into_rtranclp)

lemma acts_reachable:
  "\<not> Option.is_none (acts ops as (idle_world s)) \<Longrightarrow> reachable ops s (the (acts ops as (idle_world s)))"
  unfolding reachable_def by (rule acts_steps) (auto simp: Option.is_none_def)

fun owns :: "phase \<Rightarrow> bool" where
  "owns (Owning _ _) = True"
| "owns _ = False"

fun token_of_phase :: "phase \<Rightarrow> token option" where
  "token_of_phase Idle = None"
| "token_of_phase (Holding t) = Some t"
| "token_of_phase (Owning t _) = t"
| "token_of_phase (Cleanup t) = Some t"

fun awaits_start :: "phase \<Rightarrow> bool" where
  "awaits_start (Holding _) = True"
| "awaits_start (Owning _ b) = (\<not> b)"
| "awaits_start _ = False"

fun latest :: "time list \<Rightarrow> time option" where
  "latest [] = None"
| "latest (t # _) = Some t"

text \<open>Consecutive attempts, the latest first, are \<open>d\<close> seconds apart.\<close>

definition spaced :: "time \<Rightarrow> time list \<Rightarrow> bool" where
  "spaced d = successively (\<lambda>later earlier. earlier + d \<le> later)"

lemma spaced_Cons: "spaced d (t # ts) \<longleftrightarrow> (ts = [] \<or> hd ts + d \<le> t) \<and> spaced d ts"
  by (cases ts) (auto simp: spaced_def)

text \<open>No two requests use the same token, and the next token is new.\<close>

definition tokens_ok :: "'s world \<Rightarrow> bool" where
  "tokens_ok w \<longleftrightarrow>
     (\<forall>i j t. token_of_phase (phase w i) = Some t \<longrightarrow> token_of_phase (phase w j) = Some t \<longrightarrow> i = j) \<and>
     (\<forall>i t. token_of_phase (phase w i) = Some t \<longrightarrow> t < fresh w)"

lemma tokens_okD:
  "tokens_ok w \<Longrightarrow> token_of_phase (phase w i) = Some t \<Longrightarrow> token_of_phase (phase w j) = Some t \<Longrightarrow> i = j"
  "tokens_ok w \<Longrightarrow> token_of_phase (phase w i) = Some t \<Longrightarrow> t < fresh w"
  by (auto simp: tokens_ok_def)

lemma tokens_okI:
  "(\<And>i j t. token_of_phase (phase w i) = Some t \<Longrightarrow> token_of_phase (phase w j) = Some t \<Longrightarrow> i = j) \<Longrightarrow>
   (\<And>i t. token_of_phase (phase w i) = Some t \<Longrightarrow> t < fresh w) \<Longrightarrow> tokens_ok w"
  by (auto simp: tokens_ok_def)

text \<open>A request that does not reserve keeps its token or drops it.\<close>

lemma tokens_ok_upd:
  assumes "tokens_ok w" and "phase w' = (phase w)(i := p)" and "fresh w' = fresh w"
    and "token_of_phase p = token_of_phase (phase w i) \<or> token_of_phase p = None"
  shows "tokens_ok w'"
proof (rule tokens_okI)
  fix j k t
  have old: "token_of_phase (phase w' n) = Some t \<Longrightarrow> token_of_phase (phase w n) = Some t" for n t
    using assms(2,4) by (auto split: if_splits)
  show "j = k" if "token_of_phase (phase w' j) = Some t" and "token_of_phase (phase w' k) = Some t"
    using that [THEN old] by (rule tokens_okD(1) [OF assms(1)])
  show "t < fresh w'" if "token_of_phase (phase w' j) = Some t"
    using tokens_okD(2) [OF assms(1) old [OF that]] assms(3) by simp
qed

lemma tokens_step: "slot_step ops w w' \<Longrightarrow> tokens_ok w \<Longrightarrow> tokens_ok w'"
proof (induction rule: slot_step.induct)
  case (Reserve w i now av s)
  then show ?case
    by (auto simp: tokens_ok_def less_Suc_eq)
next
  case (Leave w i t b)
  then show ?case by (intro tokens_ok_upd [OF Leave(2), where i = i]) (auto split: option.splits)
next
  case (Give_up w i t)
  then show ?case by (intro tokens_ok_upd [OF Give_up(2), where i = i]) auto
next
  case (Enter w i t now s)
  then show ?case by (intro tokens_ok_upd [OF Enter(4), where i = i]) auto
next
  case (Direct w i now s)
  then show ?case by (intro tokens_ok_upd [OF Direct(4), where i = i]) auto
next
  case (Start w i t b now s)
  then show ?case by (intro tokens_ok_upd [OF Start(5), where i = i]) auto
next
  case (Finish w i t)
  then show ?case by (intro tokens_ok_upd [OF Finish(2), where i = i]) auto
qed

section \<open>The contract\<close>

locale provider_slot =
  fixes ops :: "'s slot_ops"
    and inv :: "'s \<Rightarrow> bool"
    and reserved :: "'s \<Rightarrow> token option"
    and busy :: "'s \<Rightarrow> bool"
    and last_start :: "'s \<Rightarrow> time option"
    and interval :: time
  assumes reserve_grants: "inv s \<Longrightarrow> op_reserve ops av now t s = Some s' \<Longrightarrow>
        reserved s = None \<and> \<not> busy s \<and> rested interval (last_start s) now \<and>
        reserved s' = Some t \<and> \<not> busy s' \<and> last_start s' = last_start s \<and> inv s'"
    and reserve_free: "inv s \<Longrightarrow> reserved s = None \<Longrightarrow> \<not> busy s \<Longrightarrow>
        rested interval (last_start s) now \<Longrightarrow> op_reserve ops True now t s \<noteq> None"
    and release_gives_back: "inv s \<Longrightarrow>
        reserved (op_release ops t s) = (if reserved s = Some t then None else reserved s) \<and>
        busy (op_release ops t s) = busy s \<and> last_start (op_release ops t s) = last_start s \<and>
        inv (op_release ops t s)"
    and enter_leases: "inv s \<Longrightarrow> op_enter ops now t s = Some s' \<Longrightarrow>
        reserved s = Some t \<and> \<not> busy s \<and> reserved s' = None \<and> busy s' \<and>
        last_start s' = last_start s \<and> inv s'"
    and enter_holder: "inv s \<Longrightarrow> reserved s = Some t \<Longrightarrow> \<not> busy s \<Longrightarrow> op_enter ops now t s \<noteq> None"
    and direct_leases: "inv s \<Longrightarrow> op_direct ops now s = Some s' \<Longrightarrow>
        reserved s = None \<and> \<not> busy s \<and> rested interval (last_start s) now \<and>
        reserved s' = None \<and> busy s' \<and> last_start s' = last_start s \<and> inv s'"
    and leave_frees: "inv s \<Longrightarrow>
        reserved (op_leave ops s) = reserved s \<and> \<not> busy (op_leave ops s) \<and>
        last_start (op_leave ops s) = last_start s \<and> inv (op_leave ops s)"
    and start_records: "inv s \<Longrightarrow> op_start ops now s = Some s' \<Longrightarrow>
        reserved s' = reserved s \<and> busy s' = busy s \<and> last_start s' = Some now \<and> inv s'"
begin

text \<open>What the slot knows and what the requests believe agree.\<close>

definition holders_ok :: "'s world \<Rightarrow> bool" where
  "holders_ok w \<longleftrightarrow> (\<forall>i t. phase w i = Holding t \<longrightarrow> reserved (cell w) = Some t) \<and>
     (\<forall>t. reserved (cell w) = Some t \<longrightarrow> (\<exists>i. phase w i = Holding t \<or> phase w i = Cleanup t))"

definition owners_ok :: "'s world \<Rightarrow> bool" where
  "owners_ok w \<longleftrightarrow> (busy (cell w) \<longleftrightarrow> (\<exists>i. owns (phase w i))) \<and>
     (\<forall>i j. owns (phase w i) \<longrightarrow> owns (phase w j) \<longrightarrow> i = j)"

definition agree :: "'s world \<Rightarrow> bool" where
  "agree w \<longleftrightarrow> inv (cell w) \<and> (reserved (cell w) \<noteq> None \<longrightarrow> \<not> busy (cell w)) \<and>
     holders_ok w \<and> owners_ok w \<and> tokens_ok w"

lemma owners_ok_same:
  "owners_ok w \<Longrightarrow> busy (cell w') = busy (cell w) \<Longrightarrow> (\<And>j. owns (phase w' j) = owns (phase w j)) \<Longrightarrow>
   owners_ok w'"
  by (simp add: owners_ok_def)

lemma owners_ok_free: "\<not> busy (cell w) \<Longrightarrow> (\<And>j. \<not> owns (phase w j)) \<Longrightarrow> owners_ok w"
  by (simp add: owners_ok_def)

lemma owners_ok_one:
  "busy (cell w) \<Longrightarrow> owns (phase w i) \<Longrightarrow> (\<And>j. j \<noteq> i \<Longrightarrow> \<not> owns (phase w j)) \<Longrightarrow> owners_ok w"
  unfolding owners_ok_def by metis

lemma holders_ok_free: "reserved (cell w) = None \<Longrightarrow> (\<And>j t. phase w j \<noteq> Holding t) \<Longrightarrow> holders_ok w"
  by (simp add: holders_ok_def)

lemma holders_ok_one:
  "reserved (cell w) = Some t \<Longrightarrow> phase w i = Holding t \<or> phase w i = Cleanup t \<Longrightarrow>
   (\<And>j t'. j \<noteq> i \<Longrightarrow> phase w j \<noteq> Holding t') \<Longrightarrow> holders_ok w"
  unfolding holders_ok_def by (metis option.sel phase.inject(1) phase.distinct(9))

lemma agreeI:
  "inv (cell w) \<Longrightarrow> reserved (cell w) = None \<or> \<not> busy (cell w) \<Longrightarrow> holders_ok w \<Longrightarrow> owners_ok w \<Longrightarrow>
   tokens_ok w \<Longrightarrow> agree w"
  by (auto simp: agree_def)

lemma agree_idle: "inv s \<Longrightarrow> reserved s = None \<Longrightarrow> \<not> busy s \<Longrightarrow> agree (idle_world s)"
  by (simp add: agree_def holders_ok_def owners_ok_def tokens_ok_def idle_world_def)

lemma agree_step:
  assumes "slot_step ops w w'" and "agree w"
  shows "agree w'"
proof -
  have I: "inv (cell w)" and X: "reserved (cell w) \<noteq> None \<longrightarrow> \<not> busy (cell w)"
    and H: "holders_ok w" and O: "owners_ok w" and T: "tokens_ok w"
    using assms(2) by (simp_all add: agree_def)
  have owned: "reserved (cell w) = None" if "phase w i = Owning t b" for i t b
  proof -
    have "owns (phase w i)" using that by simp
    then show ?thesis using X O unfolding owners_ok_def by blast
  qed
  have T': "tokens_ok w'" using assms(1) T by (rule tokens_step)
  have one: "i = j" if "phase w i = Holding t" and "phase w j = Holding t'" for i j t t'
  proof -
    have "reserved (cell w) = Some t" "reserved (cell w) = Some t'"
      using H that(1) H that(2) unfolding holders_ok_def by blast+
    then show ?thesis using that by (intro tokens_okD(1) [OF T, of i t j]) auto
  qed
  show ?thesis
    using assms(1)
  proof cases
    case (Reserve i now av s)
    note R = reserve_grants [OF I Reserve(4)]
    have no: "phase w j \<noteq> Holding t" "\<not> owns (phase w j)" for j t
      using H O R by (auto simp: holders_ok_def owners_ok_def)
    have "holders_ok w'" using R no Reserve(1) by (intro holders_ok_one [where i = i]) auto
    moreover have "owners_ok w'" using R no Reserve(1) by (intro owners_ok_free) auto
    ultimately show ?thesis using T' R Reserve(1) by (intro agreeI) auto
  next
    case (Give_up i t)
    have no: "j \<noteq> i \<Longrightarrow> phase w j \<noteq> Holding t'" for j t' using one [OF _ Give_up(2)] by blast
    have r: "reserved (cell w) = Some t" using H Give_up(2) by (simp add: holders_ok_def)
    then have "holders_ok w'" using no Give_up(1) by (intro holders_ok_one [where i = i]) auto
    moreover have "owners_ok w'" using Give_up(1,2) by (intro owners_ok_same [OF O]) auto
    ultimately show ?thesis using T' I X r Give_up(1) by (intro agreeI) auto
  next
    case (Enter i t now s)
    note R = enter_leases [OF I Enter(4)]
    have no: "\<not> owns (phase w j)" "j \<noteq> i \<Longrightarrow> phase w j \<noteq> Holding t'" for j t'
      using O R one [OF _ Enter(2)] by (auto simp: owners_ok_def)
    have "holders_ok w'" using R no Enter(1) by (intro holders_ok_free) auto
    moreover have "owners_ok w'" using R no Enter(1) by (intro owners_ok_one [where i = i]) auto
    ultimately show ?thesis using T' R Enter(1) by (intro agreeI) auto
  next
    case (Direct i now s)
    note R = direct_leases [OF I Direct(4)]
    have no: "phase w j \<noteq> Holding t" "\<not> owns (phase w j)" for j t
      using H O R by (auto simp: holders_ok_def owners_ok_def)
    have "holders_ok w'" using R no Direct(1) by (intro holders_ok_free) auto
    moreover have "owners_ok w'" using R no Direct(1) by (intro owners_ok_one [where i = i]) auto
    ultimately show ?thesis using T' R Direct(1) by (intro agreeI) auto
  next
    case (Start i t b now s)
    note R = start_records [OF I Start(5)]
    have free: "reserved (cell w) = None" by (rule owned [OF Start(2)])
    then have "holders_ok w'" using R H Start(1) by (intro holders_ok_free) (auto simp: holders_ok_def)
    moreover have "owners_ok w'" using R Start(1,2) by (intro owners_ok_same [OF O]) auto
    ultimately show ?thesis using T' R free Start(1) by (intro agreeI) auto
  next
    case (Leave i t b)
    note R = leave_frees [OF I]
    have free: "reserved (cell w) = None" by (rule owned [OF Leave(2)])
    then have "holders_ok w'" using R H Leave(1)
      by (intro holders_ok_free) (auto simp: holders_ok_def split: option.splits)
    moreover have "j \<noteq> i \<Longrightarrow> \<not> owns (phase w j)" for j
      using O Leave(2) unfolding owners_ok_def by (metis owns.simps(1))
    then have "owners_ok w'" using R Leave(1) by (intro owners_ok_free) (auto split: option.splits)
    ultimately show ?thesis using T' R Leave(1) by (intro agreeI) auto
  next
    case (Finish i t)
    note R = release_gives_back [OF I, of t]
    have other: "t' \<noteq> t" if "phase w j = Holding t'" for j t'
      using tokens_okD(1) [OF T, of i t j] Finish(2) that by fastforce
    have "holders_ok w'"
      unfolding holders_ok_def
    proof (intro conjI allI impI)
      fix j t' assume "phase w' j = Holding t'"
      then have "phase w j = Holding t'" using Finish(1) by (auto split: if_splits)
      then show "reserved (cell w') = Some t'"
        using other R H Finish(1) by (simp add: holders_ok_def)
    next
      fix t' assume "reserved (cell w') = Some t'"
      then have "t' \<noteq> t" "reserved (cell w) = Some t'" using R Finish(1) by (auto split: if_splits)
      moreover from this obtain j where "phase w j = Holding t' \<or> phase w j = Cleanup t'"
        using H by (auto simp: holders_ok_def)
      ultimately show "\<exists>j. phase w' j = Holding t' \<or> phase w' j = Cleanup t'"
        using Finish(1,2) by (intro exI [of _ j]) auto
    qed
    moreover have "owners_ok w'" using R Finish(1,2) by (intro owners_ok_same [OF O]) auto
    ultimately show ?thesis using T' R X Finish(1) by (intro agreeI) auto
  qed
qed

lemma agree_reachable:
  assumes "inv s" and "reserved s = None" and "\<not> busy s" and "reachable ops s w"
  shows "agree w"
  using assms(4)
proof (induction rule: reachable_induct)
  case init
  show ?case using assms(1-3) by (rule agree_idle)
next
  case (step w w')
  then show ?case by (rule agree_step [rotated])
qed

text \<open>At most one request owns the slot, and none is reserved meanwhile.\<close>

lemma one_owner: "agree w \<Longrightarrow> owns (phase w i) \<Longrightarrow> owns (phase w j) \<Longrightarrow> i = j"
  by (simp add: agree_def owners_ok_def)

lemma owner_excludes_holder: "agree w \<Longrightarrow> owns (phase w i) \<Longrightarrow> phase w j \<noteq> Holding t"
  by (auto simp: agree_def owners_ok_def holders_ok_def)

lemma agree_holder: "agree w \<Longrightarrow> phase w i = Holding t \<Longrightarrow> reserved (cell w) = Some t"
  by (simp add: agree_def holders_ok_def)

text \<open>A reservation that was granted is honoured.\<close>

lemma holder_enters: "agree w \<Longrightarrow> phase w i = Holding t \<Longrightarrow> op_enter ops now t (cell w) \<noteq> None"
  by (rule enter_holder) (auto simp: agree_def holders_ok_def)

text \<open>Once every request is done the slot is free again: no capacity is lost.\<close>

lemma all_idle_free:
  assumes "agree w" and "\<And>i. phase w i = Idle"
  shows "reserved (cell w) = None" and "\<not> busy (cell w)"
  using assms by (force simp: agree_def holders_ok_def owners_ok_def)+

lemma all_idle_reserves:
  assumes "agree w" and "\<And>i. phase w i = Idle" and "rested interval (last_start (cell w)) now"
  shows "op_reserve ops True now t (cell w) \<noteq> None"
  using assms(1) by (intro reserve_free all_idle_free [OF assms(1,2)] assms(3)) (simp add: agree_def)

end

text \<open>
  A slot also paces the attempts: either every start checks the interval again, or a lease
  starts one attempt only and the interval was checked when it was reserved.
\<close>

locale paced_slot = provider_slot +
  assumes start_paced: "inv s \<Longrightarrow> op_start ops now s = Some s' \<Longrightarrow> op_restart ops \<Longrightarrow>
    rested interval (last_start s) now"
begin

definition paced :: "'a world \<Rightarrow> bool" where
  "paced w \<longleftrightarrow> spaced interval (starts w) \<and> last_start (cell w) = latest (starts w) \<and>
     (\<forall>i. awaits_start (phase w i) \<longrightarrow> \<not> op_restart ops \<longrightarrow>
        rested interval (last_start (cell w)) (clock w))"

lemma pacedI:
  assumes "paced w" and "starts w' = starts w" and "last_start (cell w') = last_start (cell w)"
    and "\<And>i. awaits_start (phase w' i) \<Longrightarrow> \<not> op_restart ops \<Longrightarrow> rested interval (last_start (cell w)) (clock w')"
  shows "paced w'"
  using assms by (simp add: paced_def)

lemma pacedD: "paced w \<Longrightarrow> awaits_start (phase w i) \<Longrightarrow> \<not> op_restart ops \<Longrightarrow> clock w \<le> now \<Longrightarrow>
    rested interval (last_start (cell w)) now"
  by (auto simp: paced_def intro: rested_later)

lemma paced_step:
  assumes "slot_step ops w w'" and "agree w" and P: "paced w"
  shows "paced w'"
proof -
  have I: "inv (cell w)" using assms(2) by (simp add: agree_def)
  show ?thesis
    using assms(1)
  proof cases
    case (Reserve i now av s)
    show ?thesis using reserve_grants [OF I Reserve(4)] Reserve(1)
      by (intro pacedI [OF P]) auto
  next
    case (Give_up i t)
    show ?thesis using Give_up(1) pacedD [OF P]
      by (intro pacedI [OF P]) (auto split: if_splits)
  next
    case (Enter i t now s)
    have "\<not> op_restart ops \<Longrightarrow> rested interval (last_start (cell w)) now"
      using pacedD [OF P, of i now] Enter(2,3) by simp
    then show ?thesis using enter_leases [OF I Enter(4)] Enter(1)
      by (intro pacedI [OF P]) auto
  next
    case (Direct i now s)
    show ?thesis using direct_leases [OF I Direct(4)] Direct(1)
      by (intro pacedI [OF P]) auto
  next
    case (Start i t b now s)
    have "rested interval (last_start (cell w)) now"
    proof (cases "op_restart ops")
      case True
      then show ?thesis using start_paced [OF I Start(5)] by simp
    next
      case False
      then show ?thesis using pacedD [OF P, of i now] Start(2-4) by simp
    qed
    moreover have "phase w j \<noteq> Holding t'" "owns (phase w j) \<Longrightarrow> j = i" for j t'
      using owner_excludes_holder [OF assms(2), of i j] one_owner [OF assms(2), of j i] Start(2) by auto
    then have "\<not> awaits_start (phase w' j)" for j
      using Start(1) by (cases "phase w j") (auto split: if_splits)
    ultimately show ?thesis using P start_records [OF I Start(5)] Start(1)
      by (cases "starts w") (auto simp: paced_def spaced_Cons)
  next
    case (Leave i t b)
    show ?thesis using leave_frees [OF I] Leave(1) pacedD [OF P]
      by (intro pacedI [OF P]) (auto split: option.splits if_splits)
  next
    case (Finish i t)
    show ?thesis using release_gives_back [OF I, of t] Finish(1) pacedD [OF P]
      by (intro pacedI [OF P]) (auto split: if_splits)
  qed
qed

lemma reachable_paced:
  assumes "inv s" and "reserved s = None" and "\<not> busy s" and "last_start s = None"
    and "reachable ops s w"
  shows "spaced interval (starts w)"
proof -
  have "agree w \<and> paced w"
    using assms(5)
  proof (induction rule: reachable_induct)
    case init
    show ?case using agree_idle [OF assms(1-3)] assms(4)
      by (simp add: paced_def idle_world_def spaced_def)
  next
    case (step w w')
    then show ?case using agree_step paced_step by blast
  qed
  then show ?thesis by (simp add: paced_def)
qed

end

end
