(* ===== verification/Browser_Session.thy ===== *)
theory Browser_Session
  imports Slot
begin

text \<open>
  \<open>_ProviderBrowserSession\<close> of \<open>src/searxng/engines/_obscura.py\<close>: the one retained browser
  connection of a provider and its idle timer. All of it runs on the providers' event loop, so
  the code between two awaits is one step; what the shared client leaves behind (is the
  connection still retained, does an Anubis challenge wait) is an input of the step that
  follows it.
\<close>

text \<open>The shared client's session object, as far as this class looks at it.\<close>

record client_session =
  sess_id :: nat
  sess_active :: bool
  sess_pending :: bool

text \<open>
  \<open>bs_idle\<close> is \<open>_idle_handle\<close> with the time and the generation it was scheduled with;
  \<open>bs_expiry\<close> is \<open>_expiry_task\<close> with the generation it will compare.
\<close>

record browser =
  bs_session :: "client_session option"
  bs_idle :: "(time \<times> nat) option"
  bs_deadline :: "time option"
  bs_expiry :: "nat option"
  bs_generation :: nat
  bs_next :: nat

datatype browser_event = Opened nat | Closed nat | Aborted nat | Discarded nat

definition provider_session_idle_seconds :: time where
  "provider_session_idle_seconds = 3600"

definition new_browser :: browser where
  "new_browser = \<lparr>bs_session = None, bs_idle = None, bs_deadline = None, bs_expiry = None,
     bs_generation = 0, bs_next = 0\<rparr>"

text \<open>\<open>_expire\<close>: the session is dropped and closed, whether its close succeeds or not.\<close>

definition expire :: "nat \<Rightarrow> browser \<Rightarrow> browser_event list \<times> browser" where
  "expire g b = (case bs_session b of
     Some s \<Rightarrow> (if g \<noteq> bs_generation b then ([], b)
       else ([Closed (sess_id s)], b\<lparr>bs_session := None, bs_idle := None, bs_deadline := None\<rparr>))
   | None \<Rightarrow> ([], b))"

text \<open>\<open>_begin_expiry\<close>, the timer's callback: the task it creates runs later.\<close>

definition begin_expiry :: "nat \<Rightarrow> browser \<Rightarrow> browser" where
  "begin_expiry g b = b\<lparr>bs_idle := None, bs_deadline := None, bs_expiry := Some g\<rparr>"

definition finish_expiry :: "browser \<Rightarrow> browser_event list \<times> browser" where
  "finish_expiry b = (case bs_expiry b of
     None \<Rightarrow> ([], b)
   | Some g \<Rightarrow> (case expire g b of (es, b') \<Rightarrow> (es, b'\<lparr>bs_expiry := None\<rparr>)))"

text \<open>
  \<open>_run_submit\<close> up to the call of the shared client. The result holds the session the
  client gets and whether it counts as reused.
\<close>

definition stop_idle_timer :: "time \<Rightarrow> browser \<Rightarrow> browser_event list \<times> browser" where
  "stop_idle_timer now b = (case bs_idle b of
     None \<Rightarrow> ([], b)
   | Some _ \<Rightarrow>
       (let reached = (case bs_deadline b of None \<Rightarrow> False | Some d \<Rightarrow> d \<le> now);
            b' = b\<lparr>bs_idle := None, bs_deadline := None\<rparr>
        in if reached then expire (bs_generation b') b' else ([], b')))"

definition next_session :: "browser \<Rightarrow> browser_event list \<times> client_session \<times> bool \<times> browser" where
  "next_session b =
     (let b = b\<lparr>bs_generation := Suc (bs_generation b)\<rparr>
      in case bs_session b of
        Some s \<Rightarrow> ([], s, sess_active s, b)
      | None \<Rightarrow>
          (let s = \<lparr>sess_id = bs_next b, sess_active = False, sess_pending = False\<rparr>
           in ([Opened (bs_next b)], s, False, b\<lparr>bs_session := Some s, bs_next := Suc (bs_next b)\<rparr>)))"

definition begin_submit :: "time \<Rightarrow> browser \<Rightarrow> browser_event list \<times> client_session \<times> bool \<times> browser" where
  "begin_submit now b =
     (case stop_idle_timer now b of (es1, b1) \<Rightarrow>
      case finish_expiry b1 of (es2, b2) \<Rightarrow>
      case next_session b2 of (es3, s, reused, b3) \<Rightarrow> (es1 @ es2 @ es3, s, reused, b3))"

text \<open>
  The \<open>finally\<close> clauses of \<open>_run_submit\<close> (generation \<open>g\<close>, session \<open>s\<close> as the client left it)
  and of \<open>_run_resume\<close>, which does not look at a pending challenge.
\<close>

definition schedule_idle :: "time \<Rightarrow> nat \<Rightarrow> browser \<Rightarrow> browser" where
  "schedule_idle now g b = b\<lparr>bs_deadline := Some (now + provider_session_idle_seconds),
     bs_idle := Some (now + provider_session_idle_seconds, g)\<rparr>"

definition discard_session :: "client_session \<Rightarrow> browser \<Rightarrow> browser_event list \<times> browser" where
  "discard_session s b =
     (if map_option sess_id (bs_session b) = Some (sess_id s)
      then ([Discarded (sess_id s)], b\<lparr>bs_session := None\<rparr>) else ([], b))"

definition store_session :: "client_session \<Rightarrow> browser \<Rightarrow> browser" where
  "store_session s b =
     (if map_option sess_id (bs_session b) = Some (sess_id s) then b\<lparr>bs_session := Some s\<rparr> else b)"

definition end_submit :: "time \<Rightarrow> nat \<Rightarrow> client_session \<Rightarrow> browser \<Rightarrow> browser_event list \<times> browser" where
  "end_submit now g s b =
     (if sess_pending s then ([], store_session s b\<lparr>bs_deadline := None, bs_idle := None\<rparr>)
      else if sess_active s then ([], schedule_idle now g (store_session s b))
      else discard_session s b)"

definition end_resume :: "time \<Rightarrow> nat \<Rightarrow> client_session \<Rightarrow> browser \<Rightarrow> browser_event list \<times> browser" where
  "end_resume now g s b =
     (if sess_active s then ([], schedule_idle now g (store_session s b))
      else discard_session s b)"

definition begin_resume :: "browser \<Rightarrow> (client_session \<times> nat) option" where
  "begin_resume b = map_option (\<lambda>s. (s, bs_generation b)) (bs_session b)"

text \<open>\<open>abort_sync\<close>: the shared client closes the challenged session, the owner forgets it.\<close>

definition abort_session :: "browser \<Rightarrow> browser_event list \<times> browser" where
  "abort_session b = (case bs_session b of
     None \<Rightarrow> ([], b)
   | Some s \<Rightarrow> ([Aborted (sess_id s)], b\<lparr>bs_session := None\<rparr>))"

definition close_browser :: "browser \<Rightarrow> browser_event list \<times> browser" where
  "close_browser b =
     (if bs_session b = None \<and> bs_idle b = None \<and> bs_expiry b = None then ([], b)
      else let b1 = (if bs_idle b \<noteq> None then b\<lparr>bs_idle := None, bs_deadline := None\<rparr> else b)
           in case finish_expiry b1 of (es, b2) \<Rightarrow>
              (case bs_session b2 of
                 None \<Rightarrow> (es, b2)
               | Some s \<Rightarrow> (es @ [Closed (sess_id s)], b2\<lparr>bs_session := None\<rparr>)))"

section \<open>The life of a provider's browser\<close>

text \<open>
  What happens on the event loop, with the provider's lease held from the start of a
  submission to its end, its resumption or its abort.
\<close>

datatype stage = Ready | Submitting client_session nat | Challenged | Resuming client_session nat

record browser_run =
  br_browser :: browser
  br_stage :: stage
  br_clock :: time
  br_log :: "browser_event list"
  br_used :: "time option"

inductive browser_step :: "browser_run \<Rightarrow> browser_run \<Rightarrow> bool" where
  Timer: "bs_idle (br_browser r) = Some (d, g) \<Longrightarrow> d \<le> now \<Longrightarrow> br_clock r \<le> now \<Longrightarrow>
    browser_step r (r\<lparr>br_browser := begin_expiry g (br_browser r), br_clock := now\<rparr>)"
| Expire: "bs_expiry (br_browser r) \<noteq> None \<Longrightarrow> finish_expiry (br_browser r) = (es, b) \<Longrightarrow>
    browser_step r (r\<lparr>br_browser := b, br_log := br_log r @ es\<rparr>)"
| Submit: "br_stage r = Ready \<Longrightarrow> br_clock r \<le> now \<Longrightarrow>
    begin_submit now (br_browser r) = (es, s, reused, b) \<Longrightarrow>
    browser_step r (r\<lparr>br_browser := b, br_stage := Submitting s (bs_generation b), br_clock := now,
      br_log := br_log r @ es\<rparr>)"
| Submitted: "br_stage r = Submitting s g \<Longrightarrow> br_clock r \<le> now \<Longrightarrow> sess_id s' = sess_id s \<Longrightarrow>
    (sess_pending s' \<longrightarrow> sess_active s') \<Longrightarrow>
    end_submit now g s' (br_browser r) = (es, b) \<Longrightarrow>
    browser_step r (r\<lparr>br_browser := b, br_stage := if sess_pending s' then Challenged else Ready,
      br_clock := now, br_log := br_log r @ es, br_used := Some now\<rparr>)"
| Resume: "br_stage r = Challenged \<Longrightarrow> begin_resume (br_browser r) = Some (s, g) \<Longrightarrow>
    browser_step r (r\<lparr>br_stage := Resuming s g\<rparr>)"
| Resumed: "br_stage r = Resuming s g \<Longrightarrow> br_clock r \<le> now \<Longrightarrow> sess_id s' = sess_id s \<Longrightarrow>
    \<not> sess_pending s' \<Longrightarrow>
    end_resume now g s' (br_browser r) = (es, b) \<Longrightarrow>
    browser_step r (r\<lparr>br_browser := b, br_stage := Ready, br_clock := now, br_log := br_log r @ es,
      br_used := Some now\<rparr>)"
| Abort: "br_stage r = Challenged \<Longrightarrow> abort_session (br_browser r) = (es, b) \<Longrightarrow>
    browser_step r (r\<lparr>br_browser := b, br_stage := Ready, br_log := br_log r @ es\<rparr>)"
| Close: "br_stage r = Ready \<Longrightarrow> close_browser (br_browser r) = (es, b) \<Longrightarrow>
    browser_step r (r\<lparr>br_browser := b, br_log := br_log r @ es\<rparr>)"

definition browser_start :: browser_run where
  "browser_start = \<lparr>br_browser = new_browser, br_stage = Ready, br_clock = 0, br_log = [], br_used = None\<rparr>"

definition browser_reachable :: "browser_run \<Rightarrow> bool" where
  "browser_reachable = browser_step\<^sup>*\<^sup>* browser_start"

text \<open>
  The connection slot a provider consumes, read off the log: \<open>None\<close> once a session was
  opened while another was still open, or one was closed that was not.
\<close>

fun slot_use :: "nat option \<Rightarrow> browser_event list \<Rightarrow> nat option option" where
  "slot_use u [] = Some u"
| "slot_use u (Opened n # es) = (if u = None then slot_use (Some n) es else None)"
| "slot_use u (Closed n # es) = (if u = Some n then slot_use None es else None)"
| "slot_use u (Aborted n # es) = (if u = Some n then slot_use None es else None)"
| "slot_use u (Discarded n # es) = (if u = Some n then slot_use None es else None)"

lemma slot_use_append: "slot_use u (xs @ ys) = Option.bind (slot_use u xs) (\<lambda>v. slot_use v ys)"
  by (induction u xs rule: slot_use.induct) auto

lemmas browser_ops = begin_expiry_def finish_expiry_def expire_def stop_idle_timer_def
  next_session_def begin_submit_def schedule_idle_def discard_session_def store_session_def
  end_submit_def end_resume_def begin_resume_def abort_session_def close_browser_def

section \<open>Invariants\<close>

definition resting :: "browser \<Rightarrow> time option \<Rightarrow> time \<Rightarrow> bool" where
  "resting b used now \<longleftrightarrow>
     bs_session b = None \<and> bs_idle b = None \<and> bs_expiry b = None \<or>
     (\<exists>s t. bs_session b = Some s \<and> sess_active s \<and> \<not> sess_pending s \<and> used = Some t \<and> t \<le> now \<and>
        (bs_idle b = Some (t + provider_session_idle_seconds, bs_generation b) \<and>
           bs_deadline b = Some (t + provider_session_idle_seconds) \<and> bs_expiry b = None \<or>
         bs_idle b = None \<and> bs_expiry b = Some (bs_generation b) \<and>
           t + provider_session_idle_seconds \<le> now))"

definition working :: "browser \<Rightarrow> nat \<Rightarrow> nat \<Rightarrow> bool" where
  "working b n g \<longleftrightarrow> map_option sess_id (bs_session b) = Some n \<and> g = bs_generation b \<and>
     bs_idle b = None \<and> bs_expiry b = None"

fun stage_ok :: "stage \<Rightarrow> browser_run \<Rightarrow> bool" where
  "stage_ok Ready r = resting (br_browser r) (br_used r) (br_clock r)"
| "stage_ok (Submitting s g) r = working (br_browser r) (sess_id s) g"
| "stage_ok (Resuming s g) r = working (br_browser r) (sess_id s) g"
| "stage_ok Challenged r = (\<exists>n. working (br_browser r) n (bs_generation (br_browser r)))"

definition browser_ok :: "browser_run \<Rightarrow> bool" where
  "browser_ok r \<longleftrightarrow> stage_ok (br_stage r) r \<and>
     slot_use None (br_log r) = Some (map_option sess_id (bs_session (br_browser r)))"

lemma resting_submit:
  assumes "begin_submit now b = (es, s, reused, b')" and "resting b used t" and "t \<le> now"
  shows "working b' (sess_id s) (bs_generation b') \<and>
    slot_use (map_option sess_id (bs_session b)) es = Some (Some (sess_id s))"
  using assms
  by (auto simp: resting_def working_def browser_ops Let_def split: if_splits option.splits prod.splits)

lemma ended_rests:
  assumes "working b n g" and "sess_id s = n" and "\<not> sess_pending s"
  shows "end_submit now g s b = (es, b') \<Longrightarrow> resting b' (Some now) now \<and>
      slot_use (Some n) es = Some (map_option sess_id (bs_session b'))"
    and "end_resume now g s b = (es, b') \<Longrightarrow> resting b' (Some now) now \<and>
      slot_use (Some n) es = Some (map_option sess_id (bs_session b'))"
  using assms by (auto simp: resting_def working_def browser_ops split: if_splits option.splits)

lemma browser_step_ok: "browser_step r r' \<Longrightarrow> browser_ok r \<Longrightarrow> browser_ok r'"
proof (induction rule: browser_step.induct)
  case (Timer r d g now)
  then show ?case
    by (cases "br_stage r") (auto simp: browser_ok_def resting_def working_def begin_expiry_def)
next
  case (Expire r es b)
  then show ?case
    by (cases "br_stage r")
      (auto simp: browser_ok_def resting_def working_def finish_expiry_def expire_def slot_use_append
        split: option.splits if_splits)
next
  case (Submit r now es s reused b)
  then have "resting (br_browser r) (br_used r) (br_clock r)" by (simp add: browser_ok_def)
  from resting_submit [OF Submit(3) this Submit(2)] Submit show ?case
    by (auto simp: browser_ok_def slot_use_append working_def)
next
  case (Submitted r s g now s' es b)
  show ?case
  proof (cases "sess_pending s'")
    case True
    with Submitted show ?thesis
      by (auto simp: browser_ok_def working_def end_submit_def store_session_def)
  next
    case False
    with Submitted ended_rests(1) [of "br_browser r" "sess_id s" g s' now es b] show ?thesis
      by (auto simp: browser_ok_def slot_use_append working_def)
  qed
next
  case (Resume r s g)
  then show ?case by (auto simp: browser_ok_def begin_resume_def working_def)
next
  case (Resumed r s g now s' es b)
  with ended_rests(2) [of "br_browser r" "sess_id s" g s' now es b] show ?case
    by (auto simp: browser_ok_def slot_use_append working_def)
next
  case (Abort r es b)
  then show ?case
    by (auto simp: browser_ok_def abort_session_def working_def resting_def slot_use_append)
next
  case (Close r es b)
  then show ?case
    by (auto simp: browser_ok_def close_browser_def resting_def slot_use_append finish_expiry_def
      expire_def split: option.splits if_splits)
qed

lemma browser_reachable_ok: "browser_reachable r \<Longrightarrow> browser_ok r"
  unfolding browser_reachable_def
proof (induction rule: rtranclp_induct)
  case base
  show ?case by (simp add: browser_ok_def browser_start_def new_browser_def resting_def)
next
  case (step r r')
  show ?case by (rule browser_step_ok [OF step(2,3)])
qed

text \<open>
  A provider never uses two connection slots: in every run a session is opened
  only after the one before was closed, aborted or discarded, also on the expiry boundary. And a
  connection kept between queries always has its end in sight: it carries a timer for exactly
  3600 seconds after its last use, or its expiry is already running.\<close>

theorem browser_one_connection:
  assumes "browser_reachable r"
  shows "slot_use None (br_log r) = Some (map_option sess_id (bs_session (br_browser r))) \<and>
    (br_stage r = Ready \<longrightarrow> bs_session (br_browser r) \<noteq> None \<longrightarrow>
      (\<exists>u. br_used r = Some u \<and>
        (bs_idle (br_browser r) = Some (u + 3600, bs_generation (br_browser r)) \<or>
         bs_expiry (br_browser r) = Some (bs_generation (br_browser r)) \<and> u + 3600 \<le> br_clock r)))"
  using browser_reachable_ok [OF assms]
  by (cases "br_stage r")
    (auto simp: browser_ok_def resting_def provider_session_idle_seconds_def)

definition client_left :: "nat \<Rightarrow> client_session" where
  "client_left n = \<lparr>sess_id = n, sess_active = True, sess_pending = False\<rparr>"

definition used_browser :: browser_run where
  "used_browser = \<lparr>br_browser = new_browser\<lparr>bs_session := Some (client_left 0), bs_idle := Some (3605, 1),
       bs_deadline := Some 3605, bs_generation := 1, bs_next := 1\<rparr>,
     br_stage = Ready, br_clock = 5, br_log = [Opened 0], br_used = Some 5\<rparr>"

lemma used_browser_reachable: "browser_reachable used_browser"
proof -
  define s0 where "s0 = \<lparr>sess_id = 0, sess_active = False, sess_pending = False\<rparr>"
  define b0 where "b0 = new_browser\<lparr>bs_generation := 1, bs_session := Some s0, bs_next := 1\<rparr>"
  define r0 where "r0 = browser_start\<lparr>br_browser := b0, br_stage := Submitting s0 1, br_clock := 1,
    br_log := [Opened 0]\<rparr>"
  have "begin_submit 1 (br_browser browser_start) = ([Opened 0], s0, False, b0)"
    by (simp add: browser_ops new_browser_def s0_def b0_def Let_def browser_start_def)
  from Submit [OF _ _ this] have first: "browser_step browser_start r0"
    by (simp add: browser_start_def r0_def b0_def)
  have "browser_step r0 used_browser"
    using Submitted [of r0 s0 1 5 "client_left 0" "[]" "br_browser used_browser"]
    by (simp add: r0_def s0_def b0_def browser_start_def client_left_def used_browser_def browser_ops
      provider_session_idle_seconds_def new_browser_def)
  with first show ?thesis by (simp add: browser_reachable_def)
qed

theorem browser_one_connection_witness:
  "slot_use None (br_log used_browser) = Some (Some 0) \<and> bs_idle (br_browser used_browser) = Some (3605, 1)"
  using browser_one_connection [OF used_browser_reachable]
  by (simp add: used_browser_def client_left_def)

text \<open>
  The next query decides by the clock, not by the timer: once 3600 seconds have
  passed since the last use the retained session is closed and a new one is opened, whether the
  timer has fired or not, and before that the same session is reused without opening
  anything.\<close>

theorem idle_session_not_revived:
  assumes "browser_reachable r" and "br_stage r = Ready" and "br_clock r \<le> now"
    and "bs_session (br_browser r) = Some s0" and "br_used r = Some u"
    and "begin_submit now (br_browser r) = (es, s, reused, b)"
  shows "if u + 3600 \<le> now
    then es = [Closed (sess_id s0), Opened (sess_id s)] \<and> sess_id s = bs_next (br_browser r) \<and> \<not> reused
    else es = [] \<and> s = s0 \<and> reused"
  using browser_reachable_ok [OF assms(1)] assms(2-)
  by (auto simp: browser_ok_def resting_def browser_ops Let_def provider_session_idle_seconds_def
    split: if_splits option.splits prod.splits)

theorem idle_session_not_revived_witness:
  "(case begin_submit 4000 (br_browser used_browser) of
      (es, s, reused, b) \<Rightarrow> es = [Closed 0, Opened 1] \<and> \<not> reused)"
proof -
  obtain es s reused b where B: "begin_submit 4000 (br_browser used_browser) = (es, s, reused, b)"
    by (metis prod_cases4)
  show ?thesis
    using idle_session_not_revived [OF used_browser_reachable _ _ _ _ B, of "client_left 0" 5] B
    by (simp add: used_browser_def client_left_def new_browser_def)
qed

end
