(* ===== verification/Provider_Pool.thy ===== *)
theory Provider_Pool
  imports Browser_Session
begin

text \<open>
  Provider admission of \<open>src/searxng/engines/_obscura.py\<close>: the states of the Obscura
  providers, their reservations and leases, the capacity generation on which the scheduler
  waits. Each function holds the provider's lock, so each is one step on the pool.
\<close>

text \<open>The exceptions of \<open>searx.exceptions\<close> the engines raise, by their message.\<close>

datatype searx_error =
    Response_error string
  | Too_many_requests string
  | Access_denied string
  | Captcha string
  | Key_error string

record provider =
  pv_active :: bool
  pv_deadline :: "time option"
  pv_reservation :: "token option"
  pv_last_start :: "time option"
  pv_browser :: "browser option"

record pool =
  providers :: "pystr \<rightharpoonup> provider"
  capacity_generation :: nat

definition minimum_start_interval :: time where
  "minimum_start_interval = 3"

definition provider_names :: "pystr list" where
  "provider_names = [''google2'', ''brave2'', ''duckduckgo2'', ''startpage2'', ''bing2'']"

definition new_provider :: provider where
  "new_provider = \<lparr>pv_active = False, pv_deadline = None, pv_reservation = None,
     pv_last_start = None, pv_browser = None\<rparr>"

definition pool_init :: pool where
  "pool_init = \<lparr>providers = map_of (map (\<lambda>n. (n, new_provider)) provider_names), capacity_generation = 0\<rparr>"

definition provider_capacity_changed :: "pool \<Rightarrow> pool" where
  "provider_capacity_changed P = P\<lparr>capacity_generation := Suc (capacity_generation P)\<rparr>"

definition set_provider :: "pystr \<Rightarrow> provider \<Rightarrow> pool \<Rightarrow> pool" where
  "set_provider n p P = P\<lparr>providers := (providers P)(n \<mapsto> p)\<rparr>"

text \<open>\<open>state.active\<close>, \<open>state.reservation\<close> and the interval, as three functions test them.\<close>

definition unavailable :: "time \<Rightarrow> provider \<Rightarrow> bool" where
  "unavailable now p \<longleftrightarrow> pv_active p \<or> pv_reservation p \<noteq> None \<or>
     \<not> rested minimum_start_interval (pv_last_start p) now"

definition provider_available :: "time \<Rightarrow> pystr \<Rightarrow> pool \<Rightarrow> searx_error + bool" where
  "provider_available now n P = (case providers P n of
     None \<Rightarrow> Inl (Key_error n)
   | Some p \<Rightarrow> Inr (\<not> unavailable now p))"

definition reserve_provider :: "time \<Rightarrow> token \<Rightarrow> pystr \<Rightarrow> pool \<Rightarrow> searx_error + (token option \<times> pool)" where
  "reserve_provider now t n P = (case providers P n of
     None \<Rightarrow> Inl (Key_error n)
   | Some p \<Rightarrow>
       (if unavailable now p then Inr (None, P)
        else Inr (Some t, provider_capacity_changed (set_provider n (p\<lparr>pv_reservation := Some t\<rparr>) P))))"

definition release_provider_reservation :: "pystr \<Rightarrow> token option \<Rightarrow> pool \<Rightarrow> pool" where
  "release_provider_reservation n t P = (case providers P n of
     None \<Rightarrow> P
   | Some p \<Rightarrow>
       (if t \<noteq> None \<and> pv_reservation p = t
        then provider_capacity_changed (set_provider n (p\<lparr>pv_reservation := None\<rparr>) P)
        else P))"

section \<open>The lease\<close>

text \<open>An engine deadline is a float: a finite time, or infinity or not a number.\<close>

datatype deadline = No_deadline | Finite time | Not_finite

fun finite_deadline :: "deadline \<Rightarrow> time option" where
  "finite_deadline (Finite d) = Some d"
| "finite_deadline _ = None"

definition provider_lease_enter ::
  "time \<Rightarrow> pystr \<Rightarrow> token option \<Rightarrow> deadline \<Rightarrow> pool \<Rightarrow> searx_error + pool" where
  "provider_lease_enter now n t d P =
     (if d = Not_finite then Inl (Response_error (n @ '': provider engine deadline is invalid''))
      else case providers P n of
        None \<Rightarrow> Inl (Key_error n)
      | Some p \<Rightarrow>
          (case t of
             Some _ \<Rightarrow>
               (if pv_reservation p \<noteq> t \<or> pv_active p
                then Inl (Response_error (n @ '': provider reservation is invalid or no longer active''))
                else Inr (set_provider n (p\<lparr>pv_reservation := None, pv_active := True,
                       pv_deadline := finite_deadline d\<rparr>) P))
           | None \<Rightarrow>
               (if unavailable now p
                then Inl (Response_error (n @ '': provider is busy or cooling down''))
                else Inr (set_provider n (p\<lparr>pv_active := True, pv_deadline := finite_deadline d\<rparr>) P))))"

definition provider_lease_exit :: "pystr \<Rightarrow> pool \<Rightarrow> pool" where
  "provider_lease_exit n P = (case providers P n of
     None \<Rightarrow> P
   | Some p \<Rightarrow> provider_capacity_changed
       (set_provider n (p\<lparr>pv_active := False, pv_deadline := None\<rparr>) P))"

text \<open>
  One round of \<open>_record_start\<close>: it records the start, or sleeps for the rest of the interval.
\<close>

definition record_start_round :: "time \<Rightarrow> provider \<Rightarrow> time + provider" where
  "record_start_round now p = (case pv_last_start p of
     Some l \<Rightarrow> (let remaining = minimum_start_interval - (now - l)
       in if remaining \<le> 0 then Inr (p\<lparr>pv_last_start := Some now\<rparr>) else Inl remaining)
   | None \<Rightarrow> Inr (p\<lparr>pv_last_start := Some now\<rparr>))"

fun record_start_loop :: "time list \<Rightarrow> provider \<Rightarrow> provider option" where
  "record_start_loop [] p = None"
| "record_start_loop (now # wakes) p = (case record_start_round now p of
     Inr p' \<Rightarrow> Some p'
   | Inl _ \<Rightarrow> record_start_loop wakes p)"

definition pool_record_start :: "time \<Rightarrow> pystr \<Rightarrow> pool \<Rightarrow> pool option" where
  "pool_record_start now n P = (case providers P n of
     None \<Rightarrow> None
   | Some p \<Rightarrow> (case record_start_round now p of
       Inr p' \<Rightarrow> Some (set_provider n p' P)
     | Inl _ \<Rightarrow> None))"

text \<open>\<open>_provider_browser\<close> creates the provider's browser owner on first use.\<close>

definition provider_browser :: "pystr \<Rightarrow> pool \<Rightarrow> searx_error + (browser \<times> pool)" where
  "provider_browser n P = (case providers P n of
     None \<Rightarrow> Inl (Key_error n)
   | Some p \<Rightarrow> (case pv_browser p of
       Some b \<Rightarrow> Inr (b, P)
     | None \<Rightarrow> Inr (new_browser, set_provider n (p\<lparr>pv_browser := Some new_browser\<rparr>) P)))"

section \<open>Waiting for capacity\<close>

text \<open>
  \<open>_next_provider_ready_delay\<close>: the least time in which a free provider has cooled down,
  \<open>None\<close> when every one is owned or reserved.
\<close>

fun ready_delays :: "time \<Rightarrow> pool \<Rightarrow> pystr list \<Rightarrow> time list \<Rightarrow> searx_error + time option" where
  "ready_delays now P [] ds = Inr (case ds of [] \<Rightarrow> None | _ \<Rightarrow> Some (Min (set ds)))"
| "ready_delays now P (n # ns) ds = (case providers P n of
     None \<Rightarrow> Inl (Key_error n)
   | Some p \<Rightarrow>
       (if pv_active p \<or> pv_reservation p \<noteq> None then ready_delays now P ns ds
        else case pv_last_start p of
          None \<Rightarrow> Inr (Some 0)
        | Some l \<Rightarrow> (let remaining = minimum_start_interval - (now - l)
            in if remaining \<le> 0 then Inr (Some 0) else ready_delays now P ns (ds @ [remaining]))))"

definition next_provider_ready_delay :: "time \<Rightarrow> pystr list \<Rightarrow> pool \<Rightarrow> searx_error + time option" where
  "next_provider_ready_delay now ns P = ready_delays now P ns []"

text \<open>
  \<open>wait_for_provider_capacity_change\<close>: the timeout is computed on the pool \<open>P\<close>, the
  generation is compared on the pool \<open>Q\<close> found when the condition is locked.
\<close>

datatype wait_decision = Proceed | Wait_for "time option"

definition wait_for_provider_capacity_change ::
  "time \<Rightarrow> nat \<Rightarrow> pystr list \<Rightarrow> pool \<Rightarrow> pool \<Rightarrow> searx_error + wait_decision" where
  "wait_for_provider_capacity_change now g ns P Q =
     rbind (next_provider_ready_delay now ns P) (\<lambda>timeout.
       if timeout = Some 0 then Inr Proceed
       else if g = capacity_generation Q then Inr (Wait_for timeout)
       else Inr Proceed)"

lemmas pool_ops = reserve_provider_def release_provider_reservation_def provider_lease_enter_def
  provider_lease_exit_def pool_record_start_def record_start_round_def unavailable_def
  set_provider_def provider_capacity_changed_def

section \<open>A provider is a paced slot\<close>

definition provider_slot_ops :: "deadline \<Rightarrow> pystr \<Rightarrow> pool slot_ops" where
  "provider_slot_ops d n = \<lparr>
     op_reserve = (\<lambda>_ now t P. case reserve_provider now t n P of Inr (Some _, P') \<Rightarrow> Some P' | _ \<Rightarrow> None),
     op_release = (\<lambda>t. release_provider_reservation n (Some t)),
     op_enter = (\<lambda>now t P. case provider_lease_enter now n (Some t) d P of Inr P' \<Rightarrow> Some P' | _ \<Rightarrow> None),
     op_direct = (\<lambda>now P. case provider_lease_enter now n None d P of Inr P' \<Rightarrow> Some P' | _ \<Rightarrow> None),
     op_leave = provider_lease_exit n,
     op_start = (\<lambda>now. pool_record_start now n),
     op_restart = True\<rparr>"

definition pool_reserved :: "pystr \<Rightarrow> pool \<Rightarrow> token option" where
  "pool_reserved n P = Option.bind (providers P n) pv_reservation"

definition pool_busy :: "pystr \<Rightarrow> pool \<Rightarrow> bool" where
  "pool_busy n P = (case providers P n of None \<Rightarrow> False | Some p \<Rightarrow> pv_active p)"

definition pool_last_start :: "pystr \<Rightarrow> pool \<Rightarrow> time option" where
  "pool_last_start n P = Option.bind (providers P n) pv_last_start"

lemmas pool_views = pool_reserved_def pool_busy_def pool_last_start_def

lemma rested_round: "rested minimum_start_interval (pv_last_start p) now \<longleftrightarrow>
    record_start_round now p = Inr (p\<lparr>pv_last_start := Some now\<rparr>)"
  by (auto simp: record_start_round_def Let_def split: option.splits)

interpretation obscura: paced_slot "provider_slot_ops (Finite d) n" "\<lambda>P. providers P n \<noteq> None"
  "pool_reserved n" "pool_busy n" "pool_last_start n" minimum_start_interval for d n
  by unfold_locales
    (auto simp: provider_slot_ops_def pool_ops pool_views Let_def split: if_splits option.splits sum.splits prod.splits)

section \<open>Operations of concurrent requests\<close>

datatype pool_op =
    Op_reserve time token pystr
  | Op_release pystr "token option"
  | Op_enter time pystr "token option" deadline
  | Op_exit pystr
  | Op_start time pystr

fun pool_do :: "pool_op \<Rightarrow> pool \<Rightarrow> pool" where
  "pool_do (Op_reserve now t n) P = (case reserve_provider now t n P of Inr (_, P') \<Rightarrow> P' | Inl _ \<Rightarrow> P)"
| "pool_do (Op_release n t) P = release_provider_reservation n t P"
| "pool_do (Op_enter now n t d) P = (case provider_lease_enter now n t d P of Inr P' \<Rightarrow> P' | Inl _ \<Rightarrow> P)"
| "pool_do (Op_exit n) P = provider_lease_exit n P"
| "pool_do (Op_start now n) P = (case pool_record_start now n P of Some P' \<Rightarrow> P' | None \<Rightarrow> P)"

definition pool_run :: "pool_op list \<Rightarrow> pool \<Rightarrow> pool" where
  "pool_run ops P = fold pool_do ops P"

lemma capacity_grows: "capacity_generation P \<le> capacity_generation (pool_do op P)"
  by (cases op) (auto simp: pool_ops Let_def split: option.splits sum.splits if_splits prod.splits)

lemma capacity_run: "capacity_generation P \<le> capacity_generation (pool_run ops P)"
  unfolding pool_run_def
proof (induction ops arbitrary: P)
  case (Cons op ops)
  show ?case using order_trans [OF capacity_grows Cons.IH] by simp
qed simp

definition held_back :: "time \<Rightarrow> pystr \<Rightarrow> pool \<Rightarrow> bool" where
  "held_back now n P \<longleftrightarrow> (\<exists>p. providers P n = Some p \<and> unavailable now p)"

lemma held_back_available: "held_back now n P \<Longrightarrow> provider_available now n P = Inr False"
  by (auto simp: held_back_def provider_available_def)

text \<open>A provider becomes available by the passing of time or with a new generation only.\<close>

lemma held_back_do:
  assumes "held_back now n P" and "capacity_generation (pool_do op P) = capacity_generation P"
  shows "held_back now n (pool_do op P)"
proof (cases op)
  case (Op_start t m)
  with assms show ?thesis
    by (cases "n = m")
      (auto simp: held_back_def pool_ops Let_def minimum_start_interval_def split: option.splits)
qed (use assms in \<open>auto simp: held_back_def pool_ops
    split: option.splits sum.splits if_splits prod.splits\<close>)

lemma held_back_run:
  "held_back now n P \<Longrightarrow> capacity_generation (pool_run ops P) = capacity_generation P \<Longrightarrow>
   held_back now n (pool_run ops P)"
proof (induction ops arbitrary: P)
  case (Cons op ops)
  have "capacity_generation (pool_do op P) = capacity_generation P"
    using Cons.prems(2) capacity_grows [of P op] capacity_run [of "pool_do op P" ops]
    by (simp add: pool_run_def)
  then show ?case
    using Cons.IH [of "pool_do op P"] held_back_do [OF Cons.prems(1)] Cons.prems(2)
    by (simp add: pool_run_def)
qed (simp add: pool_run_def)

lemma ready_delays_bound:
  assumes "ready_delays now P ns ds = Inr r" and "r \<noteq> Some 0"
  shows "(\<forall>x \<in> set ds. \<exists>d. r = Some d \<and> d \<le> x) \<and>
    (\<forall>n \<in> set ns. \<exists>p. providers P n = Some p \<and>
       (pv_active p \<or> pv_reservation p \<noteq> None \<or>
        (\<exists>l d. pv_last_start p = Some l \<and> r = Some d \<and> now - l + d \<le> minimum_start_interval)))"
  using assms
proof (induction now P ns ds rule: ready_delays.induct)
  case (1 now P ds)
  then show ?case by (cases ds) auto
next
  case (2 now P n ns ds)
  then show ?case
    by (auto simp: Let_def split: option.splits if_splits) (fastforce simp: algebra_simps)+
qed

section \<open>Properties\<close>

text \<open>
  C16 (invariant). Whatever the interleaving of the requests on a provider, with reservations or
  with direct leases: at most one request owns it, nobody holds a reservation meanwhile, a
  granted reservation is honoured, the exact-token cleanup never takes a reservation of another
  request, and when every request is done the provider is neither reserved nor active.\<close>

theorem provider_lease_sound:
  assumes "reachable (provider_slot_ops (Finite d) n) pool_init w" and "n \<in> set provider_names"
  shows "(owns (phase w i) \<and> owns (phase w j) \<longrightarrow> i = j) \<and>
    (owns (phase w i) \<longrightarrow> phase w j \<noteq> Holding t) \<and>
    (phase w i = Holding t \<longrightarrow> pool_reserved n (cell w) = Some t \<and>
       (\<exists>P. provider_lease_enter now n (Some t) (Finite d) (cell w) = Inr P)) \<and>
    ((\<forall>k. phase w k = Idle) \<longrightarrow> pool_reserved n (cell w) = None \<and> \<not> pool_busy n (cell w))"
proof -
  have "providers pool_init n = Some new_provider"
    using assms(2) by (auto simp: pool_init_def provider_names_def)
  with assms(1) have A: "obscura.agree n w"
    by (intro obscura.agree_reachable) (auto simp: pool_views new_provider_def)
  have "\<exists>P. provider_lease_enter now n (Some t) (Finite d) (cell w) = Inr P" if "phase w i = Holding t"
    using obscura.holder_enters [OF A that, of d now]
    by (auto simp: provider_slot_ops_def split: sum.splits)
  then show ?thesis
    using obscura.one_owner [OF A, of i j] obscura.owner_excludes_holder [OF A, of i j]
      obscura.all_idle_free [OF A] obscura.agree_holder [OF A, of i t]
    by blast
qed

definition lease_sample :: "pool world" where
  "lease_sample = the (acts (provider_slot_ops (Finite 90) ''bing2'')
     [Act_reserve 0 10 True, Act_enter 0 11, Act_start 0 12, Act_start 0 15, Act_leave 0,
      Act_reserve 1 18 True, Act_finish 0] (idle_world pool_init))"

lemma lease_sample_reachable: "reachable (provider_slot_ops (Finite 90) ''bing2'') pool_init lease_sample"
  unfolding lease_sample_def by (rule acts_reachable) code_simp

lemma lease_sample_holds: "phase lease_sample 1 = Holding 1"
  unfolding lease_sample_def by code_simp

theorem provider_lease_sound_witness:
  "pool_reserved ''bing2'' (cell lease_sample) = Some 1 \<and>
   (\<exists>P. provider_lease_enter 20 ''bing2'' (Some 1) (Finite 90) (cell lease_sample) = Inr P)"
  using provider_lease_sound [OF lease_sample_reachable, of 1 0 1 20] lease_sample_holds
  by (simp add: provider_names_def)

text \<open>
  Two consecutive homepage navigations of a provider start at least three seconds
  apart, also when one lease navigates several times and when requests race for the
  provider.\<close>

theorem provider_starts_spaced:
  assumes "reachable (provider_slot_ops (Finite d) n) pool_init w" and "n \<in> set provider_names"
  shows "spaced 3 (starts w)"
proof -
  have "providers pool_init n = Some new_provider"
    using assms(2) by (auto simp: pool_init_def provider_names_def)
  then show ?thesis
    using obscura.reachable_paced [OF _ _ _ _ assms(1)]
    by (simp add: pool_views new_provider_def minimum_start_interval_def)
qed

theorem provider_starts_spaced_witness: "spaced 3 (starts lease_sample) \<and> starts lease_sample = [15, 12]"
  using provider_starts_spaced [OF lease_sample_reachable]
  by (intro conjI) (simp add: provider_names_def, code_simp)

text \<open>
  The scheduler misses no capacity while it sleeps: if it decided to wait for a
  change of generation \<open>g\<close>, then as long as the generation stays \<open>g\<close> and the computed timeout has
  not passed, none of the providers it waits for has become available, whatever requests did
  before and after it fell asleep. A sleep without timeout means that every one of them is owned
  or reserved, and its end raises the generation.\<close>

theorem no_missed_capacity:
  assumes "wait_for_provider_capacity_change now g ns P (pool_run ops P) = Inr (Wait_for timeout)"
    and "g \<le> capacity_generation P"
    and "capacity_generation (pool_run ops' (pool_run ops P)) = g"
    and "\<And>d. timeout = Some d \<Longrightarrow> now' < now + d" and "n \<in> set ns"
  shows "provider_available now' n (pool_run ops' (pool_run ops P)) = Inr False"
proof -
  from assms(1) have r: "ready_delays now P ns [] = Inr timeout" "timeout \<noteq> Some 0"
    and g: "g = capacity_generation (pool_run ops P)"
    by (auto simp: wait_for_provider_capacity_change_def next_provider_ready_delay_def rbind_Inr_iff
      split: if_splits)
  have "held_back now' n P"
    using ready_delays_bound [OF r] assms(4,5)
    by (force simp: held_back_def unavailable_def)
  moreover have "capacity_generation (pool_run ops P) = capacity_generation P"
    using g assms(2) capacity_run [of P ops] by simp
  ultimately have "held_back now' n (pool_run ops P)" by (rule held_back_run)
  then have "held_back now' n (pool_run ops' (pool_run ops P))"
    by (rule held_back_run) (use assms(3) g in simp)
  then show ?thesis by (rule held_back_available)
qed

definition busy_pool :: pool where
  "busy_pool = pool_run [Op_reserve 10 1 ''bing2'', Op_reserve 10 2 ''google2'', Op_enter 11 ''google2'' (Some 2) No_deadline,
     Op_start 11 ''google2'', Op_exit ''google2''] pool_init"

theorem no_missed_capacity_witness:
  "provider_available 13 ''google2'' (pool_run [Op_enter 12 ''bing2'' (Some 1) No_deadline] (pool_run [] busy_pool))
    = Inr False"
proof -
  have W: "wait_for_provider_capacity_change 12 3 [''bing2'', ''google2''] busy_pool (pool_run [] busy_pool)
      = Inr (Wait_for (Some 2))"
    unfolding busy_pool_def by code_simp
  have "capacity_generation busy_pool = 3"
    and "capacity_generation (pool_run [Op_enter 12 ''bing2'' (Some 1) No_deadline] (pool_run [] busy_pool)) = 3"
    unfolding busy_pool_def by code_simp+
  then show ?thesis by (intro no_missed_capacity [OF W]) auto
qed

text \<open>
  Recording a start ends after at most one sleep: the first round sleeps for
  exactly the rest of the interval, and the round after it, at that time or later, records the
  start. The start is recorded at the time the round read, at least three seconds after the
  one before.\<close>

theorem record_start_returns:
  assumes "\<And>r. record_start_round now p = Inl r \<Longrightarrow> now + r \<le> now'"
  shows "\<exists>t. record_start_loop [now, now'] p = Some (p\<lparr>pv_last_start := Some t\<rparr>) \<and>
    (t = now \<or> t = now') \<and> rested 3 (pv_last_start p) t"
proof (cases "record_start_round now p")
  case (Inl r)
  then obtain l where "pv_last_start p = Some l" "r = 3 - (now - l)"
    by (auto simp: record_start_round_def Let_def minimum_start_interval_def split: option.splits if_splits)
  with Inl assms [OF Inl] show ?thesis
    by (intro exI [of _ now']) (auto simp: record_start_round_def Let_def minimum_start_interval_def)
next
  case (Inr p')
  then show ?thesis
    by (intro exI [of _ now])
      (auto simp: record_start_round_def Let_def minimum_start_interval_def split: option.splits if_splits)
qed

theorem record_start_returns_witness:
  "\<exists>t. record_start_loop [11, 13] (new_provider\<lparr>pv_last_start := Some 10\<rparr>) =
      Some (new_provider\<lparr>pv_last_start := Some t\<rparr>) \<and> (t = 11 \<or> t = 13) \<and> rested 3 (Some 10) t"
proof -
  have "\<exists>t. record_start_loop [11, 13] (new_provider\<lparr>pv_last_start := Some 10\<rparr>) =
      Some ((new_provider\<lparr>pv_last_start := Some 10\<rparr>)\<lparr>pv_last_start := Some t\<rparr>) \<and> (t = 11 \<or> t = 13) \<and>
      rested 3 (pv_last_start (new_provider\<lparr>pv_last_start := Some 10\<rparr>)) t"
    by (rule record_start_returns) (simp add: record_start_round_def minimum_start_interval_def Let_def)
  then show ?thesis by simp
qed

end
