(* ===== verification/PyData.thy ===== *)
theory PyData
  imports PyText
begin

text \<open>
  Values the code takes from two parsers of Python's standard library: what \<open>json.loads\<close>
  returns, and the calls \<open>html.parser.HTMLParser\<close> makes on its handlers, in document
  order. The parsers themselves are arguments of the definitions that use them.
\<close>

datatype json =
    JNull
  | JBool bool
  | JInt int
  | JFloat
  | JStr pystr
  | JList "json list"
  | JObj "(pystr \<times> json) list"

text \<open>\<open>d.get(k)\<close> on a dictionary: the last of repeated keys wins in \<open>json.loads\<close>, so
  the members are listed without repetition; a missing key reads as \<open>None\<close>.\<close>

fun jget :: "(pystr \<times> json) list \<Rightarrow> pystr \<Rightarrow> json" where
  "jget members k = (case map_of members k of None \<Rightarrow> JNull | Some v \<Rightarrow> v)"

text \<open>What is false in Python, for \<open>v or default\<close>; a float is taken as one that is not zero.\<close>

definition json_falsy :: "json \<Rightarrow> bool" where
  "json_falsy v \<longleftrightarrow> v \<in> {JNull, JBool False, JInt 0, JStr [], JList [], JObj []}"

text \<open>\<open>d[k] = v\<close>: a new key comes last, an old one keeps its place.\<close>

fun put :: "pystr \<Rightarrow> 'a \<Rightarrow> (pystr \<times> 'a) list \<Rightarrow> (pystr \<times> 'a) list" where
  "put k v [] = [(k, v)]"
| "put k v ((a, b) # l) = (if a = k then (a, v) # l else (a, b) # put k v l)"

datatype html_token =
    Start_tag pystr "(pystr \<times> pystr option) list"
  | Startend_tag pystr "(pystr \<times> pystr option) list"
  | End_tag pystr
  | Text pystr

text \<open>\<open>{name.lower(): (value or "") for name, value in attrs}\<close>: a later attribute of the
  same name replaces an earlier one.\<close>

definition attr_values :: "(pystr \<times> pystr option) list \<Rightarrow> pystr \<rightharpoonup> pystr" where
  "attr_values attrs = map_of (rev (map (\<lambda>(n, v). (py_lower n, case v of None \<Rightarrow> [] | Some s \<Rightarrow> s)) attrs))"

definition attr_get :: "(pystr \<times> pystr option) list \<Rightarrow> pystr \<Rightarrow> pystr" where
  "attr_get attrs n = (case attr_values attrs n of None \<Rightarrow> [] | Some v \<Rightarrow> v)"

text \<open>\<open>str.isprintable\<close> on code points below 256: the C0 and C1 controls, the no-break space
  and the soft hyphen are not printable.\<close>

definition printable_c :: "char \<Rightarrow> bool" where
  "printable_c c \<longleftrightarrow> 32 \<le> ord_c c \<and> ord_c c \<le> 126 \<or> 161 \<le> ord_c c \<and> ord_c c \<noteq> 173"

definition is_printable :: "pystr \<Rightarrow> bool" where
  "is_printable s \<longleftrightarrow> list_all printable_c s"

end
