(* ===== verification/Anubis.thy ===== *)
theory Anubis
  imports PyData
begin

text \<open>
  \<open>src/browser/obscura_client/private_onyx_obscura/anubis.py\<close>: the admitted profile of an
  Anubis proof-of-work challenge and the bounded solver. \<open>json.loads\<close> and
  \<open>hashlib.sha256(...).hexdigest()\<close> are arguments.
\<close>

record anubis_challenge =
  an_version :: pystr
  an_id :: pystr
  an_data :: pystr
  an_difficulty :: nat

record anubis_solution =
  sol_response :: pystr
  sol_nonce :: nat
  sol_elapsed_ms :: int

definition max_anubis_candidates :: nat where
  "max_anubis_candidates = 2 ^ 24"

definition deadline_check_interval :: nat where
  "deadline_check_interval = 4096"

text \<open>\<open>AnubisProtocolError\<close>, \<open>AnubisSolverError\<close> and the other exceptions by their message.\<close>

datatype anubis_error = Protocol_error string | Solver_error string | Bounds_error string

section \<open>The script elements of the challenge document\<close>

record script_state =
  script_id :: "pystr option"
  script_parts :: "pystr list"
  scripts :: "(pystr \<times> pystr) list"

definition script_init :: script_state where
  "script_init = \<lparr>script_id = None, script_parts = [], scripts = []\<rparr>"

definition script_start :: "pystr \<Rightarrow> (pystr \<times> pystr option) list \<Rightarrow> script_state \<Rightarrow> anubis_error + script_state" where
  "script_start tag attrs st =
     (if py_lower tag \<noteq> ''script'' \<or> script_id st \<noteq> None then Inr st
      else (case attr_values attrs ''id'' of
        Some i \<Rightarrow>
          (if i \<in> {''anubis_version'', ''anubis_challenge''}
           then if map_of (scripts st) i \<noteq> None
             then Inl (Protocol_error ''duplicate Anubis protocol element'')
             else Inr (st\<lparr>script_id := Some i, script_parts := []\<rparr>)
           else Inr st)
      | None \<Rightarrow> Inr st))"

definition script_data :: "pystr \<Rightarrow> script_state \<Rightarrow> anubis_error + script_state" where
  "script_data s st =
     (if script_id st = None then Inr st
      else let parts = script_parts st @ [s]
           in if 16384 < sum_list (map length parts)
              then Inl (Protocol_error ''Anubis protocol element is oversized'')
              else Inr (st\<lparr>script_parts := parts\<rparr>))"

definition script_end :: "pystr \<Rightarrow> script_state \<Rightarrow> script_state" where
  "script_end tag st = (case script_id st of
     Some i \<Rightarrow>
       (if py_lower tag = ''script''
        then st\<lparr>scripts := (i, concat (script_parts st)) # scripts st, script_id := None, script_parts := []\<rparr>
        else st)
   | None \<Rightarrow> st)"

fun script_token :: "html_token \<Rightarrow> script_state \<Rightarrow> anubis_error + script_state" where
  "script_token (Start_tag tag attrs) st = script_start tag attrs st"
| "script_token (Startend_tag tag attrs) st = rbind (script_start tag attrs st) (\<lambda>st. Inr (script_end tag st))"
| "script_token (End_tag tag) st = Inr (script_end tag st)"
| "script_token (Text s) st = script_data s st"

fun script_feed :: "html_token list \<Rightarrow> script_state \<Rightarrow> anubis_error + script_state" where
  "script_feed [] st = Inr st"
| "script_feed (t # ts) st = rbind (script_token t st) (script_feed ts)"

section \<open>The admitted profile\<close>

definition profile_of :: "json \<Rightarrow> json \<Rightarrow> anubis_error + anubis_challenge" where
  "profile_of version payload =
     (case version of
        JStr v \<Rightarrow>
          (if \<not> (1 \<le> length v \<and> length v \<le> 128) \<or> \<not> is_printable v
           then Inl (Protocol_error ''Anubis version is invalid'')
           else case payload of
             JObj p \<Rightarrow>
               (case (jget p ''challenge'', jget p ''rules'') of
                  (JObj challenge, JObj rules) \<Rightarrow>
                    (case jget challenge ''id'' of
                       JStr cid \<Rightarrow>
                         (if \<not> (1 \<le> length cid \<and> length cid \<le> 256) \<or> \<not> is_printable cid
                          then Inl (Protocol_error ''Anubis challenge ID is invalid'')
                          else case jget challenge ''randomData'' of
                            JStr d \<Rightarrow>
                              (if \<not> (1 \<le> length d \<and> length d \<le> 4096) \<or> \<not> is_ascii d \<or> \<not> is_printable d
                               then Inl (Protocol_error ''Anubis random data is invalid'')
                               else if jget rules ''algorithm'' \<noteq> JStr ''fast'' \<or>
                                 jget challenge ''method'' \<notin> {JNull, JStr ''fast''}
                               then Inl (Protocol_error ''Anubis algorithm is not admitted'')
                               else case jget rules ''difficulty'' of
                                 JInt n \<Rightarrow>
                                   (if \<not> (0 \<le> n \<and> n \<le> 64)
                                    then Inl (Protocol_error ''Anubis difficulty is not admitted'')
                                    else if jget challenge ''difficulty'' \<notin> {JNull, JInt n} \<or>
                                      jget challenge ''spent'' \<notin> {JNull, JBool False}
                                    then Inl (Protocol_error ''Anubis challenge state is invalid'')
                                    else Inr \<lparr>an_version = v, an_id = cid, an_data = d, an_difficulty = nat n\<rparr>)
                               | _ \<Rightarrow> Inl (Protocol_error ''Anubis difficulty is not admitted''))
                          | _ \<Rightarrow> Inl (Protocol_error ''Anubis random data is invalid''))
                     | _ \<Rightarrow> Inl (Protocol_error ''Anubis challenge ID is invalid''))
                | _ \<Rightarrow> Inl (Protocol_error ''Anubis challenge profile is invalid''))
           | _ \<Rightarrow> Inl (Protocol_error ''Anubis challenge envelope is invalid''))
      | _ \<Rightarrow> Inl (Protocol_error ''Anubis version is invalid''))"

definition json_script :: "(pystr \<Rightarrow> json option) \<Rightarrow> script_state \<Rightarrow> pystr \<Rightarrow> anubis_error + json" where
  "json_script loads st i = (case map_of (scripts st) i of
     None \<Rightarrow> Inl (Protocol_error ''Anubis protocol JSON is invalid'')
   | Some s \<Rightarrow> (case loads s of
       None \<Rightarrow> Inl (Protocol_error ''Anubis protocol JSON is invalid'')
     | Some j \<Rightarrow> Inr j))"

text \<open>\<open>tokens\<close> are the parser's calls on the first 262144 characters of the document.\<close>

definition parse_anubis_challenge ::
  "(pystr \<Rightarrow> json option) \<Rightarrow> html_token list \<Rightarrow> anubis_error + anubis_challenge" where
  "parse_anubis_challenge loads tokens =
     rbind (script_feed tokens script_init) (\<lambda>st.
     rbind (json_script loads st ''anubis_version'') (\<lambda>version.
     rbind (json_script loads st ''anubis_challenge'') (\<lambda>payload.
     profile_of version payload)))"

section \<open>The solver\<close>

text \<open>
  The candidate \<open>nonce\<close> is tested while less than \<open>left\<close> candidates were; \<open>expired n\<close> is
  whether the clock has reached the deadline at the check before candidate \<open>n\<close>, and
  \<open>elapsed\<close> what the clock says when the proof is found.
\<close>

definition proof_of :: "(bytes \<Rightarrow> pystr) \<Rightarrow> pystr \<Rightarrow> nat \<Rightarrow> pystr" where
  "proof_of sha data nonce = sha (data @ nat_str nonce)"

definition proof_ok :: "(bytes \<Rightarrow> pystr) \<Rightarrow> anubis_challenge \<Rightarrow> nat \<Rightarrow> bool" where
  "proof_ok sha c nonce \<longleftrightarrow>
     starts_with (proof_of sha (an_data c) nonce) (replicate (an_difficulty c) (CHR ''0''))"

fun solve_from ::
  "(bytes \<Rightarrow> pystr) \<Rightarrow> (nat \<Rightarrow> bool) \<Rightarrow> (nat \<Rightarrow> int) \<Rightarrow> anubis_challenge \<Rightarrow> nat \<Rightarrow> nat \<Rightarrow>
   anubis_error + anubis_solution" where
  "solve_from sha expired elapsed c nonce 0 = Inl (Solver_error ''Anubis proof candidate limit exhausted'')"
| "solve_from sha expired elapsed c nonce (Suc left) =
     (if nonce mod deadline_check_interval = 0 \<and> expired nonce
      then Inl (Solver_error ''Anubis proof deadline expired'')
      else if proof_ok sha c nonce
      then Inr \<lparr>sol_response = proof_of sha (an_data c) nonce, sol_nonce = nonce,
             sol_elapsed_ms = max 0 (elapsed nonce)\<rparr>
      else solve_from sha expired elapsed c (Suc nonce) left)"

definition solve_anubis_fast ::
  "(bytes \<Rightarrow> pystr) \<Rightarrow> bool \<Rightarrow> nat \<Rightarrow> (nat \<Rightarrow> bool) \<Rightarrow> (nat \<Rightarrow> int) \<Rightarrow> anubis_challenge \<Rightarrow>
   anubis_error + anubis_solution" where
  "solve_anubis_fast sha fin max_candidates expired elapsed c =
     (if \<not> fin \<or> max_candidates = 0 then Inl (Bounds_error ''Anubis solver bounds are invalid'')
      else solve_from sha expired elapsed c 0 max_candidates)"

text \<open>\<open>_validate_anubis_solution\<close> of the browser client, which checks the proof again.\<close>

definition lower_hex :: "char \<Rightarrow> bool" where
  "lower_hex c \<longleftrightarrow> is_digit c \<or> c \<in> set ''abcdef''"

definition solution_valid :: "(bytes \<Rightarrow> pystr) \<Rightarrow> anubis_challenge \<Rightarrow> anubis_solution \<Rightarrow> bool" where
  "solution_valid sha c s \<longleftrightarrow>
     length (sol_response s) = 64 \<and> list_all lower_hex (sol_response s) \<and> 0 \<le> sol_elapsed_ms s \<and>
     sol_response s = proof_of sha (an_data c) (sol_nonce s) \<and>
     starts_with (sol_response s) (replicate (an_difficulty c) (CHR ''0''))"

section \<open>Properties\<close>

lemma profile_of_Inr:
  assumes "profile_of v p = Inr c"
  shows "1 \<le> length (an_version c) \<and> length (an_version c) \<le> 128 \<and> is_printable (an_version c) \<and>
    1 \<le> length (an_id c) \<and> length (an_id c) \<le> 256 \<and> is_printable (an_id c) \<and>
    1 \<le> length (an_data c) \<and> length (an_data c) \<le> 4096 \<and> is_ascii (an_data c) \<and>
    an_difficulty c \<le> 64"
  using assms
  by (auto simp: profile_of_def simp del: jget.simps split: json.splits if_splits prod.splits)

text \<open>
  A challenge that is admitted is bounded in every field: the version, the
  identifier and the random data are non-empty and at most 128, 256 and 4096 characters long, the
  random data is ASCII, so that the proof's input can be encoded, and the difficulty is at most
  the 64 digits of a SHA-256 digest.\<close>

theorem admitted_challenge_bounded:
  assumes "parse_anubis_challenge loads tokens = Inr c"
  shows "length (an_version c) \<in> {1..128} \<and> length (an_id c) \<in> {1..256} \<and>
    length (an_data c) \<in> {1..4096} \<and> is_ascii (an_data c) \<and> an_difficulty c \<in> {0..64}"
  using assms by (auto simp: parse_anubis_challenge_def rbind_Inr_iff dest: profile_of_Inr)

definition sample_tokens :: "html_token list" where
  "sample_tokens =
     [Start_tag ''script'' [(''id'', Some ''anubis_version'')], Text ''V'', End_tag ''script'',
      Start_tag ''SCRIPT'' [(''ID'', Some ''anubis_challenge'')], Text ''C'', End_tag ''script'']"

definition sample_loads :: "pystr \<Rightarrow> json option" where
  "sample_loads s =
     (if s = ''V'' then Some (JStr ''1.21'')
      else if s = ''C''
      then Some (JObj [(''rules'', JObj [(''algorithm'', JStr ''fast''), (''difficulty'', JInt 2)]),
         (''challenge'', JObj [(''id'', JStr ''abc''), (''randomData'', JStr ''0123''), (''spent'', JBool False)])])
      else None)"

definition sample_challenge :: anubis_challenge where
  "sample_challenge = \<lparr>an_version = ''1.21'', an_id = ''abc'', an_data = ''0123'', an_difficulty = 2\<rparr>"

lemma sample_parsed: "parse_anubis_challenge sample_loads sample_tokens = Inr sample_challenge"
  by code_simp

theorem admitted_challenge_bounded_witness:
  "length (an_data sample_challenge) \<in> {1..4096} \<and> an_difficulty sample_challenge \<in> {0..64}"
  using admitted_challenge_bounded [OF sample_parsed] by blast

lemma all_from: "(\<forall>m. n \<le> m \<longrightarrow> P m) \<longleftrightarrow> P n \<and> (\<forall>m. Suc n \<le> m \<longrightarrow> P m)"
  using le_eq_less_or_eq Suc_le_eq by auto

lemma solve_from_Inr:
  assumes "solve_from sha expired elapsed c n k = Inr s"
  shows "n \<le> sol_nonce s \<and> sol_nonce s < n + k \<and> proof_ok sha c (sol_nonce s) \<and>
    (\<forall>m. n \<le> m \<longrightarrow> m < sol_nonce s \<longrightarrow> \<not> proof_ok sha c m) \<and>
    (\<forall>m. n \<le> m \<longrightarrow> m \<le> sol_nonce s \<longrightarrow> deadline_check_interval dvd m \<longrightarrow> \<not> expired m) \<and>
    sol_response s = proof_of sha (an_data c) (sol_nonce s) \<and> sol_elapsed_ms s = max 0 (elapsed (sol_nonce s))"
  using assms
proof (induction sha expired elapsed c n k rule: solve_from.induct)
  case (2 sha expired elapsed c n k)
  show ?case
  proof (cases "proof_ok sha c n")
    case True
    with "2.prems" show ?thesis by (auto simp: dvd_eq_mod_eq_0 split: if_splits)
  next
    case False
    with "2.prems" have now: "\<not> (n mod deadline_check_interval = 0 \<and> expired n)"
      and "solve_from sha expired elapsed c (Suc n) k = Inr s"
      by (auto split: if_splits)
    note IH = "2.IH" [OF now False this(2)]
    show ?thesis
      unfolding all_from [of n] using IH False now
      by (auto simp: dvd_eq_mod_eq_0)
  qed
qed simp

lemma solve_from_Inl:
  assumes "solve_from sha expired elapsed c n k = Inl e"
  shows "\<exists>m. n \<le> m \<and> m \<le> n + k \<and> (\<forall>j. n \<le> j \<longrightarrow> j < m \<longrightarrow> \<not> proof_ok sha c j) \<and>
    (m < n + k \<longrightarrow> deadline_check_interval dvd m \<and> expired m) \<and>
    (\<forall>j. n \<le> j \<longrightarrow> j < m \<longrightarrow> deadline_check_interval dvd j \<longrightarrow> \<not> expired j)"
  using assms
proof (induction sha expired elapsed c n k rule: solve_from.induct)
  case (1 sha expired elapsed c n)
  then show ?case by (intro exI [of _ n]) auto
next
  case (2 sha expired elapsed c n k)
  show ?case
  proof (cases "n mod deadline_check_interval = 0 \<and> expired n")
    case True
    then show ?thesis by (intro exI [of _ n]) (auto simp: dvd_eq_mod_eq_0)
  next
    case False
    with "2.prems" have no: "\<not> proof_ok sha c n"
      and "solve_from sha expired elapsed c (Suc n) k = Inl e"
      by (auto split: if_splits)
    from "2.IH" [OF False this] obtain m where m: "Suc n \<le> m" "m \<le> Suc n + k"
      "\<forall>j. Suc n \<le> j \<longrightarrow> j < m \<longrightarrow> \<not> proof_ok sha c j"
      "m < Suc n + k \<longrightarrow> deadline_check_interval dvd m \<and> expired m"
      "\<forall>j. Suc n \<le> j \<longrightarrow> j < m \<longrightarrow> deadline_check_interval dvd j \<longrightarrow> \<not> expired j" by blast
    show ?thesis
      unfolding all_from [of n] using m no False
      by (intro exI [of _ m]) (auto simp: dvd_eq_mod_eq_0)
  qed
qed

text \<open>
  The solver returns the least nonce whose digest has the demanded number of
  leading zeros, if the clock allows: it solves exactly when there is a proof among the
  candidates and no check up to it found the deadline expired, and then the nonce is the first
  one. What it returns passes the client's own validation.\<close>

theorem solver_least_nonce:
  assumes "\<And>x. length (sha x) = 64 \<and> list_all lower_hex (sha x)"
  shows "solve_anubis_fast sha True n expired elapsed c = Inr s \<longleftrightarrow>
      n \<noteq> 0 \<and> sol_nonce s < n \<and> proof_ok sha c (sol_nonce s) \<and>
      (\<forall>m < sol_nonce s. \<not> proof_ok sha c m) \<and>
      (\<forall>m \<le> sol_nonce s. deadline_check_interval dvd m \<longrightarrow> \<not> expired m) \<and>
      solution_valid sha c s \<and> sol_elapsed_ms s = max 0 (elapsed (sol_nonce s))"
  (is "?solved \<longleftrightarrow> ?spec")
proof
  assume ?solved
  then have n: "n \<noteq> 0" and S: "solve_from sha expired elapsed c 0 n = Inr s"
    by (auto simp: solve_anubis_fast_def split: if_splits)
  then show ?spec using solve_from_Inr [OF S] assms
    by (auto simp: solution_valid_def proof_ok_def proof_of_def)
next
  assume R: ?spec
  show ?solved
  proof (cases "solve_from sha expired elapsed c 0 n")
    case (Inl e)
    from solve_from_Inl [OF this] obtain m where m: "m \<le> n" "\<forall>j < m. \<not> proof_ok sha c j"
      "m < n \<longrightarrow> deadline_check_interval dvd m \<and> expired m" by auto
    then have "m \<le> sol_nonce s" using R by (meson not_le)
    then show ?thesis using R m by auto
  next
    case (Inr s')
    note F = solve_from_Inr [OF this]
    then have "sol_nonce s' = sol_nonce s" using R by (metis le0 add_0 linorder_neqE_nat)
    then show ?thesis using R F Inr by (simp add: solve_anubis_fast_def solution_valid_def)
  qed
qed


text \<open>A digest with two leading zeros from the third candidate on, for evaluation.\<close>

definition toy_sha :: "bytes \<Rightarrow> pystr" where
  "toy_sha d = (if last d \<in> set ''0123'' then replicate 64 (CHR ''a'') else replicate 64 (CHR ''0''))"

lemma toy_sha_digest: "length (toy_sha x) = 64 \<and> list_all lower_hex (toy_sha x)"
  by (auto simp: toy_sha_def list_all_iff lower_hex_def is_digit_def ord_c_def)

theorem solver_least_nonce_witness:
  "\<exists>s. solve_anubis_fast toy_sha True 16 (\<lambda>_. False) int sample_challenge = Inr s \<and>
     solution_valid toy_sha sample_challenge s \<and> sol_nonce s = 4"
proof -
  obtain s where S: "solve_anubis_fast toy_sha True 16 (\<lambda>_. False) int sample_challenge = Inr s"
    and "sol_nonce s = 4"
  proof -
    have "(case solve_anubis_fast toy_sha True 16 (\<lambda>_. False) int sample_challenge of
        Inr s \<Rightarrow> sol_nonce s = 4 | _ \<Rightarrow> False)" by code_simp
    then show thesis using that by (auto split: sum.splits)
  qed
  moreover have "solution_valid toy_sha sample_challenge s"
    using solver_least_nonce [THEN iffD1, OF toy_sha_digest S] by blast
  ultimately show ?thesis by blast
qed

lemma solve_from_agree:
  assumes "n \<le> d" and "deadline_check_interval dvd d" and "expired d"
    and "\<And>m. m < d \<Longrightarrow> proof_of sha (an_data c) m = proof_of sha' (an_data c) m"
  shows "solve_from sha expired elapsed c n k = solve_from sha' expired elapsed c n k"
  using assms(1)
proof (induction k arbitrary: n)
  case (Suc k)
  show ?case
  proof (cases "n = d")
    case True
    then show ?thesis using assms(2,3) by (simp add: dvd_eq_mod_eq_0)
  next
    case False
    with Suc.prems have "n < d" by simp
    then show ?thesis using Suc.IH [of "Suc n"] assms(4) by (simp add: proof_ok_def)
  qed
qed simp

text \<open>
  The solver's work after the deadline is bounded: once the clock has passed
  it, from candidate \<open>k\<close> on, no digest beyond candidate \<open>k + 4095\<close> has any influence on the
  answer, and a solution it still returns is below \<open>k + 4096\<close>.\<close>

theorem solver_stops:
  assumes "\<forall>m \<ge> k. expired m"
    and "\<forall>m < k + 4096. proof_of sha (an_data c) m = proof_of sha' (an_data c) m"
  shows "solve_anubis_fast sha fin n expired elapsed c = solve_anubis_fast sha' fin n expired elapsed c \<and>
    (\<forall>s. solve_anubis_fast sha fin n expired elapsed c = Inr s \<longrightarrow> sol_nonce s < k + 4096)"
proof
  define d where "d = (k + 4095) div 4096 * 4096"
  have "k \<le> d" and d: "d < k + 4096"
    using mod_less_divisor [of 4096 "k + 4095"] div_mult_mod_eq [of "k + 4095" 4096]
    by (simp_all add: d_def)
  moreover have "deadline_check_interval dvd d" by (simp add: d_def deadline_check_interval_def)
  ultimately show "solve_anubis_fast sha fin n expired elapsed c = solve_anubis_fast sha' fin n expired elapsed c"
    using assms solve_from_agree [of 0 d expired sha c sha'] by (simp add: solve_anubis_fast_def)
  show "\<forall>s. solve_anubis_fast sha fin n expired elapsed c = Inr s \<longrightarrow> sol_nonce s < k + 4096"
  proof (intro allI impI)
    fix s assume "solve_anubis_fast sha fin n expired elapsed c = Inr s"
    then have "solve_from sha expired elapsed c 0 n = Inr s"
      by (auto simp: solve_anubis_fast_def split: if_splits)
    from solve_from_Inr [OF this] have "d \<le> sol_nonce s \<Longrightarrow> \<not> expired d"
      using \<open>deadline_check_interval dvd d\<close> by auto
    moreover have "expired d" using assms(1) \<open>k \<le> d\<close> by blast
    ultimately show "sol_nonce s < k + 4096" using d by linarith
  qed
qed

lemma nat_str_length: "m < 10 ^ Suc n \<Longrightarrow> length (nat_str m) \<le> Suc n"
proof (induction n arbitrary: m)
  case 0
  then show ?case by (simp add: nat_str.simps [of m])
next
  case (Suc n)
  then have "m div 10 < 10 ^ Suc n" by (simp add: less_mult_imp_div_less mult.commute)
  from Suc.IH [OF this] show ?case by (simp add: nat_str.simps [of m])
qed

theorem solver_stops_witness:
  "solve_anubis_fast toy_sha True (2 ^ 24) (\<lambda>m. 0 < m) int (sample_challenge\<lparr>an_data := ''x''\<rparr>) =
   solve_anubis_fast (\<lambda>b. if length b \<le> 5 then toy_sha b else []) True (2 ^ 24) (\<lambda>m. 0 < m) int
     (sample_challenge\<lparr>an_data := ''x''\<rparr>)"
proof -
  have "length (nat_str m) \<le> 4" if "m < 1 + 4096" for m
    using that nat_str_length [of m 3] by simp
  then show ?thesis
    using solver_stops [of 1 "\<lambda>m. 0 < m" toy_sha "sample_challenge\<lparr>an_data := ''x''\<rparr>"
        "\<lambda>b. if length b \<le> 5 then toy_sha b else []" True "2 ^ 24" int]
    by (simp add: proof_of_def)
qed

end
