(* ===== verification/Obscura_Policy.thy ===== *)
theory Obscura_Policy
  imports Anubis Egress_Policy
begin

text \<open>
  The policies of \<open>src/browser/obscura_client/private_onyx_obscura/client.py\<close>: which URLs
  the browser may be sent to, what a search interaction may declare, how response headers and
  documents are classified. Error messages are left out, categories and stages are kept.
\<close>

datatype fetch_failure =
    Invalid_url | Policy_denied | Pre_navigation_timeout | Post_navigation_timeout
  | Navigation_timeout | Http_status | Access_denied_failure | Rate_limited | Captcha_failure
  | Oversize | Body_unavailable | Byte_identity_unavailable | Unsupported_charset
  | Empty_content | Protocol | Transport | Finalized

fun failure_value :: "fetch_failure \<Rightarrow> pystr" where
  "failure_value Invalid_url = ''invalid-url''"
| "failure_value Policy_denied = ''final-hop-policy-denied''"
| "failure_value Pre_navigation_timeout = ''pre-navigation-timeout''"
| "failure_value Post_navigation_timeout = ''post-navigation-timeout''"
| "failure_value Navigation_timeout = ''navigation-timeout''"
| "failure_value Http_status = ''http-status''"
| "failure_value Access_denied_failure = ''access-denied''"
| "failure_value Rate_limited = ''rate-limited''"
| "failure_value Captcha_failure = ''captcha''"
| "failure_value Oversize = ''oversize''"
| "failure_value Body_unavailable = ''body-unavailable''"
| "failure_value Byte_identity_unavailable = ''byte-identity-unavailable''"
| "failure_value Unsupported_charset = ''unsupported-charset''"
| "failure_value Empty_content = ''empty-content''"
| "failure_value Protocol = ''cdp-protocol''"
| "failure_value Transport = ''cdp-transport''"
| "failure_value Finalized = ''invocation-finalized''"

text \<open>
  What leaves a client operation other than a result: \<open>ObscuraClientError\<close>, a cancellation,
  a rejected argument, or any other exception.
\<close>

datatype client_exn =
    Client_error fetch_failure pystr
  | Cancelled
  | Bad_argument pystr
  | Other_exn pystr

section \<open>Public URLs\<close>

definition internal_suffixes :: "pystr list" where
  "internal_suffixes = [''.local'', ''.internal'', ''.home.arpa'', ''.localhost'',
     ''.docker.internal'', ''.podman.internal'']"

definition internal_names :: "pystr list" where
  "internal_names = [''localhost'', ''host.docker.internal'', ''host.containers.internal'',
     ''gateway.docker.internal'', ''metadata.google.internal'', ''metadata'']"

definition public_ip_literal :: "pystr \<Rightarrow> bool" where
  "public_ip_literal host =
     (case ip_address (strip_chars ''[]'' host) of
        None \<Rightarrow> True
      | Some a0 \<Rightarrow>
          (let a = (case a0 of V6 w _ \<Rightarrow> (case ipv4_mapped w of Some m \<Rightarrow> V4 m | None \<Rightarrow> a0)
                    | V4 w \<Rightarrow> a0)
           in is_global a \<and> \<not> (is_private a \<or> is_loopback a \<or> is_link_local a \<or> is_multicast a \<or>
                is_unspecified a \<or> is_reserved a)))"

definition urlunsplit :: "pystr \<Rightarrow> pystr \<Rightarrow> pystr \<Rightarrow> pystr \<Rightarrow> pystr" where
  "urlunsplit scheme netloc path query =
     scheme @ '':'' @ ''//'' @ netloc @
     (if path \<noteq> [] \<and> hd path \<noteq> CHR ''/'' then ''/'' @ path else path) @
     (if query = [] then [] else ''?'' @ query)"

definition internal_host :: "pystr \<Rightarrow> bool" where
  "internal_host host \<longleftrightarrow>
     host \<in> set internal_names \<or> CHR ''.'' \<notin> set host \<or> list_ex (ends_with host) internal_suffixes"

definition normalize_public_url ::
  "codec \<Rightarrow> bool \<Rightarrow> bool \<Rightarrow> pystr \<Rightarrow> client_exn + (pystr \<times> pystr option)" where
  "normalize_public_url u http http_onion url =
     (let invalid = Inl (Client_error Invalid_url ''validate'')
      in case urlsplit url of
        Inl _ \<Rightarrow> invalid
      | Inr parsed \<Rightarrow> (case port parsed of
          Inl _ \<Rightarrow> invalid
        | Inr p \<Rightarrow>
            (if username parsed \<noteq> None \<or> password parsed \<noteq> None then invalid
             else if hostname parsed = [] then invalid
             else case idna u (rstrip_by (\<lambda>c. c = CHR ''.'') (hostname parsed)) of
               None \<Rightarrow> invalid
             | Some h \<Rightarrow>
                 (let host = py_lower h
                  in if u_scheme parsed \<notin> {''http'', ''https''} \<or>
                        u_scheme parsed = ''http'' \<and> \<not> (http \<or> http_onion \<and> ends_with host ''.onion'')
                     then invalid
                     else if internal_host host \<or> \<not> public_ip_literal host then invalid
                     else Inr (urlunsplit (u_scheme parsed)
                            ((if CHR '':'' \<in> set host then ''['' @ host @ '']'' else host) @
                             (case p of None \<Rightarrow> [] | Some n \<Rightarrow> '':'' @ int_str n))
                            (if u_path parsed = [] then ''/'' else u_path parsed) (u_query parsed),
                          if u_fragment parsed = [] then None else Some (u_fragment parsed))))))"

section \<open>Search interactions\<close>

record interaction =
  homepage_url :: pystr
  homepage_hosts :: "pystr list"
  result_hosts :: "pystr list"
  query_selector :: pystr
  query_field :: pystr
  action_path :: pystr
  form_method :: pystr
  fixed_names :: "pystr list"
  terminal_selector :: "pystr option"
  pending_selector :: "pystr option"
  anubis_pow :: bool

definition canonical_search_host :: "codec \<Rightarrow> pystr \<Rightarrow> bool" where
  "canonical_search_host u h \<longleftrightarrow>
     h \<noteq> [] \<and> h = py_lower h \<and> \<not> ends_with h ''.'' \<and>
     \<not> list_ex (\<lambda>c. c \<in> set h) (CHR 0x5C # '':/*@'') \<and>
     ip_address h = None \<and> idna u h = Some h \<and> CHR ''.'' \<in> set h"

definition field_name_c :: "char \<Rightarrow> bool" where
  "field_name_c c \<longleftrightarrow> is_alpha_ascii c \<or> is_digit c \<or> c \<in> set ''_.:-''"

text \<open>\<open>re.search(r"%2f|%5c", action, re.IGNORECASE)\<close>.\<close>

definition escaped_separator :: "pystr \<Rightarrow> bool" where
  "escaped_separator a \<longleftrightarrow> contains (map lower_c a) ''%2f'' \<or> contains (map lower_c a) ''%5c''"

definition selector_ok :: "pystr option \<Rightarrow> bool" where
  "selector_ok s = (case s of None \<Rightarrow> True
     | Some t \<Rightarrow> t \<noteq> [] \<and> length t \<le> 4096 \<and> list_all (\<lambda>c. 32 \<le> ord_c c) t)"

text \<open>\<open>SearchInteractionSpec.__post_init__\<close>: whether the declaration is accepted.\<close>

definition interaction_ok :: "codec \<Rightarrow> interaction \<Rightarrow> bool" where
  "interaction_ok u s \<longleftrightarrow>
     homepage_hosts s \<noteq> [] \<and> result_hosts s \<noteq> [] \<and>
     list_all (canonical_search_host u) (homepage_hosts s @ result_hosts s) \<and>
     (case urlsplit (homepage_url s) of
        Inl _ \<Rightarrow> False
      | Inr parsed \<Rightarrow> (case port parsed of
          Inl _ \<Rightarrow> False
        | Inr p \<Rightarrow> u_scheme parsed = ''https'' \<and> username parsed = None \<and> password parsed = None \<and>
            p \<in> {None, Some 443} \<and> hostname parsed \<noteq> [] \<and>
            py_lower (rstrip_by (\<lambda>c. c = CHR ''.'') (hostname parsed)) \<in> set (homepage_hosts s) \<and>
            u_fragment parsed = [])) \<and>
     query_selector s \<noteq> [] \<and> query_field s \<noteq> [] \<and> form_method s \<in> {''get'', ''post''} \<and>
     starts_with (action_path s) ''/'' \<and> \<not> starts_with (action_path s) ''//'' \<and>
     \<not> list_ex (\<lambda>c. c \<in> set (action_path s)) (CHR 0x5C # ''?#'') \<and> \<not> escaped_separator (action_path s) \<and>
     query_field s \<notin> set (fixed_names s) \<and>
     list_all (\<lambda>n. n \<noteq> [] \<and> is_ascii n \<and> list_all field_name_c n) (fixed_names s) \<and>
     (terminal_selector s = None \<longleftrightarrow> pending_selector s = None) \<and>
     selector_ok (terminal_selector s) \<and> selector_ok (pending_selector s)"

text \<open>\<open>_validate_search_terminal_url\<close>: where a search navigation may end.\<close>

definition search_host_of :: "url \<Rightarrow> pystr" where
  "search_host_of p = py_lower (rstrip_by (\<lambda>c. c = CHR ''.'') (hostname p))"

definition validate_search_terminal_url :: "pystr list \<Rightarrow> pystr \<Rightarrow> pystr \<Rightarrow> client_exn + unit" where
  "validate_search_terminal_url hosts stage url =
     (case urlsplit url of
        Inl _ \<Rightarrow> Inl (Client_error Policy_denied stage)
      | Inr parsed \<Rightarrow> (case port parsed of
          Inl _ \<Rightarrow> Inl (Client_error Policy_denied stage)
        | Inr p \<Rightarrow>
            raise_if (u_scheme parsed \<noteq> ''https'' \<or> username parsed \<noteq> None \<or> password parsed \<noteq> None \<or>
              p \<notin> {None, Some 443} \<or> search_host_of parsed \<notin> set hosts)
            (Client_error Policy_denied stage)))"

section \<open>Response headers\<close>

text \<open>
  \<open>_normalize_headers\<close> on the members of the headers object, keys and values as
  \<open>str(...)\<close> renders them.
\<close>

fun normalize_headers_from ::
  "(pystr \<times> pystr) list \<Rightarrow> (pystr \<times> pystr) list \<Rightarrow> client_exn + (pystr \<times> pystr) list" where
  "normalize_headers_from seen [] = Inr seen"
| "normalize_headers_from seen ((k, v) # rest) =
     (let name = py_lower (py_strip k); rendered = py_strip v
      in if name = [] \<or> CHR 0x0D \<in> set name \<or> CHR 0x0A \<in> set name \<or>
            CHR 0x0D \<in> set rendered \<or> CHR 0x0A \<in> set rendered
         then Inl (Client_error Protocol ''events'')
         else (case map_of seen name of
           Some old \<Rightarrow>
             (if old \<noteq> rendered then Inl (Client_error Protocol ''events'')
              else normalize_headers_from seen rest)
         | None \<Rightarrow> normalize_headers_from (seen @ [(name, rendered)]) rest))"

definition normalize_headers :: "(pystr \<times> pystr) list option \<Rightarrow> client_exn + (pystr \<times> pystr) list" where
  "normalize_headers h = (case h of
     None \<Rightarrow> Inl (Client_error Protocol ''events'')
   | Some members \<Rightarrow> normalize_headers_from [] members)"

definition is_text_like_content_type :: "pystr option \<Rightarrow> bool" where
  "is_text_like_content_type content_type = (case content_type of
     None \<Rightarrow> True
   | Some t \<Rightarrow>
       (let essence = py_lower (py_strip (case partition_c (CHR '';'') t of (a, _, _) \<Rightarrow> a))
        in essence = [] \<or> starts_with essence ''text/'' \<or>
           essence \<in> {''application/json'', ''application/xml'', ''application/xhtml+xml'',
             ''application/javascript'', ''application/ecmascript'', ''image/svg+xml''} \<or>
           ends_with essence ''+json'' \<or> ends_with essence ''+xml''))"

definition charset_of :: "pystr list \<Rightarrow> pystr option" where
  "charset_of params = fold (\<lambda>f c.
     if starts_with (py_lower f) ''charset=''
     then (let v = py_lower (strip_chars [CHR 0x22] (py_strip (drop 8 f))) in if v = [] then None else Some v)
     else c) params None"

definition content_type_of :: "(pystr \<times> pystr) list \<Rightarrow> pystr option \<times> pystr option" where
  "content_type_of headers = (case map_of headers ''content-type'' of
     None \<Rightarrow> (None, None)
   | Some raw \<Rightarrow>
       (let parts = map py_strip (split_on (CHR '';'') raw);
            essence = py_lower (hd parts)
        in (if essence = [] then None else Some essence, charset_of (tl parts))))"

definition can_preserve_html_dom :: "pystr \<Rightarrow> pystr option \<Rightarrow> client_exn \<Rightarrow> bool" where
  "can_preserve_html_dom want content_type e \<longleftrightarrow>
     want = ''both'' \<and> content_type \<in> {Some ''text/html'', Some ''application/xhtml+xml''} \<and>
     (case e of Client_error f st \<Rightarrow> f = Body_unavailable | _ \<Rightarrow> False)"

section \<open>Properties\<close>

lemma public_ip_literalD:
  assumes "public_ip_literal h" and "ip_address (strip_chars ''[]'' h) = Some a"
  shows "public_address (strip_chars ''[]'' h)"
  using assms
  by (cases a) (auto simp: public_ip_literal_def public_address_def ip_block_reason_def
      parse_ip_literal_def is_global_def is_private_def is_loopback_def is_link_local_def
      is_multicast_def is_unspecified_def is_reserved_def by_mapped_def Let_def split: option.splits)

text \<open>
  A URL the browser may navigate to carries no credentials, has scheme \<open>https\<close>,
  or \<open>http\<close> where the caller allows it, and a host that is not one of the internal names, has a
  dot and is under no internal suffix; a host that is an IP literal is a public address by the
  classification of the egress proxy, so the two layers agree on literals. The fragment never
  reaches the browser.\<close>

theorem normalized_url_public:
  assumes "normalize_public_url u http http_onion url = Inr (n, fragment)"
  shows "\<exists>parsed p host. urlsplit url = Inr parsed \<and> port parsed = Inr p \<and>
    username parsed = None \<and> password parsed = None \<and>
    idna u (rstrip_by (\<lambda>c. c = CHR ''.'') (hostname parsed)) = Some host \<and>
    (u_scheme parsed = ''https'' \<or> u_scheme parsed = ''http'' \<and> (http \<or> http_onion \<and> ends_with (py_lower host) ''.onion'')) \<and>
    \<not> internal_host (py_lower host) \<and>
    (ip_address (strip_chars ''[]'' (py_lower host)) \<noteq> None \<longrightarrow> public_address (strip_chars ''[]'' (py_lower host))) \<and>
    starts_with n (u_scheme parsed @ ''://'') \<and>
    fragment = (if u_fragment parsed = [] then None else Some (u_fragment parsed))"
proof -
  have pre: "starts_with (x @ y) x" for x y :: pystr by (induction x) auto
  have start: "starts_with (urlunsplit sc nl pa q) (sc @ ''://'')" for sc nl pa q
    using pre [of "sc @ ''://''"] by (simp add: urlunsplit_def)
  obtain parsed where P: "urlsplit url = Inr parsed"
    using assms by (cases "urlsplit url") (simp_all add: normalize_public_url_def Let_def)
  obtain p where p: "port parsed = Inr p"
    using assms P by (cases "port parsed") (simp_all add: normalize_public_url_def Let_def)
  have cred: "username parsed = None" "password parsed = None" "hostname parsed \<noteq> []"
    using assms P p by (simp_all add: normalize_public_url_def Let_def split: if_splits)
  obtain host where h: "idna u (rstrip_by (\<lambda>c. c = CHR ''.'') (hostname parsed)) = Some host"
    using assms P p cred
    by (cases "idna u (rstrip_by (\<lambda>c. c = CHR ''.'') (hostname parsed))")
      (simp_all add: normalize_public_url_def Let_def)
  note R = assms [unfolded normalize_public_url_def Let_def, simplified P p cred h sum.case option.case]
  have sch: "u_scheme parsed = ''https'' \<or>
      u_scheme parsed = ''http'' \<and> (http \<or> http_onion \<and> ends_with (py_lower host) ''.onion'')"
    using R cred by (auto split: if_splits)
  have pub: "\<not> internal_host (py_lower host)" "public_ip_literal (py_lower host)"
    using R cred by (auto split: if_splits)
  have out: "starts_with n (u_scheme parsed @ ''://'')"
    "fragment = (if u_fragment parsed = [] then None else Some (u_fragment parsed))"
    using R cred start by (auto split: if_splits)
  show ?thesis
    using P p cred h sch pub out by (auto dest: public_ip_literalD)
qed

theorem normalized_url_public_witness:
  "\<exists>parsed p host. urlsplit ''https://Example.org./a?b#c'' = Inr parsed \<and> port parsed = Inr p \<and>
    username parsed = None \<and> password parsed = None \<and>
    idna ascii_codec (rstrip_by (\<lambda>c. c = CHR ''.'') (hostname parsed)) = Some host \<and>
    \<not> internal_host (py_lower host)"
proof -
  have "normalize_public_url ascii_codec False False ''https://Example.org./a?b#c'' =
      Inr (''https://example.org/a?b'', Some ''c'')" by code_simp
  from normalized_url_public [OF this] show ?thesis by blast
qed

fun clean_header :: "pystr \<times> pystr \<Rightarrow> bool" where
  "clean_header (n, v) \<longleftrightarrow> n \<noteq> [] \<and> py_lower n = n \<and>
     CHR 0x0D \<notin> set n \<and> CHR 0x0A \<notin> set n \<and> CHR 0x0D \<notin> set v \<and> CHR 0x0A \<notin> set v"

definition header_entry :: "pystr \<times> pystr \<Rightarrow> pystr \<times> pystr" where
  "header_entry h = (py_lower (py_strip (fst h)), py_strip (snd h))"

lemma normalize_headers_step:
  "normalize_headers_from seen (h # rest) = Inr out \<longleftrightarrow> clean_header (header_entry h) \<and>
     (if map_of seen (fst (header_entry h)) = None
      then normalize_headers_from (seen @ [header_entry h]) rest = Inr out
      else map_of seen (fst (header_entry h)) = Some (snd (header_entry h)) \<and>
           normalize_headers_from seen rest = Inr out)"
  by (cases h) (auto simp: header_entry_def Let_def py_lower_idem split: option.splits)

lemma normalize_headers_from_Inr:
  assumes "normalize_headers_from seen hs = Inr out" and "distinct (map fst seen)"
    and "list_all clean_header seen"
  shows "distinct (map fst out) \<and> set seen \<subseteq> set out \<and> list_all clean_header out \<and>
    header_entry ` set hs \<subseteq> set out"
  using assms
proof (induction hs arbitrary: seen)
  case (Cons h hs)
  show ?case
  proof (cases "map_of seen (fst (header_entry h))")
    case None
    then have "fst (header_entry h) \<notin> fst ` set seen" by (simp add: map_of_eq_None_iff)
    with Cons.prems None show ?thesis
      using Cons.IH [of "seen @ [header_entry h]"] by (simp add: normalize_headers_step)
  next
    case (Some v)
    with Cons.prems show ?thesis
      using Cons.IH [of seen] map_of_SomeD [OF Some] by (auto simp: normalize_headers_step)
  qed
qed simp

text \<open>
  The headers the client keeps of a document response are a function of the
  name: every name occurs once, in lower case and without a line break, no value has a line
  break, and each header of the response is found under its name with its value; two
  values for one name are refused.\<close>

theorem headers_unambiguous:
  assumes "normalize_headers (Some hs) = Inr out"
  shows "distinct (map fst out) \<and> list_all clean_header out \<and>
    (\<forall>(k, v) \<in> set hs. map_of out (py_lower (py_strip k)) = Some (py_strip v))"
proof -
  have R: "distinct (map fst out)" "list_all clean_header out" "header_entry ` set hs \<subseteq> set out"
    using normalize_headers_from_Inr [of "[]" hs out] assms by (simp_all add: normalize_headers_def)
  then show ?thesis by (auto simp: header_entry_def)
qed

theorem headers_unambiguous_witness:
  "map_of [(''content-type'', ''text/html'')] (py_lower (py_strip ''Content-Type'')) = Some (py_strip '' text/html'')"
proof -
  have "normalize_headers (Some [(''Content-Type'', '' text/html''), (''content-type '', ''text/html'')]) =
      Inr [(''content-type'', ''text/html'')]" by code_simp
  from headers_unambiguous [OF this] show ?thesis by simp
qed

end
