(* ===== verification/Page_Signals.thy ===== *)
theory Page_Signals
  imports Obscura_Policy
begin

text \<open>
  \<open>_ChallengeSignals\<close> and \<open>_challenge_details\<close> of the browser client: how a document is
  recognised as a block page or a challenge. The document is given as the calls of
  \<open>html.parser\<close> (\<open>None\<close> when the parser raises), \<open>urllib.parse.urljoin\<close> is an argument.
\<close>

definition ignored_tags :: "pystr list" where
  "ignored_tags = [''script'', ''style'', ''template'', ''noscript'']"

definition void_tags :: "pystr list" where
  "void_tags = [''area'', ''base'', ''br'', ''col'', ''embed'', ''hr'', ''img'', ''input'', ''link'',
     ''meta'', ''param'', ''source'', ''track'', ''wbr'']"

definition anubis_main_path :: pystr where
  "anubis_main_path = ''/.within.website/x/cmd/anubis/static/js/main.mjs''"

record signals =
  ignored_depth :: nat
  title_depth :: nat
  sp_depth :: nat
  visible :: "pystr list"
  title_texts :: "pystr list"
  sp_visible :: "pystr list"
  challenge_structure :: bool
  main_module :: bool
  version_element :: bool
  challenge_element :: bool

definition signals_init :: signals where
  "signals_init = \<lparr>ignored_depth = 0, title_depth = 0, sp_depth = 0, visible = [], title_texts = [],
     sp_visible = [], challenge_structure = False, main_module = False, version_element = False,
     challenge_element = False\<rparr>"

definition any_marker :: "pystr list \<Rightarrow> pystr \<Rightarrow> bool" where
  "any_marker markers s \<longleftrightarrow> list_ex (contains s) markers"

definition port_or_https :: "int option \<Rightarrow> int" where
  "port_or_https p = (case p of None \<Rightarrow> 443 | Some n \<Rightarrow> if n = 0 then 443 else n)"

text \<open>The source of a script is the Anubis main module of the document's own origin.\<close>

definition anubis_source :: "codec \<Rightarrow> (pystr \<Rightarrow> pystr \<Rightarrow> pystr py) \<Rightarrow> pystr \<Rightarrow> pystr \<Rightarrow> bool" where
  "anubis_source u urljoin final_url source =
     (case (urlsplit final_url, rbind (urljoin final_url source) urlsplit) of
        (Inr document, Inr resolved) \<Rightarrow>
          u_scheme resolved = u_scheme document \<and> u_scheme document = ''https'' \<and>
          hostname resolved = hostname document \<and>
          (case (port resolved, port document) of
             (Inr p, Inr q) \<Rightarrow> port_or_https p = port_or_https q
           | _ \<Rightarrow> False) \<and>
          username resolved = None \<and> password resolved = None \<and>
          unquote u (u_path resolved) = anubis_main_path
      | _ \<Rightarrow> False)"

definition script_signals :: "codec \<Rightarrow> (pystr \<Rightarrow> pystr \<Rightarrow> pystr py) \<Rightarrow> pystr \<Rightarrow>
    (pystr \<times> pystr option) list \<Rightarrow> signals \<Rightarrow> signals" where
  "script_signals u urljoin final_url attrs g =
     (let element_id = attr_get attrs ''id''; source = attr_get attrs ''src'' in
      g\<lparr>version_element := version_element g \<or> element_id = ''anubis_version'',
        challenge_element := challenge_element g \<or> element_id = ''anubis_challenge'',
        main_module := main_module g \<or> source \<noteq> [] \<and> anubis_source u urljoin final_url source\<rparr>)"

definition form_markers :: "pystr list" where
  "form_markers = [''/sorry/'', ''/captcha'', ''/sp/captcha'', ''turing'']"

definition iframe_markers :: "pystr list" where
  "iframe_markers = [''recaptcha'', ''hcaptcha'', ''/challenge'']"

definition visible_start :: "pystr \<Rightarrow> (pystr \<times> pystr option) list \<Rightarrow> signals \<Rightarrow> signals" where
  "visible_start tag attrs g =
     (let candidate = py_lower (attr_get attrs (if tag = ''form'' then ''action'' else ''src'')) in
      g\<lparr>title_depth := title_depth g + (if tag = ''title'' then 1 else 0),
        sp_depth := (if 0 < sp_depth g then (if tag \<in> set void_tags then sp_depth g else Suc (sp_depth g))
          else if ''sp-message'' \<in> set (py_split (attr_get attrs ''class'')) then 1 else 0),
        challenge_structure := challenge_structure g \<or>
          tag = ''form'' \<and> any_marker form_markers candidate \<or>
          tag = ''iframe'' \<and> any_marker iframe_markers candidate\<rparr>)"

definition handle_starttag :: "codec \<Rightarrow> (pystr \<Rightarrow> pystr \<Rightarrow> pystr py) \<Rightarrow> pystr \<Rightarrow> pystr \<Rightarrow>
    (pystr \<times> pystr option) list \<Rightarrow> signals \<Rightarrow> signals" where
  "handle_starttag u urljoin final_url tag0 attrs g =
     (let tag = py_lower tag0;
          g = (if tag = ''script'' then script_signals u urljoin final_url attrs g else g)
      in if tag \<in> set ignored_tags then g\<lparr>ignored_depth := Suc (ignored_depth g)\<rparr>
         else if 0 < ignored_depth g then g
         else visible_start tag attrs g)"

definition handle_endtag :: "pystr \<Rightarrow> signals \<Rightarrow> signals" where
  "handle_endtag tag0 g =
     (let tag = py_lower tag0
      in if tag \<in> set ignored_tags then g\<lparr>ignored_depth := ignored_depth g - 1\<rparr>
         else if 0 < ignored_depth g then g
         else g\<lparr>title_depth := (if tag = ''title'' then title_depth g - 1 else title_depth g),
                sp_depth := (if tag \<in> set void_tags then sp_depth g else sp_depth g - 1)\<rparr>)"

definition handle_data :: "pystr \<Rightarrow> signals \<Rightarrow> signals" where
  "handle_data s g =
     (if 0 < ignored_depth g \<or> py_strip s = [] then g
      else g\<lparr>visible := visible g @ [s],
             title_texts := (if 0 < title_depth g then title_texts g @ [s] else title_texts g),
             sp_visible := (if 0 < sp_depth g then sp_visible g @ [s] else sp_visible g)\<rparr>)"

fun signal_token :: "codec \<Rightarrow> (pystr \<Rightarrow> pystr \<Rightarrow> pystr py) \<Rightarrow> pystr \<Rightarrow> html_token \<Rightarrow> signals \<Rightarrow> signals" where
  "signal_token u j f (Start_tag tag attrs) g = handle_starttag u j f tag attrs g"
| "signal_token u j f (Startend_tag tag attrs) g = handle_endtag tag (handle_starttag u j f tag attrs g)"
| "signal_token u j f (End_tag tag) g = handle_endtag tag g"
| "signal_token u j f (Text s) g = handle_data s g"

definition signals_of :: "codec \<Rightarrow> (pystr \<Rightarrow> pystr \<Rightarrow> pystr py) \<Rightarrow> pystr \<Rightarrow> html_token list \<Rightarrow> signals" where
  "signals_of u j f tokens = fold (signal_token u j f) tokens signals_init"

text \<open>\<open>" ".join(" ".join(parts).lower().split())\<close>.\<close>

definition squeeze :: "pystr list \<Rightarrow> pystr" where
  "squeeze parts = join '' '' (py_split (py_lower (join '' '' parts)))"

definition route_markers :: "pystr list" where
  "route_markers = [''/sorry/'', ''/captcha'', ''/sp/captcha'', ''/challenge/'', ''/verify/'']"

definition title_markers :: "pystr list" where
  "title_markers = [''verify you are human'', ''captcha'', ''attention required'', ''security check'',
     ''just a moment'']"

definition human_markers :: "pystr list" where
  "human_markers = [''verify you are human'', ''complete the captcha'', ''solve the captcha'',
     ''unusual traffic from your computer network'', ''checking your browser before accessing'']"

definition structured_markers :: "pystr list" where
  "structured_markers = [''captcha'', ''i am not a robot'', ''i'' @ [CHR 0x27] @ ''m not a robot'',
     ''verification required'']"

definition denial_markers :: "pystr list" where
  "denial_markers = [''access denied'', ''request blocked'', ''forbidden'']"

definition classify_signals :: "pystr \<Rightarrow> signals \<Rightarrow> fetch_failure option \<times> pystr" where
  "classify_signals path g =
     (let shown = squeeze (visible g); title = squeeze (title_texts g); sp_message = squeeze (sp_visible g) in
      if any_marker route_markers path then (Some Captcha_failure, ''terminal-challenge-route'')
      else if any_marker title_markers title then (Some Captcha_failure, ''challenge-title'')
      else if contains shown ''one last step'' \<and> contains shown ''solve the challenge below to continue''
      then (Some Captcha_failure, ''visible-human-verification'')
      else if any_marker human_markers shown then (Some Captcha_failure, ''visible-human-verification'')
      else if main_module g \<and> version_element g \<and> challenge_element g \<and>
        contains sp_message ''verifying your request''
      then (Some Captcha_failure, ''anubis-verification'')
      else if challenge_structure g \<and> any_marker structured_markers shown
      then (Some Captcha_failure, ''visible-structured-challenge'')
      else if any_marker denial_markers title then (Some Access_denied_failure, ''denial-title'')
      else (None, ''none''))"

text \<open>
  \<open>_challenge_details\<close>: an \<open>Inl\<close> is the \<open>ValueError\<close> of \<open>urlsplit(final_url)\<close>, which is
  outside the \<open>try\<close> of the parser.
\<close>

definition challenge_details :: "codec \<Rightarrow> (pystr \<Rightarrow> pystr \<Rightarrow> pystr py) \<Rightarrow> int \<Rightarrow> pystr \<Rightarrow>
    html_token list option \<Rightarrow> (fetch_failure option \<times> pystr) py" where
  "challenge_details u j status final_url tokens =
     (if status = 429 then Inr (Some Rate_limited, ''http-429'')
      else if status \<in> {401, 402, 403} then Inr (Some Access_denied_failure, ''http-denial-status'')
      else case tokens of
        None \<Rightarrow> Inr (None, ''html-signal-parse-failed'')
      | Some ts \<Rightarrow>
          rbind (urlsplit final_url) (\<lambda>parsed.
            Inr (classify_signals (py_lower (unquote u (u_path parsed))) (signals_of u j final_url ts))))"

definition challenge :: "codec \<Rightarrow> (pystr \<Rightarrow> pystr \<Rightarrow> pystr py) \<Rightarrow> int \<Rightarrow> pystr \<Rightarrow>
    html_token list option \<Rightarrow> fetch_failure option py" where
  "challenge u j status final_url tokens = rbind (challenge_details u j status final_url tokens) (\<lambda>d. Inr (fst d))"

section \<open>Properties\<close>

lemma main_module_token:
  "main_module (signal_token u j f t g) \<Longrightarrow> main_module g \<or>
    (\<exists>tag attrs. t \<in> {Start_tag tag attrs, Startend_tag tag attrs} \<and> py_lower tag = ''script'' \<and>
       anubis_source u j f (attr_get attrs ''src''))"
  by (cases t) (auto simp: handle_starttag_def handle_endtag_def handle_data_def visible_start_def
      script_signals_def Let_def split: if_splits)

lemma main_module_fold:
  "main_module (fold (signal_token u j f) ts g) \<Longrightarrow> main_module g \<or>
    (\<exists>tag attrs. (Start_tag tag attrs \<in> set ts \<or> Startend_tag tag attrs \<in> set ts) \<and>
       py_lower tag = ''script'' \<and> anubis_source u j f (attr_get attrs ''src''))"
  by (induction ts arbitrary: g) (auto dest!: main_module_token)

text \<open>
  A document is taken for an Anubis challenge, which the client answers with a proof
  of work, only when one of its script elements loads Anubis' main module over HTTPS from the
  document's own host and port, without credentials in the URL: a page cannot trigger it
  with a foreign script.\<close>

theorem anubis_only_same_origin:
  assumes "challenge_details u j status url (Some ts) = Inr (c, ''anubis-verification'')"
  shows "c = Some Captcha_failure \<and>
    (\<exists>tag attrs. (Start_tag tag attrs \<in> set ts \<or> Startend_tag tag attrs \<in> set ts) \<and>
      py_lower tag = ''script'' \<and> anubis_source u j url (attr_get attrs ''src''))"
proof -
  obtain path where "classify_signals path (signals_of u j url ts) = (c, ''anubis-verification'')"
    using assms by (auto simp: challenge_details_def rbind_Inr_iff split: if_splits)
  then have "c = Some Captcha_failure" "main_module (signals_of u j url ts)"
    by (auto simp: classify_signals_def Let_def split: if_splits)
  then show ?thesis
    using main_module_fold [of u j url ts signals_init] by (simp add: signals_of_def signals_init_def)
qed

definition anubis_page :: "html_token list" where
  "anubis_page =
     [Start_tag ''script'' [(''id'', Some ''anubis_version'')], Text ''1'', End_tag ''script'',
      Start_tag ''script'' [(''id'', Some ''anubis_challenge'')], Text ''1'', End_tag ''script'',
      Start_tag ''script'' [(''src'', Some ''https://e.com/.within.website/x/cmd/anubis/static/js/main.mjs'')],
      End_tag ''script'', Start_tag ''p'' [(''class'', Some ''a sp-message'')], Text ''Verifying your Request'',
      End_tag ''p'']"

theorem anubis_only_same_origin_witness:
  "\<exists>tag attrs. (Start_tag tag attrs \<in> set anubis_page \<or> Startend_tag tag attrs \<in> set anubis_page) \<and>
      py_lower tag = ''script'' \<and> anubis_source ascii_codec (\<lambda>b s. Inr s) ''https://e.com/x'' (attr_get attrs ''src'')"
proof -
  have "challenge_details ascii_codec (\<lambda>b s. Inr s) 200 ''https://e.com/x'' (Some anubis_page) =
      Inr (Some Captcha_failure, ''anubis-verification'')" by code_simp
  from anubis_only_same_origin [OF this] show ?thesis by blast
qed

end

