(* ===== verification/Search_Client.thy ===== *)
theory Search_Client
  imports Page_Signals
begin

text \<open>
  The search transaction of \<open>client.py\<close>: one homepage navigation, one form submission and one
  result document in a retained browser target, with the optional Anubis continuation. The
  browser is a record of the replies it gives, by command stage; a reply that comes too late
  is one of its values, so that the deadlines of the code appear as the errors it raises for
  them. What the code does is the log of its steps and its result.
\<close>

section \<open>Browser events\<close>

datatype cdp_event =
    Attached pystr
  | Response pystr pystr pystr pystr int "(pystr \<times> pystr) list option"
  | Frame_navigated pystr pystr pystr
  | Loading_finished pystr
  | Request_sent pystr pystr pystr pystr pystr
  | Other_event

text \<open>
  The fields are: type, frame, loader, request, status and headers of a response; frame, loader
  and URL of a navigated frame; type, frame, loader, method and URL of a request.
\<close>

fun document_of :: "pystr \<Rightarrow> pystr \<Rightarrow> cdp_event \<Rightarrow> (int \<times> (pystr \<times> pystr) list option) option" where
  "document_of frame loader (Response ty f l r st hs) =
     (if ty = ''Document'' \<and> f = frame \<and> l = loader \<and> r = loader then Some (st, hs) else None)"
| "document_of frame loader _ = None"

fun frame_url :: "pystr \<Rightarrow> pystr \<Rightarrow> cdp_event \<Rightarrow> pystr option" where
  "frame_url frame loader (Frame_navigated f l url) = (if f = frame \<and> l = loader then Some url else None)"
| "frame_url frame loader _ = None"

fun new_target :: "cdp_event \<Rightarrow> bool" where
  "new_target (Attached t) = (t \<noteq> [])"
| "new_target _ = False"

definition search_event_document ::
  "cdp_event list \<Rightarrow> pystr \<Rightarrow> pystr \<Rightarrow> pystr \<Rightarrow> client_exn + (pystr \<times> int \<times> (pystr \<times> pystr) list)" where
  "search_event_document events frame loader stage =
     (let documents = List.map_filter (document_of frame loader) events;
          frames = List.map_filter (frame_url frame loader) events
      in if list_ex new_target events then Inl (Client_error Protocol stage)
         else case documents of
           [(st, hs)] \<Rightarrow>
             (if loader = [] \<or> Loading_finished loader \<notin> set events \<or> frames = []
              then Inl (Client_error Protocol stage)
              else rbind (normalize_headers hs) (\<lambda>h. Inr (last frames, st, h)))
         | _ \<Rightarrow> Inl (Client_error Protocol stage))"

text \<open>The loader of the first document response of the frame that is not the previous one.\<close>

fun distinct_loader :: "pystr \<Rightarrow> pystr \<Rightarrow> cdp_event \<Rightarrow> pystr option" where
  "distinct_loader frame previous (Response ty f l r st hs) =
     (if ty = ''Document'' \<and> f = frame \<and> l \<noteq> previous \<and> l \<noteq> [] \<and> r = l then Some l else None)"
| "distinct_loader frame previous _ = None"

section \<open>Replies and steps\<close>

text \<open>
  The reply to a command: the deadline has passed before it is sent, it passes while the client
  waits, the transport raises, or the value the code reads.
\<close>

datatype transport_failure =
    Navigation_failed | Body_not_retained | Rejected | Session_changed | Cancelled_call | Raised pystr

fun transport_exn :: "transport_failure \<Rightarrow> client_exn" where
  "transport_exn Navigation_failed = Client_error Transport ''navigation-transport''"
| "transport_exn Body_not_retained = Client_error Body_unavailable ''body-stream-open''"
| "transport_exn Rejected = Client_error Protocol ''cdp-command''"
| "transport_exn Session_changed = Client_error Protocol ''connect''"
| "transport_exn Cancelled_call = Cancelled"
| "transport_exn (Raised m) = Other_exn m"

text \<open>How \<open>_RawCdp.send\<close> reads the error message of a reply, in upper case.\<close>

definition navigation_error_tokens :: "pystr list" where
  "navigation_error_tokens = [''NETWORK ERROR:'', ''ERR_TUNNEL_CONNECTION_FAILED'',
     ''ERR_PROXY_CONNECTION_FAILED'', ''ERR_NAME_NOT_RESOLVED'']"

definition cdp_error :: "pystr \<Rightarrow> pystr \<Rightarrow> transport_failure" where
  "cdp_error method message =
     (if method = ''Page.navigate'' \<and> any_marker navigation_error_tokens (py_upper message)
      then Navigation_failed
      else if method = ''Fetch.takeResponseBodyAsStream'' \<and> contains (py_upper message) ''NO CACHED BODY''
      then Body_not_retained
      else Rejected)"

datatype 'a reply = Unsent | Late | Failed transport_failure | Done 'a

record worker_status =
  ws_active :: bool
  ws_installed :: bool
  ws_suppressed :: int

record search_env =
  e_codec :: codec
  e_urljoin :: "pystr \<Rightarrow> pystr \<Rightarrow> pystr py"
  e_parse :: "pystr \<Rightarrow> html_token list option"
  e_loads :: "pystr \<Rightarrow> json option"
  e_query_pairs :: "pystr \<Rightarrow> (pystr \<times> pystr) list"
  e_sha :: "bytes \<Rightarrow> pystr"
  e_token :: pystr
  e_connect :: "unit reply"
  e_target :: "(pystr \<times> pystr) reply"
  e_setup :: "pystr \<Rightarrow> unit reply"
  e_frame :: "pystr reply"
  e_preload :: "pystr reply"
  e_guard :: "bool reply"
  e_navigate :: "pystr reply"
  e_wait :: "pystr \<Rightarrow> unit reply"
  e_events :: "pystr \<Rightarrow> cdp_event list"
  e_html :: "pystr \<Rightarrow> nat \<Rightarrow> pystr option reply"
  e_form :: "pystr \<Rightarrow> nat \<Rightarrow> bool option reply"
  e_state :: "nat \<Rightarrow> (bool \<times> bool) option reply"
  e_worker :: "pystr \<Rightarrow> worker_status option reply"
  e_key :: "nat \<Rightarrow> unit reply"
  e_present :: "bool option reply"
  e_pass :: "bool reply"
  e_park :: "pystr reply"
  e_rounds :: nat

record continuation =
  co_token :: pystr
  co_challenge :: anubis_challenge
  co_boundary :: pystr
  co_url :: pystr
  co_loader :: pystr
  co_query :: pystr
  co_spec :: interaction
  co_mode :: pystr
  co_limit :: nat

text \<open>The retained session, and the steps that change it or reach the page.\<close>

record owner =
  ow_connected :: bool
  ow_target :: "pystr option"
  ow_frame :: "pystr option"
  ow_pending :: "continuation option"

datatype step =
    At pystr
  | Sent pystr
  | Query_sent pystr
  | Form_submitted
  | Admitted bool
  | Navigated pystr
  | Replaced pystr "(pystr \<times> pystr) list"
  | Park_required bool
  | Connected
  | Target_set pystr
  | Frame_set pystr
  | Pending_set continuation
  | Pending_cleared
  | Parked
  | Closed_owner

type_synonym 'a search = "(step, client_exn, 'a) eff"

definition fresh_owner :: owner where
  "fresh_owner = \<lparr>ow_connected = False, ow_target = None, ow_frame = None, ow_pending = None\<rparr>"

fun owner_step :: "step \<Rightarrow> owner \<Rightarrow> owner" where
  "owner_step Connected w = w\<lparr>ow_connected := True\<rparr>"
| "owner_step (Target_set s) w = w\<lparr>ow_target := Some s\<rparr>"
| "owner_step (Frame_set f) w = w\<lparr>ow_frame := Some f\<rparr>"
| "owner_step (Pending_set c) w = w\<lparr>ow_pending := Some c\<rparr>"
| "owner_step Pending_cleared w = w\<lparr>ow_pending := None\<rparr>"
| "owner_step Closed_owner w = fresh_owner"
| "owner_step _ w = w"

definition owner_after :: "step list \<Rightarrow> owner \<Rightarrow> owner" where
  "owner_after log w = fold owner_step log w"

definition generation_active :: "owner \<Rightarrow> bool" where
  "generation_active w \<longleftrightarrow> ow_connected w \<or> ow_target w \<noteq> None"

text \<open>
  A command: \<open>remaining\<close> notes the stage and tests the deadline, then the command is sent.
\<close>

definition cmd :: "step list \<Rightarrow> fetch_failure \<Rightarrow> pystr \<Rightarrow> 'a reply \<Rightarrow> 'a search" where
  "cmd steps category stage r = (case r of
     Unsent \<Rightarrow> ([At stage], Inl (Client_error category stage))
   | Late \<Rightarrow> (At stage # steps, Inl (Client_error category stage))
   | Failed f \<Rightarrow> (At stage # steps, Inl (transport_exn f))
   | Done x \<Rightarrow> (At stage # steps, Inr x))"

definition fail :: "fetch_failure \<Rightarrow> pystr \<Rightarrow> 'a search" where
  "fail category stage = io_raise (Client_error category stage)"

definition check :: "bool \<Rightarrow> fetch_failure \<Rightarrow> pystr \<Rightarrow> unit search" where
  "check ok category stage = (if ok then io_ret () else fail category stage)"

text \<open>A reply the code requires to have a shape (\<open>None\<close>: it has not).\<close>

definition shaped :: "fetch_failure \<Rightarrow> pystr \<Rightarrow> 'a option \<Rightarrow> 'a search" where
  "shaped category stage x = (case x of None \<Rightarrow> fail category stage | Some y \<Rightarrow> io_ret y)"

text \<open>Another exception of pure code, such as \<open>ValueError\<close>.\<close>

definition pure_call :: "'a py \<Rightarrow> 'a search" where
  "pure_call r = (case r of Inl e \<Rightarrow> io_raise (Other_exn (exn_str e)) | Inr x \<Rightarrow> io_ret x)"

definition page_details :: "search_env \<Rightarrow> int \<Rightarrow> pystr \<Rightarrow> pystr \<Rightarrow> (fetch_failure option \<times> pystr) search" where
  "page_details E st url html =
     pure_call (challenge_details (e_codec E) (e_urljoin E) st url (e_parse E (take 262144 html)))"

section \<open>Reading and filling the page\<close>

definition search_dom :: "search_env \<Rightarrow> nat \<Rightarrow> pystr \<Rightarrow> nat \<Rightarrow> pystr search" where
  "search_dom E limit prefix k =
     io_bind (cmd [Sent (prefix @ ''-dom-document'')] Post_navigation_timeout (prefix @ ''-dom-document'')
       (e_setup E (prefix @ ''-dom-document''))) (\<lambda>_.
     io_bind (cmd [Sent (prefix @ ''-dom-outer-html'')] Post_navigation_timeout (prefix @ ''-dom-outer-html'')
       (e_html E prefix k)) (\<lambda>outer.
     io_bind (shaped Protocol (prefix @ ''-dom'') outer) (\<lambda>html.
     io_bind (check (length (encode_utf8 html) \<le> limit) Oversize (prefix @ ''-dom'')) (\<lambda>_.
     io_ret html))))"

definition search_form_call :: "search_env \<Rightarrow> step \<Rightarrow> pystr \<Rightarrow> nat \<Rightarrow> bool search" where
  "search_form_call E effect stage k =
     io_bind (cmd [effect] Post_navigation_timeout stage (e_form E stage k)) (shaped Protocol stage)"

text \<open>
  The wait for the form. A round sleeps at most a tenth of a second, so \<open>e_rounds\<close> many fit before
  the request's deadline; then \<open>remaining\<close> raises.
\<close>

fun ready_loop :: "search_env \<Rightarrow> interaction \<Rightarrow> nat \<Rightarrow> nat \<Rightarrow> nat \<Rightarrow> unit search" where
  "ready_loop E spec limit k 0 = fail Post_navigation_timeout ''homepage-form-readiness''"
| "ready_loop E spec limit k (Suc n) =
     io_bind (search_form_call E (Query_sent ''homepage-form-readiness'') ''homepage-form-readiness'' k) (\<lambda>ready.
       if ready then io_ret ()
       else io_bind (search_dom E limit ''homepage-form-readiness'' k) (\<lambda>html.
         io_bind (page_details E 200 (homepage_url spec) html) (\<lambda>(c, _).
           case c of
             Some failure \<Rightarrow> fail failure ''homepage-form-readiness''
           | None \<Rightarrow> ready_loop E spec limit (Suc k) n)))"

fun type_query :: "search_env \<Rightarrow> nat \<Rightarrow> pystr \<Rightarrow> unit search" where
  "type_query E k [] = io_ret ()"
| "type_query E k (c # cs) =
     io_bind (cmd [Query_sent ''timed-entry-keydown''] Post_navigation_timeout ''timed-entry-keydown''
       (e_key E (3 * k))) (\<lambda>_.
     io_bind (cmd [Query_sent ''timed-entry-keyup''] Post_navigation_timeout ''timed-entry-keyup''
       (e_key E (3 * k + 1))) (\<lambda>_.
     io_bind (if cs = [] then io_ret ()
       else cmd [] Post_navigation_timeout ''timed-entry-delay'' (e_key E (3 * k + 2))) (\<lambda>_.
     type_query E (Suc k) cs)))"

definition enter_search_query :: "search_env \<Rightarrow> interaction \<Rightarrow> nat \<Rightarrow> pystr \<Rightarrow> pystr \<Rightarrow> unit search" where
  "enter_search_query E spec limit mode query =
     io_bind (ready_loop E spec limit 0 (e_rounds E)) (\<lambda>_.
     if mode = ''instant''
     then io_bind (search_form_call E (Query_sent ''instant-entry'') ''instant-entry'' 0) (\<lambda>_. io_ret ())
     else
       io_bind (search_form_call E (Query_sent ''timed-entry-prepare'') ''timed-entry-prepare'' 0) (\<lambda>_.
       io_bind (cmd [Sent ''timed-entry-clear''] Post_navigation_timeout ''timed-entry-clear''
         (e_setup E ''timed-entry-clear'')) (\<lambda>_.
       io_bind (type_query E 0 query) (\<lambda>_.
       io_bind (search_form_call E (Query_sent ''timed-entry-verify'') ''timed-entry-verify'' 0) (\<lambda>_.
       io_ret ())))))"

section \<open>The result document\<close>

definition search_result_state :: "search_env \<Rightarrow> nat \<Rightarrow> (bool \<times> bool) search" where
  "search_result_state E k =
     io_bind (cmd [Sent ''result-readiness''] Post_navigation_timeout ''result-readiness'' (e_state E k))
       (shaped Protocol ''result-readiness'')"

fun result_loop :: "search_env \<Rightarrow> pystr \<Rightarrow> nat \<Rightarrow> nat \<Rightarrow> nat \<Rightarrow> pystr search" where
  "result_loop E html limit k 0 = io_ret html"
| "result_loop E html limit k (Suc n) =
     io_bind (search_result_state E k) (\<lambda>(terminal, pending).
       if terminal \<or> \<not> pending then search_dom E limit ''result-ready'' k
       else result_loop E html limit (Suc k) n)"

definition wait_for_search_result_dom :: "search_env \<Rightarrow> pystr \<Rightarrow> nat \<Rightarrow> pystr search" where
  "wait_for_search_result_dom E html limit =
     io_bind (search_result_state E 0) (\<lambda>(terminal, pending).
       if terminal then search_dom E limit ''result-ready'' 0
       else if \<not> pending then io_ret html
       else result_loop E html limit 1 (e_rounds E))"

definition wait_for_distinct_document :: "search_env \<Rightarrow> pystr \<Rightarrow> pystr \<Rightarrow> pystr \<Rightarrow> pystr search" where
  "wait_for_distinct_document E frame previous prefix =
     io_bind (cmd [Sent (prefix @ ''-navigation'')] Post_navigation_timeout (prefix @ ''-navigation'')
       (e_wait E (prefix @ ''-navigation''))) (\<lambda>_.
     case List.map_filter (distinct_loader frame previous) (e_events E prefix) of
       [] \<Rightarrow> fail Post_navigation_timeout (prefix @ ''-navigation'')
     | loader # _ \<Rightarrow>
         io_bind (cmd [Sent (prefix @ ''-event-barrier'')] Post_navigation_timeout (prefix @ ''-event-barrier'')
           (e_wait E (prefix @ ''-event-barrier''))) (\<lambda>_. io_ret loader))"

record result_doc =
  rd_url :: pystr
  rd_status :: int
  rd_headers :: "(pystr \<times> pystr) list"
  rd_html :: pystr
  rd_loader :: pystr

definition submit_form_document ::
  "search_env \<Rightarrow> interaction \<Rightarrow> nat \<Rightarrow> pystr \<Rightarrow> pystr \<Rightarrow> result_doc search" where
  "submit_form_document E spec limit frame previous =
     io_bind (search_form_call E Form_submitted ''form-submit'' 0) (\<lambda>_.
     io_bind (wait_for_distinct_document E frame previous ''submission-result'') (\<lambda>loader.
     io_bind (io_lift (search_event_document (e_events E ''submission-result'') frame loader ''result-events''))
       (\<lambda>(url, st, headers).
     io_bind (io_lift (validate_search_terminal_url (result_hosts spec) ''result-origin'' url)) (\<lambda>_.
     io_bind (search_dom E limit ''result'' 0) (\<lambda>html.
     io_bind (page_details E st url html) (\<lambda>(c, _).
     io_bind (if c = None \<and> st \<noteq> 404 \<and> st < 500 \<and> terminal_selector spec \<noteq> None \<and> pending_selector spec \<noteq> None
       then wait_for_search_result_dom E html limit else io_ret html) (\<lambda>html'.
     io_ret \<lparr>rd_url = url, rd_status = st, rd_headers = headers, rd_html = html', rd_loader = loader\<rparr>)))))))"

section \<open>The Anubis preload\<close>

definition anubis_worker_control :: "search_env \<Rightarrow> pystr \<Rightarrow> worker_status search" where
  "anubis_worker_control E operation =
     io_bind (cmd [Sent (''anubis-worker-'' @ operation)] Post_navigation_timeout (''anubis-worker-'' @ operation)
       (e_worker E operation)) (shaped Protocol (''anubis-worker-'' @ operation))"

definition validate_worker_status :: "worker_status \<Rightarrow> unit search" where
  "validate_worker_status w = check (ws_active w \<and> ws_installed w) Protocol ''anubis-worker-status''"

definition remove_anubis_preload :: "search_env \<Rightarrow> unit search" where
  "remove_anubis_preload E =
     io_bind (anubis_worker_control E ''status'') (\<lambda>w.
     io_bind (validate_worker_status w) (\<lambda>_.
     io_bind (anubis_worker_control E ''remove'') (\<lambda>r.
     io_bind (check (r = \<lparr>ws_active = False, ws_installed = False, ws_suppressed = 0\<rparr>) Protocol ''anubis-worker-remove'') (\<lambda>_.
     cmd [Sent ''anubis-preload-remove''] Post_navigation_timeout ''anubis-preload-remove''
       (e_setup E ''anubis-preload-remove'')))))"

text \<open>\<open>_park_target\<close>: the document is replaced by \<open>about:blank\<close>, or the session is closed.\<close>

definition park_target :: "search_env \<Rightarrow> owner \<Rightarrow> unit search" where
  "park_target E w =
     (if \<not> ow_connected w \<or> ow_target w = None \<or> ow_frame w \<in> {None, Some []} \<or> ow_pending w \<noteq> None
      then fail Protocol ''search-target-park''
      else io_catch
        (io_bind (cmd [Sent ''search-target-park''] Protocol ''search-target-park'' (e_park E)) (\<lambda>loader.
           io_bind (check (loader \<noteq> []) Protocol ''search-target-park'') (\<lambda>_. io_emit [Parked])))
        (\<lambda>_. True)
        (\<lambda>e. io_bind (io_emit [Closed_owner]) (\<lambda>_. io_raise e)))"

section \<open>The transaction\<close>

datatype submission = Submitted pystr int "(pystr \<times> pystr) list" pystr "fetch_failure option"
  | Pending_anubis pystr anubis_challenge

text \<open>An unsupported Anubis profile is a captcha, a supported one suspends the transaction.\<close>

definition suspend_anubis :: "search_env \<Rightarrow> continuation \<Rightarrow> pystr \<Rightarrow> submission search" where
  "suspend_anubis E co html =
     (case e_parse E (take 262144 html) of
        None \<Rightarrow> io_raise (Other_exn ''html parser failed'')
      | Some tokens \<Rightarrow> (case parse_anubis_challenge (e_loads E) tokens of
          Inl (Protocol_error _) \<Rightarrow> fail Captcha_failure ''anubis-profile''
        | Inl _ \<Rightarrow> io_raise (Other_exn ''anubis'')
        | Inr ch \<Rightarrow>
            io_bind (anubis_worker_control E ''status'') (\<lambda>ws.
            io_bind (validate_worker_status ws) (\<lambda>_.
            io_bind (io_emit [Pending_set (co\<lparr>co_challenge := ch\<rparr>), Park_required False]) (\<lambda>_.
            io_ret (Pending_anubis (co_token co) ch))))))"

definition connect_target :: "search_env \<Rightarrow> owner \<Rightarrow> pystr search" where
  "connect_target E w =
     io_bind (if ow_connected w
       then cmd [] Pre_navigation_timeout ''search-connect'' (e_connect E)
       else io_bind (cmd [Sent ''search-connect''] Pre_navigation_timeout ''search-connect'' (e_connect E))
         (\<lambda>_. io_emit [Connected])) (\<lambda>_.
     case ow_target w of
       None \<Rightarrow>
         io_bind (cmd [Sent ''search-create-target''] Pre_navigation_timeout ''search-create-target'' (e_target E))
           (\<lambda>(target, session).
             io_bind (check (target \<noteq> [] \<and> session \<noteq> []) Protocol ''search-target'') (\<lambda>_.
             io_bind (io_emit [Target_set session]) (\<lambda>_. io_ret session)))
     | Some session \<Rightarrow>
         io_bind (check (session \<noteq> []) Protocol ''search-target'') (\<lambda>_. io_ret session))"

definition setup_command :: "search_env \<Rightarrow> pystr \<Rightarrow> unit search" where
  "setup_command E stage = cmd [Sent stage] Pre_navigation_timeout stage (e_setup E stage)"

definition setup_target :: "search_env \<Rightarrow> interaction \<Rightarrow> owner \<Rightarrow> pystr search" where
  "setup_target E spec w =
     io_bind (setup_command E ''search-network-enable'') (\<lambda>_.
     io_bind (setup_command E ''search-page-enable'') (\<lambda>_.
     io_bind (setup_command E ''search-lifecycle-enable'') (\<lambda>_.
     io_bind (cmd [Sent ''search-frame-tree''] Pre_navigation_timeout ''search-frame-tree'' (e_frame E)) (\<lambda>frame.
     io_bind (check (frame \<noteq> [] \<and> ow_frame w \<in> {None, Some frame}) Protocol ''search-frame-tree'') (\<lambda>_.
     io_bind (io_emit [Frame_set frame]) (\<lambda>_.
     io_bind (if anubis_pow spec
       then io_bind (cmd [Sent ''anubis-preload-install''] Pre_navigation_timeout ''anubis-preload-install'' (e_preload E))
         (\<lambda>i. check (i \<noteq> []) Protocol ''anubis-preload-install'')
       else io_ret ()) (\<lambda>_.
     io_ret frame)))))))"

definition admit :: "search_env \<Rightarrow> unit search" where
  "admit E =
     io_bind (cmd [] Pre_navigation_timeout ''search-pre-navigation'' (e_guard E)) (\<lambda>permitted.
     io_bind (io_emit [Admitted permitted]) (\<lambda>_.
     check permitted Finalized ''search-pre-navigation''))"

definition load_homepage :: "search_env \<Rightarrow> interaction \<Rightarrow> nat \<Rightarrow> pystr \<Rightarrow> result_doc search" where
  "load_homepage E spec limit frame =
     io_bind (io_emit [Park_required True]) (\<lambda>_.
     io_bind (cmd [Navigated (homepage_url spec)] Navigation_timeout ''homepage-navigation'' (e_navigate E)) (\<lambda>loader.
     io_bind (check (loader \<noteq> []) Protocol ''homepage-navigation'') (\<lambda>_.
     io_bind (cmd [Sent ''homepage-event-barrier''] Post_navigation_timeout ''homepage-event-barrier''
       (e_wait E ''homepage-event-barrier'')) (\<lambda>_.
     io_bind (io_lift (search_event_document (e_events E ''homepage'') frame loader ''homepage-events''))
       (\<lambda>(url, st, headers).
     io_bind (io_lift (validate_search_terminal_url (homepage_hosts spec) ''homepage-origin'' url)) (\<lambda>_.
     io_bind (search_dom E limit ''homepage'' 0) (\<lambda>html.
     io_ret \<lparr>rd_url = url, rd_status = st, rd_headers = headers, rd_html = html, rd_loader = loader\<rparr>)))))))"

definition continuation_at :: "search_env \<Rightarrow> interaction \<Rightarrow> nat \<Rightarrow> pystr \<Rightarrow> pystr \<Rightarrow> pystr \<Rightarrow> result_doc \<Rightarrow> continuation" where
  "continuation_at E spec limit mode query boundary d =
     \<lparr>co_token = e_token E, co_challenge = \<lparr>an_version = [], an_id = [], an_data = [], an_difficulty = 0\<rparr>,
      co_boundary = boundary, co_url = rd_url d, co_loader = rd_loader d, co_query = query,
      co_spec = spec, co_mode = mode, co_limit = limit\<rparr>"

definition is_anubis :: "interaction \<Rightarrow> fetch_failure option \<times> pystr \<Rightarrow> bool" where
  "is_anubis spec d \<longleftrightarrow> anubis_pow spec \<and> d = (Some Captcha_failure, ''anubis-verification'')"

definition attached_owner :: "pystr \<Rightarrow> pystr \<Rightarrow> owner" where
  "attached_owner session frame =
     \<lparr>ow_connected = True, ow_target = Some session, ow_frame = Some frame, ow_pending = None\<rparr>"

definition finish_result ::
  "search_env \<Rightarrow> interaction \<Rightarrow> owner \<Rightarrow> result_doc \<Rightarrow> fetch_failure option \<Rightarrow> submission search" where
  "finish_result E spec w r c =
     io_bind (if anubis_pow spec then remove_anubis_preload E else io_ret ()) (\<lambda>_.
     io_bind (park_target E w) (\<lambda>_.
     io_bind (io_emit [Park_required False]) (\<lambda>_.
     io_ret (Submitted (rd_url r) (rd_status r) (rd_headers r) (rd_html r) c))))"

text \<open>Up to the homepage and its classification, and from there on.\<close>

definition open_homepage ::
  "search_env \<Rightarrow> interaction \<Rightarrow> nat \<Rightarrow> owner \<Rightarrow> (pystr \<times> pystr \<times> result_doc) search" where
  "open_homepage E spec limit w =
     io_bind (connect_target E w) (\<lambda>session.
     io_bind (setup_target E spec w) (\<lambda>frame.
     io_bind (admit E) (\<lambda>_.
     io_bind (load_homepage E spec limit frame) (\<lambda>home.
     io_ret (session, frame, home)))))"

definition search_homepage ::
  "search_env \<Rightarrow> interaction \<Rightarrow> nat \<Rightarrow> pystr \<Rightarrow> pystr \<Rightarrow> pystr \<Rightarrow> pystr \<Rightarrow> result_doc \<Rightarrow> submission search" where
  "search_homepage E spec limit mode query session frame home =
     io_bind (enter_search_query E spec limit mode query) (\<lambda>_.
     io_bind (submit_form_document E spec limit frame (rd_loader home)) (\<lambda>r.
     io_bind (page_details E (rd_status r) (rd_url r) (rd_html r)) (\<lambda>d.
       if is_anubis spec d
       then suspend_anubis E (continuation_at E spec limit mode query ''result'' r) (rd_html r)
       else finish_result E spec (attached_owner session frame) r (fst d))))"

definition use_homepage ::
  "search_env \<Rightarrow> interaction \<Rightarrow> nat \<Rightarrow> pystr \<Rightarrow> pystr \<Rightarrow> pystr \<Rightarrow> pystr \<Rightarrow> result_doc \<Rightarrow> submission search" where
  "use_homepage E spec limit mode query session frame home =
     io_bind (page_details E (rd_status home) (rd_url home) (rd_html home)) (\<lambda>d.
       if is_anubis spec d
       then suspend_anubis E (continuation_at E spec limit mode query ''homepage'' home) (rd_html home)
       else case fst d of
         Some failure \<Rightarrow> fail failure ''homepage-classification''
       | None \<Rightarrow>
           io_bind (check (rd_status home \<noteq> 404 \<and> rd_status home < 500) Http_status ''homepage-classification'')
             (\<lambda>_. search_homepage E spec limit mode query session frame home))"

definition search_steps ::
  "search_env \<Rightarrow> interaction \<Rightarrow> nat \<Rightarrow> pystr \<Rightarrow> pystr \<Rightarrow> owner \<Rightarrow> submission search" where
  "search_steps E spec limit mode query w =
     io_bind (open_homepage E spec limit w) (\<lambda>(session, frame, home).
     use_homepage E spec limit mode query session frame home)"

section \<open>Exits\<close>

fun step_stage :: "step \<Rightarrow> pystr option" where
  "step_stage (At st) = Some st"
| "step_stage _ = None"

definition last_stage :: "step list \<Rightarrow> pystr" where
  "last_stage log = (case List.map_filter step_stage log of [] \<Rightarrow> ''search-connect'' | ss \<Rightarrow> last ss)"

definition park_required :: "step list \<Rightarrow> bool" where
  "park_required log = fold (\<lambda>s b. case s of Park_required x \<Rightarrow> x | _ \<Rightarrow> b) log False"

text \<open>The categories that leave the retained session in a known state.\<close>

definition clean_failures :: "fetch_failure list" where
  "clean_failures = [Finalized, Http_status, Access_denied_failure, Rate_limited, Captcha_failure]"

definition ambiguous :: "interaction \<Rightarrow> client_exn + submission \<Rightarrow> bool" where
  "ambiguous spec r = (case r of
     Inr _ \<Rightarrow> False
   | Inl (Client_error c _) \<Rightarrow> anubis_pow spec \<or> c \<notin> set clean_failures
   | Inl _ \<Rightarrow> True)"

definition mapped_error :: "step list \<Rightarrow> client_exn \<Rightarrow> client_exn" where
  "mapped_error log e = (case e of
     Client_error c st \<Rightarrow> e
   | Cancelled \<Rightarrow> Cancelled
   | _ \<Rightarrow> Client_error Transport (last_stage log))"

text \<open>The \<open>finally\<close> clause of \<open>submit_search\<close>: the steps it adds.\<close>

definition exit_steps :: "search_env \<Rightarrow> interaction \<Rightarrow> owner \<Rightarrow> step list \<Rightarrow> client_exn + submission \<Rightarrow> step list" where
  "exit_steps E spec w log r =
     (if ambiguous spec r then [Closed_owner]
      else if park_required log then fst (park_target E (owner_after log w))
      else [])"

definition fixed_fields_ok :: "interaction \<Rightarrow> (pystr \<times> pystr) list \<Rightarrow> bool" where
  "fixed_fields_ok spec fs \<longleftrightarrow> distinct (map fst fs) \<and>
     list_all (\<lambda>(n, _). n \<in> set (fixed_names spec) \<and> n \<noteq> query_field spec) fs"

definition allowed_wait_until :: "pystr list" where
  "allowed_wait_until = [''domcontentloaded'', ''load'', ''networkidle0'', ''networkidle2'']"

definition submit_search ::
  "search_env \<Rightarrow> interaction \<Rightarrow> (pystr \<times> pystr) list \<Rightarrow> pystr \<Rightarrow> pystr \<Rightarrow> nat \<Rightarrow> bool \<Rightarrow> pystr \<Rightarrow> owner \<Rightarrow> submission search" where
  "submit_search E spec fs mode wait_until limit timeouts_ok query w =
     (if mode \<notin> {''instant'', ''timed''} then io_raise (Bad_argument ''text entry mode must be instant or timed'')
      else if limit = 0 then io_raise (Bad_argument ''DOM limit must be positive'')
      else if \<not> timeouts_ok then io_raise (Bad_argument ''timeouts must be positive and finite'')
      else if wait_until \<notin> set allowed_wait_until then io_raise (Bad_argument ''waitUntil'')
      else if \<not> fixed_fields_ok spec fs then io_raise (Bad_argument ''fixed fields violate the search specification'')
      else if ow_pending w \<noteq> None then fail Protocol ''search-pending-continuation''
      else (case search_steps E spec limit mode query w of
        (log, r) \<Rightarrow> (log @ exit_steps E spec w log r,
          case r of Inl e \<Rightarrow> Inl (mapped_error log e) | Inr x \<Rightarrow> Inr x)))"

section \<open>Continuing after an Anubis challenge\<close>

definition anubis_pass_path :: pystr where
  "anubis_pass_path = ''/.within.website/x/cmd/anubis/api/pass-challenge''"

text \<open>The document requests of the new loader that go to the pass endpoint.\<close>

fun pass_request :: "codec \<Rightarrow> pystr \<Rightarrow> pystr \<Rightarrow> cdp_event \<Rightarrow> (pystr \<times> url) option" where
  "pass_request u frame loader (Request_sent ty f l method target) =
     (if f = frame \<and> l = loader \<and> ty = ''Document''
      then (case urlsplit target of
        Inl _ \<Rightarrow> None
      | Inr parsed \<Rightarrow> (if unquote u (u_path parsed) = anubis_pass_path then Some (method, parsed) else None))
      else None)"
| "pass_request u frame loader _ = None"

definition pass_request_ok :: "search_env \<Rightarrow> continuation \<Rightarrow> anubis_solution \<Rightarrow> pystr \<Rightarrow> url \<Rightarrow> bool py" where
  "pass_request_ok E co sol method req =
     rbind (urlsplit (co_url co)) (\<lambda>challenged.
     if method \<noteq> ''GET'' \<or> u_scheme req \<noteq> ''https'' \<or> hostname req \<noteq> hostname challenged then Inr False
     else rbind (port req) (\<lambda>p. rbind (port challenged) (\<lambda>q.
       let pairs = e_query_pairs E (u_query req) in
       Inr (port_or_https p = port_or_https q \<and> length pairs = 5 \<and>
         set (map fst pairs) = {''id'', ''response'', ''nonce'', ''redir'', ''elapsedTime''} \<and>
         set pairs = {(''id'', an_id (co_challenge co)), (''response'', sol_response sol),
           (''nonce'', nat_str (sol_nonce sol)), (''redir'', co_url co),
           (''elapsedTime'', int_str (sol_elapsed_ms sol))}))))"

definition check_pass_requests :: "search_env \<Rightarrow> continuation \<Rightarrow> anubis_solution \<Rightarrow> pystr \<Rightarrow> pystr \<Rightarrow> unit search" where
  "check_pass_requests E co sol frame loader =
     (case List.map_filter (pass_request (e_codec E) frame loader) (e_events E ''anubis-pass'') of
        [] \<Rightarrow> io_ret ()
      | [(method, req)] \<Rightarrow>
          io_bind (pure_call (pass_request_ok E co sol method req)) (\<lambda>ok.
          check ok Policy_denied ''anubis-pass-events'')
      | _ \<Rightarrow> fail Protocol ''anubis-pass-events'')"

definition path_or_root :: "url \<Rightarrow> pystr" where
  "path_or_root p = (if u_path p = [] then ''/'' else u_path p)"

text \<open>Whether the pass led back to a page where the query has to be entered again.\<close>

definition should_resubmit :: "continuation \<Rightarrow> pystr \<Rightarrow> bool \<Rightarrow> bool py" where
  "should_resubmit co final_url has_form =
     (if co_boundary co = ''homepage'' then Inr True
      else rbind (urlsplit final_url) (\<lambda>f. rbind (urlsplit (homepage_url (co_spec co))) (\<lambda>h.
        Inr (co_boundary co = ''result'' \<and> hostname f \<in> set (homepage_hosts (co_spec co)) \<and>
          path_or_root f = path_or_root h \<and> has_form))))"

text \<open>\<open>location.replace\<close> in the page: a navigation to the pass path with the proof as its parameters.\<close>

definition pass_navigation :: "continuation \<Rightarrow> anubis_solution \<Rightarrow> step" where
  "pass_navigation co sol = Replaced anubis_pass_path
     [(''id'', an_id (co_challenge co)), (''response'', sol_response sol), (''nonce'', nat_str (sol_nonce sol)),
      (''redir'', co_url co), (''elapsedTime'', int_str (sol_elapsed_ms sol))]"

definition pass_document ::
  "search_env \<Rightarrow> continuation \<Rightarrow> anubis_solution \<Rightarrow> pystr \<Rightarrow> (result_doc \<times> bool) search" where
  "pass_document E co sol frame =
     io_bind (cmd [pass_navigation co sol] Post_navigation_timeout ''anubis-pass-submit'' (e_pass E)) (\<lambda>ok.
     io_bind (check ok Protocol ''anubis-pass-submit'') (\<lambda>_.
     io_bind (wait_for_distinct_document E frame (co_loader co) ''anubis-pass'') (\<lambda>loader.
     io_bind (check_pass_requests E co sol frame loader) (\<lambda>_.
     io_bind (io_lift (search_event_document (e_events E ''anubis-pass'') frame loader ''anubis-pass-events''))
       (\<lambda>(url, st, headers).
     io_bind (io_lift (validate_search_terminal_url (result_hosts (co_spec co) @ homepage_hosts (co_spec co))
       ''anubis-pass-origin'' url)) (\<lambda>_.
     io_bind (search_dom E (co_limit co) ''anubis-pass'' 0) (\<lambda>html.
     io_bind (page_details E st url html) (\<lambda>(c, _).
     case c of
       Some failure \<Rightarrow> fail failure ''anubis-pass-classification''
     | None \<Rightarrow>
         io_bind (cmd [Sent ''form-presence''] Post_navigation_timeout ''form-presence'' (e_present E)) (\<lambda>reply.
         io_bind (shaped Protocol ''form-presence'' reply) (\<lambda>has_form.
         io_ret (\<lparr>rd_url = url, rd_status = st, rd_headers = headers, rd_html = html, rd_loader = loader\<rparr>,
           has_form)))))))))))"

definition resubmit :: "search_env \<Rightarrow> continuation \<Rightarrow> pystr \<Rightarrow> result_doc \<Rightarrow> result_doc search" where
  "resubmit E co frame d =
     io_bind (enter_search_query E (co_spec co) (co_limit co) (co_mode co) (co_query co)) (\<lambda>_.
     io_bind (submit_form_document E (co_spec co) (co_limit co) frame (rd_loader d)) (\<lambda>r.
     io_bind (page_details E (rd_status r) (rd_url r) (rd_html r)) (\<lambda>(c, _).
     case c of
       Some failure \<Rightarrow> fail failure ''anubis-restored-result-classification''
     | None \<Rightarrow> io_ret r)))"

definition resume_steps :: "search_env \<Rightarrow> continuation \<Rightarrow> anubis_solution \<Rightarrow> pystr \<Rightarrow> owner \<Rightarrow> submission search" where
  "resume_steps E co sol frame w =
     io_bind (pass_document E co sol frame) (\<lambda>(d, has_form).
     io_bind (pure_call (should_resubmit co (rd_url d) has_form)) (\<lambda>again.
     io_bind (if again then resubmit E co frame d else io_ret d) (\<lambda>r.
     io_bind (remove_anubis_preload E) (\<lambda>_.
     io_bind (park_target E w) (\<lambda>_.
     io_ret (Submitted (rd_url r) (rd_status r) (rd_headers r) (rd_html r) None))))))"

definition closing :: "'a search \<Rightarrow> 'a search" where
  "closing m = io_catch m (\<lambda>_. True) (\<lambda>e. io_bind (io_emit [Closed_owner]) (\<lambda>_. io_raise e))"

definition resume_checked :: "search_env \<Rightarrow> continuation \<Rightarrow> anubis_solution \<Rightarrow> owner \<Rightarrow> submission search" where
  "resume_checked E co sol w =
     (if \<not> solution_valid (e_sha E) (co_challenge co) sol then fail Protocol ''anubis-solution''
      else case (ow_connected w, ow_target w, ow_frame w) of
        (True, Some session, Some frame) \<Rightarrow>
          (if session = [] \<or> frame = [] then fail Protocol ''anubis-continuation''
           else resume_steps E co sol frame (w\<lparr>ow_pending := None\<rparr>))
      | _ \<Rightarrow> fail Protocol ''anubis-continuation'')"

definition resume_anubis_pow :: "search_env \<Rightarrow> pystr \<Rightarrow> anubis_solution \<Rightarrow> owner \<Rightarrow> submission search" where
  "resume_anubis_pow E tok sol w =
     (case ow_pending w of
        None \<Rightarrow> closing (fail Protocol ''anubis-continuation'')
      | Some co \<Rightarrow>
          (if tok \<noteq> co_token co then closing (fail Protocol ''anubis-continuation'')
           else io_bind (io_emit [Pending_cleared]) (\<lambda>_. closing (resume_checked E co sol w))))"

definition abort_anubis_pow :: "pystr \<Rightarrow> owner \<Rightarrow> unit search" where
  "abort_anubis_pow tok w =
     (case ow_pending w of
        Some co \<Rightarrow> (if tok = co_token co then io_emit [Pending_cleared, Closed_owner]
          else closing (fail Protocol ''anubis-abort''))
      | None \<Rightarrow> closing (fail Protocol ''anubis-abort''))"

section \<open>What the parts of a transaction do\<close>

named_theorems search_parts "which steps the parts of a search transaction log"

definition calm :: "(step \<Rightarrow> bool) \<Rightarrow> bool" where
  "calm P \<longleftrightarrow> (\<forall>st. P (At st) \<and> P (Sent st))"

lemma calmD [simp]: "calm P \<Longrightarrow> P (At st)" "calm P \<Longrightarrow> P (Sent st)"
  by (simp_all add: calm_def)

lemma io_all_cmd [io_rules]: "P (At st) \<Longrightarrow> list_all P steps \<Longrightarrow> io_all P (cmd steps c st r)"
  by (auto simp: cmd_def io_all_def split: reply.splits)

lemma io_all_simple [io_rules]:
  "io_all P (fail c st)" "io_all P (check ok c st)" "io_all P (shaped c st x)" "io_all P (pure_call r)"
  "io_all P (page_details E n url html)"
  by (simp_all add: fail_def check_def shaped_def pure_call_def page_details_def
      split: option.splits sum.splits)

lemma search_dom_steps [search_parts]: "calm P \<Longrightarrow> io_all P (search_dom E l p k)"
  unfolding search_dom_def by (intro io_rules) simp_all

lemma form_call_steps [search_parts]: "calm P \<Longrightarrow> P s \<Longrightarrow> io_all P (search_form_call E s st k)"
  unfolding search_form_call_def by (intro io_rules) simp_all

lemma ready_loop_steps [search_parts]:
  "calm P \<Longrightarrow> (\<And>st. P (Query_sent st)) \<Longrightarrow> io_all P (ready_loop E spec l k n)"
proof (induction n arbitrary: k)
  case (Suc n)
  then show ?case
    by (auto intro!: io_rules search_parts split: prod.splits option.splits)
qed (simp add: io_rules)

lemma type_query_steps [search_parts]:
  "calm P \<Longrightarrow> (\<And>st. P (Query_sent st)) \<Longrightarrow> io_all P (type_query E k cs)"
  by (induction cs arbitrary: k) (auto intro!: io_rules)

lemma enter_query_steps [search_parts]:
  "calm P \<Longrightarrow> (\<And>st. P (Query_sent st)) \<Longrightarrow> io_all P (enter_search_query E spec l mode q)"
  unfolding enter_search_query_def by (auto intro!: io_rules search_parts)

lemma result_loop_steps [search_parts]: "calm P \<Longrightarrow> io_all P (result_loop E html l k n)"
  by (induction n arbitrary: k)
    (auto intro!: io_rules search_parts simp: search_result_state_def split: prod.splits)

lemma wait_result_steps [search_parts]: "calm P \<Longrightarrow> io_all P (wait_for_search_result_dom E html l)"
  unfolding wait_for_search_result_dom_def search_result_state_def
  by (auto intro!: io_rules search_parts split: prod.splits)

lemma wait_distinct_steps [search_parts]: "calm P \<Longrightarrow> io_all P (wait_for_distinct_document E f prev st)"
  unfolding wait_for_distinct_document_def by (auto intro!: io_rules split: list.splits)

lemma submit_form_steps [search_parts]:
  "calm P \<Longrightarrow> P Form_submitted \<Longrightarrow> io_all P (submit_form_document E spec l f prev)"
  unfolding submit_form_document_def by (auto intro!: io_rules search_parts split: prod.splits)

lemma worker_steps [search_parts]:
  "calm P \<Longrightarrow> io_all P (anubis_worker_control E op)" "io_all P (validate_worker_status w)"
  "calm P \<Longrightarrow> io_all P (remove_anubis_preload E)"
  unfolding remove_anubis_preload_def anubis_worker_control_def validate_worker_status_def
  by (auto intro!: io_rules)

lemma park_steps [search_parts]:
  "calm P \<Longrightarrow> P Parked \<Longrightarrow> P Closed_owner \<Longrightarrow> io_all P (park_target E w)"
  unfolding park_target_def by (auto intro!: io_rules)

lemma suspend_steps [search_parts]:
  "calm P \<Longrightarrow> (\<And>c. P (Pending_set c)) \<Longrightarrow> P (Park_required False) \<Longrightarrow> io_all P (suspend_anubis E co html)"
  unfolding suspend_anubis_def
  by (auto intro!: io_rules search_parts split: option.splits sum.splits anubis_error.splits)

lemma connect_steps [search_parts]:
  "calm P \<Longrightarrow> P Connected \<Longrightarrow> (\<And>t. P (Target_set t)) \<Longrightarrow> io_all P (connect_target E w)"
  unfolding connect_target_def by (auto intro!: io_rules split: option.splits prod.splits)

lemma setup_steps [search_parts]:
  "calm P \<Longrightarrow> (\<And>f. P (Frame_set f)) \<Longrightarrow> io_all P (setup_target E spec w)"
  unfolding setup_target_def setup_command_def by (auto intro!: io_rules)

lemma admit_steps [search_parts]: "calm P \<Longrightarrow> (\<And>b. P (Admitted b)) \<Longrightarrow> io_all P (admit E)"
  unfolding admit_def by (auto intro!: io_rules)

lemma homepage_steps [search_parts]:
  "calm P \<Longrightarrow> P (Park_required True) \<Longrightarrow> P (Navigated (homepage_url spec)) \<Longrightarrow> io_all P (load_homepage E spec l f)"
  unfolding load_homepage_def by (auto intro!: io_rules search_parts split: prod.splits)

lemma finish_steps [search_parts]:
  "calm P \<Longrightarrow> P Parked \<Longrightarrow> P Closed_owner \<Longrightarrow> P (Park_required False) \<Longrightarrow> io_all P (finish_result E spec w r c)"
  unfolding finish_result_def by (auto intro!: io_rules search_parts)

end
