(* ===== verification/Search_Safety.thy ===== *)
theory Search_Safety
  imports Search_Client
begin

text \<open>What a search transaction guarantees, whatever the browser replies.\<close>

section \<open>Where the query goes\<close>

fun carries_query :: "step \<Rightarrow> bool" where
  "carries_query (Query_sent _) = True"
| "carries_query Form_submitted = True"
| "carries_query _ = False"

lemma calm_no_query: "calm (\<lambda>s. \<not> carries_query s)"
  by (simp add: calm_def)

lemma open_homepage_quiet: "io_all (\<lambda>s. \<not> carries_query s) (open_homepage E spec limit w)"
  unfolding open_homepage_def
  by (intro io_rules search_parts calm_no_query) simp_all

lemma page_details_log: "fst (page_details E n url html) = []"
  by (simp add: page_details_def pure_call_def io_raise_def io_ret_def split: sum.splits)

lemma suspend_quiet: "io_all (\<lambda>s. \<not> carries_query s) (suspend_anubis E co html)"
  by (intro search_parts calm_no_query) simp_all

lemma exit_quiet: "list_all (\<lambda>s. \<not> carries_query s) (exit_steps E spec w log r)"
  using park_steps [OF calm_no_query, of E "owner_after log w"]
  by (auto simp: exit_steps_def io_all_def)

lemma check_log: "fst (check ok c st) = []" "snd (check ok c st) = Inr x \<longleftrightarrow> ok"
  "snd (check ok c st) = Inl e \<longleftrightarrow> \<not> ok \<and> e = Client_error c st"
  by (auto simp: check_def fail_def)

lemma check_Inr: "Inr x = snd (check ok c st) \<longleftrightarrow> ok"
  by (auto simp: check_def fail_def)

lemma submit_search_cases:
  assumes "submit_search E spec fs mode wu limit ok query w = (log, r)"
  shows "log = [] \<and> (\<exists>e. r = Inl e) \<or>
    ow_pending w = None \<and>
    log = fst (search_steps E spec limit mode query w) @
      exit_steps E spec w (fst (search_steps E spec limit mode query w)) (snd (search_steps E spec limit mode query w)) \<and>
    r = (case snd (search_steps E spec limit mode query w) of
      Inl e \<Rightarrow> Inl (mapped_error (fst (search_steps E spec limit mode query w)) e) | Inr x \<Rightarrow> Inr x)"
proof (cases "search_steps E spec limit mode query w")
  case (Pair l x)
  then show ?thesis
    using assms by (cases x) (auto simp: submit_search_def io_raise_def fail_def split: if_splits)
qed

lemma use_homepage_query:
  assumes "\<exists>s \<in> set (fst (use_homepage E spec limit mode query session frame home)). carries_query s"
  shows "\<exists>sig. snd (page_details E (rd_status home) (rd_url home) (rd_html home)) = Inr (None, sig) \<and>
    rd_status home \<noteq> 404 \<and> rd_status home < 500"
proof (cases "snd (page_details E (rd_status home) (rd_url home) (rd_html home))")
  case (Inl e)
  then show ?thesis using assms by (simp add: use_homepage_def fst_io_bind page_details_log)
next
  case (Inr d)
  show ?thesis
  proof (cases "is_anubis spec d")
    case True
    then show ?thesis
      using assms Inr suspend_quiet [of E "continuation_at E spec limit mode query ''homepage'' home" "rd_html home"]
      by (auto simp: use_homepage_def fst_io_bind page_details_log io_all_def list_all_iff)
  next
    case False
    then show ?thesis
      using assms Inr
      by (cases d) (auto simp: use_homepage_def fst_io_bind page_details_log check_log check_Inr fail_def
          split: option.splits sum.splits)
  qed
qed

lemma open_homepage_Inr:
  assumes "snd (open_homepage E spec limit w) = Inr (session, frame, home)"
  shows "Admitted True \<in> set (fst (open_homepage E spec limit w)) \<and>
    Navigated (homepage_url spec) \<in> set (fst (open_homepage E spec limit w)) \<and>
    e_guard E = Done True \<and>
    validate_search_terminal_url (homepage_hosts spec) ''homepage-origin'' (rd_url home) = Inr ()"
proof -
  obtain s' f' where 1: "snd (connect_target E w) = Inr session" "snd (setup_target E spec w) = Inr frame"
    "snd (admit E) = Inr ()" "snd (load_homepage E spec limit frame) = Inr home"
    using assms by (auto simp: open_homepage_def snd_io_bind rbind_Inr_iff)
  have "e_guard E = Done True \<and> Admitted True \<in> set (fst (admit E))"
    using 1(3) by (auto simp: admit_def snd_io_bind fst_io_bind rbind_Inr_iff cmd_def check_log split: reply.splits)
  moreover have "Navigated (homepage_url spec) \<in> set (fst (load_homepage E spec limit frame)) \<and>
      validate_search_terminal_url (homepage_hosts spec) ''homepage-origin'' (rd_url home) = Inr ()"
    using 1(4) by (auto simp: load_homepage_def snd_io_bind fst_io_bind rbind_Inr_iff cmd_def split: reply.splits)
  ultimately show ?thesis using 1
    by (auto simp: open_homepage_def fst_io_bind)
qed

text \<open>
  C8 (safety). The query reaches a page only behind the whole preamble: if any step of a
  transaction carries the query, then the transaction was admitted by the provider's lease, the
  homepage was navigated, its final URL passed the origin policy of the provider, its status
  and content were neither an error nor a challenge, and all of this happened before the first
  step that carries the query.\<close>

theorem query_after_preamble:
  assumes "submit_search E spec fs mode wu limit ok query w = (log, r)"
    and "s \<in> set log" and "carries_query s"
  shows "\<exists>session frame home sig rest. log = fst (open_homepage E spec limit w) @ rest \<and>
    list_all (\<lambda>s. \<not> carries_query s) (fst (open_homepage E spec limit w)) \<and>
    snd (open_homepage E spec limit w) = Inr (session, frame, home) \<and>
    Admitted True \<in> set (fst (open_homepage E spec limit w)) \<and> e_guard E = Done True \<and>
    Navigated (homepage_url spec) \<in> set (fst (open_homepage E spec limit w)) \<and>
    validate_search_terminal_url (homepage_hosts spec) ''homepage-origin'' (rd_url home) = Inr () \<and>
    snd (page_details E (rd_status home) (rd_url home) (rd_html home)) = Inr (None, sig) \<and>
    rd_status home \<noteq> 404 \<and> rd_status home < 500"
proof -
  let ?O = "open_homepage E spec limit w"
  have quiet: "list_all (\<lambda>s. \<not> carries_query s) (fst ?O)"
    using open_homepage_quiet by (simp add: io_all_def)
  have log: "log = fst (search_steps E spec limit mode query w) @
      exit_steps E spec w (fst (search_steps E spec limit mode query w)) (snd (search_steps E spec limit mode query w))"
    using submit_search_cases [OF assms(1)] assms(2) by auto
  with assms(2,3) exit_quiet have q: "s \<in> set (fst (search_steps E spec limit mode query w))"
    by (auto simp: list_all_iff)
  obtain session frame home where O: "snd ?O = Inr (session, frame, home)"
    and u: "s \<in> set (fst (use_homepage E spec limit mode query session frame home))"
  proof (cases "snd ?O")
    case (Inl e)
    then show thesis using q quiet assms(3) by (auto simp: search_steps_def fst_io_bind list_all_iff)
  next
    case (Inr x)
    then show thesis using q quiet assms(3) that
      by (cases x) (auto simp: search_steps_def fst_io_bind list_all_iff)
  qed
  have "\<exists>rest. log = fst ?O @ rest" using log by (simp add: search_steps_def fst_io_bind)
  then show ?thesis
    using open_homepage_Inr [OF O] O quiet use_homepage_query [of E spec limit mode query session frame home] u assms(3)
    by blast
qed

section \<open>A working browser\<close>

definition search_page :: interaction where
  "search_page = \<lparr>homepage_url = ''https://s.example/'', homepage_hosts = [''s.example''],
     result_hosts = [''s.example''], query_selector = ''input'', query_field = ''q'', action_path = ''/search'',
     form_method = ''get'', fixed_names = [''ia''], terminal_selector = None, pending_selector = None,
     anubis_pow = False\<rparr>"

definition sample_env :: search_env where
  "sample_env = \<lparr>e_codec = ascii_codec, e_urljoin = (\<lambda>b s. Inr s), e_parse = (\<lambda>_. Some []),
     e_loads = sample_loads, e_query_pairs = (\<lambda>_. []), e_sha = toy_sha, e_token = ''tok'',
     e_connect = Done (), e_target = Done (''t'', ''s''), e_setup = (\<lambda>_. Done ()), e_frame = Done ''f'',
     e_preload = Done ''p'', e_guard = Done True, e_navigate = Done ''L1'', e_wait = (\<lambda>_. Done ()),
     e_events = (\<lambda>phase. if phase = ''homepage''
       then [Response ''Document'' ''f'' ''L1'' ''L1'' 200 (Some []), Loading_finished ''L1'',
             Frame_navigated ''f'' ''L1'' ''https://s.example/'']
       else if phase = ''anubis-pass''
       then [Response ''Document'' ''f'' ''L3'' ''L3'' 200 (Some []), Loading_finished ''L3'',
             Frame_navigated ''f'' ''L3'' ''https://s.example/'']
       else [Response ''Document'' ''f'' ''L2'' ''L2'' 200 (Some []), Loading_finished ''L2'',
             Frame_navigated ''f'' ''L2'' ''https://s.example/search?q=x'']),
     e_html = (\<lambda>_ _. Done (Some ''<html>'')), e_form = (\<lambda>_ k. Done (Some True)), e_state = (\<lambda>_. Done (Some (True, False))),
     e_worker = (\<lambda>op. Done (Some (if op = ''status''
       then \<lparr>ws_active = True, ws_installed = True, ws_suppressed = 1\<rparr>
       else \<lparr>ws_active = False, ws_installed = False, ws_suppressed = 0\<rparr>))), e_key = (\<lambda>_. Done ()), e_present = Done (Some True), e_pass = Done True,
     e_park = Done ''blank'', e_rounds = 10\<rparr>"

definition sample_search :: "step list \<times> (client_exn + submission)" where
  "sample_search = submit_search sample_env search_page [] ''timed'' ''load'' 1000 True ''ab'' fresh_owner"

lemma sample_search_result:
  "snd sample_search = Inr (Submitted ''https://s.example/search?q=x'' 200 [] ''<html>'' None)"
  "Form_submitted \<in> set (fst sample_search)"
  by code_simp+

theorem query_after_preamble_witness:
  "e_guard sample_env = Done True \<and>
   Navigated ''https://s.example/'' \<in> set (fst (open_homepage sample_env search_page 1000 fresh_owner))"
  using query_after_preamble [of sample_env search_page "[]" "''timed''" "''load''" 1000 True "''ab''" fresh_owner
      "fst sample_search" "snd sample_search" Form_submitted] sample_search_result(2)
  by (auto simp: sample_search_def search_page_def)

section \<open>How often the page is used\<close>

text \<open>The steps of a kind in a log; along a sequence they add up.\<close>

definition tally :: "(step \<Rightarrow> bool) \<Rightarrow> 'a search \<Rightarrow> nat" where
  "tally P m = length (filter P (fst m))"

lemma tally_bind:
  "tally P m \<le> a \<Longrightarrow> (\<And>x. snd m = Inr x \<Longrightarrow> tally P (f x) \<le> b) \<Longrightarrow> tally P (io_bind m f) \<le> a + b"
  by (auto simp: tally_def fst_io_bind split: sum.splits)

lemma tally_quiet: "io_all (\<lambda>s. \<not> P s) m \<Longrightarrow> tally P m \<le> n"
  by (auto simp: tally_def io_all_def list_all_iff filter_empty_conv)

lemma tally_bind_none: "io_all (\<lambda>s. \<not> P s) m \<Longrightarrow> (\<And>x. tally P (f x) \<le> b) \<Longrightarrow> tally P (io_bind m f) \<le> b"
  using tally_bind [of P m 0 f b] tally_quiet [of P m 0] by simp

lemma tally_then_none: "tally P m \<le> a \<Longrightarrow> (\<And>x. io_all (\<lambda>s. \<not> P s) (f x)) \<Longrightarrow> tally P (io_bind m f) \<le> a"
proof -
  assume m: "tally P m \<le> a" and f: "\<And>x. io_all (\<lambda>s. \<not> P s) (f x)"
  have "tally P (io_bind m f) \<le> a + 0" using m by (rule tally_bind) (rule tally_quiet [OF f])
  then show ?thesis by simp
qed

fun submits :: "step \<Rightarrow> bool" where
  "submits Form_submitted = True"
| "submits _ = False"

fun navigates :: "step \<Rightarrow> bool" where
  "navigates (Navigated _) = True"
| "navigates (Replaced _ _) = True"
| "navigates _ = False"

lemma calm_counts [simp]: "calm (\<lambda>s. \<not> submits s)" "calm (\<lambda>s. \<not> navigates s)"
  by (simp_all add: calm_def)

lemma pass_navigation_counts [simp]: "navigates (pass_navigation co sol)" "\<not> submits (pass_navigation co sol)"
  by (simp_all add: pass_navigation_def)

lemma one_form: "tally submits (submit_form_document E spec l f prev) \<le> 1"
proof -
  have "tally submits (search_form_call E Form_submitted ''form-submit'' 0) \<le> 1"
    by (simp add: search_form_call_def tally_def fst_io_bind cmd_def shaped_def fail_def
        split: reply.splits option.splits)
  then show ?thesis
    unfolding submit_form_document_def
    by (rule tally_then_none) (auto intro!: io_rules search_parts split: prod.splits)
qed

lemma search_homepage_forms: "tally submits (search_homepage E spec l mode q s f home) \<le> 1"
  unfolding search_homepage_def
proof (rule tally_bind_none)
  show "io_all (\<lambda>s. \<not> submits s) (enter_search_query E spec l mode q)" by (rule search_parts) simp_all
  show "tally submits (io_bind (submit_form_document E spec l f (rd_loader home)) (\<lambda>r.
      io_bind (page_details E (rd_status r) (rd_url r) (rd_html r)) (\<lambda>d.
       if is_anubis spec d
       then suspend_anubis E (continuation_at E spec l mode q ''result'' r) (rd_html r)
       else finish_result E spec (attached_owner s f) r (fst d)))) \<le> 1" for x
    by (rule tally_then_none [OF one_form]) (auto intro!: io_rules search_parts)
qed

lemma use_homepage_forms: "tally submits (use_homepage E spec l mode q s f home) \<le> 1"
  unfolding use_homepage_def
proof (rule tally_bind_none)
  show "tally submits (if is_anubis spec d
       then suspend_anubis E (continuation_at E spec l mode q ''homepage'' home) (rd_html home)
       else case fst d of
         Some failure \<Rightarrow> fail failure ''homepage-classification''
       | None \<Rightarrow>
           io_bind (check (rd_status home \<noteq> 404 \<and> rd_status home < 500) Http_status ''homepage-classification'')
             (\<lambda>_. search_homepage E spec l mode q s f home)) \<le> 1" for d
  proof (cases "is_anubis spec d \<or> fst d \<noteq> None")
    case True
    then show ?thesis by (auto intro!: tally_quiet io_rules search_parts split: option.splits)
  next
    case False
    then show ?thesis
      by (auto intro!: tally_bind_none [OF _ search_homepage_forms, simplified] io_rules)
  qed
qed (rule io_rules)

lemma load_homepage_navigations: "tally navigates (load_homepage E spec l f) \<le> 1"
proof -
  have "tally navigates (cmd [Navigated (homepage_url spec)] Navigation_timeout ''homepage-navigation'' (e_navigate E)) \<le> 1"
    by (simp add: tally_def cmd_def split: reply.splits)
  then show ?thesis
    unfolding load_homepage_def
    by (intro tally_bind_none tally_then_none) (auto intro!: io_rules search_parts split: prod.splits)
qed

lemma one_navigation: "tally navigates (open_homepage E spec l w) \<le> 1"
  unfolding open_homepage_def
proof (rule tally_bind_none, goal_cases)
  case 1
  show ?case by (rule search_parts) simp_all
next
  case (2 session)
  show ?case
  proof (rule tally_bind_none, goal_cases)
    case 1
    show ?case by (rule search_parts) simp_all
  next
    case (2 frame)
    show ?case
    proof (rule tally_bind_none, goal_cases)
      case 1
      show ?case by (rule search_parts) simp_all
    next
      case (2 u)
      show ?case by (rule tally_then_none [OF load_homepage_navigations]) (rule io_rules)
    qed
  qed
qed

lemma exit_counts: "list_all (\<lambda>s. \<not> submits s \<and> \<not> navigates s) (exit_steps E spec w log r)"
  using park_steps [of "\<lambda>s. \<not> submits s \<and> \<not> navigates s" E "owner_after log w"]
  by (auto simp: exit_steps_def io_all_def calm_def)

lemma use_homepage_navigations: "tally navigates (use_homepage E spec l mode q s f home) \<le> 0"
  unfolding use_homepage_def search_homepage_def
  by (rule tally_quiet) (auto intro!: io_rules search_parts split: option.splits)

lemma resubmit_forms: "tally submits (resubmit E co f d) \<le> 1"
  unfolding resubmit_def
proof (rule tally_bind_none)
  show "io_all (\<lambda>s. \<not> submits s) (enter_search_query E (co_spec co) (co_limit co) (co_mode co) (co_query co))"
    by (rule search_parts) simp_all
  show "tally submits (io_bind (submit_form_document E (co_spec co) (co_limit co) f (rd_loader d)) (\<lambda>r.
    io_bind (page_details E (rd_status r) (rd_url r) (rd_html r)) (\<lambda>(c, _).
     case c of Some failure \<Rightarrow> fail failure ''anubis-restored-result-classification''
     | None \<Rightarrow> io_ret r))) \<le> 1" for x
    by (rule tally_then_none [OF one_form]) (auto intro!: io_rules split: prod.splits option.splits)
qed

lemma pass_document_steps [search_parts]: "calm P \<Longrightarrow> P (pass_navigation co sol) \<Longrightarrow> io_all P (pass_document E co sol f)"
  unfolding pass_document_def check_pass_requests_def
  by (auto intro!: io_rules search_parts split: prod.splits option.splits list.splits)

lemma resubmit_steps [search_parts]:
  "calm P \<Longrightarrow> (\<And>st. P (Query_sent st)) \<Longrightarrow> P Form_submitted \<Longrightarrow> io_all P (resubmit E co f d)"
  unfolding resubmit_def by (auto intro!: io_rules search_parts split: prod.splits option.splits)

lemma resume_steps_steps [search_parts]:
  "calm P \<Longrightarrow> (\<And>st. P (Query_sent st)) \<Longrightarrow> P Form_submitted \<Longrightarrow> P Parked \<Longrightarrow> P Closed_owner \<Longrightarrow>
   P (pass_navigation co sol) \<Longrightarrow> io_all P (resume_steps E co sol f w)"
  unfolding resume_steps_def by (auto intro!: io_rules search_parts split: prod.splits)

lemma closing_steps [search_parts]: "io_all P m \<Longrightarrow> P Closed_owner \<Longrightarrow> io_all P (closing m)"
  unfolding closing_def by (auto intro!: io_rules)

lemma resume_checked_steps [search_parts]:
  "calm P \<Longrightarrow> (\<And>st. P (Query_sent st)) \<Longrightarrow> P Form_submitted \<Longrightarrow> P Parked \<Longrightarrow> P Closed_owner \<Longrightarrow>
   P (pass_navigation co sol) \<Longrightarrow> io_all P (resume_checked E co sol w)"
  unfolding resume_checked_def
  by (auto intro!: io_rules search_parts split: option.splits bool.splits)

lemma resume_pow_steps:
  "calm P \<Longrightarrow> (\<And>st. P (Query_sent st)) \<Longrightarrow> P Form_submitted \<Longrightarrow> P Parked \<Longrightarrow> P Closed_owner \<Longrightarrow>
   P Pending_cleared \<Longrightarrow> (\<And>co. ow_pending w = Some co \<Longrightarrow> P (pass_navigation co sol)) \<Longrightarrow> io_all P (resume_anubis_pow E t sol w)"
  unfolding resume_anubis_pow_def
  by (auto intro!: io_rules search_parts split: option.splits bool.splits)

lemma resume_steps_forms: "tally submits (resume_steps E co sol f w) \<le> 1"
  unfolding resume_steps_def
proof (rule tally_bind_none)
  show "io_all (\<lambda>s. \<not> submits s) (pass_document E co sol f)" by (rule search_parts) simp_all
  fix x :: "result_doc \<times> bool"
  obtain d has_form where x: "x = (d, has_form)" by (cases x)
  have "tally submits (if again then resubmit E co f d else io_ret d) \<le> 1" for again
    by (cases again) (auto intro!: resubmit_forms [simplified] tally_quiet io_rules)
  then show "tally submits (case x of (d, has_form) \<Rightarrow>
     io_bind (pure_call (should_resubmit co (rd_url d) has_form)) (\<lambda>again.
     io_bind (if again then resubmit E co f d else io_ret d) (\<lambda>r.
     io_bind (remove_anubis_preload E) (\<lambda>_.
     io_bind (park_target E w) (\<lambda>_.
     io_ret (Submitted (rd_url r) (rd_status r) (rd_headers r) (rd_html r) None)))))) \<le> 1"
    unfolding x prod.case
    by (intro tally_bind_none tally_then_none) (auto intro!: io_rules search_parts)
qed

lemma tally_closing: "\<not> P Closed_owner \<Longrightarrow> tally P (closing m) = tally P m"
  by (auto simp: closing_def tally_def fst_io_catch fst_io_bind split: sum.splits)

lemma resume_forms: "tally submits (resume_anubis_pow E t sol w) \<le> 1"
proof -
  have f: "tally submits (fail c st) \<le> 1" for c st by (rule tally_quiet) (rule io_rules)
  then show ?thesis
    unfolding resume_anubis_pow_def resume_checked_def
    by (auto simp: tally_closing intro!: f [simplified] tally_bind_none resume_steps_forms [simplified] io_rules
        split: option.splits bool.splits)
qed

lemma pass_document_navigations: "tally navigates (pass_document E co sol f) \<le> 1"
proof -
  have "tally navigates (cmd [pass_navigation co sol] Post_navigation_timeout ''anubis-pass-submit'' (e_pass E)) \<le> 1"
    by (simp add: tally_def cmd_def split: reply.splits)
  then show ?thesis
    unfolding pass_document_def check_pass_requests_def
    by (rule tally_then_none) (auto intro!: io_rules search_parts split: prod.splits option.splits list.splits)
qed

lemma resume_steps_navigations: "tally navigates (resume_steps E co sol f w) \<le> 1"
  unfolding resume_steps_def
  by (rule tally_then_none [OF pass_document_navigations])
    (auto intro!: io_rules search_parts split: prod.splits)

lemma resume_navigations: "tally navigates (resume_anubis_pow E t sol w) \<le> 1"
proof -
  have f: "tally navigates (fail c st) \<le> 1" for c st by (rule tally_quiet) (rule io_rules)
  then show ?thesis
    unfolding resume_anubis_pow_def resume_checked_def
    by (auto simp: tally_closing intro!: f [simplified] tally_bind_none resume_steps_navigations [simplified] io_rules
        split: option.splits bool.splits)
qed

text \<open>The only navigation of a continuation: to the pass path, with the proof of its challenge.\<close>

definition pass_navigations :: "owner \<Rightarrow> anubis_solution \<Rightarrow> step set" where
  "pass_navigations w sol = (case ow_pending w of None \<Rightarrow> {} | Some co \<Rightarrow> {pass_navigation co sol})"

lemma resume_navigates_pass: "set (filter navigates (fst (resume_anubis_pow E t sol w))) \<subseteq> pass_navigations w sol"
proof -
  have "io_all (\<lambda>s. navigates s \<longrightarrow> s \<in> pass_navigations w sol) (resume_anubis_pow E t sol w)"
    by (rule resume_pow_steps) (auto simp: calm_def pass_navigations_def)
  then show ?thesis by (auto simp: io_all_def list_all_iff)
qed

lemma submit_navigates_home:
  assumes "submit_search E spec fs mode wu limit ok query w = (log, r)"
  shows "set (filter navigates log) \<subseteq> {Navigated (homepage_url spec)}"
proof -
  let ?P = "\<lambda>s. navigates s \<longrightarrow> s = Navigated (homepage_url spec)"
  have "io_all ?P (search_steps E spec limit mode query w)"
    unfolding search_steps_def open_homepage_def use_homepage_def search_homepage_def
    by (auto intro!: io_rules search_parts simp: calm_def split: prod.splits option.splits)
  moreover have "list_all ?P (exit_steps E spec w (fst (search_steps E spec limit mode query w)) (snd (search_steps E spec limit mode query w)))"
    using exit_counts by (auto simp: list_all_iff)
  ultimately show ?thesis
    using submit_search_cases [OF assms] by (elim disjE conjE) (auto simp: io_all_def list_all_iff)
qed

text \<open>
  C9 (bounds). A transaction navigates to the provider at most once, to its homepage, and submits at most one form, whatever
  the browser replies: nothing is retried. Its continuation after a challenge navigates at most once more, by
  replacing the document by the pass path with the proof of that very challenge, and submits at most one more
  form. The inert document that a target is parked on is not counted.
\<close>

theorem one_navigation_one_form:
  assumes "submit_search E spec fs mode wu limit ok query w = (log, r)"
    and "resume_anubis_pow E' t sol w' = (log', r')"
  shows "length (filter navigates log) \<le> 1 \<and> length (filter submits log) \<le> 1 \<and>
    set (filter navigates log) \<subseteq> {Navigated (homepage_url spec)} \<and>
    length (filter navigates log') \<le> 1 \<and> length (filter submits log') \<le> 1 \<and>
    set (filter navigates log') \<subseteq> pass_navigations w' sol"
proof -
  let ?S = "search_steps E spec limit mode query w"
  have "tally navigates ?S \<le> 1 + 0"
    unfolding search_steps_def
    by (rule tally_bind [OF one_navigation]) (auto intro!: use_homepage_navigations [simplified] split: prod.splits)
  moreover have "tally submits ?S \<le> 1"
    unfolding search_steps_def
    by (rule tally_bind_none)
      (auto simp: open_homepage_def intro!: use_homepage_forms [simplified] io_rules search_parts split: prod.splits)
  moreover have "filter navigates (exit_steps E spec w (fst ?S) (snd ?S)) = []"
    "filter submits (exit_steps E spec w (fst ?S) (snd ?S)) = []"
    using exit_counts [of E spec w "fst ?S" "snd ?S"] by (auto simp: list_all_iff filter_empty_conv)
  ultimately have "length (filter navigates log) \<le> 1 \<and> length (filter submits log) \<le> 1"
    using submit_search_cases [OF assms(1)] by (elim disjE conjE) (simp_all add: tally_def)
  moreover have "tally navigates (resume_anubis_pow E' t sol w') \<le> 1" "tally submits (resume_anubis_pow E' t sol w') \<le> 1"
    by (rule resume_navigations, rule resume_forms)
  ultimately show ?thesis
    using assms(2) submit_navigates_home [OF assms(1)] resume_navigates_pass [of E' t sol w'] by (simp add: tally_def)
qed

definition pending_owner :: owner where
  "pending_owner = \<lparr>ow_connected = True, ow_target = Some ''s'', ow_frame = Some ''f'',
     ow_pending = Some \<lparr>co_token = ''tok'', co_challenge = sample_challenge, co_boundary = ''homepage'',
       co_url = ''https://s.example/'', co_loader = ''L1'', co_query = ''ab'', co_spec = search_page,
       co_mode = ''instant'', co_limit = 1000\<rparr>\<rparr>"

definition sample_solution :: anubis_solution where
  "sample_solution = \<lparr>sol_response = replicate 64 (CHR ''0''), sol_nonce = 4, sol_elapsed_ms = 7\<rparr>"

definition sample_resume :: "step list \<times> (client_exn + submission)" where
  "sample_resume = resume_anubis_pow sample_env ''tok'' sample_solution pending_owner"

lemma sample_resume_result:
  "snd sample_resume = Inr (Submitted ''https://s.example/search?q=x'' 200 [] ''<html>'' None)"
  by code_simp

theorem one_navigation_one_form_witness:
  "length (filter navigates (fst sample_search)) \<le> 1 \<and> length (filter submits (fst sample_resume)) \<le> 1 \<and>
   set (filter navigates (fst sample_resume)) \<subseteq> pass_navigations pending_owner sample_solution \<and>
   Form_submitted \<in> set (fst sample_resume)"
proof -
  have "Form_submitted \<in> set (fst sample_resume)" by code_simp
  then show ?thesis
    using one_navigation_one_form [of sample_env search_page "[]" "''timed''" "''load''" 1000 True "''ab''" fresh_owner
        "fst sample_search" "snd sample_search" sample_env "''tok''" sample_solution pending_owner
        "fst sample_resume" "snd sample_resume"]
    by (simp add: sample_search_def sample_resume_def)
qed

section \<open>What is left behind\<close>

text \<open>Whether a document of the provider is loaded in the retained target.\<close>

fun page_step :: "step \<Rightarrow> bool \<Rightarrow> bool" where
  "page_step (Navigated _) b = True"
| "page_step (Replaced _ _) b = True"
| "page_step Form_submitted b = True"
| "page_step Parked b = False"
| "page_step Closed_owner b = False"
| "page_step _ b = b"

definition page_loaded :: "step list \<Rightarrow> bool \<Rightarrow> bool" where
  "page_loaded log b = fold page_step log b"

lemma page_loaded_append: "page_loaded (xs @ ys) b = page_loaded ys (page_loaded xs b)"
  by (simp add: page_loaded_def)

lemma owner_after_append: "owner_after (xs @ ys) w = owner_after ys (owner_after xs w)"
  by (simp add: owner_after_def)

text \<open>Steps that neither change the owner nor take the page away.\<close>

fun plain :: "step \<Rightarrow> bool" where
  "plain (At _) = True"
| "plain (Sent _) = True"
| "plain (Query_sent _) = True"
| "plain Form_submitted = True"
| "plain (Admitted _) = True"
| "plain (Navigated _) = True"
| "plain (Replaced _ _) = True"
| "plain _ = False"

lemma calm_plain [simp]: "calm plain"
  by (simp add: calm_def)

lemma plain_owner: "list_all plain log \<Longrightarrow> owner_after log w = w"
  unfolding owner_after_def
proof (induction log arbitrary: w)
  case (Cons s log)
  then show ?case by (cases s) auto
qed simp

lemma plain_park: "list_all plain log \<Longrightarrow> fold (\<lambda>s b. case s of Park_required x \<Rightarrow> x | _ \<Rightarrow> b) log b = b"
proof (induction log arbitrary: b)
  case (Cons s log)
  then show ?case by (cases s) auto
qed simp

definition clean :: "client_exn \<Rightarrow> bool" where
  "clean e \<longleftrightarrow> (\<exists>c st. e = Client_error c st \<and> c \<in> set clean_failures)"

lemma unclean_transport [simp]: "\<not> clean (transport_exn f)" "\<not> clean (Other_exn m)"
  by (cases f; simp add: clean_def clean_failures_def) (simp add: clean_def)

text \<open>A computation that ends with a clean failure has only taken plain steps.\<close>

definition settled :: "'a search \<Rightarrow> bool" where
  "settled m \<longleftrightarrow> (\<forall>e. snd m = Inl e \<longrightarrow> clean e \<longrightarrow> list_all plain (fst m))"

lemma settled_plain: "io_all plain m \<Longrightarrow> settled m"
  by (simp add: settled_def io_all_def)

lemma settled_bind: "io_all plain m \<Longrightarrow> (\<And>x. snd m = Inr x \<Longrightarrow> settled (f x)) \<Longrightarrow> settled (io_bind m f)"
  by (auto simp: settled_def io_all_def snd_io_bind fst_io_bind rbind_Inl_iff split: sum.splits)

lemma settled_leaf: "settled (fail c st)" "settled (io_raise e)" "settled (io_ret x)"
  by (simp_all add: settled_def fail_def)

lemma settled_unclean: "(\<And>e. snd m = Inl e \<Longrightarrow> \<not> clean e) \<Longrightarrow> settled m"
  by (auto simp: settled_def)

lemma clean_Client: "clean (Client_error c st) \<longleftrightarrow> c \<in> set clean_failures"
  by (auto simp: clean_def)

lemma cmd_unclean: "snd (cmd steps c st r) = Inl e \<Longrightarrow> c \<notin> set clean_failures \<Longrightarrow> \<not> clean e"
  by (auto simp: cmd_def clean_Client split: reply.splits)

lemma check_unclean: "snd (check b c st) = Inl e \<Longrightarrow> c \<notin> set clean_failures \<Longrightarrow> \<not> clean e"
  by (auto simp: check_log clean_Client)

lemma park_unclean: "snd (park_target E w) = Inl e \<Longrightarrow> \<not> clean e"
  by (auto simp: park_target_def fail_def clean_Client clean_failures_def snd_io_bind snd_io_catch rcatch_def
      cmd_def check_def rbind_def split: if_splits sum.splits reply.splits)

lemma park_attached:
  assumes "frame \<noteq> []"
  shows "\<not> page_loaded (fst (park_target E (attached_owner session frame))) b \<and>
    ow_pending (owner_after (fst (park_target E (attached_owner session frame))) (attached_owner session frame)) = None"
    and "snd (park_target E (attached_owner session frame)) = Inr () \<Longrightarrow>
      owner_after (fst (park_target E (attached_owner session frame))) w = w"
  using assms
  by (auto simp: park_target_def attached_owner_def fst_io_catch fst_io_bind snd_io_bind snd_io_catch cmd_def check_def fail_def
      page_loaded_def owner_after_def fresh_owner_def rbind_def rcatch_def split: reply.splits)

lemma settled_suspend: "settled (suspend_anubis E co html)"
proof -
  have "settled (io_bind (io_emit ss) (\<lambda>_. io_ret x))" for ss :: "step list" and x :: submission
    by (rule settled_unclean) (simp add: snd_io_bind)
  note tail = this
  have ok: "settled (io_bind (anubis_worker_control E ''status'') (\<lambda>ws.
      io_bind (validate_worker_status ws) (\<lambda>_. io_bind (io_emit ss) (\<lambda>_. io_ret x))))"
    for ss :: "step list" and x :: submission
    by (rule settled_bind, rule search_parts, simp, rule settled_bind, rule search_parts, rule tail)
  show ?thesis
    unfolding suspend_anubis_def
    by (auto intro!: ok settled_leaf split: option.splits sum.splits anubis_error.splits)
qed

lemma settled_finish: "settled (finish_result E spec w r c)"
  unfolding finish_result_def
proof (rule settled_bind)
  show "io_all plain (if anubis_pow spec then remove_anubis_preload E else io_ret ())"
    by (auto intro!: io_rules search_parts)
  show "settled (io_bind (park_target E w) (\<lambda>_. io_bind (io_emit [Park_required False]) (\<lambda>_.
    io_ret (Submitted (rd_url r) (rd_status r) (rd_headers r) (rd_html r) c))))" for x
    by (rule settled_unclean) (auto simp: snd_io_bind rbind_Inl_iff dest: park_unclean)
qed

lemma settled_use_homepage: "settled (use_homepage E spec l mode q s f home)"
proof -
  have "settled (search_homepage E spec l mode q s f home)"
    unfolding search_homepage_def
    by (intro settled_bind) (auto intro!: settled_suspend settled_finish io_rules search_parts)
  then show ?thesis
    unfolding use_homepage_def
    by (auto intro!: settled_bind settled_suspend settled_leaf io_rules split: option.splits)
qed

text \<open>The results of the second part.\<close>

lemma suspend_Inr:
  assumes "snd (suspend_anubis E co html) = Inr x"
  shows "\<exists>ch. x = Pending_anubis (co_token co) ch \<and>
    (\<exists>co'. owner_after (fst (suspend_anubis E co html)) w = w\<lparr>ow_pending := Some co'\<rparr> \<and>
       co_token co' = co_token co \<and> co_challenge co' = ch \<and> co_query co' = co_query co \<and>
       co_spec co' = co_spec co \<and> co_limit co' = co_limit co) \<and>
    \<not> park_required (log @ fst (suspend_anubis E co html))"
proof -
  from assms obtain ch ws where c: "e_parse E (take 262144 html) = Some tokens \<Longrightarrow> True"
    "x = Pending_anubis (co_token co) ch"
    "fst (suspend_anubis E co html) = fst (anubis_worker_control E ''status'') @ fst (validate_worker_status ws) @
      [Pending_set (co\<lparr>co_challenge := ch\<rparr>), Park_required False]" for tokens
    by (auto simp: suspend_anubis_def snd_io_bind fst_io_bind rbind_Inr_iff fail_def
        split: option.splits sum.splits anubis_error.splits)
  have "list_all plain (fst (anubis_worker_control E ''status'') @ fst (validate_worker_status ws))"
    using worker_steps(1) [of plain E "''status''"] worker_steps(2) [of plain ws] by (simp add: io_all_def)
  then show ?thesis
    using c plain_owner [of "fst (anubis_worker_control E ''status'') @ fst (validate_worker_status ws)" w]
    by (intro exI [of _ ch] conjI exI [of _ "co\<lparr>co_challenge := ch\<rparr>"])
      (auto simp: owner_after_def park_required_def)
qed

lemma continuation_at_fields:
  "co_query (continuation_at E spec l mode q b d) = q" "co_spec (continuation_at E spec l mode q b d) = spec"
  "co_limit (continuation_at E spec l mode q b d) = l"
  by (simp_all add: continuation_at_def)

lemma cmd_Inr: "snd (cmd ss c st r) = Inr x \<Longrightarrow> fst (cmd ss c st r) = At st # ss"
  by (auto simp: cmd_def split: reply.splits)

lemma cmd_Inr_iff: "snd (cmd ss c st r) = Inr x \<longleftrightarrow> r = Done x"
  "fst (cmd ss c st (Done x)) = At st # ss" "snd (cmd ss c st (Done x)) = Inr x"
  by (auto simp: cmd_def split: reply.splits)

lemma cmd_plain_owner: "list_all plain ss \<Longrightarrow> owner_after (fst (cmd ss c st r)) w = w"
  by (rule plain_owner) (use io_all_cmd [of plain st ss c r] in \<open>simp add: io_all_def\<close>)

lemma connect_owner:
  assumes "snd (connect_target E w) = Inr session"
  shows "owner_after (fst (connect_target E w)) w = w\<lparr>ow_connected := True, ow_target := Some session\<rparr> \<and> session \<noteq> []"
  using assms
  by (cases w; cases "ow_target w"; cases "ow_connected w")
    (auto simp: connect_target_def snd_io_bind fst_io_bind rbind_def check_def fail_def owner_after_def cmd_def
      split: reply.splits if_splits)

lemma setup_owner:
  assumes "snd (setup_target E spec w) = Inr frame"
  shows "owner_after (fst (setup_target E spec w)) v = v\<lparr>ow_frame := Some frame\<rparr> \<and> frame \<noteq> []"
  using assms
  by (auto simp: setup_target_def setup_command_def snd_io_bind fst_io_bind rbind_Inr_iff check_def fail_def owner_after_def
      cmd_Inr_iff split: if_splits)

lemma io_all_plain_owner: "io_all plain m \<Longrightarrow> owner_after (fst m) w = w"
  by (simp add: plain_owner io_all_def)

lemma load_owner: "owner_after (fst (load_homepage E spec l f)) w = w"
  and load_parks: "park_required (log @ fst (load_homepage E spec l f))"
proof -
  have "\<exists>m. load_homepage E spec l f = io_bind (io_emit [Park_required True]) (\<lambda>_. m) \<and> io_all plain m"
    unfolding load_homepage_def
    by (rule exI, rule conjI, rule refl) (auto intro!: io_rules search_parts split: prod.splits)
  then obtain m where m: "load_homepage E spec l f = io_bind (io_emit [Park_required True]) (\<lambda>_. m)"
    and p: "io_all plain m" by blast
  show "owner_after (fst (load_homepage E spec l f)) w = w"
    using plain_owner [of "fst m" w] p by (simp add: m fst_io_bind io_all_def owner_after_def)
  show "park_required (log @ fst (load_homepage E spec l f))"
    using plain_park [of "fst m" True] p by (simp add: m fst_io_bind io_all_def park_required_def)
qed

lemma open_homepage_owner:
  assumes "snd (open_homepage E spec l w) = Inr (session, frame, home)" and "ow_pending w = None"
  shows "owner_after (fst (open_homepage E spec l w)) w = attached_owner session frame \<and> frame \<noteq> [] \<and>
    park_required (fst (open_homepage E spec l w))"
proof -
  have 1: "snd (connect_target E w) = Inr session" "snd (setup_target E spec w) = Inr frame"
    "snd (admit E) = Inr ()" "snd (load_homepage E spec l frame) = Inr home"
    using assms(1) by (auto simp: open_homepage_def snd_io_bind rbind_Inr_iff)
  then have log: "fst (open_homepage E spec l w) = (fst (connect_target E w) @ fst (setup_target E spec w) @ fst (admit E)) @
      fst (load_homepage E spec l frame)"
    by (simp add: open_homepage_def fst_io_bind)
  have "owner_after (fst (admit E)) v = v" for v
    by (rule io_all_plain_owner) (rule search_parts; simp)
  then show ?thesis
    using connect_owner [OF 1(1)] setup_owner [OF 1(2)] assms(2)
    by (simp only: log load_parks)
      (simp add: owner_after_append load_owner attached_owner_def)
qed

text \<open>Computations whose failures are never clean.\<close>

definition rough :: "'a search \<Rightarrow> bool" where
  "rough m \<longleftrightarrow> (\<forall>e. snd m = Inl e \<longrightarrow> \<not> clean e)"

lemma rough_bind: "rough m \<Longrightarrow> (\<And>x. rough (f x)) \<Longrightarrow> rough (io_bind m f)"
  by (auto simp: rough_def snd_io_bind rbind_Inl_iff)

lemma rough_cmd: "c \<notin> set clean_failures \<Longrightarrow> rough (cmd ss c st r)"
  by (auto simp: rough_def dest: cmd_unclean)

lemma rough_leaf: "rough (io_ret x)" "rough (io_emit es)" "c \<notin> set clean_failures \<Longrightarrow> rough (check b c st)"
  "c \<notin> set clean_failures \<Longrightarrow> rough (shaped c st y)"
  by (auto simp: rough_def check_def shaped_def fail_def clean_Client split: option.splits)

lemma rough_document: "rough (io_lift (search_event_document es f l st))"
proof -
  have "normalize_headers_from seen hs = Inl e \<Longrightarrow> \<not> clean e" for seen hs e
    by (induction seen hs rule: normalize_headers_from.induct)
      (auto simp: clean_Client clean_failures_def Let_def split: if_splits option.splits)
  then show ?thesis
    by (auto simp: rough_def search_event_document_def normalize_headers_def clean_Client clean_failures_def Let_def
        rbind_Inl_iff split: list.splits if_splits option.splits)
qed

lemma rough_origin: "rough (io_lift (validate_search_terminal_url hs st url))"
  by (auto simp: rough_def validate_search_terminal_url_def clean_Client clean_failures_def split: sum.splits)

lemma rough_dom: "rough (search_dom E l p k)"
  unfolding search_dom_def by (intro rough_bind rough_cmd rough_leaf) (simp_all add: clean_failures_def)

lemma rough_load: "rough (load_homepage E spec l f)"
  unfolding load_homepage_def
  by (intro rough_bind rough_leaf rough_cmd)
    (auto simp: clean_failures_def intro!: rough_bind rough_leaf rough_document rough_origin rough_dom split: prod.splits)

lemma rough_connect: "rough (connect_target E w)"
  unfolding connect_target_def
  by (auto simp: clean_failures_def intro!: rough_bind rough_leaf rough_cmd split: option.splits prod.splits)

lemma rough_setup: "rough (setup_target E spec w)"
  unfolding setup_target_def setup_command_def
  by (auto simp: clean_failures_def intro!: rough_bind rough_leaf rough_cmd)

lemma fold_skip: "list_all (\<lambda>s. \<forall>b. f s b = b) l \<Longrightarrow> fold f l b = b"
  by (induction l arbitrary: b) auto

lemma open_homepage_clean:
  assumes "snd (open_homepage E spec l w) = Inl e" and "clean e" and "ow_pending w = None"
  shows "\<not> park_required (fst (open_homepage E spec l w)) \<and> \<not> page_loaded (fst (open_homepage E spec l w)) False \<and>
    ow_pending (owner_after (fst (open_homepage E spec l w)) w) = None"
proof -
  from assms(1,2) obtain session frame where 1: "snd (connect_target E w) = Inr session"
    "snd (setup_target E spec w) = Inr frame" "snd (admit E) = Inl e"
    using rough_connect [of E w] rough_setup [of E spec w] rough_load [of E spec l]
    by (auto simp: open_homepage_def snd_io_bind rbind_Inl_iff rough_def)
  then have log: "fst (open_homepage E spec l w) = fst (connect_target E w) @ fst (setup_target E spec w) @ fst (admit E)"
    by (simp add: open_homepage_def fst_io_bind)
  let ?P = "\<lambda>s. \<forall>b. page_step s b = b \<and> (case s of Park_required x \<Rightarrow> x | _ \<Rightarrow> b) = b"
  have "calm ?P" by (simp add: calm_def)
  then have "list_all ?P (fst (open_homepage E spec l w))"
    using connect_steps [of ?P E w] setup_steps [of ?P E spec w] admit_steps [of ?P E]
    by (simp add: log io_all_def)
  then have "fold page_step (fst (open_homepage E spec l w)) b = b"
    "fold (\<lambda>s b. case s of Park_required x \<Rightarrow> x | _ \<Rightarrow> b) (fst (open_homepage E spec l w)) b = b" for b
    by (auto intro!: fold_skip elim: list.pred_mono_strong)
  moreover have "owner_after (fst (admit E)) v = v" for v
    by (rule io_all_plain_owner) (rule search_parts; simp)
  ultimately show ?thesis
    using connect_owner [OF 1(1)] setup_owner [OF 1(2)] assms(3)
    by (simp add: park_required_def page_loaded_def) (simp add: log owner_after_append)
qed

lemma finish_Inr:
  assumes "snd (finish_result E spec (attached_owner session frame) r c) = Inr x" and "frame \<noteq> []"
  shows "x = Submitted (rd_url r) (rd_status r) (rd_headers r) (rd_html r) c \<and>
    \<not> page_loaded (fst (finish_result E spec (attached_owner session frame) r c)) b \<and>
    owner_after (fst (finish_result E spec (attached_owner session frame) r c)) v = v \<and>
    \<not> park_required (log @ fst (finish_result E spec (attached_owner session frame) r c))"
proof -
  let ?p = "if anubis_pow spec then remove_anubis_preload E else io_ret ()"
  let ?k = "park_target E (attached_owner session frame)"
  have p: "snd ?k = Inr ()" and x: "x = Submitted (rd_url r) (rd_status r) (rd_headers r) (rd_html r) c"
    and log: "fst (finish_result E spec (attached_owner session frame) r c) = fst ?p @ fst ?k @ [Park_required False]"
    using assms(1) by (auto simp: finish_result_def snd_io_bind fst_io_bind rbind_Inr_iff)
  have "owner_after (fst ?p) v = v" for v
    by (rule io_all_plain_owner) (auto intro!: io_rules search_parts)
  then show ?thesis
    using park_attached [OF assms(2), of E session] p x
    by (simp add: log owner_after_append page_loaded_append)
      (simp add: owner_after_def page_loaded_def park_required_def)
qed

lemma use_homepage_Inr:
  assumes "snd (use_homepage E spec l mode q session frame home) = Inr x" and "frame \<noteq> []"
  shows "\<not> park_required (log @ fst (use_homepage E spec l mode q session frame home)) \<and>
    (case x of
       Submitted _ _ _ _ _ \<Rightarrow> \<not> page_loaded (fst (use_homepage E spec l mode q session frame home)) b \<and>
         owner_after (fst (use_homepage E spec l mode q session frame home)) v = v
     | Pending_anubis t ch \<Rightarrow> \<exists>co. owner_after (fst (use_homepage E spec l mode q session frame home)) v =
         v\<lparr>ow_pending := Some co\<rparr> \<and> co_token co = t \<and> co_challenge co = ch \<and> co_query co = q \<and>
         co_spec co = spec \<and> co_limit co = l)"
proof -
  let ?home = "suspend_anubis E (continuation_at E spec l mode q ''homepage'' home) (rd_html home)"
  obtain d where d: "snd (page_details E (rd_status home) (rd_url home) (rd_html home)) = Inr d"
    using assms(1) by (auto simp: use_homepage_def snd_io_bind rbind_Inr_iff)
  show ?thesis
  proof (cases "is_anubis spec d")
    case True
    then have m: "fst (use_homepage E spec l mode q session frame home) = fst ?home" "snd ?home = Inr x"
      using assms(1) d by (auto simp: use_homepage_def snd_io_bind fst_io_bind page_details_log)
    show ?thesis
      unfolding m(1) using suspend_Inr [OF m(2), of v log] by (auto simp: continuation_at_fields)
  next
    case False
    then have S: "snd (search_homepage E spec l mode q session frame home) = Inr x"
      and log: "fst (use_homepage E spec l mode q session frame home) = fst (search_homepage E spec l mode q session frame home)"
      using assms(1) d
      by (auto simp: use_homepage_def snd_io_bind fst_io_bind page_details_log rbind_Inr_iff check_def fail_def
          split: option.splits if_splits)
    from S obtain r d' where r: "snd (enter_search_query E spec l mode q) = Inr ()"
      "snd (submit_form_document E spec l frame (rd_loader home)) = Inr r"
      "snd (page_details E (rd_status r) (rd_url r) (rd_html r)) = Inr d'"
      by (auto simp: search_homepage_def snd_io_bind rbind_Inr_iff)
    let ?pre = "fst (enter_search_query E spec l mode q) @ fst (submit_form_document E spec l frame (rd_loader home))"
    let ?last = "if is_anubis spec d' then suspend_anubis E (continuation_at E spec l mode q ''result'' r) (rd_html r)
       else finish_result E spec (attached_owner session frame) r (fst d')"
    have pre: "owner_after ?pre v = v"
      using enter_query_steps [of plain E spec l mode q] submit_form_steps [of plain E spec l frame "rd_loader home"]
      by (intro plain_owner) (simp add: io_all_def)
    have m: "fst (search_homepage E spec l mode q session frame home) = ?pre @ fst ?last" "snd ?last = Inr x"
      using S r by (auto simp: search_homepage_def snd_io_bind fst_io_bind page_details_log)
    show ?thesis
    proof (cases "is_anubis spec d'")
      case True
      with m(2) have "snd (suspend_anubis E (continuation_at E spec l mode q ''result'' r) (rd_html r)) = Inr x" by simp
      from suspend_Inr [OF this, of v "log @ ?pre"] show ?thesis
        unfolding log m(1) using True pre by (auto simp: owner_after_append continuation_at_fields)
    next
      case False
      with m(2) have "snd (finish_result E spec (attached_owner session frame) r (fst d')) = Inr x" by simp
      from finish_Inr [OF this assms(2), of "page_loaded ?pre b" v "log @ ?pre"] show ?thesis
        using False pre by (auto simp: log m(1) owner_after_append page_loaded_append)
    qed
  qed
qed

lemma search_outcome:
  assumes "submit_search E spec fs mode wu limit ok query w = (log, r)" and "ow_pending w = None"
  shows "case r of
      Inr (Pending_anubis t c) \<Rightarrow> generation_active (owner_after log w) \<and>
        (\<exists>co. ow_pending (owner_after log w) = Some co \<and> co_token co = t \<and> co_challenge co = c \<and> co_query co = query \<and>
          co_spec co = spec \<and> co_limit co = limit)
    | Inr (Submitted _ _ _ _ _) \<Rightarrow> \<not> page_loaded log False \<and> ow_pending (owner_after log w) = None
    | Inl e \<Rightarrow> \<not> page_loaded log False \<and> ow_pending (owner_after log w) = None \<and>
        (log \<noteq> [] \<longrightarrow> anubis_pow spec \<or> \<not> clean e \<longrightarrow> owner_after log w = fresh_owner)"
proof -
  let ?S = "search_steps E spec limit mode query w" and ?O = "open_homepage E spec limit w"
  consider "log = []" "\<exists>e. r = Inl e"
    | "log = fst ?S @ exit_steps E spec w (fst ?S) (snd ?S)"
      "r = (case snd ?S of Inl e \<Rightarrow> Inl (mapped_error (fst ?S) e) | Inr x \<Rightarrow> Inr x)"
    using submit_search_cases [OF assms(1)] by blast
  then show ?thesis
  proof cases
    case 1
    then show ?thesis using assms(2) by (auto simp: page_loaded_def owner_after_def)
  next
    case 2
    show ?thesis
    proof (cases "snd ?S")
      case (Inl e)
      note err = this
      have clean_eq: "clean (mapped_error (fst ?S) e) \<longleftrightarrow> clean e"
        by (cases e) (auto simp: mapped_error_def clean_def clean_failures_def)
      show ?thesis
      proof (cases "ambiguous spec (snd ?S)")
        case True
        then have "log = fst ?S @ [Closed_owner]" using 2 by (simp add: exit_steps_def)
        then show ?thesis using 2 err
          by (simp add: page_loaded_append owner_after_append)
            (simp add: page_loaded_def owner_after_def fresh_owner_def)
      next
        case False
        with err have e: "clean e" "\<not> anubis_pow spec"
          by (auto simp: ambiguous_def clean_def split: client_exn.splits)
        have "\<not> page_loaded log False \<and> ow_pending (owner_after log w) = None"
        proof (cases "snd ?O")
          case (Inl e')
          then have "fst ?S = fst ?O" "e' = e"
            using err by (auto simp: search_steps_def fst_io_bind snd_io_bind)
          then show ?thesis
            using open_homepage_clean [OF Inl _ assms(2)] e(1) 2(1) False by (simp add: exit_steps_def)
        next
          case (Inr x)
          obtain session frame home where x: "x = (session, frame, home)" by (cases x)
          note O = open_homepage_owner [OF Inr [unfolded x] assms(2)]
          let ?U = "use_homepage E spec limit mode query session frame home"
          have U: "fst ?S = fst ?O @ fst ?U" "snd ?U = Inl e"
            using err Inr x by (simp_all add: search_steps_def fst_io_bind snd_io_bind)
          then have plain: "list_all plain (fst ?U)"
            using settled_use_homepage [of E spec limit mode query session frame home] e(1) by (simp add: settled_def)
          have "park_required (fst ?S)"
            using O plain_park [OF plain] by (simp add: U(1) park_required_def)
          moreover have "owner_after (fst ?S) w = attached_owner session frame"
            using O plain_owner [OF plain] by (simp add: U(1) owner_after_append)
          ultimately show ?thesis
            using 2(1) False park_attached(1) [of frame E session "page_loaded (fst ?S) False"] O
            by (simp add: exit_steps_def page_loaded_append owner_after_append)
        qed
        then show ?thesis using 2(2) err e clean_eq by simp
      qed
    next
      case (Inr y)
      then obtain session frame home where O: "snd ?O = Inr (session, frame, home)"
        and y: "snd (use_homepage E spec limit mode query session frame home) = Inr y"
        by (auto simp: search_steps_def snd_io_bind rbind_Inr_iff)
      note W = open_homepage_owner [OF O assms(2)]
      let ?U = "use_homepage E spec limit mode query session frame home"
      have S: "fst ?S = fst ?O @ fst ?U" using O by (simp add: search_steps_def fst_io_bind)
      have frame: "frame \<noteq> []" using W by simp
      note U = use_homepage_Inr [OF y frame, of "fst ?O" "page_loaded (fst ?O) False" "attached_owner session frame"]
      then have "log = fst ?S" using 2(1) Inr by (simp add: exit_steps_def ambiguous_def S)
      then show ?thesis using U W 2(2) Inr
        by (cases y) (auto simp: S page_loaded_append owner_after_append attached_owner_def generation_active_def)
    qed
  qed
qed

text \<open>
  C7 (invariant). A search leaves the provider's target in one of two states, whatever the browser
  replies and wherever the transaction fails. Either a challenge is pending: then the retained
  session is connected and keeps exactly the continuation whose token was returned. Or no
  document of the provider stays loaded, because the target was parked on a blank page or the
  session was closed, and nothing is pending; after a failure that is not a clean
  classification, and after any failure of a provider with Anubis support, the whole session is
  closed.\<close>

theorem search_leaves_no_page:
  assumes "submit_search E spec fs mode wu limit ok query w = (log, r)" and "ow_pending w = None"
  shows "case r of
      Inr (Pending_anubis t c) \<Rightarrow> generation_active (owner_after log w) \<and>
        (\<exists>co. ow_pending (owner_after log w) = Some co \<and> co_token co = t \<and> co_challenge co = c \<and> co_query co = query)
    | Inr (Submitted _ _ _ _ _) \<Rightarrow> \<not> page_loaded log False \<and> ow_pending (owner_after log w) = None
    | Inl e \<Rightarrow> \<not> page_loaded log False \<and> ow_pending (owner_after log w) = None \<and>
        (log \<noteq> [] \<longrightarrow> anubis_pow spec \<or> \<not> clean e \<longrightarrow> owner_after log w = fresh_owner)"
  using search_outcome [OF assms] by (auto split: sum.splits submission.splits)

theorem search_leaves_no_page_witness:
  "\<not> page_loaded (fst sample_search) False \<and> ow_pending (owner_after (fst sample_search) fresh_owner) = None"
  using search_leaves_no_page [of sample_env search_page "[]" "''timed''" "''load''" 1000 True "''ab''" fresh_owner
      "fst sample_search" "snd sample_search"] sample_search_result(1)
  by (simp add: sample_search_def fresh_owner_def)

section \<open>The continuation is used once\<close>

fun suspends :: "step \<Rightarrow> bool" where
  "suspends (Pending_set _) = True"
| "suspends _ = False"

lemma calm_suspends [simp]: "calm (\<lambda>s. \<not> suspends s)"
  by (simp add: calm_def)

lemma no_suspension: "list_all (\<lambda>s. \<not> suspends s) log \<Longrightarrow> ow_pending w = None \<Longrightarrow> ow_pending (owner_after log w) = None"
  unfolding owner_after_def
proof (induction log arbitrary: w)
  case (Cons s log)
  then show ?case by (cases s) (auto simp: fresh_owner_def)
qed simp

lemma park_Inr: "snd (park_target E w) = Inr () \<Longrightarrow> \<not> page_loaded (fst (park_target E w)) b"
  by (auto simp: park_target_def fst_io_catch fst_io_bind snd_io_bind snd_io_catch cmd_def check_def fail_def
      page_loaded_def rbind_def rcatch_def split: if_splits reply.splits)

lemma resume_steps_Inr:
  assumes "snd (resume_steps E co sol frame w) = Inr x"
  shows "\<not> page_loaded (fst (resume_steps E co sol frame w)) b"
proof -
  from assms obtain log where "snd (park_target E w) = Inr ()"
    "fst (resume_steps E co sol frame w) = log @ fst (park_target E w)"
    by (auto simp: resume_steps_def snd_io_bind fst_io_bind rbind_Inr_iff)
  then show ?thesis by (simp add: page_loaded_append park_Inr)
qed

lemma closing_cases:
  "snd (closing m) = snd m \<and> fst (closing m) = fst m @ (case snd m of Inl _ \<Rightarrow> [Closed_owner] | Inr _ \<Rightarrow> [])"
  by (cases "snd m") (auto simp: closing_def snd_io_catch fst_io_catch fst_io_bind snd_io_bind rcatch_def)

lemma closing_Inl: "snd (closing m) = Inl e \<Longrightarrow>
    owner_after (fst (closing m)) w = fresh_owner \<and> \<not> page_loaded (fst (closing m)) b"
  using closing_cases [of m] by (simp add: owner_after_append page_loaded_append) (simp add: owner_after_def page_loaded_def)

text \<open>
  C10 (functional). A continuation is consumed by the first attempt to resume it. Whatever the
  browser replies, afterwards nothing is pending and no document of the provider is loaded; a
  failure, also one because of a wrong token or a proof that does not verify, closes the
  whole session; a result means that the token was the pending one and the proof verified;
  and a second attempt with any token is refused.\<close>

theorem continuation_single_use:
  assumes "resume_anubis_pow E t sol w = (log, r)"
  shows "ow_pending (owner_after log w) = None \<and> \<not> page_loaded log True \<and>
    (\<forall>e. r = Inl e \<longrightarrow> owner_after log w = fresh_owner) \<and>
    (\<forall>x. r = Inr x \<longrightarrow> (\<exists>co. ow_pending w = Some co \<and> co_token co = t \<and>
       solution_valid (e_sha E) (co_challenge co) sol)) \<and>
    snd (resume_anubis_pow E' t' sol' (owner_after log w)) = Inl (Client_error Protocol ''anubis-continuation'')"
proof -
  have refuse: "snd (resume_anubis_pow E' t' sol' v) = Inl (Client_error Protocol ''anubis-continuation'')"
    if "ow_pending v = None" for v
    using that by (simp add: resume_anubis_pow_def closing_cases fail_def)
  have fresh: "ow_pending fresh_owner = None" by (simp add: fresh_owner_def)
  show ?thesis
  proof (cases r)
    case (Inl e)
    obtain m :: "submission search" and pre where "log = pre @ fst (closing m)" "snd (closing m) = Inl e"
      and "pre = [] \<or> pre = [Pending_cleared]"
    proof (cases "ow_pending w")
      case None
      then show thesis
        using that [of "[]" "fail Protocol ''anubis-continuation''"] assms Inl
        by (auto simp: resume_anubis_pow_def)
    next
      case (Some co)
      show thesis
      proof (cases "t = co_token co")
        case False
        then show thesis
          using that [of "[]" "fail Protocol ''anubis-continuation''"] assms Inl Some
          by (auto simp: resume_anubis_pow_def)
      next
        case True
        then show thesis
          using that [of "[Pending_cleared]" "resume_checked E co sol w"] assms Inl Some
          by (auto simp: resume_anubis_pow_def io_bind_def)
      qed
    qed
    then show ?thesis
      using Inl closing_Inl [of m e] refuse fresh
      by (auto simp: owner_after_append page_loaded_append)
  next
    case (Inr x)
    have S: "snd (resume_anubis_pow E t sol w) = Inr x" and L: "log = fst (resume_anubis_pow E t sol w)"
      using assms Inr by simp_all
    obtain co where co: "ow_pending w = Some co" "t = co_token co" "solution_valid (e_sha E) (co_challenge co) sol"
      using S by (cases "ow_pending w")
        (auto simp: resume_anubis_pow_def resume_checked_def closing_cases fail_def snd_io_bind split: if_splits)
    obtain frame where m: "log = Pending_cleared # fst (resume_steps E co sol frame (w\<lparr>ow_pending := None\<rparr>))"
      "snd (resume_steps E co sol frame (w\<lparr>ow_pending := None\<rparr>)) = Inr x"
      using S L co
      by (auto simp: resume_anubis_pow_def resume_checked_def closing_cases fail_def snd_io_bind fst_io_bind
          split: if_splits bool.splits option.splits)
    have "list_all (\<lambda>s. \<not> suspends s) (fst (resume_steps E co sol frame (w\<lparr>ow_pending := None\<rparr>)))"
      using resume_steps_steps [where P = "\<lambda>s. \<not> suspends s" and E = E and co = co and sol = sol and f = frame
          and w = "w\<lparr>ow_pending := None\<rparr>"] by (simp add: io_all_def pass_navigation_def)
    then have "ow_pending (owner_after log w) = None"
      using no_suspension [of _ "w\<lparr>ow_pending := None\<rparr>"] by (simp add: m(1) owner_after_def)
    moreover have "\<not> page_loaded log True"
      using resume_steps_Inr [OF m(2), of True] by (simp add: m(1) page_loaded_def)
    ultimately show ?thesis using Inr co refuse by auto
  qed
qed

theorem continuation_single_use_witness:
  "ow_pending (owner_after (fst sample_resume) pending_owner) = None \<and>
   snd (resume_anubis_pow sample_env ''tok'' sample_solution (owner_after (fst sample_resume) pending_owner)) =
     Inl (Client_error Protocol ''anubis-continuation'')"
  using continuation_single_use [of sample_env "''tok''" sample_solution pending_owner "fst sample_resume" "snd sample_resume"]
  by (simp add: sample_resume_def)

end
