(* ===== verification/Provider_Search.thy ===== *)
theory Provider_Search
  imports Provider_Pool Search_Safety
begin

text \<open>
  The rest of \<open>src/searxng/engines/_obscura.py\<close>: the interactions of the five providers, the
  time budget of an attempt, the search with its Anubis branch, and how failures become the
  exceptions SearXNG's processor acts on. The event loop thread is left out: a call that is
  submitted to it is a call.
\<close>

section \<open>The providers\<close>

definition interactions :: "(pystr \<times> interaction) list" where
  "interactions =
    [(''google2'', \<lparr>homepage_url = ''https://www.google.com/'',
        homepage_hosts = [''www.google.com'', ''google.com''], result_hosts = [''www.google.com'', ''google.com''],
        query_selector = ''textarea[name=\"q\"]'', query_field = ''q'', action_path = ''/search'', form_method = ''get'',
        fixed_names = [''hl'', ''udm'', ''start''], terminal_selector = None, pending_selector = None,
        anubis_pow = False\<rparr>),
     (''brave2'', \<lparr>homepage_url = ''https://search.brave.com/'',
        homepage_hosts = [''search.brave.com''], result_hosts = [''search.brave.com''],
        query_selector = ''textarea[name=\"q\"]'', query_field = ''q'', action_path = ''/search'', form_method = ''get'',
        fixed_names = [''offset''], terminal_selector = None, pending_selector = None, anubis_pow = False\<rparr>),
     (''duckduckgo2'', \<lparr>homepage_url = ''https://noai.duckduckgo.com/'',
        homepage_hosts = [''noai.duckduckgo.com''], result_hosts = [''noai.duckduckgo.com''],
        query_selector = ''input[name=\"q\"]:not([type=\"hidden\"])'', query_field = ''q'', action_path = ''/'',
        form_method = ''get'', fixed_names = [''ia''],
        terminal_selector = Some (''li[data-layout=\"organic\"],[data-testid=\"no-results\"],'' @
          ''[data-layout=\"no-results\"],.no-results,form#challenge-form,'' @
          ''form[action*=\"duckduckgo.com/anomaly.js\"],form[action*=\"cc=botnet\"],.anomaly-modal__modal''),
        pending_selector = Some (''link#deep_preload_link[href*=\"links.duckduckgo.com/d.js\"],'' @
          ''script#deep_preload_script[src*=\"links.duckduckgo.com/d.js\"]''),
        anubis_pow = False\<rparr>),
     (''startpage2'', \<lparr>homepage_url = ''https://www.startpage.com/'',
        homepage_hosts = [''www.startpage.com'', ''startpage.com''],
        result_hosts = [''www.startpage.com'', ''startpage.com''],
        query_selector = ''input#q'', query_field = ''query'', action_path = ''/sp/search'', form_method = ''post'',
        fixed_names = [''cat'', ''page''], terminal_selector = None, pending_selector = None, anubis_pow = True\<rparr>),
     (''bing2'', \<lparr>homepage_url = ''https://www.bing.com/'',
        homepage_hosts = [''www.bing.com'', ''bing.com''], result_hosts = [''www.bing.com'', ''bing.com''],
        query_selector = ''input[name=\"q\"],textarea[name=\"q\"]'', query_field = ''q'', action_path = ''/search'',
        form_method = ''get'', fixed_names = [''adlt'', ''setlang'', ''first''], terminal_selector = None,
        pending_selector = None, anubis_pow = False\<rparr>)]"

lemma interaction_names: "map fst interactions = provider_names"
  by (simp add: interactions_def provider_names_def)

definition parse_timed_typing_providers :: "pystr \<Rightarrow> pystr list py" where
  "parse_timed_typing_providers value =
     (if value = ''none'' then Inr []
      else if value = ''all'' then Inr provider_names
      else if value = [] \<or> list_ex is_space value
      then Inl (ValueError ''SEARXNG_TIMED_TYPING_PROVIDERS has invalid whitespace'')
      else let names = split_on (CHR '','') value
           in if [] \<in> set names \<or> \<not> distinct names \<or> \<not> set names \<subseteq> set provider_names
              then Inl (ValueError ''SEARXNG_TIMED_TYPING_PROVIDERS is invalid'')
              else Inr names)"

section \<open>Failures\<close>

text \<open>What leaves an engine: an exception of \<open>searx.exceptions\<close>, or another one unchanged.\<close>

datatype engine_exn = Searx searx_error | Raw client_exn

definition mapped_failure :: "pystr \<Rightarrow> fetch_failure \<Rightarrow> searx_error" where
  "mapped_failure name c =
     (if c = Rate_limited then Too_many_requests (name @ '': provider rate limited'')
      else if c \<in> {Access_denied_failure, Policy_denied} then Access_denied (name @ '': provider access denied'')
      else if c = Captcha_failure then Captcha (name @ '': verification page'')
      else Response_error (name @ '': browser request failed ('' @ failure_value c @ '')''))"

definition engine_failure :: "pystr \<Rightarrow> client_exn \<Rightarrow> engine_exn" where
  "engine_failure name e = (case e of
     Client_error c _ \<Rightarrow> Searx (mapped_failure name c)
   | _ \<Rightarrow> Raw e)"

section \<open>The budget of an attempt\<close>

definition search_browser_attempt_timeout :: time where
  "search_browser_attempt_timeout = 50"

definition search_pre_navigation_timeout :: time where
  "search_pre_navigation_timeout = 45"

definition engine_outcome_headroom :: time where
  "engine_outcome_headroom = 1"

text \<open>The timeouts of the whole transaction and of its part before the navigation.\<close>

definition search_budget :: "time \<Rightarrow> time option \<Rightarrow> client_exn + (time \<times> time)" where
  "search_budget now engine_deadline =
     (case engine_deadline of
        None \<Rightarrow> Inr (search_browser_attempt_timeout, min search_pre_navigation_timeout search_browser_attempt_timeout)
      | Some d \<Rightarrow>
          (let available = d - now - engine_outcome_headroom
           in if available \<le> 0 then Inl (Client_error Pre_navigation_timeout ''search-engine-deadline'')
              else let t = min search_browser_attempt_timeout available
                   in Inr (t, min search_pre_navigation_timeout t)))"

section \<open>One search\<close>

text \<open>The last checks on a result document, and the DOM the engine parses.\<close>

definition engine_dom :: "pystr \<Rightarrow> submission \<Rightarrow> engine_exn + pystr" where
  "engine_dom name r = (case r of
     Submitted url st headers html c \<Rightarrow>
       (if c = Some Rate_limited then Inl (Searx (Too_many_requests (name @ '': provider rate limited'')))
        else if c = Some Access_denied_failure then Inl (Searx (Access_denied (name @ '': provider access denied'')))
        else if c = Some Captcha_failure then Inl (Searx (Captcha (name @ '': verification page'')))
        else if st = 404 \<or> 500 \<le> st then Inl (Searx (Response_error (name @ '': provider HTTP failure'')))
        else if html = [] then Inl (Searx (Response_error (name @ '': empty rendered DOM'')))
        else Inr html)
   | Pending_anubis _ _ \<Rightarrow> Inl (Raw (Other_exn ''pending result'')))"

text \<open>
  \<open>E\<close> gives the browser's replies under the timeouts of the attempt and \<open>E'\<close> those of the
  continuation; \<open>solve\<close> is the proof solver with its deadline. An abort's own failure is only
  logged.
\<close>

definition resolve_pending ::
  "search_env \<Rightarrow> (time \<Rightarrow> anubis_challenge \<Rightarrow> anubis_error + anubis_solution) \<Rightarrow> time \<Rightarrow> owner \<Rightarrow> submission \<Rightarrow> submission search" where
  "resolve_pending E' solve solver_deadline w r = (case r of
     Submitted _ _ _ _ _ \<Rightarrow> io_ret r
   | Pending_anubis tok ch \<Rightarrow> (case solve solver_deadline ch of
       Inr sol \<Rightarrow> resume_anubis_pow E' tok sol w
     | Inl (Solver_error _) \<Rightarrow>
         (fst (abort_anubis_pow tok w), Inl (Client_error Post_navigation_timeout ''anubis-local-solver''))
     | Inl _ \<Rightarrow> io_raise (Other_exn ''Anubis solver bounds are invalid'')))"

definition search_dom_limit :: nat where
  "search_dom_limit = 20 * 1024 * 1024"

definition provider_transaction ::
  "(time \<Rightarrow> time \<Rightarrow> search_env) \<Rightarrow> search_env \<Rightarrow> (time \<Rightarrow> anubis_challenge \<Rightarrow> anubis_error + anubis_solution) \<Rightarrow>
   pystr list \<Rightarrow> pystr \<Rightarrow> interaction \<Rightarrow> pystr \<Rightarrow> (pystr \<times> pystr) list \<Rightarrow> time \<Rightarrow> time \<Rightarrow> time option \<Rightarrow> owner \<Rightarrow> submission search" where
  "provider_transaction E E' solve slow name spec query fs started now engine_deadline w =
     io_bind (io_lift (search_budget now engine_deadline)) (\<lambda>(t, pre).
       let m = submit_search (E t pre) spec fs (if name \<in> set slow then ''timed'' else ''instant'')
                 ''domcontentloaded'' search_dom_limit True query w
       in io_bind m (resolve_pending E' solve (started + t) (owner_after (fst m) w)))"

definition engine_search ::
  "(time \<Rightarrow> time \<Rightarrow> search_env) \<Rightarrow> search_env \<Rightarrow> (time \<Rightarrow> anubis_challenge \<Rightarrow> anubis_error + anubis_solution) \<Rightarrow>
   pystr list \<Rightarrow> bool \<Rightarrow> pystr \<Rightarrow> pystr \<Rightarrow> (pystr \<times> pystr) list \<Rightarrow> time \<Rightarrow> time \<Rightarrow> time option \<Rightarrow> owner \<Rightarrow>
   step list \<times> (engine_exn + pystr)" where
  "engine_search E E' solve slow guarded name query fs started now engine_deadline w =
     (if \<not> guarded
      then ([], Inl (Searx (Response_error (name @ '': provider submission is missing its SearXNG lease guard''))))
      else case map_of interactions name of
        None \<Rightarrow> ([], Inl (Searx (Response_error (name @ '': unknown browser interaction''))))
      | Some spec \<Rightarrow>
          (case provider_transaction E E' solve slow name spec query fs started now engine_deadline w of
             (es, Inl e) \<Rightarrow> (es, Inl (engine_failure name e))
           | (es, Inr r) \<Rightarrow> (es, engine_dom name r)))"

section \<open>What a result document has passed\<close>

definition vetted :: "pystr list \<Rightarrow> nat \<Rightarrow> pystr \<Rightarrow> pystr \<Rightarrow> bool" where
  "vetted hosts limit url html \<longleftrightarrow> length (encode_utf8 html) \<le> limit \<and>
     (\<exists>parsed p. urlsplit url = Inr parsed \<and> port parsed = Inr p \<and> u_scheme parsed = ''https'' \<and>
       username parsed = None \<and> password parsed = None \<and> p \<in> {None, Some 443} \<and>
       search_host_of parsed \<in> set hosts)"

lemma terminal_url_vetted:
  "validate_search_terminal_url hosts stage url = Inr x \<Longrightarrow> length (encode_utf8 html) \<le> limit \<Longrightarrow>
    set hosts \<subseteq> set hosts' \<Longrightarrow> vetted hosts' limit url html"
  by (auto simp: validate_search_terminal_url_def vetted_def raise_if_def split: sum.splits if_splits)

lemma search_dom_size: "snd (search_dom E limit p k) = Inr html \<Longrightarrow> length (encode_utf8 html) \<le> limit"
  by (auto simp: search_dom_def snd_io_bind rbind_Inr_iff check_log)

lemma result_loop_size:
  "snd (result_loop E html limit k n) = Inr html' \<Longrightarrow> length (encode_utf8 html) \<le> limit \<Longrightarrow>
    length (encode_utf8 html') \<le> limit"
  by (induction n arbitrary: k)
    (auto simp: snd_io_bind rbind_Inr_iff search_dom_size split: prod.splits if_splits)

lemma wait_result_size:
  "snd (wait_for_search_result_dom E html limit) = Inr html' \<Longrightarrow> length (encode_utf8 html) \<le> limit \<Longrightarrow>
    length (encode_utf8 html') \<le> limit"
  by (auto simp: wait_for_search_result_dom_def snd_io_bind rbind_Inr_iff search_dom_size result_loop_size
      split: prod.splits if_splits)

lemma submit_form_vetted:
  assumes "snd (submit_form_document E spec limit f prev) = Inr r" and "set (result_hosts spec) \<subseteq> set hosts"
  shows "vetted hosts limit (rd_url r) (rd_html r)"
  using assms
  by (auto simp: submit_form_document_def snd_io_bind rbind_Inr_iff
      intro!: terminal_url_vetted [OF _ _ assms(2)] dest: search_dom_size wait_result_size
      split: prod.splits if_splits)

lemma suspended_not_submitted: "snd (suspend_anubis E co html) \<noteq> Inr (Submitted url st hs d c)"
  by (auto simp: suspend_anubis_def snd_io_bind rbind_Inr_iff fail_def
      split: option.splits sum.splits anubis_error.splits)

lemma submitted_vetted:
  assumes "submit_search E spec fs mode wu limit ok query w = (es, Inr (Submitted url st hs html c))"
  shows "vetted (result_hosts spec) limit url html"
proof -
  have "snd (search_steps E spec limit mode query w) = Inr (Submitted url st hs html c)"
    using submit_search_cases [OF assms] by (auto split: sum.splits)
  then show ?thesis
    by (auto simp: search_steps_def use_homepage_def search_homepage_def finish_result_def snd_io_bind
        rbind_Inr_iff suspended_not_submitted fail_def dest: submit_form_vetted [OF _ subset_refl]
        split: prod.splits if_splits option.splits)
qed

lemma pass_vetted:
  assumes "snd (pass_document E co sol f) = Inr (d, b)"
  shows "vetted (result_hosts (co_spec co) @ homepage_hosts (co_spec co)) (co_limit co) (rd_url d) (rd_html d)"
  using assms
  by (auto simp: pass_document_def snd_io_bind rbind_Inr_iff fail_def
      intro!: terminal_url_vetted [OF _ _ subset_refl] dest: search_dom_size
      split: prod.splits if_splits option.splits)

lemma resumed_vetted:
  assumes "resume_anubis_pow E t sol w = (es, Inr r)" and "ow_pending w = Some co"
  shows "\<exists>url st hs html. r = Submitted url st hs html None \<and>
    vetted (result_hosts (co_spec co) @ homepage_hosts (co_spec co)) (co_limit co) url html"
proof -
  have "snd (resume_anubis_pow E t sol w) = Inr r" using assms(1) by simp
  with assms(2) obtain frame where "snd (resume_steps E co sol frame (w\<lparr>ow_pending := None\<rparr>)) = Inr r"
    by (auto simp: resume_anubis_pow_def resume_checked_def closing_cases fail_def snd_io_bind
        split: if_splits bool.splits option.splits)
  then obtain d b again x where D: "snd (pass_document E co sol frame) = Inr (d, b)"
    and x: "snd (if again then resubmit E co frame d else io_ret d) = Inr x"
    and r: "r = Submitted (rd_url x) (rd_status x) (rd_headers x) (rd_html x) None"
    by (auto simp: resume_steps_def snd_io_bind rbind_Inr_iff)
  have "vetted (result_hosts (co_spec co) @ homepage_hosts (co_spec co)) (co_limit co) (rd_url x) (rd_html x)"
  proof (cases again)
    case True
    with x obtain sub where "snd (submit_form_document E (co_spec co) (co_limit co) frame (rd_loader d)) = Inr x"
      by (auto simp: resubmit_def snd_io_bind rbind_Inr_iff fail_def split: option.splits)
    then show ?thesis by (rule submit_form_vetted) simp
  next
    case False
    then show ?thesis using x pass_vetted [OF D] by simp
  qed
  with r show ?thesis by blast
qed

text \<open>Where a result comes from: the URL and the status that the browser's events report for the one new document of
  the frame, and a DOM that the browser returned for that document; its classification is over just these.\<close>

definition result_read :: "search_env \<Rightarrow> pystr \<Rightarrow> int \<Rightarrow> pystr \<Rightarrow> bool" where
  "result_read E url st html \<longleftrightarrow>
     (\<exists>frame loader hs. search_event_document (e_events E ''submission-result'') frame loader ''result-events'' = Inr (url, st, hs) \<and>
        (\<exists>k. e_html E ''result'' k = Done (Some html) \<or> e_html E ''result-ready'' k = Done (Some html))) \<or>
     (\<exists>frame loader hs. search_event_document (e_events E ''anubis-pass'') frame loader ''anubis-pass-events'' = Inr (url, st, hs) \<and>
        (\<exists>k. e_html E ''anubis-pass'' k = Done (Some html)))"

definition result_classified :: "search_env \<Rightarrow> pystr \<Rightarrow> int \<Rightarrow> pystr \<Rightarrow> fetch_failure option \<Rightarrow> bool" where
  "result_classified E url st html c \<longleftrightarrow>
     (\<exists>sig. challenge_details (e_codec E) (e_urljoin E) st url (e_parse E (take 262144 html)) = Inr (c, sig))"

lemma cmd_replied_Inr [simp]: "snd (cmd steps c st r) = Inr x \<longleftrightarrow> r = Done x"
  by (auto simp: cmd_def split: reply.splits)

lemma shaped_Inr [simp]: "snd (shaped c st x) = Inr y \<longleftrightarrow> x = Some y"
  by (auto simp: shaped_def fail_def split: option.splits)

lemma page_details_Inr: "snd (page_details E st url html) = Inr (c, sig) \<Longrightarrow> result_classified E url st html c"
  by (auto simp: page_details_def pure_call_def result_classified_def split: sum.splits)

lemma search_dom_reply: "snd (search_dom E limit p k) = Inr html \<Longrightarrow> e_html E p k = Done (Some html)"
  by (auto simp: search_dom_def snd_io_bind rbind_Inr_iff)

lemma result_loop_reply:
  "snd (result_loop E html limit k n) = Inr html' \<Longrightarrow> html' = html \<or> (\<exists>j. e_html E ''result-ready'' j = Done (Some html'))"
  by (induction n arbitrary: k)
    (auto simp: snd_io_bind rbind_Inr_iff dest: search_dom_reply split: prod.splits if_splits)

lemma wait_result_reply:
  "snd (wait_for_search_result_dom E html limit) = Inr html' \<Longrightarrow>
    html' = html \<or> (\<exists>j. e_html E ''result-ready'' j = Done (Some html'))"
  by (auto simp: wait_for_search_result_dom_def snd_io_bind rbind_Inr_iff dest: search_dom_reply result_loop_reply
      split: prod.splits if_splits)

lemma submit_form_read:
  assumes "snd (submit_form_document E spec limit f prev) = Inr r"
  shows "result_read E (rd_url r) (rd_status r) (rd_html r)"
  using assms unfolding result_read_def
  by (auto simp: submit_form_document_def snd_io_bind rbind_Inr_iff dest!: search_dom_reply wait_result_reply
      split: prod.splits if_splits)

lemma pass_read:
  assumes "snd (pass_document E co sol f) = Inr (d, b)"
  shows "result_read E (rd_url d) (rd_status d) (rd_html d) \<and> result_classified E (rd_url d) (rd_status d) (rd_html d) None"
  using assms unfolding result_read_def
  by (auto simp: pass_document_def snd_io_bind rbind_Inr_iff fail_def dest!: search_dom_reply page_details_Inr
      split: prod.splits if_splits option.splits)

lemma submitted_read:
  assumes "submit_search E spec fs mode wu limit ok query w = (es, Inr (Submitted url st hs html c))"
  shows "result_read E url st html \<and> result_classified E url st html c"
proof -
  have "snd (search_steps E spec limit mode query w) = Inr (Submitted url st hs html c)"
    using submit_search_cases [OF assms] by (auto split: sum.splits)
  then show ?thesis
    by (auto simp: search_steps_def use_homepage_def search_homepage_def finish_result_def snd_io_bind
        rbind_Inr_iff suspended_not_submitted fail_def dest: submit_form_read page_details_Inr
        split: prod.splits if_splits option.splits)
qed

lemma resumed_read:
  assumes "resume_anubis_pow E t sol w = (es, Inr (Submitted url st hs html c))"
  shows "result_read E url st html \<and> result_classified E url st html None \<and> c = None"
proof -
  have "snd (resume_anubis_pow E t sol w) = Inr (Submitted url st hs html c)" using assms by simp
  then obtain co frame where "snd (resume_steps E co sol frame (w\<lparr>ow_pending := None\<rparr>)) = Inr (Submitted url st hs html c)"
    by (auto simp: resume_anubis_pow_def resume_checked_def closing_cases fail_def snd_io_bind
        split: if_splits bool.splits option.splits)
  then obtain d b again x where D: "snd (pass_document E co sol frame) = Inr (d, b)"
    and x: "snd (if again then resubmit E co frame d else io_ret d) = Inr x"
    and r: "url = rd_url x" "st = rd_status x" "html = rd_html x" "c = None"
    by (auto simp: resume_steps_def snd_io_bind rbind_Inr_iff)
  show ?thesis
  proof (cases again)
    case True
    with x obtain sig where s: "snd (submit_form_document E (co_spec co) (co_limit co) frame (rd_loader d)) = Inr x"
      "snd (page_details E (rd_status x) (rd_url x) (rd_html x)) = Inr (None, sig)"
      by (auto simp: resubmit_def snd_io_bind rbind_Inr_iff fail_def split: option.splits prod.splits)
    then show ?thesis using r submit_form_read [OF s(1)] page_details_Inr [OF s(2)] by simp
  next
    case False
    then show ?thesis using x r pass_read [OF D] by simp
  qed
qed

section \<open>The client as the session sees it\<close>

text \<open>The part of the client's state that \<open>_ProviderBrowserSession\<close> looks at.\<close>

definition session_view :: "nat \<Rightarrow> owner \<Rightarrow> client_session" where
  "session_view n w = \<lparr>sess_id = n, sess_active = generation_active w, sess_pending = ow_pending w \<noteq> None\<rparr>"

lemma owner_after_cleared: "owner_after (Pending_cleared # es) w = owner_after es (w\<lparr>ow_pending := None\<rparr>)"
  by (simp add: owner_after_def)

lemma resume_idle: "ow_pending (owner_after (fst (resume_anubis_pow E t sol w)) w) = None"
proof (cases "snd (resume_anubis_pow E t sol w)")
  case (Inl e)
  have "ow_pending fresh_owner = None" by (simp add: fresh_owner_def)
  with Inl show ?thesis
    by (auto simp: resume_anubis_pow_def fst_io_bind snd_io_bind closing_Inl
        owner_after_cleared split: option.splits if_splits)
next
  case (Inr x)
  have "list_all (\<lambda>s. \<not> suspends s) (fst (resume_anubis_pow E t sol w))"
    using resume_pow_steps [where P = "\<lambda>s. \<not> suspends s" and E = E and t = t and sol = sol and w = w]
    by (simp add: io_all_def pass_navigation_def)
  moreover obtain es where "fst (resume_anubis_pow E t sol w) = Pending_cleared # es"
    using Inr by (auto simp: resume_anubis_pow_def fst_io_bind snd_io_bind fail_def closing_cases
        split: option.splits if_splits)
  ultimately show ?thesis
    using no_suspension [of es "w\<lparr>ow_pending := None\<rparr>"] by (simp add: owner_after_def)
qed

section \<open>Properties\<close>

text \<open>
  The declarations of the five providers are accepted by the client's own validation
  for every codec: their hosts are canonical DNS names, their homepages are HTTPS URLs of an
  allowed host, the query field is not a fixed field and the readiness selectors are paired.\<close>

theorem interactions_accepted: "list_all (\<lambda>(n, s). interaction_ok u s) interactions"
  by code_simp

text \<open>
  The budget of an attempt keeps the browser inside the engine's deadline: the whole
  transaction has at most 50 seconds and ends at least one second before the deadline, its part
  before the navigation has at most 45 and no more than the whole, and the local proof solver,
  which counts from the start of the attempt, is bound by the same second of headroom. Without
  a positive budget the attempt is refused before the browser is used.\<close>

theorem search_budget_bounds:
  assumes "search_budget now engine_deadline = r" and "started \<le> now"
  shows "case r of
      Inr (t, pre) \<Rightarrow> 0 < pre \<and> pre \<le> t \<and> t \<le> 50 \<and> pre \<le> 45 \<and>
        (\<forall>d. engine_deadline = Some d \<longrightarrow> now + t \<le> d - 1 \<and> started + t \<le> d - 1)
    | Inl e \<Rightarrow> e = Client_error Pre_navigation_timeout ''search-engine-deadline'' \<and>
        (\<exists>d. engine_deadline = Some d \<and> d - now \<le> 1)"
  using assms
  by (auto simp: search_budget_def search_browser_attempt_timeout_def search_pre_navigation_timeout_def
      engine_outcome_headroom_def Let_def min_def split: option.splits if_splits)

theorem search_budget_bounds_witness: "search_budget 10 (Some 30) = Inr (19, 19)"
  using search_budget_bounds [of 10 "Some 30" "Inr (19, 19)" 10] by (simp add: search_budget_def search_browser_attempt_timeout_def search_pre_navigation_timeout_def engine_outcome_headroom_def)

definition refusals :: "fetch_failure set" where
  "refusals = {Rate_limited, Access_denied_failure, Captcha_failure}"

text \<open>A result an engine may parse, read in the browser \<open>E\<close>.\<close>

definition result_accepted :: "search_env \<Rightarrow> interaction \<Rightarrow> pystr \<Rightarrow> bool" where
  "result_accepted E spec html \<longleftrightarrow> (\<exists>url st c. result_read E url st html \<and>
     vetted (result_hosts spec @ homepage_hosts spec) search_dom_limit url html \<and>
     result_classified E url st html c \<and> (\<forall>f \<in> refusals. c \<noteq> Some f) \<and> st \<noteq> 404 \<and> st < 500)"

text \<open>
  C12 (safety). The DOM an engine parses comes from a vetted document, through the direct path and
  through an Anubis continuation alike. It is a DOM that the browser returned after its events had reported one new
  document of the frame, and the URL and the status reported for that document are those that were checked: the URL
  is an HTTPS URL without credentials, on the default port, of a host of that provider's declaration, the
  status is neither 404 nor a server error, the size is within the limit, and the classification of that
  URL, status and DOM is no rate limit, no denial and no captcha.\<close>

theorem engine_result_vetted:
  assumes "engine_search E E' solve slow guarded name query fs started now engine_deadline w = (es, Inr html)"
  shows "guarded \<and> (\<exists>spec. map_of interactions name = Some spec \<and> html \<noteq> [] \<and>
    (result_accepted E' spec html \<or> (\<exists>t pre. search_budget now engine_deadline = Inr (t, pre) \<and> result_accepted (E t pre) spec html)))"
proof -
  obtain spec r where spec: "guarded" "map_of interactions name = Some spec"
    and T: "snd (provider_transaction E E' solve slow name spec query fs started now engine_deadline w) = Inr r"
    and dom: "engine_dom name r = Inr html"
    using assms by (auto simp: engine_search_def split: if_splits option.splits prod.splits sum.splits)
  from dom obtain url st hs c where r: "r = Submitted url st hs html c" "html \<noteq> []"
    and ok: "\<forall>f \<in> refusals. c \<noteq> Some f" "st \<noteq> 404" "st < 500"
    by (auto simp: engine_dom_def refusals_def split: submission.splits if_splits)
  obtain t pre where budget: "search_budget now engine_deadline = Inr (t, pre)"
    using T by (auto simp: provider_transaction_def snd_io_bind rbind_Inr_iff)
  define m where "m = submit_search (E t pre) spec fs (if name \<in> set slow then ''timed'' else ''instant'')
    ''domcontentloaded'' search_dom_limit True query w"
  obtain sub where sub: "snd m = Inr sub"
    and res: "snd (resolve_pending E' solve (started + t) (owner_after (fst m) w) sub) = Inr r"
    using T budget
    by (auto simp: provider_transaction_def snd_io_bind rbind_Inr_iff m_def Let_def)
  have "result_accepted E' spec html \<or> result_accepted (E t pre) spec html"
  proof (cases sub)
    case (Submitted url' st' hs' html' c')
    then have "sub = Submitted url st hs html c" using res r by (simp add: resolve_pending_def)
    with sub have "m = (fst m, Inr (Submitted url st hs html c))" by (metis prod.collapse)
    then have S: "submit_search (E t pre) spec fs (if name \<in> set slow then ''timed'' else ''instant'')
      ''domcontentloaded'' search_dom_limit True query w = (fst m, Inr (Submitted url st hs html c))" by (simp add: m_def)
    have "vetted (result_hosts spec @ homepage_hosts spec) search_dom_limit url html"
      using submitted_vetted [OF S] by (auto simp: vetted_def)
    with submitted_read [OF S] ok show ?thesis unfolding result_accepted_def by blast
  next
    case (Pending_anubis tok ch)
    from sub Pending_anubis have S: "m = (fst m, Inr (Pending_anubis tok ch))" by (metis prod.collapse)
    obtain sol where R: "resume_anubis_pow E' tok sol (owner_after (fst m) w) =
        (fst (resume_anubis_pow E' tok sol (owner_after (fst m) w)), Inr r)"
      using res Pending_anubis
      by (auto simp: resolve_pending_def prod_eq_iff split: sum.splits anubis_error.splits)
    have "ow_pending w = None"
      using submit_search_cases [OF S [unfolded m_def]] by auto
    from search_outcome [OF S [unfolded m_def] this] obtain co where
      "ow_pending (owner_after (fst m) w) = Some co" "co_spec co = spec" "co_limit co = search_dom_limit"
      by (auto simp: m_def)
    with resumed_vetted [OF R] r have "vetted (result_hosts spec @ homepage_hosts spec) search_dom_limit url html" by auto
    with resumed_read [OF R [unfolded r]] ok show ?thesis unfolding result_accepted_def by blast
  qed
  with spec r(2) budget show ?thesis by blast
qed

definition sample_engine :: "pystr \<Rightarrow> step list \<times> (engine_exn + pystr)" where
  "sample_engine name = engine_search
     (\<lambda>_ _. sample_env\<lparr>e_events := (\<lambda>phase. if phase = ''homepage''
        then [Response ''Document'' ''f'' ''L1'' ''L1'' 200 (Some []), Loading_finished ''L1'',
              Frame_navigated ''f'' ''L1'' ''https://search.brave.com/'']
        else [Response ''Document'' ''f'' ''L2'' ''L2'' 200 (Some []), Loading_finished ''L2'',
              Frame_navigated ''f'' ''L2'' ''https://search.brave.com/search?q=x''])\<rparr>)
     sample_env (\<lambda>_ _. Inl (Solver_error ''deadline'')) [] True name ''ab'' [] 0 0 (Some 30) fresh_owner"

theorem engine_result_vetted_witness:
  "\<exists>url. vetted [''search.brave.com'', ''search.brave.com''] search_dom_limit url ''<html>''"
proof -
  have "snd (sample_engine ''brave2'') = Inr ''<html>''" by code_simp
  then have "sample_engine ''brave2'' = (fst (sample_engine ''brave2''), Inr ''<html>'')"
    by (metis prod.collapse)
  from engine_result_vetted [OF this [unfolded sample_engine_def]]
  show ?thesis by (auto simp: interactions_def result_accepted_def)
qed

text \<open>
  C11 (refinement). The client implements what the session's owner assumes of it: whenever a
  submission or a resumption of the client returns or raises, the state it leaves behind is one
  with which the owner's state machine can take its step. A pending challenge implies a
  connection that is still retained, it is there exactly when the call returned a continuation,
  and a resumption leaves none.\<close>

theorem client_refines_browser:
  assumes "br_stage r = Submitting s g" and "br_clock r \<le> now" and "ow_pending w = None"
    and "submit_search E spec fs mode wu limit ok query w = (es, res)"
    and "br_stage r' = Resuming s g" and "br_clock r' \<le> now"
  shows "(\<exists>q. browser_step r q \<and> br_browser q = snd (end_submit now g (session_view (sess_id s) (owner_after es w)) (br_browser r)) \<and>
      br_stage q = (case res of Inr (Pending_anubis _ _) \<Rightarrow> Challenged | _ \<Rightarrow> Ready)) \<and>
    (\<exists>q. browser_step r' q \<and> br_stage q = Ready \<and>
      br_browser q = snd (end_resume now g (session_view (sess_id s) (owner_after (fst (resume_anubis_pow E' t sol v)) v)) (br_browser r')))"
proof -
  let ?s = "session_view (sess_id s) (owner_after es w)"
  have "sess_pending ?s \<longrightarrow> sess_active ?s"
    and st: "(if sess_pending ?s then Challenged else Ready) =
      (case res of Inr (Pending_anubis _ _) \<Rightarrow> Challenged | _ \<Rightarrow> Ready)"
    using search_outcome [OF assms(4,3)] by (auto simp: session_view_def split: sum.splits submission.splits)
  then have 1: "browser_step r (r\<lparr>br_browser := snd (end_submit now g ?s (br_browser r)),
      br_stage := if sess_pending ?s then Challenged else Ready, br_clock := now,
      br_log := br_log r @ fst (end_submit now g ?s (br_browser r)), br_used := Some now\<rparr>)"
    using assms(1,2) by (intro browser_step.Submitted) (auto simp: session_view_def)
  let ?v = "session_view (sess_id s) (owner_after (fst (resume_anubis_pow E' t sol v)) v)"
  have 2: "browser_step r' (r'\<lparr>br_browser := snd (end_resume now g ?v (br_browser r')),
      br_stage := Ready, br_clock := now,
      br_log := br_log r' @ fst (end_resume now g ?v (br_browser r')), br_used := Some now\<rparr>)"
    using assms(5,6) by (intro browser_step.Resumed) (auto simp: session_view_def resume_idle)
  show ?thesis
    by (intro conjI exI, rule 1, simp, use st in simp, rule 2) simp_all
qed

definition submitting_run :: "stage \<Rightarrow> browser_run" where
  "submitting_run st = \<lparr>br_browser = new_browser\<lparr>bs_session := Some (client_left 0), bs_generation := 1, bs_next := 1\<rparr>,
     br_stage = st, br_clock = 1, br_log = [Opened 0], br_used = None\<rparr>"

theorem client_refines_browser_witness:
  "\<exists>q. browser_step (submitting_run (Submitting (client_left 0) 1)) q \<and> br_stage q = Ready"
proof -
  have "submit_search sample_env search_page [] ''timed'' ''load'' 1000 True ''ab'' fresh_owner =
      (fst sample_search, Inr (Submitted ''https://s.example/search?q=x'' 200 [] ''<html>'' None))"
    using sample_search_result(1) by (simp add: sample_search_def prod_eq_iff)
  from client_refines_browser [OF _ _ _ this, of "submitting_run (Submitting (client_left 0) 1)" "client_left 0" 1 2
      "submitting_run (Resuming (client_left 0) 1)" sample_env "''tok''" sample_solution pending_owner]
  show ?thesis by (auto simp: submitting_run_def fresh_owner_def)
qed

end
