(* ===== verification/X402_Admission.thy ===== *)
theory X402_Admission
  imports Slot
begin

text \<open>
  \<open>src/searxng/engines/_x402_admission.py\<close>: the admission of the paid API engine. One
  attempt per worker process, at most one every three seconds. Every function holds the
  condition's lock, so each is one step on the module's three variables.
\<close>

record admission =
  adm_token :: "token option"
  adm_active :: bool
  adm_last_start :: "time option"

definition admission_init :: admission where
  "admission_init = \<lparr>adm_token = None, adm_active = False, adm_last_start = None\<rparr>"

definition start_interval :: time where
  "start_interval = 3"

text \<open>\<open>available\<close> and \<open>now\<close> are what \<open>available()\<close> and the clock return, \<open>t\<close> is the new uuid.\<close>

definition reserve :: "bool \<Rightarrow> time \<Rightarrow> token \<Rightarrow> admission \<Rightarrow> token option \<times> admission" where
  "reserve available now t s =
     (if \<not> available \<or> adm_active s \<or> adm_token s \<noteq> None \<or>
         \<not> rested start_interval (adm_last_start s) now
      then (None, s)
      else (Some t, s\<lparr>adm_token := Some t\<rparr>))"

definition release :: "token option \<Rightarrow> admission \<Rightarrow> admission" where
  "release t s = (if t \<noteq> None \<and> t = adm_token s then s\<lparr>adm_token := None\<rparr> else s)"

definition ownership_enter :: "token option \<Rightarrow> admission \<Rightarrow> admission py" where
  "ownership_enter t s =
     (if t = None \<or> adm_token s \<noteq> t \<or> adm_active s
      then Inl (RuntimeError ''invalid_api_reservation'')
      else Inr (s\<lparr>adm_token := None, adm_active := True\<rparr>))"

definition ownership_exit :: "admission \<Rightarrow> admission" where
  "ownership_exit s = s\<lparr>adm_active := False\<rparr>"

definition record_start :: "time \<Rightarrow> admission \<Rightarrow> admission py" where
  "record_start now s =
     (if \<not> adm_active s then Inl (RuntimeError ''api_attempt_not_owned'')
      else Inr (s\<lparr>adm_last_start := Some now\<rparr>))"

section \<open>Waiting for a reservation\<close>

text \<open>
  One round of the loop of \<open>wait\<close>: it returns, or it sleeps on the condition for the
  given time (\<open>None\<close>: until it is notified).
\<close>

datatype wait_step = Return "token option" | Sleep "time option"

definition cooling :: "time \<Rightarrow> admission \<Rightarrow> time option" where
  "cooling now s = (case adm_last_start s of None \<Rightarrow> None
     | Some l \<Rightarrow> (let c = start_interval - (now - l) in if c > 0 then Some c else None))"

fun min_delay :: "time option \<Rightarrow> time option \<Rightarrow> time option" where
  "min_delay None r = r"
| "min_delay d None = d"
| "min_delay (Some d) (Some r) = Some (min d r)"

definition wait_round ::
  "time option \<Rightarrow> bool \<Rightarrow> time \<Rightarrow> token \<Rightarrow> admission \<Rightarrow> wait_step \<times> admission" where
  "wait_round deadline available now t s =
     (let remaining = map_option (\<lambda>d. d - now) deadline
      in if \<not> available then (Return None, s)
         else if (case remaining of None \<Rightarrow> False | Some r \<Rightarrow> r \<le> 0) then (Return None, s)
         else case reserve available now t s of
           (Some t', s') \<Rightarrow> (Return (Some t'), s')
         | (None, s') \<Rightarrow>
             (Sleep (min_delay (if \<not> adm_active s \<and> adm_token s = None then cooling now s else None)
                      remaining), s'))"

text \<open>
  The loop, over what each round finds when it wakes: whether the provider is available, the
  time, and the module's state. \<open>None\<close>: it is still asleep after the last of them.
\<close>

fun wait_loop ::
  "time option \<Rightarrow> token \<Rightarrow> (bool \<times> time \<times> admission) list \<Rightarrow> (token option \<times> admission) option" where
  "wait_loop deadline t [] = None"
| "wait_loop deadline t ((available, now, s) # rounds) =
     (case wait_round deadline available now t s of
        (Return r, s') \<Rightarrow> Some (r, s')
      | (Sleep _, _) \<Rightarrow> wait_loop deadline t rounds)"

lemmas admission_ops = reserve_def release_def ownership_enter_def ownership_exit_def
  record_start_def

lemma min_delay_bound: "0 < r \<Longrightarrow> (\<And>c. d = Some c \<Longrightarrow> 0 < c) \<Longrightarrow>
    \<exists>y. min_delay d (Some r) = Some y \<and> 0 < y \<and> y \<le> r"
  by (cases d) auto

lemma cooling_pos: "cooling now s = Some c \<Longrightarrow> 0 < c"
  by (auto simp: cooling_def Let_def split: option.splits if_splits)

lemma min_delay_None: "min_delay d None = d"
  by (cases d) auto

text \<open>With a deadline a sleep takes time, and it is over by the deadline.\<close>

lemma wait_sleeps_within:
  assumes "wait_round (Some d) av now t s = (Sleep x, s')"
  shows "\<exists>y. x = Some y \<and> 0 < y \<and> now + y \<le> d \<and> s' = s"
proof -
  let ?c = "if \<not> adm_active s \<and> adm_token s = None then cooling now s else None"
  from assms have "d - now > 0" and "x = min_delay ?c (Some (d - now))" and "s' = s"
    by (auto simp: wait_round_def Let_def reserve_def split: if_splits prod.splits option.splits)
  with min_delay_bound [of "d - now" ?c] show ?thesis
    by (auto simp: cooling_pos split: if_splits)
qed

text \<open>Without a deadline it sleeps indefinitely only while another request has the slot.\<close>

lemma wait_sleeps_notified:
  assumes "wait_round None av now t s = (Sleep None, s')"
  shows "adm_active s \<or> adm_token s \<noteq> None"
proof (rule ccontr)
  assume "\<not> ?thesis"
  with assms have "\<not> rested start_interval (adm_last_start s) now" "cooling now s = None"
    by (auto simp: wait_round_def reserve_def min_delay_None split: if_splits)
  then show False by (cases "adm_last_start s") (auto simp: cooling_def Let_def split: if_splits)
qed

text \<open>After a cooldown of exactly the computed length the reservation is granted.\<close>

lemma cooled_reserves:
  "cooling now s = Some c \<Longrightarrow> \<not> adm_active s \<Longrightarrow> adm_token s = None \<Longrightarrow>
   fst (reserve True (now + c) t s) = Some t"
  by (auto simp: cooling_def reserve_def Let_def start_interval_def split: option.splits if_splits)

section \<open>The admission as a paced slot\<close>

definition admission_ops_of :: "admission slot_ops" where
  "admission_ops_of = \<lparr>
     op_reserve = (\<lambda>av now t s. case reserve av now t s of (Some _, s') \<Rightarrow> Some s' | _ \<Rightarrow> None),
     op_release = (\<lambda>t. release (Some t)),
     op_enter = (\<lambda>now t s. case ownership_enter (Some t) s of Inr s' \<Rightarrow> Some s' | _ \<Rightarrow> None),
     op_direct = (\<lambda>_ _. None),
     op_leave = ownership_exit,
     op_start = (\<lambda>now s. case record_start now s of Inr s' \<Rightarrow> Some s' | _ \<Rightarrow> None),
     op_restart = False\<rparr>"

interpretation api: paced_slot admission_ops_of "\<lambda>_. True" adm_token adm_active adm_last_start start_interval
  by unfold_locales
    (auto simp: admission_ops_of_def admission_ops split: if_splits)


text \<open>
  Whatever the interleaving of the requests on the paid API: at most one owns
  the attempt, nobody holds a reservation meanwhile, a granted reservation can always be
  turned into ownership, and once every request is done the API is neither reserved nor
  active.\<close>

theorem api_admission_sound:
  assumes "reachable admission_ops_of admission_init w"
  shows "(owns (phase w i) \<and> owns (phase w j) \<longrightarrow> i = j) \<and>
    (owns (phase w i) \<longrightarrow> phase w j \<noteq> Holding t) \<and>
    (phase w i = Holding t \<longrightarrow> (\<exists>s. ownership_enter (Some t) (cell w) = Inr s)) \<and>
    ((\<forall>k. phase w k = Idle) \<longrightarrow> adm_token (cell w) = None \<and> \<not> adm_active (cell w))"
proof -
  have A: "api.agree w" using assms by (intro api.agree_reachable) (auto simp: admission_init_def)
  have "\<exists>s. ownership_enter (Some t) (cell w) = Inr s" if "phase w i = Holding t"
    using api.holder_enters [OF A that] by (auto simp: admission_ops_of_def split: sum.splits)
  then show ?thesis
    using api.one_owner [OF A, of i j] api.owner_excludes_holder [OF A, of i j] api.all_idle_free [OF A]
    by blast
qed

definition api_sample :: "admission world" where
  "api_sample = the (acts admission_ops_of
     [Act_reserve 0 10 True, Act_enter 0 10, Act_start 0 11, Act_leave 0, Act_finish 0,
      Act_reserve 1 14 True, Act_enter 1 15, Act_start 1 (31/2)] (idle_world admission_init))"

lemma api_sample_reachable: "reachable admission_ops_of admission_init api_sample"
  unfolding api_sample_def by (rule acts_reachable) code_simp

theorem api_admission_sound_witness:
  "owns (phase api_sample 1) \<and> phase api_sample 0 \<noteq> Holding 1"
proof -
  have "owns (phase api_sample 1)" by code_simp
  then show ?thesis using api_admission_sound [OF api_sample_reachable, of 1 0 1] by blast
qed

text \<open>
  Two consecutive attempts on the paid API are at least three seconds apart,
  whatever the interleaving: only the reservation checks the interval, but a reservation starts
  one attempt at most.\<close>

theorem api_attempts_spaced:
  assumes "reachable admission_ops_of admission_init w"
  shows "spaced 3 (starts w)"
  using api.reachable_paced [OF _ _ _ _ assms] by (simp add: start_interval_def admission_init_def)

theorem api_attempts_spaced_witness: "spaced 3 (starts api_sample) \<and> starts api_sample = [31/2, 11]"
  using api_attempts_spaced [OF api_sample_reachable] by (intro conjI) (assumption, code_simp)

text \<open>
  The wait for a reservation with a deadline ends: it returns in the first
  round that finds the deadline reached, the engine suspended or the API free and rested, and
  a sleep never lasts beyond the deadline. A token it returns is reserved in the state it
  leaves, and is the new one.\<close>

theorem wait_returns:
  assumes "wait_loop (Some d) t rounds = r" and "(av, now, s) \<in> set rounds"
    and "\<not> av \<or> d \<le> now \<or> fst (reserve av now t s) \<noteq> None"
  shows "(\<exists>res s'. r = Some (res, s') \<and> (res = None \<or> res = Some t \<and> adm_token s' = Some t \<and> \<not> adm_active s')) \<and>
    (\<forall>x s'. wait_round (Some d) av now t s \<noteq> (Sleep x, s'))"
  using assms
proof (induction rounds arbitrary: r)
  case (Cons q rounds)
  obtain av' now' s1 where q: "q = (av', now', s1)" by (cases q)
  have over: "\<forall>x s'. wait_round (Some d) av now t s \<noteq> (Sleep x, s')"
    using Cons.prems(3) by (auto simp: wait_round_def Let_def split: option.splits prod.splits)
  show ?case
  proof (cases "wait_round (Some d) av' now' t s1")
    case (Pair st s2)
    show ?thesis
    proof (cases st)
      case (Return res)
      then show ?thesis using Cons.prems(1) Pair over q
        by (auto simp: wait_round_def Let_def reserve_def split: if_splits prod.splits option.splits)
    next
      case (Sleep x)
      have "(av, now, s) \<noteq> (av', now', s1)"
      proof
        assume "(av, now, s) = (av', now', s1)"
        with Pair over Sleep show False by simp
      qed
      then show ?thesis using Cons Pair Sleep q by auto
    qed
  qed
qed simp

theorem wait_returns_witness:
  "(\<exists>res s'. wait_loop (Some 20) 7 [(True, 10, admission_init\<lparr>adm_active := True\<rparr>), (True, 12, admission_init)]
      = Some (res, s') \<and> (res = None \<or> res = Some 7 \<and> adm_token s' = Some 7 \<and> \<not> adm_active s')) \<and>
   (\<forall>x s'. wait_round (Some 20) True 12 7 admission_init \<noteq> (Sleep x, s'))"
  by (rule wait_returns [OF refl, of True 12 admission_init])
    (simp_all add: reserve_def admission_init_def)

end
