(* ===== verification/Round_Robin.thy ===== *)
theory Round_Robin
  imports Provider_Pool X402_Admission PyText
begin

text \<open>
  The provider scheduling of \<open>src/searxng/patches/sitecustomize.py\<close>: the choice of one provider
  for a search in three tiers (regular, last resort, the paid API), its reservation under the
  rotating cursor, the requests of an attempt, the loop that moves on to the next provider, and
  the processing of an attempt under the provider's lease.
\<close>

section \<open>The configured engines\<close>

text \<open>An attribute of an engine that the code converts with \<open>float\<close>.\<close>

datatype number_attr = Missing | Number rat | No_number

record engine =
  eg_last_resort :: bool
  eg_score_mode :: pystr
  eg_weight :: number_attr
  eg_fallback_weight :: number_attr
  eg_confirmation_bonus :: number_attr

text \<open>What is fixed while a process runs.\<close>

record site =
  st_engines :: "pystr \<rightharpoonup> engine"
  st_round_robin :: "pystr option"
  st_processor :: "pystr \<Rightarrow> bool"
  st_strict :: bool

definition env_enabled :: "pystr option \<Rightarrow> bool \<Rightarrow> bool" where
  "env_enabled raw fallback = (case raw of None \<Rightarrow> fallback
     | Some v \<Rightarrow> py_lower v \<in> {''1'', ''true'', ''yes'', ''on''})"

definition is_last_resort_engine :: "site \<Rightarrow> pystr \<Rightarrow> bool" where
  "is_last_resort_engine W n = (case st_engines W n of
     None \<Rightarrow> False
   | Some e \<Rightarrow> eg_last_resort e \<or> eg_score_mode e = ''last_resort'')"

definition paid_engine :: pystr where
  "paid_engine = ''x402exa''"

text \<open>\<open>dict.fromkeys\<close> keeps the first occurrence of each key.\<close>

definition first_occurrences :: "'a list \<Rightarrow> 'a list" where
  "first_occurrences xs = rev (remdups (rev xs))"

definition round_robin_providers :: "site \<Rightarrow> pystr list" where
  "round_robin_providers W = (case st_round_robin W of
     None \<Rightarrow> provider_names @ (if st_engines W paid_engine \<noteq> None then [paid_engine] else [])
   | Some raw \<Rightarrow> first_occurrences (filter (\<lambda>n. n \<noteq> []) (List.map py_strip (split_on (CHR '','') raw))))"

section \<open>Reserving the next engine\<close>

text \<open>
  The scheduler's state, and what a step finds when it runs: the clock, the next token, which
  processors are suspended, and whether the paid engine is still available when its
  reservation asks again.
\<close>

record sched =
  sc_cursor :: nat
  sc_pool :: pool
  sc_paid :: admission

record moment =
  mo_now :: time
  mo_fresh :: token
  mo_suspended :: "pystr \<Rightarrow> bool"
  mo_paid_available :: bool

definition processor_available :: "site \<Rightarrow> moment \<Rightarrow> pystr \<Rightarrow> bool" where
  "processor_available W m n \<longleftrightarrow> st_processor W n \<and> \<not> mo_suspended m n"

definition reserve_engine :: "moment \<Rightarrow> pystr \<Rightarrow> sched \<Rightarrow> searx_error + (token option \<times> sched)" where
  "reserve_engine m n S =
     (if n = paid_engine
      then (case reserve (mo_paid_available m) (mo_now m) (mo_fresh m) (sc_paid S) of
        (t, a) \<Rightarrow> Inr (t, S\<lparr>sc_paid := a\<rparr>))
      else rbind (reserve_provider (mo_now m) (mo_fresh m) n (sc_pool S)) (\<lambda>(t, P). Inr (t, S\<lparr>sc_pool := P\<rparr>)))"

fun reserve_from ::
  "moment \<Rightarrow> pystr list \<Rightarrow> nat list \<Rightarrow> sched \<Rightarrow> searx_error + ((pystr \<times> token) option \<times> sched)" where
  "reserve_from m names [] S = Inr (None, S)"
| "reserve_from m names (i # is) S =
     rbind (reserve_engine m (names ! i) S) (\<lambda>(t, S'). case t of
       Some tok \<Rightarrow> Inr (Some (names ! i, tok), S'\<lparr>sc_cursor := Suc i\<rparr>)
     | None \<Rightarrow> reserve_from m names is S')"

text \<open>The indices in the order in which the cursor visits them.\<close>

definition cursor_order :: "nat \<Rightarrow> nat \<Rightarrow> nat list" where
  "cursor_order c n = List.map (\<lambda>offset. (c + offset) mod n) [0..<n]"

definition reserve_round_robin_engine ::
  "moment \<Rightarrow> pystr list \<Rightarrow> sched \<Rightarrow> searx_error + ((pystr \<times> token) option \<times> sched)" where
  "reserve_round_robin_engine m names S =
     reserve_from m names (cursor_order (sc_cursor S) (length names)) S"

definition release_reservation :: "pystr \<Rightarrow> token option \<Rightarrow> sched \<Rightarrow> sched" where
  "release_reservation n t S =
     (if n = paid_engine then S\<lparr>sc_paid := release t (sc_paid S)\<rparr>
      else S\<lparr>sc_pool := release_provider_reservation n t (sc_pool S)\<rparr>)"

section \<open>Selecting a provider\<close>

record engine_ref =
  er_name :: pystr
  er_category :: pystr

definition first_ref :: "engine_ref list \<Rightarrow> pystr \<Rightarrow> engine_ref option" where
  "first_ref refs n = find (\<lambda>r. er_name r = n) refs"

text \<open>The providers of the pool that the search selected, in the configured order.\<close>

definition selected_order :: "site \<Rightarrow> engine_ref list \<Rightarrow> pystr list" where
  "selected_order W refs = filter (\<lambda>n. first_ref refs n \<noteq> None) (round_robin_providers W)"

definition has_round_robin_pool :: "site \<Rightarrow> engine_ref list \<Rightarrow> bool" where
  "has_round_robin_pool W refs \<longleftrightarrow> selected_order W refs \<noteq> []"

definition regular_tier :: "site \<Rightarrow> moment \<Rightarrow> pystr list \<Rightarrow> pystr list" where
  "regular_tier W m cs = filter (\<lambda>n. n \<noteq> paid_engine \<and> \<not> is_last_resort_engine W n \<and> processor_available W m n) cs"

definition last_resort_tier :: "site \<Rightarrow> moment \<Rightarrow> pystr list \<Rightarrow> pystr list" where
  "last_resort_tier W m cs = filter (\<lambda>n. is_last_resort_engine W n \<and> processor_available W m n) cs"

definition paid_tier :: "site \<Rightarrow> moment \<Rightarrow> pystr list \<Rightarrow> pystr list" where
  "paid_tier W m cs = filter (\<lambda>n. n = paid_engine \<and> processor_available W m n) cs"

datatype choice =
    Chosen pystr token
  | Nothing_selected
  | Wait_paid
  | Wait_capacity "pystr list"

definition reserve_tiers ::
  "moment \<Rightarrow> pystr list \<Rightarrow> pystr list \<Rightarrow> pystr list \<Rightarrow> sched \<Rightarrow> searx_error + ((pystr \<times> token) option \<times> sched)" where
  "reserve_tiers m regular fallback paid S =
     rbind (reserve_round_robin_engine m regular S) (\<lambda>(c, S).
     rbind (if c = None \<and> regular = [] then reserve_round_robin_engine m fallback S else Inr (c, S)) (\<lambda>(c, S).
     if c = None \<and> regular = [] \<and> fallback = [] then reserve_round_robin_engine m paid S else Inr (c, S)))"

text \<open>One round of the loop of \<open>_round_robin_selected_refs\<close>.\<close>

definition selection_round ::
  "site \<Rightarrow> bool \<Rightarrow> pystr list \<Rightarrow> moment \<Rightarrow> sched \<Rightarrow> searx_error + (choice \<times> sched)" where
  "selection_round W wait cs m S =
     (let regular = regular_tier W m cs; fallback = last_resort_tier W m cs; paid = paid_tier W m cs in
      rbind (reserve_tiers m regular fallback paid S) (\<lambda>(c, S').
      case c of
        Some (n, tok) \<Rightarrow> Inr (Chosen n tok, S')
      | None \<Rightarrow>
          (let names = (if regular \<noteq> [] then regular else if fallback \<noteq> [] then fallback else paid)
           in Inr (if \<not> wait \<or> names = [] then Nothing_selected
                   else if names = [paid_engine] then Wait_paid else Wait_capacity names, S'))))"

text \<open>
  The loop. Each element is what a round finds: the moment, the state other requests left, and,
  for the wait on the paid engine, what the rounds of that wait find. \<open>None\<close>: it still waits
  after the last of them.
\<close>

record wake =
  wk_moment :: moment
  wk_sched :: sched
  wk_paid :: "(bool \<times> time \<times> admission) list"

fun selection_loop ::
  "site \<Rightarrow> bool \<Rightarrow> pystr list \<Rightarrow> wake list \<Rightarrow> (searx_error + ((pystr \<times> token) option \<times> sched)) option" where
  "selection_loop W wait cs [] = None"
| "selection_loop W wait cs (w # ws) =
     (case selection_round W wait cs (wk_moment w) (wk_sched w) of
        Inl e \<Rightarrow> Some (Inl e)
      | Inr (Chosen n tok, S) \<Rightarrow> Some (Inr (Some (n, tok), S))
      | Inr (Nothing_selected, S) \<Rightarrow> Some (Inr (None, S))
      | Inr (Wait_capacity names, S) \<Rightarrow>
          (case next_provider_ready_delay (mo_now (wk_moment w)) names (sc_pool S) of
             Inl e \<Rightarrow> Some (Inl e)
           | Inr _ \<Rightarrow> selection_loop W wait cs ws)
      | Inr (Wait_paid, S) \<Rightarrow>
          (case wait_loop None (mo_fresh (wk_moment w)) (wk_paid w) of
             None \<Rightarrow> None
           | Some (Some tok, a) \<Rightarrow> Some (Inr (Some (paid_engine, tok), S\<lparr>sc_paid := a\<rparr>))
           | Some (None, a) \<Rightarrow> selection_loop W wait cs ws))"

datatype selection = All_refs | One "(pystr \<times> token) option"

definition round_robin_selected_refs ::
  "site \<Rightarrow> engine_ref list \<Rightarrow> pystr list \<Rightarrow> bool \<Rightarrow> wake list \<Rightarrow> sched \<Rightarrow>
   (searx_error + (selection \<times> sched)) option" where
  "round_robin_selected_refs W refs excluded wait ws S =
     (let order = selected_order W refs; cs = filter (\<lambda>n. n \<notin> set excluded) order
      in if order = [] then Some (Inr (All_refs, S))
         else if cs = [] then Some (Inr (One None, S))
         else map_option (\<lambda>r. rbind r (\<lambda>(c, S). Inr (One c, S))) (selection_loop W wait cs ws))"

section \<open>The requests of an attempt\<close>

text \<open>
  A search: the engines the user selected, whether a processor's \<open>get_params\<close> accepts the query
  for a category, the timeouts of the engines and the two bounds on them.
\<close>

record search_input =
  si_refs :: "engine_ref list"
  si_params :: "engine_ref \<Rightarrow> bool"
  si_timeout :: "pystr \<Rightarrow> time"
  si_bounds :: "time option list"

text \<open>\<open>cached\<close>: the parameters are resolved for the first selected reference of each provider.\<close>

definition eligible_refs :: "site \<Rightarrow> search_input \<Rightarrow> engine_ref list" where
  "eligible_refs W q = filter (\<lambda>r. er_name r \<in> set (selected_order W (si_refs q)) \<and> st_processor W (er_name r) \<and>
     (case first_ref (si_refs q) (er_name r) of None \<Rightarrow> False | Some r' \<Rightarrow> si_params q r')) (si_refs q)"

text \<open>What \<open>_record_unavailable_round_robin_providers\<close> remarks for the user.\<close>

datatype remark = Suspended_engine pystr | Busy_engine pystr

definition tier :: "site \<Rightarrow> pystr \<Rightarrow> nat" where
  "tier W n = (if n = paid_engine then 2 else if is_last_resort_engine W n then 1 else 0)"

definition active_tier :: "site \<Rightarrow> moment \<Rightarrow> pystr list \<Rightarrow> nat" where
  "active_tier W m cs = (case filter (processor_available W m) cs of
     [] \<Rightarrow> 2
   | ns \<Rightarrow> Min (tier W ` set ns))"

definition record_unavailable :: "site \<Rightarrow> moment \<Rightarrow> engine_ref list \<Rightarrow> pystr list \<Rightarrow> remark list" where
  "record_unavailable W m refs excluded =
     (let cs = filter (\<lambda>n. n \<notin> set excluded) (selected_order W refs)
      in List.map (\<lambda>n. if st_processor W n \<and> mo_suspended m n then Suspended_engine n else Busy_engine n)
           (filter (\<lambda>n. tier W n \<le> active_tier W m cs) cs))"

text \<open>The loop over the selected references, of which the reservations are a dictionary.\<close>

fun build_requests ::
  "site \<Rightarrow> moment \<Rightarrow> (pystr \<times> token) list \<Rightarrow> pystr list \<Rightarrow> sched \<Rightarrow>
   (searx_error + (pystr \<times> token) list \<times> remark list) \<times> sched" where
  "build_requests W m res [] S = (Inr ([], []), S)"
| "build_requests W m res (n # ns) S =
     (if \<not> st_processor W n then (Inl (Key_error n), S)
      else if mo_suspended m n
      then (case build_requests W m res ns (release_reservation n (map_of res n) S) of
          (Inr (rs, remarks), S') \<Rightarrow> (Inr (rs, Suspended_engine n # remarks), S')
        | (Inl e, S') \<Rightarrow> (Inl e, S'))
      else case map_of res n of
        None \<Rightarrow> (Inl (Key_error n), S)
      | Some tok \<Rightarrow> (case build_requests W m res ns S of
          (Inr (rs, remarks), S') \<Rightarrow> (Inr ((n, tok) # rs, remarks), S')
        | (Inl e, S') \<Rightarrow> (Inl e, S')))"

definition release_all :: "(pystr \<times> token) list \<Rightarrow> sched \<Rightarrow> sched" where
  "release_all res S = fold (\<lambda>(n, tok). release_reservation n (Some tok)) res S"

definition attempt_timeout :: "search_input \<Rightarrow> (pystr \<times> token) list \<Rightarrow> time" where
  "attempt_timeout q rs =
     fold (\<lambda>b t. case b of None \<Rightarrow> t | Some d \<Rightarrow> min t d) (si_bounds q)
       (fold (\<lambda>(n, _) t. max t (si_timeout q n)) rs 0)"

text \<open>
  \<open>_patched_get_requests\<close> for a search of the pool. A round is the wait of the selection and
  the moment at which the requests are built; when every selected processor has been suspended
  in between, the function calls itself.
\<close>

record attempt_round =
  ar_wakes :: "wake list"
  ar_after :: moment
  ar_interference :: "sched \<Rightarrow> sched"

fun get_requests ::
  "site \<Rightarrow> search_input \<Rightarrow> pystr list \<Rightarrow> attempt_round list \<Rightarrow> sched \<Rightarrow>
   ((searx_error + (pystr \<times> token) list \<times> time \<times> remark list) \<times> sched) option" where
  "get_requests W q excluded [] S = None"
| "get_requests W q excluded (r # rounds) S =
     (let refs = eligible_refs W q in
      if refs = [] then Some (Inr ([], 0, []), S)
      else case round_robin_selected_refs W refs excluded True (ar_wakes r) S of
        None \<Rightarrow> None
      | Some (Inl e) \<Rightarrow> Some (Inl e, S)
      | Some (Inr (One None, S')) \<Rightarrow> Some (Inr ([], 0, record_unavailable W (ar_after r) refs excluded), S')
      | Some (Inr (sel, S')) \<Rightarrow>
          (let res = (case sel of One (Some c) \<Rightarrow> [c] | _ \<Rightarrow> []);
               names = (case sel of One (Some c) \<Rightarrow> [fst c] | _ \<Rightarrow> List.map er_name refs)
           in case build_requests W (ar_after r) res names (ar_interference r S') of
             (Inl e, S'') \<Rightarrow> Some (Inl e, release_all res S'')
           | (Inr ([], remarks), S'') \<Rightarrow>
               map_option (\<lambda>(x, S). (map_sum id (\<lambda>(rs, t, ns). (rs, t, remarks @ ns)) x, S))
                 (get_requests W q excluded rounds S'')
           | (Inr (rs, remarks), S'') \<Rightarrow> Some (Inr (rs, attempt_timeout q rs, remarks), S'')))"

section \<open>Moving on to the next provider\<close>

text \<open>
  \<open>_patched_search_standard\<close>: one element per iteration, with the rounds of its
  \<open>get_requests\<close>, what \<open>search_multiple_requests\<close> does to the state and whether it raises, and
  whether the container has main results afterwards.
\<close>

record iteration =
  it_rounds :: "attempt_round list"
  it_run :: "sched \<Rightarrow> sched"
  it_raises :: "pystr option"
  it_main_results :: bool

datatype search_end = Finished | Search_raised searx_error | Run_raised pystr

definition has_untried :: "site \<Rightarrow> engine_ref list \<Rightarrow> pystr list \<Rightarrow> bool" where
  "has_untried W refs attempted \<longleftrightarrow> list_ex (\<lambda>n. n \<notin> set attempted) (selected_order W refs)"

fun search_loop ::
  "site \<Rightarrow> search_input \<Rightarrow> pystr list \<Rightarrow> iteration list \<Rightarrow> sched \<Rightarrow> (search_end \<times> pystr list \<times> sched) option" where
  "search_loop W q attempted [] S = None"
| "search_loop W q attempted (i # its) S =
     (case get_requests W q attempted (it_rounds i) S of
        None \<Rightarrow> None
      | Some (Inl e, S') \<Rightarrow> Some (Search_raised e, attempted, S')
      | Some (Inr ([], _, _), S') \<Rightarrow> Some (Finished, attempted, S')
      | Some (Inr (rs, _, _), S') \<Rightarrow>
          (let attempted' = attempted @ List.map fst rs; S'' = it_run i S'
           in case it_raises i of
             Some e \<Rightarrow> Some (Run_raised e, attempted', release_all rs S'')
           | None \<Rightarrow>
               (if it_main_results i then Some (Finished, attempted', S'')
                else if \<not> has_untried W (si_refs q) attempted' then Some (Finished, attempted', S'')
                else search_loop W q attempted' its S'')))"

section \<open>Processing an attempt\<close>

text \<open>
  \<open>OfflineProcessor.search\<close> as patched, for an Obscura provider: what the engine's \<open>search\<close> and
  \<open>extend_container\<close> do is an outcome, what they and other requests do to the pool is \<open>work\<close>.
\<close>

datatype engine_outcome = Extended | Invalid_input | Blocked searx_error | Crashed pystr

datatype processing_event = Results_added | Invalid_logged | Handled bool pystr

fun outcome_events :: "engine_outcome \<Rightarrow> processing_event list" where
  "outcome_events Extended = [Results_added]"
| "outcome_events Invalid_input = [Invalid_logged]"
| "outcome_events (Blocked e) = [Handled True (case e of Response_error m \<Rightarrow> m | Too_many_requests m \<Rightarrow> m
     | Access_denied m \<Rightarrow> m | Captcha m \<Rightarrow> m | Key_error m \<Rightarrow> m)]"
| "outcome_events (Crashed m) = [Handled False m]"

text \<open>Which exceptions suspend the provider.\<close>

fun outcome_of :: "searx_error \<Rightarrow> engine_outcome" where
  "outcome_of (Captcha m) = Blocked (Captcha m)"
| "outcome_of (Too_many_requests m) = Blocked (Too_many_requests m)"
| "outcome_of (Access_denied m) = Blocked (Access_denied m)"
| "outcome_of (Response_error m) = Crashed m"
| "outcome_of (Key_error m) = Crashed m"

definition process_attempt ::
  "time \<Rightarrow> pystr \<Rightarrow> token option \<Rightarrow> deadline \<Rightarrow> engine_outcome \<Rightarrow> (pool \<Rightarrow> pool) \<Rightarrow> pool \<Rightarrow>
   (searx_error + processing_event list) \<times> pool" where
  "process_attempt now n tok d outcome work P =
     (case provider_lease_enter now n tok d P of
        Inl e \<Rightarrow> (Inl e, release_provider_reservation n tok P)
      | Inr P' \<Rightarrow> (Inr (outcome_events outcome),
          release_provider_reservation n tok (provider_lease_exit n (work P'))))"

section \<open>Reservations\<close>

definition holds :: "pystr \<Rightarrow> token \<Rightarrow> sched \<Rightarrow> bool" where
  "holds n tok S \<longleftrightarrow>
     (if n = paid_engine then adm_token (sc_paid S) = Some tok
      else \<exists>p. providers (sc_pool S) n = Some p \<and> pv_reservation p = Some tok)"

definition same_elsewhere :: "pystr \<Rightarrow> sched \<Rightarrow> sched \<Rightarrow> bool" where
  "same_elsewhere n S S' \<longleftrightarrow> (\<forall>n'. n' \<noteq> n \<longrightarrow> providers (sc_pool S') n' = providers (sc_pool S) n') \<and>
     (n \<noteq> paid_engine \<longrightarrow> sc_paid S' = sc_paid S)"

lemma reserve_engine_None: "reserve_engine m n S = Inr (None, S') \<Longrightarrow> S' = S"
  by (auto simp: reserve_engine_def reserve_def reserve_provider_def rbind_Inr_iff split: if_splits option.splits)

lemma reserve_engine_Some:
  "reserve_engine m n S = Inr (Some tok, S') \<Longrightarrow> tok = mo_fresh m \<and> holds n tok S' \<and> same_elsewhere n S S'"
  by (auto simp: reserve_engine_def reserve_def reserve_provider_def rbind_Inr_iff holds_def same_elsewhere_def
      set_provider_def provider_capacity_changed_def split: if_splits option.splits)

lemma reserve_engine_cursor:
  "reserve_engine m n (S\<lparr>sc_cursor := c\<rparr>) = rbind (reserve_engine m n S) (\<lambda>(t, S'). Inr (t, S'\<lparr>sc_cursor := c\<rparr>))"
  by (auto simp: reserve_engine_def rbind_def split: sum.splits prod.splits)

lemma reserve_from_None: "reserve_from m names is S = Inr (None, S') \<Longrightarrow>
    S' = S \<and> (\<forall>i \<in> set is. reserve_engine m (names ! i) S = Inr (None, S))"
  by (induction "is") (auto simp: rbind_Inr_iff split: option.splits dest: reserve_engine_None)

lemma reserve_from_Some:
  assumes "reserve_from m names is S = Inr (Some (n, tok), S')"
  shows "\<exists>k < length is. n = names ! (is ! k) \<and> sc_cursor S' = Suc (is ! k) \<and>
    tok = mo_fresh m \<and> holds n tok S' \<and> same_elsewhere n S S' \<and>
    (\<forall>j < k. reserve_engine m (names ! (is ! j)) S = Inr (None, S))"
  using assms
proof (induction "is")
  case (Cons i "is")
  from Cons.prems obtain t S1 where r: "reserve_engine m (names ! i) S = Inr (t, S1)"
    and c: "(case t of Some tok \<Rightarrow> Inr (Some (names ! i, tok), S1\<lparr>sc_cursor := Suc i\<rparr>)
      | None \<Rightarrow> reserve_from m names is S1) = Inr (Some (n, tok), S')"
    by (auto simp: rbind_Inr_iff)
  show ?case
  proof (cases t)
    case None
    with r have S1: "S1 = S" using reserve_engine_None by blast
    from c None S1 Cons.IH obtain k where "k < length is" "n = names ! (is ! k)" "sc_cursor S' = Suc (is ! k)"
      "tok = mo_fresh m" "holds n tok S'" "same_elsewhere n S S'"
      "\<forall>j < k. reserve_engine m (names ! (is ! j)) S = Inr (None, S)"
      by auto
    with r None S1 show ?thesis
      by (intro exI [of _ "Suc k"]) (auto simp: less_Suc_eq_0_disj)
  next
    case (Some tok')
    with r reserve_engine_Some [of m "names ! i" S tok' S1] c show ?thesis
      by (intro exI [of _ 0]) (auto simp: holds_def same_elsewhere_def)
  qed
qed simp

lemma cursor_order_nth: "k < n \<Longrightarrow> cursor_order c n ! k = (c + k) mod n"
  by (simp add: cursor_order_def)

lemma cursor_order_set: "set (cursor_order c n) = {..<n}"
proof (cases "n = 0")
  case False
  have "i \<in> (\<lambda>offset. (c + offset) mod n) ` {0..<n}" if "i < n" for i
  proof (intro image_eqI)
    have "c mod n < n" using False by simp
    then have "c + (i + (n - c mod n)) = i + (n * (c div n) + n)"
      using mult_div_mod_eq [of n c] by linarith
    also have "\<dots> = i + n * Suc (c div n)" by simp
    finally have "c + (i + (n - c mod n)) = i + n * Suc (c div n)" .
    then have "(c + (i + (n - c mod n))) mod n = i" using that by (simp only: mod_mult_self2 mod_less)
    then show "i = (c + (i + (n - c mod n)) mod n) mod n" by (simp add: mod_add_right_eq)
  qed (use False in simp)
  with False show ?thesis by (auto simp: cursor_order_def)
qed (simp add: cursor_order_def)

lemma reserve_rr_None:
  assumes "reserve_round_robin_engine m names S = Inr (None, S')"
  shows "S' = S \<and> (\<forall>n \<in> set names. reserve_engine m n S = Inr (None, S))"
  using reserve_from_None [OF assms [unfolded reserve_round_robin_engine_def]]
  by (auto simp: cursor_order_set in_set_conv_nth)

lemma reserve_rr_Some:
  assumes "reserve_round_robin_engine m names S = Inr (Some (n, tok), S')"
  shows "n \<in> set names \<and> tok = mo_fresh m \<and> holds n tok S' \<and> same_elsewhere n S S' \<and>
    (\<exists>k < length names. n = names ! ((sc_cursor S + k) mod length names) \<and>
       sc_cursor S' = Suc ((sc_cursor S + k) mod length names) \<and>
       (\<forall>j < k. reserve_engine m (names ! ((sc_cursor S + j) mod length names)) S = Inr (None, S)))"
proof -
  from reserve_from_Some [OF assms [unfolded reserve_round_robin_engine_def]] obtain k where
    k: "k < length names" "n = names ! (cursor_order (sc_cursor S) (length names) ! k)"
    "sc_cursor S' = Suc (cursor_order (sc_cursor S) (length names) ! k)" "tok = mo_fresh m" "holds n tok S'"
    "same_elsewhere n S S'"
    "\<forall>j < k. reserve_engine m (names ! (cursor_order (sc_cursor S) (length names) ! j)) S = Inr (None, S)"
    by (auto simp: cursor_order_def)
  then have "(sc_cursor S + k) mod length names < length names"
    by (metis length_greater_0_conv less_zeroE list.size(3) mod_less_divisor neq0_conv)
  with k show ?thesis by (auto simp: cursor_order_nth intro!: exI [of _ k])
qed

section \<open>Properties\<close>

text \<open>A round: whom it reserves, and that it changes nothing when it reserves nobody.\<close>

lemma round_tiers:
  assumes "selection_round W wait cs m S = Inr (c, S')"
  shows "case c of
      Chosen n tok \<Rightarrow> n \<in> set cs \<and> processor_available W m n \<and> tok = mo_fresh m \<and> holds n tok S' \<and>
        same_elsewhere n S S' \<and>
        (tier W n = 0 \<or> regular_tier W m cs = []) \<and>
        (tier W n = 2 \<longrightarrow> is_last_resort_engine W n \<or> last_resort_tier W m cs = [])
    | _ \<Rightarrow> S' = S"
proof -
  let ?r = "regular_tier W m cs" and ?f = "last_resort_tier W m cs" and ?p = "paid_tier W m cs"
  have sets: "n \<in> set ?r \<Longrightarrow> n \<in> set cs \<and> processor_available W m n \<and> tier W n = 0"
    "n \<in> set ?f \<Longrightarrow> n \<in> set cs \<and> processor_available W m n \<and> is_last_resort_engine W n"
    "n \<in> set ?p \<Longrightarrow> n \<in> set cs \<and> processor_available W m n" for n
    by (auto simp: regular_tier_def last_resort_tier_def paid_tier_def tier_def)
  obtain x where T: "reserve_tiers m ?r ?f ?p S = Inr (x, S')"
    and E: "(case x of Some (n, tok) \<Rightarrow> Inr (Chosen n tok, S')
      | None \<Rightarrow> (let names = (if ?r \<noteq> [] then ?r else if ?f \<noteq> [] then ?f else ?p)
         in Inr (if \<not> wait \<or> names = [] then Nothing_selected
                 else if names = [paid_engine] then Wait_paid else Wait_capacity names, S'))) =
      (Inr (c, S') :: searx_error + choice \<times> sched)"
    using assms by (force simp: selection_round_def Let_def rbind_Inr_iff split: option.splits)
  from E have c: "(case x of Some (n, tok) \<Rightarrow> c = Chosen n tok | None \<Rightarrow> \<forall>n tok. c \<noteq> Chosen n tok)"
    by (cases x) (auto simp: Let_def split: if_splits)
  from T obtain c1 S1 c2 S2 where
    1: "reserve_round_robin_engine m ?r S = Inr (c1, S1)" and
    2: "(if c1 = None \<and> ?r = [] then reserve_round_robin_engine m ?f S1 else Inr (c1, S1)) = Inr (c2, S2)" and
    3: "(if c2 = None \<and> ?r = [] \<and> ?f = [] then reserve_round_robin_engine m ?p S2 else Inr (c2, S2)) = Inr (x, S')"
    by (auto simp: reserve_tiers_def rbind_Inr_iff)
  show ?thesis
  proof (cases x)
    case None
    with 1 2 3 have "S' = S" by (auto dest!: reserve_rr_None split: if_splits)
    with None c show ?thesis by (cases c) auto
  next
    case (Some nt)
    obtain n tok where x: "x = Some (n, tok)" using Some by (cases nt) auto
    have "n \<in> set cs \<and> processor_available W m n \<and> tok = mo_fresh m \<and> holds n tok S' \<and> same_elsewhere n S S' \<and>
        (tier W n = 0 \<or> ?r = []) \<and> (tier W n = 2 \<longrightarrow> is_last_resort_engine W n \<or> ?f = [])"
    proof (cases c1)
      case (Some nt1)
      with 1 2 3 x have "reserve_round_robin_engine m ?r S = Inr (Some (n, tok), S')"
        by (auto split: if_splits)
      from reserve_rr_Some [OF this] sets(1) show ?thesis by auto
    next
      case None
      note c1 = this
      with 1 have S1: "S1 = S" using reserve_rr_None by blast
      show ?thesis
      proof (cases c2)
        case (Some nt2)
        with 2 3 x c1 S1 have "?r = []" "reserve_round_robin_engine m ?f S = Inr (Some (n, tok), S')"
          by (auto split: if_splits)
        with reserve_rr_Some [OF this(2)] sets(2) show ?thesis by auto
      next
        case None
        with 2 S1 c1 have "S2 = S" by (auto dest!: reserve_rr_None split: if_splits)
        with 3 x None have "?r = []" "?f = []" "reserve_round_robin_engine m ?p S = Inr (Some (n, tok), S')"
          by (auto split: if_splits)
        with reserve_rr_Some [OF this(3)] sets(3) show ?thesis by auto
      qed
    qed
    with x c show ?thesis by auto
  qed
qed

definition five_engines :: site where
  "five_engines = \<lparr>st_engines = (\<lambda>n. if n \<in> set provider_names then Some \<lparr>eg_last_resort = (n = ''bing2''),
       eg_score_mode = [], eg_weight = Missing, eg_fallback_weight = Missing, eg_confirmation_bonus = Missing\<rparr> else None),
     st_round_robin = None, st_processor = (\<lambda>n. n \<in> set provider_names), st_strict = True\<rparr>"

definition fresh_sched :: sched where
  "fresh_sched = \<lparr>sc_cursor = 0, sc_pool = pool_init, sc_paid = admission_init\<rparr>"

definition moment_at :: "time \<Rightarrow> token \<Rightarrow> pystr list \<Rightarrow> moment" where
  "moment_at now t suspended = \<lparr>mo_now = now, mo_fresh = t, mo_suspended = (\<lambda>n. n \<in> set suspended), mo_paid_available = True\<rparr>"

text \<open>A sequence of reservations: each with its moment and the state found then, the cursor carried on.\<close>

fun rotation :: "pystr list \<Rightarrow> nat \<Rightarrow> (moment \<times> sched) list \<Rightarrow> pystr list" where
  "rotation names c [] = []"
| "rotation names c ((m, S) # steps) =
     (case reserve_round_robin_engine m names (S\<lparr>sc_cursor := c\<rparr>) of
        Inr (Some (n, _), S') \<Rightarrow> n # rotation names (sc_cursor S') steps
      | _ \<Rightarrow> rotation names c steps)"

lemma reserve_engine_known:
  assumes "n = paid_engine \<or> providers (sc_pool S) n \<noteq> None"
  shows "\<exists>t S'. reserve_engine m n S = Inr (t, S')"
proof (cases "n = paid_engine")
  case True
  then show ?thesis by (cases "reserve (mo_paid_available m) (mo_now m) (mo_fresh m) (sc_paid S)")
      (simp add: reserve_engine_def)
next
  case False
  with assms show ?thesis by (auto simp: reserve_engine_def rbind_def reserve_provider_def)
qed

lemma reserve_from_known: "(\<And>n. n \<in> set names \<Longrightarrow> n = paid_engine \<or> providers (sc_pool S) n \<noteq> None) \<Longrightarrow>
    set is \<subseteq> {..<length names} \<Longrightarrow> \<exists>x. reserve_from m names is S = Inr x"
proof (induction "is")
  case (Cons i "is")
  then have "names ! i = paid_engine \<or> providers (sc_pool S) (names ! i) \<noteq> None" by simp
  then obtain t S' where r: "reserve_engine m (names ! i) S = Inr (t, S')"
    using reserve_engine_known by blast
  show ?case
  proof (cases t)
    case None
    with r reserve_engine_None have "S' = S" by blast
    with Cons r None show ?thesis by (auto simp: rbind_def)
  qed (simp add: r rbind_def)
qed simp

text \<open>
  C18 (liveness). The rotation starves nobody: in any run of reservations over the same names, with
  whatever moments and states, a provider that could have been reserved at each of them has been
  chosen after at most as many reservations as there are names.\<close>

theorem rotation_fair:
  assumes "n \<in> set names" and "length names \<le> length steps"
    and "\<forall>(m, S) \<in> set steps. \<exists>tok S'. reserve_engine m n S = Inr (Some tok, S')"
    and "\<forall>(m, S) \<in> set steps. \<forall>n' \<in> set names. n' = paid_engine \<or> providers (sc_pool S) n' \<noteq> None"
  shows "n \<in> set (rotation names c (take (length names) steps))"
proof -
  obtain j where j: "j < length names" "names ! j = n" using assms(1) by (auto simp: in_set_conv_nth)
  have turn: "n \<in> set (rotation names c steps)"
    if "d < length steps" "(c + d) mod length names = j"
      "\<forall>(m, S) \<in> set steps. \<exists>tok S'. reserve_engine m n S = Inr (Some tok, S')"
      "\<forall>(m, S) \<in> set steps. \<forall>n' \<in> set names. n' = paid_engine \<or> providers (sc_pool S) n' \<noteq> None"
    for d c steps
    using that
  proof (induction d arbitrary: c steps rule: less_induct)
    case (less d)
    obtain m S rest where steps: "steps = (m, S) # rest" using less.prems(1) by (cases steps) auto
    let ?S = "S\<lparr>sc_cursor := c\<rparr>"
    obtain tok0 S0 where n: "reserve_engine m n ?S = Inr (Some tok0, S0)"
      using less.prems(3) steps by (auto simp: reserve_engine_cursor rbind_def)
    have "\<And>n. n \<in> set names \<Longrightarrow> n = paid_engine \<or> providers (sc_pool ?S) n \<noteq> None"
      using less.prems(4) steps by auto
    from reserve_from_known [OF this] obtain x S' where x: "reserve_round_robin_engine m names ?S = Inr (x, S')"
      by (fastforce simp: reserve_round_robin_engine_def cursor_order_set)
    obtain n' tok where S': "reserve_round_robin_engine m names ?S = Inr (Some (n', tok), S')"
      using x reserve_rr_None [of m names ?S S'] n assms(1) by (cases x) auto
    from reserve_rr_Some [OF this] obtain k where k: "k < length names"
      "n' = names ! ((c + k) mod length names)" "sc_cursor S' = Suc ((c + k) mod length names)"
      "\<forall>i < k. reserve_engine m (names ! ((c + i) mod length names)) ?S = Inr (None, ?S)"
      by auto
    have "k \<le> d"
      using k(4) less.prems(2) j(2) n by (metis Inr_inject not_less option.distinct(1) prod.inject)
    show ?case
    proof (cases "k = d")
      case True
      with k(2) less.prems(2) j(2) S' steps show ?thesis by simp
    next
      case False
      with \<open>k \<le> d\<close> have kd: "d - Suc k < d" "Suc k \<le> d" by auto
      have "(Suc ((c + k) mod length names) + (d - Suc k)) mod length names = (c + k + Suc (d - Suc k)) mod length names"
        by (metis add_Suc add_Suc_right mod_add_left_eq)
      also have "c + k + Suc (d - Suc k) = c + d" using kd by simp
      finally have "(sc_cursor S' + (d - Suc k)) mod length names = j" using less.prems(2) k(3) by simp
      moreover have "d - Suc k < length rest" using less.prems(1) kd steps by simp
      ultimately have "n \<in> set (rotation names (sc_cursor S') rest)"
        using less.IH [OF kd(1)] less.prems(3,4) steps by simp
      with S' steps show ?thesis by simp
    qed
  qed
  have "j \<in> set (cursor_order c (length names))" using j by (simp add: cursor_order_set)
  then obtain d where "d < length names" "(c + d) mod length names = j" by (auto simp: cursor_order_def)
  then show ?thesis
  proof (intro turn)
    show "d < length (take (length names) steps)" using \<open>d < length names\<close> assms(2) by simp
  qed (use assms(3,4) set_take_subset [of "length names" steps] in blast)+
qed

theorem rotation_fair_witness:
  "''brave2'' \<in> set (rotation [''google2'', ''brave2''] 0
     (take 2 [(moment_at 0 1 [], fresh_sched), (moment_at 0 2 [], fresh_sched)]))"
proof -
  have "\<exists>tok S'. reserve_engine (moment_at 0 t []) ''brave2'' fresh_sched = Inr (Some tok, S')" for t
    by (simp add: reserve_engine_def paid_engine_def reserve_provider_def fresh_sched_def pool_init_def
        provider_names_def new_provider_def unavailable_def moment_at_def rbind_def)
  then show ?thesis
    using rotation_fair [of "''brave2''" "[''google2'', ''brave2'']"
        "[(moment_at 0 1 [], fresh_sched), (moment_at 0 2 [], fresh_sched)]" 0]
    by (simp add: fresh_sched_def pool_init_def provider_names_def numeral_2_eq_2)
qed

section \<open>The search as a whole\<close>

lemma first_occurrences_facts [simp]:
  "distinct (first_occurrences xs)" "set (first_occurrences xs) = set xs"
  by (simp_all add: first_occurrences_def)

lemma selected_order_distinct: "distinct (selected_order W refs)"
  by (auto simp: selected_order_def round_robin_providers_def provider_names_def paid_engine_def
      split: option.splits)

lemma first_ref_iff: "first_ref refs n \<noteq> None \<longleftrightarrow> (\<exists>r \<in> set refs. er_name r = n)"
  by (induction refs) (auto simp: first_ref_def)

lemma selected_order_iff:
  "n \<in> set (selected_order W refs) \<longleftrightarrow> n \<in> set (round_robin_providers W) \<and> (\<exists>r \<in> set refs. er_name r = n)"
  using first_ref_iff [of refs n] by (simp add: selected_order_def)

lemma eligible_selected: "set (selected_order W (eligible_refs W q)) \<subseteq> set (selected_order W (si_refs q))"
  by (auto simp: selected_order_iff eligible_refs_def)

lemma eligible_in_order: "eligible_refs W q \<noteq> [] \<Longrightarrow> selected_order W (eligible_refs W q) \<noteq> []"
proof -
  assume "eligible_refs W q \<noteq> []"
  then obtain r where "r \<in> set (eligible_refs W q)" by (cases "eligible_refs W q") auto
  moreover then have "er_name r \<in> set (round_robin_providers W)"
    by (auto simp: eligible_refs_def selected_order_iff)
  ultimately have "er_name r \<in> set (selected_order W (eligible_refs W q))"
    by (auto simp: selected_order_iff)
  then show ?thesis by auto
qed

lemma reserve_rr_member: "reserve_round_robin_engine m names S = Inr (Some (n, tok), S') \<Longrightarrow> n \<in> set names"
  using reserve_rr_Some by blast

lemma round_member:
  "selection_round W wait cs m S = Inr (Chosen n tok, S') \<Longrightarrow> n \<in> set cs"
  "selection_round W wait cs m S = Inr (Wait_paid, S') \<Longrightarrow> paid_engine \<in> set cs"
  by (auto simp: selection_round_def Let_def reserve_tiers_def rbind_Inr_iff regular_tier_def last_resort_tier_def
      paid_tier_def filter_eq_Cons_iff dest!: reserve_rr_member split: option.splits if_splits prod.splits)

lemma selection_loop_member:
  "selection_loop W wait cs ws = Some (Inr (Some (n, tok), S)) \<Longrightarrow> n \<in> set cs"
  by (induction ws) (auto dest: round_member split: sum.splits prod.splits choice.splits option.splits)

lemma selected_member:
  "round_robin_selected_refs W refs ex wait ws S = Some (Inr (One (Some (n, tok)), S')) \<Longrightarrow>
    n \<in> set (selected_order W refs) \<and> n \<notin> set ex"
  by (auto simp: round_robin_selected_refs_def Let_def rbind_Inr_iff dest!: selection_loop_member split: if_splits)

lemma selected_all:
  "round_robin_selected_refs W refs ex wait ws S = Some (Inr (All_refs, S')) \<Longrightarrow> selected_order W refs = []"
  by (auto simp: round_robin_selected_refs_def Let_def rbind_Inr_iff split: if_splits)

lemma wait_paid_round:
  assumes "selection_round W wait cs m S = Inr (Wait_paid, S')"
  shows "regular_tier W m cs = [] \<and> (last_resort_tier W m cs = [] \<or> is_last_resort_engine W paid_engine) \<and>
    processor_available W m paid_engine \<and> S' = S"
proof -
  have "S' = S" using round_tiers [OF assms] by simp
  moreover have "regular_tier W m cs = [] \<and> (last_resort_tier W m cs = [] \<or> is_last_resort_engine W paid_engine) \<and>
      processor_available W m paid_engine"
    using assms unfolding selection_round_def
    by (auto simp: Let_def rbind_Inr_iff regular_tier_def last_resort_tier_def paid_tier_def filter_eq_Cons_iff
      split: option.splits if_splits prod.splits)
  ultimately show ?thesis by blast
qed

lemma wait_loop_reserves: "wait_loop d t rounds = Some (Some tok, a) \<Longrightarrow> tok = t \<and> adm_token a = Some t"
  by (induction rounds) (auto simp: wait_round_def Let_def reserve_def split: if_splits prod.splits option.splits wait_step.splits)

text \<open>
  A provider of the last resort only when no regular one is available, the paid engine only when neither kind is.
\<close>

definition tiers_respected :: "site \<Rightarrow> moment \<Rightarrow> pystr list \<Rightarrow> pystr \<Rightarrow> bool" where
  "tiers_respected W m cs n \<longleftrightarrow> (tier W n = 0 \<or> regular_tier W m cs = []) \<and> (tier W n = 2 \<longrightarrow> last_resort_tier W m cs = [])"

text \<open>What a selection reserved for one of the rounds.\<close>

definition reserved_in :: "site \<Rightarrow> pystr list \<Rightarrow> pystr \<Rightarrow> token \<Rightarrow> sched \<Rightarrow> wake \<Rightarrow> bool" where
  "reserved_in W cs n tok S' w \<longleftrightarrow> processor_available W (wk_moment w) n \<and> tok = mo_fresh (wk_moment w) \<and>
     same_elsewhere n (wk_sched w) S' \<and> tiers_respected W (wk_moment w) cs n"

lemma loop_tiers:
  assumes "selection_loop W wait cs ws = Some (Inr (c, S'))" "\<not> is_last_resort_engine W paid_engine"
  shows "case c of Some (n, tok) \<Rightarrow> n \<in> set cs \<and> holds n tok S' \<and> (\<exists>w \<in> set ws. reserved_in W cs n tok S' w)
    | None \<Rightarrow> \<exists>w \<in> set ws. S' = wk_sched w"
  using assms(1)
proof (induction ws)
  case (Cons w ws)
  then obtain r S where r: "selection_round W wait cs (wk_moment w) (wk_sched w) = Inr (r, S)"
    by (auto split: sum.splits)
  note t = round_tiers [OF r]
  have later: "selection_loop W wait cs ws = Some (Inr (c, S')) \<Longrightarrow> ?case"
    using Cons.IH by (auto split: option.splits)
  show ?case
  proof (cases r)
    case (Chosen n tok)
    then have c: "c = Some (n, tok)" "S' = S" using Cons.prems r by auto
    have "reserved_in W cs n tok S' w"
      using t Chosen c assms(2) by (auto simp: reserved_in_def tiers_respected_def tier_def split: if_splits)
    then show ?thesis using t Chosen c by auto
  next
    case Nothing_selected
    then show ?thesis using Cons.prems r t by auto
  next
    case Wait_paid
    show ?thesis
    proof (cases "wait_loop None (mo_fresh (wk_moment w)) (wk_paid w)")
      case (Some q)
      obtain tk a where q: "q = (tk, a)" by (cases q)
      show ?thesis
      proof (cases tk)
        case None
        then show ?thesis using later Cons.prems r Wait_paid Some q by auto
      next
        case (Some tok)
        have w: "tok = mo_fresh (wk_moment w)" "adm_token a = Some tok"
          using wait_loop_reserves [of None "mo_fresh (wk_moment w)" "wk_paid w" tok a] \<open>wait_loop None _ _ = Some q\<close> q Some by auto
        have c: "c = Some (paid_engine, tok)" "S' = S\<lparr>sc_paid := a\<rparr>"
          using Cons.prems r Wait_paid \<open>wait_loop None _ _ = Some q\<close> q Some by auto
        note p = wait_paid_round [OF r [unfolded Wait_paid]]
        have "reserved_in W cs paid_engine tok S' w" "holds paid_engine tok S'"
          using p w c assms(2) by (auto simp: reserved_in_def tiers_respected_def same_elsewhere_def holds_def)
        moreover have "paid_engine \<in> set cs" using round_member(2) r Wait_paid by blast
        ultimately show ?thesis using c by auto
      qed
    qed (use Cons.prems r Wait_paid in auto)
  next
    case (Wait_capacity names)
    then show ?thesis using later Cons.prems r by (auto split: sum.splits)
  qed
qed simp

text \<open>
  C17 (safety). A selection respects the tiers and reserves exactly what it returns. Where the paid engine is not itself
  declared a last resort, a provider of the last resort is reserved only if no regular provider is available, even
  if those are only busy or cooling down, and the paid engine only if neither kind is, in the round in which it
  is reserved or in which the wait for it began. The returned provider was selected and not excluded, its processor
  is available in that round, the returned token is its reservation, and no other provider's state differs from the
  one found. If nothing is chosen, nothing was reserved.\<close>

theorem selection_tiers:
  assumes "round_robin_selected_refs W refs ex wait ws S = Some (Inr (One c, S'))" "\<not> is_last_resort_engine W paid_engine"
  shows "case c of
      Some (n, tok) \<Rightarrow> n \<in> set (selected_order W refs) \<and> n \<notin> set ex \<and> holds n tok S' \<and>
        (\<exists>w \<in> set ws. reserved_in W (filter (\<lambda>n. n \<notin> set ex) (selected_order W refs)) n tok S' w)
    | None \<Rightarrow> S' = S \<or> (\<exists>w \<in> set ws. S' = wk_sched w)"
proof -
  let ?cs = "filter (\<lambda>n. n \<notin> set ex) (selected_order W refs)"
  have "c = None \<and> S' = S \<or> selection_loop W wait ?cs ws = Some (Inr (c, S'))"
    using assms(1) by (auto simp: round_robin_selected_refs_def Let_def rbind_Inr_iff split: if_splits)
  then show ?thesis using loop_tiers [OF _ assms(2), of wait ?cs ws c S'] by (auto split: option.splits)
qed

text \<open>All regular providers are suspended: the one of the last resort is reserved.\<close>

definition spilling_wake :: wake where
  "spilling_wake = \<lparr>wk_moment = moment_at 0 1 [''google2'', ''brave2'', ''duckduckgo2'', ''startpage2''], wk_sched = fresh_sched,
     wk_paid = []\<rparr>"

definition all_refs :: "engine_ref list" where
  "all_refs = List.map (\<lambda>n. \<lparr>er_name = n, er_category = ''general''\<rparr>) provider_names"

theorem selection_tiers_witness:
  "\<exists>S. round_robin_selected_refs five_engines all_refs [] True [spilling_wake] fresh_sched =
      Some (Inr (One (Some (''bing2'', 1)), S)) \<and> holds ''bing2'' 1 S \<and>
    reserved_in five_engines (selected_order five_engines all_refs) ''bing2'' 1 S spilling_wake"
proof -
  have no: "\<not> is_last_resort_engine five_engines paid_engine"
    by (simp add: is_last_resort_engine_def five_engines_def paid_engine_def provider_names_def)
  have order: "selected_order five_engines all_refs = provider_names"
    by (simp add: selected_order_def round_robin_providers_def five_engines_def first_ref_def all_refs_def provider_names_def
        paid_engine_def)
  obtain S where "selection_round five_engines True provider_names (wk_moment spilling_wake) (wk_sched spilling_wake) =
      Inr (Chosen ''bing2'' 1, S)"
    by (simp add: selection_round_def regular_tier_def last_resort_tier_def paid_tier_def provider_names_def
        is_last_resort_engine_def five_engines_def processor_available_def moment_at_def paid_engine_def
        reserve_tiers_def reserve_round_robin_engine_def cursor_order_def upt_rec reserve_engine_def spilling_wake_def
        fresh_sched_def pool_init_def new_provider_def reserve_provider_def unavailable_def rbind_def
        Let_def)
  then have S: "round_robin_selected_refs five_engines all_refs [] True [spilling_wake] fresh_sched =
      Some (Inr (One (Some (''bing2'', 1)), S))"
    using order by (simp add: round_robin_selected_refs_def provider_names_def Let_def)
  from selection_tiers [OF this no] S order show ?thesis by auto
qed

lemma build_one:
  "build_requests W m [(n, tok)] [n] S = (Inr (rs, rm), S') \<Longrightarrow> rs = [] \<or> rs = [(n, tok)]"
  by (auto split: if_splits)

lemma map_sum_Inr_cases:
  assumes "map_sum f g x = Inr y" obtains z where "x = Inr z" "y = g z"
  using assms by (cases x) auto

lemma get_requests_one:
  "get_requests W q ex rounds S = Some (Inr (rs, t, rm), S') \<Longrightarrow>
    rs = [] \<or> (\<exists>n tok. rs = [(n, tok)] \<and> n \<notin> set ex \<and> n \<in> set (selected_order W (si_refs q)))"
proof (induction rounds arbitrary: S rs t rm S')
  case (Cons r rounds)
  show ?case
  proof (cases "eligible_refs W q = []")
    case True
    with Cons.prems show ?thesis by simp
  next
    case False
    from Cons.prems False obtain sel S1 where
      sel: "round_robin_selected_refs W (eligible_refs W q) ex True (ar_wakes r) S = Some (Inr (sel, S1))"
      by (auto simp: Let_def split: option.splits sum.splits)
    consider "sel = One None" | n tok where "sel = One (Some (n, tok))"
      using sel selected_all eligible_in_order [OF False] by (cases sel) (auto, metis option.exhaust prod.exhaust)
    then show ?thesis
    proof cases
      case 1
      with Cons.prems sel False show ?thesis by (simp add: Let_def)
    next
      case (2 n tok)
      obtain x S2 where b: "build_requests W (ar_after r) [(n, tok)] [n] (ar_interference r S1) = (x, S2)"
        by fastforce
      show ?thesis
      proof (cases x)
        case (Inl e)
        with Cons.prems sel False 2 b show ?thesis by (simp add: Let_def)
      next
        case (Inr y)
        obtain rs1 rm1 where y: "y = (rs1, rm1)" by fastforce
        show ?thesis
        proof (cases rs1)
          case Nil
          with Cons.prems sel False 2 b Inr y obtain t' rm2 S'' where
            "get_requests W q ex rounds S2 = Some (Inr (rs, t', rm2), S'')"
            by (auto simp: Let_def elim!: map_sum_Inr_cases)
          then show ?thesis by (rule Cons.IH)
        next
          case (Cons c cs)
          with \<open>get_requests W q ex (r # rounds) S = _\<close> sel False 2 b Inr y have "rs = rs1"
            by (simp add: Let_def)
          with Cons build_one [of W "ar_after r" n tok] b Inr y have "rs = [(n, tok)]" by auto
          moreover have "n \<in> set (selected_order W (eligible_refs W q)) \<and> n \<notin> set ex"
            by (rule selected_member [OF sel [unfolded 2]])
          ultimately show ?thesis using eligible_selected [of W q] by auto
        qed
      qed
    qed
  qed
qed simp

lemma search_loop_once:
  assumes "distinct att" and "set att \<subseteq> set (selected_order W (si_refs q))"
    and "search_loop W q att its S = Some (e, att', S')"
  shows "distinct att' \<and> set att' \<subseteq> set (selected_order W (si_refs q))"
  using assms
proof (induction its arbitrary: att S)
  case (Cons i its)
  show ?case
  proof (cases "get_requests W q att (it_rounds i) S")
    case (Some x)
    obtain r S1 where x: "x = (r, S1)" by fastforce
    show ?thesis
    proof (cases r)
      case (Inr y)
      obtain rs t rm where y: "y = (rs, t, rm)" by (cases y)
      from get_requests_one [of W q att "it_rounds i" S rs t rm S1] Some x Inr y
      consider "rs = []" | n tok where "rs = [(n, tok)]" "n \<notin> set att" "n \<in> set (selected_order W (si_refs q))"
        by auto
      then show ?thesis
      proof cases
        case 1
        with Cons.prems Some x Inr y show ?thesis by simp
      next
        case (2 n tok)
        then have "distinct (att @ [n])" "set (att @ [n]) \<subseteq> set (selected_order W (si_refs q))"
          using Cons.prems(1,2) by auto
        with Cons.IH [OF this] Cons.prems(3) Some x Inr y 2 show ?thesis
          by (auto simp: Let_def split: option.splits if_splits)
      qed
    qed (use Cons.prems Some x in simp)
  qed (use Cons.prems in simp)
qed simp

lemma search_loop_returns:
  assumes "distinct att" and "set att \<subseteq> set (selected_order W (si_refs q))"
    and "length (selected_order W (si_refs q)) < length att + length its"
    and "\<And>i att S. i \<in> set its \<Longrightarrow> get_requests W q att (it_rounds i) S \<noteq> None"
  shows "search_loop W q att its S \<noteq> None"
  using assms
proof (induction its arbitrary: att S)
  case Nil
  then have "length att \<le> length (selected_order W (si_refs q))"
    by (metis card_mono distinct_card finite_set selected_order_distinct)
  with Nil.prems(3) show ?case by simp
next
  case (Cons i its)
  obtain r S1 where g: "get_requests W q att (it_rounds i) S = Some (r, S1)"
    using Cons.prems(4) [of i att S] by (cases "get_requests W q att (it_rounds i) S") auto
  show ?case
  proof (cases r)
    case (Inr y)
    obtain rs t rm where y: "y = (rs, t, rm)" by (cases y)
    from get_requests_one [of W q att "it_rounds i" S rs t rm S1] g Inr y
    consider "rs = []" | n tok where "rs = [(n, tok)]" "n \<notin> set att" "n \<in> set (selected_order W (si_refs q))"
      by auto
    then show ?thesis
    proof cases
      case 1
      with g Inr y show ?thesis by simp
    next
      case (2 n tok)
      then have "search_loop W q (att @ [n]) its (it_run i S1) \<noteq> None"
        using Cons.prems by (intro Cons.IH) auto
      with g Inr y 2 show ?thesis by (auto simp: Let_def split: option.splits)
    qed
  qed (use g in simp)
qed

text \<open>
  C19 (termination). A search ends, whatever the attempts yield: as long as every wait for capacity
  ends, it is over after at most one iteration more than there are providers in its pool, and it
  never tries the same provider twice.\<close>

theorem search_tries_each_once:
  assumes "length (selected_order W (si_refs q)) < length its"
    and "\<And>i att S. i \<in> set its \<Longrightarrow> get_requests W q att (it_rounds i) S \<noteq> None"
  shows "\<exists>e attempted S'. search_loop W q [] its S = Some (e, attempted, S') \<and> distinct attempted \<and>
    set attempted \<subseteq> set (selected_order W (si_refs q))"
  using search_loop_returns [of "[]" W q its S] search_loop_once [of "[]" W q its S] assms by fastforce

definition brave_search :: search_input where
  "brave_search = \<lparr>si_refs = [\<lparr>er_name = ''brave2'', er_category = ''general''\<rparr>], si_params = (\<lambda>_. True),
     si_timeout = (\<lambda>_. 60), si_bounds = [None, Some 45]\<rparr>"

definition brave_iteration :: iteration where
  "brave_iteration = \<lparr>it_rounds = [\<lparr>ar_wakes = [\<lparr>wk_moment = moment_at 0 1 [], wk_sched = fresh_sched, wk_paid = []\<rparr>],
     ar_after = moment_at 0 1 [], ar_interference = id\<rparr>], it_run = id, it_raises = None, it_main_results = False\<rparr>"

theorem search_tries_each_once_witness:
  "\<exists>e attempted S'. search_loop five_engines brave_search [] [brave_iteration, brave_iteration] fresh_sched =
      Some (e, attempted, S') \<and> distinct attempted"
proof -
  have order: "selected_order five_engines [\<lparr>er_name = ''brave2'', er_category = ''general''\<rparr>] = [''brave2'']"
    by (simp add: selected_order_def round_robin_providers_def five_engines_def provider_names_def first_ref_def
        paid_engine_def)
  have eligible: "eligible_refs five_engines brave_search = [\<lparr>er_name = ''brave2'', er_category = ''general''\<rparr>]"
    by (simp add: eligible_refs_def brave_search_def order first_ref_def)
      (simp add: five_engines_def provider_names_def)
  have round: "\<exists>S. selection_round five_engines True [''brave2''] (moment_at 0 1 []) fresh_sched = Inr (Chosen ''brave2'' 1, S)"
    by (simp add: selection_round_def regular_tier_def last_resort_tier_def paid_tier_def provider_names_def
        is_last_resort_engine_def five_engines_def processor_available_def moment_at_def paid_engine_def
        reserve_tiers_def reserve_round_robin_engine_def cursor_order_def upt_rec reserve_engine_def
        fresh_sched_def pool_init_def new_provider_def reserve_provider_def unavailable_def rbind_def Let_def)
  have known: "st_processor five_engines ''brave2''" "\<not> mo_suspended (moment_at t k []) ''brave2''" for t k
    by (simp_all add: five_engines_def provider_names_def moment_at_def)
  have "get_requests five_engines brave_search att (it_rounds brave_iteration) S \<noteq> None" for att S
  proof (cases "''brave2'' \<in> set att")
    case True
    then show ?thesis
      by (simp add: brave_iteration_def eligible round_robin_selected_refs_def order Let_def)
  next
    case False
    with round show ?thesis
      by (auto simp: brave_iteration_def eligible round_robin_selected_refs_def order Let_def
          rbind_def known)
  qed
  then show ?thesis
    using search_tries_each_once [of five_engines brave_search "[brave_iteration, brave_iteration]" fresh_sched]
    by (auto simp: brave_search_def order)
qed

text \<open>
  The processing of an attempt settles its admission, whatever the engine does:
  afterwards the reservation it was given is gone. If the lease was granted it has ended, and the
  provider is suspended exactly for the three blocking failures; if it was refused, nothing of
  the pool has changed but that reservation.\<close>

theorem attempt_settles:
  assumes "process_attempt now n tok d outcome work P = (r, P')"
  shows "(tok \<noteq> None \<longrightarrow> (\<forall>p. providers P' n = Some p \<longrightarrow> pv_reservation p \<noteq> tok)) \<and>
    (case r of
       Inr evs \<Rightarrow> (\<forall>p. providers P' n = Some p \<longrightarrow> \<not> pv_active p \<and> pv_deadline p = None) \<and>
         ((\<exists>m. Handled True m \<in> set evs) \<longleftrightarrow> (\<exists>e. outcome = Blocked e))
     | Inl e \<Rightarrow> \<forall>n'. n' \<noteq> n \<longrightarrow> providers P' n' = providers P n')"
  using assms
  by (cases outcome)
    (auto simp: process_attempt_def release_provider_reservation_def provider_lease_exit_def set_provider_def
      provider_capacity_changed_def split: sum.splits option.splits if_splits)

theorem attempt_settles_witness:
  "map_option pv_active (providers (snd (process_attempt 5 ''brave2'' None (Finite 9)
     (outcome_of (Captcha ''x'')) id pool_init)) ''brave2'') = Some False"
proof -
  let ?x = "process_attempt 5 ''brave2'' None (Finite 9) (outcome_of (Captcha ''x'')) id pool_init"
  have "\<exists>evs. fst ?x = Inr evs" "providers (snd ?x) ''brave2'' \<noteq> None"
    by (simp_all add: process_attempt_def pool_ops pool_init_def provider_names_def new_provider_def)
  then show ?thesis
    using attempt_settles [of 5 "''brave2''" None "Finite 9" "outcome_of (Captcha ''x'')" id pool_init
        "fst ?x" "snd ?x"]
    by auto
qed

end
