(* ===== verification/Result_Scoring.thy ===== *)
theory Result_Scoring
  imports Round_Robin "HOL-Library.Product_Lexorder" "HOL-Library.Multiset"
begin

text \<open>
  Scoring and ordering of \<open>src/searxng/patches/sitecustomize.py\<close>: an engine of the last resort
  confirms what regular engines found but never outranks it. Floats are rationals; what
  SearXNG's own \<open>calculate_score\<close> and \<open>merge_two_main_results\<close> return is an argument.
\<close>

section \<open>Scores\<close>

definition float_engine_attr :: "site \<Rightarrow> number_attr \<Rightarrow> rat \<Rightarrow> rat py" where
  "float_engine_attr W a fallback = (case a of
     Missing \<Rightarrow> Inr fallback
   | Number x \<Rightarrow> Inr x
   | No_number \<Rightarrow> (if st_strict W then Inl (RuntimeError ''engine has invalid attribute'') else Inr fallback))"

fun weight_product :: "site \<Rightarrow> pystr list \<Rightarrow> rat \<Rightarrow> rat py" where
  "weight_product W [] w = Inr w"
| "weight_product W (n # ns) w = (case st_engines W n of
     None \<Rightarrow> weight_product W ns w
   | Some e \<Rightarrow> (if eg_weight e = Missing then weight_product W ns w
       else rbind (float_engine_attr W (eg_weight e) 1) (\<lambda>x. weight_product W ns (w * x))))"

definition position_sum :: "pystr \<Rightarrow> rat \<Rightarrow> int list \<Rightarrow> rat" where
  "position_sum priority w ps =
     (if priority = ''high'' then sum_list (map (\<lambda>_. w) ps)
      else sum_list (map (\<lambda>p. w / of_int p) (filter (\<lambda>p. p > 0) ps)))"

definition score_positions :: "site \<Rightarrow> pystr list \<Rightarrow> int list \<Rightarrow> pystr \<Rightarrow> rat py" where
  "score_positions W names ps priority =
     (if priority = ''low'' \<or> ps = [] then Inr 0
      else rbind (weight_product W names 1) (\<lambda>w. Inr (position_sum priority (w * of_nat (length ps)) ps)))"

text \<open>\<open>engine_positions\<close> is a dictionary from engine names to the positions of the result.\<close>

type_synonym positions = "(pystr \<times> int list) list"

fun last_resort_sum :: "site \<Rightarrow> pystr \<Rightarrow> positions \<Rightarrow> rat \<Rightarrow> rat py" where
  "last_resort_sum W priority [] score = Inr score"
| "last_resort_sum W priority ((n, ps) # rest) score =
     (if ps = [] then last_resort_sum W priority rest score
      else case st_engines W n of
        None \<Rightarrow> last_resort_sum W priority rest score
      | Some e \<Rightarrow>
          rbind (float_engine_attr W (eg_weight e) (5 / 100)) (\<lambda>w0.
          rbind (float_engine_attr W (eg_fallback_weight e) w0) (\<lambda>w.
          last_resort_sum W priority rest (score + position_sum priority (w * of_nat (length ps)) ps))))"

definition score_last_resort_only :: "site \<Rightarrow> positions \<Rightarrow> pystr \<Rightarrow> rat py" where
  "score_last_resort_only W eps priority =
     (if priority = ''low'' then Inr 0 else last_resort_sum W priority eps 0)"

fun confirmation_bonus :: "site \<Rightarrow> positions \<Rightarrow> rat py" where
  "confirmation_bonus W [] = Inr 0"
| "confirmation_bonus W ((n, ps) # rest) =
     (if ps = [] then confirmation_bonus W rest
      else case st_engines W n of
        None \<Rightarrow> confirmation_bonus W rest
      | Some e \<Rightarrow> rbind (float_engine_attr W (eg_confirmation_bonus e) (15 / 100)) (\<lambda>b.
          rbind (confirmation_bonus W rest) (\<lambda>c. Inr (b + c))))"

definition last_resort_part :: "site \<Rightarrow> positions \<Rightarrow> positions" where
  "last_resort_part W eps = filter (\<lambda>(n, _). is_last_resort_engine W n) eps"

definition regular_part :: "site \<Rightarrow> positions \<Rightarrow> positions" where
  "regular_part W eps = filter (\<lambda>(n, _). \<not> is_last_resort_engine W n) eps"

definition score_with_last_resort :: "site \<Rightarrow> (pystr \<Rightarrow> rat py) \<Rightarrow> pystr \<Rightarrow> positions \<Rightarrow> rat py" where
  "score_with_last_resort W stock priority eps =
     (let fallback = last_resort_part W eps; regular = regular_part W eps; ps = concat (map snd regular) in
      if fallback = [] then stock priority
      else if ps = [] then score_last_resort_only W fallback priority
      else rbind (score_positions W (map fst regular) ps priority) (\<lambda>s.
        if s \<le> 0 then Inr s
        else rbind (confirmation_bonus W fallback) (\<lambda>b. Inr (s * (1 + b)))))"

section \<open>The result container\<close>

record result =
  rs_hash :: int
  rs_engine :: pystr
  rs_engines :: "pystr list"
  rs_positions :: "int list"
  rs_priority :: pystr
  rs_score :: rat

record container =
  ct_results :: "(int \<times> result) list"
  ct_positions :: "(int \<times> positions) list"
  ct_closed :: bool

text \<open>\<open>d.setdefault(k, x)\<close> followed by an update of the entry.\<close>

fun upsert :: "'k \<Rightarrow> 'v \<Rightarrow> ('v \<Rightarrow> 'v) \<Rightarrow> ('k \<times> 'v) list \<Rightarrow> ('k \<times> 'v) list" where
  "upsert k d f [] = [(k, f d)]"
| "upsert k d f ((k', v) # xs) = (if k' = k then (k, f v) # xs else (k', v) # upsert k d f xs)"

definition merge_main_result :: "(result \<Rightarrow> result \<Rightarrow> result) \<Rightarrow> result \<Rightarrow> int \<Rightarrow> container \<Rightarrow> container" where
  "merge_main_result merge2 r position C =
     (let h = rs_hash r;
          by_hash = upsert h [] (upsert (rs_engine r) [] (\<lambda>ps. ps @ [position])) (ct_positions C)
      in case map_of (ct_results C) h of
        None \<Rightarrow> C\<lparr>ct_positions := by_hash, ct_results := ct_results C @ [(h, r\<lparr>rs_positions := [position]\<rparr>)]\<rparr>
      | Some m \<Rightarrow>
          (let merged = merge2 m r
           in C\<lparr>ct_positions := by_hash,
                ct_results := upsert h m (\<lambda>_. merged\<lparr>rs_positions := rs_positions merged @ [position]\<rparr>) (ct_results C)\<rparr>))"

text \<open>The scores \<open>_patched_close\<close> computes; \<open>stock\<close> scores a result as SearXNG does.\<close>

definition result_engine_positions :: "container \<Rightarrow> int \<Rightarrow> result \<Rightarrow> positions" where
  "result_engine_positions C h r =
     (case map_of (ct_positions C) h of
        Some (x # xs) \<Rightarrow> x # xs
      | _ \<Rightarrow> map (\<lambda>n. (n, rs_positions r)) (rs_engines r))"

definition close_container :: "site \<Rightarrow> (result \<Rightarrow> pystr \<Rightarrow> rat py) \<Rightarrow> container \<Rightarrow> container py" where
  "close_container W stock C =
     rbind (rmapM (\<lambda>(h, r). rbind (score_with_last_resort W (stock r) (rs_priority r) (result_engine_positions C h r))
         (\<lambda>s. Inr (h, r\<lparr>rs_score := s\<rparr>))) (ct_results C)) (\<lambda>rs.
     Inr (C\<lparr>ct_closed := True, ct_results := rs\<rparr>))"

text \<open>
  The key of \<open>get_ordered_results\<close>. It sorts with \<open>reverse=True\<close>, which keeps equal results in
  their order, so the model sorts by the reversed key.
\<close>

definition found_regularly :: "site \<Rightarrow> result \<Rightarrow> bool" where
  "found_regularly W r \<longleftrightarrow> list_ex (\<lambda>n. \<not> is_last_resort_engine W n) (rs_engines r)"

definition ordered_results :: "site \<Rightarrow> result list \<Rightarrow> result list" where
  "ordered_results W = sort_key (\<lambda>r. (\<not> found_regularly W r, - rs_score r))"

section \<open>Properties\<close>

text \<open>
  The order of the results never lets an engine of the last resort outrank a regular
  one: it is a permutation of the results, in it every result some regular engine found comes
  before every result only last-resort engines found, whatever the scores, and within either
  group the scores do not increase.\<close>

theorem last_resort_below_regular:
  "mset (ordered_results W rs) = mset rs \<and>
   sorted_wrt (\<lambda>r r'. (found_regularly W r' \<longrightarrow> found_regularly W r) \<and>
     ((found_regularly W r \<longleftrightarrow> found_regularly W r') \<longrightarrow> rs_score r' \<le> rs_score r)) (ordered_results W rs)"
proof -
  have "sorted_wrt (\<lambda>r r'. (\<not> found_regularly W r, - rs_score r) \<le> (\<not> found_regularly W r', - rs_score r'))
      (ordered_results W rs)"
    using sorted_sort_key [of "\<lambda>r. (\<not> found_regularly W r, - rs_score r)" rs]
    by (simp add: ordered_results_def sorted_map)
  then show ?thesis
    by (auto simp: ordered_results_def less_eq_prod_def elim!: sorted_wrt_mono_rel [rotated])
qed

definition result_of :: "pystr \<Rightarrow> rat \<Rightarrow> result" where
  "result_of n s = \<lparr>rs_hash = 0, rs_engine = n, rs_engines = [n], rs_positions = [1], rs_priority = [], rs_score = s\<rparr>"

theorem last_resort_below_regular_witness:
  "mset (ordered_results five_engines [result_of ''bing2'' 9, result_of ''brave2'' 1]) =
     mset [result_of ''bing2'' 9, result_of ''brave2'' 1] \<and>
   ordered_results five_engines [result_of ''bing2'' 9, result_of ''brave2'' 1] =
     [result_of ''brave2'' 1, result_of ''bing2'' 9]"
proof
  show "ordered_results five_engines [result_of ''bing2'' 9, result_of ''brave2'' 1] =
     [result_of ''brave2'' 1, result_of ''bing2'' 9]"
    by (simp add: ordered_results_def found_regularly_def is_last_resort_engine_def five_engines_def result_of_def
        provider_names_def)
qed (rule last_resort_below_regular [THEN conjunct1])

text \<open>A result carries a position exactly for each time an engine reported it.\<close>

lemma map_of_upsert: "map_of (upsert k d f xs) k' =
    (if k' = k then Some (f (case map_of xs k of None \<Rightarrow> d | Some v \<Rightarrow> v)) else map_of xs k')"
  by (induction xs) auto

lemma positions_upsert:
  "mset (concat (map snd (upsert n [] (\<lambda>ps. ps @ [p]) eps))) = add_mset p (mset (concat (map snd eps)))"
  by (induction eps) auto

definition positions_agree :: "container \<Rightarrow> bool" where
  "positions_agree C \<longleftrightarrow> (\<forall>h. case map_of (ct_results C) h of
     None \<Rightarrow> map_of (ct_positions C) h = None
   | Some r \<Rightarrow> \<exists>eps. map_of (ct_positions C) h = Some eps \<and> mset (rs_positions r) = mset (concat (map snd eps)))"

definition empty_container :: container where
  "empty_container = \<lparr>ct_results = [], ct_positions = [], ct_closed = False\<rparr>"

lemma merge_agrees:
  assumes "\<And>a b. rs_positions (merge2 a b) = rs_positions a" and "positions_agree C"
  shows "positions_agree (merge_main_result merge2 r p C)"
  unfolding positions_agree_def
proof
  fix h
  note C = assms(2) [unfolded positions_agree_def, rule_format, of "rs_hash r"]
    assms(2) [unfolded positions_agree_def, rule_format, of h]
  show "case map_of (ct_results (merge_main_result merge2 r p C)) h of
      None \<Rightarrow> map_of (ct_positions (merge_main_result merge2 r p C)) h = None
    | Some x \<Rightarrow> \<exists>eps. map_of (ct_positions (merge_main_result merge2 r p C)) h = Some eps \<and>
        mset (rs_positions x) = mset (concat (map snd eps))"
    using C
    by (auto simp: merge_main_result_def Let_def map_of_upsert positions_upsert assms(1)
        map_add_def split: option.splits)
qed

text \<open>
  However the results of several engines arrive and merge, a result's list of
  positions holds one entry for each engine that reported it, each time it did, so the
  per-engine positions the scoring divides among the tiers are exactly the merged ones;
  SearXNG's own merge of two results is assumed to keep the positions of the first.\<close>

theorem merged_positions_kept:
  assumes "\<And>a b. rs_positions (merge2 a b) = rs_positions a"
  shows "positions_agree (fold (\<lambda>(r, p). merge_main_result merge2 r p) arrivals empty_container)"
proof -
  have "positions_agree (fold (\<lambda>(r, p). merge_main_result merge2 r p) arrivals C)" if "positions_agree C" for C
    using that
  proof (induction arrivals arbitrary: C)
    case (Cons x arrivals)
    then show ?case by (cases x) (simp add: merge_agrees [OF assms])
  qed simp
  moreover have "positions_agree empty_container" by (simp add: positions_agree_def empty_container_def)
  ultimately show ?thesis by blast
qed

theorem merged_positions_kept_witness:
  "positions_agree (fold (\<lambda>(r, p). merge_main_result (\<lambda>a b. a) r p)
     [(\<lparr>rs_hash = 7, rs_engine = ''brave2'', rs_engines = [''brave2''], rs_positions = [], rs_priority = [], rs_score = 0\<rparr>, 1),
      (\<lparr>rs_hash = 7, rs_engine = ''bing2'', rs_engines = [''bing2''], rs_positions = [], rs_priority = [], rs_score = 0\<rparr>, 3)]
     empty_container)"
  by (rule merged_positions_kept) simp

text \<open>Only whether a last-resort engine reported the result enters its bonus.\<close>

lemma bonus_reported:
  "map (\<lambda>(n, ps). (n, ps = [])) a = map (\<lambda>(n, ps). (n, ps = [])) b \<Longrightarrow> confirmation_bonus W a = confirmation_bonus W b"
proof (induction a arbitrary: b)
  case (Cons x a)
  from Cons.prems obtain y b' where "b = y # b'" by (cases b) auto
  with Cons show ?case by (cases x; cases y) (auto split: option.splits)
qed simp

lemma last_resort_reported:
  "map (\<lambda>(n, ps). (n, ps = [])) a = map (\<lambda>(n, ps). (n, ps = [])) b \<Longrightarrow>
    map (\<lambda>(n, ps). (n, ps = [])) (last_resort_part W a) = map (\<lambda>(n, ps). (n, ps = [])) (last_resort_part W b)"
  unfolding last_resort_part_def
proof (induction a arbitrary: b)
  case (Cons x a)
  from Cons.prems obtain y b' where "b = y # b'" by (cases b) auto
  with Cons show ?case by (cases x; cases y) auto
qed simp

definition bonus_nonneg :: "engine \<Rightarrow> bool" where
  "bonus_nonneg e = (case eg_confirmation_bonus e of Number x \<Rightarrow> 0 \<le> x | _ \<Rightarrow> True)"

lemma bonus_ge_0:
  "confirmation_bonus W eps = Inr b \<Longrightarrow> \<forall>e \<in> ran (st_engines W). bonus_nonneg e \<Longrightarrow> 0 \<le> b"
proof (induction eps arbitrary: b)
  case (Cons x eps)
  then show ?case
    by (cases x) (auto simp: rbind_Inr_iff float_engine_attr_def bonus_nonneg_def ran_def
        split: if_splits option.splits number_attr.splits intro!: add_nonneg_nonneg)
qed simp

lemma score_confirmed:
  "last_resort_part W eps \<noteq> [] \<Longrightarrow> concat (map snd (regular_part W eps)) \<noteq> [] \<Longrightarrow>
    score_with_last_resort W stock priority eps =
      rbind (score_positions W (map fst (regular_part W eps)) (concat (map snd (regular_part W eps))) priority)
        (\<lambda>s. if s \<le> 0 then Inr s
          else rbind (confirmation_bonus W (last_resort_part W eps)) (\<lambda>b. Inr (s * (1 + b))))"
  by (simp add: score_with_last_resort_def Let_def del: concat_eq_Nil_conv)

text \<open>
  An engine of the last resort confirms a result without poisoning it: once a
  regular engine has found the result, its score does not depend on the positions the
  last-resort engines give it, only on which of them reported it, and with bonuses that are not
  negative it is never lower than the score of the regular engines alone.\<close>

theorem confirmation_only_raises:
  assumes "regular_part W eps = regular_part W eps'"
    and "map (\<lambda>(n, ps). (n, ps = [])) eps = map (\<lambda>(n, ps). (n, ps = [])) eps'"
    and "concat (map snd (regular_part W eps)) \<noteq> []"
    and "\<forall>e \<in> ran (st_engines W). bonus_nonneg e"
  shows "score_with_last_resort W stock priority eps = score_with_last_resort W stock priority eps' \<and>
    (\<forall>s s0. last_resort_part W eps \<noteq> [] \<longrightarrow> score_with_last_resort W stock priority eps = Inr s \<longrightarrow>
      score_positions W (map fst (regular_part W eps)) (concat (map snd (regular_part W eps))) priority = Inr s0 \<longrightarrow>
      s0 \<le> s)"
proof
  note parts = last_resort_reported [OF assms(2), of W]
  from parts [THEN arg_cong, of length] have "length (last_resort_part W eps) = length (last_resort_part W eps')" by simp
  then have "last_resort_part W eps = [] \<longleftrightarrow> last_resort_part W eps' = []"
    by (simp flip: length_0_conv)
  then show "score_with_last_resort W stock priority eps = score_with_last_resort W stock priority eps'"
    using bonus_reported [OF parts, of W] assms(1,3)
    by (simp add: score_with_last_resort_def Let_def del: concat_eq_Nil_conv cong: if_cong)
  have "s0 \<le> s" if "last_resort_part W eps \<noteq> []" "score_with_last_resort W stock priority eps = Inr s"
    "score_positions W (map fst (regular_part W eps)) (concat (map snd (regular_part W eps))) priority = Inr s0" for s s0
  proof -
    from that(2) have "s = s0 \<and> s0 \<le> 0 \<or>
        (\<exists>b. confirmation_bonus W (last_resort_part W eps) = Inr b \<and> s = s0 * (1 + b) \<and> \<not> s0 \<le> 0)"
      unfolding score_confirmed [OF that(1) assms(3)] that(3) by (auto simp: rbind_Inr_iff split: if_splits)
    then show ?thesis using bonus_ge_0 [OF _ assms(4)] by (auto simp: algebra_simps)
  qed
  then show "\<forall>s s0. last_resort_part W eps \<noteq> [] \<longrightarrow> score_with_last_resort W stock priority eps = Inr s \<longrightarrow>
      score_positions W (map fst (regular_part W eps)) (concat (map snd (regular_part W eps))) priority = Inr s0 \<longrightarrow>
      s0 \<le> s"
    by blast
qed

theorem confirmation_only_raises_witness:
  "score_with_last_resort five_engines (\<lambda>_. Inr 0) ''high'' [(''brave2'', [2]), (''bing2'', [1])] =
     score_with_last_resort five_engines (\<lambda>_. Inr 0) ''high'' [(''brave2'', [2]), (''bing2'', [9])]"
proof -
  have "\<forall>e \<in> ran (st_engines five_engines). bonus_nonneg e"
    by (auto simp: five_engines_def ran_def bonus_nonneg_def split: if_splits)
  then show ?thesis
    using confirmation_only_raises [of five_engines "[(''brave2'', [2]), (''bing2'', [1])]"
        "[(''brave2'', [2]), (''bing2'', [9])]" "\<lambda>_. Inr 0" "''high''"]
    by (simp add: regular_part_def is_last_resort_engine_def five_engines_def provider_names_def)
qed

end
