(* ===== verification/X402_Config.thy ===== *)
theory X402_Config
  imports PyText
begin

text \<open>
  The validation of the configured payment key, \<open>src/searxng/patches/x402_config.py\<close>: it is
  shared by the wrapper's start-up checks and by the paid search engine.
\<close>

definition curve_order :: nat where
  "curve_order = 0xFFFFFFFFFFFFFFFFFFFFFFFFFFFFFFFEBAAEDCE6AF48A03BBFD25E8CD0364141"

definition x402_enabled :: "pystr option \<Rightarrow> pystr \<Rightarrow> bool py" where
  "x402_enabled key round_robin = (case key of
     None \<Rightarrow> Inr False
   | Some k \<Rightarrow>
       (let digits = (if starts_with k ''0x'' then drop 2 k else k)
        in if k = [] then Inr False
           else if length digits \<noteq> 64 \<or> \<not> list_all is_hex digits \<or> hex_nat digits = 0 \<or> curve_order \<le> hex_nat digits
           then Inl (ValueError ''invalid SEARXNG_X402_PRIVKEY'')
           else if py_lower round_robin \<notin> {''true'', ''1'', ''yes'', ''on''}
           then Inl (ValueError ''x402exa requires SEARXNG_ROUND_ROBIN=true'')
           else Inr True))"

end
