(* ===== verification/X402_Payment.thy ===== *)
theory X402_Payment
  imports X402_Admission Obscura_Policy X402_Config
begin

text \<open>
  The paid API engine: \<open>src/searxng/engines/_x402_payment.py\<close>, one exchange of at most two
  requests, and \<open>x402exa.py\<close>, the processing of an attempt. The HTTP client, the x402 SDK, the
  HTML library and the clock are arguments; what the code does, including the fields of the
  outcome and the cached requirements it sets, is the log of its steps.
\<close>

section \<open>Terms of payment\<close>

record offer =
  of_scheme :: pystr
  of_network :: pystr
  of_asset :: pystr
  of_extra :: "(pystr \<times> json) list"

record requirements =
  rq_version :: int
  rq_resource :: "pystr option"
  rq_accepts :: "offer list"
  rq_extensions :: bool

definition endpoint :: pystr where
  "endpoint = ''https://api.exa.ai/search''"

definition pay_network :: pystr where
  "pay_network = ''eip155:8453''"

definition pay_asset :: pystr where
  "pay_asset = ''0x833589fCD6eDb6E08f4c7C32D4f71b54bdA02913''"

definition supported_offer :: "offer \<Rightarrow> bool" where
  "supported_offer f \<longleftrightarrow>
     of_scheme f = ''exact'' \<and> of_network f = pay_network \<and> py_lower (of_asset f) = py_lower pay_asset \<and>
     jget (of_extra f) ''assetTransferMethod'' \<in> {JNull, JStr ''eip3009''} \<and>
     jget (of_extra f) ''paymentFlow'' \<in> {JNull, JStr ''authorization''} \<and>
     (map_of (of_extra f) ''name'' = None \<or>
      map_of (of_extra f) ''name'' = Some (JStr ''USD Coin'') \<and>
      (case map_of (of_extra f) ''version'' of None \<Rightarrow> False | Some v \<Rightarrow> v = JStr ''2''))"

section \<open>The exchange\<close>

datatype pay_exn = Deadline_passed | Value_exn pystr | Runtime_exn pystr | Raised_exn pystr | Cancelled_exn

datatype pay_step =
    Start_recorded
  | Unsigned_post
  | Signed_post
  | Reason pystr
  | Suspension rat
  | Submission
  | Payment pystr
  | Requirements_set "requirements option"

type_synonym 'a pay = "(pay_step, pay_exn, 'a) eff"

record response =
  rp_status :: int
  rp_header :: "pystr \<Rightarrow> pystr option"
  rp_read :: "pay_exn + unit"
  rp_json :: "pay_exn + json"

text \<open>
  What the exchange meets: whether the deadline has passed at its \<open>n\<close>-th check, what recording
  the start, the two requests and the SDK's functions return, the date parser of a
  \<open>retry-after\<close> header (\<open>None\<close>: it raises).
\<close>

record pay_env =
  pe_late :: "nat \<Rightarrow> bool"
  pe_start :: "pay_exn + unit"
  pe_discovery :: "pay_exn + response"
  pe_paid :: "pay_exn + response"
  pe_header :: "pystr option \<Rightarrow> pay_exn + requirements"
  pe_select :: "offer list \<Rightarrow> pay_exn + offer"
  pe_sign :: "requirements \<Rightarrow> pay_exn + pystr"
  pe_receipt :: "pystr option \<Rightarrow> pay_exn + bool"
  pe_date :: "pystr \<Rightarrow> rat option"

definition check_deadline :: "pay_env \<Rightarrow> nat \<Rightarrow> unit pay" where
  "check_deadline E k = (if pe_late E k then io_raise Deadline_passed else io_ret ())"

definition retry_after :: "pay_env \<Rightarrow> pystr option \<Rightarrow> rat" where
  "retry_after E value =
     (let delay = (case value of
          None \<Rightarrow> 60
        | Some v \<Rightarrow> (case py_int v of
            Inr n \<Rightarrow> of_int n
          | Inl _ \<Rightarrow> (case pe_date E v of None \<Rightarrow> 60 | Some d \<Rightarrow> d)))
      in max 60 (min 3600 delay))"

definition classify_status :: "pay_env \<Rightarrow> bool \<Rightarrow> response \<Rightarrow> unit pay" where
  "classify_status E submitted r = io_emit
     (if rp_status r = 429 then [Reason ''rate_limited'', Suspension (retry_after E (rp_header r ''retry-after''))]
      else if rp_status r \<in> {401, 403} then [Reason ''provider_unavailable'', Suspension 3600]
      else if rp_status r = 402 \<and> submitted then [Reason ''payment_rejected'']
      else [])"

text \<open>\<open>PaymentClient.decode\<close>: the policy registered with the SDK filters the offers.\<close>

definition decode_requirements :: "pay_env \<Rightarrow> pystr option \<Rightarrow> pay_exn + requirements" where
  "decode_requirements E header =
     rbind (pe_header E header) (\<lambda>r.
     if rq_version r \<noteq> 2 \<or> (case rq_resource r of None \<Rightarrow> False | Some u \<Rightarrow> u \<noteq> endpoint)
     then Inl (Value_exn ''unsupported_payment_policy'')
     else rbind (pe_select E (filter supported_offer (rq_accepts r))) (\<lambda>_.
       Inr (r\<lparr>rq_extensions := False\<rparr>)))"

definition rejected_terms :: "pay_env \<Rightarrow> pystr option \<Rightarrow> unit pay" where
  "rejected_terms E header =
     io_bind (io_emit [Requirements_set None]) (\<lambda>_.
     case header of
       None \<Rightarrow> io_ret ()
     | Some h \<Rightarrow> (if h = [] then io_ret ()
         else io_emit [Requirements_set (case decode_requirements E header of Inl _ \<Rightarrow> None | Inr r \<Rightarrow> Some r)]))"

text \<open>The body of an accepted response, with a deadline check after each part.\<close>

definition read_result :: "pay_env \<Rightarrow> nat \<Rightarrow> response \<Rightarrow> json pay" where
  "read_result E k r =
     io_bind (io_emit [Reason ''invalid_response'']) (\<lambda>_.
     io_bind (io_lift (rp_read r)) (\<lambda>_.
     io_bind (check_deadline E k) (\<lambda>_.
     io_bind (io_lift (rp_json r)) (\<lambda>data.
     io_bind (check_deadline E (Suc k)) (\<lambda>_. io_ret data)))))"

definition start_recorded :: "pay_env \<Rightarrow> unit pay" where
  "start_recorded E = io_bind (io_lift (pe_start E)) (\<lambda>_. io_emit [Start_recorded])"

definition discover :: "pay_env \<Rightarrow> (json + requirements) pay" where
  "discover E =
     io_bind (check_deadline E 1) (\<lambda>_.
     io_bind (start_recorded E) (\<lambda>_.
     io_bind (io_emit [Unsigned_post]) (\<lambda>_.
     io_bind (io_lift (pe_discovery E)) (\<lambda>r.
     io_bind (classify_status E False r) (\<lambda>_.
     if rp_status r = 200 then io_bind (read_result E 2 r) (\<lambda>data. io_ret (Inl data))
     else if rp_status r \<noteq> 402 then io_raise (Value_exn ''discovery_failed'')
     else
       io_bind (io_emit [Reason ''invalid_response'']) (\<lambda>_.
       io_bind (check_deadline E 4) (\<lambda>_.
       io_bind (io_lift (decode_requirements E (rp_header r ''PAYMENT-REQUIRED''))) (\<lambda>terms.
       io_bind (io_emit [Requirements_set (Some terms)]) (\<lambda>_.
       io_bind (check_deadline E 5) (\<lambda>_. io_ret (Inr terms)))))))))))"

definition paid_response :: "pay_env \<Rightarrow> response \<Rightarrow> json pay" where
  "paid_response E r =
     io_bind (classify_status E True r) (\<lambda>_.
     case pe_receipt E (rp_header r ''PAYMENT-RESPONSE'') of
       Inl e \<Rightarrow>
         io_bind (if rp_status r = 402 then rejected_terms E (rp_header r ''PAYMENT-REQUIRED'') else io_ret ())
           (\<lambda>_. io_raise e)
     | Inr success \<Rightarrow>
         io_bind (io_emit [Payment (if success then ''reported_success'' else ''reported_rejection'')]) (\<lambda>_.
         if rp_status r = 402 \<or> \<not> success
         then io_bind (rejected_terms E (rp_header r ''PAYMENT-REQUIRED'')) (\<lambda>_.
              io_bind (io_emit (if rp_status r \<notin> {401, 403, 429} then [Reason ''payment_rejected''] else [])) (\<lambda>_.
              io_raise (Value_exn ''payment_rejected'')))
         else if \<not> (200 \<le> rp_status r \<and> rp_status r \<le> 299) then io_raise (Value_exn ''paid_response_failed'')
         else read_result E 9 r))"

definition pay_terms :: "pay_env \<Rightarrow> bool \<Rightarrow> requirements \<Rightarrow> json pay" where
  "pay_terms E cold terms =
     io_bind (check_deadline E 6) (\<lambda>_.
     io_bind (io_lift (pe_sign E terms)) (\<lambda>_.
     io_bind (check_deadline E 7) (\<lambda>_.
     io_bind (if cold then io_ret () else start_recorded E) (\<lambda>_.
     io_bind (check_deadline E 8) (\<lambda>_.
     io_bind (io_emit [Submission, Payment ''unknown'', Reason ''payment_status_unknown'', Signed_post]) (\<lambda>_.
     io_bind (io_lift (pe_paid E)) (paid_response E)))))))"

text \<open>\<open>cached\<close> are the requirements kept from an earlier exchange.\<close>

definition exchange :: "pay_env \<Rightarrow> requirements option \<Rightarrow> json pay" where
  "exchange E cached =
     io_bind (check_deadline E 0) (\<lambda>_.
     case cached of
       Some terms \<Rightarrow> pay_terms E False terms
     | None \<Rightarrow> io_bind (discover E) (\<lambda>found. case found of
         Inl data \<Rightarrow> io_ret data
       | Inr terms \<Rightarrow> pay_terms E True terms))"

section \<open>The outcome\<close>

record pay_outcome =
  oc_submitted :: bool
  oc_payment :: pystr
  oc_reason :: pystr
  oc_suspension :: "rat option"

definition outcome_init :: pay_outcome where
  "outcome_init = \<lparr>oc_submitted = False, oc_payment = ''not_submitted'', oc_reason = ''provider_unavailable'',
     oc_suspension = None\<rparr>"

fun outcome_step :: "pay_step \<Rightarrow> pay_outcome \<Rightarrow> pay_outcome" where
  "outcome_step (Reason r) oc = oc\<lparr>oc_reason := r\<rparr>"
| "outcome_step (Suspension s) oc = oc\<lparr>oc_suspension := Some s\<rparr>"
| "outcome_step Submission oc = oc\<lparr>oc_submitted := True\<rparr>"
| "outcome_step (Payment p) oc = oc\<lparr>oc_payment := p\<rparr>"
| "outcome_step _ oc = oc"

definition outcome_after :: "pay_step list \<Rightarrow> pay_outcome" where
  "outcome_after steps = fold outcome_step steps outcome_init"

fun terms_step :: "pay_step \<Rightarrow> requirements option \<Rightarrow> requirements option" where
  "terms_step (Requirements_set r) _ = r"
| "terms_step _ r = r"

definition terms_after :: "pay_step list \<Rightarrow> requirements option \<Rightarrow> requirements option" where
  "terms_after steps r = fold terms_step steps r"

section \<open>The results\<close>

record paid_result =
  pr_url :: pystr
  pr_title :: pystr
  pr_content :: pystr

fun all_strings :: "json list \<Rightarrow> pystr list option" where
  "all_strings [] = Some []"
| "all_strings (JStr s # xs) = map_option ((#) s) (all_strings xs)"
| "all_strings _ = None"

definition invalid_row :: pay_exn where
  "invalid_row = Value_exn ''invalid_row''"

text \<open>\<open>plain\<close> is the text of an HTML fragment; a URL that is no string never normalizes.\<close>

definition result_url :: "codec \<Rightarrow> json \<Rightarrow> pay_exn + pystr" where
  "result_url u value = (case value of
     JStr url \<Rightarrow> (case normalize_public_url u True False url of
         Inl _ \<Rightarrow> Inl (Value_exn ''invalid_result_url'')
       | Inr (n, fragment) \<Rightarrow> Inr (n @ (case fragment of None \<Rightarrow> [] | Some f \<Rightarrow> CHR ''#'' # f)))
   | _ \<Rightarrow> Inl (Value_exn ''invalid_result_url''))"

definition parse_row :: "codec \<Rightarrow> (pystr \<Rightarrow> pay_exn + pystr) \<Rightarrow> json \<Rightarrow> pay_exn + paid_result" where
  "parse_row u plain row = (case row of
     JObj members \<Rightarrow>
       (case (jget members ''title'', jget members ''highlights'') of
          (JStr title, JList hs) \<Rightarrow>
            (case all_strings hs of
               None \<Rightarrow> Inl invalid_row
             | Some texts \<Rightarrow>
                 if texts = [] then Inl invalid_row
                 else
                   rbind (plain title) (\<lambda>t. rbind (rmapM plain texts) (\<lambda>ss.
                   let t = py_strip t; s = take 2000 (py_strip (join '' '' (map py_strip ss))) in
                   if t = [] \<or> s = [] then Inl invalid_row
                   else rbind (result_url u (jget members ''url'')) (\<lambda>url.
                     Inr \<lparr>pr_url = url, pr_title = t, pr_content = s\<rparr>))))
        | _ \<Rightarrow> Inl invalid_row)
   | _ \<Rightarrow> Inl invalid_row)"

fun parse_rows ::
  "codec \<Rightarrow> (pystr \<Rightarrow> pay_exn + pystr) \<Rightarrow> json list \<Rightarrow> paid_result list \<Rightarrow> nat \<Rightarrow> pay_exn + (paid_result list \<times> nat)" where
  "parse_rows u plain [] rs bad = Inr (rs, bad)"
| "parse_rows u plain (row # rows) rs bad =
     (case parse_row u plain row of
        Inr r \<Rightarrow> (if length (rs @ [r]) = 10 then Inr (rs @ [r], bad) else parse_rows u plain rows (rs @ [r]) bad)
      | Inl (Value_exn _) \<Rightarrow> (if length rs = 10 then Inr (rs, Suc bad) else parse_rows u plain rows rs (Suc bad))
      | Inl e \<Rightarrow> Inl e)"

definition parse_results :: "codec \<Rightarrow> (pystr \<Rightarrow> pay_exn + pystr) \<Rightarrow> json \<Rightarrow> pay_exn + paid_result list" where
  "parse_results u plain data = (case data of
     JObj members \<Rightarrow> (case jget members ''results'' of
         JList rows \<Rightarrow> rbind (parse_rows u plain rows [] 0) (\<lambda>(rs, bad).
           if bad > 0 \<and> rs = [] then Inl (Value_exn ''invalid_response'') else Inr rs)
       | _ \<Rightarrow> Inl (Value_exn ''invalid_response''))
   | _ \<Rightarrow> Inl (Value_exn ''invalid_response''))"

section \<open>Processing an attempt\<close>

text \<open>
  \<open>search\<close> of \<open>x402exa.py\<close>; \<open>client\<close> is the configured payment client with its cached requirements.
\<close>

definition paid_search ::
  "pay_env \<Rightarrow> codec \<Rightarrow> (pystr \<Rightarrow> pay_exn + pystr) \<Rightarrow> requirements option option \<Rightarrow> paid_result list pay" where
  "paid_search E u plain client =
     io_bind (check_deadline E 10) (\<lambda>_.
     case client of
       None \<Rightarrow> io_raise (Runtime_exn ''x402exa_not_configured'')
     | Some cached \<Rightarrow>
         io_bind (exchange E cached) (\<lambda>data.
         io_bind (io_emit [Reason ''invalid_response'']) (\<lambda>_.
         io_bind (check_deadline E 11) (\<lambda>_.
         io_bind (io_lift (parse_results u plain data)) (\<lambda>rs.
         io_bind (check_deadline E 12) (\<lambda>_. io_ret rs))))))"

datatype paid_event =
    Noted_suspended
  | Admission_expired
  | Blocked_for pystr rat
  | Results_extended "paid_result list"

definition paid_deadline :: "time \<Rightarrow> time \<Rightarrow> time \<Rightarrow> time" where
  "paid_deadline now started limit = min (now + 55) (started + limit - 1)"

definition suspended_time :: "pay_outcome \<Rightarrow> rat" where
  "suspended_time oc = (case oc_suspension oc of
     Some s \<Rightarrow> (if s = 0 then (if oc_submitted oc then 300 else 60) else s)
   | None \<Rightarrow> (if oc_submitted oc then 300 else 60))"

definition settle_attempt :: "pay_step list \<times> (pay_exn + paid_result list) \<Rightarrow> paid_event" where
  "settle_attempt m = (case snd m of
     Inr rs \<Rightarrow> Results_extended rs
   | Inl _ \<Rightarrow> Blocked_for (oc_reason (outcome_after (fst m))) (suspended_time (outcome_after (fst m))))"

text \<open>
  \<open>process\<close>, given the token of the reservation (after the native wait, if it came without
  one), whether the processor is suspended when that is asked, the deadline check and the
  attempt itself. \<open>A\<close> is the admission state at the start of the ownership, \<open>work\<close> what
  happens to it meanwhile.
\<close>

definition process_paid ::
  "token option \<Rightarrow> bool \<Rightarrow> bool \<Rightarrow> pay_step list \<times> (pay_exn + paid_result list) \<Rightarrow> (admission \<Rightarrow> admission) \<Rightarrow>
   admission \<Rightarrow> (exn + paid_event list) \<times> admission" where
  "process_paid tok suspended late attempt work A =
     (if tok = None then (Inr [if suspended then Noted_suspended else Admission_expired], A)
      else case ownership_enter tok A of
        Inl e \<Rightarrow> (Inl e, release tok A)
      | Inr A' \<Rightarrow>
          (Inr [if suspended then Noted_suspended else if late then Admission_expired else settle_attempt attempt],
           release tok (ownership_exit (work A'))))"

section \<open>The shape of an exchange\<close>

fun unpaid :: "pay_step \<Rightarrow> bool" where
  "unpaid (Reason _) = True"
| "unpaid (Suspension _) = True"
| "unpaid (Requirements_set _) = True"
| "unpaid _ = False"

definition quiet :: "pay_step \<Rightarrow> bool" where
  "quiet s \<longleftrightarrow> unpaid s \<or> (\<exists>p. s = Payment p \<and> p \<noteq> ''not_submitted'')"

named_theorems pay_parts "which parts of an exchange neither send nor report a payment"

lemma unpaid_quiet: "list_all unpaid qs \<Longrightarrow> list_all quiet qs"
  by (simp add: list_all_iff quiet_def)

lemma deadline_unpaid [pay_parts]: "io_all P (check_deadline E k)"
  by (simp add: check_deadline_def)

lemma deadline_log [simp]: "fst (check_deadline E k) = []"
  by (simp add: check_deadline_def)

lemma classify_unpaid [pay_parts]: "io_all unpaid (classify_status E b r)"
  by (simp add: classify_status_def io_all_def io_emit_def)

lemma rejected_unpaid [pay_parts]: "io_all unpaid (rejected_terms E h)"
  unfolding rejected_terms_def by (auto intro!: io_rules split: option.splits)

lemma read_unpaid [pay_parts]: "io_all unpaid (read_result E k r)"
  unfolding read_result_def by (intro io_rules pay_parts) simp_all

lemma unpaid_io: "io_all unpaid m \<Longrightarrow> io_all quiet m"
  by (erule io_all_mono) (simp add: quiet_def)

lemma paid_quiet: "io_all quiet (paid_response E r)"
  unfolding paid_response_def
  by (auto intro!: io_rules classify_unpaid [THEN unpaid_io] rejected_unpaid [THEN unpaid_io]
      read_unpaid [THEN unpaid_io] simp: quiet_def split: sum.splits)

lemma start_log: "fst (start_recorded E) = (case pe_start E of Inl _ \<Rightarrow> [] | Inr _ \<Rightarrow> [Start_recorded])"
  by (simp add: start_recorded_def fst_io_bind io_emit_def split: sum.splits)

lemma start_result: "snd (start_recorded E) = pe_start E"
  by (cases "pe_start E") (simp_all add: start_recorded_def snd_io_bind io_emit_def rbind_def)

lemma discover_shape:
  "fst (discover E) = [] \<and> (\<exists>e. snd (discover E) = Inl e) \<or>
   (\<exists>qs. list_all unpaid qs \<and> fst (discover E) = Start_recorded # Unsigned_post # qs)"
proof (cases "snd (io_bind (check_deadline E 1) (\<lambda>_. start_recorded E))")
  case (Inl e)
  then show ?thesis
    by (auto simp: discover_def fst_io_bind snd_io_bind start_log start_recorded_def rbind_def split: sum.splits)
next
  case (Inr x)
  define rest where "rest = io_bind (io_lift (pe_discovery E)) (\<lambda>r.
     io_bind (classify_status E False r) (\<lambda>_.
     if rp_status r = 200 then io_bind (read_result E 2 r) (\<lambda>data. io_ret (Inl data))
     else if rp_status r \<noteq> 402 then io_raise (Value_exn ''discovery_failed'')
     else
       io_bind (io_emit [Reason ''invalid_response'']) (\<lambda>_.
       io_bind (check_deadline E 4) (\<lambda>_.
       io_bind (io_lift (decode_requirements E (rp_header r ''PAYMENT-REQUIRED''))) (\<lambda>terms.
       io_bind (io_emit [Requirements_set (Some terms)]) (\<lambda>_.
       io_bind (check_deadline E 5) (\<lambda>_. io_ret (Inr terms :: json + requirements))))))))"
  have "io_all unpaid rest"
    unfolding rest_def by (auto intro!: io_rules pay_parts)
  moreover have "fst (discover E) = Start_recorded # Unsigned_post # fst rest"
    using Inr unfolding rest_def [symmetric] discover_def
    by (auto simp: fst_io_bind snd_io_bind start_log start_recorded_def rbind_def io_emit_def rest_def
        split: sum.splits)
  ultimately show ?thesis by (auto simp: io_all_def)
qed

lemma pay_shape:
  "fst (pay_terms E cold terms) = [] \<or> \<not> cold \<and> fst (pay_terms E cold terms) = [Start_recorded] \<or>
   (\<exists>qs. list_all quiet qs \<and> fst (pay_terms E cold terms) = (if cold then [] else [Start_recorded]) @
      [Submission, Payment ''unknown'', Reason ''payment_status_unknown'', Signed_post] @ qs)"
proof -
  have "list_all quiet (fst (io_bind (io_lift (pe_paid E)) (paid_response E)))"
    using io_all_bind [of quiet "io_lift (pe_paid E)" "paid_response E"] paid_quiet
    by (auto simp: io_all_def fst_io_bind split: sum.splits)
  then show ?thesis
    by (auto simp: pay_terms_def fst_io_bind start_log start_result io_emit_def split: sum.splits)
qed

text \<open>Whether every request comes after the recorded start.\<close>

fun posts_after_start :: "bool \<Rightarrow> pay_step list \<Rightarrow> bool" where
  "posts_after_start b [] = True"
| "posts_after_start b (s # steps) =
     ((s \<in> {Unsigned_post, Signed_post} \<longrightarrow> b) \<and> posts_after_start (b \<or> s = Start_recorded) steps)"

definition times :: "pay_step \<Rightarrow> pay_step list \<Rightarrow> nat" where
  "times s steps = length (filter ((=) s) steps)"

lemma times_simps [simp]:
  "times s [] = 0" "times s (x # xs) = (if s = x then Suc (times s xs) else times s xs)"
  "times s (xs @ ys) = times s xs + times s ys"
  by (simp_all add: times_def)

lemma not_quiet: "\<not> quiet Start_recorded" "\<not> quiet Unsigned_post" "\<not> quiet Signed_post"
  by (simp_all add: quiet_def)

lemma quiet_times [simp]: "list_all quiet qs \<Longrightarrow> \<not> quiet s \<Longrightarrow> times s qs = 0"
  by (auto simp: times_def list_all_iff filter_empty_conv)

lemma quiet_posts [simp]: "list_all quiet qs \<Longrightarrow> posts_after_start b (qs @ rest) = posts_after_start b rest"
proof (induction qs arbitrary: b)
  case (Cons q qs)
  then show ?case by (cases q) (auto simp: quiet_def)
qed simp

lemma unpaid_outcome:
  "list_all unpaid qs \<Longrightarrow> oc_submitted (fold outcome_step qs oc) = oc_submitted oc \<and>
    oc_payment (fold outcome_step qs oc) = oc_payment oc"
proof (induction qs arbitrary: oc)
  case (Cons q qs)
  then show ?case by (cases q) auto
qed simp

lemma quiet_outcome:
  "list_all quiet qs \<Longrightarrow> oc_submitted (fold outcome_step qs oc) = oc_submitted oc \<and>
    (oc_payment oc \<noteq> ''not_submitted'' \<longrightarrow> oc_payment (fold outcome_step qs oc) \<noteq> ''not_submitted'')"
proof (induction qs arbitrary: oc)
  case (Cons q qs)
  then show ?case by (cases q) (auto simp: quiet_def)
qed simp

lemma exchange_shape:
  obtains (free) qs where "list_all unpaid qs" "fst (exchange E cached) \<in> {[], [Start_recorded], Start_recorded # Unsigned_post # qs}"
      "fst (exchange E cached) \<noteq> [] \<longrightarrow> cached = None \<or> fst (exchange E cached) = [Start_recorded]"
  | (paid) pre qs qs' where "list_all quiet qs" "list_all unpaid qs'"
      "pre = (if cached = None then Start_recorded # Unsigned_post # qs' else [Start_recorded])"
      "fst (exchange E cached) = pre @ [Submission, Payment ''unknown'', Reason ''payment_status_unknown'', Signed_post] @ qs"
proof (cases "snd (check_deadline E 0)")
  case (Inl e)
  then show thesis using free [of "[]"] by (simp add: exchange_def fst_io_bind)
next
  case (Inr x)
  show thesis
  proof (cases cached)
    case (Some terms)
    with Inr have "fst (exchange E cached) = fst (pay_terms E False terms)" by (simp add: exchange_def fst_io_bind)
    with pay_shape [of E False terms] Some show thesis using free [of "[]"] paid [of _ "[]"] by auto
  next
    case None
    show thesis
    proof (cases "\<exists>terms. snd (discover E) = Inr (Inr terms)")
      case False
      with None Inr have "fst (exchange E cached) = fst (discover E)"
        by (auto simp: exchange_def fst_io_bind split: sum.splits)
      with discover_shape [of E] None show thesis using free [of "[]"] free by auto
    next
      case True
      then obtain terms where t: "snd (discover E) = Inr (Inr terms)" by blast
      with discover_shape [of E] obtain qs where d: "list_all unpaid qs" "fst (discover E) = Start_recorded # Unsigned_post # qs"
        by auto
      have "fst (exchange E cached) = fst (discover E) @ fst (pay_terms E True terms)"
        using None Inr t by (simp add: exchange_def fst_io_bind)
      with pay_shape [of E True terms] d None show thesis using free [of qs] paid [of _ qs] by auto
    qed
  qed
qed

text \<open>
  C20 (safety). An exchange pays at most once, whatever the server, the SDK and the clock do: it
  sends at most one unsigned and one signed request, the unsigned one only without cached
  terms; it records exactly one start, before its first request; and the outcome says that
  nothing was submitted exactly if no signed request was sent, so a failure after it is never
  reported as free.\<close>

theorem payment_at_most_once:
  assumes "exchange E cached = (es, r)"
  shows "times Unsigned_post es \<le> 1 \<and> times Signed_post es \<le> 1 \<and> times Start_recorded es \<le> 1 \<and>
    posts_after_start False es \<and> (times Unsigned_post es = 1 \<longrightarrow> cached = None) \<and>
    (oc_submitted (outcome_after es) \<longleftrightarrow> times Signed_post es = 1) \<and>
    (oc_payment (outcome_after es) = ''not_submitted'' \<longleftrightarrow> times Signed_post es = 0)"
proof -
  have es: "es = fst (exchange E cached)" using assms by simp
  show ?thesis
  proof (cases rule: exchange_shape [of E cached])
    case (free qs)
    then show ?thesis
      using unpaid_outcome [of qs outcome_init] unpaid_quiet [of qs] quiet_posts [of qs True "[]"]
      by (auto simp: es outcome_after_def outcome_init_def not_quiet)
  next
    case (paid pre qs qs')
    then show ?thesis
      using unpaid_quiet [of qs'] quiet_posts [of qs True "[]"]
        quiet_outcome [of qs "(fold outcome_step pre outcome_init)\<lparr>oc_submitted := True, oc_payment := ''unknown'',
          oc_reason := ''payment_status_unknown''\<rparr>"]
      by (auto simp: es outcome_after_def not_quiet)
  qed
qed

definition sample_terms :: requirements where
  "sample_terms = \<lparr>rq_version = 2, rq_resource = Some endpoint,
     rq_accepts = [\<lparr>of_scheme = ''exact'', of_network = pay_network, of_asset = pay_asset, of_extra = []\<rparr>],
     rq_extensions = True\<rparr>"

text \<open>A server that asks for payment first and delivers an empty result for it.\<close>

definition sample_pay :: pay_env where
  "sample_pay = \<lparr>pe_late = (\<lambda>_. False), pe_start = Inr (),
     pe_discovery = Inr \<lparr>rp_status = 402, rp_header = (\<lambda>_. Some ''terms''), rp_read = Inr (), rp_json = Inr JNull\<rparr>,
     pe_paid = Inr \<lparr>rp_status = 200, rp_header = (\<lambda>_. Some ''receipt''), rp_read = Inr (),
       rp_json = Inr (JObj [(''results'', JList [])])\<rparr>,
     pe_header = (\<lambda>_. Inr sample_terms),
     pe_select = (\<lambda>offers. case offers of [] \<Rightarrow> Inl (Raised_exn ''no offer'') | f # _ \<Rightarrow> Inr f),
     pe_sign = (\<lambda>_. Inr ''signature''), pe_receipt = (\<lambda>_. Inr True), pe_date = (\<lambda>_. None)\<rparr>"

theorem payment_at_most_once_witness:
  "times Signed_post (fst (exchange sample_pay None)) = 1 \<and>
   posts_after_start False (fst (exchange sample_pay None)) \<and>
   oc_submitted (outcome_after (fst (exchange sample_pay None)))"
proof -
  have "times Signed_post (fst (exchange sample_pay None)) = 1" by code_simp
  then show ?thesis
    using payment_at_most_once [of sample_pay None "fst (exchange sample_pay None)" "snd (exchange sample_pay None)"]
    by simp
qed

section \<open>The cached terms\<close>

definition accepted :: "pay_env \<Rightarrow> requirements \<Rightarrow> bool" where
  "accepted E r \<longleftrightarrow> rq_version r = 2 \<and> rq_resource r \<in> {None, Some endpoint} \<and> \<not> rq_extensions r \<and>
     (\<exists>f. pe_select E (filter supported_offer (rq_accepts r)) = Inr f)"

lemma decode_accepted: "decode_requirements E h = Inr r \<Longrightarrow> accepted E r"
  by (auto simp: decode_requirements_def accepted_def rbind_Inr_iff split: if_splits option.splits)

fun stores_accepted :: "pay_env \<Rightarrow> pay_step \<Rightarrow> bool" where
  "stores_accepted E (Requirements_set (Some r)) = accepted E r"
| "stores_accepted E _ = True"

lemma stored_parts:
  "io_all (stores_accepted E) (classify_status E b r)" "io_all (stores_accepted E) (rejected_terms E h)"
  "io_all (stores_accepted E) (read_result E k r)" "io_all (stores_accepted E) (start_recorded E)"
  unfolding classify_status_def rejected_terms_def read_result_def start_recorded_def
  by (auto intro!: io_rules deadline_unpaid decode_accepted split: option.splits sum.splits)

lemma exchange_stores: "io_all (stores_accepted E) (exchange E cached)"
proof -
  have paid: "io_all (stores_accepted E) (paid_response E r)" for r
    unfolding paid_response_def by (auto intro!: io_rules stored_parts split: sum.splits)
  have pay: "io_all (stores_accepted E) (pay_terms E c t)" for c t
    unfolding pay_terms_def by (auto intro!: io_rules stored_parts deadline_unpaid paid)
  have "io_all (stores_accepted E) (discover E)"
    unfolding discover_def by (auto intro!: io_rules stored_parts deadline_unpaid decode_accepted)
  with pay show ?thesis
    unfolding exchange_def by (auto intro!: io_rules deadline_unpaid split: option.splits sum.splits)
qed

lemma terms_after_accepted:
  "list_all (stores_accepted E) steps \<Longrightarrow> (\<And>t. r = Some t \<Longrightarrow> accepted E t) \<Longrightarrow>
    terms_after steps r = Some t \<Longrightarrow> accepted E t"
  unfolding terms_after_def
proof (induction steps arbitrary: r)
  case (Cons s steps)
  show ?case
  proof (cases "\<exists>x. s = Requirements_set x")
    case True
    then obtain x where "s = Requirements_set x" by blast
    with Cons show ?thesis by (cases x) auto
  next
    case False
    then have "terms_step s r = r" by (cases s) auto
    with Cons show ?thesis by auto
  qed
qed simp

text \<open>
  The cached terms are always ones this client would pay: if the terms kept from
  earlier exchanges were accepted (version 2, for the one endpoint, with a supported offer and
  without extensions), then so are the terms kept afterwards, whatever the server sent and
  wherever the exchange failed.\<close>

theorem cached_terms_accepted:
  assumes "exchange E cached = (es, r)" and "\<And>t. cached = Some t \<Longrightarrow> accepted E t"
    and "terms_after es cached = Some t"
  shows "accepted E t"
  using terms_after_accepted [OF _ assms(2,3)] exchange_stores [of E cached] assms(1) by (simp add: io_all_def)

theorem cached_terms_accepted_witness:
  "accepted sample_pay (sample_terms\<lparr>rq_extensions := False\<rparr>)"
proof -
  have "terms_after (fst (exchange sample_pay None)) None = Some (sample_terms\<lparr>rq_extensions := False\<rparr>)"
    by code_simp
  from cached_terms_accepted [of sample_pay None "fst (exchange sample_pay None)" "snd (exchange sample_pay None)",
      OF _ _ this]
  show ?thesis by simp
qed

section \<open>Results and settlement\<close>

definition public_result_url :: "codec \<Rightarrow> pystr \<Rightarrow> bool" where
  "public_result_url u x \<longleftrightarrow> (\<exists>url n fragment. normalize_public_url u True False url = Inr (n, fragment) \<and>
     x = n @ (case fragment of None \<Rightarrow> [] | Some f \<Rightarrow> CHR ''#'' # f))"

definition clean_result :: "codec \<Rightarrow> paid_result \<Rightarrow> bool" where
  "clean_result u r \<longleftrightarrow> pr_title r \<noteq> [] \<and> pr_content r \<noteq> [] \<and> length (pr_content r) \<le> 2000 \<and>
     public_result_url u (pr_url r)"

lemma result_url_public: "result_url u value = Inr x \<Longrightarrow> public_result_url u x"
  by (auto simp: result_url_def public_result_url_def split: json.splits sum.splits)

lemma parse_row_clean: "parse_row u plain row = Inr r \<Longrightarrow> clean_result u r"
  by (auto simp: parse_row_def clean_result_def Let_def rbind_Inr_iff dest!: result_url_public
      split: json.splits option.splits if_splits)

lemma parse_rows_clean:
  "parse_rows u plain rows rs bad = Inr (rs', bad') \<Longrightarrow> list_all (clean_result u) rs \<Longrightarrow> length rs < 10 \<Longrightarrow>
    list_all (clean_result u) rs' \<and> length rs' \<le> 10"
proof (induction rows arbitrary: rs bad)
  case (Cons row rows)
  then show ?case
    by (auto split: sum.splits pay_exn.splits if_splits dest: parse_row_clean)
qed simp

text \<open>
  What the paid API returns enters the results only as at most ten rows, each with a
  title and a text of at most 2000 characters that are not empty, under a URL that passed the
  public-URL policy of the browser client.\<close>

theorem paid_results_clean:
  assumes "parse_results u plain data = Inr rs"
  shows "length rs \<le> 10 \<and> list_all (clean_result u) rs"
  using assms parse_rows_clean [of u plain _ "[]" 0]
  by (auto simp: parse_results_def rbind_Inr_iff split: json.splits if_splits)

theorem paid_results_clean_witness:
  "\<exists>r. parse_results ascii_codec Inr (JObj [(''results'', JList [JNull,
       JObj [(''title'', JStr '' T ''), (''highlights'', JList [JStr ''s'']), (''url'', JStr ''https://a.example/'')]])]) =
     Inr [r] \<and> clean_result ascii_codec r"
proof -
  let ?d = "JObj [(''results'', JList [JNull,
       JObj [(''title'', JStr '' T ''), (''highlights'', JList [JStr ''s'']), (''url'', JStr ''https://a.example/'')]])]"
  have "parse_results ascii_codec Inr ?d = Inr [\<lparr>pr_url = ''https://a.example/'', pr_title = ''T'', pr_content = ''s''\<rparr>]"
    by code_simp
  with paid_results_clean [OF this] show ?thesis by simp
qed

text \<open>
  Processing an attempt settles its admission, whatever the exchange does: afterwards
  its token reserves nothing and the attempt is not active, except that a token that was not the
  reserved one changes nothing. A failed attempt suspends the engine for at least a minute, and for
  at least five if a payment may have been made, unless the server named the time.\<close>

theorem paid_attempt_settles:
  assumes "process_paid (Some t) suspended late attempt work A = (r, A')"
  shows "adm_token A' \<noteq> Some t \<and>
    (case r of
       Inl e \<Rightarrow> (adm_token A \<noteq> Some t \<or> adm_active A) \<and> adm_active A' = adm_active A
     | Inr evs \<Rightarrow> adm_token A = Some t \<and> \<not> adm_active A' \<and>
        (\<forall>m s. Blocked_for m s \<in> set evs \<longrightarrow>
          (let oc = outcome_after (fst attempt) in
            oc_suspension oc = None \<longrightarrow> s \<ge> (if oc_submitted oc then 300 else 60))))"
  using assms
  by (auto simp: process_paid_def ownership_enter_def release_def ownership_exit_def settle_attempt_def
      suspended_time_def Let_def split: if_splits sum.splits)

theorem paid_attempt_settles_witness:
  "\<not> adm_active (snd (process_paid (Some 7) False False (paid_search sample_pay ascii_codec Inr (Some None)) id
     (admission_init\<lparr>adm_token := Some 7\<rparr>)))"
proof -
  let ?x = "process_paid (Some 7) False False (paid_search sample_pay ascii_codec Inr (Some None)) id
     (admission_init\<lparr>adm_token := Some 7\<rparr>)"
  have "\<exists>evs. fst ?x = Inr evs" by (simp add: process_paid_def ownership_enter_def admission_init_def)
  moreover have "process_paid (Some 7) False False (paid_search sample_pay ascii_codec Inr (Some None)) id
     (admission_init\<lparr>adm_token := Some 7\<rparr>) = (fst ?x, snd ?x)" by simp
  note paid_attempt_settles [OF this]
  ultimately show ?thesis by auto
qed

end
