(* ===== verification/PyLines.thy ===== *)
theory PyLines
  imports PyText
begin

text \<open>
  \<open>str.splitlines\<close> on code points below 256, and what it makes of a text that was written line
  by line.
\<close>

text \<open>\<open>str.splitlines()\<close>; the flag tells that the last character was a carriage return that
  ended a line.\<close>

definition line_break :: "char \<Rightarrow> bool" where
  "line_break c \<longleftrightarrow> ord_c c \<in> {10, 11, 12, 13, 28, 29, 30, 133}"

fun lines_from :: "bool \<Rightarrow> pystr \<Rightarrow> pystr \<Rightarrow> pystr list" where
  "lines_from after_cr acc [] = (if acc = [] then [] else [acc])"
| "lines_from after_cr acc (c # s) =
     (if c = CHR 0x0A \<and> after_cr then lines_from False [] s
      else if line_break c then acc # lines_from (c = CHR 0x0D) [] s
      else lines_from False (acc @ [c]) s)"

definition splitlines :: "pystr \<Rightarrow> pystr list" where
  "splitlines s = lines_from False [] s"

lemma lines_from_line:
  "list_all (\<lambda>c. \<not> line_break c) l \<Longrightarrow>
   lines_from False acc (l @ CHR 0x0A # s) = (acc @ l) # lines_from False [] s"
  by (induction l arbitrary: acc) (auto simp: line_break_def ord_c_def)

lemma splitlines_line:
  "list_all (\<lambda>c. \<not> line_break c) l \<Longrightarrow> splitlines (l @ CHR 0x0A # s) = l # splitlines s"
  by (simp add: splitlines_def lines_from_line)

lemma splitlines_Nil [simp]: "splitlines [] = []"
  by (simp add: splitlines_def)

lemma digit_no_break: "is_digit c \<Longrightarrow> \<not> line_break c"
  by (auto simp: is_digit_def line_break_def)

lemma hex_no_break: "is_hex c \<Longrightarrow> \<not> line_break c"
  by (auto simp: is_hex_def is_digit_def line_break_def)

end
