(* ===== verification/Tor_Config.thy ===== *)
theory Tor_Config
  imports PyUrl PyLines X402_Config
begin

text \<open>
  The wrapper's settings file and the torrc rendered from it: \<open>src/tor/render_config.py\<close>.
  The lexer is Python's \<open>shlex\<close> in POSIX mode with \<open>whitespace_split\<close> and the
  comment character \<open>#\<close>, as \<open>_parse_env_value\<close> configures it.
\<close>

section \<open>Errors and settings\<close>

text \<open>
  \<open>Config_error\<close> is the module's exception, \<open>File_error\<close> an \<open>OSError\<close>. A file that
  is not UTF-8 raises \<open>UnicodeDecodeError\<close>, and a text that is not ASCII
  \<open>UnicodeEncodeError\<close>; \<open>main\<close> catches neither.
\<close>

datatype config_exn = Config_error pystr | File_error pystr | Decode_error | Encode_error

type_synonym settings = "pystr \<rightharpoonup> pystr"

definition setting_defaults :: "(pystr \<times> pystr) list" where
  "setting_defaults =
     [(''TOR_EGRESS_ENABLED'', ''false''),
      (''TOR_ONION_SERVICE_ENABLED'', ''false''),
      (''TOR_EXIT_COUNTRY'', []),
      (''TOR_EXIT_NODE_FINGERPRINTS'', []),
      (''EGRESS_UPSTREAM_PROXY_URL'', []),
      (''WEBUI_CANONICAL_ORIGIN'', ''http://localhost:3000''),
      (''ONYX_RAG_EMBEDDING_SHIM_UPSTREAM_URL'', []),
      (''ONYX_RAG_EMBEDDING_MLX_SERVE_MODEL'', []),
      (''ONYX_RAG_EMBEDDING_SHIM_UPSTREAM_MODEL'', [])]"

section \<open>The lexer\<close>

text \<open>
  \<open>Blank\<close> is the state \<open>' '\<close>, \<open>Word\<close> the state \<open>'a'\<close>, \<open>Quoted q\<close> a quotation
  opened by \<open>q\<close>, \<open>Escaped back\<close> the state after a backslash with the state to return
  to, \<open>Comment\<close> the rest of a line being skipped. The token so far and whether it was
  quoted are the local variables of \<open>read_token\<close>.
\<close>

datatype lex_state = Blank | Word | Quoted char | Escaped "char option" | Comment

definition backslash :: char where
  "backslash = CHR 0x5C"

definition squote :: char where
  "squote = CHR 0x27"

definition dquote :: char where
  "dquote = CHR 0x22"

definition lex_space :: "char \<Rightarrow> bool" where
  "lex_space c \<longleftrightarrow> c = CHR 0x20 \<or> c = CHR 0x09 \<or> c = CHR 0x0D \<or> c = CHR 0x0A"

definition emit_token :: "bool \<Rightarrow> pystr \<Rightarrow> pystr list \<Rightarrow> pystr list" where
  "emit_token quoted tok rest = (if tok \<noteq> [] \<or> quoted then tok # rest else rest)"

fun lex :: "lex_state \<Rightarrow> bool \<Rightarrow> pystr \<Rightarrow> pystr \<Rightarrow> pystr list py" where
  "lex Blank quoted tok [] = Inr []"
| "lex Blank quoted tok (c # s) =
     (if lex_space c then lex Blank False [] s
      else if c = CHR ''#'' then lex Comment False [] s
      else if c = backslash then lex (Escaped None) False [] s
      else if c = squote \<or> c = dquote then lex (Quoted c) False [] s
      else lex Word False [c] s)"
| "lex Comment quoted tok [] = Inr []"
| "lex Comment quoted tok (c # s) = lex (if c = CHR 0x0A then Blank else Comment) False [] s"
| "lex (Quoted q) quoted tok [] = Inl (ValueError ''No closing quotation'')"
| "lex (Quoted q) quoted tok (c # s) =
     (if c = q then lex Word True tok s
      else if c = backslash \<and> q = dquote then lex (Escaped (Some q)) True tok s
      else lex (Quoted q) True (tok @ [c]) s)"
| "lex (Escaped back) quoted tok [] = Inl (ValueError ''No escaped character'')"
| "lex (Escaped back) quoted tok (c # s) =
     (case back of
        None \<Rightarrow> lex Word quoted (tok @ [c]) s
      | Some q \<Rightarrow> lex (Quoted q) quoted
                    (tok @ (if c \<noteq> backslash \<and> c \<noteq> q then [backslash, c] else [c])) s)"
| "lex Word quoted tok [] = Inr (emit_token quoted tok [])"
| "lex Word quoted tok (c # s) =
     (if lex_space c then rbind (lex Blank False [] s) (\<lambda>ts. Inr (emit_token quoted tok ts))
      else if c = CHR ''#'' then rbind (lex Comment False [] s) (\<lambda>ts. Inr (emit_token quoted tok ts))
      else if c = squote \<or> c = dquote then lex (Quoted c) quoted tok s
      else if c = backslash then lex (Escaped None) quoted tok s
      else lex Word quoted (tok @ [c]) s)"

definition shlex_tokens :: "pystr \<Rightarrow> pystr list py" where
  "shlex_tokens s = lex Blank False [] s"

section \<open>The settings file\<close>

definition parse_env_value :: "nat \<Rightarrow> pystr \<Rightarrow> config_exn + pystr" where
  "parse_env_value line_number s = (case shlex_tokens s of
     Inl e \<Rightarrow> Inl (Config_error (''invalid wrapper setting on line '' @ nat_str line_number @ '': '' @ exn_str e))
   | Inr [] \<Rightarrow> Inr []
   | Inr [t] \<Rightarrow> Inr t
   | Inr _ \<Rightarrow> Inl (Config_error (''wrapper setting on line '' @ nat_str line_number @ '' must be one shell-style value'')))"

text \<open>\<open>re.fullmatch(r"[A-Z][A-Z0-9_]*", name)\<close>.\<close>

definition setting_name :: "pystr \<Rightarrow> bool" where
  "setting_name n \<longleftrightarrow> n \<noteq> [] \<and> is_upper_ascii (hd n) \<and>
     list_all (\<lambda>c. is_upper_ascii c \<or> is_digit c \<or> c = CHR ''_'') n"

text \<open>One line of the file, numbered from 1.\<close>

definition read_line :: "bool \<Rightarrow> pystr list \<Rightarrow> nat \<Rightarrow> pystr \<Rightarrow> settings \<Rightarrow> config_exn + settings" where
  "read_line validate_all names n line vals =
     (if py_strip line = [] \<or> starts_with (lstrip_by is_space line) ''#'' then Inr vals
      else (case partition_c (CHR ''='') line of (raw_name, found, v) \<Rightarrow>
        (let name = py_strip raw_name;
             bad_name = (raw_name \<noteq> name \<or> \<not> setting_name name);
             bad = Inl (Config_error (''invalid wrapper setting name on line '' @ nat_str n))
         in if \<not> found
            then (if validate_all
                  then Inl (Config_error (''invalid wrapper setting on line '' @ nat_str n @ '': expected NAME=VALUE''))
                  else Inr vals)
            else if validate_all \<and> bad_name then bad
            else if name \<notin> set names \<and> \<not> validate_all then Inr vals
            else if name \<in> set names \<and> bad_name then bad
            else rbind (parse_env_value n v) (\<lambda>parsed.
                   Inr (if name \<in> set names then vals(name \<mapsto> parsed) else vals)))))"

fun read_lines :: "bool \<Rightarrow> pystr list \<Rightarrow> nat \<Rightarrow> pystr list \<Rightarrow> settings \<Rightarrow> config_exn + settings" where
  "read_lines validate_all names n [] vals = Inr vals"
| "read_lines validate_all names n (l # ls) vals =
     rbind (read_line validate_all names n l vals) (read_lines validate_all names (Suc n) ls)"

text \<open>What \<open>path.read_text\<close> finds at the path.\<close>

datatype file_text = Absent | Unreadable pystr | Not_utf8 | Text pystr

definition read_wrapper_settings ::
  "bool \<Rightarrow> bool \<Rightarrow> pystr list \<Rightarrow> pystr \<Rightarrow> file_text \<Rightarrow> config_exn + settings" where
  "read_wrapper_settings require_file validate_all names path file = (case file of
     Absent \<Rightarrow> (if require_file
                then Inl (Config_error (''wrapper settings file does not exist: '' @ path))
                else Inr Map.empty)
   | Unreadable m \<Rightarrow> Inl (File_error m)
   | Not_utf8 \<Rightarrow> Inl Decode_error
   | Text s \<Rightarrow> read_lines validate_all names 1 (splitlines s) Map.empty)"

text \<open>Entries of the environment whose name is among \<open>names\<close> win.\<close>

definition override_from :: "pystr list \<Rightarrow> settings \<Rightarrow> settings \<Rightarrow> settings" where
  "override_from names env vals = (\<lambda>k. if k \<in> set names \<and> env k \<noteq> None then env k else vals k)"

definition settings_from_file_and_environment ::
  "bool \<Rightarrow> bool \<Rightarrow> pystr \<Rightarrow> file_text \<Rightarrow> settings \<Rightarrow> config_exn + settings" where
  "settings_from_file_and_environment require_file validate_all path file env =
     rbind (read_wrapper_settings require_file validate_all (map fst setting_defaults) path file) (\<lambda>vals.
       Inr (override_from (map fst setting_defaults) env (map_of setting_defaults ++ vals)))"

text \<open>\<open>values[name]\<close>: every setting read this way has a default.\<close>

definition setting :: "settings \<Rightarrow> pystr \<Rightarrow> pystr" where
  "setting vals name = (case vals name of Some v \<Rightarrow> v | None \<Rightarrow> [])"

section \<open>Validation\<close>

definition parse_bool :: "pystr \<Rightarrow> pystr \<Rightarrow> config_exn + bool" where
  "parse_bool name v =
     (if v \<noteq> ''true'' \<and> v \<noteq> ''false''
      then Inl (Config_error (name @ '' must be exactly '' @ sq ''true'' @ '' or '' @ sq ''false''))
      else Inr (v = ''true''))"

text \<open>\<open>[A-Za-z0-9](?:[A-Za-z0-9-]*[A-Za-z0-9])?\<close> with at most 63 characters.\<close>

definition alnum_c :: "char \<Rightarrow> bool" where
  "alnum_c c \<longleftrightarrow> is_alpha_ascii c \<or> is_digit c"

definition host_label :: "pystr \<Rightarrow> bool" where
  "host_label l \<longleftrightarrow> l \<noteq> [] \<and> length l \<le> 63 \<and> alnum_c (hd l) \<and> alnum_c (last l) \<and>
     list_all (\<lambda>c. alnum_c c \<or> c = CHR ''-'') l"

definition origin_error :: "pystr \<Rightarrow> config_exn" where
  "origin_error m = Config_error (''WEBUI_CANONICAL_ORIGIN '' @ m)"

definition check_origin_host :: "codec \<Rightarrow> pystr \<Rightarrow> config_exn + unit" where
  "check_origin_host u host =
     (if CHR ''*'' \<in> set host \<or> starts_with host ''.'' \<or> ends_with host ''.''
      then Inl (origin_error ''has an invalid host'')
      else (case idna u host of
        None \<Rightarrow> Inl (origin_error ''host is not valid IDNA'')
      | Some a \<Rightarrow> raise_if (ip_address a = None \<and>
                     (253 < length a \<or> \<not> list_all host_label (split_on (CHR ''.'') a)))
                     (origin_error ''host is not valid IDNA'')))"

definition check_origin_url :: "url \<Rightarrow> int option \<Rightarrow> config_exn + unit" where
  "check_origin_url parsed p =
     (if u_scheme parsed \<noteq> ''http'' \<and> u_scheme parsed \<noteq> ''https''
      then Inl (origin_error ''must use http or https'')
      else if hostname parsed = [] \<or> username parsed \<noteq> None \<or> password parsed \<noteq> None
      then Inl (origin_error ''must have a host and no userinfo'')
      else if (u_path parsed \<noteq> [] \<and> u_path parsed \<noteq> ''/'') \<or> u_query parsed \<noteq> [] \<or> u_fragment parsed \<noteq> []
      then Inl (origin_error ''must not contain a non-root path, query, or fragment'')
      else if (case p of None \<Rightarrow> False | Some q \<Rightarrow> \<not> (0 < q \<and> q \<le> 65535))
      then Inl (origin_error ''has an invalid port'')
      else Inr ())"

definition validate_origin :: "codec \<Rightarrow> pystr \<Rightarrow> config_exn + pystr" where
  "validate_origin u v =
     (if v = [] \<or> list_ex (\<lambda>c. ord_c c < 0x20 \<or> ord_c c = 0x7F) v
      then Inl (origin_error ''must be one nonempty origin'')
      else if CHR '','' \<in> set v then Inl (origin_error ''must not be a list'')
      else (case rbind (urlsplit v) (\<lambda>parsed. rbind (port parsed) (\<lambda>p. Inr (parsed, p))) of
        Inl e \<Rightarrow> Inl (origin_error (''is invalid: '' @ exn_str e))
      | Inr (parsed, p) \<Rightarrow>
          rbind (check_origin_url parsed p) (\<lambda>_.
          rbind (check_origin_host u (hostname parsed)) (\<lambda>_. Inr v))))"

definition normalize_country :: "pystr \<Rightarrow> config_exn + pystr" where
  "normalize_country v =
     (if v = [] then Inr []
      else if length v \<noteq> 2 \<or> \<not> list_all is_alpha_ascii v \<or> py_lower v = ''a1''
      then Inl (Config_error ''TOR_EXIT_COUNTRY must be exactly two ASCII letters and not A1'')
      else Inr (py_lower v))"

definition normalize_fingerprint :: "pystr \<Rightarrow> config_exn + pystr" where
  "normalize_fingerprint item =
     (let candidate = (if starts_with item ''$'' then drop 1 item else item)
      in if length candidate \<noteq> 40 \<or> \<not> list_all is_hex candidate
         then Inl (Config_error ''each Tor exit fingerprint must contain exactly 40 hexadecimal characters'')
         else Inr (py_upper candidate))"

definition normalize_fingerprints :: "pystr \<Rightarrow> config_exn + pystr list" where
  "normalize_fingerprints v =
     (if v = [] then Inr []
      else (let items = split_on (CHR '','') v
            in if \<not> (1 \<le> length items \<and> length items \<le> 16) \<or> list_ex (\<lambda>i. i = []) items
               then Inl (Config_error ''TOR_EXIT_NODE_FINGERPRINTS must contain 1 to 16 nonempty items'')
               else rbind (rmapM normalize_fingerprint items) (\<lambda>normalized.
                      if \<not> distinct normalized
                      then Inl (Config_error ''TOR_EXIT_NODE_FINGERPRINTS must not contain duplicates'')
                      else Inr normalized)))"

record tor_roles =
  egress_role :: bool
  onion_role :: bool
  exit_country :: pystr
  exit_fingerprints :: "pystr list"

definition validate_settings :: "codec \<Rightarrow> settings \<Rightarrow> config_exn + tor_roles" where
  "validate_settings u vals =
     rbind (parse_bool ''TOR_EGRESS_ENABLED'' (setting vals ''TOR_EGRESS_ENABLED'')) (\<lambda>egress.
     rbind (parse_bool ''TOR_ONION_SERVICE_ENABLED'' (setting vals ''TOR_ONION_SERVICE_ENABLED'')) (\<lambda>onion.
     rbind (validate_origin u (setting vals ''WEBUI_CANONICAL_ORIGIN'')) (\<lambda>_.
     rbind (normalize_country (setting vals ''TOR_EXIT_COUNTRY'')) (\<lambda>country.
     rbind (normalize_fingerprints (setting vals ''TOR_EXIT_NODE_FINGERPRINTS'')) (\<lambda>fingerprints.
       if (country \<noteq> [] \<or> fingerprints \<noteq> []) \<and> \<not> egress
       then Inl (Config_error ''Tor exit selectors require TOR_EGRESS_ENABLED=true'')
       else if country \<noteq> [] \<and> fingerprints \<noteq> []
       then Inl (Config_error ''Tor country and fingerprint selectors are mutually exclusive'')
       else if setting vals ''EGRESS_UPSTREAM_PROXY_URL'' \<noteq> [] \<and> egress
       then Inl (Config_error (''TOR_EGRESS_ENABLED=true and EGRESS_UPSTREAM_PROXY_URL are mutually ''
              @ ''exclusive; HTTPS-proxy-after-Tor support is deferred because no ''
              @ ''suitable zero-data-retention (ZDR) HTTPS proxy provider is known. ''
              @ ''See docs/plans/deferred/https_proxy_after_tor.md''))
       else Inr \<lparr>egress_role = egress, onion_role = onion, exit_country = country,
                 exit_fingerprints = fingerprints\<rparr>)))))"

section \<open>The torrc\<close>

definition fixed_lines :: "bool \<Rightarrow> pystr list" where
  "fixed_lines egress =
     [''DataDirectory /var/lib/tor'',
      ''GeoIPFile /usr/share/tor/geoip'',
      ''GeoIPv6File /usr/share/tor/geoip6'',
      (if egress then ''SocksPort unix:/run/tor-egress/socks WorldWritable RelaxDirModeCheck''
       else ''SocksPort 0''),
      ''DNSPort 0'',
      ''HTTPTunnelPort 0'',
      ''TransPort 0'',
      ''NATDPort 0'',
      ''ControlPort 0'',
      ''ControlSocket /run/tor-control/control.sock'',
      ''ControlSocketsGroupWritable 0'',
      ''CookieAuthentication 1'',
      ''CookieAuthFile /run/tor-control/control_auth_cookie'',
      ''CookieAuthFileGroupReadable 0'',
      ''ClientOnly 1'',
      ''Log notice stdout'']"

definition exit_lines :: "pystr \<Rightarrow> pystr list \<Rightarrow> pystr list" where
  "exit_lines country fingerprints =
     (if country \<noteq> [] then [''ExitNodes {'' @ country @ ''}'']
      else if fingerprints \<noteq> []
      then [''ExitNodes '' @ join '','' (map (\<lambda>i. ''$'' @ i) fingerprints)]
      else [])"

definition onion_lines :: "bool \<Rightarrow> pystr list" where
  "onion_lines onion =
     (if onion
      then [''HiddenServiceDir /var/lib/tor/onion-service'',
            ''HiddenServiceVersion 3'',
            ''HiddenServicePort 80 10.253.247.3:8080'']
      else [])"

definition render_text :: "tor_roles \<Rightarrow> config_exn + pystr" where
  "render_text r =
     (if \<not> (egress_role r \<or> onion_role r)
      then Inl (Config_error ''at least one Tor role must be enabled to render torrc'')
      else Inr (join [CHR 0x0A]
             (fixed_lines (egress_role r) @ exit_lines (exit_country r) (exit_fingerprints r)
              @ onion_lines (onion_role r)) @ [CHR 0x0A]))"

section \<open>Writing the file\<close>

text \<open>
  The target path and the temporary file beside it. An operation of the file system that
  raises is one \<open>fails\<close> maps to a message; \<open>Write_temp\<close> stands for the write, the flush
  and the \<open>fsync\<close>. The text is written as ASCII.
\<close>

datatype fs_op = Make_parents | Make_temp | Write_temp | Chmod_temp | Replace_target | Unlink_temp

record disk =
  target :: "pystr option"
  temporary :: "pystr option"

definition fs_try :: "(fs_op \<rightharpoonup> pystr) \<Rightarrow> fs_op \<Rightarrow> config_exn + unit" where
  "fs_try fails x = (case fails x of None \<Rightarrow> Inr () | Some m \<Rightarrow> Inl (File_error m))"

text \<open>The protected part: what is on disk when it ends, and the exception that leaves it.\<close>

definition write_and_replace :: "(fs_op \<rightharpoonup> pystr) \<Rightarrow> pystr \<Rightarrow> disk \<Rightarrow> disk \<times> (config_exn + unit)" where
  "write_and_replace fails content d =
     (if \<not> is_ascii content then (d\<lparr>temporary := Some []\<rparr>, Inl Encode_error)
      else (case fs_try fails Write_temp of
        Inl e \<Rightarrow> (d\<lparr>temporary := Some []\<rparr>, Inl e)
      | Inr _ \<Rightarrow> (case rbind (fs_try fails Chmod_temp) (\<lambda>_. fs_try fails Replace_target) of
          Inl e \<Rightarrow> (d\<lparr>temporary := Some content\<rparr>, Inl e)
        | Inr _ \<Rightarrow> (d\<lparr>target := Some content, temporary := None\<rparr>, Inr ()))))"

definition atomic_write :: "(fs_op \<rightharpoonup> pystr) \<Rightarrow> pystr \<Rightarrow> disk \<Rightarrow> disk \<times> (config_exn + unit)" where
  "atomic_write fails content d =
     (case rbind (fs_try fails Make_parents) (\<lambda>_. fs_try fails Make_temp) of
        Inl e \<Rightarrow> (d, Inl e)
      | Inr _ \<Rightarrow> (case write_and_replace fails content d of
          (d', Inr u) \<Rightarrow> (d', Inr u)
        | (d', Inl e) \<Rightarrow> (case fs_try fails Unlink_temp of
            Inl e' \<Rightarrow> (d', Inl e')
          | Inr _ \<Rightarrow> (d'\<lparr>temporary := None\<rparr>, Inl e))))"

section \<open>The command\<close>

definition key_name :: pystr where
  "key_name = ''SEARXNG_X402_PRIVKEY''"

definition x402_defaults :: "(pystr \<times> pystr) list" where
  "x402_defaults = [(key_name, []), (''SEARXNG_ROUND_ROBIN'', ''true'')]"

definition wrapper_x402_enabled :: "pystr \<Rightarrow> file_text \<Rightarrow> settings \<Rightarrow> config_exn + bool" where
  "wrapper_x402_enabled path file env =
     rbind (read_wrapper_settings False False (map fst x402_defaults) path file) (\<lambda>vals.
       (let vals = override_from (map fst x402_defaults) env (map_of x402_defaults ++ vals)
        in (case x402_enabled (Some (setting vals key_name)) (setting vals ''SEARXNG_ROUND_ROBIN'') of
              Inl e \<Rightarrow> Inl (Config_error (exn_str e))
            | Inr b \<Rightarrow> Inr b)))"

datatype action = Get | Validate | Render | Query_x402

record arguments =
  act :: action
  name_arg :: "pystr option"
  output_arg :: "pystr option"

text \<open>A text argument that is absent or empty is false.\<close>

definition given :: "pystr option \<Rightarrow> bool" where
  "given a \<longleftrightarrow> a \<noteq> None \<and> a \<noteq> Some []"

text \<open>What an action prints, or the exception that leaves it. The settings file does not
  change while the command runs.\<close>

definition query_x402 :: "arguments \<Rightarrow> pystr \<Rightarrow> file_text \<Rightarrow> settings \<Rightarrow> config_exn + pystr list" where
  "query_x402 args path file env =
     (if given (name_arg args) \<or> given (output_arg args)
      then Inl (Config_error ''x402-enabled accepts only --settings-file'')
      else rbind (wrapper_x402_enabled path file env) (\<lambda>b. Inr [if b then ''true'' else ''false'']))"

definition get_setting :: "arguments \<Rightarrow> settings \<Rightarrow> config_exn + pystr list" where
  "get_setting args vals =
     (if \<not> given (name_arg args) then Inl (Config_error ''--name is required for get'')
      else if given (output_arg args) then Inl (Config_error ''--output is valid only for render'')
      else Inr [setting vals (the (name_arg args))])"

definition render_action ::
  "(fs_op \<rightharpoonup> pystr) \<Rightarrow> arguments \<Rightarrow> tor_roles \<Rightarrow> disk \<Rightarrow> disk \<times> (config_exn + pystr list)" where
  "render_action fails args r d =
     (if \<not> given (output_arg args) then (d, Inl (Config_error ''--output is required for render''))
      else (case render_text r of
        Inl e \<Rightarrow> (d, Inl e)
      | Inr content \<Rightarrow> (case atomic_write fails content d of
          (d', res) \<Rightarrow> (d', rbind res (\<lambda>_. Inr [])))))"

definition checked_action ::
  "codec \<Rightarrow> (fs_op \<rightharpoonup> pystr) \<Rightarrow> arguments \<Rightarrow> pystr \<Rightarrow> file_text \<Rightarrow> settings \<Rightarrow> settings \<Rightarrow> disk
     \<Rightarrow> disk \<times> (config_exn + pystr list)" where
  "checked_action u fails args path file env vals d =
     (if given (name_arg args) then (d, Inl (Config_error ''--name is valid only for get''))
      else (case rbind (if act args = Validate
                        then rbind (wrapper_x402_enabled path file env) (\<lambda>_. Inr ()) else Inr ())
                   (\<lambda>_. validate_settings u vals) of
        Inl e \<Rightarrow> (d, Inl e)
      | Inr r \<Rightarrow>
          (if act args = Render then render_action fails args r d
           else if given (output_arg args)
           then (d, Inl (Config_error ''--output is valid only for render''))
           else (d, Inr []))))"

definition run_action ::
  "codec \<Rightarrow> (fs_op \<rightharpoonup> pystr) \<Rightarrow> arguments \<Rightarrow> pystr \<Rightarrow> file_text \<Rightarrow> settings \<Rightarrow> disk
     \<Rightarrow> disk \<times> (config_exn + pystr list)" where
  "run_action u fails args path file env d =
     (if act args = Query_x402 then (d, query_x402 args path file env)
      else (case settings_from_file_and_environment (act args \<noteq> Get) (act args \<noteq> Get) path file env of
        Inl e \<Rightarrow> (d, Inl e)
      | Inr vals \<Rightarrow>
          (if act args = Get then (d, get_setting args vals)
           else checked_action u fails args path file env vals d)))"

text \<open>The exit status; an exception \<open>main\<close> does not catch is a traceback.\<close>

datatype exit = Status nat | Traceback

definition main :: "codec \<Rightarrow> (fs_op \<rightharpoonup> pystr) \<Rightarrow> arguments \<Rightarrow> pystr \<Rightarrow> file_text \<Rightarrow> settings \<Rightarrow> disk
    \<Rightarrow> disk \<times> pystr list \<times> exit" where
  "main u fails args path file env d = (case run_action u fails args path file env d of
     (d', Inr printed) \<Rightarrow> (d', printed, Status 0)
   | (d', Inl (Config_error m)) \<Rightarrow> (d', [], Status 1)
   | (d', Inl (File_error m)) \<Rightarrow> (d', [], Status 1)
   | (d', Inl _) \<Rightarrow> (d', [], Traceback))"

section \<open>Quoted values\<close>

lemma rbind_Inr_id [simp]: "rbind r Inr = r"
  by (cases r) simp_all

lemma lex_in_quotes:
  "squote \<notin> set v \<Longrightarrow> lex (Quoted squote) q tok (v @ [squote]) = Inr [tok @ v]"
  by (induction v arbitrary: q tok) (auto simp: emit_token_def squote_def dquote_def)

lemma shlex_quoted: "squote \<notin> set v \<Longrightarrow> shlex_tokens (squote # v @ [squote]) = Inr [v]"
  by (simp add: shlex_tokens_def lex_in_quotes)
     (simp add: squote_def lex_space_def backslash_def)

text \<open>The canonical line of a setting, its value in single quotes.\<close>

definition quoted_line :: "pystr \<times> pystr \<Rightarrow> pystr" where
  "quoted_line p = fst p @ ''='' @ [squote] @ snd p @ [squote]"

definition quotable :: "pystr \<times> pystr \<Rightarrow> bool" where
  "quotable p \<longleftrightarrow> setting_name (fst p) \<and> squote \<notin> set (snd p) \<and>
     list_all (\<lambda>c. \<not> line_break c) (snd p)"

lemma setting_name_chars:
  assumes "setting_name n"
  shows "n \<noteq> []" "c \<in> set n \<Longrightarrow> \<not> is_space c \<and> \<not> line_break c \<and> c \<noteq> CHR ''='' \<and> c \<noteq> CHR ''#''"
proof -
  show "n \<noteq> []" using assms by (simp add: setting_name_def)
  assume "c \<in> set n"
  with assms have "is_upper_ascii c \<or> is_digit c \<or> c = CHR ''_''"
    by (auto simp: setting_name_def list_all_iff)
  then show "\<not> is_space c \<and> \<not> line_break c \<and> c \<noteq> CHR ''='' \<and> c \<noteq> CHR ''#''"
    by (auto simp: is_upper_ascii_def is_digit_def is_space_def line_break_def ord_c_def)
qed

lemma setting_name_strip:
  assumes "setting_name n"
  shows "py_strip n = n" "lstrip_by is_space (n @ s) = n @ s"
proof -
  have "\<not> is_space (hd n)" "\<not> is_space (last n)" "n \<noteq> []"
    using setting_name_chars [OF assms] by auto
  then show "py_strip n = n" "lstrip_by is_space (n @ s) = n @ s"
    by (simp_all add: py_strip_def strip_id lstrip_by_def dropWhile_hd)
qed

lemma partition_setting:
  assumes "setting_name n"
  shows "partition_c (CHR ''='') (n @ ''='' @ s) = (n, True, s)"
proof -
  have "CHR ''='' \<notin> set n" using setting_name_chars(2) [OF assms] by blast
  then show ?thesis by simp
qed

lemma partition_quoted_line:
  "setting_name (fst p) \<Longrightarrow>
   partition_c (CHR ''='') (quoted_line p) = (fst p, True, squote # snd p @ [squote])"
  using partition_setting [of "fst p" "squote # snd p @ [squote]"] by (simp add: quoted_line_def)

lemma lstrip_quoted_line:
  "setting_name (fst p) \<Longrightarrow> lstrip_by is_space (quoted_line p) = quoted_line p"
  unfolding quoted_line_def by (rule setting_name_strip)

lemma read_quoted_line:
  assumes "quotable p"
  shows "read_line va names n (quoted_line p) vals = Inr (if fst p \<in> set names then vals(fst p \<mapsto> snd p) else vals)"
proof -
  have nm: "setting_name (fst p)" "squote \<notin> set (snd p)"
    using assms by (auto simp: quotable_def)
  note chars = setting_name_chars [OF nm(1)]
  have "hd (quoted_line p) \<noteq> CHR ''#''" "quoted_line p \<noteq> []"
    using chars by (auto simp: quoted_line_def)
  then have hash: "\<not> starts_with (lstrip_by is_space (quoted_line p)) ''#''"
    unfolding lstrip_quoted_line [OF nm(1)] by (cases "quoted_line p") auto
  have blank: "py_strip (quoted_line p) \<noteq> []"
  proof -
    have "\<not> is_space (last (quoted_line p))"
      by (simp add: quoted_line_def) (simp add: squote_def is_space_def ord_c_def)
    then show ?thesis
      unfolding py_strip_def strip_by_def lstrip_quoted_line [OF nm(1)]
      using \<open>quoted_line p \<noteq> []\<close> by (simp add: rstrip_id)
  qed
  have "parse_env_value n (squote # snd p @ [squote]) = Inr (snd p)"
    using nm(2) by (simp add: parse_env_value_def shlex_quoted)
  then show ?thesis
    unfolding read_line_def partition_quoted_line [OF nm(1)] prod.case Let_def setting_name_strip(1) [OF nm(1)]
    by (cases "fst p \<in> set names"; cases va) (simp_all only: hash blank nm(1) if_True if_False simp_thms rbind_simps)
qed

lemma read_quoted_lines:
  "list_all quotable ps \<Longrightarrow>
   read_lines va names n (map quoted_line ps) vals = Inr (vals ++ map_of (rev ps) |` set names)"
proof (induction ps arbitrary: n vals)
  case (Cons p ps)
  have "vals(fst p \<mapsto> snd p) ++ map_of (rev ps) |` set names = vals ++ map_of (rev (p # ps)) |` set names"
    if "fst p \<in> set names"
    using that by (auto simp: fun_eq_iff map_add_def restrict_map_def split: option.splits)
  moreover have "vals ++ map_of (rev ps) |` set names = vals ++ map_of (rev (p # ps)) |` set names"
    if "fst p \<notin> set names"
    using that by (auto simp: fun_eq_iff map_add_def restrict_map_def split: option.splits)
  ultimately show ?case using Cons by (simp add: read_quoted_line del: rev.simps)
qed (simp add: fun_eq_iff restrict_map_def map_add_def)

lemma splitlines_quoted:
  "list_all quotable ps \<Longrightarrow>
   splitlines (concat (map (\<lambda>p. quoted_line p @ [CHR 0x0A]) ps)) = map quoted_line ps"
proof (induction ps)
  case (Cons p ps)
  have nm: "setting_name (fst p)" "list_all (\<lambda>c. \<not> line_break c) (snd p)"
    using Cons.prems by (auto simp: quotable_def)
  have "\<not> line_break squote" "\<not> line_break (CHR ''='')"
    by (simp_all add: squote_def line_break_def ord_c_def)
  then have "list_all (\<lambda>c. \<not> line_break c) (quoted_line p)"
    using setting_name_chars(2) [OF nm(1)] nm(2) by (auto simp: quoted_line_def list_all_iff)
  with Cons show ?case by (simp add: splitlines_def lines_from_line)
qed (simp add: splitlines_def)

section \<open>Two readings of one file\<close>

lemma read_line_validated:
  "read_line True names n l vals = Inr r \<Longrightarrow> read_line False names n l vals = Inr r"
  by (auto simp: read_line_def Let_def rbind_Inr_iff split: if_splits prod.splits)

lemma read_lines_validated:
  "read_lines True names n ls vals = Inr r \<Longrightarrow> read_lines False names n ls vals = Inr r"
  by (induction ls arbitrary: n vals) (auto simp: rbind_Inr_iff dest!: read_line_validated)

text \<open>What settings of other names a file holds does not matter to an unvalidated reading.\<close>

lemma read_line_names:
  "read_line va names n l vals = Inr r \<Longrightarrow> dom r \<subseteq> dom vals \<union> set names"
  by (auto simp: read_line_def Let_def rbind_Inr_iff split: if_splits prod.splits)

lemma read_lines_names:
  "read_lines va names n ls vals = Inr r \<Longrightarrow> dom r \<subseteq> dom vals \<union> set names"
proof (induction ls arbitrary: n vals)
  case (Cons l ls)
  then obtain v where "read_line va names n l vals = Inr v" "read_lines va names (Suc n) ls v = Inr r"
    by (auto simp: rbind_Inr_iff)
  with Cons.IH [of "Suc n" v] read_line_names [of va names n l vals v] show ?case by blast
qed simp

section \<open>Validated settings\<close>

lemma normalize_country_shape:
  assumes "normalize_country v = Inr c" "c \<noteq> []"
  shows "length c = 2 \<and> list_all is_lower_ascii c"
proof -
  have v: "length v = 2" "list_all is_alpha_ascii v" "c = py_lower v"
    using assms by (auto simp: normalize_country_def split: if_splits)
  have "is_lower_ascii (lower_c x)" if "is_alpha_ascii x" for x
    using that by (auto simp: is_alpha_ascii_def is_upper_ascii_def is_lower_ascii_def ord_c_lower)
  with v show ?thesis by (auto simp: py_lower_def list_all_iff)
qed

text \<open>A fingerprint in normal form.\<close>

definition upper_hex :: "char \<Rightarrow> bool" where
  "upper_hex c \<longleftrightarrow> is_digit c \<or> (65 \<le> ord_c c \<and> ord_c c \<le> 70)"

definition fingerprint :: "pystr \<Rightarrow> bool" where
  "fingerprint f \<longleftrightarrow> length f = 40 \<and> list_all upper_hex f"

lemma upper_hex_char:
  assumes "is_hex c"
  shows "\<exists>d. upper_c c = [d] \<and> upper_hex d"
proof -
  consider "is_digit c" | "65 \<le> ord_c c \<and> ord_c c \<le> 70" | "97 \<le> ord_c c \<and> ord_c c \<le> 102"
    using assms by (auto simp: is_hex_def)
  then show ?thesis
  proof cases
    case 3
    then have "ord_c (char_of (ord_c c - 32)) = ord_c c - 32"
      by (simp only: ord_c_char_of) (intro mod_less, linarith)
    moreover from 3 have "65 \<le> ord_c c - 32 \<and> ord_c c - 32 \<le> 70" by linarith
    ultimately show ?thesis using 3 by (simp add: upper_c_def Let_def upper_hex_def)
  qed (auto simp: upper_c_def Let_def upper_hex_def is_digit_def)
qed

lemma upper_hex_word:
  "list_all is_hex s \<Longrightarrow> length (py_upper s) = length s \<and> list_all upper_hex (py_upper s)"
proof (induction s)
  case (Cons c s)
  moreover obtain d where "upper_c c = [d]" "upper_hex d" using Cons.prems upper_hex_char by auto
  ultimately show ?case by (simp add: py_upper_def)
qed (simp add: py_upper_def)

lemma upper_hex_upper: "list_all upper_hex s \<Longrightarrow> py_upper s = s \<and> list_all is_hex s \<and> \<not> starts_with s ''$''"
proof (induction s)
  case (Cons c s)
  then have c: "upper_hex c" by simp
  then have "upper_c c = [c]" "is_hex c" "c \<noteq> CHR ''$''"
    by (auto simp: upper_c_def Let_def upper_hex_def is_hex_def is_digit_def ord_c_def)
  with Cons show ?case by (simp add: py_upper_def)
qed (simp add: py_upper_def)

lemma normalize_fingerprint_shape: "normalize_fingerprint v = Inr f \<Longrightarrow> fingerprint f"
  by (auto simp: normalize_fingerprint_def Let_def fingerprint_def upper_hex_word split: if_splits)

lemma normalize_fingerprint_id: "fingerprint f \<Longrightarrow> normalize_fingerprint f = Inr f"
  using upper_hex_upper [of f] by (simp add: normalize_fingerprint_def fingerprint_def)

lemma normalize_fingerprint_dollar: "fingerprint f \<Longrightarrow> normalize_fingerprint (CHR ''$'' # f) = Inr f"
  using upper_hex_upper [of f] by (simp add: normalize_fingerprint_def fingerprint_def)

lemma normalize_fingerprints_shape:
  assumes "normalize_fingerprints v = Inr fs"
  shows "length fs \<le> 16 \<and> distinct fs \<and> list_all fingerprint fs"
proof (cases "v = []")
  case False
  with assms have r: "rmapM normalize_fingerprint (split_on (CHR '','') v) = Inr fs"
    and d: "distinct fs" "length (split_on (CHR '','') v) \<le> 16"
    by (auto simp: normalize_fingerprints_def Let_def rbind_Inr_iff split: if_splits)
  have "list_all fingerprint fs"
    using rmapM_Inr_set [OF r] normalize_fingerprint_shape by (fastforce simp: list_all_iff)
  with d rmapM_Inr_length [OF r] show ?thesis by simp
qed (use assms in \<open>simp add: normalize_fingerprints_def\<close>)

text \<open>What a selector line may be: a country of two lower-case letters or fingerprints in normal
  form, nothing else.\<close>

definition selector_line :: "pystr \<Rightarrow> bool" where
  "selector_line l \<longleftrightarrow>
     (\<exists>cc. l = ''ExitNodes {'' @ cc @ ''}'' \<and> length cc = 2 \<and> list_all is_lower_ascii cc) \<or>
     (\<exists>fs. l = ''ExitNodes '' @ join '','' (map (\<lambda>i. ''$'' @ i) fs) \<and> fs \<noteq> [] \<and> length fs \<le> 16 \<and>
           distinct fs \<and> list_all fingerprint fs)"

lemma validate_settings_shape:
  assumes "validate_settings u vals = Inr r"
  shows "exit_country r = [] \<or> length (exit_country r) = 2 \<and> list_all is_lower_ascii (exit_country r)"
    and "length (exit_fingerprints r) \<le> 16" "distinct (exit_fingerprints r)"
      "list_all fingerprint (exit_fingerprints r)"
    and "exit_country r = [] \<or> exit_fingerprints r = []"
    and "exit_country r \<noteq> [] \<or> exit_fingerprints r \<noteq> [] \<Longrightarrow> egress_role r"
    and "egress_role r \<Longrightarrow> setting vals ''EGRESS_UPSTREAM_PROXY_URL'' = []"
proof -
  obtain e n or c fs where steps:
    "normalize_country (setting vals ''TOR_EXIT_COUNTRY'') = Inr c"
    "normalize_fingerprints (setting vals ''TOR_EXIT_NODE_FINGERPRINTS'') = Inr fs"
    and r: "r = \<lparr>egress_role = e, onion_role = n, exit_country = c, exit_fingerprints = fs\<rparr>"
    and ok: "\<not> ((c \<noteq> [] \<or> fs \<noteq> []) \<and> \<not> e)" "\<not> (c \<noteq> [] \<and> fs \<noteq> [])"
      "\<not> (setting vals ''EGRESS_UPSTREAM_PROXY_URL'' \<noteq> [] \<and> e)"
    using assms unfolding validate_settings_def rbind_Inr_iff by (clarsimp split: if_splits) blast+
  show "exit_country r = [] \<or> length (exit_country r) = 2 \<and> list_all is_lower_ascii (exit_country r)"
    using normalize_country_shape [OF steps(1)] r by auto
  show "length (exit_fingerprints r) \<le> 16" "distinct (exit_fingerprints r)"
      "list_all fingerprint (exit_fingerprints r)"
    using normalize_fingerprints_shape [OF steps(2)] r by auto
  show "exit_country r = [] \<or> exit_fingerprints r = []"
    "exit_country r \<noteq> [] \<or> exit_fingerprints r \<noteq> [] \<Longrightarrow> egress_role r"
    "egress_role r \<Longrightarrow> setting vals ''EGRESS_UPSTREAM_PROXY_URL'' = []"
    using ok r by auto
qed

lemma exit_lines_selectors:
  assumes "validate_settings u vals = Inr r"
  shows "list_all selector_line (exit_lines (exit_country r) (exit_fingerprints r))"
    "length (exit_lines (exit_country r) (exit_fingerprints r)) \<le> 1"
  using validate_settings_shape(1-4) [OF assms] by (auto simp: exit_lines_def selector_line_def)

definition plain_line :: "pystr \<Rightarrow> bool" where
  "plain_line l \<longleftrightarrow> list_all (\<lambda>c. 32 \<le> ord_c c \<and> ord_c c < 127) l"

lemma plain_append: "plain_line (a @ b) \<longleftrightarrow> plain_line a \<and> plain_line b"
  by (simp add: plain_line_def)

lemma plain_join: "plain_line sep \<Longrightarrow> list_all plain_line ws \<Longrightarrow> plain_line (join sep ws)"
  by (induction sep ws rule: join.induct) (auto simp: plain_line_def)

lemma plain_fingerprint: "fingerprint f \<Longrightarrow> plain_line f"
  by (auto simp: fingerprint_def plain_line_def list_all_iff upper_hex_def is_digit_def)

lemma plain_selector:
  assumes "selector_line l"
  shows "plain_line l"
  using assms unfolding selector_line_def
proof (elim disjE exE conjE)
  fix cc assume "l = ''ExitNodes {'' @ cc @ ''}''" "list_all is_lower_ascii cc"
  moreover from this(2) have "plain_line cc"
    by (auto simp: plain_line_def list_all_iff is_lower_ascii_def)
  ultimately show ?thesis by (simp add: plain_line_def ord_c_def)
next
  fix fs assume l: "l = ''ExitNodes '' @ join '','' (map (\<lambda>i. ''$'' @ i) fs)" and fs: "list_all fingerprint fs"
  have "list_all plain_line (map (\<lambda>i. ''$'' @ i) fs)"
    using fs plain_fingerprint by (auto simp: list_all_iff plain_line_def ord_c_def)
  then have "plain_line (join '','' (map (\<lambda>i. ''$'' @ i) fs))"
    by (intro plain_join) (auto simp: plain_line_def ord_c_def)
  moreover have "plain_line ''ExitNodes ''" by (simp add: plain_line_def ord_c_def)
  ultimately show ?thesis unfolding l plain_append by blast
qed

lemma plain_fixed: "list_all plain_line (fixed_lines e)" "list_all plain_line (onion_lines n)"
  by (auto simp: fixed_lines_def onion_lines_def plain_line_def ord_c_def)

lemma plain_no_newline: "plain_line l \<Longrightarrow> CHR 0x0A \<notin> set l"
  by (auto simp: plain_line_def list_all_iff ord_c_def)

lemma plain_ascii: "plain_line l \<Longrightarrow> is_ascii l"
  by (auto simp: plain_line_def list_all_iff is_ascii_def ascii_c_def)

lemma ascii_join: "is_ascii sep \<Longrightarrow> list_all is_ascii ws \<Longrightarrow> is_ascii (join sep ws)"
  by (induction sep ws rule: join.induct) auto

text \<open>The lines of a rendered torrc.\<close>

lemma join_line_end: "ws \<noteq> [] \<Longrightarrow> join [c] (ws @ [[]]) = join [c] ws @ [c]"
  by (induction ws rule: induct_list012) auto

lemma split_on_line_end:
  "ws \<noteq> [] \<Longrightarrow> list_all (\<lambda>w. c \<notin> set w) ws \<Longrightarrow> split_on c (join [c] ws @ [c]) = ws @ [[]]"
  using split_on_join [of "ws @ [[]]" c] by (simp add: join_line_end)

lemma rendered_lines:
  assumes "validate_settings u vals = Inr r" "render_text r = Inr t"
  shows "split_on (CHR 0x0A) t =
      (fixed_lines (egress_role r) @ exit_lines (exit_country r) (exit_fingerprints r)
       @ onion_lines (onion_role r)) @ [[]]" "is_ascii t"
proof -
  let ?ws = "fixed_lines (egress_role r) @ exit_lines (exit_country r) (exit_fingerprints r)
       @ onion_lines (onion_role r)"
  have t: "t = join [CHR 0x0A] ?ws @ [CHR 0x0A]"
    using assms(2) by (auto simp: render_text_def split: if_splits)
  have "list_all plain_line ?ws"
    using exit_lines_selectors(1) [OF assms(1)] plain_selector plain_fixed by (auto simp: list_all_iff)
  then have "list_all (\<lambda>w. CHR 0x0A \<notin> set w) ?ws" "list_all is_ascii ?ws"
    by (auto simp: list_all_iff dest: plain_no_newline plain_ascii)
  moreover have "?ws \<noteq> []" by (simp add: fixed_lines_def)
  ultimately show "split_on (CHR 0x0A) t = ?ws @ [[]]" "is_ascii t"
    unfolding t by (auto simp: split_on_line_end ascii_join ascii_c_def ord_c_def)
qed

lemma atomic_write_cases:
  assumes "atomic_write fails t d = (d', r)"
  shows "(\<exists>v. r = Inr v) \<and> d' = d\<lparr>target := Some t, temporary := None\<rparr> \<or>
    (\<exists>e. r = Inl e) \<and> target d' = target d \<and>
      (fails Unlink_temp = None \<longrightarrow> temporary d' = None \<or> temporary d' = temporary d)"
  using assms
  by (auto simp: atomic_write_def write_and_replace_def fs_try_def Let_def
      split: sum.splits prod.splits option.splits if_splits)

lemma atomic_write_error:
  assumes "atomic_write fails t d = (d', Inl e)" "is_ascii t"
  shows "\<exists>m. e = File_error m"
proof -
  have fe: "\<And>x e. fs_try fails x = Inl e \<Longrightarrow> \<exists>m. e = File_error m"
    by (auto simp: fs_try_def split: option.splits)
  show ?thesis using assms
    by (auto simp: atomic_write_def write_and_replace_def rbind_Inl_iff
        split: sum.splits if_splits dest: fe)
qed

text \<open>Each check raises the module's exception only.\<close>

definition config_only :: "config_exn + 'a \<Rightarrow> bool" where
  "config_only r \<longleftrightarrow> (\<forall>e. r = Inl e \<longrightarrow> (\<exists>m. e = Config_error m))"

named_theorems config_rules "computations whose only exception is ConfigError"

lemma config_basic [config_rules]:
  "config_only (Inr x)" "config_only (Inl (Config_error m))" "config_only (raise_if b (Config_error m))"
  by (auto simp: config_only_def)

lemma config_bind [config_rules]:
  "config_only r \<Longrightarrow> (\<And>x. r = Inr x \<Longrightarrow> config_only (f x)) \<Longrightarrow> config_only (rbind r f)"
  by (auto simp: config_only_def rbind_Inl_iff)

lemma config_if [config_rules]:
  "(b \<Longrightarrow> config_only x) \<Longrightarrow> (\<not> b \<Longrightarrow> config_only y) \<Longrightarrow> config_only (if b then x else y)"
  by simp

lemma config_parse_env_value [config_rules]: "config_only (parse_env_value n v)"
  by (auto simp: parse_env_value_def config_only_def split: sum.splits list.splits)

lemma config_read_line [config_rules]: "config_only (read_line va names n l vals)"
  unfolding read_line_def Let_def by (auto intro!: config_rules split: prod.splits)

lemma config_read_lines [config_rules]: "config_only (read_lines va names n ls vals)"
  by (induction ls arbitrary: n vals) (auto intro!: config_rules)

lemma config_parse_bool [config_rules]: "config_only (parse_bool n v)"
  by (auto simp: parse_bool_def intro!: config_rules)

lemma config_validate_origin [config_rules]: "config_only (validate_origin u v)"
  unfolding validate_origin_def check_origin_url_def check_origin_host_def origin_error_def
  by (auto simp: config_basic intro!: config_rules split: sum.splits prod.splits option.splits)

lemma config_normalize_country [config_rules]: "config_only (normalize_country v)"
  by (auto simp: normalize_country_def intro!: config_rules)

lemma config_rmapM [config_rules]: "(\<And>x. config_only (f x)) \<Longrightarrow> config_only (rmapM f xs)"
  by (induction xs) (auto intro!: config_rules)

lemma config_normalize_fingerprints [config_rules]: "config_only (normalize_fingerprints v)"
proof -
  have "config_only (normalize_fingerprint x)" for x
    by (auto simp: normalize_fingerprint_def Let_def intro!: config_rules)
  then show ?thesis by (auto simp: normalize_fingerprints_def Let_def intro!: config_rules)
qed

lemma config_validate_settings [config_rules]: "config_only (validate_settings u vals)"
  unfolding validate_settings_def by (intro config_rules)

lemma config_render_text [config_rules]: "config_only (render_text r)"
  by (auto simp: render_text_def intro!: config_rules)

lemma read_settings_error:
  assumes "read_wrapper_settings rf va names path file = Inl e"
  shows "(\<exists>m. e = Config_error m) \<or> (\<exists>m. e = File_error m) \<or> (file = Not_utf8 \<and> e = Decode_error)"
  using assms config_read_lines
  by (auto simp: read_wrapper_settings_def config_only_def split: file_text.splits if_splits)

lemma settings_error:
  assumes "settings_from_file_and_environment rf va path file env = Inl e"
  shows "(\<exists>m. e = Config_error m) \<or> (\<exists>m. e = File_error m) \<or> (file = Not_utf8 \<and> e = Decode_error)"
  using assms by (auto simp: settings_from_file_and_environment_def rbind_Inl_iff dest!: read_settings_error)

lemma x402_error:
  assumes "wrapper_x402_enabled path file env = Inl e"
  shows "(\<exists>m. e = Config_error m) \<or> (\<exists>m. e = File_error m) \<or> (file = Not_utf8 \<and> e = Decode_error)"
proof (cases "read_wrapper_settings False False (map fst x402_defaults) path file")
  case (Inl e')
  with assms have "e' = e" by (simp add: wrapper_x402_enabled_def)
  with Inl read_settings_error show ?thesis by blast
next
  case (Inr vals)
  with assms show ?thesis
    by (simp only: wrapper_x402_enabled_def rbind_simps Let_def split: sum.splits) auto
qed

text \<open>The outcomes of a checked action.\<close>

lemma render_action_outcome:
  assumes "validate_settings u vals = Inr r" "render_action fails args r d = (d', res)"
  shows "(\<exists>t p. render_text r = Inr t \<and> res = Inr [] \<and> target d' = Some t \<and> temporary d' = None) \<or>
    (\<exists>m. res = Inl (Config_error m) \<or> res = Inl (File_error m)) \<and> target d' = target d"
proof (cases "given (output_arg args)")
  case True
  show ?thesis
  proof (cases "render_text r")
    case (Inl e)
    then have "\<exists>m. e = Config_error m" using config_render_text by (auto simp: config_only_def)
    with Inl True assms(2) show ?thesis by (auto simp: render_action_def)
  next
    case (Inr t)
    obtain d1 r1 where w: "atomic_write fails t d = (d1, r1)" by fastforce
    have out: "d' = d1" "res = rbind r1 (\<lambda>_. Inr [])"
      using assms(2) True Inr w by (auto simp: render_action_def)
    show ?thesis
    proof (cases r1)
      case (Inl e)
      then show ?thesis
        using w out atomic_write_cases [OF w] atomic_write_error [of fails t d d1 e]
          rendered_lines(2) [OF assms(1) Inr] by auto
    next
      case (Inr v)
      then show ?thesis using \<open>render_text r = Inr t\<close> out atomic_write_cases [OF w] by auto
    qed
  qed
qed (use assms(2) in \<open>auto simp: render_action_def\<close>)

lemma checked_action_outcome:
  assumes "checked_action u fails args path file env vals d = (d', res)"
  shows "(\<exists>r t. act args = Render \<and> validate_settings u vals = Inr r \<and> render_text r = Inr t \<and> res = Inr [] \<and>
            target d' = Some t \<and> temporary d' = None) \<or>
    act args = Render \<and> (\<exists>m. res = Inl (Config_error m) \<or> res = Inl (File_error m)) \<and> target d' = target d \<or>
    d' = d \<and> (act args \<noteq> Render \<and> (\<exists>out. res = Inr out) \<or>
       (\<exists>m. res = Inl (Config_error m) \<or> res = Inl (File_error m)) \<or> (file = Not_utf8 \<and> res = Inl Decode_error))"
proof (cases "given (name_arg args)")
  case False
  let ?pre = "rbind (if act args = Validate
                then rbind (wrapper_x402_enabled path file env) (\<lambda>_. Inr ()) else Inr ())
              (\<lambda>_. validate_settings u vals)"
  show ?thesis
  proof (cases ?pre)
    case (Inl e)
    then have "(\<exists>m. e = Config_error m) \<or> (\<exists>m. e = File_error m) \<or> (file = Not_utf8 \<and> e = Decode_error)"
      using config_validate_settings [of u vals]
      by (auto simp: rbind_Inl_iff config_only_def split: if_splits dest!: x402_error)
    with Inl False assms show ?thesis by (auto simp: checked_action_def)
  next
    case (Inr r)
    then have r: "validate_settings u vals = Inr r" by (auto simp: rbind_Inr_iff)
    show ?thesis
    proof (cases "act args = Render")
      case True
      have "checked_action u fails args path file env vals d = render_action fails args r d"
        unfolding checked_action_def Inr using False True by simp
      with assms have "render_action fails args r d = (d', res)" by simp
      from render_action_outcome [OF r this] show ?thesis
        using r True by (elim disjE exE conjE) auto
    next
      case act: False
      have "checked_action u fails args path file env vals d =
          (if given (output_arg args) then (d, Inl (Config_error ''--output is valid only for render''))
           else (d, Inr []))"
        unfolding checked_action_def Inr using False act by simp
      with act assms show ?thesis by (auto split: if_splits)
    qed
  qed
qed (use assms in \<open>auto simp: checked_action_def\<close>)

lemma run_action_outcome:
  assumes "run_action u fails args path file env d = (d', res)"
  shows "(\<exists>vals r t. act args = Render \<and>
            settings_from_file_and_environment True True path file env = Inr vals \<and>
            validate_settings u vals = Inr r \<and> render_text r = Inr t \<and> res = Inr [] \<and>
            target d' = Some t \<and> temporary d' = None) \<or>
    act args = Render \<and> (\<exists>m. res = Inl (Config_error m) \<or> res = Inl (File_error m)) \<and> target d' = target d \<or>
    d' = d \<and> (act args \<noteq> Render \<and> (\<exists>out. res = Inr out) \<or>
       (\<exists>m. res = Inl (Config_error m) \<or> res = Inl (File_error m)) \<or> (file = Not_utf8 \<and> res = Inl Decode_error))"
proof (cases "act args = Query_x402")
  case True
  with assms have d: "d' = d" "res = query_x402 args path file env" by (auto simp: run_action_def)
  show ?thesis
    using True d by (auto simp: query_x402_def rbind_def split: sum.splits dest!: x402_error)
next
  case False
  show ?thesis
  proof (cases "settings_from_file_and_environment (act args \<noteq> Get) (act args \<noteq> Get) path file env")
    case (Inl e)
    with False assms show ?thesis using settings_error [OF Inl] by (auto simp: run_action_def)
  next
    case (Inr vals)
    show ?thesis
    proof (cases "act args = Get")
      case True
      with Inr assms show ?thesis by (auto simp: run_action_def get_setting_def split: if_splits)
    next
      case get: False
      with Inr False assms have "checked_action u fails args path file env vals d = (d', res)"
        by (simp add: run_action_def)
      from checked_action_outcome [OF this] Inr get show ?thesis by simp
    qed
  qed
qed

section \<open>The properties\<close>

text \<open>
  C21 (safety). Whatever the settings hold, a torrc rendered from settings that validate has
  exactly the fixed lines, at most one ExitNodes line of the two well-formed shapes, and the
  onion service lines: no setting injects another directive. An ExitNodes line appears only when
  the egress role is on and no upstream proxy is configured.
\<close>

theorem torrc_confined:
  assumes "validate_settings u vals = Inr r" and "render_text r = Inr t"
  shows "\<exists>sel. split_on (CHR 0x0A) t = fixed_lines (egress_role r) @ sel @ onion_lines (onion_role r) @ [[]] \<and>
    length sel \<le> 1 \<and> list_all selector_line sel \<and>
    (sel = [] \<or> egress_role r \<and> setting vals ''EGRESS_UPSTREAM_PROXY_URL'' = [])"
proof -
  let ?sel = "exit_lines (exit_country r) (exit_fingerprints r)"
  have "?sel = [] \<or> egress_role r"
    using validate_settings_shape(6) [OF assms(1)] by (auto simp: exit_lines_def)
  then show ?thesis
    using rendered_lines(1) [OF assms] exit_lines_selectors [OF assms(1)]
      validate_settings_shape(7) [OF assms(1)]
    by (intro exI [of _ ?sel]) auto
qed

definition sample_codec :: codec where
  "sample_codec = \<lparr>idna_nonascii = (\<lambda>_. None), utf8_replace = (\<lambda>b. b)\<rparr>"

definition sample_settings :: settings where
  "sample_settings = (map_of setting_defaults)
     (''TOR_EGRESS_ENABLED'' \<mapsto> ''true'', ''TOR_EXIT_COUNTRY'' \<mapsto> ''DE'')"

definition sample_roles :: tor_roles where
  "sample_roles = \<lparr>egress_role = True, onion_role = False, exit_country = ''de'', exit_fingerprints = []\<rparr>"

lemma sample_validates: "validate_settings sample_codec sample_settings = Inr sample_roles"
  by code_simp

lemma torrc_confined_witness:
  "\<exists>t sel. render_text sample_roles = Inr t \<and> split_on (CHR 0x0A) t = fixed_lines True @ sel @ [[]] \<and>
    length sel \<le> 1 \<and> list_all selector_line sel"
proof -
  obtain t where t: "render_text sample_roles = Inr t"
    by (auto simp: render_text_def sample_roles_def)
  show ?thesis
    using torrc_confined [OF sample_validates t] t by (auto simp: sample_roles_def onion_lines_def)
qed

text \<open>
  C22 (roundtrip). A settings file of NAME='value' lines is read back as exactly those of its settings that are asked for,
  the last line of each name counting, whichever names are asked for and whether or not every line is validated.
\<close>

theorem quoted_settings_roundtrip:
  assumes "list_all quotable ps"
  shows "read_wrapper_settings require_file va names path
      (Text (concat (map (\<lambda>p. quoted_line p @ [CHR 0x0A]) ps))) = Inr (map_of (rev ps) |` set names)"
  using assms by (simp add: read_wrapper_settings_def splitlines_quoted read_quoted_lines)

lemma quoted_settings_roundtrip_witness:
  "read_wrapper_settings True True [''TOR_EXIT_COUNTRY''] ''.env''
     (Text (concat (map (\<lambda>p. quoted_line p @ [CHR 0x0A])
        [(''TOR_EXIT_COUNTRY'', ''de''), (''OTHER'', ''x''), (''TOR_EXIT_COUNTRY'', ''a # b'')])))
   = Inr [''TOR_EXIT_COUNTRY'' \<mapsto> ''a # b'']"
proof -
  have "list_all quotable [(''TOR_EXIT_COUNTRY'', ''de''), (''OTHER'', ''x''), (''TOR_EXIT_COUNTRY'', ''a # b'')]" by code_simp
  from quoted_settings_roundtrip [OF this, of True True "[''TOR_EXIT_COUNTRY'']" "''.env''"] show ?thesis
    by (simp add: fun_eq_iff restrict_map_def)
qed

text \<open>
  The validating reading of a settings file, which the render and validate
  actions use, and the lenient one of the get action return the same settings whenever the
  validating one succeeds.
\<close>

theorem validated_reading_agrees:
  assumes "settings_from_file_and_environment True True path file env = Inr vals"
  shows "settings_from_file_and_environment False False path file env = Inr vals"
proof -
  have "read_wrapper_settings True True names path file = Inr v \<Longrightarrow>
        read_wrapper_settings False False names path file = Inr v" for names v
    by (auto simp: read_wrapper_settings_def dest: read_lines_validated split: file_text.splits)
  with assms show ?thesis
    by (auto simp: settings_from_file_and_environment_def rbind_Inr_iff)
qed

lemma validated_reading_agrees_witness:
  "\<exists>vals. settings_from_file_and_environment False False [] (Text [CHR 0x0A]) Map.empty = Inr vals"
proof -
  obtain vals where "settings_from_file_and_environment True True [] (Text [CHR 0x0A]) Map.empty = Inr vals"
    by (simp add: settings_from_file_and_environment_def read_wrapper_settings_def splitlines_def
        line_break_def ord_c_def read_line_def py_strip_def strip_by_def rstrip_by_def lstrip_by_def)
  from validated_reading_agrees [OF this] show ?thesis by blast
qed

text \<open>
  A run of the command either replaces the target by the torrc rendered from the
  validated settings, which is the render action with status 0, or leaves the target as it was;
  the actions other than render change nothing. Every failure is reported with status 1, save
  one: a settings file that is not UTF-8 ends the command with a traceback.
\<close>

theorem render_all_or_nothing:
  assumes "main u fails args path file env d = (d', out, x)"
  shows "((act args = Render \<and> x = Status 0 \<and>
      (\<exists>vals r t. settings_from_file_and_environment True True path file env = Inr vals \<and>
         validate_settings u vals = Inr r \<and> render_text r = Inr t \<and> target d' = Some t)) \<or>
    target d' = target d \<and> (act args = Render \<longrightarrow> x \<noteq> Status 0)) \<and>
    (act args = Render \<or> d' = d) \<and> (x = Traceback \<longrightarrow> file = Not_utf8)"
proof -
  obtain res where run: "run_action u fails args path file env d = (d', res)"
    and x: "x = (case res of Inr _ \<Rightarrow> Status 0 | Inl (Config_error _) \<Rightarrow> Status 1
        | Inl (File_error _) \<Rightarrow> Status 1 | Inl _ \<Rightarrow> Traceback)"
    using assms by (auto simp: main_def split: prod.splits sum.splits config_exn.splits)
  note outcome = run_action_outcome [OF run]
  have "(act args = Render \<and> x = Status 0 \<and>
      (\<exists>vals r t. settings_from_file_and_environment True True path file env = Inr vals \<and>
         validate_settings u vals = Inr r \<and> render_text r = Inr t \<and> target d' = Some t)) \<or>
    target d' = target d \<and> (act args = Render \<longrightarrow> x \<noteq> Status 0)"
    using outcome unfolding x by (elim disjE exE conjE) auto
  moreover have "act args = Render \<or> d' = d" using outcome by blast
  moreover have "x = Traceback \<longrightarrow> file = Not_utf8"
    using outcome unfolding x by (elim disjE exE conjE) auto
  ultimately show ?thesis by blast
qed

lemma render_all_or_nothing_witness:
  "\<exists>d'. main sample_codec (\<lambda>_. None) \<lparr>act = Validate, name_arg = None, output_arg = None\<rparr>
       ''.env'' Absent sample_settings \<lparr>target = Some ''old'', temporary = None\<rparr> = (d', [], Status 1) \<and>
     d' = \<lparr>target = Some ''old'', temporary = None\<rparr>"
proof -
  let ?args = "\<lparr>act = Validate, name_arg = None, output_arg = None\<rparr>"
  let ?d = "\<lparr>target = Some ''old'', temporary = None\<rparr>"
  have m: "main sample_codec (\<lambda>_. None) ?args ''.env'' Absent sample_settings ?d = (?d, [], Status 1)"
  proof -
    have a: "settings_from_file_and_environment True True ''.env'' Absent sample_settings
        = Inl (Config_error (''wrapper settings file does not exist: .env''))"
      by (simp add: settings_from_file_and_environment_def read_wrapper_settings_def)
    have "run_action sample_codec (\<lambda>_. None) ?args ''.env'' Absent sample_settings ?d =
        (?d, Inl (Config_error (''wrapper settings file does not exist: .env'')))"
      by (simp add: run_action_def a)
    then show ?thesis by (simp add: main_def)
  qed
  from render_all_or_nothing [OF m] m show ?thesis by simp
qed

end
