(* ===== verification/Embedding_Proxy.thy ===== *)
theory Embedding_Proxy
  imports Complex_Main PyData PyIp
begin

text \<open>
  The lifecycle proxy of the bundled embedding server:
  \<open>src/embedserv/idle_embedding_proxy.py\<close>. Each critical section of \<open>Lifecycle\<close> is a
  function on its fields; the request threads, the reaper and the closing thread run them in any
  order, as the step relation says. A process is a number; whether it has exited, what it
  answers and what signals do to it are arguments.
\<close>

section \<open>The critical sections of Lifecycle\<close>

record lifecycle =
  child :: "nat option"
  starting :: bool
  stopping :: bool
  active :: nat
  last_completed :: rat
  lc_closed :: bool
  shutdown_requested :: bool

definition fresh_lifecycle :: "rat \<Rightarrow> lifecycle" where
  "fresh_lifecycle now = \<lparr>child = None, starting = False, stopping = False, active = 0,
     last_completed = now, lc_closed = False, shutdown_requested = False\<rparr>"

text \<open>The first block of \<open>begin_request\<close>. \<open>Must_wait\<close> is \<open>condition.wait()\<close> followed by
  another round, \<open>Must_launch\<close> leaves the block with \<open>_starting\<close> set.\<close>

datatype entry = Refused | Admitted | Must_wait | Must_launch

definition forget_exited :: "(nat \<Rightarrow> bool) \<Rightarrow> lifecycle \<Rightarrow> lifecycle" where
  "forget_exited exited l = (case child l of
     Some p \<Rightarrow> if exited p then l\<lparr>child := None\<rparr> else l
   | None \<Rightarrow> l)"

definition enter_section :: "(nat \<Rightarrow> bool) \<Rightarrow> lifecycle \<Rightarrow> lifecycle \<times> entry" where
  "enter_section exited l0 =
     (if lc_closed l0 then (l0, Refused)
      else (let l = forget_exited exited l0
        in if child l \<noteq> None \<and> \<not> stopping l then (l\<lparr>active := active l + 1\<rparr>, Admitted)
           else if shutdown_requested l then (l, Refused)
           else if starting l \<or> stopping l then (l, Must_wait)
           else (l\<lparr>starting := True\<rparr>, Must_launch)))"

text \<open>The block after a launch, which holds the child that became healthy, if any.\<close>

definition launch_section :: "nat option \<Rightarrow> lifecycle \<Rightarrow> lifecycle" where
  "launch_section started l = (case started of
     Some p \<Rightarrow> l\<lparr>starting := False, child := Some p, active := active l + 1\<rparr>
   | None \<Rightarrow> l\<lparr>starting := False, child := None\<rparr>)"

definition end_section :: "rat \<Rightarrow> lifecycle \<Rightarrow> lifecycle py" where
  "end_section now l =
     (if active l = 0 then Inl (RuntimeError ''embedding lifecycle active-request underflow'')
      else Inr (l\<lparr>active := active l - 1, last_completed := now\<rparr>))"

text \<open>The first block of \<open>reap_if_idle\<close>: the child to stop, if it may be stopped.\<close>

definition reap_section :: "rat \<Rightarrow> rat \<Rightarrow> lifecycle \<Rightarrow> (nat \<times> lifecycle) option" where
  "reap_section idle now l = (case child l of
     None \<Rightarrow> None
   | Some p \<Rightarrow>
       (if active l \<noteq> 0 \<or> starting l \<or> stopping l \<or> now - last_completed l < idle then None
        else Some (p, l\<lparr>stopping := True\<rparr>)))"

definition reap_done :: "nat \<Rightarrow> lifecycle \<Rightarrow> lifecycle" where
  "reap_done p l =
     (let l = (if child l = Some p then l\<lparr>child := None\<rparr> else l) in l\<lparr>stopping := False\<rparr>)"

text \<open>\<open>shutdown\<close>: the flags it sets, the test of its loop, the child it takes.\<close>

definition close_section :: "lifecycle \<Rightarrow> lifecycle" where
  "close_section l = l\<lparr>lc_closed := True\<rparr>"

definition drained :: "lifecycle \<Rightarrow> bool" where
  "drained l \<longleftrightarrow> active l = 0 \<and> \<not> starting l \<and> \<not> stopping l"

definition request_shutdown :: "lifecycle \<Rightarrow> lifecycle" where
  "request_shutdown l = l\<lparr>shutdown_requested := True\<rparr>"

section \<open>Starting and stopping a child\<close>

text \<open>What \<open>GET /v1/models\<close> on the child's port brings: a connection failure, or a status and
  the parsed body.\<close>

datatype models_reply = Unreachable | Models int "json option"

definition advertises :: "pystr \<Rightarrow> json list \<Rightarrow> bool" where
  "advertises model items \<longleftrightarrow>
     list_ex (\<lambda>j. case j of JObj members \<Rightarrow> jget members ''id'' = JStr model | _ \<Rightarrow> False) items"

definition bad_metadata :: exn where
  "bad_metadata = RuntimeError ''MLX child returned invalid model metadata''"

definition child_healthy :: "pystr \<Rightarrow> bool \<Rightarrow> models_reply \<Rightarrow> bool py" where
  "child_healthy model exited reply =
     (if exited then Inr False
      else (case reply of
        Unreachable \<Rightarrow> Inr False
      | Models status body \<Rightarrow>
          (if status \<noteq> 200 then Inr False
           else (case body of
             Some (JObj payload) \<Rightarrow> (case jget payload ''data'' of
                 JList items \<Rightarrow>
                   (if advertises model items then Inr True
                    else Inl (RuntimeError ''MLX child does not advertise the configured served model''))
               | _ \<Rightarrow> Inl bad_metadata)
           | _ \<Rightarrow> Inl bad_metadata))))"

text \<open>One round of the start-up loop: whether a shutdown was requested, the status of a child that
  exited, and the state and reply of the child when its health is checked.\<close>

record look =
  canceled :: bool
  exit_status :: "int option"
  health_exited :: bool
  health_reply :: models_reply

fun startup_loop :: "pystr \<Rightarrow> look list \<Rightarrow> (unit py) option" where
  "startup_loop model [] = None"
| "startup_loop model (k # ks) =
     (if canceled k then Some (Inl (RuntimeError ''MLX child startup canceled by proxy shutdown''))
      else case exit_status k of
        Some n \<Rightarrow> Some (Inl (RuntimeError (''MLX child exited during startup with status '' @ int_str n)))
      | None \<Rightarrow> (case child_healthy model (health_exited k) (health_reply k) of
          Inl e \<Rightarrow> Some (Inl e)
        | Inr True \<Rightarrow> Some (Inr ())
        | Inr False \<Rightarrow> startup_loop model ks))"

text \<open>\<open>_terminate_child\<close>: the signals it sends and how it ends. \<open>stops\<close> tells whether the
  child is gone within the grace period after the first and after the second signal.\<close>

datatype sig = Sigterm | Sigkill

definition terminate_child :: "bool \<Rightarrow> bool \<Rightarrow> bool \<Rightarrow> sig list \<times> bool" where
  "terminate_child exited stops1 stops2 =
     (if exited then ([], True)
      else if stops1 then ([Sigterm], True)
      else ([Sigterm, Sigkill], stops2))"

section \<open>The threads\<close>

text \<open>
  A handler thread is \<open>Free\<close> until its connection is accepted, \<open>Reading\<close> before
  \<open>begin_request\<close>, then waits, launches, serves or leaves. \<open>Launching\<close> holds the child it has
  started, \<open>Cleaning\<close> the child of a failed launch.
\<close>

datatype thread_phase = Free | Reading | Blocked | Launching "nat option" | Cleaning nat | Serving | Leaving

datatype closer = Running | Draining | Stopping "nat option" | Stopped

record proxy =
  life :: lifecycle
  phase_of :: "nat \<Rightarrow> thread_phase"
  reaping :: "nat option"
  closer :: closer
  alive :: "nat set"
  launched :: nat
  slots :: nat

definition max_active_connections :: nat where
  "max_active_connections = 16"

definition fresh_proxy :: "rat \<Rightarrow> proxy" where
  "fresh_proxy now = \<lparr>life = fresh_lifecycle now, phase_of = (\<lambda>_. Free), reaping = None,
     closer = Running, alive = {}, launched = 0, slots = max_active_connections\<rparr>"

text \<open>\<open>notify_all\<close>: every waiting thread takes up its loop again.\<close>

definition wake :: "(nat \<Rightarrow> thread_phase) \<Rightarrow> nat \<Rightarrow> thread_phase" where
  "wake ph t = (if ph t = Blocked then Reading else ph t)"

fun phase_after :: "entry \<Rightarrow> thread_phase" where
  "phase_after Refused = Leaving"
| "phase_after Admitted = Serving"
| "phase_after Must_wait = Blocked"
| "phase_after Must_launch = Launching None"

text \<open>What a step does to a process, beside the fields.\<close>

datatype effect = Quiet | Spawned nat | Signalled nat

inductive proxy_step :: "rat \<Rightarrow> proxy \<Rightarrow> effect \<Rightarrow> proxy \<Rightarrow> bool" for idle where
  accept: "phase_of s t = Free \<Longrightarrow> slots s = Suc n \<Longrightarrow>
    proxy_step idle s Quiet (s\<lparr>phase_of := (phase_of s)(t := Reading), slots := n\<rparr>)"
| enter: "phase_of s t = Reading \<Longrightarrow> enter_section (\<lambda>p. p \<notin> alive s) (life s) = (l, e) \<Longrightarrow>
    proxy_step idle s Quiet (s\<lparr>life := l, phase_of := (phase_of s)(t := phase_after e)\<rparr>)"
| spawn: "phase_of s t = Launching None \<Longrightarrow>
    proxy_step idle s (Spawned (launched s))
      (s\<lparr>phase_of := (phase_of s)(t := Launching (Some (launched s))),
         alive := insert (launched s) (alive s), launched := Suc (launched s)\<rparr>)"
| started: "phase_of s t = Launching (Some p) \<Longrightarrow>
    proxy_step idle s Quiet (s\<lparr>life := launch_section (Some p) (life s),
      phase_of := wake ((phase_of s)(t := Serving))\<rparr>)"
| not_started: "phase_of s t = Launching c \<Longrightarrow>
    proxy_step idle s Quiet (s\<lparr>life := launch_section None (life s),
      phase_of := wake ((phase_of s)(t := (case c of None \<Rightarrow> Leaving | Some p \<Rightarrow> Cleaning p)))\<rparr>)"
| clean: "phase_of s t = Cleaning p \<Longrightarrow> alive' = alive s \<or> alive' = alive s - {p} \<Longrightarrow>
    proxy_step idle s (Signalled p) (s\<lparr>phase_of := (phase_of s)(t := Leaving), alive := alive'\<rparr>)"
| finish: "phase_of s t = Serving \<Longrightarrow> end_section now (life s) = Inr l \<Longrightarrow>
    proxy_step idle s Quiet (s\<lparr>life := l, phase_of := wake ((phase_of s)(t := Leaving))\<rparr>)"
| leave: "phase_of s t = Reading \<or> phase_of s t = Leaving \<Longrightarrow>
    proxy_step idle s Quiet (s\<lparr>phase_of := (phase_of s)(t := Free), slots := Suc (slots s)\<rparr>)"
| dies: "p \<in> alive s \<Longrightarrow> proxy_step idle s Quiet (s\<lparr>alive := alive s - {p}\<rparr>)"
| reap: "reap_section idle now (life s) = Some (p, l) \<Longrightarrow>
    proxy_step idle s Quiet (s\<lparr>life := l, reaping := Some p\<rparr>)"
| reaped: "reaping s = Some p \<Longrightarrow> alive' = alive s \<or> alive' = alive s - {p} \<Longrightarrow>
    proxy_step idle s (Signalled p) (s\<lparr>life := reap_done p (life s), reaping := None, alive := alive',
      phase_of := wake (phase_of s)\<rparr>)"
| ask_shutdown: "proxy_step idle s Quiet (s\<lparr>life := request_shutdown (life s), phase_of := wake (phase_of s)\<rparr>)"
| close_: "closer s = Running \<Longrightarrow>
    proxy_step idle s Quiet (s\<lparr>life := close_section (request_shutdown (life s)), closer := Draining\<rparr>)"
| taken: "closer s = Draining \<Longrightarrow> drained (life s) \<Longrightarrow>
    proxy_step idle s Quiet (s\<lparr>life := (life s)\<lparr>child := None\<rparr>, closer := Stopping (child (life s))\<rparr>)"
| stopped: "closer s = Stopping (Some p) \<Longrightarrow> alive' = alive s \<or> alive' = alive s - {p} \<Longrightarrow>
    proxy_step idle s (Signalled p) (s\<lparr>closer := Stopped, alive := alive'\<rparr>)"
| nothing_left: "closer s = Stopping None \<Longrightarrow> proxy_step idle s Quiet (s\<lparr>closer := Stopped\<rparr>)"

inductive proxy_reach :: "rat \<Rightarrow> proxy \<Rightarrow> bool" for idle where
  initial: "proxy_reach idle (fresh_proxy now)"
| step: "proxy_reach idle s \<Longrightarrow> proxy_step idle s e s' \<Longrightarrow> proxy_reach idle s'"

section \<open>The invariant\<close>

definition serving :: "(nat \<Rightarrow> thread_phase) \<Rightarrow> nat set" where
  "serving ph = {t. ph t = Serving}"

definition busy :: "(nat \<Rightarrow> thread_phase) \<Rightarrow> nat set" where
  "busy ph = {t. ph t \<noteq> Free}"

definition launching :: "(nat \<Rightarrow> thread_phase) \<Rightarrow> nat set" where
  "launching ph = {t. \<exists>c. ph t = Launching c}"

definition threads_ok :: "(nat \<Rightarrow> thread_phase) \<Rightarrow> nat \<Rightarrow> lifecycle \<Rightarrow> bool" where
  "threads_ok ph free l \<longleftrightarrow> finite (busy ph) \<and> free + card (busy ph) = max_active_connections \<and>
     active l = card (serving ph) \<and>
     (if starting l then \<exists>t. launching ph = {t} else launching ph = {}) \<and>
     (\<forall>t. ph t = Blocked \<longrightarrow> starting l \<or> stopping l)"

definition lifecycle_ok :: "lifecycle \<Rightarrow> nat option \<Rightarrow> bool" where
  "lifecycle_ok l r \<longleftrightarrow> (starting l \<longrightarrow> child l = None) \<and> (stopping l \<longleftrightarrow> r \<noteq> None) \<and>
     (stopping l \<longrightarrow> active l = 0 \<and> \<not> starting l \<and> (child l = None \<or> child l = r))"

definition closer_ok :: "closer \<Rightarrow> lifecycle \<Rightarrow> bool" where
  "closer_ok c l \<longleftrightarrow> (c \<noteq> Running \<longrightarrow> lc_closed l) \<and>
     (c \<noteq> Running \<and> c \<noteq> Draining \<longrightarrow> drained l \<and> child l = None)"

definition proxy_ok :: "proxy \<Rightarrow> bool" where
  "proxy_ok s \<longleftrightarrow> threads_ok (phase_of s) (slots s) (life s) \<and> lifecycle_ok (life s) (reaping s) \<and>
     closer_ok (closer s) (life s)"

lemma wake_sets [simp]:
  "serving (wake ph) = serving ph" "busy (wake ph) = busy ph" "launching (wake ph) = launching ph"
  "wake ph t \<noteq> Blocked"
  by (auto simp: serving_def busy_def launching_def wake_def)

lemma serving_upd [simp]:
  "serving (ph(t := x)) = (if x = Serving then insert t (serving ph) else serving ph - {t})"
  by (auto simp: serving_def)

lemma busy_upd [simp]:
  "busy (ph(t := x)) = (if x = Free then busy ph - {t} else insert t (busy ph))"
  by (auto simp: busy_def)

lemma launching_upd [simp]:
  "launching (ph(t := x)) = (case x of Launching c \<Rightarrow> insert t (launching ph) | _ \<Rightarrow> launching ph - {t})"
  by (auto simp: launching_def split: thread_phase.splits)

lemma serving_busy: "serving ph \<subseteq> busy ph"
  by (auto simp: serving_def busy_def)

lemma phase_mem:
  "ph t = Serving \<Longrightarrow> t \<in> serving ph" "ph t \<noteq> Free \<Longrightarrow> t \<in> busy ph"
  "ph t = Launching c \<Longrightarrow> t \<in> launching ph" "ph t \<noteq> Serving \<Longrightarrow> t \<notin> serving ph"
  "ph t = Free \<Longrightarrow> t \<notin> busy ph" "(\<And>c. ph t \<noteq> Launching c) \<Longrightarrow> t \<notin> launching ph"
  by (auto simp: serving_def busy_def launching_def)

lemma finite_serving: "finite (busy ph) \<Longrightarrow> finite (serving ph)"
  using serving_busy by (rule finite_subset)

text \<open>A thread that changes its phase without entering or leaving a set.\<close>

lemma busy_move:
  assumes "ph t \<noteq> Free" "x \<noteq> Free"
  shows "busy (ph(t := x)) = busy ph"
  using assms by (auto simp: busy_def)

lemma enter_section_cases:
  assumes "enter_section ex l = (l', e)"
  shows "(e = Refused \<and> active l' = active l \<and> starting l' = starting l \<and>
            (child l' = child l \<or> child l' = None)) \<or>
    (e = Admitted \<and> active l' = Suc (active l) \<and> starting l' = starting l \<and> child l' = child l \<and>
       child l \<noteq> None \<and> \<not> stopping l \<and> \<not> lc_closed l) \<or>
    (e = Must_wait \<and> active l' = active l \<and> starting l' = starting l \<and> (starting l \<or> stopping l) \<and>
       (child l' = child l \<or> child l' = None)) \<or>
    (e = Must_launch \<and> active l' = active l \<and> starting l' \<and> \<not> starting l \<and> \<not> stopping l \<and> child l' = None \<and> \<not> lc_closed l)"
    and "stopping l' = stopping l" "lc_closed l' = lc_closed l" "shutdown_requested l' = shutdown_requested l"
  using assms
  by (auto simp: enter_section_def forget_exited_def Let_def split: if_splits option.splits)

lemma proxy_ok_fresh: "proxy_ok (fresh_proxy now)"
  by (simp add: proxy_ok_def fresh_proxy_def threads_ok_def lifecycle_ok_def closer_ok_def
      fresh_lifecycle_def busy_def serving_def launching_def)

lemma threads_okD:
  assumes "threads_ok ph n l"
  shows "finite (busy ph)" "finite (serving ph)" "n + card (busy ph) = max_active_connections"
    "active l = card (serving ph)" "starting l \<Longrightarrow> \<exists>t. launching ph = {t}"
    "\<not> starting l \<Longrightarrow> launching ph = {}" "ph t = Blocked \<Longrightarrow> starting l \<or> stopping l"
  using assms by (auto simp: threads_ok_def finite_serving)

text \<open>Each kind of phase change keeps the thread part of the invariant.\<close>

lemma threads_plain:
  assumes ok: "threads_ok ph n l" and t: "ph t \<noteq> Free" "t \<notin> serving ph" "t \<notin> launching ph"
    and x: "x = Leaving \<or> x = Reading \<or> x = Blocked \<and> (starting l \<or> stopping l)"
    and l: "active l' = active l" "starting l' = starting l" "stopping l' = stopping l"
  shows "threads_ok (ph(t := x)) n l'"
proof -
  have b: "busy (ph(t := x)) = busy ph" using t(1) x by (intro busy_move) auto
  have sv: "serving (ph(t := x)) = serving ph" and ln: "launching (ph(t := x)) = launching ph"
    using x t(2,3) by (auto simp: serving_def launching_def)
  show ?thesis
    using ok x unfolding threads_ok_def b sv ln l by auto
qed

lemma threads_serve:
  assumes ok: "threads_ok ph n l" and t: "ph t \<noteq> Free" "t \<notin> serving ph" "t \<notin> launching ph"
    and l: "active l' = Suc (active l)" "starting l' = starting l" "stopping l' = stopping l"
  shows "threads_ok (ph(t := Serving)) n l'"
proof -
  have b: "busy (ph(t := Serving)) = busy ph" using t(1) by (intro busy_move) auto
  have sv: "card (serving (ph(t := Serving))) = Suc (card (serving ph))"
    using threads_okD(2) [OF ok] t(2) by simp
  have ln: "launching (ph(t := Serving)) = launching ph" using t(3) by simp
  show ?thesis using ok unfolding threads_ok_def b sv ln l by auto
qed

lemma threads_launch:
  assumes ok: "threads_ok ph n l" and t: "ph t \<noteq> Free" "t \<notin> serving ph"
    and ln: "launching ph \<subseteq> {t}"
    and l: "active l' = active l" "starting l'" "stopping l' = stopping l"
  shows "threads_ok (ph(t := Launching c)) n l'"
proof -
  have b: "busy (ph(t := Launching c)) = busy ph" using t(1) by (intro busy_move) auto
  have sv: "serving (ph(t := Launching c)) = serving ph" using t(2) by simp
  have ln': "launching (ph(t := Launching c)) = {t}" using ln by auto
  show ?thesis using ok l unfolding threads_ok_def b sv ln' by auto
qed

text \<open>After a launch, whoever launched serves or leaves and everybody is woken.\<close>

lemma threads_launched:
  assumes ok: "threads_ok ph n l" and t: "ph t = Launching c"
    and x: "x = Serving \<and> active l' = Suc (active l) \<or> (x = Leaving \<or> (\<exists>p. x = Cleaning p)) \<and> active l' = active l"
    and l: "\<not> starting l'"
  shows "threads_ok (wake (ph(t := x))) n l'"
proof -
  have tl: "t \<in> launching ph" "t \<notin> serving ph" "ph t \<noteq> Free" using t by (auto simp: phase_mem)
  have "launching ph = {t}" using ok tl(1) by (auto simp: threads_ok_def split: if_splits)
  then have ln: "launching (wake (ph(t := x))) = {}" using x by auto
  have b: "busy (wake (ph(t := x))) = busy ph"
    unfolding wake_sets using x tl(3) by (intro busy_move) auto
  have sv: "card (serving (wake (ph(t := x)))) = (if x = Serving then Suc (card (serving ph)) else card (serving ph))"
    using threads_okD(2) [OF ok] tl(2) by simp
  show ?thesis using ok x l unfolding threads_ok_def b sv ln by auto
qed

lemma enter_ok:
  assumes ok: "proxy_ok s" and t: "phase_of s t = Reading"
    and en: "enter_section ex (life s) = (l, e)"
  shows "proxy_ok (s\<lparr>life := l, phase_of := (phase_of s)(t := phase_after e)\<rparr>)"
proof -
  note same = enter_section_cases(2-4) [OF en]
  have ths: "threads_ok (phase_of s) (slots s) (life s)" and lc: "lifecycle_ok (life s) (reaping s)"
    and cl: "closer_ok (closer s) (life s)"
    using ok by (simp_all add: proxy_ok_def)
  have mem: "phase_of s t \<noteq> Free" "t \<notin> serving (phase_of s)" "t \<notin> launching (phase_of s)"
    using t by (auto simp: phase_mem)
  note th = threads_plain [OF ths mem] threads_serve [OF ths mem] threads_launch [OF ths mem(1,2)]
  have "threads_ok ((phase_of s)(t := phase_after e)) (slots s) l \<and> lifecycle_ok l (reaping s) \<and>
      closer_ok (closer s) l"
  proof -
    consider (refused) "e = Refused" "active l = active (life s)" "starting l = starting (life s)"
        "child l = child (life s) \<or> child l = None"
      | (admitted) "e = Admitted" "active l = Suc (active (life s))" "starting l = starting (life s)"
        "child l = child (life s)" "child (life s) \<noteq> None" "\<not> stopping (life s)" "\<not> lc_closed (life s)"
      | (wait) "e = Must_wait" "active l = active (life s)" "starting l = starting (life s)"
        "starting (life s) \<or> stopping (life s)" "child l = child (life s) \<or> child l = None"
      | (launch) "e = Must_launch" "active l = active (life s)" "starting l" "\<not> starting (life s)"
        "\<not> stopping (life s)" "child l = None" "\<not> lc_closed (life s)"
      using enter_section_cases(1) [OF en] by (elim disjE conjE) (blast+)
    then show ?thesis
    proof cases
      case refused
      then have "threads_ok ((phase_of s)(t := phase_after e)) (slots s) l"
        using same by (intro th(1)) auto
      with refused same lc cl show ?thesis by (auto simp: lifecycle_ok_def closer_ok_def drained_def)
    next
      case admitted
      then have "threads_ok ((phase_of s)(t := phase_after e)) (slots s) l"
        using same th(2) by simp
      with admitted same lc cl show ?thesis by (auto simp: lifecycle_ok_def closer_ok_def drained_def)
    next
      case wait
      then have "threads_ok ((phase_of s)(t := phase_after e)) (slots s) l"
        using same by (intro th(1)) auto
      with wait same lc cl show ?thesis by (auto simp: lifecycle_ok_def closer_ok_def drained_def)
    next
      case launch
      then have "threads_ok ((phase_of s)(t := phase_after e)) (slots s) l"
        using same th(3) threads_okD(6) [OF ths] by simp
      with launch same lc cl show ?thesis by (auto simp: lifecycle_ok_def closer_ok_def)
    qed
  qed
  then show ?thesis by (simp add: proxy_ok_def)
qed

lemma finish_ok:
  assumes ok: "threads_ok ph n l" and t: "ph t = Serving" and e: "end_section now l = Inr l'"
  shows "threads_ok (wake (ph(t := Leaving))) n l'"
proof -
  have mem: "t \<in> serving ph" "ph t \<noteq> Free" "t \<notin> launching ph" using t by (auto simp: phase_mem)
  have l': "active l' = active l - 1" "starting l' = starting l" "stopping l' = stopping l"
    using e by (auto simp: end_section_def split: if_splits)
  have b: "busy (wake (ph(t := Leaving))) = busy ph" unfolding wake_sets using mem by (intro busy_move) auto
  have sv: "card (serving (wake (ph(t := Leaving)))) = card (serving ph) - 1"
    using mem(1) threads_okD(2) [OF ok] by simp
  have ln: "launching (wake (ph(t := Leaving))) = launching ph" using mem(3) by simp
  show ?thesis using ok l' unfolding threads_ok_def b sv ln by auto
qed

lemma leave_ok:
  assumes ok: "threads_ok ph n l" and t: "ph t = Reading \<or> ph t = Leaving"
  shows "threads_ok (ph(t := Free)) (Suc n) l"
proof -
  have mem: "t \<in> busy ph" "t \<notin> serving ph" "t \<notin> launching ph" using t by (auto simp: phase_mem)
  have "card (busy ph) = Suc (card (busy ph - {t}))"
    using mem(1) threads_okD(1) [OF ok] by (metis card.remove)
  then show ?thesis using ok mem by (auto simp: threads_ok_def)
qed

lemma accept_ok:
  assumes ok: "threads_ok ph (Suc n) l" and t: "ph t = Free"
  shows "threads_ok (ph(t := Reading)) n l"
  using assms by (auto simp: threads_ok_def phase_mem)

lemma wake_ok: "threads_ok ph n l \<Longrightarrow> active l' = active l \<Longrightarrow> starting l' = starting l \<Longrightarrow>
  threads_ok (wake ph) n l'"
  by (auto simp: threads_ok_def)

lemma threads_same: "threads_ok ph n l \<Longrightarrow> active l' = active l \<Longrightarrow> starting l' = starting l \<Longrightarrow>
  stopping l' = stopping l \<Longrightarrow> threads_ok ph n l'"
  by (auto simp: threads_ok_def)

lemma launched_running:
  assumes "threads_ok ph n l" "ph t = Launching c"
  shows "starting l"
proof -
  have "t \<in> launching ph" using assms(2) by (rule phase_mem)
  with assms(1) show ?thesis by (auto simp: threads_ok_def split: if_splits)
qed

lemma step_ok:
  assumes "proxy_step idle s e s'" "proxy_ok s"
  shows "proxy_ok s'"
  using assms
proof cases
  case (accept t n)
  with assms(2) show ?thesis by (simp add: proxy_ok_def accept_ok)
next
  case (enter t l e)
  with assms(2) show ?thesis by (simp add: enter_ok)
next
  case (spawn t)
  from assms(2) have "threads_ok (phase_of s) (slots s) (life s)" by (simp add: proxy_ok_def)
  moreover have t: "phase_of s t = Launching None" using spawn by simp
  ultimately have run: "starting (life s)" "\<exists>u. launching (phase_of s) = {u}"
    using launched_running threads_okD(5) by blast+
  then have "launching (phase_of s) \<subseteq> {t}" using phase_mem(3) [of "phase_of s" t None] t by auto
  with run(1) t \<open>threads_ok (phase_of s) (slots s) (life s)\<close>
  have "threads_ok ((phase_of s)(t := Launching (Some (launched s)))) (slots s) (life s)"
    by (intro threads_launch [of _ _ "life s"]) (auto simp: phase_mem)
  with assms(2) spawn show ?thesis by (simp add: proxy_ok_def)
next
  case (started t p)
  from assms(2) have th: "threads_ok (phase_of s) (slots s) (life s)" by (simp add: proxy_ok_def)
  have run: "starting (life s)" using launched_running [OF th] started by blast
  have "threads_ok (wake ((phase_of s)(t := Serving))) (slots s) (launch_section (Some p) (life s))"
    using started by (intro threads_launched [OF th]) (auto simp: launch_section_def)
  with assms(2) run show ?thesis unfolding started
    by (auto simp: proxy_ok_def lifecycle_ok_def closer_ok_def launch_section_def drained_def)
next
  case (not_started t c)
  from assms(2) have th: "threads_ok (phase_of s) (slots s) (life s)" by (simp add: proxy_ok_def)
  have run: "starting (life s)" using launched_running [OF th] not_started by blast
  have "threads_ok (wake ((phase_of s)(t := (case c of None \<Rightarrow> Leaving | Some p \<Rightarrow> Cleaning p)))) (slots s)
      (launch_section None (life s))"
    using not_started by (intro threads_launched [OF th]) (auto simp: launch_section_def split: option.splits)
  with assms(2) run show ?thesis unfolding not_started
    by (auto simp: proxy_ok_def lifecycle_ok_def closer_ok_def launch_section_def drained_def)
next
  case (clean t p alive')
  then have "threads_ok ((phase_of s)(t := Leaving)) (slots s) (life s)"
    using assms(2) by (intro threads_plain [of _ _ "life s"]) (auto simp: proxy_ok_def phase_mem)
  with assms(2) clean show ?thesis by (simp add: proxy_ok_def)
next
  case (finish t now l)
  then have l: "child l = child (life s)" "starting l = starting (life s)" "stopping l = stopping (life s)"
      "lc_closed l = lc_closed (life s)" "active l = active (life s) - 1"
    by (auto simp: end_section_def split: if_splits)
  have "threads_ok (wake ((phase_of s)(t := Leaving))) (slots s) l"
    using assms(2) finish by (intro finish_ok [of _ _ "life s"]) (auto simp: proxy_ok_def)
  with assms(2) l show ?thesis unfolding finish
    by (auto simp: proxy_ok_def lifecycle_ok_def closer_ok_def drained_def)
next
  case (leave t)
  with assms(2) show ?thesis by (simp add: proxy_ok_def leave_ok)
next
  case (dies p)
  with assms(2) show ?thesis by (simp add: proxy_ok_def)
next
  case (reap now p l)
  then have l: "l = (life s)\<lparr>stopping := True\<rparr>" "child (life s) = Some p" "active (life s) = 0"
      "\<not> starting (life s)" "\<not> stopping (life s)"
    by (auto simp: reap_section_def split: option.splits if_splits)
  with assms(2) show ?thesis unfolding reap
    by (auto simp: proxy_ok_def threads_ok_def lifecycle_ok_def closer_ok_def drained_def)
next
  case (reaped p alive')
  with assms(2) have "threads_ok (wake (phase_of s)) (slots s) (reap_done p (life s))"
    by (intro wake_ok [of _ _ "life s"]) (auto simp: proxy_ok_def reap_done_def Let_def)
  with assms(2) reaped show ?thesis
    by (auto simp: proxy_ok_def lifecycle_ok_def closer_ok_def drained_def reap_done_def Let_def)
next
  case ask_shutdown
  with assms(2) have "threads_ok (wake (phase_of s)) (slots s) (request_shutdown (life s))"
    by (intro wake_ok [of _ _ "life s"]) (auto simp: proxy_ok_def request_shutdown_def)
  with assms(2) ask_shutdown show ?thesis
    by (auto simp: proxy_ok_def lifecycle_ok_def closer_ok_def drained_def request_shutdown_def)
next
  case close_
  with assms(2) show ?thesis
    by (auto simp: proxy_ok_def threads_ok_def lifecycle_ok_def closer_ok_def close_section_def request_shutdown_def)
next
  case taken
  with assms(2) show ?thesis
    by (auto simp: proxy_ok_def threads_ok_def lifecycle_ok_def closer_ok_def drained_def)
next
  case (stopped p alive')
  with assms(2) show ?thesis by (auto simp: proxy_ok_def closer_ok_def)
next
  case nothing_left
  with assms(2) show ?thesis by (auto simp: proxy_ok_def closer_ok_def)
qed

lemma reach_ok: "proxy_reach idle s \<Longrightarrow> proxy_ok s"
  by (induction rule: proxy_reach.induct) (auto intro: proxy_ok_fresh step_ok)

section \<open>Processes have one owner\<close>

definition owns :: "(nat \<Rightarrow> thread_phase) \<Rightarrow> nat \<Rightarrow> nat \<Rightarrow> bool" where
  "owns ph t p \<longleftrightarrow> ph t = Launching (Some p) \<or> ph t = Cleaning p"

definition pids_ok :: "proxy \<Rightarrow> bool" where
  "pids_ok s \<longleftrightarrow>
     (\<forall>t p. owns (phase_of s) t p \<longrightarrow> p < launched s \<and> child (life s) \<noteq> Some p) \<and>
     (\<forall>t u p. owns (phase_of s) t p \<longrightarrow> owns (phase_of s) u p \<longrightarrow> t = u) \<and>
     (\<forall>p. child (life s) = Some p \<longrightarrow> p < launched s)"

lemma owns_upd [simp]:
  "owns (ph(t := x)) u p = (if u = t then x = Launching (Some p) \<or> x = Cleaning p else owns ph u p)"
  by (simp add: owns_def)

lemma owns_wake [simp]: "owns (wake ph) u p = owns ph u p"
  by (auto simp: owns_def wake_def)

lemma pids_mono:
  assumes "pids_ok s" and "\<And>t p. owns (phase_of s') t p \<Longrightarrow> owns (phase_of s) t p"
    and "launched s' = launched s" and "child (life s') = child (life s) \<or> child (life s') = None"
  shows "pids_ok s'"
  using assms unfolding pids_ok_def by (metis option.distinct(1))

lemma step_pids:
  assumes "proxy_step idle s e s'" "pids_ok s"
  shows "pids_ok s'"
  using assms(1)
proof cases
  case (enter t l e)
  then show ?thesis using enter_section_cases(1) [OF enter(4)]
    by (intro pids_mono [OF assms(2)]) (cases e; auto split: if_splits)+
next
  case (spawn t)
  then show ?thesis using assms(2) by (auto simp: pids_ok_def split: if_splits) (metis less_irrefl less_SucI)+
next
  case (started t p)
  then have own: "owns (phase_of s) t p" by (simp add: owns_def)
  with assms(2) have "\<And>u. owns (phase_of s) u p \<Longrightarrow> u = t" "p < launched s"
    by (auto simp: pids_ok_def)
  then show ?thesis using assms(2) unfolding started
    by (auto simp: pids_ok_def launch_section_def split: if_splits)
next
  case (not_started t c)
  then have "owns (phase_of s) t p" if "c = Some p" for p using that by (simp add: owns_def)
  with not_started show ?thesis
    by (intro pids_mono [OF assms(2)]) (auto simp: launch_section_def split: option.splits if_splits)
next
  case (finish t now l)
  then show ?thesis
    by (intro pids_mono [OF assms(2)]) (auto simp: end_section_def split: if_splits)
next
  case (reap now p l)
  then show ?thesis
    by (intro pids_mono [OF assms(2)]) (auto simp: reap_section_def split: option.splits if_splits)
next
  case (reaped p alive')
  then show ?thesis
    by (intro pids_mono [OF assms(2)]) (auto simp: reap_done_def Let_def)
qed (intro pids_mono [OF assms(2)];
     auto simp: request_shutdown_def close_section_def split: if_splits)+

lemma fresh_pids: "pids_ok (fresh_proxy now)"
  by (simp add: pids_ok_def fresh_proxy_def fresh_lifecycle_def owns_def)

lemma reach_pids: "proxy_reach idle s \<Longrightarrow> pids_ok s"
  by (induction rule: proxy_reach.induct) (auto intro: step_pids fresh_pids)

inductive_cases signalledE: "proxy_step idle s (Signalled p) s'"

section \<open>The process of an active request\<close>

text \<open>
  To which process each active request was admitted: when a request begins to be served it is the installed child,
  and it stays that one until the request ends, whatever becomes of the fields meanwhile.
\<close>

definition admitted_to :: "proxy \<Rightarrow> proxy \<Rightarrow> (nat \<rightharpoonup> nat) \<Rightarrow> (nat \<rightharpoonup> nat)" where
  "admitted_to s s' g t =
     (if phase_of s' t \<noteq> Serving then None else if phase_of s t = Serving then g t else child (life s'))"

inductive proxy_run :: "rat \<Rightarrow> proxy \<Rightarrow> (nat \<rightharpoonup> nat) \<Rightarrow> bool" for idle where
  fresh_run: "proxy_run idle (fresh_proxy now) Map.empty"
| move: "proxy_run idle s g \<Longrightarrow> proxy_step idle s e s' \<Longrightarrow> proxy_run idle s' (admitted_to s s' g)"

lemma run_reach: "proxy_run idle s g \<Longrightarrow> proxy_reach idle s"
  by (induction rule: proxy_run.induct) (auto intro: proxy_reach.intros)

definition served_ok :: "proxy \<Rightarrow> (nat \<rightharpoonup> nat) \<Rightarrow> bool" where
  "served_ok s g \<longleftrightarrow> dom g \<subseteq> serving (phase_of s) \<and>
     (\<forall>t p. g t = Some p \<longrightarrow> p < launched s \<and> (\<forall>u. \<not> owns (phase_of s) u p))"

lemma owner_before:
  "proxy_step idle s e s' \<Longrightarrow> owns (phase_of s') u p \<Longrightarrow> owns (phase_of s) u p \<or> p = launched s"
  by (induction rule: proxy_step.induct)
    (auto simp: owns_def wake_def split: if_splits option.splits entry.splits elim: phase_after.elims)

lemma launched_grows: "proxy_step idle s e s' \<Longrightarrow> launched s \<le> launched s'"
  by (induction rule: proxy_step.induct) auto

lemma step_served:
  assumes "proxy_step idle s e s'" "served_ok s g" "pids_ok s'"
  shows "served_ok s' (admitted_to s s' g)"
proof -
  have "p < launched s' \<and> (\<forall>u. \<not> owns (phase_of s') u p)" if p: "admitted_to s s' g t = Some p" for t p
  proof (cases "phase_of s t = Serving")
    case True
    with p have "g t = Some p" by (simp add: admitted_to_def split: if_splits)
    with assms(2) have "p < launched s" "\<not> owns (phase_of s) u p" for u by (auto simp: served_ok_def)
    with owner_before [OF assms(1)] launched_grows [OF assms(1)] show ?thesis by (metis less_le_trans less_irrefl)
  next
    case False
    with p have "child (life s') = Some p" by (simp add: admitted_to_def split: if_splits)
    with assms(3) show ?thesis by (auto simp: pids_ok_def)
  qed
  then show ?thesis by (auto simp: served_ok_def admitted_to_def serving_def split: if_splits)
qed

lemma run_served: "proxy_run idle s g \<Longrightarrow> served_ok s g"
proof (induction rule: proxy_run.induct)
  case (fresh_run now)
  show ?case by (simp add: served_ok_def)
next
  case (move s g e s')
  have "pids_ok s'" using move(1,2) by (blast intro: reach_pids run_reach proxy_reach.step)
  with move show ?case by (blast intro: step_served)
qed

lemma reach_run: "proxy_reach idle s \<Longrightarrow> \<exists>g. proxy_run idle s g"
  by (induction rule: proxy_reach.induct) (blast intro: proxy_run.intros)+

section \<open>The properties of the lifecycle\<close>

text \<open>
  In every reachable state of the proxy the counter of active requests is the
  number of threads being served, at most sixteen connections are open, at most one thread is
  launching a child, exactly while \<open>_starting\<close> is set and no child is installed, and a child is
  being reaped exactly while \<open>_stopping\<close> is set, when no request is active.
\<close>

theorem lifecycle_invariant:
  assumes "proxy_reach idle s"
  shows "active (life s) = card (serving (phase_of s)) \<and> card (busy (phase_of s)) \<le> 16 \<and>
    (if starting (life s) then child (life s) = None \<and> (\<exists>t. launching (phase_of s) = {t})
     else launching (phase_of s) = {}) \<and>
    (stopping (life s) \<longleftrightarrow> reaping s \<noteq> None) \<and>
    (if stopping (life s) then active (life s) = 0 \<and> \<not> starting (life s) else True)"
proof -
  have "proxy_ok s" using assms by (rule reach_ok)
  then have th: "threads_ok (phase_of s) (slots s) (life s)" and lc: "lifecycle_ok (life s) (reaping s)"
    by (simp_all add: proxy_ok_def)
  have "card (busy (phase_of s)) \<le> 16"
    using threads_okD(3) [OF th] by (simp add: max_active_connections_def)
  with th lc show ?thesis by (auto simp: threads_ok_def lifecycle_ok_def)
qed

lemma lifecycle_invariant_witness: "active (life (fresh_proxy 0)) = card (serving (phase_of (fresh_proxy 0)))"
  using lifecycle_invariant [OF proxy_reach.initial [of 600 0]] by blast

text \<open>
  C23 (safety). The lifecycle never signals the process of a request that is still active: whatever process is
  signalled, by the reaper, by the shutdown after it has drained or by the clean-up of a failed launch, no request
  that was admitted to it is still being served.
\<close>

theorem active_child_untouched:
  assumes "proxy_run idle s g" and "proxy_step idle s (Signalled p) s'"
  shows "p \<notin> ran g"
proof -
  have ok: "proxy_ok s" using assms(1) by (blast intro: reach_ok run_reach)
  then have th: "threads_ok (phase_of s) (slots s) (life s)" by (simp add: proxy_ok_def)
  have served: "served_ok s g" using assms(1) by (rule run_served)
  have "\<exists>t. owns (phase_of s) t p \<or> active (life s) = 0"
    using assms(2) ok
    by (auto elim!: signalledE simp: owns_def proxy_ok_def lifecycle_ok_def closer_ok_def drained_def)
  then show ?thesis
  proof (elim exE disjE)
    fix t
    assume "owns (phase_of s) t p"
    with served show ?thesis by (auto simp: served_ok_def ran_def)
  next
    assume "active (life s) = 0"
    then have "serving (phase_of s) = {}" using threads_okD(2,4) [OF th] by simp
    with served show ?thesis by (auto simp: served_ok_def ran_def)
  qed
qed

text \<open>A run: thread 0 launches process 0 and is served, then the idle child is being reaped.\<close>

definition first_thread :: "thread_phase \<Rightarrow> lifecycle \<Rightarrow> nat set \<Rightarrow> proxy" where
  "first_thread x l procs = \<lparr>life = l, phase_of = (\<lambda>_. Free)(0 := x), reaping = None, closer = Running,
     alive = procs, launched = 1, slots = 15\<rparr>"

definition launching_life :: lifecycle where
  "launching_life = (fresh_lifecycle 0)\<lparr>starting := True\<rparr>"

definition serving_life :: lifecycle where
  "serving_life = (fresh_lifecycle 0)\<lparr>child := Some 0, active := 1\<rparr>"

lemma reach_launching:
  "proxy_reach idle (first_thread (Launching (Some 0)) launching_life {0})"
proof -
  let ?s0 = "fresh_proxy 0"
  let ?s1 = "?s0\<lparr>phase_of := (phase_of ?s0)(0 := Reading), slots := 15\<rparr>"
  let ?s2 = "?s1\<lparr>life := launching_life, phase_of := (phase_of ?s1)(0 := Launching None)\<rparr>"
  have "proxy_reach idle ?s1"
    by (rule proxy_reach.step [OF proxy_reach.initial], rule proxy_step.accept)
      (simp_all add: fresh_proxy_def max_active_connections_def)
  moreover have "enter_section (\<lambda>p. p \<notin> alive ?s1) (life ?s1) = (launching_life, Must_launch)"
    by (simp add: enter_section_def forget_exited_def fresh_proxy_def fresh_lifecycle_def launching_life_def)
  ultimately have "proxy_reach idle ?s2"
    using proxy_reach.step [OF _ proxy_step.enter [of ?s1 0 launching_life Must_launch idle]] by simp
  from proxy_reach.step [OF this proxy_step.spawn [of ?s2 0 idle]] show ?thesis
    by (simp add: first_thread_def fresh_proxy_def fun_upd_def [symmetric])
qed

lemma reach_served: "proxy_reach idle (first_thread Leaving ((fresh_lifecycle 0)\<lparr>child := Some 0\<rparr>) {0})"
proof -
  let ?s3 = "first_thread (Launching (Some 0)) launching_life {0}"
  let ?s4 = "first_thread Serving serving_life {0}"
  have "wake ((\<lambda>_. Free)(0 := x)) = (\<lambda>_. Free)(0 := x)" if "x \<noteq> Blocked" for x
    using that by (auto simp: wake_def)
  note w = this
  have "proxy_reach idle ?s4"
    using proxy_reach.step [OF reach_launching proxy_step.started [of ?s3 0 0 idle]]
    by (simp add: first_thread_def launch_section_def launching_life_def serving_life_def fresh_lifecycle_def w)
  from proxy_reach.step [OF this proxy_step.finish [of ?s4 0 0 _ idle]] show ?thesis
    by (simp add: first_thread_def end_section_def serving_life_def fresh_lifecycle_def w)
qed

lemma active_child_untouched_witness:
  "\<exists>s g s'. proxy_run 600 s g \<and> proxy_step 600 s (Signalled 0) s' \<and> 0 \<notin> ran g"
proof -
  let ?l = "(fresh_lifecycle 0)\<lparr>child := Some 0\<rparr>"
  let ?s = "first_thread Leaving ?l {0}"
  let ?r = "?s\<lparr>life := ?l\<lparr>stopping := True\<rparr>, reaping := Some 0\<rparr>"
  have "reap_section 600 600 (life ?s) = Some (0, ?l\<lparr>stopping := True\<rparr>)"
    by (simp add: reap_section_def first_thread_def fresh_lifecycle_def)
  from proxy_reach.step [OF reach_served proxy_step.reap [OF this]] have r: "proxy_reach 600 ?r" .
  have st: "proxy_step 600 ?r (Signalled 0) (?r\<lparr>life := reap_done 0 (life ?r), reaping := None, alive := alive ?r,
      phase_of := wake (phase_of ?r)\<rparr>)"
    by (rule proxy_step.reaped) simp_all
  obtain g where g: "proxy_run 600 ?r g" using reach_run [OF r] by blast
  with active_child_untouched [OF g st] st show ?thesis by blast
qed

text \<open>
  C24 (liveness). No wake-up is lost: while a request waits, a launch is under way or the reaper
  is stopping the child, and either can finish now with a step that wakes the request.
\<close>

theorem waiting_is_woken:
  assumes "proxy_reach idle s" and "phase_of s t = Blocked"
  shows "\<exists>e s'. proxy_step idle s e s' \<and> phase_of s' t = Reading \<and>
    ((\<exists>u c. phase_of s u = Launching c) \<or> (\<exists>p. reaping s = Some p \<and> e = Signalled p))"
proof -
  have ok: "proxy_ok s" using assms(1) by (rule reach_ok)
  then have th: "threads_ok (phase_of s) (slots s) (life s)" and lc: "lifecycle_ok (life s) (reaping s)"
    by (simp_all add: proxy_ok_def)
  consider "starting (life s)" | "stopping (life s)" using threads_okD(7) [OF th assms(2)] by blast
  then show ?thesis
  proof cases
    case 1
    then obtain u where "u \<in> launching (phase_of s)" using threads_okD(5) [OF th] by blast
    then obtain c where u: "phase_of s u = Launching c" by (auto simp: launching_def)
    then have "u \<noteq> t" using assms(2) by auto
    with proxy_step.not_started [OF u, of idle] u assms(2) show ?thesis
      by (intro exI conjI disjI1) (auto simp: wake_def)
  next
    case 2
    then obtain p where p: "reaping s = Some p" using lc by (auto simp: lifecycle_ok_def)
    with proxy_step.reaped [OF p, of "alive s" idle] assms(2) show ?thesis
      by (intro exI conjI disjI2) (auto simp: wake_def)
  qed
qed

lemma waiting_is_woken_witness:
  "\<exists>s e s'. phase_of s 1 = Blocked \<and> proxy_step 600 s e s' \<and> phase_of s' 1 = Reading"
proof -
  let ?s3 = "first_thread (Launching (Some 0)) launching_life {0}"
  let ?s4 = "?s3\<lparr>phase_of := (phase_of ?s3)(1 := Reading), slots := 14\<rparr>"
  have r: "proxy_reach 600 ?s4"
    by (rule proxy_reach.step [OF reach_launching], rule proxy_step.accept) (simp_all add: first_thread_def)
  have "enter_section (\<lambda>p. p \<notin> alive ?s4) (life ?s4) = (life ?s4, Must_wait)"
    by (simp add: enter_section_def forget_exited_def first_thread_def launching_life_def fresh_lifecycle_def)
  from proxy_reach.step [OF r proxy_step.enter [of ?s4 1, OF _ this]]
  have "proxy_reach 600 (?s4\<lparr>life := life ?s4, phase_of := (phase_of ?s4)(1 := Blocked)\<rparr>)" (is "proxy_reach _ ?b")
    by simp
  from waiting_is_woken [OF this, of 1] show ?thesis by (intro exI [of _ ?b]) auto
qed

section \<open>Requests\<close>

text \<open>
  \<open>Os_exn\<close> is an \<open>OSError\<close> (a \<open>TimeoutError\<close> is one), \<open>Runtime_exn\<close> a
  \<open>RuntimeError\<close>, \<open>Protocol_exn\<close> an \<open>http.client.HTTPException\<close>, which no clause of
  \<open>do_POST\<close> catches.
\<close>

datatype post_exn = Os_exn | Runtime_exn | Protocol_exn

datatype post_event =
    Error_page nat
  | Begin
  | Forward bytes "(pystr \<times> pystr) list"
  | Head int
  | Payload bytes
  | Close_connection
  | End

type_synonym 'a post = "(post_event, post_exn, 'a) eff"

definition request_path :: pystr where
  "request_path = ''/v1/embeddings''"

definition max_request_bytes :: nat where
  "max_request_bytes = 16 * 1024 * 1024"

definition max_response_bytes :: nat where
  "max_response_bytes = 64 * 1024 * 1024"

definition loopback_client :: "pystr \<Rightarrow> bool" where
  "loopback_client a = (case ip_address a of None \<Rightarrow> False | Some i \<Rightarrow> is_loopback i)"

text \<open>\<open>headers.get(name)\<close>: the first field of that name, whatever its case.\<close>

definition field_of :: "(pystr \<times> pystr) list \<Rightarrow> pystr \<Rightarrow> pystr option" where
  "field_of hs name = map_of (map (\<lambda>(n, v). (py_lower n, v)) hs) (py_lower name)"

text \<open>\<open>rfile.read(n)\<close>: it returns less than \<open>n\<close> bytes only at the end of the stream.\<close>

definition read_body :: "nat \<Rightarrow> istream \<Rightarrow> post_exn + bytes" where
  "read_body n s =
     (if n \<le> length (pending s) then Inr (take n (pending s))
      else if ending s = Eof then Inr (pending s) else Inl Os_exn)"

record request =
  client_ip :: pystr
  req_path :: pystr
  req_fields :: "(pystr \<times> pystr) list"
  req_stream :: istream

text \<open>What the surroundings do: \<open>begin_request\<close>, the child's answer (status, content type and
  body), and the writes to the client.\<close>

record backend =
  begins :: "post_exn + unit"
  answer :: "post_exn + (int \<times> pystr option \<times> bytes)"
  write_head :: "post_exn + unit"
  write_body :: "post_exn + unit"
  write_error :: "post_exn + unit"

definition write_event :: "post_event list \<Rightarrow> post_exn + unit \<Rightarrow> unit post" where
  "write_event evs r = (evs, r)"

definition forward_fields :: "(pystr \<times> pystr) list \<Rightarrow> (pystr \<times> pystr) list" where
  "forward_fields hs =
     (''Content-Type'', case field_of hs ''Content-Type'' of None \<Rightarrow> ''application/json'' | Some v \<Rightarrow> v) #
     (case field_of hs ''Authorization'' of
        None \<Rightarrow> [] | Some v \<Rightarrow> (if v = [] then [] else [(''Authorization'', v)]))"

definition relay :: "backend \<Rightarrow> request \<Rightarrow> bytes \<Rightarrow> unit post" where
  "relay k rq body =
     io_bind (io_lift (begins k)) (\<lambda>_.
     io_bind (io_emit [Begin, Forward body (forward_fields (req_fields rq))]) (\<lambda>_.
     io_bind (io_lift (answer k)) (\<lambda>(status, ctype, full).
       let got = take (max_response_bytes + 1) full
       in if max_response_bytes < length got then io_raise Runtime_exn
          else io_bind (write_event [Head status] (write_head k)) (\<lambda>_.
               write_event [Payload got] (write_body k)))))"

definition answer_unavailable :: "backend \<Rightarrow> unit post" where
  "answer_unavailable k = write_event [Head 503] (write_error k)"

definition guarded_relay :: "backend \<Rightarrow> request \<Rightarrow> bytes \<Rightarrow> unit post" where
  "guarded_relay k rq body =
     (let m = io_catch (relay k rq body) (\<lambda>e. e \<noteq> Protocol_exn) (\<lambda>_. answer_unavailable k)
      in (fst m @ (if Begin \<in> set (fst m) then [Close_connection, End] else []), snd m))"

definition do_post :: "backend \<Rightarrow> request \<Rightarrow> unit post" where
  "do_post k rq =
     (if \<not> loopback_client (client_ip rq) then io_emit [Error_page 403]
      else if req_path rq \<noteq> request_path then io_emit [Error_page 404]
      else if field_of (req_fields rq) ''Transfer-Encoding'' \<noteq> None then io_emit [Error_page 400]
      else (case py_int (case field_of (req_fields rq) ''Content-Length'' of None \<Rightarrow> [] | Some v \<Rightarrow> v) of
        Inl _ \<Rightarrow> io_emit [Error_page 411]
      | Inr n \<Rightarrow>
          (if n \<le> 0 \<or> int max_request_bytes < n then io_emit [Error_page 413]
           else (case read_body (nat n) (req_stream rq) of
             Inl e \<Rightarrow> io_raise e
           | Inr body \<Rightarrow>
               (if int (length body) \<noteq> n then io_emit [Error_page 400]
                else guarded_relay k rq body)))))"

definition do_get :: "request \<Rightarrow> unit post" where
  "do_get rq = io_emit [Error_page (if loopback_client (client_ip rq) then 404 else 403)]"

lemma relay_log:
  "fst (relay k rq body) \<in>
     {[], [Begin, Forward body (forward_fields (req_fields rq))]} \<union>
     {Begin # Forward body (forward_fields (req_fields rq)) # Head st # ps | st ps.
        ps = [] \<or> (\<exists>b. ps = [Payload b] \<and> length b \<le> max_response_bytes)}"
  by (auto simp: relay_def fst_io_bind write_event_def Let_def split: sum.splits prod.splits)

text \<open>Every log of a relayed request.\<close>

definition relayed :: "bytes \<Rightarrow> (pystr \<times> pystr) list \<Rightarrow> post_event list \<Rightarrow> bool" where
  "relayed body hs evs \<longleftrightarrow> (\<exists>rest. evs = Begin # Forward body hs # rest @ [Close_connection, End] \<and>
     list_all (\<lambda>e. (\<exists>st. e = Head st) \<or> (\<exists>b. e = Payload b \<and> length b \<le> max_response_bytes)) rest)"

lemma guarded_relay_log:
  assumes "fst (guarded_relay k rq body) = evs"
  shows "evs = [] \<or> evs = [Head 503] \<or> relayed body (forward_fields (req_fields rq)) evs"
proof -
  let ?f = "Forward body (forward_fields (req_fields rq))"
  consider "fst (relay k rq body) = []" | "fst (relay k rq body) = [Begin, ?f]"
    | st ps where "fst (relay k rq body) = Begin # ?f # Head st # ps"
        "ps = [] \<or> (\<exists>b. ps = [Payload b] \<and> length b \<le> max_response_bytes)"
    using relay_log [of k rq body] by blast
  then show ?thesis
    using assms
    by cases (auto simp: guarded_relay_def Let_def fst_io_catch answer_unavailable_def write_event_def relayed_def
        split: sum.splits if_splits)
qed

lemma do_post_relays:
  assumes "do_post k rq = (evs, r)" "Forward body hs \<in> set evs"
  shows "loopback_client (client_ip rq) \<and> req_path rq = request_path \<and>
    field_of (req_fields rq) ''Transfer-Encoding'' = None \<and>
    (\<exists>v. field_of (req_fields rq) ''Content-Length'' = Some v \<and> py_int v = Inr (int (length body))) \<and>
    0 < length body \<and> length body \<le> max_request_bytes \<and> body = take (length body) (pending (req_stream rq)) \<and>
    relayed body hs evs"
proof -
  let ?cl = "case field_of (req_fields rq) ''Content-Length'' of None \<Rightarrow> [] | Some v \<Rightarrow> v"
  have pre: "loopback_client (client_ip rq)" "req_path rq = request_path"
    "field_of (req_fields rq) ''Transfer-Encoding'' = None"
    using assms by (auto simp: do_post_def io_emit_def split: if_splits)
  obtain n where n: "py_int ?cl = Inr n" "0 < n" "n \<le> int max_request_bytes"
    using assms pre by (auto simp: do_post_def io_emit_def split: if_splits sum.splits)
  obtain b where b: "read_body (nat n) (req_stream rq) = Inr b" "int (length b) = n"
    and log: "guarded_relay k rq b = (evs, r)"
    using assms pre n by (auto simp: do_post_def io_emit_def io_raise_def split: if_splits sum.splits)
  have rel: "relayed b (forward_fields (req_fields rq)) evs"
    using guarded_relay_log [of k rq b evs] log assms(2) by auto
  then have same: "b = body" "forward_fields (req_fields rq) = hs"
    using assms(2) by (auto simp: relayed_def list_all_iff)
  have v: "\<exists>v. field_of (req_fields rq) ''Content-Length'' = Some v \<and> py_int v = Inr n"
    using n(1) by (cases "field_of (req_fields rq) ''Content-Length''") (auto simp: py_int_def py_strip_def strip_by_def rstrip_by_def lstrip_by_def)
  have tk: "b = take (length b) (pending (req_stream rq))"
    using b n by (auto simp: read_body_def split: if_splits)
  show ?thesis using pre n v tk b rel same by auto
qed

text \<open>
  A request is forwarded to the embedding child at most once, only for a loopback
  client on the one served path, with exactly the announced number of body bytes (at most 16
  MiB), inside one matched pair of \<open>begin_request\<close> and \<open>end_request\<close>; no payload beyond 64 MiB
  is sent back.
\<close>

theorem embedding_forward_once:
  assumes "do_post k rq = (evs, r)" and "Forward body hs \<in> set evs"
  shows "loopback_client (client_ip rq) \<and> req_path rq = request_path \<and>
    (\<exists>v. field_of (req_fields rq) ''Content-Length'' = Some v \<and> py_int v = Inr (int (length body))) \<and>
    0 < length body \<and> length body \<le> 16 * 1024 * 1024 \<and>
    (\<exists>rest. pending (req_stream rq) = body @ rest) \<and>
    length (filter (\<lambda>e. \<exists>b h. e = Forward b h) evs) = 1 \<and>
    hd evs = Begin \<and> last evs = End \<and> count_list evs Begin = 1 \<and> count_list evs End = 1 \<and>
    (\<forall>b. Payload b \<in> set evs \<longrightarrow> length b \<le> 64 * 1024 * 1024)"
proof -
  note f = do_post_relays [OF assms]
  obtain rest where evs: "evs = Begin # Forward body hs # rest @ [Close_connection, End]"
    and rest: "\<forall>e \<in> set rest. (\<exists>st. e = Head st) \<or> (\<exists>b. e = Payload b \<and> length b \<le> max_response_bytes)"
    using f by (auto simp: relayed_def list_all_iff)
  have "filter (\<lambda>e. \<exists>b h. e = Forward b h) rest = []" "count_list rest Begin = 0" "count_list rest End = 0"
    using rest by (auto simp: filter_empty_conv count_list_0_iff)
  moreover have "\<exists>t. pending (req_stream rq) = body @ t"
    using f by (metis append_take_drop_id)
  moreover have "\<forall>b. Payload b \<in> set evs \<longrightarrow> length b \<le> 64 * 1024 * 1024"
    using rest unfolding evs by (auto simp: max_response_bytes_def)
  ultimately show ?thesis using f unfolding evs by (simp add: max_request_bytes_def)
qed

definition sample_request :: request where
  "sample_request = \<lparr>client_ip = ''127.0.0.1'', req_path = ''/v1/embeddings'',
     req_fields = [(''content-length'', ''2'')], req_stream = \<lparr>pending = ''{}'', ending = Silent\<rparr>\<rparr>"

definition sample_backend :: backend where
  "sample_backend = \<lparr>begins = Inr (), answer = Inr (200, None, ''ok''), write_head = Inr (),
     write_body = Inr (), write_error = Inr ()\<rparr>"

definition sample_log :: "post_event list" where
  "sample_log = [Begin, Forward ''{}'' [(''Content-Type'', ''application/json'')], Head 200,
     Payload ''ok'', Close_connection, End]"

lemma embedding_forward_once_witness:
  "do_post sample_backend sample_request = (sample_log, Inr ()) \<and> count_list sample_log End = 1"
proof -
  have log: "do_post sample_backend sample_request = (sample_log, Inr ())"
    by code_simp
  have "Forward ''{}'' [(''Content-Type'', ''application/json'')] \<in> set sample_log"
    by (simp add: sample_log_def)
  from embedding_forward_once [OF log this] log show ?thesis by blast
qed

text \<open>A start-up that succeeds ends with a child that runs, answers and lists the served model.\<close>

theorem started_child_advertises:
  assumes "startup_loop model ks = Some (Inr ())"
  shows "\<exists>k \<in> set ks. \<not> canceled k \<and> exit_status k = None \<and> \<not> health_exited k \<and>
    (\<exists>payload items. health_reply k = Models 200 (Some (JObj payload)) \<and>
       jget payload ''data'' = JList items \<and> advertises model items)"
  using assms
proof (induction ks)
  case (Cons k ks)
  show ?case
  proof (cases "child_healthy model (health_exited k) (health_reply k) = Inr True")
    case True
    then have "\<not> health_exited k \<and> (\<exists>payload items. health_reply k = Models 200 (Some (JObj payload)) \<and>
       jget payload ''data'' = JList items \<and> advertises model items)"
      by (auto simp: child_healthy_def split: if_splits models_reply.splits option.splits json.splits)
    moreover have "\<not> canceled k" "exit_status k = None"
      using Cons.prems by (auto split: if_splits option.splits)
    ultimately show ?thesis by (intro bexI [of _ k]) auto
  next
    case False
    with Cons.prems have "startup_loop model ks = Some (Inr ())"
      by (auto split: if_splits option.splits sum.splits bool.splits)
    from Cons.IH [OF this] show ?thesis by auto
  qed
qed simp

lemma started_child_advertises_witness:
  "\<exists>k. startup_loop ''m'' [k] = Some (Inr ()) \<and> \<not> health_exited k"
proof -
  let ?k = "\<lparr>canceled = False, exit_status = None, health_exited = False,
    health_reply = Models 200 (Some (JObj [(''data'', JList [JObj [(''id'', JStr ''m'')]])]))\<rparr>"
  have "startup_loop ''m'' [?k] = Some (Inr ())"
    by (simp add: child_healthy_def advertises_def)
  from started_child_advertises [OF this] this show ?thesis by (intro exI [of _ ?k]) simp
qed

end
