(* ===== verification/Host_Process.thy ===== *)
theory Host_Process
  imports PyLines
begin

text \<open>
  The lifecycle helper of the optional host processes: \<open>src/embedserv/host_process_manager.py\<close>.
  What \<open>ps\<close>, the ports, the clocks and the process table answer is an argument; what the
  helper does to processes and to its record file is the log of its steps.
\<close>

section \<open>The record file\<close>

datatype host_exn = Contract pystr | Os_error pystr | Bad_text | Bad_number

record proc_record =
  rec_pid :: nat
  rec_token :: pystr
  rec_config :: pystr

datatype record_file = No_file | Unreadable pystr | Contents bytes

definition lower_hex_c :: "char \<Rightarrow> bool" where
  "lower_hex_c c \<longleftrightarrow> is_digit c \<or> (97 \<le> ord_c c \<and> ord_c c \<le> 102)"

text \<open>\<open>TOKEN_PATTERN.fullmatch\<close>.\<close>

definition token_ok :: "pystr \<Rightarrow> bool" where
  "token_ok t \<longleftrightarrow> length t = 64 \<and> list_all lower_hex_c t"

definition read_record :: "record_file \<Rightarrow> host_exn + proc_record option" where
  "read_record f = (case f of
     No_file \<Rightarrow> Inr None
   | Unreadable m \<Rightarrow> Inl (Os_error m)
   | Contents b \<Rightarrow>
       (if \<not> is_ascii b then Inl Bad_text
        else (case splitlines b of
          [p, t, c] \<Rightarrow>
            (if p = [] \<or> \<not> list_all is_digit p \<or> \<not> token_ok t then Inr None
             else if max_str_digits < length p then Inl Bad_number
             else Inr (Some \<lparr>rec_pid = dec_nat p, rec_token = t, rec_config = c\<rparr>))
        | _ \<Rightarrow> Inr None)))"

definition write_record :: "proc_record \<Rightarrow> bytes" where
  "write_record r = nat_str (rec_pid r) @ [CHR 0x0A] @ rec_token r @ [CHR 0x0A] @ rec_config r @ [CHR 0x0A]"

text \<open>\<open>_config_id\<close>: SHA-256 (an argument) of the command and the fingerprint files, in
  hexadecimal.\<close>

definition config_id :: "(bytes \<Rightarrow> pystr) \<Rightarrow> pystr list \<Rightarrow> (pystr \<times> bytes) list \<Rightarrow> pystr" where
  "config_id sha command files =
     sha (concat (map (\<lambda>i. encode_utf8 i @ [CHR 0x00]) command) @
          concat (map (\<lambda>(path, b). encode_utf8 path @ [CHR 0x00] @ b @ [CHR 0x00]) files))"

section \<open>Ownership\<close>

definition owner_flag :: "pystr \<Rightarrow> pystr" where
  "owner_flag token = ''--owner-token '' @ token"

text \<open>\<open>_owned\<close>, on the command line \<open>ps\<close> prints for the recorded process.\<close>

definition owned :: "proc_record \<Rightarrow> pystr \<Rightarrow> pystr \<Rightarrow> bool" where
  "owned r identity command \<longleftrightarrow>
     command \<noteq> [] \<and> contains command identity \<and> contains command (owner_flag (rec_token r))"

text \<open>\<open>_wait_stopped\<close>: each round is whether the process runs and whether the deadline is still
  ahead; the last answer is asked for again.\<close>

fun wait_stopped :: "(bool \<times> bool) list \<Rightarrow> bool \<Rightarrow> bool" where
  "wait_stopped [] running = (\<not> running)"
| "wait_stopped ((r, early) # rs) running =
     (if r \<and> early then wait_stopped rs running else \<not> running)"

section \<open>Steps\<close>

datatype host_event =
    Terminate_pid nat pystr
  | Remove_record
  | Launch "pystr list"
  | Save_record bytes
  | Terminate_child

type_synonym 'a host = "(host_event, host_exn, 'a) eff"

text \<open>\<open>_stop_owned\<close>; the event holds the command line the process had when it was asked.\<close>

definition stop_owned :: "proc_record \<Rightarrow> pystr \<Rightarrow> pystr \<Rightarrow> (host_exn + unit) \<Rightarrow> bool \<Rightarrow> unit host" where
  "stop_owned r identity command kill stopped =
     (if \<not> owned r identity command
      then io_raise (Contract (''PID '' @ nat_str (rec_pid r) @ '' does not match the recorded service identity''))
      else io_bind (io_emit [Terminate_pid (rec_pid r) command]) (\<lambda>_.
           io_bind (io_lift kill) (\<lambda>_.
           io_lift (raise_if (\<not> stopped)
             (Contract (''PID '' @ nat_str (rec_pid r) @ '' did not stop in time''))))))"

text \<open>What the surroundings answer to one command: \<open>command_1\<close> and \<open>command_2\<close> are what
  \<open>ps\<close> prints for the recorded process at the first and at the second look.\<close>

record surroundings =
  found :: record_file
  command_1 :: pystr
  command_2 :: pystr
  kill_result :: "host_exn + unit"
  wait_rounds :: "(bool \<times> bool) list"
  runs_after :: bool
  ready_now :: bool
  running_now :: bool
  port_taken_1 :: bool
  port_taken_2 :: bool
  missing_path :: "pystr option"
  new_token :: pystr
  spawn_result :: "host_exn + nat"
  startup_rounds :: "(bool \<times> bool) list"
  exited_late :: bool
  stops_in_time :: bool

record start_args =
  identity :: pystr
  command :: "pystr list"

datatype existing = Already_ready | Go_on

text \<open>What becomes of a recorded process.\<close>

definition settle_record :: "surroundings \<Rightarrow> pystr \<Rightarrow> pystr \<Rightarrow> proc_record option \<Rightarrow> existing host" where
  "settle_record w ident cid rec = (case rec of
     None \<Rightarrow> io_ret Go_on
   | Some r \<Rightarrow>
       (if owned r ident (command_1 w)
        then (if rec_config r = cid
              then (if ready_now w then io_ret Already_ready
                    else io_raise (Contract ''tracked service is running but not ready; stop it first''))
              else io_bind (stop_owned r ident (command_2 w) (kill_result w)
                              (wait_stopped (wait_rounds w) (runs_after w))) (\<lambda>_.
                   io_bind (io_emit [Remove_record]) (\<lambda>_. io_ret Go_on)))
        else if running_now w \<or> port_taken_1 w
        then io_raise (Contract ''recorded identity does not match; no process was signaled'')
        else io_bind (io_emit [Remove_record]) (\<lambda>_. io_ret Go_on)))"

text \<open>The start-up loop: whether the service is ready and whether it has exited, round after round
  until the deadline.\<close>

datatype startup = Up | Died | Too_late

fun startup_wait :: "(bool \<times> bool) list \<Rightarrow> startup" where
  "startup_wait [] = Too_late"
| "startup_wait ((ready, exited) # rs) = (if ready then Up else if exited then Died else startup_wait rs)"

definition await_startup :: "surroundings \<Rightarrow> unit host" where
  "await_startup w = (case startup_wait (startup_rounds w) of
     Up \<Rightarrow> io_ret ()
   | Died \<Rightarrow> io_bind (io_emit [Remove_record]) (\<lambda>_. io_raise (Contract ''exited during startup''))
   | Too_late \<Rightarrow>
       io_bind (if exited_late w then io_ret ()
                else io_bind (io_emit [Terminate_child]) (\<lambda>_.
                     io_lift (raise_if (\<not> stops_in_time w)
                       (Contract ''did not stop after startup timed out; ownership record retained'')))) (\<lambda>_.
       io_bind (io_emit [Remove_record]) (\<lambda>_. io_raise (Contract ''did not become ready''))))"

definition launch :: "surroundings \<Rightarrow> start_args \<Rightarrow> pystr list \<Rightarrow> pystr \<Rightarrow> unit host" where
  "launch w a cmd cid =
     (if port_taken_2 w then io_raise (Contract ''port is owned by an untracked process'')
      else if \<not> list_ex (\<lambda>i. contains i (identity a)) cmd
      then io_raise (Contract ''service identity must be present in the launched command'')
      else case missing_path w of
        Some p \<Rightarrow> io_raise (Contract (''required path is unavailable: '' @ p))
      | None \<Rightarrow>
          io_bind (io_emit [Launch (cmd @ [''--owner-token'', new_token w])]) (\<lambda>_.
          io_bind (io_lift (spawn_result w)) (\<lambda>p.
          io_bind (io_emit [Save_record (write_record
                     \<lparr>rec_pid = p, rec_token = new_token w, rec_config = cid\<rparr>)]) (\<lambda>_.
          await_startup w))))"

definition start_command :: "start_args \<Rightarrow> pystr list" where
  "start_command a = (if take 1 (command a) = [''--''] then drop 1 (command a) else command a)"

definition start :: "(pystr list \<Rightarrow> pystr) \<Rightarrow> surroundings \<Rightarrow> start_args \<Rightarrow> unit host" where
  "start fingerprint w a =
     (let cmd = start_command a
      in if cmd = [] then io_raise (Contract ''a service command is required after --'')
         else io_bind (io_lift (read_record (found w))) (\<lambda>rec.
              if found w \<noteq> No_file \<and> rec = None
              then io_raise (Contract ''the record is malformed; refusing to guess ownership'')
              else io_bind (settle_record w (identity a) (fingerprint cmd) rec) (\<lambda>x.
                   if x = Already_ready then io_ret () else launch w a cmd (fingerprint cmd))))"

definition stop :: "surroundings \<Rightarrow> pystr \<Rightarrow> unit host" where
  "stop w ident =
     io_bind (io_lift (read_record (found w))) (\<lambda>rec.
       if found w = No_file then io_ret ()
       else case rec of
         None \<Rightarrow> io_emit [Remove_record]
       | Some r \<Rightarrow>
           (if \<not> owned r ident (command_1 w) then io_emit [Remove_record]
            else io_bind (stop_owned r ident (command_2 w) (kill_result w)
                            (wait_stopped (wait_rounds w) (runs_after w))) (\<lambda>_. io_emit [Remove_record])))"

text \<open>\<open>main\<close>: an \<open>OSError\<close> and the module's exception end with status 1; a record that is not
  ASCII, or whose number is too long, ends with a traceback.\<close>

definition exit_status :: "(host_event, host_exn, unit) eff \<Rightarrow> nat option" where
  "exit_status m = (case snd m of
     Inr _ \<Rightarrow> Some 0
   | Inl (Contract _) \<Rightarrow> Some 1
   | Inl (Os_error _) \<Rightarrow> Some 1
   | Inl _ \<Rightarrow> None)"

text \<open>The record file after the steps.\<close>

fun file_after :: "record_file \<Rightarrow> host_event list \<Rightarrow> record_file" where
  "file_after f [] = f"
| "file_after f (Remove_record # es) = file_after No_file es"
| "file_after f (Save_record b # es) = file_after (Contents b) es"
| "file_after f (e # es) = file_after f es"

section \<open>Records\<close>

lemma join_contains: "w \<in> set ws \<Longrightarrow> \<exists>a b. join sep ws = a @ w @ b"
proof (induction ws)
  case (Cons v ws)
  show ?case
  proof (cases "ws = []")
    case False
    then have j: "join sep (v # ws) = v @ sep @ join sep ws" by (rule join_Cons)
    show ?thesis
    proof (cases "w = v")
      case True
      then show ?thesis using j by (metis append_Nil)
    next
      case False
      with Cons obtain a b where "join sep ws = a @ w @ b" by auto
      with j have "join sep (v # ws) = (v @ sep @ a) @ w @ b" by simp
      then show ?thesis by blast
    qed
  qed (use Cons in \<open>auto intro: exI [of _ "[]"]\<close>)
qed simp

lemma contains_append: "contains a s \<or> contains b s \<Longrightarrow> contains (a @ b) s"
  unfolding contains_iff by (metis append.assoc)

lemma join_snoc2: "ws \<noteq> [] \<Longrightarrow> join sep (ws @ [a, b]) = join sep ws @ sep @ a @ sep @ b"
  by (induction ws rule: induct_list012) (simp_all add: join_Cons)

text \<open>The command line of a launched process identifies it.\<close>

definition launch_line :: "pystr list \<Rightarrow> pystr" where
  "launch_line cmd = join '' '' cmd"

lemma launched_owned:
  assumes "list_ex (\<lambda>i. contains i ident) cmd" "rec_token r = t"
  shows "owned r ident (launch_line (cmd @ [''--owner-token'', t]))"
proof -
  obtain i where i: "i \<in> set cmd" "contains i ident" using assms(1) by (auto simp: list_ex_iff)
  then have ne: "cmd \<noteq> []" by auto
  note line = join_snoc2 [OF ne, of "'' ''" "''--owner-token''" t]
  obtain a b where "join '' '' cmd = a @ i @ b" using join_contains [OF i(1)] by blast
  then have "contains (join '' '' cmd) ident" using i(2) by (auto simp: contains_iff) (metis append.assoc)
  then have "contains (launch_line (cmd @ [''--owner-token'', t])) ident"
    unfolding launch_line_def line by (intro contains_append) simp
  moreover have "contains (launch_line (cmd @ [''--owner-token'', t])) (owner_flag t)"
    unfolding launch_line_def line owner_flag_def contains_iff
    by (rule exI [of _ "join '' '' cmd @ '' ''"], rule exI [of _ "[]"]) simp
  moreover have "launch_line (cmd @ [''--owner-token'', t]) \<noteq> []"
    unfolding launch_line_def line by simp
  ultimately show ?thesis using assms(2) by (simp add: owned_def)
qed

definition record_ok :: "proc_record \<Rightarrow> bool" where
  "record_ok r \<longleftrightarrow> length (nat_str (rec_pid r)) \<le> max_str_digits \<and> token_ok (rec_token r) \<and>
     is_ascii (rec_config r) \<and> list_all (\<lambda>c. \<not> line_break c) (rec_config r)"

lemma lower_hex_plain: "lower_hex_c c \<Longrightarrow> \<not> line_break c \<and> ascii_c c"
  by (auto simp: lower_hex_c_def is_digit_def line_break_def ascii_c_def)

lemma read_written:
  assumes "record_ok r"
  shows "read_record (Contents (write_record r)) = Inr (Some r)"
proof -
  have t: "list_all (\<lambda>c. \<not> line_break c) (rec_token r)" "is_ascii (rec_token r)"
    using assms lower_hex_plain by (auto simp: record_ok_def token_ok_def list_all_iff is_ascii_def)
  have p: "list_all (\<lambda>c. \<not> line_break c) (nat_str (rec_pid r))"
    using nat_str_digits [of "rec_pid r"] digit_no_break by (auto simp: list_all_iff)
  have "is_ascii (write_record r)"
    using t assms by (simp add: write_record_def record_ok_def ascii_c_def ord_c_def)
  moreover have "splitlines (write_record r) = [nat_str (rec_pid r), rec_token r, rec_config r]"
    using p t assms by (simp add: write_record_def record_ok_def splitlines_line)
  ultimately show ?thesis
    using assms nat_str_digits by (simp add: read_record_def record_ok_def)
qed

section \<open>What the commands do\<close>

lemma stop_owned_log:
  "set (fst (stop_owned r ident c kill stopped)) \<subseteq> {Terminate_pid (rec_pid r) c}"
  "Terminate_pid p d \<in> set (fst (stop_owned r ident c kill stopped)) \<Longrightarrow>
     p = rec_pid r \<and> d = c \<and> owned r ident c"
  "snd (stop_owned r ident c kill stopped) = Inr x \<Longrightarrow> owned r ident c \<and> kill = Inr () \<and> stopped"
  by (auto simp: stop_owned_def fst_io_bind snd_io_bind rbind_Inr_iff split: sum.splits if_splits)

lemma settle_record_terminates:
  assumes "Terminate_pid p d \<in> set (fst (settle_record w ident cid rec))"
  shows "\<exists>r. rec = Some r \<and> p = rec_pid r \<and> owned r ident d"
proof -
  obtain r where r: "rec = Some r"
    using assms by (cases rec) (auto simp: settle_record_def)
  have "Terminate_pid p d \<in> set (fst (stop_owned r ident (command_2 w) (kill_result w)
      (wait_stopped (wait_rounds w) (runs_after w))))"
    using assms r by (auto simp: settle_record_def fst_io_bind split: if_splits sum.splits)
  from stop_owned_log(2) [OF this] r show ?thesis by auto
qed

lemma await_startup_log: "Terminate_pid p d \<notin> set (fst (await_startup w))"
  by (auto simp: await_startup_def fst_io_bind split: startup.splits sum.splits)

lemma launch_log: "Terminate_pid p d \<notin> set (fst (launch w a cmd cid))"
  using await_startup_log by (auto simp: launch_def fst_io_bind split: sum.splits option.splits)

lemma host_start_log:
  "fst (start fp w a) = [] \<or>
   (\<exists>rec. read_record (found w) = Inr rec \<and> (found w = No_file \<or> rec \<noteq> None) \<and> start_command a \<noteq> [] \<and>
      start fp w a = io_bind (settle_record w (identity a) (fp (start_command a)) rec) (\<lambda>x.
        if x = Already_ready then io_ret () else launch w a (start_command a) (fp (start_command a))))"
proof (cases "read_record (found w)")
  case (Inl e)
  then show ?thesis by (simp add: start_def fst_io_bind Let_def)
next
  case (Inr rec)
  then show ?thesis by (simp add: start_def fst_io_bind Let_def)
qed

lemma start_terminates:
  assumes "Terminate_pid p d \<in> set (fst (start fp w a))"
  shows "\<exists>r. read_record (found w) = Inr (Some r) \<and> p = rec_pid r \<and> owned r (identity a) d"
proof -
  obtain rec where rec: "read_record (found w) = Inr rec"
    and st: "start fp w a = io_bind (settle_record w (identity a) (fp (start_command a)) rec) (\<lambda>x.
        if x = Already_ready then io_ret () else launch w a (start_command a) (fp (start_command a)))"
    using host_start_log [of fp w a] assms by auto
  have "Terminate_pid p d \<in> set (fst (settle_record w (identity a) (fp (start_command a)) rec))"
    using assms launch_log unfolding st by (auto simp: fst_io_bind split: sum.splits if_splits)
  from settle_record_terminates [OF this] rec show ?thesis by auto
qed

lemma stop_terminates:
  assumes "Terminate_pid p d \<in> set (fst (stop w ident))"
  shows "\<exists>r. read_record (found w) = Inr (Some r) \<and> p = rec_pid r \<and> owned r ident d"
proof (cases "read_record (found w)")
  case (Inl e)
  with assms show ?thesis by (simp add: stop_def)
next
  case (Inr rec)
  then obtain r where r: "rec = Some r"
    using assms by (cases rec) (auto simp: stop_def split: if_splits)
  have "Terminate_pid p d \<in> set (fst (stop_owned r ident (command_2 w) (kill_result w)
      (wait_stopped (wait_rounds w) (runs_after w))))"
    using assms r Inr by (auto simp: stop_def fst_io_bind split: if_splits sum.splits)
  from stop_owned_log(2) [OF this] r Inr show ?thesis by auto
qed

text \<open>How a launch ends: what it leaves in the record file.\<close>

lemma settle_go_on:
  assumes "snd (settle_record w ident cid rec) = Inr Go_on"
  shows "fst (settle_record w ident cid rec) =
      (case rec of None \<Rightarrow> [] | Some r \<Rightarrow>
         (if owned r ident (command_1 w) then [Terminate_pid (rec_pid r) (command_2 w), Remove_record]
          else [Remove_record]))"
    and "rec = Some r \<Longrightarrow> owned r ident (command_1 w) \<Longrightarrow>
      owned r ident (command_2 w) \<and> wait_stopped (wait_rounds w) (runs_after w)"
    and "rec = Some r \<Longrightarrow> \<not> owned r ident (command_1 w) \<Longrightarrow> \<not> running_now w \<and> \<not> port_taken_1 w"
  using assms
  by (auto simp: settle_record_def stop_owned_def fst_io_bind snd_io_bind rbind_Inr_iff
      split: option.splits if_splits sum.splits)

definition launched_record :: "surroundings \<Rightarrow> pystr \<Rightarrow> nat \<Rightarrow> proc_record" where
  "launched_record w cid p = \<lparr>rec_pid = p, rec_token = new_token w, rec_config = cid\<rparr>"

lemma file_after_append: "file_after f (xs @ ys) = file_after (file_after f xs) ys"
  by (induction f xs rule: file_after.induct) auto

lemma launch_success:
  assumes "snd (launch w a cmd cid) = Inr ()"
  shows "\<exists>p. spawn_result w = Inr p \<and> \<not> port_taken_2 w \<and> list_ex (\<lambda>i. contains i (identity a)) cmd \<and>
    startup_wait (startup_rounds w) = Up \<and>
    fst (launch w a cmd cid) = [Launch (cmd @ [''--owner-token'', new_token w]),
       Save_record (write_record (launched_record w cid p))]"
  using assms
  by (auto simp: launch_def await_startup_def launched_record_def fst_io_bind snd_io_bind rbind_Inr_iff
      split: if_splits option.splits startup.splits)

lemma launch_spawned:
  assumes "spawn_result w = Inr p" "Launch c \<in> set (fst (launch w a cmd cid))"
  shows "file_after f (fst (launch w a cmd cid)) =
    (if startup_wait (startup_rounds w) = Up \<or>
        startup_wait (startup_rounds w) = Too_late \<and> \<not> exited_late w \<and> \<not> stops_in_time w
     then Contents (write_record (launched_record w cid p)) else No_file)"
  using assms
  by (auto simp: launch_def await_startup_def launched_record_def fst_io_bind snd_io_bind raise_if_def
      split: if_splits option.splits startup.splits)

lemma launch_launches:
  "Launch c \<in> set (fst (launch w a cmd cid)) \<Longrightarrow>
   c = cmd @ [''--owner-token'', new_token w] \<and> \<not> port_taken_2 w \<and> list_ex (\<lambda>i. contains i (identity a)) cmd"
  "length (filter (\<lambda>e. \<exists>c. e = Launch c) (fst (launch w a cmd cid))) \<le> 1"
  by (auto simp: launch_def await_startup_def fst_io_bind snd_io_bind
      split: if_splits option.splits startup.splits sum.splits)

lemma settle_no_launch: "Launch c \<notin> set (fst (settle_record w ident cid rec))"
  using stop_owned_log(1) by (fastforce simp: settle_record_def fst_io_bind split: option.splits if_splits sum.splits)

text \<open>A start that launches went past the record and then ran \<open>launch\<close>.\<close>

lemma start_launched:
  assumes "Launch c \<in> set (fst (start fp w a))"
  shows "\<exists>rec. read_record (found w) = Inr rec \<and> (found w = No_file \<or> rec \<noteq> None) \<and>
    snd (settle_record w (identity a) (fp (start_command a)) rec) = Inr Go_on \<and>
    fst (start fp w a) = fst (settle_record w (identity a) (fp (start_command a)) rec) @
      fst (launch w a (start_command a) (fp (start_command a))) \<and>
    snd (start fp w a) = snd (launch w a (start_command a) (fp (start_command a))) \<and>
    Launch c \<in> set (fst (launch w a (start_command a) (fp (start_command a))))"
proof -
  obtain rec where rec: "read_record (found w) = Inr rec" "found w = No_file \<or> rec \<noteq> None"
    and st: "start fp w a = io_bind (settle_record w (identity a) (fp (start_command a)) rec) (\<lambda>x.
        if x = Already_ready then io_ret () else launch w a (start_command a) (fp (start_command a)))"
    using host_start_log [of fp w a] assms by auto
  have "snd (settle_record w (identity a) (fp (start_command a)) rec) \<noteq> Inl e" for e
    using assms settle_no_launch unfolding st by (auto simp: fst_io_bind)
  then obtain x where x: "snd (settle_record w (identity a) (fp (start_command a)) rec) = Inr x"
    by (metis sum.exhaust)
  then have "x = Go_on"
    using assms settle_no_launch unfolding st by (cases x) (auto simp: fst_io_bind)
  with x rec assms settle_no_launch show ?thesis
    unfolding st by (intro exI [of _ rec]) (auto simp: fst_io_bind snd_io_bind)
qed

section \<open>The properties\<close>

text \<open>
  C25 (safety). Neither command sends a signal to a process of the process table unless the
  command line \<open>ps\<close> just printed for the recorded number carries both the service identity and
  the recorded owner token: a recycled process number is never killed.
\<close>

theorem only_owned_terminated:
  assumes "Terminate_pid p line \<in> set (fst (start fp w a)) \<and> identity a = ident \<or>
    Terminate_pid p line \<in> set (fst (stop w ident))"
  shows "\<exists>r. read_record (found w) = Inr (Some r) \<and> rec_pid r = p \<and>
    contains line ident \<and> contains line (''--owner-token '' @ rec_token r)"
  using assms start_terminates [of p line fp w a] stop_terminates [of p line w ident]
  by (auto simp: owned_def owner_flag_def)

text \<open>
  C26 (roundtrip). A start that launches a service and succeeds leaves a record from which a later
  stop, looking at the command line the service was launched with, recognises it, terminates that
  very process and removes the record.
\<close>

theorem started_service_is_stopped:
  assumes "snd (start fp w a) = Inr ()" and "Launch cmd \<in> set (fst (start fp w a))"
    and "spawn_result w = Inr p" and "record_ok (launched_record w (fp (start_command a)) p)"
    and "found w' = file_after (found w) (fst (start fp w a))"
    and "command_1 w' = launch_line cmd" and "command_2 w' = launch_line cmd"
    and "kill_result w' = Inr ()" and "wait_stopped (wait_rounds w') (runs_after w')"
  shows "fst (stop w' (identity a)) = [Terminate_pid p (launch_line cmd), Remove_record] \<and>
    snd (stop w' (identity a)) = Inr ()"
proof -
  let ?c = "start_command a" and ?r = "launched_record w (fp (start_command a)) p"
  obtain rec where st: "fst (start fp w a) = fst (settle_record w (identity a) (fp ?c) rec) @ fst (launch w a ?c (fp ?c))"
    and ok: "snd (start fp w a) = snd (launch w a ?c (fp ?c))" and la: "Launch cmd \<in> set (fst (launch w a ?c (fp ?c)))"
    using start_launched [OF assms(2)] by blast
  have succ: "startup_wait (startup_rounds w) = Up" "list_ex (\<lambda>i. contains i (identity a)) ?c"
    using launch_success [of w a ?c "fp ?c"] ok assms(1) by auto
  have "found w' = Contents (write_record ?r)"
    unfolding assms(5) st file_after_append launch_spawned [OF assms(3) la] using succ by simp
  then have rd: "read_record (found w') = Inr (Some ?r)" using read_written [OF assms(4)] by simp
  have "cmd = ?c @ [''--owner-token'', new_token w]" using launch_launches(1) [OF la] by simp
  then have own: "owned ?r (identity a) (launch_line cmd)"
    using launched_owned [OF succ(2), of ?r "new_token w"] by (simp add: launched_record_def)
  have "found w' \<noteq> No_file" using rd by (auto simp: read_record_def)
  with rd own assms(6-9) show ?thesis
    by (simp add: stop_def stop_owned_def fst_io_bind snd_io_bind launched_record_def)
qed

definition sample_args :: start_args where
  "sample_args = \<lparr>identity = ''srv'', command = [''srv'']\<rparr>"

definition sample_token :: pystr where
  "sample_token = replicate 64 (CHR ''a'')"

definition sample_world :: surroundings where
  "sample_world = \<lparr>found = No_file, command_1 = [], command_2 = [], kill_result = Inr (),
     wait_rounds = [], runs_after = False, ready_now = True, running_now = False, port_taken_1 = False,
     port_taken_2 = False, missing_path = None, new_token = sample_token, spawn_result = Inr 7,
     startup_rounds = [(True, False)], exited_late = False, stops_in_time = True\<rparr>"

definition sample_line :: "pystr list" where
  "sample_line = [''srv'', ''--owner-token'', sample_token]"

lemma sample_start:
  "start (\<lambda>_. ''id'') sample_world sample_args = ([Launch sample_line,
     Save_record (write_record (launched_record sample_world ''id'' 7))], Inr ())"
  by (simp add: start_def start_command_def sample_args_def settle_record_def sample_world_def read_record_def
      launch_def await_startup_def sample_line_def launched_record_def io_bind_def io_lift_def io_emit_def io_ret_def)

lemma sample_record_ok: "record_ok (launched_record sample_world ''id'' 7)"
  by code_simp

definition later_world :: surroundings where
  "later_world = sample_world\<lparr>found := Contents (write_record (launched_record sample_world ''id'' 7)),
     command_1 := launch_line sample_line, command_2 := launch_line sample_line\<rparr>"

lemma started_service_is_stopped_witness:
  "fst (stop later_world ''srv'') = [Terminate_pid 7 (launch_line sample_line), Remove_record]"
proof -
  have "start_command sample_args = [''srv'']" by (simp add: start_command_def sample_args_def)
  then show ?thesis
    using started_service_is_stopped [of "\<lambda>_. ''id''" sample_world sample_args sample_line 7 later_world]
      sample_record_ok
    by (simp add: sample_start) (simp add: later_world_def sample_world_def sample_args_def)
qed

text \<open>
  A start launches at most one process, only when the port is free and only when
  no earlier instance is left: either nothing was recorded, or the recorded process was
  recognised and has stopped, or it is not ours and not running. If the process was spawned, its
  record stays on disk unless the process is known to be gone.
\<close>

theorem start_single_instance:
  assumes "Launch cmd \<in> set (fst (start fp w a))"
  shows "length (filter (\<lambda>e. \<exists>c. e = Launch c) (fst (start fp w a))) = 1 \<and> \<not> port_taken_2 w \<and>
    (found w = No_file \<or> (\<exists>r. read_record (found w) = Inr (Some r) \<and>
       (if owned r (identity a) (command_1 w)
        then owned r (identity a) (command_2 w) \<and> wait_stopped (wait_rounds w) (runs_after w)
        else \<not> running_now w \<and> \<not> port_taken_1 w))) \<and>
    (\<forall>p. spawn_result w = Inr p \<longrightarrow>
      file_after (found w) (fst (start fp w a)) = Contents (write_record (launched_record w (fp (start_command a)) p)) \<or>
      startup_wait (startup_rounds w) = Died \<or> exited_late w \<or> stops_in_time w)"
proof -
  let ?c = "start_command a"
  obtain rec where rd: "read_record (found w) = Inr rec" "found w = No_file \<or> rec \<noteq> None"
    and go: "snd (settle_record w (identity a) (fp ?c) rec) = Inr Go_on"
    and st: "fst (start fp w a) = fst (settle_record w (identity a) (fp ?c) rec) @ fst (launch w a ?c (fp ?c))"
    and la: "Launch cmd \<in> set (fst (launch w a ?c (fp ?c)))"
    using start_launched [OF assms] by blast
  have "filter (\<lambda>e. \<exists>c. e = Launch c) (fst (settle_record w (identity a) (fp ?c) rec)) = []"
    using settle_no_launch by (auto simp: filter_empty_conv)
  moreover have "length (filter (\<lambda>e. \<exists>c. e = Launch c) (fst (launch w a ?c (fp ?c)))) = 1"
    using launch_launches(2) [of w a ?c "fp ?c"] la
    by (metis (mono_tags, lifting) One_nat_def filter_empty_conv le_Suc_eq le_zero_eq length_0_conv)
  ultimately have one: "length (filter (\<lambda>e. \<exists>c. e = Launch c) (fst (start fp w a))) = 1"
    unfolding st by simp
  have "length (filter (\<lambda>e. \<exists>c. e = Launch c) (fst (start fp w a))) = 1 \<and> \<not> port_taken_2 w \<and>
    (found w = No_file \<or> (\<exists>r. read_record (found w) = Inr (Some r) \<and>
       (if owned r (identity a) (command_1 w)
        then owned r (identity a) (command_2 w) \<and> wait_stopped (wait_rounds w) (runs_after w)
        else \<not> running_now w \<and> \<not> port_taken_1 w)))"
    using one launch_launches(1) [OF la] rd settle_go_on(2,3) [OF go] by (cases rec) auto
  moreover have "file_after (found w) (fst (start fp w a)) = Contents (write_record (launched_record w (fp ?c) p)) \<or>
      startup_wait (startup_rounds w) = Died \<or> exited_late w \<or> stops_in_time w"
    if "spawn_result w = Inr p" for p
    unfolding st file_after_append launch_spawned [OF that la]
    by (cases "startup_wait (startup_rounds w)") auto
  ultimately show ?thesis by blast
qed

lemma start_single_instance_witness:
  "length (filter (\<lambda>e. \<exists>c. e = Launch c) (fst (start (\<lambda>_. ''id'') sample_world sample_args))) = 1"
  using start_single_instance [of sample_line "\<lambda>_. ''id''" sample_world sample_args]
  by (simp add: sample_start)

lemma only_owned_terminated_witness:
  "\<exists>r. read_record (found later_world) = Inr (Some r) \<and> rec_pid r = 7 \<and>
     contains (launch_line sample_line) ''srv''"
proof -
  have rd: "read_record (found later_world) = Inr (Some (launched_record sample_world ''id'' 7))"
    using read_written [OF sample_record_ok] by (simp add: later_world_def)
  have own: "owned (launched_record sample_world ''id'' 7) ''srv'' (launch_line sample_line)"
    using launched_owned [of "''srv''" "[''srv'']" "launched_record sample_world ''id'' 7" sample_token]
    by (simp add: sample_line_def launched_record_def sample_world_def)
  have "Terminate_pid 7 (launch_line sample_line) \<in> set (fst (stop later_world ''srv''))"
    using rd own
    by (simp add: stop_def stop_owned_def fst_io_bind snd_io_bind later_world_def sample_world_def launched_record_def)
  then have "Terminate_pid 7 (launch_line sample_line) \<in> set (fst (start (\<lambda>_. ''id'') later_world sample_args)) \<and>
      identity sample_args = ''srv'' \<or>
      Terminate_pid 7 (launch_line sample_line) \<in> set (fst (stop later_world ''srv''))" by blast
  from only_owned_terminated [OF this] show ?thesis by blast
qed

end
