(* ===== verification/Shared_Engine.thy ===== *)
theory Shared_Engine
  imports PyLines PyUrl
begin

text \<open>
  The ownership marker of the databases shared by the container engines:
  \<open>src/podman/shared_data_engine.py\<close>. The answers of the engines' command-line tools are
  arguments; the texts of the errors are left out, their kinds are kept.
\<close>

section \<open>Engines and the marker\<close>

text \<open>\<open>Undecodable\<close> (a marker that is not ASCII) and \<open>Bad_endpoint\<close> (a Docker endpoint that
  \<open>urlsplit\<close> rejects) are not \<open>GuardError\<close>s.\<close>

datatype guard_exn =
    Unsupported_engine
  | Invalid_marker
  | Cannot_inspect
  | Foreign_writers "pystr list"
  | Claimed_by "pystr option"
  | Former_unverified
  | Former_active
  | Not_released
  | Undecodable
  | Bad_endpoint

definition is_guard_error :: "guard_exn \<Rightarrow> bool" where
  "is_guard_error e \<longleftrightarrow> e \<noteq> Undecodable \<and> e \<noteq> Bad_endpoint"

definition valid_engines :: "pystr list" where
  "valid_engines = [''docker'', ''docker-rootful'', ''docker-rootless'', ''podman'']"

definition shared_writer_services :: "pystr list" where
  "shared_writer_services = [''relational_db'', ''opensearch'']"

definition myst_container_name :: pystr where
  "myst_container_name = ''myst-client-vpn''"

definition validate_engine :: "pystr \<Rightarrow> guard_exn + pystr" where
  "validate_engine engine =
     (let normalized = py_lower (py_strip engine)
      in if normalized \<notin> set valid_engines then Inl Unsupported_engine else Inr normalized)"

text \<open>The content of the marker, \<open>None\<close> when there is no such file.\<close>

type_synonym marker = "bytes option"

definition read_owner :: "marker \<Rightarrow> guard_exn + pystr option" where
  "read_owner m = (case m of
     None \<Rightarrow> Inr None
   | Some b \<Rightarrow>
       (if \<not> is_ascii b then Inl Undecodable
        else if py_strip b \<notin> set valid_engines then Inl Invalid_marker
        else Inr (Some (py_strip b))))"

definition path_name :: "pystr \<Rightarrow> pystr" where
  "path_name p = (case filter (\<lambda>w. w \<noteq> [] \<and> w \<noteq> ''.'') (split_on (CHR ''/'') p) of
     [] \<Rightarrow> [] | ws \<Rightarrow> last ws)"

definition engine_for_command :: "pystr \<Rightarrow> pystr" where
  "engine_for_command c = (if contains (py_lower (path_name c)) ''podman'' then ''podman'' else ''docker'')"

definition engine_family :: "pystr \<Rightarrow> pystr" where
  "engine_family e = (if starts_with e ''docker-'' then ''docker'' else e)"

definition legacy_owner_matches :: "pystr \<Rightarrow> pystr \<Rightarrow> bool" where
  "legacy_owner_matches owner engine \<longleftrightarrow> owner = ''docker'' \<and> engine_family engine = ''docker''"

section \<open>What the tools answer\<close>

text \<open>An exit status and the standard output.\<close>

record tool_reply =
  code :: int
  out :: pystr

record tools =
  which :: "pystr \<Rightarrow> bool"
  realpath :: "pystr \<Rightarrow> pystr"
  ps_services :: "pystr \<Rightarrow> tool_reply"
  ps_myst :: "pystr \<Rightarrow> tool_reply"
  ps_ids :: "pystr \<Rightarrow> tool_reply"
  machine :: "pystr \<Rightarrow> tool_reply"
  endpoint :: "pystr \<Rightarrow> tool_reply"
  path_exists :: "pystr \<Rightarrow> bool"
  codecs :: codec

definition running_shared_writers :: "tools \<Rightarrow> pystr \<Rightarrow> guard_exn + pystr list" where
  "running_shared_writers w c =
     (if code (ps_services w c) \<noteq> 0 then Inl Cannot_inspect
      else if code (ps_myst w c) \<noteq> 0 then Inl Cannot_inspect
      else Inr (filter (\<lambda>s. s \<in> set (splitlines (out (ps_services w c)))) shared_writer_services
                @ (if myst_container_name \<in> set (splitlines (out (ps_myst w c))) then [''myst-client''] else [])))"

definition machine_states :: "tool_reply \<Rightarrow> pystr list" where
  "machine_states r = map (\<lambda>l. py_lower (py_strip l)) (filter (\<lambda>l. py_strip l \<noteq> []) (splitlines (out r)))"

definition machine_is :: "pystr \<Rightarrow> tools \<Rightarrow> pystr \<Rightarrow> bool" where
  "machine_is state w c \<longleftrightarrow> code (machine w c) = 0 \<and> set (machine_states (machine w c)) = {state}"

definition podman_machine_is_stopped :: "tools \<Rightarrow> pystr \<Rightarrow> bool" where
  "podman_machine_is_stopped = machine_is ''stopped''"

definition podman_machine_is_running :: "tools \<Rightarrow> pystr \<Rightarrow> bool" where
  "podman_machine_is_running = machine_is ''running''"

definition has_running_containers :: "tools \<Rightarrow> pystr \<Rightarrow> guard_exn + bool" where
  "has_running_containers w c =
     (if code (ps_ids w c) \<noteq> 0 then Inl Cannot_inspect
      else Inr (list_ex (\<lambda>l. py_strip l \<noteq> []) (splitlines (out (ps_ids w c)))))"

definition docker_local_endpoint_is_absent :: "tools \<Rightarrow> pystr \<Rightarrow> guard_exn + bool" where
  "docker_local_endpoint_is_absent w c =
     (let eps = filter (\<lambda>l. l \<noteq> []) (map py_strip (splitlines (out (endpoint w c))))
      in if code (endpoint w c) \<noteq> 0 \<or> length eps \<noteq> 1 then Inr False
         else (case urlsplit (hd eps) of
           Inl _ \<Rightarrow> Inl Bad_endpoint
         | Inr u \<Rightarrow>
             (if u_scheme u \<noteq> ''unix'' \<or> u_netloc u \<noteq> [] \<or> u_path u = [] then Inr False
              else (let p = unquote (codecs w) (u_path u)
                    in Inr (starts_with p ''/'' \<and> \<not> path_exists w p)))))"

text \<open>The identity under which a command counts as checked; a command is looked at once and only
  if it is available.\<close>

definition identity_of :: "tools \<Rightarrow> pystr \<Rightarrow> pystr \<times> pystr" where
  "identity_of w c = (engine_for_command c, if CHR ''/'' \<in> set c then realpath w c else c)"

section \<open>The inspections\<close>

text \<open>The body of the loop of \<open>inspect_first_claim\<close> for a command that is looked at.\<close>

definition inspect_command :: "tools \<Rightarrow> pystr \<Rightarrow> pystr \<Rightarrow> guard_exn + unit" where
  "inspect_command w family c =
     (case running_shared_writers w c of
        Inl e \<Rightarrow>
          (if engine_for_command c \<noteq> family \<and> engine_for_command c = ''podman'' \<and> podman_machine_is_stopped w c
           then Inr ()
           else if engine_for_command c \<noteq> family \<and> engine_for_command c = ''docker''
           then rbind (docker_local_endpoint_is_absent w c) (\<lambda>absent. if absent then Inr () else Inl e)
           else Inl e)
      | Inr writers \<Rightarrow> raise_if (writers \<noteq> [] \<and> engine_for_command c \<noteq> family) (Foreign_writers writers))"

fun inspect_from :: "tools \<Rightarrow> pystr \<Rightarrow> (pystr \<times> pystr) list \<Rightarrow> pystr list \<Rightarrow> guard_exn + unit" where
  "inspect_from w family checked [] = Inr ()"
| "inspect_from w family checked (c # cs) =
     (if identity_of w c \<in> set checked \<or> \<not> which w c then inspect_from w family checked cs
      else rbind (inspect_command w family c) (\<lambda>_. inspect_from w family (identity_of w c # checked) cs))"

definition inspect_first_claim :: "tools \<Rightarrow> pystr list \<Rightarrow> pystr \<Rightarrow> guard_exn + unit" where
  "inspect_first_claim w commands engine = inspect_from w (engine_family engine) [] commands"

definition verify_command :: "tools \<Rightarrow> pystr \<Rightarrow> pystr \<Rightarrow> guard_exn + unit" where
  "verify_command w family c =
     (case running_shared_writers w c of
        Inl e \<Rightarrow>
          (if family = ''podman'' \<and> podman_machine_is_stopped w c then Inr ()
           else if family = ''docker''
           then rbind (docker_local_endpoint_is_absent w c) (\<lambda>absent. raise_if (\<not> absent) Former_unverified)
           else Inl Former_unverified)
      | Inr writers \<Rightarrow>
          (if writers \<noteq> [] then Inl (Foreign_writers writers)
           else if family = ''docker'' then Inl Former_active
           else if podman_machine_is_running w c then Inl Former_active
           else rbind (has_running_containers w c) (\<lambda>b. raise_if b Former_active)))"

fun verify_from :: "tools \<Rightarrow> pystr \<Rightarrow> (pystr \<times> pystr) list \<Rightarrow> pystr list \<Rightarrow> guard_exn + unit" where
  "verify_from w family checked [] = Inr ()"
| "verify_from w family checked (c # cs) =
     (if engine_for_command c \<noteq> family then verify_from w family checked cs
      else if identity_of w c \<in> set checked \<or> \<not> which w c then verify_from w family checked cs
      else rbind (verify_command w family c) (\<lambda>_. verify_from w family (identity_of w c # checked) cs))"

definition verify_stale_owner_is_down :: "tools \<Rightarrow> pystr list \<Rightarrow> pystr \<Rightarrow> pystr \<Rightarrow> guard_exn + unit" where
  "verify_stale_owner_is_down w commands owner engine =
     (if engine_family owner = engine_family engine then Inr ()
      else verify_from w (engine_family owner) [] commands)"

section \<open>Claiming and releasing\<close>

text \<open>
  A claim reads the marker, inspects the engines, and then acts on the marker: it keeps it,
  replaces it (\<open>os.replace\<close> of a complete file), or creates it with \<open>O_EXCL\<close> and writes it.
\<close>

datatype plan = Keep | Replace | Create

definition claim_plan :: "tools \<Rightarrow> pystr list \<Rightarrow> bool \<Rightarrow> pystr \<Rightarrow> marker \<Rightarrow> guard_exn + plan" where
  "claim_plan w commands adopt engine m =
     rbind (read_owner m) (\<lambda>owner. case owner of
       Some own \<Rightarrow>
         (if own \<noteq> engine \<and> \<not> legacy_owner_matches own engine
          then (if \<not> adopt then Inl (Claimed_by (Some own))
                else rbind (verify_stale_owner_is_down w commands own engine) (\<lambda>_. Inr Replace))
          else rbind (if adopt then Inr () else inspect_first_claim w commands engine) (\<lambda>_.
               Inr (if own \<noteq> engine then Replace else Keep)))
     | None \<Rightarrow> rbind (if adopt then Inr () else inspect_first_claim w commands engine) (\<lambda>_. Inr Create))"

definition marker_text :: "pystr \<Rightarrow> bytes" where
  "marker_text engine = engine @ [CHR 0x0A]"

text \<open>What a second claimant finds when the marker exists already.\<close>

definition lost_race :: "pystr \<Rightarrow> marker \<Rightarrow> guard_exn + pystr" where
  "lost_race engine m =
     rbind (read_owner m) (\<lambda>owner. if owner \<noteq> Some engine then Inl (Claimed_by owner) else Inr engine)"

definition commit_plan :: "plan \<Rightarrow> pystr \<Rightarrow> marker \<Rightarrow> (guard_exn + pystr) \<times> marker" where
  "commit_plan p engine m = (case p of
     Keep \<Rightarrow> (Inr engine, m)
   | Replace \<Rightarrow> (Inr engine, Some (marker_text engine))
   | Create \<Rightarrow> (case m of
       None \<Rightarrow> (Inr engine, Some (marker_text engine))
     | Some _ \<Rightarrow> (lost_race engine m, m)))"

definition claim :: "tools \<Rightarrow> pystr list \<Rightarrow> bool \<Rightarrow> pystr \<Rightarrow> marker \<Rightarrow> (guard_exn + pystr) \<times> marker" where
  "claim w commands adopt raw_engine m =
     (case rbind (validate_engine raw_engine) (\<lambda>engine.
             rbind (claim_plan w commands adopt engine m) (\<lambda>p. Inr (engine, p))) of
        Inl e \<Rightarrow> (Inl e, m)
      | Inr (engine, p) \<Rightarrow> commit_plan p engine m)"

definition release_marker :: "pystr \<Rightarrow> marker \<Rightarrow> (guard_exn + unit) \<times> marker" where
  "release_marker raw_engine m =
     (case rbind (validate_engine raw_engine) (\<lambda>engine.
             rbind (read_owner m) (\<lambda>owner. Inr (engine, owner))) of
        Inl e \<Rightarrow> (Inl e, m)
      | Inr (engine, None) \<Rightarrow> (Inr (), m)
      | Inr (engine, Some own) \<Rightarrow>
          (if own \<noteq> engine \<and> \<not> legacy_owner_matches own engine then (Inl Not_released, m)
           else (Inr (), None)))"

text \<open>The command line.\<close>

datatype guard_action = Claim | Release | Status

definition main :: "tools \<Rightarrow> guard_action \<Rightarrow> pystr \<Rightarrow> pystr option \<Rightarrow> bool \<Rightarrow> marker
    \<Rightarrow> (guard_exn + pystr) \<times> marker" where
  "main w act engine bin adopt m = (case act of
     Claim \<Rightarrow>
       (case claim w ((case bin of None \<Rightarrow> [] | Some c \<Rightarrow> (if c = [] then [] else [c])) @ [''docker'', ''podman''])
               adopt engine m of
          (Inl e, m') \<Rightarrow> (Inl e, m')
        | (Inr own, m') \<Rightarrow> (Inr (''Shared persistent data claimed by '' @ own @ ''.''), m'))
   | Release \<Rightarrow>
       (case release_marker engine m of
          (Inl e, m') \<Rightarrow> (Inl e, m')
        | (Inr _, m') \<Rightarrow> (Inr (''Shared persistent data released for '' @ engine @ ''.''), m'))
   | Status \<Rightarrow>
       (rbind (read_owner m) (\<lambda>owner. Inr (case owner of None \<Rightarrow> ''unclaimed'' | Some own \<Rightarrow> own)), m))"

section \<open>Facts\<close>

lemma valid_marker [simp]:
  assumes "e \<in> set valid_engines"
  shows "read_owner (Some (marker_text e)) = Inr (Some e)"
proof -
  have "list_all (\<lambda>e. read_owner (Some (marker_text e)) = Inr (Some e)) valid_engines" by code_simp
  with assms show ?thesis by (simp add: list_all_iff)
qed

lemma validate_engine_valid: "validate_engine raw = Inr e \<Longrightarrow> e \<in> set valid_engines"
  by (auto simp: validate_engine_def Let_def split: if_splits)

lemma read_owner_valid: "read_owner m = Inr (Some e) \<Longrightarrow> e \<in> set valid_engines"
  by (auto simp: read_owner_def split: option.splits if_splits)

lemma read_owner_None: "read_owner m = Inr None \<longleftrightarrow> m = None"
  by (auto simp: read_owner_def split: option.splits)

lemma read_owner_absent [simp]: "read_owner None = Inr None"
  by (simp add: read_owner_def)

lemma read_owner_empty [simp]: "read_owner (Some []) = Inl Invalid_marker"
  by code_simp

text \<open>What it means that no writer of another engine was seen through a command.\<close>

definition no_foreign_writer :: "tools \<Rightarrow> pystr \<Rightarrow> bool" where
  "no_foreign_writer w c \<longleftrightarrow> running_shared_writers w c = Inr [] \<or>
     (\<exists>e. running_shared_writers w c = Inl e \<and>
        (if engine_for_command c = ''podman'' then podman_machine_is_stopped w c
         else docker_local_endpoint_is_absent w c = Inr True))"

lemma engine_for_command_cases: "engine_for_command c = ''podman'' \<or> engine_for_command c = ''docker''"
  by (simp add: engine_for_command_def)

lemma inspect_command_ok:
  "inspect_command w family c = Inr () \<Longrightarrow> engine_for_command c \<noteq> family \<Longrightarrow> no_foreign_writer w c"
  using engine_for_command_cases [of c]
  by (auto simp: inspect_command_def no_foreign_writer_def rbind_Inr_iff split: sum.splits if_splits)

lemma inspect_from_ok:
  assumes "inspect_from w family checked cs = Inr ()" "c \<in> set cs" "which w c" "identity_of w c \<notin> set checked"
  shows "\<exists>c' \<in> set cs. identity_of w c' = identity_of w c \<and> which w c' \<and> inspect_command w family c' = Inr ()"
  using assms
proof (induction cs arbitrary: checked)
  case (Cons d cs)
  show ?case
  proof (cases "identity_of w d \<in> set checked \<or> \<not> which w d")
    case True
    with Cons.prems have "inspect_from w family checked cs = Inr ()" "c \<in> set cs" by auto
    from Cons.IH [OF this Cons.prems(3,4)] show ?thesis by auto
  next
    case False
    with Cons.prems(1) have d: "inspect_command w family d = Inr ()"
      "inspect_from w family (identity_of w d # checked) cs = Inr ()"
      by (auto simp: rbind_Inr_iff)
    show ?thesis
    proof (cases "identity_of w d = identity_of w c")
      case True
      with d False show ?thesis by auto
    next
      case other: False
      with Cons.prems have "c \<in> set cs" "identity_of w c \<notin> set (identity_of w d # checked)" by auto
      from Cons.IH [OF d(2) this(1) Cons.prems(3) this(2)] show ?thesis by auto
    qed
  qed
qed simp

definition former_down :: "tools \<Rightarrow> pystr \<Rightarrow> bool" where
  "former_down w c \<longleftrightarrow>
     (if engine_for_command c = ''podman''
      then running_shared_writers w c = Inr [] \<and> \<not> podman_machine_is_running w c \<and> has_running_containers w c = Inr False \<or>
           podman_machine_is_stopped w c
      else docker_local_endpoint_is_absent w c = Inr True)"

lemma verify_command_ok:
  "verify_command w (engine_for_command c) c = Inr () \<Longrightarrow> former_down w c"
  using engine_for_command_cases [of c]
  by (auto simp: verify_command_def former_down_def rbind_Inr_iff split: sum.splits if_splits)

lemma verify_from_ok:
  assumes "verify_from w family checked cs = Inr ()" "c \<in> set cs" "which w c" "identity_of w c \<notin> set checked"
    and "engine_for_command c = family"
  shows "\<exists>c' \<in> set cs. identity_of w c' = identity_of w c \<and> which w c' \<and> verify_command w family c' = Inr ()"
  using assms
proof (induction cs arbitrary: checked)
  case (Cons d cs)
  show ?case
  proof (cases "engine_for_command d \<noteq> family \<or> identity_of w d \<in> set checked \<or> \<not> which w d")
    case True
    with Cons.prems have "verify_from w family checked cs = Inr ()" "c \<in> set cs"
      by (auto split: if_splits)
    from Cons.IH [OF this Cons.prems(3,4,5)] show ?thesis by auto
  next
    case False
    with Cons.prems(1) have d: "verify_command w family d = Inr ()"
      "verify_from w family (identity_of w d # checked) cs = Inr ()"
      by (auto simp: rbind_Inr_iff)
    show ?thesis
    proof (cases "identity_of w d = identity_of w c")
      case True
      with d False show ?thesis by auto
    next
      case other: False
      with Cons.prems have "c \<in> set cs" "identity_of w c \<notin> set (identity_of w d # checked)" by auto
      from Cons.IH [OF d(2) this(1) Cons.prems(3) this(2) Cons.prems(5)] show ?thesis by auto
    qed
  qed
qed simp

text \<open>What a plan tells about the marker it was made from.\<close>

lemma claim_plan_owner:
  assumes "claim_plan w commands adopt e m = Inr p"
  shows "(p = Keep \<and> read_owner m = Inr (Some e)) \<or>
    (p = Replace \<and> (\<exists>own. read_owner m = Inr (Some own) \<and> own \<noteq> e \<and>
       (legacy_owner_matches own e \<or> adopt \<and> verify_stale_owner_is_down w commands own e = Inr ()))) \<or>
    (p = Create \<and> m = None)"
proof (cases "read_owner m")
  case (Inl x)
  with assms show ?thesis by (simp add: claim_plan_def)
next
  case (Inr owner)
  show ?thesis
  proof (cases owner)
    case None
    with Inr have "m = None" by (simp add: read_owner_None)
    then show ?thesis using assms Inr None by (auto simp: claim_plan_def rbind_Inr_iff)
  next
    case (Some own)
    show ?thesis
    proof (cases "own \<noteq> e \<and> \<not> legacy_owner_matches own e")
      case True
      with assms Inr Some show ?thesis by (auto simp: claim_plan_def rbind_Inr_iff split: if_splits)
    next
      case False
      then have "p = (if own \<noteq> e then Replace else Keep)"
        using assms Inr Some by (auto simp: claim_plan_def rbind_Inr_iff)
      with False Inr Some show ?thesis by auto
    qed
  qed
qed

lemma claim_plan_inspected:
  assumes "claim_plan w commands False e m = Inr p"
  shows "inspect_first_claim w commands e = Inr ()"
  using assms by (auto simp: claim_plan_def rbind_Inr_iff split: option.splits if_splits)

lemma claim_success:
  assumes "claim w commands adopt raw m = (Inr own, m')"
  shows "\<exists>p. validate_engine raw = Inr own \<and> claim_plan w commands adopt own m = Inr p \<and>
    m' = (if p = Keep then m else Some (marker_text own))"
proof -
  obtain e p where v: "validate_engine raw = Inr e" and p: "claim_plan w commands adopt e m = Inr p"
    and c: "commit_plan p e m = (Inr own, m')"
    using assms by (auto simp: claim_def rbind_Inr_iff rbind_def split: sum.splits prod.splits)
  from claim_plan_owner [OF p] c have "own = e \<and> m' = (if p = Keep then m else Some (marker_text e))"
    by (auto simp: commit_plan_def)
  with v p show ?thesis by auto
qed

lemma claim_failure: "claim w commands adopt raw m = (Inl e, m') \<Longrightarrow> m' = m"
  by (auto simp: claim_def commit_plan_def split: sum.splits plan.splits option.splits prod.splits)

section \<open>Claims that run at the same time\<close>

datatype claimant = Idle | Planned plan pystr | Writing pystr | Holds pystr | Failed

record guarded =
  mark :: marker
  who :: "nat \<Rightarrow> claimant"

text \<open>
  The steps of the claimants. A marker that is there is replaced in one step by a complete file: two upgrades that write
  the shared \<open>.upgrade\<close> file at the same time are taken to do so one after the other.
\<close>

inductive guard_step :: "tools \<Rightarrow> pystr list \<Rightarrow> guarded \<Rightarrow> guarded \<Rightarrow> bool" for w commands where
  decide: "who s i = Idle \<Longrightarrow> e \<in> set valid_engines \<Longrightarrow> claim_plan w commands False e (mark s) = Inr p \<Longrightarrow>
    guard_step w commands s (s\<lparr>who := (who s)(i := Planned p e)\<rparr>)"
| keep: "who s i = Planned Keep e \<Longrightarrow> guard_step w commands s (s\<lparr>who := (who s)(i := Holds e)\<rparr>)"
| replace: "who s i = Planned Replace e \<Longrightarrow>
    guard_step w commands s (s\<lparr>mark := Some (marker_text e), who := (who s)(i := Holds e)\<rparr>)"
| create: "who s i = Planned Create e \<Longrightarrow> mark s = None \<Longrightarrow>
    guard_step w commands s (s\<lparr>mark := Some [], who := (who s)(i := Writing e)\<rparr>)"
| beaten: "who s i = Planned Create e \<Longrightarrow> mark s = Some b \<Longrightarrow>
    guard_step w commands s (s\<lparr>who := (who s)(i := (case lost_race e (mark s) of Inl _ \<Rightarrow> Failed | Inr own \<Rightarrow> Holds own))\<rparr>)"
| fill: "who s i = Writing e \<Longrightarrow>
    guard_step w commands s (s\<lparr>mark := Some (marker_text e), who := (who s)(i := Holds e)\<rparr>)"

inductive guard_reach :: "tools \<Rightarrow> pystr list \<Rightarrow> guarded \<Rightarrow> bool" for w commands where
  initial: "guard_reach w commands \<lparr>mark = m, who = (\<lambda>_. Idle)\<rparr>"
| step: "guard_reach w commands s \<Longrightarrow> guard_step w commands s s' \<Longrightarrow> guard_reach w commands s'"

definition owned_by_family :: "marker \<Rightarrow> pystr \<Rightarrow> bool" where
  "owned_by_family m e \<longleftrightarrow> (\<exists>own. read_owner m = Inr (Some own) \<and> engine_family own = engine_family e)"

definition claimant_ok :: "marker \<Rightarrow> claimant \<Rightarrow> bool" where
  "claimant_ok m c = (case c of
     Holds e \<Rightarrow> owned_by_family m e
   | Planned p e \<Rightarrow> e \<in> set valid_engines \<and> (p = Create \<or> owned_by_family m e)
   | Writing e \<Rightarrow> e \<in> set valid_engines \<and> m = Some []
   | _ \<Rightarrow> True)"

definition guard_ok :: "guarded \<Rightarrow> bool" where
  "guard_ok s \<longleftrightarrow> (\<forall>i. claimant_ok (mark s) (who s i)) \<and>
     (\<forall>i j e f. who s i = Writing e \<longrightarrow> who s j = Writing f \<longrightarrow> i = j)"

lemma legacy_family: "legacy_owner_matches own e \<Longrightarrow> engine_family own = engine_family e"
  by (auto simp: legacy_owner_matches_def) (simp add: engine_family_def)

lemma owned_text: "e \<in> set valid_engines \<Longrightarrow> owned_by_family (Some (marker_text e)) f \<longleftrightarrow> engine_family e = engine_family f"
  by (simp add: owned_by_family_def)

lemma owned_unowned [simp]: "\<not> owned_by_family None e" "\<not> owned_by_family (Some []) e"
  by (simp_all add: owned_by_family_def read_owner_def [of None])

lemma owned_trans: "owned_by_family m e \<Longrightarrow> owned_by_family m f \<Longrightarrow> engine_family e = engine_family f"
  by (auto simp: owned_by_family_def)

lemma plan_claimant:
  assumes "claim_plan w commands False e m = Inr p" "e \<in> set valid_engines"
  shows "claimant_ok m (Planned p e)"
  using claim_plan_owner [OF assms(1)] assms(2) legacy_family
  by (auto simp: claimant_ok_def owned_by_family_def)

lemma claimant_replace:
  assumes c: "claimant_ok m c" and own: "owned_by_family m e" and e: "e \<in> set valid_engines"
  shows "claimant_ok (Some (marker_text e)) c"
proof (cases c)
  case (Planned p f)
  then have "f \<in> set valid_engines" "p = Create \<or> owned_by_family m f" using c by (simp_all add: claimant_ok_def)
  with own Planned owned_trans [OF own, of f] show ?thesis by (auto simp: claimant_ok_def owned_text [OF e])
next
  case (Writing f)
  then have "m = Some []" using c by (simp add: claimant_ok_def)
  with own show ?thesis by simp
next
  case (Holds f)
  then have "owned_by_family m f" using c by (simp add: claimant_ok_def)
  with Holds owned_trans [OF own, of f] show ?thesis by (simp add: claimant_ok_def owned_text [OF e])
qed (simp_all add: claimant_ok_def)

lemma guard_step_ok:
  assumes "guard_step w commands s s'" "guard_ok s"
  shows "guard_ok s'"
  using assms(1)
proof cases
  case (decide i e p)
  with plan_claimant assms(2) show ?thesis by (auto simp: guard_ok_def)
next
  case (keep i e)
  then have "claimant_ok (mark s) (Planned Keep e)" using assms(2) by (metis guard_ok_def)
  with keep assms(2) show ?thesis by (auto simp: guard_ok_def claimant_ok_def)
next
  case (replace i e)
  then have c: "claimant_ok (mark s) (Planned Replace e)" using assms(2) by (metis guard_ok_def)
  then have e: "e \<in> set valid_engines" "owned_by_family (mark s) e" by (simp_all add: claimant_ok_def)
  have "claimant_ok (Some (marker_text e)) (who s j)" for j
    using assms(2) claimant_replace [OF _ e(2,1)] by (simp add: guard_ok_def)
  moreover have "claimant_ok (Some (marker_text e)) (Holds e)"
    using e(1) by (simp add: claimant_ok_def owned_text)
  ultimately show ?thesis using replace assms(2) by (simp add: guard_ok_def)
next
  case (create i e)
  then have "claimant_ok (mark s) (Planned Create e)" using assms(2) by (metis guard_ok_def)
  then have e: "e \<in> set valid_engines" by (simp add: claimant_ok_def)
  have others: "claimant_ok (Some []) (who s j)" "\<And>f. who s j \<noteq> Writing f" for j
  proof -
    have "claimant_ok None (who s j)" using assms(2) create by (metis guard_ok_def)
    then show "claimant_ok (Some []) (who s j)" "\<And>f. who s j \<noteq> Writing f"
      by (auto simp: claimant_ok_def split: claimant.splits)
  qed
  have "claimant_ok (Some []) (Writing e)" using e by (simp add: claimant_ok_def)
  with create others show ?thesis by (simp add: guard_ok_def)
next
  case (beaten i e b)
  have "claimant_ok (mark s) (case lost_race e (mark s) of Inl _ \<Rightarrow> Failed | Inr own \<Rightarrow> Holds own)"
    by (auto simp: lost_race_def claimant_ok_def owned_by_family_def rbind_def split: sum.splits if_splits)
  with beaten assms(2) show ?thesis by (auto simp: guard_ok_def split: sum.splits)
next
  case (fill i e)
  then have c: "claimant_ok (mark s) (Writing e)" using assms(2) by (metis guard_ok_def)
  then have e: "e \<in> set valid_engines" "mark s = Some []" by (simp_all add: claimant_ok_def)
  have others: "claimant_ok (Some (marker_text e)) (who s j)" "\<And>f. who s j \<noteq> Writing f" if "j \<noteq> i" for j
  proof -
    show w: "\<And>f. who s j \<noteq> Writing f" using assms(2) fill(2) that unfolding guard_ok_def by blast
    have "claimant_ok (Some []) (who s j)" using assms(2) e(2) by (metis guard_ok_def)
    then show "claimant_ok (Some (marker_text e)) (who s j)"
      using w by (cases "who s j") (auto simp: claimant_ok_def)
  qed
  have "claimant_ok (Some (marker_text e)) (Holds e)" using e by (simp add: claimant_ok_def owned_text)
  with fill others show ?thesis by (simp add: guard_ok_def)
qed

lemma guard_fresh: "guard_ok \<lparr>mark = m, who = (\<lambda>_. Idle)\<rparr>"
  by (simp add: guard_ok_def claimant_ok_def)

lemma guard_reach_ok: "guard_reach w commands s \<Longrightarrow> guard_ok s"
  by (induction rule: guard_reach.induct) (auto intro: guard_step_ok guard_fresh)

section \<open>The properties\<close>

text \<open>
  A claim that succeeds returns the requested engine and leaves a marker that
  reads as that engine; it changes the owner only of an unclaimed or legacy marker, or by an
  adoption whose former owner was verified. A claim that fails leaves the marker as it was.
\<close>

theorem claim_owner:
  assumes "claim w commands adopt raw m = (r, m')"
  shows "case r of
      Inl _ \<Rightarrow> m' = m
    | Inr own \<Rightarrow> validate_engine raw = Inr own \<and> read_owner m' = Inr (Some own) \<and>
        (m = None \<or> (\<exists>before. read_owner m = Inr (Some before) \<and>
           (before = own \<or> legacy_owner_matches before own \<or>
            adopt \<and> verify_stale_owner_is_down w commands before own = Inr ())))"
proof (cases r)
  case (Inl e)
  with assms claim_failure show ?thesis by auto
next
  case (Inr own)
  with assms have "claim w commands adopt raw m = (Inr own, m')" by simp
  from claim_success [OF this] obtain p where v: "validate_engine raw = Inr own"
    and p: "claim_plan w commands adopt own m = Inr p"
    and m': "m' = (if p = Keep then m else Some (marker_text own))" by blast
  have "own \<in> set valid_engines" using v by (rule validate_engine_valid)
  with claim_plan_owner [OF p] v m' Inr show ?thesis by auto
qed

text \<open>
  C27 (safety). A claim without adoption succeeds only if, through every available command of the
  other engine family, no container that writes the shared data was seen running: the engine
  listed none, or its tool failed while its machine is provably stopped or its local endpoint
  provably absent.
\<close>

theorem claim_sees_no_foreign_writer:
  assumes "claim w commands False raw m = (Inr own, m')" and "c \<in> set commands" and "which w c"
    and "engine_for_command c \<noteq> engine_family own"
  shows "\<exists>c' \<in> set commands. identity_of w c' = identity_of w c \<and> no_foreign_writer w c'"
proof -
  obtain p where "claim_plan w commands False own m = Inr p" using claim_success [OF assms(1)] by blast
  then have "inspect_from w (engine_family own) [] commands = Inr ()"
    using claim_plan_inspected by (simp add: inspect_first_claim_def)
  from inspect_from_ok [OF this assms(2,3)] obtain c' where c': "c' \<in> set commands"
    "identity_of w c' = identity_of w c" "inspect_command w (engine_family own) c' = Inr ()" by auto
  then have "engine_for_command c' = engine_for_command c" by (simp add: identity_of_def)
  with c' assms(4) inspect_command_ok show ?thesis by metis
qed

text \<open>
  A claim is adopted from an engine of the other family only if every available
  command of the former family shows it down: no writer, no running machine and no running
  container for Podman, an absent endpoint for Docker.
\<close>

theorem adoption_needs_former_down:
  assumes "claim w commands True raw m = (Inr own, m')" and "read_owner m = Inr (Some before)"
    and "engine_family before \<noteq> engine_family own" and "c \<in> set commands" and "which w c"
    and "engine_for_command c = engine_family before"
  shows "\<exists>c' \<in> set commands. identity_of w c' = identity_of w c \<and> former_down w c'"
proof -
  obtain p where p: "claim_plan w commands True own m = Inr p" using claim_success [OF assms(1)] by blast
  have "before \<noteq> own" "\<not> legacy_owner_matches before own" using assms(3) legacy_family by auto
  then have "verify_stale_owner_is_down w commands before own = Inr ()"
    using claim_plan_owner [OF p] assms(2) by auto
  then have "verify_from w (engine_family before) [] commands = Inr ()"
    using assms(3) by (simp add: verify_stale_owner_is_down_def)
  from verify_from_ok [OF this assms(4,5) _ assms(6)] obtain c' where c': "c' \<in> set commands"
    "identity_of w c' = identity_of w c" "verify_command w (engine_family before) c' = Inr ()" by auto
  then have "engine_for_command c' = engine_family before" using assms(6) by (simp add: identity_of_def)
  with c' verify_command_ok show ?thesis by metis
qed

text \<open>
  C28 (invariant). Claims without adoption may run at the same time, interleaved between the
  reading of the marker, the exclusive creation and the writing: engines of different families
  never both hold the shared data.
\<close>

theorem concurrent_claims_exclusive:
  assumes "guard_reach w commands s" and "who s i = Holds e" and "who s j = Holds f"
  shows "engine_family e = engine_family f \<and> owned_by_family (mark s) e"
proof -
  have "claimant_ok (mark s) (who s i)" "claimant_ok (mark s) (who s j)"
    using guard_reach_ok [OF assms(1)] by (auto simp: guard_ok_def)
  then have "owned_by_family (mark s) e" "owned_by_family (mark s) f"
    using assms(2,3) by (simp_all add: claimant_ok_def)
  with owned_trans show ?thesis by blast
qed

text \<open>Within the Docker family the upgrade of a legacy marker is not exclusive: two claims that
  read the marker before either replaces it both succeed.\<close>

definition quiet_tools :: tools where
  "quiet_tools = \<lparr>which = (\<lambda>_. False), realpath = (\<lambda>c. c), ps_services = (\<lambda>_. \<lparr>code = 0, out = []\<rparr>),
     ps_myst = (\<lambda>_. \<lparr>code = 0, out = []\<rparr>), ps_ids = (\<lambda>_. \<lparr>code = 0, out = []\<rparr>),
     machine = (\<lambda>_. \<lparr>code = 1, out = []\<rparr>), endpoint = (\<lambda>_. \<lparr>code = 1, out = []\<rparr>),
     path_exists = (\<lambda>_. True), codecs = \<lparr>idna_nonascii = (\<lambda>_. None), utf8_replace = (\<lambda>b. b)\<rparr>\<rparr>"

lemma upgrade_plans:
  "claim_plan quiet_tools [] False ''docker-rootful'' (Some (marker_text ''docker'')) = Inr Replace"
  "claim_plan quiet_tools [] False ''docker-rootless'' (Some (marker_text ''docker'')) = Inr Replace"
  by code_simp+

definition racing :: "marker \<Rightarrow> claimant \<Rightarrow> claimant \<Rightarrow> guarded" where
  "racing m a b = \<lparr>mark = m, who = (\<lambda>_. Idle)(0 := a, 1 := b)\<rparr>"

lemma racing_upd [simp]:
  "mark (racing m a b) = m" "who (racing m a b) 0 = a" "who (racing m a b) (Suc 0) = b"
  "(racing m a b)\<lparr>who := (who (racing m a b))(0 := x)\<rparr> = racing m x b"
  "(racing m a b)\<lparr>who := (who (racing m a b))(Suc 0 := y)\<rparr> = racing m a y"
  "(racing m a b)\<lparr>mark := n, who := (who (racing m a b))(0 := x)\<rparr> = racing n x b"
  "(racing m a b)\<lparr>mark := n, who := (who (racing m a b))(Suc 0 := y)\<rparr> = racing n a y"
  by (auto simp: racing_def fun_upd_twist)

lemma racing_fresh: "guard_reach w commands (racing m Idle Idle)"
  using guard_reach.initial [of w commands m] by (simp add: racing_def fun_upd_idem)

lemma upgrade_race:
  "guard_reach quiet_tools [] (racing (Some (marker_text ''docker-rootless'')) (Holds ''docker-rootful'') (Holds ''docker-rootless''))"
proof -
  let ?m = "Some (marker_text ''docker'')"
  have valid: "''docker-rootful'' \<in> set valid_engines" "''docker-rootless'' \<in> set valid_engines"
    by (simp_all add: valid_engines_def)
  note st = guard_reach.step
  have "guard_reach quiet_tools [] (racing ?m (Planned Replace ''docker-rootful'') Idle)"
    using st [OF racing_fresh guard_step.decide [of "racing ?m Idle Idle" 0, OF _ valid(1)]] upgrade_plans by simp
  then have "guard_reach quiet_tools [] (racing ?m (Planned Replace ''docker-rootful'') (Planned Replace ''docker-rootless''))"
    using st [OF _ guard_step.decide [of "racing ?m (Planned Replace ''docker-rootful'') Idle" 1, OF _ valid(2)]]
      upgrade_plans by simp
  from st [OF this guard_step.replace [of _ 0]]
  have "guard_reach quiet_tools [] (racing (Some (marker_text ''docker-rootful'')) (Holds ''docker-rootful'')
      (Planned Replace ''docker-rootless''))" by simp
  from st [OF this guard_step.replace [of _ 1]] show ?thesis by simp
qed

lemma concurrent_claims_exclusive_witness:
  "\<exists>s::guarded. who s 0 = Holds ''docker-rootful'' \<and> owned_by_family (mark s) ''docker-rootful''"
proof -
  let ?s = "racing (Some (marker_text ''docker-rootless'')) (Holds ''docker-rootful'') (Holds ''docker-rootless'')"
  have "who ?s 0 = Holds ''docker-rootful''" by simp
  with concurrent_claims_exclusive [OF upgrade_race this this] show ?thesis by blast
qed

definition podman_tools :: tools where
  "podman_tools = quiet_tools\<lparr>which := (\<lambda>_. True), machine := (\<lambda>_. \<lparr>code = 0, out = ''Stopped''\<rparr>)\<rparr>"

lemma claim_owner_witness:
  "\<exists>m'. claim podman_tools [''docker'', ''podman''] False ''podman'' None = (Inr ''podman'', m') \<and>
     read_owner m' = Inr (Some ''podman'')"
proof -
  have c: "claim podman_tools [''docker'', ''podman''] False ''podman'' None
      = (Inr ''podman'', Some (marker_text ''podman''))" by code_simp
  from claim_owner [OF c] c show ?thesis by simp
qed

lemma claim_sees_no_foreign_writer_witness:
  "\<exists>c'. identity_of podman_tools c' = identity_of podman_tools ''docker'' \<and> no_foreign_writer podman_tools c'"
proof -
  have c: "claim podman_tools [''docker'', ''podman''] False ''podman'' None
      = (Inr ''podman'', Some (marker_text ''podman''))" by code_simp
  have "which podman_tools ''docker''" "engine_for_command ''docker'' \<noteq> engine_family ''podman''"
    by code_simp+
  with claim_sees_no_foreign_writer [OF c, of "''docker''"] show ?thesis by auto
qed

lemma adoption_needs_former_down_witness:
  "\<exists>c'. identity_of podman_tools c' = identity_of podman_tools ''podman'' \<and> former_down podman_tools c'"
proof -
  have c: "claim podman_tools [''docker'', ''podman''] True ''docker'' (Some (marker_text ''podman''))
      = (Inr ''docker'', Some (marker_text ''docker''))" by code_simp
  have "read_owner (Some (marker_text ''podman'')) = Inr (Some ''podman'')" "which podman_tools ''podman''"
    "engine_family ''podman'' \<noteq> engine_family ''docker''" "engine_for_command ''podman'' = engine_family ''podman''"
    by code_simp+
  with adoption_needs_former_down [OF c, of "''podman''" "''podman''"] show ?thesis by auto
qed

end
