(* ===== verification/Embedding_Shim.thy ===== *)
theory Embedding_Shim
  imports Complex_Main PyUrl
begin

text \<open>
  The local embedding shim: \<open>src/onyx/local_embedding_shim.py\<close>. JSON texts are parsed by an
  argument; floating-point numbers are rational numbers, and the square root is exact, so that
  rounding is left out. The log lines are left out; the counters of \<open>ShimMetrics\<close> are kept.
\<close>

section \<open>Values and failures\<close>

text \<open>A parsed JSON value; \<open>V_float None\<close> is one of \<open>NaN\<close>, \<open>Infinity\<close> and
  \<open>-Infinity\<close>, which Python's parser accepts.\<close>

datatype jv =
    V_null
  | V_bool bool
  | V_int int
  | V_float "rat option"
  | V_str pystr
  | V_list "jv list"
  | V_obj "(pystr \<times> jv) list"

definition vget :: "(pystr \<times> jv) list \<Rightarrow> pystr \<Rightarrow> jv" where
  "vget members k = (case map_of members k of None \<Rightarrow> V_null | Some v \<Rightarrow> v)"

text \<open>What \<open>json.loads\<close> does with a text: a value, \<open>JSONDecodeError\<close>, or the plain
  \<open>ValueError\<close> it raises for an integer of more than 4300 digits.\<close>

datatype parsed = Parsed jv | Bad_json | Bad_number pystr

text \<open>
  The exceptions of the request path. \<open>Os_level\<close> stands for \<open>OSError\<close>,
  \<open>TimeoutError\<close> and \<open>HTTPException\<close>, \<open>Value_failure\<close> for a \<open>ValueError\<close> with its
  text, \<open>Internal\<close> for any other exception.
\<close>

datatype shim_exn =
    Upstream_http int
  | Upstream_response
  | Os_level
  | Value_failure pystr
  | Internal
  | Client_request int pystr

section \<open>Configuration\<close>

text \<open>\<open>parse_positive_int_env\<close>: the variable if it is set.\<close>

definition parse_positive_int_env :: "pystr \<Rightarrow> pystr option \<Rightarrow> int \<Rightarrow> int py" where
  "parse_positive_int_env name raw default_value = (case raw of
     None \<Rightarrow> Inr default_value
   | Some r \<Rightarrow>
       (if r = [] then Inr default_value
        else case py_int r of
          Inl _ \<Rightarrow> Inl (ValueError (name @ '' must be an integer''))
        | Inr v \<Rightarrow> (if v < 1 then Inl (ValueError (name @ '' must be >= 1'')) else Inr v)))"

text \<open>The fields of the connection pool; without a proxy host the pool connects directly.\<close>

record upstream_conf =
  p_scheme :: pystr
  p_host :: pystr
  p_port :: int
  p_target :: pystr
  p_absolute :: pystr
  p_proxy :: "(pystr \<times> int) option"

definition given_text :: "pystr option \<Rightarrow> bool" where
  "given_text a \<longleftrightarrow> a \<noteq> None \<and> a \<noteq> Some []"

definition check_upstream :: "url \<Rightarrow> unit py" where
  "check_upstream u =
     (if u_scheme u \<noteq> ''http'' \<and> u_scheme u \<noteq> ''https''
      then Inl (ValueError (''Unsupported ONYX_RAG_EMBEDDING_SHIM_UPSTREAM_URL scheme: '' @ u_scheme u))
      else if hostname u = []
      then Inl (ValueError ''ONYX_RAG_EMBEDDING_SHIM_UPSTREAM_URL must include a hostname'')
      else raise_if (given_text (username u) \<or> given_text (password u) \<or> u_fragment u \<noteq> [])
             (ValueError ''ONYX_RAG_EMBEDDING_SHIM_UPSTREAM_URL cannot contain credentials or a fragment''))"

text \<open>The exact internal endpoint that may be reached without the proxy. \<open>parsed.port\<close> is
  evaluated only when the tests before it hold.\<close>

definition direct_internal_teep :: "pystr \<Rightarrow> url \<Rightarrow> bool py" where
  "direct_internal_teep proxy_url u =
     (if proxy_url = [] \<and> u_scheme u = ''http'' \<and> hostname u = ''teep''
      then rbind (port u) (\<lambda>p. Inr (p = Some 8337)) else Inr False)"

definition proxy_refusal :: exn where
  "proxy_refusal = ValueError (''ONYX_RAG_EMBEDDING_SHIM_HTTP_PROXY_URL must be exactly ''
     @ ''http://onyx-host-egress-bridge:3128, except for the exact internal Teep endpoint'')"

definition check_proxy :: "url \<Rightarrow> unit py" where
  "check_proxy x =
     (if u_scheme x \<noteq> ''http'' \<or> hostname x \<noteq> ''onyx-host-egress-bridge'' then Inl proxy_refusal
      else rbind (port x) (\<lambda>p.
        raise_if (p \<noteq> Some 3128 \<or> username x \<noteq> None \<or> password x \<noteq> None \<or>
                  (u_path x \<noteq> [] \<and> u_path x \<noteq> ''/'') \<or> u_query x \<noteq> [] \<or> u_fragment x \<noteq> [])
          proxy_refusal))"

definition make_pool :: "pystr \<Rightarrow> pystr \<Rightarrow> upstream_conf py" where
  "make_pool url proxy_url =
     rbind (urlparse url) (\<lambda>u.
     rbind (check_upstream u) (\<lambda>_.
     rbind (urlparse proxy_url) (\<lambda>x.
     rbind (direct_internal_teep proxy_url u) (\<lambda>direct.
     rbind (if direct then Inr () else check_proxy x) (\<lambda>_.
     rbind (port u) (\<lambda>p.
     rbind (if direct then Inr None
            else rbind (port x) (\<lambda>q. Inr (Some (hostname x, the q)))) (\<lambda>proxy.
       let target = (if u_path u = [] then ''/'' else u_path u)
       in Inr \<lparr>p_scheme = u_scheme u, p_host = hostname u,
               p_port = (case p of None \<Rightarrow> (if u_scheme u = ''https'' then 443 else 80)
                         | Some n \<Rightarrow> if n = 0 then (if u_scheme u = ''https'' then 443 else 80) else n),
               p_target = (if u_query u = [] then target else target @ ''?'' @ u_query u),
               p_absolute = url, p_proxy = proxy\<rparr>)))))))"

section \<open>One upstream request\<close>

text \<open>Where a connection goes, and through which tunnel.\<close>

datatype connection = Direct pystr int | Via_proxy pystr int | Tunnel pystr int pystr int

definition new_connection :: "upstream_conf \<Rightarrow> connection" where
  "new_connection k = (case p_proxy k of
     None \<Rightarrow> Direct (p_host k) (p_port k)
   | Some (h, n) \<Rightarrow> (if p_scheme k = ''https'' then Tunnel h n (p_host k) (p_port k) else Via_proxy h n))"

definition request_target :: "upstream_conf \<Rightarrow> pystr" where
  "request_target k =
     (if p_proxy k = None then p_target k else if p_scheme k = ''http'' then p_absolute k else p_target k)"

text \<open>The free slots of the pool, and what happens to one request: whether a slot comes free in
  time, and the answer of the server, status and body, or a failure.\<close>

datatype upstream_event =
    Acquire
  | Post connection pystr pystr "pystr list"
  | Close_conn
  | Release

definition max_response :: nat where
  "max_response = 64 * 1024 * 1024"

definition read_answer :: "nat \<Rightarrow> (bytes \<Rightarrow> pystr option) \<Rightarrow> int \<times> bytes \<Rightarrow> shim_exn + pystr" where
  "read_answer limit decode a =
     (let raw = take (limit + 1) (snd a)
      in if 400 \<le> fst a then Inl (Upstream_http (fst a))
         else if limit < length raw then Inl Upstream_response
         else case decode raw of None \<Rightarrow> Inl Upstream_response | Some t \<Rightarrow> Inr t)"

definition pool_request ::
  "upstream_conf \<Rightarrow> nat \<Rightarrow> (bytes \<Rightarrow> pystr option) \<Rightarrow> bool \<Rightarrow> (shim_exn + int \<times> bytes) \<Rightarrow> pystr \<Rightarrow> pystr list
     \<Rightarrow> (upstream_event, shim_exn, pystr) eff" where
  "pool_request k limit decode slot_free answer model texts =
     (if \<not> slot_free then io_raise Os_level
      else ([Acquire, Post (new_connection k) (request_target k) model texts, Close_conn, Release],
            rbind answer (read_answer limit decode)))"

section \<open>Embeddings\<close>

text \<open>\<open>math.isfinite(float(value))\<close>: an integer from \<open>2 ^ 1024 - 2 ^ 970\<close> on overflows.\<close>

definition is_finite_json_number :: "jv \<Rightarrow> bool" where
  "is_finite_json_number v = (case v of
     V_int i \<Rightarrow> \<bar>i\<bar> < 2 ^ 1024 - 2 ^ 970
   | V_float (Some _) \<Rightarrow> True
   | _ \<Rightarrow> False)"

definition number_of :: "jv \<Rightarrow> rat" where
  "number_of v = (case v of V_int i \<Rightarrow> of_int i | V_float (Some q) \<Rightarrow> q | _ \<Rightarrow> 0)"

text \<open>One round of the loop over the items, with the vectors by index and their dimension.\<close>

type_synonym found_vectors = "(nat \<rightharpoonup> rat list) \<times> nat option"

definition read_item :: "nat \<Rightarrow> found_vectors \<Rightarrow> jv \<Rightarrow> shim_exn + found_vectors" where
  "read_item n s item = (case item of
     V_obj members \<Rightarrow> (case vget members ''index'' of
       V_int i \<Rightarrow>
         (if i < 0 \<or> int n \<le> i \<or> fst s (nat i) \<noteq> None then Inl Upstream_response
          else case vget members ''embedding'' of
            V_list vs \<Rightarrow>
              (if vs = [] \<or> \<not> list_all is_finite_json_number vs then Inl Upstream_response
               else case snd s of
                 None \<Rightarrow> Inr ((fst s)(nat i \<mapsto> map number_of vs), Some (length vs))
               | Some d \<Rightarrow>
                   (if length vs \<noteq> d then Inl Upstream_response
                    else Inr ((fst s)(nat i \<mapsto> map number_of vs), Some d)))
          | _ \<Rightarrow> Inl Upstream_response)
     | _ \<Rightarrow> Inl Upstream_response)
   | _ \<Rightarrow> Inl Upstream_response)"

fun read_items :: "nat \<Rightarrow> jv list \<Rightarrow> found_vectors \<Rightarrow> shim_exn + found_vectors" where
  "read_items n [] s = Inr s"
| "read_items n (item # items) s = rbind (read_item n s item) (read_items n items)"

definition vectors_of :: "nat \<Rightarrow> parsed \<Rightarrow> shim_exn + rat list list" where
  "vectors_of n p = (case p of
     Bad_json \<Rightarrow> Inl Upstream_response
   | Bad_number m \<Rightarrow> Inl (Value_failure m)
   | Parsed (V_obj members) \<Rightarrow> (case vget members ''data'' of
       V_list items \<Rightarrow>
         (if length items \<noteq> n then Inl Upstream_response
          else rbind (read_items n items (Map.empty, None)) (\<lambda>s.
                 Inr (map (\<lambda>i. the (fst s i)) [0..<n])))
     | _ \<Rightarrow> Inl Upstream_response)
   | Parsed _ \<Rightarrow> Inl Upstream_response)"

text \<open>The running scale and the sum of squares in units of the scale.\<close>

fun scaled_sum :: "rat \<times> rat \<Rightarrow> rat list \<Rightarrow> rat \<times> rat" where
  "scaled_sum s [] = s"
| "scaled_sum (scale, tot) (v # vs) =
     (let a = \<bar>v\<bar>
      in if a = 0 then scaled_sum (scale, tot) vs
         else if scale < a then scaled_sum (a, 1 + tot * (scale / a) ^ 2) vs
         else scaled_sum (scale, tot + (a / scale) ^ 2) vs)"

definition normalize_vector :: "rat list \<Rightarrow> shim_exn + real list" where
  "normalize_vector vs =
     (case scaled_sum (0, 1) vs of (scale, tot) \<Rightarrow>
        if scale = 0 then Inl Upstream_response
        else Inr (map (\<lambda>v. (of_rat v / of_rat scale) / sqrt (of_rat tot)) vs))"

definition apply_embedding_normalization :: "rat list list \<Rightarrow> jv \<Rightarrow> shim_exn + real list list" where
  "apply_embedding_normalization vectors flag = (case flag of
     V_bool b \<Rightarrow> (if b then rmapM normalize_vector vectors else Inr (map (map of_rat) vectors))
   | _ \<Rightarrow> Inl (Value_failure (''Invalid '' @ sq ''normalize_embeddings'' @ '' field; expected boolean'')))"

section \<open>Prefixes\<close>

text \<open>\<open>prefix.replace("\\n", "\n")\<close>.\<close>

fun unescape_newlines :: "pystr \<Rightarrow> pystr" where
  "unescape_newlines (c # d # s) =
     (if c = CHR 0x5C \<and> d = CHR ''n'' then CHR 0x0A # unescape_newlines s
      else c # unescape_newlines (d # s))"
| "unescape_newlines s = s"

text \<open>A value that is false in Python is no prefix; a true value that is no text has no
  \<open>replace\<close>.\<close>

definition falsy :: "jv \<Rightarrow> bool" where
  "falsy v = (case v of
     V_null \<Rightarrow> True | V_bool b \<Rightarrow> \<not> b | V_int i \<Rightarrow> i = 0 | V_float q \<Rightarrow> q = Some 0
   | V_str s \<Rightarrow> s = [] | V_list vs \<Rightarrow> vs = [] | V_obj ms \<Rightarrow> ms = [])"

definition normalize_prefix :: "jv \<Rightarrow> shim_exn + pystr" where
  "normalize_prefix v =
     (if falsy v then Inr []
      else case v of V_str s \<Rightarrow> Inr (unescape_newlines s) | _ \<Rightarrow> Inl Internal)"

definition texts_of :: "jv \<Rightarrow> pystr list option" where
  "texts_of v = (case v of
     V_list vs \<Rightarrow>
       (if list_all (\<lambda>x. case x of V_str _ \<Rightarrow> True | _ \<Rightarrow> False) vs
        then Some (map (\<lambda>x. case x of V_str s \<Rightarrow> s | _ \<Rightarrow> []) vs) else None)
   | _ \<Rightarrow> None)"

text \<open>Whether \<open>str(payload.get("text_type", "")).upper()\<close> is the given word: the text of a value
  that is no string is never one of the two words.\<close>

definition text_type_is :: "(pystr \<times> jv) list \<Rightarrow> pystr \<Rightarrow> bool" where
  "text_type_is payload w = (case vget payload ''text_type'' of V_str s \<Rightarrow> py_upper s = w | _ \<Rightarrow> False)"

record prefixes =
  query_prefix :: pystr
  passage_prefix :: pystr

definition choose_prefix :: "pystr \<Rightarrow> jv \<Rightarrow> shim_exn + pystr" where
  "choose_prefix default_prefix manual =
     rbind (normalize_prefix manual) (\<lambda>m.
     rbind (normalize_prefix (V_str default_prefix)) (\<lambda>d.
       Inr (if m \<noteq> [] then m else d)))"

definition apply_prefixes :: "prefixes \<Rightarrow> (pystr \<times> jv) list \<Rightarrow> shim_exn + pystr list" where
  "apply_prefixes c payload = (case texts_of (vget payload ''texts'') of
     None \<Rightarrow> Inl (Value_failure (''Invalid '' @ sq ''texts'' @ '' field; expected list[str]''))
   | Some texts \<Rightarrow>
       (if texts = [] \<or> list_ex (\<lambda>t. t = []) texts
        then Inl (Value_failure (''Invalid '' @ sq ''texts'' @ '' field; empty inputs are not allowed''))
        else rbind (if text_type_is payload ''QUERY''
                    then choose_prefix (query_prefix c) (vget payload ''manual_query_prefix'')
                    else if text_type_is payload ''PASSAGE''
                    then choose_prefix (passage_prefix c) (vget payload ''manual_passage_prefix'')
                    else Inr []) (\<lambda>prefix.
             Inr (map (\<lambda>t. prefix @ t) texts))))"

section \<open>Requests\<close>

record shim_config =
  default_model :: pystr
  shim_prefixes :: prefixes
  max_body :: nat
  max_answer :: nat
  upstream_pool :: upstream_conf

text \<open>\<open>str\<close> of a value that is no text, \<open>json.loads\<close>, UTF-8 decoding.\<close>

record shim_lib =
  str_of :: "jv \<Rightarrow> pystr"
  loads :: "pystr \<Rightarrow> parsed"
  utf8 :: "bytes \<Rightarrow> pystr option"

record shim_request =
  s_path :: pystr
  s_fields :: "(pystr \<times> pystr) list"
  s_stream :: istream

text \<open>What the surroundings do with one request: whether a pool slot comes free, what the upstream
  server answers, and whether writing an answer fails, first and then for the answer to that.\<close>

record shim_world =
  slot_free :: bool
  upstream_answer :: "shim_exn + int \<times> bytes"
  write_fails_1 :: bool
  write_fails_2 :: bool

datatype shim_body = Vectors "real list list" | Detail pystr | Status pystr

datatype shim_event =
    Upstream upstream_event
  | Observed bool bool nat
  | Answer int shim_body

type_synonym 'a shim = "(shim_event, shim_exn, 'a) eff"

definition send_json :: "bool \<Rightarrow> int \<Rightarrow> shim_body \<Rightarrow> unit shim" where
  "send_json fails code body = ([Answer code body], if fails then Inl Os_level else Inr ())"

definition field :: "(pystr \<times> pystr) list \<Rightarrow> pystr \<Rightarrow> pystr option" where
  "field hs name = map_of (map (\<lambda>(n, v). (py_lower n, v)) hs) (py_lower name)"

definition read_bytes :: "nat \<Rightarrow> istream \<Rightarrow> shim_exn + bytes" where
  "read_bytes n s =
     (if n \<le> length (pending s) then Inr (take n (pending s))
      else if ending s = Eof then Inr (pending s) else Inl Os_level)"

definition bad_json_body :: shim_exn where
  "bad_json_body = Client_request 400 ''Request body must be valid UTF-8 JSON''"

definition parse_body :: "shim_lib \<Rightarrow> bytes \<Rightarrow> shim_exn + (pystr \<times> jv) list" where
  "parse_body lib b = (case utf8 lib b of
     None \<Rightarrow> Inl bad_json_body
   | Some t \<Rightarrow> (case loads lib t of
       Bad_json \<Rightarrow> Inl bad_json_body
     | Bad_number m \<Rightarrow> Inl (Value_failure m)
     | Parsed (V_obj members) \<Rightarrow> Inr members
     | Parsed _ \<Rightarrow> Inl (Client_request 400 ''Request body must be a JSON object'')))"

definition read_json_body :: "shim_config \<Rightarrow> shim_lib \<Rightarrow> shim_request \<Rightarrow> shim_exn + (pystr \<times> jv) list" where
  "read_json_body c lib rq =
     (if given_text (field (s_fields rq) ''Transfer-Encoding'')
      then Inl (Client_request 400 ''Transfer-Encoding is not supported'')
      else case field (s_fields rq) ''Content-Length'' of
        None \<Rightarrow> Inl (Client_request 411 ''Content-Length is required'')
      | Some raw \<Rightarrow> (case py_int raw of
          Inl _ \<Rightarrow> Inl (Client_request 400 ''Content-Length must be an integer'')
        | Inr n \<Rightarrow>
            (if n \<le> 0 then Inl (Client_request 400 ''Request body must not be empty'')
             else if int (max_body c) < n
             then Inl (Client_request 413 ''Request body exceeds the configured size limit'')
             else rbind (read_bytes (nat n) (s_stream rq)) (\<lambda>b.
                    if int (length b) \<noteq> n
                    then Inl (Client_request 400 ''Request body ended before Content-Length'')
                    else parse_body lib b))))"

definition request_vectors :: "shim_config \<Rightarrow> shim_lib \<Rightarrow> shim_world \<Rightarrow> pystr \<Rightarrow> pystr list \<Rightarrow> rat list list shim" where
  "request_vectors c lib w model texts =
     (case pool_request (upstream_pool c) (max_answer c) (utf8 lib) (slot_free w) (upstream_answer w) model texts of
        (evs, r) \<Rightarrow> (map Upstream evs, rbind r (\<lambda>t. vectors_of (length texts) (loads lib t))))"

definition requested_model :: "shim_config \<Rightarrow> shim_lib \<Rightarrow> (pystr \<times> jv) list \<Rightarrow> pystr" where
  "requested_model c lib payload =
     (let v = vget payload ''model_name'';
          m = py_strip (if falsy v then [] else case v of V_str s \<Rightarrow> s | _ \<Rightarrow> str_of lib v)
      in if m = [] then default_model c else m)"

definition input_count :: "(pystr \<times> jv) list \<Rightarrow> nat" where
  "input_count payload = (case vget payload ''texts'' of V_list vs \<Rightarrow> length vs | _ \<Rightarrow> 0)"

definition embed :: "shim_config \<Rightarrow> shim_lib \<Rightarrow> shim_world \<Rightarrow> (pystr \<times> jv) list \<Rightarrow> unit shim" where
  "embed c lib w payload =
     (let requested = requested_model c lib payload;
          model = (if default_model c \<noteq> [] then default_model c else requested)
      in if requested = []
         then io_raise (Value_failure (''Missing model_name in request and ''
                @ ''ONYX_RAG_EMBEDDING_SHIM_UPSTREAM_MODEL is not set''))
         else io_bind (io_lift (apply_prefixes (shim_prefixes c) payload)) (\<lambda>texts.
              io_bind (request_vectors c lib w model texts) (\<lambda>vectors.
              io_bind (io_lift (apply_embedding_normalization vectors (vget payload ''normalize_embeddings''))) (\<lambda>out.
              io_bind (io_emit [Observed True False (length texts)]) (\<lambda>_.
              send_json (write_fails_1 w) 200 (Vectors out))))))"

text \<open>The \<open>except\<close> clauses of \<open>do_POST\<close>, and whether the second write fails: an answer that was
  being written counts as the first.\<close>

fun failure_answer :: "shim_exn \<Rightarrow> int \<times> pystr \<times> bool" where
  "failure_answer (Upstream_http st) = (st, ''Upstream embedding service returned HTTP '' @ int_str st, True)"
| "failure_answer Upstream_response = (502, ''Invalid response from embedding service'', True)"
| "failure_answer Os_level = (502, ''Failed to reach embedding service'', True)"
| "failure_answer (Value_failure m) = (400, m, False)"
| "failure_answer _ = (500, ''Embedding shim internal error'', False)"

definition answer_failure :: "shim_world \<Rightarrow> nat \<Rightarrow> bool \<Rightarrow> shim_exn \<Rightarrow> unit shim" where
  "answer_failure w n again e = (case failure_answer e of (code, text, upstream) \<Rightarrow>
     io_bind (io_emit [Observed False upstream n]) (\<lambda>_.
     send_json (if again then write_fails_2 w else write_fails_1 w) code (Detail text)))"

text \<open>The part of \<open>do_POST\<close> that forwards. \<open>input_count\<close> is still 0 when the model name is
  missing.\<close>

definition is_answer :: "shim_event \<Rightarrow> bool" where
  "is_answer e = (case e of Answer _ _ \<Rightarrow> True | _ \<Rightarrow> False)"

definition embed_post :: "shim_config \<Rightarrow> shim_lib \<Rightarrow> shim_world \<Rightarrow> (pystr \<times> jv) list \<Rightarrow> unit shim" where
  "embed_post c lib w payload =
     (let m = embed c lib w payload;
          n = (if requested_model c lib payload = [] then 0 else input_count payload)
      in io_catch m (\<lambda>_. True) (answer_failure w n (list_ex is_answer (fst m))))"

definition do_POST :: "shim_config \<Rightarrow> shim_lib \<Rightarrow> shim_world \<Rightarrow> shim_request \<Rightarrow> unit shim" where
  "do_POST c lib w rq =
     (if s_path rq \<notin> {''/encoder/bi-encoder-embed'', ''/encoder/cross-encoder-scores'', ''/custom/query-analysis''}
      then send_json (write_fails_1 w) 404 (Detail ''Not found'')
      else case read_json_body c lib rq of
        Inl (Client_request code text) \<Rightarrow> send_json (write_fails_1 w) code (Detail text)
      | Inl e \<Rightarrow> io_raise e
      | Inr payload \<Rightarrow>
          (if s_path rq = ''/encoder/cross-encoder-scores''
           then send_json (write_fails_1 w) 501 (Detail (''Reranking endpoint is not implemented in local embedding shim. ''
                  @ ''Route this call to an Onyx model-server that supports /encoder/cross-encoder-scores.''))
           else if s_path rq = ''/custom/query-analysis''
           then send_json (write_fails_1 w) 501 (Detail (''Query-analysis endpoint is not implemented in local embedding shim. ''
                  @ ''Route this call to an Onyx model-server that supports /custom/query-analysis.''))
           else embed_post c lib w payload))"

text \<open>The readiness probe asks for one embedding and reports no detail.\<close>

definition readiness :: "shim_config \<Rightarrow> shim_lib \<Rightarrow> shim_world \<Rightarrow> unit shim" where
  "readiness c lib w =
     (if default_model c = [] then send_json (write_fails_1 w) 503 (Status ''not_ready'')
      else (let m = request_vectors c lib w (default_model c) [''readiness'']
            in io_bind (fst m, Inr ()) (\<lambda>_.
                 (case snd m of
                    Inr [v] \<Rightarrow> (if v \<noteq> [] then send_json (write_fails_1 w) 200 (Status ''ready'')
                              else send_json (write_fails_1 w) 503 (Status ''not_ready''))
                  | _ \<Rightarrow> send_json (write_fails_1 w) 503 (Status ''not_ready'')))))"

definition do_GET :: "shim_config \<Rightarrow> shim_lib \<Rightarrow> shim_world \<Rightarrow> shim_request \<Rightarrow> unit shim" where
  "do_GET c lib w rq =
     (if s_path rq = ''/health'' then send_json (write_fails_1 w) 200 (Status ''ok'')
      else if s_path rq = ''/ready'' then readiness c lib w
      else if s_path rq = ''/api/gpu-status'' then send_json (write_fails_1 w) 200 (Status ''gpu_available'')
      else send_json (write_fails_1 w) 404 (Detail ''Not found''))"

section \<open>Metrics\<close>

record metrics =
  requests :: nat
  successes :: nat
  upstream_errors :: nat
  client_errors :: nat
  sum_inputs :: nat

definition no_metrics :: metrics where
  "no_metrics = \<lparr>requests = 0, successes = 0, upstream_errors = 0, client_errors = 0, sum_inputs = 0\<rparr>"

definition observe :: "bool \<Rightarrow> bool \<Rightarrow> nat \<Rightarrow> metrics \<Rightarrow> metrics" where
  "observe success upstream_error inputs m =
     (let m = m\<lparr>requests := requests m + 1, sum_inputs := sum_inputs m + inputs\<rparr>
      in if success then m\<lparr>successes := successes m + 1\<rparr>
         else if upstream_error then m\<lparr>upstream_errors := upstream_errors m + 1\<rparr>
         else m\<lparr>client_errors := client_errors m + 1\<rparr>)"

fun metrics_after :: "metrics \<Rightarrow> shim_event list \<Rightarrow> metrics" where
  "metrics_after m [] = m"
| "metrics_after m (Observed s u n # es) = metrics_after (observe s u n m) es"
| "metrics_after m (e # es) = metrics_after m es"

section \<open>The vectors of an answer\<close>

text \<open>An item of the answer with its index and its vector.\<close>

definition item_vector :: "jv \<Rightarrow> (nat \<times> rat list) option" where
  "item_vector item = (case item of
     V_obj members \<Rightarrow> (case (vget members ''index'', vget members ''embedding'') of
       (V_int i, V_list vs) \<Rightarrow>
         (if 0 \<le> i \<and> vs \<noteq> [] \<and> list_all is_finite_json_number vs
          then Some (nat i, map number_of vs) else None)
     | _ \<Rightarrow> None)
   | _ \<Rightarrow> None)"

lemma read_item_Inr:
  assumes "read_item n s item = Inr s'"
  shows "\<exists>i v. item_vector item = Some (i, v) \<and> i < n \<and> fst s i = None \<and> v \<noteq> [] \<and>
    (snd s = None \<or> snd s = Some (length v)) \<and> s' = ((fst s)(i \<mapsto> v), Some (length v))"
proof -
  obtain members where m: "item = V_obj members" using assms by (cases item) (auto simp: read_item_def)
  obtain i where i: "vget members ''index'' = V_int i"
    using assms m by (cases "vget members ''index''") (auto simp: read_item_def)
  have bounds: "0 \<le> i" "i < int n" "fst s (nat i) = None"
    using assms m i by (auto simp: read_item_def split: if_splits)
  then obtain vs where v: "vget members ''embedding'' = V_list vs"
    using assms m i by (cases "vget members ''embedding''") (auto simp: read_item_def)
  have "vs \<noteq> []" "list_all is_finite_json_number vs" "snd s = None \<or> snd s = Some (length vs)"
    "s' = ((fst s)(nat i \<mapsto> map number_of vs), Some (length vs))"
    using assms m i v bounds by (auto simp: read_item_def split: if_splits option.splits)
  with m i v bounds show ?thesis
    by (intro exI [of _ "nat i"] exI [of _ "map number_of vs"]) (simp add: item_vector_def)
qed

lemma read_items_Inr:
  assumes "read_items n items s = Inr s'"
  shows "\<exists>ps. map item_vector items = map Some ps \<and> distinct (map fst ps) \<and>
    list_all (\<lambda>p. fst p < n \<and> fst s (fst p) = None \<and> snd p \<noteq> [] \<and> snd s' = Some (length (snd p))) ps \<and>
    fst s' = fst s ++ map_of ps \<and> (items = [] \<longrightarrow> s' = s) \<and> (snd s = None \<or> snd s' = snd s)"
  using assms
proof (induction items arbitrary: s)
  case Nil
  then show ?case by (intro exI [of _ "[]"]) simp
next
  case (Cons item items)
  then obtain s1 where s1: "read_item n s item = Inr s1" "read_items n items s1 = Inr s'"
    by (auto simp: rbind_Inr_iff)
  obtain i v where iv: "item_vector item = Some (i, v)" "i < n" "fst s i = None" "v \<noteq> []"
    "snd s = None \<or> snd s = Some (length v)" "s1 = ((fst s)(i \<mapsto> v), Some (length v))"
    using read_item_Inr [OF s1(1)] by blast
  obtain ps where ps: "map item_vector items = map Some ps" "distinct (map fst ps)"
    "list_all (\<lambda>p. fst p < n \<and> fst s1 (fst p) = None \<and> snd p \<noteq> [] \<and> snd s' = Some (length (snd p))) ps"
    "fst s' = fst s1 ++ map_of ps" "snd s' = snd s1"
  proof -
    have "snd s1 \<noteq> None" using iv(6) by simp
    with Cons.IH [OF s1(2)] that show thesis by blast
  qed
  have new: "i \<notin> fst ` set ps" using ps(3) iv(6) by (auto simp: list_all_iff)
  have "(fst s)(i \<mapsto> v) ++ map_of ps = fst s ++ map_of ((i, v) # ps)"
  proof -
    have "map_of ps i = None" using new by (simp add: map_of_eq_None_iff)
    then show ?thesis by (auto simp: map_add_def fun_eq_iff split: option.splits)
  qed
  then have "fst s' = fst s ++ map_of ((i, v) # ps)" using ps(4) iv(6) by simp
  moreover have "list_all (\<lambda>p. fst p < n \<and> fst s (fst p) = None \<and> snd p \<noteq> [] \<and> snd s' = Some (length (snd p))) ((i, v) # ps)"
    using ps(3,5) iv by (auto simp: list_all_iff split: if_splits)
  moreover have "map item_vector (item # items) = map Some ((i, v) # ps)" "distinct (map fst ((i, v) # ps))"
    using iv(1) ps(1,2) new by auto
  moreover have "snd s = None \<or> snd s' = snd s" using iv(5,6) ps(5) by auto
  ultimately show ?case by blast
qed

lemma vectors_of_Inr:
  assumes "vectors_of n p = Inr vs"
  shows "\<exists>members items ps. p = Parsed (V_obj members) \<and> vget members ''data'' = V_list items \<and>
    map item_vector items = map Some ps \<and> length ps = n \<and> fst ` set ps = {..<n} \<and> length vs = n \<and>
    (\<forall>i < n. (i, vs ! i) \<in> set ps) \<and> (\<exists>d. \<forall>v \<in> set vs. length v = d \<and> 0 < d)"
proof -
  obtain members where p: "p = Parsed (V_obj members)"
    using assms by (cases p) (auto simp: vectors_of_def split: jv.splits)
  obtain items where items: "vget members ''data'' = V_list items"
    using assms p by (cases "vget members ''data''") (auto simp: vectors_of_def)
  obtain s where s: "read_items n items (Map.empty, None) = Inr s" and len: "length items = n"
    and vs: "vs = map (\<lambda>i. the (fst s i)) [0..<n]"
    using assms p items by (auto simp: vectors_of_def rbind_Inr_iff split: if_splits)
  obtain ps where ps: "map item_vector items = map Some ps" "distinct (map fst ps)"
    "list_all (\<lambda>p. fst p < n \<and> snd p \<noteq> [] \<and> snd s = Some (length (snd p))) ps"
    "fst s = map_of ps"
    using read_items_Inr [OF s] by auto
  have lp: "length ps = n" using ps(1) len by (metis length_map)
  have "fst ` set ps = {..<n}"
  proof (rule card_subset_eq)
    show "fst ` set ps \<subseteq> {..<n}" using ps(3) by (auto simp: list_all_iff)
    show "card (fst ` set ps) = card {..<n}"
      using distinct_card [OF ps(2)] lp by simp
  qed simp
  moreover have mem: "(i, vs ! i) \<in> set ps" if "i < n" for i
  proof -
    from that \<open>fst ` set ps = {..<n}\<close> have "i \<in> fst ` set ps" by simp
    then obtain v where "(i, v) \<in> set ps" by auto
    then have "fst s i = Some v" using ps(2,4) by simp
    then show ?thesis using \<open>(i, v) \<in> set ps\<close> that vs by simp
  qed
  moreover have "\<exists>d. \<forall>v \<in> set vs. length v = d \<and> 0 < d"
  proof (intro exI ballI)
    fix v assume "v \<in> set vs"
    then obtain i where "i < n" "v = vs ! i" using vs by (auto simp: in_set_conv_nth)
    then have "snd s = Some (length v)" "v \<noteq> []" using mem ps(3) by (fastforce simp: list_all_iff)+
    then show "length v = the (snd s) \<and> 0 < the (snd s)" by simp
  qed
  ultimately show ?thesis using p items ps(1) lp vs by (intro exI) (auto)
qed

section \<open>Normalization\<close>

lemma scaled_sum_inv:
  assumes "scaled_sum (s, t) vs = (s', t')" "0 \<le> s" "1 \<le> t"
  shows "s' ^ 2 * t' = s ^ 2 * t + (\<Sum>v\<leftarrow>vs. v ^ 2) \<and> 0 \<le> s' \<and> 1 \<le> t'"
  using assms
proof (induction "(s, t)" vs arbitrary: s t rule: scaled_sum.induct)
  case (2 s t v vs)
  consider "v = 0" | "v \<noteq> 0" "s < \<bar>v\<bar>" | "v \<noteq> 0" "\<bar>v\<bar> \<le> s" by linarith
  then show ?case
  proof cases
    case 1
    with 2 show ?thesis by simp
  next
    case 2
    have t: "1 \<le> 1 + t * (s / \<bar>v\<bar>) ^ 2" using "2.prems" by simp
    have "\<bar>v\<bar> ^ 2 * (1 + t * (s / \<bar>v\<bar>) ^ 2) = v ^ 2 + s ^ 2 * t"
      using 2(1) by (simp add: field_simps power_divide)
    with 2 t "2.hyps"(2) [of "\<bar>v\<bar>"] "2.prems" show ?thesis by (simp add: Let_def)
  next
    case 3
    then have "0 < s" by linarith
    have t: "1 \<le> t + (\<bar>v\<bar> / s) ^ 2" using "2.prems" by (simp add: add_increasing2)
    have "s ^ 2 * (t + (\<bar>v\<bar> / s) ^ 2) = s ^ 2 * t + v ^ 2"
      using \<open>0 < s\<close> by (simp add: field_simps power_divide)
    with 3 t "2.hyps"(3) [of "\<bar>v\<bar>"] "2.prems" show ?thesis by (simp add: Let_def)
  qed
qed simp

lemma normalize_vector_Inr:
  assumes "normalize_vector vs = Inr us"
  shows "us = map (\<lambda>v. of_rat v / sqrt (\<Sum>v\<leftarrow>vs. (of_rat v) ^ 2)) vs \<and> 0 < (\<Sum>v\<leftarrow>vs. (of_rat v :: real) ^ 2)"
proof -
  obtain s t where st: "scaled_sum (0, 1) vs = (s, t)" by fastforce
  have s: "s \<noteq> 0" and us: "us = map (\<lambda>v. (of_rat v / of_rat s) / sqrt (of_rat t)) vs"
    using assms st by (auto simp: normalize_vector_def split: if_splits)
  have inv: "s ^ 2 * t = (\<Sum>v\<leftarrow>vs. v ^ 2)" "0 < s" "1 \<le> t"
    using scaled_sum_inv [OF st] s by auto
  have "(of_rat s :: real) ^ 2 * of_rat t = of_rat (\<Sum>v\<leftarrow>vs. v ^ 2)"
    unfolding inv(1) [symmetric] by (simp add: of_rat_mult of_rat_power)
  also have "\<dots> = (\<Sum>v\<leftarrow>vs. (of_rat v) ^ 2)"
    by (induction vs) (simp_all add: of_rat_add of_rat_power)
  finally have sq: "(\<Sum>v\<leftarrow>vs. (of_rat v :: real) ^ 2) = (of_rat s) ^ 2 * of_rat t" by simp
  have pos: "0 < (of_rat s :: real)" "0 < (of_rat t :: real)" using inv by auto
  then have "sqrt (\<Sum>v\<leftarrow>vs. (of_rat v :: real) ^ 2) = of_rat s * sqrt (of_rat t)"
    unfolding sq by (simp add: real_sqrt_mult)
  then show ?thesis using us pos sq by simp
qed

lemma sum_list_const_div: "(\<Sum>v\<leftarrow>vs. f v / (c :: real)) = (\<Sum>v\<leftarrow>vs. f v) / c"
  by (induction vs) (simp_all add: add_divide_distrib)

lemma scaled_sum_zero: "s \<noteq> 0 \<Longrightarrow> 0 \<le> s \<Longrightarrow> fst (scaled_sum (s, t) vs) \<noteq> 0"
  by (induction "(s, t)" vs arbitrary: s t rule: scaled_sum.induct) (auto simp: Let_def)

lemma scaled_sum_fst_zero: "fst (scaled_sum (0, t) vs) = 0 \<longleftrightarrow> list_all (\<lambda>v. v = 0) vs"
  by (induction vs arbitrary: t) (auto simp: Let_def scaled_sum_zero)

section \<open>What a request logs\<close>

lemma pool_request_log:
  "fst (pool_request k limit decode free answer model texts) =
     (if free then [Acquire, Post (new_connection k) (request_target k) model texts, Close_conn, Release] else [])"
  by (simp add: pool_request_def)

text \<open>The events of one attempt, up to the answer.\<close>

definition attempt :: "shim_config \<Rightarrow> pystr \<Rightarrow> pystr list \<Rightarrow> shim_event list \<Rightarrow> bool" where
  "attempt c model texts evs \<longleftrightarrow> evs = [] \<or>
     evs = map Upstream [Acquire, Post (new_connection (upstream_pool c)) (request_target (upstream_pool c)) model texts,
                         Close_conn, Release]"

lemma embed_log:
  assumes "fst (embed c lib w payload) = evs"
  shows "\<exists>texts rest. attempt c (if default_model c \<noteq> [] then default_model c else requested_model c lib payload) texts
      (take (length evs - length rest) evs) \<and> evs = take (length evs - length rest) evs @ rest \<and>
    (evs = [] \<or> apply_prefixes (shim_prefixes c) payload = Inr texts) \<and>
    (rest = [] \<or> (\<exists>out. rest = [Observed True False (length texts), Answer 200 (Vectors out)])) \<and>
    (rest = [] \<longrightarrow> (\<exists>e. snd (embed c lib w payload) = Inl e)) \<and>
    (rest \<noteq> [] \<longrightarrow> snd (embed c lib w payload) = (if write_fails_1 w then Inl Os_level else Inr ()))"
proof (cases "requested_model c lib payload = [] \<or> (\<exists>e. apply_prefixes (shim_prefixes c) payload = Inl e)")
  case True
  then have "evs = []" "\<exists>e. snd (embed c lib w payload) = Inl e"
    using assms by (auto simp: embed_def fst_io_bind snd_io_bind Let_def split: sum.splits)
  then show ?thesis by (intro exI [of _ "[]"]) (simp add: attempt_def)
next
  case False
  then obtain texts where t: "apply_prefixes (shim_prefixes c) payload = Inr texts"
    by (cases "apply_prefixes (shim_prefixes c) payload") auto
  let ?model = "if default_model c \<noteq> [] then default_model c else requested_model c lib payload"
  let ?rv = "request_vectors c lib w ?model texts"
  have rv: "attempt c ?model texts (fst ?rv)"
    by (simp add: request_vectors_def pool_request_def attempt_def io_raise_def)
  show ?thesis
  proof (cases "\<exists>out. rbind (snd ?rv) (\<lambda>vs. apply_embedding_normalization vs (vget payload ''normalize_embeddings'')) = Inr out")
    case True
    then obtain out where out: "rbind (snd ?rv) (\<lambda>vs. apply_embedding_normalization vs (vget payload ''normalize_embeddings'')) = Inr out"
      by blast
    let ?rest = "[Observed True False (length texts), Answer 200 (Vectors out)]"
    have e: "evs = fst ?rv @ ?rest" "snd (embed c lib w payload) = (if write_fails_1 w then Inl Os_level else Inr ())"
      using assms out False t
      by (auto simp: embed_def fst_io_bind snd_io_bind Let_def send_json_def rbind_Inr_iff)
    with rv t show ?thesis by (intro exI [of _ texts] exI [of _ ?rest]) simp
  next
    case fails: False
    then obtain e where "rbind (snd ?rv) (\<lambda>vs. apply_embedding_normalization vs (vget payload ''normalize_embeddings'')) = Inl e"
      by (metis sum.exhaust)
    then have e: "evs = fst ?rv" "snd (embed c lib w payload) = Inl e"
      using assms False t
      by (auto simp: embed_def fst_io_bind snd_io_bind Let_def rbind_Inl_iff)
    with rv t show ?thesis by (intro exI [of _ texts] exI [of _ "[]"]) simp
  qed
qed

lemma embed_post_log:
  assumes "embed_post c lib w payload = (evs, r)"
  shows "\<exists>model texts first rest. evs = first @ rest \<and> attempt c model texts first \<and>
    (default_model c = [] \<or> model = default_model c) \<and>
    (first = [] \<or> apply_prefixes (shim_prefixes c) payload = Inr texts) \<and>
    ((\<exists>out. rest = [Observed True False (length texts), Answer 200 (Vectors out)] \<and> r = Inr ()) \<or>
     (\<exists>out e. rest = [Observed True False (length texts), Answer 200 (Vectors out),
          Observed False True (input_count payload), Answer 502 (Detail e)] \<and> write_fails_1 w) \<or>
     (\<exists>e up n. rest = [Observed False up n, Answer (fst (failure_answer e)) (Detail (fst (snd (failure_answer e))))]))"
proof -
  let ?model = "if default_model c \<noteq> [] then default_model c else requested_model c lib payload"
  let ?n = "if requested_model c lib payload = [] then 0 else input_count payload"
  obtain texts rest where a: "attempt c ?model texts (take (length (fst (embed c lib w payload)) - length rest) (fst (embed c lib w payload)))"
    and split: "fst (embed c lib w payload) = take (length (fst (embed c lib w payload)) - length rest) (fst (embed c lib w payload)) @ rest"
    and tx: "fst (embed c lib w payload) = [] \<or> apply_prefixes (shim_prefixes c) payload = Inr texts"
    and rest: "rest = [] \<or> (\<exists>out. rest = [Observed True False (length texts), Answer 200 (Vectors out)])"
      "rest = [] \<longrightarrow> (\<exists>e. snd (embed c lib w payload) = Inl e)"
      "rest \<noteq> [] \<longrightarrow> snd (embed c lib w payload) = (if write_fails_1 w then Inl Os_level else Inr ())"
    using embed_log [OF refl, where c = c and lib = lib and w = w and payload = payload] by blast
  define first where "first = take (length (fst (embed c lib w payload)) - length rest) (fst (embed c lib w payload))"
  have e: "fst (embed c lib w payload) = first @ rest" using split by (simp add: first_def)
  have at: "attempt c ?model texts first" using a by (simp add: first_def)
  have tx': "first = [] \<or> apply_prefixes (shim_prefixes c) payload = Inr texts" using tx e by auto
  have noans: "\<not> list_ex is_answer first" using at by (auto simp: attempt_def is_answer_def)
  have evs: "evs = first @ rest @ (case snd (embed c lib w payload) of
      Inl x \<Rightarrow> fst (answer_failure w ?n (list_ex is_answer rest) x) | Inr _ \<Rightarrow> [])"
    "r = rcatch (snd (embed c lib w payload)) (\<lambda>_. True) (\<lambda>x. snd (answer_failure w ?n (list_ex is_answer rest) x))"
  proof -
    obtain l q where em: "embed c lib w payload = (l, q)" by fastforce
    with e have l: "l = first @ rest" by simp
    show "evs = first @ rest @ (case snd (embed c lib w payload) of
      Inl x \<Rightarrow> fst (answer_failure w ?n (list_ex is_answer rest) x) | Inr _ \<Rightarrow> [])"
      using assms noans unfolding embed_post_def Let_def em
      by (cases q) (auto simp: io_catch_def l)
    show "r = rcatch (snd (embed c lib w payload)) (\<lambda>_. True) (\<lambda>x. snd (answer_failure w ?n (list_ex is_answer rest) x))"
      using assms noans unfolding embed_post_def Let_def em
      by (cases q) (auto simp: io_catch_def rcatch_def l)
  qed
  have fa: "fst (answer_failure w ?n b x) = [Observed False (snd (snd (failure_answer x))) ?n,
      Answer (fst (failure_answer x)) (Detail (fst (snd (failure_answer x))))]" for b x
    by (simp add: answer_failure_def fst_io_bind send_json_def split: prod.splits)
  have dm: "default_model c = [] \<or> ?model = default_model c" by simp
  have "(\<exists>out. rest = [Observed True False (length texts), Answer 200 (Vectors out)]) \<and> \<not> write_fails_1 w \<or>
     (\<exists>out. rest = [Observed True False (length texts), Answer 200 (Vectors out)]) \<and> write_fails_1 w \<or>
     rest = []" using rest(1) by blast
  then show ?thesis
  proof (elim disjE conjE exE)
    fix out assume r: "rest = [Observed True False (length texts), Answer 200 (Vectors out)]" "\<not> write_fails_1 w"
    with rest(3) evs have "evs = first @ rest" "r = Inr ()" by simp_all
    with at tx' dm r(1) show ?thesis by blast
  next
    fix out assume r: "rest = [Observed True False (length texts), Answer 200 (Vectors out)]" "write_fails_1 w"
    then have "first @ rest \<noteq> []" by simp
    have "requested_model c lib payload \<noteq> []"
    proof
      assume "requested_model c lib payload = []"
      then have "fst (embed c lib w payload) = []" by (simp add: embed_def)
      with e r show False by simp
    qed
    then have "evs = first @ [Observed True False (length texts), Answer 200 (Vectors out),
        Observed False True (input_count payload), Answer 502 (Detail ''Failed to reach embedding service'')]"
      using evs(1) rest(3) r fa by simp
    with at tx' dm r(2) show ?thesis by blast
  next
    assume r: "rest = []"
    then obtain x where x: "snd (embed c lib w payload) = Inl x" using rest(2) by blast
    have "evs = first @ [Observed False (snd (snd (failure_answer x))) ?n,
      Answer (fst (failure_answer x)) (Detail (fst (snd (failure_answer x))))]"
      using evs(1) r x fa by simp
    with at tx' dm show ?thesis by blast
  qed
qed

section \<open>The properties\<close>

text \<open>
  An answer of the upstream service is accepted only if it is complete and
  consistent: there are exactly as many vectors as inputs, the vector at each place is that of
  the one item with that index, whatever the order of the items, and all vectors have one
  positive dimension and finite entries.
\<close>

theorem embeddings_complete_in_order:
  assumes "vectors_of n p = Inr vs"
  shows "\<exists>members items ps. p = Parsed (V_obj members) \<and> vget members ''data'' = V_list items \<and>
    map item_vector items = map Some ps \<and> fst ` set ps = {..<n} \<and> length items = n \<and> length vs = n \<and>
    list_all (\<lambda>i. (i, vs ! i) \<in> set ps) [0..<n] \<and> (\<exists>d > 0. list_all (\<lambda>v. length v = d) vs)"
proof -
  obtain members items ps d where *: "p = Parsed (V_obj members)" "vget members ''data'' = V_list items"
    "map item_vector items = map Some ps" "length ps = n" "fst ` set ps = {..<n}" "length vs = n"
    "\<forall>i < n. (i, vs ! i) \<in> set ps" "\<forall>v \<in> set vs. length v = d \<and> 0 < d"
    using vectors_of_Inr [OF assms] by blast
  moreover have "length items = n" using *(3,4) by (metis length_map)
  moreover have "\<exists>d > 0. list_all (\<lambda>v. length v = d) vs"
    using *(8) by (cases vs) (auto simp: list_all_iff)
  ultimately show ?thesis by (auto simp: list_all_iff)
qed

definition sample_answer :: parsed where
  "sample_answer = Parsed (V_obj [(''data'', V_list [
     V_obj [(''index'', V_int 1), (''embedding'', V_list [V_int 3, V_int 4])],
     V_obj [(''index'', V_int 0), (''embedding'', V_list [V_int 0, V_int 2])]])])"

lemma sample_vectors: "vectors_of 2 sample_answer = Inr [[0, 2], [3, 4]]"
  by (simp add: vectors_of_def sample_answer_def vget_def read_item_def is_finite_json_number_def
      number_of_def upt_conv_Cons numeral_2_eq_2)

lemma embeddings_complete_in_order_witness:
  "\<exists>items. length items = 2 \<and> vectors_of 2 (Parsed (V_obj [(''data'', V_list items)])) = Inr [[0, 2], [3, 4]]"
proof -
  obtain members items where "sample_answer = Parsed (V_obj members)"
    "vget members ''data'' = V_list items" "length items = 2"
    using embeddings_complete_in_order [OF sample_vectors] by blast
  then show ?thesis using sample_vectors
    by (intro exI [of _ items]) (auto simp: sample_answer_def vget_def)
qed

text \<open>
  The streaming computation of the norm agrees with its definition: a vector is
  refused exactly when it is zero, and otherwise it is divided by the square root of the sum of
  its squares, which gives a vector of length one.
\<close>

theorem normalization_unit:
  "case normalize_vector vs of
     Inl e \<Rightarrow> e = Upstream_response \<and> list_all (\<lambda>v. v = 0) vs
   | Inr us \<Rightarrow> \<not> list_all (\<lambda>v. v = 0) vs \<and>
       us = map (\<lambda>v. of_rat v / sqrt (\<Sum>v\<leftarrow>vs. (of_rat v) ^ 2)) vs \<and> (\<Sum>u\<leftarrow>us. u ^ 2) = 1"
proof (cases "normalize_vector vs")
  case (Inl e)
  then show ?thesis using scaled_sum_fst_zero [of 1 vs]
    by (auto simp: normalize_vector_def split: prod.splits if_splits)
next
  case (Inr us)
  let ?q = "\<Sum>v\<leftarrow>vs. (of_rat v :: real) ^ 2"
  have us: "us = map (\<lambda>v. of_rat v / sqrt ?q) vs" and q: "0 < ?q" using normalize_vector_Inr [OF Inr] by auto
  have "(\<Sum>u\<leftarrow>us. u ^ 2) = (\<Sum>v\<leftarrow>vs. (of_rat v) ^ 2 / ?q)"
    using q by (simp add: us power_divide o_def)
  also have "\<dots> = 1" using q by (simp add: sum_list_const_div)
  finally have "(\<Sum>u\<leftarrow>us. u ^ 2) = 1" .
  moreover have "\<not> list_all (\<lambda>v. v = 0) vs"
    using Inr scaled_sum_fst_zero [of 1 vs] by (auto simp: normalize_vector_def split: prod.splits if_splits)
  ultimately show ?thesis using Inr us by simp
qed

text \<open>
  Whatever upstream URL is configured, embedding traffic leaves only through the
  egress bridge, as a plain proxied request or through a CONNECT tunnel, save for one endpoint:
  plain HTTP to the internal host teep on port 8337 with no proxy configured.
\<close>

theorem embedding_traffic_confined:
  assumes "make_pool url proxy_url = Inr k"
  shows "(new_connection k = Direct ''teep'' 8337 \<and> proxy_url = [] \<and> p_scheme k = ''http'') \<or>
    new_connection k = Via_proxy ''onyx-host-egress-bridge'' 3128 \<or>
    new_connection k = Tunnel ''onyx-host-egress-bridge'' 3128 (p_host k) (p_port k)"
proof -
  obtain u x direct proxy p where u: "urlparse url = Inr u" "check_upstream u = Inr ()" "port u = Inr p"
    and x: "urlparse proxy_url = Inr x" and d: "direct_internal_teep proxy_url u = Inr direct"
    and ck: "direct \<or> check_proxy x = Inr ()"
    and pr: "(if direct then Inr None else rbind (port x) (\<lambda>q. Inr (Some (hostname x, the q)))) = Inr proxy"
    and k: "p_scheme k = u_scheme u" "p_host k = hostname u" "p_proxy k = proxy"
    and kp: "p_port k = (case p of None \<Rightarrow> (if u_scheme u = ''https'' then 443 else 80)
                   | Some n \<Rightarrow> if n = 0 then (if u_scheme u = ''https'' then 443 else 80) else n)"
    using assms by (auto simp: make_pool_def rbind_Inr_iff Let_def split: if_splits)
  show ?thesis
  proof (cases direct)
    case True
    then have "proxy_url = []" "u_scheme u = ''http''" "hostname u = ''teep''" "p = Some 8337"
      using d u(3) by (auto simp: direct_internal_teep_def rbind_Inr_iff split: if_splits)
    with True pr k kp show ?thesis by (simp add: new_connection_def)
  next
    case False
    then have "hostname x = ''onyx-host-egress-bridge''" "port x = Inr (Some 3128)"
      using ck by (auto simp: check_proxy_def rbind_Inr_iff split: if_splits)
    with False pr k show ?thesis
      by (cases "u_scheme u = ''https''") (auto simp: new_connection_def)
  qed
qed

lemma embedding_traffic_confined_witness:
  "\<exists>k. make_pool ''https://embed.example/v1'' ''http://onyx-host-egress-bridge:3128'' = Inr k \<and>
     new_connection k = Tunnel ''onyx-host-egress-bridge'' 3128 ''embed.example'' 443"
proof -
  have "case make_pool ''https://embed.example/v1'' ''http://onyx-host-egress-bridge:3128'' of
      Inr k \<Rightarrow> new_connection k = Tunnel ''onyx-host-egress-bridge'' 3128 ''embed.example'' 443 \<and> p_host k = ''embed.example''
    | Inl _ \<Rightarrow> False" by code_simp
  then obtain k where k: "make_pool ''https://embed.example/v1'' ''http://onyx-host-egress-bridge:3128'' = Inr k"
    "new_connection k = Tunnel ''onyx-host-egress-bridge'' 3128 ''embed.example'' 443"
    by (auto split: sum.splits)
  from embedding_traffic_confined [OF k(1)] k show ?thesis by blast
qed

definition is_post :: "shim_event \<Rightarrow> bool" where
  "is_post e = (case e of Upstream (Post _ _ _ _) \<Rightarrow> True | _ \<Rightarrow> False)"

lemma attempt_facts:
  assumes "attempt c model texts first"
  shows "filter is_answer first = []" "length (filter is_post first) \<le> 1"
    "requests (metrics_after m first) = requests m"
    "Upstream (Post con tgt mo ts) \<in> set first \<Longrightarrow> con = new_connection (upstream_pool c) \<and> mo = model \<and> ts = texts \<and> first \<noteq> []"
    "count_list first (Upstream Acquire) = count_list first (Upstream Release)"
  using assms by (auto simp: attempt_def is_answer_def is_post_def)

lemma metrics_after_append: "metrics_after m (xs @ ys) = metrics_after (metrics_after m xs) ys"
  by (induction m xs rule: metrics_after.induct) auto

lemma requests_observe [simp]: "requests (observe s u n m) = Suc (requests m)"
  by (simp add: observe_def Let_def)

text \<open>
  Every embedding request that is read gets exactly one answer, as the last event, and
  is counted exactly once, whatever the upstream service does, as long as writing the answer
  works. At most one upstream request is made for it, over the configured connection, with the
  configured model when there is one and with the prefixed texts, and its pool slot is released.
\<close>

theorem embedding_post_answered_once:
  assumes "embed_post c lib w payload = (evs, r)" and "\<not> write_fails_1 w"
  shows "length (filter is_answer evs) = 1 \<and> is_answer (last evs) \<and> length (filter is_post evs) \<le> 1 \<and>
    requests (metrics_after m evs) = Suc (requests m) \<and>
    count_list evs (Upstream Acquire) = count_list evs (Upstream Release) \<and>
    list_all (\<lambda>e. \<forall>con tgt model texts. e = Upstream (Post con tgt model texts) \<longrightarrow>
      con = new_connection (upstream_pool c) \<and> (default_model c = [] \<or> model = default_model c) \<and>
      apply_prefixes (shim_prefixes c) payload = Inr texts) evs"
proof -
  obtain model texts first rest where evs: "evs = first @ rest" and at: "attempt c model texts first"
    and dm: "default_model c = [] \<or> model = default_model c"
    and tx: "first = [] \<or> apply_prefixes (shim_prefixes c) payload = Inr texts"
    and rest: "(\<exists>out. rest = [Observed True False (length texts), Answer 200 (Vectors out)]) \<or>
      (\<exists>up n code d. rest = [Observed False up n, Answer code (Detail d)])"
    using embed_post_log [OF assms(1)] assms(2) by blast
  note f = attempt_facts [OF at]
  have r: "length (filter is_answer rest) = 1 \<and> is_answer (last rest) \<and> filter is_post rest = [] \<and> rest \<noteq> [] \<and>
      requests (metrics_after m' rest) = Suc (requests m') \<and> count_list rest (Upstream Acquire) = 0 \<and>
      count_list rest (Upstream Release) = 0 \<and> (\<forall>con tgt mo ts. Upstream (Post con tgt mo ts) \<notin> set rest)" for m'
    using rest by (auto simp: is_answer_def is_post_def)
  have "list_all (\<lambda>e. \<forall>con tgt mo ts. e = Upstream (Post con tgt mo ts) \<longrightarrow>
      con = new_connection (upstream_pool c) \<and> (default_model c = [] \<or> mo = default_model c) \<and>
      apply_prefixes (shim_prefixes c) payload = Inr ts) evs"
    unfolding evs list_all_iff
  proof (intro ballI allI impI)
    fix e con tgt mo ts assume "e \<in> set (first @ rest)" "e = Upstream (Post con tgt mo ts)"
    then have "Upstream (Post con tgt mo ts) \<in> set first" using r by auto
    from f(4) [OF this] dm tx show "con = new_connection (upstream_pool c) \<and>
        (default_model c = [] \<or> mo = default_model c) \<and> apply_prefixes (shim_prefixes c) payload = Inr ts" by auto
  qed
  then show ?thesis
    using f(1,2,5) r f(3) [of m] unfolding evs by (simp add: metrics_after_append)
qed

text \<open>An integer of more than 4300 digits: in the upstream answer it is reported as the client's
  error, in the request it ends the request without an answer.\<close>

lemma huge_numbers:
  "fst (failure_answer (Value_failure m)) = 400 \<and> vectors_of n (Bad_number m) = Inl (Value_failure m)"
  "s_path rq = ''/encoder/bi-encoder-embed'' \<Longrightarrow> read_json_body c lib rq = Inl (Value_failure m) \<Longrightarrow>
     do_POST c lib w rq = ([], Inl (Value_failure m))"
  by (simp_all add: vectors_of_def do_POST_def io_raise_def)

definition sample_shim :: shim_config where
  "sample_shim = \<lparr>default_model = ''m'', shim_prefixes = \<lparr>query_prefix = [], passage_prefix = []\<rparr>,
     max_body = 100, max_answer = 100, upstream_pool = \<lparr>p_scheme = ''http'', p_host = ''teep'', p_port = 8337,
       p_target = ''/'', p_absolute = ''http://teep:8337'', p_proxy = None\<rparr>\<rparr>"

definition sample_lib :: shim_lib where
  "sample_lib = \<lparr>str_of = (\<lambda>_. []), loads = (\<lambda>_. sample_answer), utf8 = Some\<rparr>"

lemma embedding_post_answered_once_witness:
  "\<exists>evs r. embed_post sample_shim sample_lib \<lparr>slot_free = False, upstream_answer = Inl Os_level,
       write_fails_1 = False, write_fails_2 = False\<rparr> [(''texts'', V_list [V_str ''a''])] = (evs, r) \<and>
     length (filter is_answer evs) = 1"
proof -
  let ?w = "\<lparr>slot_free = False, upstream_answer = Inl Os_level, write_fails_1 = False, write_fails_2 = False\<rparr>"
  obtain evs r where e: "embed_post sample_shim sample_lib ?w [(''texts'', V_list [V_str ''a''])] = (evs, r)"
    by fastforce
  from embedding_post_answered_once [OF e, of no_metrics] e show ?thesis by auto
qed

end
