(* ===== verification/Workflow.thy ===== *)
theory Workflow
  imports Main
begin

text \<open>
  Computations that run commands: each maps the state of the surroundings to the events it causes, the
  new state and a result or an error. The lemmas bound the events of a kind a computation can
  cause, whatever the surroundings answer.
\<close>

section \<open>Computations\<close>

type_synonym ('m, 'e, 'x, 'a) run = "'m \<Rightarrow> 'e list \<times> 'm \<times> ('x + 'a)"

definition wf_ret :: "'a \<Rightarrow> ('m, 'e, 'x, 'a) run" where
  "wf_ret x s = ([], s, Inr x)"

definition wf_stop :: "'x \<Rightarrow> ('m, 'e, 'x, 'a) run" where
  "wf_stop e s = ([], s, Inl e)"

definition wf_log :: "'e \<Rightarrow> ('m, 'e, 'x, unit) run" where
  "wf_log e s = ([e], s, Inr ())"

definition wf_bind :: "('m, 'e, 'x, 'a) run \<Rightarrow> ('a \<Rightarrow> ('m, 'e, 'x, 'b) run) \<Rightarrow> ('m, 'e, 'x, 'b) run" where
  "wf_bind m f s = (case m s of
     (es, s1, Inl e) \<Rightarrow> (es, s1, Inl e)
   | (es, s1, Inr x) \<Rightarrow> (case f x s1 of (es', s2, r) \<Rightarrow> (es @ es', s2, r)))"

definition wf_from :: "'x + 'a \<Rightarrow> ('m, 'e, 'x, 'a) run" where
  "wf_from r s = ([], s, r)"

text \<open>\<open>except\<close>: the handler gets the error.\<close>

definition wf_catch :: "('m, 'e, 'x, 'a) run \<Rightarrow> ('x \<Rightarrow> ('m, 'e, 'x, 'a) run) \<Rightarrow> ('m, 'e, 'x, 'a) run" where
  "wf_catch m h s = (case m s of
     (es, s1, Inl e) \<Rightarrow> (case h e s1 of (es', s2, r) \<Rightarrow> (es @ es', s2, r))
   | (es, s1, Inr x) \<Rightarrow> (es, s1, Inr x))"

text \<open>\<open>finally\<close>: the last part runs in any case, and an error of it replaces the result.\<close>

definition wf_finally :: "('m, 'e, 'x, 'a) run \<Rightarrow> ('m, 'e, 'x, unit) run \<Rightarrow> ('m, 'e, 'x, 'a) run" where
  "wf_finally m f s = (case m s of (es, s1, r) \<Rightarrow>
     (case f s1 of
        (es', s2, Inl e) \<Rightarrow> (es @ es', s2, Inl e)
      | (es', s2, Inr _) \<Rightarrow> (es @ es', s2, r)))"

section \<open>Reasoning about computations\<close>

text \<open>At most \<open>n\<close> events of a kind, and a result of a kind.\<close>

definition wf_bound :: "('e \<Rightarrow> bool) \<Rightarrow> nat \<Rightarrow> ('a \<Rightarrow> bool) \<Rightarrow> ('m, 'e, 'x, 'a) run \<Rightarrow> bool" where
  "wf_bound P n Q m \<longleftrightarrow> (\<forall>s. length (filter P (fst (m s))) \<le> n \<and>
     (\<forall>x. snd (snd (m s)) = Inr x \<longrightarrow> Q x))"

abbreviation quiet :: "('e \<Rightarrow> bool) \<Rightarrow> ('m, 'e, 'x, 'a) run \<Rightarrow> bool" where
  "quiet P m \<equiv> wf_bound P 0 (\<lambda>_. True) m"

lemma bind_eq:
  assumes "m s = (es, s1, r)"
  shows "wf_bind m f s = (case r of Inl e \<Rightarrow> (es, s1, Inl e)
      | Inr x \<Rightarrow> (es @ fst (f x s1), fst (snd (f x s1)), snd (snd (f x s1))))"
  using assms by (auto simp: wf_bind_def split: sum.splits prod.splits)

lemma snd_bind: "snd (wf_bind m f s) = (case snd (m s) of
    (s1, Inl e) \<Rightarrow> (s1, Inl e) | (s1, Inr x) \<Rightarrow> snd (f x s1))"
  by (simp add: wf_bind_def split: prod.splits sum.splits)

text \<open>What a successful computation went through.\<close>

lemma wf_bind_Inr:
  assumes "wf_bind m f s = (es, s', Inr y)"
  obtains x es1 s1 es2 where "m s = (es1, s1, Inr x)" "f x s1 = (es2, s', Inr y)" "es = es1 @ es2"
proof -
  obtain es1 s1 r where m: "m s = (es1, s1, r)" by (cases "m s") auto
  with assms obtain x where "r = Inr x" by (cases r) (auto simp: bind_eq)
  with assms m show thesis by (cases "f x s1") (auto simp: bind_eq intro: that)
qed

lemma run_split: "r = (fst r, fst (snd r), snd (snd r))"
  by simp

text \<open>An event that the first part does not cause.\<close>

lemma later_event:
  assumes "wf_bind m f s = (es, s', r)" "e \<in> set es" "e \<notin> set (fst (m s))"
  obtains es1 s1 x es2 where "m s = (es1, s1, Inr x)" "f x s1 = (es2, s', r)" "es = es1 @ es2" "e \<in> set es2"
proof -
  obtain es1 s1 q where m: "m s = (es1, s1, q)" by (cases "m s") auto
  with assms obtain x where "q = Inr x" by (cases q) (auto simp: bind_eq)
  with assms m show thesis by (cases "f x s1") (auto simp: bind_eq intro: that)
qed

lemma bound_bind:
  assumes "wf_bound P n R m" "\<And>x. R x \<Longrightarrow> wf_bound P k Q (f x)" "n + k = j"
  shows "wf_bound P j Q (wf_bind m f)"
  unfolding wf_bound_def
proof
  fix s
  obtain es s1 r where m: "m s = (es, s1, r)" by (cases "m s") auto
  have le: "length (filter P es) \<le> n" and R: "\<And>x. r = Inr x \<Longrightarrow> R x"
    using assms(1) m unfolding wf_bound_def by (metis fst_conv, metis snd_conv)
  show "length (filter P (fst (wf_bind m f s))) \<le> j \<and>
      (\<forall>x. snd (snd (wf_bind m f s)) = Inr x \<longrightarrow> Q x)"
  proof (cases r)
    case (Inl e)
    with m le assms(3) show ?thesis by (simp add: bind_eq)
  next
    case (Inr x)
    then have "length (filter P (fst (f x s1))) \<le> k" "\<forall>y. snd (snd (f x s1)) = Inr y \<longrightarrow> Q y"
      using assms(2) [OF R] unfolding wf_bound_def by auto
    with Inr m le assms(3) show ?thesis by (simp add: bind_eq)
  qed
qed

lemma bound_ret: "Q x \<Longrightarrow> wf_bound P n Q (wf_ret x)"
  by (simp add: wf_bound_def wf_ret_def)

lemma bound_stop: "wf_bound P n Q (wf_stop e)"
  by (simp add: wf_bound_def wf_stop_def)

lemma bound_log: "(P e \<Longrightarrow> 1 \<le> n) \<Longrightarrow> Q () \<Longrightarrow> wf_bound P n Q (wf_log e)"
  by (auto simp: wf_bound_def wf_log_def)

lemma bound_read: "(\<And>s. Q (g s)) \<Longrightarrow> wf_bound P n Q (\<lambda>s. ([], s, Inr (g s)))"
  by (auto simp: wf_bound_def)

lemma bound_weaken: "wf_bound P k R m \<Longrightarrow> k \<le> n \<Longrightarrow> (\<And>x. R x \<Longrightarrow> Q x) \<Longrightarrow> wf_bound P n Q m"
  unfolding wf_bound_def by (meson order_trans)

lemma quiet_bind: "quiet P m \<Longrightarrow> (\<And>x. quiet P (f x)) \<Longrightarrow> quiet P (wf_bind m f)"
  by (rule bound_bind [where n = 0 and k = 0 and R = "\<lambda>_. True"]) auto

lemma quiet_no_event: "quiet P m \<Longrightarrow> e \<in> set (fst (m s)) \<Longrightarrow> \<not> P e"
  by (auto simp: wf_bound_def filter_empty_conv)

lemma bound_if: "\<lbrakk>b \<Longrightarrow> wf_bound P n Q m; \<not> b \<Longrightarrow> wf_bound P n Q m'\<rbrakk> \<Longrightarrow> wf_bound P n Q (if b then m else m')"
  by simp

lemma bound_after:
  assumes "quiet P m" "\<And>x. wf_bound P n Q (f x)"
  shows "wf_bound P n Q (wf_bind m f)"
  using assms(1) by (rule bound_bind) (use assms(2) in auto)

lemma bound_then:
  assumes "wf_bound P n (\<lambda>_. True) m" "\<And>x. quiet P (f x)"
  shows "wf_bound P n (\<lambda>_. True) (wf_bind m f)"
  using assms(1) by (rule bound_bind) (use assms(2) in auto)

lemma bound_from: "(\<And>x. r = Inr x \<Longrightarrow> Q x) \<Longrightarrow> wf_bound P n Q (wf_from r)"
  by (simp add: wf_bound_def wf_from_def)

lemma quiet_catch:
  assumes "quiet P m" "\<And>e. quiet P (h e)"
  shows "quiet P (wf_catch m h)"
  unfolding wf_bound_def
proof
  fix s
  obtain es s1 r where m: "m s = (es, s1, r)" by (cases "m s") auto
  have "filter P es = []" using assms(1) m unfolding wf_bound_def by (metis fst_conv le_zero_eq length_0_conv)
  moreover have "filter P (fst (h e s1)) = []" for e using assms(2) by (simp add: wf_bound_def)
  ultimately show "length (filter P (fst (wf_catch m h s))) \<le> 0 \<and>
      (\<forall>x. snd (snd (wf_catch m h s)) = Inr x \<longrightarrow> True)"
    using m by (cases r) (auto simp: wf_catch_def split: prod.splits, metis fst_conv filter_append append_Nil)
qed

lemma quiet_finally:
  assumes "quiet P m" "quiet P f"
  shows "quiet P (wf_finally m f)"
  unfolding wf_bound_def
proof
  fix s
  obtain es s1 r where m: "m s = (es, s1, r)" by (cases "m s") auto
  obtain es' s2 r' where f: "f s1 = (es', s2, r')" by (cases "f s1") auto
  have "filter P es = []" "filter P es' = []"
    using assms m f unfolding wf_bound_def by (metis fst_conv le_zero_eq length_0_conv)+
  with m f show "length (filter P (fst (wf_finally m f s))) \<le> 0 \<and>
      (\<forall>x. snd (snd (wf_finally m f s)) = Inr x \<longrightarrow> True)"
    by (cases r') (auto simp: wf_finally_def)
qed

section \<open>States before and after\<close>

text \<open>From a state with \<open>P\<close>: \<open>Q\<close> of a result and the state after it, \<open>E\<close> of the state after an error.\<close>

definition wf_triple ::
  "('m \<Rightarrow> bool) \<Rightarrow> ('m, 'e, 'x, 'a) run \<Rightarrow> ('a \<Rightarrow> 'm \<Rightarrow> bool) \<Rightarrow> ('m \<Rightarrow> bool) \<Rightarrow> bool" where
  "wf_triple P m Q E \<longleftrightarrow> (\<forall>s. P s \<longrightarrow>
     (case snd (snd (m s)) of Inl e \<Rightarrow> E (fst (snd (m s))) | Inr x \<Rightarrow> Q x (fst (snd (m s)))))"

lemma triple_bind:
  assumes "wf_triple P m R E" "\<And>x. wf_triple (R x) (f x) Q E"
  shows "wf_triple P (wf_bind m f) Q E"
  unfolding wf_triple_def
proof (intro allI impI)
  fix s assume "P s"
  obtain es s1 r where m: "m s = (es, s1, r)" by (cases "m s") auto
  show "case snd (snd (wf_bind m f s)) of Inl e \<Rightarrow> E (fst (snd (wf_bind m f s)))
      | Inr x \<Rightarrow> Q x (fst (snd (wf_bind m f s)))"
  proof (cases r)
    case (Inl e)
    with assms(1) \<open>P s\<close> m show ?thesis by (auto simp: wf_triple_def bind_eq)
  next
    case (Inr x)
    with assms(1) \<open>P s\<close> m have "R x s1" by (auto simp: wf_triple_def)
    then have "case snd (snd (f x s1)) of Inl e \<Rightarrow> E (fst (snd (f x s1))) | Inr y \<Rightarrow> Q y (fst (snd (f x s1)))"
      using assms(2) by (simp add: wf_triple_def)
    moreover have "snd (wf_bind m f s) = snd (f x s1)" using m Inr by (simp add: wf_bind_def split: prod.splits)
    ultimately show ?thesis by (simp only:)
  qed
qed

lemma triple_ret: "(\<And>s. P s \<Longrightarrow> Q x s) \<Longrightarrow> wf_triple P (wf_ret x) Q E"
  by (simp add: wf_triple_def wf_ret_def)

lemma triple_stop: "(\<And>s. P s \<Longrightarrow> E s) \<Longrightarrow> wf_triple P (wf_stop e) Q E"
  by (simp add: wf_triple_def wf_stop_def)

lemma triple_from: "(\<And>s. P s \<Longrightarrow> E s \<and> (\<forall>x. Q x s)) \<Longrightarrow> wf_triple P (wf_from r) Q E"
  by (auto simp: wf_triple_def wf_from_def split: sum.splits)

lemma triple_log: "(\<And>s. P s \<Longrightarrow> Q () s) \<Longrightarrow> wf_triple P (wf_log e) Q E"
  by (simp add: wf_triple_def wf_log_def)

lemma triple_catch:
  assumes "wf_triple P m Q R" "\<And>e. wf_triple R (h e) Q E"
  shows "wf_triple P (wf_catch m h) Q E"
  unfolding wf_triple_def
proof (intro allI impI)
  fix s assume "P s"
  obtain es s1 r where m: "m s = (es, s1, r)" by (cases "m s") auto
  show "case snd (snd (wf_catch m h s)) of Inl e \<Rightarrow> E (fst (snd (wf_catch m h s)))
      | Inr x \<Rightarrow> Q x (fst (snd (wf_catch m h s)))"
  proof (cases r)
    case (Inr x)
    with assms(1) \<open>P s\<close> m show ?thesis by (auto simp: wf_triple_def wf_catch_def)
  next
    case (Inl e)
    with assms(1) \<open>P s\<close> m have "R s1" by (auto simp: wf_triple_def)
    then have "case snd (snd (h e s1)) of Inl e' \<Rightarrow> E (fst (snd (h e s1))) | Inr y \<Rightarrow> Q y (fst (snd (h e s1)))"
      using assms(2) by (simp add: wf_triple_def)
    moreover have "snd (wf_catch m h s) = snd (h e s1)" using m Inl by (simp add: wf_catch_def split: prod.splits)
    ultimately show ?thesis by (simp only:)
  qed
qed

lemma triple_weaken:
  assumes "wf_triple P' m Q' E'" "\<And>s. P s \<Longrightarrow> P' s" "\<And>x s. Q' x s \<Longrightarrow> Q x s" "\<And>s. E' s \<Longrightarrow> E s"
  shows "wf_triple P m Q E"
  using assms unfolding wf_triple_def by (auto split: sum.splits) blast+

lemma triple_if:
  "\<lbrakk>b \<Longrightarrow> wf_triple P m Q E; \<not> b \<Longrightarrow> wf_triple P m' Q E\<rbrakk> \<Longrightarrow> wf_triple P (if b then m else m') Q E"
  by simp

lemma triple_Inr: "\<lbrakk>wf_triple P m Q E; P s; m s = (es, s', Inr x)\<rbrakk> \<Longrightarrow> Q x s'"
  unfolding wf_triple_def by fastforce

lemma triple_Inl: "\<lbrakk>wf_triple P m Q E; P s; m s = (es, s', Inl e)\<rbrakk> \<Longrightarrow> E s'"
  unfolding wf_triple_def by fastforce

end
