(* ===== verification/Myst_Cli.thy ===== *)
theory Myst_Cli
  imports Complex_Main PyLines PyUrl PyData Workflow
begin

text \<open>
  The identity, registration and funding workflow of the Mysterium client:
  \<open>src/myst/vpn_cli.py\<close>. The container is an argument: a state and what a command answers in
  it. A computation maps the state of the container to the log, the new state and the result.
  Printed lines are left out, except for a payment that is shown and the transfer instructions.
  The regular expressions are written out as scanners of the text; \<open>Decimal\<close> and
  \<open>json.loads\<close> are arguments.
\<close>

section \<open>Computations\<close>

datatype wf_error = Workflow pystr | Out_of_fuel

datatype wf_event =
    Run "pystr list"
  | Pause rat
  | Show_payment pystr pystr pystr
  | Transfer_to pystr

record cmd_result =
  returncode :: int
  cmd_out :: pystr
  cmd_err :: pystr

text \<open>A \<open>Decimal\<close>: finite, or one of the infinities and NaNs.\<close>

datatype decimal = Finite rat | Special

record 'm world =
  execute :: "pystr list \<Rightarrow> 'm \<Rightarrow> cmd_result \<times> 'm"
  clock :: "'m \<Rightarrow> rat"
  sleep :: "rat \<Rightarrow> 'm \<Rightarrow> 'm"
  environ :: "pystr \<rightharpoonup> pystr"
  decimal_of :: "pystr \<Rightarrow> decimal option"
  json_of :: "pystr \<Rightarrow> json option"

type_synonym ('m, 'a) wf = "('m, wf_event, wf_error, 'a) run"

definition wf_raise :: "pystr \<Rightarrow> ('m, 'a) wf" where
  "wf_raise m = wf_stop (Workflow m)"

definition wf_lift :: "pystr + 'a \<Rightarrow> ('m, 'a) wf" where
  "wf_lift r = (case r of Inl m \<Rightarrow> wf_raise m | Inr x \<Rightarrow> wf_ret x)"

section \<open>The container\<close>

record container =
  engine :: pystr
  container_name :: pystr

definition myst_flags :: "pystr list" where
  "myst_flags = [''--config-dir=/var/lib/mysterium-node'', ''--script-dir=/etc/mysterium-node'',
     ''--data-dir=/var/lib/mysterium-node'', ''--runtime-dir=/var/run/mysterium-node'']"

definition command_line :: "container \<Rightarrow> pystr list \<Rightarrow> pystr list" where
  "command_line c args = [engine c, ''exec'', container_name c, ''myst''] @ myst_flags @ args"

definition run_cmd :: "'m world \<Rightarrow> pystr list \<Rightarrow> ('m, cmd_result) wf" where
  "run_cmd w line s = (case execute w line s of (r, s') \<Rightarrow> ([Run line], s', Inr r))"

definition run_myst :: "'m world \<Rightarrow> container \<Rightarrow> pystr list \<Rightarrow> ('m, cmd_result) wf" where
  "run_myst w c args = run_cmd w (command_line c args)"

definition cli :: "'m world \<Rightarrow> container \<Rightarrow> pystr list \<Rightarrow> ('m, cmd_result) wf" where
  "cli w c args = run_myst w c ([''cli'', ''--agreed-terms-and-conditions''] @ args)"

definition is_running :: "'m world \<Rightarrow> container \<Rightarrow> ('m, bool) wf" where
  "is_running w c =
     wf_bind (run_cmd w [engine c, ''inspect'', ''-f'', ''{{.State.Running}}'', container_name c]) (\<lambda>r.
       wf_ret (returncode r = 0 \<and> py_strip (cmd_out r) = ''true''))"

definition combined :: "cmd_result \<Rightarrow> pystr" where
  "combined r = cmd_out r @ cmd_err r"

section \<open>Texts\<close>

text \<open>\<open>ANSI_RE.sub("", value)\<close>: every escape, bracket, digits and semicolons, letter.\<close>

definition ansi_tail :: "pystr \<Rightarrow> pystr option" where
  "ansi_tail s = (case s of
     b # t \<Rightarrow>
       (if b = CHR ''['' then
          (case dropWhile (\<lambda>c. is_digit c \<or> c = CHR '';'') t of
             a # rest \<Rightarrow> (if is_alpha_ascii a then Some rest else None)
           | [] \<Rightarrow> None)
        else None)
   | [] \<Rightarrow> None)"

lemma ansi_tail_shorter: "ansi_tail s = Some t \<Longrightarrow> length t < length s"
proof -
  assume a: "ansi_tail s = Some t"
  then obtain b u where s: "s = b # u" by (cases s) (auto simp: ansi_tail_def)
  obtain x where "dropWhile (\<lambda>c. is_digit c \<or> c = CHR '';'') u = x # t"
    using a s by (auto simp: ansi_tail_def split: if_splits list.splits)
  then have "Suc (length t) \<le> length u" using length_dropWhile_le by (metis length_Cons)
  with s show ?thesis by simp
qed

function clean :: "pystr \<Rightarrow> pystr" where
  "clean [] = []"
| "clean (c # s) =
     (case (if c = CHR 0x1B then ansi_tail s else None) of
        Some t \<Rightarrow> clean t
      | None \<Rightarrow> c # clean s)"
  by pat_completeness auto
termination
  by (relation "measure length") (auto split: if_splits dest: ansi_tail_shorter)

definition safe_detail :: "pystr \<Rightarrow> pystr" where
  "safe_detail s = filter (\<lambda>c. c = CHR 0x0A \<or> c = CHR 0x09 \<or> (0x20 \<le> ord_c c \<and> ord_c c \<noteq> 0x7F)) (clean s)"

text \<open>Whether a text starts with a word, whatever the case, and what follows the word and the
  blanks after it.\<close>

definition after_word :: "pystr \<Rightarrow> pystr \<Rightarrow> pystr option" where
  "after_word w s = (if starts_with (py_lower s) (py_lower w) then Some (drop (length w) s) else None)"

definition after_label :: "pystr \<Rightarrow> pystr \<Rightarrow> pystr option" where
  "after_label w s = map_option (lstrip_by is_space) (after_word w s)"

text \<open>\<open>re.search\<close>: the first place at which a matcher succeeds.\<close>

fun search_first :: "(pystr \<Rightarrow> 'a option) \<Rightarrow> pystr \<Rightarrow> 'a option" where
  "search_first f [] = f []"
| "search_first f (c # s) = (case f (c # s) of Some x \<Rightarrow> Some x | None \<Rightarrow> search_first f s)"

text \<open>\<open>CLI_ERROR_RE.search\<close>: a line that starts with the marker after blanks.\<close>

definition has_error_marker :: "pystr \<Rightarrow> bool" where
  "has_error_marker s \<longleftrightarrow>
     list_ex (\<lambda>l. after_word ''[ERROR]'' (lstrip_by is_space l) \<noteq> None) (split_on (CHR 0x0A) s)"

definition require_success :: "cmd_result \<Rightarrow> pystr \<Rightarrow> pystr + pystr" where
  "require_success r description =
     (if returncode r \<noteq> 0 \<or> has_error_marker (clean (combined r))
      then Inl (description @ '' failed: '' @ py_strip (safe_detail (combined r)))
      else Inr (clean (cmd_out r)))"

definition hex40 :: "pystr \<Rightarrow> bool" where
  "hex40 s \<longleftrightarrow> length s = 40 \<and> list_all is_hex s"

text \<open>\<open>IDENTITY_RE.fullmatch\<close>.\<close>

definition identity_text :: "pystr \<Rightarrow> bool" where
  "identity_text s \<longleftrightarrow> starts_with s ''0x'' \<and> hex40 (drop 2 s)"

text \<open>\<open>IDENTITY_LINE_RE.findall\<close>: a line that consists of an identity, or of the mark and an
  identity, between blanks.\<close>

definition identity_of_line :: "pystr \<Rightarrow> pystr option" where
  "identity_of_line line =
     (let t = py_strip line;
          u = (if starts_with t ''[+]'' then lstrip_by is_space (drop 3 t) else t)
      in if identity_text u then Some u else None)"

definition identity_lines :: "pystr \<Rightarrow> pystr list" where
  "identity_lines s = List.map_filter identity_of_line (split_on (CHR 0x0A) s)"

text \<open>\<open>[0-9]+(?:\.[0-9]+)?\<close> at the start of a text, as a number.\<close>

definition frac_value :: "pystr \<Rightarrow> pystr \<Rightarrow> rat" where
  "frac_value a b = of_nat (dec_nat a) + of_nat (dec_nat b) / 10 ^ length b"

definition leading_number :: "pystr \<Rightarrow> rat option" where
  "leading_number s =
     (let a = takeWhile is_digit s; rest = dropWhile is_digit s
      in if a = [] then None
         else case rest of
           c # t \<Rightarrow> (let b = takeWhile is_digit t
                     in if c = CHR ''.'' \<and> b \<noteq> [] then Some (frac_value a b) else Some (frac_value a []))
         | [] \<Rightarrow> Some (frac_value a []))"

definition find_balance :: "pystr \<Rightarrow> rat option" where
  "find_balance = search_first (\<lambda>s. Option.bind (after_label ''Balance:'' s) leading_number)"

definition leading_word :: "pystr \<Rightarrow> pystr option" where
  "leading_word s = (let w = takeWhile is_alpha_ascii s in if w = [] then None else Some w)"

definition find_status :: "pystr \<Rightarrow> pystr option" where
  "find_status = search_first (\<lambda>s. Option.bind (after_label ''Registration Status:'' s) leading_word)"

definition leading_address :: "pystr \<Rightarrow> pystr option" where
  "leading_address s =
     (if starts_with (py_lower s) ''0x'' \<and> hex40 (take 40 (drop 2 s)) then Some (take 42 s) else None)"

definition find_channel :: "pystr \<Rightarrow> pystr option" where
  "find_channel = search_first (\<lambda>s. Option.bind (after_label ''Channel address:'' s) leading_address)"

section \<open>Identities\<close>

text \<open>A loop that runs at most \<open>attempts\<close> times.\<close>

fun wait_for_tequilapi_n :: "'m world \<Rightarrow> container \<Rightarrow> nat \<Rightarrow> ('m, unit) wf" where
  "wait_for_tequilapi_n w c 0 = wf_raise ''TequilAPI did not become reachable within 120 seconds''"
| "wait_for_tequilapi_n w c (Suc n) =
     wf_bind (run_myst w c [''connection'', ''info'']) (\<lambda>r.
       if returncode r = 0 then wf_ret ()
       else if n = 0 then wait_for_tequilapi_n w c n
       else wf_bind (\<lambda>s. ([Pause 3], sleep w 3 s, Inr ())) (\<lambda>_. wait_for_tequilapi_n w c n))"

definition wait_for_tequilapi :: "'m world \<Rightarrow> container \<Rightarrow> ('m, unit) wf" where
  "wait_for_tequilapi w c = wait_for_tequilapi_n w c 40"

definition checked_cli :: "'m world \<Rightarrow> container \<Rightarrow> pystr list \<Rightarrow> pystr \<Rightarrow> ('m, pystr) wf" where
  "checked_cli w c args description =
     wf_bind (cli w c args) (\<lambda>r. wf_lift (require_success r description))"

fun keep_first :: "pystr list \<Rightarrow> pystr list \<Rightarrow> pystr list" where
  "keep_first seen [] = []"
| "keep_first seen (x # xs) = (if x \<in> set seen then keep_first seen xs else x # keep_first (x # seen) xs)"

definition list_identities :: "'m world \<Rightarrow> container \<Rightarrow> ('m, pystr list) wf" where
  "list_identities w c =
     wf_bind (checked_cli w c [''identities'', ''list''] ''identity listing'') (\<lambda>out.
       wf_ret (keep_first [] (map py_lower (identity_lines out))))"

text \<open>The identities, after the creation of one when there is none.\<close>

definition some_identities :: "'m world \<Rightarrow> container \<Rightarrow> ('m, pystr list) wf" where
  "some_identities w c =
     wf_bind (list_identities w c) (\<lambda>ids.
       if ids \<noteq> [] then wf_ret ids
       else wf_bind (checked_cli w c [''identities'', ''new''] ''identity creation'') (\<lambda>_.
            wf_bind (list_identities w c) (\<lambda>ids'.
              if length ids' \<noteq> 1 then wf_raise ''identity creation postcondition failed''
              else wf_ret ids')))"

definition choose_identity :: "pystr option \<Rightarrow> pystr list \<Rightarrow> pystr + pystr" where
  "choose_identity configured ids = (case configured of
     Some i \<Rightarrow>
       (if \<not> identity_text i \<or> py_lower i \<notin> set ids
        then Inl ''MYST_VPN_IDENTITY does not select an available identity'' else Inr (py_lower i))
   | None \<Rightarrow>
       (case ids of [i] \<Rightarrow> Inr i
        | _ \<Rightarrow> Inl ''multiple Myst identities exist; set MYST_VPN_IDENTITY explicitly before continuing''))"

definition select_identity :: "'m world \<Rightarrow> container \<Rightarrow> pystr option \<Rightarrow> ('m, pystr) wf" where
  "select_identity w c configured =
     wf_bind (some_identities w c) (\<lambda>ids. wf_lift (choose_identity configured ids))"

definition unlock_identity :: "'m world \<Rightarrow> container \<Rightarrow> pystr \<Rightarrow> ('m, unit) wf" where
  "unlock_identity w c i =
     wf_bind (checked_cli w c [''identities'', ''unlock'', i] ''unlocking identity'') (\<lambda>_. wf_ret ())"

record details =
  address :: pystr
  registration :: pystr
  balance :: rat
  channel_address :: "pystr option"

definition read_details :: "pystr \<Rightarrow> pystr \<Rightarrow> pystr + details" where
  "read_details i out = (case (find_status out, find_balance out) of
     (Some st, Some b) \<Rightarrow> Inr \<lparr>address = i, registration = py_lower st, balance = b,
                              channel_address = map_option py_lower (find_channel out)\<rparr>
   | _ \<Rightarrow> Inl ''Myst identity output is missing registration status or balance'')"

definition identity_details :: "'m world \<Rightarrow> container \<Rightarrow> pystr \<Rightarrow> ('m, details) wf" where
  "identity_details w c i =
     wf_bind (checked_cli w c [''identities'', ''get'', i] ''reading identity'') (\<lambda>out.
       wf_lift (read_details i out))"

definition refreshed_identity_details :: "'m world \<Rightarrow> container \<Rightarrow> pystr \<Rightarrow> ('m, details) wf" where
  "refreshed_identity_details w c i =
     wf_bind (checked_cli w c [''identities'', ''balance'', i] ''refreshing balance'') (\<lambda>out.
       if find_balance out = None then wf_raise ''Myst balance refresh output is malformed''
       else identity_details w c i)"

section \<open>Registration\<close>

definition registered :: "pystr \<Rightarrow> bool" where
  "registered st \<longleftrightarrow> st = ''registered'' \<or> st = ''inprogress''"

definition registrable :: "pystr \<Rightarrow> bool" where
  "registrable st \<longleftrightarrow> st = ''unregistered'' \<or> st = ''registrationerror''"

text \<open>The polling loop, with fuel.\<close>

fun await_registration :: "'m world \<Rightarrow> container \<Rightarrow> pystr \<Rightarrow> rat \<Rightarrow> nat \<Rightarrow> ('m, details) wf" where
  "await_registration w c i deadline 0 = wf_stop Out_of_fuel"
| "await_registration w c i deadline (Suc fuel) =
     wf_bind (identity_details w c i) (\<lambda>d.
       if registered (registration d) then wf_ret d
       else if \<not> registrable (registration d) then wf_raise ''registration entered unknown state''
       else wf_bind (\<lambda>s. ([], s, Inr (clock w s))) (\<lambda>now.
              if deadline \<le> now then wf_raise ''registration did not reach registered/inprogress in time''
              else wf_bind (\<lambda>s. ([Pause 5], sleep w 5 s, Inr ())) (\<lambda>_. await_registration w c i deadline fuel)))"

definition ensure_registration :: "'m world \<Rightarrow> container \<Rightarrow> pystr \<Rightarrow> nat \<Rightarrow> ('m, details) wf" where
  "ensure_registration w c i fuel =
     wf_bind (identity_details w c i) (\<lambda>d.
       if registered (registration d) then wf_ret d
       else if \<not> registrable (registration d) then wf_raise ''refusing registration from unknown state''
       else wf_bind (checked_cli w c [''identities'', ''register'', i] ''registration request'') (\<lambda>_.
            wf_bind (\<lambda>s. ([], s, Inr (clock w s + 120))) (\<lambda>deadline.
            await_registration w c i deadline fuel)))"

section \<open>Orders\<close>

record order =
  order_id :: pystr
  order_state :: pystr

definition known_order_states :: "pystr list" where
  "known_order_states = [''initial'', ''new'', ''paid'', ''failed'']"

definition incomplete_order_states :: "pystr list" where
  "incomplete_order_states = [''initial'', ''new'']"

text \<open>\<open>[A-Za-z0-9._:-]{1,n}\<close>.\<close>

definition name_text :: "nat \<Rightarrow> pystr \<Rightarrow> bool" where
  "name_text n s \<longleftrightarrow> s \<noteq> [] \<and> length s \<le> n \<and>
     list_all (\<lambda>c. is_alpha_ascii c \<or> is_digit c \<or> c \<in> set ''._:-'') s"

definition order_id_ok :: "pystr \<Rightarrow> bool" where
  "order_id_ok = name_text 200"

text \<open>\<open>ORDER_RE\<close> at the start of a text: the identifier, the state and what follows.\<close>

definition quote_c :: char where
  "quote_c = CHR 0x27"

definition quoted_field :: "pystr \<Rightarrow> pystr \<Rightarrow> (pystr \<times> pystr) option" where
  "quoted_field prefix s =
     (if starts_with s (prefix @ [quote_c])
      then (let t = drop (length prefix + 1) s;
                a = takeWhile (\<lambda>c. c \<noteq> quote_c) t
            in if a = [] then None
               else case dropWhile (\<lambda>c. c \<noteq> quote_c) t of [] \<Rightarrow> None | _ # rest \<Rightarrow> Some (a, rest))
      else None)"

definition match_order :: "pystr \<Rightarrow> ((pystr \<times> pystr) \<times> pystr) option" where
  "match_order s = (case quoted_field ''Order ID '' s of
     None \<Rightarrow> None
   | Some (a, t) \<Rightarrow> (case quoted_field '' is in state: '' t of
       None \<Rightarrow> None
     | Some (b, u) \<Rightarrow> Some ((a, b), u)))"

lemma quoted_field_shorter: "quoted_field p s = Some (a, t) \<Longrightarrow> length t < length s"
proof -
  assume q: "quoted_field p s = Some (a, t)"
  then obtain c where c: "dropWhile (\<lambda>c. c \<noteq> quote_c) (drop (length p + 1) s) = c # t"
    and st: "starts_with s (p @ [quote_c])"
    by (auto simp: quoted_field_def Let_def split: if_splits list.splits)
  have "length (c # t) \<le> length (drop (length p + 1) s)"
    using c length_dropWhile_le by metis
  moreover have "length (p @ [quote_c]) \<le> length s" using st by (auto simp: starts_with_iff)
  ultimately show ?thesis by simp
qed

lemma match_order_shorter: "match_order s = Some (x, t) \<Longrightarrow> length t < length s"
  by (auto simp: match_order_def split: option.splits dest!: quoted_field_shorter)

function find_orders :: "pystr \<Rightarrow> (pystr \<times> pystr) list" where
  "find_orders [] = []"
| "find_orders (c # s) = (case match_order (c # s) of
     Some (x, t) \<Rightarrow> x # find_orders t
   | None \<Rightarrow> find_orders s)"
  by pat_completeness auto
termination
  by (relation "measure length") (auto dest: match_order_shorter)

definition parse_orders :: "pystr \<Rightarrow> pystr + order list" where
  "parse_orders out =
     (let cleaned = clean out;
          orders = map (\<lambda>(i, st). \<lparr>order_id = i, order_state = py_lower st\<rparr>) (find_orders cleaned)
      in if orders = []
         then (if contains (py_lower cleaned) ''no orders found'' then Inr []
               else Inl ''Myst order listing output is unrecognized'')
         else if list_ex (\<lambda>x. \<not> order_id_ok (order_id x)) orders
         then Inl ''Myst order listing contains an unsafe or malformed order ID''
         else if list_ex (\<lambda>x. order_state x \<notin> set known_order_states) orders
         then Inl ''Myst returned unknown order state(s)''
         else if \<not> distinct (map order_id orders)
         then Inl ''Myst order listing contains duplicate order IDs''
         else Inr orders)"

definition list_orders :: "'m world \<Rightarrow> container \<Rightarrow> pystr \<Rightarrow> ('m, order list) wf" where
  "list_orders w c i =
     wf_bind (checked_cli w c [''orders'', ''get-all'', i] ''listing orders'') (\<lambda>out. wf_lift (parse_orders out))"

definition order_detail :: "'m world \<Rightarrow> container \<Rightarrow> pystr \<Rightarrow> pystr \<Rightarrow> ('m, order \<times> pystr) wf" where
  "order_detail w c i oid =
     wf_bind (checked_cli w c [''orders'', ''get'', i, oid] ''reading order'') (\<lambda>out.
     wf_bind (wf_lift (parse_orders out)) (\<lambda>parsed. case parsed of
        [x] \<Rightarrow> (if order_id x \<noteq> oid then wf_raise ''order detail postcondition failed'' else wf_ret (x, out))
      | _ \<Rightarrow> wf_raise ''order detail postcondition failed''))"

section \<open>Payment\<close>

definition payment_url_keys :: "pystr list" where
  "payment_url_keys = [''payment_url'', ''pay_url'', ''payment_link'', ''redirect_url'', ''checkout_url'', ''url'']"

fun known_url_values :: "json \<Rightarrow> pystr list" where
  "known_url_values (JObj members) = concat (map (\<lambda>(k, v).
     (case v of
        JStr u \<Rightarrow> (if py_lower k \<in> set payment_url_keys then [u] else [])
      | _ \<Rightarrow> known_url_values v)) members)"
| "known_url_values (JList items) = concat (map known_url_values items)"
| "known_url_values _ = []"

text \<open>\<open>line.rsplit(sep, 1)[1]\<close>: what follows the last occurrence.\<close>

fun after_last :: "pystr \<Rightarrow> pystr \<Rightarrow> pystr option" where
  "after_last sep [] = (if sep = [] then Some [] else None)"
| "after_last sep (c # s) = (case after_last sep s of
     Some t \<Rightarrow> Some t
   | None \<Rightarrow> (if starts_with (c # s) sep then Some (drop (length sep) (c # s)) else None))"

definition control_c :: "char \<Rightarrow> bool" where
  "control_c c \<longleftrightarrow> ord_c c < 0x20 \<or> ord_c c = 0x7F"

definition check_payment_url :: "pystr \<Rightarrow> pystr + pystr" where
  "check_payment_url u =
     (if list_ex control_c u then Inl ''payment URL contains control characters''
      else case urlsplit u of
        Inl _ \<Rightarrow> Inl ''payment URL is malformed''
      | Inr p \<Rightarrow>
          (if u_scheme p \<noteq> ''https'' \<or> hostname p = [] \<or> username p \<noteq> None \<or> password p \<noteq> None
           then Inl ''payment URL must be credential-free HTTPS with a hostname'' else Inr u))"

definition extract_payment_url :: "'m world \<Rightarrow> pystr \<Rightarrow> pystr + pystr" where
  "extract_payment_url w out =
     (case map py_strip (List.map_filter (after_last ''Data:'') (splitlines (clean out))) of
        [line] \<Rightarrow> (case json_of w line of
            None \<Rightarrow> Inl ''order Data value is not valid JSON''
          | Some payload \<Rightarrow> (case remdups (known_url_values payload) of
                [u] \<Rightarrow> check_payment_url u
              | _ \<Rightarrow> Inl ''order Data must contain exactly one recognized payment URL''))
      | _ \<Rightarrow> Inl ''order detail must contain exactly one Data JSON value'')"

definition print_payment :: "'m world \<Rightarrow> order \<Rightarrow> pystr \<Rightarrow> ('m, unit) wf" where
  "print_payment w x out =
     (if order_state x \<notin> set incomplete_order_states then wf_raise ''refusing to display a payment URL''
      else wf_bind (wf_lift (extract_payment_url w out)) (\<lambda>u.
             wf_log (Show_payment (order_id x) (order_state x) u)))"

section \<open>Gateways and the order configuration\<close>

record gateway =
  gw_minimum :: rat
  gw_currencies :: "pystr list"

definition leading_token :: "pystr \<Rightarrow> pystr option" where
  "leading_token s = (let t = takeWhile (\<lambda>c. \<not> is_space c) s in if t = [] then None else Some t)"

text \<open>\<open>\s*(.+)$\<close>: when only blanks are left the group is the last of them.\<close>

definition rest_of_line :: "pystr \<Rightarrow> pystr option" where
  "rest_of_line s =
     (if lstrip_by is_space s \<noteq> [] then Some (lstrip_by is_space s)
      else if s \<noteq> [] then Some [last s] else None)"

definition currency_text :: "pystr \<Rightarrow> bool" where
  "currency_text s \<longleftrightarrow> s \<noteq> [] \<and> length s \<le> 20 \<and>
     list_all (\<lambda>c. is_upper_ascii c \<or> is_digit c \<or> c \<in> set ''._-'') s"

record gateway_scan =
  current_name :: "pystr option"
  current_minimum :: "decimal option"
  gateways :: "(pystr \<times> gateway) list"

definition add_gateway :: "pystr \<Rightarrow> decimal \<Rightarrow> pystr \<Rightarrow> gateway_scan \<Rightarrow> pystr + gateway_scan" where
  "add_gateway name minimum grp st =
     (let currencies = map (\<lambda>i. py_upper (py_strip i))
                         (filter (\<lambda>i. py_strip i \<noteq> []) (split_on (CHR '','') grp))
      in if currencies = [] then Inl ''gateway has no currencies''
         else case minimum of
           Special \<Rightarrow> Inl ''gateway has malformed metadata''
         | Finite q \<Rightarrow>
             (if \<not> name_text 100 name \<or> q < 0 \<or> \<not> list_all currency_text currencies
              then Inl ''gateway has malformed metadata''
              else if name \<in> set (map fst (gateways st)) then Inl ''gateway listing contains duplicate''
              else Inr \<lparr>current_name = None, current_minimum = None,
                        gateways = gateways st @ [(name, \<lparr>gw_minimum = q, gw_currencies = currencies\<rparr>)]\<rparr>))"

definition gateway_line :: "'m world \<Rightarrow> gateway_scan \<Rightarrow> pystr \<Rightarrow> pystr + gateway_scan" where
  "gateway_line w st line =
     (case search_first (\<lambda>s. Option.bind (after_label ''Gateway:'' s) leading_token) line of
        Some name \<Rightarrow> Inr (st\<lparr>current_name := Some name, current_minimum := None\<rparr>)
      | None \<Rightarrow>
          (case (search_first (\<lambda>s. Option.bind (after_label ''Suggested minimum order:'' s) leading_token) line,
                 current_name st) of
             (Some m, Some _) \<Rightarrow> (case decimal_of w m of
                 None \<Rightarrow> Inl ''gateway minimum is malformed''
               | Some d \<Rightarrow> Inr (st\<lparr>current_minimum := Some d\<rparr>))
           | _ \<Rightarrow>
               (case (search_first (\<lambda>s. Option.bind (after_word ''Supported currencies:'' s) rest_of_line) line,
                      current_name st, current_minimum st) of
                  (Some grp, Some name, Some minimum) \<Rightarrow> add_gateway name minimum grp st
                | _ \<Rightarrow> Inr st)))"

fun gateway_lines :: "'m world \<Rightarrow> gateway_scan \<Rightarrow> pystr list \<Rightarrow> pystr + gateway_scan" where
  "gateway_lines w st [] = Inr st"
| "gateway_lines w st (l # ls) = rbind (gateway_line w st l) (\<lambda>st'. gateway_lines w st' ls)"

definition parse_gateways :: "'m world \<Rightarrow> pystr \<Rightarrow> pystr + (pystr \<times> gateway) list" where
  "parse_gateways w out =
     rbind (gateway_lines w \<lparr>current_name = None, current_minimum = None, gateways = []\<rparr> (splitlines (clean out)))
       (\<lambda>st. if gateways st = [] then Inl ''Myst gateway listing output is unrecognized'' else Inr (gateways st))"

record order_config =
  oc_amount :: pystr
  oc_currency :: pystr
  oc_gateway :: pystr
  oc_country :: pystr
  oc_data :: pystr

definition env_text :: "'m world \<Rightarrow> pystr \<Rightarrow> pystr" where
  "env_text w n = (case environ w n of None \<Rightarrow> [] | Some v \<Rightarrow> v)"

definition gateway_data_key :: "pystr \<Rightarrow> bool" where
  "gateway_data_key k \<longleftrightarrow> k \<noteq> [] \<and> length k \<le> 64 \<and> is_alpha_ascii (hd k) \<and>
     list_all (\<lambda>c. is_alpha_ascii c \<or> is_digit c \<or> c \<in> set ''_-'') k"

definition gateway_data_item :: "pystr \<Rightarrow> bool" where
  "gateway_data_item item \<longleftrightarrow> count_list item (CHR ''='') = 1 \<and>
     (case partition_c (CHR ''='') item of (k, _, v) \<Rightarrow> gateway_data_key k \<and> v \<noteq> [] \<and> \<not> list_ex control_c v)"

text \<open>The part before the gateways are listed, with the amount.\<close>

definition check_order_text :: "'m world \<Rightarrow> pystr + order_config \<times> rat" where
  "check_order_text w =
     (let cfg = \<lparr>oc_amount = env_text w ''MYST_VPN_ORDER_AMOUNT'',
                 oc_currency = py_upper (env_text w ''MYST_VPN_ORDER_CURRENCY''),
                 oc_gateway = env_text w ''MYST_VPN_ORDER_GATEWAY'',
                 oc_country = py_upper (env_text w ''MYST_VPN_ORDER_COUNTRY''),
                 oc_data = env_text w ''MYST_VPN_ORDER_GATEWAY_DATA''\<rparr>
      in if oc_amount cfg = [] \<or> oc_currency cfg = [] \<or> oc_gateway cfg = [] \<or> oc_country cfg = [] \<or> oc_data cfg = []
         then Inl ''missing required order configuration''
         else case decimal_of w (oc_amount cfg) of
           None \<Rightarrow> Inl ''MYST_VPN_ORDER_AMOUNT must be a finite decimal''
         | Some Special \<Rightarrow> Inl ''MYST_VPN_ORDER_AMOUNT must be a positive finite decimal''
         | Some (Finite q) \<Rightarrow>
             (if q \<le> 0 then Inl ''MYST_VPN_ORDER_AMOUNT must be a positive finite decimal''
              else if length (oc_country cfg) \<noteq> 2 \<or> \<not> list_all is_upper_ascii (oc_country cfg)
              then Inl ''MYST_VPN_ORDER_COUNTRY must be a two-letter country code''
              else if \<not> currency_text (oc_currency cfg) then Inl ''MYST_VPN_ORDER_CURRENCY is malformed''
              else if \<not> name_text 100 (oc_gateway cfg) then Inl ''MYST_VPN_ORDER_GATEWAY is malformed''
              else if \<not> list_all gateway_data_item (split_on (CHR '','') (oc_data cfg))
              then Inl ''MYST_VPN_ORDER_GATEWAY_DATA must contain valid key=value pairs''
              else Inr (cfg, q)))"

definition check_gateway :: "order_config \<Rightarrow> rat \<Rightarrow> (pystr \<times> gateway) list \<Rightarrow> pystr + order_config" where
  "check_gateway cfg amount gws = (case map_of gws (oc_gateway cfg) of
     None \<Rightarrow> Inl ''configured gateway is not currently available''
   | Some g \<Rightarrow>
       (if oc_currency cfg \<notin> set (gw_currencies g) then Inl ''currency is not supported by gateway''
        else if amount \<le> gw_minimum g
        then Inl ''order amount must be greater than the current gateway minimum''
        else Inr cfg))"

definition validate_order_configuration :: "'m world \<Rightarrow> container \<Rightarrow> ('m, order_config) wf" where
  "validate_order_configuration w c =
     wf_bind (wf_lift (check_order_text w)) (\<lambda>(cfg, amount).
     wf_bind (checked_cli w c [''orders'', ''gateways''] ''gateway listing'') (\<lambda>out.
     wf_lift (rbind (parse_gateways w out) (check_gateway cfg amount))))"

section \<open>The commands\<close>

definition create_args :: "pystr \<Rightarrow> order_config \<Rightarrow> pystr list" where
  "create_args i cfg = [''orders'', ''create'', i, oc_amount cfg, oc_currency cfg, oc_gateway cfg,
     oc_country cfg, oc_data cfg]"

text \<open>What the listing after a creation must show: one order more, the one that was reported.\<close>

definition created_order :: "order list \<Rightarrow> pystr list \<Rightarrow> order list \<Rightarrow> order option" where
  "created_order before reported after =
     (case filter (\<lambda>x. order_id x \<notin> set (map order_id before)) after of
        [x] \<Rightarrow> (if reported \<noteq> [] \<and> keep_first [] reported \<noteq> [order_id x] then None else Some x)
      | _ \<Rightarrow> None)"

definition create_order :: "'m world \<Rightarrow> container \<Rightarrow> pystr \<Rightarrow> order list \<Rightarrow> ('m, unit) wf" where
  "create_order w c i before =
     wf_bind (validate_order_configuration w c) (\<lambda>cfg.
     wf_bind (cli w c (create_args i cfg)) (\<lambda>created.
       let ids = map fst (find_orders (clean (combined created)))
       in if list_ex (\<lambda>x. \<not> order_id_ok x) ids
          then wf_raise ''order creation returned an unsafe or malformed order ID''
          else wf_bind (list_orders w c i) (\<lambda>after.
               case created_order before ids after of
                 None \<Rightarrow> wf_raise ''order creation postcondition is ambiguous; no retry was attempted''
               | Some x \<Rightarrow> wf_bind (order_detail w c i (order_id x)) (\<lambda>(y, out). print_payment w y out))))"

definition prepare_identity :: "'m world \<Rightarrow> container \<Rightarrow> ('m, pystr \<times> details) wf" where
  "prepare_identity w c =
     (let configured = (if env_text w ''MYST_VPN_IDENTITY'' = [] then None else Some (env_text w ''MYST_VPN_IDENTITY''))
      in wf_bind (select_identity w c configured) (\<lambda>i.
         wf_bind (unlock_identity w c i) (\<lambda>_.
         wf_bind (refreshed_identity_details w c i) (\<lambda>d. wf_ret (i, d)))))"

definition incomplete :: "order \<Rightarrow> bool" where
  "incomplete x \<longleftrightarrow> order_state x \<in> set incomplete_order_states"

text \<open>What is done about the orders of an unfunded, registered identity.\<close>

definition handle_orders :: "'m world \<Rightarrow> container \<Rightarrow> pystr \<Rightarrow> details \<Rightarrow> order list \<Rightarrow> ('m, unit) wf" where
  "handle_orders w c i d orders = (case filter incomplete orders of
     x # _ \<Rightarrow> wf_bind (order_detail w c i (order_id x)) (\<lambda>(y, out). print_payment w y out)
   | [] \<Rightarrow>
       (if list_ex (\<lambda>x. order_state x = ''paid'') orders \<and> balance d = 0
        then wf_raise ''a paid order exists but refreshed balance is still zero''
        else create_order w c i orders))"

definition cmd_signup :: "'m world \<Rightarrow> container \<Rightarrow> nat \<Rightarrow> ('m, unit) wf" where
  "cmd_signup w c fuel =
     wf_bind (wait_for_tequilapi w c) (\<lambda>_.
     wf_bind (prepare_identity w c) (\<lambda>(i, d).
       if 0 < balance d then wf_ret ()
       else wf_bind (ensure_registration w c i fuel) (\<lambda>_.
            wf_bind (refreshed_identity_details w c i) (\<lambda>d'.
            wf_bind (list_orders w c i) (\<lambda>orders. handle_orders w c i d' orders)))))"

fun show_incomplete :: "'m world \<Rightarrow> container \<Rightarrow> pystr \<Rightarrow> order list \<Rightarrow> ('m, unit) wf" where
  "show_incomplete w c i [] = wf_ret ()"
| "show_incomplete w c i (x # xs) =
     wf_bind (if incomplete x
              then wf_bind (order_detail w c i (order_id x)) (\<lambda>(y, out). print_payment w y out)
              else wf_ret ()) (\<lambda>_. show_incomplete w c i xs)"

definition cmd_orderstatus :: "'m world \<Rightarrow> container \<Rightarrow> ('m, unit) wf" where
  "cmd_orderstatus w c =
     wf_bind (wait_for_tequilapi w c) (\<lambda>_.
     wf_bind (prepare_identity w c) (\<lambda>(i, d).
     wf_bind (list_orders w c i) (\<lambda>orders. show_incomplete w c i orders)))"

definition cmd_balance :: "'m world \<Rightarrow> container \<Rightarrow> ('m, unit) wf" where
  "cmd_balance w c = wf_bind (wait_for_tequilapi w c) (\<lambda>_. wf_bind (prepare_identity w c) (\<lambda>_. wf_ret ()))"

text \<open>The end of the command \<open>blockchain\<close>.\<close>

definition show_transfer :: "'m world \<Rightarrow> container \<Rightarrow> pystr \<Rightarrow> ('m, unit) wf" where
  "show_transfer w c i =
     wf_bind (identity_details w c i) (\<lambda>d. case channel_address d of
       None \<Rightarrow> wf_raise ''Myst did not provide a distinct channel address''
     | Some a \<Rightarrow> (if a = i then wf_raise ''Myst did not provide a distinct channel address''
                 else wf_log (Transfer_to a)))"

definition cmd_blockchain :: "'m world \<Rightarrow> container \<Rightarrow> nat \<Rightarrow> ('m, unit) wf" where
  "cmd_blockchain w c fuel =
     wf_bind (wait_for_tequilapi w c) (\<lambda>_.
     wf_bind (prepare_identity w c) (\<lambda>(i, d).
       if 0 < balance d then wf_ret ()
       else wf_bind (ensure_registration w c i fuel) (\<lambda>_. show_transfer w c i)))"

definition command :: "'m world \<Rightarrow> container \<Rightarrow> nat \<Rightarrow> pystr \<Rightarrow> ('m, unit) wf" where
  "command w c fuel a =
     (if a = ''signup'' then cmd_signup w c fuel
      else if a = ''orderstatus'' then cmd_orderstatus w c
      else if a = ''balance'' then cmd_balance w c
      else cmd_blockchain w c fuel)"

definition command_names :: "pystr list" where
  "command_names = [''signup'', ''orderstatus'', ''balance'', ''blockchain'']"

definition myst_of :: "'m world \<Rightarrow> container" where
  "myst_of w = \<lparr>engine = (case environ w ''CONTAINER_BIN'' of None \<Rightarrow> ''docker'' | Some e \<Rightarrow> e),
     container_name = (case environ w ''CONTAINER_NAME'' of None \<Rightarrow> ''myst-client-vpn'' | Some n \<Rightarrow> n)\<rparr>"

definition main :: "'m world \<Rightarrow> nat \<Rightarrow> pystr list \<Rightarrow> 'm \<Rightarrow> wf_event list \<times> nat" where
  "main w fuel args s = (case args of
     [a] \<Rightarrow>
       (if a \<notin> set command_names then ([], 2)
        else (case is_running w (myst_of w) s of
          (es, s', Inr True) \<Rightarrow>
            (case command w (myst_of w) fuel a s' of
               (es', _, Inr _) \<Rightarrow> (es @ es', 0)
             | (es', _, Inl _) \<Rightarrow> (es @ es', 1))
        | (es, _, _) \<Rightarrow> (es, 1)))
   | _ \<Rightarrow> ([], 2))"

section \<open>Reasoning about the steps\<close>

lemma bound_raise: "wf_bound P n Q (wf_raise m)"
  by (simp add: wf_raise_def bound_stop)

lemma bound_lift: "(\<And>x. r = Inr x \<Longrightarrow> Q x) \<Longrightarrow> wf_bound P n Q (wf_lift r)"
  by (auto simp: wf_lift_def intro!: bound_ret bound_raise split: sum.splits)

lemma bound_run: "(P (Run l) \<Longrightarrow> 1 \<le> n) \<Longrightarrow> (\<And>r. Q r) \<Longrightarrow> wf_bound P n Q (run_cmd w l)"
  by (auto simp: wf_bound_def run_cmd_def split: prod.splits)

lemma bound_pause: "(P (Pause t) \<Longrightarrow> 1 \<le> n) \<Longrightarrow> Q () \<Longrightarrow> wf_bound P n Q (\<lambda>s. ([Pause t], g s, Inr ()))"
  by (auto simp: wf_bound_def)

lemmas quiet_steps = quiet_bind bound_ret bound_raise bound_stop bound_lift bound_log bound_run
  bound_pause bound_read

section \<open>Which commands a step may run\<close>

text \<open>The words of a command after the fixed ones.\<close>

definition cli_words :: "wf_event \<Rightarrow> pystr list" where
  "cli_words e = (case e of Run l \<Rightarrow> drop 10 l | _ \<Rightarrow> [])"

definition creation :: "wf_event \<Rightarrow> bool" where
  "creation e \<longleftrightarrow> take 2 (cli_words e) = [''orders'', ''create'']"

definition registering :: "wf_event \<Rightarrow> bool" where
  "registering e \<longleftrightarrow> take 2 (cli_words e) = [''identities'', ''register'']"

lemma words_simps [simp]:
  "cli_words (Run (command_line c (a # b # args))) = args"
  "cli_words (Pause t) = []" "cli_words (Show_payment i st u) = []" "cli_words (Transfer_to a) = []"
  by (simp_all add: cli_words_def command_line_def myst_flags_def)

text \<open>What is neither is any command but these two.\<close>

lemma quiet_cli:
  "\<lbrakk>P (Run (command_line c (''cli'' # ''--agreed-terms-and-conditions'' # args))) \<Longrightarrow> False\<rbrakk>
    \<Longrightarrow> quiet P (cli w c args)"
  unfolding cli_def run_myst_def by (rule bound_run) auto

lemma quiet_checked:
  "\<lbrakk>P (Run (command_line c (''cli'' # ''--agreed-terms-and-conditions'' # args))) \<Longrightarrow> False\<rbrakk>
    \<Longrightarrow> quiet P (checked_cli w c args description)"
  unfolding checked_cli_def by (intro quiet_steps quiet_cli) auto

text \<open>An event of no concern to a step: a command that is neither, a pause, or a transfer.\<close>

definition ignores :: "(wf_event \<Rightarrow> bool) \<Rightarrow> bool" where
  "ignores P \<longleftrightarrow> (\<forall>l. P (Run l) \<longrightarrow> creation (Run l) \<or> registering (Run l)) \<and> (\<forall>t. \<not> P (Pause t))"

lemma ignores_command:
  "\<lbrakk>ignores P; take 2 args \<noteq> [''orders'', ''create'']; take 2 args \<noteq> [''identities'', ''register'']\<rbrakk>
    \<Longrightarrow> quiet P (cli w c args)"
  by (rule quiet_cli) (auto simp: ignores_def creation_def registering_def)

lemma ignores_checked:
  "\<lbrakk>ignores P; take 2 args \<noteq> [''orders'', ''create'']; take 2 args \<noteq> [''identities'', ''register'']\<rbrakk>
    \<Longrightarrow> quiet P (checked_cli w c args d)"
  unfolding checked_cli_def by (intro quiet_steps ignores_command) auto

lemma quiet_wait: "ignores P \<Longrightarrow> quiet P (wait_for_tequilapi_n w c n)"
proof (induction n)
  case 0
  show ?case by (simp add: bound_raise)
next
  case (Suc n)
  have "quiet P (run_myst w c [''connection'', ''info''])"
    unfolding run_myst_def
    by (rule bound_run) (use Suc.prems in \<open>auto simp: ignores_def creation_def registering_def\<close>)
  moreover have "quiet P (wf_bind (\<lambda>s. ([Pause 3], sleep w 3 s, Inr ())) (\<lambda>_. wait_for_tequilapi_n w c n))"
    using Suc by (intro quiet_bind bound_pause) (auto simp: ignores_def)
  ultimately show ?case using Suc
    by (auto intro!: quiet_bind bound_ret simp del: wait_for_tequilapi_n.simps(1))
qed

lemma quiet_list_identities: "ignores P \<Longrightarrow> quiet P (list_identities w c)"
  unfolding list_identities_def by (intro quiet_steps ignores_checked) auto

lemma quiet_select: "ignores P \<Longrightarrow> quiet P (select_identity w c configured)"
  unfolding select_identity_def some_identities_def
  by (auto intro!: quiet_steps ignores_checked quiet_list_identities)

lemma quiet_details: "ignores P \<Longrightarrow> quiet P (identity_details w c i)"
  unfolding identity_details_def by (intro quiet_steps ignores_checked) auto

lemma quiet_refreshed: "ignores P \<Longrightarrow> quiet P (refreshed_identity_details w c i)"
  unfolding refreshed_identity_details_def by (auto intro!: quiet_steps ignores_checked quiet_details)

lemma quiet_prepare: "ignores P \<Longrightarrow> quiet P (prepare_identity w c)"
  unfolding prepare_identity_def unlock_identity_def Let_def
  by (auto intro!: quiet_steps ignores_checked quiet_select quiet_refreshed)

lemma quiet_orders: "ignores P \<Longrightarrow> quiet P (list_orders w c i)"
  unfolding list_orders_def by (intro quiet_steps ignores_checked) auto

lemma quiet_order_detail: "ignores P \<Longrightarrow> quiet P (order_detail w c i n)"
  unfolding order_detail_def by (auto intro!: quiet_steps ignores_checked split: list.splits)

lemma quiet_configuration: "ignores P \<Longrightarrow> quiet P (validate_order_configuration w c)"
  unfolding validate_order_configuration_def by (auto intro!: quiet_steps ignores_checked split: prod.splits)

lemma quiet_await: "ignores P \<Longrightarrow> quiet P (await_registration w c i deadline fuel)"
proof (induction fuel)
  case 0
  show ?case by (simp add: bound_stop)
next
  case (Suc fuel)
  have "quiet P (wf_bind (\<lambda>s. ([Pause 5], sleep w 5 s, Inr ())) (\<lambda>_. await_registration w c i deadline fuel))"
    using Suc by (intro quiet_bind bound_pause) (auto simp: ignores_def)
  with Suc.prems show ?case by (auto intro!: quiet_steps quiet_details)
qed

lemmas quiet_parts = quiet_wait quiet_prepare quiet_refreshed quiet_details quiet_orders
  quiet_order_detail quiet_configuration quiet_await ignores_checked ignores_command

lemma ignores_creation: "ignores creation"
  and ignores_registering: "ignores registering"
  by (auto simp: ignores_def creation_def registering_def)

section \<open>The commands and their events\<close>

text \<open>A kind of event that a payment shown and a transfer may be.\<close>

lemma quiet_print:
  "\<lbrakk>\<And>i st u. st \<in> set incomplete_order_states \<Longrightarrow> extract_payment_url w out = Inr u \<Longrightarrow>
      \<not> P (Show_payment i st u)\<rbrakk>
    \<Longrightarrow> quiet P (print_payment w x out)"
  by (auto simp: print_payment_def wf_bound_def wf_raise_def wf_stop_def wf_lift_def wf_bind_def wf_ret_def
        wf_log_def split: sum.splits)

definition no_payment :: "'m world \<Rightarrow> (wf_event \<Rightarrow> bool) \<Rightarrow> bool" where
  "no_payment w P \<longleftrightarrow> (\<forall>out i st u. st \<in> set incomplete_order_states \<longrightarrow> extract_payment_url w out = Inr u \<longrightarrow>
     \<not> P (Show_payment i st u))"

lemma quiet_detail_print:
  assumes "ignores P" "no_payment w P"
  shows "quiet P (wf_bind (order_detail w c i n) (\<lambda>(y, out). print_payment w y out))"
proof (intro quiet_bind quiet_order_detail assms(1))
  fix x :: "order \<times> pystr"
  show "quiet P (case x of (y, out) \<Rightarrow> print_payment w y out)"
    using assms(2) by (cases x) (simp add: quiet_print no_payment_def)
qed

lemma quiet_show_incomplete: "ignores P \<Longrightarrow> no_payment w P \<Longrightarrow> quiet P (show_incomplete w c i xs)"
  by (induction xs) (auto intro!: quiet_bind bound_ret quiet_detail_print)

lemma quiet_orderstatus: "ignores P \<Longrightarrow> no_payment w P \<Longrightarrow> quiet P (cmd_orderstatus w c)"
  unfolding cmd_orderstatus_def wait_for_tequilapi_def
  by (auto intro!: quiet_bind quiet_parts quiet_show_incomplete)

lemma quiet_balance: "ignores P \<Longrightarrow> quiet P (cmd_balance w c)"
  unfolding cmd_balance_def wait_for_tequilapi_def by (auto intro!: quiet_bind quiet_parts bound_ret)

lemma bound_cli:
  assumes "P (Run (command_line c (''cli'' # ''--agreed-terms-and-conditions'' # args))) \<Longrightarrow> 1 \<le> n"
  shows "wf_bound P n (\<lambda>_. True) (cli w c args)"
  unfolding cli_def run_myst_def by (rule bound_run) (use assms in auto)

lemma bound_registration:
  assumes "ignores P" "\<And>e. P e \<Longrightarrow> registering e \<Longrightarrow> 1 \<le> n"
  shows "wf_bound P n (\<lambda>_. True) (ensure_registration w c i fuel)"
proof -
  have reg: "registering (Run (command_line c [''cli'', ''--agreed-terms-and-conditions'', ''identities'', ''register'', i]))"
    by (simp add: registering_def)
  have q: "wf_bound P n (\<lambda>_. True) (checked_cli w c [''identities'', ''register'', i] d)" for d
    unfolding checked_cli_def
    by (intro bound_then bound_cli bound_lift) (use assms(2) [OF _ reg] in auto)
  have r: "wf_bound P n (\<lambda>_. True) (wf_bind (checked_cli w c [''identities'', ''register'', i] d)
      (\<lambda>_. wf_bind (\<lambda>s. ([], s, Inr (clock w s + 120))) (\<lambda>t. await_registration w c i t fuel)))" for d
    by (intro bound_then q quiet_bind bound_read quiet_await assms(1)) simp
  show ?thesis
    unfolding ensure_registration_def
    by (intro bound_after quiet_details assms(1) bound_if bound_ret bound_raise r) simp
qed

lemma quiet_transfer:
  assumes "ignores P" "\<And>a. \<not> P (Transfer_to a)"
  shows "quiet P (show_transfer w c i)"
  unfolding show_transfer_def using assms by (intro quiet_bind quiet_details) (auto intro!: bound_raise bound_log split: option.splits)

lemma bound_blockchain:
  assumes "ignores P" "\<And>e. P e \<Longrightarrow> registering e \<Longrightarrow> 1 \<le> n" "\<And>a. \<not> P (Transfer_to a)"
  shows "wf_bound P n (\<lambda>_. True) (cmd_blockchain w c fuel)"
  unfolding cmd_blockchain_def wait_for_tequilapi_def case_prod_beta
  by (intro bound_after bound_then quiet_parts bound_if bound_ret bound_registration quiet_transfer)
    (use assms in auto)

text \<open>What \<open>signup\<close> may do.\<close>

lemma check_order_text_positive: "check_order_text w = Inr (cfg, q) \<Longrightarrow> 0 < q"
  by (auto simp: check_order_text_def Let_def split: if_splits option.splits decimal.splits)

definition admissible :: "'m world \<Rightarrow> order_config \<Rightarrow> bool" where
  "admissible w cfg \<longleftrightarrow> (\<exists>q out gws g. check_order_text w = Inr (cfg, q) \<and> parse_gateways w out = Inr gws \<and>
     map_of gws (oc_gateway cfg) = Some g \<and> oc_currency cfg \<in> set (gw_currencies g) \<and> gw_minimum g < q)"

lemma configuration_admissible:
  assumes "ignores P"
  shows "wf_bound P 0 (admissible w) (validate_order_configuration w c)"
proof -
  have l: "wf_bound P 0 (\<lambda>x. check_order_text w = Inr x) (wf_lift (check_order_text w))"
    by (rule bound_lift)
  have g: "wf_bound P 0 (admissible w) (wf_lift (rbind (parse_gateways w out) (check_gateway cfg q)))"
    if "check_order_text w = Inr (cfg, q)" for out cfg q
    using that by (intro bound_lift)
      (auto simp: admissible_def check_gateway_def rbind_def split: sum.splits option.splits if_splits; fastforce)
  show ?thesis
    unfolding validate_order_configuration_def
  proof (rule bound_bind [OF l, where k = 0])
    fix x :: "order_config \<times> rat" assume x: "check_order_text w = Inr x"
    obtain cfg q where [simp]: "x = (cfg, q)" by (cases x)
    show "wf_bound P 0 (admissible w) (case x of (cfg, amount) \<Rightarrow>
        wf_bind (checked_cli w c [''orders'', ''gateways''] ''gateway listing'') (\<lambda>out.
          wf_lift (rbind (parse_gateways w out) (check_gateway cfg amount))))"
      unfolding \<open>x = (cfg, q)\<close> case_prod_conv
      by (rule bound_bind [where R = "\<lambda>_. True", OF _ g]) (use assms x in \<open>auto intro: ignores_checked\<close>)
  qed simp
qed


abbreviation cli_run :: "container \<Rightarrow> pystr list \<Rightarrow> wf_event" where
  "cli_run c args \<equiv> Run (command_line c (''cli'' # ''--agreed-terms-and-conditions'' # args))"

lemma bound_create:
  assumes "ignores P" "no_payment w P"
    "\<And>cfg. admissible w cfg \<Longrightarrow> P (cli_run c (create_args i cfg)) \<Longrightarrow> 1 \<le> n"
  shows "wf_bound P n (\<lambda>_. True) (create_order w c i before)"
proof -
  have d: "quiet P (case created_order before ids after of
       None \<Rightarrow> wf_raise m
     | Some x \<Rightarrow> wf_bind (order_detail w c i (order_id x)) (\<lambda>(y, out). print_payment w y out))" for ids after m
    by (cases "created_order before ids after") (use assms(1,2) in \<open>auto intro: bound_raise quiet_detail_print\<close>)
  have r: "wf_bound P n (\<lambda>_. True) (wf_bind (cli w c (create_args i cfg)) (\<lambda>created.
       let ids = map fst (find_orders (clean (combined created)))
       in if list_ex (\<lambda>x. \<not> order_id_ok x) ids then wf_raise m
          else wf_bind (list_orders w c i) (\<lambda>after.
               case created_order before ids after of
                 None \<Rightarrow> wf_raise m'
               | Some x \<Rightarrow> wf_bind (order_detail w c i (order_id x)) (\<lambda>(y, out). print_payment w y out))))"
    if "admissible w cfg" for cfg m m'
  proof (intro bound_then bound_cli)
    show "1 \<le> n" if "P (cli_run c (create_args i cfg))"
      using assms(3) \<open>admissible w cfg\<close> that by simp
  qed (auto simp: Let_def intro!: bound_raise quiet_bind quiet_orders assms(1) d)
  show ?thesis
    unfolding create_order_def
    by (rule bound_bind [OF configuration_admissible r]) (use assms(1) in auto)
qed

lemma bound_handle:
  assumes "ignores P" "no_payment w P"
    "\<And>cfg. admissible w cfg \<Longrightarrow> P (cli_run c (create_args i cfg)) \<Longrightarrow> 1 \<le> n"
  shows "wf_bound P n (\<lambda>_. True) (handle_orders w c i d orders)"
proof (cases "filter incomplete orders")
  case Nil
  then show ?thesis
    using assms by (auto simp: handle_orders_def intro!: bound_raise bound_create)
next
  case (Cons x xs)
  have "quiet P (handle_orders w c i d orders)"
    using assms(1,2) Cons by (simp add: handle_orders_def quiet_detail_print)
  then show ?thesis by (rule bound_weaken) auto
qed

lemma bound_signup:
  assumes "ignores P" "no_payment w P" "\<And>e. P e \<Longrightarrow> registering e \<Longrightarrow> 1 \<le> n"
    "\<And>i cfg. admissible w cfg \<Longrightarrow> P (cli_run c (create_args i cfg)) \<Longrightarrow> 1 \<le> k"
  shows "wf_bound P (n + k) (\<lambda>_. True) (cmd_signup w c fuel)"
proof -
  have h: "wf_bound P k (\<lambda>_. True) (wf_bind (refreshed_identity_details w c i) (\<lambda>d'.
            wf_bind (list_orders w c i) (\<lambda>orders. handle_orders w c i d' orders)))" for i
    by (intro bound_after quiet_refreshed quiet_orders bound_handle) (use assms in auto)
  have r: "wf_bound P (n + k) (\<lambda>_. True) (wf_bind (ensure_registration w c i fuel) (\<lambda>_.
       wf_bind (refreshed_identity_details w c i) (\<lambda>d'.
            wf_bind (list_orders w c i) (\<lambda>orders. handle_orders w c i d' orders))))" for i
    by (rule bound_bind [OF bound_registration h]) (use assms in auto)
  show ?thesis
    unfolding cmd_signup_def wait_for_tequilapi_def case_prod_beta
    by (intro bound_after quiet_parts bound_if bound_ret r) (use assms(1) in auto)
qed

lemma main_log:
  fixes w :: "'m world"
  assumes "ignores P"
  obtains (nothing) "filter P (fst (main w fuel args s)) = []"
    | (ran) a s' where "args = [a]" "a \<in> set command_names"
        "filter P (fst (main w fuel args s)) = filter P (fst (command w (myst_of w) fuel a s'))"
proof (cases "\<exists>a. args = [a] \<and> a \<in> set command_names")
  case False
  then have "fst (main w fuel args s) = []" by (auto simp: main_def split: list.splits)
  then have "filter P (fst (main w fuel args s)) = []" by simp
  then show thesis by (rule nothing)
next
  case True
  then obtain a where a: "args = [a]" "a \<in> set command_names" by blast
  have "quiet P (is_running w (myst_of w))"
    unfolding is_running_def
    by (intro quiet_bind bound_run bound_ret)
      (use assms in \<open>auto simp: ignores_def creation_def registering_def cli_words_def\<close>)
  then have q: "filter P (fst (is_running w (myst_of w) s)) = []" by (simp add: wf_bound_def)
  obtain es s' r where i: "is_running w (myst_of w) s = (es, s', r)" by (cases "is_running w (myst_of w) s") auto
  obtain es' t r' where k: "command w (myst_of w) fuel a s' = (es', t, r')"
    by (cases "command w (myst_of w) fuel a s'") auto
  show thesis
  proof (cases "r = Inr True")
    case True
    with a i k have "fst (main w fuel args s) = es @ es'" by (simp add: main_def split: sum.splits)
    with q i k have "filter P (fst (main w fuel args s)) = filter P (fst (command w (myst_of w) fuel a s'))"
      by simp
    with a show thesis by (rule ran)
  next
    case False
    with a i have "fst (main w fuel args s) = es"
      by (auto simp: main_def split: sum.splits bool.splits)
    with q i have "filter P (fst (main w fuel args s)) = []" by simp
    then show thesis by (rule nothing)
  qed
qed

lemma command_cases:
  "a \<in> set command_names \<Longrightarrow> command w c fuel a \<in>
     {cmd_signup w c fuel, cmd_orderstatus w c, cmd_balance w c, cmd_blockchain w c fuel}"
  by (auto simp: command_names_def command_def)

text \<open>The whole program: a kind of event that is bounded for every command.\<close>

lemma main_bounded:
  assumes "ignores P" "no_payment w P" "\<And>a. \<not> P (Transfer_to a)"
    "\<And>e. P e \<Longrightarrow> registering e \<Longrightarrow> 1 \<le> n"
    "\<And>i cfg. args = [''signup''] \<Longrightarrow> admissible w cfg \<Longrightarrow> P (cli_run (myst_of w) (create_args i cfg)) \<Longrightarrow> 1 \<le> k"
  shows "length (filter P (fst (main w fuel args s))) \<le> n + k"
proof (cases rule: main_log [OF assms(1), of w fuel args s, case_names nothing ran])
  case nothing
  then show ?thesis by simp
next
  case (ran a s')
  have "wf_bound P (n + k) (\<lambda>_. True) (command w (myst_of w) fuel a)"
  proof (cases "a = ''signup''")
    case True
    with assms ran(1) show ?thesis by (auto simp: command_def intro!: bound_signup)
  next
    case False
    have "wf_bound P n (\<lambda>_. True) (cmd_orderstatus w (myst_of w))"
      by (rule bound_weaken [OF quiet_orderstatus [OF assms(1,2)]]) auto
    moreover have "wf_bound P n (\<lambda>_. True) (cmd_balance w (myst_of w))"
      by (rule bound_weaken [OF quiet_balance [OF assms(1)]]) auto
    moreover have "wf_bound P n (\<lambda>_. True) (cmd_blockchain w (myst_of w) fuel)"
      by (rule bound_blockchain) (use assms in auto)
    ultimately have "wf_bound P n (\<lambda>_. True) (command w (myst_of w) fuel a)"
      using False by (simp add: command_def)
    then show ?thesis by (rule bound_weaken) auto
  qed
  with ran(3) show ?thesis by (simp add: wf_bound_def)
qed

lemma main_quiet:
  assumes "ignores P" "no_payment w P" "\<And>a. \<not> P (Transfer_to a)" "\<And>e. P e \<Longrightarrow> \<not> registering e"
    "\<And>i cfg. args = [''signup''] \<Longrightarrow> admissible w cfg \<Longrightarrow> \<not> P (cli_run (myst_of w) (create_args i cfg))"
    "e \<in> set (fst (main w fuel args s))"
  shows "\<not> P e"
proof -
  have "length (filter P (fst (main w fuel args s))) \<le> 0 + 0"
    by (rule main_bounded) (use assms in auto)
  with assms(6) show ?thesis by (auto simp: filter_empty_conv)
qed

lemma no_payment_commands: "no_payment w creation" "no_payment w registering"
  by (simp_all add: no_payment_def creation_def registering_def)

lemma no_transfer_commands: "\<not> creation (Transfer_to a)" "\<not> registering (Transfer_to a)"
  by (simp_all add: creation_def registering_def)

lemma creation_not_registering: "creation e \<Longrightarrow> \<not> registering e"
  by (auto simp: creation_def registering_def)

text \<open>
  One run of the program asks for at most one order, and only the command
  \<open>signup\<close> asks for any.
\<close>

theorem one_order_per_run:
  "length (filter creation (fst (main w fuel args s))) \<le> (if args = [''signup''] then 1 else 0)"
proof -
  have "length (filter creation (fst (main w fuel args s))) \<le> 0 + (if args = [''signup''] then 1 else 0)"
    by (rule main_bounded)
      (auto simp: ignores_creation no_payment_commands no_transfer_commands dest: creation_not_registering)
  then show ?thesis by simp
qed

text \<open>One run sends at most one registration request.\<close>

theorem one_registration_per_run: "length (filter registering (fst (main w fuel args s))) \<le> 1"
proof -
  have "length (filter registering (fst (main w fuel args s))) \<le> 1 + 0"
  proof (rule main_bounded)
    fix i cfg
    assume "registering (cli_run (myst_of w) (create_args i cfg))"
    then show "1 \<le> (0 :: nat)" by (simp add: registering_def create_args_def)
  qed (auto simp: ignores_registering no_payment_commands no_transfer_commands)
  then show ?thesis by simp
qed

text \<open>What a payment URL that is shown satisfies.\<close>

definition payment_safe :: "pystr \<Rightarrow> bool" where
  "payment_safe u \<longleftrightarrow> \<not> list_ex control_c u \<and> (case urlsplit u of Inl _ \<Rightarrow> False
     | Inr p \<Rightarrow> u_scheme p = ''https'' \<and> hostname p \<noteq> [] \<and> username p = None \<and> password p = None)"

lemma extracted_safe: "extract_payment_url w out = Inr u \<Longrightarrow> payment_safe u"
  by (auto simp: extract_payment_url_def check_payment_url_def payment_safe_def
      split: list.splits option.splits sum.splits if_splits)

text \<open>An event that a run may have: a payment that is safe to show, or an order that is admissible.\<close>

definition event_ok :: "'m world \<Rightarrow> wf_event \<Rightarrow> bool" where
  "event_ok w e = (case e of
     Show_payment i st u \<Rightarrow> payment_safe u \<and> st \<in> set incomplete_order_states
   | _ \<Rightarrow> (if creation e then \<exists>i cfg. cli_words e = create_args i cfg \<and> admissible w cfg else True))"

text \<open>
  Whatever the container answers, a payment URL that is shown is HTTPS with a host,
  without credentials or control characters, and its order is one that is not yet paid; and an order
  that is asked for is the configured one, its amount is positive and above the minimum of a gateway
  that was listed, which takes the configured currency.
\<close>

theorem run_events_sound: "list_all (event_ok w) (fst (main w fuel args s))"
proof -
  have c: "creation e \<Longrightarrow> event_ok w e \<longleftrightarrow> (\<exists>i cfg. cli_words e = create_args i cfg \<and> admissible w cfg)" for e
    by (auto simp: event_ok_def creation_def split: wf_event.splits)
  have l: "\<not> event_ok w (Run l) \<Longrightarrow> creation (Run l)" for l
    by (cases "creation (Run l)") (simp_all add: event_ok_def)
  have "\<not> \<not> event_ok w e" if "e \<in> set (fst (main w fuel args s))" for e
  proof (rule main_quiet [where P = "\<lambda>e. \<not> event_ok w e", OF _ _ _ _ _ that])
    show "ignores (\<lambda>e. \<not> event_ok w e)" using l by (auto simp: ignores_def) (simp add: event_ok_def creation_def)
    show "no_payment w (\<lambda>e. \<not> event_ok w e)" by (auto simp: no_payment_def event_ok_def dest: extracted_safe)
    show "\<not> registering x" if "\<not> event_ok w x" for x
    proof (cases x)
      case (Run r)
      with that l creation_not_registering show ?thesis by blast
    qed (simp_all add: registering_def)
    show "\<not> \<not> event_ok w (cli_run (myst_of w) (create_args i cfg))" if "admissible w cfg" for i cfg
      using that c [of "cli_run (myst_of w) (create_args i cfg)"] by (auto simp: event_ok_def)
  qed (simp add: event_ok_def creation_def)
  then show ?thesis by (simp add: list_all_iff)
qed

section \<open>When an order is asked for\<close>

lemma bind_parts:
  assumes "wf_bind m f s = (es, s', r)" "P e" "e \<in> set es" "quiet P m"
  obtains x la s1 lb where "m s = (la, s1, Inr x)" "f x s1 = (lb, s', r)" "es = la @ lb" "e \<in> set lb"
proof -
  obtain la s1 q where m: "m s = (la, s1, q)" by (cases "m s") auto
  have n: "e \<notin> set la" using quiet_no_event [OF assms(4), of e s] m assms(2) by auto
  show thesis
  proof (cases q)
    case (Inl x)
    with assms(1,3) m n show thesis by (auto simp: bind_eq)
  next
    case (Inr x)
    obtain lb s2 r2 where "f x s1 = (lb, s2, r2)" by (cases "f x s1") auto
    with assms(1,3) m n Inr show thesis by (auto simp: bind_eq intro: that)
  qed
qed

lemma quiet_registration: "quiet creation (ensure_registration w c i fuel)"
  by (rule bound_registration) (auto simp: ignores_creation dest: creation_not_registering)

lemma creation_in_handle:
  assumes "handle_orders w c i d orders s = (es, s', r)" "creation e" "e \<in> set es"
  shows "filter incomplete orders = [] \<and> (balance d = 0 \<longrightarrow> \<not> list_ex (\<lambda>x. order_state x = ''paid'') orders)"
proof (cases "filter incomplete orders")
  case Nil
  with assms show ?thesis
    by (auto simp: handle_orders_def wf_raise_def wf_stop_def split: if_splits)
next
  case (Cons x xs)
  have "quiet creation (handle_orders w c i d orders)"
    using Cons by (simp add: handle_orders_def quiet_detail_print ignores_creation no_payment_commands)
  from quiet_no_event [OF this, of e s] assms show ?thesis by simp
qed

lemma quiet_first: "quiet creation (wait_for_tequilapi w c)" "quiet creation (prepare_identity w c)"
  "quiet creation (refreshed_identity_details w c i)" "quiet creation (list_orders w c i)"
  unfolding wait_for_tequilapi_def by (auto intro: quiet_parts ignores_creation)

text \<open>What \<open>ensure_registration\<close> returns was read from that identity, and its registration is done or under way.\<close>

definition registration_read :: "'m world \<Rightarrow> container \<Rightarrow> pystr \<Rightarrow> details \<Rightarrow> bool" where
  "registration_read w c i d \<longleftrightarrow> registration d \<in> {''registered'', ''inprogress''} \<and>
     (\<exists>s l s'. identity_details w c i s = (l, s', Inr d))"

lemma registered_read:
  "identity_details w c i s = (l, s', Inr d) \<Longrightarrow> registered (registration d) \<Longrightarrow> registration_read w c i d"
  by (auto simp: registration_read_def registered_def)

lemma awaited_registration:
  "await_registration w c i deadline fuel s = (l, s', Inr d) \<Longrightarrow> registration_read w c i d"
proof (induction fuel arbitrary: s l)
  case 0
  then show ?case by (simp add: wf_raise_def wf_stop_def)
next
  case (Suc fuel)
  then show ?case
    by (auto simp: wf_raise_def wf_stop_def wf_ret_def elim!: wf_bind_Inr split: if_splits)
      (blast intro: registered_read)
qed

lemma ensured_registration:
  "ensure_registration w c i fuel s = (l, s', Inr d) \<Longrightarrow> registration_read w c i d"
  unfolding ensure_registration_def
  by (auto simp: wf_raise_def wf_stop_def wf_ret_def elim!: wf_bind_Inr split: if_splits
    intro: registered_read awaited_registration)

text \<open>
  C29 (functional). An order is asked for only after these steps, in this order and with nothing
  between them: the balance of the identity was read and is not positive, its registration was read as done or in
  progress, its balance was read anew, its orders were listed, none of them waits for a payment, and unless the
  new balance is positive none is paid.
\<close>

theorem order_only_when_needed:
  assumes "cmd_signup w c fuel s = (es, s', r)" "e \<in> set es" "creation e"
  shows "\<exists>i d d2 orders l0 s0 l1 s1 l2 s2 l3 s3 l4 s4 l5.
     wait_for_tequilapi w c s = (l0, s0, Inr ()) \<and>
     prepare_identity w c s0 = (l1, s1, Inr (i, d)) \<and> \<not> 0 < balance d \<and>
     (\<exists>d'. ensure_registration w c i fuel s1 = (l2, s2, Inr d') \<and> registration_read w c i d') \<and>
     refreshed_identity_details w c i s2 = (l3, s3, Inr d2) \<and>
     list_orders w c i s3 = (l4, s4, Inr orders) \<and>
     filter incomplete orders = [] \<and>
     (balance d2 = 0 \<longrightarrow> \<not> list_ex (\<lambda>x. order_state x = ''paid'') orders) \<and>
     es = l0 @ l1 @ l2 @ l3 @ l4 @ l5 \<and> e \<in> set l5"
proof -
  obtain u l0 s0 m0 where 0: "wait_for_tequilapi w c s = (l0, s0, Inr u)"
    "(\<lambda>_. wf_bind (prepare_identity w c) (\<lambda>(i, d).
       if 0 < balance d then wf_ret ()
       else wf_bind (ensure_registration w c i fuel) (\<lambda>_.
            wf_bind (refreshed_identity_details w c i) (\<lambda>d'.
            wf_bind (list_orders w c i) (\<lambda>orders. handle_orders w c i d' orders))))) u s0 = (m0, s', r)"
    "es = l0 @ m0" "e \<in> set m0"
    by (rule bind_parts [OF assms(1) [unfolded cmd_signup_def] assms(3,2) quiet_first(1)])
  obtain q l1 s1 m1 where 1: "prepare_identity w c s0 = (l1, s1, Inr q)"
    "(\<lambda>(i, d). if 0 < balance d then wf_ret ()
       else wf_bind (ensure_registration w c i fuel) (\<lambda>_.
            wf_bind (refreshed_identity_details w c i) (\<lambda>d'.
            wf_bind (list_orders w c i) (\<lambda>orders. handle_orders w c i d' orders)))) q s1 = (m1, s', r)"
    "m0 = l1 @ m1" "e \<in> set m1"
    by (rule bind_parts [OF 0(2) assms(3) 0(4) quiet_first(2)])
  obtain i d where q: "q = (i, d)" by (cases q)
  have poor: "\<not> 0 < balance d" using 1(2,4) by (auto simp: q wf_ret_def split: if_splits)
  obtain d' l2 s2 m2 where 2: "ensure_registration w c i fuel s1 = (l2, s2, Inr d')"
    "(\<lambda>_. wf_bind (refreshed_identity_details w c i) (\<lambda>d'.
            wf_bind (list_orders w c i) (\<lambda>orders. handle_orders w c i d' orders))) d' s2 = (m2, s', r)"
    "m1 = l2 @ m2" "e \<in> set m2"
    by (rule bind_parts [OF 1(2) [unfolded q case_prod_conv if_not_P [OF poor]] assms(3) 1(4) quiet_registration])
  obtain d2 l3 s3 m3 where 3: "refreshed_identity_details w c i s2 = (l3, s3, Inr d2)"
    "wf_bind (list_orders w c i) (\<lambda>orders. handle_orders w c i d2 orders) s3 = (m3, s', r)"
    "m2 = l3 @ m3" "e \<in> set m3"
    by (rule bind_parts [OF 2(2) assms(3) 2(4) quiet_first(3)])
  obtain orders l4 s4 l5 where 4: "list_orders w c i s3 = (l4, s4, Inr orders)"
    "handle_orders w c i d2 orders s4 = (l5, s', r)" "m3 = l4 @ l5" "e \<in> set l5"
    by (rule bind_parts [OF 3(2) assms(3) 3(4) quiet_first(4)])
  note clear = creation_in_handle [OF 4(2) assms(3) 4(4)]
  have log: "es = l0 @ l1 @ l2 @ l3 @ l4 @ l5" using 0(3) 1(3) 2(3) 3(3) 4(3) by simp
  have reg: "\<exists>d'. ensure_registration w c i fuel s1 = (l2, s2, Inr d') \<and> registration_read w c i d'"
    using 2(1) ensured_registration [OF 2(1)] by blast
  have w0: "wait_for_tequilapi w c s = (l0, s0, Inr ())" using 0(1) by simp
  show ?thesis
    by (rule exI [of _ i], rule exI [of _ d], rule exI [of _ d2], rule exI [of _ orders], rule exI [of _ l0],
        rule exI [of _ s0], rule exI [of _ l1], rule exI [of _ s1], rule exI [of _ l2], rule exI [of _ s2],
        rule exI [of _ l3], rule exI [of _ s3], rule exI [of _ l4], rule exI [of _ s4], rule exI [of _ l5])
      (intro conjI w0 1(1) [unfolded q] poor reg 3(1) 4(1) log 4(4) clear [THEN conjunct1] clear [THEN conjunct2])
qed

text \<open>The second balance is not compared with zero as the first is: with a positive one an order is
  still asked for, even beside one that is paid.\<close>

lemma funded_meanwhile:
  "\<lbrakk>0 < balance d; filter incomplete orders = []\<rbrakk> \<Longrightarrow> handle_orders w c i d orders = create_order w c i orders"
  by (simp add: handle_orders_def)

text \<open>
  The transfer instructions never name the address of the identity that was unlocked, and
  they are shown only when its balance is not positive.
\<close>

theorem transfer_not_to_identity:
  assumes "Transfer_to a \<in> set (fst (cmd_blockchain w c fuel s))"
  shows "\<exists>i d s0 l1 s1. prepare_identity w c s0 = (l1, s1, Inr (i, d)) \<and> \<not> 0 < balance d \<and> a \<noteq> i"
proof -
  let ?P = "\<lambda>e. e = Transfer_to a"
  obtain es s' r where r: "cmd_blockchain w c fuel s = (es, s', r)" by (cases "cmd_blockchain w c fuel s") auto
  have i: "ignores ?P" by (simp add: ignores_def)
  have e: "Transfer_to a \<in> set es" using assms r by simp
  obtain u l0 s0 m0 where 0: "wait_for_tequilapi w c s = (l0, s0, Inr u)"
    "(\<lambda>_. wf_bind (prepare_identity w c) (\<lambda>(i, d). if 0 < balance d then wf_ret ()
       else wf_bind (ensure_registration w c i fuel) (\<lambda>_. show_transfer w c i))) u s0 = (m0, s', r)"
    "es = l0 @ m0" "Transfer_to a \<in> set m0"
    by (rule bind_parts [where P = ?P, OF r [unfolded cmd_blockchain_def] refl e])
      (simp_all add: wait_for_tequilapi_def quiet_wait i)
  obtain q l1 s1 m1 where 1: "prepare_identity w c s0 = (l1, s1, Inr q)"
    "(\<lambda>(i, d). if 0 < balance d then wf_ret ()
       else wf_bind (ensure_registration w c i fuel) (\<lambda>_. show_transfer w c i)) q s1 = (m1, s', r)"
    "m0 = l1 @ m1" "Transfer_to a \<in> set m1"
    by (rule bind_parts [where P = ?P, OF 0(2) refl 0(4) quiet_prepare [OF i]])
  obtain i d where q: "q = (i, d)" by (cases q)
  have poor: "\<not> 0 < balance d" using 1(2,4) by (auto simp: q wf_ret_def split: if_splits)
  have "quiet ?P (ensure_registration w c i fuel)"
    by (rule bound_registration) (auto simp: i registering_def)
  note 2 = bind_parts [where P = ?P, OF 1(2) [unfolded q case_prod_conv if_not_P [OF poor]] refl 1(4) this]
  obtain u2 l2 s2 m2 where 3: "ensure_registration w c i fuel s1 = (l2, s2, Inr u2)"
    "(\<lambda>_. show_transfer w c i) u2 s2 = (m2, s', r)" "m1 = l2 @ m2" "Transfer_to a \<in> set m2"
    by (rule 2)
  obtain es3 s3 r3 where d: "identity_details w c i s2 = (es3, s3, r3)" by (cases "identity_details w c i s2") auto
  have "Transfer_to a \<notin> set es3"
    using quiet_no_event [OF quiet_details [OF i], of "Transfer_to a"] d by (metis fst_conv)
  then have "a \<noteq> i"
    using 3(2,4) d by (auto simp: show_transfer_def bind_eq wf_raise_def wf_stop_def wf_log_def split: sum.splits option.splits if_splits)
  with 1(1) poor q show ?thesis by blast
qed

section \<open>The registration loop ends\<close>

text \<open>A command does not turn the clock back, and a pause lasts.\<close>

definition time_passes :: "'m world \<Rightarrow> bool" where
  "time_passes w \<longleftrightarrow> (\<forall>l s. clock w s \<le> clock w (snd (execute w l s))) \<and>
     (\<forall>t s. clock w s + t \<le> clock w (sleep w t s))"

lemma details_clock:
  assumes "time_passes w" "identity_details w c i s = (es, s', r)"
  shows "clock w s \<le> clock w s'"
proof -
  let ?l = "command_line c (''cli'' # ''--agreed-terms-and-conditions'' # [''identities'', ''get'', i])"
  have "s' = snd (execute w ?l s)"
    using assms(2) by (auto simp: identity_details_def checked_cli_def cli_def run_myst_def wf_bind_def
        run_cmd_def wf_lift_def wf_raise_def wf_stop_def wf_ret_def split: prod.splits sum.splits)
  with assms(1) show ?thesis by (simp add: time_passes_def)
qed

lemma details_fuel: "identity_details w c i s \<noteq> (es, s', Inl Out_of_fuel)"
  by (auto simp: identity_details_def checked_cli_def cli_def run_myst_def wf_bind_def
        run_cmd_def wf_lift_def wf_raise_def wf_stop_def wf_ret_def split: prod.splits sum.splits)

lemma await_ends:
  assumes "time_passes w"
  shows "\<lbrakk>deadline - clock w s \<le> 5 * of_nat fuel\<rbrakk>
    \<Longrightarrow> snd (snd (await_registration w c i deadline (Suc fuel) s)) \<noteq> Inl Out_of_fuel"
proof (induction fuel arbitrary: s)
  case (0 s)
  obtain es s1 r where d: "identity_details w c i s = (es, s1, r)" by (cases "identity_details w c i s") auto
  show ?case
    using 0 d details_clock [OF assms d] details_fuel [of w c i s]
    by (auto simp: bind_eq wf_ret_def wf_raise_def wf_stop_def split: sum.splits)
next
  case (Suc fuel s)
  obtain es s1 r where d: "identity_details w c i s = (es, s1, r)" by (cases "identity_details w c i s") auto
  have "clock w s1 + 5 \<le> clock w (sleep w 5 s1)" using assms by (simp add: time_passes_def)
  with Suc.prems details_clock [OF assms d]
  have "deadline - clock w (sleep w 5 s1) \<le> 5 * of_nat fuel" by (simp add: algebra_simps)
  then have "snd (snd (await_registration w c i deadline (Suc fuel) (sleep w 5 s1))) \<noteq> Inl Out_of_fuel"
    by (rule Suc.IH)
  then show ?case
    using d details_fuel [of w c i s]
    by (subst await_registration.simps(2))
      (auto simp: bind_eq wf_ret_def wf_raise_def wf_stop_def simp del: await_registration.simps split: sum.splits)
qed

lemma checked_fuel: "checked_cli w c args d s \<noteq> (es, s', Inl Out_of_fuel)"
  by (auto simp: checked_cli_def cli_def run_myst_def wf_bind_def
        run_cmd_def wf_lift_def wf_raise_def wf_stop_def wf_ret_def split: prod.splits sum.splits)

text \<open>
  The wait for a registration ends: with a clock that moves, twenty-five readings of
  the identity are enough, whatever the container answers.
\<close>

theorem registration_wait_ends:
  assumes "time_passes w"
  shows "snd (snd (ensure_registration w c i 25 s)) \<noteq> Inl Out_of_fuel"
proof -
  obtain es s1 r where d: "identity_details w c i s = (es, s1, r)" by (cases "identity_details w c i s") auto
  obtain es2 s2 r2 where g: "checked_cli w c [''identities'', ''register'', i] ''registration request'' s1 = (es2, s2, r2)"
    by (cases "checked_cli w c [''identities'', ''register'', i] ''registration request'' s1") auto
  have a: "snd (snd (await_registration w c i (clock w s2 + 120) 25 s2)) \<noteq> Inl Out_of_fuel"
    using await_ends [OF assms, of "clock w s2 + 120" s2 24] by (simp del: await_registration.simps)
  show ?thesis
    using d g a details_fuel [of w c i s] checked_fuel [of w c "[''identities'', ''register'', i]" "''registration request''" s1]
    by (auto simp: ensure_registration_def bind_eq wf_ret_def wf_raise_def wf_stop_def simp del: await_registration.simps
        split: sum.splits)
qed

text \<open>What the listing of an order looks like.\<close>

definition order_line :: "order \<Rightarrow> pystr" where
  "order_line x = ''Order ID '' @ quote_c # order_id x @ quote_c # '' is in state: '' @
     quote_c # order_state x @ quote_c # [CHR 0x0A]"

lemma quoted_field_shown:
  "\<lbrakk>v \<noteq> []; quote_c \<notin> set v\<rbrakk> \<Longrightarrow> quoted_field p (p @ quote_c # v @ quote_c # rest) = Some (v, rest)"
  by (simp add: quoted_field_def starts_with_iff Let_def takeWhile_tail)

definition listable :: "order \<Rightarrow> bool" where
  "listable x \<longleftrightarrow> order_id_ok (order_id x) \<and> order_state x \<in> set known_order_states"

lemma list_all_notin: "\<lbrakk>list_all P s; \<not> P c\<rbrakk> \<Longrightarrow> c \<notin> set s"
  by (auto simp: list_all_iff)

lemma name_text_chars:
  assumes "name_text n s"
  shows "s \<noteq> [] \<and> quote_c \<notin> set s \<and> CHR 0x1B \<notin> set s"
proof -
  have l: "list_all (\<lambda>c. is_alpha_ascii c \<or> is_digit c \<or> c \<in> set ''._:-'') s"
    using assms by (simp add: name_text_def)
  have "quote_c \<notin> set s" by (rule list_all_notin [OF l]) code_simp
  moreover have "CHR 0x1B \<notin> set s" by (rule list_all_notin [OF l]) code_simp
  ultimately show ?thesis using assms by (simp add: name_text_def)
qed

lemma known_state_chars:
  assumes "st \<in> set known_order_states"
  shows "st \<noteq> [] \<and> quote_c \<notin> set st \<and> CHR 0x1B \<notin> set st \<and> py_lower st = st"
proof -
  have "list_all (\<lambda>st. st \<noteq> [] \<and> quote_c \<notin> set st \<and> CHR 0x1B \<notin> set st \<and> py_lower st = st) known_order_states"
    by code_simp
  with assms show ?thesis by (simp add: list_all_iff)
qed

lemma match_order_line:
  assumes "listable x"
  shows "match_order (order_line x @ rest) = Some ((order_id x, order_state x), CHR 0x0A # rest)"
proof -
  have n: "order_id x \<noteq> []" "quote_c \<notin> set (order_id x)" "order_state x \<noteq> []" "quote_c \<notin> set (order_state x)"
    using assms name_text_chars known_state_chars by (auto simp: listable_def order_id_ok_def)
  have "quoted_field ''Order ID '' (order_line x @ rest) = Some (order_id x, '' is in state: '' @
      quote_c # order_state x @ quote_c # CHR 0x0A # rest)"
    using quoted_field_shown [OF n(1,2), of "''Order ID ''"] by (simp add: order_line_def)
  moreover have "quoted_field '' is in state: '' ('' is in state: '' @ quote_c # order_state x @ quote_c # CHR 0x0A # rest)
      = Some (order_state x, CHR 0x0A # rest)"
    by (rule quoted_field_shown [OF n(3,4)])
  ultimately show ?thesis by (simp add: match_order_def)
qed

lemma find_orders_lines:
  "list_all listable xs \<Longrightarrow>
    find_orders (concat (map order_line xs)) = map (\<lambda>x. (order_id x, order_state x)) xs"
proof (induction xs)
  case (Cons x xs)
  obtain c t where c: "order_line x @ concat (map order_line xs) = c # t"
    by (simp add: order_line_def)
  have "match_order (c # t) = Some ((order_id x, order_state x), CHR 0x0A # concat (map order_line xs))"
    unfolding c [symmetric] by (rule match_order_line) (use Cons.prems in simp)
  moreover have "match_order (CHR 0x0A # concat (map order_line xs)) = None"
    by (simp add: match_order_def quoted_field_def)
  ultimately show ?case using Cons c by simp
qed simp

lemma clean_plain: "CHR 0x1B \<notin> set s \<Longrightarrow> clean s = s"
  by (induction s) auto

lemma plain_line: "listable x \<Longrightarrow> CHR 0x1B \<notin> set (order_line x)"
  using name_text_chars [of 200 "order_id x"] known_state_chars [of "order_state x"]
  by (auto simp: listable_def order_id_ok_def order_line_def quote_c_def)

text \<open>
  A listing of orders with allowed identifiers, known states and no identifier twice is
  read back as exactly these orders, in their order.
\<close>

theorem listing_read_back:
  assumes "xs \<noteq> []" "list_all listable xs" "distinct (map order_id xs)"
  shows "parse_orders (concat (map order_line xs)) = Inr xs"
proof -
  have c: "clean (concat (map order_line xs)) = concat (map order_line xs)"
    using assms(2) plain_line by (intro clean_plain) (auto simp: list_all_iff)
  have f: "find_orders (concat (map order_line xs)) = map (\<lambda>x. (order_id x, order_state x)) xs"
    by (rule find_orders_lines [OF assms(2)])
  have l: "map ((\<lambda>(i, st). \<lparr>order_id = i, order_state = py_lower st\<rparr>) \<circ> (\<lambda>x. (order_id x, order_state x))) xs = xs"
    using assms(2) known_state_chars by (intro map_idI) (auto simp: list_all_iff listable_def)
  have ok: "\<not> list_ex (\<lambda>x. \<not> order_id_ok (order_id x)) xs" "\<not> list_ex (\<lambda>x. order_state x \<notin> set known_order_states) xs"
    using assms(2) by (auto simp: list_all_iff list_ex_iff listable_def)
  show ?thesis
    using assms(1,3) ok by (simp add: parse_orders_def Let_def c f l)
qed

text \<open>What is shown of a diagnostic has no control character but line ends and tabs.\<close>

lemma safe_detail_plain: "c \<in> set (safe_detail s) \<Longrightarrow> c = CHR 0x0A \<or> c = CHR 0x09 \<or> \<not> control_c c"
  by (auto simp: safe_detail_def control_c_def)

text \<open>The identity that is used is one of those that were listed.\<close>

lemma chosen_listed: "choose_identity configured ids = Inr i \<Longrightarrow> i \<in> set ids"
  by (auto simp: choose_identity_def split: option.splits list.splits if_splits)

section \<open>Concrete runs\<close>

text \<open>A container that answers every command alike: the state is its clock.\<close>

definition fixed_world :: "cmd_result \<Rightarrow> rat world" where
  "fixed_world r = \<lparr>execute = (\<lambda>l s. (r, s)), clock = id, sleep = (\<lambda>t s. s + t), environ = Map.empty,
     decimal_of = (\<lambda>s. Some (Finite (of_nat (dec_nat s)))), json_of = (\<lambda>s. None)\<rparr>"

lemma registration_wait_ends_witness:
  "time_passes (fixed_world \<lparr>returncode = 0, cmd_out = [], cmd_err = []\<rparr>) \<and>
   snd (snd (ensure_registration (fixed_world \<lparr>returncode = 0, cmd_out = [], cmd_err = []\<rparr>)
     \<lparr>engine = ''docker'', container_name = ''myst''\<rparr> ''0x1'' 25 7)) \<noteq> Inl Out_of_fuel"
proof -
  have "time_passes (fixed_world \<lparr>returncode = 0, cmd_out = [], cmd_err = []\<rparr>)"
    by (simp add: time_passes_def fixed_world_def)
  then show ?thesis by (intro conjI registration_wait_ends)
qed

lemma listing_read_back_witness:
  "parse_orders (concat (map order_line [\<lparr>order_id = ''a1'', order_state = ''new''\<rparr>,
      \<lparr>order_id = ''a2'', order_state = ''paid''\<rparr>]))
    = Inr [\<lparr>order_id = ''a1'', order_state = ''new''\<rparr>, \<lparr>order_id = ''a2'', order_state = ''paid''\<rparr>]"
  by (rule listing_read_back) code_simp+

text \<open>A container with one identity without money, and one gateway. The state says whether the order was
  created, and the time.\<close>

definition demo_id :: pystr where
  "demo_id = ''0x'' @ replicate 40 (CHR ''a'')"

definition demo_order :: pystr where
  "demo_order = order_line \<lparr>order_id = ''a1'', order_state = ''new''\<rparr>"

definition demo_answer :: "pystr list \<Rightarrow> bool \<Rightarrow> pystr" where
  "demo_answer words created =
     (if take 2 words = [''identities'', ''list''] then demo_id
      else if take 2 words = [''identities'', ''balance''] then ''Balance: 0.00''
      else if take 2 words = [''identities'', ''get'']
      then ''Registration Status: Registered'' @ [CHR 0x0A] @ ''Balance: 0.00'' @ [CHR 0x0A] @
           ''Channel address: 0x'' @ replicate 40 (CHR ''b'')
      else if take 2 words = [''orders'', ''get-all''] then (if created then demo_order else ''No orders found'')
      else if take 2 words = [''orders'', ''get''] then demo_order @ ''Data: {}''
      else if take 2 words = [''orders'', ''gateways'']
      then ''Gateway: pay'' @ [CHR 0x0A] @ ''Suggested minimum order: 1'' @ [CHR 0x0A] @ ''Supported currencies: BTC''
      else [])"

definition demo_execute :: "pystr list \<Rightarrow> bool \<times> rat \<Rightarrow> cmd_result \<times> (bool \<times> rat)" where
  "demo_execute l s = (\<lparr>returncode = 0,
       cmd_out = (if take 1 (drop 1 l) = [''inspect''] then ''true'' else demo_answer (drop 10 l) (fst s)),
       cmd_err = []\<rparr>,
     (fst s \<or> take 2 (drop 10 l) = [''orders'', ''create''], snd s))"

definition demo_environ :: "pystr \<Rightarrow> pystr option" where
  "demo_environ = map_of [(''MYST_VPN_ORDER_AMOUNT'', ''2''), (''MYST_VPN_ORDER_CURRENCY'', ''btc''),
     (''MYST_VPN_ORDER_GATEWAY'', ''pay''), (''MYST_VPN_ORDER_COUNTRY'', ''de''),
     (''MYST_VPN_ORDER_GATEWAY_DATA'', ''email=x'')]"

definition demo :: "(bool \<times> rat) world" where
  "demo = \<lparr>execute = demo_execute, clock = snd, sleep = (\<lambda>t s. (fst s, snd s + t)), environ = demo_environ,
     decimal_of = (\<lambda>s. Some (Finite (of_nat (dec_nat s)))),
     json_of = (\<lambda>s. Some (JObj [(''url'', JStr ''https://pay.example/a1'')]))\<rparr>"

lemma demo_run:
  "filter (\<lambda>e. creation e \<or> (case e of Show_payment i st u \<Rightarrow> True | _ \<Rightarrow> False)) (fst (main demo 25 [''signup''] (False, 0)))
    = [cli_run (myst_of demo) [''orders'', ''create'', demo_id, ''2'', ''BTC'', ''pay'', ''DE'', ''email=x''],
       Show_payment ''a1'' ''new'' ''https://pay.example/a1'']"
  by code_simp

definition demo_container :: container where
  "demo_container = \<lparr>engine = ''docker'', container_name = ''myst''\<rparr>"

definition demo_creation :: wf_event where
  "demo_creation = cli_run demo_container [''orders'', ''create'', demo_id, ''2'', ''BTC'', ''pay'', ''DE'', ''email=x'']"

lemma order_only_when_needed_witness:
  "\<exists>i d s0 l1 s1. prepare_identity demo demo_container s0 = (l1, s1, Inr (i, d)) \<and> \<not> 0 < balance d"
proof -
  obtain es s' r where r: "cmd_signup demo demo_container 25 (False, 0) = (es, s', r)"
    by (cases "cmd_signup demo demo_container 25 (False, 0)") auto
  have "list_ex (\<lambda>e. e = demo_creation) (fst (cmd_signup demo demo_container 25 (False, 0)))" by code_simp
  then have "demo_creation \<in> set es" using r by (auto simp: list_ex_iff)
  moreover have "creation demo_creation" by code_simp
  ultimately show ?thesis using order_only_when_needed [OF r] by blast
qed

lemma transfer_not_to_identity_witness:
  "\<exists>i d s0 l1 s1. prepare_identity demo demo_container s0 = (l1, s1, Inr (i, d)) \<and> \<not> 0 < balance d \<and>
     ''0x'' @ replicate 40 (CHR ''b'') \<noteq> i"
proof (rule transfer_not_to_identity)
  have "list_ex (\<lambda>e. e = Transfer_to (''0x'' @ replicate 40 (CHR ''b'')))
      (fst (cmd_blockchain demo demo_container 25 (False, 0)))" by code_simp
  then show "Transfer_to (''0x'' @ replicate 40 (CHR ''b'')) \<in> set (fst (cmd_blockchain demo demo_container 25 (False, 0)))"
    by (auto simp: list_ex_iff)
qed

end
