(* ===== verification/Myst_Guard.thy ===== *)
theory Myst_Guard
  imports PyLines PyData
begin

text \<open>
  The guard of the standalone signup container: \<open>src/myst/signup_guard.py\<close>. What the engine
  prints and what \<open>json.loads\<close> makes of it are arguments; a float in the place of the labels
  or the environment is taken as a value that is not zero.
\<close>

section \<open>The inspection\<close>

datatype guard_error =
    Not_inspected pystr
  | Malformed
  | Refused pystr bool
  | No_container
  | Integrated_exists

record inspection =
  inspect_code :: int
  inspect_out :: pystr
  inspect_err :: pystr
  inspect_json :: "json option"

definition absent_markers :: "pystr list" where
  "absent_markers = [''no such container'', ''no such object'', ''does not exist'', ''no container with name or id'']"

text \<open>\<open>inspect_container\<close>: nothing when the engine says that there is no such container.\<close>

definition inspect_container :: "inspection \<Rightarrow> guard_error + (pystr \<times> json) list option" where
  "inspect_container r =
     (if inspect_code r \<noteq> 0
      then (if list_ex (contains (py_lower (inspect_out r @ [CHR 0x0A] @ inspect_err r))) absent_markers
            then Inr None
            else Inl (Not_inspected (case splitlines (py_strip (inspect_err r)) of [] \<Rightarrow> [] | ls \<Rightarrow> last ls)))
      else case inspect_json r of
        Some (JList [JObj members]) \<Rightarrow> Inr (Some members)
      | _ \<Rightarrow> Inl Malformed)"

section \<open>The classification\<close>

datatype kind = Absent_kind | Setup_kind | Integrated_kind

definition labels_of :: "json \<Rightarrow> guard_error + (pystr \<times> json) list" where
  "labels_of v = (if json_falsy v then Inr [] else case v of JObj m \<Rightarrow> Inr m | _ \<Rightarrow> Inl Malformed)"

definition environment_of :: "json \<Rightarrow> guard_error + json list" where
  "environment_of v = (if json_falsy v then Inr [] else case v of JList l \<Rightarrow> Inr l | _ \<Rightarrow> Inl Malformed)"

definition project_key :: pystr where
  "project_key = ''com.docker.compose.project''"

definition setup_entry :: pystr where
  "setup_entry = ''MYST_SETUP_ONLY=true''"

definition shown_text :: "json \<Rightarrow> pystr" where
  "shown_text v = (case v of JStr p \<Rightarrow> p | _ \<Rightarrow> [])"

text \<open>\<open>classify_existing\<close>; the project may be any JSON value, it is compared with texts only.\<close>

definition classify_existing :: "(pystr \<times> json) list option \<Rightarrow> pystr \<Rightarrow> guard_error + kind" where
  "classify_existing inspected allowed_project = (case inspected of
     None \<Rightarrow> Inr Absent_kind
   | Some members \<Rightarrow> (case jget members ''Config'' of
       JObj config \<Rightarrow>
         rbind (labels_of (jget config ''Labels'')) (\<lambda>labels.
         rbind (environment_of (jget config ''Env'')) (\<lambda>environment.
           let project = jget labels project_key;
               setup_only = (JStr setup_entry \<in> set environment)
           in if project = JStr allowed_project \<and> setup_only then Inr Setup_kind
              else if project = JStr ''onyx'' \<and> \<not> setup_only then Inr Integrated_kind
              else Inl (Refused (shown_text project) setup_only)))
     | _ \<Rightarrow> Inl Malformed))"

definition validate_existing :: "(pystr \<times> json) list option \<Rightarrow> pystr \<Rightarrow> bool \<Rightarrow> guard_error + unit" where
  "validate_existing inspected allowed_project require_existing =
     rbind (classify_existing inspected allowed_project) (\<lambda>k. case k of
       Absent_kind \<Rightarrow> (if require_existing then Inl No_container else Inr ())
     | Setup_kind \<Rightarrow> Inr ()
     | Integrated_kind \<Rightarrow> Inl Integrated_exists)"

definition kind_text :: "kind \<Rightarrow> pystr" where
  "kind_text k = (case k of Absent_kind \<Rightarrow> ''absent'' | Setup_kind \<Rightarrow> ''setup'' | Integrated_kind \<Rightarrow> ''integrated'')"

text \<open>The command: its exit status and the line it prints; the parser's own error has status 2.\<close>

definition main :: "inspection \<Rightarrow> pystr \<Rightarrow> bool \<Rightarrow> bool \<Rightarrow> nat \<times> pystr option" where
  "main r allowed_project require_existing classify =
     (case inspect_container r of
        Inl _ \<Rightarrow> (1, None)
      | Inr inspected \<Rightarrow>
          (if classify
           then (if require_existing then (2, None)
                 else case classify_existing inspected allowed_project of
                   Inl _ \<Rightarrow> (1, None)
                 | Inr k \<Rightarrow> (0, Some (kind_text k)))
           else case validate_existing inspected allowed_project require_existing of
             Inl _ \<Rightarrow> (1, None)
           | Inr _ \<Rightarrow> (0, None)))"

section \<open>What is let through\<close>

lemma classify_setup:
  assumes "classify_existing (Some members) project = Inr Setup_kind"
  obtains config labels env where "jget members ''Config'' = JObj config"
    "labels_of (jget config ''Labels'') = Inr labels" "environment_of (jget config ''Env'') = Inr env"
    "jget labels project_key = JStr project" "JStr setup_entry \<in> set env"
  using assms
  by (auto simp: classify_existing_def rbind_Inr_iff Let_def simp del: jget.simps split: json.splits if_splits intro: that)

text \<open>
  The signup is let through only when the engine says that the container does not exist,
  or when the container that exists belongs to the allowed project and is marked as setup only.
\<close>

theorem guard_lets_through:
  assumes "main r project require_existing False = (0, out)"
  shows "(inspect_code r \<noteq> 0 \<and> \<not> require_existing \<and>
      list_ex (contains (py_lower (inspect_out r @ [CHR 0x0A] @ inspect_err r))) absent_markers) \<or>
    (\<exists>members config labels env. inspect_json r = Some (JList [JObj members]) \<and>
      jget members ''Config'' = JObj config \<and> labels_of (jget config ''Labels'') = Inr labels \<and>
      jget labels project_key = JStr project \<and> environment_of (jget config ''Env'') = Inr env \<and>
      JStr setup_entry \<in> set env)"
proof -
  obtain i where i: "inspect_container r = Inr i" "validate_existing i project require_existing = Inr ()"
    using assms by (auto simp: main_def split: sum.splits)
  show ?thesis
  proof (cases i)
    case None
    then have "\<not> require_existing"
      using i(2) by (auto simp: validate_existing_def classify_existing_def split: if_splits)
    moreover have "inspect_code r \<noteq> 0 \<and>
        list_ex (contains (py_lower (inspect_out r @ [CHR 0x0A] @ inspect_err r))) absent_markers"
      using i(1) None
      by (auto simp: inspect_container_def split: if_splits option.splits json.splits list.splits)
    ultimately show ?thesis by blast
  next
    case (Some members)
    obtain k where k: "classify_existing (Some members) project = Inr k"
      using i(2) Some by (auto simp: validate_existing_def rbind_Inr_iff)
    have "k = Setup_kind"
    proof (cases k)
      case Absent_kind
      with k show ?thesis
        by (auto simp: classify_existing_def rbind_Inr_iff Let_def simp del: jget.simps split: json.splits if_splits)
    qed (use i(2) Some k in \<open>simp_all add: validate_existing_def\<close>)
    with k have "classify_existing (Some members) project = Inr Setup_kind" by simp
    then obtain config labels env where c: "jget members ''Config'' = JObj config"
      "labels_of (jget config ''Labels'') = Inr labels" "environment_of (jget config ''Env'') = Inr env"
      "jget labels project_key = JStr project" "JStr setup_entry \<in> set env"
      by (rule classify_setup)
    have "inspect_json r = Some (JList [JObj members])"
      using i(1) Some by (auto simp: inspect_container_def split: if_splits option.splits json.splits list.splits)
    with c show ?thesis by blast
  qed
qed

text \<open>An integrated container is never let through, nor classified as one to set up.\<close>

lemma integrated_not_setup:
  "\<lbrakk>classify_existing i project = Inr Integrated_kind\<rbrakk> \<Longrightarrow> validate_existing i project require = Inl Integrated_exists"
  by (simp add: validate_existing_def)

lemma guard_lets_through_witness:
  "\<exists>members. Some (JList [JObj [(''Config'', JObj [(''Labels'', JObj [(project_key, JStr ''myst'')]),
      (''Env'', JList [JStr setup_entry])])]]) = Some (JList [JObj members])"
  using guard_lets_through [of "\<lparr>inspect_code = 0, inspect_out = [], inspect_err = [],
      inspect_json = Some (JList [JObj [(''Config'', JObj [(''Labels'', JObj [(project_key, JStr ''myst'')]),
      (''Env'', JList [JStr setup_entry])])]])\<rparr>" "''myst''" True None]
  by (simp add: main_def inspect_container_def validate_existing_def classify_existing_def labels_of_def
      environment_of_def json_falsy_def project_key_def setup_entry_def)

end
