(* ===== verification/Tor_Health.thy ===== *)
theory Tor_Health
  imports PyText
begin

text \<open>
  The health check of the tor container: \<open>src/tor/healthcheck.py\<close>. Bytes are characters; what
  tor sends over the control socket is one byte sequence, after which the stream ends (a time-out ends
  it too: both make the check fail).
\<close>

section \<open>Control replies\<close>

definition max_line :: nat where
  "max_line = 4096"

definition max_total :: nat where
  "max_total = 16384"

text \<open>\<open>stream.readline(limit)\<close> on an unbuffered stream: nothing is read past the line.\<close>

definition read_line :: "nat \<Rightarrow> bytes \<Rightarrow> bytes \<times> bytes" where
  "read_line limit s =
     (let k = min limit (length (takeWhile (\<lambda>c. c \<noteq> CHR 0x0A) s) + 1) in (take k s, drop k s))"

definition crlf :: bytes where
  "crlf = [CHR 0x0D, CHR 0x0A]"

lemma read_line_append: "read_line n s = (l, t) \<Longrightarrow> l @ t = s"
  by (auto simp: read_line_def Let_def)

lemma read_line_shorter: "(l, t) = read_line n s \<Longrightarrow> l \<noteq> [] \<Longrightarrow> length t < length s"
  using read_line_append [of n s l t] by auto

text \<open>What a line of a reply says: that it is the last one, that more follow, or that the framing is
  not the protocol's.\<close>

datatype framing = Last_line | More_lines | Bad_line

definition line_framing :: "bytes \<Rightarrow> framing" where
  "line_framing line =
     (if length line < 4 \<or> \<not> list_all is_digit (take 3 line) then Bad_line
      else if line ! 3 = CHR '' '' then Last_line
      else if line ! 3 = CHR ''-'' then More_lines else Bad_line)"

text \<open>\<open>read_reply\<close>: the lines without their ends and what is left, or \<open>HealthError\<close> as \<open>None\<close>. \<close>

function read_from :: "nat \<Rightarrow> bytes list \<Rightarrow> bytes \<Rightarrow> (bytes list \<times> bytes) option" where
  "read_from seen ls s =
     (case read_line (Suc max_line) s of (line, t) \<Rightarrow>
        if line = [] \<or> max_line < length line \<or> \<not> ends_with line crlf then None
        else if max_total < seen + length line then None
        else case line_framing line of
          Bad_line \<Rightarrow> None
        | Last_line \<Rightarrow> Some (ls @ [take (length line - 2) line], t)
        | More_lines \<Rightarrow> read_from (seen + length line) (ls @ [take (length line - 2) line]) t)"
  by pat_completeness auto
termination
  by (relation "measure (\<lambda>(seen, ls, s). length s)") (auto dest: read_line_shorter)

declare read_from.simps [simp del]

definition read_reply :: "bytes \<Rightarrow> (bytes list \<times> bytes) option" where
  "read_reply s = read_from 0 [] s"

section \<open>The check\<close>

text \<open>\<open>command\<close>: the bytes sent, and the reply when its last line has status 250.\<close>

definition control_command :: "bytes \<Rightarrow> bytes \<Rightarrow> bytes \<times> (bytes list \<times> bytes) option" where
  "control_command value s = (value @ crlf,
     (case read_reply s of
        None \<Rightarrow> None
      | Some (ls, t) \<Rightarrow> (if starts_with (last ls) ''250 '' then Some (ls, t) else None)))"

definition progress_prefix :: bytes where
  "progress_prefix = ''250-status/bootstrap-phase=NOTICE BOOTSTRAP PROGRESS=''"

text \<open>\<open>BOOTSTRAP_PROGRESS_RE.match\<close>: one to three digits after the prefix, then a blank or the end of
  the line.\<close>

definition match_progress :: "bytes \<Rightarrow> bytes option" where
  "match_progress line =
     (if starts_with line progress_prefix
      then (let t = drop (length progress_prefix) line;
                d = takeWhile is_digit t; rest = dropWhile is_digit t
            in if d \<noteq> [] \<and> length d \<le> 3 \<and> (rest = [] \<or> hd rest = CHR '' '') then Some d else None)
      else None)"

definition parse_bootstrap_progress :: "bytes list \<Rightarrow> nat option" where
  "parse_bootstrap_progress reply = (case List.map_filter match_progress reply of
     [d] \<Rightarrow> (if dec_nat d \<le> 100 then Some (dec_nat d) else None)
   | _ \<Rightarrow> None)"

definition bytes_hex :: "bytes \<Rightarrow> bytes" where
  "bytes_hex b = concat (map (\<lambda>c. [hex_char (ord_c c div 16), hex_char (ord_c c mod 16)]) b)"

text \<open>The cookie is \<open>None\<close> when it cannot be read; \<open>None\<close> for the peer is a socket that does not
  connect. The first part of the result is what was sent.\<close>

definition bootstrap_progress :: "bytes option \<Rightarrow> bytes option \<Rightarrow> bytes list \<times> nat option" where
  "bootstrap_progress cookie peer = (case (cookie, peer) of
     (Some k, Some s) \<Rightarrow>
       (if length k \<noteq> 32 then ([], None)
        else case control_command (''AUTHENTICATE '' @ bytes_hex k) s of
          (sent, None) \<Rightarrow> ([sent], None)
        | (sent, Some (_, t)) \<Rightarrow>
            (case control_command ''GETINFO status/bootstrap-phase'' t of
               (sent', None) \<Rightarrow> ([sent, sent'], None)
             | (sent', Some (ls, _)) \<Rightarrow> ([sent, sent'], parse_bootstrap_progress ls)))
   | _ \<Rightarrow> ([], None))"

definition exit_status :: "bytes option \<Rightarrow> bytes option \<Rightarrow> nat" where
  "exit_status cookie peer = (if snd (bootstrap_progress cookie peer) = Some 100 then 0 else 1)"

section \<open>What a reply is read as\<close>

definition reply_line :: "bytes \<Rightarrow> bool" where
  "reply_line l \<longleftrightarrow> 4 \<le> length l \<and> length l + 2 \<le> max_line \<and> list_all is_digit (take 3 l) \<and> CHR 0x0A \<notin> set l"

definition well_formed_reply :: "bytes list \<Rightarrow> bool" where
  "well_formed_reply ls \<longleftrightarrow> ls \<noteq> [] \<and> list_all reply_line ls \<and>
     list_all (\<lambda>l. l ! 3 = CHR ''-'') (butlast ls) \<and> last ls ! 3 = CHR '' '' \<and>
     sum_list (map (\<lambda>l. length l + 2) ls) \<le> max_total"

definition reply_bytes :: "bytes list \<Rightarrow> bytes" where
  "reply_bytes ls = concat (map (\<lambda>l. l @ crlf) ls)"

lemma read_line_whole:
  "\<lbrakk>CHR 0x0A \<notin> set l; length l < n\<rbrakk> \<Longrightarrow> read_line n (l @ CHR 0x0A # s) = (l @ [CHR 0x0A], s)"
  by (simp add: read_line_def takeWhile_tail)

lemma read_line_crlf:
  "reply_line l \<Longrightarrow> read_line (Suc max_line) (l @ crlf @ s) = (l @ crlf, s)"
  using read_line_whole [of "l @ [CHR 0x0D]" "Suc max_line" s] by (simp add: reply_line_def crlf_def)

lemma read_from_line:
  assumes "reply_line l" "seen + length l + 2 \<le> max_total"
  shows "read_from seen acc (l @ crlf @ s) =
     (if l ! 3 = CHR '' '' then Some (acc @ [l], s)
      else if l ! 3 = CHR ''-'' then read_from (seen + length l + 2) (acc @ [l]) s else None)"
proof -
  have n: "l ! 3 = (l @ crlf) ! 3" "take 3 (l @ crlf) = take 3 l"
    using assms(1) by (auto simp: reply_line_def nth_append)
  have f: "line_framing (l @ crlf) =
      (if l ! 3 = CHR '' '' then Last_line else if l ! 3 = CHR ''-'' then More_lines else Bad_line)"
    using assms(1) n by (simp add: line_framing_def reply_line_def crlf_def)
  have e: "ends_with (l @ crlf) crlf" by (auto simp: ends_with_iff)
  have len: "length (l @ crlf) = length l + 2" "take (length l + 2 - 2) (l @ crlf) = l" by (simp_all add: crlf_def)
  have ok: "\<not> (l @ crlf = [] \<or> max_line < length l + 2 \<or> \<not> ends_with (l @ crlf) crlf)"
    "\<not> max_total < seen + (length l + 2)"
    using assms e by (simp_all add: reply_line_def crlf_def)
  show ?thesis
    unfolding read_from.simps [of seen acc "l @ crlf @ s"] read_line_crlf [OF assms(1)] case_prod_conv len
      if_not_P [OF ok(1)] if_not_P [OF ok(2)] f
    by (simp add: add.assoc)
qed

lemma read_from_reply:
  "\<lbrakk>ls \<noteq> []; list_all reply_line ls; list_all (\<lambda>l. l ! 3 = CHR ''-'') (butlast ls); last ls ! 3 = CHR '' '';
    seen + sum_list (map (\<lambda>l. length l + 2) ls) \<le> max_total\<rbrakk>
    \<Longrightarrow> read_from seen acc (reply_bytes ls @ s) = Some (acc @ ls, s)"
proof (induction ls arbitrary: seen acc)
  case (Cons l ls)
  have b: "reply_bytes (l # ls) @ s = l @ crlf @ (reply_bytes ls @ s)" by (simp add: reply_bytes_def)
  have r: "reply_line l" "seen + length l + 2 \<le> max_total" using Cons.prems by auto
  show ?case
  proof (cases "ls = []")
    case True
    with Cons.prems r show ?thesis by (simp add: b read_from_line reply_bytes_def)
  next
    case False
    then have "l ! 3 = CHR ''-''" using Cons.prems(3) by simp
    moreover have "read_from (seen + length l + 2) (acc @ [l]) (reply_bytes ls @ s) = Some ((acc @ [l]) @ ls, s)"
      using False Cons.prems by (intro Cons.IH) auto
    ultimately show ?thesis using r by (simp add: b read_from_line)
  qed
qed simp

text \<open>
  A reply with the protocol's framing, whose lines and whose total length are within
  the limits, is read back line for line, and not a byte of what follows it is consumed.
\<close>

theorem control_reply_read_back:
  assumes "well_formed_reply ls"
  shows "read_reply (reply_bytes ls @ s) = Some (ls, s)"
  using assms read_from_reply [of ls 0 "[]" s] by (simp add: well_formed_reply_def read_reply_def)

lemma control_reply_read_back_witness:
  "read_reply (reply_bytes [''250-status/bootstrap-phase=NOTICE BOOTSTRAP PROGRESS=100 TAG=done'', ''250 OK''] @ ''250'')
    = Some ([''250-status/bootstrap-phase=NOTICE BOOTSTRAP PROGRESS=100 TAG=done'', ''250 OK''], ''250'')"
  by (rule control_reply_read_back) code_simp

text \<open>What is read of a reply is bounded, and its lines are what was sent.\<close>

lemma read_from_bounded:
  "\<lbrakk>read_from seen acc s = Some (ls, t); seen \<le> max_total\<rbrakk>
    \<Longrightarrow> \<exists>new. s = new @ t \<and> seen + length new \<le> max_total \<and> length acc < length ls"
proof (induction seen acc s rule: read_from.induct)
  case (1 seen acc s)
  obtain line u where r: "read_line (Suc max_line) s = (line, u)" by fastforce
  have s: "s = line @ u" using read_line_append [OF r] by simp
  have ok: "line \<noteq> []" "\<not> max_line < length line" "ends_with line crlf" "seen + length line \<le> max_total"
    using "1.prems"(1) r by (auto simp: read_from.simps [of seen acc s] split: if_splits)
  show ?case
  proof (cases "line_framing line")
    case Last_line
    with "1.prems"(1) r ok have "ls = acc @ [take (length line - 2) line]" "t = u"
      by (auto simp: read_from.simps [of seen acc s])
    with s ok show ?thesis by auto
  next
    case More_lines
    with "1.prems"(1) r ok have "read_from (seen + length line) (acc @ [take (length line - 2) line]) u = Some (ls, t)"
      by (simp add: read_from.simps [of seen acc s])
    then obtain new where "u = new @ t" "seen + length line + length new \<le> max_total"
        "length (acc @ [take (length line - 2) line]) < length ls"
      using "1.IH" [OF r [symmetric]] ok More_lines by fastforce
    with s show ?thesis by (intro exI [of _ "line @ new"]) auto
  next
    case Bad_line
    with "1.prems"(1) r ok show ?thesis by (simp add: read_from.simps [of seen acc s])
  qed
qed

text \<open>
  The check succeeds only with a cookie of 32 bytes, after tor accepted it, and when
  exactly one line of the second reply states the progress and states it as 100.
\<close>

theorem healthy_only_when_bootstrapped:
  assumes "exit_status cookie peer = 0"
  shows "\<exists>k s ls t ls' u d. cookie = Some k \<and> length k = 32 \<and> peer = Some s \<and>
    read_reply s = Some (ls, t) \<and> starts_with (last ls) ''250 '' \<and>
    read_reply t = Some (ls', u) \<and> starts_with (last ls') ''250 '' \<and>
    List.map_filter match_progress ls' = [d] \<and> dec_nat d = 100"
proof -
  obtain k s where ks: "cookie = Some k" "peer = Some s" "length k = 32"
    using assms by (auto simp: exit_status_def bootstrap_progress_def split: option.splits if_splits)
  obtain ls t where a: "read_reply s = Some (ls, t)" "starts_with (last ls) ''250 ''"
    using assms ks by (auto simp: exit_status_def bootstrap_progress_def control_command_def split: option.splits if_splits)
  obtain ls' u where b: "read_reply t = Some (ls', u)" "starts_with (last ls') ''250 ''"
    using assms ks a by (auto simp: exit_status_def bootstrap_progress_def control_command_def split: option.splits if_splits)
  have "parse_bootstrap_progress ls' = Some 100"
    using assms ks a b by (auto simp: exit_status_def bootstrap_progress_def control_command_def split: if_splits)
  then obtain d where "List.map_filter match_progress ls' = [d]" "dec_nat d = 100"
    by (auto simp: parse_bootstrap_progress_def split: list.splits if_splits)
  with ks a b show ?thesis by blast
qed

lemma healthy_only_when_bootstrapped_witness:
  "\<exists>k s ls t ls' u d. Some (replicate 32 (CHR ''k'')) = Some k \<and> length k = 32 \<and>
    Some (reply_bytes [''250 OK'', ''250-status/bootstrap-phase=NOTICE BOOTSTRAP PROGRESS=100 TAG=done'', ''250 OK'']) = Some s \<and>
    read_reply s = Some (ls, t) \<and> starts_with (last ls) ''250 '' \<and>
    read_reply t = Some (ls', u) \<and> starts_with (last ls') ''250 '' \<and>
    List.map_filter match_progress ls' = [d] \<and> dec_nat d = 100"
  by (rule healthy_only_when_bootstrapped) code_simp

end
