(* ===== verification/Beat_Watchdog.thy ===== *)
theory Beat_Watchdog
  imports Complex_Main PyText
begin

text \<open>
  The watchdog of the scheduler's liveness file: \<open>src/onyx/beat_liveness_watchdog.py\<close>. The
  loop runs for ever; it is modelled on the list of what its rounds observe. Times are rationals.
\<close>

section \<open>One round\<close>

text \<open>What \<open>path.lstat()\<close> answers: that there is no such file, the metadata, or another
  \<open>OSError\<close>.\<close>

datatype file_look =
    Absent
  | Unreadable
  | Meta (is_link: bool) (is_regular: bool) (owner: nat) (mtime: rat)

text \<open>A round: the clocks after the sleep, the look at the file, and for a restart whether
  \<open>supervisorctl\<close> ends with status 0 and the clock when it does.\<close>

record round =
  now_mono :: rat
  now_wall :: rat
  look :: file_look
  restarted_ok :: bool
  mono_after :: rat

record watch_state =
  started :: rat
  missing_observations :: nat

definition stale_after :: rat where
  "stale_after = 1200"

definition startup_grace :: rat where
  "startup_grace = 1200"

definition valid_mtime :: "file_look \<Rightarrow> nat \<Rightarrow> rat \<Rightarrow> rat option" where
  "valid_mtime l uid wall = (case l of
     Meta link regular own t \<Rightarrow>
       (if link \<or> \<not> regular then None else if own \<noteq> uid \<or> wall + 1 < t then None else Some t)
   | _ \<Rightarrow> None)"

datatype reason = Stale | Missing

text \<open>Why a round restarts the scheduler, if it does.\<close>

definition verdict :: "nat \<Rightarrow> watch_state \<Rightarrow> round \<Rightarrow> reason option" where
  "verdict uid st r =
     (let t = valid_mtime (look r) uid (now_wall r);
          missing = (if t = None then missing_observations st + 1 else 0);
          in_grace = now_mono r - started st \<le> startup_grace;
          stale = (case t of None \<Rightarrow> False | Some m \<Rightarrow> stale_after < now_wall r - m);
          invalid = (t = None \<and> 2 \<le> missing)
      in if in_grace \<or> \<not> (stale \<or> invalid) then None else Some (if stale then Stale else Missing))"

definition next_state :: "nat \<Rightarrow> watch_state \<Rightarrow> round \<Rightarrow> watch_state" where
  "next_state uid st r =
     (if verdict uid st r = None
      then st\<lparr>missing_observations :=
        (if valid_mtime (look r) uid (now_wall r) = None then missing_observations st + 1 else 0)\<rparr>
      else \<lparr>started = mono_after r, missing_observations = 0\<rparr>)"

text \<open>\<open>watch\<close>: the restarts of the rounds, until an exception of \<open>lstat\<close> or of
  \<open>run(check=True)\<close> ends the loop.\<close>

fun watch_rounds :: "nat \<Rightarrow> watch_state \<Rightarrow> round list \<Rightarrow> (round \<times> reason) list" where
  "watch_rounds uid st [] = []"
| "watch_rounds uid st (r # rs) =
     (if look r = Unreadable then []
      else case verdict uid st r of
        None \<Rightarrow> watch_rounds uid (next_state uid st r) rs
      | Some why \<Rightarrow> (r, why) # (if restarted_ok r then watch_rounds uid (next_state uid st r) rs else []))"

definition expected_path :: pystr where
  "expected_path = ''/tmp/onyx_k8s_beat_liveness.txt''"

text \<open>The command: \<open>None\<close> is its \<open>RuntimeError\<close>.\<close>

definition main :: "pystr \<Rightarrow> pystr \<Rightarrow> nat \<Rightarrow> rat \<Rightarrow> round list \<Rightarrow> (round \<times> reason) list option" where
  "main path program uid start rs =
     (if program \<noteq> ''celery_beat'' \<or> path \<noteq> expected_path then None
      else Some (watch_rounds uid \<lparr>started = start, missing_observations = 0\<rparr> rs))"

section \<open>When the scheduler is restarted\<close>

text \<open>The start times: the given one, then for each restart the time at which it ended.\<close>

fun graceful :: "rat \<Rightarrow> (round \<times> reason) list \<Rightarrow> bool" where
  "graceful t [] = True"
| "graceful t ((r, why) # rest) = (t + startup_grace < now_mono r \<and> graceful (mono_after r) rest)"

lemma rounds_graceful: "graceful (started st) (watch_rounds uid st rs)"
proof (induction rs arbitrary: st)
  case (Cons r rs)
  show ?case
  proof (cases "verdict uid st r")
    case None
    then have "started (next_state uid st r) = started st" by (simp add: next_state_def)
    with Cons [of "next_state uid st r"] None show ?thesis by simp
  next
    case (Some why)
    then have "started st + startup_grace < now_mono r"
      by (auto simp: verdict_def Let_def split: if_splits)
    moreover have "started (next_state uid st r) = mono_after r" using Some by (simp add: next_state_def)
    ultimately show ?thesis using Cons [of "next_state uid st r"] Some by auto
  qed
qed simp

text \<open>
  Every restart comes more than the start-up grace after the start of the watchdog, and
  after the end of the restart before it.
\<close>

theorem restarts_spaced: "graceful start (case main path program uid start rs of None \<Rightarrow> [] | Some l \<Rightarrow> l)"
  using rounds_graceful [of "\<lparr>started = start, missing_observations = 0\<rparr>" uid rs]
  by (simp add: main_def)

text \<open>A file that is written often enough.\<close>

definition fresh :: "nat \<Rightarrow> round \<Rightarrow> bool" where
  "fresh uid r \<longleftrightarrow> (case valid_mtime (look r) uid (now_wall r) of
     None \<Rightarrow> False | Some t \<Rightarrow> now_wall r - t \<le> stale_after)"

lemma fresh_no_verdict: "fresh uid r \<Longrightarrow> verdict uid st r = None"
  by (auto simp: fresh_def verdict_def Let_def split: option.splits)

text \<open>
  As long as the file is a regular one of the same user and its time is not older than the
  limit, the scheduler is never restarted.
\<close>

theorem live_scheduler_not_restarted:
  assumes "list_all (fresh uid) rs"
  shows "watch_rounds uid st rs = []"
  using assms by (induction rs arbitrary: st) (auto simp: fresh_no_verdict)

text \<open>A round in which the file shows no life: it is missing, is not the expected one, or is stale.\<close>

definition lifeless :: "nat \<Rightarrow> round \<Rightarrow> bool" where
  "lifeless uid r \<longleftrightarrow> look r \<noteq> Unreadable \<and> \<not> fresh uid r"

lemma lifeless_verdict:
  assumes "lifeless uid r" "started st + startup_grace < now_mono r"
    "1 \<le> missing_observations st \<or> valid_mtime (look r) uid (now_wall r) \<noteq> None"
  shows "verdict uid st r \<noteq> None"
  using assms by (auto simp: lifeless_def fresh_def verdict_def Let_def split: option.splits)

text \<open>
  Two lifeless rounds in a row after the grace lead to a restart: in the first of them,
  or in the second.
\<close>

theorem dead_scheduler_restarted:
  assumes "lifeless uid r1" "lifeless uid r2" "started st + startup_grace < now_mono r1"
    "now_mono r1 \<le> now_mono r2"
  shows "watch_rounds uid st (r1 # r2 # rs) \<noteq> []"
proof (cases "verdict uid st r1")
  case (Some why)
  with assms(1) show ?thesis by (simp add: lifeless_def)
next
  case None
  have "valid_mtime (look r1) uid (now_wall r1) = None"
    using lifeless_verdict [OF assms(1,3)] None by (cases "valid_mtime (look r1) uid (now_wall r1)") simp_all
  with None have "missing_observations (next_state uid st r1) \<ge> 1" "started (next_state uid st r1) = started st"
    by (simp_all add: next_state_def)
  then have "verdict uid (next_state uid st r1) r2 \<noteq> None"
    using lifeless_verdict [OF assms(2), of "next_state uid st r1"] assms(3,4) by auto
  with None assms(1,2) show ?thesis by (auto simp: lifeless_def)
qed

definition lost_round :: "rat \<Rightarrow> round" where
  "lost_round t = \<lparr>now_mono = t, now_wall = t, look = Absent, restarted_ok = True, mono_after = t + 1\<rparr>"

definition live_round :: "rat \<Rightarrow> round" where
  "live_round t = \<lparr>now_mono = t, now_wall = t, look = Meta False True 7 (t - 60), restarted_ok = True, mono_after = t\<rparr>"

lemma live_scheduler_not_restarted_witness:
  "watch_rounds 7 \<lparr>started = 0, missing_observations = 0\<rparr> [live_round 1500, live_round 1800] = []"
  by (rule live_scheduler_not_restarted)
    (simp add: fresh_def live_round_def valid_mtime_def stale_after_def)

lemma dead_scheduler_restarted_witness:
  "watch_rounds 7 \<lparr>started = 0, missing_observations = 0\<rparr> [lost_round 1500, lost_round 1800] \<noteq> []"
  by (rule dead_scheduler_restarted)
    (simp_all add: lifeless_def fresh_def lost_round_def valid_mtime_def startup_grace_def)

end
