(* ===== verification/Engine_Checks.thy ===== *)
theory Engine_Checks
  imports Complex_Main Workflow PyLines PyUrl PyData Tor_Config
begin

text \<open>
  The checks of the container engines: the first half of \<open>src/podman/startup_health.py\<close>. The
  engines, the file system, the clock and \<open>json.loads\<close> are one world of functions on a state;
  every command that is run is an event. Messages of errors are left out.
\<close>

section \<open>The world\<close>

text \<open>\<open>ContractError\<close>, \<open>CalledProcessError\<close>, \<open>OSError\<close>, \<open>JSONDecodeError\<close>, and
  the exceptions the code does not expect; the last one stops a loop of the model.\<close>

datatype sh_error = Contract | Called | Os_failed | Not_json | Key_missing | Fault | Out_of_fuel

text \<open>What a command answers: it cannot be started, or its status and its output.\<close>

datatype reply = Not_started | Ended int pystr

definition ended_ok :: "reply \<Rightarrow> bool" where
  "ended_ok r = (case r of Not_started \<Rightarrow> False | Ended c _ \<Rightarrow> c = 0)"

datatype path_kind = Nothing_there | Some_file | Directory

datatype sh_event =
    Command "pystr list"
  | Warning
  | Make_dirs pystr

record 'm host =
  answer :: "pystr list \<Rightarrow> pystr option \<Rightarrow> 'm \<Rightarrow> reply \<times> 'm"
  json_of :: "pystr \<Rightarrow> json option"
  path_kind :: "'m \<Rightarrow> pystr \<Rightarrow> path_kind"
  has_entries :: "'m \<Rightarrow> pystr \<Rightarrow> bool option"
  make_dirs :: "bool \<Rightarrow> pystr \<Rightarrow> 'm \<Rightarrow> (bool \<times> 'm)"
  clock :: "'m \<Rightarrow> rat"
  sleep :: "rat \<Rightarrow> 'm \<Rightarrow> 'm"
  fresh_hex :: "'m \<Rightarrow> pystr"
  abspath :: "pystr \<Rightarrow> pystr"
  environ :: "pystr \<rightharpoonup> pystr"
  on_darwin :: bool
  codecs :: codec

type_synonym ('m, 'a) sh = "('m, sh_event, sh_error, 'a) run"

text \<open>\<open>_run\<close>, with \<open>check\<close> and an input.\<close>

definition run_any :: "'m host \<Rightarrow> pystr option \<Rightarrow> pystr list \<Rightarrow> ('m, int \<times> pystr) sh" where
  "run_any w stdin line s = (case answer w line stdin s of (r, s') \<Rightarrow>
     ([Command line], s', case r of Not_started \<Rightarrow> Inl Os_failed | Ended c out \<Rightarrow> Inr (c, out)))"

definition run_checked :: "'m host \<Rightarrow> pystr option \<Rightarrow> pystr list \<Rightarrow> ('m, pystr) sh" where
  "run_checked w stdin line =
     wf_bind (run_any w stdin line) (\<lambda>(c, out). if c \<noteq> 0 then wf_stop Called else wf_ret out)"

abbreviation run_ok :: "'m host \<Rightarrow> pystr list \<Rightarrow> ('m, pystr) sh" where
  "run_ok w \<equiv> run_checked w None"

text \<open>\<open>except (OSError, CalledProcessError)\<close>, and the same with \<open>JSONDecodeError\<close>.\<close>

definition contract_on :: "sh_error set \<Rightarrow> ('m, 'a) sh \<Rightarrow> ('m, 'a) sh" where
  "contract_on errors m = wf_catch m (\<lambda>e. wf_stop (if e \<in> errors then Contract else e))"

definition read_state :: "('m \<Rightarrow> 'a) \<Rightarrow> ('m, 'a) sh" where
  "read_state f s = ([], s, Inr (f s))"

definition loads :: "'m host \<Rightarrow> pystr \<Rightarrow> sh_error + json" where
  "loads w s = (case json_of w s of None \<Rightarrow> Inl Not_json | Some v \<Rightarrow> Inr v)"

text \<open>\<open>v.get(k)\<close> and \<open>v.get(k, d)\<close> on a value that should be an object, and \<open>v[k]\<close>.\<close>

definition get_or :: "json \<Rightarrow> json \<Rightarrow> pystr \<Rightarrow> sh_error + json" where
  "get_or d v k = (case v of
     JObj m \<Rightarrow> Inr (case map_of m k of None \<Rightarrow> d | Some x \<Rightarrow> x)
   | _ \<Rightarrow> Inl Fault)"

abbreviation get_field :: "json \<Rightarrow> pystr \<Rightarrow> sh_error + json" where
  "get_field \<equiv> get_or JNull"

definition item_at :: "json \<Rightarrow> pystr \<Rightarrow> sh_error + json" where
  "item_at v k = (case v of
     JObj m \<Rightarrow> (case map_of m k of None \<Rightarrow> Inl Key_missing | Some x \<Rightarrow> Inr x)
   | _ \<Rightarrow> Inl Fault)"

section \<open>Docker\<close>

definition base_name :: "pystr \<Rightarrow> pystr" where
  "base_name p = rev (takeWhile (\<lambda>c. c \<noteq> CHR ''/'') (rev p))"

definition podman_binary :: "pystr \<Rightarrow> bool" where
  "podman_binary b = contains (py_lower (base_name b)) ''podman''"

text \<open>The server version: three numbers, and a suffix that starts with a minus or a plus.\<close>

definition suffix_c :: "char \<Rightarrow> bool" where
  "suffix_c c \<longleftrightarrow> is_alpha_ascii c \<or> is_digit c \<or> c \<in> set ''._-''"

definition take_number :: "pystr \<Rightarrow> (nat \<times> pystr) option" where
  "take_number s = (let d = takeWhile is_digit s in if d = [] then None else Some (dec_nat d, dropWhile is_digit s))"

definition take_dot :: "pystr \<Rightarrow> pystr option" where
  "take_dot s = (case s of c # t \<Rightarrow> (if c = CHR ''.'' then Some t else None) | [] \<Rightarrow> None)"

definition suffix_ok :: "pystr \<Rightarrow> bool" where
  "suffix_ok s = (case s of
     [] \<Rightarrow> True
   | c # t \<Rightarrow> (c = CHR ''-'' \<or> c = CHR ''+'') \<and> t \<noteq> [] \<and> list_all suffix_c t)"

definition parse_release :: "pystr \<Rightarrow> (nat \<times> nat \<times> nat) option" where
  "parse_release s =
     Option.bind (take_number s) (\<lambda>(a, s1). Option.bind (take_dot s1) (\<lambda>s2.
     Option.bind (take_number s2) (\<lambda>(b, s3). Option.bind (take_dot s3) (\<lambda>s4.
     Option.bind (take_number s4) (\<lambda>(c, s5). if suffix_ok s5 then Some (a, b, c) else None)))))"

definition version_less :: "nat \<times> nat \<times> nat \<Rightarrow> nat \<times> nat \<times> nat \<Rightarrow> bool" where
  "version_less v w = (case (v, w) of ((a, b, c), (a', b', c')) \<Rightarrow>
     a < a' \<or> a = a' \<and> (b < b' \<or> b = b' \<and> c < c'))"

definition prerelease :: "pystr \<Rightarrow> bool" where
  "prerelease v = list_ex (contains (py_lower v)) [''-alpha'', ''-beta'', ''-rc'', ''-dev'']"

definition gateway_mode_of :: "pystr \<Rightarrow> sh_error + pystr" where
  "gateway_mode_of version = (case parse_release version of
     None \<Rightarrow> Inl Contract
   | Some r \<Rightarrow>
       (if version_less r (25, 0, 5) \<or> prerelease version then Inl Contract
        else Inr (if 28 \<le> fst r then ''isolated'' else ''ordinary'')))"

definition docker_gateway_mode :: "'m host \<Rightarrow> pystr \<Rightarrow> pystr option \<Rightarrow> ('m, pystr) sh" where
  "docker_gateway_mode w b expected =
     (if podman_binary b then wf_stop Contract
      else wf_bind (contract_on {Os_failed, Called} (run_ok w [b, ''version'', ''--format'', ''{{.Server.Version}}''])) (\<lambda>out.
           wf_bind (wf_from (gateway_mode_of (py_strip out))) (\<lambda>mode.
             if expected \<noteq> None \<and> expected \<noteq> Some mode then wf_stop Contract
             else if expected \<noteq> None \<and> mode = ''ordinary'' then wf_bind (wf_log Warning) (\<lambda>_. wf_ret mode)
             else wf_ret mode)))"

fun text_items :: "json list \<Rightarrow> pystr list option" where
  "text_items [] = Some []"
| "text_items (JStr t # vs) = map_option ((#) t) (text_items vs)"
| "text_items (v # vs) = None"

definition engine_mode_of :: "json \<Rightarrow> sh_error + pystr" where
  "engine_mode_of v = (case v of
     JList items \<Rightarrow> (case text_items items of
         None \<Rightarrow> Inl Contract
       | Some options \<Rightarrow>
           (let names = map (\<lambda>t. takeWhile (\<lambda>c. c \<noteq> CHR '','') t) options
            in Inr (if ''name=rootless'' \<in> set names then ''rootless''
                    else if ''name=userns'' \<in> set names then ''userns-remap'' else ''rootful'')))
   | _ \<Rightarrow> Inl Contract)"

definition docker_engine_mode :: "'m host \<Rightarrow> pystr \<Rightarrow> ('m, pystr) sh" where
  "docker_engine_mode w b =
     (if podman_binary b then wf_stop Contract
      else wf_bind (contract_on {Not_json, Os_failed, Called}
             (wf_bind (run_ok w [b, ''info'', ''--format'', ''{{json .SecurityOptions}}''])
               (\<lambda>out. wf_from (loads w (py_strip out))))) (\<lambda>v. wf_from (engine_mode_of v)))"

definition check_docker_engine :: "'m host \<Rightarrow> pystr \<Rightarrow> pystr option \<Rightarrow> ('m, pystr) sh" where
  "check_docker_engine w b expected =
     wf_bind (docker_engine_mode w b) (\<lambda>mode.
       if mode = ''userns-remap'' then wf_stop Contract
       else case expected of
         None \<Rightarrow> wf_ret mode
       | Some e \<Rightarrow> (if e \<noteq> [] \<and> e \<noteq> mode then wf_stop Contract else wf_ret mode))"

definition is_abs :: "pystr \<Rightarrow> bool" where
  "is_abs p = starts_with p ''/''"

definition socket_of_endpoint :: "codec \<Rightarrow> pystr \<Rightarrow> sh_error + pystr" where
  "socket_of_endpoint u endpoint = (case urlsplit endpoint of
     Inl _ \<Rightarrow> Inl Fault
   | Inr p \<Rightarrow>
       (if u_scheme p \<noteq> ''unix'' \<or> u_netloc p \<noteq> [] \<or> u_path p = [] then Inl Contract
        else let path = unquote u (u_path p) in if is_abs path then Inr path else Inl Contract))"

definition env_stripped :: "'m host \<Rightarrow> pystr \<Rightarrow> pystr" where
  "env_stripped w n = (case environ w n of None \<Rightarrow> [] | Some v \<Rightarrow> py_strip v)"

definition docker_socket_path :: "'m host \<Rightarrow> pystr \<Rightarrow> ('m, pystr) sh" where
  "docker_socket_path w b =
     wf_bind (if env_stripped w ''DOCKER_HOST'' \<noteq> [] then wf_ret (env_stripped w ''DOCKER_HOST'')
              else wf_bind (contract_on {Os_failed, Called}
                     (run_ok w [b, ''context'', ''inspect'', ''--format'', ''{{.Endpoints.docker.Host}}'']))
                   (\<lambda>out. wf_ret (py_strip out))) (\<lambda>endpoint.
     wf_from (socket_of_endpoint (codecs w) endpoint))"

section \<open>Podman\<close>

definition first_abs :: "pystr list \<Rightarrow> pystr option" where
  "first_abs ls = find is_abs (map py_strip ls)"

text \<open>A command that fails is passed over.\<close>

fun first_socket :: "'m host \<Rightarrow> pystr list list \<Rightarrow> ('m, pystr) sh" where
  "first_socket w [] = wf_stop Contract"
| "first_socket w (c # cs) =
     wf_bind (wf_catch (wf_bind (run_ok w c) (\<lambda>out. wf_ret (first_abs (splitlines out))))
               (\<lambda>e. if e = Os_failed \<or> e = Called then wf_ret None else wf_stop e)) (\<lambda>found.
       case found of Some path \<Rightarrow> wf_ret path | None \<Rightarrow> first_socket w cs)"

definition engine_socket_path :: "'m host \<Rightarrow> pystr \<Rightarrow> ('m, pystr) sh" where
  "engine_socket_path w b =
     (if \<not> podman_binary b then docker_socket_path w b
      else first_socket w
        [[b, ''machine'', ''inspect'', ''--format'', ''{{.ConnectionInfo.PodmanSocket.Path}}''],
         [b, ''info'', ''--format'', ''{{.Host.RemoteSocket.Path}}'']])"

definition require_podman_binary :: "pystr \<Rightarrow> ('m, unit) sh" where
  "require_podman_binary b = (if podman_binary b then wf_ret () else wf_stop Contract)"

text \<open>\<open>_version_tuple\<close>: the runs of digits of a text, padded to three.\<close>

definition digit_runs :: "pystr \<Rightarrow> nat list" where
  "digit_runs s = map dec_nat (filter (\<lambda>r. r \<noteq> []) (split_by (\<lambda>c. \<not> is_digit c) s))"

definition version_tuple :: "pystr \<Rightarrow> nat \<times> nat \<times> nat" where
  "version_tuple s = (case take 3 (digit_runs s @ [0, 0, 0]) of [a, b, c] \<Rightarrow> (a, b, c) | _ \<Rightarrow> (0, 0, 0))"

definition compose_capability_model :: pystr where
  "compose_capability_model = join [CHR 0x0A]
     [''services:'', ''  probe:'', ''    image: scratch'', ''    volumes: !override []'', ''    healthcheck:'',
      ''      test: ['' @ [dquote] @ ''NONE'' @ [dquote] @ '']'', ''      start_interval: 5s'', ''    networks:'',
      ''      default:'', ''        gw_priority: 1'', ''networks:'', ''  default: {}'', []]"

text \<open>The features the rendered model must show.\<close>

definition probe_missing :: "json \<Rightarrow> sh_error + bool" where
  "probe_missing rendered =
     rbind (item_at rendered ''services'') (\<lambda>services.
     rbind (item_at services ''probe'') (\<lambda>probe.
     rbind (item_at probe ''networks'') (\<lambda>networks.
     rbind (item_at networks ''default'') (\<lambda>network.
     rbind (item_at probe ''healthcheck'') (\<lambda>healthcheck.
     rbind (get_field network ''gw_priority'') (\<lambda>priority.
     rbind (get_field healthcheck ''start_interval'') (\<lambda>interval.
     rbind (get_field probe ''volumes'') (\<lambda>volumes.
       Inr (priority \<notin> {JInt 1, JBool True} \<or> interval \<noteq> JStr ''5s'' \<or> volumes \<notin> {JNull, JList []})))))))))"

definition check_compose_capability :: "'m host \<Rightarrow> pystr \<Rightarrow> ('m, pystr) sh" where
  "check_compose_capability w b =
     wf_bind (contract_on {Key_missing, Not_json, Os_failed, Called}
       (wf_bind (run_ok w [b, ''compose'', ''version'', ''--short'']) (\<lambda>version.
        wf_bind (run_checked w (Some compose_capability_model)
            [b, ''compose'', ''-f'', ''-'', ''config'', ''--format'', ''json'']) (\<lambda>out.
        wf_bind (wf_from (rbind (loads w out) probe_missing)) (\<lambda>missing. wf_ret (py_strip version, missing))))))
     (\<lambda>(version, missing). if missing then wf_stop Contract else wf_ret version)"

definition required_update_flags :: "pystr list" where
  "required_update_flags = [''--health-startup-cmd'', ''--health-startup-interval'', ''--health-startup-retries'',
     ''--health-startup-success'', ''--health-startup-timeout'']"

definition split_version :: "pystr \<Rightarrow> sh_error + pystr \<times> pystr" where
  "split_version out = (case split_on (CHR 0x09) (py_strip out) of [a, b] \<Rightarrow> Inr (a, b) | _ \<Rightarrow> Inl Contract)"

definition check_capability :: "'m host \<Rightarrow> pystr \<Rightarrow> ('m, pystr) sh" where
  "check_capability w b =
     wf_bind (require_podman_binary b) (\<lambda>_.
     wf_bind (contract_on {Os_failed, Called}
       (run_ok w [b, ''version'', ''--format'', ''{{.Server.Version}}'' @ [CHR 0x09] @ ''{{.Server.Os}}''])) (\<lambda>out.
     wf_bind (wf_from (split_version out)) (\<lambda>(version, os).
       if os \<noteq> ''linux'' then wf_stop Contract
       else wf_bind (if version_less (version_tuple version) (5, 4, 2) then wf_log Warning else wf_ret ()) (\<lambda>_.
            wf_bind (contract_on {Called} (run_ok w [b, ''images'', ''--format'', ''{{.ID}}''])) (\<lambda>_.
            wf_bind (check_compose_capability w b) (\<lambda>_.
            wf_bind (run_ok w [b, ''update'', ''--help'']) (\<lambda>help.
              if list_ex (\<lambda>f. \<not> contains help f) required_update_flags then wf_stop Contract
              else wf_ret version)))))))"

end
