(* ===== verification/Health_Config.thy ===== *)
theory Health_Config
  imports Engine_Checks
begin

text \<open>
  The start-up health checks of Podman containers: the second half of
  \<open>src/podman/startup_health.py\<close>. Compose's rendered model and the inspection of the
  containers are JSON values; a number with a fraction is a value equal to no integer.
\<close>

section \<open>Containers\<close>

record container_health =
  container_id :: json
  service :: json
  run_state :: json
  regular :: "json option"
  startup :: json
  health_status :: json

text \<open>\<open>_health_enabled\<close>.\<close>

definition health_enabled :: "json \<Rightarrow> bool" where
  "health_enabled v = (case v of
     JObj m \<Rightarrow> (case jget m ''Test'' of JList (t # ts) \<Rightarrow> t \<noteq> JStr ''NONE'' | _ \<Rightarrow> False)
   | _ \<Rightarrow> False)"

definition or_empty :: "json \<Rightarrow> json" where
  "or_empty v = (if json_falsy v then JObj [] else v)"

definition read_container :: "json \<Rightarrow> sh_error + container_health" where
  "read_container item =
     rbind (get_or (JObj []) item ''Config'') (\<lambda>config.
     rbind (get_field config ''Labels'') (\<lambda>labels.
     rbind (get_field (or_empty labels) ''com.docker.compose.service'') (\<lambda>svc.
       if json_falsy svc then Inl Contract
       else rbind (get_field config ''Healthcheck'') (\<lambda>reg.
            rbind (item_at item ''Id'') (\<lambda>cid.
            rbind (get_or (JObj []) item ''State'') (\<lambda>st.
            rbind (get_or (JStr ''unknown'') st ''Status'') (\<lambda>status.
            rbind (get_field config ''StartupHealthCheck'') (\<lambda>sup.
            rbind (get_field st ''Health'') (\<lambda>health.
            rbind (get_field (or_empty health) ''Status'') (\<lambda>hs.
              Inr \<lparr>container_id = cid, service = svc, run_state = status,
                   regular = (if health_enabled reg then Some reg else None), startup = sup,
                   health_status = hs\<rparr>))))))))))"

definition read_containers :: "json \<Rightarrow> sh_error + container_health list" where
  "read_containers v = (case v of JList items \<Rightarrow> rmapM read_container items
   | _ \<Rightarrow> (if v = JObj [] \<or> v = JStr [] then Inr [] else Inl Fault))"

definition load_containers :: "'m host \<Rightarrow> pystr \<Rightarrow> pystr \<Rightarrow> ('m, container_health list) sh" where
  "load_containers w b project =
     wf_bind (run_ok w [b, ''ps'', ''-a'', ''--filter'', ''label=com.docker.compose.project='' @ project,
         ''--format'', ''{{.ID}}'']) (\<lambda>out.
       let ids = filter (\<lambda>i. i \<noteq> []) (map py_strip (splitlines out))
       in if ids = [] then wf_stop Contract
          else wf_bind (run_ok w ([b, ''inspect''] @ ids)) (\<lambda>text.
               wf_from (rbind (loads w text) read_containers)))"

text \<open>\<open>assert_services_healthy\<close>: the last container of a service counts.\<close>

definition container_of :: "container_health list \<Rightarrow> pystr \<Rightarrow> container_health option" where
  "container_of cs s = find (\<lambda>c. service c = JStr s) (rev cs)"

definition healthy :: "container_health \<Rightarrow> bool" where
  "healthy c \<longleftrightarrow> run_state c = JStr ''running'' \<and> health_status c = JStr ''healthy''"

definition assert_services_healthy :: "'m host \<Rightarrow> pystr \<Rightarrow> pystr \<Rightarrow> pystr list \<Rightarrow> ('m, nat) sh" where
  "assert_services_healthy w b project services =
     (if services = [] then wf_stop Contract
      else wf_bind (load_containers w b project) (\<lambda>cs.
        if list_all (\<lambda>s. case container_of cs s of None \<Rightarrow> False | Some c \<Rightarrow> healthy c) services
        then wf_ret (length (remdups services)) else wf_stop Contract))"

section \<open>Durations\<close>

text \<open>A number with an optional fraction, then a unit; the units in the order of the pattern.\<close>

definition unit_at :: "pystr \<Rightarrow> (rat \<times> pystr) option" where
  "unit_at s =
     (if starts_with s ''h'' then Some (3600000000000, drop 1 s)
      else if starts_with s ''ms'' then Some (1000000, drop 2 s)
      else if starts_with s ''us'' then Some (1000, drop 2 s)
      else if starts_with s ''ns'' then Some (1, drop 2 s)
      else if starts_with s ''m'' then Some (60000000000, drop 1 s)
      else if starts_with s ''s'' then Some (1000000000, drop 1 s)
      else None)"

definition number_at :: "pystr \<Rightarrow> (rat \<times> pystr) option" where
  "number_at s =
     (let a = takeWhile is_digit s; t = dropWhile is_digit s
      in if a = [] then None
         else case t of
           c # u \<Rightarrow>
             (if c = CHR ''.'' \<and> takeWhile is_digit u \<noteq> []
              then Some (of_nat (dec_nat a) + of_nat (dec_nat (takeWhile is_digit u)) / 10 ^ length (takeWhile is_digit u),
                         dropWhile is_digit u)
              else Some (of_nat (dec_nat a), t))
         | [] \<Rightarrow> Some (of_nat (dec_nat a), t))"

definition part_at :: "pystr \<Rightarrow> (rat \<times> pystr) option" where
  "part_at s = Option.bind (number_at s) (\<lambda>(n, t). Option.bind (unit_at t) (\<lambda>(u, r). Some (n * u, r)))"

lemma dropWhile_shorter: "takeWhile P s \<noteq> [] \<Longrightarrow> length (dropWhile P s) < length s"
  by (metis length_append takeWhile_dropWhile_id length_greater_0_conv less_add_same_cancel2)

lemma number_at_shorter: "number_at s = Some (n, t) \<Longrightarrow> length t < length s"
proof -
  assume n: "number_at s = Some (n, t)"
  then have a: "takeWhile is_digit s \<noteq> []" by (auto simp: number_at_def Let_def split: if_splits)
  have d: "length (dropWhile is_digit s) < length s" by (rule dropWhile_shorter [OF a])
  show ?thesis
  proof (cases "dropWhile is_digit s")
    case Nil
    with n a d show ?thesis by (auto simp: number_at_def Let_def split: if_splits)
  next
    case (Cons c u)
    have u: "length (dropWhile is_digit u) \<le> length u" by (rule length_dropWhile_le)
    have "t = c # u \<or> t = dropWhile is_digit u"
      using n a by (simp add: number_at_def Let_def Cons split: if_splits)
    moreover have "Suc (length u) < length s" using d Cons by simp
    ultimately show ?thesis using u by auto
  qed
qed

lemma part_at_shorter: "part_at s = Some (x, t) \<Longrightarrow> length t < length s"
  by (auto simp: part_at_def unit_at_def Option.bind_eq_Some_conv split: if_splits dest!: number_at_shorter)

text \<open>The parts that make up the whole text.\<close>

function duration_parts :: "pystr \<Rightarrow> rat list option" where
  "duration_parts s =
     (if s = [] then Some []
      else case part_at s of
        None \<Rightarrow> None
      | Some (x, t) \<Rightarrow> map_option ((#) x) (duration_parts t))"
  by pat_completeness auto
termination
  by (relation "measure length") (auto dest: part_at_shorter)

declare duration_parts.simps [simp del]

definition duration_ns :: "json \<Rightarrow> sh_error + int" where
  "duration_ns v = (case v of
     JNull \<Rightarrow> Inr 0
   | JInt i \<Rightarrow> Inr i
   | JBool b \<Rightarrow> Inr (if b then 1 else 0)
   | JStr s \<Rightarrow> (case duration_parts s of
       None \<Rightarrow> Inl Contract
     | Some xs \<Rightarrow> (if xs = [] then Inl Contract else Inr \<lfloor>sum_list xs\<rfloor>))
   | _ \<Rightarrow> Inl Contract)"

section \<open>What Compose expects\<close>

definition active_profiles :: "'m host \<Rightarrow> pystr list" where
  "active_profiles w = filter (\<lambda>p. p \<noteq> [])
     (map py_strip (split_on (CHR '','') (case environ w ''COMPOSE_PROFILES'' of None \<Rightarrow> [] | Some v \<Rightarrow> v)))"

definition profiles_of :: "json \<Rightarrow> sh_error + json list" where
  "profiles_of v = (if json_falsy v then Inr [] else case v of
     JList l \<Rightarrow> Inr l
   | JStr s \<Rightarrow> Inr (map (\<lambda>c. JStr [c]) s)
   | JObj m \<Rightarrow> Inr (map (JStr \<circ> fst) m)
   | _ \<Rightarrow> Inl Fault)"

text \<open>Whether a service has an enabled health check in an active profile; and which.\<close>

definition expected_of :: "pystr list \<Rightarrow> json \<Rightarrow> sh_error + json option" where
  "expected_of active config =
     rbind (rbind (get_field config ''profiles'') profiles_of) (\<lambda>profiles.
       if profiles \<noteq> [] \<and> \<not> list_ex (\<lambda>p. JStr p \<in> set profiles) active then Inr None
       else rbind (get_field config ''healthcheck'') (\<lambda>health. case health of
         JObj m \<Rightarrow>
           (if \<not> json_falsy (jget m ''disable'') then Inr None
            else case jget m ''test'' of
              JList (t # ts) \<Rightarrow> Inr (if t = JStr ''NONE'' then None else Some health)
            | _ \<Rightarrow> Inr None)
       | _ \<Rightarrow> Inr None))"

fun expected_services :: "pystr list \<Rightarrow> (pystr \<times> json) list \<Rightarrow> sh_error + (pystr \<times> json) list" where
  "expected_services active [] = Inr []"
| "expected_services active ((s, config) # rest) =
     rbind (expected_of active config) (\<lambda>h.
     rbind (expected_services active rest) (\<lambda>es.
       Inr (case h of None \<Rightarrow> es | Some v \<Rightarrow> (s, v) # es)))"

definition expected_from :: "pystr list \<Rightarrow> json \<Rightarrow> sh_error + (pystr \<times> json) list" where
  "expected_from active model =
     rbind (get_or (JObj []) model ''services'') (\<lambda>services. case services of
       JObj m \<Rightarrow> expected_services active m
     | _ \<Rightarrow> Inl Fault)"

definition compose_config :: "pystr \<Rightarrow> pystr list \<Rightarrow> pystr list" where
  "compose_config b env_files =
     [b, ''compose''] @ concat (map (\<lambda>f. [''--env-file'', f]) env_files) @ [''config'', ''--format'', ''json'']"

definition load_expected_health :: "'m host \<Rightarrow> pystr \<Rightarrow> pystr list \<Rightarrow> ('m, (pystr \<times> json) list) sh" where
  "load_expected_health w b env_files =
     wf_bind (contract_on {Not_json, Called}
       (wf_bind (run_ok w (compose_config b env_files)) (\<lambda>out. wf_from (loads w out)))) (\<lambda>model.
     wf_from (expected_from (active_profiles w) model))"

text \<open>\<open>_verify_expected_health_set\<close>: the expected checks of the services that were created.\<close>

definition relevant :: "container_health list \<Rightarrow> (pystr \<times> json) list \<Rightarrow> (pystr \<times> json) list" where
  "relevant cs expected = filter (\<lambda>(s, h). JStr s \<in> set (map service cs)) expected"

definition verify_expected_health_set ::
  "container_health list \<Rightarrow> (pystr \<times> json) list \<Rightarrow> sh_error + (pystr \<times> json) list" where
  "verify_expected_health_set cs expected =
     (let r = relevant cs expected
      in if set (map service (filter (\<lambda>c. regular c \<noteq> None) cs)) \<noteq> set (map (JStr \<circ> fst) r) then Inl Contract
         else if r = [] then Inl Contract else Inr r)"

section \<open>The checks of one container\<close>

definition expected_interval :: "json \<Rightarrow> int" where
  "expected_interval s = (if s = JStr ''myst-client'' then 60000000000 else 600000000000)"

text \<open>Python's equality of a JSON value with an integer.\<close>

definition equals_int :: "json \<Rightarrow> int \<Rightarrow> bool" where
  "equals_int v i = (case v of JInt j \<Rightarrow> i = j | JBool b \<Rightarrow> i = (if b then 1 else 0) | _ \<Rightarrow> False)"

definition positive_int :: "json \<Rightarrow> bool" where
  "positive_int v = (case v of JInt j \<Rightarrow> 0 < j | JBool b \<Rightarrow> b | _ \<Rightarrow> False)"

text \<open>\<open>int(v)\<close> of a JSON value; texts go through \<open>int\<close>'s parser.\<close>

definition int_of :: "json \<Rightarrow> sh_error + int" where
  "int_of v = (case v of
     JInt i \<Rightarrow> Inr i
   | JBool b \<Rightarrow> Inr (if b then 1 else 0)
   | JStr s \<Rightarrow> (case py_int s of Inl _ \<Rightarrow> Inl Fault | Inr i \<Rightarrow> Inr i)
   | _ \<Rightarrow> Inl Fault)"

text \<open>The comparison with Compose's values: all of them are computed before the first is compared.\<close>

definition compare_health :: "json \<Rightarrow> json \<Rightarrow> sh_error + unit" where
  "compare_health reg expected =
     rbind (get_field expected ''test'') (\<lambda>test.
     rbind (rbind (get_field expected ''interval'') duration_ns) (\<lambda>interval.
     rbind (rbind (get_field expected ''timeout'') duration_ns) (\<lambda>timeout.
     rbind (rbind (get_field expected ''start_period'') duration_ns) (\<lambda>start_period.
     rbind (rbind (get_or (JInt 0) expected ''retries'') int_of) (\<lambda>retries.
     rbind (get_or (JInt 0) reg ''Test'') (\<lambda>t.
     rbind (get_or (JInt 0) reg ''Interval'') (\<lambda>i.
     rbind (get_or (JInt 0) reg ''Timeout'') (\<lambda>o'.
     rbind (get_or (JInt 0) reg ''StartPeriod'') (\<lambda>p.
     rbind (get_or (JInt 0) reg ''Retries'') (\<lambda>r.
       if t = test \<and> equals_int i interval \<and> equals_int o' timeout \<and> equals_int p start_period \<and>
          equals_int r retries
       then Inr () else Inl Contract))))))))))"

definition verify_regular :: "container_health \<Rightarrow> json \<Rightarrow> sh_error + unit" where
  "verify_regular c expected = (case regular c of
     None \<Rightarrow> Inl Contract
   | Some reg \<Rightarrow>
       rbind (get_field reg ''Interval'') (\<lambda>interval.
         if \<not> equals_int interval (expected_interval (service c)) then Inl Contract
         else rbind (get_field reg ''Timeout'') (\<lambda>timeout.
           if \<not> positive_int timeout then Inl Contract else compare_health reg expected)))"

text \<open>\<open>shlex.quote\<close> and \<open>shlex.join\<close>.\<close>

definition shell_safe_c :: "char \<Rightarrow> bool" where
  "shell_safe_c c \<longleftrightarrow> is_alpha_ascii c \<or> is_digit c \<or> c \<in> set ''_@%+=:,./-''"

fun escape_quotes :: "pystr \<Rightarrow> pystr" where
  "escape_quotes [] = []"
| "escape_quotes (c # s) =
     (if c = squote then [squote, dquote, squote, dquote, squote] @ escape_quotes s else c # escape_quotes s)"

definition shell_quote :: "pystr \<Rightarrow> pystr" where
  "shell_quote s =
     (if s = [] then [squote, squote]
      else if list_all shell_safe_c s then s
      else [squote] @ escape_quotes s @ [squote])"

definition shell_join :: "pystr list \<Rightarrow> pystr" where
  "shell_join args = join '' '' (map shell_quote args)"

definition startup_command :: "json \<Rightarrow> sh_error + pystr" where
  "startup_command test = (case test of
     JList (a # b # rest) \<Rightarrow>
       (case (if a = JStr ''CMD-SHELL'' \<and> rest = [] then text_items [b] else None) of
          Some ts \<Rightarrow> Inr (hd ts)
        | None \<Rightarrow>
            (case (if a = JStr ''CMD'' then text_items (b # rest) else None) of
               Some args \<Rightarrow> Inr (shell_join args)
             | None \<Rightarrow> Inl Contract))
   | _ \<Rightarrow> Inl Contract)"

definition startup_test :: "json \<Rightarrow> sh_error + json" where
  "startup_test reg =
     rbind (get_field reg ''Test'') (\<lambda>test.
     rbind (startup_command test) (\<lambda>cmd. Inr (JList [JStr ''CMD-SHELL'', JStr cmd])))"

definition verify_startup :: "container_health \<Rightarrow> sh_error + unit" where
  "verify_startup c = (case regular c of
     None \<Rightarrow> Inl Contract
   | Some reg \<Rightarrow> (case startup c of
       JObj m \<Rightarrow>
         rbind (startup_test reg) (\<lambda>test.
         rbind (get_field reg ''Timeout'') (\<lambda>timeout.
           if jget m ''Test'' \<noteq> test then Inl Contract
           else if \<not> equals_int (jget m ''Interval'') 5000000000 then Inl Contract
           else if jget m ''Timeout'' \<noteq> timeout then Inl Contract
           else if \<not> equals_int (jget m ''Successes'') 1 then Inl Contract
           else if map_of m ''Retries'' \<noteq> None \<and> \<not> equals_int (jget m ''Retries'') 0 then Inl Contract
           else Inr ()))
     | _ \<Rightarrow> Inl Contract))"

section \<open>The project\<close>

definition json_text :: "json \<Rightarrow> sh_error + pystr" where
  "json_text v = (case v of JStr s \<Rightarrow> Inr s | _ \<Rightarrow> Inl Fault)"

definition number_text :: "json \<Rightarrow> sh_error + pystr" where
  "number_text v = (case v of
     JInt i \<Rightarrow> Inr (int_str i)
   | JBool b \<Rightarrow> Inr (if b then ''True'' else ''False'')
   | _ \<Rightarrow> Inl Fault)"

definition update_command :: "pystr \<Rightarrow> pystr \<Rightarrow> pystr \<Rightarrow> pystr \<Rightarrow> pystr list" where
  "update_command b cmd timeout cid =
     [b, ''update'', ''--health-startup-cmd='' @ cmd, ''--health-startup-interval=5s'',
      ''--health-startup-timeout='' @ timeout @ ''ns'', ''--health-startup-retries=0'',
      ''--health-startup-success=1'', cid]"

definition update_of :: "pystr \<Rightarrow> container_health \<Rightarrow> sh_error + pystr list" where
  "update_of b c = (case regular c of
     None \<Rightarrow> Inl Contract
   | Some reg \<Rightarrow>
       rbind (rbind (get_field reg ''Test'') startup_command) (\<lambda>cmd.
       rbind (item_at reg ''Timeout'') (\<lambda>timeout.
       rbind (number_text timeout) (\<lambda>t.
       rbind (json_text (container_id c)) (\<lambda>cid. Inr (update_command b cmd t cid))))))"

text \<open>The check a container is compared with, if its service is relevant.\<close>

definition expected_for :: "(pystr \<times> json) list \<Rightarrow> json \<Rightarrow> json option" where
  "expected_for r svc = (case svc of JStr s \<Rightarrow> map_of r s | _ \<Rightarrow> None)"

fun configure_all :: "'m host \<Rightarrow> pystr \<Rightarrow> (pystr \<times> json) list \<Rightarrow> container_health list \<Rightarrow> ('m, nat) sh" where
  "configure_all w b r [] = wf_ret 0"
| "configure_all w b r (c # cs) = (case expected_for r (service c) of
     None \<Rightarrow> configure_all w b r cs
   | Some h \<Rightarrow>
       wf_bind (wf_from (verify_regular c h)) (\<lambda>_.
         if run_state c = JStr ''running''
         then wf_bind (wf_from (verify_startup c)) (\<lambda>_. configure_all w b r cs)
         else wf_bind (wf_from (update_of b c)) (\<lambda>line.
              wf_bind (run_ok w line) (\<lambda>_.
              wf_bind (configure_all w b r cs) (\<lambda>n. wf_ret (n + 1))))))"

fun verify_all :: "(pystr \<times> json) list \<Rightarrow> container_health list \<Rightarrow> sh_error + unit" where
  "verify_all r [] = Inr ()"
| "verify_all r (c # cs) = (case expected_for r (service c) of
     None \<Rightarrow> verify_all r cs
   | Some h \<Rightarrow> rbind (verify_regular c h) (\<lambda>_. rbind (verify_startup c) (\<lambda>_. verify_all r cs)))"

definition configure_project :: "'m host \<Rightarrow> pystr \<Rightarrow> pystr \<Rightarrow> pystr list \<Rightarrow> bool \<Rightarrow> ('m, nat) sh" where
  "configure_project w b project env_files check_engine =
     wf_bind (if check_engine then check_capability w b else wf_ret ''already checked'') (\<lambda>_.
     wf_bind (load_expected_health w b env_files) (\<lambda>expected.
     wf_bind (load_containers w b project) (\<lambda>cs.
     wf_bind (wf_from (verify_expected_health_set cs expected)) (\<lambda>r.
     wf_bind (configure_all w b r cs) (\<lambda>_.
     wf_bind (load_containers w b project) (\<lambda>verified.
     wf_bind (wf_from (verify_expected_health_set verified expected)) (\<lambda>r'.
     wf_bind (wf_from (verify_all r' verified)) (\<lambda>_. wf_ret (length r')))))))))"

section \<open>What a configured project satisfies\<close>

definition container_verified :: "(pystr \<times> json) list \<Rightarrow> container_health \<Rightarrow> bool" where
  "container_verified r c \<longleftrightarrow> (case expected_for r (service c) of
     None \<Rightarrow> True
   | Some h \<Rightarrow> verify_regular c h = Inr () \<and> verify_startup c = Inr ())"

lemma verify_all_iff: "verify_all r cs = Inr () \<longleftrightarrow> list_all (container_verified r) cs"
proof (induction cs)
  case (Cons c cs)
  have u: "(x = Inr ()) = (\<exists>y. x = Inr y)" for x :: "sh_error + unit" by auto
  show ?case
    using Cons by (cases "expected_for r (service c)") (auto simp: container_verified_def rbind_Inr_iff)
qed simp

lemma health_set_iff:
  "verify_expected_health_set cs expected = Inr r \<longleftrightarrow>
     r = relevant cs expected \<and> r \<noteq> [] \<and>
     set (map service (filter (\<lambda>c. regular c \<noteq> None) cs)) = set (map (JStr \<circ> fst) r)"
  by (auto simp: verify_expected_health_set_def Let_def)

text \<open>
  When the configuration of a project succeeds, the containers that were read last have
  exactly the enabled health checks Compose expects of the services that exist, at least one, and each
  has a regular check equal to Compose's and a start-up check that runs the same command.
\<close>

theorem configured_project_verified:
  assumes "configure_project w b project env_files check_engine s = (es, s', Inr n)"
  shows "\<exists>expected cs s1 l. load_containers w b project s1 = (l, s', Inr cs) \<and>
     n = length (relevant cs expected) \<and> 0 < n \<and>
     set (map service (filter (\<lambda>c. regular c \<noteq> None) cs)) = set (map (JStr \<circ> fst) (relevant cs expected)) \<and>
     list_all (container_verified (relevant cs expected)) cs"
proof -
  obtain expected r' cs s1 l where
    l: "load_containers w b project s1 = (l, s', Inr cs)"
    and v: "verify_expected_health_set cs expected = Inr r'" "verify_all r' cs = Inr ()" "n = length r'"
    using assms unfolding configure_project_def
    by (elim wf_bind_Inr) (auto simp: wf_from_def wf_ret_def)
  show ?thesis
    using l v by (intro exI conjI) (auto simp: health_set_iff verify_all_iff)
qed

text \<open>A command that changes a container: it is one that was listed, it is not running, and its regular
  check is the one Compose expects.\<close>

definition update_allowed :: "pystr \<Rightarrow> (pystr \<times> json) list \<Rightarrow> container_health list \<Rightarrow> sh_event \<Rightarrow> bool" where
  "update_allowed b r cs e = (case e of
     Command l \<Rightarrow> list_ex (\<lambda>c. run_state c \<noteq> JStr ''running'' \<and> update_of b c = Inr l \<and>
       (case expected_for r (service c) of None \<Rightarrow> False | Some h \<Rightarrow> verify_regular c h = Inr ())) cs
   | _ \<Rightarrow> False)"

lemma configure_all_quiet:
  "set cs \<subseteq> set all \<Longrightarrow> quiet (\<lambda>e. \<not> update_allowed b r all e) (configure_all w b r cs)"
proof (induction cs)
  case Nil
  show ?case by (simp add: bound_ret)
next
  case (Cons c cs)
  then have IH: "quiet (\<lambda>e. \<not> update_allowed b r all e) (configure_all w b r cs)" by simp
  show ?case
  proof (cases "expected_for r (service c)")
    case None
    with IH show ?thesis by simp
  next
    case (Some h)
    have u: "quiet (\<lambda>e. \<not> update_allowed b r all e) (run_ok w line)"
      if "update_of b c = Inr line" "run_state c \<noteq> JStr ''running''" "verify_regular c h = Inr ()" for line
    proof -
      have "update_allowed b r all (Command line)"
        using that Some Cons.prems by (auto simp: update_allowed_def list_ex_iff)
      then show ?thesis
        unfolding run_checked_def by (intro quiet_bind) (auto simp: run_any_def wf_bound_def wf_stop_def wf_ret_def split: prod.splits)
    qed
    have step: "quiet (\<lambda>e. \<not> update_allowed b r all e)
       (if run_state c = JStr ''running'' then wf_bind (wf_from (verify_startup c)) (\<lambda>_. configure_all w b r cs)
        else wf_bind (wf_from (update_of b c)) (\<lambda>line. wf_bind (run_ok w line)
          (\<lambda>_. wf_bind (configure_all w b r cs) (\<lambda>n. wf_ret (n + 1)))))"
      if v: "verify_regular c h = Inr ()"
    proof (intro bound_if)
      assume stopped: "run_state c \<noteq> JStr ''running''"
      have "wf_bound (\<lambda>e. \<not> update_allowed b r all e) 0 (\<lambda>line. update_of b c = Inr line) (wf_from (update_of b c))"
        by (rule bound_from)
      then show "quiet (\<lambda>e. \<not> update_allowed b r all e) (wf_bind (wf_from (update_of b c)) (\<lambda>line. wf_bind (run_ok w line)
          (\<lambda>_. wf_bind (configure_all w b r cs) (\<lambda>n. wf_ret (n + 1)))))"
        by (rule bound_bind) (use u [OF _ stopped v] IH in \<open>auto intro!: quiet_bind bound_ret\<close>)
    qed (auto intro!: quiet_bind bound_from IH)
    have "wf_bound (\<lambda>e. \<not> update_allowed b r all e) 0 (\<lambda>x. verify_regular c h = Inr ()) (wf_from (verify_regular c h))"
      by (rule bound_from) simp
    then show ?thesis
      unfolding configure_all.simps Some option.case
      by (rule bound_bind [where k = 0]) (use step in auto)
  qed
qed

text \<open>
  The only commands the configuration runs beside its inspections are updates of containers
  that are not running and whose regular check agrees with Compose; each makes the start-up check run
  the container's own command, without restarts.
\<close>

theorem only_stopped_configured: "list_all (update_allowed b r cs) (fst (configure_all w b r cs s))"
  using quiet_no_event [OF configure_all_quiet [of cs cs b r w], of _ s] by (auto simp: list_all_iff)

section \<open>The start-up command is the regular one\<close>

lemma safe_char:
  assumes "shell_safe_c c"
  shows "\<not> lex_space c \<and> c \<noteq> CHR ''#'' \<and> c \<noteq> backslash \<and> c \<noteq> squote \<and> c \<noteq> dquote"
proof -
  have "list_all (\<lambda>c. \<not> shell_safe_c c) [CHR 0x20, CHR 0x09, CHR 0x0D, CHR 0x0A, CHR ''#'', backslash, squote, dquote]"
    by code_simp
  with assms show ?thesis by (auto simp: lex_space_def)
qed

lemma lex_safe:
  "list_all shell_safe_c s \<Longrightarrow> lex Word q tok (s @ rest) = lex Word q (tok @ s) rest"
proof (induction s arbitrary: tok)
  case (Cons c s)
  then show ?case using safe_char [of c] by simp
qed simp

lemma quote_chars: "squote \<noteq> dquote" "\<not> lex_space squote" "\<not> lex_space dquote" "squote \<noteq> CHR ''#''"
  "dquote \<noteq> CHR ''#''" "squote \<noteq> backslash" "dquote \<noteq> backslash" "backslash \<noteq> squote"
  by (simp_all add: squote_def dquote_def backslash_def lex_space_def)

lemma lex_escaped:
  "lex (Quoted squote) q tok (escape_quotes s @ squote # rest) = lex Word True (tok @ s) rest"
proof (induction s arbitrary: q tok)
  case (Cons c s)
  then show ?case by (simp add: quote_chars quote_chars(1) [symmetric])
qed simp

text \<open>An argument, then the end or a blank.\<close>

lemma lex_argument:
  assumes "rest = [] \<or> (\<exists>t. rest = CHR 0x20 # t)"
  shows "lex Blank q tok (shell_quote s @ rest) =
    rbind (lex Blank False [] (drop 1 rest)) (\<lambda>ts. Inr (s # ts))"
proof -
  have stop: "lex Word q' t rest = rbind (lex Blank False [] (drop 1 rest)) (\<lambda>ts. Inr (emit_token q' t ts))" for q' t
    using assms by (auto simp: lex_space_def)
  consider "s = []" | "s \<noteq> []" "list_all shell_safe_c s" | "s \<noteq> []" "\<not> list_all shell_safe_c s" by blast
  then show ?thesis
  proof cases
    case 1
    then show ?thesis using stop [of True "[]"] by (simp add: shell_quote_def quote_chars emit_token_def)
  next
    case 2
    then obtain c u where s: "s = c # u" by (cases s) auto
    have "lex Blank q tok (s @ rest) = lex Word False s rest"
      using 2 safe_char [of c] lex_safe [of u False "[c]" rest] by (simp add: s)
    with 2 stop show ?thesis by (simp add: shell_quote_def emit_token_def)
  next
    case 3
    have "lex Blank q tok (shell_quote s @ rest) = lex Word True s rest"
      using 3 lex_escaped [of False "[]" s rest] by (simp add: shell_quote_def quote_chars)
    with stop show ?thesis by (simp add: emit_token_def)
  qed
qed

text \<open>
  Splitting the start-up command the way a shell does gives back the words of the
  container's regular health command, whatever characters they hold.
\<close>

theorem shell_join_split: "shlex_tokens (shell_join args) = Inr args"
proof (induction args)
  case Nil
  show ?case by (simp add: shell_join_def shlex_tokens_def)
next
  case (Cons a args)
  show ?case
  proof (cases args)
    case Nil
    then show ?thesis using lex_argument [of "[]" False "[]" a] by (simp add: shell_join_def shlex_tokens_def)
  next
    case (Cons b bs)
    then have "shell_join (a # args) = shell_quote a @ CHR 0x20 # shell_join args" by (simp add: shell_join_def)
    then show ?thesis using lex_argument [of "CHR 0x20 # shell_join args" False "[]" a] Cons.IH
      by (simp add: shlex_tokens_def)
  qed
qed

section \<open>Concrete values\<close>

lemma durations: "duration_ns (JStr ''1m30s'') = Inr 90000000000" "duration_ns (JStr ''0.5ms'') = Inr 500000"
  "duration_ns (JStr ''5 s'') = Inl Contract" "duration_ns (JStr []) = Inl Contract"
  by code_simp+

text \<open>A container whose regular and start-up checks agree.\<close>

definition sample_check :: json where
  "sample_check = JObj [(''Test'', JList [JStr ''CMD'', JStr ''curl'', JStr ''http://x/a b'']), (''Interval'', JInt 600000000000),
     (''Timeout'', JInt 5000000000), (''Retries'', JInt 3)]"

definition sample_startup :: json where
  "sample_startup = JObj [(''Test'', JList [JStr ''CMD-SHELL'', JStr (shell_join [''curl'', ''http://x/a b''])]),
     (''Interval'', JInt 5000000000), (''Timeout'', JInt 5000000000), (''Successes'', JInt 1)]"

definition sample_expected :: json where
  "sample_expected = JObj [(''test'', JList [JStr ''CMD'', JStr ''curl'', JStr ''http://x/a b'']), (''interval'', JStr ''10m''),
     (''timeout'', JStr ''5s''), (''retries'', JInt 3)]"

definition sample_item :: "pystr \<Rightarrow> json" where
  "sample_item st = JObj [(''Id'', JStr ''c1''), (''State'', JObj [(''Status'', JStr st)]), (''Config'', JObj
     [(''Labels'', JObj [(''com.docker.compose.service'', JStr ''web'')]), (''Healthcheck'', sample_check),
      (''StartupHealthCheck'', sample_startup)])]"

text \<open>An engine that lists this container.\<close>

definition sample_host :: "pystr \<Rightarrow> unit host" where
  "sample_host st = \<lparr>answer = (\<lambda>l i s. (Ended 0 (if take 1 (drop 1 l) = [''ps''] then ''c1''
       else if take 1 (drop 1 l) = [''inspect''] then ''I'' else ''M''), s)),
     json_of = (\<lambda>t. Some (if t = ''I'' then JList [sample_item st]
       else JObj [(''services'', JObj [(''web'', JObj [(''healthcheck'', sample_expected)])])])),
     path_kind = (\<lambda>s p. Nothing_there), has_entries = (\<lambda>s p. None), make_dirs = (\<lambda>e p s. (True, s)),
     clock = (\<lambda>s. 0), sleep = (\<lambda>t s. s), fresh_hex = (\<lambda>s. []), abspath = id, environ = Map.empty,
     on_darwin = False, codecs = sample_codec\<rparr>"

lemma sample_configured: "snd (snd (configure_project (sample_host ''created'') ''podman'' ''onyx'' [] False ())) = Inr 1"
  by code_simp

lemma configured_project_verified_witness:
  "\<exists>expected cs s1 l. load_containers (sample_host ''created'') ''podman'' ''onyx'' s1 = (l, (), Inr cs) \<and>
     1 = length (relevant cs expected) \<and> 0 < (1 :: nat) \<and>
     set (map service (filter (\<lambda>c. regular c \<noteq> None) cs)) = set (map (JStr \<circ> fst) (relevant cs expected)) \<and>
     list_all (container_verified (relevant cs expected)) cs"
proof -
  obtain es s' r where c: "configure_project (sample_host ''created'') ''podman'' ''onyx'' [] False () = (es, s', r)"
    by (cases "configure_project (sample_host ''created'') ''podman'' ''onyx'' [] False ()") auto
  with sample_configured have "r = Inr 1" by simp
  with c have "configure_project (sample_host ''created'') ''podman'' ''onyx'' [] False () = (es, (), Inr 1)"
    by simp
  then show ?thesis by (rule configured_project_verified)
qed

section \<open>Docker's bridges\<close>

text \<open>
  A gateway mode is reported only for a stable Docker release that is at least 25.0.5;
  isolated gateways only from release 28 on; and never another mode than the expected one.
\<close>

theorem gateway_mode_release:
  assumes "docker_gateway_mode w b expected s = (es, s', Inr mode)"
  shows "\<exists>v x y z. parse_release v = Some (x, y, z) \<and> \<not> version_less (x, y, z) (25, 0, 5) \<and> \<not> prerelease v \<and>
    mode = (if 28 \<le> x then ''isolated'' else ''ordinary'') \<and> (expected = None \<or> expected = Some mode)"
proof -
  have b: "\<not> podman_binary b" using assms by (auto simp: docker_gateway_mode_def wf_stop_def)
  obtain out s1 and l :: "sh_event list" and m s2 l2 where m: "wf_from (gateway_mode_of (py_strip out)) s1 = (l, s2, Inr m)"
    and e: "(if expected \<noteq> None \<and> expected \<noteq> Some m then wf_stop Contract
             else if expected \<noteq> None \<and> m = ''ordinary'' then wf_bind (wf_log Warning) (\<lambda>_. wf_ret m)
             else wf_ret m) s2 = (l2, s', Inr mode)"
    using assms unfolding docker_gateway_mode_def if_not_P [OF b] by (elim wf_bind_Inr) blast
  have "m = mode" "expected = None \<or> expected = Some mode"
    using e by (auto simp: wf_stop_def wf_ret_def wf_log_def wf_bind_def split: if_splits)
  moreover obtain x y z where "parse_release (py_strip out) = Some (x, y, z)" "\<not> version_less (x, y, z) (25, 0, 5)"
    "\<not> prerelease (py_strip out)" "m = (if 28 \<le> x then ''isolated'' else ''ordinary'')"
    using m by (auto simp: wf_from_def gateway_mode_of_def split: option.splits if_splits)
  ultimately show ?thesis by metis
qed

lemma gateway_mode_release_witness:
  "\<exists>v x y z. parse_release v = Some (x, y, z) \<and> \<not> version_less (x, y, z) (25, 0, 5) \<and> \<not> prerelease v \<and>
    ''isolated'' = (if 28 \<le> x then ''isolated'' else ''ordinary'') \<and> (Some ''isolated'' = None \<or> Some ''isolated'' = Some ''isolated'')"
proof (rule gateway_mode_release)
  show "docker_gateway_mode ((sample_host [])\<lparr>answer := (\<lambda>l i s. (Ended 0 ''28.1.1+build'', s))\<rparr>) ''docker'' (Some ''isolated'') () =
      ([Command [''docker'', ''version'', ''--format'', ''{{.Server.Version}}'']], (), Inr ''isolated'')"
    by code_simp
qed

end
