(* ===== verification/Data_Init.thy ===== *)
theory Data_Init
  imports Health_Config
begin

text \<open>
  The preparation of the host data and the command line of \<open>src/podman/startup_health.py\<close>: the
  bind directories, the initialization of an empty database directory in a temporary container, and
  the actions. The messages of errors and what is printed are left out.
\<close>

section \<open>Paths\<close>

definition join_path :: "pystr \<Rightarrow> pystr \<Rightarrow> pystr" where
  "join_path p n = (if ends_with p ''/'' then p @ n else p @ ''/'' @ n)"

definition is_file :: "'m host \<Rightarrow> pystr \<Rightarrow> ('m, bool) sh" where
  "is_file w p = read_state (\<lambda>s. path_kind w s p = Some_file)"

definition is_dir :: "'m host \<Rightarrow> pystr \<Rightarrow> ('m, bool) sh" where
  "is_dir w p = read_state (\<lambda>s. path_kind w s p = Directory)"

definition path_exists :: "'m host \<Rightarrow> pystr \<Rightarrow> ('m, bool) sh" where
  "path_exists w p = read_state (\<lambda>s. path_kind w s p \<noteq> Nothing_there)"

definition require :: "bool \<Rightarrow> ('m, unit) sh" where
  "require ok = (if ok then wf_ret () else wf_stop Contract)"

text \<open>\<open>os.makedirs\<close>, its \<open>OSError\<close> made a \<open>ContractError\<close>.\<close>

definition make_directories :: "'m host \<Rightarrow> bool \<Rightarrow> pystr \<Rightarrow> ('m, unit) sh" where
  "make_directories w exist_ok p s = (case make_dirs w exist_ok p s of
     (ok, s') \<Rightarrow> ([Make_dirs p], s', if ok then Inr () else Inl Contract))"

section \<open>The bind directories\<close>

definition common_dirs :: "pystr list" where
  "common_dirs = [''postgres'', ''file-system'', ''searxng-cache'', ''myst-data'']"

definition full_dirs :: "pystr list" where
  "full_dirs = [''opensearch'', ''minio'', ''model-cache'']"

fun prepare_each :: "'m host \<Rightarrow> pystr list \<Rightarrow> ('m, unit) sh" where
  "prepare_each w [] = wf_ret ()"
| "prepare_each w (p # ps) =
     wf_bind (make_directories w True p) (\<lambda>_.
     wf_bind (is_dir w p) (\<lambda>d. wf_bind (require d) (\<lambda>_. prepare_each w ps)))"

definition prepare_documents :: "'m host \<Rightarrow> pystr option \<Rightarrow> pystr option \<Rightarrow> ('m, pystr list) sh" where
  "prepare_documents w doc_source default_doc_source = (case (doc_source, default_doc_source) of
     (Some src, Some def) \<Rightarrow>
       wf_bind (path_exists w (abspath w src)) (\<lambda>there.
       wf_bind (if there then wf_ret ()
                else if abspath w src \<noteq> abspath w def then wf_stop Contract
                else make_directories w False (abspath w src)) (\<lambda>_.
       wf_bind (is_dir w (abspath w src)) (\<lambda>d.
       wf_bind (require d) (\<lambda>_. wf_ret [abspath w src]))))
   | _ \<Rightarrow> wf_stop Contract)"

definition prepare_host_directories ::
  "'m host \<Rightarrow> pystr \<Rightarrow> bool \<Rightarrow> pystr option \<Rightarrow> pystr option \<Rightarrow> ('m, pystr list) sh" where
  "prepare_host_directories w data_root full doc_source default_doc_source =
     (let paths = map (join_path (abspath w data_root)) (common_dirs @ (if full then full_dirs else []))
      in wf_bind (prepare_each w paths) (\<lambda>_.
         wf_bind (if full then prepare_documents w doc_source default_doc_source else wf_ret []) (\<lambda>docs.
         wf_ret (paths @ docs))))"

section \<open>Shared data\<close>

definition override_xattr :: pystr where
  "override_xattr = ''user.containers.override_stat''"

definition drop_override :: "'m host \<Rightarrow> pystr \<Rightarrow> ('m, unit) sh" where
  "drop_override w p = contract_on {Os_failed, Called}
     (wf_bind (run_ok w [''xattr'', p]) (\<lambda>out.
        if override_xattr \<in> set (splitlines out)
        then wf_bind (run_ok w [''xattr'', ''-d'', override_xattr, p]) (\<lambda>_. wf_ret ()) else wf_ret ()))"

definition prepare_postgres :: "'m host \<Rightarrow> pystr \<Rightarrow> ('m, unit) sh" where
  "prepare_postgres w postgres =
     wf_bind (is_file w (join_path (abspath w postgres) ''PG_VERSION'')) (\<lambda>f.
     wf_bind (require f) (\<lambda>_. if on_darwin w then drop_override w (abspath w postgres) else wf_ret ()))"

definition prepare_opensearch :: "'m host \<Rightarrow> pystr \<Rightarrow> ('m, unit) sh" where
  "prepare_opensearch w opensearch =
     wf_bind (is_dir w (join_path (abspath w opensearch) ''nodes'')) require"

definition prepare_shared_data :: "'m host \<Rightarrow> pystr option \<Rightarrow> pystr option \<Rightarrow> ('m, pystr list) sh" where
  "prepare_shared_data w postgres opensearch = (case (postgres, opensearch) of
     (Some p, None) \<Rightarrow> wf_bind (prepare_postgres w p) (\<lambda>_. wf_ret [''PostgreSQL''])
   | (None, Some p) \<Rightarrow> wf_bind (prepare_opensearch w p) (\<lambda>_. wf_ret [''OpenSearch''])
   | _ \<Rightarrow> wf_stop Contract)"

section \<open>Initialization in a temporary container\<close>

text \<open>The directory must be empty or absent; it is made when it is absent.\<close>

definition claim_empty :: "'m host \<Rightarrow> pystr \<Rightarrow> ('m, unit) sh" where
  "claim_empty w p =
     wf_bind (path_exists w p) (\<lambda>there.
       if there
       then wf_bind (is_dir w p) (\<lambda>d.
            wf_bind (require d) (\<lambda>_.
            wf_bind (read_state (\<lambda>s. has_entries w s p)) (\<lambda>entries. require (entries = Some False))))
       else make_directories w False p)"

definition compose_command :: "pystr \<Rightarrow> pystr list \<Rightarrow> pystr list" where
  "compose_command b env_files = [b, ''compose''] @ concat (map (\<lambda>f. [''--env-file'', f]) env_files)"

text \<open>The wait for the server in the container, with fuel.\<close>

fun await_ready :: "'m host \<Rightarrow> pystr list \<Rightarrow> rat \<Rightarrow> nat \<Rightarrow> ('m, unit) sh" where
  "await_ready w line deadline 0 = wf_stop Out_of_fuel"
| "await_ready w line deadline (Suc fuel) =
     wf_bind (run_any w None line) (\<lambda>(c, out).
       if c = 0 then wf_ret ()
       else wf_bind (read_state (clock w)) (\<lambda>now.
              if deadline \<le> now then wf_stop Contract
              else wf_bind (\<lambda>s. ([], sleep w 1 s, Inr ())) (\<lambda>_. await_ready w line deadline fuel)))"

text \<open>The \<open>finally\<close> part: both removals run before either status is looked at.\<close>

definition remove_temporaries :: "'m host \<Rightarrow> pystr \<Rightarrow> bool \<Rightarrow> pystr \<Rightarrow> ('m, unit) sh" where
  "remove_temporaries w b container_created n =
     wf_bind (if container_created then run_any w None [b, ''rm'', ''--force'', n] else wf_ret (0, [])) (\<lambda>(c, out).
     wf_bind (run_any w None [b, ''volume'', ''rm'', ''--force'', n]) (\<lambda>(v, out').
       if c \<noteq> 0 \<or> v \<noteq> 0 then wf_stop Contract else wf_ret ()))"

text \<open>The \<open>try\<close> statement: the container is started, then the rest runs in it.\<close>

definition in_temporary ::
  "'m host \<Rightarrow> pystr \<Rightarrow> pystr \<Rightarrow> pystr list \<Rightarrow> ('m, unit) sh \<Rightarrow> ('m, unit) sh" where
  "in_temporary w b n start rest =
     wf_bind (wf_catch (wf_bind (contract_on {Called} (run_ok w start)) (\<lambda>_. wf_ret ()))
               (\<lambda>e. wf_bind (remove_temporaries w b False n) (\<lambda>_. wf_stop e))) (\<lambda>_.
     wf_finally (contract_on {Called} rest) (remove_temporaries w b True n))"

definition create_volume :: "pystr \<Rightarrow> pystr \<Rightarrow> pystr \<Rightarrow> pystr list" where
  "create_volume b role n = [b, ''volume'', ''create'', ''--label'', ''io.private-onyx.role='' @ role, n]"

definition postgres_start :: "pystr \<Rightarrow> pystr list \<Rightarrow> pystr \<Rightarrow> pystr list" where
  "postgres_start b env_files n = compose_command b env_files @
     [''run'', ''--pull'', ''never'', ''--detach'', ''--name'', n, ''--no-deps'', ''--user'', ''0:0'', ''--volume'',
      n @ '':/var/lib/postgresql/data'', ''--entrypoint'', ''/usr/local/bin/docker-entrypoint.sh'',
      ''relational_db'', ''postgres'']"

definition postgres_copy :: "pystr \<Rightarrow> pystr list \<Rightarrow> pystr \<Rightarrow> pystr list" where
  "postgres_copy b env_files n = compose_command b env_files @
     [''run'', ''--pull'', ''never'', ''--rm'', ''--no-deps'', ''--volume'', n @ '':/private-onyx-postgres-init:ro'',
      ''--entrypoint'', ''/bin/sh'', ''relational_db'', ''-ec'',
      ''cp -a /private-onyx-postgres-init/. /var/lib/postgresql/data/'']"

definition postgres_steps :: "'m host \<Rightarrow> pystr \<Rightarrow> pystr list \<Rightarrow> nat \<Rightarrow> pystr \<Rightarrow> ('m, unit) sh" where
  "postgres_steps w b env_files fuel n =
     wf_bind (read_state (clock w)) (\<lambda>t.
     wf_bind (await_ready w [b, ''exec'', n, ''pg_isready''] (t + 120) fuel) (\<lambda>_.
     wf_bind (run_ok w [b, ''stop'', ''--time'', ''30'', n]) (\<lambda>_.
     wf_bind (run_ok w (postgres_copy b env_files n)) (\<lambda>_. wf_ret ()))))"

definition postgres_temp :: "pystr \<Rightarrow> pystr" where
  "postgres_temp suffix = ''private-onyx-postgres-init-'' @ suffix"

text \<open>The volume, then the container and the steps in it.\<close>

definition fill_volume :: "'m host \<Rightarrow> pystr \<Rightarrow> pystr \<Rightarrow> pystr \<Rightarrow> pystr list \<Rightarrow> ('m, unit) sh \<Rightarrow> ('m, unit) sh" where
  "fill_volume w b role n start steps =
     wf_bind (run_ok w (create_volume b role n)) (\<lambda>_. in_temporary w b n start steps)"

definition fill_postgres :: "'m host \<Rightarrow> pystr \<Rightarrow> pystr list \<Rightarrow> nat \<Rightarrow> ('m, unit) sh" where
  "fill_postgres w b env_files fuel =
     wf_bind (read_state (fresh_hex w)) (\<lambda>suffix. let n = postgres_temp suffix in
       fill_volume w b ''postgres-init'' n (postgres_start b env_files n) (postgres_steps w b env_files fuel n))"

definition initialize_postgres_data ::
  "'m host \<Rightarrow> pystr \<Rightarrow> pystr \<Rightarrow> pystr list \<Rightarrow> nat \<Rightarrow> ('m, pystr) sh" where
  "initialize_postgres_data w b postgres env_files fuel =
     (let path = abspath w postgres; version = join_path path ''PG_VERSION''
      in wf_bind (require_podman_binary b) (\<lambda>_.
         wf_bind (is_file w version) (\<lambda>have.
         wf_bind (if have then wf_ret ''reused''
                  else wf_bind (claim_empty w path) (\<lambda>_.
                       wf_bind (fill_postgres w b env_files fuel) (\<lambda>_.
                       wf_bind (is_file w version) (\<lambda>made.
                       wf_bind (require made) (\<lambda>_. wf_ret ''initialized''))))) (\<lambda>result.
         wf_bind (prepare_shared_data w (Some path) None) (\<lambda>_. wf_ret result)))))"

definition opensearch_start :: "pystr \<Rightarrow> pystr list \<Rightarrow> pystr \<Rightarrow> pystr \<Rightarrow> pystr list" where
  "opensearch_start b env_files audit n = compose_command b env_files @
     [''run'', ''--pull'', ''never'', ''--detach'', ''--name'', n, ''--no-deps'', ''--volume'',
      n @ '':/usr/share/opensearch/data'', ''--volume'',
      audit @ '':/usr/share/opensearch/config/opensearch-security/audit.yml:ro'', ''opensearch'']"

definition opensearch_copy :: "pystr \<Rightarrow> pystr list \<Rightarrow> pystr \<Rightarrow> pystr list" where
  "opensearch_copy b env_files n = compose_command b env_files @
     [''run'', ''--pull'', ''never'', ''--rm'', ''--no-deps'', ''--volume'', n @ '':/private-onyx-opensearch-init:ro'',
      ''--entrypoint'', ''/bin/bash'', ''opensearch'', ''-ec'',
      ''cp -a /private-onyx-opensearch-init/. /usr/share/opensearch/data/'']"

text \<open>The two shell scripts that run in the container are arguments.\<close>

definition opensearch_steps :: "'m host \<Rightarrow> pystr \<times> pystr \<Rightarrow> pystr \<Rightarrow> pystr list \<Rightarrow> nat \<Rightarrow> pystr \<Rightarrow> ('m, unit) sh" where
  "opensearch_steps w scripts b env_files fuel n =
     wf_bind (read_state (clock w)) (\<lambda>t.
     wf_bind (await_ready w [b, ''exec'', n, ''/bin/bash'', ''-ec'', fst scripts] (t + 240) fuel) (\<lambda>_.
     wf_bind (contract_on {Called} (run_ok w [b, ''exec'', n, ''/bin/bash'', ''-ec'', snd scripts])) (\<lambda>_.
     wf_bind (run_ok w [b, ''stop'', ''--time'', ''60'', n]) (\<lambda>_.
     wf_bind (run_ok w (opensearch_copy b env_files n)) (\<lambda>_. wf_ret ())))))"

definition opensearch_temp :: "pystr \<Rightarrow> pystr" where
  "opensearch_temp suffix = ''private-onyx-opensearch-init-'' @ suffix"

definition fill_opensearch ::
  "'m host \<Rightarrow> pystr \<times> pystr \<Rightarrow> pystr \<Rightarrow> pystr \<Rightarrow> pystr list \<Rightarrow> nat \<Rightarrow> ('m, unit) sh" where
  "fill_opensearch w scripts b audit env_files fuel =
     wf_bind (read_state (fresh_hex w)) (\<lambda>suffix. let n = opensearch_temp suffix in
       fill_volume w b ''opensearch-init'' n (opensearch_start b env_files audit n)
         (opensearch_steps w scripts b env_files fuel n))"

definition initialize_opensearch_data ::
  "'m host \<Rightarrow> pystr \<times> pystr \<Rightarrow> pystr \<Rightarrow> pystr \<Rightarrow> pystr \<Rightarrow> pystr list \<Rightarrow> nat \<Rightarrow> ('m, pystr) sh" where
  "initialize_opensearch_data w scripts b opensearch audit env_files fuel =
     (let path = abspath w opensearch; nodes = join_path path ''nodes''
      in wf_bind (require_podman_binary b) (\<lambda>_.
         wf_bind (is_file w (abspath w audit)) (\<lambda>tracked.
         wf_bind (require tracked) (\<lambda>_.
         wf_bind (is_dir w nodes) (\<lambda>have.
         wf_bind (if have then wf_ret ''reused''
                  else wf_bind (claim_empty w path) (\<lambda>_.
                       wf_bind (fill_opensearch w scripts b (abspath w audit) env_files fuel) (\<lambda>_.
                       wf_bind (is_dir w nodes) (\<lambda>made.
                       wf_bind (require made) (\<lambda>_. wf_ret ''initialized''))))) (\<lambda>result.
         wf_bind (prepare_shared_data w None (Some path)) (\<lambda>_. wf_ret result)))))))"

section \<open>The actions\<close>

datatype health_action = Assert_healthy | Check | Check_compose | Check_docker | Configure | Docker_mode
  | Docker_gateway_mode | Engine_socket_path | Init_opensearch | Init_postgres | Prepare_dirs | Prepare_shared

record health_arguments =
  container_bin :: pystr
  expected_docker_mode :: "pystr option"
  expected_gateway_mode :: "pystr option"
  project_name :: pystr
  env_files :: "pystr list"
  skip_check :: bool
  postgres_arg :: "pystr option"
  opensearch_arg :: "pystr option"
  audit_arg :: "pystr option"
  data_root :: "pystr option"
  full_mode :: "bool option"
  doc_source :: "pystr option"
  default_doc_source :: "pystr option"
  services :: "pystr list"

abbreviation ignore :: "('m, 'a) sh \<Rightarrow> ('m, unit) sh" where
  "ignore m \<equiv> wf_bind m (\<lambda>_. wf_ret ())"

definition run_action :: "'m host \<Rightarrow> pystr \<times> pystr \<Rightarrow> nat \<Rightarrow> health_arguments \<Rightarrow> health_action \<Rightarrow> ('m, unit) sh" where
  "run_action w scripts fuel a chosen = (let b = container_bin a in case chosen of
     Check \<Rightarrow> ignore (check_capability w b)
   | Check_compose \<Rightarrow> ignore (check_compose_capability w b)
   | Check_docker \<Rightarrow>
       wf_bind (check_docker_engine w b (expected_docker_mode a)) (\<lambda>_.
       ignore (docker_gateway_mode w b (expected_gateway_mode a)))
   | Docker_gateway_mode \<Rightarrow> ignore (docker_gateway_mode w b None)
   | Docker_mode \<Rightarrow> ignore (docker_engine_mode w b)
   | Engine_socket_path \<Rightarrow> ignore (engine_socket_path w b)
   | Assert_healthy \<Rightarrow> ignore (assert_services_healthy w b (project_name a) (services a))
   | Prepare_shared \<Rightarrow> ignore (prepare_shared_data w (postgres_arg a) (opensearch_arg a))
   | Prepare_dirs \<Rightarrow> (case (data_root a, full_mode a) of
       (Some base_dir, Some full) \<Rightarrow> ignore (prepare_host_directories w base_dir full (doc_source a) (default_doc_source a))
     | _ \<Rightarrow> wf_stop Contract)
   | Init_postgres \<Rightarrow> (case postgres_arg a of
       None \<Rightarrow> wf_stop Contract
     | Some p \<Rightarrow> ignore (initialize_postgres_data w b p (env_files a) fuel))
   | Init_opensearch \<Rightarrow> (case (opensearch_arg a, audit_arg a) of
       (Some p, Some c) \<Rightarrow> ignore (initialize_opensearch_data w scripts b p c (env_files a) fuel)
     | _ \<Rightarrow> wf_stop Contract)
   | Configure \<Rightarrow> ignore (configure_project w b (project_name a) (env_files a) (\<not> skip_check a)))"

text \<open>The exit status; \<open>None\<close> is a traceback.\<close>

definition status_of :: "sh_error + unit \<Rightarrow> nat option" where
  "status_of r = (case r of
     Inr _ \<Rightarrow> Some 0
   | Inl e \<Rightarrow> (if e = Contract \<or> e = Called then Some 1 else None))"

definition main :: "'m host \<Rightarrow> pystr \<times> pystr \<Rightarrow> nat \<Rightarrow> health_arguments \<Rightarrow> health_action \<Rightarrow> 'm \<Rightarrow> sh_event list \<times> nat option" where
  "main w scripts fuel a chosen s = (case run_action w scripts fuel a chosen s of (es, _, r) \<Rightarrow> (es, status_of r))"

section \<open>Nothing is left behind\<close>

text \<open>The engine's command can be started.\<close>

definition engine_starts :: "'m host \<Rightarrow> bool" where
  "engine_starts w \<longleftrightarrow> (\<forall>l i s. fst (answer w l i s) \<noteq> Not_started)"

lemma run_any_log: "fst (run_any w i l s) = [Command l]"
  by (simp add: run_any_def split: prod.splits)

lemma run_any_starts:
  assumes "engine_starts w"
  obtains s' c out where "run_any w i l s = ([Command l], s', Inr (c, out))"
proof -
  obtain r s' where a: "answer w l i s = (r, s')" by (cases "answer w l i s") auto
  with assms have "r \<noteq> Not_started" by (metis engine_starts_def fst_conv)
  with a show thesis by (cases r) (auto simp: run_any_def intro: that)
qed

definition volume_removal :: "pystr \<Rightarrow> pystr \<Rightarrow> sh_event" where
  "volume_removal b n = Command [b, ''volume'', ''rm'', ''--force'', n]"

lemma removal_log:
  assumes "engine_starts w"
  shows "fst (remove_temporaries w b created n s) =
    (if created then [Command [b, ''rm'', ''--force'', n]] else []) @ [volume_removal b n]"
proof -
  obtain s1 c out where r: "run_any w None [b, ''rm'', ''--force'', n] s = ([Command [b, ''rm'', ''--force'', n]], s1, Inr (c, out))"
    by (rule run_any_starts [OF assms])
  obtain t1 where t: "t1 = (if created then s1 else s)" by simp
  obtain s2 v out2 where v: "run_any w None [b, ''volume'', ''rm'', ''--force'', n] t1 = ([volume_removal b n], s2, Inr (v, out2))"
    unfolding volume_removal_def by (rule run_any_starts [OF assms])
  show ?thesis
    using r v t by (auto simp: remove_temporaries_def wf_bind_def wf_ret_def wf_stop_def)
qed

lemma temporary_log:
  assumes "engine_starts w"
  shows "\<exists>l. fst (in_temporary w b n start rest s) = l @ [volume_removal b n]"
proof -
  define first where "first = wf_bind (contract_on {Called} (run_ok w start)) (\<lambda>_. wf_ret ())"
  obtain es s1 r where f: "first s = (es, s1, r)" by (cases "first s") auto
  show ?thesis
  proof (cases r)
    case (Inl e)
    obtain l s2 q where c: "remove_temporaries w b False n s1 = (l, s2, q)" by (cases "remove_temporaries w b False n s1") auto
    then have "l = [volume_removal b n]" using removal_log [OF assms, of b False n s1] by simp
    with f c Inl show ?thesis
      unfolding in_temporary_def first_def [symmetric]
      by (cases q) (auto simp: wf_bind_def wf_catch_def wf_stop_def)
  next
    case (Inr u)
    obtain l s2 q where m: "contract_on {Called} rest s1 = (l, s2, q)" by (cases "contract_on {Called} rest s1") auto
    obtain l' s3 q' where c: "remove_temporaries w b True n s2 = (l', s3, q')" by (cases "remove_temporaries w b True n s2") auto
    then have "l' = [Command [b, ''rm'', ''--force'', n], volume_removal b n]" using removal_log [OF assms, of b True n s2] by simp
    with f m c Inr show ?thesis
      unfolding in_temporary_def first_def [symmetric]
      by (cases q') (auto simp: wf_bind_def wf_catch_def wf_finally_def)
  qed
qed

lemma fill_volume_log:
  assumes "engine_starts w"
  shows "fst (fill_volume w b role n start steps s) = [Command (create_volume b role n)] \<or>
    last (fst (fill_volume w b role n start steps s)) = volume_removal b n"
proof -
  obtain s1 c out where r: "run_any w None (create_volume b role n) s =
      ([Command (create_volume b role n)], s1, Inr (c, out))"
    by (rule run_any_starts [OF assms])
  show ?thesis
  proof (cases "c = 0")
    case False
    with r show ?thesis by (auto simp: fill_volume_def wf_bind_def run_checked_def wf_stop_def)
  next
    case True
    obtain l where l: "fst (in_temporary w b n start steps s1) = l @ [volume_removal b n]"
      using temporary_log [OF assms] by blast
    have "run_ok w (create_volume b role n) s = ([Command (create_volume b role n)], s1, Inr out)"
      using r True by (simp add: run_checked_def bind_eq wf_ret_def)
    then have "fst (fill_volume w b role n start steps s) =
        Command (create_volume b role n) # fst (in_temporary w b n start steps s1)"
      by (simp add: fill_volume_def bind_eq)
    with l show ?thesis by simp
  qed
qed

text \<open>
  Filling the data directory ends with the removal of the temporary volume, whatever fails
  on the way, unless the volume could not be created in the first place.
\<close>

theorem temporary_volume_removed:
  assumes "engine_starts w"
  shows "fst (fill_postgres w b envs fuel s) = [Command (create_volume b ''postgres-init'' (postgres_temp (fresh_hex w s)))] \<or>
    last (fst (fill_postgres w b envs fuel s)) = volume_removal b (postgres_temp (fresh_hex w s))"
proof -
  have "fst (fill_postgres w b envs fuel s) = fst (fill_volume w b ''postgres-init'' (postgres_temp (fresh_hex w s))
      (postgres_start b envs (postgres_temp (fresh_hex w s))) (postgres_steps w b envs fuel (postgres_temp (fresh_hex w s))) s)"
    by (simp add: fill_postgres_def read_state_def bind_eq Let_def)
  then show ?thesis using fill_volume_log [OF assms] by simp
qed

section \<open>Existing data is not overwritten\<close>

text \<open>
  A data directory that holds entries but no initialized database is refused before any
  command is run, and nothing is changed.
\<close>

theorem partial_data_refused:
  assumes "podman_binary b" "path_kind w s (join_path (abspath w p) ''PG_VERSION'') \<noteq> Some_file"
    "path_kind w s (abspath w p) \<noteq> Nothing_there" "has_entries w s (abspath w p) \<noteq> Some False"
  shows "initialize_postgres_data w b p envs fuel s = ([], s, Inl Contract)"
  using assms
  by (simp add: initialize_postgres_data_def Let_def require_podman_binary_def is_file_def is_dir_def path_exists_def
      claim_empty_def read_state_def require_def wf_bind_def wf_ret_def wf_stop_def)

text \<open>
  When the initialization succeeds the data directory holds an initialized database,
  whether it was made or found.
\<close>

theorem initialized_has_database:
  assumes "initialize_postgres_data w b p envs fuel s = (es, s', Inr result)" "\<not> on_darwin w"
    "abspath w (abspath w p) = abspath w p"
  shows "path_kind w s' (join_path (abspath w p) ''PG_VERSION'') = Some_file"
proof -
  obtain s1 l1 names where "prepare_shared_data w (Some (abspath w p)) None s1 = (l1, s', Inr names)"
    using assms(1) unfolding initialize_postgres_data_def Let_def
    by (elim wf_bind_Inr) (auto simp: wf_ret_def)
  then show ?thesis
    using assms(2,3)
    by (auto simp: prepare_shared_data_def prepare_postgres_def is_file_def read_state_def require_def wf_bind_def
        wf_ret_def wf_stop_def split: if_splits)
qed

section \<open>The wait ends\<close>

definition host_time_passes :: "'m host \<Rightarrow> bool" where
  "host_time_passes w \<longleftrightarrow> (\<forall>l i s. clock w s \<le> clock w (snd (answer w l i s))) \<and>
     (\<forall>t s. clock w s + t \<le> clock w (sleep w t s))"

text \<open>
  The wait for the database ends: with a clock that moves, one question more than there
  are seconds is enough, whatever the container answers.
\<close>

theorem readiness_wait_ends:
  assumes "host_time_passes w" "deadline - clock w s \<le> of_nat fuel"
  shows "snd (snd (await_ready w line deadline (Suc fuel) s)) \<noteq> Inl Out_of_fuel"
  using assms(2)
proof (induction fuel arbitrary: s)
  case (0 s)
  obtain r s1 where a: "answer w line None s = (r, s1)" by (cases "answer w line None s") auto
  then have "clock w s \<le> clock w s1" using assms(1) by (metis host_time_passes_def snd_conv)
  with 0 a show ?case
    by (cases r) (auto simp: run_any_def wf_bind_def wf_ret_def wf_stop_def read_state_def)
next
  case (Suc fuel s)
  obtain r s1 where a: "answer w line None s = (r, s1)" by (cases "answer w line None s") auto
  then have "clock w s \<le> clock w s1" using assms(1) by (metis host_time_passes_def snd_conv)
  moreover have "clock w s1 + 1 \<le> clock w (sleep w 1 s1)" using assms(1) by (simp add: host_time_passes_def)
  ultimately have "deadline - clock w (sleep w 1 s1) \<le> of_nat fuel" using Suc.prems by simp
  then have "snd (snd (await_ready w line deadline (Suc fuel) (sleep w 1 s1))) \<noteq> Inl Out_of_fuel" by (rule Suc.IH)
  with a show ?case
    by (cases r; cases "await_ready w line deadline (Suc fuel) (sleep w 1 s1)")
      (auto simp: run_any_def wf_bind_def wf_ret_def wf_stop_def read_state_def
        await_ready.simps(2) [of w line deadline "Suc fuel"] simp del: await_ready.simps split: sum.splits)
qed

section \<open>Concrete runs\<close>

text \<open>An engine that always answers with status 0; the state is the clock.\<close>

definition agreeable :: "path_kind \<Rightarrow> rat host" where
  "agreeable k = \<lparr>answer = (\<lambda>l i s. (Ended 0 [], s)), json_of = (\<lambda>t. None),
     path_kind = (\<lambda>s p. if ends_with p ''PG_VERSION'' then k else Directory),
     has_entries = (\<lambda>s p. Some True), make_dirs = (\<lambda>e p s. (True, s)), clock = id, sleep = (\<lambda>t s. s + t),
     fresh_hex = (\<lambda>s. ''0f''), abspath = id, environ = Map.empty, on_darwin = False, codecs = sample_codec\<rparr>"

lemma temporary_volume_removed_witness:
  "fst (fill_postgres (agreeable Some_file) ''podman'' [] 130 0) =
      [Command (create_volume ''podman'' ''postgres-init'' (postgres_temp (fresh_hex (agreeable Some_file) 0)))] \<or>
    last (fst (fill_postgres (agreeable Some_file) ''podman'' [] 130 0)) =
      volume_removal ''podman'' (postgres_temp (fresh_hex (agreeable Some_file) 0))"
  by (rule temporary_volume_removed) (simp add: engine_starts_def agreeable_def)

lemma partial_data_refused_witness:
  "initialize_postgres_data (agreeable Nothing_there) ''podman'' ''/d'' [] 1 0 = ([], 0, Inl Contract)"
  by (rule partial_data_refused) code_simp+

lemma initialized_has_database_witness:
  "path_kind (agreeable Some_file) 0 (join_path (abspath (agreeable Some_file) ''/d'') ''PG_VERSION'') = Some_file"
proof (rule initialized_has_database)
  show "initialize_postgres_data (agreeable Some_file) ''podman'' ''/d'' [] 1 0 = ([], 0, Inr ''reused'')" by code_simp
qed (simp_all add: agreeable_def)

lemma readiness_wait_ends_witness:
  "snd (snd (await_ready (agreeable Some_file) [''podman''] 120 (Suc 120) 0)) \<noteq> Inl Out_of_fuel"
  by (rule readiness_wait_ends) (simp_all add: host_time_passes_def agreeable_def)

end
