(* ===== verification/Document_Freshness.thy ===== *)
theory Document_Freshness
  imports Complex_Main Workflow PyUrl PyData
begin

text \<open>
  The freshness of crawled PDF documents:
  \<open>src/onyx/patches/onyx_wrapper_patches/background/document_freshness.py\<close>. The web server,
  the crawler that is patched, the database, the parser of HTTP dates and the content hash are functions
  of one world; every exception is the same error. Log lines are left out. Times are seconds in UTC, with
  a fraction.
\<close>

section \<open>Documents\<close>

type_synonym metadata = "pystr \<rightharpoonup> json"

record document =
  doc_id :: "pystr option"
  section_links :: "pystr option list"
  doc_metadata :: "metadata option"
  doc_updated_at :: "rat option"

record db_document =
  db_id :: pystr
  db_updated_at :: "rat option"
  db_metadata :: "metadata option"
  db_hash :: "pystr option"

record head_reply =
  status_code :: int
  content_type :: "pystr option"
  last_modified :: "pystr option"
  content_length :: "pystr option"

datatype fr_event =
    Head pystr
  | Scrape pystr bool
  | Lookup pystr
  | Seed pystr
  | Skip_noted pystr int

datatype fr_error = Runtime | Exception_raised

record 'm crawl =
  head :: "pystr \<Rightarrow> 'm \<Rightarrow> head_reply option \<times> 'm"
  scrape :: "pystr \<Rightarrow> bool \<Rightarrow> 'm \<Rightarrow> document option option \<times> 'm"
  db_get :: "pystr \<Rightarrow> 'm \<Rightarrow> db_document option option"
  db_seed :: "pystr \<Rightarrow> rat \<Rightarrow> metadata \<Rightarrow> 'm \<Rightarrow> bool \<times> 'm"
  is_pdf_resource :: "pystr \<Rightarrow> pystr option \<Rightarrow> bool"
  parse_date :: "pystr \<Rightarrow> rat option"
  content_hash :: "document \<Rightarrow> pystr"
  environ :: "pystr \<rightharpoonup> pystr"

type_synonym ('m, 'a) fr = "('m, fr_event, fr_error, 'a) run"

definition version_key :: pystr where "version_key = ''_wrapper_http_freshness_version''"
definition last_modified_key :: pystr where "last_modified_key = ''_wrapper_http_last_modified''"
definition content_length_key :: pystr where "content_length_key = ''_wrapper_http_content_length''"
definition source_key :: pystr where "source_key = ''_wrapper_http_freshness_source''"
definition unchanged_key :: pystr where "unchanged_key = ''_wrapper_http_freshness_unchanged''"
definition unreadable_key :: pystr where "unreadable_key = ''_wrapper_http_freshness_unreadable''"
definition http_status_key :: pystr where "http_status_key = ''_wrapper_http_status''"

lemmas keys = version_key_def last_modified_key_def content_length_key_def source_key_def unchanged_key_def
  unreadable_key_def http_status_key_def

definition version :: json where
  "version = JStr ''1''"

definition terminal_codes :: "int set" where
  "terminal_codes = {401, 403, 404}"

section \<open>Which addresses\<close>

definition allowed_hosts :: "'m crawl \<Rightarrow> pystr list" where
  "allowed_hosts w = map (\<lambda>h. py_lower (py_strip h)) (filter (\<lambda>h. py_strip h \<noteq> [])
     (split_on (CHR '','') (case environ w ''ONYX_WEB_CONNECTOR_HTTP_FRESHNESS_HOSTS'' of
        None \<Rightarrow> ''localhost,127.0.0.1,::1'' | Some v \<Rightarrow> v)))"

definition is_allowed_url :: "'m crawl \<Rightarrow> pystr \<Rightarrow> fr_error + bool" where
  "is_allowed_url w u = (case urlparse u of
     Inl _ \<Rightarrow> Inl Exception_raised
   | Inr p \<Rightarrow> Inr (py_lower (hostname p) \<in> set (allowed_hosts w)))"

section \<open>Links that are shown\<close>

text \<open>\<open>urlunsplit\<close> of parts with a network location.\<close>

definition url_text :: "pystr \<Rightarrow> pystr \<Rightarrow> pystr \<Rightarrow> pystr \<Rightarrow> pystr \<Rightarrow> pystr" where
  "url_text scheme netloc path query fragment =
     scheme @ ''://'' @ netloc @ (if path \<noteq> [] \<and> hd path \<noteq> CHR ''/'' then ''/'' @ path else path) @
     (if query = [] then [] else ''?'' @ query) @ (if fragment = [] then [] else ''#'' @ fragment)"

definition split_url :: "pystr \<Rightarrow> fr_error + url" where
  "split_url s = (case urlsplit s of Inl _ \<Rightarrow> Inl Exception_raised | Inr p \<Rightarrow> Inr p)"

definition url_port :: "url \<Rightarrow> fr_error + int option" where
  "url_port p = (case port p of Inl _ \<Rightarrow> Inl Exception_raised | Inr q \<Rightarrow> Inr q)"

definition strip_slashes :: "pystr \<Rightarrow> pystr" where
  "strip_slashes s = rstrip_by (\<lambda>c. c = CHR ''/'') s"

definition check_bases :: "url \<Rightarrow> url \<Rightarrow> fr_error + unit" where
  "check_bases internal display =
     (if u_scheme internal \<noteq> ''http'' \<or> hostname internal \<noteq> ''doc-drop-web'' then Inl Runtime
      else rbind (url_port internal) (\<lambda>q.
        if q \<noteq> Some 8091 \<or> u_scheme display \<notin> {''http'', ''https''} \<or>
           hostname display \<notin> {''localhost'', ''127.0.0.1'', ''::1''}
        then Inl Runtime else Inr ()))"

definition displayed :: "url \<Rightarrow> url \<Rightarrow> pystr" where
  "displayed display p = url_text (u_scheme display) (u_netloc display)
     (strip_slashes (u_path display) @ u_path p) (u_query p) (u_fragment p)"

definition rewrite_link :: "url \<Rightarrow> url \<Rightarrow> pystr option \<Rightarrow> fr_error + pystr option" where
  "rewrite_link internal display link = (case link of
     None \<Rightarrow> Inr None
   | Some l \<Rightarrow>
       (if l = [] then Inr link
        else rbind (split_url l) (\<lambda>p.
          if u_scheme p \<noteq> u_scheme internal \<or> hostname p \<noteq> hostname internal then Inr link
          else rbind (url_port p) (\<lambda>q. rbind (url_port internal) (\<lambda>q'.
            if q \<noteq> q' \<or> \<not> starts_with (u_path p) (strip_slashes (u_path internal) @ ''/'') then Inr link
            else Inr (Some (displayed display p)))))))"

definition base_setting :: "'m crawl \<Rightarrow> pystr \<Rightarrow> pystr" where
  "base_setting w n = (case environ w n of None \<Rightarrow> [] | Some v \<Rightarrow> py_strip v)"

definition rewrite_document :: "url \<Rightarrow> url \<Rightarrow> document \<Rightarrow> fr_error + document" where
  "rewrite_document internal display d =
     rbind (check_bases internal display) (\<lambda>_.
     rbind (rmapM (rewrite_link internal display) (section_links d)) (\<lambda>links.
       Inr (d\<lparr>section_links := links\<rparr>)))"

definition rewrite_display_links :: "'m crawl \<Rightarrow> document option \<Rightarrow> fr_error + document option" where
  "rewrite_display_links w result =
     (let internal_raw = base_setting w ''ONYX_WEB_CONNECTOR_INTERNAL_BASE_URL'';
          display_raw = base_setting w ''ONYX_WEB_CONNECTOR_DISPLAY_BASE_URL''
      in case result of
        None \<Rightarrow> Inr None
      | Some d \<Rightarrow>
          (if internal_raw = [] \<or> display_raw = [] then Inr result
           else rbind (split_url internal_raw) (\<lambda>internal.
                rbind (split_url display_raw) (\<lambda>display.
                rbind (rewrite_document internal display d) (\<lambda>d'. Inr (Some d'))))))"

section \<open>Validators\<close>

text \<open>The last instant of a second before the time: a date has no fraction.\<close>

definition whole :: "rat \<Rightarrow> rat" where
  "whole t = of_int \<lfloor>t\<rfloor>"

definition parse_last_modified :: "'m crawl \<Rightarrow> pystr option \<Rightarrow> rat option" where
  "parse_last_modified w v = (case v of
     None \<Rightarrow> None
   | Some s \<Rightarrow> (if s = [] then None else map_option whole (parse_date w s)))"

text \<open>\<open>str.isdigit\<close> also accepts the superscript digits of Latin-1.\<close>

definition isdigit_c :: "char \<Rightarrow> bool" where
  "isdigit_c c \<longleftrightarrow> is_digit c \<or> ord_c c \<in> {178, 179, 185}"

definition normal_content_length :: "pystr option \<Rightarrow> pystr option" where
  "normal_content_length v = (case v of
     None \<Rightarrow> None
   | Some s \<Rightarrow> (let t = py_strip s in if t \<noteq> [] \<and> list_all isdigit_c t then Some t else None))"

definition freshness_metadata :: "metadata option \<Rightarrow> pystr \<Rightarrow> pystr \<Rightarrow> metadata" where
  "freshness_metadata existing raw len = (case existing of None \<Rightarrow> Map.empty | Some m \<Rightarrow> m)
     (version_key \<mapsto> version, last_modified_key \<mapsto> JStr raw, content_length_key \<mapsto> JStr len,
      source_key \<mapsto> JStr ''http-head'')"

definition unchanged_metadata :: "pystr \<Rightarrow> pystr \<Rightarrow> metadata" where
  "unchanged_metadata raw len = (freshness_metadata None raw len)(unchanged_key \<mapsto> version)"

definition set_some :: "pystr \<Rightarrow> pystr option \<Rightarrow> metadata \<Rightarrow> metadata" where
  "set_some k v m = (case v of None \<Rightarrow> m | Some s \<Rightarrow> (if s = [] then m else m(k \<mapsto> JStr s)))"

definition unreadable_metadata :: "int \<Rightarrow> pystr option \<Rightarrow> pystr option \<Rightarrow> metadata" where
  "unreadable_metadata status raw len = set_some content_length_key len (set_some last_modified_key raw
     [version_key \<mapsto> version, source_key \<mapsto> JStr ''http-head'', unreadable_key \<mapsto> version,
      http_status_key \<mapsto> JStr (int_str status)])"

definition metadata_matches :: "metadata \<Rightarrow> pystr \<Rightarrow> pystr \<Rightarrow> bool" where
  "metadata_matches m raw len \<longleftrightarrow> m version_key = Some version \<and> m last_modified_key = Some (JStr raw) \<and>
     m content_length_key = Some (JStr len)"

definition doc_matches :: "db_document option \<Rightarrow> rat \<Rightarrow> pystr \<Rightarrow> pystr \<Rightarrow> bool" where
  "doc_matches db dt raw len = (case db of
     None \<Rightarrow> False
   | Some d \<Rightarrow> (case db_updated_at d of
       None \<Rightarrow> False
     | Some t \<Rightarrow> whole t = dt \<and>
         metadata_matches (case db_metadata d of None \<Rightarrow> Map.empty | Some m \<Rightarrow> m) raw len))"

section \<open>The indexing filter\<close>

definition metadata_of :: "document \<Rightarrow> metadata" where
  "metadata_of d = (case doc_metadata d of None \<Rightarrow> Map.empty | Some m \<Rightarrow> m)"

definition unreadable_sentinel :: "document \<Rightarrow> bool" where
  "unreadable_sentinel d \<longleftrightarrow> metadata_of d unreadable_key = Some version"

definition unchanged_sentinel :: "document \<Rightarrow> bool" where
  "unchanged_sentinel d \<longleftrightarrow> metadata_of d unchanged_key = Some version"

text \<open>\<open>{db_doc.id: db_doc for db_doc in db_docs}.get\<close>: the last one of an identifier.\<close>

definition db_by_id :: "db_document list \<Rightarrow> pystr option \<Rightarrow> db_document option" where
  "db_by_id dbs i = (case i of None \<Rightarrow> None | Some n \<Rightarrow> find (\<lambda>d. db_id d = n) (rev dbs))"

definition sentinel_still_holds :: "db_document list \<Rightarrow> document \<Rightarrow> bool" where
  "sentinel_still_holds dbs d =
     (case (doc_updated_at d, metadata_of d last_modified_key, metadata_of d content_length_key) of
        (Some t, Some (JStr raw), Some (JStr len)) \<Rightarrow> doc_matches (db_by_id dbs (doc_id d)) t raw len
      | _ \<Rightarrow> False)"

fun filter_sentinels :: "db_document list \<Rightarrow> document list \<Rightarrow> fr_error + document list \<times> nat" where
  "filter_sentinels dbs [] = Inr ([], 0)"
| "filter_sentinels dbs (d # ds) =
     (if unreadable_sentinel d
      then rbind (filter_sentinels dbs ds) (\<lambda>(ps, n). Inr (ps, n + 1))
      else if \<not> unchanged_sentinel d
      then rbind (filter_sentinels dbs ds) (\<lambda>(ps, n). Inr (d # ps, n))
      else if sentinel_still_holds dbs d
      then rbind (filter_sentinels dbs ds) (\<lambda>(ps, n). Inr (ps, n + 1))
      else Inl Runtime)"

section \<open>The patched crawl of one page\<close>

definition semantic_identifier :: "pystr \<Rightarrow> fr_error + pystr" where
  "semantic_identifier u = (case urlparse u of
     Inl _ \<Rightarrow> Inl Exception_raised
   | Inr p \<Rightarrow> (let name = rev (takeWhile (\<lambda>c. c \<noteq> CHR ''/'') (rev (strip_slashes (u_path p))))
             in Inr (if name = [] then u else name)))"

definition do_head :: "'m crawl \<Rightarrow> pystr \<Rightarrow> ('m, head_reply) fr" where
  "do_head w u s = (case head w u s of (r, s') \<Rightarrow>
     ([Head u], s', case r of None \<Rightarrow> Inl Exception_raised | Some h \<Rightarrow> Inr h))"

definition original_scrape :: "'m crawl \<Rightarrow> pystr \<Rightarrow> bool \<Rightarrow> ('m, document option) fr" where
  "original_scrape w u slim s = (case scrape w u slim s of (r, s') \<Rightarrow>
     ([Scrape u slim], s', case r of None \<Rightarrow> Inl Exception_raised | Some d \<Rightarrow> Inr d))"

definition scrape_with_links :: "'m crawl \<Rightarrow> pystr \<Rightarrow> bool \<Rightarrow> ('m, document option) fr" where
  "scrape_with_links w u slim =
     wf_bind (original_scrape w u slim) (\<lambda>d. wf_from (rewrite_display_links w d))"

definition lookup :: "'m crawl \<Rightarrow> pystr \<Rightarrow> ('m, db_document option) fr" where
  "lookup w i s = ([Lookup i], s, case db_get w i s of None \<Rightarrow> Inl Exception_raised | Some d \<Rightarrow> Inr d)"

definition seed :: "'m crawl \<Rightarrow> pystr \<Rightarrow> rat \<Rightarrow> metadata \<Rightarrow> ('m, unit) fr" where
  "seed w i t m s = (case db_seed w i t m s of (ok, s') \<Rightarrow>
     ([Seed i], s', if ok then Inr () else Inl Exception_raised))"

definition sentinel :: "pystr \<Rightarrow> metadata \<Rightarrow> rat option \<Rightarrow> document" where
  "sentinel u m t = \<lparr>doc_id = Some u, section_links = [], doc_metadata = Some m, doc_updated_at = t\<rparr>"

text \<open>What the first part of the crawl ends with: a result, or the validators of a PDF document, or
  that it is no PDF.\<close>

datatype head_outcome =
    Finished "document option"
  | Not_pdf
  | Pdf "pystr option" "rat option" "pystr option"

definition head_part :: "'m crawl \<Rightarrow> bool \<Rightarrow> pystr \<Rightarrow> bool \<Rightarrow> ('m, head_outcome) fr" where
  "head_part w skip_patched u slim =
     wf_bind (do_head w u) (\<lambda>h.
       let pdf = is_pdf_resource w u (content_type h);
           dt = parse_last_modified w (last_modified h);
           len = normal_content_length (content_length h)
       in if skip_patched \<and> pdf \<and> status_code h \<in> terminal_codes
          then wf_bind (wf_from (semantic_identifier u)) (\<lambda>_.
               wf_bind (wf_log (Skip_noted u (status_code h))) (\<lambda>_.
               wf_ret (Finished (Some (sentinel u (unreadable_metadata (status_code h) (last_modified h) len) dt)))))
          else if 400 \<le> status_code h
          then wf_bind (scrape_with_links w u slim) (\<lambda>d. wf_ret (Finished d))
          else wf_ret (if pdf then Pdf (last_modified h) dt len else Not_pdf))"

text \<open>Any exception of the first part makes it start over with the crawl that was patched.\<close>

definition guarded_head_part :: "'m crawl \<Rightarrow> bool \<Rightarrow> pystr \<Rightarrow> bool \<Rightarrow> ('m, head_outcome) fr" where
  "guarded_head_part w skip_patched u slim =
     wf_catch (head_part w skip_patched u slim)
       (\<lambda>_. wf_bind (scrape_with_links w u slim) (\<lambda>d. wf_ret (Finished d)))"

text \<open>The document as it is stored decides whether the crawl is needed.\<close>

definition unchanged_part ::
  "'m crawl \<Rightarrow> bool \<Rightarrow> pystr \<Rightarrow> pystr option \<Rightarrow> rat option \<Rightarrow> pystr option \<Rightarrow> ('m, document option) fr" where
  "unchanged_part w skip_patched u raw dt len = (case (dt, len) of
     (Some t, Some l) \<Rightarrow>
       wf_catch (wf_bind (lookup w u) (\<lambda>db.
         let r = (case raw of None \<Rightarrow> [] | Some s \<Rightarrow> s)
         in if skip_patched \<and> doc_matches db t r l
            then wf_bind (wf_from (semantic_identifier u)) (\<lambda>_.
                 wf_ret (Some (sentinel u (unchanged_metadata r l) (Some t))))
            else wf_ret None))
       (\<lambda>_. wf_ret None)
   | _ \<Rightarrow> wf_ret None)"

text \<open>After a crawl: when the stored content is the same, the stored document gets the validators, and
  the result keeps its metadata; otherwise the result gets them.\<close>

definition seed_part :: "'m crawl \<Rightarrow> document \<Rightarrow> pystr \<Rightarrow> pystr \<Rightarrow> rat \<Rightarrow> pystr \<Rightarrow> ('m, document) fr" where
  "seed_part w d i raw t len =
     (let m = freshness_metadata (doc_metadata d) raw len in
      wf_bind (wf_catch (wf_bind (lookup w i) (\<lambda>db. case db of
           None \<Rightarrow> wf_ret False
         | Some x \<Rightarrow>
             (if db_hash x = Some (content_hash w d)
              then wf_bind (seed w i t m) (\<lambda>_. wf_ret True) else wf_ret False)))
         (\<lambda>_. wf_ret False)) (\<lambda>same.
      wf_ret (if same then d\<lparr>doc_updated_at := Some t\<rparr>
              else d\<lparr>doc_updated_at := Some t, doc_metadata := Some m\<rparr>)))"

definition crawl_part ::
  "'m crawl \<Rightarrow> pystr \<Rightarrow> bool \<Rightarrow> pystr option \<Rightarrow> rat option \<Rightarrow> pystr option \<Rightarrow> ('m, document option) fr" where
  "crawl_part w u slim raw dt len =
     wf_bind (scrape_with_links w u slim) (\<lambda>result.
       case (result, dt, len) of
         (Some d, Some t, Some l) \<Rightarrow> (case doc_id d of
             None \<Rightarrow> wf_ret result
           | Some i \<Rightarrow> wf_bind (seed_part w d i (case raw of None \<Rightarrow> [] | Some s \<Rightarrow> s) t l) (\<lambda>d'. wf_ret (Some d')))
       | _ \<Rightarrow> wf_ret result)"

definition patched_scrape :: "'m crawl \<Rightarrow> bool \<Rightarrow> pystr \<Rightarrow> bool \<Rightarrow> ('m, document option) fr" where
  "patched_scrape w skip_patched u slim =
     (if slim then original_scrape w u slim
      else wf_bind (wf_from (is_allowed_url w u)) (\<lambda>allowed.
        if \<not> allowed then original_scrape w u slim
        else wf_bind (guarded_head_part w skip_patched u slim) (\<lambda>o1. case o1 of
          Finished d \<Rightarrow> wf_ret d
        | Not_pdf \<Rightarrow> scrape_with_links w u slim
        | Pdf raw dt len \<Rightarrow>
            wf_bind (unchanged_part w skip_patched u raw dt len) (\<lambda>known. case known of
              Some d \<Rightarrow> wf_ret (Some d)
            | None \<Rightarrow> crawl_part w u slim raw dt len))))"

section \<open>What is indexed\<close>

text \<open>
  The filter before the indexing hands on exactly the documents that are no sentinels,
  in their order, counts the others, and succeeds only if every sentinel of an unchanged document
  still agrees with what is stored.
\<close>

theorem sentinels_never_indexed:
  "filter_sentinels dbs ds = Inr (ps, n) \<longleftrightarrow>
     ps = filter (\<lambda>d. \<not> unreadable_sentinel d \<and> \<not> unchanged_sentinel d) ds \<and>
     n = length (filter (\<lambda>d. unreadable_sentinel d \<or> unchanged_sentinel d) ds) \<and>
     list_all (\<lambda>d. unreadable_sentinel d \<or> \<not> unchanged_sentinel d \<or> sentinel_still_holds dbs d) ds"
proof (induction ds arbitrary: ps n)
  case (Cons d ds)
  then show ?case by (auto simp: rbind_Inr_iff)
qed auto

lemma whole_whole [simp]: "whole (whole t) = whole t"
  by (simp add: whole_def)

lemma parsed_whole: "parse_last_modified w v = Some t \<Longrightarrow> whole t = t"
  by (auto simp: parse_last_modified_def split: option.splits if_splits)

lemma parsed_raw: "parse_last_modified w v = Some t \<Longrightarrow> \<exists>s. v = Some s \<and> s \<noteq> []"
  by (auto simp: parse_last_modified_def split: option.splits if_splits)

lemma unchanged_sentinel_marks:
  "unchanged_sentinel (sentinel u (unchanged_metadata raw len) t)"
  "\<not> unreadable_sentinel (sentinel u (unchanged_metadata raw len) t)"
  "metadata_of (sentinel u (unchanged_metadata raw len) t) last_modified_key = Some (JStr raw)"
  "metadata_of (sentinel u (unchanged_metadata raw len) t) content_length_key = Some (JStr len)"
  by (simp_all add: unchanged_sentinel_def unreadable_sentinel_def metadata_of_def sentinel_def
      unchanged_metadata_def freshness_metadata_def keys version_def)

text \<open>What the second part of the crawl answers without an exception.\<close>

lemma unchanged_part_result:
  assumes "unchanged_part w patched u raw dt len s = (es, s', Inr (Some d))"
  obtains t l db where "dt = Some t" "len = Some l" "db_get w u s = Some db" "patched"
    "doc_matches db t (case raw of None \<Rightarrow> [] | Some r \<Rightarrow> r) l"
    "d = sentinel u (unchanged_metadata (case raw of None \<Rightarrow> [] | Some r \<Rightarrow> r) l) (Some t)"
    "s' = s" "es = [Lookup u]"
proof -
  obtain t l where tl: "dt = Some t" "len = Some l"
    using assms by (auto simp: unchanged_part_def wf_ret_def split: option.splits)
  obtain db where g: "db_get w u s = Some db"
    using assms tl by (cases "db_get w u s") (auto simp: unchanged_part_def wf_catch_def wf_bind_def lookup_def wf_ret_def)
  define r where "r = (case raw of None \<Rightarrow> [] | Some r \<Rightarrow> r)"
  have m: "patched \<and> doc_matches db t r l"
    using assms tl g by (auto simp: unchanged_part_def wf_catch_def wf_bind_def lookup_def wf_ret_def Let_def r_def
        split: if_splits)
  have "d = sentinel u (unchanged_metadata r l) (Some t)" "s' = s" "es = [Lookup u]"
    using assms tl g m by (auto simp: unchanged_part_def wf_catch_def wf_bind_def lookup_def wf_ret_def wf_from_def Let_def r_def
        split: sum.splits)
  with tl g m r_def show thesis using that by blast
qed

text \<open>
  A crawl that ends without a download, because the document is unchanged, is accepted by
  the filter before the indexing: as long as the stored document is the one the crawl saw, its
  placeholder is skipped, and neither indexed nor refused.
\<close>

theorem unchanged_placeholder_skipped:
  assumes "unchanged_part w patched u raw dt len s = (es, s', Inr (Some d))"
    "db_get w u s = Some (db_by_id dbs (Some u))"
  shows "filter_sentinels dbs [d] = Inr ([], 1)"
proof -
  obtain t l db where p: "dt = Some t" "len = Some l" "db_get w u s = Some db"
    "doc_matches db t (case raw of None \<Rightarrow> [] | Some r \<Rightarrow> r) l"
    "d = sentinel u (unchanged_metadata (case raw of None \<Rightarrow> [] | Some r \<Rightarrow> r) l) (Some t)"
    using assms(1) by (rule unchanged_part_result)
  then have "sentinel_still_holds dbs d"
    using assms(2) unchanged_sentinel_marks(3,4) by (simp add: sentinel_still_holds_def) (simp add: sentinel_def)
  with p(5) unchanged_sentinel_marks show ?thesis by simp
qed

text \<open>
  What is stored when a crawl finds the old content makes the next look at the same
  validators find the document unchanged.
\<close>

theorem seeded_document_matches:
  assumes "parse_last_modified w (Some raw) = Some t"
  shows "doc_matches (Some \<lparr>db_id = i, db_updated_at = Some t, db_metadata = Some (freshness_metadata m raw len),
    db_hash = h\<rparr>) t raw len"
  using parsed_whole [OF assms]
  by (simp add: doc_matches_def metadata_matches_def freshness_metadata_def keys)

text \<open>
  A PDF document on an allowed host whose validators are the stored ones is not
  downloaded: one HEAD request and one look at the database, and the placeholder is the result.
\<close>

theorem unchanged_not_downloaded:
  assumes "is_allowed_url w u = Inr True" "head w u s = (Some h, s1)" "is_pdf_resource w u (content_type h)"
    "status_code h < 400" "last_modified h = Some raw" "parse_last_modified w (Some raw) = Some t"
    "normal_content_length (content_length h) = Some len" "db_get w u s1 = Some db" "doc_matches db t raw len"
  shows "patched_scrape w True u False s =
    ([Head u, Lookup u], s1, Inr (Some (sentinel u (unchanged_metadata raw len) (Some t))))"
proof -
  have st: "status_code h \<notin> terminal_codes" using assms(4) by (auto simp: terminal_codes_def)
  have p: "head_part w True u False s = ([Head u], s1, Inr (Pdf (Some raw) (Some t) (Some len)))"
    using assms st by (simp add: head_part_def do_head_def wf_bind_def wf_ret_def Let_def)
  obtain n where n: "semantic_identifier u = Inr n"
    using assms(1) by (auto simp: is_allowed_url_def semantic_identifier_def Let_def split: sum.splits)
  have q: "unchanged_part w True u (Some raw) (Some t) (Some len) s1 =
      ([Lookup u], s1, Inr (Some (sentinel u (unchanged_metadata raw len) (Some t))))"
    using assms(8,9) n by (simp add: unchanged_part_def wf_catch_def wf_bind_def lookup_def wf_ret_def wf_from_def)
  show ?thesis
    using assms(1) p q
    by (simp add: patched_scrape_def guarded_head_part_def wf_bind_def wf_catch_def wf_from_def wf_ret_def)
qed

section \<open>Links\<close>

text \<open>A link that leads to this host.\<close>

definition local_link :: "pystr option \<Rightarrow> bool" where
  "local_link l \<longleftrightarrow> (\<exists>b path query fragment. hostname b \<in> {''localhost'', ''127.0.0.1'', ''::1''} \<and>
     u_scheme b \<in> {''http'', ''https''} \<and> l = Some (url_text (u_scheme b) (u_netloc b) path query fragment))"

lemma rewrite_link_local:
  assumes "check_bases internal display = Inr ()" "rewrite_link internal display l = Inr l'"
  shows "l' = l \<or> local_link l'"
proof -
  have d: "u_scheme display \<in> {''http'', ''https''}" "hostname display \<in> {''localhost'', ''127.0.0.1'', ''::1''}"
    using assms(1) by (auto simp: check_bases_def rbind_Inr_iff split: if_splits)
  consider "l' = l" | p where "l' = Some (displayed display p)"
  proof (cases l)
    case None
    with assms(2) show thesis using that(1) by (simp add: rewrite_link_def)
  next
    case (Some k)
    show thesis
    proof (cases "k = []")
      case True
      with Some assms(2) show thesis using that(1) by (simp add: rewrite_link_def)
    next
      case False
      with Some assms(2) obtain p where p: "(if u_scheme p \<noteq> u_scheme internal \<or> hostname p \<noteq> hostname internal then Inr l
          else rbind (url_port p) (\<lambda>q. rbind (url_port internal) (\<lambda>q'.
            if q \<noteq> q' \<or> \<not> starts_with (u_path p) (strip_slashes (u_path internal) @ ''/'') then Inr l
            else Inr (Some (displayed display p))))) = Inr l'"
        by (auto simp: rewrite_link_def rbind_Inr_iff [of "split_url k"])
      show thesis
        using p that by (auto simp: rbind_Inr_iff [of "url_port p"] rbind_Inr_iff [of "url_port internal"] split: if_splits)
    qed
  qed
  then show ?thesis
  proof cases
    case 2
    with d show ?thesis unfolding local_link_def displayed_def by blast
  qed simp
qed

lemma rmapM_list_all2:
  "rmapM f xs = Inr ys \<Longrightarrow> (\<And>x y. f x = Inr y \<Longrightarrow> P x y) \<Longrightarrow> list_all2 P xs ys"
  by (induction xs arbitrary: ys) (auto simp: rbind_Inr_iff)

text \<open>
  Rewriting the links that are shown changes nothing of a document but its links, and every
  link it changes leads to this host.
\<close>

theorem only_links_rewritten:
  assumes "rewrite_display_links w (Some d) = Inr (Some d')"
  shows "\<exists>links. d' = d\<lparr>section_links := links\<rparr> \<and>
    list_all2 (\<lambda>l l'. l' = l \<or> local_link l') (section_links d) links"
proof -
  consider "d' = d" | internal display where "rewrite_document internal display d = Inr d'"
    using assms by (auto simp: rewrite_display_links_def Let_def rbind_Inr_iff split: if_splits)
  then show ?thesis
  proof cases
    case 1
    then show ?thesis by (intro exI [of _ "section_links d"]) (simp add: list.rel_refl)
  next
    case 2
    then obtain links where l: "check_bases internal display = Inr ()"
      "rmapM (rewrite_link internal display) (section_links d) = Inr links" "d' = d\<lparr>section_links := links\<rparr>"
      by (auto simp: rewrite_document_def rbind_Inr_iff)
    have "list_all2 (\<lambda>l l'. l' = l \<or> local_link l') (section_links d) links"
      using l(2) by (rule rmapM_list_all2) (rule rewrite_link_local [OF l(1)])
    with l(3) show ?thesis by (intro exI [of _ links] conjI)
  qed
qed

section \<open>Concrete crawls\<close>

text \<open>A server that answers every HEAD request alike, and a database with one document.\<close>

definition sample_crawl :: "int \<Rightarrow> document option option \<Rightarrow> unit crawl" where
  "sample_crawl status scraped = \<lparr>
     head = (\<lambda>u s. (Some \<lparr>status_code = status, content_type = Some ''application/pdf'',
       last_modified = Some ''D'', content_length = Some '' 12 ''\<rparr>, s)),
     scrape = (\<lambda>u slim s. (scraped, s)),
     db_get = (\<lambda>i s. Some (Some \<lparr>db_id = i, db_updated_at = Some (15 / 2),
       db_metadata = Some (freshness_metadata None ''D'' ''12''), db_hash = Some ''h''\<rparr>)),
     db_seed = (\<lambda>i t m s. (True, s)), is_pdf_resource = (\<lambda>u c. True), parse_date = (\<lambda>v. Some (29 / 4)),
     content_hash = (\<lambda>d. ''h''),
     environ = map_of [(''ONYX_WEB_CONNECTOR_INTERNAL_BASE_URL'', ''http://doc-drop-web:8091/docs/''),
       (''ONYX_WEB_CONNECTOR_DISPLAY_BASE_URL'', ''http://localhost:3000/files'')]\<rparr>"

definition sample_url :: pystr where
  "sample_url = ''http://127.0.0.1/a.pdf''"

definition stored :: db_document where
  "stored = \<lparr>db_id = sample_url, db_updated_at = Some (15 / 2),
     db_metadata = Some (freshness_metadata None ''D'' ''12''), db_hash = Some ''h''\<rparr>"

lemma sample_matches: "doc_matches (Some stored) 7 ''D'' ''12''"
  by (simp add: doc_matches_def stored_def metadata_matches_def freshness_metadata_def keys whole_def floor_eq_iff)

lemma unchanged_not_downloaded_witness:
  "patched_scrape (sample_crawl 200 None) True sample_url False () =
    ([Head sample_url, Lookup sample_url], (), Inr (Some (sentinel sample_url (unchanged_metadata ''D'' ''12'') (Some 7))))"
proof (rule unchanged_not_downloaded)
  show "is_allowed_url (sample_crawl 200 None) sample_url = Inr True" by code_simp
  show "parse_last_modified (sample_crawl 200 None) (Some ''D'') = Some 7" by code_simp
  show "doc_matches (Some stored) 7 ''D'' ''12''" by (rule sample_matches)
  show "normal_content_length (content_length \<lparr>status_code = 200, content_type = Some ''application/pdf'',
       last_modified = Some ''D'', content_length = Some '' 12 ''\<rparr>) = Some ''12''" by code_simp
qed (simp_all add: sample_crawl_def stored_def)

lemma unchanged_placeholder_skipped_witness:
  "filter_sentinels [stored] [sentinel sample_url (unchanged_metadata ''D'' ''12'') (Some 7)] = Inr ([], 1)"
proof (rule unchanged_placeholder_skipped)
  have "semantic_identifier sample_url = Inr ''a.pdf''" by code_simp
  then show "unchanged_part (sample_crawl 200 None) True sample_url (Some ''D'') (Some 7) (Some ''12'') () =
      ([Lookup sample_url], (), Inr (Some (sentinel sample_url (unchanged_metadata ''D'' ''12'') (Some 7))))"
    using sample_matches
    by (simp add: unchanged_part_def wf_catch_def wf_bind_def lookup_def wf_ret_def wf_from_def sample_crawl_def stored_def)
qed (simp add: sample_crawl_def db_by_id_def stored_def)

lemma seeded_document_matches_witness:
  "doc_matches (Some \<lparr>db_id = sample_url, db_updated_at = Some 7, db_metadata = Some (freshness_metadata None ''D'' ''12''),
    db_hash = None\<rparr>) 7 ''D'' ''12''"
  by (rule seeded_document_matches [of "sample_crawl 200 None"]) code_simp

definition sample_document :: document where
  "sample_document = \<lparr>doc_id = Some sample_url, section_links = [Some ''http://doc-drop-web:8091/docs/x.pdf?q#f'', None,
     Some ''http://other/docs/y''], doc_metadata = None, doc_updated_at = None\<rparr>"

lemma only_links_rewritten_witness:
  "\<exists>links. sample_document\<lparr>section_links := [Some ''http://localhost:3000/files/docs/x.pdf?q#f'', None,
      Some ''http://other/docs/y'']\<rparr> = sample_document\<lparr>section_links := links\<rparr> \<and>
    list_all2 (\<lambda>l l'. l' = l \<or> local_link l') (section_links sample_document) links"
proof (rule only_links_rewritten)
  have "(case rewrite_display_links (sample_crawl 200 None) (Some sample_document) of
      Inr (Some d) \<Rightarrow> section_links d = [Some ''http://localhost:3000/files/docs/x.pdf?q#f'', None, Some ''http://other/docs/y'']
    | _ \<Rightarrow> False)" by code_simp
  then obtain d where d: "rewrite_display_links (sample_crawl 200 None) (Some sample_document) = Inr (Some d)"
    "section_links d = [Some ''http://localhost:3000/files/docs/x.pdf?q#f'', None, Some ''http://other/docs/y'']"
    by (auto split: sum.splits option.splits)
  then have "d = sample_document\<lparr>section_links := section_links d\<rparr>"
    by (auto simp: rewrite_display_links_def rewrite_document_def rbind_Inr_iff Let_def split: if_splits)
  with d show "rewrite_display_links (sample_crawl 200 None) (Some sample_document) =
      Inr (Some (sample_document\<lparr>section_links := [Some ''http://localhost:3000/files/docs/x.pdf?q#f'', None,
        Some ''http://other/docs/y'']\<rparr>))" by simp
qed

text \<open>The fallback after an error status stands inside the \<open>try\<close> block whose handler crawls again:
  when it raises, the page is crawled twice.\<close>

lemma failed_fallback_repeated:
  "fst (patched_scrape (sample_crawl 500 None) True sample_url False ()) =
    [Head sample_url, Scrape sample_url False, Scrape sample_url False]"
proof -
  have "is_allowed_url (sample_crawl 500 None) sample_url = Inr True" by code_simp
  moreover have "head_part (sample_crawl 500 None) True sample_url False () =
      ([Head sample_url, Scrape sample_url False], (), Inl Exception_raised)"
    by (simp add: head_part_def do_head_def wf_bind_def Let_def sample_crawl_def terminal_codes_def scrape_with_links_def
        original_scrape_def)
  moreover have "scrape_with_links (sample_crawl 500 None) sample_url False () = ([Scrape sample_url False], (), Inl Exception_raised)"
    by (simp add: scrape_with_links_def original_scrape_def wf_bind_def sample_crawl_def)
  ultimately show ?thesis
    by (simp add: patched_scrape_def guarded_head_part_def wf_bind_def wf_catch_def wf_from_def)
qed

end
