(* ===== verification/Chat_Links.thy ===== *)
theory Chat_Links
  imports Complex_Main PyUrl PyData
begin

text \<open>
  The links to generated chat files in streamed Markdown:
  \<open>src/onyx/patches/onyx_wrapper_patches/api/python_artifacts.py\<close>. The stream is the pending
  text and whether a code span is open; \<open>json.loads\<close> is an argument. The installation of
  the patches is left out.
\<close>

section \<open>Destinations\<close>

definition chat_path :: pystr where
  "chat_path = ''/api/chat/file/''"

text \<open>\<open>_CHAT_FILE_PATH_RE.fullmatch\<close>.\<close>

definition chat_file_path :: "pystr \<Rightarrow> bool" where
  "chat_file_path p \<longleftrightarrow> starts_with p chat_path \<and>
     (let r = drop (length chat_path) p in r \<noteq> [] \<and> list_all (\<lambda>c. c \<notin> set ''/?#'') r)"

definition part :: "char \<Rightarrow> pystr \<Rightarrow> pystr" where
  "part c s = (if s = [] then [] else c # s)"

text \<open>The text between angle brackets, when there are any.\<close>

definition bare_destination :: "pystr \<Rightarrow> pystr" where
  "bare_destination d =
     (let c = py_strip d
      in if starts_with c ''<'' \<and> ends_with c ''>'' then py_strip (butlast (tl c)) else c)"

definition relative_destination :: "pystr \<Rightarrow> (pystr \<times> pystr) option" where
  "relative_destination d =
     (let c = bare_destination d
      in if c = [] \<or> list_ex is_space c then None
         else case urlsplit c of
           Inl _ \<Rightarrow> None
         | Inr p \<Rightarrow>
             (if u_scheme p \<noteq> [] \<and> py_lower (u_scheme p) \<notin> {''http'', ''https''} then None
              else if u_scheme p = [] \<and> u_netloc p = [] \<and> \<not> starts_with c ''/'' then None
              else if \<not> chat_file_path (u_path p) then None
              else Some (u_path p @ part (CHR ''?'') (u_query p) @ part (CHR ''#'') (u_fragment p),
                         drop (length chat_path) (u_path p))))"

definition backslash_c :: char where
  "backslash_c = CHR 0x5C"

definition backtick :: char where
  "backtick = CHR 0x60"

definition link_label :: "pystr \<Rightarrow> pystr" where
  "link_label v = concat (map (\<lambda>c. if c \<in> {backslash_c, CHR ''['', CHR '']''} then [backslash_c, c] else [c]) v)"

section \<open>Generated files\<close>

type_synonym filenames = "(pystr \<times> pystr) list"

text \<open>A generated file is a JSON value or an object with the two attributes.\<close>

datatype generated = From_json json | With_attributes json json

datatype tool_response = Response_text pystr | Response_value json

record tool_call =
  attached :: "generated list"
  response :: tool_response

definition file_name_and_link :: "generated \<Rightarrow> (pystr \<times> pystr) option" where
  "file_name_and_link g =
     (case (case g of From_json (JObj m) \<Rightarrow> (jget m ''filename'', jget m ''file_link'')
            | From_json _ \<Rightarrow> (JNull, JNull) | With_attributes a b \<Rightarrow> (a, b)) of
        (JStr n, JStr l) \<Rightarrow> Some (n, l)
      | _ \<Rightarrow> None)"

definition add_file :: "filenames \<Rightarrow> generated \<Rightarrow> filenames" where
  "add_file names g = (case file_name_and_link g of
     None \<Rightarrow> names
   | Some (n, l) \<Rightarrow> (case relative_destination l of None \<Rightarrow> names | Some (_, i) \<Rightarrow> put i n names))"

text \<open>The files a response lists; \<open>None\<close> when the value cannot be iterated over.\<close>

definition listed_files :: "(pystr \<Rightarrow> json option) \<Rightarrow> tool_response \<Rightarrow> generated list option" where
  "listed_files loads r =
     (case (case r of Response_text s \<Rightarrow> loads s | Response_value v \<Rightarrow> Some v) of
        Some (JObj m) \<Rightarrow>
          (let v = jget m ''generated_files''
           in if json_falsy v then Some []
              else case v of
                JList items \<Rightarrow> Some (map From_json items)
              | JStr s \<Rightarrow> Some (map (\<lambda>c. From_json (JStr [c])) s)
              | JObj ms \<Rightarrow> Some (map (From_json \<circ> JStr \<circ> fst) ms)
              | _ \<Rightarrow> None)
      | _ \<Rightarrow> Some [])"

fun generated_filenames :: "(pystr \<Rightarrow> json option) \<Rightarrow> filenames \<Rightarrow> tool_call list \<Rightarrow> filenames option" where
  "generated_filenames loads names [] = Some names"
| "generated_filenames loads names (c # cs) =
     (case (if attached c \<noteq> [] then Some (attached c) else listed_files loads (response c)) of
        None \<Rightarrow> None
      | Some gs \<Rightarrow> generated_filenames loads (foldl add_file names gs) cs)"

section \<open>UUIDs\<close>

text \<open>\<open>s.replace(t, "")\<close>.\<close>

function remove_all :: "pystr \<Rightarrow> pystr \<Rightarrow> pystr" where
  "remove_all t [] = []"
| "remove_all t (c # s) =
     (if t \<noteq> [] \<and> starts_with (c # s) t then remove_all t (drop (length t) (c # s)) else c # remove_all t s)"
  by pat_completeness auto
termination
  by (relation "measure (\<lambda>(t, s). length s)") (auto simp: neq_Nil_conv)

fun hex_digits_ok :: "bool \<Rightarrow> pystr \<Rightarrow> bool" where
  "hex_digits_ok after_digit [] = after_digit"
| "hex_digits_ok after_digit (c # cs) =
     (if is_hex c then hex_digits_ok True cs
      else c = CHR ''_'' \<and> after_digit \<and> hex_digits_ok False cs)"

text \<open>\<open>int(s, 16)\<close> of a text without minus signs.\<close>

definition hex_int :: "pystr \<Rightarrow> nat option" where
  "hex_int s =
     (let t = py_strip s;
          t = (if starts_with t ''+'' then tl t else t);
          pre = starts_with (py_lower t) ''0x'';
          body = (if pre then drop 2 t else t)
      in if hex_digits_ok pre body \<and> filter is_hex body \<noteq> [] then Some (hex_nat (filter is_hex body)) else None)"

definition uuid_of :: "pystr \<Rightarrow> nat option" where
  "uuid_of s =
     (let h = filter (\<lambda>c. c \<noteq> CHR ''-'') (strip_chars ''{}'' (remove_all ''uuid:'' (remove_all ''urn:'' s)))
      in if length h \<noteq> 32 then None else hex_int h)"

definition is_uuid :: "pystr \<Rightarrow> bool" where
  "is_uuid s \<longleftrightarrow> uuid_of s \<noteq> None"

definition canonical_id :: "pystr \<Rightarrow> filenames \<Rightarrow> pystr" where
  "canonical_id candidate names =
     (if candidate \<in> set (map fst names) \<or> CHR ''_'' \<notin> set candidate then candidate
      else case uuid_of (filter (\<lambda>c. c \<noteq> CHR ''_'') candidate) of
        None \<Rightarrow> candidate
      | Some u \<Rightarrow> (case filter (\<lambda>k. uuid_of k = Some u) (map fst names) of [k] \<Rightarrow> k | _ \<Rightarrow> candidate))"

section \<open>The stream\<close>

definition index_of :: "char \<Rightarrow> pystr \<Rightarrow> nat option" where
  "index_of c s = (if c \<in> set s then Some (length (takeWhile (\<lambda>x. x \<noteq> c) s)) else None)"

definition is_escaped :: "pystr \<Rightarrow> nat \<Rightarrow> bool" where
  "is_escaped s i \<longleftrightarrow> odd (length (takeWhile (\<lambda>c. c = backslash_c) (rev (take i s))))"

definition find_unescaped :: "pystr \<Rightarrow> char \<Rightarrow> nat \<Rightarrow> nat option" where
  "find_unescaped s c start = find (\<lambda>i. s ! i = c \<and> \<not> is_escaped s i) [start..<length s]"

definition tick_run :: "pystr \<Rightarrow> nat" where
  "tick_run s = length (takeWhile (\<lambda>c. c = backtick) s)"

definition candidate_limit :: nat where
  "candidate_limit = 4096"

text \<open>One round of the loop: it stops with what stays pending, or goes on.\<close>

datatype move = Halt pystr pystr | Go pystr pystr "nat option"

definition go_at :: "nat \<Rightarrow> pystr \<Rightarrow> nat option \<Rightarrow> move" where
  "go_at n p ticks = Go (take n p) (drop n p) ticks"

definition code_move :: "bool \<Rightarrow> nat \<Rightarrow> pystr \<Rightarrow> move" where
  "code_move final k p = (case index_of backtick p of
     None \<Rightarrow> Go p [] (Some k)
   | Some i \<Rightarrow>
       (if 0 < i then go_at i p (Some k)
        else if tick_run p = length p \<and> \<not> final then Halt [] p
        else go_at (tick_run p) p (if tick_run p = k then None else Some k)))"

definition tick_move :: "bool \<Rightarrow> nat \<Rightarrow> pystr \<Rightarrow> move" where
  "tick_move final i p =
     (if is_escaped p i then go_at (i + 1) p None
      else if 0 < i then go_at i p None
      else if tick_run p = length p \<and> \<not> final then Halt [] p
      else go_at (tick_run p) p (Some (tick_run p)))"

text \<open>A link that is not complete yet: it is waited for up to a limit.\<close>

definition wait_move :: "bool \<Rightarrow> pystr \<Rightarrow> move" where
  "wait_move final p = (if final \<or> candidate_limit < length p then go_at 1 p None else Halt [] p)"

definition canonical_link :: "filenames \<Rightarrow> pystr \<Rightarrow> pystr \<Rightarrow> pystr option" where
  "canonical_link names label destination = (case relative_destination destination of
     None \<Rightarrow> None
   | Some (relative, i) \<Rightarrow>
       (let k = canonical_id i names;
            relative = (if k \<noteq> i then chat_path @ k @ drop (length (chat_path @ i)) relative else relative);
            label = (case map_of names k of Some n \<Rightarrow> link_label n | None \<Rightarrow> label)
        in Some (''['' @ label @ ''](''  @ relative @ '')'')))"

definition slice :: "nat \<Rightarrow> nat \<Rightarrow> pystr \<Rightarrow> pystr" where
  "slice a b s = drop a (take b s)"

text \<open>The pending text starts with a link, after the mark of an image if \<open>br\<close> is 1.\<close>

definition link_move :: "filenames \<Rightarrow> bool \<Rightarrow> nat \<Rightarrow> pystr \<Rightarrow> move" where
  "link_move names final br p = (case find_unescaped p (CHR '']'') (br + 1) of
     None \<Rightarrow> wait_move final p
   | Some le \<Rightarrow>
       (if length p \<le> le + 1 then (if final then Go p [] None else Halt [] p)
        else if p ! (le + 1) \<noteq> CHR ''('' then go_at (le + 1) p None
        else case find_unescaped p (CHR '')'') (le + 2) of
          None \<Rightarrow> wait_move final p
        | Some de \<Rightarrow>
            (case canonical_link names (slice (br + 1) le p) (slice (le + 2) de p) of
               None \<Rightarrow> go_at (de + 1) p None
             | Some l \<Rightarrow> Go l (drop (de + 1) p) None)))"

definition plain_move :: "filenames \<Rightarrow> bool \<Rightarrow> pystr \<Rightarrow> move" where
  "plain_move names final p = (case (index_of (CHR ''['') p, index_of backtick p) of
     (None, None) \<Rightarrow>
       (if \<not> final \<and> ends_with p ''!'' then Halt (butlast p) ''!'' else Go p [] None)
   | (None, Some t) \<Rightarrow> tick_move final t p
   | (Some b, ti) \<Rightarrow>
       (if (case ti of None \<Rightarrow> False | Some t \<Rightarrow> t < b) then tick_move final (the ti) p
        else let image = (0 < b \<and> p ! (b - 1) = CHR ''!'' \<and> \<not> is_escaped p (b - 1));
                 start = (if image then b - 1 else b)
             in if 0 < start then go_at start p None
                else link_move names final (if image then 1 else 0) p))"

definition md_move :: "filenames \<Rightarrow> bool \<Rightarrow> nat option \<Rightarrow> pystr \<Rightarrow> move" where
  "md_move names final ticks p = (case ticks of
     Some k \<Rightarrow> code_move final k p
   | None \<Rightarrow> plain_move names final p)"

lemma index_of_less:
  assumes "index_of c s = Some i"
  shows "i < length s"
proof -
  have "c \<in> set s" and i: "i = length (takeWhile (\<lambda>x. x \<noteq> c) s)"
    using assms by (auto simp: index_of_def split: if_splits)
  then have "dropWhile (\<lambda>x. x \<noteq> c) s \<noteq> []" by (auto simp: dropWhile_eq_Nil_conv)
  moreover have "length s = i + length (dropWhile (\<lambda>x. x \<noteq> c) s)"
    unfolding i by (metis length_append takeWhile_dropWhile_id)
  ultimately show ?thesis by simp
qed

lemma tick_run_pos: "index_of backtick s = Some 0 \<Longrightarrow> 0 < tick_run s"
  by (cases s) (auto simp: index_of_def tick_run_def split: if_splits)

lemma find_unescaped_bound: "find_unescaped s c n = Some i \<Longrightarrow> n \<le> i \<and> i < length s"
  by (auto simp: find_unescaped_def find_Some_iff)

lemma go_at_shorter: "\<lbrakk>go_at n p t = Go x p' t'; 0 < n; p \<noteq> []\<rbrakk> \<Longrightarrow> length p' < length p"
  by (auto simp: go_at_def)

lemma md_move_shorter:
  assumes "md_move names final ticks p = Go out p' ticks'" "p \<noteq> []"
  shows "length p' < length p"
proof -
  have len: "0 < length p" using assms(2) by simp
  have tick: "length p' < length p" if "tick_move final i p = Go out p' ticks'" "index_of backtick p = Some i" for i
    using that assms(2) tick_run_pos [of p] by (auto simp: tick_move_def go_at_def split: if_splits)
  have wait: "length p' < length p" if "wait_move final p = Go out p' ticks'"
    using that assms(2) by (auto simp: wait_move_def go_at_def split: if_splits)
  show ?thesis
  proof (cases ticks)
    case (Some k)
    with assms tick_run_pos [of p] show ?thesis
      by (auto simp: md_move_def code_move_def go_at_def split: option.splits if_splits)
  next
    case None
    have link: "length p' < length p" if "link_move names final br p = Go out p' ticks'" for br
      using that len wait by (auto simp: link_move_def go_at_def split: option.splits if_splits)
    from None assms(1) show ?thesis
      using len tick link go_at_shorter [OF _ _ assms(2)]
      by (auto simp: md_move_def plain_move_def Let_def split: option.splits if_splits)
  qed
qed

function feed_loop :: "filenames \<Rightarrow> bool \<Rightarrow> nat option \<Rightarrow> pystr \<Rightarrow> pystr \<times> pystr \<times> nat option" where
  "feed_loop names final ticks p =
     (if p = [] then ([], [], ticks)
      else case md_move names final ticks p of
        Halt out rest \<Rightarrow> (out, rest, ticks)
      | Go out p' ticks' \<Rightarrow> (case feed_loop names final ticks' p' of (out', r) \<Rightarrow> (out @ out', r)))"
  by pat_completeness auto
termination
  by (relation "measure (\<lambda>(names, final, ticks, p). length p)") (auto dest: md_move_shorter)

declare feed_loop.simps [simp del]

record md_stream =
  pending :: pystr
  code_ticks :: "nat option"

definition new_stream :: md_stream where
  "new_stream = \<lparr>pending = [], code_ticks = None\<rparr>"

definition feed :: "filenames \<Rightarrow> bool \<Rightarrow> pystr \<Rightarrow> md_stream \<Rightarrow> pystr \<times> md_stream" where
  "feed names final content s = (case feed_loop names final (code_ticks s) (pending s @ content) of
     (out, p, ticks) \<Rightarrow> (out, \<lparr>pending = p, code_ticks = ticks\<rparr>))"

definition flush :: "filenames \<Rightarrow> md_stream \<Rightarrow> pystr \<times> md_stream" where
  "flush names s = feed names True [] s"

definition normalize_markdown :: "filenames \<Rightarrow> pystr \<Rightarrow> pystr" where
  "normalize_markdown names content =
     (case feed names False content new_stream of (out, s) \<Rightarrow> out @ fst (flush names s))"

text \<open>Several pieces in a row.\<close>

fun feed_all :: "filenames \<Rightarrow> pystr list \<Rightarrow> md_stream \<Rightarrow> pystr \<times> md_stream" where
  "feed_all names [] s = ([], s)"
| "feed_all names (c # cs) s =
     (case feed names False c s of (out, s') \<Rightarrow>
        (case feed_all names cs s' of (out', s'') \<Rightarrow> (out @ out', s'')))"

definition streamed :: "filenames \<Rightarrow> pystr list \<Rightarrow> pystr" where
  "streamed names cs = (case feed_all names cs new_stream of (out, s) \<Rightarrow> out @ fst (flush names s))"

lemma relative_destination_parts:
  assumes "relative_destination d = Some (r, i)"
  shows "\<exists>p. urlsplit (bare_destination d) = Inr p \<and> chat_file_path (u_path p) \<and>
    \<not> list_ex is_space (bare_destination d) \<and> i = drop (length chat_path) (u_path p) \<and>
    r = u_path p @ part (CHR ''?'') (u_query p) @ part (CHR ''#'') (u_fragment p)"
proof (cases "urlsplit (bare_destination d)")
  case (Inl e)
  with assms show ?thesis by (simp add: relative_destination_def Let_def split: if_splits)
next
  case (Inr p)
  with assms have "chat_file_path (u_path p)" "\<not> list_ex is_space (bare_destination d)"
    "i = drop (length chat_path) (u_path p)"
    "r = u_path p @ part (CHR ''?'') (u_query p) @ part (CHR ''#'') (u_fragment p)"
    by (simp_all add: relative_destination_def Let_def del: insert_iff split: if_splits)
  with Inr show ?thesis by (intro exI [of _ p] conjI)
qed

section \<open>Rewritten links stay on this origin\<close>

text \<open>
  A destination that is rewritten becomes a path below the chat files of the current origin,
  without scheme or host, whose last part is the identifier of the file.
\<close>

theorem rewritten_destination_relative:
  assumes "relative_destination d = Some (r, i)"
  shows "\<exists>rest. r = chat_path @ i @ rest \<and> i \<noteq> [] \<and> list_all (\<lambda>c. c \<notin> set ''/?#'') i \<and>
    (rest = [] \<or> hd rest \<in> set ''?#'')"
proof -
  obtain p where "urlsplit (bare_destination d) = Inr p \<and> chat_file_path (u_path p) \<and>
    \<not> list_ex is_space (bare_destination d) \<and> i = drop (length chat_path) (u_path p) \<and>
    r = u_path p @ part (CHR ''?'') (u_query p) @ part (CHR ''#'') (u_fragment p)"
    using relative_destination_parts [OF assms] ..
  then have p: "chat_file_path (u_path p)" "i = drop (length chat_path) (u_path p)"
    "r = u_path p @ part (CHR ''?'') (u_query p) @ part (CHR ''#'') (u_fragment p)"
    by simp_all
  have "u_path p = chat_path @ i"
    using p(1,2) by (auto simp: chat_file_path_def Let_def starts_with_iff)
  moreover have "i \<noteq> []" "list_all (\<lambda>c. c \<notin> set ''/?#'') i"
    using p(1,2) by (auto simp: chat_file_path_def Let_def)
  moreover have "part (CHR ''?'') (u_query p) @ part (CHR ''#'') (u_fragment p) = [] \<or>
      hd (part (CHR ''?'') (u_query p) @ part (CHR ''#'') (u_fragment p)) \<in> set ''?#''"
    by (simp add: part_def)
  ultimately show ?thesis using p(3) by auto
qed

lemma rewritten_destination_relative_witness:
  "\<exists>rest. ''/api/chat/file/f_1?x#y'' = chat_path @ ''f_1'' @ rest \<and> ''f_1'' \<noteq> [] \<and>
    list_all (\<lambda>c. c \<notin> set ''/?#'') ''f_1'' \<and> (rest = [] \<or> hd rest \<in> set ''?#'')"
  by (rule rewritten_destination_relative [of "''<https://old.example/api/chat/file/f_1?x#y>''"]) code_simp

section \<open>Text without such links passes unchanged\<close>

lemma contains_infix: "contains s t \<Longrightarrow> contains (a @ s @ b) t"
  unfolding contains_iff by (metis append.assoc)

lemma contains_drop: "contains (drop n s) t \<Longrightarrow> contains s t"
  using contains_infix [of "drop n s" t "take n s" "[]"] by simp

lemma contains_take: "contains (take n s) t \<Longrightarrow> contains s t"
  using contains_infix [of "take n s" t "[]" "drop n s"] by simp

lemma contains_slice: "contains (slice a b s) t \<Longrightarrow> contains s t"
  unfolding slice_def by (rule contains_take, rule contains_drop)

lemma partition_first: "partition_c c s = (a, f, b) \<Longrightarrow> \<exists>r. s = a @ r"
  by (auto simp: partition_c_def split: if_splits) (metis takeWhile_dropWhile_id)

lemma dropWhile_tail: "\<exists>a. s = a @ dropWhile P s"
  by (metis takeWhile_dropWhile_id)

lemma tl_tail: "\<exists>a. s = a @ tl s"
  by (cases s) auto

lemma butlast_head: "\<exists>b. s = butlast s @ b"
  by (cases s rule: rev_cases) auto

lemma tail_trans: "\<lbrakk>\<exists>a. s = a @ t; \<exists>a. t = a @ u\<rbrakk> \<Longrightarrow> \<exists>a. s = a @ u"
  by (metis append.assoc)

lemma split_scheme_rest: "\<exists>a. s = a @ snd (split_scheme s)"
  using tail_trans [OF dropWhile_tail tl_tail, of s "\<lambda>x. x \<noteq> CHR '':''"]
  by (auto simp: split_scheme_def partition_c_def)

lemma urlsplit_path:
  assumes "urlsplit raw = Inr p"
  shows "\<exists>a b. filter (\<lambda>c. ord_c c \<notin> {9, 10, 13}) (lstrip_by (\<lambda>c. ord_c c \<le> 32) raw) = a @ u_path p @ b"
proof -
  define s where "s = filter (\<lambda>c. ord_c c \<notin> {9, 10, 13}) (lstrip_by (\<lambda>c. ord_c c \<le> 32) raw)"
  define rest where "rest = snd (split_scheme s)"
  define rest2 where "rest2 = (if starts_with rest ''//'' then dropWhile (\<lambda>c. c \<notin> set ''/?#'') (drop 2 rest) else rest)"
  obtain a where a: "s = a @ rest" using split_scheme_rest [of s] rest_def by auto
  have "\<exists>a2. rest = a2 @ rest2"
    using tail_trans [OF exI [of _ "take 2 rest"] dropWhile_tail, of rest "drop 2 rest" "\<lambda>c. c \<notin> set ''/?#''"]
    by (simp add: rest2_def)
  then obtain a2 where a2: "rest = a2 @ rest2" ..
  obtain r3 f3 b3 where 3: "partition_c (CHR ''#'') rest2 = (r3, f3, b3)" by (cases "partition_c (CHR ''#'') rest2") auto
  obtain r4 f4 b4 where 4: "partition_c (CHR ''?'') r3 = (r4, f4, b4)" by (cases "partition_c (CHR ''?'') r3") auto
  have "u_path p = r4"
    using assms 3 4 unfolding urlsplit_def Let_def s_def [symmetric] rest2_def rest_def
    by (auto split: if_splits prod.splits)
  moreover obtain x y where "rest2 = r3 @ x" "r3 = r4 @ y" using partition_first [OF 3] partition_first [OF 4] by auto
  ultimately have "s = (a @ a2) @ u_path p @ (y @ x)" using a a2 by simp
  then show ?thesis unfolding s_def by blast
qed

lemma strip_infix: "\<exists>a b. s = a @ strip_by P s @ b"
proof -
  have "\<exists>b. t = rev (dropWhile P (rev t)) @ b" for t
    by (metis rev_append rev_rev_ident takeWhile_dropWhile_id)
  then obtain b where "lstrip_by P s = strip_by P s @ b" by (auto simp: strip_by_def rstrip_by_def)
  moreover have "s = takeWhile P s @ lstrip_by P s" by (simp add: lstrip_by_def)
  ultimately show ?thesis by metis
qed

lemma bare_infix: "\<exists>a b. d = a @ bare_destination d @ b"
proof -
  have b: "\<exists>a b. d = a @ py_strip d @ b" for d unfolding py_strip_def by (rule strip_infix)
  obtain a b' where d: "d = a @ py_strip d @ b'" using b by blast
  show ?thesis
  proof (cases "starts_with (py_strip d) ''<'' \<and> ends_with (py_strip d) ''>''")
    case False
    then have "bare_destination d = py_strip d" by (auto simp: bare_destination_def Let_def)
    with d show ?thesis by metis
  next
    case True
    obtain u v where "butlast (tl (py_strip d)) = u @ py_strip (butlast (tl (py_strip d))) @ v" using b by blast
    moreover have "\<exists>x y. py_strip d = x @ butlast (tl (py_strip d)) @ y"
      using tl_tail [of "py_strip d"] butlast_head [of "tl (py_strip d)"] by metis
    ultimately have "\<exists>x y. py_strip d = x @ bare_destination d @ y"
      using True by (simp add: bare_destination_def Let_def) (metis append.assoc)
    with d show ?thesis by (metis append.assoc)
  qed
qed

lemma resolved_contains:
  assumes "relative_destination d = Some x"
  shows "contains d chat_path"
proof -
  define c where "c = bare_destination d"
  obtain p where p: "urlsplit c = Inr p" "chat_file_path (u_path p)" "\<not> list_ex is_space c"
    using relative_destination_parts [of d "fst x" "snd x"] assms unfolding c_def by auto
  have "filter (\<lambda>k. ord_c k \<notin> {9, 10, 13}) (lstrip_by (\<lambda>c. ord_c c \<le> 32) c) = lstrip_by (\<lambda>c. ord_c c \<le> 32) c"
  proof (rule filter_True, rule ballI)
    fix k assume "k \<in> set (lstrip_by (\<lambda>c. ord_c c \<le> 32) c)"
    then have "k \<in> set c" by (auto simp: lstrip_by_def dest: set_dropWhileD)
    then have "\<not> is_space k" using p(3) by (auto simp: list_ex_iff)
    then show "ord_c k \<notin> {9, 10, 13}" by (auto simp: is_space_def)
  qed
  then obtain a b where "lstrip_by (\<lambda>c. ord_c c \<le> 32) c = a @ u_path p @ b" using urlsplit_path [OF p(1)] by auto
  moreover obtain z where "c = z @ lstrip_by (\<lambda>c. ord_c c \<le> 32) c"
    unfolding lstrip_by_def by (metis takeWhile_dropWhile_id)
  moreover obtain r where "u_path p = chat_path @ r" using p(2) by (auto simp: chat_file_path_def starts_with_iff)
  ultimately have "contains c chat_path" unfolding contains_iff by (metis append.assoc)
  moreover obtain a' b' where "d = a' @ c @ b'" using bare_infix [of d] c_def by auto
  ultimately show ?thesis using contains_infix by metis
qed

lemma canonical_link_contains:
  assumes "canonical_link names label (slice a b p) = Some l"
  shows "contains p chat_path"
proof -
  from assms obtain x where "relative_destination (slice a b p) = Some x"
    by (auto simp: canonical_link_def split: option.splits)
  then show ?thesis by (rule contains_slice [OF resolved_contains])
qed

lemma link_move_keeps:
  assumes "\<not> contains p chat_path"
  shows "link_move names final br p = Go out p' t \<Longrightarrow> out @ p' = p"
    and "link_move names final br p = Halt out p' \<Longrightarrow> \<not> final \<and> out @ p' = p"
proof -
  have no: "canonical_link names label (slice a b p) = None" for label a b
    using canonical_link_contains [of names label a b p] assms by (cases "canonical_link names label (slice a b p)") auto
  show "link_move names final br p = Go out p' t \<Longrightarrow> out @ p' = p"
    by (auto simp: link_move_def wait_move_def go_at_def no split: option.splits if_splits)
  show "link_move names final br p = Halt out p' \<Longrightarrow> \<not> final \<and> out @ p' = p"
    by (auto simp: link_move_def wait_move_def go_at_def no split: option.splits if_splits)
qed

lemma butlast_mark: "ends_with p ''!'' \<Longrightarrow> butlast p @ ''!'' = p"
  by (auto simp: ends_with_iff)

lemma plain_move_keeps:
  assumes "\<not> contains p chat_path"
  shows "plain_move names final p = Go out p' t \<Longrightarrow> out @ p' = p"
    and "plain_move names final p = Halt out p' \<Longrightarrow> \<not> final \<and> out @ p' = p"
proof -
  have go: "tick_move final i p = Go out p' t \<Longrightarrow> out @ p' = p" for i
    by (auto simp: tick_move_def go_at_def split: if_splits)
  have halt: "tick_move final i p = Halt out p' \<Longrightarrow> \<not> final \<and> out @ p' = p" for i
    by (auto simp: tick_move_def go_at_def split: if_splits)
  show "plain_move names final p = Go out p' t \<Longrightarrow> out @ p' = p"
    using go link_move_keeps(1) [OF assms]
    by (auto simp: plain_move_def go_at_def Let_def split: option.splits if_splits)
  show "plain_move names final p = Halt out p' \<Longrightarrow> \<not> final \<and> out @ p' = p"
    using butlast_mark [of p]
    by (auto simp: plain_move_def go_at_def Let_def dest: halt link_move_keeps(2) [OF assms]
        split: option.splits if_splits)
qed

lemma md_move_keeps:
  assumes "\<not> contains p chat_path"
  shows "md_move names final ticks p = Go out p' t \<Longrightarrow> out @ p' = p"
    and "md_move names final ticks p = Halt out p' \<Longrightarrow> \<not> final \<and> out @ p' = p"
  by (auto simp: md_move_def code_move_def go_at_def dest: plain_move_keeps [OF assms] split: option.splits if_splits)

lemma contains_tail: "\<lbrakk>\<not> contains (a @ s) t\<rbrakk> \<Longrightarrow> \<not> contains s t"
  using contains_infix [of s t a "[]"] by auto

lemma feed_loop_keeps:
  assumes "\<not> contains p chat_path" "feed_loop names final ticks p = (out, r, t)"
  shows "out @ r = p \<and> (final \<longrightarrow> r = [])"
  using assms
proof (induction names final ticks p arbitrary: out rule: feed_loop.induct)
  case (1 names final ticks p)
  show ?case
  proof (cases "p = []")
    case True
    with 1(3) show ?thesis by (simp add: feed_loop.simps)
  next
    case False
    show ?thesis
    proof (cases "md_move names final ticks p")
      case (Halt o1 rest)
      with 1(3) False md_move_keeps(2) [OF 1(2) Halt] show ?thesis by (simp add: feed_loop.simps)
    next
      case (Go o1 p' t1)
      note keep = md_move_keeps(1) [OF 1(2) Go]
      obtain o2 where "feed_loop names final t1 p' = (o2, r, t)" "out = o1 @ o2"
        using 1(3) False Go by (auto simp: feed_loop.simps [of names final ticks p] split: prod.splits)
      moreover have "\<not> contains p' chat_path" using 1(2) keep contains_tail by metis
      ultimately show ?thesis using 1(1) [OF False Go] keep by fastforce
    qed
  qed
qed

lemma feed_all_keeps:
  assumes "\<not> contains (pending s @ concat cs) chat_path" "feed_all names cs s = (out, s')"
  shows "out @ pending s' = pending s @ concat cs"
  using assms
proof (induction cs arbitrary: s out)
  case (Cons c cs)
  obtain o1 r t where f: "feed_loop names False (code_ticks s) (pending s @ c) = (o1, r, t)"
    by (cases "feed_loop names False (code_ticks s) (pending s @ c)") auto
  obtain o2 where a: "feed_all names cs \<lparr>pending = r, code_ticks = t\<rparr> = (o2, s')" "out = o1 @ o2"
    using Cons(3) f by (auto simp: feed_def split: prod.splits)
  have "\<not> contains (pending s @ c) chat_path"
    using Cons(2) contains_infix [of "pending s @ c" chat_path "[]" "concat cs"] by auto
  then have k: "o1 @ r = pending s @ c" using feed_loop_keeps f by blast
  have "\<not> contains (o1 @ (r @ concat cs)) chat_path" using Cons(2) k by (metis append.assoc concat.simps(2))
  then have "\<not> contains (r @ concat cs) chat_path" by (rule contains_tail)
  then have "o2 @ pending s' = r @ concat cs" using Cons(1) [OF _ a(1)] by simp
  with k a(2) show ?case by (metis append.assoc concat.simps(2))
qed simp

text \<open>
  Text that never names the path of the chat files leaves the stream as it entered,
  however it is cut into pieces: code spans, images and other links included.
\<close>

theorem other_text_unchanged:
  assumes "\<not> contains (concat cs) chat_path"
  shows "streamed names cs = concat cs"
proof -
  obtain out s where f: "feed_all names cs new_stream = (out, s)" by (cases "feed_all names cs new_stream")
  have k: "out @ pending s = concat cs"
    using feed_all_keeps [OF _ f] assms by (simp add: new_stream_def)
  then have "\<not> contains (pending s) chat_path" using assms contains_tail by metis
  then have "fst (flush names s) = pending s"
    using feed_loop_keeps [of "pending s" names True "code_ticks s"]
    by (auto simp: flush_def feed_def split: prod.splits)
  with f k show ?thesis by (simp add: streamed_def)
qed

lemma other_text_unchanged_witness:
  "streamed [] [''a ![x](/y'', '') [z'', ''](https://h/q) !''] = ''a ![x](/y) [z](https://h/q) !''"
  using other_text_unchanged [of "[''a ![x](/y'', '') [z'', ''](https://h/q) !'']" "[]"] by code_simp

section \<open>The pieces do not matter\<close>

definition prep :: "pystr \<Rightarrow> pystr \<times> pystr \<times> nat option \<Rightarrow> pystr \<times> pystr \<times> nat option" where
  "prep out x = (out @ fst x, snd x)"

lemma prep_prep [simp]: "prep a (prep b x) = prep (a @ b) x"
  by (simp add: prep_def)

lemma prep_Nil [simp]: "prep [] x = x"
  by (simp add: prep_def)

lemma feed_loop_Nil [simp]: "feed_loop names final ticks [] = ([], [], ticks)"
  by (simp add: feed_loop.simps)

lemma feed_loop_Halt: "\<lbrakk>p \<noteq> []; md_move names final ticks p = Halt out r\<rbrakk> \<Longrightarrow> feed_loop names final ticks p = (out, r, ticks)"
  by (simp add: feed_loop.simps)

lemma feed_loop_Go:
  "\<lbrakk>p \<noteq> []; md_move names final ticks p = Go out p' t\<rbrakk> \<Longrightarrow>
    feed_loop names final ticks p = prep out (feed_loop names final t p')"
  by (subst feed_loop.simps) (simp add: prep_def split: prod.splits)

lemma index_of_append:
  "index_of c (p @ x) = (case index_of c p of Some i \<Rightarrow> Some i | None \<Rightarrow> map_option (\<lambda>i. length p + i) (index_of c x))"
  by (auto simp: index_of_def takeWhile_append)

lemma index_of_None: "index_of c p = None \<longleftrightarrow> c \<notin> set p"
  by (simp add: index_of_def)

lemma index_of_nth: "index_of c p = Some i \<Longrightarrow> p ! i = c"
  using index_of_less [of c p i] nth_length_takeWhile [of "\<lambda>x. x \<noteq> c" p]
  by (auto simp: index_of_def split: if_splits)

lemma is_escaped_append: "i \<le> length p \<Longrightarrow> is_escaped (p @ x) i = is_escaped p i"
  by (simp add: is_escaped_def)

lemma not_escaped: "backslash_c \<notin> set p \<Longrightarrow> \<not> is_escaped p i"
  by (cases "rev (take i p)") (auto simp: is_escaped_def dest!: arg_cong [of _ _ set] dest: in_set_takeD)

lemma find_unescaped_append:
  assumes "find_unescaped p c n = Some i"
  shows "find_unescaped (p @ x) c n = Some i"
proof -
  have l: "n \<le> i" "i < length p" using find_unescaped_bound [OF assms] by auto
  have e: "[n..<length (p @ x)] = [n..<length p] @ [length p..<length (p @ x)]"
    using l by (simp flip: upt_add_eq_append)
  have c: "find (\<lambda>i. (p @ x) ! i = c \<and> \<not> is_escaped (p @ x) i) [n..<length p] =
      find (\<lambda>i. p ! i = c \<and> \<not> is_escaped p i) [n..<length p]"
    by (rule find_cong) (auto simp: nth_append is_escaped_append)
  have a: "find P (u @ v) = Some j" if "find P u = Some j" for P and u v :: "nat list" and j
    using that by (induction u) (auto split: if_splits)
  show ?thesis unfolding find_unescaped_def e
    by (rule a) (use assms c in \<open>simp add: find_unescaped_def\<close>)
qed

lemma tick_run_append:
  assumes "tick_run p \<noteq> length p"
  shows "tick_run (p @ x) = tick_run p"
proof -
  have "takeWhile (\<lambda>c. c = backtick) p \<noteq> p" using assms unfolding tick_run_def by metis
  then obtain c where "c \<in> set p" "c \<noteq> backtick" by (auto simp: takeWhile_eq_all_conv)
  then show ?thesis by (simp add: tick_run_def takeWhile_append1)
qed

lemma tick_run_le: "tick_run p \<le> length p"
  by (simp add: tick_run_def length_takeWhile_le)


text \<open>A move on the first part of the text is the move on the whole text.\<close>

lemma tick_move_append:
  assumes "tick_move False i p = Go out p' t" "i < length p"
  shows "tick_move False i (p @ x) = Go out (p' @ x) t"
  using assms is_escaped_append [of i p x] tick_run_append [of p x] tick_run_le [of p]
  by (auto simp: tick_move_def go_at_def split: if_splits)

lemma code_move_append:
  assumes "code_move False k p = Go out p' t" "backtick \<in> set p"
  shows "code_move False k (p @ x) = Go out (p' @ x) t"
proof -
  obtain i where i: "index_of backtick p = Some i" using assms(2) by (auto simp: index_of_def)
  then show ?thesis
    using assms(1) index_of_less [OF i] tick_run_append [of p x] tick_run_le [of p]
    by (auto simp: code_move_def go_at_def index_of_append split: if_splits)
qed

lemma link_move_append:
  assumes "link_move names False br p = Go out p' t" "length p \<le> candidate_limit"
  shows "link_move names False br (p @ x) = Go out (p' @ x) t"
proof -
  have no_wait: "wait_move False p \<noteq> Go out p' t" using assms(2) by (simp add: wait_move_def)
  obtain le where le: "find_unescaped p (CHR '']'') (br + 1) = Some le" "le + 1 < length p"
    using assms(1) no_wait by (auto simp: link_move_def split: option.splits if_splits)
  show ?thesis
  proof (cases "p ! (le + 1) = CHR ''(''")
    case False
    with assms(1) le find_unescaped_append [OF le(1), of x] show ?thesis
      by (auto simp: link_move_def go_at_def nth_append)
  next
    case True
    obtain de where de: "find_unescaped p (CHR '')'') (le + 2) = Some de"
      using assms(1) le True no_wait by (auto simp: link_move_def split: option.splits)
    have len: "le < length p" "de < length p" using le find_unescaped_bound [OF de] by auto
    then have "slice a le (p @ x) = slice a le p" "slice a de (p @ x) = slice a de p" for a
      by (simp_all add: slice_def)
    with assms(1) le True de len find_unescaped_append [OF le(1), of x] find_unescaped_append [OF de, of x]
    show ?thesis by (auto simp: link_move_def go_at_def nth_append split: option.splits)
  qed
qed

lemma plain_move_append:
  assumes "plain_move names False p = Go out p' t" "length p \<le> candidate_limit"
    and "CHR ''['' \<in> set p \<or> backtick \<in> set p"
  shows "plain_move names False (p @ x) = Go out (p' @ x) t"
proof (cases "index_of (CHR ''['') p")
  case None
  then obtain i where i: "index_of backtick p = Some i" using assms(3) by (auto simp: index_of_def)
  have tick: "tick_move False i (p @ x) = Go out (p' @ x) t"
    using assms(1) None i index_of_less [OF i] by (intro tick_move_append) (simp_all add: plain_move_def)
  show ?thesis
    using tick None i index_of_less [OF i]
    by (auto simp: plain_move_def index_of_append split: option.splits)
next
  case (Some b)
  have bl: "b < length p" using index_of_less [OF Some] .
  show ?thesis
  proof (cases "\<exists>i. index_of backtick p = Some i \<and> i < b")
    case True
    then obtain i where i: "index_of backtick p = Some i" "i < b" by auto
    have "tick_move False i (p @ x) = Go out (p' @ x) t"
      using assms(1) Some i bl by (intro tick_move_append) (simp_all add: plain_move_def)
    then show ?thesis using Some i by (simp add: plain_move_def index_of_append)
  next
    case False
    define image where "image = (0 < b \<and> p ! (b - 1) = CHR ''!'' \<and> \<not> is_escaped p (b - 1))"
    have im: "(0 < b \<and> (p @ x) ! (b - 1) = CHR ''!'' \<and> \<not> is_escaped (p @ x) (b - 1)) = image"
      using bl by (auto simp: image_def nth_append is_escaped_append)
    have link: "link_move names False br (p @ x) = Go out (p' @ x) t" if "link_move names False br p = Go out p' t" for br
      using that assms(2) by (rule link_move_append)
    have p: "plain_move names False p = (let start = (if image then b - 1 else b)
        in if 0 < start then go_at start p None else link_move names False (if image then 1 else 0) p)"
      using Some False by (auto simp: plain_move_def image_def Let_def split: option.splits)
    have px: "plain_move names False (p @ x) = (let start = (if image then b - 1 else b)
        in if 0 < start then go_at start (p @ x) None else link_move names False (if image then 1 else 0) (p @ x))"
      using Some False bl unfolding im [symmetric]
      by (auto simp: plain_move_def Let_def index_of_append split: option.splits)
    show ?thesis using assms(1) bl link unfolding p px Let_def by (auto simp: go_at_def split: if_splits)
  qed
qed

text \<open>Text in which nothing starts: it passes, and the rest is read as if it came alone.\<close>

lemma code_passes:
  assumes "backtick \<notin> set p"
  shows "feed_loop names False (Some k) (p @ x) = prep p (feed_loop names False (Some k) x)"
proof (cases "p = [] \<or> x = []")
  case True
  then show ?thesis
    using assms by (cases "p = []") (auto simp: feed_loop_Go md_move_def code_move_def index_of_def)
next
  case False
  have n: "index_of backtick p = None" using assms by (simp add: index_of_def)
  have run: "tick_run (p @ x) \<noteq> length (p @ x)" if "x \<noteq> []"
    using False assms by (cases p) (auto simp: tick_run_def)
  show ?thesis
  proof (cases "index_of backtick x")
    case None
    with False n show ?thesis
      by (simp add: feed_loop_Go [of "p @ x" _ _ _ "p @ x" "[]" "Some k"] feed_loop_Go [of x _ _ _ x "[]" "Some k"]
          md_move_def code_move_def index_of_append)
  next
    case (Some i)
    have pl: "0 < length p" using False by simp
    have "feed_loop names False (Some k) (p @ x) = prep (p @ take i x) (feed_loop names False (Some k) (drop i x))"
      using False n Some pl
      by (intro feed_loop_Go) (simp_all add: md_move_def code_move_def index_of_append go_at_def)
    moreover have "feed_loop names False (Some k) x = prep (take i x) (feed_loop names False (Some k) (drop i x))"
    proof (cases "0 < i")
      case True
      with False Some show ?thesis by (intro feed_loop_Go) (simp_all add: md_move_def code_move_def go_at_def)
    qed simp
    ultimately show ?thesis by simp
  qed
qed

lemma plain_passes:
  assumes p: "p \<noteq> []" "CHR ''['' \<notin> set p" "backtick \<notin> set p" and no: "backslash_c \<notin> set (p @ x)"
    and mark: "\<not> ends_with p ''!'' \<or> (x \<noteq> [] \<and> hd x \<noteq> CHR ''['')"
  shows "feed_loop names False None (p @ x) = prep p (feed_loop names False None x)"
proof -
  have n: "index_of backtick p = None" "index_of (CHR ''['') p = None" using p by (simp_all add: index_of_def)
  have esc: "\<not> is_escaped (p @ x) i" "\<not> is_escaped x i" for i using no by (auto intro!: not_escaped)
  have pl: "0 < length p" using p(1) by simp
  show ?thesis
  proof (cases "x = []")
    case True
    then show ?thesis using n mark p(1) by (simp add: feed_loop_Go [of p _ _ _ p "[]" None] md_move_def plain_move_def)
  next
    case x: False
    have tick: "feed_loop names False None (p @ x) = prep p (feed_loop names False None x)"
      if t: "index_of backtick x = Some i" and b: "\<forall>b. index_of (CHR ''['') x = Some b \<longrightarrow> i < b" for i
    proof -
      have "feed_loop names False None (p @ x) = prep (p @ take i x) (feed_loop names False None (drop i x))"
        using p(1) n t pl esc b
        by (intro feed_loop_Go)
          (auto simp: md_move_def plain_move_def tick_move_def index_of_append go_at_def split: option.splits)
      moreover have "feed_loop names False None x = prep (take i x) (feed_loop names False None (drop i x))"
      proof (cases "0 < i")
        case True
        with x t esc b show ?thesis
          by (intro feed_loop_Go)
            (auto simp: md_move_def plain_move_def tick_move_def go_at_def split: option.splits)
      qed simp
      ultimately show ?thesis by simp
    qed
    show ?thesis
    proof (cases "index_of (CHR ''['') x")
      case None
      show ?thesis
      proof (cases "index_of backtick x")
        case t: None
        have e: "ends_with (p @ x) ''!'' = ends_with x ''!''"
          using x by (cases x rule: rev_cases) (auto simp: ends_with_iff)
        show ?thesis
        proof (cases "ends_with x ''!''")
          case True
          then show ?thesis using x p(1) n None t e
            by (simp add: feed_loop_Halt [of "p @ x" _ _ _ "p @ butlast x" "''!''"]
                feed_loop_Halt [of x _ _ _ "butlast x" "''!''"]
                md_move_def plain_move_def index_of_append butlast_append prep_def)
        next
          case False
          then show ?thesis using x p(1) n None t e
            by (simp add: feed_loop_Go [of "p @ x" _ _ _ "p @ x" "[]" None] feed_loop_Go [of x _ _ _ x "[]" None]
                md_move_def plain_move_def index_of_append)
        qed
      next
        case t: (Some i)
        then show ?thesis using None by (intro tick) auto
      qed
    next
      case (Some b)
      show ?thesis
      proof (cases "\<exists>i. index_of backtick x = Some i \<and> i < b")
        case True
        then show ?thesis using Some tick by auto
      next
        case False
        define image where "image = (0 < b \<and> x ! (b - 1) = CHR ''!'')"
        define s where "s = (if image then b - 1 else b)"
        have im: "(0 < length p + b \<and> (p @ x) ! (length p + b - 1) = CHR ''!'') = image"
        proof (cases "b = 0")
          case True
          then have "hd x = CHR ''[''" using index_of_nth [OF Some] x by (simp add: hd_conv_nth)
          then have "last p \<noteq> CHR ''!''" using mark p(1) by (metis append_butlast_last_id ends_with_iff)
          then show ?thesis using True p(1) pl by (simp add: image_def nth_append last_conv_nth)
        qed (auto simp: image_def nth_append)
        have "plain_move names False (p @ x) = go_at (length p + s) (p @ x) None"
          using Some False n esc pl im unfolding s_def image_def
          by (auto simp: plain_move_def Let_def index_of_append simp del: length_greater_0_conv split: option.splits)
        then have "feed_loop names False None (p @ x) = prep (p @ take s x) (feed_loop names False None (drop s x))"
          using p(1) by (intro feed_loop_Go) (simp_all add: md_move_def go_at_def)
        moreover have "feed_loop names False None x = prep (take s x) (feed_loop names False None (drop s x))"
        proof (cases "0 < s")
          case True
          then have "plain_move names False x = go_at s x None"
            using Some False esc unfolding s_def image_def
            by (auto simp: plain_move_def Let_def split: option.splits)
          with x show ?thesis by (intro feed_loop_Go) (simp_all add: md_move_def go_at_def)
        qed simp
        ultimately show ?thesis by simp
      qed
    qed
  qed
qed


lemma go_at_set: "go_at n p k = Go out p' t \<Longrightarrow> set p' \<subseteq> set p"
  by (auto simp: go_at_def dest: in_set_dropD)

lemma link_move_set: "link_move names final br p = Go out p' t \<Longrightarrow> set p' \<subseteq> set p"
  by (auto simp: link_move_def wait_move_def go_at_def dest: in_set_dropD split: option.splits if_splits)

lemma md_move_set: "md_move names final ticks p = Go out p' t \<Longrightarrow> set p' \<subseteq> set p"
  by (auto simp: md_move_def code_move_def plain_move_def tick_move_def Let_def
      dest!: go_at_set link_move_set split: option.splits if_splits)

lemma md_move_Halt:
  assumes "md_move names False ticks p = Halt out r"
  shows "out = [] \<and> r = p \<or>
    ticks = None \<and> CHR ''['' \<notin> set out \<and> backtick \<notin> set out \<and> r = ''!'' \<and> p = out @ ''!''"
proof -
  have link: "link_move names False br p = Halt out r \<Longrightarrow> out = [] \<and> r = p" for br
    by (auto simp: link_move_def wait_move_def go_at_def split: option.splits if_splits)
  show ?thesis
    using assms
    by (auto simp: md_move_def code_move_def plain_move_def tick_move_def go_at_def Let_def index_of_None
        butlast_mark dest: link in_set_butlastD split: option.splits if_splits)
qed

lemma feed_loop_shrinks:
  assumes "feed_loop names False ticks p = (out, r, t)"
  shows "length r \<le> length p \<and> set r \<subseteq> set p"
  using assms
proof (induction "length p" arbitrary: ticks p out rule: less_induct)
  case less
  show ?case
  proof (cases "p = []")
    case p: False
    show ?thesis
    proof (cases "md_move names False ticks p")
      case (Halt o1 rest)
      with less(2) p md_move_Halt [OF Halt] show ?thesis by (auto simp: feed_loop_Halt)
    next
      case (Go o1 p' t1)
      obtain o2 where "feed_loop names False t1 p' = (o2, r, t)"
        using less(2) feed_loop_Go [OF p Go] by (cases "feed_loop names False t1 p'") (auto simp: prep_def)
      then show ?thesis using less(1) md_move_shorter [OF Go p] md_move_set [OF Go] by fastforce
    qed
  qed (use less(2) in simp)
qed

lemma feed_loop_append:
  assumes "length (p @ x) \<le> candidate_limit" "backslash_c \<notin> set (p @ x)"
    and "feed_loop names False ticks p = (out, r, t)"
  shows "feed_loop names False ticks (p @ x) = prep out (feed_loop names False t (r @ x))"
  using assms
proof (induction "length p" arbitrary: ticks p out rule: less_induct)
  case less
  show ?case
  proof (cases "p = []")
    case True
    with less(4) show ?thesis by auto
  next
    case p: False
    have step: ?thesis if m: "md_move names False ticks p = Go o1 p' t1"
      and w: "feed_loop names False ticks (p @ x) = prep o1 (feed_loop names False t1 (p' @ x))"
      and k: "set p' \<subseteq> set p" for o1 p' t1
    proof -
      have s: "length p' < length p" using md_move_shorter [OF m p] .
      obtain o2 where f: "feed_loop names False t1 p' = (o2, r, t)" "out = o1 @ o2"
        using less(4) feed_loop_Go [OF p m] by (cases "feed_loop names False t1 p'") (auto simp: prep_def)
      have "feed_loop names False t1 (p' @ x) = prep o2 (feed_loop names False t (r @ x))"
        using less(2,3) s k f(1) by (intro less(1)) auto
      with w f(2) show ?thesis by simp
    qed
    show ?thesis
    proof (cases "md_move names False ticks p")
      case (Halt o1 rest)
      then have e: "out = o1" "r = rest" "t = ticks" using less(4) feed_loop_Halt [OF p Halt] by auto
      consider "out = [] \<and> r = p" | "ticks = None" "CHR ''['' \<notin> set out" "backtick \<notin> set out" "r = ''!''" "p = out @ ''!''"
        using md_move_Halt [OF Halt] e by auto
      then show ?thesis
      proof cases
        case 2
        then have "feed_loop names False None (out @ (''!'' @ x)) = prep out (feed_loop names False None (''!'' @ x))"
          if "out \<noteq> []" using that less(3) by (intro plain_passes) auto
        with 2 e(3) show ?thesis by (cases "out = []") auto
      qed (use e(3) in simp)
    next
      case (Go o1 p' t1)
      note sub = md_move_set [OF Go]
      have lim: "length p \<le> candidate_limit" using less(2) by simp
      show ?thesis
      proof (cases ticks)
        case (Some k)
        show ?thesis
        proof (cases "backtick \<in> set p")
          case True
          with Go Some code_move_append have "md_move names False ticks (p @ x) = Go o1 (p' @ x) t1"
            by (simp add: md_move_def)
          with p have "feed_loop names False ticks (p @ x) = prep o1 (feed_loop names False t1 (p' @ x))"
            by (simp add: feed_loop_Go)
          then show ?thesis by (rule step [OF Go _ sub])
        next
          case False
          with Go Some have "o1 = p" "p' = []" "t1 = Some k"
            by (auto simp: md_move_def code_move_def index_of_def)
          with Some False have "feed_loop names False ticks (p @ x) = prep o1 (feed_loop names False t1 (p' @ x))"
            by (simp add: code_passes)
          then show ?thesis by (rule step [OF Go _ sub])
        qed
      next
        case None
        show ?thesis
        proof (cases "CHR ''['' \<in> set p \<or> backtick \<in> set p")
          case True
          with Go None plain_move_append [OF _ lim True] have "md_move names False ticks (p @ x) = Go o1 (p' @ x) t1"
            by (simp add: md_move_def)
          with p have "feed_loop names False ticks (p @ x) = prep o1 (feed_loop names False t1 (p' @ x))"
            by (simp add: feed_loop_Go)
          then show ?thesis by (rule step [OF Go _ sub])
        next
          case False
          with Go None have "o1 = p" "p' = []" "t1 = None" "\<not> ends_with p ''!''"
            by (auto simp: md_move_def plain_move_def index_of_def split: if_splits)
          with None False p less(3) have "feed_loop names False ticks (p @ x) = prep o1 (feed_loop names False t1 (p' @ x))"
            by (simp add: plain_passes)
          then show ?thesis by (rule step [OF Go _ sub])
        qed
      qed
    qed
  qed
qed


lemma feed_all_concat:
  assumes "length (pending s @ concat cs) \<le> candidate_limit" "backslash_c \<notin> set (pending s @ concat cs)"
    and "feed names False [] s = ([], s)"
  shows "feed_all names cs s = feed names False (concat cs) s"
  using assms
proof (induction cs arbitrary: s)
  case (Cons c cs)
  obtain o1 r t where f: "feed_loop names False (code_ticks s) (pending s @ c) = (o1, r, t)"
    by (cases "feed_loop names False (code_ticks s) (pending s @ c)") auto
  define s1 where "s1 = \<lparr>pending = r, code_ticks = t\<rparr>"
  have a: "feed_loop names False (code_ticks s) ((pending s @ c) @ x) = prep o1 (feed_loop names False t (r @ x))"
    if "x = [] \<or> x = concat cs" for x
    using that Cons(2,3) f by (intro feed_loop_append) auto
  have rest: "feed names False [] s1 = ([], s1)"
    using a [of "[]"] f by (auto simp: feed_def s1_def prep_def split: prod.splits)
  have "length r \<le> length (pending s @ c) \<and> set r \<subseteq> set (pending s @ c)"
    using feed_loop_shrinks [OF f] .
  then have "feed_all names cs s1 = feed names False (concat cs) s1"
    using rest Cons(2,3) by (intro Cons(1)) (auto simp: s1_def)
  then show ?case
    using a [of "concat cs"] f by (auto simp: feed_def s1_def prep_def split: prod.splits)
qed simp

text \<open>
  Up to the length a link is waited for, text without backslashes gives the same output
  streamed in pieces, however it is cut, as normalized as a whole: what the reader saw is what is stored.
\<close>

theorem streamed_as_stored:
  assumes "length (concat cs) \<le> candidate_limit" "backslash_c \<notin> set (concat cs)"
  shows "streamed names cs = normalize_markdown names (concat cs)"
  using feed_all_concat [of new_stream cs names] assms
  by (simp add: streamed_def normalize_markdown_def new_stream_def feed_def)

lemma streamed_as_stored_witness:
  "streamed [(''f'', ''a.txt'')] [''see !'', ''[x](/api/ch'', ''at/file/f) ok''] =
    normalize_markdown [(''f'', ''a.txt'')] ''see ![x](/api/chat/file/f) ok''"
  using streamed_as_stored [of "[''see !'', ''[x](/api/ch'', ''at/file/f) ok'']" "[(''f'', ''a.txt'')]"]
  by (simp add: candidate_limit_def backslash_c_def)

text \<open>An escaped mark at the end of a piece is forgotten when the piece has left.\<close>

lemma escape_split:
  "streamed [] [[backslash_c, CHR ''!''], ''[a](/api/chat/file/x)''] = backslash_c # ''[a](/api/chat/file/x)'' \<and>
   normalize_markdown [] (backslash_c # ''![a](/api/chat/file/x)'') = backslash_c # ''![a](/api/chat/file/x)''"
  by code_simp

end
