(* ===== verification/Chat_Packets.thy ===== *)
theory Chat_Packets
  imports Chat_Links
begin

text \<open>
  The packets of a chat answer and the results of the Python tool, with the links of the theory
  Chat_Links: \<open>src/onyx/patches/onyx_wrapper_patches/api/python_artifacts.py\<close>. The step of the model,
  \<open>json.loads\<close> and \<open>json.dumps\<close> are arguments; emitting a packet appends it to a list.
\<close>

section \<open>The emitter\<close>

text \<open>A packet has a placement and carries a piece of the answer or anything else.\<close>

record ('pl, 'o) packet =
  placement :: "'pl option"
  obj :: "pystr + 'o"

record 'pl md_emitter =
  em_stream :: md_stream
  em_placement :: "'pl option"

definition new_emitter :: "'pl md_emitter" where
  "new_emitter = \<lparr>em_stream = new_stream, em_placement = None\<rparr>"

definition emit_content :: "'pl md_emitter \<Rightarrow> pystr \<Rightarrow> ('pl, 'o) packet list" where
  "emit_content em content = (if content = [] then [] else [\<lparr>placement = em_placement em, obj = Inl content\<rparr>])"

definition emitter_flush :: "filenames \<Rightarrow> 'pl md_emitter \<Rightarrow> ('pl, 'o) packet list \<times> 'pl md_emitter" where
  "emitter_flush names em = (case flush names (em_stream em) of
     (content, s) \<Rightarrow> (emit_content em content, em\<lparr>em_stream := s\<rparr>))"

definition emit :: "filenames \<Rightarrow> ('pl, 'o) packet \<Rightarrow> 'pl md_emitter \<Rightarrow> ('pl, 'o) packet list \<times> 'pl md_emitter" where
  "emit names p em = (case obj p of
     Inl content \<Rightarrow>
       (let em = em\<lparr>em_placement := placement p\<rparr>
        in case feed names False content (em_stream em) of
             (out, s) \<Rightarrow> (emit_content em out, em\<lparr>em_stream := s\<rparr>))
   | Inr _ \<Rightarrow> (case emitter_flush names em of (out, em) \<Rightarrow> (out @ [p], em)))"

fun emit_all :: "filenames \<Rightarrow> ('pl, 'o) packet list \<Rightarrow> 'pl md_emitter \<Rightarrow> ('pl, 'o) packet list \<times> 'pl md_emitter" where
  "emit_all names [] em = ([], em)"
| "emit_all names (p # ps) em = (case emit names p em of
     (out, em) \<Rightarrow> (case emit_all names ps em of (out', em) \<Rightarrow> (out @ out', em)))"

text \<open>What a step that emits these packets lets the reader see.\<close>

definition shown :: "filenames \<Rightarrow> ('pl, 'o) packet list \<Rightarrow> ('pl, 'o) packet list" where
  "shown names ps = (case emit_all names ps new_emitter of (out, em) \<Rightarrow> out @ fst (emitter_flush names em))"

section \<open>A step of the model\<close>

text \<open>
  \<open>_run_llm_step_with_chat_file_markdown\<close>: the tool calls of the state container, when there is one,
  and what the original step emits and returns. The result is the packets shown, what the step returns
  or raises, and the answer the container is given.
\<close>

datatype 'x step_error = Not_iterable | Step_raised 'x

definition run_llm_step ::
  "(pystr \<Rightarrow> json option) \<Rightarrow> tool_call list option \<Rightarrow> ('pl, 'o) packet list \<Rightarrow> 'x + (pystr option \<times> bool) \<Rightarrow>
   ('pl, 'o) packet list \<times> ('x step_error + (pystr option \<times> bool)) \<times> pystr option" where
  "run_llm_step loads container ps outcome =
     (case generated_filenames loads [] (case container of None \<Rightarrow> [] | Some calls \<Rightarrow> calls) of
        None \<Rightarrow> ([], Inl Not_iterable, None)
      | Some names \<Rightarrow>
          (shown names ps,
           (case outcome of
              Inl e \<Rightarrow> (Inl (Step_raised e), None)
            | Inr (answer, reasoned) \<Rightarrow>
                (let answer = map_option (normalize_markdown names) answer
                 in (Inr (answer, reasoned), if container = None then None else answer)))))"

section \<open>The results of the Python tool\<close>

datatype link_error =
  Not_json | Not_an_object | Not_a_list | Results_disagree | File_not_an_object | No_filename | No_relative_link

definition markdown_link :: "pystr \<Rightarrow> pystr \<Rightarrow> pystr" where
  "markdown_link name link = ''['' @ link_label name @ ''](''  @ link @ '')''"

definition link_file :: "json \<Rightarrow> link_error + (json \<times> pystr)" where
  "link_file v = (case v of
     JObj m \<Rightarrow>
       (case jget m ''filename'' of
          JStr name \<Rightarrow>
            (if name = [] then Inl No_filename
             else case jget m ''file_link'' of
               JStr link \<Rightarrow>
                 (if starts_with link chat_path
                  then Inr (JObj (put ''response_markdown'' (JStr (markdown_link name link)) m), link)
                  else Inl No_relative_link)
             | _ \<Rightarrow> Inl No_relative_link)
        | _ \<Rightarrow> Inl No_filename)
   | _ \<Rightarrow> Inl File_not_an_object)"

text \<open>The links of the rich result are set on the way, also when a later file is refused.\<close>

fun link_files :: "json list \<Rightarrow> pystr list \<Rightarrow> pystr list \<times> (link_error + json list)" where
  "link_files (v # vs) (r # rs) = (case link_file v of
     Inl e \<Rightarrow> (r # rs, Inl e)
   | Inr (v', l) \<Rightarrow> (case link_files vs rs of (rs', res) \<Rightarrow> (l # rs', map_sum id ((#) v') res)))"
| "link_files vs rs = (rs, Inr vs)"

record tool_result =
  facing :: pystr
  rich_links :: "pystr list option"

definition python_run ::
  "(pystr \<Rightarrow> json option) \<Rightarrow> (json \<Rightarrow> pystr) \<Rightarrow> tool_result \<Rightarrow> tool_result \<times> (link_error + pystr)" where
  "python_run loads dumps r = (case loads (facing r) of
     None \<Rightarrow> (r, Inl Not_json)
   | Some (JObj m) \<Rightarrow>
       (let files = jget m ''generated_files''
        in if json_falsy files then (r, Inr (facing r))
           else case files of
             JList vs \<Rightarrow>
               (case rich_links r of
                  None \<Rightarrow> (r, Inl Results_disagree)
                | Some rs \<Rightarrow>
                    (if length rs \<noteq> length vs then (r, Inl Results_disagree)
                     else case link_files vs rs of (rs', res) \<Rightarrow>
                       (r\<lparr>rich_links := Some rs'\<rparr>,
                        map_sum id (\<lambda>vs'. dumps (JObj (put ''generated_files'' (JList vs') m))) res)))
           | _ \<Rightarrow> (r, Inl Not_a_list))
   | Some _ \<Rightarrow> (r, Inl Not_an_object))"

section \<open>Guidance in replaced prompts\<close>

definition append_guidance :: "pystr \<Rightarrow> pystr \<Rightarrow> pystr option \<Rightarrow> pystr option list \<Rightarrow> pystr option" where
  "append_guidance header guidance prompt tools =
     (if Some ''run_python'' \<notin> set tools then prompt
      else case prompt of
        None \<Rightarrow> Some (header @ guidance)
      | Some t \<Rightarrow> if t \<noteq> [] \<and> contains t guidance then prompt else Some (t @ header @ guidance))"

text \<open>The lookup of a user file asks the database for UUIDs only.\<close>

definition user_file_by_id :: "(pystr \<Rightarrow> 'f option) \<Rightarrow> pystr \<Rightarrow> 'f option" where
  "user_file_by_id query i = (if is_uuid i then query i else None)"

section \<open>What the reader sees\<close>

text \<open>Adjacent pieces of the answer read as one text, cut only where another packet comes.\<close>

fun outline :: "pystr \<Rightarrow> ('pl, 'o) packet list \<Rightarrow> (pystr + ('pl, 'o) packet) list" where
  "outline acc [] = (if acc = [] then [] else [Inl acc])"
| "outline acc (p # ps) = (case obj p of
     Inl t \<Rightarrow> outline (acc @ t) ps
   | Inr _ \<Rightarrow> (if acc = [] then [] else [Inl acc]) @ Inr p # outline [] ps)"

definition packet_text :: "('pl, 'o) packet \<Rightarrow> pystr" where
  "packet_text p = (case obj p of Inl t \<Rightarrow> t | Inr _ \<Rightarrow> [])"

lemma outline_content: "outline acc (emit_content em t @ ps) = outline (acc @ t) ps"
  by (simp add: emit_content_def)

lemma outline_end: "outline acc (emit_content em t) = (if acc @ t = [] then [] else [Inl (acc @ t)])"
  by (simp add: emit_content_def)

lemma flush_keeps:
  assumes "\<not> contains (pending s) chat_path"
  shows "fst (flush names s) = pending s \<and> pending (snd (flush names s)) = []"
  using feed_loop_keeps [of "pending s" names True "code_ticks s"] assms
  by (auto simp: flush_def feed_def split: prod.splits)

lemma feed_keeps:
  assumes "\<not> contains (pending s @ t) chat_path" "feed names False t s = (out, s')"
  shows "out @ pending s' = pending s @ t"
  using feed_loop_keeps [of "pending s @ t" names False "code_ticks s"] assms
  by (auto simp: feed_def split: prod.splits)

lemma emit_all_outline:
  assumes "\<not> contains (pending (em_stream em) @ concat (map packet_text ps)) chat_path"
    and "emit_all names ps em = (out, em')"
  shows "outline acc (out @ fst (emitter_flush names em')) = outline (acc @ pending (em_stream em)) ps"
  using assms
proof (induction ps arbitrary: em out acc)
  case Nil
  then show ?case
    using flush_keeps [of "em_stream em" names]
    by (auto simp: emitter_flush_def outline_end split: prod.splits)
next
  case (Cons p ps)
  obtain o1 em1 where e: "emit names p em = (o1, em1)" by (cases "emit names p em") auto
  obtain o2 where a: "emit_all names ps em1 = (o2, em')" "out = o1 @ o2"
    using Cons(3) e by (auto split: prod.splits)
  show ?case
  proof (cases "obj p")
    case (Inl t)
    obtain x s where f: "feed names False t (em_stream em) = (x, s)" by (cases "feed names False t (em_stream em)") auto
    have o1: "o1 = emit_content (em\<lparr>em_placement := placement p\<rparr>) x" "em_stream em1 = s"
      using e Inl f by (auto simp: emit_def Let_def)
    have "\<not> contains (pending (em_stream em) @ t) chat_path"
      using Cons(2) Inl contains_infix [of "pending (em_stream em) @ t" chat_path "[]" "concat (map packet_text ps)"]
      by (auto simp: packet_text_def [of p])
    then have k: "x @ pending s = pending (em_stream em) @ t" using f by (rule feed_keeps)
    have "\<not> contains (x @ (pending s @ concat (map packet_text ps))) chat_path"
      using Cons(2) Inl k by (simp add: packet_text_def [of p]) (metis append.assoc)
    then have "\<not> contains (pending (em_stream em1) @ concat (map packet_text ps)) chat_path"
      using o1(2) contains_tail by blast
    from Cons(1) [OF this a(1), of "acc @ x"] o1 k a(2) Inl show ?thesis
      by (simp add: outline_content)
  next
    case (Inr y)
    have no: "\<not> contains (pending (em_stream em)) chat_path" "\<not> contains (concat (map packet_text ps)) chat_path"
      using Cons(2) Inr contains_infix [of "pending (em_stream em)" chat_path "[]" "concat (map packet_text ps)"]
        contains_tail [of "pending (em_stream em)" "concat (map packet_text ps)" chat_path]
      by (auto simp: packet_text_def [of p])
    have o1: "o1 = emit_content em (pending (em_stream em)) @ [p]" "pending (em_stream em1) = []"
      using e Inr flush_keeps [OF no(1), of names] by (auto simp: emit_def emitter_flush_def split: prod.splits)
    from Cons(1) [OF _ a(1), of "[]"] no(2) o1 a(2) Inr show ?thesis
      by (simp add: outline_content)
  qed
qed

text \<open>
  For an answer without links to chat files the reader sees the packets of the step: the
  other packets in their order, and between two of them exactly the text that was emitted there, however it
  was cut into pieces.
\<close>

theorem packets_pass_in_order:
  assumes "\<not> contains (concat (map packet_text ps)) chat_path"
  shows "outline [] (shown names ps) = outline [] ps"
proof -
  obtain out em where e: "emit_all names ps new_emitter = (out, em)" by (cases "emit_all names ps new_emitter") auto
  show ?thesis using emit_all_outline [OF _ e, of "[]"] assms e
    by (simp add: shown_def new_emitter_def new_stream_def)
qed

lemma packets_pass_in_order_witness:
  "outline [] (shown [] [\<lparr>placement = Some 1, obj = Inl ''see [x''\<rparr>, \<lparr>placement = Some 2, obj = Inr True\<rparr>,
      \<lparr>placement = Some (3 :: nat), obj = Inl ''](/y)''\<rparr>]) =
    [Inl ''see [x'', Inr \<lparr>placement = Some 2, obj = Inr True\<rparr>, Inl ''](/y)'']"
  using packets_pass_in_order [of "[\<lparr>placement = Some 1, obj = Inl ''see [x''\<rparr>, \<lparr>placement = Some 2, obj = Inr True\<rparr>,
      \<lparr>placement = Some (3 :: nat), obj = Inl ''](/y)''\<rparr>]" "[]"]
  by (simp add: packet_text_def chat_path_def)

lemma emit_all_text:
  assumes "\<forall>p \<in> set ps. isl (obj p)"
  shows "concat (map packet_text (fst (emit_all names ps em))) = fst (feed_all names (map packet_text ps) (em_stream em)) \<and>
    em_stream (snd (emit_all names ps em)) = snd (feed_all names (map packet_text ps) (em_stream em))"
  using assms
proof (induction ps arbitrary: em)
  case (Cons p ps)
  then obtain t where t: "obj p = Inl t" by (auto simp: isl_def)
  obtain x s where f: "feed names False t (em_stream em) = (x, s)" by (cases "feed names False t (em_stream em)") auto
  have e: "emit names p em = (emit_content (em\<lparr>em_placement := placement p\<rparr>) x, em\<lparr>em_placement := placement p, em_stream := s\<rparr>)"
    using t f by (simp add: emit_def Let_def)
  have c: "concat (map packet_text (emit_content (em\<lparr>em_placement := placement p\<rparr>) x)) = x"
    by (simp add: emit_content_def packet_text_def)
  show ?case
    using Cons(1) [of "em\<lparr>em_placement := placement p, em_stream := s\<rparr>"] Cons(2) t f e c
    by (auto simp: packet_text_def [of p] split: prod.splits)
qed simp

lemma shown_text:
  assumes "\<forall>p \<in> set ps. isl (obj p)"
  shows "concat (map packet_text (shown names ps)) = streamed names (map packet_text ps)"
  using emit_all_text [OF assms, of names new_emitter]
  by (auto simp: shown_def streamed_def emitter_flush_def emit_content_def packet_text_def new_emitter_def split: prod.splits)

text \<open>
  C30 (equivalence). When a step emits its answer as pieces of text and returns the same text, the reader has
  seen what is stored: for text without backslashes, up to the length a link is waited for, the pieces
  shown make up the answer that is returned and given to the state container, links rewritten alike.
\<close>

theorem shown_is_stored:
  assumes "list_all (\<lambda>p. isl (obj p)) ps"
    and "length (concat (map packet_text ps)) \<le> candidate_limit" "backslash_c \<notin> set (concat (map packet_text ps))"
    and "run_llm_step loads (Some calls) ps (Inr (Some (concat (map packet_text ps)), reasoned)) =
      (seen, Inr (Some answer, r), stored)"
  shows "answer = concat (map packet_text seen) \<and> stored = Some answer"
proof -
  obtain names where "seen = shown names ps" "answer = normalize_markdown names (concat (map packet_text ps))"
      "stored = Some answer"
    using assms(4) by (auto simp: run_llm_step_def Let_def split: option.splits)
  moreover have "normalize_markdown names (concat (map packet_text ps)) = streamed names (map packet_text ps)"
    using feed_all_concat [of new_stream "map packet_text ps" names] assms(2,3)
    by (simp add: streamed_def normalize_markdown_def new_stream_def feed_def)
  ultimately show ?thesis using shown_text [of ps names] assms(1) by (simp add: list_all_iff)
qed

definition sample_calls :: "tool_call list" where
  "sample_calls = [\<lparr>attached = [With_attributes (JStr ''a.txt'') (JStr ''http://old.example/api/chat/file/f'')],
     response = Response_value JNull\<rparr>]"

lemma shown_is_stored_witness:
  "\<exists>seen answer r stored. run_llm_step (\<lambda>s. None :: json option) (Some sample_calls)
      [\<lparr>placement = Some (1 :: nat), obj = Inl ''see [x](/api/ch''\<rparr>, \<lparr>placement = Some 2, obj = Inl ''at/file/f)'' :: pystr + unit\<rparr>]
      (Inr (Some ''see [x](/api/chat/file/f)'', False) :: unit + (pystr option \<times> bool)) =
    (seen, Inr (Some answer, r), stored) \<and> answer = ''see [a.txt](/api/chat/file/f)'' \<and>
    answer = concat (map packet_text seen) \<and> stored = Some answer"
proof -
  define ps :: "(nat, unit) packet list" where
    "ps = [\<lparr>placement = Some (1 :: nat), obj = Inl ''see [x](/api/ch''\<rparr>, \<lparr>placement = Some 2, obj = Inl ''at/file/f)''\<rparr>]"
  define seen where "seen = shown [(''f'', ''a.txt'')] ps"
  have t: "concat (map packet_text ps) = ''see [x](/api/chat/file/f)''" by (simp add: ps_def packet_text_def)
  have n: "generated_filenames (\<lambda>s. None) [] sample_calls = Some [(''f'', ''a.txt'')]" by code_simp
  have m: "normalize_markdown [(''f'', ''a.txt'')] ''see [x](/api/chat/file/f)'' = ''see [a.txt](/api/chat/file/f)''"
    by code_simp
  have e: "run_llm_step (\<lambda>s. None) (Some sample_calls) ps
      (Inr (Some (concat (map packet_text ps)), False) :: unit + (pystr option \<times> bool)) =
      (seen, Inr (Some ''see [a.txt](/api/chat/file/f)'', False), Some ''see [a.txt](/api/chat/file/f)'')"
    by (simp add: run_llm_step_def Let_def n t m seen_def)
  have "''see [a.txt](/api/chat/file/f)'' = concat (map packet_text seen) \<and>
      Some ''see [a.txt](/api/chat/file/f)'' = Some ''see [a.txt](/api/chat/file/f)''"
    by (rule shown_is_stored [OF _ _ _ e])
      (simp_all add: t candidate_limit_def backslash_c_def, simp add: ps_def)
  with e [unfolded t, unfolded ps_def] show ?thesis by blast
qed

section \<open>The link the model copies\<close>

definition trail :: "pystr \<Rightarrow> nat" where
  "trail s = length (takeWhile (\<lambda>c. c = backslash_c) (rev s))"

lemma trail_snoc: "trail (s @ [c]) = (if c = backslash_c then Suc (trail s) else 0)"
  by (simp add: trail_def)

lemma is_escaped_trail: "is_escaped (s @ x) (length s) = odd (trail s)"
  by (simp add: is_escaped_def trail_def)

lemma brackets_not_backslash: "CHR ''['' \<noteq> backslash_c" "CHR '']'' \<noteq> backslash_c" "CHR ''('' \<noteq> backslash_c"
  by (simp_all add: backslash_c_def)

lemma link_label_Cons:
  "link_label (c # n) = (if c \<in> {backslash_c, CHR ''['', CHR '']''} then [backslash_c, c] else [c]) @ link_label n"
  by (simp add: link_label_def)

definition brackets_escaped :: "nat \<Rightarrow> pystr \<Rightarrow> bool" where
  "brackets_escaped n s \<longleftrightarrow> (\<forall>i. n \<le> i \<and> i < length s \<and> s ! i = CHR '']'' \<longrightarrow> is_escaped s i)"

lemma brackets_escaped_step:
  assumes "brackets_escaped (Suc n) s" "s ! n = CHR '']'' \<Longrightarrow> is_escaped s n"
  shows "brackets_escaped n s"
  unfolding brackets_escaped_def
proof (intro allI impI)
  fix i assume i: "n \<le> i \<and> i < length s \<and> s ! i = CHR '']''"
  show "is_escaped s i"
  proof (cases "i = n")
    case False
    with i assms(1) show ?thesis by (simp add: brackets_escaped_def)
  qed (use i assms(2) in blast)
qed

lemma label_escaped:
  assumes "even (trail pre)"
  shows "even (trail (pre @ link_label n)) \<and> brackets_escaped (length pre) (pre @ link_label n)"
  using assms
proof (induction n arbitrary: pre)
  case Nil
  then show ?case by (auto simp: link_label_def brackets_escaped_def)
next
  case (Cons c n)
  show ?case
  proof (cases "c \<in> {backslash_c, CHR ''['', CHR '']''}")
    case True
    define s where "s = pre @ link_label (c # n)"
    have l: "s = (pre @ [backslash_c, c]) @ link_label n" using True by (simp add: s_def link_label_Cons)
    have t: "trail (pre @ [backslash_c]) = Suc (trail pre)" using trail_snoc [of pre backslash_c] by simp
    have "even (trail ((pre @ [backslash_c]) @ [c]))"
      unfolding trail_snoc using t Cons(2) by auto
    then have e: "even (trail (pre @ [backslash_c, c]))" by simp
    note IH = Cons(1) [OF e, folded l]
    have b: "brackets_escaped (Suc (Suc (length pre))) s" using IH [THEN conjunct2] by simp
    have "is_escaped s (Suc (length pre))"
      using is_escaped_trail [of "pre @ [backslash_c]" "c # link_label n"] t Cons(2) by (simp add: l)
    then have "brackets_escaped (Suc (length pre)) s" by (intro brackets_escaped_step [OF b])
    moreover have "s ! length pre \<noteq> CHR '']''" by (simp add: l nth_append backslash_c_def)
    ultimately have "brackets_escaped (length pre) s" using brackets_escaped_step by blast
    with IH [THEN conjunct1] show ?thesis unfolding s_def by blast
  next
    case False
    define s where "s = pre @ link_label (c # n)"
    have l: "s = (pre @ [c]) @ link_label n" using False by (simp add: s_def link_label_Cons)
    have e: "even (trail (pre @ [c]))" unfolding trail_snoc using False by simp
    note IH = Cons(1) [OF e, folded l]
    have "s ! length pre \<noteq> CHR '']''" using False by (simp add: l nth_append)
    moreover have "brackets_escaped (Suc (length pre)) s" using IH [THEN conjunct2] by simp
    ultimately have "brackets_escaped (length pre) s" using brackets_escaped_step by blast
    with IH [THEN conjunct1] show ?thesis unfolding s_def by blast
  qed
qed

lemma find_first:
  assumes "start \<le> k" "k < length s" "s ! k = c" "\<not> is_escaped s k"
    and "\<forall>i. start \<le> i \<and> i < k \<and> s ! i = c \<longrightarrow> is_escaped s i"
  shows "find_unescaped s c start = Some k"
proof -
  have "[start..<length s] = [start..<k] @ k # [Suc k..<length s]"
    using assms(1,2) upt_add_eq_append [of start k "length s - k"] upt_conv_Cons [of k "length s"] by simp
  moreover have "find P (u @ k # v) = Some k" if "\<forall>i \<in> set u. \<not> P i" "P k" for P and u v :: "nat list"
    using that by (induction u) auto
  ultimately show ?thesis unfolding find_unescaped_def using assms(3-5) by auto
qed


definition id_c :: "char \<Rightarrow> bool" where
  "id_c c \<longleftrightarrow> is_digit c \<or> is_lower_ascii c \<or> is_upper_ascii c \<or> c = CHR ''-''"

lemma id_c_simps: "id_c c \<Longrightarrow> \<not> is_space c \<and> 32 < ord_c c \<and> c \<notin> set ''/?#:)<>[]'' \<and> c \<noteq> backslash_c"
  by (auto simp: id_c_def is_digit_def is_lower_ascii_def is_upper_ascii_def is_space_def ord_c_def backslash_c_def)

lemma chat_path_c: "c \<in> set chat_path \<Longrightarrow> \<not> is_space c \<and> 32 < ord_c c \<and> c \<notin> set ''?#:)<>[]'' \<and> c \<noteq> backslash_c"
proof -
  have "list_all (\<lambda>c. \<not> is_space c \<and> 32 < ord_c c \<and> c \<notin> set ''?#:)<>[]'' \<and> c \<noteq> backslash_c) chat_path"
    by code_simp
  then show "c \<in> set chat_path \<Longrightarrow> \<not> is_space c \<and> 32 < ord_c c \<and> c \<notin> set ''?#:)<>[]'' \<and> c \<noteq> backslash_c"
    unfolding list_all_iff by blast
qed

lemma chat_file_c:
  assumes "list_all id_c i" "c \<in> set (chat_path @ i)"
  shows "\<not> is_space c \<and> 32 < ord_c c \<and> c \<notin> set ''?#:)<>[]'' \<and> c \<noteq> backslash_c"
proof (cases "c \<in> set chat_path")
  case False
  then have "id_c c" using assms by (simp add: list_all_iff)
  then show ?thesis using id_c_simps [of c] by simp
qed (rule chat_path_c)

lemma urlsplit_chat_file:
  assumes "list_all id_c i"
  shows "urlsplit (chat_path @ i) =
    Inr \<lparr>u_scheme = [], u_netloc = [], u_path = chat_path @ i, u_params = [], u_query = [], u_fragment = []\<rparr>"
proof -
  define s where "s = chat_path @ i"
  have c: "c \<in> set s \<Longrightarrow> \<not> is_space c \<and> 32 < ord_c c \<and> c \<notin> set ''?#:)<>[]'' \<and> c \<noteq> backslash_c" for c
    using chat_file_c [OF assms] s_def by blast
  have "lstrip_by (\<lambda>c. ord_c c \<le> 32) s = s"
    by (simp add: s_def chat_path_def lstrip_by_def ord_c_def)
  moreover have "filter (\<lambda>c. ord_c c \<notin> {9, 10, 13}) s = s"
    using c by (intro filter_True ballI) fastforce
  moreover have a: "CHR '':'' \<notin> set s" "CHR ''#'' \<notin> set s" "CHR ''?'' \<notin> set s" using c by auto
  moreover have "\<not> starts_with s ''//''" by (simp add: s_def chat_path_def)
  moreover have "split_scheme s = ([], s)" using a by (simp add: split_scheme_def)
  ultimately have "urlsplit s =
      Inr \<lparr>u_scheme = [], u_netloc = [], u_path = s, u_params = [], u_query = [], u_fragment = []\<rparr>"
    by (simp add: urlsplit_def netloc_ok_def)
  then show ?thesis unfolding s_def .
qed

lemma relative_chat_file:
  assumes "list_all id_c i" "i \<noteq> []"
  shows "relative_destination (chat_path @ i) = Some (chat_path @ i, i)"
proof -
  have sp: "\<not> is_space (hd (chat_path @ i))" "\<not> is_space (last (chat_path @ i))"
    using chat_file_c [OF assms(1)] by (metis hd_in_set last_in_set append_is_Nil_conv assms(2))+
  then have "py_strip (chat_path @ i) = chat_path @ i" unfolding py_strip_def by (intro strip_id) simp
  then have b: "bare_destination (chat_path @ i) = chat_path @ i"
    by (simp add: bare_destination_def Let_def chat_path_def)
  have n: "\<not> list_ex is_space (chat_path @ i)"
    using chat_file_c [OF assms(1)] unfolding list_ex_iff by blast
  have f: "chat_file_path (chat_path @ i)"
    using assms id_c_simps by (auto simp: chat_file_path_def Let_def list_all_iff starts_with_iff)
  have s: "starts_with (chat_path @ i) ''/''" by (simp add: chat_path_def)
  show ?thesis
    using n f s assms(2) by (simp add: relative_destination_def Let_def b urlsplit_chat_file [OF assms(1)] part_def)
qed

lemma markdown_link_indices:
  fixes name link :: pystr
  defines "p \<equiv> markdown_link name link" and "le \<equiv> length (link_label name) + 1"
  assumes "CHR '')'' \<notin> set link" "backslash_c \<notin> set link"
  shows "find_unescaped p (CHR '']'') (0 + 1) = Some le"
    and "find_unescaped p (CHR '')'') (le + 2) = Some (le + 2 + length link)"
    and "p ! (le + 1) = CHR ''(''" "length p = le + 3 + length link" "slice (le + 2) (le + 2 + length link) p = link"
proof -
  define A where "A = [CHR ''[''] @ link_label name"
  define B where "B = A @ ''](''"
  have lA: "length A = le" and lB: "length B = le + 2" by (simp_all add: A_def B_def le_def)
  have pA: "p = A @ '']('' @ link @ '')''" and pB: "p = (B @ link) @ '')''"
    by (simp_all add: p_def markdown_link_def A_def B_def)
  show len: "length p = le + 3 + length link" unfolding pA using lA by simp
  show "p ! (le + 1) = CHR ''(''" unfolding pA using lA by (simp add: nth_append)
  show "slice (le + 2) (le + 2 + length link) p = link" unfolding pB slice_def lB [symmetric] by simp
  have t: "even (trail [CHR ''[''])" using trail_snoc [of "[]" "CHR ''[''"] by (simp add: backslash_c_def)
  have lab: "even (trail A)" "brackets_escaped 1 A"
    using label_escaped [OF t, of name] by (simp_all add: A_def)
  show "find_unescaped p (CHR '']'') (0 + 1) = Some le"
  proof (rule find_first)
    show "p ! le = CHR '']''" unfolding pA using lA by (simp add: nth_append)
    show "\<not> is_escaped p le" unfolding pA using is_escaped_trail [of A] lab(1) lA by simp
    show "\<forall>i. 0 + 1 \<le> i \<and> i < le \<and> p ! i = CHR '']'' \<longrightarrow> is_escaped p i"
    proof (intro allI impI)
      fix i assume i: "0 + 1 \<le> i \<and> i < le \<and> p ! i = CHR '']''"
      then have "p ! i = A ! i" unfolding pA using lA by (simp add: nth_append)
      then have "is_escaped A i" using lab(2) i lA by (simp add: brackets_escaped_def)
      then show "is_escaped p i" unfolding pA using i lA by (subst is_escaped_append) simp_all
    qed
  qed (simp_all add: len le_def)
  show "find_unescaped p (CHR '')'') (le + 2) = Some (le + 2 + length link)"
  proof (rule find_first)
    have l: "length (B @ link) = le + 2 + length link" using lB by simp
    show "p ! (le + 2 + length link) = CHR '')''" unfolding pB l [symmetric] by (rule nth_append_length)
    have "trail (B @ link) = 0"
      using assms(4) by (cases link rule: rev_cases) (auto simp: B_def trail_def backslash_c_def)
    then show "\<not> is_escaped p (le + 2 + length link)"
      using is_escaped_trail [of "B @ link" "'')''"] unfolding pB l by simp
    show "\<forall>i. le + 2 \<le> i \<and> i < le + 2 + length link \<and> p ! i = CHR '')'' \<longrightarrow> is_escaped p i"
    proof (intro allI impI)
      fix i assume i: "le + 2 \<le> i \<and> i < le + 2 + length link \<and> p ! i = CHR '')''"
      then have "p ! i = link ! (i - length B)" "i - length B < length link"
        unfolding pB using lB by (auto simp: nth_append)
      then have "CHR '')'' \<in> set link" using i by (metis nth_mem)
      then show "is_escaped p i" using assms(3) by contradiction
    qed
  qed (simp_all add: len)
qed

text \<open>
  The link the tool result offers for copying survives the stream as it is: for every file
  name, brackets and backslashes included, the escaped label is read to its end and written back.
\<close>

theorem copied_link_survives:
  assumes "list_all id_c i" "i \<noteq> []" "map_of names i = Some name"
  shows "normalize_markdown names (markdown_link name (chat_path @ i)) = markdown_link name (chat_path @ i)"
proof -
  define p where "p = markdown_link name (chat_path @ i)"
  have no: "CHR '')'' \<notin> set (chat_path @ i)" "backslash_c \<notin> set (chat_path @ i)"
    using chat_file_c [OF assms(1)] by auto
  define le where "le = length (link_label name) + 1"
  note x = markdown_link_indices [OF no, of name, folded p_def le_def]
  have k: "canonical_id i names = i"
    using assms(3) by (simp add: canonical_id_def) (metis map_of_SomeD image_eqI fst_conv)
  have l: "canonical_link names lab (chat_path @ i) = Some p" for lab
    using k by (simp add: canonical_link_def relative_chat_file [OF assms(1,2)] assms(3) p_def markdown_link_def)
  have m: "link_move names False 0 p = Go p [] None"
    using x l by (simp add: link_move_def)
  have h: "index_of (CHR ''['') p = Some 0" by (simp add: p_def markdown_link_def index_of_def)
  have "plain_move names False p = link_move names False 0 p"
    using h by (auto simp: plain_move_def Let_def split: option.splits)
  then have "feed_loop names False None p = (p, [], None)"
    using m x(4) by (subst feed_loop_Go [of p _ _ _ p "[]" None]) (auto simp: md_move_def prep_def)
  then show ?thesis unfolding p_def [symmetric]
    by (simp add: normalize_markdown_def feed_def new_stream_def flush_def)
qed

lemma copied_link_survives_witness:
  "normalize_markdown [(''3f-9'', ''a[1].txt'')] (markdown_link ''a[1].txt'' ''/api/chat/file/3f-9'') =
    markdown_link ''a[1].txt'' ''/api/chat/file/3f-9''"
  using copied_link_survives [of "''3f-9''" "[(''3f-9'', ''a[1].txt'')]" "''a[1].txt''"]
  by (simp add: chat_path_def id_c_def is_digit_def is_lower_ascii_def ord_c_def)

end
