(* ===== verification/Stream_Continuation.thy ===== *)
theory Stream_Continuation
  imports Prelude
begin

text \<open>
  The continuation of interrupted answers of the language model:
  \<open>src/onyx/patches/onyx_wrapper_patches/api/inference_continuation.py\<close>. The stream that is patched
  is an argument: for each request, by its number and its prompt, the chunks it delivers and the exception
  that ends it, if any. The texts of the notices are left out, they are told apart by their kind.
\<close>

section \<open>Exceptions\<close>

text \<open>
  \<open>_exception_chain\<close>: breadth first over causes, contexts and wrapped exceptions, each visited once,
  twelve at most. An exception is an identity; \<open>nested\<close> lists what it refers to, in this order.
\<close>

function chain_from :: "('x \<Rightarrow> 'x list) \<Rightarrow> 'x list \<Rightarrow> 'x list \<Rightarrow> 'x list" where
  "chain_from nested chain [] = chain"
| "chain_from nested chain (x # todo) =
     (if 12 \<le> length chain then chain
      else if x \<in> set chain then chain_from nested chain todo
      else chain_from nested (chain @ [x]) (todo @ nested x))"
  by pat_completeness auto
termination
  by (relation "measures [\<lambda>(n, chain, p). 12 - length chain, \<lambda>(n, chain, p). length p]") auto

definition exception_chain :: "('x \<Rightarrow> 'x list) \<Rightarrow> 'x \<Rightarrow> 'x list" where
  "exception_chain nested e = chain_from nested [] [e]"

definition midstream_retryable :: "('x \<Rightarrow> 'x list) \<Rightarrow> ('x \<Rightarrow> bool) \<Rightarrow> 'x \<Rightarrow> bool" where
  "midstream_retryable nested retryable e = list_ex retryable (exception_chain nested e)"

section \<open>Chunks and what the reader is sent\<close>

text \<open>The identity of a chunk is its id, its time and the index of its choice.\<close>

record 'h chunk =
  identity :: 'h
  content :: "pystr option"
  reasoning :: "pystr option"
  tool_calls :: bool
  usage :: bool
  finish :: "pystr option"

datatype notice = Continued | Reasoning_continued | Recovery_failed | Finalization_failed

text \<open>
  A chunk of the provider, or a synthetic chunk with the identity of the last one; the two failures carry the
  finish reason \<open>stop\<close>, \<open>Reasoning_continued\<close> is sent as reasoning.
\<close>

datatype 'h item = Passed "'h chunk" | Synthetic "'h option" notice

datatype 'm message = Given 'm | Partial_assistant "pystr option" "pystr option" | Continue_instruction

record 'h progress =
  answer :: "pystr list"
  thoughts :: "pystr list"
  last_id :: "'h option"
  saw_tool :: bool
  saw_finish :: bool
  continuations :: nat

definition fresh_answer :: "'h progress" where
  "fresh_answer = \<lparr>answer = [], thoughts = [], last_id = None, saw_tool = False, saw_finish = False, continuations = 0\<rparr>"

definition filled :: "pystr option \<Rightarrow> bool" where
  "filled t \<longleftrightarrow> t \<noteq> None \<and> t \<noteq> Some []"

definition add_text :: "pystr option \<Rightarrow> pystr list \<Rightarrow> pystr list" where
  "add_text t parts = (if filled t then parts @ [the t] else parts)"

section \<open>One request\<close>

text \<open>
  One chunk: the new state, whether it carried text, and the chunk to send, if any. Reasoning that comes
  again after answer text of an earlier request is kept for the next prompt and not sent.
\<close>

definition sent_chunk :: "'h chunk \<Rightarrow> 'h progress \<Rightarrow> 'h chunk" where
  "sent_chunk c s = (if filled (reasoning c) \<and> 0 < continuations s \<and> answer s \<noteq> [] then c\<lparr>reasoning := None\<rparr> else c)"

definition on_chunk :: "'h chunk \<Rightarrow> 'h progress \<Rightarrow> 'h progress \<times> bool \<times> 'h item list" where
  "on_chunk c s =
     (let sent = sent_chunk c s
      in (s\<lparr>answer := add_text (content c) (answer s), thoughts := add_text (reasoning c) (thoughts s),
            last_id := Some (identity c), saw_tool := saw_tool s \<or> tool_calls c,
            saw_finish := saw_finish s \<or> filled (finish c)\<rparr>,
          filled (content c) \<or> filled (reasoning c),
          if filled (content sent) \<or> reasoning sent \<noteq> None \<or> tool_calls sent \<or> usage sent \<or> filled (finish sent)
          then [Passed sent] else []))"

fun on_chunks :: "'h chunk list \<Rightarrow> 'h progress \<Rightarrow> 'h progress \<times> bool \<times> 'h item list" where
  "on_chunks [] s = (s, False, [])"
| "on_chunks (c # cs) s = (case on_chunk c s of (s, p, out) \<Rightarrow>
     (case on_chunks cs s of (s, p', out') \<Rightarrow> (s, p \<or> p', out @ out')))"

datatype ('h, 'x) request_outcome = Returned | Raised 'x | Again "'h progress"

definition request_once ::
  "('x \<Rightarrow> bool) \<Rightarrow> bool \<Rightarrow> 'h chunk list \<times> 'x option \<Rightarrow> 'h progress \<Rightarrow> 'h item list \<times> ('h, 'x) request_outcome" where
  "request_once retryable structured request s = (case on_chunks (fst request) s of (s', made_progress, out) \<Rightarrow>
     (case snd request of
        None \<Rightarrow> (out, Returned)
      | Some e \<Rightarrow>
          (if saw_finish s' then (out @ [Synthetic (last_id s') Finalization_failed], Returned)
           else if \<not> ((answer s' \<noteq> [] \<or> thoughts s' \<noteq> []) \<and> \<not> saw_tool s' \<and> \<not> structured \<and> retryable e)
           then (out, Raised e)
           else if 0 < continuations s' \<and> \<not> made_progress
           then (out @ [Synthetic (last_id s') Recovery_failed], Returned)
           else (out @ [Synthetic (last_id s') (if answer s' \<noteq> [] then Continued else Reasoning_continued)],
                 Again (s'\<lparr>continuations := continuations s' + 1\<rparr>)))))"

definition or_none :: "pystr \<Rightarrow> pystr option" where
  "or_none t = (if t = [] then None else Some t)"

definition request_prompt :: "'m list \<Rightarrow> 'h progress \<Rightarrow> 'm message list" where
  "request_prompt prompt s =
     (if continuations s = 0 then map Given prompt
      else map Given prompt @ [Partial_assistant (or_none (concat (answer s))) (or_none (concat (thoughts s))),
        Continue_instruction])"

section \<open>The patched stream\<close>

text \<open>
  The requests follow each other while the outcome is \<open>Again\<close>; a provider that is interrupted for ever and
  brings text each time keeps the loop going, and the result is \<open>None\<close>.
\<close>

type_synonym ('h, 'x, 'm) completions = "nat \<Rightarrow> 'm message list \<Rightarrow> 'h chunk list \<times> 'x option"

partial_function (option) stream_loop ::
  "('x \<Rightarrow> bool) \<Rightarrow> bool \<Rightarrow> ('h, 'x, 'm) completions \<Rightarrow> 'm list \<Rightarrow> 'h progress \<Rightarrow> ('h item list \<times> 'x option) option" where
  "stream_loop retryable structured completions prompt s =
     (case request_once retryable structured (completions (continuations s) (request_prompt prompt s)) s of
        (out, Returned) \<Rightarrow> Some (out, None)
      | (out, Raised e) \<Rightarrow> Some (out, Some e)
      | (out, Again s') \<Rightarrow>
          Option.bind (stream_loop retryable structured completions prompt s') (\<lambda>(out', r). Some (out @ out', r)))"

definition stream ::
  "('x \<Rightarrow> 'x list) \<Rightarrow> ('x \<Rightarrow> bool) \<Rightarrow> bool \<Rightarrow> ('h, 'x, 'm) completions \<Rightarrow> 'm list \<Rightarrow> ('h item list \<times> 'x option) option" where
  "stream nested retryable structured completions prompt =
     stream_loop (midstream_retryable nested retryable) structured completions prompt fresh_answer"

section \<open>What has been sent when a request starts\<close>

text \<open>\<open>started ys s\<close>: a request starts in state \<open>s\<close> after the items \<open>ys\<close>.\<close>

inductive started ::
  "('x \<Rightarrow> bool) \<Rightarrow> bool \<Rightarrow> ('h, 'x, 'm) completions \<Rightarrow> 'm list \<Rightarrow> 'h item list \<Rightarrow> 'h progress \<Rightarrow> bool"
  for retryable structured completions prompt where
  first: "started retryable structured completions prompt [] fresh_answer"
| again: "\<lbrakk>started retryable structured completions prompt ys s;
    request_once retryable structured (completions (continuations s) (request_prompt prompt s)) s = (out, Again s')\<rbrakk> \<Longrightarrow>
    started retryable structured completions prompt (ys @ out) s'"

definition item_answer :: "'h item \<Rightarrow> pystr" where
  "item_answer i = (case i of Passed c \<Rightarrow> if filled (content c) then the (content c) else [] | Synthetic _ _ \<Rightarrow> [])"

definition sent_answer :: "'h item list \<Rightarrow> pystr" where
  "sent_answer ys = concat (map item_answer ys)"

definition item_finishes :: "'h item \<Rightarrow> bool" where
  "item_finishes i = (case i of Passed c \<Rightarrow> filled (finish c) | Synthetic _ _ \<Rightarrow> False)"

definition item_tools :: "'h item \<Rightarrow> bool" where
  "item_tools i = (case i of Passed c \<Rightarrow> tool_calls c | Synthetic _ _ \<Rightarrow> False)"

definition item_reasons :: "'h item \<Rightarrow> bool" where
  "item_reasons i = (case i of Passed c \<Rightarrow> filled (reasoning c) | Synthetic _ k \<Rightarrow> k = Reasoning_continued)"

lemma item_simps [simp]:
  "item_answer (Passed c) = (if filled (content c) then the (content c) else [])" "item_answer (Synthetic i k) = []"
  "item_finishes (Passed c) = filled (finish c)" "\<not> item_finishes (Synthetic i k)"
  "item_tools (Passed c) = tool_calls c" "\<not> item_tools (Synthetic i k)"
  "item_reasons (Passed c) = filled (reasoning c)" "item_reasons (Synthetic i k) \<longleftrightarrow> k = Reasoning_continued"
  by (simp_all add: item_answer_def item_finishes_def item_tools_def item_reasons_def)

lemma sent_answer_simps [simp]:
  "sent_answer [] = []" "sent_answer (i # ys) = item_answer i @ sent_answer ys"
  by (simp_all add: sent_answer_def)

lemma sent_answer_append [simp]: "sent_answer (xs @ ys) = sent_answer xs @ sent_answer ys"
  by (simp add: sent_answer_def)

lemma add_text_concat: "concat (add_text t parts) = concat parts @ (if filled t then the t else [])"
  by (simp add: add_text_def)

lemma add_text_Nil: "add_text t parts = [] \<longleftrightarrow> parts = [] \<and> \<not> filled t"
  by (simp add: add_text_def)

lemma on_chunk_sends:
  assumes "on_chunk c s = (s', p, out)"
  shows "concat (answer s') = concat (answer s) @ sent_answer out"
    and "saw_tool s' \<longleftrightarrow> saw_tool s \<or> list_ex item_tools out"
    and "saw_finish s' \<longleftrightarrow> saw_finish s \<or> list_ex item_finishes out"
    and "continuations s' = continuations s" "last_id s' = Some (identity c)"
    and "answer s \<noteq> [] \<Longrightarrow> answer s' \<noteq> []"
    and "0 < continuations s \<Longrightarrow> answer s \<noteq> [] \<Longrightarrow> \<not> list_ex item_reasons out"
proof -
  define sent where "sent = sent_chunk c s"
  have same: "content sent = content c" "tool_calls sent = tool_calls c" "finish sent = finish c"
    by (simp_all add: sent_def sent_chunk_def)
  have out: "out = (if filled (content c) \<or> reasoning sent \<noteq> None \<or> tool_calls c \<or> usage sent \<or> filled (finish c)
      then [Passed sent] else [])"
    and s': "s' = s\<lparr>answer := add_text (content c) (answer s), thoughts := add_text (reasoning c) (thoughts s),
            last_id := Some (identity c), saw_tool := saw_tool s \<or> tool_calls c,
            saw_finish := saw_finish s \<or> filled (finish c)\<rparr>"
    using assms unfolding on_chunk_def Let_def sent_def [symmetric] same by auto
  show "concat (answer s') = concat (answer s) @ sent_answer out"
    by (simp add: s' out same add_text_concat)
  show "saw_tool s' \<longleftrightarrow> saw_tool s \<or> list_ex item_tools out" by (auto simp: s' out same)
  show "saw_finish s' \<longleftrightarrow> saw_finish s \<or> list_ex item_finishes out" by (auto simp: s' out same)
  show "continuations s' = continuations s" "last_id s' = Some (identity c)" by (simp_all add: s')
  show "answer s \<noteq> [] \<Longrightarrow> answer s' \<noteq> []" by (simp add: s' add_text_Nil)
  assume "0 < continuations s" "answer s \<noteq> []"
  then have "\<not> filled (reasoning sent)" by (simp add: sent_def sent_chunk_def filled_def)
  then show "\<not> list_ex item_reasons out" by (auto simp: out)
qed

lemma on_chunks_sends:
  assumes "on_chunks cs s = (s', p, out)"
  shows "concat (answer s') = concat (answer s) @ sent_answer out \<and>
    (saw_tool s' \<longleftrightarrow> saw_tool s \<or> list_ex item_tools out) \<and>
    (saw_finish s' \<longleftrightarrow> saw_finish s \<or> list_ex item_finishes out) \<and>
    continuations s' = continuations s \<and> (answer s \<noteq> [] \<longrightarrow> answer s' \<noteq> []) \<and>
    (cs \<noteq> [] \<or> last_id s \<noteq> None \<longrightarrow> last_id s' \<noteq> None) \<and>
    (0 < continuations s \<and> answer s \<noteq> [] \<longrightarrow> \<not> list_ex item_reasons out)"
  using assms
proof (induction cs arbitrary: s p out)
  case Nil
  then show ?case by simp
next
  case (Cons c cs)
  obtain s1 p1 o1 where 1: "on_chunk c s = (s1, p1, o1)" by (cases "on_chunk c s") auto
  obtain p2 o2 where 2: "on_chunks cs s1 = (s', p2, o2)" "out = o1 @ o2"
    using Cons(2) 1 by (auto split: prod.splits)
  show ?case using Cons(1) [OF 2(1)] on_chunk_sends [OF 1] 2(2) by auto
qed

text \<open>What an outcome tells of the state after the chunks.\<close>

lemma attempt_cases:
  assumes "request_once retryable structured request s = (ys, r)"
  obtains s' p out where "on_chunks (fst request) s = (s', p, out)"
    and "\<And>e. r = Raised e \<Longrightarrow> snd request = Some e \<and> \<not> saw_finish s' \<and> ys = out"
    and "\<And>t. r = Again t \<Longrightarrow> \<not> saw_finish s' \<and> \<not> saw_tool s' \<and> \<not> structured \<and>
      (0 < continuations s' \<longrightarrow> p) \<and> snd request \<noteq> None \<and> t = s'\<lparr>continuations := continuations s' + 1\<rparr> \<and>
      ys = out @ [Synthetic (last_id s') (if answer s' \<noteq> [] then Continued else Reasoning_continued)]"
    and "r = Returned \<Longrightarrow> snd request = None \<and> ys = out \<or>
      (\<exists>k \<in> {Finalization_failed, Recovery_failed}. ys = out @ [Synthetic (last_id s') k])"
proof -
  obtain s' p out where c: "on_chunks (fst request) s = (s', p, out)" by (cases "on_chunks (fst request) s") auto
  show thesis
    by (rule that [OF c]) (use assms c in \<open>auto simp: request_once_def split: option.splits if_splits\<close>)
qed

lemma started_sends:
  assumes "started retryable structured completions prompt ys s"
  shows "concat (answer s) = sent_answer ys \<and> \<not> list_ex item_tools ys \<and> \<not> list_ex item_finishes ys \<and>
    \<not> saw_tool s \<and> \<not> saw_finish s \<and> (0 < continuations s \<longleftrightarrow> ys \<noteq> [])"
  using assms
proof induction
  case first
  show ?case by (simp add: fresh_answer_def)
next
  case (again ys s out s')
  from again(2) show ?case
  proof (rule attempt_cases)
    fix t p o1
    assume c: "on_chunks (fst (completions (continuations s) (request_prompt prompt s))) s = (t, p, o1)"
      and a: "\<And>u. Again s' = Again u \<Longrightarrow> \<not> saw_finish t \<and> \<not> saw_tool t \<and> \<not> structured \<and>
        (0 < continuations t \<longrightarrow> p) \<and> snd (completions (continuations s) (request_prompt prompt s)) \<noteq> None \<and>
        u = t\<lparr>continuations := continuations t + 1\<rparr> \<and>
        out = o1 @ [Synthetic (last_id t) (if answer t \<noteq> [] then Continued else Reasoning_continued)]"
    from a [OF refl] on_chunks_sends [OF c] again(3) show ?thesis
      by auto
  qed
qed

text \<open>
  C31 (invariant). A recovery request repeats exactly what the reader has been sent: the original messages
  unchanged, then the answer text of all chunks passed so far as the partial assistant message, then the
  instruction to continue.
\<close>

theorem recovery_prompt_exact:
  assumes "started retryable structured completions prompt ys s" "ys \<noteq> []"
  shows "\<exists>thinking. request_prompt prompt s =
    map Given prompt @ [Partial_assistant (or_none (sent_answer ys)) thinking, Continue_instruction]"
  using started_sends [OF assms(1)] assms(2) by (simp add: request_prompt_def)

definition is_continued :: "'h item \<Rightarrow> bool" where
  "is_continued i = (case i of Passed _ \<Rightarrow> False | Synthetic _ k \<Rightarrow> k = Continued)"

lemma is_continued_simps [simp]: "\<not> is_continued (Passed c)" "is_continued (Synthetic i k) \<longleftrightarrow> k = Continued"
  by (simp_all add: is_continued_def)

text \<open>What follows the first notice that an answer is continued.\<close>

definition after_continuation :: "'h item list \<Rightarrow> 'h item list" where
  "after_continuation ys = dropWhile (\<lambda>i. \<not> is_continued i) ys"

lemma after_continuation_append:
  "after_continuation (ys @ zs) = (if list_ex is_continued ys then after_continuation ys @ zs else after_continuation zs)"
  by (induction ys) (auto simp: after_continuation_def)

lemma after_continuation_simps [simp]:
  "after_continuation [] = []" "after_continuation [i] = (if is_continued i then [i] else [])"
  by (simp_all add: after_continuation_def)

lemma on_chunks_passed: "on_chunks cs s = (s', p, out) \<Longrightarrow> \<not> list_ex is_continued out"
  by (induction cs arbitrary: s p out) (auto simp: on_chunk_def Let_def split: prod.splits if_splits)

lemma after_continuation_none: "\<not> list_ex is_continued ys \<Longrightarrow> after_continuation ys = []"
  by (auto simp: after_continuation_def list_ex_iff dropWhile_eq_Nil_conv)

lemma started_reasons:
  assumes "started retryable structured completions prompt ys s"
  shows "(list_ex is_continued ys \<longrightarrow> answer s \<noteq> []) \<and> \<not> list_ex item_reasons (after_continuation ys)"
  using assms
proof induction
  case first
  show ?case by (simp add: after_continuation_def)
next
  case (again ys s out s')
  have pos: "list_ex is_continued ys \<Longrightarrow> 0 < continuations s" using started_sends [OF again(1)] by auto
  from again(2) show ?case
  proof (rule attempt_cases)
    fix t p o1
    assume c: "on_chunks (fst (completions (continuations s) (request_prompt prompt s))) s = (t, p, o1)"
      and a: "\<And>u. Again s' = Again u \<Longrightarrow> \<not> saw_finish t \<and> \<not> saw_tool t \<and> \<not> structured \<and>
        (0 < continuations t \<longrightarrow> p) \<and> snd (completions (continuations s) (request_prompt prompt s)) \<noteq> None \<and>
        u = t\<lparr>continuations := continuations t + 1\<rparr> \<and>
        out = o1 @ [Synthetic (last_id t) (if answer t \<noteq> [] then Continued else Reasoning_continued)]"
    from a [OF refl] on_chunks_sends [OF c] on_chunks_passed [OF c] again(3) pos show ?thesis
      by (auto simp: after_continuation_append after_continuation_none)
  qed
qed

text \<open>A stream that ends does so in its last request.\<close>

definition ends_with_request ::
  "('x \<Rightarrow> bool) \<Rightarrow> bool \<Rightarrow> ('h, 'x, 'm) completions \<Rightarrow> 'm list \<Rightarrow> 'h item list \<times> 'x option \<Rightarrow> bool" where
  "ends_with_request retryable structured completions prompt res \<longleftrightarrow> (\<exists>ys s out.
     started retryable structured completions prompt ys s \<and> fst res = ys @ out \<and>
     request_once retryable structured (completions (continuations s) (request_prompt prompt s)) s =
       (out, case snd res of None \<Rightarrow> Returned | Some e \<Rightarrow> Raised e))"

lemma ends_with_requestI:
  "\<lbrakk>started retryable structured completions prompt ys s;
    request_once retryable structured (completions (continuations s) (request_prompt prompt s)) s =
      (out, case r of None \<Rightarrow> Returned | Some e \<Rightarrow> Raised e)\<rbrakk> \<Longrightarrow>
    ends_with_request retryable structured completions prompt (ys @ out, r)"
  unfolding ends_with_request_def by auto

lemma stream_loop_last:
  assumes ret: "stream_loop retryable structured completions prompt s = Some res"
  shows "\<forall>ys. started retryable structured completions prompt ys s \<longrightarrow>
    ends_with_request retryable structured completions prompt (ys @ fst res, snd res)"
proof (rule stream_loop.raw_induct [where P = "\<lambda>retryable structured completions prompt s res.
    \<forall>ys. started retryable structured completions prompt ys s \<longrightarrow>
      ends_with_request retryable structured completions prompt (ys @ fst res, snd res)", OF _ ret])
  fix loop retryable structured completions prompt s res
  assume IH: "\<And>retryable structured completions prompt s res.
      loop retryable structured completions prompt s = Some res \<Longrightarrow>
      \<forall>ys. started retryable structured completions prompt ys s \<longrightarrow>
        ends_with_request retryable structured completions prompt (ys @ fst res, snd res)"
    and eq: "(case request_once retryable structured (completions (continuations s) (request_prompt prompt s)) s of
        (out, Returned) \<Rightarrow> Some (out, None)
      | (out, Raised e) \<Rightarrow> Some (out, Some e)
      | (out, Again s') \<Rightarrow>
          Option.bind (loop retryable structured completions prompt s') (\<lambda>(out', r). Some (out @ out', r))) = Some res"
  show "\<forall>ys. started retryable structured completions prompt ys s \<longrightarrow>
      ends_with_request retryable structured completions prompt (ys @ fst res, snd res)"
  proof (intro allI impI)
    fix ys assume st: "started retryable structured completions prompt ys s"
    obtain out oc where a: "request_once retryable structured (completions (continuations s) (request_prompt prompt s)) s =
        (out, oc)" by (cases "request_once retryable structured (completions (continuations s) (request_prompt prompt s)) s") auto
    show "ends_with_request retryable structured completions prompt (ys @ fst res, snd res)"
    proof (cases oc)
      case Returned
      with eq a have "res = (out, None)" by simp
      with a st Returned show ?thesis by (simp add: ends_with_requestI)
    next
      case (Raised e)
      with eq a have "res = (out, Some e)" by simp
      with a st Raised show ?thesis by (simp add: ends_with_requestI)
    next
      case (Again s')
      with eq a obtain out' r where l: "loop retryable structured completions prompt s' = Some (out', r)" "res = (out @ out', r)"
        by (auto simp: bind_eq_Some_conv)
      have "started retryable structured completions prompt (ys @ out) s'" using st a Again by (auto intro: started.again)
      with IH [OF l(1)] l(2) show ?thesis by auto
    qed
  qed
qed

lemma stream_last:
  "stream nested retryable structured completions prompt = Some res \<Longrightarrow>
    ends_with_request (midstream_retryable nested retryable) structured completions prompt res"
  using stream_loop_last [of "midstream_retryable nested retryable" structured completions prompt fresh_answer res,
      THEN spec, of "[]"]
  by (simp add: stream_def started.first)

text \<open>What the last request of a stream leaves: its exception, or the notice that stands for it.\<close>

definition ended_well ::
  "('h chunk list \<times> 'x option) \<Rightarrow> 'h item list \<Rightarrow> 'h item list \<Rightarrow> 'x option \<Rightarrow> bool" where
  "ended_well request ys out r \<longleftrightarrow> (case (snd request, r) of
     (None, None) \<Rightarrow> True
   | (Some e, Some e') \<Rightarrow> e' = e \<and> list_all (\<lambda>i. \<not> item_finishes i) ys
   | (Some e, None) \<Rightarrow>
       (\<exists>i sent. out = sent @ [Synthetic i (if list_ex item_finishes ys then Finalization_failed else Recovery_failed)])
   | (None, Some e) \<Rightarrow> False)"

lemma last_request_ends:
  assumes a: "request_once retryable structured request s = (out, case r of None \<Rightarrow> Returned | Some e \<Rightarrow> Raised e)"
    and s: "\<not> saw_finish s" "\<not> list_ex item_finishes ys1"
  shows "ended_well request (ys1 @ out) out r"
proof -
  obtain t p o1 where c: "on_chunks (fst request) s = (t, p, o1)" by (cases "on_chunks (fst request) s")
  have "saw_finish t \<longleftrightarrow> list_ex item_finishes o1" using on_chunks_sends [OF c] s(1) by simp
  then show ?thesis using a c s(2)
    by (auto simp: request_once_def ended_well_def list_all_iff list_ex_iff split: option.splits if_splits)
qed

text \<open>
  C32 (error). An exception of the provider reaches the caller only while the answer is open: whatever the last request
  of a stream raised, the stream fails with just that exception and no chunk with a finish reason has been sent, or
  it ends normally with a notice, which is the one of a failed finalization if a finish reason has been sent and the
  one of a failed recovery if not. Without an exception in the last request the stream ends normally.
\<close>

theorem failure_only_while_open:
  assumes "stream nested retryable structured completions prompt = Some (ys, r)"
  shows "\<exists>ys1 s out. started (midstream_retryable nested retryable) structured completions prompt ys1 s \<and> ys = ys1 @ out \<and>
    ended_well (completions (continuations s) (request_prompt prompt s)) ys out r"
proof -
  obtain ys1 s out where st: "started (midstream_retryable nested retryable) structured completions prompt ys1 s"
    and ys: "ys = ys1 @ out"
    and a: "request_once (midstream_retryable nested retryable) structured (completions (continuations s) (request_prompt prompt s)) s =
      (out, case r of None \<Rightarrow> Returned | Some e \<Rightarrow> Raised e)"
    using stream_last [OF assms] by (auto simp: ends_with_request_def)
  with started_sends [OF st] last_request_ends [OF a] show ?thesis by blast
qed

text \<open>
  Once the reader has been told that an answer is continued, no reasoning is sent any more, by
  the continued requests or by a notice: the reader sees one phase of reasoning before the answer.
\<close>

theorem one_reasoning_phase:
  assumes "stream nested retryable structured completions prompt = Some (ys, r)"
  shows "list_all (\<lambda>i. \<not> item_reasons i) (after_continuation ys)"
proof -
  obtain ys1 s out oc where st: "started (midstream_retryable nested retryable) structured completions prompt ys1 s"
    and ys: "ys = ys1 @ out"
    and a: "request_once (midstream_retryable nested retryable) structured (completions (continuations s) (request_prompt prompt s)) s =
      (out, oc)" "oc = Returned \<or> (\<exists>e. oc = Raised e)"
    using stream_last [OF assms] by (cases r) (auto simp: ends_with_request_def)
  note sent = started_sends [OF st] started_reasons [OF st]
  have "\<not> list_ex item_reasons (after_continuation (ys1 @ out))"
  proof (rule attempt_cases [OF a(1)])
    fix t p o1
    assume c: "on_chunks (fst (completions (continuations s) (request_prompt prompt s))) s = (t, p, o1)"
      and 1: "\<And>e. oc = Raised e \<Longrightarrow> snd (completions (continuations s) (request_prompt prompt s)) = Some e \<and>
        \<not> saw_finish t \<and> out = o1"
      and 2: "oc = Returned \<Longrightarrow> snd (completions (continuations s) (request_prompt prompt s)) = None \<and> out = o1 \<or>
        (\<exists>k \<in> {Finalization_failed, Recovery_failed}. out = o1 @ [Synthetic (last_id t) k])"
    have out: "out = o1 \<or> (\<exists>k \<in> {Finalization_failed, Recovery_failed}. out = o1 @ [Synthetic (last_id t) k])"
      using a(2) 1 2 by blast
    have pos: "list_ex is_continued ys1 \<Longrightarrow> 0 < continuations s" using sent(1) by auto
    show ?thesis
      using out sent(2) on_chunks_sends [OF c] on_chunks_passed [OF c] pos
      by (auto simp: after_continuation_append after_continuation_none)
  qed
  with ys show ?thesis by (auto simp: list_all_iff list_ex_iff)
qed

lemma on_chunks_quiet:
  "\<lbrakk>on_chunks cs s = (s', p, out); list_all (\<lambda>c. \<not> filled (content c) \<and> \<not> filled (reasoning c)) cs\<rbrakk> \<Longrightarrow> \<not> p"
  by (induction cs arbitrary: s p out) (auto simp: on_chunk_def Let_def split: prod.splits)

text \<open>
  C33 (termination). The recovery ends: as soon as one continuation request ends normally or is interrupted
  without having brought any text, the stream ends, whatever the requests before it did.
\<close>

theorem recovery_ends:
  assumes "0 < n" "\<And>p. snd (completions n p) = None \<or>
    list_all (\<lambda>c. \<not> filled (content c) \<and> \<not> filled (reasoning c)) (fst (completions n p))"
  shows "\<exists>ys r. stream nested retryable structured completions prompt = Some (ys, r)"
proof -
  have "\<exists>res. stream_loop ok structured completions prompt s = Some res" if "continuations s \<le> n" for s ok
    using that
  proof (induction "n - continuations s" arbitrary: s rule: less_induct)
    case less
    obtain out oc where a: "request_once ok structured (completions (continuations s) (request_prompt prompt s)) s =
        (out, oc)" by (cases "request_once ok structured (completions (continuations s) (request_prompt prompt s)) s") auto
    show ?case
    proof (cases oc)
      case (Again s')
      have "continuations s < n \<and> continuations s' = continuations s + 1"
      proof (rule attempt_cases [OF a])
        fix t p o1
        assume c: "on_chunks (fst (completions (continuations s) (request_prompt prompt s))) s = (t, p, o1)"
          and r: "\<And>u. oc = Again u \<Longrightarrow> \<not> saw_finish t \<and> \<not> saw_tool t \<and> \<not> structured \<and>
            (0 < continuations t \<longrightarrow> p) \<and> snd (completions (continuations s) (request_prompt prompt s)) \<noteq> None \<and>
            u = t\<lparr>continuations := continuations t + 1\<rparr> \<and>
            out = o1 @ [Synthetic (last_id t) (if answer t \<noteq> [] then Continued else Reasoning_continued)]"
        have k: "continuations t = continuations s" using on_chunks_sends [OF c] by simp
        have "continuations s \<noteq> n"
          using assms(1) assms(2) [of "request_prompt prompt s"] on_chunks_quiet [OF c] r [OF Again] k by auto
        with less(2) k r [OF Again] show ?thesis by simp
      qed
      then obtain res where "stream_loop ok structured completions prompt s' = Some res"
        using less(1) [of s'] less(2) by fastforce
      then show ?thesis
        by (subst stream_loop.simps) (simp add: a Again split: prod.splits)
    qed (subst stream_loop.simps, simp add: a)+
  qed
  from this [of fresh_answer "midstream_retryable nested retryable"] show ?thesis by (simp add: stream_def fresh_answer_def)
qed


section \<open>A sample completions\<close>

text \<open>It breaks off after a word, then after a second word, then brings nothing.\<close>

definition words :: "pystr option \<Rightarrow> pystr option \<Rightarrow> pystr option \<Rightarrow> unit chunk" where
  "words c r f = \<lparr>identity = (), content = c, reasoning = r, tool_calls = False, usage = False, finish = f\<rparr>"

definition breaking :: "(unit, unit, unit) completions" where
  "breaking n p = (if n = 0 then ([words (Some ''a'') None None], Some ())
     else if n = 1 then ([words None (Some ''x'') None, words (Some ''b'') None None], Some ())
     else ([], Some ()))"

definition always :: "unit \<Rightarrow> bool" where
  "always x = True"

abbreviation broken :: "unit \<Rightarrow> bool" where
  "broken \<equiv> midstream_retryable (\<lambda>x. []) always"

definition after_word :: "pystr list \<Rightarrow> pystr list \<Rightarrow> nat \<Rightarrow> unit progress" where
  "after_word a t n = \<lparr>answer = a, thoughts = t, last_id = Some (), saw_tool = False, saw_finish = False, continuations = n\<rparr>"

lemma breaking_attempts:
  "request_once broken False (breaking 0 p) fresh_answer =
    ([Passed (words (Some ''a'') None None), Synthetic (Some ()) Continued], Again (after_word [''a''] [] 1))"
  "request_once broken False (breaking 1 p) (after_word [''a''] [] 1) =
    ([Passed (words (Some ''b'') None None), Synthetic (Some ()) Continued], Again (after_word [''a'', ''b''] [''x''] 2))"
  "request_once broken False (breaking 2 p) (after_word [''a'', ''b''] [''x''] 2) = ([Synthetic (Some ()) Recovery_failed], Returned)"
  by code_simp+

lemma breaking_stream:
  "stream (\<lambda>x. []) always False breaking [()] =
    Some ([Passed (words (Some ''a'') None None), Synthetic (Some ()) Continued,
      Passed (words (Some ''b'') None None), Synthetic (Some ()) Continued, Synthetic (Some ()) Recovery_failed], None)"
proof -
  have n: "continuations fresh_answer = 0" "continuations (after_word a t k) = k" for a t k
    by (simp_all add: fresh_answer_def after_word_def)
  have "stream_loop broken False breaking [()] (after_word [''a'', ''b''] [''x''] 2) = Some ([Synthetic (Some ()) Recovery_failed], None)"
    by (subst stream_loop.simps) (simp add: n breaking_attempts)
  then have "stream_loop broken False breaking [()] (after_word [''a''] [] 1) =
      Some ([Passed (words (Some ''b'') None None), Synthetic (Some ()) Continued, Synthetic (Some ()) Recovery_failed], None)"
    by (subst stream_loop.simps) (simp add: n breaking_attempts [unfolded One_nat_def])
  then show ?thesis
    unfolding stream_def by (subst stream_loop.simps) (simp add: n breaking_attempts [unfolded One_nat_def])
qed

lemma one_reasoning_phase_witness:
  "list_all (\<lambda>i. \<not> item_reasons i) (after_continuation
    [Passed (words (Some ''a'') None None), Synthetic (Some ()) Continued,
      Passed (words (Some ''b'') None None), Synthetic (Some ()) Continued, Synthetic (Some ()) Recovery_failed])"
  by (rule one_reasoning_phase [OF breaking_stream])

lemma recovery_ends_witness:
  "\<exists>ys r. stream (\<lambda>x. []) always False breaking [()] = Some (ys, r)"
  by (rule recovery_ends [of 2]) (simp_all add: breaking_def)

lemma recovery_prompt_exact_witness:
  "\<exists>thinking. request_prompt [()] (after_word [''a''] [] 1) =
    map Given [()] @ [Partial_assistant (or_none (sent_answer
      [Passed (words (Some ''a'') None None), Synthetic (Some ()) Continued])) thinking, Continue_instruction]"
proof -
  have "started broken False breaking [()] ([] @ [Passed (words (Some ''a'') None None), Synthetic (Some ()) Continued])
      (after_word [''a''] [] 1)"
  proof (rule started.again [OF started.first])
    have c: "continuations (fresh_answer :: unit progress) = 0" by (simp add: fresh_answer_def)
    show "request_once broken False (breaking (continuations (fresh_answer :: unit progress)) (request_prompt [()] (fresh_answer :: unit progress))) fresh_answer =
        ([Passed (words (Some ''a'') None None), Synthetic (Some ()) Continued], Again (after_word [''a''] [] 1))"
      unfolding c by (rule breaking_attempts(1))
  qed
  then show ?thesis by (intro recovery_prompt_exact) simp_all
qed

text \<open>A provider that raises after the finish reason.\<close>

definition finishing :: "(unit, unit, unit) completions" where
  "finishing n p = ([words (Some ''a'') None (Some ''stop'')], Some ())"

definition closed_answer :: "unit item list" where
  "closed_answer = [Passed (words (Some ''a'') None (Some ''stop'')), Synthetic (Some ()) Finalization_failed]"

lemma failure_only_while_open_witness:
  "\<exists>ys1 s out. started (midstream_retryable (\<lambda>x. []) (\<lambda>x. False)) False finishing [()] ys1 s \<and> closed_answer = ys1 @ out \<and>
    ended_well (finishing (continuations s) (request_prompt [()] s)) closed_answer out None"
proof (rule failure_only_while_open)
  have "request_once (midstream_retryable (\<lambda>x. []) (\<lambda>x :: unit. False)) False (finishing 0 p) fresh_answer = (closed_answer, Returned)"
    for p by code_simp
  then show "stream (\<lambda>x. []) (\<lambda>x. False) False finishing [()] = Some (closed_answer, None)"
    unfolding stream_def by (subst stream_loop.simps) (simp add: finishing_def)
qed

end
