(* ===== verification/Content_Limits.thy ===== *)
theory Content_Limits
  imports Complex_Main PyText PyData
begin

text \<open>
  What the Onyx patches share and the caps on search content: \<open>common/config.py\<close>, \<open>common/text.py\<close>,
  \<open>common/source.py\<close> and \<open>api/retrieval_limits.py\<close> of \<open>src/onyx/patches/onyx_wrapper_patches\<close>. The
  environment is a map; compiling a function from its patched source and assigning it to a module are left
  out, as are printed lines.
\<close>

section \<open>Settings\<close>

type_synonym environment = "pystr \<Rightarrow> pystr option"

definition effective_unlimited :: int where
  "effective_unlimited = 2000000000"

definition flag_on :: "pystr \<Rightarrow> bool" where
  "flag_on v \<longleftrightarrow> py_lower v \<in> {''1'', ''true'', ''yes'', ''on''}"

definition env_or :: "environment \<Rightarrow> pystr \<Rightarrow> pystr \<Rightarrow> pystr" where
  "env_or env name d = (case env name of None \<Rightarrow> d | Some v \<Rightarrow> v)"

definition strict_mode :: "environment \<Rightarrow> bool" where
  "strict_mode env = flag_on (env_or env ''WRAPPER_PATCH_STRICT'' ''true'')"

definition env_flag_enabled :: "environment \<Rightarrow> pystr \<Rightarrow> bool" where
  "env_flag_enabled env name = flag_on (env_or env name [])"

definition env_flag_default_true :: "environment \<Rightarrow> pystr \<Rightarrow> bool" where
  "env_flag_default_true env name = flag_on (env_or env name ''true'')"

text \<open>\<open>_warn_or_raise\<close>, then what the caller returns when it only warned.\<close>

definition warn_or :: "environment \<Rightarrow> pystr \<Rightarrow> 'a \<Rightarrow> 'a py" where
  "warn_or env message result = (if strict_mode env then Inl (RuntimeError message) else Inr result)"

definition parse_positive_int :: "environment \<Rightarrow> pystr \<Rightarrow> int option" where
  "parse_positive_int env name = (case env name of
     None \<Rightarrow> None
   | Some raw \<Rightarrow>
       (if raw = [] then None
        else case py_int raw of
          Inl _ \<Rightarrow> None
        | Inr v \<Rightarrow> if v = 0 then Some effective_unlimited else if v < 0 then None else Some v))"

definition parse_optional_positive_int :: "environment \<Rightarrow> pystr \<Rightarrow> int option" where
  "parse_optional_positive_int env name = (case env name of
     None \<Rightarrow> None
   | Some raw \<Rightarrow>
       (if raw = [] then None
        else case py_int raw of
          Inl _ \<Rightarrow> None
        | Inr v \<Rightarrow> if v = 0 then None else if v < 0 then None else Some v))"

definition required_positive_int :: "environment \<Rightarrow> pystr \<Rightarrow> int \<Rightarrow> int py" where
  "required_positive_int env name d =
     (let raw = env_or env name (int_str d)
      in case py_int raw of
           Inl _ \<Rightarrow> warn_or env (name @ '' must be a positive integer, got '' @ raw) d
         | Inr v \<Rightarrow> if v \<le> 0 then warn_or env (name @ '' must be a positive integer, got '' @ raw) d else Inr v)"

definition validate_fixed_proxy_value :: "pystr \<Rightarrow> pystr \<Rightarrow> pystr py" where
  "validate_fixed_proxy_value v expected =
     (let v = py_strip v
      in if v \<noteq> expected then Inl (RuntimeError (''fixed proxy must be exactly '' @ expected)) else Inr v)"

definition validated_fixed_proxy_url :: "environment \<Rightarrow> pystr \<Rightarrow> pystr \<Rightarrow> pystr py" where
  "validated_fixed_proxy_url env name host =
     (let expected = ''http://'' @ host @ '':3128''
      in case validate_fixed_proxy_value (env_or env name []) expected of
           Inl _ \<Rightarrow> Inl (RuntimeError (name @ '' must be exactly '' @ expected))
         | Inr v \<Rightarrow> Inr v)"

section \<open>Replacing source text\<close>

text \<open>\<open>s.count(t)\<close> and \<open>s.replace(t, u)\<close> for a text \<open>t\<close> that is not empty, and with a limit of one.\<close>

function count_text :: "pystr \<Rightarrow> pystr \<Rightarrow> nat" where
  "count_text t [] = 0"
| "count_text t (c # s) =
     (if t \<noteq> [] \<and> starts_with (c # s) t then 1 + count_text t (drop (length t) (c # s)) else count_text t s)"
  by pat_completeness auto
termination by (relation "measure (\<lambda>(t, s). length s)") (auto simp: neq_Nil_conv)

function replace_text :: "pystr \<Rightarrow> pystr \<Rightarrow> pystr \<Rightarrow> pystr" where
  "replace_text t u [] = []"
| "replace_text t u (c # s) =
     (if t \<noteq> [] \<and> starts_with (c # s) t then u @ replace_text t u (drop (length t) (c # s))
      else c # replace_text t u s)"
  by pat_completeness auto
termination by (relation "measure (\<lambda>(t, u, s). length s)") (auto simp: neq_Nil_conv)

fun replace_first :: "pystr \<Rightarrow> pystr \<Rightarrow> pystr \<Rightarrow> pystr" where
  "replace_first t u [] = []"
| "replace_first t u (c # s) =
     (if starts_with (c # s) t then u @ drop (length t) (c # s) else c # replace_first t u s)"

definition replace_or_warn :: "environment \<Rightarrow> pystr \<Rightarrow> pystr \<Rightarrow> pystr \<Rightarrow> pystr \<Rightarrow> pystr py" where
  "replace_or_warn env owner current old new =
     (let replaced = replace_text old new current
      in if replaced = current
         then warn_or env (owner @ '' patch did not match expected upstream text'') replaced else Inr replaced)"

definition prompt_stability_replace :: "pystr \<Rightarrow> pystr \<Rightarrow> pystr \<Rightarrow> pystr \<Rightarrow> nat \<Rightarrow> pystr py" where
  "prompt_stability_replace v old new label n =
     (if count_text old v \<noteq> n
      then Inl (RuntimeError (label @ '': expected exactly '' @ nat_str n @ '' source matches, got '' @ nat_str (count_text old v)))
      else Inr (replace_text old new v))"

text \<open>The loop of \<open>_patch_function_source\<close>: \<open>None\<close> when it warns and leaves the function as it is.\<close>

fun patched_source :: "environment \<Rightarrow> pystr \<Rightarrow> (pystr \<times> pystr) list \<Rightarrow> pystr \<Rightarrow> pystr option py" where
  "patched_source env name [] source = Inr (Some source)"
| "patched_source env name ((old, new) # rs) source =
     (if \<not> contains source old
      then warn_or env (name @ '' patch did not match expected upstream text'') None
      else patched_source env name rs (replace_first old new source))"

section \<open>Truncated content\<close>

definition truncation_notice :: "int \<Rightarrow> pystr" where
  "truncation_notice omitted =
     CHR 0x0A # ''... [internal search content truncated, '' @ int_str omitted @ '' characters omitted]''"

definition len :: "'a list \<Rightarrow> int" where
  "len s = int (length s)"

definition truncate_with_notice :: "pystr \<Rightarrow> int \<Rightarrow> pystr" where
  "truncate_with_notice t max_chars =
     (if len t \<le> max_chars then t
      else if max_chars \<le> 0 then []
      else let suffix = truncation_notice (len t)
           in if max_chars \<le> len suffix then take (nat max_chars) t
              else let keep = max 0 (max_chars - len suffix);
                       suffix = truncation_notice (len t - keep)
                   in if max_chars \<le> len suffix then take (nat max_chars) t
                      else take (nat (max 0 (max_chars - len suffix))) t @ suffix)"

section \<open>Caps on the internal search\<close>

text \<open>\<open>min\<close> with a cap that may be absent.\<close>

definition capped :: "int \<Rightarrow> int option \<Rightarrow> int" where
  "capped n c = (case c of None \<Rightarrow> n | Some m \<Rightarrow> min n m)"

definition entry_cap :: "int option \<Rightarrow> int option \<Rightarrow> pystr \<Rightarrow> int" where
  "entry_cap per_result remaining content = capped (capped (len content) per_result) remaining"

text \<open>The results in order; \<open>None\<close> when an entry has no \<open>get\<close>.\<close>

fun limit_entries :: "int option \<Rightarrow> int option \<Rightarrow> json list \<Rightarrow> json list option" where
  "limit_entries per_result remaining [] = Some []"
| "limit_entries per_result remaining (e # es) = (case e of
     JObj m \<Rightarrow>
       (case jget m ''content'' of
          JStr content \<Rightarrow>
            (let limited = truncate_with_notice content (entry_cap per_result remaining content)
             in map_option ((#) (JObj (map (\<lambda>(k, v). (k, if k = ''content'' then JStr limited else v)) m)))
                  (limit_entries per_result (map_option (\<lambda>r. max 0 (r - len limited)) remaining) es))
        | _ \<Rightarrow> map_option ((#) e) (limit_entries per_result remaining es))
   | _ \<Rightarrow> None)"

text \<open>
  \<open>_limited_convert_inference_sections_to_llm_string\<close> on the text the formatter returned: unchanged, a new
  payload, or an exception.
\<close>

datatype limited = Unchanged | Payload json | Failed

definition limit_payload ::
  "environment \<Rightarrow> (pystr \<Rightarrow> json option) \<Rightarrow> int option \<Rightarrow> int option \<Rightarrow> pystr \<Rightarrow> limited" where
  "limit_payload env loads per_result budget docs =
     (if docs = [] then Unchanged
      else case loads docs of
        Some (JObj m) \<Rightarrow>
          (case (if map_of m ''results'' = None then JList [] else jget m ''results'') of
             JList es \<Rightarrow>
               (case limit_entries per_result budget es of
                  None \<Rightarrow> Failed
                | Some es' \<Rightarrow> Payload (JObj (map (\<lambda>(k, v). (k, if k = ''results'' then JList es' else v)) m)))
           | JObj ms \<Rightarrow> if ms = [] then Payload (JObj m) else Failed
           | JStr s \<Rightarrow> if s = [] then Payload (JObj m) else Failed
           | _ \<Rightarrow> Failed)
      | _ \<Rightarrow> if strict_mode env then Failed else Unchanged)"

text \<open>\<open>apply_internal_search_context_patches\<close>: the two caps, when there is one.\<close>

definition internal_search_caps :: "environment \<Rightarrow> (int option \<times> int option) option" where
  "internal_search_caps env =
     (let per_result = parse_optional_positive_int env ''ONYX_RAG_INTERNAL_SEARCH_MAX_CONTENT_CHARS_PER_RESULT'';
          budget = parse_optional_positive_int env ''ONYX_RAG_INTERNAL_SEARCH_MAX_TOTAL_CONTENT_CHARS''
      in if per_result = None \<and> budget = None then None else Some (per_result, budget))"

text \<open>\<open>apply_open_url_char_limit_patches\<close>: the limits of a URL and of all URLs, from the limit Onyx has.\<close>

definition open_url_limits :: "environment \<Rightarrow> int \<Rightarrow> (int \<times> int) option" where
  "open_url_limits env current =
     (let per_url = parse_positive_int env ''ONYX_OPEN_URL_MAX_CHARS_PER_URL'';
          across = parse_positive_int env ''ONYX_OPEN_URL_MAX_TOTAL_CHARS'';
          per = (case per_url of None \<Rightarrow> current | Some n \<Rightarrow> n)
      in if per_url = None \<and> across = None then None
         else Some (per, case across of None \<Rightarrow> 10 * per | Some n \<Rightarrow> n))"

section \<open>Bounds\<close>

lemma truncate_length: "len (truncate_with_notice t n) \<le> max 0 n"
  by (auto simp: truncate_with_notice_def len_def Let_def)

definition content_length :: "json \<Rightarrow> int" where
  "content_length e = (case e of JObj m \<Rightarrow> (case jget m ''content'' of JStr s \<Rightarrow> len s | _ \<Rightarrow> 0) | _ \<Rightarrow> 0)"

lemma content_length_nonneg: "0 \<le> content_length e"
  by (auto simp: content_length_def len_def split: json.splits)

lemma map_of_replaced:
  "map_of (map (\<lambda>(k, v). (k, if k = a then w else v)) m) b = (if a = b then map_option (\<lambda>_. w) (map_of m b) else map_of m b)"
  by (induction m) auto

lemma content_replaced:
  assumes "jget m ''content'' = JStr c"
  shows "content_length (JObj (map (\<lambda>(k, v). (k, if k = ''content'' then JStr s else v)) m)) = len s"
  using assms by (auto simp: content_length_def map_of_replaced split: option.splits)

lemma entry_cap_bounds:
  "entry_cap p r s \<le> len s" "(\<And>m. p = Some m \<Longrightarrow> entry_cap p r s \<le> m)" "(\<And>m. r = Some m \<Longrightarrow> entry_cap p r s \<le> m)"
  by (auto simp: entry_cap_def capped_def split: option.splits)

lemma limit_entries_total:
  assumes "limit_entries per_result (Some budget) es = Some es'" "0 \<le> budget"
  shows "sum_list (map content_length es') \<le> budget"
  using assms
proof (induction es arbitrary: budget es')
  case Nil
  then show ?case by simp
next
  case (Cons e es)
  from Cons(2) obtain m where e: "e = JObj m" by (cases e) auto
  show ?case
  proof (cases "\<exists>s. jget m ''content'' = JStr s")
    case True
    then obtain s where s: "jget m ''content'' = JStr s" by blast
    define limited where "limited = truncate_with_notice s (entry_cap per_result (Some budget) s)"
    have l: "len limited \<le> budget" "0 \<le> len limited"
      using truncate_length [of s "entry_cap per_result (Some budget) s"] entry_cap_bounds(3) [of "Some budget" budget per_result s] Cons(3)
      by (simp_all add: limited_def) (simp add: len_def)
    obtain rest where r: "limit_entries per_result (Some (max 0 (budget - len limited))) es = Some rest"
      "es' = JObj (map (\<lambda>(k, v). (k, if k = ''content'' then JStr limited else v)) m) # rest"
      using Cons(2) e s by (auto simp del: jget.simps simp: Let_def limited_def [symmetric])
    from Cons(1) [OF r(1)] l r(2) content_replaced [OF s, of limited] show ?thesis by simp
  next
    case False
    then obtain rest where r: "limit_entries per_result (Some budget) es = Some rest" "es' = e # rest"
      using Cons(2) e by (auto simp del: jget.simps split: json.splits)
    moreover have "content_length e = 0" using e False by (auto simp: content_length_def simp del: jget.simps split: json.splits)
    ultimately show ?thesis using Cons(1) [OF r(1) Cons(3)] by simp
  qed
qed


text \<open>
  C34 (bounds). With a cap on the whole, the search content handed to the model is at most that long: the
  contents of all results of a payload that is produced add up to the cap at most, notices included.
\<close>

theorem search_content_bounded:
  assumes "limit_payload env loads per_result (Some budget) docs = Payload (JObj m)" "0 \<le> budget"
    and "jget m ''results'' = JList es"
  shows "sum_list (map content_length es) \<le> budget"
proof -
  have es: "limit_entries per_result (Some budget) vs = Some ws \<Longrightarrow> sum_list (map content_length ws) \<le> budget" for vs ws
    using limit_entries_total assms(2) by blast
  show ?thesis
    using assms(1,3) es
    by (auto simp: limit_payload_def map_of_replaced split: if_splits option.splits json.splits)
qed

definition sample_payload :: json where
  "sample_payload = JObj [(''results'', JList [JObj [(''content'', JStr (replicate 150 CHR ''a''))],
     JObj [(''content'', JStr (replicate 40 CHR ''b''))]])]"

definition capped_payload :: json where
  "capped_payload = JObj [(''results'', JList [
     JObj [(''content'', JStr (replicate 36 CHR ''a'' @ truncation_notice 114))], JObj [(''content'', JStr [])]])]"

lemma capped_payload: "limit_payload Map.empty (\<lambda>s. Some sample_payload) None (Some 100) ''x'' = Payload capped_payload"
  by code_simp

lemma search_content_bounded_witness:
  "sum_list (map content_length [JObj [(''content'', JStr (replicate 36 CHR ''a'' @ truncation_notice 114))],
    JObj [(''content'', JStr [])]]) \<le> 100"
  by (rule search_content_bounded [OF capped_payload [unfolded capped_payload_def]]) simp_all

text \<open>
  The notice is written for the length kept before its own length was known: when the number of omitted
  characters has a digit less than the length of the text, it states one more than are omitted.
\<close>

lemma notice_overstates:
  "truncate_with_notice (replicate 1000 CHR ''a'') 100 = replicate 36 CHR ''a'' @ truncation_notice 965"
  by code_simp

end
