(* ===== verification/Env_Edit.thy ===== *)
theory Env_Edit
  imports Complex_Main PyLines
begin

text \<open>
  The generated environment file of the selected configuration: \<open>environment_assignments\<close>,
  \<open>selected_environment\<close> and \<open>sync_environment\<close> of \<open>src/tools/components/configuration.py\<close>. A file is its
  decoded text; the regular expressions are written out as scanners.
\<close>

datatype config_error =
  Unterminated_quote | Unsafe_value | Duplicate_assignment | Env_symlink | Env_missing

section \<open>Lines with their ends\<close>

text \<open>\<open>s.splitlines(keepends=True)\<close>.\<close>

fun keep_lines_from :: "pystr \<Rightarrow> pystr \<Rightarrow> pystr list" where
  "keep_lines_from acc [] = (if acc = [] then [] else [acc])"
| "keep_lines_from acc (c # s) =
     (if c = CHR 0x0D \<and> s \<noteq> [] \<and> hd s = CHR 0x0A then (acc @ [c, CHR 0x0A]) # keep_lines_from [] (tl s)
      else if line_break c then (acc @ [c]) # keep_lines_from [] s
      else keep_lines_from (acc @ [c]) s)"

definition keep_lines :: "pystr \<Rightarrow> pystr list" where
  "keep_lines s = keep_lines_from [] s"

section \<open>Assignments\<close>

definition blank_c :: "char \<Rightarrow> bool" where
  "blank_c c \<longleftrightarrow> c = CHR '' '' \<or> c = CHR 0x09"

definition key_value :: "pystr \<Rightarrow> (pystr \<times> pystr) option" where
  "key_value s =
     (let key = takeWhile (\<lambda>c. c \<noteq> CHR ''='' \<and> \<not> is_space c) s;
          r = dropWhile blank_c (drop (length key) s)
      in if key \<noteq> [] \<and> starts_with r ''='' then Some (key, dropWhile blank_c (tl r)) else None)"

text \<open>The pattern of an assignment, with its optional \<open>export\<close>.\<close>

definition match_assignment :: "pystr \<Rightarrow> (pystr \<times> pystr) option" where
  "match_assignment line =
     (let s = dropWhile blank_c line;
          r = drop 6 s
      in case (if starts_with s ''export'' \<and> r \<noteq> [] \<and> blank_c (hd r) then key_value (dropWhile blank_c r) else None) of
           Some kv \<Rightarrow> Some kv
         | None \<Rightarrow> key_value s)"

text \<open>The rest of a quoted value: \<open>None\<close> when it is closed, else whether a backslash is pending.\<close>

fun scan_quoted :: "char \<Rightarrow> bool \<Rightarrow> pystr \<Rightarrow> bool option" where
  "scan_quoted q escaped [] = Some escaped"
| "scan_quoted q escaped (c # s) =
     (if escaped then scan_quoted q False s
      else if c = CHR 0x5C then scan_quoted q True s
      else if c = q then None else scan_quoted q False s)"

type_synonym span = "pystr \<times> nat \<times> nat"

record open_quote =
  quoted_key :: pystr
  quoted_from :: nat
  quote_mark :: char
  after_backslash :: bool

fun assignments_from :: "nat \<Rightarrow> open_quote option \<Rightarrow> pystr list \<Rightarrow> config_error + span list" where
  "assignments_from i None [] = Inr []"
| "assignments_from i (Some p) [] = Inl Unterminated_quote"
| "assignments_from i None (line # ls) = (case match_assignment line of
     None \<Rightarrow> assignments_from (i + 1) None ls
   | Some (key, v) \<Rightarrow>
       (if starts_with key ''#'' then assignments_from (i + 1) None ls
        else if v = [] \<or> hd v \<notin> {CHR 0x27, CHR 0x22}
        then map_sum id ((#) (key, i, i)) (assignments_from (i + 1) None ls)
        else case scan_quoted (hd v) False (tl v) of
          None \<Rightarrow> map_sum id ((#) (key, i, i)) (assignments_from (i + 1) None ls)
        | Some esc \<Rightarrow> assignments_from (i + 1)
            (Some \<lparr>quoted_key = key, quoted_from = i, quote_mark = hd v, after_backslash = esc\<rparr>) ls))"
| "assignments_from i (Some p) (line # ls) = (case scan_quoted (quote_mark p) (after_backslash p) line of
     None \<Rightarrow> map_sum id ((#) (quoted_key p, quoted_from p, i)) (assignments_from (i + 1) None ls)
   | Some esc \<Rightarrow> assignments_from (i + 1) (Some (p\<lparr>after_backslash := esc\<rparr>)) ls)"

definition environment_assignments :: "pystr list \<Rightarrow> config_error + span list" where
  "environment_assignments ls = assignments_from 0 None ls"

section \<open>Selected values\<close>

definition safe_value :: "pystr \<Rightarrow> bool" where
  "safe_value v \<longleftrightarrow> list_all (\<lambda>c. is_upper_ascii c \<or> is_lower_ascii c \<or> is_digit c \<or> c \<in> set ''_.-'') v"

definition value_line :: "pystr \<Rightarrow> pystr \<Rightarrow> pystr" where
  "value_line k v = k @ ''='' @ v @ [CHR 0x0A]"

text \<open>The lines to replace, with their spans, and the lines to add.\<close>

fun plan_values :: "span list \<Rightarrow> (pystr \<times> pystr) list \<Rightarrow> config_error + (nat \<times> nat \<times> pystr) list \<times> pystr list" where
  "plan_values spans [] = Inr ([], [])"
| "plan_values spans ((k, v) # vs) =
     (if \<not> safe_value v then Inl Unsafe_value
      else case filter (\<lambda>s. fst s = k) spans of
        [] \<Rightarrow> map_sum id (\<lambda>(rs, as). (rs, value_line k v # as)) (plan_values spans vs)
      | [s] \<Rightarrow> map_sum id (\<lambda>(rs, as). ((fst (snd s), snd (snd s), value_line k v) # rs, as)) (plan_values spans vs)
      | _ \<Rightarrow> Inl Duplicate_assignment)"

text \<open>\<open>lines[start:end + 1] = [replacement]\<close>.\<close>

definition splice :: "nat \<times> nat \<times> pystr \<Rightarrow> pystr list \<Rightarrow> pystr list" where
  "splice r ls = (case r of (s, e, t) \<Rightarrow> take s ls @ t # drop (e + 1) ls)"

text \<open>The spans start at different lines, so the tuples are ordered by their start.\<close>

definition selected_lines :: "pystr list \<Rightarrow> (pystr \<times> pystr) list \<Rightarrow> config_error + pystr list" where
  "selected_lines ls vs = (case environment_assignments ls of
     Inl e \<Rightarrow> Inl e
   | Inr spans \<Rightarrow> (case plan_values spans vs of
       Inl e \<Rightarrow> Inl e
     | Inr (rs, as) \<Rightarrow>
         (let ls = foldl (\<lambda>ls r. splice r ls) ls (rev (sort_key fst rs));
              ls = (if as \<noteq> [] \<and> ls \<noteq> [] \<and> \<not> ends_with (last ls) [CHR 0x0A]
                    then butlast ls @ [last ls @ [CHR 0x0A]] else ls)
          in Inr (ls @ as))))"

definition selected_environment :: "pystr \<Rightarrow> (pystr \<times> pystr) list \<Rightarrow> config_error + pystr" where
  "selected_environment content vs = map_sum id concat (selected_lines (keep_lines content) vs)"

section \<open>Synchronization\<close>

text \<open>The file: a symbolic link, its text and mode if it exists.\<close>

record env_file =
  env_is_link :: bool
  env_text :: "(pystr \<times> nat) option"

definition tag_values :: "pystr \<Rightarrow> pystr \<Rightarrow> (pystr \<times> pystr) list" where
  "tag_values image_tag controller_tag = [(''IMAGE_TAG'', image_tag), (''CODE_INTERPRETER_IMAGE_TAG'', controller_tag)]"

text \<open>What is written, if anything; \<open>secret\<close> is \<open>secrets.token_hex(32)\<close>.\<close>

definition initial_environment :: "pystr \<Rightarrow> pystr \<Rightarrow> bool \<Rightarrow> config_error + pystr" where
  "initial_environment secret template lite =
     (case selected_environment template [(''AUTH_TYPE'', ''basic''), (''USER_AUTH_SECRET'', secret)] of
        Inl e \<Rightarrow> Inl e
      | Inr content \<Rightarrow>
          (if lite then selected_environment content [(''COMPOSE_PROFILES'', []), (''FILE_STORE_BACKEND'', ''postgres'')]
           else Inr content))"

definition sync_environment ::
  "pystr \<Rightarrow> env_file \<Rightarrow> pystr \<Rightarrow> pystr \<Rightarrow> pystr option \<Rightarrow> bool \<Rightarrow> config_error + (pystr \<times> nat) option" where
  "sync_environment secret f image_tag controller_tag template lite =
     (if env_is_link f then Inl Env_symlink
      else case (case (env_text f, template) of
          (Some (content, mode), _) \<Rightarrow> Inr (content, mode)
        | (None, Some t) \<Rightarrow> map_sum id (\<lambda>c. (c, 384)) (initial_environment secret t lite)
        | (None, None) \<Rightarrow> Inl Env_missing) of
        Inl e \<Rightarrow> Inl e
      | Inr (content, mode) \<Rightarrow>
          (case selected_environment content (tag_values image_tag controller_tag) of
             Inl e \<Rightarrow> Inl e
           | Inr new_text \<Rightarrow>
               Inr (if env_text f = None \<or> new_text \<noteq> content then Some (new_text, mode) else None)))"

section \<open>The file as a list of items\<close>

text \<open>An item is an assignment with its lines, or another line.\<close>

type_synonym env_item = "pystr option \<times> pystr list"

fun items_from :: "(open_quote \<times> pystr list) option \<Rightarrow> pystr list \<Rightarrow> config_error + env_item list" where
  "items_from None [] = Inr []"
| "items_from (Some p) [] = Inl Unterminated_quote"
| "items_from None (line # ls) = (case match_assignment line of
     None \<Rightarrow> map_sum id ((#) (None, [line])) (items_from None ls)
   | Some (key, v) \<Rightarrow>
       (if starts_with key ''#'' then map_sum id ((#) (None, [line])) (items_from None ls)
        else if v = [] \<or> hd v \<notin> {CHR 0x27, CHR 0x22}
        then map_sum id ((#) (Some key, [line])) (items_from None ls)
        else case scan_quoted (hd v) False (tl v) of
          None \<Rightarrow> map_sum id ((#) (Some key, [line])) (items_from None ls)
        | Some esc \<Rightarrow> items_from
            (Some (\<lparr>quoted_key = key, quoted_from = 0, quote_mark = hd v, after_backslash = esc\<rparr>, [line])) ls))"
| "items_from (Some (p, acc)) (line # ls) = (case scan_quoted (quote_mark p) (after_backslash p) line of
     None \<Rightarrow> map_sum id ((#) (Some (quoted_key p), acc @ [line])) (items_from None ls)
   | Some esc \<Rightarrow> items_from (Some (p\<lparr>after_backslash := esc\<rparr>, acc @ [line])) ls)"

definition items :: "pystr list \<Rightarrow> config_error + env_item list" where
  "items ls = items_from None ls"

fun spans_of :: "nat \<Rightarrow> env_item list \<Rightarrow> span list" where
  "spans_of i [] = []"
| "spans_of i ((None, seg) # its) = spans_of (i + length seg) its"
| "spans_of i ((Some k, seg) # its) = (k, i, i + length seg - 1) # spans_of (i + length seg) its"

definition same_quote :: "nat \<Rightarrow> nat \<Rightarrow> open_quote \<Rightarrow> (open_quote \<times> pystr list) \<Rightarrow> bool" where
  "same_quote i j p q \<longleftrightarrow> p = (fst q)\<lparr>quoted_from := i\<rparr> \<and> j = i + length (snd q) \<and> snd q \<noteq> []"

lemma assignments_items:
  "assignments_from i None ls = map_sum id (spans_of i) (items_from None ls)"
  "same_quote i j p q \<Longrightarrow> assignments_from j (Some p) ls =
    (case items_from (Some q) ls of Inl e \<Rightarrow> Inl e | Inr its \<Rightarrow> Inr (spans_of i its))"
proof (induction ls arbitrary: i j p q)
  case Nil
  { case 1 then show ?case by simp }
  { case 2 then show ?case by (cases q) simp }
next
  case (Cons line ls)
  { case 1
    show ?case
    proof (cases "match_assignment line")
      case None
      then show ?thesis using Cons(1) [of "i + 1"] by (cases "items_from None ls") auto
    next
      case (Some kv)
      obtain key v where kv: "kv = (key, v)" by (cases kv)
      have q: "same_quote i (Suc i) \<lparr>quoted_key = key, quoted_from = i, quote_mark = hd v, after_backslash = esc\<rparr>
          (\<lparr>quoted_key = key, quoted_from = 0, quote_mark = hd v, after_backslash = esc\<rparr>, [line])" for esc
        by (simp add: same_quote_def)
      show ?thesis
        using Cons(1) [of "i + 1"] Cons(2) [OF q] Some kv
        by (cases "items_from None ls") (auto split: option.splits sum.splits)
    qed }
  { case 2
    obtain r acc where q: "q = (r, acc)" by (cases q)
    have p: "p = r\<lparr>quoted_from := i\<rparr>" "j = i + length acc" "acc \<noteq> []" using 2 q by (auto simp: same_quote_def)
    have q': "same_quote i (Suc j) (p\<lparr>after_backslash := esc\<rparr>) (r\<lparr>after_backslash := esc\<rparr>, acc @ [line])" for esc
      using p by (simp add: same_quote_def)
    show ?case
      using Cons(1) [of "j + 1"] Cons(2) [OF q'] p q
      by (cases "items_from None ls") (auto split: option.splits sum.splits) }
qed

text \<open>A line that is not inside a quoted value is an item, or opens one.\<close>

lemma items_first:
  "(\<exists>k. \<forall>rest. items_from None (line # rest) = map_sum id ((#) (k, [line])) (items_from None rest)) \<or>
   (\<exists>q. \<forall>rest. items_from None (line # rest) = items_from (Some (q, [line])) rest)"
proof (cases "match_assignment line")
  case (Some kv)
  obtain key v where kv: "kv = (key, v)" by (cases kv)
  consider "starts_with key ''#''" | "\<not> starts_with key ''#''" "v = [] \<or> hd v \<notin> {CHR 0x27, CHR 0x22}"
    | "\<not> starts_with key ''#''" "v \<noteq> []" "hd v \<in> {CHR 0x27, CHR 0x22}" by blast
  then show ?thesis
  proof cases
    case 3
    then show ?thesis using Some kv by (cases "scan_quoted (hd v) False (tl v)") auto
  qed (use Some kv in auto)
qed auto

lemma items_concat:
  "items_from None ls = Inr its \<Longrightarrow> concat (map snd its) = ls"
  "items_from (Some (p, acc)) ls = Inr its \<Longrightarrow> concat (map snd its) = acc @ ls"
proof (induction ls arbitrary: its p acc)
  case (Cons line ls)
  { case 1
    from items_first [of line] show ?case
    proof (elim disjE exE)
      fix k assume "\<forall>rest. items_from None (line # rest) = map_sum id ((#) (k, [line])) (items_from None rest)"
      then have "map_sum id ((#) (k, [line])) (items_from None ls) = Inr its" using 1 by metis
      then obtain its' where "items_from None ls = Inr its'" "its = (k, [line]) # its'"
        by (cases "items_from None ls") auto
      with Cons(1) show ?thesis by simp
    next
      fix q assume "\<forall>rest. items_from None (line # rest) = items_from (Some (q, [line])) rest"
      then have "items_from (Some (q, [line])) ls = Inr its" using 1 by metis
      then show ?thesis using Cons(2) by fastforce
    qed }
  { case 2
    show ?case
    proof (cases "scan_quoted (quote_mark p) (after_backslash p) line")
      case None
      then obtain its' where "items_from None ls = Inr its'" "its = (Some (quoted_key p), acc @ [line]) # its'"
        using 2 by (cases "items_from None ls") auto
      with Cons(1) show ?thesis by simp
    next
      case (Some esc)
      then have "items_from (Some (p\<lparr>after_backslash := esc\<rparr>, acc @ [line])) ls = Inr its" using 2 by simp
      then show ?thesis using Cons(2) by fastforce
    qed }
qed auto

text \<open>An item is read on its own, whatever follows it.\<close>

definition alone :: "env_item \<Rightarrow> bool" where
  "alone it \<longleftrightarrow> snd it \<noteq> [] \<and> (\<forall>rest. items_from None (snd it @ rest) = map_sum id ((#) it) (items_from None rest))"

lemma items_alone:
  "items_from None ls = Inr its \<Longrightarrow> list_all alone its"
  "\<lbrakk>items_from (Some (p, acc)) ls = Inr its;
    \<forall>rest. items_from None (acc @ rest) = items_from (Some (p, acc)) rest\<rbrakk> \<Longrightarrow> list_all alone its"
proof (induction ls arbitrary: its p acc)
  case (Cons line ls)
  { case 1
    from items_first [of line] show ?case
    proof (elim disjE exE)
      fix k assume k: "\<forall>rest. items_from None (line # rest) = map_sum id ((#) (k, [line])) (items_from None rest)"
      then have "map_sum id ((#) (k, [line])) (items_from None ls) = Inr its" using 1 by metis
      then obtain its' where "items_from None ls = Inr its'" "its = (k, [line]) # its'"
        by (cases "items_from None ls") auto
      moreover have "alone (k, [line])" using k by (simp add: alone_def del: items_from.simps)
      ultimately show ?thesis using Cons(1) by simp
    next
      fix q assume q: "\<forall>rest. items_from None (line # rest) = items_from (Some (q, [line])) rest"
      then have "items_from (Some (q, [line])) ls = Inr its" using 1 by metis
      moreover have "\<forall>rest. items_from None ([line] @ rest) = items_from (Some (q, [line])) rest" using q by simp
      ultimately show ?thesis using Cons(2) by blast
    qed }
  { case 2
    show ?case
    proof (cases "scan_quoted (quote_mark p) (after_backslash p) line")
      case None
      then obtain its' where i: "items_from None ls = Inr its'" "its = (Some (quoted_key p), acc @ [line]) # its'"
        using 2(1) by (cases "items_from None ls") auto
      have "alone (Some (quoted_key p), acc @ [line])"
        using 2(2) None by (simp add: alone_def)
      with Cons(1) i show ?thesis by auto
    next
      case (Some esc)
      have "items_from (Some (p\<lparr>after_backslash := esc\<rparr>, acc @ [line])) ls = Inr its" using 2(1) Some by simp
      moreover have "\<forall>rest. items_from None ((acc @ [line]) @ rest) = items_from (Some (p\<lparr>after_backslash := esc\<rparr>, acc @ [line])) rest"
        using 2(2) Some by simp
      ultimately show ?thesis using Cons(2) by blast
    qed }
qed auto

lemma items_of_alone: "list_all alone its \<Longrightarrow> items (concat (map snd its)) = Inr its"
  unfolding items_def by (induction its) (auto simp: alone_def)

lemma items_parts:
  assumes "items ls = Inr its"
  shows "concat (map snd its) = ls" "list_all alone its"
  using assms items_concat(1) items_alone(1) unfolding items_def by auto

section \<open>Lines that are written\<close>

definition env_key :: "pystr \<Rightarrow> bool" where
  "env_key k \<longleftrightarrow> k \<noteq> [] \<and> list_all (\<lambda>c. c \<noteq> CHR ''='' \<and> \<not> is_space c) k \<and> hd k \<noteq> CHR ''#''"

definition assigned :: "pystr \<times> pystr \<Rightarrow> env_item" where
  "assigned kv = (Some (fst kv), [value_line (fst kv) (snd kv)])"

lemma blank_space: "blank_c c \<Longrightarrow> is_space c"
  by (auto simp: blank_c_def is_space_def ord_c_def)

lemma key_value_line:
  assumes "env_key k" "safe_value v"
  shows "key_value (value_line k v) = Some (k, v @ [CHR 0x0A])"
proof -
  have t: "takeWhile (\<lambda>c. c \<noteq> CHR ''='' \<and> \<not> is_space c) (value_line k v) = k"
    using assms(1) by (simp add: value_line_def env_key_def takeWhile_append2 list_all_iff)
  have "dropWhile blank_c (v @ [CHR 0x0A]) = v @ [CHR 0x0A]"
  proof (cases v)
    case (Cons c w)
    then have "\<not> blank_c c" using assms(2)
      by (auto simp: safe_value_def blank_c_def is_upper_ascii_def is_lower_ascii_def is_digit_def ord_c_def)
    with Cons show ?thesis by simp
  qed (simp add: blank_c_def)
  then show ?thesis using assms(1) unfolding key_value_def t Let_def
    by (simp add: value_line_def env_key_def blank_c_def)
qed

lemma match_value_line:
  assumes "env_key k" "safe_value v"
  shows "match_assignment (value_line k v) = Some (k, v @ [CHR 0x0A])"
proof -
  obtain c m where k: "k = c # m" using assms(1) by (cases k) (auto simp: env_key_def)
  have sp: "list_all (\<lambda>c. \<not> blank_c c) k" using assms(1) blank_space by (auto simp: env_key_def list_all_iff)
  then have s: "dropWhile blank_c (value_line k v) = value_line k v" by (simp add: k value_line_def)
  have "\<not> blank_c (hd (drop 6 (value_line k v)))" if e: "starts_with (value_line k v) ''export''"
  proof (cases "length k < 6")
    case True
    then have "CHR ''='' \<in> set (take 6 (value_line k v))" by (simp add: value_line_def take_Cons' split: if_splits)
    moreover have "take 6 (value_line k v) = ''export''" using e by (auto simp: starts_with_iff)
    ultimately show ?thesis by simp
  next
    case False
    then have "drop 6 (value_line k v) = drop 6 k @ ''='' @ v @ [CHR 0x0A]" by (simp add: value_line_def)
    moreover have "drop 6 k = [] \<or> hd (drop 6 k) \<in> set k"
      by (cases "drop 6 k") (auto intro: in_set_dropD [of _ 6])
    ultimately show ?thesis using sp by (cases "drop 6 k = []") (auto simp: list_all_iff blank_c_def)
  qed
  then show ?thesis unfolding match_assignment_def Let_def s key_value_line [OF assms] by auto
qed

lemma assigned_alone:
  assumes "env_key k" "safe_value v"
  shows "alone (assigned (k, v))"
proof -
  have "\<not> starts_with k ''#''" using assms(1) by (cases k) (auto simp: env_key_def)
  moreover have "hd (v @ [CHR 0x0A]) \<notin> {CHR 0x27, CHR 0x22}"
    using assms(2) by (cases v) (auto simp: safe_value_def is_upper_ascii_def is_lower_ascii_def is_digit_def ord_c_def)
  ultimately show ?thesis
    using match_value_line [OF assms] by (auto simp: alone_def assigned_def)
qed

section \<open>Selected values are read back\<close>

definition replaced :: "(pystr \<times> pystr) list \<Rightarrow> env_item \<Rightarrow> env_item" where
  "replaced vs it = (case fst it of
     None \<Rightarrow> it
   | Some k \<Rightarrow> (case map_of vs k of None \<Rightarrow> it | Some v \<Rightarrow> assigned (k, v)))"

definition missing_values :: "(pystr \<times> pystr) list \<Rightarrow> env_item list \<Rightarrow> (pystr \<times> pystr) list" where
  "missing_values vs its = filter (\<lambda>kv. Some (fst kv) \<notin> set (map fst its)) vs"

fun edits :: "(pystr \<times> pystr) list \<Rightarrow> nat \<Rightarrow> env_item list \<Rightarrow> (nat \<times> nat \<times> pystr) list" where
  "edits vs i [] = []"
| "edits vs i ((k, seg) # its) =
     (case (case k of None \<Rightarrow> None | Some key \<Rightarrow> map_option (value_line key) (map_of vs key)) of
        None \<Rightarrow> edits vs (i + length seg) its
      | Some t \<Rightarrow> (i, i + length seg - 1, t) # edits vs (i + length seg) its)"

lemma edits_splice:
  assumes "\<forall>it \<in> set its. snd it \<noteq> []"
  shows "foldl (\<lambda>ls r. splice r ls) (pre @ concat (map snd its)) (rev (edits vs (length pre) its)) =
    pre @ concat (map (\<lambda>it. snd (replaced vs it)) its)"
  using assms
proof (induction its arbitrary: pre)
  case (Cons it its)
  obtain k seg where it: "it = (k, seg)" by (cases it)
  have IH: "foldl (\<lambda>ls r. splice r ls) (pre @ seg @ concat (map snd its)) (rev (edits vs (length pre + length seg) its)) =
      pre @ seg @ concat (map (\<lambda>it. snd (replaced vs it)) its)"
    using Cons(1) [of "pre @ seg"] Cons(2) by simp
  have "seg \<noteq> []" using Cons(2) it by simp
  then have l: "Suc (length pre + length seg - 1) = length pre + length seg" by (cases seg) auto
  show ?case
    using IH l by (auto simp: it replaced_def assigned_def splice_def split: option.splits)
qed simp

lemma edits_starts: "(s, e, t) \<in> set (edits vs i its) \<Longrightarrow> i \<le> s"
  by (induction vs i its rule: edits.induct) (fastforce split: option.splits)+

lemma edits_sorted: "\<forall>it \<in> set its. snd it \<noteq> [] \<Longrightarrow> sorted (map fst (edits vs i its)) \<and> distinct (map fst (edits vs i its))"
proof (induction vs i its rule: edits.induct)
  case (2 vs i k seg its)
  have "seg \<noteq> []" using 2(3) by simp
  then have "s > i" if "(s, e, t) \<in> set (edits vs (i + length seg) its)" for s e t
    using edits_starts [OF that] by (cases seg) auto
  then have "\<forall>x \<in> set (map fst (edits vs (i + length seg) its)). i < x" by auto
  with 2 show ?case by (auto split: option.splits intro: less_imp_le)
qed simp

lemma edits_set: "(s, e, t) \<in> set (edits vs i its) \<longleftrightarrow>
    (\<exists>k v. (k, s, e) \<in> set (spans_of i its) \<and> map_of vs k = Some v \<and> t = value_line k v)"
  by (induction vs i its rule: edits.induct) (auto split: option.splits)

lemma spans_starts: "(k, s, e) \<in> set (spans_of i its) \<Longrightarrow> i \<le> s"
  by (induction i its rule: spans_of.induct) fastforce+

lemma spans_start_inject:
  "\<lbrakk>\<forall>it \<in> set its. snd it \<noteq> []; (k, s, e) \<in> set (spans_of i its); (k', s, e') \<in> set (spans_of i its)\<rbrakk> \<Longrightarrow>
    k = k' \<and> e = e'"
proof (induction i its rule: spans_of.induct)
  case (3 i key seg its)
  have "seg \<noteq> []" using 3(2) by simp
  then have "i < s" if "(a, s, b) \<in> set (spans_of (i + length seg) its)" for a s b
    using spans_starts [OF that] by (cases seg) auto
  with 3 show ?case by fastforce
qed auto

lemma spans_keys: "k \<in> fst ` set (spans_of i its) \<longleftrightarrow> Some k \<in> set (map fst its)"
  by (induction i its rule: spans_of.induct) auto

lemma plan_values_result:
  assumes "plan_values (spans_of 0 its) vs = Inr (rs, as)" "distinct (map fst vs)" "\<forall>it \<in> set its. snd it \<noteq> []"
  shows "list_all safe_value (map snd vs) \<and> distinct (map fst rs) \<and>
    set rs = {(s, e, t). \<exists>k v. (k, s, e) \<in> set (spans_of 0 its) \<and> (k, v) \<in> set vs \<and> t = value_line k v} \<and>
    as = map (\<lambda>(k, v). value_line k v) (missing_values vs its)"
  using assms
proof (induction vs arbitrary: rs as)
  case Nil
  then show ?case by (simp add: missing_values_def)
next
  case (Cons kv vs)
  obtain k v where kv: "kv = (k, v)" by (cases kv)
  obtain rs' as' where p: "plan_values (spans_of 0 its) vs = Inr (rs', as')" and safe: "safe_value v"
    using Cons(2) kv by (cases "plan_values (spans_of 0 its) vs") (auto split: if_splits list.splits)
  note IH = Cons(1) [OF p] Cons(3,4)
  have new: "k \<notin> fst ` set vs" using Cons(3) kv by simp
  define f where "f = filter (\<lambda>s. fst s = k) (spans_of 0 its)"
  have f: "x \<in> set f \<longleftrightarrow> x \<in> set (spans_of 0 its) \<and> fst x = k" for x by (auto simp: f_def)
  have plan: "plan_values (spans_of 0 its) ((k, v) # vs) = (case f of
      [] \<Rightarrow> Inr (rs', value_line k v # as')
    | [s] \<Rightarrow> Inr ((fst (snd s), snd (snd s), value_line k v) # rs', as')
    | _ \<Rightarrow> Inl Duplicate_assignment)"
    using p safe by (simp add: f_def split: list.split)
  consider "f = []" "rs = rs'" "as = value_line k v # as'"
    | s e where "f = [(k, s, e)]" "rs = (s, e, value_line k v) # rs'" "as = as'"
  proof (cases f)
    case Nil
    with Cons(2) kv plan that(1) show ?thesis by simp
  next
    case (Cons x xs)
    with \<open>plan_values (spans_of 0 its) (kv # vs) = Inr (rs, as)\<close> kv plan have "xs = []" by (cases xs) auto
    moreover have "fst x = k" using f [of x] Cons by simp
    ultimately show ?thesis
      using \<open>plan_values (spans_of 0 its) (kv # vs) = Inr (rs, as)\<close> kv plan Cons that(2) by (cases x) auto
  qed
  then show ?case
  proof cases
    case 1
    then have no: "(k, a, b) \<notin> set (spans_of 0 its)" for a b using f [of "(k, a, b)"] by simp
    then have "k \<notin> fst ` set (spans_of 0 its)" by force
    then show ?thesis using 1 IH safe kv spans_keys [of k 0 its] Cons(3) no
      by (auto simp: missing_values_def)
  next
    case 2
    have m: "(k, s, e) \<in> set (spans_of 0 its)" using f [of "(k, s, e)"] 2(1) by simp
    have one: "a = s \<and> b = e" if "(k, a, b) \<in> set (spans_of 0 its)" for a b
      using f [of "(k, a, b)"] 2(1) that by simp
    from m have key: "Some k \<in> set (map fst its)" using spans_keys [of k 0 its] by force
    have "s \<notin> fst ` set rs'"
    proof
      assume "s \<in> fst ` set rs'"
      then obtain e' t where "(s, e', t) \<in> set rs'" by auto
      moreover have "set rs' = {(s, e, t). \<exists>k v. (k, s, e) \<in> set (spans_of 0 its) \<and> (k, v) \<in> set vs \<and> t = value_line k v}"
        using IH Cons(3) by simp
      ultimately obtain k' v' where k': "(k', s, e') \<in> set (spans_of 0 its)" "(k', v') \<in> set vs" by blast
      then have "k' = k" using spans_start_inject [OF Cons(4) m] by blast
      with k'(2) new show False by force
    qed
    moreover have "set rs = {(s, e, t). \<exists>k' v'. (k', s, e) \<in> set (spans_of 0 its) \<and> (k', v') \<in> set (kv # vs) \<and> t = value_line k' v'}"
    proof -
      have "set rs' = {(s, e, t). \<exists>k v. (k, s, e) \<in> set (spans_of 0 its) \<and> (k, v) \<in> set vs \<and> t = value_line k v}"
        using IH Cons(3) by simp
      moreover have "(k', x, y) \<in> set (spans_of 0 its) \<and> (k', v') \<in> set (kv # vs) \<and> t = value_line k' v' \<longleftrightarrow>
          (k' = k \<and> v' = v \<and> x = s \<and> y = e \<and> t = value_line k v) \<or>
          (k', x, y) \<in> set (spans_of 0 its) \<and> (k', v') \<in> set vs \<and> t = value_line k' v'" for k' v' x y t
        using m one [of x y] by (auto simp: kv)
      ultimately show ?thesis unfolding 2(2) by (simp only: list.set) blast
    qed
    moreover have "as = map (\<lambda>(k, v). value_line k v) (missing_values (kv # vs) its)"
      using IH Cons(3) 2(3) key by (simp add: missing_values_def kv)
    ultimately show ?thesis using IH Cons(3) safe 2(2) by (simp add: kv)
  qed
qed


lemma sort_key_unique:
  assumes "set xs = set ys" "distinct (map f xs)" "distinct (map f ys)" "sorted (map f ys)"
  shows "sort_key f xs = ys"
proof -
  have "map f (sort_key f xs) = map f ys"
    using assms by (intro sorted_distinct_set_unique) (simp_all add: distinct_map)
  moreover have "inj_on f (set (sort_key f xs) \<union> set ys)" using assms(1,3) by (simp add: distinct_map)
  ultimately show ?thesis by (rule map_inj_on)
qed

lemma last_line_kept:
  assumes "\<forall>it \<in> set its. snd it \<noteq> []" "its \<noteq> [] \<longrightarrow> ends_with (last (concat (map snd its))) [CHR 0x0A]"
  shows "concat (map (\<lambda>it. snd (replaced vs it)) its) \<noteq> [] \<longrightarrow> ends_with (last (concat (map (\<lambda>it. snd (replaced vs it)) its))) [CHR 0x0A]"
proof (cases its rule: rev_cases)
  case (snoc init it)
  have n: "snd (replaced vs it) \<noteq> []" "snd it \<noteq> []"
    using assms(1) snoc by (auto simp: replaced_def assigned_def split: option.splits)
  have "ends_with (last (snd (replaced vs it))) [CHR 0x0A]"
    using assms(2) n snoc
    by (auto simp: replaced_def assigned_def value_line_def ends_with_iff last_append split: option.splits)
  then show ?thesis using n snoc by (simp add: last_append)
qed simp

text \<open>
  C36 (roundtrip). Values that are selected are read back: when a file that ends with a line end is edited,
  reading the edited lines gives the items of the file in their order, with the one assignment of each
  selected key, quoted values over several lines included, replaced by the selected value, and the keys
  that were missing added at the end; every other line, comments and other assignments, is as before.
\<close>

theorem selected_values_read_back:
  assumes "selected_lines ls vs = Inr out" "distinct (map fst vs)" "list_all env_key (map fst vs)"
    and "ls \<noteq> [] \<longrightarrow> ends_with (last ls) [CHR 0x0A]"
  shows "\<exists>its. items ls = Inr its \<and> items out = Inr (map (replaced vs) its @ map assigned (missing_values vs its))"
proof -
  obtain its where its: "items ls = Inr its"
    using assms(1) assignments_items(1) [of 0 ls]
    by (cases "items_from None ls") (auto simp: selected_lines_def environment_assignments_def items_def)
  note parts = items_parts [OF its]
  have ne: "\<forall>it \<in> set its. snd it \<noteq> []" using parts(2) by (auto simp: list_all_iff alone_def)
  have spans: "environment_assignments ls = Inr (spans_of 0 its)"
    using its assignments_items(1) [of 0 ls] by (simp add: environment_assignments_def items_def)
  obtain rs as where plan: "plan_values (spans_of 0 its) vs = Inr (rs, as)"
    using assms(1) spans by (cases "plan_values (spans_of 0 its) vs") (auto simp: selected_lines_def)
  note plan_facts = plan_values_result [OF plan assms(2) ne]
  have "x \<in> set rs \<longleftrightarrow> x \<in> set (edits vs 0 its)" for x
  proof (cases x)
    case (fields a b c)
    show ?thesis unfolding fields edits_set map_of_eq_Some_iff [OF assms(2)] using plan_facts by blast
  qed
  then have "set rs = set (edits vs 0 its)" by blast
  then have sorted: "sort_key fst rs = edits vs 0 its"
    using plan_facts edits_sorted [OF ne, of vs 0] by (intro sort_key_unique) auto
  define new where "new = concat (map (\<lambda>it. snd (replaced vs it)) its)"
  have "foldl (\<lambda>ls r. splice r ls) ls (rev (sort_key fst rs)) = new"
    using edits_splice [OF ne, of "[]" vs] parts(1) by (simp add: sorted new_def)
  moreover have "new \<noteq> [] \<longrightarrow> ends_with (last new) [CHR 0x0A]"
  proof -
    have "ls \<noteq> []" if "its \<noteq> []" using that parts(1) ne by (cases its) auto
    then show ?thesis unfolding new_def using assms(4) parts(1) ne by (intro last_line_kept) auto
  qed
  ultimately have out: "out = new @ as"
    using assms(1) spans plan by (auto simp: selected_lines_def Let_def)
  have safe: "alone (assigned kv)" if "kv \<in> set vs" for kv
    using plan_facts assms(3) that by (cases kv) (auto simp: list_all_iff intro!: assigned_alone)
  have "list_all alone (map (replaced vs) its @ map assigned (missing_values vs its))"
    using parts(2) safe by (auto simp: list_all_iff replaced_def missing_values_def split: option.splits dest!: map_of_SomeD)
  moreover have "out = concat (map snd (map (replaced vs) its @ map assigned (missing_values vs its)))"
  proof -
    have "as = concat (map (\<lambda>kv. snd (assigned kv)) (missing_values vs its))"
      using plan_facts by (simp add: assigned_def case_prod_beta concat_map_singleton)
    then show ?thesis by (simp add: out new_def comp_def)
  qed
  ultimately show ?thesis using its items_of_alone by metis
qed

lemma selected_values_read_back_witness:
  "\<exists>its. items [''# x'' @ [CHR 0x0A], ''A=1'' @ [CHR 0x0A]] = Inr its \<and>
    items [''# x'' @ [CHR 0x0A], ''A=2'' @ [CHR 0x0A], ''B='' @ [CHR 0x0A]] =
      Inr (map (replaced [(''A'', ''2''), (''B'', [])]) its @ map assigned (missing_values [(''A'', ''2''), (''B'', [])] its))"
  by (rule selected_values_read_back) (code_simp, simp, code_simp, code_simp)

end
