(* ===== verification/Component_Pins.thy ===== *)
theory Component_Pins
  imports Complex_Main PyLines PyData
begin

text \<open>
  The reconciliation of the selected components: \<open>src/tools/components/manage.py\<close>. What git and the
  engine's Compose command print is an argument; every exception ends the command with status 1, it is
  \<open>None\<close> here. The file is its text; the temporary file and its replacement are left out.
\<close>

type_synonym pins = "(pystr \<times> pystr) list"

section \<open>The file of pins\<close>

definition pin_name :: "pystr \<Rightarrow> bool" where
  "pin_name n \<longleftrightarrow> n \<noteq> [] \<and> is_upper_ascii (hd n) \<and> list_all (\<lambda>c. is_upper_ascii c \<or> is_digit c \<or> c = CHR ''_'') (tl n)"

definition skipped_line :: "pystr \<Rightarrow> bool" where
  "skipped_line l \<longleftrightarrow> py_strip l = [] \<or> starts_with (lstrip_by is_space l) ''#''"

definition line_name :: "pystr \<Rightarrow> pystr" where
  "line_name l = fst (partition_c (CHR ''='') l)"

fun pin_lines :: "pins \<Rightarrow> pystr list \<Rightarrow> pins option" where
  "pin_lines vs [] = Some vs"
| "pin_lines vs (l # ls) =
     (if skipped_line l then pin_lines vs ls
      else case partition_c (CHR ''='') l of (n, sep, v) \<Rightarrow>
        if \<not> sep \<or> \<not> pin_name n \<or> n \<in> set (map fst vs) then None else pin_lines (vs @ [(n, v)]) ls)"

definition read_pins :: "pystr \<Rightarrow> pins option" where
  "read_pins text = pin_lines [] (splitlines text)"

definition rewrite_line :: "pins \<Rightarrow> pystr \<Rightarrow> pystr" where
  "rewrite_line changes l = (case map_of changes (line_name l) of None \<Rightarrow> l | Some v \<Rightarrow> line_name l @ ''='' @ v)"

definition write_pins :: "pystr \<Rightarrow> pins \<Rightarrow> pystr option" where
  "write_pins text changes = (case read_pins text of
     None \<Rightarrow> None
   | Some vs \<Rightarrow>
       (if \<not> set (map fst changes) \<subseteq> set (map fst vs) then None
        else Some (join [CHR 0x0A] (map (rewrite_line changes) (splitlines text)) @ [CHR 0x0A])))"

section \<open>Image references\<close>

text \<open>\<open>normalized\<close>, rewriting by rewriting.\<close>

definition with_registry :: "pystr \<Rightarrow> pystr" where
  "with_registry img =
     (let parts = split_on (CHR ''/'') img
      in if length parts = 1 then ''docker.io/library/'' @ img
         else if CHR ''.'' \<notin> set (hd parts) \<and> CHR '':'' \<notin> set (hd parts) \<and> hd parts \<noteq> ''localhost''
         then ''docker.io/'' @ img else img)"

definition without_index :: "pystr \<Rightarrow> pystr" where
  "without_index img = (if starts_with img ''index.docker.io/'' then ''docker.io/'' @ drop 16 img else img)"

definition library_registry :: "pystr \<Rightarrow> pystr" where
  "library_registry img = (if starts_with img ''library/'' then ''docker.io/'' @ img else img)"

definition with_library :: "pystr \<Rightarrow> pystr" where
  "with_library img =
     (if starts_with img ''docker.io/'' \<and> count_list img (CHR ''/'') = 1
      then ''docker.io/library/'' @ drop 10 img else img)"

definition normalized :: "pystr \<Rightarrow> pystr option" where
  "normalized img =
     (if img = [] \<or> CHR ''$'' \<in> set img \<or> list_ex is_space img then None
      else Some (with_library (library_registry (without_index (with_registry img)))))"

definition before_at :: "pystr \<Rightarrow> pystr" where
  "before_at s = fst (partition_c (CHR ''@'') s)"

definition after_at :: "pystr \<Rightarrow> pystr" where
  "after_at s = snd (snd (partition_c (CHR ''@'') s))"

definition repository :: "pystr \<Rightarrow> pystr option" where
  "repository img =
     (let n = before_at img
      in if CHR '':'' \<notin> set (snd (snd (rpartition_c (CHR ''/'') n))) then None
         else Some (fst (rpartition_c (CHR '':'') n)))"

definition hex_lower_c :: "char \<Rightarrow> bool" where
  "hex_lower_c c \<longleftrightarrow> is_digit c \<or> 97 \<le> ord_c c \<and> ord_c c \<le> 102"

definition digest_ok :: "pystr \<Rightarrow> bool" where
  "digest_ok d \<longleftrightarrow> starts_with d ''sha256:'' \<and> length d = 71 \<and> list_all hex_lower_c (drop 7 d)"

text \<open>\<open>inventory.get("registry_digests", {}).get(image)\<close>.\<close>

definition registry_digest :: "(pystr \<times> json) list \<Rightarrow> pystr \<Rightarrow> json option" where
  "registry_digest inventory img = (case map_of inventory ''registry_digests'' of
     None \<Rightarrow> Some JNull
   | Some (JObj m) \<Rightarrow> Some (jget m img)
   | Some _ \<Rightarrow> None)"

definition reviewed_reference :: "pystr \<Rightarrow> (pystr \<times> json) list \<Rightarrow> bool \<Rightarrow> pystr option" where
  "reviewed_reference img inventory required = (case normalized img of
     None \<Rightarrow> None
   | Some img \<Rightarrow>
       (if CHR ''@'' \<in> set img then (if digest_ok (after_at img) then Some img else None)
        else case registry_digest inventory img of
          None \<Rightarrow> None
        | Some JNull \<Rightarrow> if required then None else Some img
        | Some (JStr d) \<Rightarrow> if digest_ok d then Some (img @ ''@'' @ d) else None
        | Some _ \<Rightarrow> None))"

definition commit_ok :: "pystr \<Rightarrow> bool" where
  "commit_ok s \<longleftrightarrow> length s = 40 \<and> list_all hex_lower_c s"

definition reviewed_onyx_source :: "pystr \<Rightarrow> (pystr \<times> json) list \<Rightarrow> pystr option" where
  "reviewed_onyx_source ref inventory =
     (case (case map_of inventory ''compatibility'' of None \<Rightarrow> Some [] | Some (JObj m) \<Rightarrow> Some m | Some _ \<Rightarrow> None) of
        None \<Rightarrow> None
      | Some m \<Rightarrow>
          (if jget m ''onyx'' \<noteq> JStr ref then Some ref
           else case jget m ''onyx_source'' of
             JStr s \<Rightarrow> if commit_ok s then Some s else None
           | _ \<Rightarrow> None))"

section \<open>Reconciliation with the owner\<close>

text \<open>One service: the pin that is to follow it, if any; \<open>None\<close> is an error.\<close>

definition image_of :: "json \<Rightarrow> pystr option" where
  "image_of service = (case service of
     JObj m \<Rightarrow> (case map_of m ''image'' of Some (JStr s) \<Rightarrow> normalized s | _ \<Rightarrow> None)
   | _ \<Rightarrow> None)"

definition compatible :: "(pystr \<times> json) list \<Rightarrow> pins \<Rightarrow> pystr \<Rightarrow> pystr \<Rightarrow> bool" where
  "compatible inventory vs img repo = (case jget inventory ''compatibility'' of
     JObj d \<Rightarrow>
       (case (map_of vs ''ONYX_IMAGE_TAG'', jget d ''default'', jget d ''artifacts'') of
          (Some tag, JStr de, JObj artifacts) \<Rightarrow>
            JStr tag = jget d ''onyx'' \<and> img = repo @ '':'' @ de \<and>
            list_all (\<lambda>k. \<exists>v \<in> set_option (map_of vs k). JStr v = jget d ''selected'')
              [''CODE_INTERPRETER_IMAGE_TAG'', ''PYTHON_EXECUTOR_IMAGE_TAG''] \<and>
            list_all (\<lambda>(k, a). \<exists>v \<in> set_option (map_of vs k). \<exists>i \<in> set_option (normalized v). JStr i = a) artifacts
        | _ \<Rightarrow> False)
   | _ \<Rightarrow> False)"

definition reconcile_service ::
  "(pystr \<times> json) list \<Rightarrow> (pystr \<times> json) list \<Rightarrow> pins \<Rightarrow> pystr \<Rightarrow> (pystr \<times> json) list \<Rightarrow> (pystr \<times> pystr) option option" where
  "reconcile_service services inventory vs service contract =
     (case (image_of (jget services service), jget contract ''repository'') of
        (Some img, JStr repo) \<Rightarrow>
          (let application = \<not> json_falsy (jget contract ''application'');
               inherited = \<not> json_falsy (jget contract ''inherited'')
           in if repository img \<noteq> Some repo then None
              else if application \<and>
                (case map_of vs ''ONYX_IMAGE_TAG'' of None \<Rightarrow> True | Some tag \<Rightarrow> \<not> ends_with img ('':'' @ tag)) then None
              else if (application \<or> inherited) \<and> reviewed_reference img inventory True = None then None
              else if \<not> json_falsy (jget contract ''compatibility'') \<and> \<not> compatible inventory vs img repo then None
              else case map_of contract ''copy'' of
                None \<Rightarrow> Some None
              | Some (JStr key) \<Rightarrow>
                  (case Option.bind (map_of vs key) normalized of
                     None \<Rightarrow> None
                   | Some current \<Rightarrow>
                       (if current = img \<or> CHR ''@'' \<notin> set img \<and> before_at current = img then Some None
                        else if map_of contract ''source'' \<noteq> None then None
                        else Some (Some (key, img))))
              | Some _ \<Rightarrow> None)
      | _ \<Rightarrow> None)"

fun reconcile_all ::
  "(pystr \<times> json) list \<Rightarrow> (pystr \<times> json) list \<Rightarrow> pins \<Rightarrow> (pystr \<times> json) list \<Rightarrow> pins \<Rightarrow> pins option" where
  "reconcile_all services inventory vs [] changes = Some changes"
| "reconcile_all services inventory vs ((service, contract) # rest) changes =
     (case (case contract of JObj c \<Rightarrow> reconcile_service services inventory vs service c | _ \<Rightarrow> None) of
        None \<Rightarrow> None
      | Some None \<Rightarrow> reconcile_all services inventory vs rest changes
      | Some (Some (k, img)) \<Rightarrow> reconcile_all services inventory vs rest (put k img changes))"

definition reconcile :: "(pystr \<times> json) list \<Rightarrow> (pystr \<times> json) list \<Rightarrow> pins \<Rightarrow> pins option" where
  "reconcile model inventory vs =
     (case (if map_of model ''services'' = None then JObj [] else jget model ''services'', jget inventory ''onyx_services'') of
        (JObj services, JObj contracts) \<Rightarrow>
          (if set (map fst services) \<noteq> set (map fst contracts) then None
           else reconcile_all services inventory vs contracts [])
      | _ \<Rightarrow> None)"

section \<open>Refresh generations\<close>

definition days_in :: "nat \<Rightarrow> nat \<Rightarrow> nat" where
  "days_in y m = (if m = 2 then (if y mod 4 = 0 \<and> (y mod 100 \<noteq> 0 \<or> y mod 400 = 0) then 29 else 28)
     else if m \<in> {4, 6, 9, 11} then 30 else 31)"

text \<open>\<open>datetime.strptime(date, "%Y%m%d")\<close> on eight digits.\<close>

definition calendar_date :: "pystr \<Rightarrow> bool" where
  "calendar_date d =
     (let y = dec_nat (take 4 d); m = dec_nat (take 2 (drop 4 d)); k = dec_nat (drop 6 d)
      in 1 \<le> y \<and> 1 \<le> m \<and> m \<le> 12 \<and> 1 \<le> k \<and> k \<le> days_in y m)"

definition revision_tuple :: "pystr \<Rightarrow> (pystr \<times> nat) option" where
  "revision_tuple v =
     (case partition_c (CHR ''.'') v of (date, sep, sequence) \<Rightarrow>
        if length date = 8 \<and> list_all is_digit date \<and>
          (sep \<longrightarrow> sequence \<noteq> [] \<and> list_all is_digit sequence \<and> hd sequence \<noteq> CHR ''0'') \<and>
          calendar_date date \<and> length sequence \<le> max_str_digits
        then Some (date, dec_nat sequence) else None)"

definition next_revision :: "pystr \<Rightarrow> pystr \<Rightarrow> pystr option" where
  "next_revision current date =
     (case revision_tuple current of
        None \<Rightarrow> None
      | Some (d, n) \<Rightarrow>
          (if date < d then None
           else Some (date @ ''.'' @ nat_str (if starts_with current date then n + 1 else 1))))"

definition revision_key :: pystr where
  "revision_key = ''OS_SECURITY_UPDATE_REVISION''"

text \<open>The order of Python's tuples.\<close>

definition newer :: "pystr \<times> nat \<Rightarrow> pystr \<times> nat \<Rightarrow> bool" where
  "newer a b \<longleftrightarrow> fst b < fst a \<or> fst a = fst b \<and> snd b < snd a"

text \<open>The committed file, read leniently: later lines win.\<close>

fun committed_pins :: "pystr list \<Rightarrow> pins option" where
  "committed_pins [] = Some []"
| "committed_pins (l # ls) =
     (if l = [] \<or> starts_with l ''#'' then committed_pins ls
      else case partition_c (CHR ''='') l of (n, sep, v) \<Rightarrow>
        if \<not> sep then None else map_option (\<lambda>vs. vs @ [(n, v)]) (committed_pins ls))"

definition check_revision :: "pystr \<Rightarrow> pystr list \<Rightarrow> pins \<Rightarrow> pystr list \<Rightarrow> pystr list \<Rightarrow> bool" where
  "check_revision old changed vs directories files =
     (case committed_pins (splitlines old) of
        None \<Rightarrow> False
      | Some previous \<Rightarrow>
          list_ex (\<lambda>p. p \<in> set files \<or> list_ex (starts_with p) directories) changed \<longrightarrow>
          (case (Option.bind (map_of vs revision_key) revision_tuple,
                 Option.bind (map_of previous revision_key) revision_tuple) of
             (Some a, Some b) \<Rightarrow> newer a b
           | _ \<Rightarrow> False))"

section \<open>Normal forms\<close>

lemma split_parts:
  "hd (split_on c s) = takeWhile (\<lambda>x. x \<noteq> c) s" "length (split_on c s) = 1 \<longleftrightarrow> c \<notin> set s"
proof -
  have "hd (split_on c s) = takeWhile (\<lambda>x. x \<noteq> c) s \<and> (length (split_on c s) = 1 \<longleftrightarrow> c \<notin> set s)"
  proof (cases "c \<in> set s")
    case True
    then obtain a b where s: "s = a @ c # b" "c \<notin> set a" by (metis split_list_first)
    then show ?thesis by (simp add: split_on_append)
  next
    case False
    then have t: "takeWhile (\<lambda>x. x \<noteq> c) s = s" by (auto simp: takeWhile_eq_all_conv)
    show ?thesis unfolding t using False by (simp add: split_on_single)
  qed
  then show "hd (split_on c s) = takeWhile (\<lambda>x. x \<noteq> c) s" "length (split_on c s) = 1 \<longleftrightarrow> c \<notin> set s" by auto
qed

text \<open>The first part names a registry.\<close>

definition first_part :: "pystr \<Rightarrow> pystr" where
  "first_part s = takeWhile (\<lambda>x. x \<noteq> CHR ''/'') s"

definition registry_part :: "pystr \<Rightarrow> bool" where
  "registry_part h \<longleftrightarrow> CHR ''.'' \<in> set h \<or> CHR '':'' \<in> set h \<or> h = ''localhost''"

lemma with_registry_alt:
  "with_registry s = (if CHR ''/'' \<notin> set s then ''docker.io/library/'' @ s
     else if registry_part (first_part s) then s else ''docker.io/'' @ s)"
  unfolding with_registry_def Let_def split_parts first_part_def registry_part_def by auto

definition settled :: "pystr \<Rightarrow> bool" where
  "settled t \<longleftrightarrow> CHR ''/'' \<in> set t \<and> registry_part (first_part t) \<and>
     \<not> starts_with t ''index.docker.io/'' \<and> \<not> (starts_with t ''docker.io/'' \<and> count_list t (CHR ''/'') = 1)"

definition bare_ok :: "pystr \<Rightarrow> bool" where
  "bare_ok s \<longleftrightarrow> s \<noteq> [] \<and> CHR ''$'' \<notin> set s \<and> \<not> list_ex is_space s"

lemma no_library: "registry_part (first_part t) \<Longrightarrow> \<not> starts_with t ''library/''"
  by (auto simp: starts_with_iff registry_part_def first_part_def)

lemma settled_stable:
  assumes "settled t" "bare_ok t"
  shows "normalized t = Some t"
proof -
  have "with_registry t = t" "without_index t = t" "with_library t = t"
    using assms(1) by (auto simp: settled_def with_registry_alt without_index_def with_library_def)
  moreover have "library_registry t = t" using assms(1) no_library by (simp add: settled_def library_registry_def)
  ultimately show ?thesis using assms(2) by (simp add: normalized_def bare_ok_def)
qed

lemma docker_settled: "CHR ''/'' \<in> set r \<Longrightarrow> settled (''docker.io/'' @ r)"
  by (auto simp: settled_def registry_part_def first_part_def count_list_0_iff)

lemma docker_io_parts: "\<not> list_ex is_space ''docker.io/library/''" "CHR ''$'' \<notin> set ''docker.io/library/''"
    "\<not> list_ex is_space ''docker.io/''" "CHR ''$'' \<notin> set ''docker.io/''"
  by code_simp+

lemma docker_bare: "\<not> list_ex is_space r \<and> CHR ''$'' \<notin> set r \<Longrightarrow> bare_ok (''docker.io/'' @ r) \<and> bare_ok (''docker.io/library/'' @ r)"
  using docker_io_parts unfolding bare_ok_def by (simp only: list_ex_append set_append) auto

lemma docker_library:
  assumes "\<not> list_ex is_space r \<and> CHR ''$'' \<notin> set r"
  shows "settled (with_library (''docker.io/'' @ r)) \<and> bare_ok (with_library (''docker.io/'' @ r))"
proof (cases "CHR ''/'' \<in> set r")
  case True
  then have "with_library (''docker.io/'' @ r) = ''docker.io/'' @ r" by (simp add: with_library_def count_list_0_iff)
  then show ?thesis using docker_settled [OF True] docker_bare [OF assms] by simp
next
  case False
  then have "with_library (''docker.io/'' @ r) = ''docker.io/library/'' @ r" by (simp add: with_library_def)
  then show ?thesis using docker_settled [of "''library/'' @ r"] docker_bare [OF assms] by simp
qed

lemma unprefixed:
  assumes "registry_part (first_part s)" "CHR ''/'' \<in> set s" "bare_ok s"
  shows "settled (with_library (without_index s)) \<and> bare_ok (with_library (without_index s))"
proof -
  consider b where "s = ''index.docker.io/'' @ b" | b where "\<not> starts_with s ''index.docker.io/''" "s = ''docker.io/'' @ b"
    | "\<not> starts_with s ''index.docker.io/''" "\<not> starts_with s ''docker.io/''"
    unfolding starts_with_iff by blast
  then show ?thesis
  proof cases
    case 1
    then have "without_index s = ''docker.io/'' @ b" by (simp add: without_index_def)
    moreover have "\<not> list_ex is_space b \<and> CHR ''$'' \<notin> set b" using assms(3) 1 by (auto simp: bare_ok_def)
    ultimately show ?thesis using docker_library by metis
  next
    case 2
    then have "without_index s = ''docker.io/'' @ b" by (simp add: without_index_def)
    moreover have "\<not> list_ex is_space b \<and> CHR ''$'' \<notin> set b" using assms(3) 2 by (auto simp: bare_ok_def)
    ultimately show ?thesis using docker_library by metis
  next
    case 3
    then have "with_library (without_index s) = s" by (simp add: without_index_def with_library_def)
    with 3 assms show ?thesis by (simp add: settled_def)
  qed
qed

lemma normalized_settled:
  assumes "normalized s = Some t"
  shows "settled t \<and> bare_ok t"
proof -
  have s: "bare_ok s" and t: "t = with_library (library_registry (without_index (with_registry s)))"
    using assms by (auto simp: normalized_def bare_ok_def split: if_splits)
  then have ns: "\<not> list_ex is_space s \<and> CHR ''$'' \<notin> set s" by (simp add: bare_ok_def)
  have docker: "with_library (library_registry (without_index (''docker.io/'' @ r))) = ''docker.io/'' @ r"
    if "CHR ''/'' \<in> set r" for r
    using that by (simp add: without_index_def library_registry_def with_library_def count_list_0_iff)
  consider "CHR ''/'' \<notin> set s" | "CHR ''/'' \<in> set s" "\<not> registry_part (first_part s)"
    | "CHR ''/'' \<in> set s" "registry_part (first_part s)" by blast
  then show ?thesis
  proof cases
    case 1
    have "t = ''docker.io/'' @ (''library/'' @ s)"
      using t 1 docker [of "''library/'' @ s"] by (simp add: with_registry_alt)
    then show ?thesis using docker_settled [of "''library/'' @ s"] docker_bare [OF ns] by simp
  next
    case 2
    then have "t = ''docker.io/'' @ s" using t docker by (simp add: with_registry_alt)
    then show ?thesis using docker_settled [OF 2(1)] docker_bare [OF ns] by simp
  next
    case 3
    have "\<not> starts_with (without_index s) ''library/''" using no_library [OF 3(2)] by (simp add: without_index_def)
    then have "t = with_library (without_index s)" using t 3 by (simp add: with_registry_alt library_registry_def)
    then show ?thesis using unprefixed [OF 3(2) 3(1) s] by simp
  qed
qed

text \<open>
  The normal form of an image reference is stable: normalizing it again changes nothing, so
  that references that are compared after normalization are compared in one form.
\<close>

theorem normalized_stable:
  assumes "normalized s = Some t"
  shows "normalized t = Some t"
  using normalized_settled [OF assms] settled_stable by blast

lemma normalized_stable_witness: "normalized ''docker.io/library/nginx:1'' = Some ''docker.io/library/nginx:1''"
  by (rule normalized_stable [of "''index.docker.io/nginx:1''"]) code_simp

section \<open>Pins that are written are read back\<close>

lemma lines_from_no_break:
  "\<lbrakk>l \<in> set (lines_from b acc s); list_all (\<lambda>c. \<not> line_break c) acc\<rbrakk> \<Longrightarrow> list_all (\<lambda>c. \<not> line_break c) l"
  by (induction b acc s rule: lines_from.induct) (auto split: if_splits)

lemma splitlines_no_break: "l \<in> set (splitlines s) \<Longrightarrow> list_all (\<lambda>c. \<not> line_break c) l"
  unfolding splitlines_def by (rule lines_from_no_break) auto

lemma splitlines_join:
  "\<lbrakk>ls \<noteq> []; list_all (list_all (\<lambda>c. \<not> line_break c)) ls\<rbrakk> \<Longrightarrow> splitlines (join [CHR 0x0A] ls @ [CHR 0x0A]) = ls"
proof (induction ls)
  case (Cons l ls)
  show ?case
  proof (cases "ls = []")
    case True
    with Cons(3) splitlines_line [of l "[]"] show ?thesis by simp
  next
    case False
    with Cons show ?thesis by (simp add: join_Cons splitlines_line)
  qed
qed simp

lemma pin_name_start: "pin_name n \<Longrightarrow> n \<noteq> [] \<and> \<not> is_space (hd n) \<and> hd n \<noteq> CHR ''#'' \<and> CHR ''='' \<notin> set n"
  by (cases n) (auto simp: pin_name_def is_upper_ascii_def is_space_def is_digit_def ord_c_def list_all_iff)

text \<open>A line that starts with a pin name is not skipped.\<close>

lemma pin_line_kept:
  assumes "pin_name n"
  shows "\<not> skipped_line (n @ r)"
proof -
  obtain c m where n: "n = c # m" "\<not> is_space c" "c \<noteq> CHR ''#''" using pin_name_start [OF assms] by (cases n) auto
  then have l: "lstrip_by is_space (n @ r) = n @ r" by (simp add: lstrip_by_def)
  have "py_strip (n @ r) \<noteq> []"
    using l n unfolding py_strip_def strip_by_def rstrip_by_def by (auto simp: dropWhile_eq_Nil_conv)
  with l n show ?thesis by (simp add: skipped_line_def)
qed

lemma line_name_prefix: "\<exists>r. l = line_name l @ r"
  by (cases "partition_c (CHR ''='') l") (auto simp: line_name_def partition_c_def split: if_splits intro: takeWhile_dropWhile_id [symmetric])

lemma rewrite_skipped:
  assumes "skipped_line l" "list_all pin_name (map fst changes)"
  shows "rewrite_line changes l = l"
proof (cases "map_of changes (line_name l)")
  case (Some v)
  then have "pin_name (line_name l)" using assms(2) by (force simp: list_all_iff dest: map_of_SomeD)
  then have "\<not> skipped_line l" using pin_line_kept line_name_prefix by metis
  with assms(1) show ?thesis by contradiction
qed (simp add: rewrite_line_def)

definition updated :: "pins \<Rightarrow> pins \<Rightarrow> pins" where
  "updated changes vs = map (\<lambda>(n, v). (n, case map_of changes n of None \<Rightarrow> v | Some w \<Rightarrow> w)) vs"

lemma updated_names [simp]: "map fst (updated changes vs) = map fst vs"
  by (induction vs) (auto simp: updated_def)

lemma updated_append [simp]: "updated changes (vs @ ws) = updated changes vs @ updated changes ws"
  by (simp add: updated_def)

lemma read_rewritten:
  assumes "pin_lines vs ls = Some ws" "list_all pin_name (map fst changes)"
  shows "pin_lines (updated changes vs) (map (rewrite_line changes) ls) = Some (updated changes ws)"
  using assms(1)
proof (induction ls arbitrary: vs)
  case (Cons l ls)
  show ?case
  proof (cases "skipped_line l")
    case True
    with Cons rewrite_skipped [OF True assms(2)] show ?thesis by simp
  next
    case False
    obtain n sep v where p: "partition_c (CHR ''='') l = (n, sep, v)" by (cases "partition_c (CHR ''='') l") auto
    have ok: "sep" "pin_name n" "n \<notin> set (map fst vs)" and r: "pin_lines (vs @ [(n, v)]) ls = Some ws"
      using Cons(2) False p by (auto split: if_splits)
    define w where "w = (case map_of changes n of None \<Rightarrow> v | Some w \<Rightarrow> w)"
    have l: "l = n @ ''='' @ v" using partition_c_join [OF p] ok(1) by simp
    have "rewrite_line changes l = n @ ''='' @ w"
      using p l by (auto simp: rewrite_line_def line_name_def w_def split: option.splits)
    moreover have "partition_c (CHR ''='') (n @ ''='' @ w) = (n, True, w)" using pin_name_start [OF ok(2)] by simp
    moreover have "updated changes (vs @ [(n, v)]) = updated changes vs @ [(n, w)]" by (simp add: updated_def w_def)
    ultimately show ?thesis
      using Cons(1) [OF r] ok pin_line_kept [OF ok(2), of "''='' @ w"] by simp
  qed
qed simp

lemma pin_lines_names: "pin_lines vs ls = Some ws \<Longrightarrow> list_all pin_name (map fst vs) \<Longrightarrow> list_all pin_name (map fst ws)"
  by (induction ls arbitrary: vs) (auto split: if_splits prod.splits)

text \<open>
  Pins that are written are read back: the changed ones with their new values, all others
  unchanged and in their order, comments and blank lines kept, as long as no value holds a line break.
\<close>

theorem written_pins_read_back:
  assumes "read_pins text = Some vs" "write_pins text changes = Some out"
    and "list_all (\<lambda>(k, v). list_all (\<lambda>c. \<not> line_break c) v) changes"
  shows "read_pins out = Some (updated changes vs)"
proof -
  have names: "list_all pin_name (map fst vs)" using pin_lines_names [of "[]"] assms(1) by (simp add: read_pins_def)
  have out: "out = join [CHR 0x0A] (map (rewrite_line changes) (splitlines text)) @ [CHR 0x0A]"
    and sub: "set (map fst changes) \<subseteq> set (map fst vs)"
    using assms(1,2) by (auto simp: write_pins_def split: if_splits)
  have ch: "list_all pin_name (map fst changes)" using names sub unfolding list_all_iff by blast
  have read: "pin_lines [] (map (rewrite_line changes) (splitlines text)) = Some (updated changes vs)"
    using read_rewritten [OF _ ch, of "[]" "splitlines text" vs] assms(1) by (simp add: read_pins_def updated_def)
  show ?thesis
  proof (cases "splitlines text = []")
    case True
    with assms(1) have "vs = []" by (simp add: read_pins_def)
    moreover have "read_pins [CHR 0x0A] = Some []" by code_simp
    ultimately show ?thesis using out True by (simp add: updated_def)
  next
    case False
    have "list_all (list_all (\<lambda>c. \<not> line_break c)) (map (rewrite_line changes) (splitlines text))"
      unfolding list_all_iff [of "list_all (\<lambda>c. \<not> line_break c)"]
    proof
      fix m assume "m \<in> set (map (rewrite_line changes) (splitlines text))"
      then obtain l where l: "l \<in> set (splitlines text)" "m = rewrite_line changes l" by auto
      have nl: "list_all (\<lambda>c. \<not> line_break c) l" using splitlines_no_break [OF l(1)] .
      obtain r where "l = line_name l @ r" using line_name_prefix by blast
      then have "list_all (\<lambda>c. \<not> line_break c) (line_name l)" using nl by (metis list_all_append)
      then show "list_all (\<lambda>c. \<not> line_break c) m"
        using nl assms(3) l(2) by (auto simp: rewrite_line_def list_all_iff line_break_def ord_c_def split: option.splits dest!: map_of_SomeD)
    qed
    with False out splitlines_join read show ?thesis by (simp add: read_pins_def)
  qed
qed


lemma written_pins_read_back_witness:
  "read_pins (''# pins'' @ [CHR 0x0A] @ ''A=2'' @ [CHR 0x0A] @ ''B_1=x'' @ [CHR 0x0A]) = Some [(''A'', ''2''), (''B_1'', ''x'')]"
proof -
  have "read_pins (''# pins'' @ [CHR 0x0A] @ ''A=2'' @ [CHR 0x0A] @ ''B_1=x'' @ [CHR 0x0A]) =
      Some (updated [(''A'', ''2'')] [(''A'', ''1''), (''B_1'', ''x'')])"
    by (rule written_pins_read_back [of "''# pins'' @ [CHR 0x0A] @ ''A=1'' @ [CHR 0x0A] @ ''B_1=x''"]) code_simp+
  then show ?thesis by (simp add: updated_def)
qed

section \<open>Generations\<close>

lemma digits_partition:
  assumes "list_all is_digit d"
  shows "partition_c (CHR ''.'') (d @ CHR ''.'' # r) = (d, True, r)"
  using digit_not_in [OF assms, of "CHR ''.''"] by (simp add: is_digit_def ord_c_def)

lemma nat_str_leading: "0 < n \<Longrightarrow> hd (nat_str n) \<noteq> CHR ''0''"
proof (induction n rule: nat_str.induct)
  case (1 n)
  show ?case
  proof (cases "n < 10")
    case True
    have "\<forall>k \<in> set [1 ..< 10]. char_of (48 + k) \<noteq> CHR ''0''" by code_simp
    then show ?thesis using True 1(2) by (subst nat_str.simps) auto
  next
    case False
    then have "hd (nat_str (n div 10)) \<noteq> CHR ''0''" using 1(1) by simp
    moreover have "hd (nat_str n) = hd (nat_str (n div 10))" using False by (subst nat_str.simps) simp
    ultimately show ?thesis by simp
  qed
qed

text \<open>
  A bump publishes a newer generation: the next revision of the day reads as one that is
  newer than the current one in the order of the revision check, whatever the current sequence number is,
  which therefore accepts it.
\<close>

theorem bump_is_newer:
  assumes "next_revision current date = Some r" "revision_tuple current = Some cur"
    and "length date = 8" "list_all is_digit date" "calendar_date date"
    and "length (nat_str (Suc (snd cur))) \<le> max_str_digits"
  shows "\<exists>next. revision_tuple r = Some next \<and> newer next cur"
proof -
  obtain d0 n where cur: "cur = (d0, n)" by (cases cur)
  obtain sep rest where p: "partition_c (CHR ''.'') current = (d0, sep, rest)" and l: "length d0 = 8"
    using assms(2) cur by (auto simp: revision_tuple_def split: prod.splits if_splits)
  have c: "\<exists>x. current = d0 @ x" using partition_c_join [OF p] by (cases sep) auto
  define k where "k = (if starts_with current date then n + 1 else 1)"
  have r: "r = date @ CHR ''.'' # nat_str k" "\<not> date < d0"
    using assms(1,2) cur by (auto simp: next_revision_def k_def split: if_splits)
  have "length (nat_str k) \<le> max_str_digits"
    using assms(6) cur by (simp add: k_def max_str_digits_def nat_str.simps [of "Suc 0"])
  moreover have "hd (nat_str k) \<noteq> CHR ''0''" by (rule nat_str_leading) (simp add: k_def)
  ultimately have t: "revision_tuple r = Some (date, k)"
    using assms(3,4,5) digits_partition [OF assms(4)] r(1) nat_str_digits by (simp add: revision_tuple_def)
  have "newer (date, k) (d0, n)"
  proof (cases "starts_with current date")
    case True
    then have "date = d0" using c l assms(3) by (auto simp: starts_with_iff append_eq_append_conv)
    with True show ?thesis by (simp add: newer_def k_def)
  next
    case False
    then have "date \<noteq> d0" using c by (auto simp: starts_with_iff)
    with r(2) show ?thesis by (auto simp: newer_def)
  qed
  with t cur show ?thesis by blast
qed

lemma bump_is_newer_witness:
  "\<exists>next. revision_tuple ''20250714.10'' = Some next \<and> newer next (''20250714'', 9)"
  by (rule bump_is_newer [of "''20250714.9''" "''20250714''"]) code_simp+

section \<open>What a reconciliation proposes\<close>

lemma put_all: "list_all P l \<Longrightarrow> P (k, v) \<Longrightarrow> list_all P (put k v l)"
  by (induction k v l rule: put.induct) auto

lemma reconcile_service_change:
  assumes "reconcile_service services inventory vs service contract = Some (Some (k, img))"
  shows "k \<in> set (map fst vs) \<and> (\<exists>s. normalized s = Some img) \<and>
    JStr k = jget contract ''copy'' \<and> map_of contract ''source'' = None \<and>
    (\<exists>repo. jget contract ''repository'' = JStr repo \<and> repository img = Some repo)"
proof -
  obtain repo where a: "image_of (jget services service) = Some img" "jget contract ''repository'' = JStr repo"
      "repository img = Some repo" "map_of contract ''copy'' = Some (JStr k)"
      "map_of contract ''source'' = None" "map_of vs k \<noteq> None"
    using assms unfolding reconcile_service_def Let_def
    by (auto simp del: jget.simps split: option.splits json.splits if_splits simp: bind_eq_Some_conv)
  have "\<exists>s. normalized s = Some img" using a(1) by (auto simp: image_of_def split: json.splits option.splits)
  moreover have "k \<in> set (map fst vs)" using a(6) by (force dest: map_of_SomeD)
  ultimately show ?thesis using a by simp
qed

definition change_ok :: "pins \<Rightarrow> pystr \<times> pystr \<Rightarrow> bool" where
  "change_ok vs c \<longleftrightarrow> fst c \<in> set (map fst vs) \<and> (\<exists>s. normalized s = Some (snd c))"

lemma reconcile_all_changes:
  assumes "reconcile_all services inventory vs contracts changes = Some out" "list_all (change_ok vs) changes"
  shows "list_all (change_ok vs) out"
  using assms
proof (induction services inventory vs contracts changes rule: reconcile_all.induct)
  case (2 services inventory vs service contract rest changes)
  obtain c where c: "contract = JObj c" using 2(3) by (cases contract) auto
  obtain r where r: "reconcile_service services inventory vs service c = Some r" using 2(3) c by (auto split: option.splits)
  show ?case
  proof (cases r)
    case None
    with 2 c r show ?thesis by auto
  next
    case (Some p)
    obtain k img where p: "p = (k, img)" by (cases p)
    have "change_ok vs (k, img)" using reconcile_service_change [of services inventory vs service c k img] r Some p
      by (auto simp: change_ok_def)
    then have "list_all (change_ok vs) (put k img changes)" using 2(4) by (intro put_all)
    with 2 c r Some p show ?thesis by auto
  qed
qed simp

lemma reconcile_changes:
  assumes "reconcile model inventory vs = Some changes"
  shows "list_all (change_ok vs) changes"
proof -
  define sj where "sj = (if map_of model ''services'' = None then JObj [] else jget model ''services'')"
  define cj where "cj = jget inventory ''onyx_services''"
  obtain services contracts where "sj = JObj services" "cj = JObj contracts"
    using assms unfolding reconcile_def sj_def [symmetric] cj_def [symmetric] by (cases sj; cases cj) simp_all
  then have "reconcile_all services inventory vs contracts [] = Some changes"
    using assms unfolding reconcile_def sj_def [symmetric] cj_def [symmetric] by (simp split: if_splits)
  then show ?thesis by (rule reconcile_all_changes) simp
qed

text \<open>
  C35 (type). Every change a reconciliation proposes is well-formed: it names an existing pin, and its value is
  an image reference in normal form, without blanks, with its registry and its path.
\<close>

theorem reconciled_changes_typed:
  assumes "reconcile model inventory vs = Some changes"
  shows "list_all (\<lambda>(k, img). k \<in> set (map fst vs) \<and> normalized img = Some img \<and> bare_ok img \<and> settled img) changes"
  using reconcile_changes [OF assms] normalized_settled settled_stable
  unfolding list_all_iff change_ok_def by fastforce

definition sample_model :: "(pystr \<times> json) list" where
  "sample_model = [(''services'', JObj [(''nginx'', JObj [(''image'', JStr ''nginx:2'')])])]"

definition sample_inventory :: "(pystr \<times> json) list" where
  "sample_inventory = [(''onyx_services'', JObj [(''nginx'', JObj
     [(''repository'', JStr ''docker.io/library/nginx''), (''copy'', JStr ''NGINX_IMAGE'')])])]"

lemma reconciled_changes_typed_witness:
  "list_all (\<lambda>(k, img). k \<in> set (map fst [(''NGINX_IMAGE'', ''nginx:1'')]) \<and> normalized img = Some img \<and>
    bare_ok img \<and> settled img) [(''NGINX_IMAGE'', ''docker.io/library/nginx:2'')]"
  by (rule reconciled_changes_typed [of sample_model sample_inventory]) code_simp

text \<open>Such a change can be written and read back.\<close>

lemma reconciled_values_unbroken:
  assumes "reconcile model inventory vs = Some changes"
  shows "list_all (\<lambda>(k, v). list_all (\<lambda>c. \<not> line_break c) v) changes"
proof -
  have "list_all (change_ok vs) changes" using reconcile_changes assms .
  moreover have "line_break c \<Longrightarrow> is_space c" for c by (auto simp: line_break_def is_space_def)
  ultimately show ?thesis
    using normalized_settled unfolding list_all_iff bare_ok_def list_ex_iff change_ok_def by fastforce
qed

end
