(* ===== verification/Config_Prepare.thy ===== *)
theory Config_Prepare
  imports Env_Edit Component_Pins Workflow
begin

text \<open>
  The preparation of the selected configuration: \<open>configuration_source\<close>, \<open>desired_identity\<close>,
  \<open>artifact_evidence\<close>, \<open>reusable\<close>, \<open>validate_staged\<close> and \<open>prepare\<close> of
  \<open>src/tools/components/configuration.py\<close>. The state is the destination, its stamp and the environment
  file; every access to the disk may fail as the surroundings decide, and a file is replaced as a whole
  or not at all. The lock that is held around a preparation is left out. The stamp is the JSON value of
  its text.
\<close>

section \<open>The world\<close>

text \<open>\<open>ConfigurationError\<close>, with the errors of the environment file; \<open>OSError\<close>; \<open>UnicodeError\<close>;
  another \<open>ValueError\<close>.\<close>

datatype conf_failure =
    Refused config_error | Not_explicit | Bad_artifact | Empty_download | Bad_stage
  | Disk_failed | Bad_text | Bad_value

fun configuration_failure :: "conf_failure \<Rightarrow> bool" where
  "configuration_failure (Refused _) = True"
| "configuration_failure Not_explicit = True"
| "configuration_failure Bad_artifact = True"
| "configuration_failure Empty_download = True"
| "configuration_failure Bad_stage = True"
| "configuration_failure _ = False"

datatype node = Regular bytes nat | Sym_link | Special

datatype stamp_file = No_stamp | Stamp json | Stamp_not_json | Stamp_not_text

record 'm conf_state =
  artifacts :: "pystr \<Rightarrow> node option"
  stamp :: stamp_file
  env_now :: env_file
  outside :: 'm

datatype disk_answer = Disk_ok | Disk_error | Disk_undecodable

datatype conf_event = Downloaded pystr bytes | Ran "pystr list"

record 'm conf_host =
  sha256 :: "bytes \<Rightarrow> pystr"
  utf8_text :: "bytes \<Rightarrow> pystr option"
  json_text :: "pystr \<Rightarrow> json option"
  url_quoted :: "pystr \<Rightarrow> pystr"
  download :: "pystr \<Rightarrow> 'm \<Rightarrow> (conf_failure + bytes) \<times> 'm"
  command :: "pystr list \<Rightarrow> 'm \<Rightarrow> (int \<times> pystr) option \<times> 'm"
  disk :: "'m \<Rightarrow> disk_answer \<times> 'm"
  token_hex :: "'m \<Rightarrow> pystr \<times> 'm"
  stage_dir :: pystr
  generator_bytes :: bytes
  identity_files :: "(pystr \<times> bytes) list"
  ownership :: "(pystr \<times> json) list"

record conf_args =
  conf_ref :: pystr
  image_tag :: pystr
  controller_tag :: pystr
  conf_revision :: pystr
  compose_bin :: pystr
  lite_mode :: bool
  force_refresh :: bool
  sync_only :: bool

type_synonym ('m, 'a) conf = "('m conf_state, conf_event, conf_failure, 'a) run"

definition disk_read :: "'m conf_host \<Rightarrow> ('m, unit) conf" where
  "disk_read w s = (case disk w (outside s) of (d, m) \<Rightarrow>
     ([], s\<lparr>outside := m\<rparr>, case d of
        Disk_ok \<Rightarrow> Inr () | Disk_error \<Rightarrow> Inl Disk_failed | Disk_undecodable \<Rightarrow> Inl Bad_text))"

definition disk_write :: "'m conf_host \<Rightarrow> ('m conf_state \<Rightarrow> 'm conf_state) \<Rightarrow> ('m, unit) conf" where
  "disk_write w f s = (case disk w (outside s) of (d, m) \<Rightarrow>
     if d = Disk_ok then ([], f (s\<lparr>outside := m\<rparr>), Inr ()) else ([], s\<lparr>outside := m\<rparr>, Inl Disk_failed))"

definition conf_get :: "('m conf_state \<Rightarrow> 'a) \<Rightarrow> ('m, 'a) conf" where
  "conf_get f s = ([], s, Inr (f s))"

definition run_command :: "'m conf_host \<Rightarrow> pystr list \<Rightarrow> ('m, int \<times> pystr) conf" where
  "run_command w line s = (case command w line (outside s) of (r, m) \<Rightarrow>
     ([Ran line], s\<lparr>outside := m\<rparr>, case r of None \<Rightarrow> Inl Disk_failed | Some x \<Rightarrow> Inr x))"

definition fresh_token :: "'m conf_host \<Rightarrow> ('m, pystr) conf" where
  "fresh_token w s = (case token_hex w (outside s) of (t, m) \<Rightarrow> ([], s\<lparr>outside := m\<rparr>, Inr t))"

text \<open>\<open>Path.read_text\<close> makes every line end a line feed.\<close>

fun universal_lines :: "pystr \<Rightarrow> pystr" where
  "universal_lines [] = []"
| "universal_lines (c # s) =
     (if c = CHR 0x0D
      then CHR 0x0A # (case s of [] \<Rightarrow> [] | d # t \<Rightarrow> if d = CHR 0x0A then universal_lines t else universal_lines s)
      else c # universal_lines s)"

definition text_of :: "'m conf_host \<Rightarrow> bytes \<Rightarrow> conf_failure + pystr" where
  "text_of w b = (case utf8_text w b of None \<Rightarrow> Inl Bad_text | Some t \<Rightarrow> Inr (universal_lines t))"

section \<open>Identity and evidence\<close>

type_synonym artifact = "pystr \<times> pystr \<times> nat"

definition conf_artifacts :: "artifact list" where
  "conf_artifacts =
     [(''deployment/docker-compose.yml'', ''docker_compose/docker-compose.yml'', 420),
      (''deployment/docker-compose.onyx-lite.yml'', ''docker_compose/docker-compose.onyx-lite.yml'', 420),
      (''deployment/docker-compose.craft.yml'', ''docker_compose/docker-compose.craft.yml'', 420),
      (''deployment/env.template'', ''docker_compose/env.template'', 420),
      (''README.md'', ''docker_compose/README.md'', 420),
      (''data/nginx/app.conf.template'', ''data/nginx/app.conf.template'', 420),
      (''data/nginx/run-nginx.sh'', ''data/nginx/run-nginx.sh'', 493)]"

definition configuration_source :: "'m conf_host \<Rightarrow> pystr \<Rightarrow> conf_failure + pystr" where
  "configuration_source w ref = (case reviewed_onyx_source ref (ownership w) of
     None \<Rightarrow> Inl Bad_value | Some r \<Rightarrow> Inr r)"

definition desired_identity :: "'m conf_host \<Rightarrow> conf_args \<Rightarrow> conf_failure + pystr" where
  "desired_identity w a = rbind (configuration_source w (conf_ref a)) (\<lambda>source.
     Inr (sha256 w
       (concat (map (\<lambda>v. encode_utf8 v @ [CHR 0x00])
          [''1'', conf_ref a, source, image_tag a, controller_tag a, conf_revision a])
        @ generator_bytes w
        @ concat (map (\<lambda>(p, b). encode_utf8 p @ [CHR 0x00] @ b) (identity_files w)))))"

type_synonym evidence = "(pystr \<times> pystr \<times> nat) list"

fun artifact_evidence :: "'m conf_host \<Rightarrow> artifact list \<Rightarrow> ('m, evidence) conf" where
  "artifact_evidence w [] = wf_ret []"
| "artifact_evidence w ((rel, src, mode) # rest) =
     wf_bind (disk_read w) (\<lambda>_.
     wf_bind (conf_get (\<lambda>s. artifacts s rel)) (\<lambda>n. case n of
       Some (Regular b m) \<Rightarrow>
         (if m \<noteq> mode then wf_stop Bad_artifact
          else wf_bind (artifact_evidence w rest) (\<lambda>ev. wf_ret ((rel, sha256 w b, mode) # ev)))
     | _ \<Rightarrow> wf_stop Bad_artifact))"

text \<open>The comparison of two dictionaries, which does not look at the order of their keys.\<close>

definition same_entry :: "json \<Rightarrow> pystr \<Rightarrow> nat \<Rightarrow> bool" where
  "same_entry v h mode = (case v of
     JObj e \<Rightarrow> set (map fst e) = {''sha256'', ''mode''} \<and> jget e ''sha256'' = JStr h \<and> jget e ''mode'' = JInt (int mode)
   | _ \<Rightarrow> False)"

definition same_record :: "json \<Rightarrow> pystr \<Rightarrow> evidence \<Rightarrow> bool" where
  "same_record v identity ev = (case v of
     JObj m \<Rightarrow> set (map fst m) = {''identity'', ''artifacts''} \<and> jget m ''identity'' = JStr identity \<and>
       (case jget m ''artifacts'' of
          JObj a \<Rightarrow> set (map fst a) = set (map fst ev) \<and> list_all (\<lambda>(rel, h, mode). same_entry (jget a rel) h mode) ev
        | _ \<Rightarrow> False)
   | _ \<Rightarrow> False)"

text \<open>The record that is written; a dictionary is compared without its order, so the sorting of the keys in
  the text does not matter.\<close>

definition stamp_value :: "pystr \<Rightarrow> evidence \<Rightarrow> json" where
  "stamp_value identity ev =
     JObj [(''artifacts'', JObj (map (\<lambda>(rel, h, mode). (rel, JObj [(''mode'', JInt (int mode)), (''sha256'', JStr h)])) ev)),
           (''identity'', JStr identity)]"

definition reusable :: "'m conf_host \<Rightarrow> pystr \<Rightarrow> ('m, bool) conf" where
  "reusable w identity =
     wf_bind (disk_read w) (\<lambda>_.
     wf_bind (conf_get stamp) (\<lambda>st. case st of
       No_stamp \<Rightarrow> wf_ret False
     | Stamp_not_json \<Rightarrow> wf_ret False
     | Stamp_not_text \<Rightarrow> wf_stop Bad_text
     | Stamp v \<Rightarrow>
         wf_catch (wf_bind (artifact_evidence w conf_artifacts) (\<lambda>ev. wf_ret (same_record v identity ev)))
           (\<lambda>e. if configuration_failure e then wf_ret False else wf_stop e)))"

section \<open>The stage\<close>

definition stage_path :: "'m conf_host \<Rightarrow> pystr \<Rightarrow> pystr" where
  "stage_path w rel = stage_dir w @ ''/'' @ rel"

definition model_command :: "'m conf_host \<Rightarrow> conf_args \<Rightarrow> pystr option \<Rightarrow> pystr list" where
  "model_command w a overlay =
     [compose_bin a, ''compose'', ''--env-file'', stage_path w ''.validation.env'', ''-f'',
      stage_path w ''deployment/docker-compose.yml''] @
     (case overlay of None \<Rightarrow> [] | Some n \<Rightarrow> [''-f'', stage_path w (''deployment/'' @ n)]) @
     [''config'', ''--no-env-resolution'', ''--no-interpolate'', ''--format'', ''json'']"

definition has_services :: "json \<Rightarrow> bool" where
  "has_services v = (case v of
     JObj m \<Rightarrow> (case jget m ''services'' of JObj (x # xs) \<Rightarrow> True | _ \<Rightarrow> False)
   | _ \<Rightarrow> False)"

fun validate_models :: "'m conf_host \<Rightarrow> conf_args \<Rightarrow> pystr option list \<Rightarrow> ('m, unit) conf" where
  "validate_models w a [] = wf_ret ()"
| "validate_models w a (overlay # rest) =
     wf_bind (run_command w (model_command w a overlay)) (\<lambda>(code, out).
       if code \<noteq> 0 then wf_stop Bad_stage
       else case json_text w out of
         None \<Rightarrow> wf_stop Bad_stage
       | Some v \<Rightarrow> if has_services v then validate_models w a rest else wf_stop Bad_stage)"

definition validate_staged :: "'m conf_host \<Rightarrow> conf_args \<Rightarrow> ('m, unit) conf" where
  "validate_staged w a =
     wf_bind (run_command w [''sh'', ''-n'', stage_path w ''data/nginx/run-nginx.sh'']) (\<lambda>(code, out).
       if code \<noteq> 0 then wf_stop Bad_stage
       else wf_bind (disk_write w id) (\<lambda>_.
            validate_models w a [None, Some ''docker-compose.onyx-lite.yml'', Some ''docker-compose.craft.yml'']))"

definition fetch :: "'m conf_host \<Rightarrow> pystr \<Rightarrow> ('m, bytes) conf" where
  "fetch w url s = (case download w url (outside s) of
     (Inl e, m) \<Rightarrow> ([], s\<lparr>outside := m\<rparr>, Inl e)
   | (Inr b, m) \<Rightarrow> ([Downloaded url b], s\<lparr>outside := m\<rparr>, Inr b))"

definition source_url :: "'m conf_host \<Rightarrow> pystr \<Rightarrow> pystr \<Rightarrow> pystr" where
  "source_url w source_ref src =
     ''https://raw.githubusercontent.com/onyx-dot-app/onyx/'' @ url_quoted w source_ref @ ''/deployment/'' @ src"

text \<open>\<open>payload.strip()\<close> is empty.\<close>

definition blank_bytes :: "bytes \<Rightarrow> bool" where
  "blank_bytes b \<longleftrightarrow> list_all (\<lambda>c. c = CHR '' '' \<or> 9 \<le> ord_c c \<and> ord_c c \<le> 13) b"

type_synonym staged = "(pystr \<times> bytes \<times> nat) list"

fun stage_artifacts :: "'m conf_host \<Rightarrow> pystr \<Rightarrow> artifact list \<Rightarrow> ('m, staged) conf" where
  "stage_artifacts w source_ref [] = wf_ret []"
| "stage_artifacts w source_ref ((rel, src, mode) # rest) =
     wf_bind (fetch w (source_url w source_ref src)) (\<lambda>b.
       if blank_bytes b then wf_stop Empty_download
       else wf_bind (disk_write w id) (\<lambda>_.
            wf_bind (stage_artifacts w source_ref rest) (\<lambda>st. wf_ret ((rel, b, mode) # st))))"

section \<open>The preparation\<close>

definition sync_file :: "'m conf_host \<Rightarrow> conf_args \<Rightarrow> pystr option \<Rightarrow> ('m, unit) conf" where
  "sync_file w a template =
     wf_bind (disk_read w) (\<lambda>_.
     wf_bind (fresh_token w) (\<lambda>secret.
     wf_bind (conf_get env_now) (\<lambda>f.
       case sync_environment secret f (image_tag a) (controller_tag a) template (lite_mode a) of
         Inl e \<Rightarrow> wf_stop (Refused e)
       | Inr None \<Rightarrow> wf_ret ()
       | Inr (Some t) \<Rightarrow> disk_write w (\<lambda>s. s\<lparr>env_now := \<lparr>env_is_link = False, env_text = Some t\<rparr>\<rparr>))))"

definition drop_stamp :: "'m conf_host \<Rightarrow> ('m, unit) conf" where
  "drop_stamp w = disk_write w (\<lambda>s. s\<lparr>stamp := No_stamp\<rparr>)"

text \<open>The \<open>except\<close> clause around a synchronization: the stamp goes before the error leaves.\<close>

definition sync_or_drop :: "'m conf_host \<Rightarrow> conf_args \<Rightarrow> ('m, unit) conf" where
  "sync_or_drop w a = wf_catch (sync_file w a None)
     (\<lambda>e. if configuration_failure e \<or> e = Disk_failed \<or> e = Bad_text
          then wf_bind (drop_stamp w) (\<lambda>_. wf_stop e) else wf_stop e)"

definition put_artifact :: "pystr \<Rightarrow> node \<Rightarrow> 'm conf_state \<Rightarrow> 'm conf_state" where
  "put_artifact rel n s = s\<lparr>artifacts := (artifacts s)(rel \<mapsto> n)\<rparr>"

fun install_artifacts :: "'m conf_host \<Rightarrow> staged \<Rightarrow> ('m, unit) conf" where
  "install_artifacts w [] = wf_ret ()"
| "install_artifacts w ((rel, b, mode) # rest) =
     wf_bind (disk_write w (put_artifact rel (Regular b mode))) (\<lambda>_. install_artifacts w rest)"

definition installation ::
  "'m conf_host \<Rightarrow> conf_args \<Rightarrow> pystr \<Rightarrow> staged \<Rightarrow> pystr \<Rightarrow> ('m, unit) conf" where
  "installation w a identity st template =
     wf_bind (disk_write w id) (\<lambda>_.
     wf_bind (drop_stamp w) (\<lambda>_.
     wf_bind (install_artifacts w st) (\<lambda>_.
     wf_bind (disk_write w id) (\<lambda>_.
     wf_bind (sync_file w a (Some template)) (\<lambda>_.
     wf_bind (artifact_evidence w conf_artifacts) (\<lambda>ev.
     disk_write w (\<lambda>s. s\<lparr>stamp := Stamp (stamp_value identity ev)\<rparr>)))))))"

definition staged_bytes :: "staged \<Rightarrow> pystr \<Rightarrow> bytes" where
  "staged_bytes st rel = (case map_of st rel of None \<Rightarrow> [] | Some (b, _) \<Rightarrow> b)"

definition fresh_configuration :: "'m conf_host \<Rightarrow> conf_args \<Rightarrow> pystr \<Rightarrow> ('m, unit) conf" where
  "fresh_configuration w a identity =
     wf_bind (wf_from (configuration_source w (conf_ref a))) (\<lambda>source_ref.
     wf_bind (stage_artifacts w source_ref conf_artifacts) (\<lambda>st.
     wf_bind (validate_staged w a) (\<lambda>_.
     wf_bind (wf_from (text_of w (staged_bytes st ''deployment/env.template''))) (\<lambda>template.
       case selected_environment template (tag_values (image_tag a) (controller_tag a)) of
         Inl e \<Rightarrow> wf_stop (Refused e)
       | Inr _ \<Rightarrow> installation w a identity st template))))"

definition explicit_args :: "conf_args \<Rightarrow> bool" where
  "explicit_args a \<longleftrightarrow> conf_ref a \<noteq> [] \<and> conf_revision a \<noteq> [] \<and> image_tag a \<noteq> [] \<and> controller_tag a \<noteq> []"

definition prepare :: "'m conf_host \<Rightarrow> conf_args \<Rightarrow> ('m, bool) conf" where
  "prepare w a =
     (if \<not> explicit_args a then wf_stop Not_explicit
      else wf_bind (wf_from (desired_identity w a)) (\<lambda>identity.
        if sync_only a
        then wf_bind (reusable w identity) (\<lambda>ok.
             wf_bind (if ok then wf_ret () else drop_stamp w) (\<lambda>_.
             wf_bind (sync_or_drop w a) (\<lambda>_. wf_ret False)))
        else wf_bind (if force_refresh a then wf_ret False else reusable w identity) (\<lambda>ok.
             wf_bind (conf_get env_now) (\<lambda>f.
               if ok \<and> env_text f \<noteq> None
               then wf_bind (sync_or_drop w a) (\<lambda>_. wf_ret False)
               else wf_bind (fresh_configuration w a identity) (\<lambda>_. wf_ret True)))))"

section \<open>What a preparation leaves\<close>

lemma triple_disk_read: "(\<And>s m. P s \<Longrightarrow> Q () (s\<lparr>outside := m\<rparr>) \<and> E (s\<lparr>outside := m\<rparr>)) \<Longrightarrow> wf_triple P (disk_read w) Q E"
  by (auto simp: wf_triple_def disk_read_def split: prod.splits disk_answer.splits)

lemma triple_disk_write:
  "(\<And>s m. P s \<Longrightarrow> Q () (f (s\<lparr>outside := m\<rparr>)) \<and> E (s\<lparr>outside := m\<rparr>)) \<Longrightarrow> wf_triple P (disk_write w f) Q E"
  by (auto simp: wf_triple_def disk_write_def split: prod.splits)

lemma triple_get: "(\<And>s. P s \<Longrightarrow> Q (f s) s) \<Longrightarrow> wf_triple P (conf_get f) Q E"
  by (simp add: wf_triple_def conf_get_def)

lemma triple_command:
  "(\<And>s m x. P s \<Longrightarrow> Q x (s\<lparr>outside := m\<rparr>) \<and> E (s\<lparr>outside := m\<rparr>)) \<Longrightarrow> wf_triple P (run_command w line) Q E"
  by (auto simp: wf_triple_def run_command_def split: prod.splits option.splits)

lemma triple_token: "(\<And>s m x. P s \<Longrightarrow> Q x (s\<lparr>outside := m\<rparr>)) \<Longrightarrow> wf_triple P (fresh_token w) Q E"
  by (auto simp: wf_triple_def fresh_token_def split: prod.splits)

lemma triple_fetch:
  "(\<And>s m x. P s \<Longrightarrow> Q x (s\<lparr>outside := m\<rparr>) \<and> E (s\<lparr>outside := m\<rparr>)) \<Longrightarrow> wf_triple P (fetch w url) Q E"
  by (auto simp: wf_triple_def fetch_def split: prod.splits sum.splits)

lemmas conf_triples = triple_disk_read triple_disk_write triple_get triple_command triple_token triple_fetch

text \<open>What does not depend on the disk's answers.\<close>

definition steady :: "('m conf_state \<Rightarrow> bool) \<Rightarrow> bool" where
  "steady P \<longleftrightarrow> (\<forall>s m. P s \<longrightarrow> P (s\<lparr>outside := m\<rparr>))"

abbreviation keeps :: "('m conf_state \<Rightarrow> bool) \<Rightarrow> ('m, 'a) conf \<Rightarrow> bool" where
  "keeps P m \<equiv> wf_triple P m (\<lambda>_. P) P"

lemma keeps_bind: "keeps P m \<Longrightarrow> (\<And>x. keeps P (f x)) \<Longrightarrow> keeps P (wf_bind m f)"
  by (rule triple_bind)

lemma keeps_simple [simp]:
  "keeps P (wf_ret x)" "keeps P (wf_stop e)" "keeps P (wf_from r)" "keeps P (conf_get g)"
  by (auto intro: triple_ret triple_stop triple_from triple_get)

lemma keeps_steady:
  assumes "steady P"
  shows "keeps P (disk_read w)" "keeps P (run_command w line)" "keeps P (fresh_token w)" "keeps P (fetch w url)"
    "keeps P (disk_write w id)"
  using assms by (auto simp: steady_def intro!: conf_triples)

lemma evidence_keeps: "steady P \<Longrightarrow> keeps P (artifact_evidence w l)"
proof (induction l)
  case (Cons t l)
  then show ?case
    by (cases t) (auto intro!: keeps_bind keeps_steady split: option.splits node.splits)
qed simp

lemma reusable_keeps: "steady P \<Longrightarrow> keeps P (reusable w i)"
  unfolding reusable_def
  by (auto intro!: keeps_bind keeps_steady triple_catch [where R = P] evidence_keeps split: stamp_file.splits)

lemma validate_keeps:
  assumes "steady P"
  shows "keeps P (validate_staged w a)"
proof -
  have "keeps P (validate_models w a l)" for l
    by (induction l) (use assms in \<open>auto intro!: keeps_bind keeps_steady split: option.splits\<close>)
  then show ?thesis unfolding validate_staged_def
    using assms by (auto simp del: validate_models.simps intro!: keeps_bind keeps_steady)
qed

lemma stage_keeps: "steady P \<Longrightarrow> keeps P (stage_artifacts w r l)"
proof (induction l)
  case (Cons t l)
  then show ?case by (cases t) (auto intro!: keeps_bind keeps_steady)
qed simp

lemma sync_keeps:
  assumes "steady P" "\<And>s f. P s \<Longrightarrow> P (s\<lparr>env_now := f\<rparr>)"
  shows "keeps P (sync_file w a t)"
proof -
  have "keeps P (disk_write w (\<lambda>s. s\<lparr>env_now := f\<rparr>))" for f
    using assms by (intro triple_disk_write) (auto simp: steady_def)
  then show ?thesis unfolding sync_file_def using assms(1)
    by (auto intro!: keeps_bind keeps_steady split: sum.splits option.splits)
qed

lemma drop_stamp_keeps: "steady P \<Longrightarrow> (\<And>s. P s \<Longrightarrow> P (s\<lparr>stamp := No_stamp\<rparr>)) \<Longrightarrow> keeps P (drop_stamp w)"
  unfolding drop_stamp_def by (intro triple_disk_write) (auto simp: steady_def)

lemma sync_or_drop_keeps:
  assumes "steady P" "\<And>s f. P s \<Longrightarrow> P (s\<lparr>env_now := f\<rparr>)" "\<And>s. P s \<Longrightarrow> P (s\<lparr>stamp := No_stamp\<rparr>)"
  shows "keeps P (sync_or_drop w a)"
  unfolding sync_or_drop_def
  by (rule triple_catch [where R = P]) (use assms in \<open>auto intro!: sync_keeps keeps_bind drop_stamp_keeps\<close>)

lemma install_keeps:
  assumes "steady P" "\<And>s rel n. P s \<Longrightarrow> P (put_artifact rel n s)"
  shows "keeps P (install_artifacts w st)"
proof (induction st)
  case (Cons t st)
  obtain rel b mode where t: "t = (rel, b, mode)" by (cases t) auto
  have "keeps P (disk_write w (put_artifact rel (Regular b mode)))"
    using assms by (intro triple_disk_write) (auto simp: steady_def)
  with Cons show ?case by (auto simp: t intro!: keeps_bind)
qed simp

lemma steady_facts [simp]:
  "steady (\<lambda>s. stamp s = st)" "steady (\<lambda>s. artifacts s = A)"
  by (simp_all add: steady_def)

lemma installation_unstamped:
  "wf_triple (\<lambda>s. artifacts s = A) (installation w a i st t) (\<lambda>_ _. True) (\<lambda>s. artifacts s = A \<or> stamp s = No_stamp)"
  (is "wf_triple ?P _ _ ?E")
  unfolding installation_def
proof (rule triple_bind [where R = "\<lambda>_. ?P"])
  show "wf_triple ?P (disk_write w id) (\<lambda>_. ?P) ?E" by (rule triple_disk_write) simp
  fix x
  let ?N = "\<lambda>s. stamp s = No_stamp"
  show "wf_triple ?P (wf_bind (drop_stamp w) (\<lambda>_. wf_bind (install_artifacts w st) (\<lambda>_. wf_bind (disk_write w id)
      (\<lambda>_. wf_bind (sync_file w a (Some t)) (\<lambda>_. wf_bind (artifact_evidence w conf_artifacts)
        (\<lambda>ev. disk_write w (\<lambda>s. s\<lparr>stamp := Stamp (stamp_value i ev)\<rparr>))))))) (\<lambda>_ _. True) ?E"
  proof (rule triple_bind [where R = "\<lambda>_. ?N"])
    show "wf_triple ?P (drop_stamp w) (\<lambda>_. ?N) ?E" unfolding drop_stamp_def by (rule triple_disk_write) simp
    fix y
    have rest: "wf_triple ?N (wf_bind (install_artifacts w st) (\<lambda>_. wf_bind (disk_write w id)
      (\<lambda>_. wf_bind (sync_file w a (Some t)) (\<lambda>_. wf_bind (artifact_evidence w conf_artifacts)
        (\<lambda>ev. disk_write w (\<lambda>s. s\<lparr>stamp := Stamp (stamp_value i ev)\<rparr>)))))) (\<lambda>_ _. True) ?N"
      by (intro triple_bind [where R = "\<lambda>_. ?N"] install_keeps sync_keeps evidence_keeps keeps_steady triple_disk_write)
        (auto simp: put_artifact_def)
    show "wf_triple ?N (wf_bind (install_artifacts w st) (\<lambda>_. wf_bind (disk_write w id)
      (\<lambda>_. wf_bind (sync_file w a (Some t)) (\<lambda>_. wf_bind (artifact_evidence w conf_artifacts)
        (\<lambda>ev. disk_write w (\<lambda>s. s\<lparr>stamp := Stamp (stamp_value i ev)\<rparr>)))))) (\<lambda>_ _. True) ?E"
      by (rule triple_weaken [OF rest]) simp_all
  qed
qed

lemma keeps_then:
  assumes "keeps P m" "\<And>x. wf_triple P (f x) Q E" "\<And>s. P s \<Longrightarrow> E s"
  shows "wf_triple P (wf_bind m f) Q E"
  by (rule triple_bind [where R = "\<lambda>_. P"], rule triple_weaken [OF assms(1)]) (use assms(2,3) in auto)

lemma keeps_weaken: "keeps P m \<Longrightarrow> (\<And>s. P s \<Longrightarrow> E s) \<Longrightarrow> wf_triple P m (\<lambda>_ _. True) E"
  by (erule triple_weaken) auto

lemma prepare_unstamped:
  "wf_triple (\<lambda>s. artifacts s = A) (prepare w a) (\<lambda>_ _. True) (\<lambda>s. artifacts s = A \<or> stamp s = No_stamp)"
proof -
  let ?P = "\<lambda>s. artifacts s = A" and ?E = "\<lambda>s. artifacts s = A \<or> stamp s = No_stamp"
  have fresh: "wf_triple ?P (fresh_configuration w a i) (\<lambda>_ _. True) ?E" for i
    unfolding fresh_configuration_def
    by (intro keeps_then stage_keeps validate_keeps)
      (auto intro: installation_unstamped triple_stop split: sum.splits)
  have sync: "wf_triple ?P (wf_bind (sync_or_drop w a) (\<lambda>_. wf_ret False)) (\<lambda>_ _. True) ?E"
    by (intro keeps_then sync_or_drop_keeps) (auto intro: triple_ret)
  have fresh': "wf_triple ?P (wf_bind (fresh_configuration w a i) (\<lambda>_. wf_ret True)) (\<lambda>_ _. True) ?E" for i
    by (rule triple_bind [OF fresh]) (auto intro: triple_ret)
  show ?thesis unfolding prepare_def
    by (intro triple_if keeps_then reusable_keeps drop_stamp_keeps sync fresh')
      (auto intro: triple_stop)
qed

text \<open>
  C37 (safety). An installation that fails half-way is never taken for a finished one: when a preparation
  ends with an error, whatever fails, either the installed artifacts are exactly those it found or there
  is no stamp, so that the next preparation starts afresh.
\<close>

theorem partial_installation_unstamped:
  assumes "prepare w a s = (es, s', Inl e)"
  shows "artifacts s' = artifacts s \<or> stamp s' = No_stamp"
  using triple_Inl [OF prepare_unstamped refl assms] .

section \<open>A finished preparation is reused\<close>

text \<open>The evidence that an intact destination gives.\<close>

fun evidence_of :: "'m conf_host \<Rightarrow> (pystr \<Rightarrow> node option) \<Rightarrow> artifact list \<Rightarrow> evidence option" where
  "evidence_of w A [] = Some []"
| "evidence_of w A ((rel, src, mode) # rest) = (case A rel of
     Some (Regular b m) \<Rightarrow> if m \<noteq> mode then None else map_option ((#) (rel, sha256 w b, mode)) (evidence_of w A rest)
   | _ \<Rightarrow> None)"

lemma evidence_found:
  "artifact_evidence w l s = (es, s', Inr ev) \<Longrightarrow> evidence_of w (artifacts s) l = Some ev \<and> artifacts s' = artifacts s"
proof (induction l arbitrary: s es ev)
  case Nil
  then show ?case by (simp add: wf_ret_def)
next
  case (Cons t l)
  obtain rel src mode where t: "t = (rel, src, mode)" by (cases t) auto
  from Cons(2) obtain es1 s1 es2 where d: "disk_read w s = (es1, s1, Inr ())" and
    r: "(case artifacts s1 rel of
       Some (Regular b m) \<Rightarrow>
         (if m \<noteq> mode then wf_stop Bad_artifact
          else wf_bind (artifact_evidence w l) (\<lambda>ev. wf_ret ((rel, sha256 w b, mode) # ev)))
     | _ \<Rightarrow> wf_stop Bad_artifact) s1 = (es2, s', Inr ev)"
    unfolding t artifact_evidence.simps by (auto simp: conf_get_def elim!: wf_bind_Inr)
  have s1: "artifacts s1 = artifacts s"
    using d by (auto simp: disk_read_def split: prod.splits)
  obtain b where b: "artifacts s1 rel = Some (Regular b mode)"
    using r by (auto simp: wf_stop_def split: option.splits node.splits if_splits)
  have "\<exists>es3. wf_bind (artifact_evidence w l) (\<lambda>ev. wf_ret ((rel, sha256 w b, mode) # ev)) s1 = (es3, s', Inr ev)"
    using r b by simp
  then obtain es3 ev' where "artifact_evidence w l s1 = (es3, s', Inr ev')" "ev = (rel, sha256 w b, mode) # ev'"
    by (auto simp: wf_ret_def elim!: wf_bind_Inr)
  then show ?case using Cons(1) [of s1 es3 ev'] s1 b by (simp add: t)
qed

definition reliable_disk :: "'m conf_host \<Rightarrow> bool" where
  "reliable_disk w \<longleftrightarrow> (\<forall>m. fst (disk w m) = Disk_ok)"

lemma reliable_read:
  assumes "reliable_disk w"
  shows "\<exists>m. disk_read w s = ([], s\<lparr>outside := m\<rparr>, Inr ())"
  using assms by (cases "disk w (outside s)") (auto simp: reliable_disk_def disk_read_def, metis fst_conv disk_answer.simps(7))

lemma evidence_reliable:
  assumes "reliable_disk w" "evidence_of w (artifacts s) l = Some ev"
  shows "\<exists>s'. artifact_evidence w l s = ([], s', Inr ev)"
  using assms(2)
proof (induction l arbitrary: s ev)
  case Nil
  then show ?case by (simp add: wf_ret_def)
next
  case (Cons t l)
  obtain rel src mode where t: "t = (rel, src, mode)" by (cases t) auto
  obtain b ev' where b: "artifacts s rel = Some (Regular b mode)" "evidence_of w (artifacts s) l = Some ev'"
      "ev = (rel, sha256 w b, mode) # ev'"
    using Cons(2) by (auto simp: t split: option.splits node.splits if_splits)
  obtain m where d: "disk_read w s = ([], s\<lparr>outside := m\<rparr>, Inr ())" using reliable_read [OF assms(1)] by blast
  obtain s' where "artifact_evidence w l (s\<lparr>outside := m\<rparr>) = ([], s', Inr ev')"
    using Cons(1) [of "s\<lparr>outside := m\<rparr>" ev'] b(2) by auto
  then show ?case using d b by (simp add: t wf_bind_def conf_get_def wf_ret_def)
qed

lemma evidence_names: "evidence_of w A l = Some ev \<Longrightarrow> map fst ev = map fst l"
  by (induction l arbitrary: ev) (auto split: option.splits node.splits if_splits)

lemma stamp_same:
  assumes "distinct (map fst ev)"
  shows "same_record (stamp_value i ev) i ev"
proof -
  define a where "a = map (\<lambda>(rel, h, mode). (rel, JObj [(''mode'', JInt (int mode)), (''sha256'', JStr h)])) ev"
  have fst: "map fst a = map fst ev" by (auto simp: a_def)
  have d: "distinct (map fst a)" using assms by (simp only: fst)
  have "jget a rel = JObj [(''mode'', JInt (int mode)), (''sha256'', JStr h)]" if "(rel, h, mode) \<in> set ev" for rel h mode
  proof -
    have "(rel, JObj [(''mode'', JInt (int mode)), (''sha256'', JStr h)]) \<in> set a" using that by (force simp: a_def)
    then show ?thesis using d by (simp add: map_of_is_SomeI)
  qed
  then have "list_all (\<lambda>(rel, h, mode). same_entry (jget a rel) h mode) ev"
    by (auto simp: list_all_iff same_entry_def simp del: jget.simps)
      (simp_all add: jget.simps insert_commute)
  moreover have "set (map fst a) = set (map fst ev)" by (simp only: set_map [symmetric] fst)
  ultimately show ?thesis
    unfolding stamp_value_def a_def [symmetric] same_record_def by (auto simp: insert_commute)
qed

definition installed :: "'m conf_host \<Rightarrow> pystr \<Rightarrow> 'm conf_state \<Rightarrow> bool" where
  "installed w i s \<longleftrightarrow> (\<exists>ev. evidence_of w (artifacts s) conf_artifacts = Some ev \<and> stamp s = Stamp (stamp_value i ev))"

lemma installation_installs:
  assumes "installation w a i st t s = (es, s', Inr x)"
  shows "installed w i s'"
proof -
  from assms obtain s1 s2 es1 es2 ev where
    e: "artifact_evidence w conf_artifacts s1 = (es1, s2, Inr ev)" and
    d: "disk_write w (\<lambda>s. s\<lparr>stamp := Stamp (stamp_value i ev)\<rparr>) s2 = (es2, s', Inr x)"
    unfolding installation_def by (elim wf_bind_Inr) blast
  have "artifacts s' = artifacts s2" "stamp s' = Stamp (stamp_value i ev)"
    using d by (auto simp: disk_write_def split: prod.splits if_splits)
  with evidence_found [OF e] show ?thesis by (auto simp: installed_def)
qed

lemma installed_reusable:
  assumes "installed w i s" "reliable_disk w"
  shows "snd (snd (reusable w i s)) = Inr True"
proof -
  obtain ev where ev: "evidence_of w (artifacts s) conf_artifacts = Some ev" "stamp s = Stamp (stamp_value i ev)"
    using assms(1) by (auto simp: installed_def)
  have "distinct (map fst ev)" unfolding evidence_names [OF ev(1)] by code_simp
  note same = stamp_same [OF this]
  obtain m where d: "disk_read w s = ([], s\<lparr>outside := m\<rparr>, Inr ())" using reliable_read [OF assms(2)] by blast
  obtain s' where "artifact_evidence w conf_artifacts (s\<lparr>outside := m\<rparr>) = ([], s', Inr ev)"
    using evidence_reliable [OF assms(2), of "s\<lparr>outside := m\<rparr>"] ev(1) by auto
  then show ?thesis
    using d ev(2) same by (simp add: reusable_def wf_bind_def conf_get_def wf_catch_def wf_ret_def)
qed

lemma prepare_installs:
  assumes "prepare w a s = (es, s', Inr True)" "desired_identity w a = Inr i"
  shows "installed w i s'"
proof -
  have ex: "explicit_args a" using assms(1) by (auto simp: prepare_def wf_stop_def split: if_splits)
  have not_sync: "\<not> sync_only a"
    using assms ex by (auto simp: prepare_def wf_from_def wf_ret_def elim!: wf_bind_Inr)
  obtain s1 es1 where "fresh_configuration w a i s1 = (es1, s', Inr ())"
    using assms ex not_sync
    by (auto simp: prepare_def wf_from_def wf_ret_def split: if_splits elim!: wf_bind_Inr)
  then show ?thesis unfolding fresh_configuration_def
    by (auto simp: wf_stop_def split: sum.splits elim!: wf_bind_Inr intro: installation_installs)
qed

text \<open>
  A preparation that reports a new configuration leaves one that is reused: on a disk that
  can be read, the check that the next preparation makes first finds the stamp with the identity of the
  same selections and the hash and the mode of every artifact, and takes it.
\<close>

theorem prepared_is_reusable:
  assumes "prepare w a s = (es, s', Inr True)" "desired_identity w a = Inr i" "reliable_disk w"
  shows "snd (snd (reusable w i s')) = Inr True"
  using installed_reusable [OF prepare_installs [OF assms(1,2)] assms(3)] .

definition plain_host :: "unit conf_host" where
  "plain_host = \<lparr>sha256 = (\<lambda>b. ''h''), utf8_text = Some,
     json_text = (\<lambda>t. Some (JObj [(''services'', JObj [(''api'', JNull)])])), url_quoted = (\<lambda>r. r),
     download = (\<lambda>url m. (Inr ''A=1'', m)), command = (\<lambda>line m. (Some (0, []), m)), disk = (\<lambda>m. (Disk_ok, m)),
     token_hex = (\<lambda>m. (''t'', m)), stage_dir = ''/s'', generator_bytes = [], identity_files = [], ownership = []\<rparr>"

definition plain_args :: conf_args where
  "plain_args = \<lparr>conf_ref = ''v1'', image_tag = ''v1'', controller_tag = ''c1'', conf_revision = ''20250101.1'',
     compose_bin = ''docker'', lite_mode = False, force_refresh = False, sync_only = False\<rparr>"

definition empty_destination :: "unit conf_state" where
  "empty_destination = \<lparr>artifacts = (\<lambda>r. None), stamp = No_stamp,
     env_now = \<lparr>env_is_link = False, env_text = None\<rparr>, outside = ()\<rparr>"

lemmas conf_runs = wf_bind_def wf_ret_def wf_stop_def wf_from_def wf_catch_def disk_read_def disk_write_def
  conf_get_def run_command_def fresh_token_def fetch_def drop_stamp_def

definition plain_staged :: staged where
  "plain_staged = map (\<lambda>(rel, src, mode). (rel, ''A=1'', mode)) conf_artifacts"

lemma plain_start:
  "snd (stage_artifacts plain_host ''v1'' conf_artifacts s) = (s\<lparr>outside := ()\<rparr>, Inr plain_staged)"
  "snd (validate_staged plain_host plain_args s) = (s\<lparr>outside := ()\<rparr>, Inr ())"
  by (simp_all add: conf_artifacts_def plain_staged_def validate_staged_def conf_runs plain_host_def blank_bytes_def
    ord_c_def has_services_def)

lemma plain_reading:
  "text_of plain_host (staged_bytes plain_staged ''deployment/env.template'') = Inr ''A=1''"
  "desired_identity plain_host plain_args = Inr ''h''"
  "configuration_source plain_host ''v1'' = Inr ''v1''"
  "\<not> isl (selected_environment ''A=1'' (tag_values (image_tag plain_args) (controller_tag plain_args)))"
  "\<not> isl (sync_environment ''t'' \<lparr>env_is_link = False, env_text = None\<rparr> (image_tag plain_args)
     (controller_tag plain_args) (Some ''A=1'') (lite_mode plain_args))"
  by code_simp+

lemma plain_installation:
  "\<exists>s'. snd (installation plain_host plain_args ''h'' plain_staged ''A=1'' empty_destination) = (s', Inr ())"
  using plain_reading(5)
  by (auto simp: installation_def plain_staged_def conf_artifacts_def sync_file_def conf_runs plain_host_def
    empty_destination_def put_artifact_def split: sum.splits option.splits)

lemma outside_unit [simp]: "(d :: unit conf_state)\<lparr>outside := m\<rparr> = d"
  by (cases d) simp

lemma plain_prepare:
  "snd (prepare plain_host plain_args d) = (case snd (fresh_configuration plain_host plain_args ''h'' d) of
     (s', Inl e) \<Rightarrow> (s', Inl e) | (s', Inr _) \<Rightarrow> (s', Inr True))" if "stamp d = No_stamp"
proof -
  have r: "snd (reusable plain_host ''h'' d) = (d\<lparr>outside := ()\<rparr>, Inr False)"
    using that by (simp add: reusable_def conf_runs plain_host_def)
  have "explicit_args plain_args" "\<not> sync_only plain_args" "\<not> force_refresh plain_args" by code_simp+
  then show ?thesis
    using r by (simp add: prepare_def snd_bind plain_reading wf_from_def wf_ret_def conf_get_def split: prod.splits sum.splits)
qed

lemma plain_fresh:
  "snd (fresh_configuration plain_host plain_args ''h'' d) = snd (installation plain_host plain_args ''h'' plain_staged ''A=1'' d)"
proof -
  have "conf_ref plain_args = ''v1''" by (simp add: plain_args_def)
  then show ?thesis using plain_reading(4)
    by (auto simp: fresh_configuration_def snd_bind plain_start plain_reading(1,3) wf_from_def split: sum.splits)
qed

lemma prepared_is_reusable_witness:
  "snd (snd (reusable plain_host ''h'' (fst (snd (prepare plain_host plain_args empty_destination))))) = Inr True"
proof (rule prepared_is_reusable)
  have "stamp empty_destination = No_stamp" by (simp add: empty_destination_def)
  then have "snd (snd (prepare plain_host plain_args empty_destination)) = Inr True"
    using plain_installation by (auto simp: plain_prepare plain_fresh)
  then show "prepare plain_host plain_args empty_destination =
      (fst (prepare plain_host plain_args empty_destination), fst (snd (prepare plain_host plain_args empty_destination)), Inr True)"
    by (metis prod.collapse)
  show "desired_identity plain_host plain_args = Inr ''h''" by (rule plain_reading)
  show "reliable_disk plain_host" by (simp add: reliable_disk_def plain_host_def)
qed

text \<open>The environment file is a symbolic link: an installation fails after its artifacts are written.\<close>

definition linked_destination :: "unit conf_state" where
  "linked_destination = empty_destination\<lparr>env_now := \<lparr>env_is_link = True, env_text = None\<rparr>\<rparr>"

lemma linked_installation:
  "snd (snd (installation plain_host plain_args ''h'' plain_staged ''A=1'' linked_destination)) = Inl (Refused Env_symlink)"
  "artifacts (fst (snd (installation plain_host plain_args ''h'' plain_staged ''A=1'' linked_destination))) ''README.md'' \<noteq> None"
  by (simp_all add: installation_def plain_staged_def conf_artifacts_def sync_file_def conf_runs plain_host_def
    linked_destination_def empty_destination_def put_artifact_def sync_environment_def)

lemma partial_installation_unstamped_witness:
  "stamp (fst (snd (prepare plain_host plain_args linked_destination))) = No_stamp"
proof -
  let ?p = "prepare plain_host plain_args linked_destination"
  have st: "stamp linked_destination = No_stamp" by (simp add: linked_destination_def empty_destination_def)
  have a: "artifacts linked_destination ''README.md'' = None" by (simp add: linked_destination_def empty_destination_def)
  have "snd (snd ?p) = Inl (Refused Env_symlink)" "artifacts (fst (snd ?p)) ''README.md'' \<noteq> None"
    using linked_installation by (auto simp: plain_prepare [OF st] plain_fresh split: prod.splits)
  then have p: "?p = (fst ?p, fst (snd ?p), Inl (Refused Env_symlink))" and
    "artifacts (fst (snd ?p)) \<noteq> artifacts linked_destination"
    using a by (metis prod.collapse, auto)
  with partial_installation_unstamped [OF p] show ?thesis by blast
qed

end
