(* ===== verification/Image_Preparation.thy ===== *)
theory Image_Preparation
  imports Config_Prepare
begin

text \<open>
  The preparation of the images of the active Compose model: \<open>src/tools/components/preparation.py\<close>. The
  engine and the commands in the foreground answer as they like; the selected configuration is that of
  \<open>Config_Prepare\<close>. The locks are one step that may fail; hashing, \<open>json\<close> and the files of the Compose model are
  arguments. Messages are left out.
\<close>

section \<open>The world\<close>

text \<open>\<open>PreparationError\<close>; another \<open>ValueError\<close>, \<open>OSError\<close> or error of the configuration; an exception that
  \<open>main\<close> does not expect.\<close>

datatype prep_failure = Preparation | Other_failure conf_failure | Unexpected

datatype prep_event =
    Asked "pystr list" int pystr
  | Pull "pystr list"
  | Make "pystr list" "(pystr \<times> pystr) list"
  | Configuration conf_event

record 'm prep_state =
  configured :: "'m conf_state"
  overlays :: "pystr \<Rightarrow> pystr option"
  overlay_name :: "pystr option"

record 'm prep_host =
  conf_host :: "'m conf_host"
  engine :: "pystr list \<Rightarrow> 'm \<Rightarrow> (int \<times> pystr) option \<times> 'm"
  foreground :: "pystr list \<Rightarrow> 'm \<Rightarrow> int option \<times> 'm"
  lock_state_dir :: "'m \<Rightarrow> prep_failure option \<times> 'm"
  file_write :: "'m \<Rightarrow> prep_failure option \<times> 'm"
  read_source :: "pystr \<Rightarrow> 'm \<Rightarrow> bytes option \<times> 'm"
  path_separator :: char
  stamp_digest :: "stamp_file \<Rightarrow> pystr"
  prep_environ :: "pystr \<rightharpoonup> pystr"
  json_line :: "json \<Rightarrow> pystr"
  compact_line :: "json \<Rightarrow> pystr"
  str_value :: "json \<Rightarrow> pystr"
  resolved_path :: "pystr \<Rightarrow> pystr"

record prep_args =
  engine_bin :: pystr
  inventory :: "(pystr \<times> json) list"
  prep_pins :: pins
  local_targets :: "(pystr \<times> pystr) list"
  caller_owned :: "pystr list"
  compose_arguments :: "pystr list"
  executor :: "pystr option"
  write_name :: bool
  make_command :: "pystr list"
  prep_revision :: "pystr option"
  start_target :: "pystr option"
  stamp_name :: "pystr option"

type_synonym ('m, 'a) prep = "('m prep_state, prep_event, prep_failure, 'a) run"

abbreviation prep_fail :: "('m, 'a) prep" where
  "prep_fail \<equiv> wf_stop Preparation"

definition surroundings :: "('m \<Rightarrow> 'a \<times> 'm) \<Rightarrow> 'm prep_state \<Rightarrow> 'a \<times> 'm prep_state" where
  "surroundings f s = (case f (outside (configured s)) of (x, m) \<Rightarrow> (x, s\<lparr>configured := (configured s)\<lparr>outside := m\<rparr>\<rparr>))"

text \<open>\<open>run(command, missing_ok=True)\<close>, \<open>run(command)\<close>, \<open>run_visible\<close>.\<close>

definition ask :: "'m prep_host \<Rightarrow> pystr list \<Rightarrow> ('m, int \<times> pystr) prep" where
  "ask w line s = (case surroundings (engine w line) s of
     (None, s') \<Rightarrow> ([], s', Inl (Other_failure Disk_failed))
   | (Some (code, out), s') \<Rightarrow> ([Asked line code out], s', Inr (code, out)))"

definition ask_ok :: "'m prep_host \<Rightarrow> pystr list \<Rightarrow> ('m, pystr) prep" where
  "ask_ok w line = wf_bind (ask w line) (\<lambda>(code, out). if code \<noteq> 0 then prep_fail else wf_ret out)"

definition visible :: "'m prep_host \<Rightarrow> prep_event \<Rightarrow> pystr list \<Rightarrow> ('m, unit) prep" where
  "visible w e line s = (case surroundings (foreground w line) s of
     (None, s') \<Rightarrow> ([e], s', Inl (Other_failure Disk_failed))
   | (Some code, s') \<Rightarrow> ([e], s', if code \<noteq> 0 then Inl Preparation else Inr ()))"

definition may_fail :: "('m \<Rightarrow> prep_failure option \<times> 'm) \<Rightarrow> ('m, unit) prep" where
  "may_fail f s = (case surroundings f s of (None, s') \<Rightarrow> ([], s', Inr ()) | (Some e, s') \<Rightarrow> ([], s', Inl e))"

definition on_configuration :: "('m, 'a) conf \<Rightarrow> ('m, 'a) prep" where
  "on_configuration m s = (case m (configured s) of (es, d, r) \<Rightarrow>
     (map Configuration es, s\<lparr>configured := d\<rparr>, map_sum Other_failure id r))"

definition prep_get :: "('m prep_state \<Rightarrow> 'a) \<Rightarrow> ('m, 'a) prep" where
  "prep_get f s = ([], s, Inr (f s))"

definition prep_set :: "('m prep_state \<Rightarrow> 'm prep_state) \<Rightarrow> ('m, unit) prep" where
  "prep_set f s = ([], f s, Inr ())"

definition json_output :: "'m prep_host \<Rightarrow> pystr list \<Rightarrow> ('m, json) prep" where
  "json_output w line = wf_bind (ask_ok w line) (\<lambda>out.
     case json_text (conf_host w) out of None \<Rightarrow> prep_fail | Some v \<Rightarrow> wf_ret v)"

section \<open>Images and platforms\<close>

definition selected_image :: "pystr \<Rightarrow> prep_failure + pystr" where
  "selected_image v =
     (if contains v ''://'' \<or> (CHR ''@'' \<in> set v \<and> \<not> (before_at v \<noteq> [] \<and> digest_ok (after_at v))) then Inl Preparation
      else case normalized v of None \<Rightarrow> Inl Preparation | Some i \<Rightarrow> Inr i)"

definition architecture :: "pystr \<Rightarrow> pystr" where
  "architecture s = (if s = ''x86_64'' then ''amd64'' else if s = ''aarch64'' then ''arm64''
     else if s = ''armv7l'' \<or> s = ''armv6l'' then ''arm'' else s)"

definition platform :: "pystr \<Rightarrow> prep_failure + pystr" where
  "platform v =
     (let pieces = split_on (CHR ''/'') (py_lower v)
      in if length pieces \<notin> {2, 3} \<or> [] \<in> set pieces then Inl Preparation
         else
           (let original = pieces ! 1;
                named = pieces[1 := architecture original] @
                  (if length pieces = 2 \<and> original = ''armv7l'' then [''v7'']
                   else if length pieces = 2 \<and> original = ''armv6l'' then [''v6''] else [])
            in Inr (join ''/'' (if named = [''linux'', ''arm64'', ''v8''] then butlast named else named))))"

definition two_parts :: "pystr \<Rightarrow> bool" where
  "two_parts p \<longleftrightarrow> count_list p (CHR ''/'') \<le> 1"

definition final_name :: "pystr \<Rightarrow> pystr" where
  "final_name p = (case filter (\<lambda>x. x \<noteq> [] \<and> x \<noteq> ''.'') (split_on (CHR ''/'') p) of [] \<Rightarrow> [] | x # xs \<Rightarrow> last (x # xs))"

definition is_podman :: "pystr \<Rightarrow> bool" where
  "is_podman b \<longleftrightarrow> contains (py_lower (final_name b)) ''podman''"

section \<open>The engine\<close>

record engine_use =
  store_key :: pystr
  native_platform :: pystr
  podman :: bool
  inspects_platform :: bool

text \<open>The templates of the answers.\<close>

definition template_field :: "pystr \<Rightarrow> pystr \<Rightarrow> pystr" where
  "template_field k v = [CHR 0x22] @ k @ [CHR 0x22] @ '':{{json .'' @ v @ ''}}''"

definition template_object :: "(pystr \<times> pystr) list \<Rightarrow> pystr" where
  "template_object kvs = ''{'' @ join '','' (map (\<lambda>(k, v). template_field k v) kvs) @ ''}''"

definition docker_info :: pystr where
  "docker_info = template_object [(''ID'', ''ID''), (''DockerRootDir'', ''DockerRootDir''), (''OSType'', ''OSType''),
     (''Architecture'', ''Architecture'')]"

definition docker_version :: pystr where
  "docker_version = template_object [(''ClientAPIVersion'', ''Client.APIVersion''), (''ServerAPIVersion'', ''Server.APIVersion'')]"

definition podman_info :: pystr where
  "podman_info = ''{'' @ [CHR 0x22] @ ''host'' @ [CHR 0x22] @ '':'' @
     template_object [(''hostname'', ''Host.Hostname''), (''os'', ''Host.OS''), (''arch'', ''Host.Arch''), (''variant'', ''Host.Variant'')] @
     '','' @ [CHR 0x22] @ ''store'' @ [CHR 0x22] @ '':'' @ template_object [(''graphRoot'', ''Store.GraphRoot'')] @ ''}''"

definition docker_image :: pystr where
  "docker_image = ''['' @ template_object [(''Os'', ''Os''), (''Architecture'', ''Architecture''), (''Variant'', ''Variant'')] @ '']''"

definition podman_image :: pystr where
  "podman_image = ''['' @ template_object [(''Os'', ''Os''), (''Architecture'', ''Architecture'')] @ '']''"

text \<open>\<open>v.get(k, d)\<close>.\<close>

definition member :: "json \<Rightarrow> pystr \<Rightarrow> json \<Rightarrow> prep_failure + json" where
  "member v k d = (case v of
     JObj m \<Rightarrow> Inr (case map_of m k of None \<Rightarrow> d | Some x \<Rightarrow> x)
   | _ \<Rightarrow> Inl Unexpected)"

definition string_value :: "json \<Rightarrow> bool" where
  "string_value v = (case v of JStr s \<Rightarrow> s \<noteq> [] | _ \<Rightarrow> False)"

definition text_value :: "'m prep_host \<Rightarrow> json \<Rightarrow> pystr" where
  "text_value w v = (case v of JStr s \<Rightarrow> s | _ \<Rightarrow> str_value w v)"

definition engine_facts :: "bool \<Rightarrow> json \<Rightarrow> prep_failure + json list \<times> json \<times> json \<times> json" where
  "engine_facts pod info =
     (if pod then
        rbind (member info ''host'' (JObj [])) (\<lambda>host.
        rbind (member info ''store'' (JObj [])) (\<lambda>store.
        rbind (member host ''hostname'' JNull) (\<lambda>name.
        rbind (member store ''graphRoot'' JNull) (\<lambda>graph.
        rbind (member host ''os'' JNull) (\<lambda>os.
        rbind (member host ''arch'' JNull) (\<lambda>arch.
        rbind (member host ''variant'' JNull) (\<lambda>variant.
          Inr ([JStr ''podman'', name, graph], os, arch, variant))))))))
      else
        rbind (member info ''ID'' JNull) (\<lambda>i.
        rbind (member info ''DockerRootDir'' JNull) (\<lambda>root_dir.
        rbind (member info ''OSType'' JNull) (\<lambda>os.
        rbind (member info ''Architecture'' JNull) (\<lambda>arch.
          Inr ([JStr ''docker'', i, root_dir], os, arch, JNull))))))"

text \<open>A name of a platform from what the engine reports.\<close>

definition reported_platform :: "'m prep_host \<Rightarrow> json \<Rightarrow> json \<Rightarrow> json \<Rightarrow> prep_failure + pystr" where
  "reported_platform w os arch variant =
     rbind (if json_falsy variant then Inr [] else case variant of JStr v \<Rightarrow> Inr (''/'' @ v) | _ \<Rightarrow> Inl Unexpected)
       (\<lambda>suffix. platform (text_value w os @ ''/'' @ text_value w arch @ suffix))"

definition api_version :: "json \<Rightarrow> (nat \<times> nat) option" where
  "api_version v = (case v of
     JStr s \<Rightarrow> (case partition_c (CHR ''.'') s of (a, dot, b) \<Rightarrow>
        if dot \<and> a \<noteq> [] \<and> b \<noteq> [] \<and> list_all is_digit (a @ b) then Some (dec_nat a, dec_nat b) else None)
   | _ \<Rightarrow> None)"

definition recent_api :: "nat \<times> nat \<Rightarrow> bool" where
  "recent_api v \<longleftrightarrow> 1 < fst v \<or> fst v = 1 \<and> 49 \<le> snd v"

definition platform_inspection :: "'m prep_host \<Rightarrow> pystr \<Rightarrow> ('m, bool) prep" where
  "platform_inspection w b =
     wf_bind (json_output w [b, ''version'', ''--format'', docker_version]) (\<lambda>v. case v of
       JObj m \<Rightarrow> (case (api_version (jget m ''ClientAPIVersion''), api_version (jget m ''ServerAPIVersion'')) of
          (Some c, Some d) \<Rightarrow> wf_ret (recent_api c \<and> recent_api d)
        | _ \<Rightarrow> prep_fail)
     | _ \<Rightarrow> prep_fail)"

definition engine_selection :: "'m prep_host \<Rightarrow> pystr \<Rightarrow> ('m, engine_use) prep" where
  "engine_selection w b = (let pod = is_podman b in
     wf_bind (json_output w [b, ''info'', ''--format'', if pod then podman_info else docker_info]) (\<lambda>info.
       case info of JObj _ \<Rightarrow>
         wf_bind (wf_from (engine_facts pod info)) (\<lambda>(identity, os, arch, variant).
           if \<not> list_all string_value identity \<or> json_falsy os \<or> json_falsy arch then prep_fail
           else wf_bind (wf_from (reported_platform w os arch variant)) (\<lambda>native.
                wf_bind (wf_from (platform (case prep_environ w ''DOCKER_DEFAULT_PLATFORM'' of
                    Some (c # p) \<Rightarrow> c # p | _ \<Rightarrow> native))) (\<lambda>selected.
                wf_bind (if pod then wf_ret False else platform_inspection w b) (\<lambda>inspects.
                  if \<not> pod \<and> \<not> inspects \<and> selected \<noteq> native then prep_fail
                  else if pod \<and> \<not> two_parts selected then prep_fail
                  else wf_ret \<lparr>store_key = sha256 (conf_host w) (encode_utf8 (json_line w (JList identity))),
                         native_platform = selected, podman = pod, inspects_platform = inspects\<rparr>))))
       | _ \<Rightarrow> prep_fail))"

definition active_model ::
  "'m prep_host \<Rightarrow> prep_args \<Rightarrow> ('m, (pystr \<times> json) list \<times> pystr list) prep" where
  "active_model w a = (let prefix = [engine_bin a, ''compose''] @ compose_arguments a @ [''config'', ''--no-env-resolution''] in
     wf_bind (json_output w (prefix @ [''--format'', ''json''])) (\<lambda>model.
     wf_bind (ask_ok w (prefix @ [''--services''])) (\<lambda>out.
       let active = splitlines out
       in case model of
            JObj m \<Rightarrow> (case jget m ''services'' of
               JObj contracts \<Rightarrow>
                 (if active = [] \<or> \<not> distinct active \<or> list_ex (\<lambda>x. map_of contracts x = None) active then prep_fail
                  else wf_ret (contracts, active))
             | _ \<Rightarrow> prep_fail)
          | _ \<Rightarrow> prep_fail)))"

definition inspect_line :: "engine_use \<Rightarrow> pystr \<Rightarrow> pystr \<Rightarrow> pystr \<Rightarrow> pystr list" where
  "inspect_line e b plat img = [b, ''image'', ''inspect''] @
     (if inspects_platform e then [''--platform'', plat] else []) @ [''--format'', if is_podman b then podman_image else docker_image, img]"

text \<open>The platform an inspection reports.\<close>

definition inspected_platform :: "'m prep_host \<Rightarrow> pystr \<Rightarrow> prep_failure + pystr" where
  "inspected_platform w out = (case json_text (conf_host w) out of
     Some (JList [v]) \<Rightarrow>
       rbind (member v ''Os'' JNull) (\<lambda>os.
       rbind (member v ''Architecture'' JNull) (\<lambda>arch.
         if json_falsy os \<or> json_falsy arch then Inl Preparation
         else rbind (member v ''Variant'' JNull) (reported_platform w os arch)))
   | _ \<Rightarrow> Inl Preparation)"

definition present :: "'m prep_host \<Rightarrow> engine_use \<Rightarrow> pystr \<Rightarrow> pystr \<Rightarrow> pystr \<Rightarrow> ('m, bool) prep" where
  "present w e b plat img =
     wf_bind (ask w (inspect_line e b plat img)) (\<lambda>(code, out).
       if code \<noteq> 0 then wf_ret False
       else wf_bind (wf_from (inspected_platform w out)) (\<lambda>actual. wf_ret (actual = plat)))"

section \<open>The preparation\<close>

text \<open>The platform of a service: \<open>platform(config.get("platform") or native_platform)\<close>.\<close>

definition service_platform :: "engine_use \<Rightarrow> json \<Rightarrow> prep_failure + pystr" where
  "service_platform e v =
     (if json_falsy v then platform (native_platform e) else case v of JStr s \<Rightarrow> platform s | _ \<Rightarrow> Inl Unexpected)"

definition selected_service :: "engine_use \<Rightarrow> (pystr \<times> pystr) list \<Rightarrow> json \<Rightarrow> prep_failure + pystr \<times> pystr" where
  "selected_service e local config =
     rbind (member config ''image'' (JStr [])) (\<lambda>v.
     rbind (case v of JStr s \<Rightarrow> selected_image s | _ \<Rightarrow> Inl Preparation) (\<lambda>img.
     rbind (member config ''platform'' JNull) (\<lambda>p.
     rbind (service_platform e p) (\<lambda>plat.
       if podman e \<and> \<not> two_parts plat then Inl Preparation
       else if \<not> podman e \<and> \<not> inspects_platform e \<and> plat \<noteq> native_platform e then Inl Preparation
       else if map_of local img \<noteq> None \<and> plat \<noteq> native_platform e then Inl Preparation
       else Inr (img, plat)))))"

type_synonym service_choice = "pystr \<times> pystr \<times> pystr"

text \<open>The images with their platforms, and the services with both.\<close>

fun select_services :: "engine_use \<Rightarrow> (pystr \<times> pystr) list \<Rightarrow> (pystr \<times> json) list \<Rightarrow> pystr list \<Rightarrow>
    (pystr \<times> pystr) list \<Rightarrow> service_choice list \<Rightarrow> prep_failure + (pystr \<times> pystr) list \<times> service_choice list" where
  "select_services e local contracts [] images choices = Inr (images, choices)"
| "select_services e local contracts (svc # rest) images choices =
     rbind (selected_service e local (jget contracts svc)) (\<lambda>(img, plat).
       if map_of images img \<noteq> None \<and> map_of images img \<noteq> Some plat then Inl Preparation
       else select_services e local contracts rest (put img plat images) (put svc (img, plat) choices))"

definition with_executor ::
  "engine_use \<Rightarrow> pystr option \<Rightarrow> (pystr \<times> pystr) list \<Rightarrow> prep_failure + (pystr \<times> pystr) list" where
  "with_executor e ex images = (case ex of
     Some (c # x) \<Rightarrow> rbind (selected_image (c # x)) (\<lambda>img.
       if map_of images img \<noteq> None \<and> map_of images img \<noteq> Some (native_platform e) then Inl Preparation
       else Inr (put img (native_platform e) images))
   | _ \<Rightarrow> Inr images)"

text \<open>One image: the reference that is used, present on its platform.\<close>

definition make_line :: "prep_args \<Rightarrow> pystr \<Rightarrow> pystr \<Rightarrow> pystr list" where
  "make_line a target plat = make_command a @ [target, ''DOCKER_DEFAULT_PLATFORM='' @ plat]"

definition pull_line :: "prep_args \<Rightarrow> pystr \<Rightarrow> pystr \<Rightarrow> pystr list" where
  "pull_line a plat ref = [engine_bin a, ''pull'', ''--platform'', plat, ref]"

definition image_reference ::
  "prep_args \<Rightarrow> (pystr \<times> pystr) list \<Rightarrow> pystr list \<Rightarrow> pystr \<Rightarrow> prep_failure + pystr" where
  "image_reference a local callers img =
     (if map_of local img \<noteq> None then Inr img
      else case reviewed_reference img (inventory a) (img \<notin> set callers) of
        None \<Rightarrow> Inl Preparation | Some r \<Rightarrow> Inr r)"

definition obtain_image :: "'m prep_host \<Rightarrow> prep_args \<Rightarrow> (pystr \<times> pystr) list \<Rightarrow> pystr \<Rightarrow> pystr \<Rightarrow> pystr \<Rightarrow> ('m, unit) prep" where
  "obtain_image w a local img plat ref = (case map_of local img of
     Some target \<Rightarrow> visible w (Make (make_line a target plat) [(''DOCKER_DEFAULT_PLATFORM'', plat)]) (make_line a target plat)
   | None \<Rightarrow> visible w (Pull (pull_line a plat ref)) (pull_line a plat ref))"

definition resolve_image :: "'m prep_host \<Rightarrow> prep_args \<Rightarrow> engine_use \<Rightarrow> (pystr \<times> pystr) list \<Rightarrow> pystr list \<Rightarrow>
    pystr \<times> pystr \<Rightarrow> ('m, pystr) prep" where
  "resolve_image w a e local callers ip = (case ip of (img, plat) \<Rightarrow>
     wf_bind (wf_from (image_reference a local callers img)) (\<lambda>ref.
     wf_bind (present w e (engine_bin a) plat ref) (\<lambda>there.
       if there then wf_ret ref
       else wf_bind (obtain_image w a local img plat ref) (\<lambda>_.
            wf_bind (present w e (engine_bin a) plat ref) (\<lambda>now.
              if now then wf_ret ref else prep_fail)))))"

fun resolve_images :: "'m prep_host \<Rightarrow> prep_args \<Rightarrow> engine_use \<Rightarrow> (pystr \<times> pystr) list \<Rightarrow> pystr list \<Rightarrow>
    (pystr \<times> pystr) list \<Rightarrow> ('m, (pystr \<times> pystr) list) prep" where
  "resolve_images w a e local callers [] = wf_ret []"
| "resolve_images w a e local callers (ip # rest) =
     wf_bind (resolve_image w a e local callers ip) (\<lambda>ref.
     wf_bind (resolve_images w a e local callers rest) (\<lambda>refs. wf_ret ((fst ip, ref) # refs)))"

definition reference_of :: "(pystr \<times> pystr) list \<Rightarrow> pystr \<Rightarrow> pystr" where
  "reference_of resolved img = (case map_of resolved img of None \<Rightarrow> [] | Some r \<Rightarrow> r)"

definition overlay_value :: "(pystr \<times> pystr) list \<Rightarrow> service_choice list \<Rightarrow> json" where
  "overlay_value resolved choices =
     JObj [(''services'', JObj (map (\<lambda>(svc, img, plat).
       (svc, JObj [(''image'', JStr (reference_of resolved img)), (''platform'', JStr plat)])) (sort_key fst choices)))]"

definition overlay_text :: "'m prep_host \<Rightarrow> (pystr \<times> pystr) list \<Rightarrow> service_choice list \<Rightarrow> pystr" where
  "overlay_text w resolved choices = compact_line w (overlay_value resolved choices) @ [CHR 0x0A]"

definition pairs_value :: "(pystr \<times> pystr) list \<Rightarrow> json" where
  "pairs_value l = JObj (map (\<lambda>(k, v). (k, JStr v)) l)"

definition overlay_key :: "'m prep_host \<Rightarrow> engine_use \<Rightarrow> pystr \<Rightarrow> pystr \<Rightarrow> (pystr \<times> pystr) list \<Rightarrow> service_choice list \<Rightarrow>
    (pystr \<times> pystr) list \<Rightarrow> (pystr \<times> pystr) list \<Rightarrow> pystr" where
  "overlay_key w e revision generation images choices resolved hashes =
     sha256 (conf_host w) (encode_utf8 (json_line w (JList [JStr (store_key e), JStr revision, JStr generation,
       JObj (map (\<lambda>(svc, img, plat). (svc, JList [JStr img, JStr plat])) choices),
       pairs_value images, pairs_value resolved, JList (map (\<lambda>(p, h). JList [JStr p, JStr h]) hashes)])))"

text \<open>An overlay is written once: an old file under its name must have the same text. The first step is the
  refusal of a symbolic link.\<close>

definition keep_overlay :: "'m prep_host \<Rightarrow> pystr \<Rightarrow> pystr \<Rightarrow> ('m, unit) prep" where
  "keep_overlay w n payload =
     wf_bind (may_fail (file_write w)) (\<lambda>_.
     wf_bind (prep_get (\<lambda>s. overlays s n)) (\<lambda>old. case old of
       Some t \<Rightarrow> if t \<noteq> payload then prep_fail else wf_ret ()
     | None \<Rightarrow> wf_bind (may_fail (file_write w)) (\<lambda>_. prep_set (\<lambda>s. s\<lparr>overlays := (overlays s)(n \<mapsto> payload)\<rparr>))))"

definition keep_name :: "'m prep_host \<Rightarrow> prep_args \<Rightarrow> pystr \<Rightarrow> ('m, unit) prep" where
  "keep_name w a n =
     (if \<not> write_name a then wf_ret ()
      else wf_bind (may_fail (file_write w)) (\<lambda>_. prep_set (\<lambda>s. s\<lparr>overlay_name := Some (resolved_path w n @ [CHR 0x0A])\<rparr>)))"

definition drop_name :: "'m prep_host \<Rightarrow> prep_args \<Rightarrow> ('m, unit) prep" where
  "drop_name w a =
     (if \<not> write_name a then wf_ret ()
      else wf_bind (may_fail (file_write w)) (\<lambda>_. prep_set (\<lambda>s. s\<lparr>overlay_name := None\<rparr>)))"

text \<open>The assignments that go to the start target, with the environment.\<close>

definition start_assignments ::
  "(pystr \<times> pystr) list \<Rightarrow> service_choice list \<Rightarrow> pystr \<Rightarrow> pystr \<Rightarrow> (pystr \<times> pystr) list" where
  "start_assignments resolved choices file native =
     [(''PREPARED_IMAGES_FILE'', file), (''PRIVATE_ONYX_PREPARED_PLATFORM'', native)] @
     (case map_of choices ''api_server'' of None \<Rightarrow> []
      | Some (img, plat) \<Rightarrow> [(''PRIVATE_ONYX_PREPARED_BACKEND_PLATFORM'', plat), (''ONYX_BACKEND_IMAGE'', reference_of resolved img)]) @
     (case map_of choices ''web_server'' of None \<Rightarrow> []
      | Some (img, plat) \<Rightarrow> [(''ONYX_WEB_SERVER_IMAGE'', reference_of resolved img)])"

definition start_up :: "'m prep_host \<Rightarrow> prep_args \<Rightarrow> engine_use \<Rightarrow> (pystr \<times> pystr) list \<Rightarrow> service_choice list \<Rightarrow> pystr \<Rightarrow> ('m, unit) prep" where
  "start_up w a e resolved choices n = (case start_target a of
     None \<Rightarrow> wf_ret ()
   | Some target \<Rightarrow>
       (let given = start_assignments resolved choices (resolved_path w n) (native_platform e);
            line = make_command a @ [target] @ map (\<lambda>(k, v). k @ ''='' @ v) given
        in visible w (Make line (tl given)) line))"

text \<open>The files of the Compose model with their hashes; the separator is one character.\<close>

fun hash_sources :: "'m prep_host \<Rightarrow> pystr list \<Rightarrow> ('m, (pystr \<times> pystr) list) prep" where
  "hash_sources w [] = wf_ret []"
| "hash_sources w (p # ps) =
     wf_bind (\<lambda>s. case surroundings (read_source w p) s of
         (None, s') \<Rightarrow> ([], s', Inl (Other_failure Disk_failed)) | (Some b, s') \<Rightarrow> ([], s', Inr b)) (\<lambda>b.
     wf_bind (hash_sources w ps) (\<lambda>rest. wf_ret ((p, sha256 (conf_host w) b) # rest)))"

definition configuration_identity :: "'m prep_host \<Rightarrow> ('m, (pystr \<times> pystr) list) prep" where
  "configuration_identity w =
     (let paths = split_on (path_separator w) (case prep_environ w ''COMPOSE_FILE'' of None \<Rightarrow> [] | Some p \<Rightarrow> p)
      in if [] \<in> set paths then prep_fail else hash_sources w paths)"

text \<open>The configuration must be the selected one; its hash goes into the key.\<close>

definition read_generation :: "'m prep_host \<Rightarrow> prep_args \<Rightarrow> pystr \<Rightarrow> ('m, pystr) prep" where
  "read_generation w a revision = (case stamp_name a of
     None \<Rightarrow> wf_ret []
   | Some n \<Rightarrow>
       (if n \<noteq> ''.private-onyx-configuration.json'' then prep_fail
        else case (prep_environ w ''ONYX_CONFIG_REF'', prep_environ w ''ONYX_IMAGE_TAG'', prep_environ w ''CODE_INTERPRETER_IMAGE_TAG'') of
          (Some (r # ref), Some (i # img), Some (c # tag)) \<Rightarrow>
            wf_bind (on_configuration (wf_from (desired_identity (conf_host w)
                \<lparr>conf_ref = r # ref, image_tag = i # img, controller_tag = c # tag, conf_revision = revision,
                 compose_bin = engine_bin a, lite_mode = False, force_refresh = False, sync_only = False\<rparr>))) (\<lambda>expected.
            wf_bind (on_configuration (reusable (conf_host w) expected)) (\<lambda>ok.
              if ok then prep_get (\<lambda>s. stamp_digest w (stamp (configured s))) else prep_fail))
        | _ \<Rightarrow> prep_fail))"

definition local_images :: "(pystr \<times> pystr) list \<Rightarrow> prep_failure + (pystr \<times> pystr) list" where
  "local_images l = rbind (rmapM (\<lambda>(img, target). rbind (selected_image img) (\<lambda>i. Inr (i, target))) l)
     (\<lambda>pairs. Inr (foldl (\<lambda>m (i, target). put i target m) [] pairs))"

definition hand_over :: "'m prep_host \<Rightarrow> prep_args \<Rightarrow> engine_use \<Rightarrow> pystr \<Rightarrow> pystr \<Rightarrow> (pystr \<times> pystr) list \<Rightarrow>
    service_choice list \<Rightarrow> (pystr \<times> pystr) list \<Rightarrow> ('m, pystr) prep" where
  "hand_over w a e revision generation images choices resolved =
     wf_bind (configuration_identity w) (\<lambda>hashes.
       let n = overlay_key w e revision generation images choices resolved hashes @ ''.json''
       in wf_bind (keep_overlay w n (overlay_text w resolved choices)) (\<lambda>_.
          wf_bind (keep_name w a n) (\<lambda>_.
          wf_bind (start_up w a e resolved choices n) (\<lambda>_. wf_ret n))))"

definition prepare_locked :: "'m prep_host \<Rightarrow> prep_args \<Rightarrow> engine_use \<Rightarrow> pystr \<Rightarrow> (pystr \<times> pystr) list \<Rightarrow> pystr list \<Rightarrow>
    ('m, pystr) prep" where
  "prepare_locked w a e revision local callers =
     wf_bind (may_fail (lock_state_dir w)) (\<lambda>_.
     wf_bind (read_generation w a revision) (\<lambda>generation.
     wf_bind (drop_name w a) (\<lambda>_.
     wf_bind (active_model w a) (\<lambda>(contracts, active).
     wf_bind (wf_from (select_services e local contracts active [] [])) (\<lambda>(images0, choices).
     wf_bind (wf_from (with_executor e (executor a) images0)) (\<lambda>images.
     wf_bind (resolve_images w a e local callers (sort_key fst images))
       (hand_over w a e revision generation images choices)))))))"

definition prepare_selected :: "'m prep_host \<Rightarrow> prep_args \<Rightarrow> engine_use \<Rightarrow> pystr \<Rightarrow> (pystr \<times> pystr) list \<Rightarrow> ('m, pystr) prep" where
  "prepare_selected w a e revision local =
     wf_bind (wf_from (rmapM selected_image (caller_owned a))) (\<lambda>callers.
       if list_ex (\<lambda>i. map_of local i \<noteq> None) callers then prep_fail
       else prepare_locked w a e revision local callers)"

definition prepare_images :: "'m prep_host \<Rightarrow> prep_args \<Rightarrow> ('m, pystr) prep" where
  "prepare_images w a =
     wf_bind (engine_selection w (engine_bin a)) (\<lambda>e.
       if podman e \<and> executor a \<notin> {None, Some []} then prep_fail
       else if start_target a \<notin> {None, Some ''_start-lite'', Some ''_start-full''} then prep_fail
       else case (if prep_revision a = None then map_of (prep_pins a) ''OS_SECURITY_UPDATE_REVISION'' else prep_revision a) of
         Some (c # version) \<Rightarrow>
           wf_bind (wf_from (local_images (local_targets a))) (prepare_selected w a e (c # version))
       | _ \<Rightarrow> prep_fail)"

section \<open>What causes no pull\<close>

lemma quiet_simple [simp]:
  "quiet P (wf_ret x)" "quiet P (wf_stop e)" "quiet P (wf_from r)" "quiet P (prep_get g)" "quiet P (prep_set h)"
  "quiet P (may_fail f)"
  by (auto simp: wf_bound_def wf_ret_def wf_stop_def wf_from_def prep_get_def prep_set_def may_fail_def
    split: prod.splits option.splits)

text \<open>A predicate on events that only pulls can satisfy.\<close>

definition pulls_only :: "(prep_event \<Rightarrow> bool) \<Rightarrow> bool" where
  "pulls_only P \<longleftrightarrow> (\<forall>e. P e \<longrightarrow> (\<exists>l. e = Pull l))"

lemma pulls_only_simps:
  assumes "pulls_only P"
  shows "\<not> P (Asked l c out)" "\<not> P (Make l env)" "\<not> P (Configuration e)"
  using assms by (auto simp: pulls_only_def)

lemma quiet_ask: "pulls_only P \<Longrightarrow> quiet P (ask w line)"
  by (auto simp: wf_bound_def ask_def pulls_only_simps split: prod.splits option.splits)

lemma quiet_visible: "\<not> P e \<Longrightarrow> quiet P (visible w e line)"
  by (auto simp: wf_bound_def visible_def split: prod.splits option.splits)

lemma pull_quiet_configuration: "pulls_only P \<Longrightarrow> quiet P (on_configuration m)"
  by (auto simp: wf_bound_def on_configuration_def pulls_only_simps filter_empty_conv split: prod.splits)

lemma quiet_ask_ok: "pulls_only P \<Longrightarrow> quiet P (ask_ok w line)"
  unfolding ask_ok_def by (auto intro!: quiet_bind quiet_ask)

lemma quiet_json_output: "pulls_only P \<Longrightarrow> quiet P (json_output w line)"
  unfolding json_output_def by (auto intro!: quiet_bind quiet_ask_ok split: option.splits)

lemma quiet_present: "pulls_only P \<Longrightarrow> quiet P (present w e b plat img)"
  unfolding present_def by (auto intro!: quiet_bind quiet_ask)

lemma quiet_engine_selection: "pulls_only P \<Longrightarrow> quiet P (engine_selection w b)"
  unfolding engine_selection_def platform_inspection_def Let_def
  by (auto intro!: quiet_bind quiet_json_output split: json.splits option.splits)

lemma quiet_active_model: "pulls_only P \<Longrightarrow> quiet P (active_model w a)"
  unfolding active_model_def Let_def
  by (auto intro!: quiet_bind quiet_json_output quiet_ask_ok split: json.splits)

lemma quiet_generation: "pulls_only P \<Longrightarrow> quiet P (read_generation w a v)"
  unfolding read_generation_def
  by (auto intro!: quiet_bind pull_quiet_configuration split: option.splits list.splits)

lemma quiet_sources: "quiet P (hash_sources w l)"
proof (induction l)
  case (Cons p l)
  have "quiet P (\<lambda>s. case surroundings (read_source w p) s of
         (None, s') \<Rightarrow> ([], s', Inl (Other_failure Disk_failed)) | (Some b, s') \<Rightarrow> ([], s', Inr b))"
    by (auto simp: wf_bound_def split: prod.splits option.splits)
  with Cons show ?case by (auto intro!: quiet_bind)
qed simp

lemma quiet_finish:
  "pulls_only P \<Longrightarrow> quiet P (configuration_identity w)" "quiet P (keep_overlay w n t)" "quiet P (keep_name w a n)"
  "quiet P (drop_name w a)" "pulls_only P \<Longrightarrow> quiet P (start_up w a e r c n)"
  unfolding configuration_identity_def keep_overlay_def keep_name_def drop_name_def start_up_def Let_def
  by (auto intro!: quiet_bind quiet_sources quiet_visible simp: pulls_only_simps split: option.splits)

text \<open>What the run has learnt: the engine, and the two answers of the engine's Compose command.\<close>

definition engine_settings :: "'m prep_host \<Rightarrow> prep_args \<Rightarrow> 'm prep_state \<Rightarrow> engine_use \<Rightarrow> (pystr \<times> pystr) list \<Rightarrow> bool" where
  "engine_settings w a s e local \<longleftrightarrow> (\<exists>es s'. engine_selection w (engine_bin a) s = (es, s', Inr e)) \<and>
     local_images (local_targets a) = Inr local"

definition compose_said :: "'m prep_host \<Rightarrow> prep_args \<Rightarrow> prep_event list \<Rightarrow> (pystr \<times> json) list \<Rightarrow> pystr list \<Rightarrow> bool" where
  "compose_said w a es contracts active \<longleftrightarrow>
     (let prefix = [engine_bin a, ''compose''] @ compose_arguments a @ [''config'', ''--no-env-resolution'']
      in \<exists>out m names. Asked (prefix @ [''--format'', ''json'']) 0 out \<in> set es \<and> json_text (conf_host w) out = Some (JObj m) \<and>
           jget m ''services'' = JObj contracts \<and> Asked (prefix @ [''--services'']) 0 names \<in> set es \<and>
           active = splitlines names \<and> active \<noteq> [] \<and> distinct active)"

lemma said_mono: "compose_said w a es contracts active \<Longrightarrow> set es \<subseteq> set es' \<Longrightarrow> compose_said w a es' contracts active"
  unfolding compose_said_def Let_def by blast

lemma asked_ok: "ask_ok w line s = (es, s', Inr out) \<Longrightarrow> es = [Asked line 0 out]"
  unfolding ask_ok_def
  by (auto simp: ask_def wf_ret_def wf_stop_def split: prod.splits option.splits if_splits elim!: wf_bind_Inr)

lemma asked_json: "json_output w line s = (es, s', Inr v) \<Longrightarrow> \<exists>out. es = [Asked line 0 out] \<and> json_text (conf_host w) out = Some v"
  unfolding json_output_def
  by (auto simp: wf_ret_def wf_stop_def split: option.splits elim!: wf_bind_Inr dest!: asked_ok)

lemma model_said:
  assumes "active_model w a s = (es, s', Inr (contracts, active))"
  shows "compose_said w a es contracts active"
proof -
  let ?prefix = "[engine_bin a, ''compose''] @ compose_arguments a @ [''config'', ''--no-env-resolution'']"
  obtain v s1 es1 names s2 es2 es3 where
    m: "json_output w (?prefix @ [''--format'', ''json'']) s = (es1, s1, Inr v)" and
    n: "ask_ok w (?prefix @ [''--services'']) s1 = (es2, s2, Inr names)" and
    es: "es = es1 @ es2 @ es3" and
    r: "(let active = splitlines names
       in case v of
            JObj m \<Rightarrow> (case jget m ''services'' of
               JObj contracts \<Rightarrow>
                 (if active = [] \<or> \<not> distinct active \<or> list_ex (\<lambda>x. map_of contracts x = None) active then prep_fail
                  else wf_ret (contracts, active))
             | _ \<Rightarrow> prep_fail)
          | _ \<Rightarrow> prep_fail) s2 = (es3, s', Inr (contracts, active))"
    using assms unfolding active_model_def Let_def by (elim wf_bind_Inr) (blast intro: that)
  obtain k where k: "v = JObj k" "jget k ''services'' = JObj contracts" "active = splitlines names" "active \<noteq> []" "distinct active"
    using r by (auto simp: Let_def wf_ret_def wf_stop_def split: json.splits if_splits)
  obtain out where "es1 = [Asked (?prefix @ [''--format'', ''json'']) 0 out]" "json_text (conf_host w) out = Some v"
    using asked_json [OF m] by blast
  with k asked_ok [OF n] es show ?thesis unfolding compose_said_def Let_def
    by (intro exI [of _ out] exI [of _ k] exI [of _ names]) simp
qed

lemma map_of_put: "map_of (put k v l) = (map_of l)(k \<mapsto> v)"
  by (induction k v l rule: put.induct) (auto simp: fun_eq_iff)

lemma put_keys: "fst ` set (put k v l) = insert k (fst ` set l)"
  by (induction k v l rule: put.induct) auto

lemma put_distinct: "distinct (map fst l) \<Longrightarrow> distinct (map fst (put k v l))"
  by (induction k v l rule: put.induct) (auto simp: put_keys)

lemma put_members: "x \<in> set (put k v l) \<Longrightarrow> x = (k, v) \<or> x \<in> set l"
  by (induction k v l rule: put.induct) (auto split: if_splits)

lemma put_new: "k \<notin> fst ` set l \<Longrightarrow> put k v l = l @ [(k, v)]"
  by (induction k v l rule: put.induct) auto

lemma selected_choices:
  "\<lbrakk>select_services e local contracts svcs images choices = Inr (images', choices'); distinct (map fst choices @ svcs)\<rbrakk> \<Longrightarrow>
    map fst choices' = map fst choices @ svcs \<and>
    (\<forall>svc ip. (svc, ip) \<in> set choices' \<longrightarrow> (svc, ip) \<in> set choices \<or> selected_service e local (jget contracts svc) = Inr ip)"
proof (induction svcs arbitrary: images choices)
  case (Cons svc svcs)
  then obtain img plat where c: "selected_service e local (jget contracts svc) = Inr (img, plat)"
      "select_services e local contracts svcs (put img plat images) (put svc (img, plat) choices) = Inr (images', choices')"
    by (auto simp: rbind_Inr_iff split: if_splits)
  have p: "put svc (img, plat) choices = choices @ [(svc, img, plat)]" using Cons(3) by (intro put_new) auto
  then have "distinct (map fst (put svc (img, plat) choices) @ svcs)" using Cons(3) by auto
  from Cons(1) [OF c(2) this] c(1) show ?case by (auto simp: p)
qed simp

lemma selected_images:
  "\<lbrakk>select_services e local contracts svcs images choices = Inr (images', choices'); ip \<in> set images'\<rbrakk> \<Longrightarrow>
    ip \<in> set images \<or> (\<exists>svc \<in> set svcs. selected_service e local (jget contracts svc) = Inr ip)"
proof (induction svcs arbitrary: images choices)
  case (Cons svc svcs)
  then obtain img plat where c: "selected_service e local (jget contracts svc) = Inr (img, plat)"
      "select_services e local contracts svcs (put img plat images) (put svc (img, plat) choices) = Inr (images', choices')"
    by (auto simp: rbind_Inr_iff split: if_splits)
  from Cons(1) [OF c(2) Cons(3)] c(1) show ?case by (auto dest!: put_members)
qed simp

section \<open>Only reviewed images are pulled\<close>

text \<open>An image of an active service or of the executor, for its platform.\<close>

definition wanted_image ::
  "'m prep_host \<Rightarrow> prep_args \<Rightarrow> engine_use \<Rightarrow> (pystr \<times> pystr) list \<Rightarrow> prep_event list \<Rightarrow> pystr \<Rightarrow> pystr \<Rightarrow> bool" where
  "wanted_image w a e local es img plat \<longleftrightarrow>
     (\<exists>contracts active svc. compose_said w a es contracts active \<and> svc \<in> set active \<and>
        selected_service e local (jget contracts svc) = Inr (img, plat)) \<or>
     (\<exists>x. executor a = Some x \<and> selected_image x = Inr img \<and> plat = native_platform e)"

text \<open>
  The reference of an image that is not built here: the name with its own digest; the name with the digest the
  inventory has for this very name; or, when the inventory has none, the bare name, if the caller has chosen the image.
\<close>

definition reviewed_or_chosen :: "prep_args \<Rightarrow> pystr \<Rightarrow> pystr \<Rightarrow> bool" where
  "reviewed_or_chosen a img ref \<longleftrightarrow>
     (if CHR ''@'' \<in> set img then digest_ok (after_at img) \<and> ref = img
      else (\<exists>d. registry_digest (inventory a) img = Some (JStr d) \<and> digest_ok d \<and> ref = img @ ''@'' @ d) \<or>
           registry_digest (inventory a) img = Some JNull \<and> ref = img \<and> Inr img \<in> selected_image ` set (caller_owned a))"

lemma selected_image_stable: "selected_image c = Inr i \<Longrightarrow> normalized i = Some i"
  using normalized_settled settled_stable by (auto simp: selected_image_def split: if_splits option.splits)

lemma service_image_stable: "selected_service e local v = Inr (img, plat) \<Longrightarrow> normalized img = Some img"
  by (auto simp: selected_service_def rbind_Inr_iff dest: selected_image_stable split: if_splits json.splits)

lemma wanted_stable: "wanted_image w a e local es img plat \<Longrightarrow> normalized img = Some img"
  by (auto simp: wanted_image_def dest: selected_image_stable service_image_stable)

lemma reference_allowed:
  assumes "rmapM selected_image (caller_owned a) = Inr callers" "image_reference a local callers img = Inr ref"
    and "map_of local img = None" "normalized img = Some img"
  shows "reviewed_or_chosen a img ref"
proof -
  have "reviewed_reference img (inventory a) (img \<notin> set callers) = Some ref"
    using assms(2,3) by (auto simp: image_reference_def split: option.splits)
  then have "reviewed_or_chosen a img ref \<or> registry_digest (inventory a) img = Some JNull \<and> ref = img \<and> img \<in> set callers \<and>
      CHR ''@'' \<notin> set img"
    using assms(4) by (auto simp: reviewed_reference_def reviewed_or_chosen_def split: if_splits option.splits json.splits)
  moreover have "Inr img \<in> selected_image ` set (caller_owned a)" if "img \<in> set callers"
    using rmapM_Inr_set [OF assms(1)] that by force
  ultimately show ?thesis by (auto simp: reviewed_or_chosen_def)
qed

lemma no_pull: "quiet (\<lambda>e. e = Pull l) m \<Longrightarrow> Pull l \<notin> set (fst (m s))"
  using quiet_no_event [of "\<lambda>e. e = Pull l" m "Pull l" s] by blast

lemma no_pull_run: "\<lbrakk>m s = (es, s', r); Pull l \<in> set es; quiet (\<lambda>e. e = Pull l) m\<rbrakk> \<Longrightarrow> False"
  using no_pull [of l m s] by simp

lemma single_pull [simp]: "pulls_only (\<lambda>e. e = Pull l)"
  unfolding pulls_only_def by blast

lemma obtain_pull:
  assumes "Pull line \<in> set (fst (obtain_image w a local img plat ref s))"
  shows "map_of local img = None \<and> line = pull_line a plat ref"
  using assms by (auto simp: obtain_image_def visible_def split: option.splits prod.splits)

lemma resolve_pull:
  assumes "resolve_image w a e local callers (img, plat) s = (es, s', r)" "Pull line \<in> set es"
  shows "\<exists>ref. line = pull_line a plat ref \<and> map_of local img = None \<and> image_reference a local callers img = Inr ref"
proof -
  have q [simp]: "Pull line \<notin> set (fst (present w e (engine_bin a) plat ref t))" for ref t
    by (intro no_pull quiet_present) simp
  obtain ref t es1 r1 s1 where r: "image_reference a local callers img = Inr ref" and
    w: "wf_bind (obtain_image w a local img plat ref) (\<lambda>_.
            wf_bind (present w e (engine_bin a) plat ref) (\<lambda>now.
              if now then wf_ret ref else prep_fail)) t = (es1, s1, r1)" "Pull line \<in> set es1"
    using assms unfolding resolve_image_def
    by (auto simp: wf_from_def wf_ret_def split: if_splits elim!: later_event)
  have "Pull line \<in> set (fst (obtain_image w a local img plat ref t))"
  proof (rule ccontr)
    assume "Pull line \<notin> set (fst (obtain_image w a local img plat ref t))"
    with w show False by (auto simp: wf_ret_def wf_stop_def split: if_splits elim!: later_event)
  qed
  with obtain_pull r show ?thesis by blast
qed

lemma resolve_all_pull:
  "\<lbrakk>resolve_images w a e local callers l s = (es, s', r); Pull line \<in> set es\<rbrakk> \<Longrightarrow>
    \<exists>img plat ref. (img, plat) \<in> set l \<and> line = pull_line a plat ref \<and> map_of local img = None \<and>
      image_reference a local callers img = Inr ref"
proof (induction l arbitrary: s es s' r)
  case (Cons ip l)
  obtain img plat where ip: "ip = (img, plat)" by (cases ip)
  show ?case
  proof (cases "Pull line \<in> set (fst (resolve_image w a e local callers ip s))")
    case True
    then have "\<exists>ref. line = pull_line a plat ref \<and> map_of local img = None \<and> image_reference a local callers img = Inr ref"
      unfolding ip by (rule resolve_pull [OF run_split])
    then show ?thesis by (auto simp: ip)
  next
    case False
    then obtain s1 where "Pull line \<in> set (fst (resolve_images w a e local callers l s1))"
      using Cons(2,3) by (auto simp: wf_ret_def elim!: later_event)
    then have "\<exists>img plat ref. (img, plat) \<in> set l \<and> line = pull_line a plat ref \<and> map_of local img = None \<and>
      image_reference a local callers img = Inr ref"
      by (rule Cons(1) [OF run_split])
    then show ?thesis by auto
  qed
qed (simp add: wf_ret_def)

lemma locked_pull:
  assumes "prepare_locked w a e v local callers s = (es, s', r)" "Pull line \<in> set es"
    and "rmapM selected_image (caller_owned a) = Inr callers"
  shows "\<exists>img plat ref. line = pull_line a plat ref \<and> map_of local img = None \<and> reviewed_or_chosen a img ref \<and>
    wanted_image w a e local es img plat"
proof -
  have q [simp]: "Pull line \<notin> set (fst (may_fail (lock_state_dir w) t))" "Pull line \<notin> set (fst (read_generation w a v t))"
    "Pull line \<notin> set (fst (drop_name w a t))" "Pull line \<notin> set (fst (active_model w a t))"
    "Pull line \<notin> set (fst (hand_over w a e v g im ch re t))" for t g im ch re
    unfolding hand_over_def Let_def
    by (auto intro!: no_pull quiet_bind quiet_generation quiet_finish quiet_active_model)
  have h: "hand_over w a e v g im ch re t = (es3, s3, r3) \<Longrightarrow> Pull line \<notin> set es3" for g im ch re t es3 s3 r3
    using q(5) [of g im ch re t] by simp
  obtain s1 es1 s2 contracts active images0 choices images s3 where
    m: "active_model w a s1 = (es1, s2, Inr (contracts, active))" "set es1 \<subseteq> set es" and
    sel: "select_services e local contracts active [] [] = Inr (images0, choices)"
      "with_executor e (executor a) images0 = Inr images" and
    p: "Pull line \<in> set (fst (resolve_images w a e local callers (sort_key fst images) s3))"
    using assms(1,2) unfolding prepare_locked_def
    by (auto simp: wf_from_def elim!: later_event dest: h) (erule notE, rule that, assumption, blast, assumption+)
  have "\<exists>img plat ref. (img, plat) \<in> set (sort_key fst images) \<and> line = pull_line a plat ref \<and> map_of local img = None \<and>
      image_reference a local callers img = Inr ref"
    by (rule resolve_all_pull [OF run_split p])
  then obtain img plat ref where f: "(img, plat) \<in> set images" "line = pull_line a plat ref" "map_of local img = None"
      "image_reference a local callers img = Inr ref"
    by auto
  have "(img, plat) \<in> set images0 \<or> (\<exists>x. executor a = Some x \<and> selected_image x = Inr img \<and> plat = native_platform e)"
    using sel(2) f(1) by (auto simp: with_executor_def rbind_Inr_iff split: option.splits list.splits if_splits dest!: put_members)
  then have "wanted_image w a e local es img plat"
    using selected_images [OF sel(1), of "(img, plat)"] said_mono [OF model_said [OF m(1)] m(2)]
    unfolding wanted_image_def by force
  with f reference_allowed [OF assms(3) f(4,3) wanted_stable] show ?thesis by blast
qed

text \<open>
  C38 (safety). Only reviewed images are pulled: whatever the engine and the Compose model answer, each pull of a
  preparation is of the image of a service that the Compose model has listed as active, or of the executor, on
  the platform selected for it, and no image with a local builder is pulled. The reference pulled is the
  image's name with its own full digest, or the name with the full digest the inventory has reviewed for that very name;
  a name without a digest only where the inventory has none and the caller has chosen that image.
\<close>

theorem pulled_reviewed_or_chosen:
  assumes "Pull line \<in> set (fst (prepare_images w a s))"
  shows "\<exists>e local img plat ref. line = pull_line a plat ref \<and> engine_settings w a s e local \<and>
    wanted_image w a e local (fst (prepare_images w a s)) img plat \<and> map_of local img = None \<and> reviewed_or_chosen a img ref"
proof -
  let ?es = "fst (prepare_images w a s)"
  have q [simp]: "Pull line \<notin> set (fst (engine_selection w b t))" for b t
    by (auto intro!: no_pull quiet_engine_selection)
  obtain s' r where run: "prepare_images w a s = (?es, s', r)" by (cases "prepare_images w a s") simp
  obtain e v local s1 es1 where e: "engine_settings w a s e local" and
      p: "prepare_selected w a e v local s1 = (es1, s', r)" "Pull line \<in> set es1" "set es1 \<subseteq> set ?es"
    using run assms unfolding prepare_images_def engine_settings_def
    by (auto simp: wf_from_def wf_stop_def split: if_splits option.splits list.splits elim!: later_event)
  obtain callers s2 es2 where c: "rmapM selected_image (caller_owned a) = Inr callers" and
      l: "prepare_locked w a e v local callers s2 = (es2, s', r)" "Pull line \<in> set es2" "set es2 \<subseteq> set ?es"
    using p unfolding prepare_selected_def
    by (auto simp: wf_from_def wf_stop_def split: if_splits elim!: later_event)
  have "wanted_image w a e local es2 img plat \<Longrightarrow> wanted_image w a e local ?es img plat"
    for img plat using said_mono [OF _ l(3)] unfolding wanted_image_def by blast
  with locked_pull [OF l(1,2) c] e show ?thesis by blast
qed

section \<open>Prepared images are present\<close>

text \<open>Each chosen service has its image among the images, for its platform.\<close>

definition choices_covered :: "(pystr \<times> pystr) list \<Rightarrow> service_choice list \<Rightarrow> bool" where
  "choices_covered images choices \<longleftrightarrow> distinct (map fst images) \<and>
     (\<forall>svc img plat. (svc, img, plat) \<in> set choices \<longrightarrow> map_of images img = Some plat)"

lemma select_covered:
  "select_services e local contracts svcs images choices = Inr (images', choices') \<Longrightarrow>
    choices_covered images choices \<Longrightarrow> choices_covered images' choices'"
proof (induction svcs arbitrary: images choices)
  case (Cons svc svcs)
  then obtain img plat where c: "map_of images img = None \<or> map_of images img = Some plat"
      "select_services e local contracts svcs (put img plat images) (put svc (img, plat) choices) = Inr (images', choices')"
    by (auto simp: rbind_Inr_iff split: if_splits)
  have "choices_covered (put img plat images) (put svc (img, plat) choices)"
    using Cons(3) c(1) unfolding choices_covered_def
    by (auto simp: map_of_put put_distinct simp del: map_of_eq_Some_iff dest!: put_members)
  with Cons(1) c(2) show ?case by blast
qed simp

lemma executor_covered:
  "with_executor e ex images = Inr images' \<Longrightarrow> choices_covered images choices \<Longrightarrow> choices_covered images' choices"
  unfolding choices_covered_def with_executor_def
  by (auto simp: rbind_Inr_iff map_of_put put_distinct simp del: map_of_eq_Some_iff
    split: option.splits list.splits if_splits)

definition seen_on :: "'m prep_host \<Rightarrow> prep_args \<Rightarrow> engine_use \<Rightarrow> prep_event list \<Rightarrow> pystr \<Rightarrow> pystr \<Rightarrow> bool" where
  "seen_on w a e es ref plat \<longleftrightarrow> (\<exists>out. Asked (inspect_line e (engine_bin a) plat ref) 0 out \<in> set es \<and>
     inspected_platform w out = Inr plat)"

lemma seen_mono: "seen_on w a e es ref plat \<Longrightarrow> set es \<subseteq> set es' \<Longrightarrow> seen_on w a e es' ref plat"
  by (auto simp: seen_on_def)

lemma seen_append [simp]: "seen_on w a e (es @ es') ref plat \<longleftrightarrow> seen_on w a e es ref plat \<or> seen_on w a e es' ref plat"
  by (auto simp: seen_on_def)

lemma present_seen:
  assumes "present w e (engine_bin a) plat ref s = (es, s', Inr True)"
  shows "seen_on w a e es ref plat"
proof -
  obtain code out s1 es1 es2 where ask: "ask w (inspect_line e (engine_bin a) plat ref) s = (es1, s1, Inr (code, out))" and
    r: "(if code \<noteq> 0 then wf_ret False
       else wf_bind (wf_from (inspected_platform w out)) (\<lambda>actual. wf_ret (actual = plat))) s1 = (es2, s', Inr True)" and
    es: "es = es1 @ es2"
    using assms unfolding present_def by (auto elim!: wf_bind_Inr)
  have "code = 0" "inspected_platform w out = Inr plat"
    using r by (auto simp: wf_ret_def wf_from_def split: if_splits elim!: wf_bind_Inr)
  moreover have "es1 = [Asked (inspect_line e (engine_bin a) plat ref) code out]"
    using ask by (auto simp: ask_def split: prod.splits option.splits)
  ultimately show ?thesis by (auto simp: seen_on_def es)
qed

lemma resolve_seen:
  assumes "resolve_image w a e local callers (img, plat) s = (es, s', Inr ref)"
  shows "seen_on w a e es ref plat" "image_reference a local callers img = Inr ref"
  using assms unfolding resolve_image_def
  by (auto simp: wf_ret_def wf_stop_def wf_from_def split: if_splits elim!: wf_bind_Inr
    dest!: present_seen)

lemma resolve_all_seen:
  "\<lbrakk>resolve_images w a e local callers l s = (es, s', Inr resolved); distinct (map fst l); map_of l img = Some plat\<rbrakk> \<Longrightarrow>
    seen_on w a e es (reference_of resolved img) plat \<and> image_reference a local callers img = Inr (reference_of resolved img)"
proof (induction l arbitrary: s es resolved)
  case (Cons ip l)
  obtain i p where ip: "ip = (i, p)" by (cases ip)
  from Cons(2) obtain ref s1 es1 refs es2 where r: "resolve_image w a e local callers (i, p) s = (es1, s1, Inr ref)"
      "resolve_images w a e local callers l s1 = (es2, s', Inr refs)" "resolved = (i, ref) # refs" "es = es1 @ es2"
    by (auto simp: ip wf_ret_def elim!: wf_bind_Inr)
  show ?case
  proof (cases "img = i")
    case True
    then have "plat = p" "reference_of resolved img = ref" using Cons(4) r(3) by (auto simp: ip reference_of_def)
    with True resolve_seen [OF r(1)] r(4) show ?thesis by (auto intro: seen_mono)
  next
    case False
    then have "map_of l img = Some plat" "reference_of resolved img = reference_of refs img"
      using Cons(4) r(3) by (auto simp: ip reference_of_def)
    with Cons(1) [OF r(2)] Cons(3) r(4) show ?thesis by (auto intro: seen_mono)
  qed
qed simp

lemma overlay_kept:
  "keep_overlay w n t s = (es, s', Inr x) \<Longrightarrow> overlays s' n = Some t"
  unfolding keep_overlay_def
  by (auto simp: prep_get_def prep_set_def wf_ret_def wf_stop_def split: option.splits if_splits elim!: wf_bind_Inr)

lemma surroundings_overlays: "surroundings f s = (x, s') \<Longrightarrow> overlays s' = overlays s"
  by (auto simp: surroundings_def split: prod.splits)

lemma later_overlays:
  "keep_name w a n s = (es, s', Inr x) \<Longrightarrow> overlays s' = overlays s"
  "start_up w a e r c n s = (es, s', Inr x) \<Longrightarrow> overlays s' = overlays s"
  unfolding keep_name_def start_up_def Let_def
  by (auto simp: prep_set_def may_fail_def visible_def wf_ret_def split: option.splits if_splits prod.splits
    elim!: wf_bind_Inr dest!: surroundings_overlays)

text \<open>
  The file has one entry for each active service, in any order: the image and the platform the service's own contract
  selects. The reference is the image itself, where it is built here, and an allowed one otherwise, and
  an inspection in this run has reported it on that platform.
\<close>

definition overlay_ready :: "'m prep_host \<Rightarrow> prep_args \<Rightarrow> 'm prep_state \<Rightarrow> prep_event list \<Rightarrow> pystr option \<Rightarrow> bool" where
  "overlay_ready w a s es file \<longleftrightarrow> (\<exists>e local contracts active resolved choices.
     engine_settings w a s e local \<and> compose_said w a es contracts active \<and>
     file = Some (overlay_text w resolved choices) \<and> map fst choices = active \<and>
     (\<forall>(svc, img, plat) \<in> set choices.
        selected_service e local (jget contracts svc) = Inr (img, plat) \<and>
        (if map_of local img \<noteq> None then reference_of resolved img = img else reviewed_or_chosen a img (reference_of resolved img)) \<and>
        seen_on w a e es (reference_of resolved img) plat))"

lemma handed_over:
  assumes "hand_over w a e v g images choices resolved s = (es, s', Inr n)"
  shows "overlays s' n = Some (overlay_text w resolved choices)"
proof -
  obtain s3 es4 s4 x es5 s5 y es6 where
    keep: "keep_overlay w n (overlay_text w resolved choices) s3 = (es4, s4, Inr x)" and
    later: "keep_name w a n s4 = (es5, s5, Inr y)" "start_up w a e resolved choices n s5 = (es6, s', Inr ())"
    using assms unfolding hand_over_def Let_def by (auto simp: wf_ret_def elim!: wf_bind_Inr)
  show ?thesis
    using overlay_kept [OF keep] later_overlays(1) [OF later(1)] later_overlays(2) [OF later(2)] by simp
qed

lemma locked_ready:
  assumes "prepare_locked w a e v local callers s = (es, s', Inr n)" "rmapM selected_image (caller_owned a) = Inr callers"
    and "engine_settings w a s0 e local" "set es \<subseteq> set es0"
  shows "overlay_ready w a s0 es0 (overlays s' n)"
proof -
  obtain contracts active images0 choices images resolved g s0 s1 s2 es1 es2 es3 sm where
    model: "active_model w a s0 = (es1, sm, Inr (contracts, active))" "set es1 \<subseteq> set es" and
    sel: "select_services e local contracts active [] [] = Inr (images0, choices)"
      "with_executor e (executor a) images0 = Inr images" and
    res: "resolve_images w a e local callers (sort_key fst images) s1 = (es2, s2, Inr resolved)" and
    hand: "hand_over w a e v g images choices resolved s2 = (es3, s', Inr n)" and
    sub: "set es2 \<subseteq> set es"
    using assms(1) unfolding prepare_locked_def
    by (auto simp: wf_from_def elim!: wf_bind_Inr) blast
  have said: "compose_said w a es0 contracts active"
    by (rule said_mono [OF model_said [OF model(1)]]) (use model(2) assms(4) in blast)
  then have "distinct active" by (auto simp: compose_said_def Let_def)
  then have ch: "map fst choices = active" "\<And>svc ip. (svc, ip) \<in> set choices \<Longrightarrow> selected_service e local (jget contracts svc) = Inr ip"
    using selected_choices [OF sel(1)] by auto
  have c: "choices_covered images choices"
    by (intro executor_covered [OF sel(2)] select_covered [OF sel(1)]) (simp add: choices_covered_def)
  then have d: "distinct (map fst (sort_key fst images))" by (simp add: choices_covered_def distinct_map)
  have "map_of (sort_key fst images) img = Some plat" if "(svc, img, plat) \<in> set choices" for svc img plat
  proof -
    have "map_of images img = Some plat" using c that by (auto simp: choices_covered_def)
    then have "(img, plat) \<in> set (sort_key fst images)" using map_of_SomeD by simp
    with d show ?thesis by simp
  qed
  then have r: "seen_on w a e es0 (reference_of resolved img) plat \<and> image_reference a local callers img = Inr (reference_of resolved img)"
    if "(svc, img, plat) \<in> set choices" for svc img plat
    using resolve_all_seen [OF res d] that sub assms(4) by (blast intro: seen_mono)
  have "if map_of local img \<noteq> None then reference_of resolved img = img else reviewed_or_chosen a img (reference_of resolved img)"
    if "(svc, img, plat) \<in> set choices" for svc img plat
    using r [OF that] reference_allowed [OF assms(2) _ _ service_image_stable [OF ch(2) [OF that]]]
    by (auto simp: image_reference_def)
  with r ch said handed_over [OF hand] assms(3) show ?thesis unfolding overlay_ready_def by blast
qed

text \<open>
  C39 (functional). What a preparation hands over is there: when it returns the name of an overlay, that file
  holds exactly one entry for each service that the engine's Compose command has listed as active in this run, with the image
  and the platform selected from the service's own contract; the image is named by its own name where it is built locally and by
  an allowed reference otherwise, and the engine has reported, in this run, an image under that very reference on that
  very platform.
\<close>

theorem prepared_images_present:
  assumes "prepare_images w a s = (es, s', Inr n)"
  shows "overlay_ready w a s es (overlays s' n)"
proof -
  obtain e v local s1 es1 es2 where set: "engine_settings w a s e local" and
      "prepare_selected w a e v local s1 = (es2, s', Inr n)" and sub: "es = es1 @ es2"
    using assms unfolding prepare_images_def engine_settings_def
    by (auto simp: wf_stop_def wf_from_def split: if_splits option.splits list.splits elim!: wf_bind_Inr)
  then obtain es3 s2 callers where "prepare_locked w a e v local callers s2 = (es3, s', Inr n)" "set es3 \<subseteq> set es"
      "rmapM selected_image (caller_owned a) = Inr callers"
    unfolding prepare_selected_def by (auto simp: wf_stop_def wf_from_def split: if_splits elim!: wf_bind_Inr)
  with set locked_ready show ?thesis by blast
qed

section \<open>A run\<close>

text \<open>A Docker engine that has an image only after it was pulled.\<close>

definition sample_engine :: "pystr list \<Rightarrow> bool \<Rightarrow> (int \<times> pystr) option \<times> bool" where
  "sample_engine line pulled =
     (if line ! 1 = ''image'' then (Some (if pulled then 0 else 1, ''image''), pulled)
      else if line ! 1 = ''info'' then (Some (0, ''info''), pulled)
      else if line ! 1 = ''version'' then (Some (0, ''version''), pulled)
      else if last line = ''json'' then (Some (0, ''model''), pulled)
      else (Some (0, ''api''), pulled))"

definition sample_json :: "pystr \<Rightarrow> json option" where
  "sample_json t = Some
     (if t = ''image'' then JList [JObj [(''Os'', JStr ''linux''), (''Architecture'', JStr ''amd64'')]]
      else if t = ''info'' then JObj [(''ID'', JStr ''i''), (''DockerRootDir'', JStr ''/d''), (''OSType'', JStr ''linux''),
        (''Architecture'', JStr ''x86_64'')]
      else if t = ''version'' then JObj [(''ClientAPIVersion'', JStr ''1.49''), (''ServerAPIVersion'', JStr ''1.50'')]
      else JObj [(''services'', JObj [(''api'', JObj [(''image'', JStr ''a:1'')])])])"

definition sample_conf_host :: "bool conf_host" where
  "sample_conf_host = \<lparr>sha256 = (\<lambda>b. ''h''), utf8_text = Some, json_text = sample_json, url_quoted = (\<lambda>r. r),
     download = (\<lambda>url m. (Inr [], m)), command = (\<lambda>line m. (None, m)), disk = (\<lambda>m. (Disk_ok, m)),
     token_hex = (\<lambda>m. ([], m)), stage_dir = [], generator_bytes = [], identity_files = [], ownership = []\<rparr>"

definition sample_prep_host :: "bool prep_host" where
  "sample_prep_host = \<lparr>conf_host = sample_conf_host, engine = sample_engine, foreground = (\<lambda>l m. (Some 0, True)),
     lock_state_dir = (\<lambda>m. (None, m)), file_write = (\<lambda>m. (None, m)), read_source = (\<lambda>p m. (Some [], m)),
     path_separator = CHR '':'', stamp_digest = (\<lambda>st. []), prep_environ = [''COMPOSE_FILE'' \<mapsto> ''c.yaml''],
     json_line = (\<lambda>v. []), compact_line = (\<lambda>v. ''overlay''), str_value = (\<lambda>v. []), resolved_path = (\<lambda>p. p)\<rparr>"

definition sample_digest :: pystr where
  "sample_digest = ''sha256:'' @ replicate 64 (CHR ''a'')"

definition sample_prep_args :: prep_args where
  "sample_prep_args = \<lparr>engine_bin = ''docker'',
     inventory = [(''registry_digests'', JObj [(''docker.io/library/a:1'', JStr sample_digest)])], prep_pins = [],
     local_targets = [], caller_owned = [], compose_arguments = [], executor = None, write_name = False,
     make_command = [''make''], prep_revision = Some ''1'', start_target = None, stamp_name = None\<rparr>"

definition sample_prep_state :: "bool prep_state" where
  "sample_prep_state = \<lparr>configured = \<lparr>artifacts = (\<lambda>r. None), stamp = No_stamp,
     env_now = \<lparr>env_is_link = False, env_text = None\<rparr>, outside = False\<rparr>, overlays = (\<lambda>n. None), overlay_name = None\<rparr>"

abbreviation sample_run :: "prep_event list \<times> bool prep_state \<times> (prep_failure + pystr)" where
  "sample_run \<equiv> prepare_images sample_prep_host sample_prep_args sample_prep_state"

lemma sample_result: "snd (snd sample_run) = Inr ''h.json''"
  by code_simp

definition sample_reference :: pystr where
  "sample_reference = ''docker.io/library/a:1@'' @ sample_digest"

lemma sample_pull: "list_ex (\<lambda>e. e = Pull (pull_line sample_prep_args ''linux/amd64'' sample_reference)) (fst sample_run)"
  by code_simp

lemma pulled_reviewed_or_chosen_witness:
  "\<exists>e local img plat ref. pull_line sample_prep_args ''linux/amd64'' sample_reference = pull_line sample_prep_args plat ref \<and>
     engine_settings sample_prep_host sample_prep_args sample_prep_state e local \<and>
     wanted_image sample_prep_host sample_prep_args e local (fst sample_run) img plat \<and> map_of local img = None \<and>
     reviewed_or_chosen sample_prep_args img ref"
  using sample_pull by (intro pulled_reviewed_or_chosen) (auto simp: list_ex_iff)

lemma prepared_images_present_witness:
  "overlay_ready sample_prep_host sample_prep_args sample_prep_state (fst sample_run) (overlays (fst (snd sample_run)) ''h.json'')"
  by (rule prepared_images_present) (use sample_result in \<open>metis prod.collapse\<close>)

end
