(* ===== verification/Doc_Drop.thy ===== *)
theory Doc_Drop
  imports PyUrl
begin

text \<open>
  The web server of the document drop, \<open>src/onyx/doc_drop_webserver.py\<close>: which paths a request may reach, the
  listing of a directory, the handler and the bound on the requests served at a time. What the code uses of
  \<open>posixpath\<close> and of \<open>SimpleHTTPRequestHandler\<close> (\<open>translate_path\<close>, \<open>send_head\<close>) is written out; the file system
  is an argument.
\<close>

section \<open>Paths\<close>

definition path_join :: "pystr \<Rightarrow> pystr \<Rightarrow> pystr" where
  "path_join a b = (if starts_with b ''/'' then b else if a = [] \<or> ends_with a ''/'' then a @ b else a @ ''/'' @ b)"

fun norm_parts :: "bool \<Rightarrow> pystr list \<Rightarrow> pystr list \<Rightarrow> pystr list" where
  "norm_parts absolute acc [] = acc"
| "norm_parts absolute acc (c # cs) =
     (if c = [] \<or> c = ''.'' then norm_parts absolute acc cs
      else if c \<noteq> ''..'' \<or> (\<not> absolute \<and> acc = []) \<or> (acc \<noteq> [] \<and> last acc = ''..'')
      then norm_parts absolute (acc @ [c]) cs
      else norm_parts absolute (butlast acc) cs)"

definition normpath :: "pystr \<Rightarrow> pystr" where
  "normpath p =
     (let slashes = (if starts_with p ''//'' \<and> \<not> starts_with p ''///'' then ''//'' else if starts_with p ''/'' then ''/'' else []);
          q = slashes @ join ''/'' (norm_parts (slashes \<noteq> []) [] (split_on (CHR ''/'') p))
      in if q = [] then ''.'' else q)"

record drop_fs =
  link_at :: "pystr \<Rightarrow> bool"
  real_path :: "pystr \<Rightarrow> pystr"
  working_dir :: pystr

definition abs_path :: "drop_fs \<Rightarrow> pystr \<Rightarrow> pystr" where
  "abs_path fs p = normpath (if starts_with p ''/'' then p else path_join (working_dir fs) p)"

fun common_prefix :: "pystr list \<Rightarrow> pystr list \<Rightarrow> pystr list" where
  "common_prefix (x # xs) (y # ys) = (if x = y then x # common_prefix xs ys else [])"
| "common_prefix _ _ = []"

definition nonempty_parts :: "pystr \<Rightarrow> pystr list" where
  "nonempty_parts p = filter (\<lambda>x. x \<noteq> []) (split_on (CHR ''/'') p)"

definition relpath :: "drop_fs \<Rightarrow> pystr \<Rightarrow> pystr \<Rightarrow> pystr" where
  "relpath fs p start =
     (let a = nonempty_parts (abs_path fs start); b = nonempty_parts (abs_path fs p);
          i = length (common_prefix a b);
          r = replicate (length a - i) ''..'' @ drop i b
      in if r = [] then ''.'' else join ''/'' r)"

text \<open>\<open>os.path.commonpath\<close> of two absolute paths.\<close>

definition commonpath :: "pystr \<Rightarrow> pystr \<Rightarrow> pystr" where
  "commonpath p q = ''/'' @ join ''/'' (common_prefix
     (filter (\<lambda>x. x \<noteq> ''.'') (nonempty_parts p)) (filter (\<lambda>x. x \<noteq> ''.'') (nonempty_parts q)))"

section \<open>Allowed paths\<close>

definition is_hidden_name :: "pystr \<Rightarrow> bool" where
  "is_hidden_name n \<longleftrightarrow> starts_with n ''.'' \<or> n = ''.DS_Store'' \<or> n = ''__pycache__''"

definition path_contains_hidden_name :: "pystr \<Rightarrow> bool" where
  "path_contains_hidden_name p \<longleftrightarrow> list_ex is_hidden_name (split_on (CHR ''/'') (normpath p))"

fun no_links :: "drop_fs \<Rightarrow> pystr \<Rightarrow> pystr list \<Rightarrow> bool" where
  "no_links fs current [] = True"
| "no_links fs current (part # parts) =
     (if part = [] \<or> part = ''.'' then no_links fs current parts
      else \<not> link_at fs (path_join current part) \<and> no_links fs (path_join current part) parts)"

definition path_is_confined :: "drop_fs \<Rightarrow> pystr \<Rightarrow> pystr \<Rightarrow> bool" where
  "path_is_confined fs p directory =
     (let lexical = abs_path fs directory; base = real_path fs lexical; candidate = abs_path fs p;
          relative = relpath fs candidate lexical
      in if relative = ''..'' \<or> starts_with relative ''../'' then False
         else no_links fs base (split_on (CHR ''/'') relative) \<and>
              commonpath base (real_path fs candidate) = base)"

text \<open>\<open>SimpleHTTPRequestHandler.translate_path\<close>.\<close>

definition before_c :: "char \<Rightarrow> pystr \<Rightarrow> pystr" where
  "before_c c p = fst (partition_c c p)"

definition translate_path :: "codec \<Rightarrow> pystr \<Rightarrow> pystr \<Rightarrow> pystr" where
  "translate_path u directory raw =
     (let p = before_c (CHR ''?'') (before_c (CHR ''#'') raw);
          slash = ends_with (rstrip_by is_space p) ''/'';
          names = filter (\<lambda>x. CHR ''/'' \<notin> set x \<and> x \<noteq> ''.'' \<and> x \<noteq> ''..'') (nonempty_parts (normpath (unquote u p)))
      in foldl path_join directory names @ (if slash then ''/'' else []))"

section \<open>Listings\<close>

fun html_escape :: "pystr \<Rightarrow> pystr" where
  "html_escape [] = []"
| "html_escape (c # s) =
     (if c = CHR ''&'' then ''&amp;'' else if c = CHR ''<'' then ''&lt;'' else if c = CHR ''>'' then ''&gt;'' else [c]) @ html_escape s"

definition percent :: "char \<Rightarrow> pystr" where
  "percent c = (let d = (\<lambda>n. char_of (if n < 10 then 48 + n else 55 + n :: nat))
     in [CHR ''%'', d (ord_c c div 16), d (ord_c c mod 16)])"

definition quoted_c :: "char \<Rightarrow> pystr" where
  "quoted_c c = (if is_alpha_ascii c \<or> is_digit c \<or> c \<in> set ''_.-~/'' then [c] else percent c)"

definition url_quote :: "pystr \<Rightarrow> pystr" where
  "url_quote s = concat (map quoted_c (encode_utf8 s))"

definition shown_entries :: "drop_fs \<Rightarrow> pystr \<Rightarrow> pystr list \<Rightarrow> pystr list" where
  "shown_entries fs p names =
     sort_key py_lower (filter (\<lambda>n. \<not> is_hidden_name n \<and> \<not> link_at fs (path_join p n)) names)"

definition entry_line :: "bool \<Rightarrow> pystr \<Rightarrow> pystr" where
  "entry_line directory n =
     (let shown = (if directory then n @ ''/'' else n)
      in ''<li><a href='' @ [CHR 0x22] @ url_quote shown @ [CHR 0x22] @ ''>'' @ html_escape shown @ ''</a></li>'')"

definition listing_page :: "codec \<Rightarrow> pystr \<Rightarrow> pystr \<Rightarrow> drop_fs \<Rightarrow> (pystr \<Rightarrow> bool) \<Rightarrow> pystr \<Rightarrow> pystr list \<Rightarrow> pystr" where
  "listing_page u enc raw fs is_directory p names =
     (let title = ''Directory listing for '' @
            html_escape (unquote u (before_c (CHR ''?'') (before_c (CHR ''#'') raw)));
          q = [CHR 0x22]; nl = [CHR 0x0A]
      in join nl
           ([''<!DOCTYPE HTML>'', ''<html lang='' @ q @ ''en'' @ q @ ''>'', ''<head>'',
             ''<meta charset='' @ q @ enc @ q @ ''>'', ''<title>'' @ title @ ''</title>'' @ nl @ ''</head>'',
             ''<body>'' @ nl @ ''<h1>'' @ title @ ''</h1>'', ''<hr>'' @ nl @ ''<ul>''] @
            map (\<lambda>n. entry_line (is_directory (path_join p n)) n) (shown_entries fs p names) @
            [''</ul>'' @ nl @ ''<hr>'' @ nl @ ''</body>'' @ nl @ ''</html>'' @ nl]))"

section \<open>The handler\<close>

text \<open>
  What the file system answers: \<open>os.listdir\<close>, and the opening of a file with the comparison of its date with the
  request's \<open>If-Modified-Since\<close>.
\<close>

datatype drop_listing = Listing_denied | Listing_failed | Listing_names "pystr list"

datatype drop_open = Open_failed | Stat_failed | Not_newer | Readable

text \<open>The replies; \<open>Sent\<close> and \<open>Unmodified\<close> carry the file that was opened, \<open>Moved\<close> the new location.\<close>

datatype drop_reply =
    Host_local_only | Health bool | Not_found | Not_readable | Sent pystr | Unmodified pystr | Moved url
  | No_permission | Listed pystr | Bad_request

record drop_site =
  drop_files :: drop_fs
  document_dir :: pystr
  peers_only :: bool
  page_encoding :: pystr
  text_codec :: codec
  open_file :: "pystr \<Rightarrow> drop_open"
  names_in :: "pystr \<Rightarrow> drop_listing"
  directory_at :: "pystr \<Rightarrow> bool"
  file_at :: "pystr \<Rightarrow> bool"

definition client_is_loopback :: "pystr \<Rightarrow> bool" where
  "client_is_loopback client = (case ip_address client of None \<Rightarrow> False | Some a \<Rightarrow> is_loopback a)"

definition list_directory :: "drop_site \<Rightarrow> pystr \<Rightarrow> pystr \<Rightarrow> drop_reply" where
  "list_directory w raw p = (case names_in w p of
     Listing_denied \<Rightarrow> No_permission
   | Listing_failed \<Rightarrow> Not_found
   | Listing_names ns \<Rightarrow>
       Listed (listing_page (text_codec w) (page_encoding w) raw (drop_files w) (directory_at w) p ns))"

text \<open>\<open>SimpleHTTPRequestHandler.send_head\<close>: of a directory it opens the first index page, without a further check.\<close>

definition send_file :: "drop_site \<Rightarrow> pystr \<Rightarrow> drop_reply" where
  "send_file w p =
     (if ends_with p ''/'' then Not_found
      else case open_file w p of
        Open_failed \<Rightarrow> Not_found | Stat_failed \<Rightarrow> Not_readable | Not_newer \<Rightarrow> Unmodified p | Readable \<Rightarrow> Sent p)"

definition index_pages :: "pystr \<Rightarrow> pystr list" where
  "index_pages p = map (path_join p) [''index.html'', ''index.htm'']"

definition static_head :: "drop_site \<Rightarrow> pystr \<Rightarrow> pystr \<Rightarrow> drop_reply" where
  "static_head w raw p =
     (if directory_at w p then
        (case urlsplit raw of
           Inl _ \<Rightarrow> Bad_request
         | Inr url \<Rightarrow>
             (if \<not> ends_with (u_path url) ''/'' then Moved (url\<lparr>u_path := u_path url @ ''/''\<rparr>)
              else case List.find (file_at w) (index_pages p) of
                Some f \<Rightarrow> send_file w f
              | None \<Rightarrow> list_directory w raw p))
      else send_file w p)"

definition send_head :: "drop_site \<Rightarrow> pystr \<Rightarrow> drop_reply" where
  "send_head w raw =
     (let p = translate_path (text_codec w) (document_dir w) raw
      in if \<not> path_is_confined (drop_files w) p (document_dir w) \<or> path_contains_hidden_name p then Not_found
         else static_head w raw p)"

text \<open>\<open>do_GET\<close> and \<open>do_HEAD\<close>.\<close>

definition do_request :: "drop_site \<Rightarrow> pystr \<Rightarrow> bool \<Rightarrow> pystr \<Rightarrow> drop_reply" where
  "do_request w client is_head raw =
     (if peers_only w \<and> \<not> client_is_loopback client then Host_local_only
      else case urlsplit raw of
        Inl _ \<Rightarrow> Bad_request
      | Inr url \<Rightarrow> if u_path url = ''/_health'' then Health (\<not> is_head) else send_head w raw)"

section \<open>The server\<close>

text \<open>Free slots and the requests that hold one; \<open>over_released\<close> is the error of a bounded semaphore.\<close>

record drop_server =
  free_slots :: nat
  serving :: "nat list"
  over_released :: bool

definition release_slot :: "nat \<Rightarrow> drop_server \<Rightarrow> drop_server" where
  "release_slot limit s =
     (if free_slots s = limit then s\<lparr>over_released := True\<rparr> else s\<lparr>free_slots := free_slots s + 1\<rparr>)"

definition verify_request :: "bool \<Rightarrow> pystr \<Rightarrow> bool" where
  "verify_request only client \<longleftrightarrow> \<not> only \<or> client_is_loopback client"

text \<open>A new connection; \<open>started\<close> tells whether its thread could be started.\<close>

definition process_request :: "nat \<Rightarrow> bool \<Rightarrow> nat \<Rightarrow> drop_server \<Rightarrow> drop_server" where
  "process_request limit started i s =
     (if free_slots s = 0 then s
      else let t = s\<lparr>free_slots := free_slots s - 1\<rparr>
           in if started then t\<lparr>serving := i # serving t\<rparr> else release_slot limit t)"

definition process_request_thread :: "nat \<Rightarrow> nat \<Rightarrow> drop_server \<Rightarrow> drop_server" where
  "process_request_thread limit i s = release_slot limit (s\<lparr>serving := remove1 i (serving s)\<rparr>)"

inductive drop_step :: "nat \<Rightarrow> bool \<Rightarrow> drop_server \<Rightarrow> drop_server \<Rightarrow> bool" for limit :: nat and only :: bool where
  arrival: "\<lbrakk>verify_request only client; i \<notin> set (serving s)\<rbrakk> \<Longrightarrow> drop_step limit only s (process_request limit started i s)"
| refusal: "\<not> verify_request only client \<Longrightarrow> drop_step limit only s s"
| finish: "i \<in> set (serving s) \<Longrightarrow> drop_step limit only s (process_request_thread limit i s)"

definition drop_start :: "nat \<Rightarrow> drop_server option" where
  "drop_start limit = (if limit = 0 then None else Some \<lparr>free_slots = limit, serving = [], over_released = False\<rparr>)"

section \<open>Names below a directory\<close>

definition plain_name :: "pystr \<Rightarrow> bool" where
  "plain_name n \<longleftrightarrow> n \<noteq> [] \<and> CHR ''/'' \<notin> set n \<and> n \<noteq> ''.'' \<and> n \<noteq> ''..''"

definition path_of :: "pystr list \<Rightarrow> pystr" where
  "path_of ns = ''/'' @ join ''/'' ns"

lemma join_snoc: "join sep (ws @ [w]) = (if ws = [] then w else join sep ws @ sep @ w)"
proof (induction ws)
  case (Cons x ws)
  then show ?case by (cases ws) auto
qed simp

lemma split_on_snoc: "split_on c (s @ [c]) = split_on c s @ [[]]"
proof (induction s)
  case Nil
  then show ?case by (simp add: split_on_def)
next
  case (Cons x s)
  then show ?case by (cases "split_on c s") (auto simp: split_on_def split: list.splits)
qed

lemma split_path:
  assumes "ns \<noteq> []" "list_all plain_name ns"
  shows "split_on (CHR ''/'') (path_of ns) = [] # ns"
    "split_on (CHR ''/'') (path_of ns @ ''/'') = [] # ns @ [[]]"
proof -
  have "list_all (\<lambda>w. CHR ''/'' \<notin> set w) ns" using assms(2) by (auto simp: list_all_iff plain_name_def)
  then have "split_on (CHR ''/'') (join ''/'' ns) = ns" using assms(1) by (intro split_on_join)
  then show s: "split_on (CHR ''/'') (path_of ns) = [] # ns"
    using split_on_append [of "CHR ''/''" "[]" "join ''/'' ns"] by (simp add: path_of_def)
  show "split_on (CHR ''/'') (path_of ns @ ''/'') = [] # ns @ [[]]"
    unfolding split_on_snoc s by simp
qed

lemma norm_plain:
  "list_all (\<lambda>x. x = [] \<or> plain_name x) cs \<Longrightarrow> norm_parts True acc cs = acc @ filter (\<lambda>x. x \<noteq> []) cs"
  by (induction cs arbitrary: acc) (auto simp: plain_name_def)

lemma plain_parts: "list_all plain_name ns \<Longrightarrow> filter (\<lambda>x. x \<noteq> []) ns = ns"
  by (auto simp: list_all_iff plain_name_def intro: filter_True)

lemma single_slash:
  assumes "ns \<noteq> []" "list_all plain_name ns"
  shows "\<not> starts_with (path_of ns @ t) ''//''"
proof -
  obtain n ms where ns: "ns = n # ms" using assms(1) by (cases ns) auto
  then obtain c m where n: "n = c # m" "c \<noteq> CHR ''/''" using assms(2) by (cases n) (auto simp: plain_name_def)
  then have "\<exists>r. path_of ns @ t = ''/'' @ c # r" by (cases ms) (auto simp: path_of_def ns)
  then obtain r where "path_of ns @ t = ''/'' @ c # r" by blast
  with n(2) show ?thesis by simp
qed

lemma norm_path:
  assumes "ns \<noteq> []" "list_all plain_name ns" "t = [] \<or> t = ''/''"
  shows "normpath (path_of ns @ t) = path_of ns"
proof -
  have ok: "list_all (\<lambda>x. x = [] \<or> plain_name x) ([] # ns @ [[]])" "list_all (\<lambda>x. x = [] \<or> plain_name x) ([] # ns)"
    using assms(2) by (auto simp: list_all_iff)
  have "norm_parts True [] (split_on (CHR ''/'') (path_of ns @ t)) = ns"
    using assms(3) split_path [OF assms(1,2)] norm_plain [OF ok(1), of "[]"] norm_plain [OF ok(2), of "[]"] plain_parts [OF assms(2)]
    by (auto simp del: norm_parts.simps)
  moreover have "starts_with (path_of ns @ t) ''/''" by (simp add: path_of_def)
  ultimately show ?thesis
    using single_slash [OF assms(1,2), of t] by (simp add: normpath_def Let_def path_of_def del: starts_with.simps)
qed

lemma abs_plain:
  assumes "ns \<noteq> []" "list_all plain_name ns" "t = [] \<or> t = ''/''"
  shows "abs_path fs (path_of ns @ t) = path_of ns"
  using norm_path [OF assms] by (simp add: abs_path_def path_of_def)

lemma abs_plain_path: "\<lbrakk>ns \<noteq> []; list_all plain_name ns\<rbrakk> \<Longrightarrow> abs_path fs (path_of ns) = path_of ns"
  using abs_plain [of ns "[]"] by simp

lemma parts_path: "\<lbrakk>ns \<noteq> []; list_all plain_name ns\<rbrakk> \<Longrightarrow> nonempty_parts (path_of ns) = ns"
  by (simp add: nonempty_parts_def split_path plain_parts)

lemma join_plain:
  assumes "rs \<noteq> []" "list_all plain_name rs" "plain_name n"
  shows "path_join (path_of rs) n = path_of (rs @ [n])"
proof -
  have "\<not> starts_with n ''/''" using assms(3) by (cases n) (auto simp: plain_name_def)
  moreover have "\<not> ends_with (path_of rs) ''/''"
  proof
    assume "ends_with (path_of rs) ''/''"
    then obtain r where "path_of rs = r @ ''/''" by (auto simp: ends_with_iff)
    then have "split_on (CHR ''/'') (path_of rs) = split_on (CHR ''/'') r @ [[]]" by (simp add: split_on_snoc)
    then have "last rs = []" using split_path(1) [OF assms(1,2)] assms(1) by (metis last_ConsR last_snoc)
    moreover have "last rs \<in> set rs" using assms(1) by simp
    ultimately show False using assms(2) by (auto simp: list_all_iff plain_name_def)
  qed
  ultimately show ?thesis using assms(1)
    by (simp add: path_join_def path_of_def join_snoc)
qed

lemma fold_plain:
  "\<lbrakk>rs \<noteq> []; list_all plain_name rs; list_all plain_name ns\<rbrakk> \<Longrightarrow> foldl path_join (path_of rs) ns = path_of (rs @ ns)"
proof (induction ns arbitrary: rs)
  case (Cons n ns)
  then have "foldl path_join (path_of rs) (n # ns) = foldl path_join (path_of (rs @ [n])) ns" by (simp add: join_plain)
  also have "\<dots> = path_of (rs @ n # ns)" using Cons(1) [of "rs @ [n]"] Cons(2-4) by simp
  finally show ?case .
qed simp

lemma translated:
  assumes "rs \<noteq> []" "list_all plain_name rs"
  obtains ns t where "translate_path u (path_of rs) raw = path_of (rs @ ns) @ t" "list_all plain_name ns" "t = [] \<or> t = ''/''"
proof -
  let ?p = "before_c (CHR ''?'') (before_c (CHR ''#'') raw)"
  let ?ns = "filter (\<lambda>x. CHR ''/'' \<notin> set x \<and> x \<noteq> ''.'' \<and> x \<noteq> ''..'') (nonempty_parts (normpath (unquote u ?p)))"
  have "list_all plain_name ?ns" by (auto simp: list_all_iff plain_name_def nonempty_parts_def)
  then show thesis
    using fold_plain [OF assms] by (intro that [of ?ns "if ends_with (rstrip_by is_space ?p) ''/'' then ''/'' else []"])
      (auto simp: translate_path_def Let_def)
qed

lemma prefix_parts: "common_prefix rs (rs @ ns) = rs"
  by (induction rs) auto

lemma relative_plain:
  assumes "rs \<noteq> []" "list_all plain_name rs" "list_all plain_name ns"
  shows "relpath fs (path_of (rs @ ns)) (path_of rs) = (if ns = [] then ''.'' else join ''/'' ns)"
  using assms by (simp add: relpath_def abs_plain_path parts_path prefix_parts)

lemma no_links_prefixes:
  "\<lbrakk>no_links fs (path_of rs) ns; rs \<noteq> []; list_all plain_name rs; list_all plain_name ns; 0 < k; k \<le> length ns\<rbrakk> \<Longrightarrow>
    \<not> link_at fs (path_of (rs @ take k ns))"
proof (induction ns arbitrary: rs k)
  case (Cons n ns)
  then have "plain_name n" by simp
  then have "path_join (path_of rs) n = path_of (rs @ [n])" "n \<noteq> []" "n \<noteq> ''.''"
    using join_plain [OF Cons(3,4)] by (simp_all, simp_all add: plain_name_def)
  then have n: "\<not> link_at fs (path_of (rs @ [n]))" "no_links fs (path_of (rs @ [n])) ns"
    using Cons(2) by simp_all
  show ?case
  proof (cases "k - 1")
    case 0
    then show ?thesis using n(1) Cons(6) by (cases k) auto
  next
    case (Suc j)
    then have "\<not> link_at fs (path_of ((rs @ [n]) @ take (k - 1) ns))"
      using Cons(1) [OF n(2), of "k - 1"] Cons(3-7) by simp
    then show ?thesis using Cons(6) by (cases k) auto
  qed
qed simp

lemma joined_plain:
  assumes "rs \<noteq> []" "list_all plain_name rs" "plain_name n" "t = [] \<or> t = ''/''"
  shows "path_join (path_of rs @ t) n = path_of (rs @ [n])"
  using assms(4)
proof
  assume "t = ''/''"
  moreover have "\<not> starts_with n ''/''" using assms(3) by (cases n) (auto simp: plain_name_def)
  ultimately show ?thesis using assms(1) by (simp add: path_join_def ends_with_iff path_of_def join_snoc)
qed (use join_plain [OF assms(1-3)] in simp)

text \<open>
  A path below the document directory \<open>rs\<close>: no name on the way is hidden and no step is a symbolic link; and
  such a path that also resolves to a place below the directory.
\<close>

definition clean_path :: "drop_site \<Rightarrow> pystr list \<Rightarrow> pystr \<Rightarrow> bool" where
  "clean_path w rs p \<longleftrightarrow> (\<exists>ns t. p = path_of (rs @ ns) @ t \<and> (t = [] \<or> t = ''/'') \<and>
     list_all (\<lambda>n. plain_name n \<and> \<not> is_hidden_name n) ns \<and>
     (\<forall>k \<in> {1..length ns}. \<not> link_at (drop_files w) (path_of (rs @ take k ns))))"

definition allowed_path :: "drop_site \<Rightarrow> pystr list \<Rightarrow> pystr \<Rightarrow> bool" where
  "allowed_path w rs p \<longleftrightarrow> clean_path w rs p \<and>
     commonpath (path_of rs) (real_path (drop_files w) (abs_path (drop_files w) p)) = path_of rs"

lemma head_allowed:
  assumes "document_dir w = path_of rs" "rs \<noteq> []" "list_all plain_name rs" "real_path (drop_files w) (path_of rs) = path_of rs"
    and "p = translate_path (text_codec w) (document_dir w) raw"
    and "path_is_confined (drop_files w) p (document_dir w)" "\<not> path_contains_hidden_name p"
  shows "allowed_path w rs p"
proof -
  note ok = assms(6,7)
  obtain ns t where ns: "p = path_of (rs @ ns) @ t" "list_all plain_name ns" "t = [] \<or> t = ''/''"
    using translated [OF assms(2,3)] assms(1,5) by metis
  have all: "rs @ ns \<noteq> []" "list_all plain_name (rs @ ns)" using assms(2,3) ns(2) by auto
  have hidden: "list_all (\<lambda>n. \<not> is_hidden_name n) ns"
    using ok(2) norm_path [OF all ns(3)] split_path(1) [OF all]
    by (auto simp: path_contains_hidden_name_def ns(1) list_ex_iff list_all_iff)
  have rel: "relpath (drop_files w) (path_of (rs @ ns)) (path_of rs) = (if ns = [] then ''.'' else join ''/'' ns)"
    by (rule relative_plain [OF assms(2,3) ns(2)])
  have conf: "no_links (drop_files w) (path_of rs) (split_on (CHR ''/'') (if ns = [] then ''.'' else join ''/'' ns))"
    "commonpath (path_of rs) (real_path (drop_files w) (abs_path (drop_files w) p)) = path_of rs"
    using ok(1) rel unfolding path_is_confined_def Let_def ns(1) assms(1) abs_plain [OF all ns(3)] abs_plain_path [OF assms(2,3)] assms(4)
    by (auto split: if_splits)
  have "\<forall>k \<in> {1..length ns}. \<not> link_at (drop_files w) (path_of (rs @ take k ns))"
  proof (cases "ns = []")
    case False
    moreover have "list_all (\<lambda>x. CHR ''/'' \<notin> set x) ns" using ns(2) by (auto simp: list_all_iff plain_name_def)
    ultimately have "no_links (drop_files w) (path_of rs) ns" using conf(1) split_on_join [of ns "CHR ''/''"] by simp
    then show ?thesis using no_links_prefixes [OF _ assms(2,3) ns(2)] by auto
  qed simp
  moreover have "list_all (\<lambda>n. plain_name n \<and> \<not> is_hidden_name n) ns" using ns(2) hidden by (simp add: list_all_iff)
  ultimately show ?thesis using ns(1,3) conf(2) unfolding allowed_path_def clean_path_def by blast
qed

text \<open>An index page of an allowed directory is as good as the directory, but for its own last step.\<close>

lemma index_clean:
  assumes "rs \<noteq> []" "list_all plain_name rs" "clean_path w rs p" "f \<in> set (index_pages p)"
  shows "link_at (drop_files w) f \<or> clean_path w rs f"
proof -
  obtain ns t where p: "p = path_of (rs @ ns) @ t" "t = [] \<or> t = ''/''" "list_all (\<lambda>n. plain_name n \<and> \<not> is_hidden_name n) ns"
      "\<forall>k \<in> {1..length ns}. \<not> link_at (drop_files w) (path_of (rs @ take k ns))"
    using assms(3) by (auto simp: clean_path_def)
  obtain n where n: "n \<in> {''index.html'', ''index.htm''}" "f = path_join p n" using assms(4) by (auto simp: index_pages_def)
  then have ok: "plain_name n" "\<not> is_hidden_name n" by (auto simp: plain_name_def is_hidden_name_def)
  have "list_all plain_name (rs @ ns)" using assms(2) p(3) by (auto simp: list_all_iff)
  then have f: "f = path_of (rs @ ns @ [n])"
    using joined_plain [of "rs @ ns" n t] assms(1) ok(1) p(1,2) n(2) by simp
  have "\<forall>k \<in> {1..length (ns @ [n])}. \<not> link_at (drop_files w) (path_of (rs @ take k (ns @ [n])))"
    if "\<not> link_at (drop_files w) f"
    using that p(4) by (auto simp: f le_Suc_eq)
  moreover have "list_all (\<lambda>n. plain_name n \<and> \<not> is_hidden_name n) (ns @ [n])" using p(3) ok by simp
  moreover have "f = path_of (rs @ ns @ [n]) @ []" by (simp add: f)
  ultimately show ?thesis unfolding clean_path_def by blast
qed

text \<open>A file that may be sent, and what each reply shows of the document directory.\<close>

definition may_send :: "drop_site \<Rightarrow> pystr list \<Rightarrow> pystr \<Rightarrow> bool" where
  "may_send w rs f \<longleftrightarrow> allowed_path w rs f \<or>
     (\<exists>p. allowed_path w rs p \<and> directory_at w p \<and> f \<in> set (index_pages p) \<and> (link_at (drop_files w) f \<or> clean_path w rs f))"

definition lists_directory :: "drop_site \<Rightarrow> pystr list \<Rightarrow> pystr \<Rightarrow> pystr \<Rightarrow> bool" where
  "lists_directory w rs raw page \<longleftrightarrow> (\<exists>p names. allowed_path w rs p \<and> directory_at w p \<and> names_in w p = Listing_names names \<and>
     page = listing_page (text_codec w) (page_encoding w) raw (drop_files w) (directory_at w) p names \<and>
     (\<forall>n \<in> set (shown_entries (drop_files w) p names). n \<in> set names \<and> \<not> is_hidden_name n \<and> \<not> link_at (drop_files w) (path_join p n)))"

fun shows_allowed :: "drop_site \<Rightarrow> pystr list \<Rightarrow> pystr \<Rightarrow> drop_reply \<Rightarrow> bool" where
  "shows_allowed w rs raw (Sent f) \<longleftrightarrow> may_send w rs f"
| "shows_allowed w rs raw (Unmodified f) \<longleftrightarrow> may_send w rs f"
| "shows_allowed w rs raw (Listed page) \<longleftrightarrow> lists_directory w rs raw page"
| "shows_allowed w rs raw (Moved u) \<longleftrightarrow> (\<exists>p. allowed_path w rs p \<and> directory_at w p)"
| "shows_allowed w rs raw No_permission \<longleftrightarrow> (\<exists>p. allowed_path w rs p \<and> directory_at w p)"
| "shows_allowed w rs raw Not_readable \<longleftrightarrow> (\<exists>p. allowed_path w rs p)"
| "shows_allowed w rs raw r \<longleftrightarrow> True"

lemma sent_allowed: "may_send w rs f \<Longrightarrow> allowed_path w rs p \<Longrightarrow> shows_allowed w rs raw (send_file w f)"
  by (auto simp: send_file_def split: drop_open.splits)

lemma listed_allowed:
  "allowed_path w rs p \<Longrightarrow> directory_at w p \<Longrightarrow> shows_allowed w rs raw (list_directory w raw p)"
  unfolding list_directory_def lists_directory_def
  by (auto simp: lists_directory_def shown_entries_def split: drop_listing.splits)

lemma static_allowed:
  assumes "rs \<noteq> []" "list_all plain_name rs" "allowed_path w rs p"
  shows "shows_allowed w rs raw (static_head w raw p)"
proof -
  have "may_send w rs f" if "directory_at w p" "List.find (file_at w) (index_pages p) = Some f" for f
  proof -
    have "f \<in> set (index_pages p)" using that(2) by (auto simp: find_Some_iff)
    with index_clean [OF assms(1,2)] assms(3) that(1) show ?thesis unfolding may_send_def allowed_path_def by blast
  qed
  moreover have "may_send w rs p" using assms(3) by (simp add: may_send_def)
  ultimately show ?thesis
    using assms(3) unfolding static_head_def
    by (auto simp: sent_allowed listed_allowed split: sum.splits option.splits)
qed

text \<open>
  C40 (safety). What the document drop shows lies in the document directory: for a directory with its resolved path,
  whatever the request's path decodes to, a file that is sent (or reported as unmodified) was requested by a path
  below the directory on which no name is hidden and no step is a symbolic link, and which resolves to a place below the
  directory; or it is the \<open>index.html\<close> or \<open>index.htm\<close> of a directory with such a path, which the standard handler opens
  without looking at it again, so that only this last step may be a link. A listing is of a directory with such a path and
  shows only entries of it that are neither hidden nor links; a redirect, and the errors that a file or directory cannot be
  read, are given for such a path only. A server for the host alone gives every other client nothing but a refusal.
\<close>

theorem served_path_confined:
  assumes "document_dir w = path_of rs" "rs \<noteq> []" "list_all plain_name rs" "real_path (drop_files w) (path_of rs) = path_of rs"
  shows "(if peers_only w \<and> \<not> client_is_loopback client then do_request w client is_head raw = Host_local_only
    else shows_allowed w rs raw (do_request w client is_head raw))"
proof -
  have "shows_allowed w rs raw (send_head w raw)"
    unfolding send_head_def Let_def
    using static_allowed [OF assms(2,3) head_allowed [OF assms]] by simp
  then show ?thesis by (auto simp: do_request_def split: sum.splits)
qed

section \<open>The slots\<close>

definition slots_ok :: "nat \<Rightarrow> drop_server \<Rightarrow> bool" where
  "slots_ok limit s \<longleftrightarrow> free_slots s + length (serving s) = limit \<and> distinct (serving s) \<and> \<not> over_released s"

lemma slots_step: "drop_step limit only s s' \<Longrightarrow> slots_ok limit s \<Longrightarrow> slots_ok limit s'"
proof (induction rule: drop_step.induct)
  case (finish i s)
  then have "length (remove1 i (serving s)) = length (serving s) - 1" "0 < length (serving s)"
    by (auto simp: length_remove1 length_pos_if_in_set)
  with finish show ?case by (auto simp: slots_ok_def process_request_thread_def release_slot_def)
qed (auto simp: slots_ok_def process_request_def release_slot_def Let_def)

text \<open>
  The server handles at most its limit of requests at a time, whatever the order of arrivals, of
  threads that cannot be started and of ends, and it never gives back a slot it has not taken.
\<close>

theorem served_requests_bounded:
  assumes "drop_start limit = Some s0" "(drop_step limit only)\<^sup>*\<^sup>* s0 s"
  shows "length (serving s) \<le> limit \<and> \<not> over_released s"
proof -
  have "slots_ok limit s"
    using assms(2)
  proof (induction rule: rtranclp_induct)
    case base
    then show ?case using assms(1) by (auto simp: drop_start_def slots_ok_def split: if_splits)
  qed (rule slots_step)
  then show ?thesis by (auto simp: slots_ok_def)
qed

section \<open>A run\<close>

definition sample_site :: drop_site where
  "sample_site = \<lparr>drop_files = \<lparr>link_at = (\<lambda>p. p = ''/import/docs/c/index.html''), real_path = (\<lambda>p. p), working_dir = ''/''\<rparr>,
     document_dir = ''/import/docs'', peers_only = True, page_encoding = ''utf-8'',
     text_codec = \<lparr>idna_nonascii = (\<lambda>_. None), utf8_replace = (\<lambda>b. b)\<rparr>, open_file = (\<lambda>p. Readable),
     names_in = (\<lambda>p. Listing_failed), directory_at = (\<lambda>p. p = ''/import/docs/c/''), file_at = (\<lambda>p. True)\<rparr>"

lemma served_path_confined_witness:
  "may_send sample_site [''import'', ''docs''] ''/import/docs/a/b.pdf''"
proof -
  have "do_request sample_site ''127.0.0.1'' False ''/%61//../a/b.pdf?x'' = Sent ''/import/docs/a/b.pdf''"
    "client_is_loopback ''127.0.0.1''" by code_simp+
  moreover have "document_dir sample_site = path_of [''import'', ''docs'']" "list_all plain_name [''import'', ''docs'']"
    "real_path (drop_files sample_site) (path_of [''import'', ''docs'']) = path_of [''import'', ''docs'']"
    by code_simp+
  ultimately show ?thesis
    using served_path_confined [of sample_site "[''import'', ''docs'']" "''127.0.0.1''" False "''/%61//../a/b.pdf?x''"] by simp
qed

text \<open>An index page that is a symbolic link is sent, though the same link is refused when it is asked for by name.\<close>

lemma linked_index_sent:
  "link_at (drop_files sample_site) ''/import/docs/c/index.html''"
  "do_request sample_site ''127.0.0.1'' False ''/c/'' = Sent ''/import/docs/c/index.html''"
  "do_request sample_site ''127.0.0.1'' False ''/c/index.html'' = Not_found"
  by code_simp+

lemma served_requests_bounded_witness:
  "length (serving (process_request 1 True 7 \<lparr>free_slots = 1, serving = [], over_released = False\<rparr>)) \<le> 1 \<and>
    \<not> over_released (process_request 1 True 7 \<lparr>free_slots = 1, serving = [], over_released = False\<rparr>)"
proof (rule served_requests_bounded)
  show "drop_start 1 = Some \<lparr>free_slots = 1, serving = [], over_released = False\<rparr>" by (simp add: drop_start_def)
  show "(drop_step 1 False)\<^sup>*\<^sup>* \<lparr>free_slots = 1, serving = [], over_released = False\<rparr>
      (process_request 1 True 7 \<lparr>free_slots = 1, serving = [], over_released = False\<rparr>)"
    by (rule r_into_rtranclp, rule drop_step.arrival) (simp_all add: verify_request_def)
qed

end
