(* ===== verification/Browser_Fetch.thy ===== *)
theory Browser_Fetch
  imports Complex_Main Search_Client Workflow
begin

text \<open>
  The navigation of the browser client: \<open>_RawCdp\<close>, \<open>_drain_body\<close>, \<open>ObscuraSession\<close> and \<open>fetch\<close> of
  \<open>src/browser/obscura_client/private_onyx_obscura/client.py\<close>. Packets are JSON values; the socket delivers
  what it likes while a command waits for the seconds it is given, the clock is a reading of the surroundings, and a cancellation is
  one way for a wait to end. Events are taken to carry an object of parameters, whose \<open>targetInfo\<close> and \<open>frame\<close>
  are objects; the message of a failing \<open>int\<close> is taken to hold none of the words a failure is classified by. \<open>base64\<close>, the HTML
  parser, \<open>urljoin\<close>, \<open>str\<close> and \<open>int\<close> of JSON values other than strings and integers are arguments.
\<close>

section \<open>Packets\<close>

type_synonym members = "(pystr \<times> json) list"

datatype fetch_exn = Exn client_exn | Timed_out_wait

abbreviation known :: "fetch_failure \<Rightarrow> pystr \<Rightarrow> fetch_exn" where
  "known f stage_name \<equiv> Exn (Client_error f stage_name)"

abbreviation unexpected :: "pystr \<Rightarrow> fetch_exn" where
  "unexpected m \<equiv> Exn (Other_exn m)"

text \<open>How a wait for packets ends after those that arrived.\<close>

datatype wait_end = Deadline | Socket_failed pystr | Wait_cancelled

record delivery =
  arrived :: "json list"
  ended :: wait_end

datatype connect_answer = Connect_ok | Connect_late | Connect_failed pystr | Connect_cancelled

record 'm nav_world =
  deliver :: "nat \<Rightarrow> pystr \<Rightarrow> rat \<Rightarrow> 'm \<Rightarrow> delivery \<times> 'm"
  listen :: "rat \<Rightarrow> 'm \<Rightarrow> delivery \<times> 'm"
  connect_socket :: "'m \<Rightarrow> connect_answer \<times> 'm"
  close_socket :: "'m \<Rightarrow> wait_end option \<times> 'm"
  monotonic :: "'m \<Rightarrow> rat"
  guard_answer :: "'m \<Rightarrow> bool \<times> 'm"
  read_rounds :: nat
  cdp_token :: pystr
  base64 :: "pystr \<Rightarrow> bytes option"
  other_str :: "json \<Rightarrow> pystr"
  float_int :: int
  html_tokens :: "pystr \<Rightarrow> html_token list option"
  join_url :: "pystr \<Rightarrow> pystr \<Rightarrow> pystr py"
  url_codec :: codec

record fetch_args =
  fetch_url :: pystr
  cdp_url :: pystr
  wait_until :: pystr
  http_allowed :: bool
  onion_http :: bool
  body_limit :: int
  dom_limit :: int
  want :: pystr
  event_timeout :: rat
  setup_timeout :: rat
  cleanup_timeout :: rat
  total_timeout :: rat
  has_guard :: bool
  owned_session :: bool

datatype fetch_event =
    Command pystr members "pystr option"
  | Socket_opened
  | Socket_closed
  | Guard_asked

text \<open>\<open>retained\<close> is the session of the owner; the other fields are variables of \<open>fetch\<close> and of its transport.\<close>

record 'm fetch_state =
  retained :: "(pystr \<times> int) option"
  last_id :: nat
  packets :: "(pystr \<times> members) list"
  stage_now :: pystr
  is_reusable :: bool
  has_cdp :: bool
  has_socket :: bool
  target_now :: pystr
  around :: 'm

type_synonym ('m, 'a) nav = "('m fetch_state, fetch_event, fetch_exn, 'a) run"

definition nav_get :: "('m fetch_state \<Rightarrow> 'a) \<Rightarrow> ('m, 'a) nav" where
  "nav_get f s = ([], s, Inr (f s))"

definition nav_set :: "('m fetch_state \<Rightarrow> 'm fetch_state) \<Rightarrow> ('m, unit) nav" where
  "nav_set f s = ([], f s, Inr ())"

definition wait_exn :: "wait_end \<Rightarrow> fetch_exn" where
  "wait_exn e = (case e of
     Deadline \<Rightarrow> Timed_out_wait | Socket_failed m \<Rightarrow> unexpected m | Wait_cancelled \<Rightarrow> Exn Cancelled)"

definition event_of :: "json \<Rightarrow> (pystr \<times> members) list" where
  "event_of p = (case p of
     JObj m \<Rightarrow> (case (jget m ''method'', jget m ''params'') of
        (JStr method, JObj ps) \<Rightarrow> [(method, ps)]
      | (JStr method, _) \<Rightarrow> [(method, [])]
      | _ \<Rightarrow> [])
   | _ \<Rightarrow> [])"

text \<open>\<open>packet.get("id") == command_id\<close>: \<open>True\<close> equals 1.\<close>

definition answers :: "nat \<Rightarrow> members \<Rightarrow> bool" where
  "answers i m \<longleftrightarrow> (case jget m ''id'' of JInt n \<Rightarrow> n = int i | JBool b \<Rightarrow> b \<and> i = 1 | _ \<Rightarrow> False)"

text \<open>The packets up to the reply to a command: its members, or how the wait ended.\<close>

fun cdp_reply :: "nat \<Rightarrow> (pystr \<times> members) list \<Rightarrow> json list \<Rightarrow> wait_end \<Rightarrow> (pystr \<times> members) list \<times> (fetch_exn + members)" where
  "cdp_reply i seen [] e = (seen, Inl (wait_exn e))"
| "cdp_reply i seen (p # ps) e = (case p of
     JObj m \<Rightarrow> (if answers i m then (seen, Inr m) else cdp_reply i (seen @ event_of p) ps e)
   | _ \<Rightarrow> (seen, Inl (unexpected ''packet'')))"

definition reply_result :: "'m nav_world \<Rightarrow> pystr \<Rightarrow> members \<Rightarrow> fetch_exn + members" where
  "reply_result w method m =
     (if \<not> json_falsy (jget m ''error'')
      then Inl (Exn (transport_exn (cdp_error method (case jget m ''error'' of
          JObj e \<Rightarrow> (case map_of e ''message'' of None \<Rightarrow> [] | Some (JStr t) \<Rightarrow> t | Some v \<Rightarrow> other_str w v)
        | _ \<Rightarrow> []))))
      else case map_of m ''result'' of
        None \<Rightarrow> Inr []
      | Some (JObj r) \<Rightarrow> Inr r
      | Some _ \<Rightarrow> Inl (known Protocol ''cdp-command''))"

section \<open>The transport\<close>

text \<open>\<open>_RawCdp.send\<close> with a timeout.\<close>

definition cdp_send :: "'m nav_world \<Rightarrow> pystr \<Rightarrow> members \<Rightarrow> pystr option \<Rightarrow> rat \<Rightarrow> fetch_failure \<Rightarrow> pystr \<Rightarrow> ('m, members) nav" where
  "cdp_send w method params session seconds category stage_name s =
     (let i = last_id s + 1; t = s\<lparr>last_id := i\<rparr>; late = Inl (known category stage_name)
      in if seconds \<le> 0 then ([], t, late)
         else case deliver w i method seconds (around s) of (d, m) \<Rightarrow>
           (case cdp_reply i (packets s) (arrived d) (ended d) of (seen, r) \<Rightarrow>
             ([Command method params session], t\<lparr>packets := seen, around := m\<rparr>,
              case r of
                Inl Timed_out_wait \<Rightarrow> late
              | Inl (Exn x) \<Rightarrow> Inl (Exn x)
              | Inr reply \<Rightarrow> reply_result w method reply)))"

text \<open>\<open>_RawCdp.wait_for_event\<close> on the events of the buffer and those that arrive.\<close>

fun find_event :: "((pystr \<times> members) \<Rightarrow> bool) \<Rightarrow> (pystr \<times> members) list \<Rightarrow> json list \<Rightarrow> (pystr \<times> members) list \<times> bool" where
  "find_event P seen ps =
     (if list_ex P seen then (seen, True)
      else case ps of [] \<Rightarrow> (seen, False) | p # rest \<Rightarrow> find_event P (seen @ event_of p) rest)"

definition wait_for_event :: "'m nav_world \<Rightarrow> ((pystr \<times> members) \<Rightarrow> bool) \<Rightarrow> rat \<Rightarrow> ('m, unit) nav" where
  "wait_for_event w P budget s = (case listen w budget (around s) of (d, m) \<Rightarrow>
     (case find_event P (packets s) (arrived d) of (seen, found) \<Rightarrow>
       ([], s\<lparr>packets := seen, around := m\<rparr>, if found then Inr () else Inl (wait_exn (ended d)))))"

definition auth_token_ok :: "pystr \<Rightarrow> bool" where
  "auth_token_ok t \<longleftrightarrow> 32 \<le> length (encode_utf8 t) \<and> list_all (\<lambda>c. 33 \<le> ord_c c \<and> ord_c c \<le> 126) t"

definition open_socket :: "'m nav_world \<Rightarrow> ('m, unit) nav" where
  "open_socket w =
     (if \<not> auth_token_ok (cdp_token w) then wf_stop (unexpected ''OBSCURA_CDP_TOKEN must contain at least 32 printable ASCII bytes'')
      else (\<lambda>s. case connect_socket w (around s) of (r, m) \<Rightarrow>
        (case r of
           Connect_ok \<Rightarrow> ([Socket_opened], s\<lparr>around := m\<rparr>, Inr ())
         | Connect_late \<Rightarrow> ([], s\<lparr>around := m\<rparr>, Inl Timed_out_wait)
         | Connect_failed t \<Rightarrow> ([], s\<lparr>around := m\<rparr>, Inl (unexpected t))
         | Connect_cancelled \<Rightarrow> ([], s\<lparr>around := m\<rparr>, Inl (Exn Cancelled)))))"

definition socket_close :: "'m nav_world \<Rightarrow> ('m, unit) nav" where
  "socket_close w s = (case close_socket w (around s) of (r, m) \<Rightarrow>
     ([Socket_closed], s\<lparr>around := m\<rparr>, case r of None \<Rightarrow> Inr () | Some e \<Rightarrow> Inl (wait_exn e)))"

text \<open>\<open>ObscuraSession.ensure_connected\<close> and \<open>close\<close>; the session keeps its URL and its size.\<close>

definition ensure_connected :: "'m nav_world \<Rightarrow> pystr \<Rightarrow> int \<Rightarrow> ('m, unit) nav" where
  "ensure_connected w url size_limit =
     wf_bind (nav_get retained) (\<lambda>r. case r of
       Some (old_url, old_size) \<Rightarrow>
         if old_url \<noteq> url \<or> old_size < size_limit then wf_stop (known Protocol ''connect'') else wf_ret ()
     | None \<Rightarrow> wf_bind (open_socket w) (\<lambda>_.
         nav_set (\<lambda>s. s\<lparr>retained := Some (url, size_limit), last_id := 0, packets := []\<rparr>)))"

definition session_close :: "'m nav_world \<Rightarrow> ('m, unit) nav" where
  "session_close w =
     wf_bind (nav_get retained) (\<lambda>r.
     wf_bind (nav_set (\<lambda>s. s\<lparr>retained := None\<rparr>)) (\<lambda>_.
       if r = None then wf_ret () else socket_close w))"

section \<open>Reading the body\<close>

text \<open>The seconds that are left for a stage.\<close>

definition stage_remaining :: "'m nav_world \<Rightarrow> rat \<Rightarrow> fetch_failure \<Rightarrow> pystr \<Rightarrow> ('m, rat) nav" where
  "stage_remaining w deadline category stage_name =
     wf_bind (nav_set (\<lambda>s. s\<lparr>stage_now := stage_name\<rparr>)) (\<lambda>_.
     wf_bind (nav_get (\<lambda>s. deadline - monotonic w (around s))) (\<lambda>left.
       if left \<le> 0 then wf_stop (known category stage_name) else wf_ret left))"

definition stage_send :: "'m nav_world \<Rightarrow> rat \<Rightarrow> fetch_failure \<Rightarrow> fetch_failure \<Rightarrow> pystr \<Rightarrow> members \<Rightarrow> pystr option \<Rightarrow> pystr \<Rightarrow> ('m, members) nav" where
  "stage_send w deadline expired category method params session stage_name =
     wf_bind (stage_remaining w deadline expired stage_name) (\<lambda>left.
       cdp_send w method params session left category stage_name)"

definition post_send :: "'m nav_world \<Rightarrow> rat \<Rightarrow> pystr \<Rightarrow> members \<Rightarrow> pystr option \<Rightarrow> pystr \<Rightarrow> ('m, members) nav" where
  "post_send w deadline = stage_send w deadline Post_navigation_timeout Post_navigation_timeout"

definition chunk_bytes :: "'m nav_world \<Rightarrow> members \<Rightarrow> fetch_exn + bytes" where
  "chunk_bytes w chunk = (case map_of chunk ''data'' of
     None \<Rightarrow> Inr []
   | Some (JStr raw) \<Rightarrow>
       (if jget chunk ''base64Encoded'' = JBool True
        then (case base64 w raw of None \<Rightarrow> Inl (known Protocol ''body'') | Some b \<Rightarrow> Inr b)
        else Inr (encode_utf8 raw))
   | Some _ \<Rightarrow> Inl (known Protocol ''body''))"

text \<open>The reads fit into \<open>read_rounds\<close>; then the deadline has passed.\<close>

fun drain_chunks :: "'m nav_world \<Rightarrow> rat \<Rightarrow> pystr option \<Rightarrow> pystr \<Rightarrow> int \<Rightarrow> nat \<Rightarrow> bytes \<Rightarrow> ('m, bytes) nav" where
  "drain_chunks w deadline session handle limit 0 data = wf_stop (known Post_navigation_timeout ''body-stream-read'')"
| "drain_chunks w deadline session handle limit (Suc n) data =
     wf_bind (post_send w deadline ''IO.read'' [(''handle'', JStr handle), (''size'', JInt 1048576)] session ''body-stream-read'') (\<lambda>chunk.
     wf_bind (wf_from (chunk_bytes w chunk)) (\<lambda>b.
       if limit < int (length data + length b) then wf_stop (known Oversize ''body'')
       else if jget chunk ''eof'' = JBool True then wf_ret (data @ b)
       else drain_chunks w deadline session handle limit n (data @ b)))"

definition handle_of :: "members \<Rightarrow> pystr option" where
  "handle_of opened = (case jget opened ''stream'' of JStr (c # h) \<Rightarrow> Some (c # h) | _ \<Rightarrow> None)"

text \<open>\<open>except ObscuraClientError: raise; except Exception\<close>.\<close>

definition body_error :: "fetch_exn \<Rightarrow> fetch_exn" where
  "body_error e = (case e of
     Exn (Client_error f t) \<Rightarrow> e | Exn Cancelled \<Rightarrow> e | _ \<Rightarrow> known Body_unavailable ''body'')"

definition is_cancelled :: "fetch_exn \<Rightarrow> bool" where
  "is_cancelled e \<longleftrightarrow> e = Exn Cancelled"

definition mark_unusable :: "('m, unit) nav" where
  "mark_unusable = nav_set (\<lambda>s. s\<lparr>is_reusable := False\<rparr>)"

text \<open>A step of the cleanup: every \<open>Exception\<close> is caught, a cancellation is not.\<close>

definition cleanup_step :: "('m, unit) nav \<Rightarrow> ('m, unit) nav \<Rightarrow> ('m, unit) nav" where
  "cleanup_step m on_failure = wf_catch m (\<lambda>e. if is_cancelled e then wf_stop e else on_failure)"

definition close_handle :: "'m nav_world \<Rightarrow> rat \<Rightarrow> pystr option \<Rightarrow> json \<Rightarrow> ('m, unit) nav" where
  "close_handle w seconds session handle =
     cleanup_step (wf_bind (cdp_send w ''IO.close'' [(''handle'', handle)] session seconds Transport ''cleanup-body-close'')
       (\<lambda>_. wf_ret ())) mark_unusable"

definition drain_body :: "'m nav_world \<Rightarrow> rat \<Rightarrow> rat \<Rightarrow> pystr option \<Rightarrow> pystr \<Rightarrow> int \<Rightarrow> int \<Rightarrow> ('m, bytes) nav" where
  "drain_body w deadline cleanup session request expected limit =
     wf_bind (wf_catch (post_send w deadline ''Fetch.takeResponseBodyAsStream'' [(''requestId'', JStr request)] session ''body-stream-open'')
         (\<lambda>e. wf_stop (body_error e))) (\<lambda>opened.
       case handle_of opened of
         None \<Rightarrow>
           (if jget opened ''stream'' = JNull then wf_stop (known Protocol ''body'')
            else wf_finally (wf_stop (known Protocol ''body'')) (close_handle w cleanup session (jget opened ''stream'')))
       | Some handle \<Rightarrow>
           wf_finally
             (wf_bind (wf_catch (drain_chunks w deadline session handle limit (read_rounds w) [])
                 (\<lambda>e. wf_stop (body_error e))) (\<lambda>data.
               if int (length data) \<noteq> expected then wf_stop (known Protocol ''body'') else wf_ret data))
             (close_handle w cleanup session (JStr handle)))"

section \<open>The navigation\<close>

record fetch_result =
  requested_url :: pystr
  navigation_url :: pystr
  final_url :: pystr
  status :: int
  status_text :: pystr
  headers :: "(pystr \<times> pystr) list"
  content_type :: "pystr option"
  charset :: "pystr option"
  frame_id :: json
  loader_id :: pystr
  request_id :: pystr
  is_text :: bool
  byte_identity :: bool
  completed_bytes :: int
  rendered_html :: "pystr option"
  body :: "bytes option"
  body_failure :: "fetch_failure option"
  challenge_found :: "fetch_failure option"

text \<open>\<open>str(m.get(k, ""))\<close>, \<open>m.get(k, {})\<close> as an object, and \<open>int(m.get(k, 0))\<close>.\<close>

definition str_member :: "'m nav_world \<Rightarrow> members \<Rightarrow> pystr \<Rightarrow> pystr" where
  "str_member w m k = (case map_of m k of None \<Rightarrow> [] | Some (JStr t) \<Rightarrow> t | Some v \<Rightarrow> other_str w v)"

definition obj_member :: "members \<Rightarrow> pystr \<Rightarrow> members" where
  "obj_member m k = (case jget m k of JObj x \<Rightarrow> x | _ \<Rightarrow> [])"

definition int_member :: "'m nav_world \<Rightarrow> members \<Rightarrow> pystr \<Rightarrow> int option" where
  "int_member w m k = (case map_of m k of
     None \<Rightarrow> Some 0
   | Some (JInt n) \<Rightarrow> Some n
   | Some (JBool b) \<Rightarrow> Some (if b then 1 else 0)
   | Some JFloat \<Rightarrow> Some (float_int w)
   | Some (JStr t) \<Rightarrow> (case py_int t of Inl _ \<Rightarrow> None | Inr n \<Rightarrow> Some n)
   | Some _ \<Rightarrow> None)"

definition attached_session :: "'m nav_world \<Rightarrow> (pystr \<times> members) list \<Rightarrow> pystr \<Rightarrow> pystr" where
  "attached_session w seen target =
     (case find (\<lambda>(method, ps). method = ''Target.attachedToTarget'' \<and>
         jget (obj_member ps ''targetInfo'') ''targetId'' = JStr target) seen of
        None \<Rightarrow> [] | Some (method, ps) \<Rightarrow> str_member w ps ''sessionId'')"

definition terminal_document :: "json \<Rightarrow> pystr \<Rightarrow> (pystr \<times> members) \<Rightarrow> bool" where
  "terminal_document frame loader e \<longleftrightarrow> fst e = ''Network.responseReceived'' \<and> jget (snd e) ''type'' = JStr ''Document'' \<and>
     jget (snd e) ''frameId'' = frame \<and> jget (snd e) ''loaderId'' = JStr loader \<and> jget (snd e) ''requestId'' = JStr loader"

text \<open>The sizes of finished requests, by their identifiers; the last one counts.\<close>

fun finished_sizes :: "'m nav_world \<Rightarrow> (pystr \<times> members) list \<Rightarrow> fetch_exn + (pystr \<times> int) list" where
  "finished_sizes w [] = Inr []"
| "finished_sizes w ((method, ps) # rest) =
     (if method \<noteq> ''Network.loadingFinished'' then finished_sizes w rest
      else case int_member w ps ''encodedDataLength'' of
        None \<Rightarrow> Inl (unexpected ''int'')
      | Some n \<Rightarrow> rbind (finished_sizes w rest) (\<lambda>l.
          Inr (l @ [(case map_of ps ''requestId'' of None \<Rightarrow> other_str w JNull | Some (JStr t) \<Rightarrow> t | Some v \<Rightarrow> other_str w v, n)])))"

definition main_frames :: "json \<Rightarrow> (pystr \<times> members) list \<Rightarrow> members list" where
  "main_frames frame seen = List.map_filter (\<lambda>(method, ps).
     if method = ''Page.frameNavigated'' \<and> jget (obj_member ps ''frame'') ''id'' = frame
     then Some (obj_member ps ''frame'') else None) seen"

definition nav_header_values :: "'m nav_world \<Rightarrow> members \<Rightarrow> (pystr \<times> pystr) list option" where
  "nav_header_values w response = (case map_of response ''headers'' of
     None \<Rightarrow> Some []
   | Some (JObj hs) \<Rightarrow> Some (map (\<lambda>(k, v). (k, case v of JStr t \<Rightarrow> t | _ \<Rightarrow> other_str w v)) hs)
   | Some _ \<Rightarrow> None)"

record terminal =
  t_url :: pystr
  t_status :: int
  t_text :: pystr
  t_headers :: "(pystr \<times> pystr) list"
  t_size :: int

definition response_terminal :: "'m nav_world \<Rightarrow> fetch_args \<Rightarrow> pystr \<Rightarrow> members \<Rightarrow> int \<Rightarrow> fetch_exn + terminal" where
  "response_terminal w a url response size_done = (case int_member w response ''status'' of
     None \<Rightarrow> Inl (unexpected ''int'')
   | Some st \<Rightarrow> (case normalize_headers (nav_header_values w response) of
       Inl e \<Rightarrow> Inl (Exn e)
     | Inr hs \<Rightarrow>
         (if max (body_limit a) (dom_limit a) < size_done then Inl (known Oversize ''events'')
          else Inr \<lparr>t_url = url, t_status = st, t_text = str_member w response ''statusText'',
                 t_headers = hs, t_size = size_done\<rparr>)))"

definition response_of :: "members \<Rightarrow> members option" where
  "response_of ps = (case map_of ps ''response'' of None \<Rightarrow> Some [] | Some (JObj m) \<Rightarrow> Some m | Some _ \<Rightarrow> None)"

text \<open>From the events after the barrier to the checks before the page is read.\<close>

definition read_terminal :: "'m nav_world \<Rightarrow> fetch_args \<Rightarrow> json \<Rightarrow> pystr \<Rightarrow> (pystr \<times> members) list \<Rightarrow> fetch_exn + terminal" where
  "read_terminal w a frame loader seen =
     (case filter (terminal_document frame loader) seen of
        [(method, ps)] \<Rightarrow>
          rbind (finished_sizes w seen) (\<lambda>sizes.
          let frames = main_frames frame seen; url = str_member w (last frames) ''url''
          in if frames = [] \<or> loader = [] then Inl (known Protocol ''events'')
             else case map_of sizes loader of
               None \<Rightarrow> Inl (known Protocol ''events'')
             | Some size_done \<Rightarrow> (case normalize_public_url (url_codec w) (http_allowed a) (onion_http a) url of
                 Inl e \<Rightarrow> Inl (Exn e)
               | Inr _ \<Rightarrow> (case response_of ps of
                   None \<Rightarrow> Inl (unexpected ''response'')
                 | Some response \<Rightarrow> response_terminal w a url response size_done)))
      | _ \<Rightarrow> Inl (known Protocol ''events''))"

definition read_dom :: "'m nav_world \<Rightarrow> fetch_args \<Rightarrow> rat \<Rightarrow> pystr option \<Rightarrow> ('m, pystr) nav" where
  "read_dom w a deadline session =
     wf_bind (post_send w deadline ''DOM.getDocument'' [(''depth'', JInt 0)] session ''dom-document'') (\<lambda>doc.
     wf_bind (post_send w deadline ''DOM.getOuterHTML'' [(''nodeId'', jget (obj_member doc ''root'') ''nodeId'')] session ''dom-outer-html'') (\<lambda>outer.
       case jget outer ''outerHTML'' of
         JStr html \<Rightarrow> if dom_limit a < int (length (encode_utf8 html)) then wf_stop (known Oversize ''dom'') else wf_ret html
       | _ \<Rightarrow> wf_stop (known Protocol ''dom'')))"

definition read_document_body :: "'m nav_world \<Rightarrow> fetch_args \<Rightarrow> rat \<Rightarrow> pystr option \<Rightarrow> pystr \<Rightarrow> terminal \<Rightarrow> ('m, bytes option \<times> fetch_failure option) nav" where
  "read_document_body w a deadline session request t =
     wf_bind (nav_set (\<lambda>s. s\<lparr>stage_now := ''body-stream''\<rparr>)) (\<lambda>_.
     wf_catch (wf_bind (drain_body w deadline (cleanup_timeout a) session request (t_size t) (body_limit a)) (\<lambda>b. wf_ret (Some b, None)))
       (\<lambda>e. case e of
          Exn (Client_error f st) \<Rightarrow>
            if can_preserve_html_dom (want a) (fst (content_type_of (t_headers t))) (Client_error f st)
            then wf_ret (None, Some f) else wf_stop e
        | _ \<Rightarrow> wf_stop e))"

definition page_challenge :: "'m nav_world \<Rightarrow> int \<Rightarrow> pystr \<Rightarrow> pystr option \<Rightarrow> fetch_exn + fetch_failure option" where
  "page_challenge w st url html =
     (case challenge (url_codec w) (join_url w) st url (html_tokens w (take 262144 (case html of None \<Rightarrow> [] | Some h \<Rightarrow> h))) of
        Inl e \<Rightarrow> Inl (unexpected (exn_str e)) | Inr c \<Rightarrow> Inr c)"

definition finish_fetch ::
  "'m nav_world \<Rightarrow> fetch_args \<Rightarrow> rat \<Rightarrow> pystr \<Rightarrow> pystr option \<Rightarrow> json \<Rightarrow> pystr \<Rightarrow> terminal \<Rightarrow> ('m, fetch_result) nav" where
  "finish_fetch w a deadline nav_url session frame loader t =
     wf_bind (if want a = ''dom'' \<or> want a = ''both'' then wf_bind (read_dom w a deadline session) (\<lambda>h. wf_ret (Some h)) else wf_ret None) (\<lambda>html.
     wf_bind (if want a = ''body'' \<or> want a = ''both'' then read_document_body w a deadline session loader t else wf_ret (None, None)) (\<lambda>(b, bf).
     wf_bind (wf_from (page_challenge w (t_status t) (t_url t) html)) (\<lambda>c.
     let text = is_text_like_content_type (map_of (t_headers t) ''content-type'')
     in wf_ret \<lparr>requested_url = fetch_url a, navigation_url = nav_url, final_url = t_url t, status = t_status t,
          status_text = t_text t, headers = t_headers t, content_type = fst (content_type_of (t_headers t)),
          charset = snd (content_type_of (t_headers t)), frame_id = frame, loader_id = loader, request_id = loader,
          is_text = text, byte_identity = (\<not> text \<and> b \<noteq> None), completed_bytes = t_size t, rendered_html = html,
          body = b, body_failure = bf, challenge_found = c\<rparr>)))"

text \<open>The connection: the owner's session or a socket of its own; a timeout of it has a name of its own.\<close>

definition socket_size :: "fetch_args \<Rightarrow> int" where
  "socket_size a = max (body_limit a) (dom_limit a) + 1048576"

definition fetch_connect :: "'m nav_world \<Rightarrow> fetch_args \<Rightarrow> rat \<Rightarrow> ('m, unit) nav" where
  "fetch_connect w a deadline =
     wf_catch
       (if owned_session a
        then wf_bind (stage_remaining w deadline Pre_navigation_timeout ''connect'') (\<lambda>_.
             ensure_connected w (cdp_url a) (socket_size a))
        else wf_bind (if auth_token_ok (cdp_token w)
                      then wf_bind (stage_remaining w deadline Pre_navigation_timeout ''connect'') (\<lambda>_. wf_ret ())
                      else wf_ret ()) (\<lambda>_.
             wf_bind (open_socket w) (\<lambda>_.
             nav_set (\<lambda>s. s\<lparr>has_socket := True, last_id := 0, packets := []\<rparr>))))
       (\<lambda>e. wf_stop (if e = Timed_out_wait then known Pre_navigation_timeout ''connect'' else e))"

definition setup_send :: "'m nav_world \<Rightarrow> rat \<Rightarrow> pystr \<Rightarrow> members \<Rightarrow> pystr option \<Rightarrow> pystr \<Rightarrow> ('m, members) nav" where
  "setup_send w deadline = stage_send w deadline Pre_navigation_timeout Pre_navigation_timeout"

text \<open>\<open>frame_tree["frameTree"]["frame"]["id"]\<close>.\<close>

definition frame_of :: "members \<Rightarrow> json option" where
  "frame_of m = (case jget m ''frameTree'' of
     JObj t \<Rightarrow> (case jget t ''frame'' of JObj f \<Rightarrow> map_of f ''id'' | _ \<Rightarrow> None)
   | _ \<Rightarrow> None)"

definition ask_guard :: "'m nav_world \<Rightarrow> ('m, bool) nav" where
  "ask_guard w s = (case guard_answer w (around s) of (ok, m) \<Rightarrow> ([Guard_asked], s\<lparr>around := m\<rparr>, Inr ok))"

text \<open>The set-up: a target with its session, the frame, and the guard.\<close>

definition fetch_target :: "'m nav_world \<Rightarrow> fetch_args \<Rightarrow> rat \<Rightarrow> ('m, pystr \<times> json) nav" where
  "fetch_target w a deadline =
     wf_bind (setup_send w deadline ''Target.createTarget'' [(''url'', JStr ''about:blank'')] None ''create-target'') (\<lambda>created.
     wf_bind (nav_set (\<lambda>s. s\<lparr>target_now := str_member w created ''targetId''\<rparr>)) (\<lambda>_.
     wf_bind (nav_get (\<lambda>s. attached_session w (packets s) (target_now s))) (\<lambda>session.
     wf_bind (nav_get target_now) (\<lambda>target.
       if target = [] \<or> session = [] then wf_stop (known Protocol ''target'')
       else
         wf_bind (setup_send w deadline ''Network.enable'' [] (Some session) ''network-enable'') (\<lambda>_.
         wf_bind (setup_send w deadline ''Page.enable'' [] (Some session) ''page-enable'') (\<lambda>_.
         wf_bind (setup_send w deadline ''Page.setLifecycleEventsEnabled'' [(''enabled'', JBool True)] (Some session) ''lifecycle-enable'') (\<lambda>_.
         wf_bind (setup_send w deadline ''Page.getFrameTree'' [] (Some session) ''frame-tree'') (\<lambda>tree.
           case frame_of tree of
             None \<Rightarrow> wf_stop (unexpected ''frameTree'')
           | Some frame \<Rightarrow>
               wf_bind (if has_guard a then ask_guard w else wf_ret True) (\<lambda>ok.
                 if ok then wf_ret (session, frame) else wf_stop (known Finalized ''pre-navigation''))))))))))"

definition fetch_setup :: "'m nav_world \<Rightarrow> fetch_args \<Rightarrow> rat \<Rightarrow> ('m, pystr \<times> json) nav" where
  "fetch_setup w a deadline =
     wf_bind (fetch_connect w a deadline) (\<lambda>_.
     wf_bind (nav_set (\<lambda>s. s\<lparr>has_cdp := True, packets := []\<rparr>)) (\<lambda>_. fetch_target w a deadline))"

definition navigate_command :: "fetch_args \<Rightarrow> pystr \<Rightarrow> members" where
  "navigate_command a url = [(''url'', JStr url), (''waitUntil'', JStr (wait_until a))]"

text \<open>The navigation and its barrier; the wait for the event has its own budget.\<close>

definition fetch_navigate :: "'m nav_world \<Rightarrow> fetch_args \<Rightarrow> rat \<Rightarrow> pystr \<Rightarrow> pystr \<Rightarrow> json \<Rightarrow> ('m, pystr) nav" where
  "fetch_navigate w a deadline url session frame =
     wf_bind (nav_set (\<lambda>s. s\<lparr>packets := []\<rparr>)) (\<lambda>_.
     wf_bind (stage_send w deadline Post_navigation_timeout Navigation_timeout ''Page.navigate'' (navigate_command a url) (Some session) ''navigate'') (\<lambda>nav.
     wf_bind (stage_remaining w deadline Post_navigation_timeout ''event-barrier'') (\<lambda>left.
     wf_bind (wf_catch (wait_for_event w (\<lambda>e. fst e = ''Page.frameStoppedLoading'' \<and> jget (snd e) ''frameId'' = frame)
           (min (event_timeout a) left))
         (\<lambda>e. wf_bind (nav_get (\<lambda>s. deadline \<le> monotonic w (around s))) (\<lambda>over.
            wf_stop (if e = Timed_out_wait \<and> over then known Post_navigation_timeout ''event-barrier'' else e)))) (\<lambda>_.
     wf_bind (nav_set (\<lambda>s. s\<lparr>stage_now := ''terminal-events''\<rparr>)) (\<lambda>_.
     wf_ret (str_member w nav ''loaderId''))))))"

definition fetch_body :: "'m nav_world \<Rightarrow> fetch_args \<Rightarrow> rat \<Rightarrow> pystr \<Rightarrow> ('m, fetch_result) nav" where
  "fetch_body w a started url =
     (let deadline = started + total_timeout a
      in wf_bind (fetch_setup w a (min (started + setup_timeout a) deadline)) (\<lambda>(session, frame).
         wf_bind (fetch_navigate w a deadline url session frame) (\<lambda>loader.
         wf_bind (nav_get packets) (\<lambda>seen.
         wf_bind (wf_from (read_terminal w a frame loader seen)) (\<lambda>t.
         finish_fetch w a deadline url (Some session) frame loader t)))))"

definition denial_tokens :: "pystr list" where
  "denial_tokens = [''forbidden'', ''blocked'', ''private'', ''proxy'']"

definition failure_category :: "pystr \<Rightarrow> fetch_failure" where
  "failure_category m =
     (if any_marker denial_tokens (py_lower m) then Policy_denied
      else if contains (py_lower m) ''timeout'' then Navigation_timeout else Transport)"

text \<open>The \<open>except\<close> clauses; the session is not used again after any of them.\<close>

definition fetch_error :: "fetch_exn \<Rightarrow> ('m, fetch_result) nav" where
  "fetch_error e =
     wf_bind mark_unusable (\<lambda>_.
     wf_bind (nav_get stage_now) (\<lambda>stage_name. wf_stop (case e of
       Timed_out_wait \<Rightarrow> known Transport ''event-barrier''
     | Exn (Other_exn m) \<Rightarrow> known (failure_category m) stage_name
     | Exn (Bad_argument m) \<Rightarrow> known (failure_category m) stage_name
     | _ \<Rightarrow> e)))"

definition close_target :: "'m nav_world \<Rightarrow> fetch_args \<Rightarrow> ('m, unit) nav" where
  "close_target w a =
     wf_bind (nav_get (\<lambda>s. if has_cdp s then target_now s else [])) (\<lambda>target.
       if target = [] then wf_ret ()
       else cleanup_step
         (wf_bind (cdp_send w ''Target.closeTarget'' [(''targetId'', JStr target)] None (cleanup_timeout a) Transport ''cleanup-target-close'') (\<lambda>closed.
            if jget closed ''success'' = JBool True then wf_ret () else mark_unusable))
         mark_unusable)"

definition fetch_cleanup :: "'m nav_world \<Rightarrow> fetch_args \<Rightarrow> ('m, unit) nav" where
  "fetch_cleanup w a =
     wf_bind (close_target w a) (\<lambda>_.
     wf_bind (nav_get id) (\<lambda>s.
     wf_bind (if owned_session a \<and> \<not> is_reusable s then cleanup_step (session_close w) (wf_ret ())
              else if \<not> owned_session a \<and> has_socket s then cleanup_step (socket_close w) (wf_ret ())
              else wf_ret ()) (\<lambda>_.
     nav_set (\<lambda>s. s\<lparr>packets := []\<rparr>))))"

definition timeouts_ok :: "fetch_args \<Rightarrow> bool" where
  "timeouts_ok a \<longleftrightarrow> 0 < setup_timeout a \<and> 0 < cleanup_timeout a \<and> 0 < total_timeout a"

definition fetch_page :: "'m nav_world \<Rightarrow> fetch_args \<Rightarrow> ('m, fetch_result) nav" where
  "fetch_page w a =
     (if body_limit a \<le> 0 \<or> dom_limit a \<le> 0 then wf_stop (Exn (Bad_argument ''body and DOM limits must be positive''))
      else if \<not> timeouts_ok a then wf_stop (Exn (Bad_argument ''timeout must be positive and finite''))
      else if wait_until a \<notin> set allowed_wait_until then wf_stop (Exn (Bad_argument ''waitUntil''))
      else case normalize_public_url (url_codec w) (http_allowed a) (onion_http a) (fetch_url a) of
        Inl e \<Rightarrow> wf_stop (Exn e)
      | Inr (url, fragment) \<Rightarrow>
          wf_bind (nav_get (\<lambda>s. monotonic w (around s))) (\<lambda>started.
          wf_bind (nav_set (\<lambda>s. s\<lparr>stage_now := ''connect'', is_reusable := True, has_cdp := False, has_socket := False, target_now := []\<rparr>)) (\<lambda>_.
          wf_finally (wf_catch (fetch_body w a started url) fetch_error) (fetch_cleanup w a))))"

section \<open>What is received\<close>

abbreviation yields :: "('a \<Rightarrow> bool) \<Rightarrow> ('m, 'a) nav \<Rightarrow> bool" where
  "yields Q m \<equiv> wf_bound (\<lambda>_. False) 0 Q m"

lemma yields_any [simp]: "yields (\<lambda>_. True) m"
  by (simp add: wf_bound_def)

lemma yields_bind: "(\<And>x. yields Q (f x)) \<Longrightarrow> yields Q (wf_bind m f)"
  by (rule bound_bind [where R = "\<lambda>_. True" and n = 0 and k = 0]) auto

lemma yields_bind_with: "yields R m \<Longrightarrow> (\<And>x. R x \<Longrightarrow> yields Q (f x)) \<Longrightarrow> yields Q (wf_bind m f)"
  by (rule bound_bind [where R = R and n = 0 and k = 0]) auto

lemma yields_catch:
  assumes "yields Q m" "\<And>e. yields Q (h e)"
  shows "yields Q (wf_catch m h)"
  using assms unfolding wf_bound_def wf_catch_def
  by (auto split: prod.splits sum.splits) (metis snd_conv)+

lemma yields_finally: "yields Q m \<Longrightarrow> yields Q (wf_finally m f)"
  unfolding wf_bound_def wf_finally_def
  by (auto split: prod.splits sum.splits) (metis snd_conv)

lemma drain_chunks_limit:
  "int (length data) \<le> limit \<Longrightarrow> yields (\<lambda>b. int (length b) \<le> limit) (drain_chunks w d session handle limit n data)"
  by (induction n arbitrary: data) (auto intro!: yields_bind bound_stop bound_ret)

lemma drain_body_exact:
  assumes "0 \<le> limit"
  shows "yields (\<lambda>b. int (length b) = expected \<and> int (length b) \<le> limit) (drain_body w d c session request expected limit)"
proof -
  have "yields (\<lambda>b. int (length b) \<le> limit)
      (wf_catch (drain_chunks w d session handle limit (read_rounds w) []) (\<lambda>e. wf_stop (body_error e)))" for handle
    using assms by (intro yields_catch drain_chunks_limit bound_stop) auto
  then have "yields (\<lambda>b. int (length b) = expected \<and> int (length b) \<le> limit)
      (wf_bind (wf_catch (drain_chunks w d session handle limit (read_rounds w) []) (\<lambda>e. wf_stop (body_error e)))
        (\<lambda>data. if int (length data) \<noteq> expected then wf_stop (known Protocol ''body'') else wf_ret data))" for handle
    by (rule yields_bind_with) (auto intro: bound_stop bound_ret)
  note chunks = this
  show ?thesis unfolding drain_body_def
  proof (rule yields_bind)
    fix opened
    show "yields (\<lambda>b. int (length b) = expected \<and> int (length b) \<le> limit) (case handle_of opened of
         None \<Rightarrow>
           (if jget opened ''stream'' = JNull then wf_stop (known Protocol ''body'')
            else wf_finally (wf_stop (known Protocol ''body'')) (close_handle w c session (jget opened ''stream'')))
       | Some handle \<Rightarrow>
           wf_finally
             (wf_bind (wf_catch (drain_chunks w d session handle limit (read_rounds w) []) (\<lambda>e. wf_stop (body_error e)))
               (\<lambda>data. if int (length data) \<noteq> expected then wf_stop (known Protocol ''body'') else wf_ret data))
             (close_handle w c session (JStr handle)))"
      using chunks by (cases "handle_of opened") (simp_all del: jget.simps add: yields_finally bound_stop)
  qed
qed

definition html_content :: "terminal \<Rightarrow> bool" where
  "html_content t \<longleftrightarrow> fst (content_type_of (t_headers t)) \<in> {Some ''text/html'', Some ''application/xhtml+xml''}"

definition body_as_received :: "fetch_args \<Rightarrow> terminal \<Rightarrow> bytes option \<times> fetch_failure option \<Rightarrow> bool" where
  "body_as_received a t r \<longleftrightarrow> (case r of
     (Some b, bf) \<Rightarrow> int (length b) = t_size t \<and> int (length b) \<le> body_limit a \<and> bf = None
   | (None, bf) \<Rightarrow> bf = Some Body_unavailable \<and> want a = ''both'' \<and> html_content t)"

lemma read_document_body_received:
  "0 < body_limit a \<Longrightarrow> yields (body_as_received a t) (read_document_body w a d session request t)"
  unfolding read_document_body_def
  by (intro yields_bind yields_catch yields_bind_with [OF drain_body_exact])
    (auto simp: body_as_received_def can_preserve_html_dom_def html_content_def intro!: bound_ret bound_stop
      split: fetch_exn.splits client_exn.splits)

definition as_received :: "'m nav_world \<Rightarrow> fetch_args \<Rightarrow> fetch_result \<Rightarrow> bool" where
  "as_received w a r \<longleftrightarrow>
     (\<exists>u fragment. normalize_public_url (url_codec w) (http_allowed a) (onion_http a) (final_url r) = Inr (u, fragment)) \<and>
     (\<forall>b. body r = Some b \<longrightarrow> int (length b) = completed_bytes r \<and> int (length b) \<le> body_limit a) \<and>
     (\<forall>h. rendered_html r = Some h \<longrightarrow> int (length (encode_utf8 h)) \<le> dom_limit a) \<and>
     (body r = None \<and> want a \<in> {''body'', ''both''} \<longrightarrow>
        want a = ''both'' \<and> body_failure r = Some Body_unavailable \<and> rendered_html r \<noteq> None \<and>
        content_type r \<in> {Some ''text/html'', Some ''application/xhtml+xml''})"

lemma read_dom_limit: "yields (\<lambda>h. int (length (encode_utf8 h)) \<le> dom_limit a) (read_dom w a d session)"
  unfolding read_dom_def
  by (auto intro!: yields_bind bound_stop bound_ret split: json.splits)

lemma finish_received:
  assumes "normalize_public_url (url_codec w) (http_allowed a) (onion_http a) (t_url t) = Inr (u, fragment)" "0 < body_limit a"
  shows "yields (as_received w a) (finish_fetch w a d url session frame loader t)"
proof -
  have dom: "yields (\<lambda>html. (\<forall>h. html = Some h \<longrightarrow> int (length (encode_utf8 h)) \<le> dom_limit a) \<and> (want a = ''both'' \<longrightarrow> html \<noteq> None))
     (if want a = ''dom'' \<or> want a = ''both'' then wf_bind (read_dom w a d session) (\<lambda>h. wf_ret (Some h)) else wf_ret None)"
    by (auto intro!: bound_ret yields_bind_with [OF read_dom_limit])
  have bod: "yields (\<lambda>r. want a \<in> {''body'', ''both''} \<and> body_as_received a t r \<or> want a \<notin> {''body'', ''both''} \<and> r = (None, None))
     (if want a = ''body'' \<or> want a = ''both'' then read_document_body w a d session loader t else wf_ret (None, None))"
  proof (cases "want a = ''body'' \<or> want a = ''both''")
    case True
    then show ?thesis by (auto intro: bound_weaken [OF read_document_body_received [OF assms(2)]])
  next
    case False
    then show ?thesis by (auto intro: bound_ret)
  qed
  show ?thesis unfolding finish_fetch_def
    by (rule yields_bind_with [OF dom], rule yields_bind_with [OF bod])
      (auto simp: as_received_def body_as_received_def html_content_def assms(1) Let_def intro!: yields_bind bound_ret
        split: prod.splits option.splits)
qed

lemma response_url: "response_terminal w a url m n = Inr t \<Longrightarrow> t_url t = url"
  by (auto simp: response_terminal_def split: option.splits sum.splits if_splits)

lemma terminal_public:
  "read_terminal w a frame loader seen = Inr t \<Longrightarrow>
    \<exists>u fragment. normalize_public_url (url_codec w) (http_allowed a) (onion_http a) (t_url t) = Inr (u, fragment)"
  by (auto simp: read_terminal_def Let_def rbind_Inr_iff dest!: response_url
    split: list.splits prod.splits option.splits sum.splits if_splits) (metis response_url not_None_eq)

lemma body_received: "0 < body_limit a \<Longrightarrow> yields (as_received w a) (fetch_body w a t0 url)"
proof -
  assume l: "0 < body_limit a"
  have t: "yields (\<lambda>t. read_terminal w a frame loader seen = Inr t) (wf_from (read_terminal w a frame loader seen))" for frame loader seen
    by (rule bound_from)
  show ?thesis unfolding fetch_body_def Let_def
    by (intro yields_bind) (auto intro!: yields_bind yields_bind_with [OF t] dest!: terminal_public intro: finish_received [OF _ l])
qed

lemma page_result:
  assumes "fetch_page w a s = (es, s', Inr r)"
  shows "0 < body_limit a \<and> (\<exists>t0 url s1 es1 s2. fetch_body w a t0 url s1 = (es1, s2, Inr r))"
proof -
  obtain t0 url s1 es1 where f: "wf_finally (wf_catch (fetch_body w a t0 url) fetch_error) (fetch_cleanup w a) s1 = (es1, s', Inr r)" and
    l: "0 < body_limit a"
    using assms unfolding fetch_page_def by (auto simp: wf_stop_def split: if_splits sum.splits elim!: wf_bind_Inr)
  obtain es2 s2 q where b: "fetch_body w a t0 url s1 = (es2, s2, q)" by (cases "fetch_body w a t0 url s1") auto
  have "q = Inr r"
    using f b by (cases q) (auto simp: wf_finally_def wf_catch_def fetch_error_def mark_unusable_def nav_set_def nav_get_def
      wf_bind_def wf_stop_def split: prod.splits sum.splits)
  with b l show ?thesis by blast
qed

text \<open>
  C14 (functional). A fetched page is what was received: whatever the browser and the network send, a result has a
  public final URL, its body has exactly as many bytes as the browser reported for the document and no more
  than the limit, its rendered document is within its limit, and a wanted body is missing only for an HTML
  document that was also wanted as rendered and is there.
\<close>

theorem fetched_as_received:
  assumes "fetch_page w a s = (es, s', Inr r)"
  shows "as_received w a r"
proof -
  obtain t0 url s1 es1 s2 where l: "0 < body_limit a" and b: "fetch_body w a t0 url s1 = (es1, s2, Inr r)"
    using page_result [OF assms] by blast
  show ?thesis using body_received [OF l, of w t0 url] b unfolding wf_bound_def by (metis snd_conv)
qed

section \<open>One navigation\<close>

definition is_navigation :: "fetch_event \<Rightarrow> bool" where
  "is_navigation e \<longleftrightarrow> (\<exists>ps session. e = Command ''Page.navigate'' ps session)"

definition wrong_navigation :: "'m nav_world \<Rightarrow> fetch_args \<Rightarrow> fetch_event \<Rightarrow> bool" where
  "wrong_navigation w a e \<longleftrightarrow> is_navigation e \<and>
     \<not> (\<exists>url fragment session. e = Command ''Page.navigate'' (navigate_command a url) session \<and>
          normalize_public_url (url_codec w) (http_allowed a) (onion_http a) (fetch_url a) = Inr (url, fragment))"

definition navigations_only :: "(fetch_event \<Rightarrow> bool) \<Rightarrow> bool" where
  "navigations_only P \<longleftrightarrow> (\<forall>e. P e \<longrightarrow> is_navigation e)"

lemma navigations_only_simps [simp]: "navigations_only is_navigation" "navigations_only (wrong_navigation w a)"
  by (auto simp: navigations_only_def wrong_navigation_def)

lemma nav_quiet_simple [simp]:
  "quiet P (nav_get f)" "quiet P (nav_set g)" "quiet P (wait_for_event w p b)" "quiet P (mark_unusable)"
  "quiet P (wf_stop e)" "quiet P (wf_ret x)" "quiet P (wf_from r)"
  by (auto simp: wf_bound_def nav_get_def nav_set_def wait_for_event_def mark_unusable_def wf_stop_def wf_ret_def wf_from_def
    split: prod.splits)

lemma send_bound:
  "(P (Command method ps session) \<Longrightarrow> 1 \<le> n) \<Longrightarrow> wf_bound P n (\<lambda>_. True) (cdp_send w method ps session seconds category st)"
  by (auto simp: wf_bound_def cdp_send_def Let_def split: prod.splits)

lemma send_quiet:
  assumes "navigations_only P" "method \<noteq> ''Page.navigate''"
  shows "quiet P (cdp_send w method ps session seconds category st)"
  using assms by (intro send_bound) (auto simp: navigations_only_def is_navigation_def)

lemma stage_remaining_quiet [simp]: "quiet P (stage_remaining w d c st)"
  unfolding stage_remaining_def by (intro quiet_bind bound_if) simp_all

lemma stage_send_quiet:
  "\<lbrakk>navigations_only P; method \<noteq> ''Page.navigate''\<rbrakk> \<Longrightarrow> quiet P (stage_send w d x c method ps session st)"
  unfolding stage_send_def by (intro quiet_bind send_quiet) simp_all

lemmas send_quiets = stage_send_quiet send_quiet

lemma socket_quiet:
  assumes "navigations_only P"
  shows "quiet P (open_socket w)" "quiet P (socket_close w)" "quiet P (ask_guard w)"
proof -
  have "\<not> P Socket_opened" "\<not> P Socket_closed" "\<not> P Guard_asked"
    using assms by (auto simp: navigations_only_def is_navigation_def)
  then show "quiet P (open_socket w)" "quiet P (socket_close w)" "quiet P (ask_guard w)"
    by (auto simp: wf_bound_def open_socket_def socket_close_def ask_guard_def wf_stop_def
      split: prod.splits connect_answer.splits)
qed

lemma cleanup_step_quiet: "quiet P m \<Longrightarrow> quiet P h \<Longrightarrow> quiet P (cleanup_step m h)"
  unfolding cleanup_step_def by (intro quiet_catch bound_if) simp_all

lemma session_quiet:
  assumes "navigations_only P"
  shows "quiet P (ensure_connected w url n)" "quiet P (session_close w)"
  unfolding ensure_connected_def session_close_def using assms
  by (auto intro!: quiet_bind socket_quiet split: option.splits)

lemma drain_quiet:
  assumes "navigations_only P"
  shows "quiet P (drain_body w d c session request n limit)"
proof -
  have chunks: "quiet P (drain_chunks w d session handle limit k data)" for handle k data
    using assms by (induction k arbitrary: data) (auto simp: post_send_def intro!: quiet_bind send_quiets)
  have close: "quiet P (close_handle w c session h)" for h
    unfolding close_handle_def using assms by (intro cleanup_step_quiet quiet_bind send_quiets) simp_all
  show ?thesis unfolding drain_body_def post_send_def using assms
    by (auto intro!: quiet_bind quiet_catch quiet_finally send_quiets chunks close split: option.splits)
qed

lemma finish_quiet:
  assumes "navigations_only P"
  shows "quiet P (finish_fetch w a d url session frame loader t)"
proof -
  have "quiet P (read_dom w a d session)" unfolding read_dom_def post_send_def using assms
    by (auto intro!: quiet_bind send_quiets split: json.splits)
  moreover have "quiet P (read_document_body w a d session loader t)" unfolding read_document_body_def using assms
    by (auto intro!: quiet_bind quiet_catch drain_quiet split: fetch_exn.splits client_exn.splits)
  ultimately show ?thesis unfolding finish_fetch_def Let_def by (auto intro!: quiet_bind)
qed

lemma setup_quiet:
  assumes "navigations_only P"
  shows "quiet P (fetch_setup w a d)"
proof -
  have "quiet P (fetch_connect w a d)" unfolding fetch_connect_def using assms
    by (auto intro!: quiet_catch quiet_bind session_quiet socket_quiet)
  then show ?thesis unfolding fetch_setup_def fetch_target_def setup_send_def using assms
    by (auto intro!: quiet_bind send_quiets socket_quiet split: option.splits)
qed

lemma navigate_bound:
  assumes "\<And>session. P (Command ''Page.navigate'' (navigate_command a url) session) \<Longrightarrow> 1 \<le> n"
  shows "wf_bound P n (\<lambda>_. True) (fetch_navigate w a d url session frame)"
proof -
  have "wf_bound P n (\<lambda>_. True)
      (stage_send w d Post_navigation_timeout Navigation_timeout ''Page.navigate'' (navigate_command a url) (Some session) ''navigate'')"
    unfolding stage_send_def by (intro bound_after send_bound assms) simp_all
  then show ?thesis unfolding fetch_navigate_def
    by (intro bound_after [OF nav_quiet_simple(2)] bound_then quiet_bind quiet_catch) simp_all
qed

lemma body_bound:
  assumes "navigations_only P" "\<And>session. P (Command ''Page.navigate'' (navigate_command a url) session) \<Longrightarrow> 1 \<le> n"
  shows "wf_bound P n (\<lambda>_. True) (fetch_body w a t0 url)"
  unfolding fetch_body_def Let_def
  by (intro bound_after [OF setup_quiet [OF assms(1)]])
    (auto intro!: bound_then navigate_bound assms(2) quiet_bind finish_quiet assms(1))

lemma cleanup_quiet: "navigations_only P \<Longrightarrow> quiet P (fetch_cleanup w a)"
  unfolding fetch_cleanup_def close_target_def
  by (auto intro!: quiet_bind cleanup_step_quiet send_quiets session_quiet socket_quiet)

lemma page_bound:
  assumes "navigations_only P" "\<And>url fragment session.
    \<lbrakk>normalize_public_url (url_codec w) (http_allowed a) (onion_http a) (fetch_url a) = Inr (url, fragment);
     P (Command ''Page.navigate'' (navigate_command a url) session)\<rbrakk> \<Longrightarrow> 1 \<le> n"
  shows "length (filter P (fst (fetch_page w a s))) \<le> n"
proof (cases "\<exists>url fragment. normalize_public_url (url_codec w) (http_allowed a) (onion_http a) (fetch_url a) = Inr (url, fragment)")
  case False
  then show ?thesis by (auto simp: fetch_page_def wf_stop_def split: sum.splits)
next
  case True
  then obtain url fragment where u: "normalize_public_url (url_codec w) (http_allowed a) (onion_http a) (fetch_url a) = Inr (url, fragment)"
    by blast
  define f where "f t0 = wf_finally (wf_catch (fetch_body w a t0 url) fetch_error) (fetch_cleanup w a)" for t0
  have run: "length (filter P (fst (f t0 s))) \<le> n" for t0 s
  proof -
    obtain es s1 r where b: "fetch_body w a t0 url s = (es, s1, r)" by (cases "fetch_body w a t0 url s") auto
    have e1: "length (filter P es) \<le> n"
      using body_bound [OF assms(1), of a url n w t0] assms(2) [OF u] b unfolding wf_bound_def by (metis fst_conv)
    have c: "filter P (fst (fetch_cleanup w a s2)) = []" for s2
      using cleanup_quiet [OF assms(1), of w a] by (simp add: wf_bound_def)
    obtain q s2 where q: "wf_catch (fetch_body w a t0 url) fetch_error s = (es, s2, q)"
      using b by (cases r) (auto simp: wf_catch_def fetch_error_def mark_unusable_def nav_set_def nav_get_def wf_bind_def
        wf_stop_def)
    show ?thesis using e1 c [of s2] q
      by (cases "fetch_cleanup w a s2") (auto simp: f_def wf_finally_def split: sum.splits)
  qed
  then show ?thesis using u
    by (auto simp: fetch_page_def f_def [symmetric] wf_stop_def wf_bind_def nav_get_def nav_set_def split: prod.splits)
qed

text \<open>
  C15 (safety). A fetch navigates at most once, and only to the normalized form of the URL it was given, with the
  wait that was asked for, whatever the browser answers.
\<close>

theorem one_public_navigation:
  "length (filter is_navigation (fst (fetch_page w a s))) \<le> 1 \<and> filter (wrong_navigation w a) (fst (fetch_page w a s)) = []"
proof -
  have "length (filter (wrong_navigation w a) (fst (fetch_page w a s))) \<le> 0"
    by (rule page_bound) (auto simp: wrong_navigation_def)
  then show ?thesis using page_bound [of is_navigation w a 1 s] by auto
qed

section \<open>Nothing is left open\<close>

text \<open>A relation between the events, the state before and the state after, kept by sequencing.\<close>

definition wf_rel :: "('e list \<Rightarrow> 's \<Rightarrow> 's \<Rightarrow> bool) \<Rightarrow> ('s, 'e, 'x, 'a) run \<Rightarrow> bool" where
  "wf_rel T m \<longleftrightarrow> (\<forall>s. T (fst (m s)) s (fst (snd (m s))))"

definition composes :: "('e list \<Rightarrow> 's \<Rightarrow> 's \<Rightarrow> bool) \<Rightarrow> bool" where
  "composes T \<longleftrightarrow> (\<forall>s. T [] s s) \<and> (\<forall>es es' s s1 s2. T es s s1 \<longrightarrow> T es' s1 s2 \<longrightarrow> T (es @ es') s s2)"

lemma rel_bind: "composes T \<Longrightarrow> wf_rel T m \<Longrightarrow> (\<And>x. wf_rel T (f x)) \<Longrightarrow> wf_rel T (wf_bind m f)"
  unfolding wf_rel_def composes_def wf_bind_def
  by (auto split: prod.splits sum.splits) (metis fst_conv snd_conv)+

lemma rel_catch: "composes T \<Longrightarrow> wf_rel T m \<Longrightarrow> (\<And>e. wf_rel T (h e)) \<Longrightarrow> wf_rel T (wf_catch m h)"
  unfolding wf_rel_def composes_def wf_catch_def
  by (auto split: prod.splits sum.splits) (metis fst_conv snd_conv)+

lemma rel_finally: "composes T \<Longrightarrow> wf_rel T m \<Longrightarrow> wf_rel T f \<Longrightarrow> wf_rel T (wf_finally m f)"
  unfolding wf_rel_def composes_def wf_finally_def
  by (auto split: prod.splits sum.splits) (metis fst_conv snd_conv)+

text \<open>What the variables of \<open>fetch\<close> tell about the events of a fetch that owns its connection.\<close>

definition traced :: "fetch_event list \<Rightarrow> 'm fetch_state \<Rightarrow> 'm fetch_state \<Rightarrow> bool" where
  "traced es s s' \<longleftrightarrow> (has_socket s \<or> Socket_opened \<in> set es \<longrightarrow> has_socket s') \<and> (has_cdp s \<longrightarrow> has_cdp s')"

lemma traced_composes [simp]: "composes traced"
  by (auto simp: composes_def traced_def)

lemma traced_simple [simp]:
  "wf_rel traced (wf_ret x)" "wf_rel traced (wf_stop e)" "wf_rel traced (wf_from r)" "wf_rel traced (nav_get g)"
  "wf_rel traced (wait_for_event w p b)" "wf_rel traced (cdp_send w method ps session seconds c st)"
  "wf_rel traced mark_unusable" "wf_rel traced (ask_guard w)" "wf_rel traced (socket_close w)"
  "wf_rel traced (nav_set (\<lambda>s. s\<lparr>stage_now := st\<rparr>))" "wf_rel traced (nav_set (\<lambda>s. s\<lparr>packets := []\<rparr>))"
  "wf_rel traced (nav_set (\<lambda>s. s\<lparr>has_cdp := True, packets := []\<rparr>))"
  "wf_rel traced (nav_set (\<lambda>s. s\<lparr>target_now := target\<rparr>))"
  by (auto simp: wf_rel_def traced_def wf_ret_def wf_stop_def wf_from_def nav_get_def nav_set_def wait_for_event_def
    cdp_send_def mark_unusable_def ask_guard_def socket_close_def Let_def split: prod.splits)

lemma traced_stage [simp]: "wf_rel traced (stage_remaining w d c st)" "wf_rel traced (stage_send w d x c method ps session st)"
proof -
  show "wf_rel traced (stage_remaining w d c st)" for d c st
    unfolding stage_remaining_def by (auto intro!: rel_bind)
  then show "wf_rel traced (stage_send w d x c method ps session st)"
    unfolding stage_send_def by (auto intro!: rel_bind)
qed

lemma traced_cleanup: "wf_rel traced m \<Longrightarrow> wf_rel traced h \<Longrightarrow> wf_rel traced (cleanup_step m h)"
  unfolding cleanup_step_def by (auto intro!: rel_catch)

lemma traced_drain: "wf_rel traced (drain_body w d c session request n limit)"
proof -
  have chunks: "wf_rel traced (drain_chunks w d session handle limit k data)" for handle k data
    by (induction k arbitrary: data) (auto simp: post_send_def intro!: rel_bind)
  have close: "wf_rel traced (close_handle w c session h)" for h
    unfolding close_handle_def by (auto intro!: traced_cleanup rel_bind)
  show ?thesis unfolding drain_body_def post_send_def
    by (auto intro!: rel_bind rel_catch rel_finally chunks close split: option.splits)
qed

lemma traced_finish: "wf_rel traced (finish_fetch w a d url session frame loader t)"
proof -
  have "wf_rel traced (read_dom w a d session)" unfolding read_dom_def post_send_def
    by (auto intro!: rel_bind split: json.splits)
  moreover have "wf_rel traced (read_document_body w a d session loader t)" unfolding read_document_body_def
    by (auto intro!: rel_bind rel_catch traced_drain split: fetch_exn.splits client_exn.splits)
  ultimately show ?thesis unfolding finish_fetch_def Let_def by (auto intro!: rel_bind)
qed

lemma traced_open:
  "wf_rel traced (wf_bind (open_socket w) (\<lambda>_. nav_set (\<lambda>s. s\<lparr>has_socket := True, last_id := 0, packets := []\<rparr>)))"
  by (auto simp: wf_rel_def traced_def wf_bind_def open_socket_def nav_set_def wf_stop_def split: prod.splits connect_answer.splits)

lemma traced_connect:
  assumes "\<not> owned_session a"
  shows "wf_rel traced (fetch_connect w a d)"
proof -
  have "wf_rel traced (wf_bind (if auth_token_ok (cdp_token w)
        then wf_bind (stage_remaining w d Pre_navigation_timeout ''connect'') (\<lambda>_. wf_ret ()) else wf_ret ())
      (\<lambda>_. wf_bind (open_socket w) (\<lambda>_. nav_set (\<lambda>s. s\<lparr>has_socket := True, last_id := 0, packets := []\<rparr>))))"
    by (rule rel_bind [OF traced_composes _ traced_open]) (auto intro!: rel_bind)
  then show ?thesis unfolding fetch_connect_def using assms by (auto intro!: rel_catch)
qed

definition same_target :: "fetch_event list \<Rightarrow> 'm fetch_state \<Rightarrow> 'm fetch_state \<Rightarrow> bool" where
  "same_target es s s' \<longleftrightarrow> target_now s' = target_now s"

lemma same_target_composes [simp]: "composes same_target"
  by (auto simp: composes_def same_target_def)

lemma same_target_connect: "wf_rel same_target (fetch_connect w a d)"
proof -
  have simple: "wf_rel same_target (wf_ret x)" "wf_rel same_target (wf_stop e)" "wf_rel same_target (nav_get g)"
    "wf_rel same_target (open_socket w)" "wf_rel same_target (nav_set (\<lambda>s. s\<lparr>stage_now := st\<rparr>))"
    "wf_rel same_target (nav_set (\<lambda>s. s\<lparr>retained := r, last_id := 0, packets := []\<rparr>))"
    "wf_rel same_target (nav_set (\<lambda>s. s\<lparr>has_socket := True, last_id := 0, packets := []\<rparr>))" for x e g st r
    by (auto simp: wf_rel_def same_target_def wf_ret_def wf_stop_def nav_get_def nav_set_def open_socket_def
      split: prod.splits connect_answer.splits)
  show ?thesis unfolding fetch_connect_def ensure_connected_def stage_remaining_def
    by (auto intro!: rel_catch rel_bind simple split: option.splits)
qed

lemma traced_target: "wf_rel traced (fetch_target w a d)"
  unfolding fetch_target_def setup_send_def by (auto intro!: rel_bind split: option.splits)

lemma traced_navigate: "wf_rel traced (fetch_navigate w a d url session frame)"
  unfolding fetch_navigate_def by (auto intro!: rel_bind rel_catch)

lemma traced_setup: "\<not> owned_session a \<Longrightarrow> wf_rel traced (fetch_setup w a d)"
  unfolding fetch_setup_def by (auto intro!: rel_bind traced_connect traced_target)

lemma traced_body: "\<not> owned_session a \<Longrightarrow> wf_rel traced (fetch_body w a t0 url)"
  unfolding fetch_body_def Let_def by (auto intro!: rel_bind traced_setup traced_navigate traced_finish)

lemma traced_triple: "wf_rel traced m \<Longrightarrow> wf_triple has_cdp m (\<lambda>_. has_cdp) has_cdp"
  by (auto simp: wf_rel_def traced_def wf_triple_def split: sum.splits)

abbreviation target_connected :: "'m fetch_state \<Rightarrow> bool" where
  "target_connected s \<equiv> target_now s = [] \<or> has_cdp s"

lemma body_target: "wf_triple (\<lambda>s. target_now s = []) (fetch_body w a t0 url) (\<lambda>_. target_connected) target_connected"
proof -
  have connect: "wf_triple (\<lambda>s. target_now s = []) (fetch_connect w a d) (\<lambda>_ _. True) target_connected" for d
    using same_target_connect [of w a d] by (auto simp: wf_rel_def same_target_def wf_triple_def split: sum.splits)
  have "wf_triple (\<lambda>s. target_now s = []) (fetch_setup w a d) (\<lambda>_. has_cdp) target_connected" for d
    unfolding fetch_setup_def
    by (rule triple_bind [OF connect], rule triple_bind [where R = "\<lambda>_. has_cdp"],
        simp add: wf_triple_def nav_set_def, rule triple_weaken [OF traced_triple [OF traced_target]]) auto
  then show ?thesis unfolding fetch_body_def Let_def
  proof (rule triple_bind)
    fix x
    have "wf_rel traced (case x of (session, frame) \<Rightarrow>
         wf_bind (fetch_navigate w a (t0 + total_timeout a) url session frame) (\<lambda>loader.
         wf_bind (nav_get packets) (\<lambda>seen.
         wf_bind (wf_from (read_terminal w a frame loader seen)) (\<lambda>t.
         finish_fetch w a (t0 + total_timeout a) url (Some session) frame loader t))))"
      by (auto intro!: rel_bind traced_navigate traced_finish split: prod.split)
    from traced_triple [OF this]
    show "wf_triple has_cdp (case x of (session, frame) \<Rightarrow>
         wf_bind (fetch_navigate w a (t0 + total_timeout a) url session frame) (\<lambda>loader.
         wf_bind (nav_get packets) (\<lambda>seen.
         wf_bind (wf_from (read_terminal w a frame loader seen)) (\<lambda>t.
         finish_fetch w a (t0 + total_timeout a) url (Some session) frame loader t)))) (\<lambda>_. target_connected) target_connected"
      by (rule triple_weaken) auto
  qed
qed

section \<open>The cleanup\<close>

lemma close_target_log:
  assumes "target_now s \<noteq> []" "has_cdp s" "0 < cleanup_timeout a"
  shows "Command ''Target.closeTarget'' [(''targetId'', JStr (target_now s))] None \<in> set (fst (close_target w a s))"
proof -
  obtain es s1 r where c: "cdp_send w ''Target.closeTarget'' [(''targetId'', JStr (target_now s))] None (cleanup_timeout a)
      Transport ''cleanup-target-close'' s = (es, s1, r)" by (cases "cdp_send w ''Target.closeTarget'' [(''targetId'', JStr (target_now s))] None (cleanup_timeout a)
      Transport ''cleanup-target-close'' s") auto
  then have "Command ''Target.closeTarget'' [(''targetId'', JStr (target_now s))] None \<in> set es"
    using assms(3) by (auto simp: cdp_send_def Let_def split: prod.splits)
  then show ?thesis
    using assms(1,2) c by (auto simp: close_target_def cleanup_step_def wf_bind_def wf_catch_def nav_get_def split: prod.splits sum.splits)
qed

definition unchanged_names :: "fetch_event list \<Rightarrow> 'm fetch_state \<Rightarrow> 'm fetch_state \<Rightarrow> bool" where
  "unchanged_names es s s' \<longleftrightarrow> target_now s' = target_now s \<and> has_socket s' = has_socket s \<and> (is_reusable s' \<longrightarrow> is_reusable s)"

lemma unchanged_composes [simp]: "composes unchanged_names"
  by (auto simp: composes_def unchanged_names_def)

lemma unchanged_close_target: "wf_rel unchanged_names (close_target w a)"
proof -
  have simple: "wf_rel unchanged_names (wf_ret x)" "wf_rel unchanged_names (wf_stop e)" "wf_rel unchanged_names (nav_get g)"
    "wf_rel unchanged_names mark_unusable" "wf_rel unchanged_names (cdp_send w m ps v q c st)" for x e g m ps v q c st
    by (auto simp: wf_rel_def unchanged_names_def wf_ret_def wf_stop_def nav_get_def nav_set_def mark_unusable_def
      cdp_send_def Let_def split: prod.splits)
  show ?thesis unfolding close_target_def cleanup_step_def by (auto intro!: rel_bind rel_catch simple)
qed

text \<open>The cleanup after a fetch: its end, unless it is cancelled itself.\<close>

lemma close_target_end:
  "snd (snd (close_target w a s)) = Inr () \<or> snd (snd (close_target w a s)) = Inl (Exn Cancelled)"
  by (auto simp: close_target_def cleanup_step_def wf_bind_def wf_catch_def nav_get_def mark_unusable_def nav_set_def
    wf_ret_def wf_stop_def is_cancelled_def split: prod.splits sum.splits if_splits)

lemma cleanup_step_end:
  "(\<And>s. snd (snd (h s)) = Inr ()) \<Longrightarrow>
    snd (snd (cleanup_step m h s)) = Inr () \<or> snd (snd (cleanup_step m h s)) = Inl (Exn Cancelled)"
  by (auto simp: cleanup_step_def wf_catch_def wf_stop_def is_cancelled_def split: prod.splits sum.splits if_splits)
    (metis snd_conv)

text \<open>The second part of the cleanup: the connection.\<close>

definition close_connection :: "'m nav_world \<Rightarrow> fetch_args \<Rightarrow> 'm fetch_state \<Rightarrow> ('m, unit) nav" where
  "close_connection w a s =
     (if owned_session a \<and> \<not> is_reusable s then cleanup_step (session_close w) (wf_ret ())
      else if \<not> owned_session a \<and> has_socket s then cleanup_step (socket_close w) (wf_ret ())
      else wf_ret ())"

lemma cleanup_alt:
  "fetch_cleanup w a = wf_bind (close_target w a) (\<lambda>_. wf_bind (nav_get id) (\<lambda>s.
     wf_bind (close_connection w a s) (\<lambda>_. nav_set (\<lambda>s. s\<lparr>packets := []\<rparr>))))"
  unfolding fetch_cleanup_def close_connection_def ..

lemma close_connection_end:
  "snd (snd (close_connection w a t s)) = Inr () \<or> snd (snd (close_connection w a t s)) = Inl (Exn Cancelled)"
  unfolding close_connection_def using cleanup_step_end [of "wf_ret ()"] by (auto simp: wf_ret_def)

lemma cleanup_end: "snd (snd (fetch_cleanup w a s)) = Inr () \<or> snd (snd (fetch_cleanup w a s)) = Inl (Exn Cancelled)"
proof -
  obtain es1 s1 r1 where c: "close_target w a s = (es1, s1, r1)" by (cases "close_target w a s") auto
  obtain es2 s2 r2 where d: "close_connection w a s1 s1 = (es2, s2, r2)" by (cases "close_connection w a s1 s1") auto
  show ?thesis using close_target_end [of w a s] close_connection_end [of w a s1 s1] c d
    by (auto simp: cleanup_alt wf_bind_def nav_get_def nav_set_def)
qed

lemma socket_closed: "Socket_closed \<in> set (fst (cleanup_step (socket_close w) h s))"
  by (auto simp: cleanup_step_def wf_catch_def socket_close_def split: prod.splits sum.splits)

lemma session_closed: "retained (fst (snd (cleanup_step (session_close w) (wf_ret ()) s))) = None"
  by (auto simp: cleanup_step_def wf_catch_def session_close_def wf_bind_def nav_get_def nav_set_def wf_ret_def wf_stop_def
    socket_close_def split: prod.splits sum.splits if_splits)

lemma connection_names: "wf_rel same_target (close_connection w a t)"
proof -
  have simple: "wf_rel same_target (wf_ret x)" "wf_rel same_target (wf_stop e)" "wf_rel same_target (nav_get g)"
    "wf_rel same_target (socket_close w)" "wf_rel same_target (nav_set (\<lambda>s. s\<lparr>retained := r\<rparr>))" for x e g r
    by (auto simp: wf_rel_def same_target_def wf_ret_def wf_stop_def nav_get_def nav_set_def socket_close_def split: prod.splits)
  show ?thesis unfolding close_connection_def cleanup_step_def session_close_def
    by (auto intro!: rel_bind rel_catch simple)
qed

text \<open>A cleanup that is not cancelled.\<close>

definition left_clean :: "fetch_args \<Rightarrow> 'm fetch_state \<Rightarrow> fetch_event list \<Rightarrow> 'm fetch_state \<Rightarrow> bool" where
  "left_clean a s es s' \<longleftrightarrow> target_now s' = target_now s \<and>
     (target_now s \<noteq> [] \<longrightarrow> Command ''Target.closeTarget'' [(''targetId'', JStr (target_now s))] None \<in> set es) \<and>
     (\<not> owned_session a \<and> has_socket s \<longrightarrow> Socket_closed \<in> set es) \<and>
     (owned_session a \<and> \<not> is_reusable s \<longrightarrow> retained s' = None)"

lemma cleanup_clean:
  assumes "fetch_cleanup w a s = (es, s', Inr ())" "target_connected s" "0 < cleanup_timeout a"
  shows "left_clean a s es s'"
proof -
  obtain es1 s1 es2 s2 where c: "close_target w a s = (es1, s1, Inr ())" "close_connection w a s1 s1 = (es2, s2, Inr ())"
      and s': "s' = s2\<lparr>packets := []\<rparr>" "es = es1 @ es2"
    using assms(1) unfolding cleanup_alt by (auto simp: nav_get_def nav_set_def elim!: wf_bind_Inr)
  have n: "target_now s1 = target_now s" "has_socket s1 = has_socket s" "is_reusable s1 \<longrightarrow> is_reusable s"
    using unchanged_close_target [of w a] c(1) unfolding wf_rel_def unchanged_names_def by (metis fst_conv snd_conv)+
  have t: "target_now s2 = target_now s1"
    using connection_names [of w a s1] c(2) unfolding wf_rel_def same_target_def by (metis fst_conv snd_conv)
  have "target_now s \<noteq> [] \<longrightarrow> Command ''Target.closeTarget'' [(''targetId'', JStr (target_now s))] None \<in> set es1"
    using close_target_log [of s a w] assms(2,3) c(1) by auto
  moreover have "\<not> owned_session a \<and> has_socket s \<longrightarrow> Socket_closed \<in> set es2"
    using socket_closed [of w "wf_ret ()" s1] c(2) n(2) by (auto simp: close_connection_def)
  moreover have "owned_session a \<and> \<not> is_reusable s \<longrightarrow> retained s2 = None"
    using session_closed [of w s1] c(2) n(3) by (auto simp: close_connection_def)
  ultimately show ?thesis using n(1) t s' by (simp add: left_clean_def)
qed

lemma cleanup_opens_nothing: "Socket_opened \<notin> set (fst (fetch_cleanup w a s))"
proof -
  define P where "P = (\<lambda>e. e = Socket_opened)"
  have simple: "quiet P (cdp_send w m ps v q c st)" "quiet P (socket_close w)" for m ps v q c st
    by (auto simp: P_def wf_bound_def cdp_send_def socket_close_def Let_def split: prod.splits)
  have "quiet P (session_close w)"
    unfolding session_close_def by (auto intro!: quiet_bind simple)
  then have "quiet P (fetch_cleanup w a)"
    unfolding fetch_cleanup_def close_target_def by (auto intro!: quiet_bind cleanup_step_quiet simple)
  then show ?thesis by (auto simp: wf_bound_def P_def filter_empty_conv)
qed

text \<open>
  C13 (safety). A fetch leaves nothing open: unless it is cancelled, the target it created is told to close, a socket of
  its own is closed, and a session that its owner lends is given up after any error, so that no later fetch
  finds it in an unknown state.
\<close>

theorem fetch_cleans_up:
  assumes "fetch_page w a s = (es, s', r)" "r \<noteq> Inl (Exn Cancelled)" "target_now s = []"
  shows "(target_now s' \<noteq> [] \<longrightarrow> Command ''Target.closeTarget'' [(''targetId'', JStr (target_now s'))] None \<in> set es) \<and>
    (\<not> owned_session a \<and> Socket_opened \<in> set es \<longrightarrow> Socket_closed \<in> set es) \<and>
    (owned_session a \<and> isl r \<and> es \<noteq> [] \<longrightarrow> retained s' = None)"
proof (cases "\<exists>t0 url s1. target_now s1 = [] \<and> timeouts_ok a \<and>
    wf_finally (wf_catch (fetch_body w a t0 url) fetch_error) (fetch_cleanup w a) s1 = (es, s', r)")
  case False
  then have "es = [] \<and> s' = s"
    using assms(1) by (auto simp: fetch_page_def wf_stop_def wf_bind_def nav_get_def nav_set_def split: if_splits sum.splits prod.splits)
  with assms(3) show ?thesis by simp
next
  case True
  then obtain t0 url s1 where s1: "target_now s1 = []" "timeouts_ok a" and
    run: "wf_finally (wf_catch (fetch_body w a t0 url) fetch_error) (fetch_cleanup w a) s1 = (es, s', r)" by blast
  obtain eb sb rb where b: "fetch_body w a t0 url s1 = (eb, sb, rb)" by (cases "fetch_body w a t0 url s1") auto
  have conn: "target_connected sb"
    using body_target [of w a t0 url] s1(1) b unfolding wf_triple_def by (cases rb) fastforce+
  define sc where "sc = (if isl rb then sb\<lparr>is_reusable := False\<rparr> else sb)"
  obtain rc where c: "wf_catch (fetch_body w a t0 url) fetch_error s1 = (eb, sc, rc)" "isl rc = isl rb"
    using b by (cases rb) (auto simp: sc_def wf_catch_def fetch_error_def mark_unusable_def nav_set_def nav_get_def
      wf_bind_def wf_stop_def)
  obtain ec sd rd where d: "fetch_cleanup w a sc = (ec, sd, rd)" by (cases "fetch_cleanup w a sc") auto
  have es: "es = eb @ ec" "s' = sd" "r = (case rd of Inl e \<Rightarrow> Inl e | Inr _ \<Rightarrow> rc)"
    using run c d by (auto simp: wf_finally_def split: sum.splits)
  have "rd = Inr ()" using cleanup_end [of w a sc] d es(3) assms(2) by auto
  moreover have "target_connected sc" "0 < cleanup_timeout a" using conn s1(2) by (auto simp: sc_def timeouts_ok_def)
  ultimately have clean: "left_clean a sc ec sd" using cleanup_clean [of w a sc ec sd] d by simp
  have sock: "has_socket sb" if "\<not> owned_session a" "Socket_opened \<in> set eb"
    using traced_body [OF that(1), of w t0 url] b that(2) unfolding wf_rel_def traced_def by (metis fst_conv snd_conv)
  have fin: "Socket_opened \<notin> set ec" using cleanup_opens_nothing [of w a sc] d by simp
  show ?thesis
    using clean es sock \<open>rd = Inr ()\<close> c(2) fin by (auto simp: left_clean_def sc_def split: if_splits)
qed

section \<open>A fetch of both forms\<close>

definition plain_fetch_events :: "pystr \<Rightarrow> json list" where
  "plain_fetch_events method =
     map (\<lambda>(name, ps). JObj [(''method'', JStr name), (''params'', JObj ps)])
       (if method = ''Target.createTarget''
        then [(''Target.attachedToTarget'', [(''sessionId'', JStr ''S''), (''targetInfo'', JObj [(''targetId'', JStr ''T'')])])]
        else if method = ''Page.navigate''
        then [(''Page.frameNavigated'', [(''frame'', JObj [(''id'', JStr ''F''), (''url'', JStr ''https://a.org/x'')])]),
              (''Network.responseReceived'', [(''type'', JStr ''Document''), (''frameId'', JStr ''F''), (''loaderId'', JStr ''L''),
                 (''requestId'', JStr ''L''), (''response'', JObj [(''status'', JInt 200), (''headers'', JObj [])])]),
              (''Network.loadingFinished'', [(''requestId'', JStr ''L''), (''encodedDataLength'', JInt 2)]),
              (''Page.frameStoppedLoading'', [(''frameId'', JStr ''F'')])]
        else [])"

definition plain_fetch_result :: "pystr \<Rightarrow> members" where
  "plain_fetch_result method =
     (if method = ''Target.createTarget'' then [(''targetId'', JStr ''T'')]
      else if method = ''Page.getFrameTree'' then [(''frameTree'', JObj [(''frame'', JObj [(''id'', JStr ''F'')])])]
      else if method = ''Page.navigate'' then [(''loaderId'', JStr ''L'')]
      else if method = ''DOM.getDocument'' then [(''root'', JObj [(''nodeId'', JInt 1)])]
      else if method = ''DOM.getOuterHTML'' then [(''outerHTML'', JStr ''<p>'')]
      else if method = ''Fetch.takeResponseBodyAsStream'' then [(''stream'', JStr ''H'')]
      else if method = ''IO.read'' then [(''data'', JStr ''hi''), (''eof'', JBool True)]
      else if method = ''Target.closeTarget'' then [(''success'', JBool True)]
      else [])"

definition plain_fetch_browser :: "unit nav_world" where
  "plain_fetch_browser = \<lparr>
     deliver = (\<lambda>i method seconds m. (\<lparr>arrived = plain_fetch_events method @
        [JObj [(''id'', JInt (int i)), (''result'', JObj (plain_fetch_result method))]], ended = Deadline\<rparr>, m)),
     listen = (\<lambda>b m. (\<lparr>arrived = [], ended = Deadline\<rparr>, m)),
     connect_socket = (\<lambda>m. (Connect_ok, m)), close_socket = (\<lambda>m. (None, m)), monotonic = (\<lambda>m. 0),
     guard_answer = (\<lambda>m. (True, m)), read_rounds = 2, cdp_token = replicate 32 (CHR ''t''), base64 = (\<lambda>s. None),
     other_str = (\<lambda>v. ''None''), float_int = 0, html_tokens = (\<lambda>t. Some []), join_url = (\<lambda>u v. Inr v),
     url_codec = \<lparr>idna_nonascii = (\<lambda>s. None), utf8_replace = (\<lambda>b. [])\<rparr>\<rparr>"

definition plain_fetch_args :: fetch_args where
  "plain_fetch_args = \<lparr>fetch_url = ''https://a.org/x'', cdp_url = ''ws://obscura'', wait_until = ''load'', http_allowed = False,
     onion_http = False, body_limit = 10, dom_limit = 10, want = ''both'', event_timeout = 5, setup_timeout = 10,
     cleanup_timeout = 5, total_timeout = 60, has_guard = True, owned_session = False\<rparr>"

definition plain_fetch_start :: "unit fetch_state" where
  "plain_fetch_start = \<lparr>retained = None, last_id = 0, packets = [], stage_now = [], is_reusable = True, has_cdp = False,
     has_socket = False, target_now = [], around = ()\<rparr>"

definition plain_fetch_page :: fetch_result where
  "plain_fetch_page = \<lparr>requested_url = ''https://a.org/x'', navigation_url = ''https://a.org/x'', final_url = ''https://a.org/x'',
     status = 200, status_text = [], headers = [], content_type = None, charset = None, frame_id = JStr ''F'',
     loader_id = ''L'', request_id = ''L'', is_text = True, byte_identity = False, completed_bytes = 2,
     rendered_html = Some ''<p>'', body = Some ''hi'', body_failure = None, challenge_found = None\<rparr>"

abbreviation plain_fetch :: "fetch_event list \<times> unit fetch_state \<times> (fetch_exn + fetch_result)" where
  "plain_fetch \<equiv> fetch_page plain_fetch_browser plain_fetch_args plain_fetch_start"

lemma plain_fetch_returns: "snd (snd plain_fetch) = Inr plain_fetch_page"
  by code_simp

lemma plain_fetch_names: "target_now (fst (snd plain_fetch)) = ''T'' \<and> Socket_opened \<in> set (fst plain_fetch)"
  by code_simp

lemma fetched_as_received_witness: "as_received plain_fetch_browser plain_fetch_args plain_fetch_page"
proof (rule fetched_as_received)
  show "fetch_page plain_fetch_browser plain_fetch_args plain_fetch_start =
      (fst plain_fetch, fst (snd plain_fetch), Inr plain_fetch_page)"
    using plain_fetch_returns by (metis prod.collapse)
qed

lemma fetch_cleans_up_witness:
  "Command ''Target.closeTarget'' [(''targetId'', JStr ''T'')] None \<in> set (fst plain_fetch) \<and> Socket_closed \<in> set (fst plain_fetch)"
  using fetch_cleans_up [of plain_fetch_browser plain_fetch_args plain_fetch_start "fst plain_fetch" "fst (snd plain_fetch)" "snd (snd plain_fetch)"]
    plain_fetch_returns plain_fetch_names
  by (simp add: plain_fetch_start_def plain_fetch_args_def)

end
