(* ===== verification/Spec2Isabelle.thy ===== *)
theory Spec2Isabelle
  imports Egress_Tunnel Provider_Search Result_Scoring X402_Payment Tor_Config Embedding_Proxy
    Host_Process Shared_Engine Embedding_Shim Myst_Cli
    Myst_Guard Tor_Health Beat_Watchdog Data_Init Document_Freshness Chat_Packets Stream_Continuation Content_Limits Image_Preparation Doc_Drop Browser_Fetch
begin

text \<open>
  A verification development for PrivateOnyxApp, a self-hosted research agent put together from containers:
  the Onyx chat application, the SearXNG metasearch engine, the Obscura browser, an egress proxy, Tor and
  Mysterium, and the scripts that prepare and watch them. The repository holds no application of its own
  but the parts between these: proxies, search engines, patches that are loaded into Onyx and SearXNG, and
  command-line tools. The development models these parts in their Python code under \<open>src/\<close>.

  \<^bold>\<open>How the parts interact.\<close> A search of the agent enters SearXNG, whose patched scheduler picks one provider
  at a time. A browser provider leases its slot, drives a retained browser session through the client and
  hands a vetted document to the engine's parser; the paid provider exchanges one request and at most one
  payment. Every outgoing connection of the containers passes the egress proxy, which decides on the
  destination before it dials, directly, through Tor or through the VPN that the Mysterium workflow pays for.
  Documents are crawled, checked for freshness and embedded through the shim and the lifecycle proxy of the
  local embedding server. Answers are streamed by the model, continued when the stream breaks, and their
  links rewritten on the way to the reader. Before all this starts, the tools under \<open>src/podman\<close>,
  \<open>src/tools\<close>, \<open>src/tor\<close> and \<open>src/embedserv\<close> check the engines, prepare data and configuration, claim the
  shared databases and write Tor's configuration.

  \<^bold>\<open>Library.\<close> \<open>Prelude\<close>: exceptions, fallible results (\<open>exn + 'a\<close>), computations that log their effects
  (\<open>('ev, 'e, 'a) eff\<close>) and asyncio's byte streams. \<open>Workflow\<close>: computations over a state of the
  surroundings that answers arbitrarily, with the lemmas that bound the events of a run and relate the states
  before and after it. \<open>PyText\<close>, \<open>PyLines\<close>,
  \<open>PyIp\<close>, \<open>PyUrl\<close>, \<open>PyData\<close>: what the code uses of Python's text, \<open>ipaddress\<close>, \<open>urllib.parse\<close> and
  \<open>json\<close>. \<open>Slot\<close>: the contract of a search provider's slot as a locale, interpreted by both kinds of
  providers.

  \<^bold>\<open>Egress proxy\<close>, \<open>src/egress/final_hop_proxy.py\<close>. \<open>Egress_Config\<close>: the module-level configuration,
  \<open>load_config\<close>. \<open>Egress_Dns\<close>: queries, responses and the provider resolver, \<open>_dns_query_a\<close>.
  \<open>Egress_Policy\<close>: addresses, names and grants, \<open>_validate_destination\<close>. \<open>Egress_Http\<close>: fields, framing and
  bodies, \<open>_forward_request_body\<close>. \<open>Egress_Proxy\<close>: SOCKS, CONNECT and the handlers, \<open>handle_request\<close>.
  \<open>Egress_Relay\<close>, \<open>Egress_Tunnel\<close>: what is relayed. Shown: whatever a client sends and the network answers,
  only pinned addresses are dialled, forwarded heads and bodies are neither split nor altered, nothing is
  forwarded in clear text on the public route when that is disabled (onion services behind Tor excepted), and a request is
  left without an answer only if its line is blank or an exception leaves the handler.

  \<^bold>\<open>Browser search.\<close> \<open>src/browser/obscura_client\<close>: \<open>Anubis\<close> (admission and the bounded solver),
  \<open>Obscura_Policy\<close> (URLs, declarations, headers), \<open>Page_Signals\<close> (block pages and challenges),
  \<open>Search_Client\<close> (\<open>submit_search\<close>, \<open>resume_anubis_pow\<close>), \<open>Search_Safety\<close> (what a transaction guarantees,
  whatever the browser replies), \<open>Browser_Fetch\<close> (\<open>fetch\<close>, the transport, the reusable session and the body
  stream; the rounds of reading are bounded by an argument, and running out of them is the deadline).
  \<open>src/searxng/engines/_obscura.py\<close>: \<open>Browser_Session\<close>, \<open>Provider_Pool\<close>,
  \<open>Provider_Search\<close>. Shown: one navigation and one form at most (and one more of each when a challenge is
  resumed), the query only after the whole preamble, no document, target or ambiguous session left behind, a page as it was received, leases exclusive under every interleaving, and the client refines what the session
  assumes of it.

  \<^bold>\<open>Scheduling and payment.\<close> \<open>Round_Robin\<close>, \<open>Result_Scoring\<close>: \<open>src/searxng/patches/sitecustomize.py\<close>.
  \<open>X402_Admission\<close>, \<open>X402_Payment\<close>, \<open>X402_Config\<close>: the paid engine, \<open>_x402_admission.py\<close>, \<open>_x402_payment.py\<close>,
  \<open>x402exa.py\<close>, \<open>x402_config.py\<close>. Shown: tiers are respected, no provider starves, a search ends, and an
  exchange pays once at most.

  \<^bold>\<open>Chat.\<close> Patches under \<open>src/onyx/patches/onyx_wrapper_patches\<close>. \<open>Stream_Continuation\<close>:
  \<open>api/inference_continuation.py\<close>, the loop of recovery requests. \<open>Chat_Links\<close>, \<open>Chat_Packets\<close>:
  \<open>api/python_artifacts.py\<close>, the incremental rewriting of Markdown links. \<open>Document_Freshness\<close>:
  \<open>background/document_freshness.py\<close>. Shown: a recovery repeats exactly what was sent and ends, what is
  streamed is what is stored, a link that is copied survives, and unchanged documents are not fetched.

  \<^bold>\<open>Embedding.\<close> \<open>Embedding_Proxy\<close>: \<open>src/embedserv/idle_embedding_proxy.py\<close>, the critical sections of
  \<open>Lifecycle\<close> and their interleavings. \<open>Embedding_Shim\<close>: \<open>src/onyx/local_embedding_shim.py\<close>. \<open>Host_Process\<close>:
  \<open>src/embedserv/host_process_manager.py\<close>. Shown: a child with a request in flight is never signalled, no wake-up is lost,
  vectors come back complete, in order and of length one, and only an owned process is terminated.

  \<^bold>\<open>Preparation and supervision.\<close> \<open>Tor_Config\<close>, \<open>Tor_Health\<close>: \<open>src/tor\<close>. \<open>Shared_Engine\<close>, \<open>Engine_Checks\<close>,
  \<open>Health_Config\<close>, \<open>Data_Init\<close>: \<open>src/podman\<close>. \<open>Myst_Cli\<close>, \<open>Myst_Guard\<close>: \<open>src/myst\<close>. \<open>Beat_Watchdog\<close>:
  \<open>src/onyx/beat_liveness_watchdog.py\<close>.
  Shown: settings are read back as written and rendered without injection, engine families never write the
  shared data together, orders are created once and only when needed, waits end.

  \<^bold>\<open>Components and configuration.\<close> \<open>src/tools/components\<close>: \<open>Component_Pins\<close> (\<open>manage.py\<close>: pins, image references,
  reconciliation, revisions), \<open>Env_Edit\<close> and \<open>Config_Prepare\<close> (\<open>configuration.py\<close>: the environment file, the stamp
  and the installation), \<open>Image_Preparation\<close> (\<open>preparation.py\<close>: the images of the active model).
  \<open>Content_Limits\<close>: the limits on what the model is given and the readers of the patches' settings.
  \<open>Doc_Drop\<close>: \<open>src/onyx/doc_drop_webserver.py\<close>. Shown: selected values are read back, a half-finished
  installation has no stamp, only reviewed images of the active model are pulled and each active service gets one that was seen, and the document
  drop serves what lies below its directory without hidden names and links, but for an index page, which it does not check.

  \<^bold>\<open>Conventions.\<close> A Python \<open>str\<close> is a list of characters up to code point 255; each theory says when text
  beyond that matters. Effects are values: a handler is the log of what it does and its result, a command is
  a computation over a world that answers arbitrarily. Concurrency is a step relation whose steps are the
  critical sections of the code. A raise is a branch of a sum type. Fallible loops are recursions with a
  measure; the one that may run for ever, \<open>stream_loop\<close>, is a partial function whose value \<open>None\<close> is not
  returning. Waits are recursions over the readings of the clock or over their bound: twenty-five readings for
  a registration, the seconds plus one for a readiness wait, the number of nonces for the solver; the lemmas
  on their ends show that the bound is enough.

  \<^bold>\<open>Arguments of the model.\<close> Code that is not in the repository is an argument with no assumption unless a
  lemma names one: the network, resolvers, the browser's replies, the engines' command-line tools, \<open>ps\<close>,
  clocks, tokens (fresh numbers), \<open>json.loads\<close> and \<open>json.dumps\<close>, HTML and date parsers, \<open>Decimal\<close>,
  \<open>hashlib\<close>, the HTTP client, the x402 SDK, and Onyx' and SearXNG's own functions that the patches wrap.

  \<^bold>\<open>Abstractions.\<close> Times and floats are rationals, a JSON number with a fraction is one value; log lines,
  printed texts and most error messages are left out; a Python set is the list in its iteration order; writes
  to a socket are taken to reach the transport.

  \<^bold>\<open>Not modelled.\<close> The installation of the patches (comparison of signatures and sources, replacement of
  functions, prompt texts), because it acts on code outside the repository; the tracing of reasoning and the
  deep research, capability and open-url patches, which rewrite Onyx' source text; the HTML parsers of the
  single engines; argparse, server loops and printing. The
  manifest lists every such part with its reason.
\<close>

end
